(* ===== verification/Prelude.thy ===== *)
theory Prelude
  imports Main "HOL-Library.AList" "HOL-Library.Char_ord" "HOL-Library.List_Lexorder"
    "HOL-Library.Product_Lexorder"
begin

text \<open>
  What the components share: Python strings as lists of characters, dictionaries that keep
  their insertion order as association lists, stable sorting, and the truth value of an
  optional string. Characters are the code points below 256, so a text of the program is
  modelled as long as it stays within Latin-1; the character classes below follow Python's
  Unicode rules on that range. Sequences and tuples compare lexicographically, as they do in
  Python, through the orders of the library theories imported here.
\<close>


section \<open>Errors and optional values\<close>

text \<open>Sequencing of computations that may raise.\<close>

definition bind_res :: "'e + 'a \<Rightarrow> ('a \<Rightarrow> 'e + 'b) \<Rightarrow> 'e + 'b" where
  "bind_res m f = (case m of Inl e \<Rightarrow> Inl e | Inr x \<Rightarrow> f x)"

lemma bind_res_Inr [simp]: "bind_res (Inr x) f = f x"
  and bind_res_Inl [simp]: "bind_res (Inl e) f = Inl e"
  by (simp_all add: bind_res_def)

lemma bind_res_eq_Inr [simp]: "bind_res m f = Inr y \<longleftrightarrow> (\<exists>x. m = Inr x \<and> f x = Inr y)"
  by (cases m) simp_all

lemma bind_res_eq_Inl: "bind_res m f = Inl e \<longleftrightarrow> m = Inl e \<or> (\<exists>x. m = Inr x \<and> f x = Inl e)"
  by (cases m) auto

text \<open>The value of \<open>x or y\<close> for an optional string: an absent or empty \<open>x\<close> gives \<open>y\<close>.\<close>

definition or_str :: "string option \<Rightarrow> string \<Rightarrow> string" where
  "or_str x y = (case x of None \<Rightarrow> y | Some s \<Rightarrow> if s = [] then y else s)"

text \<open>Python's truth value of an optional string.\<close>

definition truthy :: "string option \<Rightarrow> bool" where
  "truthy x = (case x of None \<Rightarrow> False | Some s \<Rightarrow> s \<noteq> [])"

lemma truthy_simps [simp]: "truthy None = False" "truthy (Some s) = (s \<noteq> [])"
  by (simp_all add: truthy_def)

lemma or_str_simps [simp]: "or_str None y = y" "or_str (Some s) y = (if s = [] then y else s)"
  by (simp_all add: or_str_def)

lemma truthy_iff: "truthy x \<longleftrightarrow> (\<exists>s. x = Some s \<and> s \<noteq> [])"
  by (cases x) simp_all

section \<open>Characters\<close>

definition code_in :: "nat \<Rightarrow> nat \<Rightarrow> char \<Rightarrow> bool" where
  "code_in lo hi c \<longleftrightarrow> lo \<le> of_char c \<and> of_char c \<le> (hi :: nat)"

definition is_digit :: "char \<Rightarrow> bool" where
  "is_digit = code_in 48 57"

definition is_lower :: "char \<Rightarrow> bool" where
  "is_lower = code_in 97 122"

definition is_upper :: "char \<Rightarrow> bool" where
  "is_upper = code_in 65 90"

text \<open>\<open>str.isspace\<close> and the class \<open>\s\<close>, on the range of the model.\<close>

definition is_space :: "char \<Rightarrow> bool" where
  "is_space c \<longleftrightarrow> code_in 9 13 c \<or> code_in 28 32 c \<or> c = CHR 0x85 \<or> c = CHR 0xA0"

text \<open>The class \<open>\w\<close>: letters, digits and numerics of Latin-1, and the underscore.\<close>

definition is_word :: "char \<Rightarrow> bool" where
  "is_word c \<longleftrightarrow> is_digit c \<or> is_lower c \<or> is_upper c \<or> c = CHR ''_''
     \<or> c \<in> {CHR 0xAA, CHR 0xB2, CHR 0xB3, CHR 0xB5, CHR 0xB9, CHR 0xBA, CHR 0xBC, CHR 0xBD, CHR 0xBE}
     \<or> (code_in 192 255 c \<and> c \<noteq> CHR 0xD7 \<and> c \<noteq> CHR 0xF7)"

definition lower_char :: "char \<Rightarrow> char" where
  "lower_char c =
     (if is_upper c \<or> (code_in 192 222 c \<and> c \<noteq> CHR 0xD7) then char_of (of_char c + 32 :: nat) else c)"

definition upper_ascii :: "char \<Rightarrow> char" where
  "upper_ascii c = (if is_lower c then char_of (of_char c - 32 :: nat) else c)"

lemmas char_class_defs = code_in_def is_digit_def is_lower_def is_upper_def is_space_def is_word_def
  lower_char_def upper_ascii_def

section \<open>Strings\<close>

definition lower :: "string \<Rightarrow> string" where
  "lower = map lower_char"

text \<open>\<open>str.upper\<close>; the sharp s becomes two letters, and what has its capital elsewhere stays.\<close>

definition upper :: "string \<Rightarrow> string" where
  "upper s = concat (map (\<lambda>c.
     if c = CHR 0xDF then ''SS''
     else if code_in 224 254 c \<and> c \<noteq> CHR 0xF7 then [char_of (of_char c - 32 :: nat)]
     else [upper_ascii c]) s)"

definition startswith :: "string \<Rightarrow> string \<Rightarrow> bool" where
  "startswith s p \<longleftrightarrow> take (length p) s = p"

definition endswith :: "string \<Rightarrow> string \<Rightarrow> bool" where
  "endswith s p \<longleftrightarrow> startswith (rev s) (rev p)"

definition removesuffix :: "string \<Rightarrow> string \<Rightarrow> string" where
  "removesuffix s p = (if p \<noteq> [] \<and> endswith s p then take (length s - length p) s else s)"

definition removeprefix :: "string \<Rightarrow> string \<Rightarrow> string" where
  "removeprefix s p = (if startswith s p then drop (length p) s else s)"

definition rstrip_with :: "(char \<Rightarrow> bool) \<Rightarrow> string \<Rightarrow> string" where
  "rstrip_with p s = rev (dropWhile p (rev s))"

definition strip :: "string \<Rightarrow> string" where
  "strip s = rstrip_with is_space (dropWhile is_space s)"

text \<open>\<open>s.split(c)\<close> for one separator character: never an empty list.\<close>

fun split_on :: "char \<Rightarrow> string \<Rightarrow> string list" where
  "split_on c [] = [[]]"
| "split_on c (x # xs) =
     (if x = c then [] # split_on c xs
      else case split_on c xs of [] \<Rightarrow> [[x]] | w # ws \<Rightarrow> (x # w) # ws)"

text \<open>\<open>s.split(c, 1)\<close> as the part before the first \<open>c\<close> and, if there is one, the part after it.\<close>

fun cut :: "char \<Rightarrow> string \<Rightarrow> string \<times> string option" where
  "cut c [] = ([], None)"
| "cut c (x # xs) = (if x = c then ([], Some xs) else case cut c xs of (a, b) \<Rightarrow> (x # a, b))"

fun join :: "string \<Rightarrow> string list \<Rightarrow> string" where
  "join sep [] = []"
| "join sep [w] = w"
| "join sep (w # v # ws) = w @ sep @ join sep (v # ws)"

text \<open>\<open>Path(s).name\<close>: the last component, dots and empty components aside.\<close>

definition path_name :: "string \<Rightarrow> string" where
  "path_name s = (let parts = filter (\<lambda>p. p \<noteq> [] \<and> p \<noteq> ''.'') (split_on CHR ''/'' s) in
     if parts = [] then [] else last parts)"

text \<open>\<open>s.rstrip("/")\<close>.\<close>

definition rstrip_slashes :: "string \<Rightarrow> string" where
  "rstrip_slashes = rstrip_with (\<lambda>c. c = CHR ''/'')"

text \<open>\<open>xs.index(x)\<close> is the position of the first item equal to \<open>x\<close>, if there is one.\<close>

definition index_of :: "'a \<Rightarrow> 'a list \<Rightarrow> nat" where
  "index_of x xs = length (takeWhile (\<lambda>y. y \<noteq> x) xs)"

text \<open>\<open>p in s\<close>: \<open>p\<close> occurs as a substring.\<close>

fun occurs_in :: "string \<Rightarrow> string \<Rightarrow> bool" where
  "occurs_in p [] = (p = [])"
| "occurs_in p (c # cs) = (startswith (c # cs) p \<or> occurs_in p cs)"

lemma split_on_neq_Nil [simp]: "split_on c s \<noteq> []"
  by (induction s) (auto split: list.splits)

lemma join_split_on: "join [c] (split_on c s) = s"
proof (induction s)
  case (Cons x xs)
  then show ?case
    by (cases "split_on c xs"; cases "tl (split_on c xs)") (auto split: list.splits)
qed simp

lemma split_on_no_sep: "w \<in> set (split_on c s) \<Longrightarrow> c \<notin> set w"
  by (induction s arbitrary: w) (auto split: if_splits list.splits)

lemma split_on_id: "c \<notin> set s \<Longrightarrow> split_on c s = [s]"
  by (induction s) auto

lemma split_on_append: "c \<notin> set w \<Longrightarrow> split_on c (w @ c # s) = w # split_on c s"
  by (induction w) auto

lemma split_on_join:
  "ws \<noteq> [] \<Longrightarrow> \<forall>w \<in> set ws. c \<notin> set w \<Longrightarrow> split_on c (join [c] ws) = ws"
  by (induction "[c]" ws rule: join.induct) (auto simp: split_on_id split_on_append)

lemma cut_None: "snd (cut c s) = None \<longleftrightarrow> c \<notin> set s"
  by (induction s) (auto split: prod.splits)

lemma cut_no_sep: "c \<notin> set (fst (cut c s))"
  by (induction s) (auto split: prod.splits)

lemma cut_join: "cut c s = (a, Some b) \<Longrightarrow> s = a @ c # b"
  by (induction s arbitrary: a) (auto split: if_splits prod.splits)

lemma startswith_append [simp]: "startswith (p @ s) p"
  by (simp add: startswith_def)

lemma startswith_iff: "startswith s p \<longleftrightarrow> (\<exists>r. s = p @ r)"
  by (metis append_take_drop_id startswith_append startswith_def)

lemma occurs_in_iff: "occurs_in p s \<longleftrightarrow> (\<exists>a b. s = a @ p @ b)"
proof (induction s)
  case (Cons c cs)
  show ?case
  proof
    assume "occurs_in p (c # cs)"
    then consider "startswith (c # cs) p" | "occurs_in p cs" by auto
    then show "\<exists>a b. c # cs = a @ p @ b"
      using Cons.IH by cases (metis append_Nil startswith_iff, metis append_Cons)
  next
    assume "\<exists>a b. c # cs = a @ p @ b"
    then obtain a b where ab: "c # cs = a @ p @ b" by blast
    show "occurs_in p (c # cs)"
    proof (cases a)
      case Nil
      with ab have "startswith (c # cs) p" by (simp add: startswith_iff)
      then show ?thesis by simp
    next
      case (Cons _ a')
      with ab Cons.IH show ?thesis by auto
    qed
  qed
qed auto

lemma strip_id: "s = [] \<or> (\<not> is_space (hd s) \<and> \<not> is_space (last s)) \<Longrightarrow> strip s = s"
proof -
  assume s: "s = [] \<or> (\<not> is_space (hd s) \<and> \<not> is_space (last s))"
  show ?thesis
  proof (cases "s = []")
    case False
    with s have "dropWhile is_space s = s" by (cases s) auto
    moreover have "dropWhile is_space (rev s) = rev s"
      using False s by (metis dropWhile_eq_self_iff hd_rev)
    ultimately show ?thesis by (simp add: strip_def rstrip_with_def)
  qed (simp add: strip_def rstrip_with_def)
qed

section \<open>Lines\<close>

text \<open>\<open>str.splitlines\<close>: a carriage return with a line feed after it is one break.\<close>

definition is_break :: "char \<Rightarrow> bool" where
  "is_break c \<longleftrightarrow> code_in 10 13 c \<or> code_in 28 30 c \<or> c = CHR 0x85"

function split_lines :: "string \<Rightarrow> string list" where
  "split_lines [] = []"
| "split_lines (c # cs) =
     (if is_break c then [] # split_lines (case cs of d # ds \<Rightarrow> if c = CHR 0x0D \<and> d = CHR 0x0A then ds else cs | [] \<Rightarrow> [])
      else (case split_lines cs of [] \<Rightarrow> [[c]] | w # ws \<Rightarrow> (c # w) # ws))"
  by pat_completeness auto
termination
  by (relation "measure length") (auto split: list.splits)

lemma split_lines_line:
  "list_all (\<lambda>c. \<not> is_break c) w \<Longrightarrow> split_lines (w @ [CHR 0x0A]) = [w]"
  by (induction w) (simp_all add: is_break_def code_in_def)

lemma split_lines_append:
  "t = [] \<or> last t = CHR 0x0A \<Longrightarrow> split_lines (t @ u) = split_lines t @ split_lines u"
proof (induction t rule: split_lines.induct)
  case (2 c cs)
  show ?case
  proof (cases "is_break c")
    case True
    show ?thesis
    proof (cases cs)
      case Nil
      have "c = CHR 0x0A" using 2(3) Nil by simp
      then show ?thesis using Nil True by (simp split: list.splits)
    next
      case (Cons d ds)
      let ?x = "case cs of d # ds \<Rightarrow> if c = CHR 0x0D \<and> d = CHR 0x0A then ds else cs | [] \<Rightarrow> []"
      have "?x = [] \<or> last ?x = CHR 0x0A" using 2(3) Cons by (auto split: if_splits)
      from 2(1) [OF True this] have IH: "split_lines (?x @ u) = split_lines ?x @ split_lines u" .
      show ?thesis using IH Cons True by (auto split: if_splits)
    qed
  next
    case False
    then have cs: "cs \<noteq> []" "last cs = CHR 0x0A" using 2(3) by (auto simp: is_break_def code_in_def split: if_splits)
    then have "split_lines cs \<noteq> []" by (cases cs) (auto split: list.splits)
    with False cs 2(2) [OF False] show ?thesis by (auto split: list.splits)
  qed
qed simp

section \<open>Dictionaries\<close>

text \<open>
  A dictionary that is only looked up is a map; one whose order or keys are listed is an
  association list with \<^const>\<open>AList.update\<close>, which replaces a value in place and appends a new
  key, as Python does. Both promise the same laws, collected in a locale: what a program builds
  with \<open>d[k] = f(d.get(k))\<close> over a list of items, whatever the representation.
\<close>

definition tally_step :: "('d \<Rightarrow> 'k \<Rightarrow> 'v option) \<Rightarrow> ('k \<Rightarrow> 'v \<Rightarrow> 'd \<Rightarrow> 'd)
    \<Rightarrow> ('x \<Rightarrow> 'k) \<Rightarrow> ('x \<Rightarrow> 'v option \<Rightarrow> 'v) \<Rightarrow> 'x \<Rightarrow> 'd \<Rightarrow> 'd" where
  "tally_step look upd key f x d = upd (key x) (f x (look d (key x))) d"

definition tally :: "('d \<Rightarrow> 'k \<Rightarrow> 'v option) \<Rightarrow> ('k \<Rightarrow> 'v \<Rightarrow> 'd \<Rightarrow> 'd)
    \<Rightarrow> ('x \<Rightarrow> 'k) \<Rightarrow> ('x \<Rightarrow> 'v option \<Rightarrow> 'v) \<Rightarrow> 'x list \<Rightarrow> 'd \<Rightarrow> 'd" where
  "tally look upd key f xs d = fold (tally_step look upd key f) xs d"

locale dictionary =
  fixes look :: "'d \<Rightarrow> 'k \<Rightarrow> 'v option"
    and upd :: "'k \<Rightarrow> 'v \<Rightarrow> 'd \<Rightarrow> 'd"
    and emp :: "'d"
  assumes look_emp: "look emp k = None"
    and look_upd: "look (upd k v d) k' = (if k' = k then Some v else look d k')"
begin

lemma look_tally:
  "look (tally look upd key f xs d) k
     = fold (\<lambda>x v. Some (f x v)) (filter (\<lambda>x. key x = k) xs) (look d k)"
  by (induction xs arbitrary: d) (auto simp: tally_def tally_step_def look_upd)

lemma look_tally_other:
  "k \<notin> key ` set xs \<Longrightarrow> look (tally look upd key f xs d) k = look d k"
proof -
  assume "k \<notin> key ` set xs"
  then have "filter (\<lambda>x. key x = k) xs = []" by (auto simp: filter_empty_conv)
  then show ?thesis by (simp add: look_tally)
qed

lemma look_tally_count:
  "look (tally look upd key (\<lambda>_ v. case v of None \<Rightarrow> one | Some n \<Rightarrow> suc n) xs emp) k
     = (if k \<in> key ` set xs
        then Some ((suc ^^ (length (filter (\<lambda>x. key x = k) xs) - 1)) one) else None)"
proof -
  have count: "fold (\<lambda>x v. Some (case v of None \<Rightarrow> one | Some n \<Rightarrow> suc n)) ys (Some m)
      = Some ((suc ^^ length ys) m)" for ys :: "'b list" and m
    by (induction ys arbitrary: m) (auto simp: funpow_swap1)
  show ?thesis
  proof (cases "filter (\<lambda>x. key x = k) xs")
    case Nil
    then show ?thesis by (auto simp: look_tally look_emp filter_empty_conv)
  next
    case (Cons y ys)
    then have "y \<in> set xs" "key y = k" by (auto dest: filter_eq_ConsD)
    with Cons show ?thesis by (auto simp: look_tally look_emp count)
  qed
qed

end

interpretation alist_dict: dictionary map_of AList.update "[]"
  by unfold_locales (simp_all add: update_conv')

named_theorems dict_simps \<open>lookups in dictionaries after updates\<close>

lemma lookup_update [dict_simps]:
  "map_of (AList.update k v d) k' = (if k' = k then Some v else map_of d k')"
  by (simp add: update_conv')

lemma lookup_updates [dict_simps]:
  "map_of (fold (\<lambda>(k, v). AList.update k v) ws d) k
     = (case map_of (rev ws) k of None \<Rightarrow> map_of d k | Some v \<Rightarrow> Some v)"
  by (induction ws arbitrary: d) (auto simp: lookup_update map_add_def split: option.splits)

lemma distinct_keys_updates:
  "distinct (map fst d) \<Longrightarrow> distinct (map fst (fold (\<lambda>(k, v). AList.update k v) ws d))"
  by (induction ws arbitrary: d) (simp_all add: distinct_update case_prod_unfold)

interpretation map_dict: dictionary "\<lambda>m. m" "\<lambda>k v m. m(k \<mapsto> v)" Map.empty
  by unfold_locales simp_all

text \<open>\<open>d.setdefault(k, []).append(v)\<close> over a list of items.\<close>

definition group_by :: "('x \<Rightarrow> 'k) \<Rightarrow> 'x list \<Rightarrow> ('k \<times> 'x list) list" where
  "group_by key xs =
     tally map_of AList.update key (\<lambda>x v. (case v of None \<Rightarrow> [] | Some ys \<Rightarrow> ys) @ [x]) xs []"

text \<open>\<open>d[k] = d.get(k, 0) + 1\<close> over a list of items.\<close>

definition count_by :: "('x \<Rightarrow> 'k) \<Rightarrow> 'x list \<Rightarrow> ('k \<times> nat) list" where
  "count_by key xs =
     tally map_of AList.update key (\<lambda>_ v. case v of None \<Rightarrow> 1 | Some n \<Rightarrow> Suc n) xs []"

lemma group_by_lookup:
  "map_of (group_by key xs) k
     = (if k \<in> key ` set xs then Some (filter (\<lambda>x. key x = k) xs) else None)"
proof -
  have app: "fold (\<lambda>x v. Some ((case v of None \<Rightarrow> [] | Some ys \<Rightarrow> ys) @ [x])) ys (Some acc)
      = Some (acc @ ys)" for ys acc :: "'a list"
    by (induction ys arbitrary: acc) auto
  show ?thesis
  proof (cases "filter (\<lambda>x. key x = k) xs")
    case Nil
    then show ?thesis
      by (auto simp: group_by_def alist_dict.look_tally filter_empty_conv)
  next
    case (Cons y ys)
    then have "y \<in> set xs" "key y = k" by (auto dest: filter_eq_ConsD)
    with Cons show ?thesis
      by (auto simp: group_by_def alist_dict.look_tally app)
  qed
qed

lemma count_by_lookup:
  "map_of (count_by key xs) k
     = (if k \<in> key ` set xs then Some (length (filter (\<lambda>x. key x = k) xs)) else None)"
proof -
  have "(Suc ^^ n) 1 = Suc n" for n by (induction n) auto
  moreover have "k \<in> key ` set xs \<Longrightarrow> 0 < length (filter (\<lambda>x. key x = k) xs)"
    by (auto simp: filter_empty_conv)
  ultimately show ?thesis
    by (simp add: count_by_def alist_dict.look_tally_count)
qed

lemma distinct_keys_tally:
  "distinct (map fst d) \<Longrightarrow> distinct (map fst (tally map_of AList.update key f xs d))"
  by (induction xs arbitrary: d) (simp_all add: tally_def tally_step_def distinct_update)

lemma distinct_keys_group_by: "distinct (map fst (group_by key xs))"
  by (simp add: group_by_def distinct_keys_tally)

lemma keys_group_by: "fst ` set (group_by key xs) = key ` set xs"
proof -
  have "fst ` set (group_by key xs) = dom (map_of (group_by key xs))"
    by (simp add: dom_map_of_conv_image_fst)
  also have "\<dots> = key ` set xs"
    by (auto simp: dom_def group_by_lookup)
  finally show ?thesis .
qed

lemma in_group_by:
  "(k, ys) \<in> set (group_by key xs) \<longleftrightarrow> k \<in> key ` set xs \<and> ys = filter (\<lambda>x. key x = k) xs"
proof -
  have "(k, ys) \<in> set (group_by key xs) \<longleftrightarrow> map_of (group_by key xs) k = Some ys"
    using distinct_keys_group_by by (metis map_of_eq_Some_iff)
  then show ?thesis by (auto simp: group_by_lookup)
qed

text \<open>\<open>dict.fromkeys\<close>: the first of equal items stays.\<close>

definition fromkeys :: "'a list \<Rightarrow> 'a list" where
  "fromkeys xs = rev (remdups (rev xs))"

lemma set_fromkeys [simp]: "set (fromkeys xs) = set xs"
  by (simp add: fromkeys_def)

section \<open>Sorting and searching\<close>

text \<open>\<open>min\<close> and \<open>max\<close> with a key keep the first extremal element.\<close>

fun max_by :: "('a \<Rightarrow> 'b::linorder) \<Rightarrow> 'a \<Rightarrow> 'a list \<Rightarrow> 'a" where
  "max_by key b [] = b"
| "max_by key b (x # xs) = max_by key (if key b < key x then x else b) xs"

lemma max_by_in: "max_by key b xs \<in> insert b (set xs)"
proof (induction xs arbitrary: b)
  case (Cons x xs)
  then show ?case using Cons.IH[of "if key b < key x then x else b"] by auto
qed simp

lemma max_by_ge: "y \<in> insert b (set xs) \<Longrightarrow> key y \<le> key (max_by key b xs)"
proof (induction xs arbitrary: b y)
  case (Cons x xs)
  let ?b = "if key b < key x then x else b"
  have b: "key ?b \<le> key (max_by key ?b xs)" by (rule Cons.IH) simp
  consider "y = b \<or> y = x" | "y \<in> set xs" using Cons.prems by auto
  then show ?case
  proof cases
    case 1
    then have "key y \<le> key ?b" by auto
    with b show ?thesis by simp
  next
    case 2
    then show ?thesis using Cons.IH[of y ?b] by simp
  qed
qed simp

lemma find_Some_iff_in: "find P xs = Some x \<Longrightarrow> x \<in> set xs \<and> P x"
  by (induction xs) (auto split: if_splits)

lemma find_None_iff_ball: "find P xs = None \<longleftrightarrow> (\<forall>x \<in> set xs. \<not> P x)"
  by (auto simp: find_None_iff)

lemma hd_sort_key_le:
  "xs \<noteq> [] \<Longrightarrow> x \<in> set xs \<Longrightarrow> f (hd (sort_key f xs)) \<le> f x"
proof -
  assume "xs \<noteq> []" "x \<in> set xs"
  then have "sort_key f xs \<noteq> []" "x \<in> set (sort_key f xs)"
    by (auto simp flip: set_empty)
  moreover have "sorted (map f (sort_key f xs))" by simp
  ultimately show ?thesis by (cases "sort_key f xs") auto
qed

lemma hd_sort_key_in: "xs \<noteq> [] \<Longrightarrow> hd (sort_key f xs) \<in> set xs"
  by (metis hd_in_set set_empty set_sort)

lemma in_map_filter: "y \<in> set (List.map_filter f xs) \<longleftrightarrow> (\<exists>x \<in> set xs. f x = Some y)"
  by (induction xs) (auto split: option.splits)

lemma map_of_filter: "map_of xs k = (case filter (\<lambda>p. fst p = k) xs of [] \<Rightarrow> None | p # _ \<Rightarrow> Some (snd p))"
  by (induction xs) auto

lemma map_of_sort_key: "map_of (sort_key fst xs) k = map_of xs k"
  by (simp add: map_of_filter sort_key_stable)

end
