(* ===== verification/Py_Regex.thy ===== *)
theory Py_Regex
  imports Prelude
begin

text \<open>
  Python's \<open>re\<close>, as far as the program uses it: character classes, concatenation, ordered
  alternatives, bounded and unbounded repetition (greedy or lazy), numbered groups, anchors and
  negative lookahead. A matcher is run on a position of the text (the characters before it, last
  one first, and the characters after it) and returns every way to match from there in the order
  in which the backtracking engine tries them, so that the first one is the engine's match.
  \<open>search\<close>, \<open>finditer\<close> and \<open>sub\<close> are built on that and are generic in the matcher; what they
  need of it is the locale \<open>matcher\<close>. The bodies of repetitions never match the empty text in
  the program's patterns, which \<open>rx_ok\<close> checks.
\<close>

datatype anchor = Bos | Bol | Eos | Eol | Word_boundary

datatype rx =
    Eps
  | Cls "char \<Rightarrow> bool"
  | Cat rx rx
  | Alt rx rx
  | Rep nat "nat option" bool rx   \<comment> \<open>least and greatest count, greedy or lazy\<close>
  | Grp nat rx
  | At anchor
  | Not_ahead rx

text \<open>A position with the groups captured so far: before (reversed), after, groups.\<close>

type_synonym rst = "string \<times> string \<times> (nat \<times> string) list"

fun anchor_holds :: "anchor \<Rightarrow> string \<Rightarrow> string \<Rightarrow> bool" where
  "anchor_holds Bos b s = (b = [])"
| "anchor_holds Bol b s = (b = [] \<or> hd b = CHR 0x0A)"
| "anchor_holds Eos b s = (s = [] \<or> s = [CHR 0x0A])"
| "anchor_holds Eol b s = (s = [] \<or> hd s = CHR 0x0A)"
| "anchor_holds Word_boundary b s =
     ((b \<noteq> [] \<and> is_word (hd b)) \<noteq> (s \<noteq> [] \<and> is_word (hd s)))"

definition dec_max :: "nat option \<Rightarrow> nat option" where
  "dec_max hi = map_option (\<lambda>n. n - 1) hi"

text \<open>Repetition of a step; the fuel is one more than the characters left, see \<open>run_iff\<close>.\<close>

fun reps :: "(rst \<Rightarrow> rst list) \<Rightarrow> nat \<Rightarrow> nat \<Rightarrow> nat option \<Rightarrow> bool \<Rightarrow> rst \<Rightarrow> rst list" where
  "reps f 0 lo hi g st = []"
| "reps f (Suc n) lo hi g st =
     (let more = (if hi = Some 0 then [] else
            concat (map (reps f n (lo - 1) (dec_max hi) g) (f st)));
          stop = (if lo = 0 then [st] else [])
      in if g then more @ stop else stop @ more)"

primrec run :: "rx \<Rightarrow> rst \<Rightarrow> rst list" where
  "run Eps = (\<lambda>st. [st])"
| "run (Cls p) = (\<lambda>(b, s, c). case s of [] \<Rightarrow> [] | x # xs \<Rightarrow> if p x then [(x # b, xs, c)] else [])"
| "run (Cat r q) = (\<lambda>st. concat (map (run q) (run r st)))"
| "run (Alt r q) = (\<lambda>st. run r st @ run q st)"
| "run (Rep lo hi g r) = (\<lambda>st. reps (run r) (Suc (length (fst (snd st)))) lo hi g st)"
| "run (Grp k r) = (\<lambda>(b, s, c). map (\<lambda>(b', s', c').
      (b', s', (k, rev (take (length b' - length b) b')) # c')) (run r (b, s, c)))"
| "run (At a) = (\<lambda>(b, s, c). if anchor_holds a b s then [(b, s, c)] else [])"
| "run (Not_ahead r) = (\<lambda>st. if run r st = [] then [st] else [])"

section \<open>What a match is\<close>

text \<open>\<open>matches r b t z\<close>: the text \<open>t\<close>, with \<open>b\<close> (reversed) before and \<open>z\<close> after it, matches \<open>r\<close>.\<close>

inductive matches :: "rx \<Rightarrow> string \<Rightarrow> string \<Rightarrow> string \<Rightarrow> bool" where
  eps: "matches Eps b [] z"
| cls: "p x \<Longrightarrow> matches (Cls p) b [x] z"
| cat: "matches r b t (u @ z) \<Longrightarrow> matches q (rev t @ b) u z \<Longrightarrow> matches (Cat r q) b (t @ u) z"
| altl: "matches r b t z \<Longrightarrow> matches (Alt r q) b t z"
| altr: "matches q b t z \<Longrightarrow> matches (Alt r q) b t z"
| stop: "matches (Rep 0 hi g r) b [] z"
| more: "hi \<noteq> Some 0 \<Longrightarrow> matches r b t (u @ z) \<Longrightarrow>
    matches (Rep (lo - 1) (dec_max hi) g r) (rev t @ b) u z \<Longrightarrow>
    matches (Rep lo hi g r) b (t @ u) z"
| grp: "matches r b t z \<Longrightarrow> matches (Grp k r) b t z"
| at: "anchor_holds a b z \<Longrightarrow> matches (At a) b [] z"
| ahead: "run r (b, z, []) = [] \<Longrightarrow> matches (Not_ahead r) b [] z"

inductive_simps matches_simps:
  "matches Eps b t z" "matches (Cls p) b t z" "matches (Cat r q) b t z" "matches (Alt r q) b t z"
  "matches (Grp k r) b t z" "matches (At a) b t z" "matches (Not_ahead r) b t z"

inductive_cases matches_RepE: "matches (Rep lo hi g r) b t z"

text \<open>The pattern cannot match the empty text.\<close>

fun min_one :: "rx \<Rightarrow> bool" where
  "min_one Eps = False"
| "min_one (Cls p) = True"
| "min_one (Cat r q) = (min_one r \<or> min_one q)"
| "min_one (Alt r q) = (min_one r \<and> min_one q)"
| "min_one (Rep lo hi g r) = (0 < lo \<and> min_one r)"
| "min_one (Grp k r) = min_one r"
| "min_one (At a) = False"
| "min_one (Not_ahead r) = False"

fun rx_ok :: "rx \<Rightarrow> bool" where
  "rx_ok (Cat r q) = (rx_ok r \<and> rx_ok q)"
| "rx_ok (Alt r q) = (rx_ok r \<and> rx_ok q)"
| "rx_ok (Rep lo hi g r) = (rx_ok r \<and> min_one r)"
| "rx_ok (Grp k r) = rx_ok r"
| "rx_ok (Not_ahead r) = rx_ok r"
| "rx_ok _ = True"

lemma matches_min_one: "matches r b t z \<Longrightarrow> min_one r \<Longrightarrow> t \<noteq> []"
  by (induction rule: matches.induct) auto

lemma reps_Suc_in:
  "st' \<in> set (reps f (Suc n) lo hi g st) \<longleftrightarrow>
     (lo = 0 \<and> st' = st) \<or>
     (hi \<noteq> Some 0 \<and> (\<exists>st1 \<in> set (f st). st' \<in> set (reps f n (lo - 1) (dec_max hi) g st1)))"
  by (auto simp: Let_def)

declare reps.simps(2) [simp del]

text \<open>The results of a run, with any captured groups, are exactly the matches.\<close>

definition run_spec :: "rx \<Rightarrow> (rst \<Rightarrow> rst list) \<Rightarrow> bool" where
  "run_spec r f \<longleftrightarrow> (\<forall>b s c b' s'. (\<exists>c'. (b', s', c') \<in> set (f (b, s, c))) \<longleftrightarrow>
     (\<exists>t. s = t @ s' \<and> b' = rev t @ b \<and> matches r b t s'))"

lemma run_specD:
  "run_spec r f \<Longrightarrow> (b', s', c') \<in> set (f (b, s, c)) \<Longrightarrow>
     \<exists>t. s = t @ s' \<and> b' = rev t @ b \<and> matches r b t s'"
  unfolding run_spec_def by blast

lemma run_specI2:
  "run_spec r f \<Longrightarrow> matches r b t s' \<Longrightarrow> \<exists>c'. (rev t @ b, s', c') \<in> set (f (b, t @ s', c))"
  unfolding run_spec_def by blast

lemma reps_sound:
  assumes r: "run_spec r f"
  shows "(b', s', c') \<in> set (reps f n lo hi g (b, s, c)) \<Longrightarrow>
    \<exists>t. s = t @ s' \<and> b' = rev t @ b \<and> matches (Rep lo hi g r) b t s'"
proof (induction n arbitrary: lo hi b s c)
  case (Suc n)
  from Suc.prems consider "lo = 0" "(b', s', c') = (b, s, c)"
    | b1 s1 c1 where "hi \<noteq> Some 0" "(b1, s1, c1) \<in> set (f (b, s, c))"
        "(b', s', c') \<in> set (reps f n (lo - 1) (dec_max hi) g (b1, s1, c1))"
    by (auto simp: reps_Suc_in)
  then show ?case
  proof cases
    case 1
    then show ?thesis by (auto intro: matches.stop)
  next
    case 2
    from run_specD [OF r 2(2)] obtain t where t: "s = t @ s1" "b1 = rev t @ b" "matches r b t s1"
      by blast
    from Suc.IH [OF 2(3)] obtain u where u: "s1 = u @ s'" "b' = rev u @ b1"
      "matches (Rep (lo - 1) (dec_max hi) g r) b1 u s'" by blast
    from t u have "matches (Rep lo hi g r) b (t @ u) s'"
      by (auto intro: matches.more [OF 2(1)])
    with t u show ?thesis by auto
  qed
qed simp

lemma reps_complete:
  assumes r: "run_spec r f" and m: "min_one r"
  shows "matches (Rep lo hi g r) b t z \<Longrightarrow> length t < n \<Longrightarrow>
    \<exists>c'. (rev t @ b, z, c') \<in> set (reps f n lo hi g (b, t @ z, c))"
proof (induction n arbitrary: lo hi b t c)
  case (Suc n)
  from Suc.prems(1) consider (stop) "lo = 0" "t = []"
    | (more) t1 u where "t = t1 @ u" "hi \<noteq> Some 0" "matches r b t1 (u @ z)"
        "matches (Rep (lo - 1) (dec_max hi) g r) (rev t1 @ b) u z"
    by (auto elim: matches_RepE)
  then show ?case
  proof cases
    case stop
    have "(rev t @ b, z, c) \<in> set (reps f (Suc n) lo hi g (b, t @ z, c))"
      using stop by (simp add: reps_Suc_in)
    then show ?thesis by blast
  next
    case more
    from matches_min_one [OF more(3) m] have "length u < n"
      using Suc.prems(2) more(1) by (cases t1) auto
    from run_specI2 [OF r more(3)] obtain c1 where
      c1: "(rev t1 @ b, u @ z, c1) \<in> set (f (b, t1 @ u @ z, c))" by blast
    from Suc.IH [OF more(4) \<open>length u < n\<close>] obtain c' where
      "(rev u @ rev t1 @ b, z, c')
         \<in> set (reps f n (lo - 1) (dec_max hi) g (rev t1 @ b, u @ z, c1))" by blast
    with c1 more show ?thesis by (auto simp: reps_Suc_in)
  qed
qed simp

text \<open>Captured groups do not decide whether a lookahead matches.\<close>

lemma run_spec_caps: "run_spec r f \<Longrightarrow> (f (b, s, c) = []) = (f (b, s, d) = [])"
  unfolding run_spec_def
  by (metis (no_types, opaque_lifting) list.set_intros(1) neq_Nil_conv
      prod_cases3 equals0D set_empty)

lemma run_spec_run: "rx_ok r \<Longrightarrow> run_spec r (run r)"
proof (induction r)
  case (Cat r q)
  then have IH: "run_spec r (run r)" "run_spec q (run q)" by simp_all
  show ?case
    unfolding run_spec_def
  proof (intro allI iffI)
    fix b s c b' s'
    assume "\<exists>c'. (b', s', c') \<in> set (run (Cat r q) (b, s, c))"
    then obtain b1 s1 c1 c' where *: "(b1, s1, c1) \<in> set (run r (b, s, c))"
      "(b', s', c') \<in> set (run q (b1, s1, c1))" by auto
    from run_specD [OF IH(1) *(1)] run_specD [OF IH(2) *(2)]
    show "\<exists>t. s = t @ s' \<and> b' = rev t @ b \<and> matches (Cat r q) b t s'"
      by (force intro: matches.cat)
  next
    fix b s c b' s'
    assume "\<exists>t. s = t @ s' \<and> b' = rev t @ b \<and> matches (Cat r q) b t s'"
    then obtain t u where *: "s = t @ u @ s'" "b' = rev u @ rev t @ b" "matches r b t (u @ s')"
      "matches q (rev t @ b) u s'" by (auto simp: matches_simps)
    from run_specI2 [OF IH(1) *(3)] obtain c1 where
      "(rev t @ b, u @ s', c1) \<in> set (run r (b, t @ u @ s', c))" by blast
    moreover from run_specI2 [OF IH(2) *(4)] obtain c2 where
      "(rev u @ rev t @ b, s', c2) \<in> set (run q (rev t @ b, u @ s', c1))" by blast
    ultimately show "\<exists>c'. (b', s', c') \<in> set (run (Cat r q) (b, s, c))"
      using * by fastforce
  qed
next
  case (Alt r q)
  then have IH: "run_spec r (run r)" "run_spec q (run q)" by simp_all
  then show ?case
    by (auto simp: run_spec_def matches_simps ex_disj_distrib conj_disj_distribL)
next
  case (Rep lo hi g r)
  then have IH: "run_spec r (run r)" and m: "min_one r" by simp_all
  show ?case
    unfolding run_spec_def run.simps fst_conv snd_conv
  proof (intro allI iffI)
    fix b s c b' s'
    assume "\<exists>c'. (b', s', c') \<in> set (reps (run r) (Suc (length s)) lo hi g (b, s, c))"
    then show "\<exists>t. s = t @ s' \<and> b' = rev t @ b \<and> matches (Rep lo hi g r) b t s'"
      using reps_sound [OF IH] by blast
  next
    fix b s c b' s'
    assume "\<exists>t. s = t @ s' \<and> b' = rev t @ b \<and> matches (Rep lo hi g r) b t s'"
    then show "\<exists>c'. (b', s', c') \<in> set (reps (run r) (Suc (length s)) lo hi g (b, s, c))"
      using reps_complete [OF IH m] by fastforce
  qed
next
  case (Grp k r)
  then have IH: "run_spec r (run r)" by simp
  show ?case
    unfolding run_spec_def
  proof (intro allI)
    fix b s c b' s'
    have "(\<exists>c'. (b', s', c') \<in> set (run (Grp k r) (b, s, c)))
        \<longleftrightarrow> (\<exists>c'. (b', s', c') \<in> set (run r (b, s, c)))"
      by (force simp: image_iff)
    with IH show "(\<exists>c'. (b', s', c') \<in> set (run (Grp k r) (b, s, c)))
        \<longleftrightarrow> (\<exists>t. s = t @ s' \<and> b' = rev t @ b \<and> matches (Grp k r) b t s')"
      by (simp add: run_spec_def matches_simps)
  qed
next
  case (Not_ahead r)
  then have "run_spec r (run r)" by simp
  then have "(run r (b, s, c) = []) = (run r (b, s, []) = [])" for b s c
    by (rule run_spec_caps)
  then show ?case
    by (auto simp: run_spec_def matches_simps)
qed (auto simp: run_spec_def matches_simps split: list.splits if_splits)

theorem run_iff:
  "rx_ok r \<Longrightarrow> (\<exists>c'. (b', s', c') \<in> set (run r (b, s, c))) \<longleftrightarrow>
     (\<exists>t. s = t @ s' \<and> b' = rev t @ b \<and> matches r b t s')"
  using run_spec_run [of r] by (simp add: run_spec_def)

section \<open>Searching and replacing\<close>

text \<open>A match object: the text before it, the matched text, the text after it, the groups.\<close>

datatype rmatch = Match (m_before: string) (m_text: string) (m_after: string)
  (m_caps: "(nat \<times> string) list")

definition m_group :: "nat \<Rightarrow> rmatch \<Rightarrow> string option" where
  "m_group k m = map_of (m_caps m) k"

definition first_match :: "(rst \<Rightarrow> rst list) \<Rightarrow> string \<Rightarrow> string \<Rightarrow> rmatch option" where
  "first_match f b s = (case f (b, s, []) of
     [] \<Rightarrow> None
   | (b', s', c') # _ \<Rightarrow> Some (Match (rev b) (rev (take (length b' - length b) b')) s' c'))"

fun search_from :: "(rst \<Rightarrow> rst list) \<Rightarrow> string \<Rightarrow> string \<Rightarrow> rmatch option" where
  "search_from f b [] = first_match f b []"
| "search_from f b (x # xs) = (case first_match f b (x # xs) of
      Some m \<Rightarrow> Some m | None \<Rightarrow> search_from f (x # b) xs)"

text \<open>The text cut into the characters outside every match and the matches, left to right.\<close>

datatype chunk = Plain char | Hit rmatch

fun chunks :: "(rst \<Rightarrow> rst list) \<Rightarrow> nat \<Rightarrow> string \<Rightarrow> string \<Rightarrow> chunk list" where
  "chunks f skip b [] =
     (if skip = 0 then (case first_match f b [] of None \<Rightarrow> [] | Some m \<Rightarrow> [Hit m]) else [])"
| "chunks f (Suc k) b (x # xs) = chunks f k (x # b) xs"
| "chunks f 0 b (x # xs) = (case first_match f b (x # xs) of
      None \<Rightarrow> Plain x # chunks f 0 (x # b) xs
    | Some m \<Rightarrow> (case length (m_text m) of
          0 \<Rightarrow> Hit m # Plain x # chunks f 0 (x # b) xs
        | Suc k \<Rightarrow> Hit m # chunks f k (x # b) xs))"

definition re_match :: "rx \<Rightarrow> string \<Rightarrow> rmatch option" where
  "re_match r s = first_match (run r) [] s"

definition re_search :: "rx \<Rightarrow> string \<Rightarrow> rmatch option" where
  "re_search r s = search_from (run r) [] s"

definition re_chunks :: "rx \<Rightarrow> string \<Rightarrow> chunk list" where
  "re_chunks r s = chunks (run r) 0 [] s"

fun hits_of :: "chunk list \<Rightarrow> rmatch list" where
  "hits_of [] = []"
| "hits_of (Plain x # cs) = hits_of cs"
| "hits_of (Hit m # cs) = m # hits_of cs"

fun render_chunks :: "(rmatch \<Rightarrow> string) \<Rightarrow> chunk list \<Rightarrow> string" where
  "render_chunks g [] = []"
| "render_chunks g (Plain x # cs) = x # render_chunks g cs"
| "render_chunks g (Hit m # cs) = g m @ render_chunks g cs"

definition re_finditer :: "rx \<Rightarrow> string \<Rightarrow> rmatch list" where
  "re_finditer r s = hits_of (re_chunks r s)"

definition re_sub :: "rx \<Rightarrow> (rmatch \<Rightarrow> string) \<Rightarrow> string \<Rightarrow> string" where
  "re_sub r g s = render_chunks g (re_chunks r s)"

text \<open>What searching needs of a matcher: it consumes a prefix of the text and moves past it.\<close>

locale matcher =
  fixes step :: "rst \<Rightarrow> rst list"
    and accepts :: "string \<Rightarrow> string \<Rightarrow> string \<Rightarrow> bool"
  assumes step_sound: "(b', s', c') \<in> set (step (b, s, c)) \<Longrightarrow>
      \<exists>t. s = t @ s' \<and> b' = rev t @ b \<and> accepts b t s'"
    and step_complete: "accepts b t z \<Longrightarrow> step (b, t @ z, c) \<noteq> []"
begin

lemma first_match_SomeD:
  "first_match step b s = Some m \<Longrightarrow>
     s = m_text m @ m_after m \<and> m_before m = rev b \<and> accepts b (m_text m) (m_after m)"
proof -
  assume "first_match step b s = Some m"
  then obtain b' s' c' rs where *: "step (b, s, []) = (b', s', c') # rs"
    "m = Match (rev b) (rev (take (length b' - length b) b')) s' c'"
    by (auto simp: first_match_def split: list.splits)
  from step_sound [of b' s' c' b s "[]"] *(1) show ?thesis
    by (auto simp: *(2))
qed

lemma first_match_None: "first_match step b s = None \<longleftrightarrow> (\<forall>t z. s = t @ z \<longrightarrow> \<not> accepts b t z)"
proof
  assume "first_match step b s = None"
  then have "step (b, s, []) = []"
    by (auto simp: first_match_def split: list.splits)
  then show "\<forall>t z. s = t @ z \<longrightarrow> \<not> accepts b t z" using step_complete by blast
next
  assume *: "\<forall>t z. s = t @ z \<longrightarrow> \<not> accepts b t z"
  show "first_match step b s = None"
  proof (cases "step (b, s, [])")
    case Nil
    then show ?thesis by (simp add: first_match_def)
  next
    case (Cons st rest)
    obtain b' s' c' where "st = (b', s', c')" by (cases st) auto
    with Cons * step_sound [of b' s' c' b s "[]"] show ?thesis by auto
  qed
qed

text \<open>A search finds a match exactly when the text contains one.\<close>

lemma search_from_iff:
  "search_from step b s \<noteq> None \<longleftrightarrow> (\<exists>a t z. s = a @ t @ z \<and> accepts (rev a @ b) t z)"
proof (induction s arbitrary: b)
  case Nil
  then show ?case using first_match_None [of b "[]"] by auto
next
  case (Cons x xs)
  show ?case
  proof (cases "first_match step b (x # xs)")
    case None
    with first_match_None [of b "x # xs"]
    have no: "\<not> accepts b t z" if "x # xs = t @ z" for t z using that by blast
    have "(\<exists>a t z. x # xs = a @ t @ z \<and> accepts (rev a @ b) t z) \<longleftrightarrow>
        (\<exists>a t z. xs = a @ t @ z \<and> accepts (rev a @ x # b) t z)" (is "?L \<longleftrightarrow> ?R")
    proof
      assume ?L
      then obtain a t z where *: "x # xs = a @ t @ z" "accepts (rev a @ b) t z" by blast
      with no obtain a' where "a = x # a'" by (cases a) auto
      with * show ?R by auto
    next
      assume ?R
      then obtain a t z where *: "xs = a @ t @ z" "accepts (rev a @ x # b) t z" by blast
      then have "x # xs = (x # a) @ t @ z \<and> accepts (rev (x # a) @ b) t z" by simp
      then show ?L by blast
    qed
    with None Cons.IH show ?thesis by simp
  next
    case (Some m)
    from first_match_SomeD [OF this]
    have "x # xs = [] @ m_text m @ m_after m \<and> accepts (rev [] @ b) (m_text m) (m_after m)"
      by simp
    moreover have "search_from step b (x # xs) \<noteq> None" using Some by simp
    ultimately show ?thesis by blast
  qed
qed

lemma search_from_SomeD:
  "search_from step b s = Some m \<Longrightarrow>
     \<exists>a. m_before m = rev b @ a \<and> s = a @ m_text m @ m_after m
       \<and> accepts (rev a @ b) (m_text m) (m_after m)"
proof (induction s arbitrary: b)
  case Nil
  then show ?case using first_match_SomeD [of b "[]"] by auto
next
  case (Cons x xs)
  show ?case
  proof (cases "first_match step b (x # xs)")
    case None
    with Cons.prems Cons.IH [of "x # b"] obtain a where
      "m_before m = rev (x # b) @ a" "xs = a @ m_text m @ m_after m"
      "accepts (rev a @ x # b) (m_text m) (m_after m)" by auto
    then have "m_before m = rev b @ (x # a) \<and> x # xs = (x # a) @ m_text m @ m_after m
       \<and> accepts (rev (x # a) @ b) (m_text m) (m_after m)" by simp
    then show ?thesis by blast
  next
    case (Some m')
    with Cons.prems have "m' = m" by simp
    with first_match_SomeD [OF Some] have
      "m_before m = rev b @ []" "x # xs = [] @ m_text m @ m_after m"
      "accepts (rev [] @ b) (m_text m) (m_after m)" by simp_all
    then show ?thesis by blast
  qed
qed

text \<open>The chunks are the text: putting every match back gives the text again.\<close>

lemma chunks_text: "k \<le> length s \<Longrightarrow> render_chunks m_text (chunks step k b s) = drop k s"
proof (induction s arbitrary: k b)
  case Nil
  then show ?case
    using first_match_SomeD [of b "[]"] by (auto split: option.splits)
next
  case (Cons x xs)
  show ?case
  proof (cases k)
    case (Suc j)
    with Cons show ?thesis by simp
  next
    case 0
    show ?thesis
    proof (cases "first_match step b (x # xs)")
      case None
      with 0 Cons.IH [of 0] show ?thesis by simp
    next
      case (Some m)
      from first_match_SomeD [OF Some] have m: "x # xs = m_text m @ m_after m" by simp
      show ?thesis
      proof (cases "m_text m")
        case Nil
        with 0 Some Cons.IH [of 0] show ?thesis by simp
      next
        case (Cons y ys)
        with m have "xs = ys @ m_after m" "length ys \<le> length xs" by auto
        with 0 Some Cons m Cons.IH [of "length ys" "x # b"] show ?thesis by simp
      qed
    qed
  qed
qed

lemma chunks_hit:
  "Hit m \<in> set (chunks step k b s) \<Longrightarrow>
     \<exists>a. m_before m = rev b @ a \<and> s = a @ m_text m @ m_after m
       \<and> accepts (rev a @ b) (m_text m) (m_after m)"
proof (induction s arbitrary: k b)
  case Nil
  then have "first_match step b [] = Some m"
    by (cases "k = 0"; cases "first_match step b []") simp_all
  from first_match_SomeD [OF this] have m: "[] = m_text m @ m_after m" "m_before m = rev b"
    "accepts b (m_text m) (m_after m)" by blast+
  show ?case
    by (rule exI [of _ "[]"]) (use m in simp)
next
  case (Cons x xs)
  have later: ?case if "Hit m \<in> set (chunks step j (x # b) xs)" for j
  proof -
    from Cons.IH [OF that] obtain a where "m_before m = rev b @ (x # a)"
      "x # xs = (x # a) @ m_text m @ m_after m"
      "accepts (rev (x # a) @ b) (m_text m) (m_after m)" by auto
    then show ?thesis by blast
  qed
  show ?case
  proof (cases k)
    case (Suc j)
    with Cons.prems later show ?thesis by simp
  next
    case 0
    show ?thesis
    proof (cases "first_match step b (x # xs)")
      case None
      with 0 Cons.prems later show ?thesis by auto
    next
      case (Some m')
      have "m = m' \<or> (\<exists>j. Hit m \<in> set (chunks step j (x # b) xs))"
        using 0 Some Cons.prems by (cases "length (m_text m')") auto
      then consider "m = m'" | j where "Hit m \<in> set (chunks step j (x # b) xs)" by blast
      then show ?thesis
      proof cases
        case 1
        with first_match_SomeD [OF Some] have
          "m_before m = rev b @ []" "x # xs = [] @ m_text m @ m_after m"
          "accepts (rev [] @ b) (m_text m) (m_after m)" by simp_all
        then show ?thesis by blast
      next
        case 2
        then show ?thesis by (rule later)
      qed
    qed
  qed
qed

text \<open>Replacing every match by itself changes nothing; without a match, nothing is replaced.\<close>

lemma no_hits: "\<forall>a t z. s = a @ t @ z \<longrightarrow> \<not> accepts (rev a @ b) t z \<Longrightarrow>
   chunks step 0 b s = map Plain s"
proof (induction s arbitrary: b)
  case Nil
  then show ?case using first_match_None [of b "[]"] by force
next
  case (Cons x xs)
  have "first_match step b (x # xs) = None"
    using Cons.prems first_match_None [of b "x # xs"] by (metis append_Nil rev.simps(1))
  moreover have "\<forall>a t z. xs = a @ t @ z \<longrightarrow> \<not> accepts (rev a @ x # b) t z"
  proof (intro allI impI)
    fix a t z
    assume "xs = a @ t @ z"
    then have "x # xs = (x # a) @ t @ z" by simp
    with Cons.prems have "\<not> accepts (rev (x # a) @ b) t z" by blast
    then show "\<not> accepts (rev a @ x # b) t z" by simp
  qed
  ultimately show ?case using Cons.IH by simp
qed

end

lemma render_plain [simp]: "render_chunks g (map Plain s) = s"
  by (induction s) simp_all

lemma matcher_rx: "rx_ok r \<Longrightarrow> matcher (run r) (matches r)"
proof
  assume ok: "rx_ok r"
  show "\<exists>t. s = t @ s' \<and> b' = rev t @ b \<and> matches r b t s'"
    if "(b', s', c') \<in> set (run r (b, s, c))" for b' s' c' b s c
    using that run_iff [OF ok] by blast
  show "run r (b, t @ z, c) \<noteq> []" if "matches r b t z" for b t z c
    using that run_iff [OF ok, of "rev t @ b" z b "t @ z" c] by auto
qed

lemma re_search_iff:
  "rx_ok r \<Longrightarrow> re_search r s \<noteq> None \<longleftrightarrow> (\<exists>a t z. s = a @ t @ z \<and> matches r (rev a) t z)"
  using matcher.search_from_iff [OF matcher_rx, of r "[]" s] by (simp add: re_search_def)

lemma re_search_SomeD:
  "rx_ok r \<Longrightarrow> re_search r s = Some m \<Longrightarrow>
     s = m_before m @ m_text m @ m_after m \<and> matches r (rev (m_before m)) (m_text m) (m_after m)"
  using matcher.search_from_SomeD [OF matcher_rx, of r "[]" s m] by (auto simp: re_search_def)

lemma re_sub_id: "rx_ok r \<Longrightarrow> re_sub r m_text s = s"
  using matcher.chunks_text [OF matcher_rx, of r 0 s "[]"] by (simp add: re_sub_def re_chunks_def)

lemma re_chunks_hit:
  "rx_ok r \<Longrightarrow> Hit m \<in> set (re_chunks r s) \<Longrightarrow>
     s = m_before m @ m_text m @ m_after m \<and> matches r (rev (m_before m)) (m_text m) (m_after m)"
  using matcher.chunks_hit [OF matcher_rx, of r m 0 "[]" s] by (auto simp: re_chunks_def)

lemma re_sub_no_match: "rx_ok r \<Longrightarrow> re_search r s = None \<Longrightarrow> re_sub r g s = s"
  using matcher.no_hits [OF matcher_rx, of r s "[]"] re_search_iff [of r s]
  by (auto simp: re_sub_def re_chunks_def)

section \<open>Building patterns\<close>

definition lit :: "string \<Rightarrow> rx" where
  "lit s = foldr (\<lambda>c r. Cat (Cls (\<lambda>x. x = c)) r) s Eps"

text \<open>A literal under \<open>IGNORECASE\<close>.\<close>

definition ilit :: "string \<Rightarrow> rx" where
  "ilit s = foldr (\<lambda>c r. Cat (Cls (\<lambda>x. lower_char x = lower_char c)) r) s Eps"

definition seq :: "rx list \<Rightarrow> rx" where
  "seq rs = foldr Cat rs Eps"

fun alts :: "rx list \<Rightarrow> rx" where
  "alts [] = Not_ahead Eps"
| "alts [r] = r"
| "alts (r # q # rs) = Alt r (alts (q # rs))"

definition opt :: "rx \<Rightarrow> rx" where
  "opt r = Rep 0 (Some 1) True r"

definition star :: "rx \<Rightarrow> rx" where
  "star r = Rep 0 None True r"

definition plus :: "rx \<Rightarrow> rx" where
  "plus r = Rep 1 None True r"

definition one_of :: "string \<Rightarrow> char \<Rightarrow> bool" where
  "one_of s c \<longleftrightarrow> c \<in> set s"

definition none_of :: "string \<Rightarrow> char \<Rightarrow> bool" where
  "none_of s c \<longleftrightarrow> c \<notin> set s"

definition alnum_or :: "string \<Rightarrow> char \<Rightarrow> bool" where
  "alnum_or s c \<longleftrightarrow> is_digit c \<or> is_lower c \<or> is_upper c \<or> c \<in> set s"

lemmas rx_build = lit_def ilit_def seq_def opt_def star_def plus_def one_of_def none_of_def
  alnum_or_def

text \<open>Every character a pattern can consume satisfies \<open>P\<close>.\<close>

fun rx_only :: "(char \<Rightarrow> bool) \<Rightarrow> rx \<Rightarrow> bool" where
  "rx_only P (Cls p) = (\<forall>c. p c \<longrightarrow> P c)"
| "rx_only P (Cat r q) = (rx_only P r \<and> rx_only P q)"
| "rx_only P (Alt r q) = (rx_only P r \<and> rx_only P q)"
| "rx_only P (Rep lo hi g r) = rx_only P r"
| "rx_only P (Grp k r) = rx_only P r"
| "rx_only P _ = True"

lemma matches_only: "matches r b t z \<Longrightarrow> rx_only P r \<Longrightarrow> list_all P t"
  by (induction rule: matches.induct) auto

lemma rx_only_lit: "list_all P w \<Longrightarrow> rx_only P (lit w)"
  by (induction w) (auto simp: lit_def)

lemma matches_seq_end: "matches (seq (rs @ [At a])) b t z \<Longrightarrow> \<exists>b'. anchor_holds a b' z"
proof (induction rs arbitrary: b t)
  case Nil
  then show ?case by (auto simp: seq_def matches_simps)
next
  case (Cons r rs)
  then have "matches (Cat r (seq (rs @ [At a]))) b t z" by (simp add: seq_def)
  with Cons.IH show ?case by (auto simp: matches_simps)
qed

lemma re_match_SomeD:
  "rx_ok r \<Longrightarrow> re_match r s = Some m \<Longrightarrow> s = m_text m @ m_after m \<and> matches r [] (m_text m) (m_after m)"
  using matcher.first_match_SomeD [OF matcher_rx, of r "[]" s m] by (simp add: re_match_def)

lemma matches_lit: "matches (lit w) b t z \<longleftrightarrow> t = w"
proof (induction w arbitrary: b t)
  case Nil
  then show ?case by (simp add: lit_def matches_simps)
next
  case (Cons c w)
  have "matches (lit (c # w)) b t z \<longleftrightarrow> (\<exists>u. t = c # u \<and> matches (lit w) (c # b) u z)"
    by (auto simp: lit_def matches_simps)
  with Cons show ?case by auto
qed

lemma matches_ilit: "matches (ilit w) b t z \<longleftrightarrow> lower t = lower w"
proof (induction w arbitrary: b t)
  case Nil
  then show ?case by (simp add: ilit_def matches_simps lower_def)
next
  case (Cons c w)
  have "matches (ilit (c # w)) b t z \<longleftrightarrow> (\<exists>v u. t = v @ u \<and>
      (\<exists>x. v = [x] \<and> lower_char x = lower_char c) \<and> matches (ilit w) (rev v @ b) u z)"
    by (simp add: ilit_def matches_simps)
  also have "\<dots> \<longleftrightarrow>
      (\<exists>x u. t = x # u \<and> lower_char x = lower_char c \<and> matches (ilit w) (x # b) u z)"
    by (metis append_Cons append_Nil rev_singleton_conv)
  finally have "matches (ilit (c # w)) b t z \<longleftrightarrow>
      (\<exists>x u. t = x # u \<and> lower_char x = lower_char c \<and> matches (ilit w) (x # b) u z)" .
  with Cons show ?case by (cases t) (auto simp: lower_def)
qed

lemma rx_ok_lit [simp]: "rx_ok (lit w)" "rx_ok (ilit w)"
  by (induction w) (simp_all add: lit_def ilit_def)

interpretation lit_matcher: matcher "run (lit w)" "matches (lit w)" for w
  by (rule matcher_rx) simp

interpretation ilit_matcher: matcher "run (ilit w)" "matches (ilit w)" for w
  by (rule matcher_rx) simp

lemma search_lit: "re_search (lit w) s \<noteq> None \<longleftrightarrow> occurs_in w s"
  unfolding re_search_iff [OF rx_ok_lit(1)] by (simp add: matches_lit occurs_in_iff)

section \<open>The first result\<close>

text \<open>
  \<open>leads f st y\<close>: the engine's own choice from \<open>st\<close> is \<open>y\<close>. A concatenation leads where its
  parts lead one after the other; a greedy repetition goes on as long as its body leads.
\<close>

definition leads :: "(rst \<Rightarrow> rst list) \<Rightarrow> rst \<Rightarrow> rst \<Rightarrow> bool" where
  "leads f st y \<longleftrightarrow> (\<exists>ys. f st = y # ys)"

lemma leads_Cat: "leads (run r) st y \<Longrightarrow> leads (run q) y z \<Longrightarrow> leads (run (Cat r q)) st z"
  by (auto simp: leads_def)

lemma leads_Eps [intro]: "leads (run Eps) st st"
  by (simp add: leads_def)

lemma leads_Rep:
  "leads (reps (run r) (Suc (length s)) lo hi g) (b, s, c) y \<Longrightarrow>
     leads (run (Rep lo hi g r)) (b, s, c) y"
  by (simp add: leads_def)

lemma leads_Cls: "p x \<Longrightarrow> leads (run (Cls p)) (b, x # xs, c) (x # b, xs, c)"
  by (simp add: leads_def)

lemma leads_Grp:
  "leads (run r) (b, s, c) (b', s', c') \<Longrightarrow>
     leads (run (Grp k r)) (b, s, c) (b', s', (k, rev (take (length b' - length b) b')) # c')"
  by (auto simp: leads_def)

lemma leads_reps_more:
  "hi \<noteq> Some 0 \<Longrightarrow> leads f st y \<Longrightarrow> leads (reps f n (lo - 1) (dec_max hi) True) y z \<Longrightarrow>
     leads (reps f (Suc n) lo hi True) st z"
  by (auto simp: leads_def reps.simps(2))

lemma leads_reps_stop: "f st = [] \<Longrightarrow> leads (reps f (Suc n) 0 hi True) st st"
  by (simp add: leads_def reps.simps(2))

lemma leads_reps_class:
  assumes "\<forall>x \<in> set ds. p x" and "z = [] \<or> \<not> p (hd z)" and "length ds < n" and "lo \<le> length ds"
  shows "leads (reps (run (Cls p)) n lo None True) (b, ds @ z, c) (rev ds @ b, z, c)"
  using assms
proof (induction ds arbitrary: n lo b)
  case Nil
  then obtain m where n: "n = Suc m" by (cases n) auto
  have "run (Cls p) (b, z, c) = []" using Nil.prems(2) by (cases z) auto
  then show ?case using Nil n by (simp add: leads_reps_stop)
next
  case (Cons d ds)
  then obtain m where n: "n = Suc m" by (cases n) auto
  have "leads (reps (run (Cls p)) m (lo - 1) None True) (d # b, ds @ z, c) (rev ds @ d # b, z, c)"
    using Cons.prems n by (intro Cons.IH) auto
  moreover have "leads (run (Cls p)) (b, d # ds @ z, c) (d # b, ds @ z, c)"
    by (rule leads_Cls) (use Cons.prems in simp)
  ultimately show ?case
    using leads_reps_more [of None "run (Cls p)" "(b, d # ds @ z, c)"] n by (simp add: dec_max_def)
qed

lemma leads_plus_class:
  "\<forall>x \<in> set ds. p x \<Longrightarrow> ds \<noteq> [] \<Longrightarrow> z = [] \<or> \<not> p (hd z) \<Longrightarrow>
     leads (run (plus (Cls p))) (b, ds @ z, c) (rev ds @ b, z, c)"
  unfolding plus_def by (rule leads_Rep, rule leads_reps_class) (auto simp: Suc_le_eq)

lemma leads_lit: "leads (run (lit w)) (b, w @ z, c) (rev w @ b, z, c)"
proof (induction w arbitrary: b)
  case Nil
  show ?case using leads_Eps by (simp add: lit_def)
next
  case (Cons x w)
  have "leads (run (Cat (Cls (\<lambda>y. y = x)) (lit w))) (b, x # w @ z, c) (rev w @ x # b, z, c)"
    by (rule leads_Cat [OF leads_Cls Cons]) simp
  then show ?case by (simp add: lit_def)
qed

lemma run_lit_Nil: "take (length w) s \<noteq> w \<Longrightarrow> run (lit w) (b, s, c) = []"
proof -
  assume w: "take (length w) s \<noteq> w"
  have "\<not> (\<exists>c'. (b', s', c') \<in> set (run (lit w) (b, s, c)))" for b' s'
    using w run_iff [of "lit w" b' s' b s c] by (auto simp: matches_lit)
  then show ?thesis by (metis list.set_intros(1) neq_Nil_conv prod_cases3)
qed

lemma first_match_leads:
  "leads f (b, s, []) (b', s', c') \<Longrightarrow>
     first_match f b s = Some (Match (rev b) (rev (take (length b' - length b) b')) s' c')"
  by (auto simp: leads_def first_match_def)

end
