(* ===== verification/Versions.thy ===== *)
theory Versions
  imports Py_Regex
begin

text \<open>
  \<open>_util/versions.py\<close>: version strings of the package ecosystems reduced to comparable release
  tuples. A tuple of Python integers is a list of naturals, compared lexicographically.
\<close>

definition digit :: rx where
  "digit = Cls is_digit"

text \<open>\<open>int(s)\<close> for a nonempty string of decimal digits.\<close>

definition int_of_digits :: "string \<Rightarrow> nat" where
  "int_of_digits = foldl (\<lambda>n c. 10 * n + (of_char c - 48)) 0"

definition semver_rx :: rx where
  "semver_rx = seq [At Bos, opt (lit ''v''), Grp 1 (plus digit), lit ''.'', Grp 2 (plus digit),
     lit ''.'', Grp 3 (plus digit)]"

definition group_int :: "nat \<Rightarrow> rmatch \<Rightarrow> nat" where
  "group_int k m = int_of_digits (or_str (m_group k m) [])"

definition parse_semver :: "string option \<Rightarrow> nat list option" where
  "parse_semver v = map_option (\<lambda>m. [group_int 1 m, group_int 2 m, group_int 3 m])
     (re_match semver_rx (or_str v []))"

definition leading_rx :: rx where
  "leading_rx = Grp 1 (Cat (plus digit) (star (Cat (lit ''.'') (plus digit))))"

definition leading_numeric :: "string \<Rightarrow> nat option \<Rightarrow> nat list option" where
  "leading_numeric s max_parts = (case re_match leading_rx s of
     None \<Rightarrow> None
   | Some m \<Rightarrow> (let parts = map int_of_digits (split_on CHR ''.'' (or_str (m_group 1 m) []))
        in Some (case max_parts of None \<Rightarrow> parts | Some k \<Rightarrow> take k parts)))"

definition drop_v :: "string \<Rightarrow> string" where
  "drop_v v = (if take 1 v \<in> {''v'', ''V''} then drop 1 v else v)"

definition parse_version :: "string option \<Rightarrow> string \<Rightarrow> nat list option" where
  "parse_version version ecosystem =
     (let v = strip (or_str version []) in
      if v = [] then None
      else if ecosystem = ''go'' then parse_semver (Some v)
      else if ecosystem \<in> {''npm'', ''cargo''} then leading_numeric (drop_v v) (Some 3)
      else if ecosystem = ''pypi'' then
        (let v = (case snd (cut CHR ''!'' v) of None \<Rightarrow> v | Some r \<Rightarrow> r)
         in leading_numeric (drop_v v) None)
      else leading_numeric v None)"

section \<open>Writing a version\<close>

text \<open>The decimal digits of a number, as \<open>str(n)\<close> writes them.\<close>

fun show_nat :: "nat \<Rightarrow> string" where
  "show_nat n = (if n < 10 then [char_of (48 + n)] else show_nat (n div 10) @ [char_of (48 + n mod 10)])"

declare show_nat.simps [simp del]

definition dotted :: "nat list \<Rightarrow> string" where
  "dotted ns = join ''.'' (map show_nat ns)"

lemma digit_char: "(n :: nat) < 10 \<Longrightarrow> is_digit (char_of (48 + n)) \<and> of_char (char_of (48 + n) :: char) = 48 + n"
  by (simp add: is_digit_def code_in_def)

lemma show_nat_digits: "c \<in> set (show_nat n) \<Longrightarrow> is_digit c"
proof (induction n rule: show_nat.induct)
  case (1 n)
  then show ?case
    by (subst (asm) (2) show_nat.simps) (auto simp: digit_char split: if_splits)
qed

lemma show_nat_neq_Nil [simp]: "show_nat n \<noteq> []"
  by (subst show_nat.simps) simp

lemma int_show_nat [simp]: "int_of_digits (show_nat n) = n"
proof (induction n rule: show_nat.induct)
  case (1 n)
  show ?case
  proof (cases "n < 10")
    case True
    then show ?thesis
      by (subst show_nat.simps) (simp add: int_of_digits_def)
  next
    case False
    then have "int_of_digits (show_nat n)
        = 10 * int_of_digits (show_nat (n div 10)) + n mod 10"
      by (subst show_nat.simps) (simp add: int_of_digits_def)
    with 1 False show ?thesis by simp
  qed
qed

lemma dot_not_digit: "\<not> is_digit CHR ''.''"
  by (simp add: is_digit_def code_in_def)

lemma no_dot_show: "CHR ''.'' \<notin> set (show_nat n)"
  using show_nat_digits dot_not_digit by blast

text \<open>A text that ends the release part: no digit, and no dot followed by a digit.\<close>

definition ends_release :: "string \<Rightarrow> bool" where
  "ends_release z \<longleftrightarrow> (z = [] \<or> \<not> is_digit (hd z)) \<and>
     (case z of x # y # _ \<Rightarrow> \<not> (x = CHR ''.'' \<and> is_digit y) | _ \<Rightarrow> True)"

lemma leads_digits:
  "z = [] \<or> \<not> is_digit (hd z) \<Longrightarrow>
     leads (run (plus digit)) (b, show_nat n @ z, c) (rev (show_nat n) @ b, z, c)"
  unfolding digit_def by (rule leads_plus_class) (auto dest: show_nat_digits)

definition more_rx :: rx where
  "more_rx = Cat (lit ''.'') (plus digit)"

lemma run_more_stop: "ends_release z \<Longrightarrow> run more_rx (b, z, c) = []"
proof (cases z)
  case (Cons x xs)
  assume z: "ends_release z"
  show ?thesis
  proof (cases "x = CHR ''.''")
    case False
    with Cons show ?thesis by (simp add: more_rx_def run_lit_Nil)
  next
    case True
    with z Cons have "xs = [] \<or> \<not> is_digit (hd xs)" by (cases xs) (auto simp: ends_release_def)
    then have "run (plus digit) (CHR ''.'' # b, xs, c) = []"
      by (cases xs) (auto simp: plus_def digit_def reps.simps(2))
    with True Cons show ?thesis by (simp add: more_rx_def lit_def)
  qed
qed (simp add: more_rx_def lit_def)

lemma hd_dotted_tail: "ends_release z \<Longrightarrow>
   concat (map (\<lambda>n. CHR ''.'' # show_nat n) ns) @ z = [] \<or>
   \<not> is_digit (hd (concat (map (\<lambda>n. CHR ''.'' # show_nat n) ns) @ z))"
  by (cases ns) (auto simp: ends_release_def dot_not_digit)

lemma leads_more:
  "ends_release z \<Longrightarrow> length ns < n \<Longrightarrow>
     leads (reps (run more_rx) n 0 None True)
       (b, concat (map (\<lambda>n. CHR ''.'' # show_nat n) ns) @ z, c)
       (rev (concat (map (\<lambda>n. CHR ''.'' # show_nat n) ns)) @ b, z, c)"
proof (induction ns arbitrary: n b)
  case Nil
  then obtain m where "n = Suc m" by (cases n) auto
  with Nil show ?case by (simp add: leads_reps_stop run_more_stop)
next
  case (Cons k ns)
  then obtain m where n: "n = Suc m" by (cases n) auto
  let ?t = "concat (map (\<lambda>n. CHR ''.'' # show_nat n) ns)"
  have "leads (run more_rx) (b, ''.'' @ show_nat k @ ?t @ z, c)
      (rev (show_nat k) @ rev ''.'' @ b, ?t @ z, c)"
    unfolding more_rx_def
    by (intro leads_Cat [OF leads_lit] leads_digits hd_dotted_tail Cons.prems)
  moreover have "leads (reps (run more_rx) m 0 None True)
      (rev (show_nat k) @ rev ''.'' @ b, ?t @ z, c) (rev ?t @ rev (show_nat k) @ rev ''.'' @ b, z, c)"
    using Cons n by (intro Cons.IH) auto
  ultimately show ?case
    using leads_reps_more [of None "run more_rx"] n by (simp add: dec_max_def)
qed

lemma dotted_Cons: "dotted (n # ns) = show_nat n @ concat (map (\<lambda>n. CHR ''.'' # show_nat n) ns)"
proof (induction ns arbitrary: n)
  case (Cons k ns)
  then show ?case using Cons [of k] by (simp add: dotted_def)
qed (simp add: dotted_def)

lemma dotted_not_v: "take 1 (dotted (n # ns) @ z) \<notin> {''v'', ''V''}"
proof -
  obtain d ds where "show_nat n = d # ds" by (cases "show_nat n") auto
  moreover from this have "is_digit d" using show_nat_digits [of d n] by simp
  ultimately show ?thesis by (auto simp: dotted_Cons is_digit_def code_in_def)
qed

lemma split_dotted: "split_on CHR ''.'' (dotted (n # ns)) = map show_nat (n # ns)"
  unfolding dotted_def by (rule split_on_join) (auto simp: no_dot_show)

text \<open>The release part of a dotted version, whatever qualifier follows it.\<close>

lemma leading_numeric_dotted:
  assumes z: "ends_release z"
  shows "leading_numeric (dotted (n # ns) @ z) mp
     = Some (case mp of None \<Rightarrow> n # ns | Some k \<Rightarrow> take k (n # ns))"
proof -
  let ?t = "concat (map (\<lambda>n. CHR ''.'' # show_nat n) ns)"
  have len: "length ns < Suc (length (?t @ z))"
    by (induction ns) auto
  have "leads (run (Cat (plus digit) (star more_rx))) ([], show_nat n @ ?t @ z, [])
      (rev ?t @ rev (show_nat n) @ [], z, [])"
  proof (rule leads_Cat [OF leads_digits])
    show "?t @ z = [] \<or> \<not> is_digit (hd (?t @ z))" by (rule hd_dotted_tail [OF z])
    show "leads (run (star more_rx)) (rev (show_nat n) @ [], ?t @ z, [])
        (rev ?t @ rev (show_nat n) @ [], z, [])"
      unfolding star_def by (rule leads_Rep, rule leads_more [OF z len])
  qed
  from leads_Grp [OF this, of 1] first_match_leads
  have "first_match (run leading_rx) [] (show_nat n @ ?t @ z)
      = Some (Match [] (show_nat n @ ?t) z [(1, show_nat n @ ?t)])"
    unfolding leading_rx_def more_rx_def by fastforce
  then show ?thesis
    using split_dotted [of n ns]
    by (simp add: leading_numeric_def re_match_def m_group_def dotted_Cons comp_def Let_def)
qed

lemma digit_not_space: "is_digit c \<Longrightarrow> \<not> is_space c \<and> c \<noteq> CHR ''!'' \<and> c \<noteq> CHR ''v''"
  by (auto simp: is_digit_def is_space_def code_in_def)

lemma hd_dotted_digit: "is_digit (hd (dotted (n # ns)))"
proof -
  have "hd (dotted (n # ns)) \<in> set (show_nat n)"
    by (simp add: dotted_Cons hd_append)
  then show ?thesis by (rule show_nat_digits)
qed

lemma dotted_neq_Nil [simp]: "dotted (n # ns) \<noteq> []"
  by (simp add: dotted_Cons)

lemma last_dotted_digit: "is_digit (last (dotted (n # ns)))"
proof (induction ns arbitrary: n)
  case Nil
  have "last (show_nat n) \<in> set (show_nat n)" by simp
  from show_nat_digits [OF this] show ?case by (simp add: dotted_def)
next
  case (Cons k ns)
  then show ?case using dotted_neq_Nil [of k ns] by (simp add: dotted_def)
qed

lemma no_bang_dotted: "CHR ''!'' \<notin> set (dotted ns)"
proof (induction ns)
  case (Cons n ns)
  then show ?case
    by (cases ns) (auto simp: dotted_def dest: show_nat_digits digit_not_space)
qed (simp add: dotted_def)

lemma strip_dotted: "z = [] \<or> \<not> is_space (last z) \<Longrightarrow> strip (dotted (n # ns) @ z) = dotted (n # ns) @ z"
  using hd_dotted_digit [of n ns] last_dotted_digit [of n ns]
  by (intro strip_id) (auto simp: last_append digit_not_space)

text \<open>The release tuple kept for an ecosystem: npm and cargo compare three components.\<close>

definition release_tuple :: "string \<Rightarrow> nat list \<Rightarrow> nat list" where
  "release_tuple ecosystem ns = (if ecosystem \<in> {''npm'', ''cargo''} then take 3 ns else ns)"

text \<open>
  Round trip: a dotted version, with any qualifier after the release part, parses to the
  numbers it was written from, cut to three components for npm and cargo; for every ecosystem
  but go, whose strict three-part form is a lemma of its own.
\<close>

theorem parse_version_dotted:
  assumes "ecosystem \<noteq> ''go''" and "ends_release z" and "z = [] \<or> \<not> is_space (last z)"
    and "CHR ''!'' \<notin> set z"
  shows "parse_version (Some (dotted (n # ns) @ z)) ecosystem
     = Some (release_tuple ecosystem (n # ns))"
proof -
  let ?v = "dotted (n # ns) @ z"
  have "drop_v ?v = ?v" using dotted_not_v [of n ns z] by (simp add: drop_v_def)
  moreover have "snd (cut CHR ''!'' ?v) = None"
    using assms(4) no_bang_dotted by (simp add: cut_None)
  ultimately show ?thesis
    using assms leading_numeric_dotted [OF assms(2), of n ns]
    by (simp add: parse_version_def strip_dotted Let_def release_tuple_def)
qed

theorem parse_version_dotted_witness:
  "parse_version (Some (dotted [1, 2, 0, 7] @ ''-rc1'')) ''npm'' = Some [1, 2, 0]"
  by (subst parse_version_dotted) (simp_all add: ends_release_def is_digit_def code_in_def is_space_def
      release_tuple_def)

lemma semver_rest:
  assumes "z = [] \<or> \<not> is_digit (hd z)"
  shows "leads (run (seq [Grp 1 (plus digit), lit ''.'', Grp 2 (plus digit), lit ''.'',
      Grp 3 (plus digit)])) (b, show_nat i @ ''.'' @ show_nat j @ ''.'' @ show_nat k @ z, c)
    (rev (show_nat k) @ rev ''.'' @ rev (show_nat j) @ rev ''.'' @ rev (show_nat i) @ b, z,
     (3, show_nat k) # (2, show_nat j) # (1, show_nat i) # c)"
proof -
  have grp: "leads (run (Grp g (plus digit))) (b, show_nat n @ y, c)
      (rev (show_nat n) @ b, y, (g, show_nat n) # c)" if "y = [] \<or> \<not> is_digit (hd y)" for g n b y c
    using leads_Grp [OF leads_digits [OF that, of b n c], of g] by simp
  have dot: "''.'' @ y = [] \<or> \<not> is_digit (hd (''.'' @ y))" for y
    by (simp add: dot_not_digit)
  show ?thesis
    unfolding seq_def foldr.simps id_apply comp_def
    by (rule leads_Cat [OF grp [OF dot] leads_Cat [OF leads_lit leads_Cat [OF grp [OF dot]
          leads_Cat [OF leads_lit leads_Cat [OF grp [OF assms] leads_Eps]]]]])
qed

lemma parse_semver_dotted:
  assumes "z = [] \<or> \<not> is_digit (hd z)" and "p \<in> {[], ''v''}"
  shows "parse_semver (Some (p @ show_nat i @ ''.'' @ show_nat j @ ''.'' @ show_nat k @ z))
     = Some [i, j, k]"
proof -
  let ?n = "show_nat i @ ''.'' @ show_nat j @ ''.'' @ show_nat k"
  have v: "leads (run (opt (lit ''v''))) ([], p @ ?n @ z, []) (rev p, ?n @ z, [])"
  proof (cases "p = []")
    case True
    obtain d ds where d: "show_nat i = d # ds" by (cases "show_nat i") auto
    then have "d \<noteq> CHR ''v''" using show_nat_digits [of d i] digit_not_space by auto
    then have "run (lit ''v'') ([], ?n @ z, []) = []" by (simp add: run_lit_Nil d)
    then show ?thesis
      unfolding opt_def True append_Nil rev.simps by (intro leads_Rep leads_reps_stop)
  next
    case False
    with assms(2) have p: "p = ''v''" by simp
    have "leads (run (lit ''v'')) ([], p @ ?n @ z, []) (rev p, ?n @ z, [])"
      using leads_lit [of p "[]" "?n @ z" "[]"] p by simp
    then show ?thesis
      unfolding opt_def
      by (rule leads_Rep [OF leads_reps_more, rotated]) (auto simp: leads_def reps.simps(2) dec_max_def)
  qed
  have "leads (run semver_rx) ([], p @ ?n @ z, [])
      (rev (p @ ?n), z, [(3, show_nat k), (2, show_nat j), (1, show_nat i)])"
    using leads_Cat [OF v [unfolded append_assoc]
        semver_rest [OF assms(1), of "rev p" i j k "[]", unfolded seq_def]]
    unfolding semver_rx_def seq_def by (auto simp: leads_def)
  from first_match_leads [OF this] show ?thesis
    using assms(2) by (auto simp: parse_semver_def re_match_def group_int_def m_group_def)
qed

end
