(* ===== verification/Osv_Ranges.thy ===== *)
theory Osv_Ranges
  imports Versions
begin

text \<open>
  \<open>osv/ranges.py\<close>: the affected spans an OSV record gives one package, whether a version lies in
  one, and the fix for an installed version. A record is modelled with the keys this code reads;
  an absent key is \<open>None\<close>. Comparisons of versions are generic in the ordering key, whose laws
  are the locale \<open>version_keys\<close>; the ecosystem's key is its interpretation.
\<close>

section \<open>The record\<close>

record event =
  introduced :: "string option"
  fixed_at :: "string option"
  last_affected_at :: "string option"

record rng =
  rng_type :: "string option"
  events :: "event list"

record affected_entry =
  pkg_name :: "string option"
  pkg_ecosystem :: "string option"
  ranges :: "rng list"

type_synonym vuln = "affected_entry list"

record span =
  introduced_in :: string
  fixed_in :: "string option"
  last_affected :: "string option"

section \<open>Selecting entries and reading spans\<close>

definition entry_applies :: "string \<Rightarrow> string option \<Rightarrow> bool \<Rightarrow> affected_entry \<Rightarrow> bool" where
  "entry_applies name ecosystem ignore_case aff =
     ((if ignore_case then
         \<not> (truthy (pkg_name aff) \<and> lower (or_str (pkg_name aff) []) \<noteq> lower name)
       else if ecosystem = Some ''NuGet'' then
         lower (or_str (pkg_name aff) []) = lower name
       else pkg_name aff = Some name)
      \<and> \<not> (truthy ecosystem \<and> truthy (pkg_ecosystem aff) \<and> pkg_ecosystem aff \<noteq> ecosystem))"

definition entries :: "vuln \<Rightarrow> string \<Rightarrow> string option \<Rightarrow> bool \<Rightarrow> affected_entry list" where
  "entries vuln name ecosystem ignore_case = filter (entry_applies name ecosystem ignore_case) vuln"

text \<open>One pass over a range's events with the open start; the spans come out in order.\<close>

fun event_spans :: "string option \<Rightarrow> event list \<Rightarrow> span list" where
  "event_spans start [] = (case start of None \<Rightarrow> []
     | Some s \<Rightarrow> [\<lparr>introduced_in = s, fixed_in = None, last_affected = None\<rparr>])"
| "event_spans start (ev # evs) =
     (case introduced ev of
        Some i \<Rightarrow> event_spans (case start of None \<Rightarrow> Some i | Some s \<Rightarrow> Some s) evs
      | None \<Rightarrow> (case fixed_at ev of
          Some f \<Rightarrow> \<lparr>introduced_in = or_str start ''0'', fixed_in = Some f, last_affected = None\<rparr>
            # event_spans None evs
        | None \<Rightarrow> (case last_affected_at ev of
            Some l \<Rightarrow> \<lparr>introduced_in = or_str start ''0'', fixed_in = None, last_affected = Some l\<rparr>
              # event_spans None evs
          | None \<Rightarrow> event_spans start evs)))"

definition spans :: "vuln \<Rightarrow> string \<Rightarrow> string option \<Rightarrow> bool \<Rightarrow> span list" where
  "spans vuln name ecosystem ignore_case =
     concat (map (\<lambda>aff. concat (map (\<lambda>r. event_spans None (events r))
         (filter (\<lambda>r. rng_type r \<noteq> Some ''GIT'') (ranges aff))))
       (entries vuln name ecosystem ignore_case))"

section \<open>Ordering versions\<close>

definition version_tag :: "string \<Rightarrow> string" where
  "version_tag ecosystem = (case map_of
     [(''Go'', ''go''), (''npm'', ''npm''), (''PyPI'', ''pypi''), (''Maven'', ''maven''),
      (''crates.io'', ''cargo''), (''RubyGems'', ''ruby''), (''NuGet'', ''nuget'')] ecosystem of
      None \<Rightarrow> [] | Some t \<Rightarrow> t)"

text \<open>\<open>while len(parts) > 1 and parts[-1] == 0: parts = parts[:-1]\<close>, on the reversed tuple.\<close>

fun drop_zeros :: "nat list \<Rightarrow> nat list" where
  "drop_zeros (x # y # r) = (if x = 0 then drop_zeros (y # r) else x # y # r)"
| "drop_zeros r = r"

definition version_key :: "string option \<Rightarrow> string option \<Rightarrow> nat list option" where
  "version_key version ecosystem =
     (if truthy version then
        map_option (\<lambda>parts. rev (drop_zeros (rev parts)))
          (parse_version version (version_tag (or_str ecosystem [])))
      else None)"

text \<open>\<open>_Order.contains\<close>: \<open>None\<close> when a bound that decides cannot be parsed.\<close>

definition contains :: "(string \<Rightarrow> nat list option) \<Rightarrow> span \<Rightarrow> nat list \<Rightarrow> bool option" where
  "contains key span k =
     (case (if introduced_in span = ''0'' then Some [] else key (introduced_in span)) of
        None \<Rightarrow> None
      | Some low \<Rightarrow>
          if k < low then Some False
          else (case fixed_in span of
            Some f \<Rightarrow> map_option (\<lambda>high. k < high) (key f)
          | None \<Rightarrow> (case last_affected span of
              Some l \<Rightarrow> map_option (\<lambda>high. k \<le> high) (key l)
            | None \<Rightarrow> Some True)))"

abbreviation eco_key :: "string option \<Rightarrow> string \<Rightarrow> nat list option" where
  "eco_key ecosystem v \<equiv> version_key (Some v) ecosystem"

section \<open>Queries\<close>

definition containing_span ::
  "vuln \<Rightarrow> string \<Rightarrow> string option \<Rightarrow> string option \<Rightarrow> bool \<Rightarrow> span option" where
  "containing_span vuln name ecosystem installed ignore_case =
     (case version_key installed ecosystem of
        None \<Rightarrow> None
      | Some cur \<Rightarrow> find (\<lambda>s. contains (eco_key ecosystem) s cur = Some True)
          (spans vuln name ecosystem ignore_case))"

fun covers_loop :: "(string \<Rightarrow> nat list option) \<Rightarrow> nat list \<Rightarrow> bool \<Rightarrow> span list \<Rightarrow> bool option" where
  "covers_loop key cur undecided [] = (if undecided then None else Some False)"
| "covers_loop key cur undecided (s # ss) =
     (let hit = contains key s cur in
      if hit = Some True then Some True
      else covers_loop key cur (undecided \<or> hit = None) ss)"

definition covers :: "vuln \<Rightarrow> string \<Rightarrow> string option \<Rightarrow> string option \<Rightarrow> bool option" where
  "covers vuln name ecosystem installed =
     (case version_key installed ecosystem of
        None \<Rightarrow> None
      | Some cur \<Rightarrow> covers_loop (eco_key ecosystem) cur False (spans vuln name ecosystem False))"

definition above :: "nat list \<Rightarrow> (nat list option \<times> string) list \<Rightarrow> (nat list \<times> string) list" where
  "above cur cands =
     sort (map (\<lambda>(k, f). (case k of None \<Rightarrow> [] | Some k' \<Rightarrow> k', f))
       (filter (\<lambda>(k, f). case k of None \<Rightarrow> False | Some k' \<Rightarrow> cur < k') cands))"

definition clean :: "(string \<Rightarrow> nat list option) \<Rightarrow> span list \<Rightarrow> (nat list \<times> string) list
    \<Rightarrow> (nat list \<times> string) list" where
  "clean key ss pool = filter (\<lambda>(k, f). \<not> (\<exists>s \<in> set ss. contains key s k = Some True)) pool"

definition pick_fix ::
  "(string \<Rightarrow> nat list option) \<Rightarrow> span list \<Rightarrow> nat list option \<Rightarrow> string option" where
  "pick_fix key ss installed_key =
     (let fixes = map (\<lambda>s. or_str (fixed_in s) []) (filter (\<lambda>s. truthy (fixed_in s)) ss);
          keyed = map (\<lambda>f. (key f, f)) fixes in
      if fixes = [] then None
      else (case installed_key of
        None \<Rightarrow> Some (hd fixes)
      | Some cur \<Rightarrow>
          if list_all (\<lambda>(k, f). k = None) keyed then Some (hd fixes)
          else
            (let own = above cur (map (\<lambda>s. (key (or_str (fixed_in s) []), or_str (fixed_in s) []))
                   (filter (\<lambda>s. truthy (fixed_in s) \<and> contains key s cur = Some True) ss)) in
             case clean key ss own of
               c # _ \<Rightarrow> Some (snd c)
             | [] \<Rightarrow> (case clean key ss (above cur keyed) of
                 c # _ \<Rightarrow> Some (snd c)
               | [] \<Rightarrow> (case own of [] \<Rightarrow> None | c # _ \<Rightarrow> Some (snd c))))))"

definition fixed_for ::
  "vuln \<Rightarrow> string \<Rightarrow> string option \<Rightarrow> string option \<Rightarrow> bool \<Rightarrow> string option" where
  "fixed_for vuln name ecosystem installed ignore_case =
     pick_fix (eco_key ecosystem) (spans vuln name ecosystem ignore_case)
       (version_key installed ecosystem)"

section \<open>The laws of an ordering key, and what follows from them\<close>

text \<open>\<open>k\<close> lies in the span: from its start on, and before its end when it has one.\<close>

definition in_span :: "(string \<Rightarrow> nat list option) \<Rightarrow> span \<Rightarrow> nat list \<Rightarrow> bool" where
  "in_span key s k \<longleftrightarrow>
     (introduced_in s = ''0'' \<or> (\<exists>low. key (introduced_in s) = Some low \<and> low \<le> k)) \<and>
     (case fixed_in s of Some f \<Rightarrow> (\<exists>high. key f = Some high \<and> k < high)
      | None \<Rightarrow> (case last_affected s of Some l \<Rightarrow> (\<exists>high. key l = Some high \<and> k \<le> high)
          | None \<Rightarrow> True))"

text \<open>The fixes a record states, and those of the spans that cover the installed version.\<close>

definition fix_of :: "span list \<Rightarrow> string \<Rightarrow> bool" where
  "fix_of ss f \<longleftrightarrow> f \<noteq> [] \<and> (\<exists>s \<in> set ss. fixed_in s = Some f)"

definition own_fix :: "(string \<Rightarrow> nat list option) \<Rightarrow> span list \<Rightarrow> nat list \<Rightarrow> string \<Rightarrow> bool" where
  "own_fix key ss cur f \<longleftrightarrow> f \<noteq> [] \<and> (\<exists>s \<in> set ss. fixed_in s = Some f \<and> in_span key s cur)"

definition unaffected :: "(string \<Rightarrow> nat list option) \<Rightarrow> span list \<Rightarrow> nat list \<Rightarrow> bool" where
  "unaffected key ss k \<longleftrightarrow> (\<forall>s \<in> set ss. \<not> in_span key s k)"

text \<open>\<open>f\<close>, with key \<open>k\<close>, is the lowest fix of a pool above the installed version that is unaffected.\<close>

definition lowest_clean :: "(string \<Rightarrow> nat list option) \<Rightarrow> span list \<Rightarrow> nat list
    \<Rightarrow> (string \<Rightarrow> bool) \<Rightarrow> string \<Rightarrow> bool" where
  "lowest_clean key ss cur pool f \<longleftrightarrow> pool f \<and>
     (\<exists>k. key f = Some k \<and> cur < k \<and> unaffected key ss k \<and>
       (\<forall>f' k'. pool f' \<longrightarrow> key f' = Some k' \<longrightarrow> cur < k' \<longrightarrow> unaffected key ss k' \<longrightarrow> k \<le> k'))"

definition none_clean :: "(string \<Rightarrow> nat list option) \<Rightarrow> span list \<Rightarrow> nat list
    \<Rightarrow> (string \<Rightarrow> bool) \<Rightarrow> bool" where
  "none_clean key ss cur pool \<longleftrightarrow>
     (\<forall>f k. pool f \<longrightarrow> key f = Some k \<longrightarrow> cur < k \<longrightarrow> \<not> unaffected key ss k)"

definition lowest_above :: "(string \<Rightarrow> nat list option) \<Rightarrow> nat list \<Rightarrow> (string \<Rightarrow> bool) \<Rightarrow> string \<Rightarrow> bool" where
  "lowest_above key cur pool f \<longleftrightarrow> pool f \<and>
     (\<exists>k. key f = Some k \<and> cur < k \<and> (\<forall>f' k'. pool f' \<longrightarrow> key f' = Some k' \<longrightarrow> cur < k' \<longrightarrow> k \<le> k'))"

locale version_keys =
  fixes key :: "string \<Rightarrow> nat list option"
  assumes key_nonempty: "key v = Some k \<Longrightarrow> k \<noteq> []"
    and key_canonical: "key v = Some k \<Longrightarrow> length k > 1 \<Longrightarrow> last k \<noteq> 0"
begin

text \<open>A key is above the start \<open>0\<close> of a span, and padding with zeros never gives another key.\<close>

lemma key_above_start: "key v = Some k \<Longrightarrow> [] < k"
  using key_nonempty by (cases k) auto

lemma key_padding:
  "key v = Some k \<Longrightarrow> key w = Some (k @ replicate n 0) \<Longrightarrow> n = 0"
  using key_nonempty [of v k] key_canonical [of w "k @ replicate n 0"]
  by (cases n; cases k) (auto split: if_splits)

lemma contains_True_iff: "contains key s k = Some True \<longleftrightarrow> in_span key s k"
  by (auto simp: contains_def in_span_def split: option.splits)

lemma covers_loop_True:
  "covers_loop key cur u ss = Some True \<longleftrightarrow> (\<exists>s \<in> set ss. in_span key s cur)"
  by (induction ss arbitrary: u) (auto simp: Let_def contains_True_iff)

lemma covers_loop_False:
  "covers_loop key cur u ss = Some False \<longleftrightarrow>
     \<not> u \<and> (\<forall>s \<in> set ss. contains key s cur = Some False)"
proof (induction ss arbitrary: u)
  case (Cons s ss)
  consider "contains key s cur = None" | "contains key s cur = Some True"
    | "contains key s cur = Some False" by (cases "contains key s cur") auto
  then show ?case by cases (simp_all add: Cons.IH)
qed simp

lemma in_above: "(k, f) \<in> set (above cur cands) \<longleftrightarrow> (Some k, f) \<in> set cands \<and> cur < k"
  unfolding above_def set_sort
proof (induction cands)
  case (Cons c cands)
  then show ?case by (cases c; cases "fst c") auto
qed simp

lemma in_clean:
  "(k, f) \<in> set (clean key ss pool) \<longleftrightarrow>
     (k, f) \<in> set pool \<and> (\<forall>s \<in> set ss. \<not> in_span key s k)"
  by (auto simp: clean_def contains_True_iff)

lemma hd_clean_least:
  assumes "clean key ss (above cur cands) = (k, f) # rest"
    and "(Some k', f') \<in> set cands" and "cur < k'" and "\<forall>s \<in> set ss. \<not> in_span key s k'"
  shows "k \<le> k'"
proof -
  have "sorted (clean key ss (above cur cands))"
    by (simp add: clean_def above_def sorted_wrt_filter)
  moreover have "(k', f') \<in> set (clean key ss (above cur cands))"
    using assms(2-4) by (simp add: in_clean in_above)
  ultimately have "(k, f) \<le> (k', f')" using assms(1) by auto
  then show ?thesis by (auto simp: less_eq_prod_def)
qed

text \<open>The three pools of the choice, as sets.\<close>

definition own_pool :: "span list \<Rightarrow> nat list \<Rightarrow> (nat list option \<times> string) list" where
  "own_pool ss cur = map (\<lambda>s. (key (or_str (fixed_in s) []), or_str (fixed_in s) []))
     (filter (\<lambda>s. truthy (fixed_in s) \<and> contains key s cur = Some True) ss)"

definition all_pool :: "span list \<Rightarrow> (nat list option \<times> string) list" where
  "all_pool ss = map (\<lambda>f. (key f, f))
     (map (\<lambda>s. or_str (fixed_in s) []) (filter (\<lambda>s. truthy (fixed_in s)) ss))"

lemma in_own_pool: "(k, f) \<in> set (own_pool ss cur) \<longleftrightarrow> key f = k \<and> own_fix key ss cur f"
  by (auto simp: own_pool_def own_fix_def contains_True_iff truthy_iff image_iff)

lemma in_all_pool: "(k, f) \<in> set (all_pool ss) \<longleftrightarrow> key f = k \<and> fix_of ss f"
  by (auto simp: all_pool_def fix_of_def truthy_iff image_iff)

lemma pick_fix_eq:
  assumes "fix_of ss g" and "key g \<noteq> None"
  shows "pick_fix key ss (Some cur) =
     (case clean key ss (above cur (own_pool ss cur)) of
        c # _ \<Rightarrow> Some (snd c)
      | [] \<Rightarrow> (case clean key ss (above cur (all_pool ss)) of
          c # _ \<Rightarrow> Some (snd c)
        | [] \<Rightarrow> (case above cur (own_pool ss cur) of [] \<Rightarrow> None | c # _ \<Rightarrow> Some (snd c))))"
proof -
  have g: "(key g, g) \<in> set (all_pool ss)" using assms(1) by (simp add: in_all_pool)
  with assms(2) have "\<not> list_all (\<lambda>(k, f). k = None) (all_pool ss)"
    by (auto simp: list_all_iff)
  moreover have "all_pool ss \<noteq> []" using g by auto
  ultimately show ?thesis
    unfolding pick_fix_def own_pool_def all_pool_def Let_def by simp
qed

lemma clean_empty:
  "clean key ss (above cur cands) = [] \<longleftrightarrow>
     (\<forall>f k. (Some k, f) \<in> set cands \<longrightarrow> cur < k \<longrightarrow> \<not> unaffected key ss k)"
proof -
  have "clean key ss (above cur cands) = [] \<longleftrightarrow>
      (\<forall>k f. (k, f) \<notin> set (clean key ss (above cur cands)))"
    by (cases "clean key ss (above cur cands)") auto
  then show ?thesis unfolding in_clean in_above unaffected_def by blast
qed

lemma hd_clean:
  assumes "clean key ss (above cur cands) = c # rest"
    and "\<And>k f. (k, f) \<in> set cands \<longleftrightarrow> key f = k \<and> pool f"
  shows "lowest_clean key ss cur pool (snd c)"
proof -
  obtain k f where c: "c = (k, f)" by (cases c)
  with assms(1) have "(k, f) \<in> set (clean key ss (above cur cands))" by simp
  then have "key f = Some k" "cur < k" "pool f" "unaffected key ss k"
    by (simp_all add: in_clean in_above assms(2) unaffected_def)
  moreover have "k \<le> k'" if "pool f'" "key f' = Some k'" "cur < k'" "unaffected key ss k'" for f' k'
    using hd_clean_least [of ss cur cands k f rest k' f'] assms c that
    by (simp add: unaffected_def)
  ultimately show ?thesis by (auto simp: lowest_clean_def c)
qed

lemma hd_above:
  assumes "above cur cands = c # rest"
    and "\<And>k f. (k, f) \<in> set cands \<longleftrightarrow> key f = k \<and> pool f"
  shows "lowest_above key cur pool (snd c)"
proof -
  obtain k f where c: "c = (k, f)" by (cases c)
  with assms(1) have "(k, f) \<in> set (above cur cands)" by simp
  then have "key f = Some k" "cur < k" "pool f" by (simp_all add: in_above assms(2))
  moreover have "k \<le> k'" if "pool f'" "key f' = Some k'" "cur < k'" for f' k'
  proof -
    have "(k', f') \<in> set (above cur cands)" using that by (simp add: in_above assms(2))
    moreover have "sorted (above cur cands)" by (simp add: above_def)
    ultimately have "(k, f) \<le> (k', f')" using assms(1) c by auto
    then show ?thesis by (auto simp: less_eq_prod_def)
  qed
  ultimately show ?thesis by (auto simp: lowest_above_def c)
qed

lemma pick_fix_cases:
  assumes g: "fix_of ss g" "key g \<noteq> None" and f: "pick_fix key ss (Some cur) = Some f"
  shows "lowest_clean key ss cur (own_fix key ss cur) f
    \<or> none_clean key ss cur (own_fix key ss cur) \<and> lowest_clean key ss cur (fix_of ss) f
    \<or> none_clean key ss cur (fix_of ss) \<and> lowest_above key cur (own_fix key ss cur) f"
proof (cases "clean key ss (above cur (own_pool ss cur))")
  case (Cons c rest)
  with f have "f = snd c" by (simp add: pick_fix_eq [OF g])
  with hd_clean [OF Cons] show ?thesis by (simp add: in_own_pool)
next
  case Nil
  then have own: "none_clean key ss cur (own_fix key ss cur)"
    by (auto simp: clean_empty in_own_pool none_clean_def)
  show ?thesis
  proof (cases "clean key ss (above cur (all_pool ss))")
    case (Cons c rest)
    with f Nil have "f = snd c" by (simp add: pick_fix_eq [OF g])
    with hd_clean [OF Cons] own show ?thesis by (simp add: in_all_pool)
  next
    case all: Nil
    then obtain c rest where c: "above cur (own_pool ss cur) = c # rest" "snd c = f"
      using f Nil by (auto simp: pick_fix_eq [OF g] split: list.splits)
    have "lowest_above key cur (own_fix key ss cur) f"
      using hd_above [OF c(1), of "own_fix key ss cur"] by (simp add: in_own_pool c(2))
    moreover have "none_clean key ss cur (fix_of ss)"
      using all by (auto simp: clean_empty in_all_pool none_clean_def)
    ultimately show ?thesis by blast
  qed
qed

lemma pick_fix_None:
  assumes g: "fix_of ss g" "key g \<noteq> None" and "pick_fix key ss (Some cur) = None"
    and "fix_of ss f" "key f = Some k" "cur < k"
  shows "\<not> unaffected key ss k \<and> \<not> own_fix key ss cur f"
proof -
  from assms(3) have "clean key ss (above cur (all_pool ss)) = []"
    "above cur (own_pool ss cur) = []"
    by (auto simp: pick_fix_eq [OF g] split: list.splits)
  moreover have "unaffected key ss k \<Longrightarrow> (k, f) \<in> set (clean key ss (above cur (all_pool ss)))"
    "own_fix key ss cur f \<Longrightarrow> (k, f) \<in> set (above cur (own_pool ss cur))"
    using assms(4-6) by (simp_all add: in_clean in_above in_all_pool in_own_pool unaffected_def)
  ultimately show ?thesis by auto
qed

end

section \<open>The ecosystems' key\<close>

lemma drop_zeros_neq_Nil: "ks \<noteq> [] \<Longrightarrow> drop_zeros ks \<noteq> []"
  by (induction ks rule: drop_zeros.induct) auto

lemma drop_zeros_canonical: "length (drop_zeros ks) > 1 \<Longrightarrow> hd (drop_zeros ks) \<noteq> 0"
  by (induction ks rule: drop_zeros.induct) auto

lemma parse_version_neq_Nil: "parse_version v e = Some k \<Longrightarrow> k \<noteq> []"
  by (auto simp: parse_version_def parse_semver_def leading_numeric_def Let_def
      split: if_splits option.splits)

interpretation eco_keys: version_keys "eco_key ecosystem" for ecosystem
proof
  show "k \<noteq> []" if "eco_key ecosystem v = Some k" for v k
    using that by (auto simp: version_key_def drop_zeros_neq_Nil parse_version_neq_Nil split: if_splits)
  show "last k \<noteq> 0" if "eco_key ecosystem v = Some k" "length k > 1" for v k
    using that drop_zeros_canonical by (auto simp: version_key_def last_rev split: if_splits)
qed

text \<open>A release and the same release with trailing zeros have the same key.\<close>

lemma drop_zeros_append: "ks \<noteq> [] \<Longrightarrow> drop_zeros (replicate m 0 @ ks) = drop_zeros ks"
proof (induction m)
  case (Suc m)
  then show ?case by (cases "replicate m 0 @ ks") auto
qed simp

section \<open>Properties\<close>

text \<open>
  \<open>covers\<close> is three-valued and sound: it says yes exactly when some affected span holds the
  version's key between its bounds, says no only when the version and the bounds that decide are
  all ordered and none holds it, and otherwise answers that it cannot tell.
\<close>

theorem covers_iff:
  "(covers vuln name ecosystem installed = Some True \<longleftrightarrow>
      (\<exists>k. version_key installed ecosystem = Some k \<and>
        (\<exists>s \<in> set (spans vuln name ecosystem False). in_span (eco_key ecosystem) s k))) \<and>
   (covers vuln name ecosystem installed = Some False \<longleftrightarrow>
      (\<exists>k. version_key installed ecosystem = Some k \<and>
        list_all (\<lambda>s. contains (eco_key ecosystem) s k = Some False)
          (spans vuln name ecosystem False)))"
  by (cases "version_key installed ecosystem")
    (simp_all add: covers_def eco_keys.covers_loop_True eco_keys.covers_loop_False list_all_iff)

text \<open>
  The example of the module's header: affected below 1.5.0 and again from 2.0.0 to 2.3.0, so the
  fix for 2.1.0 is 2.3.0.
\<close>

definition two_lines :: vuln where
  "two_lines = [\<lparr>pkg_name = Some ''pkg'', pkg_ecosystem = Some ''npm'', ranges =
     [\<lparr>rng_type = Some ''SEMVER'', events =
        [\<lparr>introduced = Some ''0'', fixed_at = None, last_affected_at = None\<rparr>,
         \<lparr>introduced = None, fixed_at = Some ''1.5.0'', last_affected_at = None\<rparr>,
         \<lparr>introduced = Some ''2.0.0'', fixed_at = None, last_affected_at = None\<rparr>,
         \<lparr>introduced = None, fixed_at = Some ''2.3.0'', last_affected_at = None\<rparr>]\<rparr>]\<rparr>]"

definition two_lines_spans :: "span list" where
  "two_lines_spans = [\<lparr>introduced_in = ''0'', fixed_in = Some ''1.5.0'', last_affected = None\<rparr>,
     \<lparr>introduced_in = ''2.0.0'', fixed_in = Some ''2.3.0'', last_affected = None\<rparr>]"

lemma two_lines_eval:
  "spans two_lines ''pkg'' (Some ''npm'') False = two_lines_spans"
  "version_key (Some ''2.1.0'') (Some ''npm'') = Some [2, 1]"
  "version_key (Some ''3.0.0'') (Some ''npm'') = Some [3]"
  "version_key (Some ''2.3.0'') (Some ''npm'') = Some [2, 3]"
  "version_key (Some ''1.5.0'') (Some ''npm'') = Some [1, 5]"
  "version_key (Some ''2.0.0'') (Some ''npm'') = Some [2]"
  by code_simp+

lemma two_lines_fixes:
  "fixed_for two_lines ''pkg'' (Some ''npm'') (Some ''2.1.0'') False = Some ''2.3.0''"
  "fixed_for two_lines ''pkg'' (Some ''npm'') (Some ''3.0.0'') False = None"
  by code_simp+

text \<open>
  C30. The fix picked for a version that can be ordered, from a record with a fix that can be
  ordered, is the lowest one above it, among the fixes of the spans that cover it, that no span
  marks affected again; when there is none, the lowest such fix of the whole record; and only when
  every fix above it is still affected, the lowest fix above it of the spans that cover it.
\<close>

theorem fixed_for_best:
  assumes "version_key installed ecosystem = Some cur"
    and "fix_of (spans vuln name ecosystem ignore_case) g" and "eco_key ecosystem g \<noteq> None"
    and "fixed_for vuln name ecosystem installed ignore_case = Some f"
  shows "let ss = spans vuln name ecosystem ignore_case; key = eco_key ecosystem in
    lowest_clean key ss cur (own_fix key ss cur) f
    \<or> none_clean key ss cur (own_fix key ss cur) \<and> lowest_clean key ss cur (fix_of ss) f
    \<or> none_clean key ss cur (fix_of ss) \<and> lowest_above key cur (own_fix key ss cur) f"
  using eco_keys.pick_fix_cases [OF assms(2,3)] assms(1,4) by (simp add: fixed_for_def Let_def)

theorem fixed_for_best_witness:
  "let ss = spans two_lines ''pkg'' (Some ''npm'') False; key = eco_key (Some ''npm'') in
    lowest_clean key ss [2, 1] (own_fix key ss [2, 1]) ''2.3.0''
    \<or> none_clean key ss [2, 1] (own_fix key ss [2, 1]) \<and> lowest_clean key ss [2, 1] (fix_of ss) ''2.3.0''
    \<or> none_clean key ss [2, 1] (fix_of ss) \<and> lowest_above key [2, 1] (own_fix key ss [2, 1]) ''2.3.0''"
  by (rule fixed_for_best [OF two_lines_eval(2), where g = "''2.3.0''"])
    (simp_all add: two_lines_eval two_lines_fixes fix_of_def two_lines_spans_def)

text \<open>
  No fix is offered only when none would do: if the installed version can be ordered and the
  record has a fix that can be ordered, a missing answer means that every stated fix above the
  installed version is itself still affected, and that no span covering the version has one.
\<close>

theorem fixed_for_None:
  assumes "version_key installed ecosystem = Some cur"
    and "fix_of (spans vuln name ecosystem ignore_case) g" and "eco_key ecosystem g \<noteq> None"
    and "fixed_for vuln name ecosystem installed ignore_case = None"
    and "fix_of (spans vuln name ecosystem ignore_case) f" and "eco_key ecosystem f = Some k"
    and "cur < k"
  shows "\<not> unaffected (eco_key ecosystem) (spans vuln name ecosystem ignore_case) k
    \<and> \<not> own_fix (eco_key ecosystem) (spans vuln name ecosystem ignore_case) cur f"
  using eco_keys.pick_fix_None [OF assms(2,3)] assms by (simp add: fixed_for_def)

text \<open>A release line that is fixed by one that is affected again.\<close>

definition relapse :: vuln where
  "relapse = [\<lparr>pkg_name = Some ''pkg'', pkg_ecosystem = Some ''npm'', ranges =
     [\<lparr>rng_type = Some ''SEMVER'', events =
        [\<lparr>introduced = Some ''3.0.0'', fixed_at = None, last_affected_at = None\<rparr>,
         \<lparr>introduced = None, fixed_at = Some ''4.0.0'', last_affected_at = None\<rparr>,
         \<lparr>introduced = Some ''4.0.0'', fixed_at = None, last_affected_at = None\<rparr>]\<rparr>]\<rparr>]"

lemma relapse_eval:
  "spans relapse ''pkg'' (Some ''npm'') False =
     [\<lparr>introduced_in = ''3.0.0'', fixed_in = Some ''4.0.0'', last_affected = None\<rparr>,
      \<lparr>introduced_in = ''4.0.0'', fixed_in = None, last_affected = None\<rparr>]"
  "version_key (Some ''1.0.0'') (Some ''npm'') = Some [1]"
  "version_key (Some ''4.0.0'') (Some ''npm'') = Some [4]"
  "fixed_for relapse ''pkg'' (Some ''npm'') (Some ''1.0.0'') False = None"
  by code_simp+

theorem fixed_for_None_witness:
  "\<not> unaffected (eco_key (Some ''npm'')) (spans relapse ''pkg'' (Some ''npm'') False) [4]
   \<and> \<not> own_fix (eco_key (Some ''npm'')) (spans relapse ''pkg'' (Some ''npm'') False) [1] ''4.0.0''"
  by (rule fixed_for_None [OF relapse_eval(2), where g = "''4.0.0''"])
    (simp_all add: relapse_eval fix_of_def)

end
