(* ===== verification/Py_Glob.thy ===== *)
theory Py_Glob
  imports Prelude
begin

text \<open>
  Python's \<open>fnmatch.fnmatch\<close> on a case-sensitive platform: a pattern is cut into tokens as
  \<open>fnmatch.translate\<close> does (\<open>*\<close>, \<open>?\<close>, bracket sets with ranges and \<open>!\<close>, everything else
  literal), and the whole name must match them.
\<close>

datatype glob = Star | One "char \<Rightarrow> bool"

section \<open>Bracket sets\<close>

text \<open>The position of the first \<open>c\<close> in \<open>s\<close> at or after \<open>m\<close>.\<close>

definition index_from :: "char \<Rightarrow> nat \<Rightarrow> string \<Rightarrow> nat option" where
  "index_from c m s =
     (let k = length (takeWhile (\<lambda>x. x \<noteq> c) (drop m s)) in
      if m + k < length s then Some (m + k) else None)"

text \<open>What stands between the brackets, and the pattern after them; the text is after \<open>[\<close>.\<close>

definition bracket :: "string \<Rightarrow> (string \<times> string) option" where
  "bracket p =
     (let i = (if take 1 p = ''!'' then 1 else 0);
          j = (if take 1 (drop i p) = '']'' then Suc i else i)
      in map_option (\<lambda>k. (take k p, drop (Suc k) p)) (index_from CHR '']'' j p))"

text \<open>The chunks between the hyphens that make ranges, searched from offset \<open>m\<close>.\<close>

function chunks_at :: "nat \<Rightarrow> string \<Rightarrow> string list" where
  "chunks_at m w = (case index_from CHR ''-'' m w of
     None \<Rightarrow> [w]
   | Some k \<Rightarrow> (case drop (Suc k) w of
       [] \<Rightarrow> [take k w @ ''-'']
     | x # xs \<Rightarrow> take k w # chunks_at 2 (x # xs)))"
  by pat_completeness auto
termination
proof (relation "measure (\<lambda>(m, w). length w)")
  fix m w k x xs
  assume "drop (Suc k) w = x # (xs :: string)"
  then have "length (x # xs) = length w - Suc k" by (metis length_drop)
  then show "((2, x # xs), m :: nat, w) \<in> measure (\<lambda>(m, w). length w)" by auto
qed simp

declare chunks_at.simps [simp del]

text \<open>Empty ranges are dropped, from the right: their two end points go away.\<close>

fun merge_chunks :: "string list \<Rightarrow> string list" where
  "merge_chunks (a # bs) = (case merge_chunks bs of
     [] \<Rightarrow> [a]
   | b # r \<Rightarrow> if a \<noteq> [] \<and> b \<noteq> [] \<and> last a > hd b then (butlast a @ tl b) # r else a # b # r)"
| "merge_chunks [] = []"

fun in_chunks :: "string list \<Rightarrow> char \<Rightarrow> bool" where
  "in_chunks (a # b # r) c \<longleftrightarrow>
     c \<in> set a \<or> (a \<noteq> [] \<and> b \<noteq> [] \<and> last a \<le> c \<and> c \<le> hd b) \<or> in_chunks (b # r) c"
| "in_chunks [a] c \<longleftrightarrow> c \<in> set a"
| "in_chunks [] c \<longleftrightarrow> False"

definition set_chunks :: "string \<Rightarrow> string list" where
  "set_chunks stuff =
     (if CHR ''-'' \<in> set stuff
      then merge_chunks (chunks_at (if take 1 stuff = ''!'' then 2 else 1) stuff)
      else [stuff])"

definition in_set :: "string \<Rightarrow> char \<Rightarrow> bool" where
  "in_set stuff c = (case set_chunks stuff of
     (x # a) # r \<Rightarrow> if x = CHR ''!'' then \<not> in_chunks (a # r) c else in_chunks ((x # a) # r) c
   | cs \<Rightarrow> in_chunks cs c)"

section \<open>Patterns\<close>

lemma index_from_bound: "index_from c m s = Some k \<Longrightarrow> m \<le> k \<and> k < length s"
  by (auto simp: index_from_def Let_def split: if_splits)

function translate :: "string \<Rightarrow> glob list" where
  "translate [] = []"
| "translate (c # p) =
     (if c = CHR ''*'' then Star # translate p
      else if c = CHR ''?'' then One (\<lambda>_. True) # translate p
      else if c = CHR ''['' then
        (case bracket p of
           None \<Rightarrow> One (\<lambda>x. x = c) # translate p
         | Some (stuff, rest) \<Rightarrow> One (in_set stuff) # translate rest)
      else One (\<lambda>x. x = c) # translate p)"
  by pat_completeness auto
termination
proof (relation "measure length")
  fix c p x stuff rest
  assume "bracket p = Some x" "(stuff, rest) = x"
  then show "(rest, c # p) \<in> measure length"
    by (auto simp: bracket_def Let_def)
qed simp_all

fun gmatch :: "glob list \<Rightarrow> string \<Rightarrow> bool" where
  "gmatch [] s = (s = [])"
| "gmatch (Star # ts) [] = gmatch ts []"
| "gmatch (Star # ts) (c # s) = (gmatch ts (c # s) \<or> gmatch (Star # ts) s)"
| "gmatch (One p # ts) [] = False"
| "gmatch (One p # ts) (c # s) = (p c \<and> gmatch ts s)"

definition fnmatch :: "string \<Rightarrow> string \<Rightarrow> bool" where
  "fnmatch name pat = gmatch (translate pat) name"

definition fnmatch_any :: "string \<Rightarrow> string list \<Rightarrow> bool" where
  "fnmatch_any name pats = (\<exists>p \<in> set pats. fnmatch name p)"

section \<open>What the patterns of the program mean\<close>

definition no_magic :: "string \<Rightarrow> bool" where
  "no_magic p \<longleftrightarrow> CHR ''*'' \<notin> set p \<and> CHR ''?'' \<notin> set p \<and> CHR ''['' \<notin> set p"

lemma gmatch_Star: "gmatch (Star # ts) s \<longleftrightarrow> (\<exists>a b. s = a @ b \<and> gmatch ts b)"
proof (induction s)
  case (Cons c s)
  have "(\<exists>a b. c # s = a @ b \<and> gmatch ts b)
      \<longleftrightarrow> gmatch ts (c # s) \<or> (\<exists>a b. s = a @ b \<and> gmatch ts b)"
    by (metis append_Cons append_Nil list.exhaust list.inject)
  with Cons show ?case by simp
qed simp

lemma translate_literal_append: "no_magic p \<Longrightarrow> translate (p @ q) = map (\<lambda>c. One (\<lambda>x. x = c)) p @ translate q"
  by (induction p) (auto simp: no_magic_def)

lemma gmatch_literal_append:
  "gmatch (map (\<lambda>c. One (\<lambda>x. x = c)) p @ ts) s \<longleftrightarrow> (\<exists>r. s = p @ r \<and> gmatch ts r)"
proof (induction p arbitrary: s)
  case (Cons c p)
  then show ?case by (cases s) auto
qed simp

text \<open>A pattern without magic characters matches itself only; a trailing star asks for a prefix.\<close>

lemma fnmatch_literal: "no_magic p \<Longrightarrow> fnmatch s p \<longleftrightarrow> s = p"
  using translate_literal_append [of p "[]"] gmatch_literal_append [of p "[]" s]
  by (simp add: fnmatch_def)

lemma fnmatch_star: "fnmatch s ''*''"
  by (simp add: fnmatch_def gmatch_Star)

lemma fnmatch_prefix: "no_magic p \<Longrightarrow> fnmatch s (p @ ''*'') \<longleftrightarrow> startswith s p"
  by (auto simp: fnmatch_def translate_literal_append gmatch_literal_append gmatch_Star
      startswith_iff)

end
