(* ===== verification/Scope_Gate.thy ===== *)
theory Scope_Gate
  imports Py_Glob
begin

text \<open>
  \<open>validation/scope.py\<close>: the rules of engagement for live validation. A scope is built from a
  targets file, from command-line flags and from inferred targets, in that order, and every adapter
  action is checked against it by \<open>is_in_scope\<close>. Dates are ordinals; today's date and the resolution
  of file-system paths are arguments. The parsed targets file is a record with the keys the code
  reads, an absent list being empty. Reasons are constructors that carry what the message shows.
\<close>

section \<open>Actions, rules and scopes\<close>

definition CONTROL_PLANE_NS_PATTERNS :: "string list" where
  "CONTROL_PLANE_NS_PATTERNS =
     [''kube-system'', ''kube-public'', ''kube-node-lease'', ''default'', ''openshift'', ''openshift-*'',
      ''openshift-etcd'', ''openshift-etcd-operator'', ''openshift-kube-apiserver*'',
      ''openshift-kube-controller-manager*'', ''openshift-kube-scheduler*'', ''openshift-apiserver*'',
      ''openshift-authentication*'', ''openshift-oauth-apiserver'', ''openshift-cluster-version'',
      ''openshift-machine-api'', ''openshift-machine-config-operator'']"

definition CONTROL_PLANE_CLUSTER_RESOURCES :: "string set" where
  "CONTROL_PLANE_CLUSTER_RESOURCES =
     {''nodes'', ''node'', ''clusterroles'', ''clusterrole'', ''clusterrolebindings'',
      ''clusterrolebinding'', ''customresourcedefinitions'', ''customresourcedefinition'', ''crds'',
      ''crd'', ''machineconfigs'', ''machineconfig'', ''machineconfigpools'', ''machineconfigpool'',
      ''apiservices'', ''apiservice'', ''clusterversions'', ''clusterversion'', ''clusteroperators'',
      ''clusteroperator'', ''namespaces'', ''namespace'', ''ns'', ''priorityclasses'',
      ''priorityclass'', ''oauths'', ''oauth'', ''validatingwebhookconfigurations'',
      ''mutatingwebhookconfigurations''}"

definition READONLY_VERBS :: "string set" where
  "READONLY_VERBS = {''get'', ''list'', ''watch'', ''describe'', ''logs'', ''top'', ''explain'',
     ''raw-read'', ''rbac-can-i'', ''can-i''}"

record action =
  adapter :: string
  verb :: string
  a_context :: "string option"
  a_namespace :: "string option"
  a_resource :: "string option"
  a_name :: "string option"
  a_image :: "string option"
  a_artifact :: "string option"

record cluster_scope =
  cs_context :: string
  cs_api :: "string option"
  namespaces :: "string list"
  verbs_denied :: "string list"
  explicit_namespaces :: "string set"

record off_limit =
  ol_context :: "string option"
  ol_namespace :: "string option"
  ol_resource :: "string option"
  ol_verb :: "string option"
  ol_name :: "string option"
  ol_image :: "string option"

record scope =
  engagement :: "string option"
  authorized_by :: "string option"
  expires :: "int option"
  environment :: "string option"
  clusters :: "(string \<times> cluster_scope) list"
  containers :: "string list"
  container_runtimes :: "string list"
  wasm_artifacts :: "string list"
  images :: "string list"
  off_limits :: "off_limit list"
  modes :: "string set"
  credential_probe_classes :: "string set"
  inventory_aws_profiles :: "string set"
  inventory_cluster_contexts :: "string set"
  pod_selectors :: "string list"

definition empty_scope :: scope where
  "empty_scope = \<lparr>engagement = None, authorized_by = None, expires = None, environment = None,
     clusters = [], containers = [], container_runtimes = [], wasm_artifacts = [], images = [],
     off_limits = [], modes = {}, credential_probe_classes = {}, inventory_aws_profiles = {},
     inventory_cluster_contexts = {}, pod_selectors = []\<rparr>"

definition new_cluster :: "string \<Rightarrow> cluster_scope" where
  "new_cluster ctx = \<lparr>cs_context = ctx, cs_api = None, namespaces = [], verbs_denied = [],
     explicit_namespaces = {}\<rparr>"

definition ns_allowed :: "cluster_scope \<Rightarrow> string option \<Rightarrow> bool" where
  "ns_allowed cs ns = (case ns of
     None \<Rightarrow> ''*'' \<in> set (namespaces cs)
   | Some n \<Rightarrow> fnmatch_any n (namespaces cs))"

text \<open>A rule fires when every field it sets matches; a field the action leaves open matches too.\<close>

definition rule_matches :: "string option \<Rightarrow> string option \<Rightarrow> bool" where
  "rule_matches rule val = (case (rule, val) of
     (Some r, Some v) \<Rightarrow> fnmatch v r | _ \<Rightarrow> True)"

definition ol_matches :: "off_limit \<Rightarrow> action \<Rightarrow> bool" where
  "ol_matches ol a \<longleftrightarrow>
     rule_matches (ol_context ol) (a_context a)
     \<and> rule_matches (ol_namespace ol) (a_namespace a)
     \<and> rule_matches (ol_resource ol) (a_resource a)
     \<and> rule_matches (ol_verb ol) (Some (verb a))
     \<and> rule_matches (ol_name ol) (a_name a)
     \<and> rule_matches (ol_image ol) (a_image a)"

section \<open>Building a scope\<close>

record cluster_spec =
  t_context :: string
  t_api :: "string option"
  t_namespaces :: "string list"
  t_verbs_denied :: "string list"

record targets =
  t_engagement :: "string option"
  t_authorized_by :: "string option"
  t_environment :: "string option"
  t_expires :: "int option"
  t_clusters :: "cluster_spec list"
  t_containers :: "(string option \<times> string list) list"
  t_wasm :: "string list"
  t_images :: "string list"
  t_off_limits :: "off_limit list"
  t_credential_classes :: "string list"
  t_aws_profiles :: "string list"
  t_cluster_contexts :: "string list"

definition cluster_of_spec :: "cluster_spec \<Rightarrow> cluster_scope" where
  "cluster_of_spec c = \<lparr>cs_context = t_context c, cs_api = t_api c, namespaces = t_namespaces c,
     verbs_denied = t_verbs_denied c, explicit_namespaces = set (t_namespaces c)\<rparr>"

definition from_targets :: "targets \<Rightarrow> scope" where
  "from_targets d = empty_scope\<lparr>
     modes := {''explicit''},
     engagement := t_engagement d,
     authorized_by := t_authorized_by d,
     environment := t_environment d,
     expires := t_expires d,
     clusters := fold (\<lambda>c. AList.update (t_context c) (cluster_of_spec c)) (t_clusters d) [],
     container_runtimes := map (\<lambda>(r, _). case r of None \<Rightarrow> ''podman'' | Some x \<Rightarrow> x) (t_containers d),
     containers := concat (map snd (t_containers d)),
     wasm_artifacts := t_wasm d,
     images := t_images d,
     off_limits := t_off_limits d,
     credential_probe_classes := set (t_credential_classes d),
     inventory_aws_profiles := set (t_aws_profiles d),
     inventory_cluster_contexts := set (t_cluster_contexts d)\<rparr>"

text \<open>\<open>clusters.setdefault(key, ClusterScope(context=key))\<close>, then an update of its namespaces.\<close>

definition with_cluster :: "string \<Rightarrow> (string list \<Rightarrow> string list) \<Rightarrow> (string \<times> cluster_scope) list
    \<Rightarrow> (string \<times> cluster_scope) list" where
  "with_cluster key f cl =
     (let cs = (case map_of cl key of None \<Rightarrow> new_cluster key | Some c \<Rightarrow> c)
      in AList.update key (cs\<lparr>namespaces := f (namespaces cs)\<rparr>) cl)"

definition merge_inline :: "string option list \<Rightarrow> string list \<Rightarrow> string list \<Rightarrow> string list
    \<Rightarrow> string list \<Rightarrow> string list \<Rightarrow> scope \<Rightarrow> scope" where
  "merge_inline ctxs nss imgs pods conts wasm s = s\<lparr>
     modes := (if ctxs \<noteq> [] \<or> nss \<noteq> [] \<or> imgs \<noteq> [] \<or> pods \<noteq> [] \<or> conts \<noteq> [] \<or> wasm \<noteq> []
               then insert ''inline'' (modes s) else modes s),
     clusters := fold (\<lambda>ctx. with_cluster (or_str ctx ''__current__'') (\<lambda>ns. ns @ nss))
       (if ctxs \<noteq> [] then ctxs else if nss \<noteq> [] then [None] else []) (clusters s),
     images := images s @ imgs,
     containers := containers s @ conts,
     pod_selectors := pods,
     wasm_artifacts := wasm_artifacts s @ wasm\<rparr>"

definition add_new :: "string list \<Rightarrow> string list \<Rightarrow> string list" where
  "add_new xs base = fold (\<lambda>x acc. if x \<in> set acc then acc else acc @ [x]) xs base"

record inferred =
  i_clusters :: "(string \<times> string list) list"
  i_images :: "string list"
  i_containers :: "string list"
  i_wasm :: "string list"

definition merge_inferred :: "inferred \<Rightarrow> scope \<Rightarrow> scope" where
  "merge_inferred i s = s\<lparr>
     modes := insert ''inferred'' (modes s),
     clusters := fold (\<lambda>(ctx, nss). with_cluster ctx (add_new nss)) (i_clusters i) (clusters s),
     images := add_new (i_images i) (images s),
     containers := add_new (i_containers i) (containers s),
     wasm_artifacts := add_new (i_wasm i) (wasm_artifacts s)\<rparr>"

text \<open>
  The flags of the command line. In \<open>build_scope\<close> an absent or empty targets path is
  \<open>None\<close>, and so is an inferred dictionary that is absent or empty.
\<close>

record inline =
  n_contexts :: "string option list"
  n_namespaces :: "string list"
  n_images :: "string list"
  n_pods :: "string list"
  n_containers :: "string list"
  n_wasm :: "string list"

definition build_scope :: "targets option \<Rightarrow> inline \<Rightarrow> inferred option \<Rightarrow> scope" where
  "build_scope tf n ifr =
     (let s = (case tf of None \<Rightarrow> empty_scope | Some d \<Rightarrow> from_targets d);
          s = merge_inline (n_contexts n) (n_namespaces n) (n_images n) (n_pods n) (n_containers n)
                (n_wasm n) s
      in case ifr of None \<Rightarrow> s | Some i \<Rightarrow> merge_inferred i s)"

definition binding_mode :: "scope \<Rightarrow> string" where
  "binding_mode s = (if modes s = {} then ''none''
     else if card (modes s) = 1 then the_elem (modes s) else ''mixed'')"

section \<open>The check\<close>

datatype deny =
    Expired int
  | Off_limits off_limit
  | Control_plane_resource "string option" string
  | Control_plane_namespace string
  | Context_not_in_scope "string option"
  | Verb_denied string string
  | Namespace_not_in_scope "string option" string
  | Image_not_in_scope string
  | No_containers
  | Container_not_in_scope string
  | Needs_explicit_scope string
  | Verb_not_read_only string
  | Class_not_listed "string option"
  | Aws_profile_not_listed "string option"
  | Cluster_context_not_listed "string option"
  | Unknown_inventory_resource "string option"
  | No_wasm_artifacts
  | Artifact_not_in_scope string
  | Unknown_adapter string

text \<open>\<open>self.clusters.get(a.context) or self.clusters.get("__current__")\<close>\<close>

definition cluster_for :: "scope \<Rightarrow> action \<Rightarrow> cluster_scope option" where
  "cluster_for s a =
     (case (case a_context a of None \<Rightarrow> None | Some c \<Rightarrow> map_of (clusters s) c) of
        Some cs \<Rightarrow> Some cs
      | None \<Rightarrow> map_of (clusters s) ''__current__'')"

definition control_plane_ns :: "string \<Rightarrow> bool" where
  "control_plane_ns ns = fnmatch_any ns CONTROL_PLANE_NS_PATTERNS"

definition control_plane_locked :: "scope \<Rightarrow> action \<Rightarrow> deny option" where
  "control_plane_locked s a =
     (if adapter a \<noteq> ''k8s'' then None
      else if \<not> truthy (a_namespace a) then
        (if a_resource a \<in> Some ` CONTROL_PLANE_CLUSTER_RESOURCES \<and> verb a \<notin> READONLY_VERBS then
           (case cluster_for s a of
              Some cs \<Rightarrow> if ''*'' \<in> explicit_namespaces cs then None
                else Some (Control_plane_resource (a_resource a) (verb a))
            | None \<Rightarrow> Some (Control_plane_resource (a_resource a) (verb a)))
         else None)
      else
        (let ns = or_str (a_namespace a) [] in
         if \<not> control_plane_ns ns then None
         else (case cluster_for s a of
              Some cs \<Rightarrow> if \<exists>p \<in> explicit_namespaces cs. fnmatch ns p then None
                else Some (Control_plane_namespace ns)
            | None \<Rightarrow> Some (Control_plane_namespace ns))))"

definition image_allowed :: "scope \<Rightarrow> action \<Rightarrow> bool" where
  "image_allowed s a \<longleftrightarrow>
     \<not> (truthy (a_image a) \<and> images s \<noteq> [] \<and> \<not> fnmatch_any (or_str (a_image a) []) (images s))"

definition k8s_scope :: "scope \<Rightarrow> action \<Rightarrow> deny option" where
  "k8s_scope s a = (case cluster_for s a of
     None \<Rightarrow> Some (Context_not_in_scope (a_context a))
   | Some cs \<Rightarrow>
       if verb a \<in> set (verbs_denied cs) then Some (Verb_denied (verb a) (cs_context cs))
       else if \<not> ns_allowed cs (a_namespace a) then
         Some (Namespace_not_in_scope (a_namespace a) (cs_context cs))
       else if \<not> image_allowed s a then Some (Image_not_in_scope (or_str (a_image a) []))
       else None)"

definition container_scope :: "scope \<Rightarrow> action \<Rightarrow> deny option" where
  "container_scope s a =
     (if containers s = [] then Some No_containers
      else if truthy (a_name a) \<and> \<not> fnmatch_any (or_str (a_name a) []) (containers s) then
        Some (Container_not_in_scope (or_str (a_name a) []))
      else if \<not> image_allowed s a then Some (Image_not_in_scope (or_str (a_image a) []))
      else None)"

definition credential_scope :: "scope \<Rightarrow> action \<Rightarrow> deny option" where
  "credential_scope s a =
     (if ''explicit'' \<notin> modes s then Some (Needs_explicit_scope ''credential'')
      else if verb a \<noteq> ''introspect'' then Some (Verb_not_read_only (verb a))
      else if a_resource a \<notin> Some ` credential_probe_classes s then Some (Class_not_listed (a_resource a))
      else None)"

definition inventory_scope :: "scope \<Rightarrow> action \<Rightarrow> deny option" where
  "inventory_scope s a =
     (if ''explicit'' \<notin> modes s then Some (Needs_explicit_scope ''inventory'')
      else if verb a \<noteq> ''enumerate'' then Some (Verb_not_read_only (verb a))
      else if a_resource a = Some ''aws_profile'' then
        (if a_name a \<notin> Some ` inventory_aws_profiles s then Some (Aws_profile_not_listed (a_name a))
         else None)
      else if a_resource a = Some ''cluster_context'' then
        (if a_name a \<notin> Some ` inventory_cluster_contexts s
         then Some (Cluster_context_not_listed (a_name a)) else None)
      else Some (Unknown_inventory_resource (a_resource a)))"

definition wasm_scope :: "(string \<Rightarrow> string) \<Rightarrow> scope \<Rightarrow> action \<Rightarrow> deny option" where
  "wasm_scope resolve s a =
     (if wasm_artifacts s = [] then Some No_wasm_artifacts
      else if truthy (a_artifact a)
          \<and> \<not> (\<exists>p \<in> set (wasm_artifacts s). fnmatch (or_str (a_artifact a) []) p
                \<or> resolve (or_str (a_artifact a) []) = resolve p)
      then Some (Artifact_not_in_scope (or_str (a_artifact a) []))
      else None)"

definition expired :: "int \<Rightarrow> scope \<Rightarrow> bool" where
  "expired today s = (case expires s of None \<Rightarrow> False | Some d \<Rightarrow> d < today)"

text \<open>\<open>None\<close> is the answer \<open>(True, "ok")\<close>, \<open>Some r\<close> is a refusal with its reason.\<close>

definition is_in_scope :: "int \<Rightarrow> (string \<Rightarrow> string) \<Rightarrow> scope \<Rightarrow> action \<Rightarrow> deny option" where
  "is_in_scope today resolve s a =
     (if expired today s then Some (Expired (the (expires s)))
      else (case find (\<lambda>ol. ol_matches ol a) (off_limits s) of
        Some ol \<Rightarrow> Some (Off_limits ol)
      | None \<Rightarrow> (case control_plane_locked s a of
          Some r \<Rightarrow> Some r
        | None \<Rightarrow>
            if adapter a = ''k8s'' then k8s_scope s a
            else if adapter a = ''container'' then container_scope s a
            else if adapter a = ''credential'' then credential_scope s a
            else if adapter a = ''inventory'' then inventory_scope s a
            else if adapter a = ''wasm'' then wasm_scope resolve s a
            else Some (Unknown_adapter (adapter a)))))"

section \<open>What a layer of the scope may change\<close>

text \<open>
  The layers above the targets file only add. A layer keeps the hard denies and the allowlists
  that only the targets file writes, keeps the explicit namespaces of every cluster and gives none
  to a cluster it creates, and brings in the mode \<open>explicit\<close> for nobody.
\<close>

definition explicit_of :: "scope \<Rightarrow> string \<Rightarrow> string set" where
  "explicit_of s k = (case map_of (clusters s) k of None \<Rightarrow> {} | Some cs \<Rightarrow> explicit_namespaces cs)"

definition same_rules :: "scope \<Rightarrow> scope \<Rightarrow> bool" where
  "same_rules s s' \<longleftrightarrow> expires s' = expires s \<and> off_limits s' = off_limits s
     \<and> credential_probe_classes s' = credential_probe_classes s
     \<and> inventory_aws_profiles s' = inventory_aws_profiles s
     \<and> inventory_cluster_contexts s' = inventory_cluster_contexts s
     \<and> explicit_of s' = explicit_of s
     \<and> (''explicit'' \<in> modes s' \<longleftrightarrow> ''explicit'' \<in> modes s)"

lemma same_rules_trans: "same_rules s s' \<Longrightarrow> same_rules s' s'' \<Longrightarrow> same_rules s s''"
  by (simp add: same_rules_def)

locale scope_layer =
  fixes layer :: "scope \<Rightarrow> scope"
  assumes keeps_rules: "same_rules s (layer s)"
    and keeps_verbs_denied: "map_of (clusters s) k = Some cs
      \<Longrightarrow> \<exists>cs'. map_of (clusters (layer s)) k = Some cs' \<and> verbs_denied cs' = verbs_denied cs"
begin

lemma still_expired:
  "expires s = Some d \<Longrightarrow> d < today \<Longrightarrow> is_in_scope today resolve (layer s) a = Some (Expired d)"
  using keeps_rules [of s] by (simp add: is_in_scope_def same_rules_def expired_def)

lemma still_off_limits:
  "ol \<in> set (off_limits s) \<Longrightarrow> ol_matches ol a \<Longrightarrow> is_in_scope today resolve (layer s) a \<noteq> None"
  using keeps_rules [of s]
  by (auto simp: is_in_scope_def same_rules_def find_None_iff split: option.splits)

end

lemma map_of_with_cluster:
  "map_of (with_cluster key f cl) k =
     (if k = key then
        Some ((case map_of cl key of None \<Rightarrow> new_cluster key | Some c \<Rightarrow> c)
          \<lparr>namespaces := f (namespaces (case map_of cl key of None \<Rightarrow> new_cluster key | Some c \<Rightarrow> c))\<rparr>)
      else map_of cl k)"
  by (simp add: with_cluster_def Let_def update_conv')

definition cluster_mark :: "(string \<times> cluster_scope) list \<Rightarrow> string \<Rightarrow> string set" where
  "cluster_mark cl k = (case map_of cl k of None \<Rightarrow> {} | Some cs \<Rightarrow> explicit_namespaces cs)"

lemma cluster_mark_with_cluster: "cluster_mark (with_cluster key f cl) = cluster_mark cl"
  by (rule ext) (simp add: cluster_mark_def map_of_with_cluster new_cluster_def split: option.splits)

lemma explicit_of_mark: "explicit_of s = cluster_mark (clusters s)"
  by (rule ext) (simp add: explicit_of_def cluster_mark_def)

lemma cluster_mark_fold:
  "(\<And>x cl. cluster_mark (g x cl) = cluster_mark cl) \<Longrightarrow> cluster_mark (fold g xs cl) = cluster_mark cl"
  by (induction xs arbitrary: cl) simp_all

lemma denied_with_cluster:
  "map_of cl k = Some cs \<Longrightarrow>
   \<exists>cs'. map_of (with_cluster key f cl) k = Some cs' \<and> verbs_denied cs' = verbs_denied cs"
  by (auto simp: map_of_with_cluster)

lemma denied_fold:
  assumes "\<And>x cl cs. map_of cl k = Some cs \<Longrightarrow>
    \<exists>cs'. map_of (g x cl) k = Some cs' \<and> verbs_denied cs' = verbs_denied cs"
  shows "map_of cl k = Some cs \<Longrightarrow>
    \<exists>cs'. map_of (fold g xs cl) k = Some cs' \<and> verbs_denied cs' = verbs_denied cs"
proof (induction xs arbitrary: cl cs)
  case (Cons x xs)
  then show ?case using assms [OF Cons.prems, of x] by fastforce
qed simp

interpretation inline_layer: scope_layer "merge_inline ctxs nss imgs pods conts wasm"
  for ctxs nss imgs pods conts wasm
proof unfold_locales
  fix s k cs
  show "same_rules s (merge_inline ctxs nss imgs pods conts wasm s)"
    by (simp add: same_rules_def merge_inline_def explicit_of_mark cluster_mark_fold
        cluster_mark_with_cluster)
  assume "map_of (clusters s) k = Some cs"
  then show "\<exists>cs'. map_of (clusters (merge_inline ctxs nss imgs pods conts wasm s)) k = Some cs'
      \<and> verbs_denied cs' = verbs_denied cs"
    unfolding merge_inline_def by (simp add: denied_fold denied_with_cluster)
qed

interpretation inferred_layer: scope_layer "merge_inferred i" for i
proof unfold_locales
  fix s k cs
  show "same_rules s (merge_inferred i s)"
    by (simp add: same_rules_def merge_inferred_def explicit_of_mark cluster_mark_fold
        cluster_mark_with_cluster split_beta)
  assume "map_of (clusters s) k = Some cs"
  then show "\<exists>cs'. map_of (clusters (merge_inferred i s)) k = Some cs'
      \<and> verbs_denied cs' = verbs_denied cs"
    unfolding merge_inferred_def by (simp add: denied_fold denied_with_cluster split_beta)
qed

lemma build_scope_rules:
  "same_rules (case tf of None \<Rightarrow> empty_scope | Some d \<Rightarrow> from_targets d) (build_scope tf n ifr)"
  by (auto simp: build_scope_def Let_def split: option.splits
      intro: same_rules_trans inline_layer.keeps_rules inferred_layer.keeps_rules)

lemma explicit_from_targets:
  "explicit_of (from_targets d) k = {} \<or>
   (\<exists>c \<in> set (t_clusters d). t_context c = k \<and> explicit_of (from_targets d) k = set (t_namespaces c))"
proof -
  have "(cluster_mark (fold (\<lambda>c. AList.update (t_context c) (cluster_of_spec c)) cs cl) k
         = cluster_mark cl k)
     \<or> (\<exists>c \<in> set cs. t_context c = k
         \<and> cluster_mark (fold (\<lambda>c. AList.update (t_context c) (cluster_of_spec c)) cs cl) k
           = set (t_namespaces c))" for cs cl
    by (induction cs rule: rev_induct)
      (auto simp: cluster_mark_def update_conv' cluster_of_spec_def)
  from this [of "t_clusters d" "[]"] show ?thesis
    by (auto simp: explicit_of_mark from_targets_def cluster_mark_def)
qed

lemma explicit_built:
  assumes "p \<in> explicit_of (build_scope tf n ifr) k"
  obtains d c where "tf = Some d" "c \<in> set (t_clusters d)" "t_context c = k" "p \<in> set (t_namespaces c)"
proof (cases tf)
  case None
  with build_scope_rules [of tf n ifr] assms show thesis
    by (simp add: same_rules_def explicit_of_def empty_scope_def)
next
  case (Some d)
  with build_scope_rules [of tf n ifr] assms have "p \<in> explicit_of (from_targets d) k"
    by (simp add: same_rules_def)
  with explicit_from_targets [of d k] Some show thesis by (auto intro: that)
qed

lemma cluster_for_explicit:
  "cluster_for s a = Some cs \<Longrightarrow>
   \<exists>k. (a_context a = Some k \<or> k = ''__current__'') \<and> explicit_namespaces cs = explicit_of s k"
  by (auto simp: cluster_for_def explicit_of_def split: option.splits)

section \<open>What a grant promises\<close>

lemma in_scopeD:
  assumes "is_in_scope today resolve s a = None"
  shows "\<not> expired today s" "find (\<lambda>ol. ol_matches ol a) (off_limits s) = None"
    "control_plane_locked s a = None"
  using assms by (auto simp: is_in_scope_def split: if_splits option.splits)

lemma in_scope_iff:
  "is_in_scope today resolve s a = None \<longleftrightarrow>
     \<not> expired today s
     \<and> (\<forall>ol \<in> set (off_limits s). \<not> ol_matches ol a)
     \<and> control_plane_locked s a = None
     \<and> (adapter a = ''k8s'' \<and> k8s_scope s a = None
        \<or> adapter a = ''container'' \<and> container_scope s a = None
        \<or> adapter a = ''credential'' \<and> credential_scope s a = None
        \<or> adapter a = ''inventory'' \<and> inventory_scope s a = None
        \<or> adapter a = ''wasm'' \<and> wasm_scope resolve s a = None)"
proof (cases "expired today s")
  case True
  then show ?thesis by (auto simp: is_in_scope_def)
next
  case False
  show ?thesis
  proof (cases "find (\<lambda>ol. ol_matches ol a) (off_limits s)")
    case None
    then have "\<forall>ol \<in> set (off_limits s). \<not> ol_matches ol a" by (simp add: find_None_iff_ball)
    with False None show ?thesis
      unfolding is_in_scope_def by (cases "control_plane_locked s a") auto
  next
    case (Some ol)
    then have "ol \<in> set (off_limits s)" "ol_matches ol a" by (auto dest: find_Some_iff_in)
    with False Some show ?thesis unfolding is_in_scope_def by auto
  qed
qed

text \<open>
  The control plane opens through the targets file only. In a scope built from any targets
  file, flags and inferred targets, a Kubernetes action in a control-plane namespace that is in
  scope has a cluster entry of the targets file, for its own context or for the current one, that
  lists a pattern for this namespace; the namespaces of flags and inference never suffice.
\<close>

theorem control_plane_explicit:
  assumes "is_in_scope today resolve (build_scope tf n ifr) a = None"
    and "adapter a = ''k8s''" and "a_namespace a = Some ns" and "control_plane_ns ns"
  shows "\<exists>d c p. tf = Some d \<and> c \<in> set (t_clusters d) \<and> p \<in> set (t_namespaces c) \<and> fnmatch ns p
     \<and> (a_context a = Some (t_context c) \<or> t_context c = ''__current__'')"
proof -
  let ?s = "build_scope tf n ifr"
  have "\<not> control_plane_ns []" by code_simp
  with assms(4) have ne: "ns \<noteq> []" by metis
  have unlocked: "control_plane_locked ?s a = None" using assms(1) by (rule in_scopeD)
  then obtain cs p where cs: "cluster_for ?s a = Some cs" and p: "p \<in> explicit_namespaces cs" "fnmatch ns p"
    using assms(2-4) ne
    by (auto simp: control_plane_locked_def Let_def split: option.splits if_splits)
  from cluster_for_explicit [OF cs] obtain k
    where k: "a_context a = Some k \<or> k = ''__current__''" "explicit_namespaces cs = explicit_of ?s k"
    by blast
  from p k have "p \<in> explicit_of ?s k" by simp
  with p k show ?thesis by (elim explicit_built) blast
qed

definition demo_targets :: targets where
  "demo_targets = \<lparr>t_engagement = None, t_authorized_by = None, t_environment = None,
     t_expires = Some 100,
     t_clusters = [\<lparr>t_context = ''prod'', t_api = None, t_namespaces = [''openshift-d*'', ''app''],
       t_verbs_denied = [''delete'']\<rparr>],
     t_containers = [], t_wasm = [], t_images = [],
     t_off_limits = [\<lparr>ol_context = None, ol_namespace = Some ''pay*'', ol_resource = None,
       ol_verb = None, ol_name = None, ol_image = None\<rparr>],
     t_credential_classes = [''aws''], t_aws_profiles = [''audit''], t_cluster_contexts = []\<rparr>"

definition demo_inline :: inline where
  "demo_inline = \<lparr>n_contexts = [], n_namespaces = [], n_images = [], n_pods = [],
     n_containers = [], n_wasm = []\<rparr>"

definition demo_action :: "string \<Rightarrow> string \<Rightarrow> string \<Rightarrow> string \<Rightarrow> action" where
  "demo_action ad v ns res = \<lparr>adapter = ad, verb = v, a_context = Some ''prod'',
     a_namespace = Some ns, a_resource = Some res, a_name = None, a_image = None, a_artifact = None\<rparr>"

theorem control_plane_explicit_witness:
  "\<exists>d c p. Some demo_targets = Some d \<and> c \<in> set (t_clusters d) \<and> p \<in> set (t_namespaces c)
     \<and> fnmatch ''openshift-dns'' p
     \<and> (a_context (demo_action ''k8s'' ''get'' ''openshift-dns'' ''pod'') = Some (t_context c)
        \<or> t_context c = ''__current__'')"
proof (rule control_plane_explicit)
  show "is_in_scope 50 (\<lambda>p. p) (build_scope (Some demo_targets) demo_inline None)
      (demo_action ''k8s'' ''get'' ''openshift-dns'' ''pod'') = None"
    by code_simp
  show "control_plane_ns ''openshift-dns''" by code_simp
qed (simp_all add: demo_action_def)

text \<open>
  More off-limits rules never grant more: whatever a scope allows it still allows when rules
  are taken away, in any order and number, everything else being equal.
\<close>

theorem off_limits_antitone:
  assumes "is_in_scope today resolve (s\<lparr>off_limits := many\<rparr>) a = None"
    and "set fewer \<subseteq> set many"
  shows "is_in_scope today resolve (s\<lparr>off_limits := fewer\<rparr>) a = None"
proof -
  have [simp]: "cluster_for (s\<lparr>off_limits := r\<rparr>) a = cluster_for s a" for r
    unfolding cluster_for_def by (cases "a_context a"; cases "map_of (clusters s) (the (a_context a))") simp_all
  have [simp]: "image_allowed (s\<lparr>off_limits := r\<rparr>) a = image_allowed s a" for r
    by (simp add: image_allowed_def)
  have [simp]: "control_plane_locked (s\<lparr>off_limits := r\<rparr>) a = control_plane_locked s a"
      "k8s_scope (s\<lparr>off_limits := r\<rparr>) a = k8s_scope s a"
      "container_scope (s\<lparr>off_limits := r\<rparr>) a = container_scope s a"
      "credential_scope (s\<lparr>off_limits := r\<rparr>) a = credential_scope s a"
      "inventory_scope (s\<lparr>off_limits := r\<rparr>) a = inventory_scope s a"
      "wasm_scope resolve (s\<lparr>off_limits := r\<rparr>) a = wasm_scope resolve s a" for r
    by (simp_all add: control_plane_locked_def k8s_scope_def container_scope_def
        credential_scope_def inventory_scope_def wasm_scope_def Let_def cong: option.case_cong)
  show ?thesis
    using assms unfolding in_scope_iff by (simp add: subset_iff expired_def)
qed

theorem off_limits_antitone_witness:
  "is_in_scope 50 (\<lambda>p. p)
     ((build_scope (Some demo_targets) demo_inline None)\<lparr>off_limits := []\<rparr>)
     (demo_action ''k8s'' ''get'' ''app'' ''pod'') = None"
proof (rule off_limits_antitone)
  show "is_in_scope 50 (\<lambda>p. p)
     ((build_scope (Some demo_targets) demo_inline None)\<lparr>off_limits := t_off_limits demo_targets\<rparr>)
     (demo_action ''k8s'' ''get'' ''app'' ''pod'') = None"
    by code_simp
qed simp

text \<open>
  Credential probes and cloud inventory need the targets file: such an action in scope of a
  built scope has a targets file, its verb is the one read-only verb of its adapter, and its class,
  profile or context is on the list the file itself gives.
\<close>

theorem probes_need_targets:
  assumes "is_in_scope today resolve (build_scope tf n ifr) a = None"
    and "adapter a = ''credential'' \<or> adapter a = ''inventory''"
  shows "\<exists>d. tf = Some d \<and>
     (if adapter a = ''credential'' then
        verb a = ''introspect'' \<and> a_resource a \<in> Some ` set (t_credential_classes d)
      else verb a = ''enumerate'' \<and>
        (a_resource a = Some ''aws_profile'' \<and> a_name a \<in> Some ` set (t_aws_profiles d)
         \<or> a_resource a = Some ''cluster_context'' \<and> a_name a \<in> Some ` set (t_cluster_contexts d)))"
proof -
  let ?s = "build_scope tf n ifr"
  have granted: "adapter a = ''credential'' \<and> credential_scope ?s a = None
      \<or> adapter a = ''inventory'' \<and> inventory_scope ?s a = None"
    using assms unfolding in_scope_iff by auto
  then have "''explicit'' \<in> modes ?s"
    by (auto simp: credential_scope_def inventory_scope_def split: if_splits)
  with build_scope_rules [of tf n ifr] obtain d where d: "tf = Some d"
    by (cases tf) (simp_all add: same_rules_def empty_scope_def)
  with build_scope_rules [of tf n ifr] have
    "credential_probe_classes ?s = set (t_credential_classes d)"
    "inventory_aws_profiles ?s = set (t_aws_profiles d)"
    "inventory_cluster_contexts ?s = set (t_cluster_contexts d)"
    by (simp_all add: same_rules_def from_targets_def)
  with granted d show ?thesis
    by (auto simp: credential_scope_def inventory_scope_def split: if_splits)
qed

theorem probes_need_targets_witness:
  "\<exists>d. Some demo_targets = Some d \<and>
     (if adapter (demo_action ''credential'' ''introspect'' ''x'' ''aws'') = ''credential'' then
        verb (demo_action ''credential'' ''introspect'' ''x'' ''aws'') = ''introspect''
        \<and> a_resource (demo_action ''credential'' ''introspect'' ''x'' ''aws'')
            \<in> Some ` set (t_credential_classes d)
      else verb (demo_action ''credential'' ''introspect'' ''x'' ''aws'') = ''enumerate'' \<and>
        (a_resource (demo_action ''credential'' ''introspect'' ''x'' ''aws'') = Some ''aws_profile''
          \<and> a_name (demo_action ''credential'' ''introspect'' ''x'' ''aws'')
              \<in> Some ` set (t_aws_profiles d)
         \<or> a_resource (demo_action ''credential'' ''introspect'' ''x'' ''aws'')
              = Some ''cluster_context''
          \<and> a_name (demo_action ''credential'' ''introspect'' ''x'' ''aws'')
              \<in> Some ` set (t_cluster_contexts d)))"
proof (rule probes_need_targets)
  show "is_in_scope 50 (\<lambda>p. p) (build_scope (Some demo_targets) demo_inline None)
      (demo_action ''credential'' ''introspect'' ''x'' ''aws'') = None"
    by code_simp
qed (simp add: demo_action_def)

section \<open>The grant, read off the inputs\<close>

text \<open>
  What grants an action, said of the targets file, the flags and the inferred targets themselves and not of the
  scope that is built from them. Of several entries of a file for one context the last counts. A cluster is known when
  any of the three names it, and the patterns of its namespaces are those of all three; only the file denies verbs and unlocks
  the control plane. An action's cluster is that of its context, when it is known, else the current one.
\<close>

definition file_cluster :: "targets option \<Rightarrow> string \<Rightarrow> cluster_spec option" where
  "file_cluster tf k = (case tf of None \<Rightarrow> None | Some d \<Rightarrow> find (\<lambda>c. t_context c = k) (rev (t_clusters d)))"

definition flag_cluster :: "inline \<Rightarrow> string \<Rightarrow> bool" where
  "flag_cluster n k \<longleftrightarrow> (\<exists>c \<in> set (n_contexts n). or_str c ''__current__'' = k)
     \<or> n_contexts n = [] \<and> n_namespaces n \<noteq> [] \<and> k = ''__current__''"

definition known_cluster :: "targets option \<Rightarrow> inline \<Rightarrow> inferred option \<Rightarrow> string \<Rightarrow> bool" where
  "known_cluster tf n ifr k \<longleftrightarrow> file_cluster tf k \<noteq> None \<or> flag_cluster n k
     \<or> (\<exists>i nss. ifr = Some i \<and> (k, nss) \<in> set (i_clusters i))"

definition explicit_ns :: "targets option \<Rightarrow> string \<Rightarrow> string set" where
  "explicit_ns tf k = {p. \<exists>c. file_cluster tf k = Some c \<and> p \<in> set (t_namespaces c)}"

definition ns_patterns :: "targets option \<Rightarrow> inline \<Rightarrow> inferred option \<Rightarrow> string \<Rightarrow> string set" where
  "ns_patterns tf n ifr k = explicit_ns tf k \<union> {p. flag_cluster n k \<and> p \<in> set (n_namespaces n)}
     \<union> {p. \<exists>i nss. ifr = Some i \<and> (k, nss) \<in> set (i_clusters i) \<and> p \<in> set nss}"

definition used_cluster :: "targets option \<Rightarrow> inline \<Rightarrow> inferred option \<Rightarrow> action \<Rightarrow> string" where
  "used_cluster tf n ifr a = (case a_context a of
       Some c \<Rightarrow> if known_cluster tf n ifr c then c else ''__current__''
     | None \<Rightarrow> ''__current__'')"

definition listed :: "(targets \<Rightarrow> string list) \<Rightarrow> (inline \<Rightarrow> string list) \<Rightarrow> (inferred \<Rightarrow> string list)
    \<Rightarrow> targets option \<Rightarrow> inline \<Rightarrow> inferred option \<Rightarrow> string set" where
  "listed f g h tf n ifr = {p. \<exists>d. tf = Some d \<and> p \<in> set (f d)} \<union> set (g n) \<union> {p. \<exists>i. ifr = Some i \<and> p \<in> set (h i)}"

text \<open>A name an action gives matches a pattern; an action that gives none asks for nothing.\<close>

definition name_listed :: "string option \<Rightarrow> string set \<Rightarrow> bool" where
  "name_listed x ps \<longleftrightarrow> (\<forall>v. x = Some v \<and> v \<noteq> [] \<longrightarrow> (\<exists>p \<in> ps. fnmatch v p))"

definition image_listed :: "targets option \<Rightarrow> inline \<Rightarrow> inferred option \<Rightarrow> action \<Rightarrow> bool" where
  "image_listed tf n ifr a \<longleftrightarrow> (let ps = listed t_images n_images i_images tf n ifr in ps = {} \<or> name_listed (a_image a) ps)"

text \<open>A rule spares an action when the two disagree on a field that both give.\<close>

definition disagree :: "string option \<Rightarrow> string option \<Rightarrow> bool" where
  "disagree rule val \<longleftrightarrow> (\<exists>p v. rule = Some p \<and> val = Some v \<and> \<not> fnmatch v p)"

definition rule_spares :: "off_limit \<Rightarrow> action \<Rightarrow> bool" where
  "rule_spares ol a \<longleftrightarrow> disagree (ol_context ol) (a_context a) \<or> disagree (ol_namespace ol) (a_namespace a)
     \<or> disagree (ol_resource ol) (a_resource a) \<or> disagree (ol_verb ol) (Some (verb a))
     \<or> disagree (ol_name ol) (a_name a) \<or> disagree (ol_image ol) (a_image a)"

definition k8s_granted :: "targets option \<Rightarrow> inline \<Rightarrow> inferred option \<Rightarrow> action \<Rightarrow> bool" where
  "k8s_granted tf n ifr a \<longleftrightarrow> (let k = used_cluster tf n ifr a in
     known_cluster tf n ifr k
     \<and> (\<forall>c. file_cluster tf k = Some c \<longrightarrow> verb a \<notin> set (t_verbs_denied c))
     \<and> (case a_namespace a of None \<Rightarrow> ''*'' \<in> ns_patterns tf n ifr k | Some ns \<Rightarrow> \<exists>p \<in> ns_patterns tf n ifr k. fnmatch ns p)
     \<and> (\<forall>ns. a_namespace a = Some ns \<and> ns \<noteq> [] \<and> control_plane_ns ns \<longrightarrow> (\<exists>p \<in> explicit_ns tf k. fnmatch ns p))
     \<and> (\<not> truthy (a_namespace a) \<and> (\<exists>r \<in> CONTROL_PLANE_CLUSTER_RESOURCES. a_resource a = Some r) \<and> verb a \<notin> READONLY_VERBS
        \<longrightarrow> ''*'' \<in> explicit_ns tf k)
     \<and> image_listed tf n ifr a)"

definition container_granted :: "targets option \<Rightarrow> inline \<Rightarrow> inferred option \<Rightarrow> action \<Rightarrow> bool" where
  "container_granted tf n ifr a \<longleftrightarrow> (let ps = listed (\<lambda>d. concat (map snd (t_containers d))) n_containers i_containers tf n ifr in
     ps \<noteq> {} \<and> name_listed (a_name a) ps \<and> image_listed tf n ifr a)"

definition wasm_granted :: "(string \<Rightarrow> string) \<Rightarrow> targets option \<Rightarrow> inline \<Rightarrow> inferred option \<Rightarrow> action \<Rightarrow> bool" where
  "wasm_granted resolve tf n ifr a \<longleftrightarrow> (let ps = listed t_wasm n_wasm i_wasm tf n ifr in
     ps \<noteq> {} \<and> (\<forall>v. a_artifact a = Some v \<and> v \<noteq> [] \<longrightarrow> (\<exists>p \<in> ps. fnmatch v p \<or> resolve v = resolve p)))"

definition probe_granted :: "targets \<Rightarrow> action \<Rightarrow> bool" where
  "probe_granted d a \<longleftrightarrow>
     adapter a = ''credential'' \<and> verb a = ''introspect'' \<and> (\<exists>c \<in> set (t_credential_classes d). a_resource a = Some c)
     \<or> adapter a = ''inventory'' \<and> verb a = ''enumerate''
        \<and> (a_resource a = Some ''aws_profile'' \<and> (\<exists>p \<in> set (t_aws_profiles d). a_name a = Some p)
          \<or> a_resource a = Some ''cluster_context'' \<and> (\<exists>c \<in> set (t_cluster_contexts d). a_name a = Some c))"

definition granted :: "int \<Rightarrow> (string \<Rightarrow> string) \<Rightarrow> targets option \<Rightarrow> inline \<Rightarrow> inferred option \<Rightarrow> action \<Rightarrow> bool" where
  "granted today resolve tf n ifr a \<longleftrightarrow>
     (\<forall>d e. tf = Some d \<and> t_expires d = Some e \<longrightarrow> today \<le> e)
     \<and> (\<forall>d. \<forall>ol \<in> set (t_off_limits d). tf = Some d \<longrightarrow> rule_spares ol a)
     \<and> (adapter a = ''k8s'' \<and> k8s_granted tf n ifr a
        \<or> adapter a = ''container'' \<and> container_granted tf n ifr a
        \<or> adapter a = ''wasm'' \<and> wasm_granted resolve tf n ifr a
        \<or> (\<exists>d. tf = Some d \<and> probe_granted d a))"

text \<open>The clusters of a scope as their patterns, their denied verbs and what unlocks the control plane.\<close>

definition cluster_view :: "(string \<times> cluster_scope) list \<Rightarrow> string \<Rightarrow> (string set \<times> string list \<times> string set) option" where
  "cluster_view cl k = map_option (\<lambda>cs. (set (namespaces cs), verbs_denied cs, explicit_namespaces cs)) (map_of cl k)"

definition add_patterns :: "bool \<Rightarrow> string set \<Rightarrow> (string set \<times> string list \<times> string set) option
    \<Rightarrow> (string set \<times> string list \<times> string set) option" where
  "add_patterns known ps v = (if known then Some (case v of None \<Rightarrow> (ps, [], {}) | Some (q, d, e) \<Rightarrow> (q \<union> ps, d, e)) else v)"

lemma view_with_cluster:
  assumes "\<And>ns. set (f ns) = set ns \<union> ps"
  shows "cluster_view (with_cluster key f cl) k = add_patterns (k = key) ps (cluster_view cl k)"
  using assms by (simp add: cluster_view_def map_of_with_cluster add_patterns_def new_cluster_def split: option.split)

lemma view_fold:
  assumes "\<And>x ns. set (f x ns) = set ns \<union> ps x"
  shows "cluster_view (fold (\<lambda>x. with_cluster (key x) (f x)) xs cl) k
    = add_patterns (\<exists>x \<in> set xs. key x = k) {p. \<exists>x \<in> set xs. key x = k \<and> p \<in> ps x} (cluster_view cl k)"
proof (induction xs rule: rev_induct)
  case Nil
  then show ?case by (simp add: add_patterns_def)
next
  case (snoc x xs)
  show ?case
    by (simp add: view_with_cluster [OF assms] snoc.IH) (auto simp: add_patterns_def split: option.split)
qed

lemma view_targets:
  "cluster_view (fold (\<lambda>c. AList.update (t_context c) (cluster_of_spec c)) cs []) k
    = map_option (\<lambda>c. (set (t_namespaces c), t_verbs_denied c, set (t_namespaces c))) (find (\<lambda>c. t_context c = k) (rev cs))"
  by (induction cs rule: rev_induct) (auto simp: cluster_view_def update_conv' cluster_of_spec_def)

definition file_view :: "targets option \<Rightarrow> string \<Rightarrow> (string set \<times> string list \<times> string set) option" where
  "file_view tf k = map_option (\<lambda>c. (set (t_namespaces c), t_verbs_denied c, set (t_namespaces c))) (file_cluster tf k)"

lemma view_file: "cluster_view (clusters (case tf of None \<Rightarrow> empty_scope | Some d \<Rightarrow> from_targets d)) k = file_view tf k"
  by (cases tf) (simp_all add: file_view_def file_cluster_def from_targets_def view_targets, simp add: empty_scope_def cluster_view_def)

lemma view_inline:
  "cluster_view (clusters (merge_inline (n_contexts n) (n_namespaces n) imgs pods conts wasm s)) k
    = add_patterns (flag_cluster n k) {p. flag_cluster n k \<and> p \<in> set (n_namespaces n)} (cluster_view (clusters s) k)"
proof -
  let ?xs = "if n_contexts n \<noteq> [] then n_contexts n else if n_namespaces n \<noteq> [] then [None] else []"
  have known: "(\<exists>x \<in> set ?xs. or_str x ''__current__'' = k) \<longleftrightarrow> flag_cluster n k"
    by (auto simp: flag_cluster_def)
  have "cluster_view (clusters (merge_inline (n_contexts n) (n_namespaces n) imgs pods conts wasm s)) k
    = add_patterns (\<exists>x \<in> set ?xs. or_str x ''__current__'' = k)
        {p. \<exists>x \<in> set ?xs. or_str x ''__current__'' = k \<and> p \<in> set (n_namespaces n)} (cluster_view (clusters s) k)"
  proof -
    have "clusters (merge_inline (n_contexts n) (n_namespaces n) imgs pods conts wasm s)
        = fold (\<lambda>x. with_cluster (or_str x ''__current__'') (\<lambda>ns. ns @ n_namespaces n)) ?xs (clusters s)"
      by (simp add: merge_inline_def)
    then show ?thesis by (simp only:) (rule view_fold, simp)
  qed
  also have "{p. \<exists>x \<in> set ?xs. or_str x ''__current__'' = k \<and> p \<in> set (n_namespaces n)} = {p. flag_cluster n k \<and> p \<in> set (n_namespaces n)}"
    using known by blast
  finally show ?thesis unfolding known .
qed

lemma set_add_new: "set (add_new xs base) = set base \<union> set xs"
  by (induction xs arbitrary: base) (auto simp: add_new_def)

lemma view_inferred:
  "cluster_view (clusters (merge_inferred i s)) k
    = add_patterns (\<exists>nss. (k, nss) \<in> set (i_clusters i)) {p. \<exists>nss. (k, nss) \<in> set (i_clusters i) \<and> p \<in> set nss} (cluster_view (clusters s) k)"
proof -
  have "cluster_view (clusters (merge_inferred i s)) k
    = add_patterns (\<exists>x \<in> set (i_clusters i). fst x = k) {p. \<exists>x \<in> set (i_clusters i). fst x = k \<and> p \<in> set (snd x)} (cluster_view (clusters s) k)"
  proof -
    have "clusters (merge_inferred i s) = fold (\<lambda>x. with_cluster (fst x) (add_new (snd x))) (i_clusters i) (clusters s)"
      by (simp add: merge_inferred_def case_prod_unfold)
    then show ?thesis by (simp only:) (rule view_fold, simp add: set_add_new)
  qed
  moreover have "(\<exists>x \<in> set (i_clusters i). fst x = k) \<longleftrightarrow> (\<exists>nss. (k, nss) \<in> set (i_clusters i))" by force
  moreover have "{p. \<exists>x \<in> set (i_clusters i). fst x = k \<and> p \<in> set (snd x)} = {p. \<exists>nss. (k, nss) \<in> set (i_clusters i) \<and> p \<in> set nss}" by force
  ultimately show ?thesis by simp
qed

lemma view_built:
  "cluster_view (clusters (build_scope tf n ifr)) k = (if known_cluster tf n ifr k
     then Some (ns_patterns tf n ifr k, (case file_cluster tf k of None \<Rightarrow> [] | Some c \<Rightarrow> t_verbs_denied c), explicit_ns tf k) else None)"
  by (auto simp: build_scope_def Let_def view_inferred view_inline view_file file_view_def add_patterns_def known_cluster_def
      ns_patterns_def explicit_ns_def split: option.split)

lemma built_cluster:
  "(case cluster_for (build_scope tf n ifr) a of
      None \<Rightarrow> \<not> known_cluster tf n ifr (used_cluster tf n ifr a)
    | Some cs \<Rightarrow> known_cluster tf n ifr (used_cluster tf n ifr a)
        \<and> set (namespaces cs) = ns_patterns tf n ifr (used_cluster tf n ifr a)
        \<and> set (verbs_denied cs) = {v. \<exists>c. file_cluster tf (used_cluster tf n ifr a) = Some c \<and> v \<in> set (t_verbs_denied c)}
        \<and> explicit_namespaces cs = explicit_ns tf (used_cluster tf n ifr a))"
proof -
  have v: "map_option (\<lambda>cs. (set (namespaces cs), verbs_denied cs, explicit_namespaces cs)) (map_of (clusters (build_scope tf n ifr)) k)
     = (if known_cluster tf n ifr k
     then Some (ns_patterns tf n ifr k, (case file_cluster tf k of None \<Rightarrow> [] | Some c \<Rightarrow> t_verbs_denied c), explicit_ns tf k) else None)" for k
    using view_built [of tf n ifr k] by (simp add: cluster_view_def)
  have known: "known_cluster tf n ifr k \<longleftrightarrow> map_of (clusters (build_scope tf n ifr)) k \<noteq> None" for k
    using v [of k] by (auto split: if_splits)
  have "cluster_for (build_scope tf n ifr) a = map_of (clusters (build_scope tf n ifr)) (used_cluster tf n ifr a)"
    by (auto simp: cluster_for_def used_cluster_def known split: option.split)
  then show ?thesis
    using v [of "used_cluster tf n ifr a"] by (auto split: option.splits if_splits)
qed

lemma spares_iff: "\<not> ol_matches ol a \<longleftrightarrow> rule_spares ol a"
proof -
  have "\<not> rule_matches r v \<longleftrightarrow> disagree r v" for r v
    by (auto simp: rule_matches_def disagree_def split: option.split)
  then show ?thesis by (auto simp: ol_matches_def rule_spares_def)
qed

lemma built_rules:
  "\<not> expired today (build_scope tf n ifr) \<longleftrightarrow> (\<forall>d e. tf = Some d \<and> t_expires d = Some e \<longrightarrow> today \<le> e)"
  "(\<forall>ol \<in> set (off_limits (build_scope tf n ifr)). \<not> ol_matches ol a) \<longleftrightarrow> (\<forall>d. \<forall>ol \<in> set (t_off_limits d). tf = Some d \<longrightarrow> rule_spares ol a)"
  "''explicit'' \<in> modes (build_scope tf n ifr) \<longleftrightarrow> tf \<noteq> None"
  "tf = Some d \<Longrightarrow> credential_probe_classes (build_scope tf n ifr) = set (t_credential_classes d)"
  "tf = Some d \<Longrightarrow> inventory_aws_profiles (build_scope tf n ifr) = set (t_aws_profiles d)"
  "tf = Some d \<Longrightarrow> inventory_cluster_contexts (build_scope tf n ifr) = set (t_cluster_contexts d)"
  using build_scope_rules [of tf n ifr]
  by (cases tf; auto simp: same_rules_def from_targets_def empty_scope_def expired_def spares_iff not_less split: option.split)+

lemma built_lists:
  "set (images (build_scope tf n ifr)) = listed t_images n_images i_images tf n ifr"
  "set (containers (build_scope tf n ifr)) = listed (\<lambda>d. concat (map snd (t_containers d))) n_containers i_containers tf n ifr"
  "set (wasm_artifacts (build_scope tf n ifr)) = listed t_wasm n_wasm i_wasm tf n ifr"
  by (cases tf; cases ifr; auto simp: build_scope_def Let_def merge_inline_def merge_inferred_def from_targets_def empty_scope_def
      listed_def set_add_new)+

lemma empty_lists: "images (build_scope tf n ifr) = [] \<longleftrightarrow> listed t_images n_images i_images tf n ifr = {}"
  "containers (build_scope tf n ifr) = [] \<longleftrightarrow> listed (\<lambda>d. concat (map snd (t_containers d))) n_containers i_containers tf n ifr = {}"
  "wasm_artifacts (build_scope tf n ifr) = [] \<longleftrightarrow> listed t_wasm n_wasm i_wasm tf n ifr = {}"
  unfolding built_lists [symmetric] by simp_all

lemma name_listed_iff: "name_listed x ps \<longleftrightarrow> (truthy x \<longrightarrow> (\<exists>p \<in> ps. fnmatch (or_str x []) p))"
  by (cases x) (auto simp: name_listed_def)

lemma image_listed_iff: "image_allowed (build_scope tf n ifr) a \<longleftrightarrow> image_listed tf n ifr a"
  by (auto simp: image_allowed_def image_listed_def Let_def name_listed_iff fnmatch_any_def built_lists empty_lists)

lemma container_iff: "container_scope (build_scope tf n ifr) a = None \<longleftrightarrow> container_granted tf n ifr a"
  by (auto simp: container_scope_def container_granted_def Let_def name_listed_iff fnmatch_any_def built_lists empty_lists image_listed_iff)

lemma wasm_iff: "wasm_scope resolve (build_scope tf n ifr) a = None \<longleftrightarrow> wasm_granted resolve tf n ifr a"
  by (cases "a_artifact a") (auto simp: wasm_scope_def wasm_granted_def Let_def built_lists empty_lists)

lemma probe_iff:
  "adapter a = ''credential'' \<and> credential_scope (build_scope tf n ifr) a = None
    \<or> adapter a = ''inventory'' \<and> inventory_scope (build_scope tf n ifr) a = None \<longleftrightarrow> (\<exists>d. tf = Some d \<and> probe_granted d a)"
  by (cases tf) (auto simp: credential_scope_def inventory_scope_def probe_granted_def built_rules)

lemma k8s_iff:
  assumes "adapter a = ''k8s''"
  shows "control_plane_locked (build_scope tf n ifr) a = None \<and> k8s_scope (build_scope tf n ifr) a = None \<longleftrightarrow> k8s_granted tf n ifr a"
proof (cases "cluster_for (build_scope tf n ifr) a")
  case None
  then show ?thesis using built_cluster [of tf n ifr a] by (simp add: k8s_scope_def k8s_granted_def Let_def)
next
  case (Some cs)
  have b: "known_cluster tf n ifr (used_cluster tf n ifr a)" "set (namespaces cs) = ns_patterns tf n ifr (used_cluster tf n ifr a)"
    "set (verbs_denied cs) = {v. \<exists>c. file_cluster tf (used_cluster tf n ifr a) = Some c \<and> v \<in> set (t_verbs_denied c)}"
    "explicit_namespaces cs = explicit_ns tf (used_cluster tf n ifr a)"
    using built_cluster [of tf n ifr a] Some by simp_all
  have locked: "control_plane_locked (build_scope tf n ifr) a = None \<longleftrightarrow>
      (\<forall>ns. a_namespace a = Some ns \<and> ns \<noteq> [] \<and> control_plane_ns ns \<longrightarrow> (\<exists>p \<in> explicit_ns tf (used_cluster tf n ifr a). fnmatch ns p))
      \<and> (\<not> truthy (a_namespace a) \<and> (\<exists>r \<in> CONTROL_PLANE_CLUSTER_RESOURCES. a_resource a = Some r) \<and> verb a \<notin> READONLY_VERBS
        \<longrightarrow> ''*'' \<in> explicit_ns tf (used_cluster tf n ifr a))"
    unfolding control_plane_locked_def Some b(4) [symmetric]
    by (cases "a_namespace a") (auto simp: assms Let_def)
  have "k8s_scope (build_scope tf n ifr) a = None \<longleftrightarrow> (\<forall>c. file_cluster tf (used_cluster tf n ifr a) = Some c \<longrightarrow> verb a \<notin> set (t_verbs_denied c))
     \<and> (case a_namespace a of None \<Rightarrow> ''*'' \<in> ns_patterns tf n ifr (used_cluster tf n ifr a)
         | Some ns \<Rightarrow> \<exists>p \<in> ns_patterns tf n ifr (used_cluster tf n ifr a). fnmatch ns p) \<and> image_listed tf n ifr a"
    unfolding k8s_scope_def Some option.case b(2) [symmetric]
    by (auto simp: b(3) ns_allowed_def fnmatch_any_def image_listed_iff split: option.split)
  then show ?thesis using locked b(1) unfolding k8s_granted_def Let_def by blast
qed

text \<open>
  C29. What is in scope. For a scope built from any targets file, flags and inferred targets, an action is in scope
  exactly when these grant it: the file has not expired; each of its off-limits rules disagrees with the action on a field both
  give; and the action's adapter is Kubernetes, with a known cluster whose entry in the file does not deny the verb, a pattern
  for the namespace from any of the three, an entry of the file itself for a namespace of the control plane and for changing
  one of its cluster-wide resources, and an image that is listed where images are; or containers or modules, with a
  listed name; or a credential or inventory probe, with its one read-only verb and a target that the file lists.
\<close>

theorem grants_exact:
  "is_in_scope today resolve (build_scope tf n ifr) a = None \<longleftrightarrow> granted today resolve tf n ifr a"
proof -
  let ?s = "build_scope tf n ifr" and ?probe = "\<exists>d. tf = Some d \<and> probe_granted d a"
  have "control_plane_locked ?s a = None
      \<and> (adapter a = ''k8s'' \<and> k8s_scope ?s a = None \<or> adapter a = ''container'' \<and> container_scope ?s a = None
        \<or> adapter a = ''credential'' \<and> credential_scope ?s a = None \<or> adapter a = ''inventory'' \<and> inventory_scope ?s a = None
        \<or> adapter a = ''wasm'' \<and> wasm_scope resolve ?s a = None)
    \<longleftrightarrow> adapter a = ''k8s'' \<and> k8s_granted tf n ifr a \<or> adapter a = ''container'' \<and> container_granted tf n ifr a
        \<or> adapter a = ''wasm'' \<and> wasm_granted resolve tf n ifr a \<or> ?probe"
  proof (cases "adapter a = ''k8s''")
    case True
    then have "\<not> ?probe" by (simp add: probe_granted_def)
    with True k8s_iff [OF True, of tf n ifr] show ?thesis by auto
  next
    case False
    then have "control_plane_locked ?s a = None" by (simp add: control_plane_locked_def)
    with False show ?thesis
      unfolding probe_iff [of a tf n ifr, symmetric] container_iff wasm_iff by blast
  qed
  then show ?thesis unfolding in_scope_iff granted_def built_rules by (simp only:)
qed

end
