(* ===== verification/Soundness_Gate.thy ===== *)
theory Soundness_Gate
  imports Py_Regex
begin

text \<open>
  \<open>validation/soundness.py\<close>: which refutations of a live validation may be emitted. The error
  signatures are the regular expressions of the source, built with the combinators of the
  regular-expression theory; findings and steps are records of the keys the code reads, an absent
  or null key being \<open>None\<close>, an absent list empty.
\<close>

section \<open>Error signatures\<close>

definition FLAG_TARGET_NOT_DEPLOYED :: string where
  "FLAG_TARGET_NOT_DEPLOYED = ''target-not-deployed''"

definition FLAG_RBAC_ZERO_SUBJECTS :: string where
  "FLAG_RBAC_ZERO_SUBJECTS = ''rbac-zero-subjects''"

definition FLAG_RBAC_TEMPLATE :: string where
  "FLAG_RBAC_TEMPLATE = ''rbac-template-placeholder''"

definition FLAG_MISSING_CONTROL :: string where
  "FLAG_MISSING_CONTROL = ''missing-positive-control''"

definition FLAG_FAILED_CONTROL :: string where
  "FLAG_FAILED_CONTROL = ''failed-positive-control''"

definition FLAG_NON_DISCRIMINATING :: string where
  "FLAG_NON_DISCRIMINATING = ''non-discriminating-oracle''"

definition FLAG_MISSING_DIFFERENTIAL :: string where
  "FLAG_MISSING_DIFFERENTIAL = ''missing-differential-probe''"

definition verbs_rx :: rx where
  "verbs_rx = alts (map ilit [''get'', ''list'', ''watch'', ''create'', ''update'', ''patch'',
     ''delete'', ''impersonate'', ''use''])"

definition account_template_rx :: rx where
  "account_template_rx = Alt
     (seq [lit ''system:serviceaccount:{'', star (Cls (none_of ''}'')), lit ''}''])
     (lit ''{ns}:{sa}'')"

definition forbidden_alts :: "rx list" where
  "forbidden_alts = [
     ilit ''Error from server (Forbidden)'',
     seq [At Word_boundary, ilit ''forbidden: User'', At Word_boundary],
     seq [At Word_boundary, ilit ''Forbidden'', At Word_boundary,
       Rep 0 (Some 160) True (Cls (\<lambda>c. c \<noteq> CHR 0x0A)),
       At Word_boundary, ilit ''cannot '', verbs_rx, At Word_boundary],
     seq [At Word_boundary, ilit ''User '', lit [CHR 0x22], plus (Cls (\<lambda>c. c \<noteq> CHR 0x22)),
       lit [CHR 0x22], ilit '' cannot '', verbs_rx, At Word_boundary]]"

definition not_found_command_alts :: "rx list" where
  "not_found_command_alts = [ilit ''command not found'', ilit ''executable file not found'',
     seq [ilit ''not found in '', opt (lit ''$''), ilit ''PATH'']]"

definition jsonpath_alts :: "rx list" where
  "jsonpath_alts = [ilit ''error executing jsonpath'', ilit ''error parsing jsonpath'',
     ilit ''unrecognized identifier'']"

definition not_found_alts :: "rx list" where
  "not_found_alts = [ilit ''Error from server (NotFound)'',
     seq [ilit ''the server doesn'', opt (lit [CHR 0x27]), ilit ''t have a resource type'']]"

definition connect_alts :: "rx list" where
  "connect_alts = [ilit ''Could not connect'', ilit ''Unable to connect to the server'',
     ilit ''could not resolve host'', ilit ''no route to host'']"

definition template_rx :: rx where
  "template_rx = Alt account_template_rx
     (seq [lit ''--as='', star (Cls (\<lambda>c. \<not> is_space c \<and> c \<noteq> CHR 0x22 \<and> c \<noteq> CHR 0x27)),
       lit ''{'', plus (Cls (\<lambda>c. is_lower c \<or> c = CHR ''_'')), lit ''}''])"

definition ERROR_SIGNATURES :: "(string \<times> rx) list" where
  "ERROR_SIGNATURES = [
     (''forbidden'', alts forbidden_alts),
     (''command-not-found'', alts not_found_command_alts),
     (''jsonpath-error'', alts jsonpath_alts),
     (''not-found'', alts not_found_alts),
     (''does-not-exist'', seq [At Word_boundary, ilit ''does not exist'', At Word_boundary]),
     (''could-not-connect'', alts connect_alts),
     (''unsubstituted-template'', template_rx)]"

definition RBAC_TRIED_EMPTY_RE :: rx where
  "RBAC_TRIED_EMPTY_RE =
     seq [At Bol, lit ''vf-rbac-tried:'', star (Cls is_space), At Eol]"

definition RBAC_MARKER_RE :: rx where
  "RBAC_MARKER_RE = lit ''vf-rbac-''"

definition RBAC_TEMPLATE_RE :: rx where
  "RBAC_TEMPLATE_RE = account_template_rx"

section \<open>The gate on a verdict\<close>

definition is_rbac_probe :: "string \<Rightarrow> string \<Rightarrow> bool" where
  "is_rbac_probe verb observed \<longleftrightarrow>
     verb = ''rbac-can-i'' \<or> re_search RBAC_MARKER_RE observed \<noteq> None"

definition match_error_signature :: "string \<Rightarrow> string option" where
  "match_error_signature observed =
     map_option fst (find (\<lambda>(name, pat). re_search pat observed \<noteq> None) ERROR_SIGNATURES)"

definition soundness_flag :: "string \<Rightarrow> string \<Rightarrow> bool \<Rightarrow> string option" where
  "soundness_flag verb observed install_failure =
     (if install_failure then Some FLAG_TARGET_NOT_DEPLOYED
      else (case match_error_signature observed of
        Some sig \<Rightarrow> Some (''error-signature:'' @ sig)
      | None \<Rightarrow>
          if is_rbac_probe verb observed then
            (if re_search RBAC_TEMPLATE_RE observed \<noteq> None then Some FLAG_RBAC_TEMPLATE
             else if re_search RBAC_TRIED_EMPTY_RE observed \<noteq> None then Some FLAG_RBAC_ZERO_SUBJECTS
             else None)
          else None))"

definition gate_verdict :: "string \<Rightarrow> string \<Rightarrow> string \<Rightarrow> bool \<Rightarrow> string \<times> string option" where
  "gate_verdict verdict verb observed install_failure =
     (if verdict \<noteq> ''refuted'' then (verdict, None)
      else (case soundness_flag verb observed install_failure of
        Some flag \<Rightarrow> (''inconclusive'', Some flag)
      | None \<Rightarrow> (verdict, None)))"

section \<open>The gate on a validated finding\<close>

text \<open>The key \<open>ok\<close> of a control, and \<open>discriminated\<close> of a differential, are truth values or absent.\<close>

record step =
  s_verdict :: "string option"
  s_verb :: "string option"
  s_observed :: "string option"
  s_controls :: "bool option list"
  s_differential :: "bool option option"

record validated =
  v_verdict :: "string option"
  v_steps :: "step list"
  v_flag :: "string option"
  v_impact :: "string option"

definition refuted_steps :: "validated \<Rightarrow> step list" where
  "refuted_steps vf = filter (\<lambda>s. s_verdict s = Some ''refuted'') (v_steps vf)"

definition step_probe :: "step \<Rightarrow> string \<times> string" where
  "step_probe s = (or_str (s_verb s) [], or_str (s_observed s) [])"

definition controls_flag :: "validated \<Rightarrow> bool \<Rightarrow> string option" where
  "controls_flag vf required =
     (if v_verdict vf \<noteq> Some ''refuted'' then None
      else let controls = concat (map s_controls (refuted_steps vf)) in
        if Some False \<in> set controls then Some FLAG_FAILED_CONTROL
        else if required \<and> Some True \<notin> set controls then Some FLAG_MISSING_CONTROL
        else None)"

text \<open>One pass over the steps; the two flags are \<open>saw_authz_step\<close> and \<open>saw_discriminating\<close>.\<close>

fun differential_loop :: "bool \<Rightarrow> bool \<Rightarrow> bool \<Rightarrow> step list \<Rightarrow> string option" where
  "differential_loop required authz discr [] =
     (if required \<and> authz \<and> \<not> discr then Some FLAG_MISSING_DIFFERENTIAL else None)"
| "differential_loop required authz discr (s # ss) =
     (if s_verdict s \<noteq> Some ''refuted'' then differential_loop required authz discr ss
      else if s_differential s = Some (Some False) then Some FLAG_NON_DISCRIMINATING
      else differential_loop required
        (authz \<or> is_rbac_probe (fst (step_probe s)) (snd (step_probe s)))
        (discr \<or> s_differential s = Some (Some True)) ss)"

definition differential_flag :: "validated \<Rightarrow> bool \<Rightarrow> string option" where
  "differential_flag vf required =
     (if v_verdict vf \<noteq> Some ''refuted'' then None
      else differential_loop required False False (v_steps vf))"

definition probes_of :: "validated \<Rightarrow> (string \<times> string) list" where
  "probes_of vf = (let probes = map step_probe (refuted_steps vf) in
     if probes = [] \<and> truthy (v_impact vf) then [([], or_str (v_impact vf) [])] else probes)"

definition flag_validated_finding :: "validated \<Rightarrow> bool \<Rightarrow> bool \<Rightarrow> bool \<Rightarrow> string option" where
  "flag_validated_finding vf install_failure controls_required differential_required =
     (if truthy (v_flag vf) then v_flag vf
      else if install_failure \<and> v_verdict vf = Some ''refuted'' then Some FLAG_TARGET_NOT_DEPLOYED
      else if v_verdict vf \<noteq> Some ''refuted'' then None
      else (case controls_flag vf controls_required of
        Some f \<Rightarrow> Some f
      | None \<Rightarrow> (case differential_flag vf differential_required of
          Some f \<Rightarrow> Some f
        | None \<Rightarrow>
            (let probes = probes_of vf;
                 flags = List.map_filter (\<lambda>(verb, obs). soundness_flag verb obs False) probes
             in if flags = [] then None
                else if length flags = length probes then Some (hd flags) else None))))"

section \<open>What the signatures find\<close>

lemmas alternatives_defs = forbidden_alts_def not_found_command_alts_def jsonpath_alts_def
  not_found_alts_def connect_alts_def

lemma min_one_lit: "w \<noteq> [] \<Longrightarrow> min_one (lit w)" "w \<noteq> [] \<Longrightarrow> min_one (ilit w)"
  by (cases w; simp add: lit_def ilit_def)+

lemma rx_ok_alts: "list_all rx_ok rs \<Longrightarrow> rx_ok (alts rs)"
  by (induction rs rule: alts.induct) simp_all

lemma alternatives_ok: "list_all rx_ok forbidden_alts" "list_all rx_ok not_found_command_alts"
    "list_all rx_ok jsonpath_alts" "list_all rx_ok not_found_alts" "list_all rx_ok connect_alts"
  by (simp_all add: alternatives_defs verbs_rx_def seq_def opt_def plus_def min_one_lit)

lemma template_ok: "rx_ok template_rx"
  by (simp add: template_rx_def account_template_rx_def seq_def star_def plus_def)

lemma ERROR_SIGNATURES_ok: "(n, r) \<in> set ERROR_SIGNATURES \<Longrightarrow> rx_ok r"
proof -
  have "list_all (\<lambda>(n, r). rx_ok r) ERROR_SIGNATURES"
    unfolding ERROR_SIGNATURES_def
    by (simp add: rx_ok_alts alternatives_ok template_ok seq_def)
  then show "(n, r) \<in> set ERROR_SIGNATURES \<Longrightarrow> rx_ok r"
    by (auto simp: list_all_iff)
qed

lemma search_ilit: "re_search (ilit w) s \<noteq> None \<longleftrightarrow> occurs_in (lower w) (lower s)"
proof -
  have "(\<exists>a t z. s = a @ t @ z \<and> lower t = lower w) \<longleftrightarrow> (\<exists>a b. lower s = a @ lower w @ b)"
    unfolding lower_def by (metis map_append map_eq_append_conv)
  then show ?thesis
    unfolding re_search_iff [OF rx_ok_lit(2)] by (simp add: matches_ilit occurs_in_iff)
qed

lemma find_pair_None: "find (\<lambda>(n, r). P r) xs = None \<longleftrightarrow> (\<forall>(n, r) \<in> set xs. \<not> P r)"
  by (induction xs) auto

lemma no_signature_iff:
  "match_error_signature s = None \<longleftrightarrow>
     (\<forall>(n, r) \<in> set ERROR_SIGNATURES. \<forall>a t z. s = a @ t @ z \<longrightarrow> \<not> matches r (rev a) t z)"
proof -
  have hit: "(re_search r s \<noteq> None) = (\<exists>a t z. s = a @ t @ z \<and> matches r (rev a) t z)"
    if "(n, r) \<in> set ERROR_SIGNATURES" for n r
    using ERROR_SIGNATURES_ok [OF that] by (rule re_search_iff)
  have "match_error_signature s = None \<longleftrightarrow> (\<forall>(n, r) \<in> set ERROR_SIGNATURES. \<not> (re_search r s \<noteq> None))"
    unfolding match_error_signature_def option.map_disc_iff find_pair_None ..
  also have "\<dots> \<longleftrightarrow>
     (\<forall>(n, r) \<in> set ERROR_SIGNATURES. \<forall>a t z. s = a @ t @ z \<longrightarrow> \<not> matches r (rev a) t z)"
    by (rule ball_cong [OF refl]) (use hit in blast)
  finally show ?thesis .
qed

text \<open>The alternatives that are plain phrases, found whatever their case.\<close>

definition error_phrases :: "string list" where
  "error_phrases = [''Error from server (Forbidden)'', ''command not found'',
     ''executable file not found'', ''error executing jsonpath'', ''error parsing jsonpath'',
     ''unrecognized identifier'', ''Error from server (NotFound)'', ''Could not connect'',
     ''Unable to connect to the server'', ''could not resolve host'', ''no route to host'']"

lemma phrase_hits_alts:
  "ilit p \<in> set rs \<Longrightarrow> matches (ilit p) b t z \<Longrightarrow> matches (alts rs) b t z"
  by (induction rs rule: alts.induct) (auto simp: matches_simps)

lemma signatures_with_alternatives:
  "(''forbidden'', alts forbidden_alts) \<in> set ERROR_SIGNATURES"
  "(''command-not-found'', alts not_found_command_alts) \<in> set ERROR_SIGNATURES"
  "(''jsonpath-error'', alts jsonpath_alts) \<in> set ERROR_SIGNATURES"
  "(''not-found'', alts not_found_alts) \<in> set ERROR_SIGNATURES"
  "(''could-not-connect'', alts connect_alts) \<in> set ERROR_SIGNATURES"
  unfolding ERROR_SIGNATURES_def by (rule list.set_intros(1) | rule list.set_intros(2))+

lemma phrases_in_alternatives:
  "p \<in> set error_phrases \<Longrightarrow> ilit p \<in> set (forbidden_alts @ not_found_command_alts @ jsonpath_alts
     @ not_found_alts @ connect_alts)"
proof -
  have "list_all (\<lambda>p. ilit p \<in> set (forbidden_alts @ not_found_command_alts @ jsonpath_alts
     @ not_found_alts @ connect_alts)) error_phrases"
    unfolding error_phrases_def alternatives_defs list.pred_inject append.simps
    by (intro conjI) (rule list.set_intros(1) | rule list.set_intros(2) | rule list.pred_inject(1))+
  then show "p \<in> set error_phrases \<Longrightarrow> ilit p \<in> set (forbidden_alts @ not_found_command_alts
     @ jsonpath_alts @ not_found_alts @ connect_alts)"
    by (simp only: list_all_iff)
qed

lemma phrase_signature:
  assumes "p \<in> set error_phrases"
  obtains n rs where "(n, alts rs) \<in> set ERROR_SIGNATURES" "ilit p \<in> set rs"
proof -
  from phrases_in_alternatives [OF assms] consider "ilit p \<in> set forbidden_alts"
    | "ilit p \<in> set not_found_command_alts" | "ilit p \<in> set jsonpath_alts"
    | "ilit p \<in> set not_found_alts" | "ilit p \<in> set connect_alts"
    unfolding set_append by blast
  then show thesis
    by cases (rule that, rule signatures_with_alternatives, assumption)+
qed

lemma phrase_flagged:
  assumes "p \<in> set error_phrases" and "occurs_in (lower p) (lower observed)"
  shows "match_error_signature observed \<noteq> None"
proof -
  obtain n rs where nr: "(n, alts rs) \<in> set ERROR_SIGNATURES" "ilit p \<in> set rs"
    using assms(1) by (rule phrase_signature)
  have "re_search (ilit p) observed \<noteq> None" using assms(2) by (simp only: search_ilit)
  then obtain a t z where "observed = a @ t @ z" "matches (ilit p) (rev a) t z"
    unfolding re_search_iff [OF rx_ok_lit(2)] by blast
  with nr show ?thesis unfolding no_signature_iff by (blast dest: phrase_hits_alts)
qed

section \<open>Which refutations pass\<close>

lemma rbac_rx_ok: "rx_ok RBAC_TEMPLATE_RE" "rx_ok RBAC_TRIED_EMPTY_RE"
  by (simp_all add: RBAC_TEMPLATE_RE_def RBAC_TRIED_EMPTY_RE_def account_template_rx_def seq_def
      star_def)

lemma is_rbac_probe_iff: "is_rbac_probe verb obs \<longleftrightarrow> verb = ''rbac-can-i'' \<or> occurs_in ''vf-rbac-'' obs"
  by (simp only: is_rbac_probe_def RBAC_MARKER_RE_def search_lit)

lemma soundness_flag_None:
  "soundness_flag verb obs inst = None \<longleftrightarrow>
     \<not> inst \<and> match_error_signature obs = None
     \<and> \<not> (is_rbac_probe verb obs
          \<and> (re_search RBAC_TEMPLATE_RE obs \<noteq> None \<or> re_search RBAC_TRIED_EMPTY_RE obs \<noteq> None))"
  by (cases "match_error_signature obs") (auto simp: soundness_flag_def)

lemma gate_refuted:
  "fst (gate_verdict v verb obs inst) = ''refuted''
     \<longleftrightarrow> v = ''refuted'' \<and> soundness_flag verb obs inst = None"
  by (auto simp: gate_verdict_def split: option.splits)

text \<open>
  C31. A refutation is emitted exactly when it was one, the operand was installed, no error
  signature matches any part of the transcript, and a probe of the role bindings (by its verb or by
  the markers of the harness) shows neither an account template left unfilled nor an empty list of
  tried subjects. The regular expressions are read by their declarative matching relation.
\<close>

theorem refuted_emittable:
  "(fst (gate_verdict v verb obs inst) = ''refuted'') =
     (v = ''refuted'' \<and> \<not> inst
     \<and> \<not> (\<exists>n r a t z. (n, r) \<in> set ERROR_SIGNATURES \<and> obs = a @ t @ z \<and> matches r (rev a) t z)
     \<and> \<not> ((verb = ''rbac-can-i'' \<or> occurs_in ''vf-rbac-'' obs)
          \<and> (\<exists>a t z. obs = a @ t @ z \<and>
               (matches RBAC_TEMPLATE_RE (rev a) t z \<or> matches RBAC_TRIED_EMPTY_RE (rev a) t z))))"
proof -
  have all: "(\<forall>(n, r) \<in> S. \<forall>a t z. obs = a @ t @ z \<longrightarrow> \<not> matches r (rev a) t z)
      = (\<not> (\<exists>n r a t z. (n, r) \<in> S \<and> obs = a @ t @ z \<and> matches r (rev a) t z))"
    for S :: "(string \<times> rx) set"
    by blast
  have ex: "((\<exists>a t z. obs = a @ t @ z \<and> P a t z) \<or> (\<exists>a t z. obs = a @ t @ z \<and> Q a t z))
      = (\<exists>a t z. obs = a @ t @ z \<and> (P a t z \<or> Q a t z))"
    for P Q :: "string \<Rightarrow> string \<Rightarrow> string \<Rightarrow> bool"
    by blast
  show ?thesis
    unfolding gate_refuted soundness_flag_None no_signature_iff is_rbac_probe_iff
      re_search_iff [OF rbac_rx_ok(1)] re_search_iff [OF rbac_rx_ok(2)] all ex ..
qed

text \<open>
  A transcript that carries one of the plain error phrases, in any case and anywhere, can only
  downgrade: the gate turns the refutation into \<open>inconclusive\<close> and names a flag, for every verb.
\<close>

theorem error_phrase_downgrades:
  assumes "p \<in> set error_phrases" and "occurs_in (lower p) (lower obs)"
  shows "\<exists>flag. gate_verdict ''refuted'' verb obs inst = (''inconclusive'', Some flag)"
proof -
  have "soundness_flag verb obs inst \<noteq> None"
    using phrase_flagged [OF assms] unfolding soundness_flag_None by simp
  then show ?thesis unfolding gate_verdict_def by auto
qed

theorem error_phrase_downgrades_witness:
  "\<exists>flag. gate_verdict ''refuted'' ''get'' ''sh: oc: Command Not Found'' False
     = (''inconclusive'', Some flag)"
  by (rule error_phrase_downgrades [of "''command not found''"]) code_simp+

section \<open>Which findings pass\<close>

lemma differential_loop_None:
  "differential_loop required authz discr ss = None \<longleftrightarrow>
     (let rs = filter (\<lambda>s. s_verdict s = Some ''refuted'') ss in
      Some (Some False) \<notin> s_differential ` set rs
      \<and> \<not> (required
          \<and> (authz \<or> (\<exists>s \<in> set rs. is_rbac_probe (fst (step_probe s)) (snd (step_probe s))))
          \<and> \<not> discr \<and> Some (Some True) \<notin> s_differential ` set rs))"
proof (induction required authz discr ss rule: differential_loop.induct)
  case (2 required authz discr s ss)
  show ?case
  proof (cases "s_verdict s = Some ''refuted'' \<and> s_differential s \<noteq> Some (Some False)")
    case True
    with 2(2) show ?thesis by (auto simp: Let_def)
  next
    case False
    with 2(1) show ?thesis by (auto simp: Let_def)
  qed
qed (simp add: Let_def)

definition refutation_stands :: "validated \<Rightarrow> bool" where
  "refutation_stands vf \<longleftrightarrow>
     (let rs = refuted_steps vf; controls = concat (map s_controls rs) in
      Some False \<notin> set controls \<and> Some True \<in> set controls
      \<and> Some (Some False) \<notin> s_differential ` set rs
      \<and> \<not> ((\<exists>s \<in> set rs. is_rbac_probe (fst (step_probe s)) (snd (step_probe s)))
           \<and> Some (Some True) \<notin> s_differential ` set rs)
      \<and> (\<exists>s \<in> set rs. soundness_flag (fst (step_probe s)) (snd (step_probe s)) False = None))"

lemma all_flagged_iff:
  "length (List.map_filter f xs) = length xs \<longleftrightarrow> (\<forall>x \<in> set xs. f x \<noteq> None)"
proof (induction xs)
  case (Cons x xs)
  have "length (List.map_filter f xs) \<le> length xs"
    by (induction xs) (auto simp: List.map_filter_simps split: option.splits)
  with Cons show ?case by (auto simp: List.map_filter_simps split: option.splits)
qed simp

lemma probes_of_refuted: "refuted_steps vf \<noteq> [] \<Longrightarrow> probes_of vf = map step_probe (refuted_steps vf)"
  by (simp add: probes_of_def)

lemma controls_flag_None:
  "v_verdict vf = Some ''refuted'' \<Longrightarrow> controls_flag vf True = None \<longleftrightarrow>
     (let controls = concat (map s_controls (refuted_steps vf)) in
      Some False \<notin> set controls \<and> Some True \<in> set controls)"
  by (simp add: controls_flag_def Let_def)

lemma probe_flags_None:
  assumes "ps \<noteq> []"
  shows "(let flags = List.map_filter (\<lambda>(verb, obs). soundness_flag verb obs False) ps
      in if flags = [] then None else if length flags = length ps then Some (hd flags) else None) = None
    \<longleftrightarrow> (\<exists>p \<in> set ps. soundness_flag (fst p) (snd p) False = None)"
proof -
  let ?f = "\<lambda>(verb, obs). soundness_flag verb obs False"
  have "List.map_filter ?f ps = [] \<Longrightarrow> \<not> (\<forall>p \<in> set ps. ?f p \<noteq> None)"
    using assms all_flagged_iff [of ?f ps] by simp
  then show ?thesis
    using all_flagged_iff [of ?f ps] by (auto simp: Let_def split_beta)
qed

text \<open>
  With positive controls and differential probes required, the retroactive gate leaves a
  refuted finding without a flag exactly when its refutation stands: the operand was installed,
  no control failed and one passed on a refuted step, no differential failed to discriminate and
  one discriminated where a refuted step probed the role bindings, and at least one refuted step
  has a transcript under which a refutation may be emitted.
\<close>

theorem finding_unflagged:
  assumes "v_verdict vf = Some ''refuted''" and "\<not> truthy (v_flag vf)"
  shows "(flag_validated_finding vf inst True True = None) = (\<not> inst \<and> refutation_stands vf)"
proof (cases "refuted_steps vf = []")
  case True
  with assms have "controls_flag vf True = Some FLAG_MISSING_CONTROL"
    by (simp add: controls_flag_def)
  with assms True show ?thesis
    by (simp add: flag_validated_finding_def refutation_stands_def)
next
  case False
  then have ps: "map step_probe (refuted_steps vf) \<noteq> []" by simp
  show ?thesis
  proof (cases "inst \<or> controls_flag vf True \<noteq> None \<or> differential_flag vf True \<noteq> None")
    case True
    have "\<not> (\<not> inst \<and> refutation_stands vf)"
      using True controls_flag_None [OF assms(1)] assms(1)
      by (auto simp: refutation_stands_def Let_def differential_flag_def differential_loop_None
          refuted_steps_def simp del: not_None_eq)
    with True assms show ?thesis
      by (auto simp: flag_validated_finding_def split: option.splits)
  next
    case False
    then have ok: "\<not> inst" "controls_flag vf True = None" "differential_flag vf True = None" by auto
    have "flag_validated_finding vf inst True True = None \<longleftrightarrow>
        (\<exists>p \<in> set (map step_probe (refuted_steps vf)). soundness_flag (fst p) (snd p) False = None)"
      unfolding probe_flags_None [OF ps, symmetric]
      using assms ok \<open>refuted_steps vf \<noteq> []\<close>
      by (simp add: flag_validated_finding_def probes_of_refuted Let_def)
    also have "\<dots> \<longleftrightarrow> refutation_stands vf"
      using ok(2,3) controls_flag_None [OF assms(1)] assms(1)
      by (auto simp: refutation_stands_def Let_def differential_flag_def differential_loop_None
          refuted_steps_def)
    finally show ?thesis using ok(1) by simp
  qed
qed

definition demo_finding :: validated where
  "demo_finding = \<lparr>v_verdict = Some ''refuted'',
     v_steps = [\<lparr>s_verdict = Some ''refuted'', s_verb = Some ''get'', s_observed = Some ''no pods'',
       s_controls = [Some True], s_differential = None\<rparr>],
     v_flag = None, v_impact = None\<rparr>"

theorem finding_unflagged_witness:
  "(flag_validated_finding demo_finding False True True = None)
     = (\<not> False \<and> refutation_stands demo_finding)"
  by (rule finding_unflagged) (simp_all add: demo_finding_def)

end
