(* ===== verification/Py_Shlex.thy ===== *)
theory Py_Shlex
  imports Prelude
begin

text \<open>
  Python's \<open>shlex\<close> lexer in POSIX mode with \<open>whitespace_split\<close>, as the command vetting uses it:
  once with punctuation characters and comments (the lexer object), once without either
  (\<open>shlex.split\<close>). The states are those of \<open>read_token\<close>; a state inside a word carries the token
  so far and whether a quote has been seen. A character pushed back is read again in the state
  between words, which the model does at once.
\<close>

datatype lex_error = No_closing_quotation | No_escaped_character

record lexer =
  punctuation :: "char set"
  comments :: bool

definition vet_lexer :: lexer where
  "vet_lexer = \<lparr>punctuation = set ''();<>|&'', comments = True\<rparr>"

definition split_lexer :: lexer where
  "split_lexer = \<lparr>punctuation = {}, comments = False\<rparr>"

datatype lex_state =
    Blank
  | Comment
  | Word string bool
  | Punct string
  | Quote char string
  | Esc_word string bool
  | Esc_quote string

definition blank_char :: "char \<Rightarrow> bool" where
  "blank_char c \<longleftrightarrow> c = CHR '' '' \<or> c = CHR 0x09 \<or> c = CHR 0x0D \<or> c = CHR 0x0A"

definition quote_char :: "char \<Rightarrow> bool" where
  "quote_char c \<longleftrightarrow> c = CHR 0x27 \<or> c = CHR 0x22"

text \<open>A character read between words.\<close>

definition from_blank :: "lexer \<Rightarrow> char \<Rightarrow> lex_state" where
  "from_blank L c =
     (if blank_char c then Blank
      else if comments L \<and> c = CHR ''#'' then Comment
      else if c = CHR 0x5C then Esc_word [] False
      else if c \<in> punctuation L then Punct [c]
      else if quote_char c then Quote c []
      else Word [c] False)"

text \<open>One character: the tokens it completes and the next state.\<close>

fun lex_step :: "lexer \<Rightarrow> lex_state \<Rightarrow> char \<Rightarrow> string list \<times> lex_state" where
  "lex_step L Blank c = ([], from_blank L c)"
| "lex_step L Comment c = ([], if c = CHR 0x0A then Blank else Comment)"
| "lex_step L (Word t q) c =
     (let out = (if t \<noteq> [] \<or> q then [t] else []) in
      if blank_char c then (out, Blank)
      else if comments L \<and> c = CHR ''#'' then (out, Comment)
      else if quote_char c then ([], Quote c t)
      else if c = CHR 0x5C then ([], Esc_word t q)
      else if c \<notin> punctuation L then ([], Word (t @ [c]) q)
      else (out, from_blank L c))"
| "lex_step L (Punct t) c =
     (if blank_char c then ([t], Blank)
      else if comments L \<and> c = CHR ''#'' then ([t], Comment)
      else if c \<in> punctuation L then ([], Punct (t @ [c]))
      else ([t], from_blank L c))"
| "lex_step L (Quote d t) c =
     (if c = d then ([], Word t True)
      else if c = CHR 0x5C \<and> d = CHR 0x22 then ([], Esc_quote t)
      else ([], Quote d (t @ [c])))"
| "lex_step L (Esc_word t q) c = ([], Word (t @ [c]) q)"
| "lex_step L (Esc_quote t) c =
     ([], Quote CHR 0x22 (if c = CHR 0x5C \<or> c = CHR 0x22 then t @ [c] else t @ [CHR 0x5C, c]))"

fun lex_end :: "lex_state \<Rightarrow> lex_error + string list" where
  "lex_end (Word t q) = Inr (if t \<noteq> [] \<or> q then [t] else [])"
| "lex_end (Punct t) = Inr [t]"
| "lex_end (Quote d t) = Inl No_closing_quotation"
| "lex_end (Esc_word t q) = Inl No_escaped_character"
| "lex_end (Esc_quote t) = Inl No_escaped_character"
| "lex_end _ = Inr []"

fun lex :: "lexer \<Rightarrow> lex_state \<Rightarrow> string \<Rightarrow> lex_error + string list" where
  "lex L st [] = lex_end st"
| "lex L st (c # s) =
     (case lex_step L st c of (out, st') \<Rightarrow> bind_res (lex L st' s) (\<lambda>ts. Inr (out @ ts)))"

definition shlex_tokens :: "lexer \<Rightarrow> string \<Rightarrow> lex_error + string list" where
  "shlex_tokens L s = lex L Blank s"

section \<open>Plain words\<close>

text \<open>A text that the lexer takes as one word: none of its characters is special.\<close>

definition plain_char :: "lexer \<Rightarrow> char \<Rightarrow> bool" where
  "plain_char L c \<longleftrightarrow> \<not> blank_char c \<and> \<not> quote_char c \<and> c \<noteq> CHR 0x5C \<and> c \<notin> punctuation L
     \<and> \<not> (comments L \<and> c = CHR ''#'')"

lemma lex_word:
  "list_all (plain_char L) w \<Longrightarrow> lex L (Word t q) (w @ s) = lex L (Word (t @ w) q) s"
proof (induction w arbitrary: t)
  case (Cons c w)
  then have "lex_step L (Word t q) c = ([], Word (t @ [c]) q)"
    by (simp add: plain_char_def Let_def)
  with Cons show ?case by (simp add: bind_res_def split: sum.splits)
qed simp

lemma lex_blank_word:
  "list_all (plain_char L) w \<Longrightarrow> w \<noteq> [] \<Longrightarrow> lex L Blank (w @ s) = lex L (Word w False) s"
proof -
  assume w: "list_all (plain_char L) w" "w \<noteq> []"
  then obtain c v where "w = c # v" by (cases w) auto
  moreover from this w have "from_blank L c = Word [c] False"
    by (auto simp: plain_char_def from_blank_def)
  ultimately show ?thesis
    using w lex_word [of L v "[c]" False s] by (simp add: bind_res_def split: sum.splits)
qed

lemma tokens_join_words:
  "\<forall>w \<in> set ws. w \<noteq> [] \<and> list_all (plain_char L) w \<Longrightarrow> shlex_tokens L (join '' '' ws) = Inr ws"
proof (induction "'' ''" ws rule: join.induct)
  case (2 w)
  then show ?case
    using lex_blank_word [of L w "[]"] by (simp add: shlex_tokens_def)
next
  case (3 w v ws)
  then have IH: "lex L Blank (join '' '' (v # ws)) = Inr (v # ws)" by (simp add: shlex_tokens_def)
  from 3 have "lex L Blank (w @ '' '' @ join '' '' (v # ws))
      = lex L (Word w False) ('' '' @ join '' '' (v # ws))"
    by (intro lex_blank_word) auto
  with 3 IH show ?case by (simp add: shlex_tokens_def blank_char_def Let_def)
qed (simp add: shlex_tokens_def)

text \<open>Punctuation tokens are never mixed with other characters, unless quoted or escaped.\<close>

definition operator_token :: "string \<Rightarrow> bool" where
  "operator_token t \<longleftrightarrow> t \<noteq> [] \<and> list_all (\<lambda>c. c \<in> set '';&<>|()'') t"

end
