(* ===== verification/Safe_Exec.thy ===== *)
theory Safe_Exec
  imports Versions Py_Shlex
begin

text \<open>
  \<open>_util/safe_exec.py\<close>: target-derived commands are vetted against a named profile and run without
  a shell, in a scrubbed environment. The environment of the process is a map from names to values;
  the children are behind a record of functions (\<open>procs\<close>), and the effects of a run are the list of
  what it started and logged. A verdict's message is a constructor that carries what it shows.
\<close>

section \<open>Deny tables\<close>

definition RECURSION_ENV :: string where
  "RECURSION_ENV = ''SAFE_EXEC_DEPTH''"

definition MAX_RECURSION :: int where
  "MAX_RECURSION = 3"

definition HARD_DENY_BINARIES :: "string set" where
  "HARD_DENY_BINARIES = {
     ''sudo'', ''su'', ''doas'', ''chown'', ''chgrp'', ''dd'', ''mkfs'', ''mount'', ''umount'',
     ''systemctl'', ''service'', ''crontab'', ''launchctl'', ''reboot'', ''shutdown'',
     ''insmod'', ''rmmod'', ''sysctl'', ''kill'', ''pkill'', ''killall'', ''renice'', ''nohup'',
     ''nc'', ''ncat'', ''netcat'', ''socat'', ''telnet'', ''ssh'', ''scp'', ''sftp'', ''rsync'',
     ''ftp'', ''wget'', ''pip'', ''pip3'', ''dnf'', ''yum'', ''apt'', ''apt-get'', ''brew'',
     ''gem'', ''cargo-install''}"

definition SHELLS :: "string set" where
  "SHELLS = {
     ''sh'', ''bash'', ''zsh'', ''ksh'', ''dash'', ''fish'', ''csh'', ''tcsh''}"

definition INTERPRETERS :: "string set" where
  "INTERPRETERS = {
     ''python'', ''python2'', ''python3'', ''perl'', ''ruby'', ''node'', ''deno'', ''lua'',
     ''php'', ''awk'', ''gawk'', ''mawk'', ''xargs'', ''env'', ''eval'', ''exec'', ''command'',
     ''time'', ''timeout'', ''nice'', ''setsid'', ''script''}"

definition GIT_NETWORK_SUBCOMMANDS :: "string set" where
  "GIT_NETWORK_SUBCOMMANDS = {
     ''push'', ''pull'', ''fetch'', ''clone'', ''remote'', ''submodule'', ''ls-remote''}"

definition GIT_DANGEROUS_C_KEYS :: "string list" where
  "GIT_DANGEROUS_C_KEYS = [
     ''core.pager'', ''core.editor'', ''core.sshcommand'', ''core.hookspath'',
     ''core.fsmonitor'', ''core.askpass'', ''core.alternateobjectdirectories'', ''credential.'',
     ''filter.'', ''diff.external'', ''difftool.'', ''mergetool.'', ''merge.'', ''remote.'',
     ''http.proxy'', ''http.sslcainfo'', ''http.sslcert'', ''http.sslkey'', ''protocol.'',
     ''sendemail.'', ''alias.'', ''gpg.program'', ''ssh.variant'', ''uploadpack.'',
     ''sshcommand'']"

definition PROTECTED_ENV_VARS :: "string set" where
  "PROTECTED_ENV_VARS = {
     ''PATH'', ''LD_PRELOAD'', ''LD_LIBRARY_PATH'', ''LD_AUDIT'', ''DYLD_INSERT_LIBRARIES'',
     ''DYLD_LIBRARY_PATH'', ''PYTHONPATH'', ''PYTHONSTARTUP'', ''PERL5LIB'', ''NODE_OPTIONS'',
     ''RUBYOPT'', ''BASH_ENV'', ''ENV'', ''IFS'', ''SHELL'', ''GIT_SSH'', ''GIT_SSH_COMMAND'',
     ''GIT_PROXY_COMMAND'', ''GIT_EXTERNAL_DIFF'', ''GIT_PAGER'', ''GIT_ASKPASS'',
     ''GIT_CONFIG_GLOBAL'', ''GIT_CONFIG_SYSTEM'', ''GIT_INDEX_FILE'', ''GIT_OBJECT_DIRECTORY'',
     ''JAVA_TOOL_OPTIONS'', ''MAVEN_OPTS'', ''GRADLE_OPTS'', ''_JAVA_OPTIONS'',
     ''SAFE_EXEC_MODE'', ''SAFE_EXEC_DISABLED'', ''SAFE_EXEC_DEPTH''}"

definition BASE_KEEP_ENV :: "string list" where
  "BASE_KEEP_ENV = [
     ''PATH'', ''HOME'', ''LANG'', ''LC_ALL'', ''TMPDIR'', ''TERM'', ''http_proxy'',
     ''https_proxy'', ''no_proxy'', ''HTTP_PROXY'', ''HTTPS_PROXY'', ''NO_PROXY'']"

definition CURL_DENY_FLAGS :: "string set" where
  "CURL_DENY_FLAGS = {
     ''-F'', ''--form'', ''--form-string'', ''-T'', ''--upload-file'', ''--config'', ''-K'',
     ''--netrc'', ''-n'', ''--netrc-file'', ''--output-dir'', ''--create-dirs''}"

definition KUBE_DENY_FLAGS :: "string set" where
  "KUBE_DENY_FLAGS = {
     ''--kubeconfig'', ''--context'', ''--cluster'', ''--user'', ''--server'', ''-s'',
     ''--token'', ''--as'', ''--as-group'', ''--as-uid'', ''--insecure-skip-tls-verify'',
     ''--tls-server-name'', ''--certificate-authority'', ''--client-certificate'',
     ''--client-key'', ''--username'', ''--password''}"

definition RAW_DENY_PATTERNS :: "(rx \<times> string) list" where
  "RAW_DENY_PATTERNS = [
     (lit ''`'', ''backtick command substitution''),
     (lit ''$('', ''command substitution $( )''),
     (lit ''${'', ''parameter expansion ${ }''),
     (Cat (Cls (one_of ''<>'')) (lit ''(''), ''process substitution''),
     (lit [CHR ''$'', CHR 0x27], ''ANSI-C quoting''),
     (seq [lit ''/dev/'', Grp 1 (Alt (lit ''tcp'') (lit ''udp'')), lit ''/''],
       ''raw socket via /dev/tcp|udp'')]"

definition ENV_PREFIX_RX :: rx where
  "ENV_PREFIX_RX = seq [At Bos,
     Grp 1 (Cat (Cls (\<lambda>c. is_lower c \<or> is_upper c \<or> c = CHR ''_'')) (star (Cls (alnum_or ''_'')))),
     lit ''='', Grp 2 (star (Cls (\<lambda>_. True))), At Eos]"

section \<open>Profiles and verdicts\<close>

record profile =
  p_name :: string
  p_description :: string
  p_allow :: "string set"
  allowed_path_heads :: "string set"
  allow_pipelines :: bool
  keep_env :: "string list"

definition permits :: "profile \<Rightarrow> string \<Rightarrow> bool" where
  "permits p head =
     (if CHR ''/'' \<in> set head then head \<in> allowed_path_heads p else head \<in> p_allow p)"

datatype reason =
    Empty_command
  | Depth_cap
  | Protected_assignment string
  | No_head
  | Hard_denied string
  | Shell_denied string
  | Self_invocation
  | Interpreter_denied string string
  | Not_allowlisted string string
  | Git_config_key string
  | Git_dangling_c
  | Git_network string
  | Curl_flag string
  | Curl_data_file
  | Curl_at_file
  | Curl_file_scheme
  | Kube_flag string
  | Raw_pattern string
  | Unparseable lex_error
  | Empty_step
  | Shell_operator string
  | No_pipelines string

datatype exn =
    Grants_hard_denied string "string list"
  | Unknown_profile string
  | Bad_depth string
  | Protected_extra_env string
  | Split_error lex_error
  | Wait_timeout
  | No_segments

datatype verdict = Ok "string list list" | Blocked reason

type_synonym environ = "string \<Rightarrow> string option"

definition FALLBACK_PROFILES :: "(string \<times> profile) list" where
  "FALLBACK_PROFILES = [(''validation-step'',
     \<lparr>p_name = ''validation-step'',
      p_description = ''embedded fallback - see config/safe-exec-profiles.yaml'',
      p_allow = {''curl'', ''oc'', ''kubectl'', ''jq'', ''grep'', ''base64'', ''head'', ''tail'',
        ''tr'', ''wc'', ''cat'', ''sleep'', ''echo'', ''printf''},
      allowed_path_heads = {},
      allow_pipelines = True,
      keep_env = [''KUBECONFIG'', ''VF_OAUTH_TOKEN'']\<rparr>)]"

text \<open>A profile of the configuration file, an absent key being the empty list or \<open>False\<close>.\<close>

record spec =
  sp_description :: string
  sp_allow :: "string list"
  sp_path_heads :: "string list"
  sp_pipelines :: bool
  sp_keep_env :: "string list"

definition profile_of_spec :: "string \<Rightarrow> spec \<Rightarrow> exn + profile" where
  "profile_of_spec name s =
     (let bad = filter (\<lambda>b. b \<in> HARD_DENY_BINARIES \<union> SHELLS) (sp_allow s) in
      if bad \<noteq> [] then Inl (Grants_hard_denied name (sort (remdups bad)))
      else Inr \<lparr>p_name = name, p_description = sp_description s, p_allow = set (sp_allow s),
        allowed_path_heads = set (sp_path_heads s), allow_pipelines = sp_pipelines s,
        keep_env = sp_keep_env s\<rparr>)"

fun profiles_from_section :: "(string \<times> spec) list \<Rightarrow> exn + (string \<times> profile) list" where
  "profiles_from_section [] = Inr []"
| "profiles_from_section ((name, s) # rest) =
     bind_res (profile_of_spec name s) (\<lambda>p.
       bind_res (profiles_from_section rest) (\<lambda>ps. Inr ((name, p) # ps)))"

text \<open>The module-global cache is a state that is passed and returned.\<close>

type_synonym cache = "(string \<times> profile) list option"

definition bind_profiles :: "(string \<times> spec) list option \<Rightarrow> exn + cache" where
  "bind_profiles section = (case section of
     None \<Rightarrow> Inr (Some FALLBACK_PROFILES)
   | Some s \<Rightarrow> bind_res (profiles_from_section s) (\<lambda>ps. Inr (Some ps)))"

definition profiles :: "(string \<times> profile) list option \<Rightarrow> cache
    \<Rightarrow> (string \<times> profile) list \<times> cache" where
  "profiles profile_map cache = (case profile_map of
     Some pm \<Rightarrow> (pm, cache)
   | None \<Rightarrow> (case cache of
       Some ps \<Rightarrow> (ps, cache)
     | None \<Rightarrow> (FALLBACK_PROFILES, Some FALLBACK_PROFILES)))"

definition get_profile :: "string \<Rightarrow> (string \<times> profile) list option \<Rightarrow> cache \<Rightarrow> exn + profile" where
  "get_profile name profile_map cache =
     (case map_of (fst (profiles profile_map cache)) name of
        None \<Rightarrow> Inl (Unknown_profile name)
      | Some p \<Rightarrow> Inr p)"

section \<open>Strings of commands\<close>

text \<open>\<open>int(s)\<close>: blanks around it, a sign, and digits that single underscores may group.\<close>

definition py_int :: "string \<Rightarrow> int option" where
  "py_int s = (let t = strip s;
       neg = (take 1 t = ''-'');
       d = (if take 1 t = ''-'' \<or> take 1 t = ''+'' then drop 1 t else t);
       parts = split_on CHR ''_'' d in
     if list_all (\<lambda>p. p \<noteq> [] \<and> list_all is_digit p) parts
     then Some (let n = int (int_of_digits (concat parts)) in if neg then - n else n)
     else None)"

definition show_int :: "int \<Rightarrow> string" where
  "show_int i = (if i < 0 then ''-'' @ show_nat (nat (- i)) else show_nat (nat i))"

definition depth :: "environ \<Rightarrow> exn + int" where
  "depth env = (case env RECURSION_ENV of
     None \<Rightarrow> Inr 0
   | Some s \<Rightarrow> (case py_int s of None \<Rightarrow> Inl (Bad_depth s) | Some n \<Rightarrow> Inr n))"

section \<open>Validation\<close>

text \<open>\<open>tok.split("=", 1)[0]\<close>\<close>

definition flag_of :: "string \<Rightarrow> string" where
  "flag_of tok = fst (cut CHR ''='' tok)"

definition git_key_denied :: "string \<Rightarrow> bool" where
  "git_key_denied key \<longleftrightarrow>
     (\<exists>danger \<in> set GIT_DANGEROUS_C_KEYS.
        key = danger \<or> (endswith danger ''.'' \<and> startswith key danger))"

text \<open>The loop over the options of git; \<open>Inr\<close> is the subcommand it stops at.\<close>

fun git_scan :: "string list \<Rightarrow> reason + string option" where
  "git_scan [] = Inr None"
| "git_scan (tok # rest) =
     (if tok = ''-c'' \<or> tok = ''--config-env'' then
        (case rest of
           [] \<Rightarrow> Inl Git_dangling_c
         | v # rest' \<Rightarrow>
             (let key = lower (strip (flag_of v)) in
              if git_key_denied key then Inl (Git_config_key key) else git_scan rest'))
      else if tok = ''-C'' then (case rest of [] \<Rightarrow> Inr None | _ # rest' \<Rightarrow> git_scan rest')
      else if startswith tok ''-'' then git_scan rest
      else Inr (Some tok))"

definition check_git_argv :: "string list \<Rightarrow> reason option" where
  "check_git_argv argv = (case git_scan (tl argv) of
     Inl r \<Rightarrow> Some r
   | Inr None \<Rightarrow> None
   | Inr (Some sub) \<Rightarrow> if sub \<in> GIT_NETWORK_SUBCOMMANDS then Some (Git_network sub) else None)"

definition curl_token :: "string list \<Rightarrow> string \<Rightarrow> reason option" where
  "curl_token argv tok =
     (let flag = flag_of tok in
      if flag \<in> CURL_DENY_FLAGS then Some (Curl_flag flag)
      else if startswith tok ''-d@'' \<or> startswith tok ''--data@'' then Some Curl_data_file
      else if flag \<in> {''-d'', ''--data'', ''--data-binary'', ''--data-raw'', ''--data-urlencode''}
          \<and> startswith (case snd (cut CHR ''='' tok) of
              Some val \<Rightarrow> val
            | None \<Rightarrow> (let idx = index_of tok argv in
                if idx + 1 < length argv then argv ! (idx + 1) else [])) ''@''
        then Some Curl_at_file
      else if startswith tok ''file://'' then Some Curl_file_scheme
      else None)"

fun first_reason :: "('a \<Rightarrow> reason option) \<Rightarrow> 'a list \<Rightarrow> reason option" where
  "first_reason f [] = None"
| "first_reason f (x # xs) = (case f x of Some r \<Rightarrow> Some r | None \<Rightarrow> first_reason f xs)"

definition check_curl_argv :: "string list \<Rightarrow> reason option" where
  "check_curl_argv argv = first_reason (curl_token argv) (tl argv)"

definition kube_token :: "string \<Rightarrow> reason option" where
  "kube_token tok =
     (let flag = flag_of tok in if flag \<in> KUBE_DENY_FLAGS then Some (Kube_flag flag) else None)"

definition check_kube_argv :: "string list \<Rightarrow> reason option" where
  "check_kube_argv argv = first_reason kube_token (tl argv)"

definition assigned_var :: "string \<Rightarrow> string option" where
  "assigned_var tok = map_option (\<lambda>m. or_str (m_group 1 m) []) (re_match ENV_PREFIX_RX tok)"

text \<open>
  The loop that looks for the head: it skips assignments and stops at the first other token. What
  stands before the head are assignments, which the head is not, so the slice from
  \<open>argv.index(head)\<close> is the head with what follows it.
\<close>

fun find_head :: "string list \<Rightarrow> reason + string \<times> string list" where
  "find_head [] = Inl No_head"
| "find_head (tok # rest) =
     (case assigned_var tok of
        Some var \<Rightarrow>
          if upper var \<in> PROTECTED_ENV_VARS \<or> startswith (upper var) ''GIT_''
          then Inl (Protected_assignment var) else find_head rest
      | None \<Rightarrow> Inr (tok, rest))"

definition check_name :: "string \<Rightarrow> string list \<Rightarrow> reason option" where
  "check_name name argv =
     (if name = ''git'' then check_git_argv argv
      else if name = ''curl'' then check_curl_argv argv
      else if name = ''kubectl'' \<or> name = ''oc'' then check_kube_argv argv
      else None)"

definition check_head :: "profile \<Rightarrow> string \<Rightarrow> string list \<Rightarrow> reason option" where
  "check_head p head rest =
     (let name = path_name head in
      if name \<in> HARD_DENY_BINARIES then Some (Hard_denied name)
      else if name \<in> SHELLS then Some (Shell_denied name)
      else if name = ''safe_exec'' \<or> name = ''safe_exec.py'' then Some Self_invocation
      else if \<not> permits p (if CHR ''/'' \<in> set head then head else name) then
        (if name \<in> INTERPRETERS then Some (Interpreter_denied name (p_name p))
         else Some (Not_allowlisted head (p_name p)))
      else check_name name (head # rest))"

definition validate_argv :: "environ \<Rightarrow> string list \<Rightarrow> profile \<Rightarrow> exn + verdict" where
  "validate_argv env argv p =
     (if argv = [] then Inr (Blocked Empty_command)
      else bind_res (depth env) (\<lambda>d.
        if d \<ge> MAX_RECURSION then Inr (Blocked Depth_cap)
        else (case find_head argv of
          Inl r \<Rightarrow> Inr (Blocked r)
        | Inr (head, rest) \<Rightarrow> (case check_head p head rest of
            Some r \<Rightarrow> Inr (Blocked r)
          | None \<Rightarrow> Inr (Ok [])))))"

text \<open>The tokens between the pipes, as the loop over \<open>segments\<close> collects them.\<close>

fun pipe_segments :: "string list \<Rightarrow> string list list" where
  "pipe_segments [] = [[]]"
| "pipe_segments (t # ts) =
     (if t = ''|'' then [] # pipe_segments ts
      else (case pipe_segments ts of [] \<Rightarrow> [[t]] | seg # segs \<Rightarrow> (t # seg) # segs))"

fun validate_all :: "environ \<Rightarrow> profile \<Rightarrow> string list list \<Rightarrow> exn + reason option" where
  "validate_all env p [] = Inr None"
| "validate_all env p (seg # segs) =
     bind_res (validate_argv env seg p) (\<lambda>v.
       case v of Blocked r \<Rightarrow> Inr (Some r) | Ok _ \<Rightarrow> validate_all env p segs)"

definition vet_command_string :: "environ \<Rightarrow> string \<Rightarrow> profile \<Rightarrow> exn + verdict" where
  "vet_command_string env cmd p =
     (case find (\<lambda>(rx, why). re_search rx cmd \<noteq> None) RAW_DENY_PATTERNS of
        Some (rx, why) \<Rightarrow> Inr (Blocked (Raw_pattern why))
      | None \<Rightarrow> (case shlex_tokens vet_lexer cmd of
          Inl e \<Rightarrow> Inr (Blocked (Unparseable e))
        | Inr tokens \<Rightarrow>
            if tokens = [] then Inr (Blocked Empty_step)
            else (case find (\<lambda>t. operator_token t \<and> t \<noteq> ''|'') tokens of
              Some t \<Rightarrow> Inr (Blocked (Shell_operator t))
            | None \<Rightarrow>
                (let segments = pipe_segments tokens in
                 if length segments > 1 \<and> \<not> allow_pipelines p
                 then Inr (Blocked (No_pipelines (p_name p)))
                 else bind_res (validate_all env p segments) (\<lambda>r.
                   case r of Some r \<Rightarrow> Inr (Blocked r) | None \<Rightarrow> Inr (Ok segments))))))"

section \<open>Execution\<close>

datatype outcome = Exited int string string | Timed_out string string | Os_error string

text \<open>A pipeline that ends gives each upstream return code, \<open>None\<close> for one that does not stop.\<close>

datatype pipe_outcome =
    Pipe_exited "int option list" int string string
  | Pipe_timeout
  | Pipe_os_error string

record procs =
  run_one :: "string list \<Rightarrow> environ \<Rightarrow> outcome"
  run_pipe :: "string list list \<Rightarrow> environ \<Rightarrow> pipe_outcome"

datatype cmd = Argv "string list" | Text string

datatype effect =
    Spawn "string list" environ
  | Bypass_logged cmd string string
  | Warned reason

text \<open>
  What a run returns. \<open>Result\<close> is the return code with the two outputs; \<open>Refused r\<close> is the code 126
  with no output and the reason in the error text. The starts of a pipeline are listed for all its
  segments, though one that fails to start ends the loop early.
\<close>

datatype result = Result int string string | Refused reason

datatype gate_report = Says_ok | Says_warn reason | Says_block reason

fun put_extra :: "(string \<times> string) list \<Rightarrow> environ \<Rightarrow> exn + environ" where
  "put_extra [] env = Inr env"
| "put_extra ((k, v) # rest) env =
     (if upper k \<in> PROTECTED_ENV_VARS then Inl (Protected_extra_env k)
      else put_extra rest (env(k \<mapsto> v)))"

definition scrubbed_env :: "environ \<Rightarrow> profile \<Rightarrow> (string \<times> string) list \<Rightarrow> exn + environ" where
  "scrubbed_env os p extra =
     bind_res (depth os) (\<lambda>d.
       put_extra extra
         ((\<lambda>k. if k \<in> set (BASE_KEEP_ENV @ keep_env p) then os k else None)
            (RECURSION_ENV \<mapsto> show_int (d + 1))))"

definition exit_notes :: "int option list \<Rightarrow> (nat \<times> int) list" where
  "exit_notes rcs = map (\<lambda>(i, rc). (i, the rc)) (filter (\<lambda>(i, rc). rc \<noteq> Some 0) (enumerate 0 rcs))"

definition note_text :: "nat \<times> int \<Rightarrow> string" where
  "note_text n = [CHR 0x0A] @ ''[pipeline segment '' @ show_nat (fst n) @ '' exited ''
     @ show_int (snd n) @ '']''"

definition run_segments :: "procs \<Rightarrow> environ \<Rightarrow> string list list \<Rightarrow> profile \<Rightarrow> nat
    \<Rightarrow> (string \<times> string) list \<Rightarrow> effect list \<times> (exn + result)" where
  "run_segments w os segments p timeout extra =
     (case scrubbed_env os p extra of
        Inl e \<Rightarrow> ([], Inl e)
      | Inr env \<Rightarrow> (case segments of
          [] \<Rightarrow> ([], Inl No_segments)
        | [argv] \<Rightarrow> ([Spawn argv env], Inr (case run_one w argv env of
              Exited rc out err \<Rightarrow> Result rc out err
            | Timed_out out err \<Rightarrow> Result 124 out (err @ [CHR 0x0A] @ ''[timeout after ''
                @ show_nat timeout @ ''s]'')
            | Os_error e \<Rightarrow> Result 127 [] (''[exec failed: '' @ e @ '']'')))
        | _ \<Rightarrow> (map (\<lambda>argv. Spawn argv env) segments, (case run_pipe w segments env of
              Pipe_timeout \<Rightarrow> Inr (Result 124 []
                (''[pipeline timeout after '' @ show_nat timeout @ ''s]''))
            | Pipe_os_error e \<Rightarrow> Inr (Result 127 [] (''[exec failed: '' @ e @ '']''))
            | Pipe_exited rcs rc out err \<Rightarrow>
                if None \<in> set rcs then Inl Wait_timeout
                else Inr (Result rc out (err @ concat (map note_text (exit_notes rcs))))))))"

text \<open>Validation of a command of either form, with the segments it would run.\<close>

definition vet_cmd :: "environ \<Rightarrow> cmd \<Rightarrow> profile \<Rightarrow> exn + verdict" where
  "vet_cmd os cmd p = (case cmd of
     Text s \<Rightarrow> vet_command_string os s p
   | Argv argv \<Rightarrow> bind_res (validate_argv os argv p) (\<lambda>v.
       case v of Ok _ \<Rightarrow> Inr (Ok [argv]) | Blocked r \<Rightarrow> Inr (Blocked r)))"

definition split_text :: "string \<Rightarrow> exn + string list list" where
  "split_text s = (case shlex_tokens split_lexer s of
     Inl e \<Rightarrow> Inl (Split_error e) | Inr ts \<Rightarrow> Inr [ts])"

definition bypass_segments :: "environ \<Rightarrow> cmd \<Rightarrow> profile \<Rightarrow> exn + string list list" where
  "bypass_segments os cmd p = (case cmd of
     Argv argv \<Rightarrow> Inr [argv]
   | Text s \<Rightarrow> bind_res (vet_command_string os s p) (\<lambda>v.
       case v of Ok segs \<Rightarrow> Inr segs | Blocked _ \<Rightarrow> split_text s))"

definition run_cmd :: "procs \<Rightarrow> environ \<Rightarrow> (string \<times> profile) list option \<Rightarrow> cache
    \<Rightarrow> cmd \<Rightarrow> string \<Rightarrow> nat \<Rightarrow> (string \<times> string) list \<Rightarrow> bool \<Rightarrow> effect list \<times> (exn + result)" where
  "run_cmd w os pm cache cmd profile_name timeout extra honor_bypass =
     (case get_profile profile_name pm cache of
        Inl e \<Rightarrow> ([], Inl e)
      | Inr p \<Rightarrow>
          (let bypass = strip (or_str (os ''SAFE_EXEC_DISABLED'') []) in
           if bypass \<noteq> [] \<and> honor_bypass then
             (let log = [Bypass_logged cmd profile_name bypass] in
              case bypass_segments os cmd p of
                Inl e \<Rightarrow> (log, Inl e)
              | Inr segs \<Rightarrow> (case run_segments w os segs p timeout extra of
                  (effs, res) \<Rightarrow> (log @ effs, res)))
           else (case vet_cmd os cmd p of
               Inl e \<Rightarrow> ([], Inl e)
             | Inr (Blocked r) \<Rightarrow> ([], Inr (Refused r))
             | Inr (Ok segs) \<Rightarrow> run_segments w os segs p timeout extra)))"

section \<open>The command line\<close>

definition mode :: "environ \<Rightarrow> string" where
  "mode os = lower (case os ''SAFE_EXEC_MODE'' of None \<Rightarrow> ''enforce'' | Some m \<Rightarrow> m)"

definition check_command :: "environ \<Rightarrow> cache \<Rightarrow> string \<Rightarrow> cmd \<Rightarrow> exn + int \<times> gate_report" where
  "check_command os cache profile_name cmd =
     bind_res (get_profile profile_name None cache) (\<lambda>p.
       bind_res (vet_cmd os cmd p) (\<lambda>v. Inr (case v of
           Ok _ \<Rightarrow> (0, Says_ok)
         | Blocked r \<Rightarrow> if mode os = ''warn'' then (0, Says_warn r) else (1, Says_block r))))"

definition execute_command :: "procs \<Rightarrow> environ \<Rightarrow> cache \<Rightarrow> string \<Rightarrow> cmd \<Rightarrow> nat
    \<Rightarrow> effect list \<times> (exn + result)" where
  "execute_command w os cache profile_name cmd timeout =
     (case bind_res (get_profile profile_name None cache)
         (\<lambda>p. bind_res (vet_cmd os cmd p) (\<lambda>v. Inr (p, v))) of
        Inl e \<Rightarrow> ([], Inl e)
      | Inr (p, Blocked r) \<Rightarrow>
          if mode os = ''warn'' then
            (case (case cmd of Argv argv \<Rightarrow> Inr [argv] | Text s \<Rightarrow> split_text s) of
               Inl e \<Rightarrow> ([Warned r], Inl e)
             | Inr segs \<Rightarrow> (case run_segments w os segs p timeout [] of
                 (effs, res) \<Rightarrow> (Warned r # effs, res)))
          else run_cmd w os None cache cmd profile_name timeout [] True
      | Inr (p, Ok segs) \<Rightarrow> run_cmd w os None cache cmd profile_name timeout [] True)"

section \<open>What validation accepts\<close>

definition protected_var :: "string \<Rightarrow> bool" where
  "protected_var v \<longleftrightarrow> upper v \<in> PROTECTED_ENV_VARS \<or> startswith (upper v) ''GIT_''"

definition harmless_assignment :: "string \<Rightarrow> bool" where
  "harmless_assignment tok \<longleftrightarrow> (\<exists>v. assigned_var tok = Some v \<and> \<not> protected_var v)"

definition never_granted :: "string set" where
  "never_granted = HARD_DENY_BINARIES \<union> SHELLS \<union> {''safe_exec'', ''safe_exec.py''}"

definition vetted :: "environ \<Rightarrow> profile \<Rightarrow> string list \<Rightarrow> bool" where
  "vetted env p argv \<longleftrightarrow> (\<exists>ok. validate_argv env argv p = Inr (Ok ok))"

lemma find_head_Inr:
  "find_head argv = Inr (head, rest) \<longleftrightarrow>
     (\<exists>pre. argv = pre @ head # rest \<and> list_all harmless_assignment pre \<and> assigned_var head = None)"
proof (induction argv)
  case (Cons tok argv)
  show ?case
  proof (cases "assigned_var tok")
    case None
    then have "\<not> harmless_assignment tok" by (simp add: harmless_assignment_def)
    with None show ?thesis
      by (auto simp: Cons_eq_append_conv)
  next
    case (Some v)
    show ?thesis
    proof (cases "protected_var v")
      case True
      with Some have "\<not> harmless_assignment tok" by (simp add: harmless_assignment_def)
      with Some True show ?thesis
        by (auto simp: protected_var_def Cons_eq_append_conv)
    next
      case False
      with Some have "harmless_assignment tok" by (simp add: harmless_assignment_def)
      with Some False Cons show ?thesis
        by (auto simp: protected_var_def Cons_eq_append_conv)
    qed
  qed
qed simp

lemma check_head_None:
  "check_head p head rest = None \<longleftrightarrow>
     path_name head \<notin> never_granted
     \<and> permits p (if CHR ''/'' \<in> set head then head else path_name head)
     \<and> check_name (path_name head) (head # rest) = None"
  by (simp add: check_head_def Let_def never_granted_def)

lemma vetted_iff:
  "vetted env p argv \<longleftrightarrow>
     (\<exists>pre head rest d. argv = pre @ head # rest \<and> depth env = Inr d \<and> d < MAX_RECURSION
        \<and> list_all harmless_assignment pre \<and> assigned_var head = None
        \<and> check_head p head rest = None)"
proof
  assume "vetted env p argv"
  then show "\<exists>pre head rest d. argv = pre @ head # rest \<and> depth env = Inr d \<and> d < MAX_RECURSION
        \<and> list_all harmless_assignment pre \<and> assigned_var head = None
        \<and> check_head p head rest = None"
    by (auto simp: vetted_def validate_argv_def find_head_Inr not_le
        split: if_splits sum.splits option.splits) blast
next
  assume "\<exists>pre head rest d. argv = pre @ head # rest \<and> depth env = Inr d \<and> d < MAX_RECURSION
        \<and> list_all harmless_assignment pre \<and> assigned_var head = None
        \<and> check_head p head rest = None"
  then obtain pre head rest d where "argv = pre @ head # rest" "depth env = Inr d" "d < MAX_RECURSION"
      "find_head argv = Inr (head, rest)" "check_head p head rest = None"
    using find_head_Inr by blast
  then show "vetted env p argv" by (simp add: vetted_def validate_argv_def)
qed

lemma first_reason_None: "first_reason f xs = None \<longleftrightarrow> list_all (\<lambda>x. f x = None) xs"
  by (induction xs) (auto split: option.splits)

text \<open>
  C38. What an argv must be to pass, for every environment and profile: fewer than three runs
  deep; only assignments to unprotected variables before its head; a head that the profile lists,
  by its path when it has a slash and by its name otherwise; a name that is neither a hard-denied
  binary nor a shell nor the tool itself; and the further checks of that name.
\<close>

theorem validated_argv_iff:
  "(\<exists>ok. validate_argv env argv p = Inr (Ok ok)) =
     (\<exists>pre head rest d. argv = pre @ head # rest \<and> depth env = Inr d \<and> d < MAX_RECURSION
        \<and> list_all harmless_assignment pre \<and> assigned_var head = None
        \<and> path_name head \<notin> HARD_DENY_BINARIES \<union> SHELLS \<union> {''safe_exec'', ''safe_exec.py''}
        \<and> (if CHR ''/'' \<in> set head then head \<in> allowed_path_heads p else path_name head \<in> p_allow p)
        \<and> check_name (path_name head) (head # rest) = None)"
proof -
  have slash: "CHR ''/'' \<notin> set (path_name head)" for head
    using split_on_no_sep [of _ "CHR ''/''" head]
    by (auto simp: path_name_def Let_def dest!: last_in_set)
  then show ?thesis
    unfolding vetted_def [symmetric] vetted_iff check_head_None never_granted_def
    by (auto simp: permits_def)
qed

section \<open>Profiles\<close>

lemma profile_of_spec_Inr:
  "profile_of_spec name s = Inr p \<longleftrightarrow>
     set (sp_allow s) \<inter> (HARD_DENY_BINARIES \<union> SHELLS) = {}
     \<and> p = \<lparr>p_name = name, p_description = sp_description s, p_allow = set (sp_allow s),
        allowed_path_heads = set (sp_path_heads s), allow_pipelines = sp_pipelines s,
        keep_env = sp_keep_env s\<rparr>"
proof -
  have "filter (\<lambda>b. b \<in> HARD_DENY_BINARIES \<union> SHELLS) (sp_allow s) = []
      \<longleftrightarrow> set (sp_allow s) \<inter> (HARD_DENY_BINARIES \<union> SHELLS) = {}"
    unfolding filter_empty_conv by blast
  then show ?thesis unfolding profile_of_spec_def Let_def by auto
qed

lemma profiles_from_section_Inr:
  "profiles_from_section ss = Inr ps \<Longrightarrow>
     list_all2 (\<lambda>(n, s) (m, p). m = n \<and> profile_of_spec n s = Inr p) ss ps"
  by (induction ss arbitrary: ps rule: profiles_from_section.induct) auto

lemma profiles_from_section_ok:
  "(\<And>n s. (n, s) \<in> set ss \<Longrightarrow> \<exists>p. profile_of_spec n s = Inr p)
     \<Longrightarrow> \<exists>ps. profiles_from_section ss = Inr ps"
proof (induction ss rule: profiles_from_section.induct)
  case (2 name s rest)
  then obtain p where p: "profile_of_spec name s = Inr p" by (metis list.set_intros(1))
  have "\<exists>ps. profiles_from_section rest = Inr ps"
    by (rule 2(1)) (meson 2(2) list.set_intros(2))
  with p show ?case by auto
qed simp

lemma list_all2_memberD: "list_all2 P xs ys \<Longrightarrow> y \<in> set ys \<Longrightarrow> \<exists>x \<in> set xs. P x y"
  by (induction rule: list_all2_induct) auto

lemma list_all2_memberI: "list_all2 P xs ys \<Longrightarrow> x \<in> set xs \<Longrightarrow> \<exists>y \<in> set ys. P x y"
  by (induction rule: list_all2_induct) auto

lemma section_allows_disjoint:
  "(\<Union>(n, s) \<in> set ss. set (sp_allow s)) \<inter> (HARD_DENY_BINARIES \<union> SHELLS) = {}
     \<longleftrightarrow> (\<forall>(n, s) \<in> set ss. set (sp_allow s) \<inter> (HARD_DENY_BINARIES \<union> SHELLS) = {})"
  by blast

lemma section_accepted_iff:
  "(\<exists>ps. profiles_from_section ss = Inr ps)
     \<longleftrightarrow> (\<Union>(n, s) \<in> set ss. set (sp_allow s)) \<inter> (HARD_DENY_BINARIES \<union> SHELLS) = {}"
proof
  assume "\<exists>ps. profiles_from_section ss = Inr ps"
  then obtain ps where ps: "profiles_from_section ss = Inr ps" by blast
  have "set (sp_allow s) \<inter> (HARD_DENY_BINARIES \<union> SHELLS) = {}" if "(n, s) \<in> set ss" for n s
    using list_all2_memberI [OF profiles_from_section_Inr [OF ps] that]
    by (auto simp only: profile_of_spec_Inr split_beta fst_conv snd_conv)
  then show "(\<Union>(n, s) \<in> set ss. set (sp_allow s)) \<inter> (HARD_DENY_BINARIES \<union> SHELLS) = {}"
    unfolding section_allows_disjoint by blast
next
  assume "(\<Union>(n, s) \<in> set ss. set (sp_allow s)) \<inter> (HARD_DENY_BINARIES \<union> SHELLS) = {}"
  then show "\<exists>ps. profiles_from_section ss = Inr ps"
    unfolding section_allows_disjoint
    by (intro profiles_from_section_ok) (simp only: profile_of_spec_Inr, blast)
qed

lemma section_profiles_disjoint:
  assumes "profiles_from_section ss = Inr ps" and "(n, p) \<in> set ps"
  shows "p_allow p \<inter> (HARD_DENY_BINARIES \<union> SHELLS) = {}"
  using list_all2_memberD [OF profiles_from_section_Inr [OF assms(1)] assms(2)]
  by (auto simp only: profile_of_spec_Inr split_beta fst_conv snd_conv profile.simps)

lemma fallback_profiles_disjoint:
  "(n, p) \<in> set FALLBACK_PROFILES \<Longrightarrow> p_allow p \<inter> (HARD_DENY_BINARIES \<union> SHELLS) = {}"
proof -
  have "\<forall>(n, p) \<in> set FALLBACK_PROFILES. p_allow p \<inter> (HARD_DENY_BINARIES \<union> SHELLS) = {}"
    by code_simp
  then show "(n, p) \<in> set FALLBACK_PROFILES \<Longrightarrow> p_allow p \<inter> (HARD_DENY_BINARIES \<union> SHELLS) = {}"
    by blast
qed

lemma get_profile_Inr:
  "get_profile name pm cache = Inr p \<longleftrightarrow> map_of (fst (profiles pm cache)) name = Some p"
  by (auto simp: get_profile_def split: option.splits)

text \<open>
  No profile grants a hard-denied binary or a shell: whatever section is bound, or none, any
  profile found afterwards permits no such name.
\<close>

theorem hard_denies_never_granted:
  assumes "bind_profiles sec = Inr cache" and "get_profile name None cache = Inr p"
  shows "p_allow p \<inter> (HARD_DENY_BINARIES \<union> SHELLS) = {}"
proof (cases sec)
  case None
  with assms have "map_of FALLBACK_PROFILES name = Some p"
    by (auto simp: bind_profiles_def get_profile_Inr profiles_def)
  then show ?thesis by (rule fallback_profiles_disjoint [OF map_of_SomeD])
next
  case (Some ss)
  with assms(1) obtain ps where "profiles_from_section ss = Inr ps" "cache = Some ps"
    by (auto simp: bind_profiles_def)
  then show ?thesis
    using assms(2) by (auto simp: get_profile_Inr profiles_def
        dest!: map_of_SomeD section_profiles_disjoint [of ss ps])
qed

definition demo_spec :: spec where
  "demo_spec = \<lparr>sp_description = [], sp_allow = [''make'', ''git'', ''curl''], sp_path_heads = [''./configure''],
     sp_pipelines = True, sp_keep_env = [''GOPATH'']\<rparr>"

definition demo_profile :: profile where
  "demo_profile = \<lparr>p_name = ''build'', p_description = [], p_allow = {''make'', ''git'', ''curl''},
     allowed_path_heads = {''./configure''}, allow_pipelines = True, keep_env = [''GOPATH'']\<rparr>"

theorem hard_denies_never_granted_witness:
  "p_allow demo_profile \<inter> (HARD_DENY_BINARIES \<union> SHELLS) = {}"
proof (rule hard_denies_never_granted)
  have "profile_of_spec ''build'' demo_spec = Inr demo_profile"
    unfolding profile_of_spec_Inr by (rule conjI, code_simp, simp add: demo_spec_def demo_profile_def)
  then show "bind_profiles (Some [(''build'', demo_spec)]) = Inr (Some [(''build'', demo_profile)])"
    by (simp add: bind_profiles_def)
  show "get_profile ''build'' None (Some [(''build'', demo_profile)]) = Inr demo_profile"
    by (simp add: get_profile_def profiles_def)
qed

text \<open>
  A profile file is refused exactly when some profile of it lists a hard-denied binary or a
  shell, wherever in the list it stands.
\<close>

theorem profile_file_accepted:
  "(\<exists>ps. profiles_from_section ss = Inr ps)
     = ((\<Union>(n, s) \<in> set ss. set (sp_allow s)) \<inter> (HARD_DENY_BINARIES \<union> SHELLS) = {})"
  by (rule section_accepted_iff)

section \<open>The checks of the special tools\<close>

text \<open>
  Options of git that the loop reads as it means to: \<open>-c key=value\<close> with its key recorded,
  \<open>-C dir\<close>, and options that take no separate value.
\<close>

inductive git_options :: "string list \<Rightarrow> string list \<Rightarrow> bool" where
  git_none: "git_options [] []"
| git_config: "ot \<in> {''-c'', ''--config-env''} \<Longrightarrow> git_options os ks
    \<Longrightarrow> git_options (ot # v # os) (lower (strip (flag_of v)) # ks)"
| git_dir: "git_options os ks \<Longrightarrow> git_options (''-C'' # d # os) ks"
| git_flag: "startswith ot ''-'' \<Longrightarrow> ot \<notin> {''-c'', ''--config-env'', ''-C''} \<Longrightarrow> git_options os ks
    \<Longrightarrow> git_options (ot # os) ks"

lemma git_scan_options:
  "git_options os ks \<Longrightarrow>
     git_scan (os @ rest) = (case find git_key_denied ks of
        Some k \<Rightarrow> Inl (Git_config_key k) | None \<Rightarrow> git_scan rest)"
  by (induction rule: git_options.induct) (auto simp: startswith_def)

lemma git_scan_subcommand: "\<not> startswith sub ''-'' \<Longrightarrow> git_scan (sub # rest) = Inr (Some sub)"
  by (auto simp: startswith_def)

lemma check_git_options:
  assumes "git_options os ks" and "\<not> startswith sub ''-''"
  shows "check_git_argv (head # os @ sub # rest) = None
    \<longleftrightarrow> find git_key_denied ks = None \<and> sub \<notin> GIT_NETWORK_SUBCOMMANDS"
  using git_scan_options [OF assms(1), of "sub # rest"] git_scan_subcommand [OF assms(2)]
  by (auto simp: check_git_argv_def split: option.splits)

text \<open>
  A vetted git command line that starts with well-formed options runs no network subcommand
  and sets no configuration key of the deny table, however many options there are.
\<close>

theorem vetted_git_is_local:
  assumes "validate_argv env (head # os @ sub # rest) p = Inr (Ok ok)"
    and "assigned_var head = None" and "path_name head = ''git''"
    and "git_options os ks" and "\<not> startswith sub ''-''"
  shows "sub \<notin> GIT_NETWORK_SUBCOMMANDS \<and> filter git_key_denied ks = []"
proof -
  have "find_head (head # os @ sub # rest) = Inr (head, os @ sub # rest)"
    using assms(2) by simp
  with assms(1) have "check_head p head (os @ sub # rest) = None"
    by (auto simp: validate_argv_def split: if_splits option.splits)
  then have "check_git_argv (head # os @ sub # rest) = None"
    using assms(3) by (simp add: check_head_None check_name_def)
  then have "find git_key_denied ks = None" "sub \<notin> GIT_NETWORK_SUBCOMMANDS"
    using check_git_options [OF assms(4,5)] by blast+
  then show ?thesis by (simp add: find_None_iff_ball filter_empty_conv)
qed

theorem vetted_git_is_local_witness:
  "''log'' \<notin> GIT_NETWORK_SUBCOMMANDS \<and> filter git_key_denied [''color.ui''] = []"
proof (rule vetted_git_is_local)
  show "git_options [''-C'', ''src'', ''-c'', ''color.ui=never'', ''--no-pager''] [''color.ui'']"
  proof -
    have key: "lower (strip (flag_of ''color.ui=never'')) = ''color.ui''" by code_simp
    have "git_options [''--no-pager''] []"
      by (rule git_flag) (simp_all add: startswith_def git_none)
    then have "git_options [''-c'', ''color.ui=never'', ''--no-pager'']
        [lower (strip (flag_of ''color.ui=never''))]"
      by (intro git_config) simp_all
    then show ?thesis unfolding key by (rule git_dir)
  qed
  show "validate_argv Map.empty
      (''git'' # [''-C'', ''src'', ''-c'', ''color.ui=never'', ''--no-pager''] @ ''log'' # [])
      demo_profile = Inr (Ok [])"
    by code_simp
qed code_simp+

lemma vetted_command_token:
  assumes "validate_argv env (head # rest) p = Inr (Ok ok)" and "assigned_var head = None"
  shows "check_name (path_name head) (head # rest) = None"
proof -
  have "find_head (head # rest) = Inr (head, rest)" using assms(2) by simp
  with assms(1) have "check_head p head rest = None"
    by (auto simp: validate_argv_def split: if_splits option.splits)
  then show ?thesis by (simp add: check_head_None)
qed

text \<open>
  A vetted command of the cluster clients carries no flag of the deny table in any position,
  joined to a value by an equals sign or not; a vetted curl carries no upload, form or
  configuration flag and no file URL in any position.
\<close>

theorem vetted_client_flags:
  assumes "validate_argv env (head # rest) p = Inr (Ok ok)" and "assigned_var head = None"
    and "path_name head \<in> {''kubectl'', ''oc'', ''curl''}" and "tok \<in> set rest"
  shows "if path_name head = ''curl''
     then flag_of tok \<notin> CURL_DENY_FLAGS \<and> \<not> startswith tok ''-d@'' \<and> \<not> startswith tok ''file://''
     else flag_of tok \<notin> KUBE_DENY_FLAGS"
proof -
  have "check_name (path_name head) (head # rest) = None"
    by (rule vetted_command_token [OF assms(1,2)])
  then consider "path_name head = ''curl''" "list_all (\<lambda>t. curl_token (head # rest) t = None) rest"
    | "path_name head \<noteq> ''curl''" "list_all (\<lambda>t. kube_token t = None) rest"
    using assms(3)
    by (auto simp: check_name_def check_curl_argv_def check_kube_argv_def first_reason_None)
  then show ?thesis
  proof cases
    case 1
    with assms(4) have "curl_token (head # rest) tok = None" by (simp add: list_all_iff)
    with 1 show ?thesis by (auto simp: curl_token_def Let_def split: if_splits)
  next
    case 2
    with assms(4) have "kube_token tok = None" by (simp add: list_all_iff)
    with 2 show ?thesis by (auto simp: kube_token_def Let_def split: if_splits)
  qed
qed

theorem vetted_client_flags_witness:
  "if path_name ''curl'' = ''curl''
     then flag_of ''http://lab'' \<notin> CURL_DENY_FLAGS \<and> \<not> startswith ''http://lab'' ''-d@''
       \<and> \<not> startswith ''http://lab'' ''file://''
     else flag_of ''http://lab'' \<notin> KUBE_DENY_FLAGS"
proof (rule vetted_client_flags)
  show "validate_argv Map.empty (''curl'' # [''-s'', ''http://lab'']) demo_profile = Inr (Ok [])"
    by code_simp
qed code_simp+

text \<open>
  What the checks let through: only the first of two equal data flags is looked at, and an option
  of git that takes a separate value hides the subcommand behind that value.
\<close>

lemma second_data_file_passes:
  "validate_argv Map.empty [''curl'', ''-d'', ''x'', ''-d'', ''@/etc/passwd'', ''http://lab''] demo_profile
     = Inr (Ok [])"
  by code_simp

lemma git_dir_hides_push:
  "validate_argv Map.empty [''git'', ''--git-dir'', ''.git'', ''push'', ''origin''] demo_profile
     = Inr (Ok [])"
  by code_simp

lemma glued_config_env_passes:
  "validate_argv Map.empty [''git'', ''--config-env=core.pager=LESS'', ''log''] demo_profile
     = Inr (Ok [])"
  by code_simp

section \<open>Command strings\<close>

lemma pipe_segments_neq_Nil [simp]: "pipe_segments ts \<noteq> []"
  by (induction ts) (auto split: list.splits)

text \<open>The segments put together again, with a pipe between two of them.\<close>

fun join_segments :: "string list list \<Rightarrow> string list" where
  "join_segments [] = []"
| "join_segments [seg] = seg"
| "join_segments (seg # s # segs) = seg @ ''|'' # join_segments (s # segs)"

lemma join_pipe_segments: "join_segments (pipe_segments ts) = ts"
proof (induction ts)
  case (Cons t ts)
  then show ?case
    by (cases "pipe_segments ts"; cases "tl (pipe_segments ts)") (auto split: list.splits)
qed simp

lemma pipe_segments_no_pipe: "seg \<in> set (pipe_segments ts) \<Longrightarrow> ''|'' \<notin> set seg"
  by (induction ts arbitrary: seg) (auto split: if_splits list.splits)

lemma validate_all_None:
  "validate_all env p segs = Inr None \<longleftrightarrow> list_all (vetted env p) segs"
proof (induction segs)
  case (Cons seg segs)
  then show ?case
    by (auto simp: vetted_def bind_res_def split: sum.splits verdict.splits)
qed simp

lemma raw_rx_ok: "x \<in> set RAW_DENY_PATTERNS \<Longrightarrow> rx_ok (fst x)"
  by (auto simp: RAW_DENY_PATTERNS_def seq_def)

lemma vet_string_Ok:
  "vet_command_string env cmd p = Inr (Ok segs) \<longleftrightarrow>
     find (\<lambda>(rx, why). re_search rx cmd \<noteq> None) RAW_DENY_PATTERNS = None \<and>
     (\<exists>tokens. shlex_tokens vet_lexer cmd = Inr tokens \<and> tokens \<noteq> []
        \<and> find (\<lambda>t. operator_token t \<and> t \<noteq> ''|'') tokens = None
        \<and> segs = pipe_segments tokens \<and> (length segs \<le> 1 \<or> allow_pipelines p)
        \<and> list_all (vetted env p) segs)"
proof (cases "find (\<lambda>(rx, why). re_search rx cmd \<noteq> None) RAW_DENY_PATTERNS")
  case None
  show ?thesis
  proof (cases "shlex_tokens vet_lexer cmd")
    case (Inr tokens)
    then show ?thesis
      unfolding vet_command_string_def None Inr
      by (auto simp: Let_def validate_all_None [symmetric] split: option.splits if_splits)
  next
    case (Inl e)
    then show ?thesis unfolding vet_command_string_def None by simp
  qed
next
  case (Some r)
  then show ?thesis unfolding vet_command_string_def by (cases r) simp
qed

text \<open>The plain texts among the raw denies, by occurrence.\<close>

definition raw_phrases :: "string list" where
  "raw_phrases = [''`'', ''$('', ''${'', ''<('', ''>('', [CHR ''$'', CHR 0x27], ''/dev/tcp/'', ''/dev/udp/'']"

lemma matches_process_substitution:
  "matches (Cat (Cls (one_of ''<>'')) (lit ''('')) b t z \<longleftrightarrow> t = ''<('' \<or> t = ''>(''"
  by (auto simp: matches_simps matches_lit one_of_def)

lemma matches_raw_socket:
  "matches (seq [lit ''/dev/'', Grp 1 (Alt (lit ''tcp'') (lit ''udp'')), lit ''/'']) b t z
     \<longleftrightarrow> t = ''/dev/tcp/'' \<or> t = ''/dev/udp/''"
  by (auto simp: matches_simps matches_lit seq_def)

lemma raw_matches: "(\<exists>x \<in> set RAW_DENY_PATTERNS. matches (fst x) b t z) \<longleftrightarrow> t \<in> set raw_phrases"
  by (simp only: RAW_DENY_PATTERNS_def raw_phrases_def list.set bex_simps fst_conv matches_lit
      matches_process_substitution matches_raw_socket insert_iff empty_iff disj_assoc simp_thms)

lemma find_fst_None: "find (\<lambda>(r, w). P r) xs = None \<longleftrightarrow> \<not> (\<exists>x \<in> set xs. P (fst x))"
  by (induction xs) auto

lemma no_raw_pattern_iff:
  "find (\<lambda>(rx, why). re_search rx cmd \<noteq> None) RAW_DENY_PATTERNS = None
     \<longleftrightarrow> \<not> (\<exists>w \<in> set raw_phrases. occurs_in w cmd)"
proof -
  have "(\<exists>x \<in> set RAW_DENY_PATTERNS. re_search (fst x) cmd \<noteq> None)
      \<longleftrightarrow> (\<exists>x \<in> set RAW_DENY_PATTERNS. \<exists>a t z. cmd = a @ t @ z \<and> matches (fst x) (rev a) t z)"
    by (rule bex_cong [OF refl]) (use raw_rx_ok re_search_iff in blast)
  also have "\<dots> \<longleftrightarrow> (\<exists>a t z. cmd = a @ t @ z \<and> (\<exists>x \<in> set RAW_DENY_PATTERNS. matches (fst x) (rev a) t z))"
    by blast
  also have "\<dots> \<longleftrightarrow> (\<exists>w \<in> set raw_phrases. occurs_in w cmd)"
    unfolding raw_matches occurs_in_iff by blast
  finally show ?thesis unfolding find_fst_None by simp
qed

text \<open>
  A command string passes exactly when it has none of the raw texts (substitutions,
  expansions, sockets of the shell) anywhere, the lexer reads it as a nonempty list of tokens with no operator
  but the pipe among them, a pipe is used only where the profile allows pipelines, and every
  segment between pipes is a vetted argv. The segments that will run are those tokens, in order.
\<close>

theorem vetted_string_iff:
  "(vet_command_string env cmd p = Inr (Ok segs)) =
     (\<not> (\<exists>w \<in> set raw_phrases. occurs_in w cmd)
      \<and> shlex_tokens vet_lexer cmd = Inr (join_segments segs) \<and> join_segments segs \<noteq> []
      \<and> segs = pipe_segments (join_segments segs)
      \<and> filter (\<lambda>t. operator_token t \<and> t \<noteq> ''|'') (join_segments segs) = []
      \<and> (length segs \<le> 1 \<or> allow_pipelines p)
      \<and> list_all (\<lambda>seg. \<exists>ok. validate_argv env seg p = Inr (Ok ok)) segs)"
proof -
  have "list_all (vetted env p) segs = list_all (\<lambda>seg. \<exists>ok. validate_argv env seg p = Inr (Ok ok)) segs"
    unfolding vetted_def ..
  then show ?thesis
    unfolding vet_string_Ok no_raw_pattern_iff
    unfolding find_None_iff_ball filter_empty_conv
    by (auto simp: join_pipe_segments)
qed

text \<open>
  Plain commands get through: words without special characters, joined by blanks, are vetted
  and run as exactly those words when the profile lists the first of them, its name is not a
  special one, no raw text occurs and the recursion cap is not reached.
\<close>

definition ordinary_head :: "profile \<Rightarrow> string \<Rightarrow> bool" where
  "ordinary_head p w \<longleftrightarrow> assigned_var w = None \<and> CHR ''/'' \<notin> set w \<and> path_name w = w
     \<and> w \<in> p_allow p \<and> w \<notin> never_granted \<and> w \<notin> {''git'', ''curl'', ''kubectl'', ''oc''}"

lemma plain_not_operator: "list_all (plain_char vet_lexer) w \<Longrightarrow> \<not> operator_token w"
proof -
  assume w: "list_all (plain_char vet_lexer) w"
  have "c \<notin> set '';&<>|()''" if "plain_char vet_lexer c" for c
    using that by (auto simp: plain_char_def vet_lexer_def)
  with w show ?thesis by (cases w) (auto simp: operator_token_def)
qed

lemma pipe_segments_plain: "''|'' \<notin> set ts \<Longrightarrow> pipe_segments ts = [ts]"
  by (induction ts) auto

text \<open>
  The checks leave the ordinary command usable: words without shell syntax, headed by a listed binary that is
  none of the specially checked ones, in an environment that is not nested too deep and without a denied
  phrase, are accepted, and what runs is exactly these words.
\<close>

theorem plain_command_vetted:
  assumes "list_all (\<lambda>w. w \<noteq> [] \<and> list_all (plain_char vet_lexer) w) ws"
    and "ws = w # args" and "ordinary_head p w"
    and "filter (\<lambda>r. occurs_in r (join '' '' ws)) raw_phrases = []"
    and "depth env = Inr d" and "d < MAX_RECURSION"
  shows "vet_command_string env (join '' '' ws) p = Inr (Ok [ws])"
proof -
  have toks: "shlex_tokens vet_lexer (join '' '' ws) = Inr ws"
    using assms(1) by (intro tokens_join_words) (simp add: list_all_iff)
  have noop: "\<forall>t \<in> set ws. \<not> operator_token t"
    using assms(1) plain_not_operator by (auto simp: list_all_iff)
  moreover have "operator_token ''|''" by (simp add: operator_token_def)
  ultimately have nopipe: "''|'' \<notin> set ws" by blast
  have "vetted env p ws"
    unfolding vetted_iff using assms(2,3,5,6)
    by (intro exI [of _ "[]"] exI [of _ w] exI [of _ args] exI [of _ d])
      (simp add: ordinary_head_def check_head_None check_name_def permits_def)
  then show ?thesis
    unfolding vet_string_Ok no_raw_pattern_iff
    using toks noop nopipe assms(2,4)
    by (auto simp: pipe_segments_plain find_None_iff_ball filter_empty_conv)
qed

theorem plain_command_vetted_witness:
  "vet_command_string Map.empty (join '' '' [''make'', ''-j4'', ''test'']) demo_profile
     = Inr (Ok [[''make'', ''-j4'', ''test'']])"
proof (rule plain_command_vetted [OF _ refl])
  show "depth Map.empty = Inr 0" by (simp add: depth_def)
qed code_simp+

section \<open>The environment of a child\<close>

lemma upper_recursion: "upper RECURSION_ENV \<in> PROTECTED_ENV_VARS"
  by code_simp

lemma put_extra_Inr:
  "put_extra extra env = Inr env' \<Longrightarrow>
     (\<forall>(k, v) \<in> set extra. upper k \<notin> PROTECTED_ENV_VARS)
     \<and> (\<forall>k. env' k = (case map_of (rev extra) k of Some v \<Rightarrow> Some v | None \<Rightarrow> env k))"
proof (induction extra arbitrary: env)
  case (Cons kv rest)
  obtain k v where kv: "kv = (k, v)" by (cases kv)
  with Cons.prems have k: "upper k \<notin> PROTECTED_ENV_VARS"
    and rest: "put_extra rest (env(k \<mapsto> v)) = Inr env'"
    by (simp_all split: if_splits)
  from Cons.IH [OF rest] k kv show ?case
    by (auto simp: map_add_def split: option.splits)
qed simp

lemma put_extra_Inl: "put_extra extra env = Inl e \<Longrightarrow> \<exists>k v. (k, v) \<in> set extra \<and> upper k \<in> PROTECTED_ENV_VARS"
  by (induction extra env rule: put_extra.induct) (auto split: if_splits)

definition kept :: "profile \<Rightarrow> string \<Rightarrow> bool" where
  "kept p k \<longleftrightarrow> k \<in> set BASE_KEEP_ENV \<or> k \<in> set (keep_env p)"

lemma scrubbed_env_Inr:
  assumes "scrubbed_env os p extra = Inr env"
  obtains d where "depth os = Inr d"
    and "\<forall>(k, v) \<in> set extra. upper k \<notin> PROTECTED_ENV_VARS"
    and "\<forall>k. env k = (case map_of (rev extra) k of Some v \<Rightarrow> Some v
        | None \<Rightarrow> if k = RECURSION_ENV then Some (show_int (d + 1)) else if kept p k then os k else None)"
proof -
  from assms obtain d where d: "depth os = Inr d"
    and "put_extra extra ((\<lambda>k. if k \<in> set (BASE_KEEP_ENV @ keep_env p) then os k else None)
       (RECURSION_ENV \<mapsto> show_int (d + 1))) = Inr env"
    by (auto simp: scrubbed_env_def)
  from put_extra_Inr [OF this(2)] show thesis
    by (intro that [OF d]) (auto simp: kept_def fun_upd_def split: option.splits)
qed

text \<open>
  What a child sees. Every variable of its environment is the recursion counter, or an extra
  variable of the caller whose name is not protected, or a kept variable with the value it has
  here; a protected variable is never one of the extra ones, so it comes unchanged or not at all.
\<close>

theorem child_environment:
  assumes "scrubbed_env os p extra = Inr env" and "env k = Some v"
  shows "if k = RECURSION_ENV then (\<exists>d. depth os = Inr d \<and> v = show_int (d + 1))
    else if upper k \<in> PROTECTED_ENV_VARS then kept p k \<and> os k = Some v
    else (k, v) \<in> set extra \<or> kept p k \<and> os k = Some v"
proof -
  obtain d where d: "depth os = Inr d" and ex: "\<forall>(k, v) \<in> set extra. upper k \<notin> PROTECTED_ENV_VARS"
    and env: "\<forall>k. env k = (case map_of (rev extra) k of Some v \<Rightarrow> Some v
        | None \<Rightarrow> if k = RECURSION_ENV then Some (show_int (d + 1)) else if kept p k then os k else None)"
    using assms(1) by (rule scrubbed_env_Inr)
  show ?thesis
  proof (cases "map_of (rev extra) k")
    case None
    with env assms(2) d show ?thesis by (auto split: if_splits)
  next
    case (Some v')
    then have "(k, v') \<in> set extra" by (auto dest: map_of_SomeD)
    moreover from this ex upper_recursion have "upper k \<notin> PROTECTED_ENV_VARS" "k \<noteq> RECURSION_ENV"
      by auto
    ultimately show ?thesis using env assms(2) Some by simp
  qed
qed

theorem child_environment_witness:
  "if ''PATH'' = RECURSION_ENV then (\<exists>d. depth [''PATH'' \<mapsto> ''/bin''] = Inr d \<and> ''/bin'' = show_int (d + 1))
    else if upper ''PATH'' \<in> PROTECTED_ENV_VARS
      then kept demo_profile ''PATH'' \<and> [''PATH'' \<mapsto> ''/bin''] ''PATH'' = Some ''/bin''
    else (''PATH'', ''/bin'') \<in> set [(''CI'', ''1'')]
      \<or> kept demo_profile ''PATH'' \<and> [''PATH'' \<mapsto> ''/bin''] ''PATH'' = Some ''/bin''"
proof (rule child_environment)
  let ?env = "(\<lambda>k. if k \<in> set (BASE_KEEP_ENV @ keep_env demo_profile) then [''PATH'' \<mapsto> ''/bin''] k
      else None)(RECURSION_ENV \<mapsto> show_int 1, ''CI'' \<mapsto> ''1'')"
  have "upper ''CI'' \<notin> PROTECTED_ENV_VARS" by code_simp
  then show "scrubbed_env [''PATH'' \<mapsto> ''/bin''] demo_profile [(''CI'', ''1'')] = Inr ?env"
    by (simp add: scrubbed_env_def depth_def RECURSION_ENV_def)
  show "?env ''PATH'' = Some ''/bin''" by (simp add: BASE_KEEP_ENV_def RECURSION_ENV_def)
qed

section \<open>Runs\<close>

lemma scrub_depth:
  assumes "scrubbed_env os p extra = Inr env"
  obtains d where "depth os = Inr d" "env RECURSION_ENV = Some (show_int (d + 1))"
proof -
  obtain d where d: "depth os = Inr d" and ex: "\<forall>(k, v) \<in> set extra. upper k \<notin> PROTECTED_ENV_VARS"
    and env: "\<forall>k. env k = (case map_of (rev extra) k of Some v \<Rightarrow> Some v
        | None \<Rightarrow> if k = RECURSION_ENV then Some (show_int (d + 1)) else if kept p k then os k else None)"
    using assms by (rule scrubbed_env_Inr)
  have "map_of (rev extra) RECURSION_ENV = None"
    using ex upper_recursion by (auto simp: map_of_eq_None_iff)
  with env d show thesis by (intro that) simp_all
qed

lemma run_segments_spawns:
  "Spawn argv env \<in> set (fst (run_segments w os segs p timeout extra)) \<Longrightarrow>
     argv \<in> set segs \<and> scrubbed_env os p extra = Inr env"
  by (auto simp: run_segments_def split: sum.splits list.splits)

lemma vet_cmd_segments:
  "vet_cmd os cmd p = Inr (Ok segs) \<Longrightarrow> list_all (vetted os p) segs"
proof (cases cmd)
  case (Argv argv)
  moreover assume "vet_cmd os cmd p = Inr (Ok segs)"
  ultimately obtain v where "validate_argv os argv p = Inr v"
    "(case v of Ok _ \<Rightarrow> Inr (Ok [argv]) | Blocked r \<Rightarrow> Inr (Blocked r)) = (Inr (Ok segs) :: exn + verdict)"
    by (auto simp: vet_cmd_def)
  then show ?thesis by (cases v) (auto simp: vetted_def)
next
  case (Text s)
  moreover assume "vet_cmd os cmd p = Inr (Ok segs)"
  ultimately show ?thesis by (auto simp: vet_cmd_def vet_string_Ok)
qed

definition no_bypass :: "environ \<Rightarrow> bool \<Rightarrow> bool" where
  "no_bypass os honor \<longleftrightarrow> \<not> honor \<or> strip (or_str (os ''SAFE_EXEC_DISABLED'') []) = []"

lemma run_cmd_unbypassed:
  "no_bypass os honor \<Longrightarrow> run_cmd w os pm cache cmd name timeout extra honor =
     (case get_profile name pm cache of
        Inl e \<Rightarrow> ([], Inl e)
      | Inr p \<Rightarrow> (case vet_cmd os cmd p of
          Inl e \<Rightarrow> ([], Inl e)
        | Inr (Blocked r) \<Rightarrow> ([], Inr (Refused r))
        | Inr (Ok segs) \<Rightarrow> run_segments w os segs p timeout extra))"
  by (auto simp: run_cmd_def no_bypass_def Let_def split: sum.splits)

lemma run_cmd_spawns:
  assumes "no_bypass os honor"
    and "Spawn argv env \<in> set (fst (run_cmd w os pm cache cmd name timeout extra honor))"
  obtains p where "get_profile name pm cache = Inr p" "vetted os p argv"
    "scrubbed_env os p extra = Inr env"
  using assms(2) unfolding run_cmd_unbypassed [OF assms(1)]
  by (auto split: sum.splits verdict.splits dest!: run_segments_spawns vet_cmd_segments
      simp: list_all_iff intro: that)

text \<open>
  C27. Whatever a run starts has been vetted: without the bypass, every process a run starts, from
  an argv or a string, alone or in a pipeline, is an argv that validation accepts under the named
  profile, started with the scrubbed environment; and what validation refuses starts nothing.
\<close>

theorem run_starts_only_vetted:
  assumes "no_bypass os honor"
    and "Spawn argv env \<in> set (fst (run_cmd w os pm cache cmd name timeout extra honor))"
  shows "\<exists>p. get_profile name pm cache = Inr p \<and> (\<exists>ok. validate_argv os argv p = Inr (Ok ok))
     \<and> scrubbed_env os p extra = Inr env"
  using assms by (elim run_cmd_spawns) (auto simp: vetted_def)

definition quiet_procs :: procs where
  "quiet_procs = \<lparr>run_one = (\<lambda>argv env. Exited 0 [] []),
     run_pipe = (\<lambda>segs env. Pipe_exited [Some 0] 0 [] [])\<rparr>"

definition demo_child :: environ where
  "demo_child = (\<lambda>k. if k \<in> set (BASE_KEEP_ENV @ keep_env demo_profile) then None else None)
     (RECURSION_ENV \<mapsto> show_int 1)"

lemma demo_run:
  "run_cmd quiet_procs Map.empty (Some [(''build'', demo_profile)]) None (Argv [''make'']) ''build'' 60
     [] False = ([Spawn [''make''] demo_child], Inr (Result 0 [] []))"
proof -
  have vet: "vet_cmd Map.empty (Argv [''make'']) demo_profile = Inr (Ok [[''make'']])" by code_simp
  have get: "get_profile ''build'' (Some [(''build'', demo_profile)]) None = Inr demo_profile"
    by (simp add: get_profile_def profiles_def)
  have env: "scrubbed_env Map.empty demo_profile [] = Inr demo_child"
    by (simp add: scrubbed_env_def depth_def demo_child_def)
  have "no_bypass Map.empty False" by (simp add: no_bypass_def)
  then show ?thesis
    by (simp add: run_cmd_unbypassed get vet run_segments_def env quiet_procs_def)
qed

theorem run_starts_only_vetted_witness:
  "\<exists>p. get_profile ''build'' (Some [(''build'', demo_profile)]) None = Inr p
     \<and> (\<exists>ok. validate_argv Map.empty [''make''] p = Inr (Ok ok))
     \<and> scrubbed_env Map.empty p [] = Inr demo_child"
  by (rule run_starts_only_vetted [of _ False _ _ quiet_procs _ _ "Argv [''make'']" _ 60])
    (simp_all add: no_bypass_def demo_run)

section \<open>Nested runs\<close>

lemma digit_no_space: "is_digit c \<Longrightarrow> \<not> is_space c"
  by (auto simp: is_digit_def is_space_def code_in_def)

lemma strip_digits: "list_all is_digit s \<Longrightarrow> strip s = s"
proof (rule strip_id)
  assume "list_all is_digit s"
  then show "s = [] \<or> \<not> is_space (hd s) \<and> \<not> is_space (last s)"
    by (cases s) (auto simp: list_all_iff digit_no_space)
qed

lemma digit_not: "is_digit c \<Longrightarrow> c \<noteq> CHR ''-'' \<and> c \<noteq> CHR ''+'' \<and> c \<noteq> CHR ''_''"
  by (auto simp: is_digit_def code_in_def)

lemma show_nat_all_digits: "list_all is_digit (show_nat n)"
  using show_nat_digits by (auto simp: list_all_iff)

lemma split_digits: "list_all is_digit s \<Longrightarrow> split_on CHR ''_'' s = [s]"
  by (rule split_on_id) (auto simp: list_all_iff dest: digit_not)

text \<open>A written counter reads back as itself, below zero too.\<close>

lemma py_int_show_int: "py_int (show_int i) = Some i"
proof (cases "i < 0")
  case True
  let ?d = "show_nat (nat (- i))"
  have d: "list_all is_digit ?d" by (rule show_nat_all_digits)
  have "strip (CHR ''-'' # ?d) = CHR ''-'' # ?d"
  proof (rule strip_id)
    have "is_digit (last ?d)" using d by (simp add: list_all_iff)
    then show "CHR ''-'' # ?d = [] \<or> \<not> is_space (hd (CHR ''-'' # ?d)) \<and> \<not> is_space (last (CHR ''-'' # ?d))"
      using digit_no_space by (simp add: is_space_def code_in_def)
  qed
  then show ?thesis using True d
    by (simp add: py_int_def show_int_def Let_def split_digits)
next
  case False
  let ?d = "show_nat (nat i)"
  have d: "list_all is_digit ?d" by (rule show_nat_all_digits)
  then obtain c cs where c: "?d = c # cs" "is_digit c" by (cases ?d) auto
  then have "take 1 ?d \<noteq> ''-''" "take 1 ?d \<noteq> ''+''" using digit_not by auto
  then show ?thesis using False d
    by (simp add: py_int_def show_int_def Let_def split_digits strip_digits)
qed

text \<open>A process that a run started runs again, and so on: \<open>n\<close> runs lie between two environments.\<close>

inductive nested_runs :: "environ \<Rightarrow> nat \<Rightarrow> environ \<Rightarrow> bool" for os where
  here: "nested_runs os 0 os"
| deeper: "nested_runs os n env \<Longrightarrow> no_bypass env honor \<Longrightarrow>
    Spawn argv env' \<in> set (fst (run_cmd w env pm cache cmd name timeout extra honor)) \<Longrightarrow>
    nested_runs os (Suc n) env'"

inductive_cases nested_runs_SucE: "nested_runs os (Suc n) env"

lemma run_cmd_depth:
  assumes "no_bypass os honor"
    and "Spawn argv env \<in> set (fst (run_cmd w os pm cache cmd name timeout extra honor))"
  obtains d where "depth os = Inr d" "d < MAX_RECURSION" "depth env = Inr (d + 1)"
proof -
  from assms obtain p where p: "vetted os p argv" and env: "scrubbed_env os p extra = Inr env"
    by (rule run_cmd_spawns)
  from env obtain d where d: "depth os = Inr d" "env RECURSION_ENV = Some (show_int (d + 1))"
    by (rule scrub_depth)
  with p have "d < MAX_RECURSION" by (auto simp: vetted_iff)
  moreover have "depth env = Inr (d + 1)" using d(2) by (simp add: depth_def py_int_show_int)
  ultimately show thesis using d(1) by (intro that)
qed

text \<open>
  Runs nest at most three deep: from an environment whose counter is absent or not negative,
  the number of unbypassed runs nested in one another is at most \<open>MAX_RECURSION\<close>, and the counter
  of the innermost child is the first one plus that number.
\<close>

theorem nesting_bounded:
  assumes "nested_runs os n env" and "depth os = Inr d" and "0 \<le> d"
  shows "depth env = Inr (d + int n) \<and> int n \<le> MAX_RECURSION"
proof -
  have "depth env = Inr (d + int n) \<and> (n = 0 \<or> d + int n \<le> MAX_RECURSION)"
    using assms(1)
  proof induction
    case here
    show ?case using assms(2) by simp
  next
    case (deeper n env honor argv env' w pm cache cmd name timeout extra)
    from deeper.hyps(2,3) obtain d' where "depth env = Inr d'" "d' < MAX_RECURSION" "depth env' = Inr (d' + 1)"
      by (rule run_cmd_depth)
    with deeper.IH show ?case by auto
  qed
  then show ?thesis using assms(3) by (auto simp: MAX_RECURSION_def)
qed

theorem nesting_bounded_witness:
  "depth demo_child = Inr (0 + int 1) \<and> int 1 \<le> MAX_RECURSION"
proof (rule nesting_bounded)
  show "nested_runs Map.empty 1 demo_child"
    using deeper [OF here, of _ False "[''make'']" demo_child quiet_procs
        "Some [(''build'', demo_profile)]" None "Argv [''make'']" "''build''" 60 "[]"]
    by (simp add: no_bypass_def demo_run)
  show "depth Map.empty = Inr 0" by (simp add: depth_def)
qed simp

text \<open>
  In warn mode the command line starts a refused command all the same, hard-denied binaries
  included.
\<close>

lemma warn_mode_runs_hard_denied:
  "\<exists>env. Spawn [''sudo'', ''id''] env \<in> set (fst (execute_command quiet_procs [''SAFE_EXEC_MODE'' \<mapsto> ''warn'']
     None ''validation-step'' (Argv [''sudo'', ''id'']) 60))"
proof -
  have vet: "vet_cmd [''SAFE_EXEC_MODE'' \<mapsto> ''warn''] (Argv [''sudo'', ''id'']) (snd (hd FALLBACK_PROFILES))
      = Inr (Blocked (Hard_denied ''sudo''))" by code_simp
  have get: "get_profile ''validation-step'' None None = Inr (snd (hd FALLBACK_PROFILES))"
    by (simp add: get_profile_def profiles_def FALLBACK_PROFILES_def)
  have "mode [''SAFE_EXEC_MODE'' \<mapsto> ''warn''] = ''warn''" by code_simp
  then show ?thesis
    by (simp add: execute_command_def get vet run_segments_def scrubbed_env_def depth_def
        RECURSION_ENV_def)
qed

end
