(* ===== verification/Finding_Identity.thy ===== *)
theory Finding_Identity
  imports Py_Regex Complex_Main
begin

text \<open>
  \<open>_util/finding_identity.py\<close>: stamping findings with fingerprints, moving no identity that exists,
  and correlating the findings of two audits. The recipe itself (\<open>fingerprint\<close>, \<open>canon_path\<close>,
  \<open>primary_cwe\<close>, \<open>attribute\<close>) lives in another package and is the record \<open>recipe\<close> of functions; what
  is used of it is only that a fingerprint does not read the stamp it is stored in. Similarities
  are exact ratios; their rounding to three digits when stored is left out.
\<close>

section \<open>Reports\<close>

record finding =
  f_id :: string
  f_title :: "string option"
  f_category :: "string option"
  f_paths :: "string option list"
  f_cwes :: "string list"
  f_stamp :: "string option"
  f_algo :: "string option"

record report =
  r_repository :: "string option"
  r_profile :: "string option"
  r_commit :: "string option"
  r_findings :: "finding list"

record recipe =
  fingerprint :: "finding \<Rightarrow> string option \<Rightarrow> string"
  canon_path :: "string \<Rightarrow> string"
  primary_cwe :: "finding \<Rightarrow> string"
  attribute :: "finding \<Rightarrow> string \<Rightarrow> string option list \<Rightarrow> string option"
  algo_version :: string

definition reads_no_stamp :: "recipe \<Rightarrow> bool" where
  "reads_no_stamp R \<longleftrightarrow>
     (\<forall>f s a repo. fingerprint R (f\<lparr>f_stamp := s, f_algo := a\<rparr>) repo = fingerprint R f repo)"

section \<open>Regular expressions\<close>

definition RPM_CATEGORY_RX :: rx where
  "RPM_CATEGORY_RX = seq [At Bos, lit ''RPM'',
     Grp 1 (Alt (Cat (lit ''0'') (Cls (code_in 49 57))) (lit ''10'')), At Word_boundary]"

definition canonical_parts :: "rx list" where
  "canonical_parts = [At Bos, Cls is_upper,
     star (Cls (\<lambda>c. is_upper c \<or> is_digit c \<or> c = CHR ''_'')), lit ''-'',
     Rep 7 (Some 12) True (Cls (\<lambda>c. is_digit c \<or> code_in 97 102 c)), lit ''-'',
     Rep 3 (Some 3) True (Cls is_digit)]"

definition CANONICAL_FINDING_ID :: rx where
  "CANONICAL_FINDING_ID = seq (canonical_parts @ [At Eos])"

definition AUTOLINK_RX :: rx where
  "AUTOLINK_RX = seq [At Bos, lit ''<'', star (Cls is_space),
     Grp 1 (Rep 0 None False (Cls (\<lambda>_. True))), star (Cls is_space), lit ''>'', At Eos]"

definition BARE_HOST_REPO_RX :: rx where
  "BARE_HOST_REPO_RX = seq [At Bos, Cls (alnum_or []), star (Cls (alnum_or ''.-'')), lit ''.'',
     Rep 2 None True (Cls (\<lambda>c. is_lower c \<or> is_upper c)), lit ''/'',
     plus (Cls (\<lambda>c. c \<noteq> CHR ''/'' \<and> \<not> is_space c)), lit ''/'', plus (Cls (\<lambda>c. \<not> is_space c)), At Eos]"

definition COMMIT_RX :: rx where
  "COMMIT_RX = Rep 7 (Some 40) True (Cls (\<lambda>c. is_digit c \<or> code_in 97 102 c))"

text \<open>\<open>re.fullmatch\<close> with the class above: the greedy repetition reaches the end or there is no match.\<close>

definition full_commit :: "string \<Rightarrow> bool" where
  "full_commit s \<longleftrightarrow> (case re_match COMMIT_RX s of None \<Rightarrow> False | Some m \<Rightarrow> m_after m = [])"

definition normalize_repository :: "string option \<Rightarrow> string option" where
  "normalize_repository raw = (case raw of None \<Rightarrow> None | Some r \<Rightarrow>
     (let s = strip r;
          s = (case re_match AUTOLINK_RX s of
                 None \<Rightarrow> s | Some m \<Rightarrow> strip (or_str (m_group 1 m) []));
          s = (if \<not> occurs_in ''://'' s \<and> re_match BARE_HOST_REPO_RX s \<noteq> None
               then ''https://'' @ s else s)
      in if s = [] then raw else Some s))"

section \<open>Stamping\<close>

definition identity_moves :: "recipe \<Rightarrow> report \<Rightarrow> (string \<times> string \<times> string) list" where
  "identity_moves R rep =
     (let repo = normalize_repository (r_repository rep) in
      map (\<lambda>f. (f_id f, or_str (f_stamp f) [], fingerprint R f repo))
        (filter (\<lambda>f. truthy (f_stamp f) \<and> f_stamp f \<noteq> Some (fingerprint R f repo)) (r_findings rep)))"

definition stamp :: "recipe \<Rightarrow> string option \<Rightarrow> finding \<Rightarrow> finding" where
  "stamp R repo f = f\<lparr>f_stamp := Some (fingerprint R f repo), f_algo := Some (algo_version R)\<rparr>"

definition needs_stamp :: "recipe \<Rightarrow> string option \<Rightarrow> finding \<Rightarrow> bool" where
  "needs_stamp R repo f \<longleftrightarrow>
     f_stamp f \<noteq> Some (fingerprint R f repo) \<or> f_algo f \<noteq> Some (algo_version R)"

definition infer_profile :: "finding list \<Rightarrow> string" where
  "infer_profile fs =
     (if \<exists>f \<in> set fs. re_match RPM_CATEGORY_RX (or_str (f_category f) []) \<noteq> None
      then ''rpm'' else ''code'')"

text \<open>The left side of the result is \<open>IdentityMoved\<close> with its moves.\<close>

definition annotate_report :: "recipe \<Rightarrow> bool \<Rightarrow> report
    \<Rightarrow> (string \<times> string \<times> string) list + report \<times> nat" where
  "annotate_report R allow_identity_move rep =
     (if \<not> allow_identity_move \<and> identity_moves R rep \<noteq> [] then Inl (identity_moves R rep)
      else
        (let repo = normalize_repository (r_repository rep);
             c1 = (if repo \<noteq> r_repository rep then 1 else 0);
             c2 = length (filter (needs_stamp R repo) (r_findings rep));
             fs = map (\<lambda>f. if needs_stamp R repo f then stamp R repo f else f) (r_findings rep);
             c3 = (if r_profile rep = None then 1 else 0);
             prof = (case r_profile rep of Some p \<Rightarrow> Some p | None \<Rightarrow> Some (infer_profile fs))
         in Inr (rep\<lparr>r_repository := repo, r_findings := fs, r_profile := prof\<rparr>, c1 + c2 + c3)))"

definition stamp_missing :: "recipe \<Rightarrow> report \<Rightarrow> report \<times> nat" where
  "stamp_missing R rep =
     (let repo = normalize_repository (r_repository rep) in
      (rep\<lparr>r_findings := map (\<lambda>f. if truthy (f_stamp f) then f else stamp R repo f) (r_findings rep)\<rparr>,
       length (filter (\<lambda>f. \<not> truthy (f_stamp f)) (r_findings rep))))"

definition repo_candidates :: "report \<Rightarrow> string option list" where
  "repo_candidates rep =
     (let raw = r_repository rep; repaired = normalize_repository raw in
      if repaired \<noteq> raw then [repaired, raw] else [raw])"

definition attribute_finding :: "recipe \<Rightarrow> string option list \<Rightarrow> finding \<Rightarrow> finding" where
  "attribute_finding R cands f =
     (if \<not> truthy (f_stamp f) \<or> truthy (f_algo f) then f
      else (case attribute R f (or_str (f_stamp f) []) cands of
        None \<Rightarrow> f | Some v \<Rightarrow> f\<lparr>f_algo := Some v\<rparr>))"

section \<open>Runs over a tree of reports\<close>

text \<open>
  The readable reports under the root, in order, each with its path; the result is the exit code
  and what is written. The messages are left out.
\<close>

type_synonym tree = "(string \<times> report) list"

definition run_backfill :: "recipe \<Rightarrow> bool \<Rightarrow> bool \<Rightarrow> tree \<Rightarrow> int \<times> tree" where
  "run_backfill R dry_run allow_identity_move docs =
     (let blocked = filter (\<lambda>(path, d). \<not> allow_identity_move \<and> identity_moves R d \<noteq> []) docs in
      if blocked \<noteq> [] then (1, [])
      else (0, concat (map (\<lambda>(path, d).
        (case annotate_report R True d of
           Inl _ \<Rightarrow> []
         | Inr (d', n) \<Rightarrow> if n \<noteq> 0 \<and> \<not> dry_run then [(path, d')] else [])) docs)))"

definition run_stamp_missing :: "recipe \<Rightarrow> bool \<Rightarrow> tree \<Rightarrow> int \<times> tree" where
  "run_stamp_missing R write docs =
     (let touched = filter (\<lambda>(path, d). snd (stamp_missing R d) \<noteq> 0) docs in
      if \<not> write then (0, [])
      else (0, map (\<lambda>(path, d). (path, fst (stamp_missing R d))) touched))"

definition run_attribute :: "recipe \<Rightarrow> bool \<Rightarrow> tree \<Rightarrow> int \<times> tree" where
  "run_attribute R write docs =
     (let step = (\<lambda>d. d\<lparr>r_findings := map (attribute_finding R (repo_candidates d)) (r_findings d)\<rparr>);
          to_write = filter (\<lambda>(path, d). step d \<noteq> d) docs in
      if \<not> write then (0, []) else (0, map (\<lambda>(path, d). (path, step d)) to_write))"

section \<open>Titles\<close>

text \<open>
  \<open>difflib.SequenceMatcher(None, a, b).ratio()\<close>: the longest common block that avoids popular
  characters of a long \<open>b\<close>, grown over equal neighbours, then the same to its left and right. The
  first block in \<open>a\<close>, then in \<open>b\<close>, wins among the longest.
\<close>

fun common_run :: "char set \<Rightarrow> string \<Rightarrow> string \<Rightarrow> nat" where
  "common_run popular (x # xs) (y # ys) =
     (if x = y \<and> y \<notin> popular then Suc (common_run popular xs ys) else 0)"
| "common_run popular _ _ = 0"

definition longest_block :: "char set \<Rightarrow> string \<Rightarrow> string \<Rightarrow> nat \<times> nat \<times> nat" where
  "longest_block popular a b =
     max_by (\<lambda>(i, j, k). k) (0, 0, 0)
       (concat (map (\<lambda>i. map (\<lambda>j. (i, j, common_run popular (drop i a) (drop j b))) [0..<length b])
          [0..<length a]))"

definition grown_block :: "char set \<Rightarrow> string \<Rightarrow> string \<Rightarrow> nat \<times> nat \<times> nat" where
  "grown_block popular a b =
     (let (i, j, k) = longest_block popular a b;
          l = common_run {} (rev (take i a)) (rev (take j b));
          r = common_run {} (drop (i + k) a) (drop (j + k) b)
      in (i - l, j - l, l + k + r))"

function block_total :: "char set \<Rightarrow> string \<Rightarrow> string \<Rightarrow> nat" where
  "block_total popular a b =
     (case grown_block popular a b of
        (i, j, k) \<Rightarrow> if k = 0 \<or> a = [] then 0
          else block_total popular (take i a) (take j b) + k
            + block_total popular (drop (i + k) a) (drop (j + k) b))"
  by pat_completeness auto

lemma common_run_le: "common_run p xs ys \<le> length xs"
  by (induction p xs ys rule: common_run.induct) auto

lemma longest_block_in:
  "longest_block p a b = (i, j, k) \<Longrightarrow> i \<le> length a \<and> k \<le> length a - i"
proof -
  let ?bs = "concat (map (\<lambda>i. map (\<lambda>j. (i, j, common_run p (drop i a) (drop j b))) [0..<length b])
      [0..<length a])"
  assume "longest_block p a b = (i, j, k)"
  then have "(i, j, k) \<in> insert (0, 0, 0) (set ?bs)"
    using max_by_in [of "\<lambda>(i, j, k). k" "(0, 0, 0)" ?bs] by (simp add: longest_block_def)
  moreover have "common_run p (drop i a) (drop j b) \<le> length a - i"
    using common_run_le [of p "drop i a" "drop j b"] by simp
  ultimately show ?thesis by auto
qed

lemma grown_block_in:
  assumes "grown_block p a b = (i, j, k)"
  shows "i + k \<le> length a"
proof -
  obtain i0 j0 k0 where b: "longest_block p a b = (i0, j0, k0)" by (metis prod_cases3)
  from longest_block_in [OF this] have "i0 + k0 \<le> length a" by auto
  moreover have "common_run {} (rev (take i0 a)) (rev (take j0 b)) \<le> i0"
    using common_run_le [of "{}" "rev (take i0 a)" "rev (take j0 b)"] by simp
  moreover have "common_run {} (drop (i0 + k0) a) (drop (j0 + k0) b) \<le> length a - (i0 + k0)"
    using common_run_le [of "{}" "drop (i0 + k0) a"] by simp
  ultimately show ?thesis using assms by (auto simp: grown_block_def b Let_def)
qed

termination block_total
  by (relation "measure (\<lambda>(p, a, b). length a)") (auto dest!: grown_block_in [OF sym] simp: min_def)

declare block_total.simps [simp del]

definition popular_chars :: "string \<Rightarrow> char set" where
  "popular_chars b =
     (if length b \<ge> 200
      then set (filter (\<lambda>c. length (filter (\<lambda>x. x = c) b) > length b div 100 + 1) b) else {})"

definition sequence_ratio :: "string \<Rightarrow> string \<Rightarrow> rat" where
  "sequence_ratio a b =
     (if a = [] \<and> b = [] then 1
      else 2 * of_nat (block_total (popular_chars b) a b) / of_nat (length a + length b))"

text \<open>The parts of \<open>re.split("[^a-z0-9]+", s)\<close>, empty ones aside.\<close>

function alnum_words :: "string \<Rightarrow> string list" where
  "alnum_words s =
     (let s = dropWhile (\<lambda>c. \<not> (is_digit c \<or> is_lower c)) s in
      if s = [] then []
      else takeWhile (\<lambda>c. is_digit c \<or> is_lower c) s
        # alnum_words (dropWhile (\<lambda>c. is_digit c \<or> is_lower c) s))"
  by pat_completeness auto
termination
proof (relation "measure length")
  fix s x :: string
  let ?p = "\<lambda>c. is_digit c \<or> is_lower c"
  assume x: "x = dropWhile (\<lambda>c. \<not> ?p c) s" "x \<noteq> []"
  then have "?p (hd x)" using hd_dropWhile by blast
  with x(2) have "length (dropWhile ?p x) < length x"
    by (cases x) (auto simp: less_Suc_eq_le length_dropWhile_le)
  also have "\<dots> \<le> length s" using x(1) by (simp add: length_dropWhile_le)
  finally show "(dropWhile ?p x, s) \<in> measure length" by simp
qed simp

declare alnum_words.simps [simp del]

definition title_words :: "string \<Rightarrow> string set" where
  "title_words s = set (filter (\<lambda>t. length t > 2) (alnum_words s))"

definition jaccard :: "'a set \<Rightarrow> 'a set \<Rightarrow> rat" where
  "jaccard a b = (if a \<union> b = {} then 0 else of_nat (card (a \<inter> b)) / of_nat (card (a \<union> b)))"

definition title_sim :: "string option \<Rightarrow> string option \<Rightarrow> rat" where
  "title_sim a b =
     (let a = lower (or_str a []); b = lower (or_str b []) in
      max (sequence_ratio a b) (jaccard (title_words a) (title_words b)))"

section \<open>The match ladder\<close>

definition path_set :: "recipe \<Rightarrow> finding \<Rightarrow> string set" where
  "path_set R f = (\<lambda>p. canon_path R (or_str p [])) ` set (filter truthy (f_paths f))"

definition fp_of :: "recipe \<Rightarrow> string option \<Rightarrow> finding \<Rightarrow> string" where
  "fp_of R repo f = or_str (f_stamp f) (fingerprint R f repo)"

record mtch =
  m_new :: string
  m_by :: string
  m_sim :: "rat option"
  m_overlap :: "rat option"

text \<open>The dictionary \<open>mapped\<close> and the set \<open>taken_new\<close>, as a list in the order of the claims.\<close>

type_synonym mstate = "(string \<times> mtch) list \<times> string list"

definition claim :: "finding \<Rightarrow> finding \<Rightarrow> string \<Rightarrow> rat option \<Rightarrow> rat option \<Rightarrow> mstate \<Rightarrow> mstate" where
  "claim o1 n by sim ov st =
     (AList.update (f_id o1) \<lparr>m_new = f_id n, m_by = by, m_sim = sim, m_overlap = ov\<rparr> (fst st),
      snd st @ [f_id n])"

definition untaken :: "mstate \<Rightarrow> finding list \<Rightarrow> finding list" where
  "untaken st ns = filter (\<lambda>n. f_id n \<notin> set (snd st)) ns"

definition is_mapped :: "mstate \<Rightarrow> finding \<Rightarrow> bool" where
  "is_mapped st o1 \<longleftrightarrow> map_of (fst st) (f_id o1) \<noteq> None"

definition tier1 :: "recipe \<Rightarrow> string option \<Rightarrow> string option \<Rightarrow> finding list \<Rightarrow> finding \<Rightarrow> mstate \<Rightarrow> mstate" where
  "tier1 R old_repo new_repo news o1 st =
     (let new_by_fp = group_by (fp_of R new_repo) news;
          cands = untaken st (case map_of new_by_fp (fp_of R old_repo o1) of None \<Rightarrow> [] | Some ns \<Rightarrow> ns)
      in case cands of [n] \<Rightarrow> claim o1 n ''fingerprint'' None None st | _ \<Rightarrow> st)"

definition tier2 :: "recipe \<Rightarrow> finding list \<Rightarrow> finding \<Rightarrow> mstate \<Rightarrow> mstate" where
  "tier2 R news o1 st =
     (if is_mapped st o1 then st
      else (case filter (\<lambda>n. path_set R n = path_set R o1 \<and> path_set R o1 \<noteq> {}
              \<and> primary_cwe R n = primary_cwe R o1) (untaken st news) of
        [n] \<Rightarrow> claim o1 n ''path_cwe'' None None st | _ \<Rightarrow> st))"

definition tier2b :: "recipe \<Rightarrow> finding list \<Rightarrow> finding \<Rightarrow> mstate \<Rightarrow> mstate" where
  "tier2b R news o1 st =
     (if is_mapped st o1 \<or> path_set R o1 = {} then st
      else (case filter (\<lambda>(n, ov, sim). ov \<ge> 1 / 2)
          (map (\<lambda>n. (n, jaccard (path_set R o1) (path_set R n), title_sim (f_title o1) (f_title n)))
            (untaken st news)) of
        [] \<Rightarrow> st
      | s # ss \<Rightarrow> (case max_by (\<lambda>(n, ov, sim). (ov, sim)) s ss of
          (n, ov, sim) \<Rightarrow> claim o1 n ''path_set'' (Some sim) (Some ov) st)))"

definition tier3 :: "finding list \<Rightarrow> finding \<Rightarrow> mstate \<Rightarrow> mstate" where
  "tier3 news o1 st =
     (if is_mapped st o1 then st
      else (case map (\<lambda>n. (n, title_sim (f_title o1) (f_title n))) (untaken st news) of
        [] \<Rightarrow> st
      | s # ss \<Rightarrow> (case max_by snd s ss of
          (n, sim) \<Rightarrow> if sim \<ge> 3 / 5 then claim o1 n ''title'' (Some sim) None st else st)))"

record matching =
  mapped :: "(string \<times> mtch) list"
  unmatched_old :: "string list"
  unmatched_new :: "string list"

definition match_state :: "recipe \<Rightarrow> report \<Rightarrow> report \<Rightarrow> mstate" where
  "match_state R old new =
     (let os = r_findings old; ns = r_findings new;
          st = fold (tier1 R (r_repository old) (r_repository new) ns) os ([], []);
          st = fold (tier2 R ns) os st;
          st = fold (tier2b R ns) os st
      in fold (tier3 ns) os st)"

definition match_findings :: "recipe \<Rightarrow> report \<Rightarrow> report \<Rightarrow> matching" where
  "match_findings R old new =
     (let st = match_state R old new in
      \<lparr>mapped = fst st,
       unmatched_old = map f_id (filter (\<lambda>o1. \<not> is_mapped st o1) (r_findings old)),
       unmatched_new = map f_id (untaken st (r_findings new))\<rparr>)"

section \<open>What a tier may do\<close>

text \<open>Why a pair may be matched, by the name of the tier.\<close>

definition justified :: "recipe \<Rightarrow> string option \<Rightarrow> string option \<Rightarrow> finding \<Rightarrow> finding \<Rightarrow> mtch \<Rightarrow> bool" where
  "justified R orepo nrepo o1 n m \<longleftrightarrow>
     (m_by m = ''fingerprint'' \<and> fp_of R orepo o1 = fp_of R nrepo n)
     \<or> (m_by m = ''path_cwe'' \<and> path_set R n = path_set R o1 \<and> path_set R o1 \<noteq> {}
        \<and> primary_cwe R n = primary_cwe R o1)
     \<or> (m_by m = ''path_set'' \<and> jaccard (path_set R o1) (path_set R n) \<ge> 1 / 2)
     \<or> (m_by m = ''title'' \<and> title_sim (f_title o1) (f_title n) \<ge> 3 / 5)"

definition matched_ok :: "finding list \<Rightarrow> finding list \<Rightarrow> (finding \<Rightarrow> finding \<Rightarrow> mtch \<Rightarrow> bool)
    \<Rightarrow> mstate \<Rightarrow> bool" where
  "matched_ok olds news just st \<longleftrightarrow>
     distinct (map fst (fst st)) \<and> distinct (snd st) \<and> map (\<lambda>x. m_new (snd x)) (fst st) = snd st
     \<and> (\<forall>(k, m) \<in> set (fst st). \<exists>o1 \<in> set olds. \<exists>n \<in> set news.
          f_id o1 = k \<and> f_id n = m_new m \<and> just o1 n m)"

locale matching_tier =
  fixes tier :: "finding \<Rightarrow> mstate \<Rightarrow> mstate"
    and news :: "finding list"
    and just :: "finding \<Rightarrow> finding \<Rightarrow> mtch \<Rightarrow> bool"
  assumes tier_claims: "\<not> is_mapped st o1 \<Longrightarrow> tier o1 st = st \<or>
    (\<exists>n \<in> set news. \<exists>by sim ov. f_id n \<notin> set (snd st) \<and> tier o1 st = claim o1 n by sim ov st
       \<and> just o1 n \<lparr>m_new = f_id n, m_by = by, m_sim = sim, m_overlap = ov\<rparr>)"
begin

lemma update_new: "map_of al k = None \<Longrightarrow> AList.update k v al = al @ [(k, v)]"
  by (induction al) (auto split: if_splits)

lemma tier_ok:
  assumes "matched_ok olds news just st" and "o1 \<in> set olds" and "\<not> is_mapped st o1"
  shows "matched_ok olds news just (tier o1 st)"
  using tier_claims [OF assms(3)]
proof (elim disjE bexE exE conjE)
  fix n :: finding and "by" sim ov
  let ?m = "\<lparr>m_new = f_id n, m_by = by, m_sim = sim, m_overlap = ov\<rparr>"
  assume n: "n \<in> set news" "f_id n \<notin> set (snd st)" "just o1 n ?m"
    and t: "tier o1 st = claim o1 n by sim ov st"
  have fresh: "map_of (fst st) (f_id o1) = None" using assms(3) by (simp add: is_mapped_def)
  then have st': "tier o1 st = (fst st @ [(f_id o1, ?m)], snd st @ [f_id n])"
    by (simp add: t claim_def update_new)
  have "f_id o1 \<notin> set (map fst (fst st))" using fresh by (simp add: map_of_eq_None_iff)
  then show ?thesis
    using assms(1,2) n unfolding st' matched_ok_def by auto
qed (use assms(1) in simp)

lemma keys_after: "\<not> is_mapped st o1 \<Longrightarrow> f_id o2 \<noteq> f_id o1 \<Longrightarrow> is_mapped (tier o1 st) o2 = is_mapped st o2"
  using tier_claims [of st o1] by (auto simp: is_mapped_def claim_def update_conv')

lemma fold_fresh:
  "matched_ok olds news just st \<Longrightarrow> set os \<subseteq> set olds \<Longrightarrow> distinct (map f_id os)
     \<Longrightarrow> \<forall>o1 \<in> set os. \<not> is_mapped st o1 \<Longrightarrow> matched_ok olds news just (fold tier os st)"
proof (induction os arbitrary: st)
  case (Cons o1 os)
  then have o1: "\<not> is_mapped st o1" "o1 \<in> set olds" by simp_all
  have "\<forall>o2 \<in> set os. \<not> is_mapped (tier o1 st) o2"
  proof
    fix o2 assume "o2 \<in> set os"
    with Cons.prems(3) have "f_id o2 \<noteq> f_id o1" by (metis distinct.simps(2) image_eqI list.set_map list.simps(9))
    with Cons.prems(4) \<open>o2 \<in> set os\<close> show "\<not> is_mapped (tier o1 st) o2" by (simp add: keys_after [OF o1(1)])
  qed
  with Cons tier_ok [OF Cons.prems(1) o1(2,1)] show ?case by simp
qed simp

end

locale later_tier = matching_tier +
  assumes tier_skips: "is_mapped st o1 \<Longrightarrow> tier o1 st = st"
begin

lemma fold_any:
  "matched_ok olds news just st \<Longrightarrow> set os \<subseteq> set olds \<Longrightarrow> matched_ok olds news just (fold tier os st)"
proof (induction os arbitrary: st)
  case (Cons o1 os)
  then have "matched_ok olds news just (tier o1 st)"
    using tier_ok [of olds st o1] tier_skips [of st o1] by (cases "is_mapped st o1") auto
  with Cons show ?case by simp
qed simp

end

section \<open>The tiers keep the ladder's invariant\<close>

lemma one_elem: "(case xs of [n] \<Rightarrow> f n | _ \<Rightarrow> z) = (if \<exists>n. xs = [n] then f (hd xs) else z)"
  by (cases xs; cases "tl xs") auto

lemma claimI:
  "n \<in> set news \<Longrightarrow> f_id n \<notin> set (snd st) \<Longrightarrow> t = claim o1 n by sim ov st
     \<Longrightarrow> just o1 n \<lparr>m_new = f_id n, m_by = by, m_sim = sim, m_overlap = ov\<rparr>
     \<Longrightarrow> t = st \<or> (\<exists>n \<in> set news. \<exists>by sim ov. f_id n \<notin> set (snd st) \<and> t = claim o1 n by sim ov st
       \<and> just o1 n \<lparr>m_new = f_id n, m_by = by, m_sim = sim, m_overlap = ov\<rparr>)"
  by blast

lemma untaken_in: "n \<in> set (untaken st ns) \<longleftrightarrow> n \<in> set ns \<and> f_id n \<notin> set (snd st)"
  by (auto simp: untaken_def)

interpretation fingerprint_tier: matching_tier "tier1 R orepo nrepo news" news "justified R orepo nrepo"
  for R orepo nrepo news
proof
  fix st o1
  let ?c = "untaken st (case map_of (group_by (fp_of R nrepo) news) (fp_of R orepo o1) of
      None \<Rightarrow> [] | Some ns \<Rightarrow> ns)"
  show "tier1 R orepo nrepo news o1 st = st \<or>
    (\<exists>n \<in> set news. \<exists>by sim ov. f_id n \<notin> set (snd st) \<and> tier1 R orepo nrepo news o1 st = claim o1 n by sim ov st
       \<and> justified R orepo nrepo o1 n \<lparr>m_new = f_id n, m_by = by, m_sim = sim, m_overlap = ov\<rparr>)"
  proof (cases "\<exists>n. ?c = [n]")
    case True
    then obtain n where n: "?c = [n]" by blast
    then have "n \<in> set ?c" by simp
    then have "n \<in> set news" "fp_of R nrepo n = fp_of R orepo o1" "f_id n \<notin> set (snd st)"
      by (auto simp: untaken_in group_by_lookup split: if_splits)
    moreover have "tier1 R orepo nrepo news o1 st = claim o1 n ''fingerprint'' None None st"
      using n by (simp add: tier1_def Let_def)
    ultimately show ?thesis
        by - (rule claimI, assumption, assumption, assumption, simp add: justified_def)
  next
    case False
    then have "tier1 R orepo nrepo news o1 st = st" unfolding tier1_def Let_def one_elem by simp
    then show ?thesis ..
  qed
qed

interpretation path_cwe_tier: later_tier "tier2 R news" news "justified R orepo nrepo"
  for R orepo nrepo news
proof
  fix st o1
  let ?c = "filter (\<lambda>n. path_set R n = path_set R o1 \<and> path_set R o1 \<noteq> {}
      \<and> primary_cwe R n = primary_cwe R o1) (untaken st news)"
  show "is_mapped st o1 \<Longrightarrow> tier2 R news o1 st = st" by (simp add: tier2_def)
  assume o1: "\<not> is_mapped st o1"
  show "tier2 R news o1 st = st \<or>
    (\<exists>n \<in> set news. \<exists>by sim ov. f_id n \<notin> set (snd st) \<and> tier2 R news o1 st = claim o1 n by sim ov st
       \<and> justified R orepo nrepo o1 n \<lparr>m_new = f_id n, m_by = by, m_sim = sim, m_overlap = ov\<rparr>)"
  proof (cases "\<exists>n. ?c = [n]")
    case True
    then obtain n where n: "?c = [n]" by blast
    then have "n \<in> set ?c" by simp
    then have "n \<in> set news" "f_id n \<notin> set (snd st)" "path_set R n = path_set R o1"
      "path_set R o1 \<noteq> {}" "primary_cwe R n = primary_cwe R o1"
      by (auto simp: untaken_in)
    moreover have "tier2 R news o1 st = claim o1 n ''path_cwe'' None None st"
      using n o1 by (simp add: tier2_def)
    ultimately show ?thesis
        by - (rule claimI, assumption, assumption, assumption, simp add: justified_def)
  next
    case False
    then have "tier2 R news o1 st = st" unfolding tier2_def one_elem by simp
    then show ?thesis ..
  qed
qed

interpretation path_set_tier: later_tier "tier2b R news" news "justified R orepo nrepo"
  for R orepo nrepo news
proof
  fix st o1
  let ?c = "filter (\<lambda>(n, ov, sim). ov \<ge> 1 / 2)
    (map (\<lambda>n. (n, jaccard (path_set R o1) (path_set R n), title_sim (f_title o1) (f_title n)))
      (untaken st news))"
  show "is_mapped st o1 \<Longrightarrow> tier2b R news o1 st = st" by (simp add: tier2b_def)
  assume o1: "\<not> is_mapped st o1"
  show "tier2b R news o1 st = st \<or>
    (\<exists>n \<in> set news. \<exists>by sim ov. f_id n \<notin> set (snd st) \<and> tier2b R news o1 st = claim o1 n by sim ov st
       \<and> justified R orepo nrepo o1 n \<lparr>m_new = f_id n, m_by = by, m_sim = sim, m_overlap = ov\<rparr>)"
  proof (cases ?c)
    case Nil
    then have "tier2b R news o1 st = st" by (simp add: tier2b_def)
    then show ?thesis ..
  next
    case (Cons s ss)
    show ?thesis
    proof (cases "path_set R o1 = {}")
      case False
      obtain n ov sim where best: "max_by (\<lambda>(n, ov, sim). (ov, sim)) s ss = (n, ov, sim)"
        by (metis prod_cases3)
      then have "(n, ov, sim) \<in> set ?c"
        using max_by_in [of "\<lambda>(n, ov, sim). (ov, sim)" s ss] unfolding Cons by simp
      then have "n \<in> set news" "f_id n \<notin> set (snd st)" "jaccard (path_set R o1) (path_set R n) \<ge> 1 / 2"
        by (auto simp: untaken_in)
      moreover have "tier2b R news o1 st = claim o1 n ''path_set'' (Some sim) (Some ov) st"
        unfolding tier2b_def Cons using False o1 best by simp
      ultimately show ?thesis
        by - (rule claimI, assumption, assumption, assumption, simp add: justified_def)
    qed (simp add: tier2b_def)
  qed
qed

interpretation title_tier: later_tier "tier3 news" news "justified R orepo nrepo"
  for R orepo nrepo news
proof
  fix st and o1 :: finding
  let ?c = "map (\<lambda>n. (n, title_sim (f_title o1) (f_title n))) (untaken st news)"
  show "is_mapped st o1 \<Longrightarrow> tier3 news o1 st = st" by (simp add: tier3_def)
  assume o1: "\<not> is_mapped st o1"
  show "tier3 news o1 st = st \<or>
    (\<exists>n \<in> set news. \<exists>by sim ov. f_id n \<notin> set (snd st) \<and> tier3 news o1 st = claim o1 n by sim ov st
       \<and> justified R orepo nrepo o1 n \<lparr>m_new = f_id n, m_by = by, m_sim = sim, m_overlap = ov\<rparr>)"
  proof (cases ?c)
    case Nil
    then have "tier3 news o1 st = st" by (simp add: tier3_def)
    then show ?thesis ..
  next
    case (Cons s ss)
    obtain n sim where best: "max_by snd s ss = (n, sim)" by fastforce
    then have "(n, sim) \<in> set ?c"
      using max_by_in [of snd s ss] unfolding Cons by simp
    then have n: "n \<in> set news" "f_id n \<notin> set (snd st)" "sim = title_sim (f_title o1) (f_title n)"
      by (auto simp: untaken_in)
    have "tier3 news o1 st = (if sim \<ge> 3 / 5 then claim o1 n ''title'' (Some sim) None st else st)"
      unfolding tier3_def Cons using o1 best by simp
    with n show ?thesis by (cases "sim \<ge> 3 / 5") (auto intro!: claimI simp: justified_def)
  qed
qed

lemma match_state_ok:
  assumes "distinct (map f_id (r_findings old))"
  shows "matched_ok (r_findings old) (r_findings new)
    (justified R (r_repository old) (r_repository new)) (match_state R old new)"
  unfolding match_state_def Let_def
  by (intro title_tier.fold_any path_set_tier.fold_any path_cwe_tier.fold_any
      fingerprint_tier.fold_fresh assms subset_refl)
    (simp_all add: matched_ok_def is_mapped_def)

text \<open>
  The match ladder is a one-to-one correlation that loses nothing. No new finding is proposed
  for two old ones; every old id is mapped or listed as unmatched, never both; every new id is the
  target of a proposal or listed as unmatched, never both.
\<close>

theorem matching_partitions:
  assumes "distinct (map f_id (r_findings old))"
  shows "distinct (map (\<lambda>x. m_new (snd x)) (mapped (match_findings R old new)))
    \<and> fst ` set (mapped (match_findings R old new)) \<union> set (unmatched_old (match_findings R old new))
        = f_id ` set (r_findings old)
    \<and> fst ` set (mapped (match_findings R old new)) \<inter> set (unmatched_old (match_findings R old new)) = {}
    \<and> (\<lambda>x. m_new (snd x)) ` set (mapped (match_findings R old new))
        \<union> set (unmatched_new (match_findings R old new)) = f_id ` set (r_findings new)
    \<and> (\<lambda>x. m_new (snd x)) ` set (mapped (match_findings R old new))
        \<inter> set (unmatched_new (match_findings R old new)) = {}"
proof -
  let ?st = "match_state R old new"
  note ok = match_state_ok [OF assms, of new R, unfolded matched_ok_def]
  have taken: "(\<lambda>x. m_new (snd x)) ` set (fst ?st) = set (snd ?st)"
    using ok by (metis list.set_map)
  have olds: "fst ` set (fst ?st) \<subseteq> f_id ` set (r_findings old)" using ok by force
  have news: "set (snd ?st) \<subseteq> f_id ` set (r_findings new)" using ok taken by force
  have keys: "is_mapped ?st o1 \<longleftrightarrow> f_id o1 \<in> fst ` set (fst ?st)" for o1
    by (simp add: is_mapped_def map_of_eq_None_iff)
  have "set (map f_id (filter (\<lambda>o1. \<not> is_mapped ?st o1) (r_findings old)))
      = f_id ` set (r_findings old) - fst ` set (fst ?st)"
    unfolding keys by auto
  moreover have "set (map f_id (untaken ?st (r_findings new))) = f_id ` set (r_findings new) - set (snd ?st)"
    by (auto simp: untaken_def)
  moreover have "distinct (map (\<lambda>x. m_new (snd x)) (fst ?st))" using ok by simp
  ultimately show ?thesis
    using olds news unfolding match_findings_def Let_def matching.simps taken by blast
qed

text \<open>
  Every proposal has its tier's evidence: equal fingerprints for \<open>fingerprint\<close>, equal nonempty
  path sets and equal weakness for \<open>path_cwe\<close>, overlap of at least a half for \<open>path_set\<close>, title
  similarity of at least 0.6 for \<open>title\<close>, and there is no other tier.
\<close>

theorem matching_justified:
  assumes "distinct (map f_id (r_findings old))" and "(k, m) \<in> set (mapped (match_findings R old new))"
  shows "\<exists>o1 n. o1 \<in> set (r_findings old) \<and> n \<in> set (r_findings new) \<and> f_id o1 = k \<and> f_id n = m_new m
    \<and> (m_by m = ''fingerprint'' \<and> fp_of R (r_repository old) o1 = fp_of R (r_repository new) n
      \<or> m_by m = ''path_cwe'' \<and> path_set R n = path_set R o1 \<and> path_set R o1 \<noteq> {}
          \<and> primary_cwe R n = primary_cwe R o1
      \<or> m_by m = ''path_set'' \<and> jaccard (path_set R o1) (path_set R n) \<ge> 1 / 2
      \<or> m_by m = ''title'' \<and> title_sim (f_title o1) (f_title n) \<ge> 3 / 5)"
  using match_state_ok [OF assms(1), of new R] assms(2)
  by (fastforce simp: matched_ok_def match_findings_def Let_def justified_def)

section \<open>Rebaselining a layer\<close>

record alias_entry =
  a_match :: mtch
  a_mapped_at :: string
  a_from :: string
  a_confirmed :: bool
  a_rejected :: bool

datatype quote = Proposes string string string | No_match string

record review =
  q_at :: string
  q_source :: string
  q_quote :: quote
  q_ref :: string
  q_reason :: string
  q_status :: string

record layer =
  l_aliases :: "(string \<times> alias_entry) list"
  l_reviews :: "review list"
  l_claims :: "(string \<times> string) list"
  l_commit :: "string option"
  l_updated :: "string option"

text \<open>\<open>Path(name).stem\<close>\<close>

definition path_stem :: "string \<Rightarrow> string" where
  "path_stem s = (let k = length (takeWhile (\<lambda>c. c \<noteq> CHR ''.'') (rev s)) in
     if k = 0 \<or> length s \<le> Suc k then s else take (length s - Suc k) s)"

definition old_slug :: "string \<Rightarrow> string" where
  "old_slug name = (if endswith name ''-security-audit.json''
     then take (length name - length ''-security-audit.json'') name else path_stem name)"

definition alias_key :: "string \<Rightarrow> string \<Rightarrow> string" where
  "alias_key slug fid =
     (if re_match CANONICAL_FINDING_ID fid \<noteq> None then fid else slug @ '':'' @ fid)"

definition settled :: "layer \<Rightarrow> string \<Rightarrow> bool" where
  "settled L key = (case map_of (l_aliases L) key of
     None \<Rightarrow> False | Some a \<Rightarrow> a_confirmed a \<or> a_rejected a)"

record rebase =
  rb_now :: string
  rb_old :: string
  rb_new :: string
  rb_queue :: bool

definition propose :: "rebase \<Rightarrow> string \<times> mtch \<Rightarrow> layer \<Rightarrow> layer" where
  "propose B om L = (case om of (old_id, m) \<Rightarrow>
     (let auto_ok = (m_by m = ''fingerprint'');
          key = alias_key (old_slug (rb_old B)) old_id;
          entry = \<lparr>a_match = m, a_mapped_at = rb_now B, a_from = rb_old B, a_confirmed = auto_ok,
            a_rejected = False\<rparr>
      in if settled L key then L
         else L\<lparr>l_aliases := AList.update key entry (l_aliases L),
           l_reviews := l_reviews L @ (if \<not> auto_ok \<and> rb_queue B then
             [\<lparr>q_at = rb_now B, q_source = ''rebaseline:'' @ rb_new B,
               q_quote = Proposes old_id (m_new m) (m_by m), q_ref = m_new m,
               q_reason = ''rebaseline_mapping'', q_status = ''pending''\<rparr>] else [])\<rparr>))"

definition unmatched_review :: "rebase \<Rightarrow> string \<Rightarrow> review" where
  "unmatched_review B old_id =
     \<lparr>q_at = rb_now B, q_source = ''rebaseline:'' @ rb_new B, q_quote = No_match old_id,
      q_ref = old_id, q_reason = ''rebaseline_unmatched'', q_status = ''pending''\<rparr>"

definition id_part :: "string \<Rightarrow> string" where
  "id_part k = (case snd (cut CHR '':'' k) of None \<Rightarrow> k | Some r \<Rightarrow> r)"

definition covered :: "rebase \<Rightarrow> matching \<Rightarrow> layer \<Rightarrow> string set" where
  "covered B M L = fst ` set (mapped M)
     \<union> id_part ` fst ` set (filter (\<lambda>(k, a). a_from a = rb_old B) (l_aliases L))
     \<union> (if rb_queue B then set (unmatched_old M) else {})"

definition migrated_claims :: "rebase \<Rightarrow> matching \<Rightarrow> report \<Rightarrow> layer \<Rightarrow> string list" where
  "migrated_claims B M new L =
     filter (\<lambda>fid. fid \<notin> f_id ` set (r_findings new) \<and> fid \<in> covered B M L) (map fst (l_claims L))"

text \<open>The new layer; what is migrated and queued is read off it. Writing and signing are left out.\<close>

definition rebaseline :: "recipe \<Rightarrow> rebase \<Rightarrow> report \<Rightarrow> report \<Rightarrow> layer \<Rightarrow> layer \<times> matching \<times> string list" where
  "rebaseline R B old new L =
     (let M = match_findings R old new;
          L1 = fold (propose B) (mapped M) L;
          L2 = L1\<lparr>l_reviews := l_reviews L1
            @ (if rb_queue B then map (unmatched_review B) (unmatched_old M) else []),
            l_updated := Some (rb_now B)\<rparr>;
          gone = migrated_claims B M new L2;
          L3 = L2\<lparr>l_claims := filter (\<lambda>(k, v). k \<notin> set gone) (l_claims L2)\<rparr>;
          L4 = (if full_commit (or_str (r_commit new) [])
            then L3\<lparr>l_commit := Some (or_str (r_commit new) [])\<rparr> else L3)
      in (L4, M, gone))"

section \<open>What rebaselining keeps\<close>

lemma canonical_no_colon:
  assumes "re_match CANONICAL_FINDING_ID fid \<noteq> None"
  shows "CHR '':'' \<notin> set fid"
proof -
  obtain m where m: "re_match CANONICAL_FINDING_ID fid = Some m" using assms by blast
  have ok: "rx_ok CANONICAL_FINDING_ID" by (simp add: CANONICAL_FINDING_ID_def canonical_parts_def seq_def star_def)
  let ?P = "\<lambda>c. is_upper c \<or> is_digit c \<or> code_in 97 102 c \<or> c = CHR ''_'' \<or> c = CHR ''-''"
  have fid: "fid = m_text m @ m_after m" and mm: "matches CANONICAL_FINDING_ID [] (m_text m) (m_after m)"
    using re_match_SomeD [OF ok m] by auto
  have "rx_only ?P CANONICAL_FINDING_ID"
    by (simp add: CANONICAL_FINDING_ID_def canonical_parts_def seq_def star_def rx_only_lit)
  with mm have "list_all ?P (m_text m)" by (rule matches_only)
  moreover have "\<not> ?P CHR '':''" by (simp add: char_class_defs)
  ultimately have "CHR '':'' \<notin> set (m_text m)" by (auto simp: list_all_iff)
  moreover have "m_after m = [] \<or> m_after m = [CHR 0x0A]"
    using matches_seq_end [OF mm [unfolded CANONICAL_FINDING_ID_def]] by simp
  ultimately show ?thesis unfolding fid by auto
qed

lemma alias_key_inj: "alias_key slug a = alias_key slug b \<Longrightarrow> a = b"
proof -
  assume eq: "alias_key slug a = alias_key slug b"
  have "CHR '':'' \<in> set (slug @ '':'' @ x)" for x by simp
  with eq show ?thesis
    using canonical_no_colon [of a] canonical_no_colon [of b] by (auto simp: alias_key_def split: if_splits)
qed

lemma propose_aliases:
  "map_of (l_aliases (propose B (old_id, m) L)) k =
     (if k = alias_key (old_slug (rb_old B)) old_id \<and> \<not> settled L k
      then Some \<lparr>a_match = m, a_mapped_at = rb_now B, a_from = rb_old B,
        a_confirmed = (m_by m = ''fingerprint''), a_rejected = False\<rparr>
      else map_of (l_aliases L) k)"
  by (cases "settled L (alias_key (old_slug (rb_old B)) old_id)")
    (auto simp: propose_def Let_def update_conv')

lemma propose_keeps [simp]: "l_claims (propose B om L) = l_claims L"
  by (simp add: propose_def Let_def split: prod.split)

lemma fold_propose_claims [simp]: "l_claims (fold (propose B) ms L) = l_claims L"
  by (induction ms arbitrary: L) simp_all

lemma fold_propose_settled:
  "map_of (l_aliases L) k = Some a \<Longrightarrow> a_confirmed a \<or> a_rejected a \<Longrightarrow>
     map_of (l_aliases (fold (propose B) ms L)) k = Some a"
proof (induction ms arbitrary: L)
  case (Cons om ms)
  have "map_of (l_aliases (propose B om L)) k = Some a"
    using Cons.prems by (cases om) (simp add: propose_aliases settled_def)
  with Cons show ?case by simp
qed simp

lemma fold_propose_origin:
  "map_of (l_aliases (fold (propose B) ms L)) k = Some a \<Longrightarrow>
     map_of (l_aliases L) k = Some a \<or> (\<exists>(old_id, m) \<in> set ms. a_match a = m
       \<and> k = alias_key (old_slug (rb_old B)) old_id \<and> a_from a = rb_old B
       \<and> a_confirmed a = (m_by m = ''fingerprint''))"
proof (induction ms arbitrary: L)
  case (Cons om ms)
  obtain old_id m where om: "om = (old_id, m)" by (cases om)
  from Cons.IH [of "propose B om L"] Cons.prems consider
    "map_of (l_aliases (propose B om L)) k = Some a" |
    "\<exists>(old_id, m) \<in> set ms. a_match a = m \<and> k = alias_key (old_slug (rb_old B)) old_id
       \<and> a_from a = rb_old B \<and> a_confirmed a = (m_by m = ''fingerprint'')"
    by auto
  then show ?case
    by cases (auto simp: om propose_aliases split: if_splits)
qed simp

text \<open>A fingerprint match whose key is not settled becomes a confirmed alias.\<close>

lemma fold_propose_confirms:
  "(old_id, m) \<in> set ms \<Longrightarrow> distinct (map fst ms) \<Longrightarrow> m_by m = ''fingerprint'' \<Longrightarrow>
     \<not> settled L (alias_key (old_slug (rb_old B)) old_id) \<Longrightarrow>
     map_of (l_aliases (fold (propose B) ms L)) (alias_key (old_slug (rb_old B)) old_id)
       = Some \<lparr>a_match = m, a_mapped_at = rb_now B, a_from = rb_old B, a_confirmed = True,
           a_rejected = False\<rparr>"
proof (induction ms arbitrary: L)
  case (Cons om ms)
  let ?key = "alias_key (old_slug (rb_old B)) old_id"
  show ?case
  proof (cases "om = (old_id, m)")
    case True
    then have "map_of (l_aliases (propose B om L)) ?key = Some \<lparr>a_match = m, a_mapped_at = rb_now B,
        a_from = rb_old B, a_confirmed = True, a_rejected = False\<rparr>"
      using Cons.prems(3,4) by (simp add: propose_aliases)
    from fold_propose_settled [OF this] show ?thesis by simp
  next
    case False
    with Cons.prems(1) have in_ms: "(old_id, m) \<in> set ms" by simp
    then have "old_id \<in> fst ` set ms" by (metis fst_conv image_eqI)
    with Cons.prems(2) have "fst om \<noteq> old_id" by auto
    then have "?key \<noteq> alias_key (old_slug (rb_old B)) (fst om)"
      using alias_key_inj by metis
    then have "\<not> settled (propose B om L) ?key"
      using Cons.prems(4) by (cases om) (simp add: settled_def propose_aliases)
    with Cons.IH [OF in_ms] Cons.prems show ?thesis by simp
  qed
qed simp

lemma rebaseline_aliases:
  "l_aliases (fst (rebaseline R B old new L))
     = l_aliases (fold (propose B) (mapped (match_findings R old new)) L)"
  by (simp add: rebaseline_def Let_def)

text \<open>
  Humans decide. A mapping that is confirmed or rejected in the layer is kept as it is by every
  rebaseline, and an alias that comes out confirmed and was not there before has equal fingerprints
  on its two findings: no looser tier confirms itself.
\<close>

theorem only_fingerprints_confirm:
  assumes "distinct (map f_id (r_findings old))"
    and "map_of (l_aliases (fst (rebaseline R B old new L))) k = Some a" and "a_confirmed a"
  shows "map_of (l_aliases L) k = Some a
    \<or> (\<exists>o1 n. o1 \<in> set (r_findings old) \<and> n \<in> set (r_findings new)
        \<and> k = alias_key (old_slug (rb_old B)) (f_id o1) \<and> m_new (a_match a) = f_id n
        \<and> fp_of R (r_repository old) o1 = fp_of R (r_repository new) n)"
proof -
  from assms(2) have "map_of (l_aliases (fold (propose B) (mapped (match_findings R old new)) L)) k = Some a"
    by (simp add: rebaseline_aliases)
  from fold_propose_origin [OF this] show ?thesis
  proof
    assume "\<exists>(old_id, m) \<in> set (mapped (match_findings R old new)). a_match a = m
      \<and> k = alias_key (old_slug (rb_old B)) old_id \<and> a_from a = rb_old B
      \<and> a_confirmed a = (m_by m = ''fingerprint'')"
    then obtain old_id m where m: "(old_id, m) \<in> set (mapped (match_findings R old new))"
      and a: "a_match a = m" "k = alias_key (old_slug (rb_old B)) old_id" "m_by m = ''fingerprint''"
      using assms(3) by blast
    have "matched_ok (r_findings old) (r_findings new)
        (justified R (r_repository old) (r_repository new)) (match_state R old new)"
      using assms(1) by (rule match_state_ok)
    with m obtain o1 n where "o1 \<in> set (r_findings old)" "n \<in> set (r_findings new)" "f_id o1 = old_id"
      "f_id n = m_new m" "justified R (r_repository old) (r_repository new) o1 n m"
      by (fastforce simp: matched_ok_def match_findings_def Let_def)
    with a show ?thesis by (auto simp: justified_def)
  qed simp
qed

text \<open>
  A settled alias is immutable, whatever the two reports say.
\<close>

theorem settled_aliases_kept:
  assumes "map_of (l_aliases L) k = Some a" and "a_confirmed a \<or> a_rejected a"
  shows "map_of (l_aliases (fst (rebaseline R B old new L))) k = Some a"
  using assms by (simp add: rebaseline_aliases fold_propose_settled)

lemma rebaseline_claims:
  "l_claims (fst (rebaseline R B old new L)) = filter (\<lambda>(k, v). k \<notin> set (snd (snd (rebaseline R B old new L))))
     (l_claims L)"
  by (simp add: rebaseline_def Let_def)

lemma map_of_filter_keys: "P k \<Longrightarrow> map_of (filter (\<lambda>(k, v). P k) al) k = map_of al k"
  by (induction al) auto

lemma fold_propose_keys:
  "(old_id, m) \<in> set ms \<Longrightarrow>
     map_of (l_aliases (fold (propose B) ms L)) (alias_key (old_slug (rb_old B)) old_id) \<noteq> None"
proof (induction ms arbitrary: L)
  case (Cons om ms)
  have keep: "map_of (l_aliases L) k \<noteq> None \<Longrightarrow> map_of (l_aliases (fold (propose B) xs L)) k \<noteq> None"
    for k xs L
  proof (induction xs arbitrary: L)
    case (Cons x xs)
    have "map_of (l_aliases (propose B x L)) k \<noteq> None"
      using Cons.prems by (cases x) (auto simp: propose_aliases)
    with Cons.IH show ?case by simp
  qed simp
  show ?case
  proof (cases "om = (old_id, m)")
    case True
    let ?k = "alias_key (old_slug (rb_old B)) old_id"
    have "map_of (l_aliases (propose B om L)) ?k \<noteq> None"
      by (auto simp: True propose_aliases settled_def split: option.splits)
    then show ?thesis using keep by simp
  qed (use Cons in auto)
qed simp

text \<open>
  No pin of a finding's claims is dropped silently. A pin that rebaselining removes belongs to
  an id that the new report no longer has, and that id has an alias in the new layer, by its own
  key or from the old report, or a pending review about it that was queued now; every other pin
  keeps its hash.
\<close>

theorem dropped_pins_accounted:
  assumes "map_of (l_claims L) fid = Some h"
  shows "map_of (l_claims (fst (rebaseline R B old new L))) fid = Some h
    \<or> fid \<notin> f_id ` set (r_findings new)
      \<and> (map_of (l_aliases (fst (rebaseline R B old new L))) (alias_key (old_slug (rb_old B)) fid) \<noteq> None
        \<or> (\<exists>k a. (k, a) \<in> set (l_aliases (fst (rebaseline R B old new L)))
            \<and> a_from a = rb_old B \<and> id_part k = fid)
        \<or> unmatched_review B fid \<in> set (l_reviews (fst (rebaseline R B old new L))))"
proof (cases "fid \<in> set (snd (snd (rebaseline R B old new L)))")
  case False
  then have "map_of (filter (\<lambda>(k, v). k \<notin> set (snd (snd (rebaseline R B old new L)))) (l_claims L)) fid
      = map_of (l_claims L) fid"
    using map_of_filter_keys by fast
  with assms show ?thesis by (simp add: rebaseline_claims)
next
  case True
  let ?M = "match_findings R old new"
  let ?L2 = "fold (propose B) (mapped ?M) L"
  have gone: "fid \<notin> f_id ` set (r_findings new)" and cov: "fid \<in> fst ` set (mapped ?M)
      \<or> (\<exists>k a. (k, a) \<in> set (l_aliases ?L2) \<and> a_from a = rb_old B \<and> id_part k = fid)
      \<or> rb_queue B \<and> fid \<in> set (unmatched_old ?M)"
    using True by (force simp: rebaseline_def Let_def migrated_claims_def covered_def split: if_splits)+
  have queued: "rb_queue B \<and> fid \<in> set (unmatched_old ?M) \<Longrightarrow>
      unmatched_review B fid \<in> set (l_reviews (fst (rebaseline R B old new L)))"
    by (simp add: rebaseline_def Let_def)
  have keyed: "fid \<in> fst ` set (mapped ?M) \<Longrightarrow>
      map_of (l_aliases ?L2) (alias_key (old_slug (rb_old B)) fid) \<noteq> None"
    using fold_propose_keys by fastforce
  from cov show ?thesis using gone queued keyed unfolding rebaseline_aliases by blast
qed

section \<open>Stamping moves nothing it must not move\<close>

lemma moves_Nil:
  "identity_moves R rep = [] \<longleftrightarrow>
     (\<forall>f \<in> set (r_findings rep). truthy (f_stamp f) \<longrightarrow>
        f_stamp f = Some (fingerprint R f (normalize_repository (r_repository rep))))"
  by (auto simp: identity_moves_def Let_def filter_empty_conv)

lemma annotate_refuses:
  "annotate_report R allow rep = Inl ms \<longleftrightarrow> \<not> allow \<and> ms = identity_moves R rep \<and> ms \<noteq> []"
  by (auto simp: annotate_report_def Let_def)

lemma annotate_findings:
  "annotate_report R allow rep = Inr (rep', n) \<Longrightarrow>
     r_findings rep' = map (\<lambda>f. if needs_stamp R (normalize_repository (r_repository rep)) f
         then stamp R (normalize_repository (r_repository rep)) f else f) (r_findings rep)"
  by (auto simp: annotate_report_def Let_def split: if_splits)

definition keeps_stamps :: "report \<Rightarrow> report \<Rightarrow> bool" where
  "keeps_stamps rep rep' \<longleftrightarrow>
     list_all2 (\<lambda>f g. f_id g = f_id f \<and> (truthy (f_stamp f) \<longrightarrow> f_stamp g = f_stamp f))
       (r_findings rep) (r_findings rep')"

lemma annotate_keeps:
  assumes "annotate_report R allow rep = Inr (rep', n)" and "identity_moves R rep = []"
  shows "keeps_stamps rep rep'"
  using assms(2) unfolding keeps_stamps_def annotate_findings [OF assms(1)] moves_Nil
  by (auto simp: list_all2_map2 stamp_def intro!: list_all2_all_nthI)

lemma stamp_missing_keeps: "keeps_stamps rep (fst (stamp_missing R rep))"
  unfolding keeps_stamps_def stamp_missing_def Let_def
  by (auto simp: list_all2_map2 stamp_def intro!: list_all2_all_nthI)

lemma attribute_keeps: "f_stamp (attribute_finding R cs f) = f_stamp f" "f_id (attribute_finding R cs f) = f_id f"
  by (simp_all add: attribute_finding_def split: option.splits)

text \<open>
  C32. The bulk runs never move an identity. Whatever a backfill without permission, a stamping of
  the gaps or an attribution writes, every finding of the written report that had a fingerprint has
  the same one, under the same id and at the same place; and a backfill that would move a single
  identity in a single report writes nothing at all.
\<close>

theorem bulk_runs_keep_identities:
  assumes "(path, rep') \<in> set (snd (run_backfill R dry False docs))
      \<union> set (snd (run_stamp_missing R w docs)) \<union> set (snd (run_attribute R w docs))"
  shows "\<exists>rep. (path, rep) \<in> set docs \<and> keeps_stamps rep rep'
     \<and> ((path, rep') \<in> set (snd (run_backfill R dry False docs))
        \<longrightarrow> (\<forall>(q, d) \<in> set docs. identity_moves R d = []))"
proof -
  have bf: "\<exists>rep. (path, rep) \<in> set docs \<and> keeps_stamps rep rep'
      \<and> (\<forall>(q, d) \<in> set docs. identity_moves R d = [])"
    if "(path, rep') \<in> set (snd (run_backfill R dry False docs))"
  proof -
    from that have all: "\<forall>(q, d) \<in> set docs. identity_moves R d = []"
      by (auto simp: run_backfill_def Let_def filter_empty_conv split: if_splits)
    from that obtain d n where "(path, d) \<in> set docs" "annotate_report R True d = Inr (rep', n)"
      by (auto simp: run_backfill_def Let_def dest: sym split: if_splits sum.splits)
    moreover from this all have "identity_moves R d = []" by blast
    ultimately show ?thesis using all annotate_keeps by blast
  qed
  have sm: "\<exists>rep. (path, rep) \<in> set docs \<and> keeps_stamps rep rep'"
    if "(path, rep') \<in> set (snd (run_stamp_missing R w docs))"
    using that stamp_missing_keeps by (fastforce simp: run_stamp_missing_def Let_def split: if_splits)
  have at: "\<exists>rep. (path, rep) \<in> set docs \<and> keeps_stamps rep rep'"
    if "(path, rep') \<in> set (snd (run_attribute R w docs))"
    using that
    by (fastforce simp: run_attribute_def Let_def keeps_stamps_def list_all2_map2 attribute_keeps
        intro!: list_all2_all_nthI split: if_splits)
  show ?thesis using assms bf sm at by blast
qed

lemma restamped:
  "reads_no_stamp R \<Longrightarrow> \<not> needs_stamp R repo (stamp R repo f)"
  by (simp add: reads_no_stamp_def needs_stamp_def stamp_def)

text \<open>
  Annotating is idempotent up to the repair of the repository: where the repaired repository
  needs no second repair, a second run changes nothing, counts nothing, and has no identity to move.
\<close>

theorem annotate_idempotent:
  assumes "reads_no_stamp R"
    and "normalize_repository (normalize_repository (r_repository rep)) = normalize_repository (r_repository rep)"
    and "annotate_report R allow rep = Inr (rep', n)"
  shows "annotate_report R allow' rep' = Inr (rep', 0) \<and> identity_moves R rep' = []"
proof -
  let ?repo = "normalize_repository (r_repository rep)"
  from assms(3) have rep': "r_repository rep' = ?repo" "r_profile rep' \<noteq> None"
    "r_findings rep' = map (\<lambda>f. if needs_stamp R ?repo f then stamp R ?repo f else f) (r_findings rep)"
    by (auto simp: annotate_report_def Let_def split: if_splits option.splits)
  then have fresh: "\<forall>f \<in> set (r_findings rep'). \<not> needs_stamp R ?repo f"
    using restamped [OF assms(1)] by auto
  then have none: "identity_moves R rep' = []"
    unfolding moves_Nil using rep'(1) assms(2) by (auto simp: needs_stamp_def)
  have "map (\<lambda>f. if needs_stamp R ?repo f then stamp R ?repo f else f) (r_findings rep') = r_findings rep'"
    using fresh by (intro map_idI) auto
  moreover have "filter (needs_stamp R ?repo) (r_findings rep') = []"
    using fresh by (simp add: filter_empty_conv)
  moreover obtain p where "r_profile rep' = Some p" using rep'(2) by blast
  ultimately have "annotate_report R allow' rep' = Inr (rep', 0)"
    using none rep'(1) assms(2) by (simp add: annotate_report_def Let_def)
  then show ?thesis using none by blast
qed

section \<open>Instances\<close>

definition demo_recipe :: recipe where
  "demo_recipe = \<lparr>fingerprint = (\<lambda>f repo. concat (map (\<lambda>p. or_str p []) (f_paths f)) @ concat (f_cwes f)),
     canon_path = (\<lambda>p. p), primary_cwe = (\<lambda>f. concat (f_cwes f)),
     attribute = (\<lambda>f s cs. Some ''v3''), algo_version = ''v3''\<rparr>"

definition demo_f :: "string \<Rightarrow> string \<Rightarrow> finding" where
  "demo_f i path = \<lparr>f_id = i, f_title = Some ''t'', f_category = None, f_paths = [Some path],
     f_cwes = [''CWE-79''], f_stamp = None, f_algo = None\<rparr>"

definition demo_report :: "finding list \<Rightarrow> report" where
  "demo_report fs = \<lparr>r_repository = None, r_profile = None, r_commit = None, r_findings = fs\<rparr>"

lemma demo_f_simps [simp]: "f_id (demo_f i p) = i" "f_title (demo_f i p) = Some ''t''"
    "f_paths (demo_f i p) = [Some p]" "f_cwes (demo_f i p) = [''CWE-79'']" "f_stamp (demo_f i p) = None"
  by (simp_all add: demo_f_def)

lemma demo_report_simps [simp]: "r_findings (demo_report fs) = fs" "r_repository (demo_report fs) = None"
    "r_commit (demo_report fs) = None" "r_profile (demo_report fs) = None"
  by (simp_all add: demo_report_def)

definition demo_old :: report where
  "demo_old = demo_report [demo_f ''A'' ''a.py'']"

definition demo_new :: report where
  "demo_new = demo_report [demo_f ''B'' ''a.py'']"

lemma demo_reports [simp]: "r_findings demo_old = [demo_f ''A'' ''a.py'']" "r_repository demo_old = None"
    "r_findings demo_new = [demo_f ''B'' ''a.py'']" "r_repository demo_new = None" "r_commit demo_new = None"
  by (simp_all add: demo_old_def demo_new_def)

lemma reads_no_stamp_demo: "reads_no_stamp demo_recipe"
  by (simp add: reads_no_stamp_def demo_recipe_def)

theorem matching_partitions_witness:
  "distinct (map (\<lambda>x. m_new (snd x)) (mapped (match_findings demo_recipe
       demo_old demo_new)))
    \<and> fst ` set (mapped (match_findings demo_recipe
         demo_old demo_new))
      \<union> set (unmatched_old (match_findings demo_recipe
         demo_old demo_new))
      = {''A''}"
  using matching_partitions [of demo_old demo_recipe
      demo_new]
  by simp

definition demo_mtch :: "string \<Rightarrow> mtch" where
  "demo_mtch b = \<lparr>m_new = b, m_by = ''fingerprint'', m_sim = None, m_overlap = None\<rparr>"

lemma demo_mtch_simps [simp]: "m_new (demo_mtch b) = b" "m_by (demo_mtch b) = ''fingerprint''"
  by (simp_all add: demo_mtch_def)

lemma demo_match_ids:
  "match_findings demo_recipe (demo_report [demo_f a p]) (demo_report [demo_f b p])
     = \<lparr>mapped = [(a, demo_mtch b)], unmatched_old = [], unmatched_new = []\<rparr>"
proof -
  let ?o = "demo_f a p" and ?n = "demo_f b p"
  have fp: "fp_of demo_recipe None ?o = fp_of demo_recipe None ?n"
    by (simp add: fp_of_def demo_recipe_def)
  have "tier1 demo_recipe None None [?n] ?o ([], []) = ([(a, demo_mtch b)], [b])"
    by (simp add: tier1_def Let_def group_by_lookup fp untaken_def claim_def demo_mtch_def)
  then have "match_state demo_recipe (demo_report [?o]) (demo_report [?n]) = ([(a, demo_mtch b)], [b])"
    by (simp add: match_state_def Let_def tier2_def tier2b_def tier3_def is_mapped_def)
  then show ?thesis
    by (simp add: match_findings_def Let_def is_mapped_def untaken_def)
qed

lemma demo_match:
  "match_findings demo_recipe demo_old demo_new
     = \<lparr>mapped = [(''A'', \<lparr>m_new = ''B'', m_by = ''fingerprint'', m_sim = None, m_overlap = None\<rparr>)],
        unmatched_old = [], unmatched_new = []\<rparr>"
  using demo_match_ids [of "''A''" "''a.py''" "''B''"] by (simp add: demo_old_def demo_new_def demo_mtch_def)

theorem matching_justified_witness:
  "\<exists>o1 n. o1 \<in> set [demo_f ''A'' ''a.py''] \<and> n \<in> set [demo_f ''B'' ''a.py''] \<and> f_id o1 = ''A'' \<and> f_id n = ''B''"
  using matching_justified [of demo_old "''A''"
      "\<lparr>m_new = ''B'', m_by = ''fingerprint'', m_sim = None, m_overlap = None\<rparr>" demo_recipe
      demo_new]
  by (simp add: demo_match)

definition demo_rebase :: rebase where
  "demo_rebase = \<lparr>rb_now = ''2026'', rb_old = ''old-security-audit.json'',
     rb_new = ''new-security-audit.json'', rb_queue = True\<rparr>"

definition demo_layer :: layer where
  "demo_layer = \<lparr>l_aliases = [(''old:A'', \<lparr>a_match = \<lparr>m_new = ''Z'', m_by = ''title'', m_sim = None,
       m_overlap = None\<rparr>, a_mapped_at = ''2025'', a_from = ''old-security-audit.json'',
       a_confirmed = False, a_rejected = True\<rparr>)],
     l_reviews = [], l_claims = [(''A'', ''h'')], l_commit = None, l_updated = None\<rparr>"

definition empty_layer :: layer where
  "empty_layer = \<lparr>l_aliases = [], l_reviews = [], l_claims = [(''A'', ''h'')], l_commit = None,
     l_updated = None\<rparr>"

lemma demo_key: "alias_key (old_slug ''old-security-audit.json'') ''A'' = ''old:A''"
  by code_simp

lemma demo_rebased:
  "l_aliases (fst (rebaseline demo_recipe demo_rebase demo_old
      demo_new empty_layer))
     = [(''old:A'', \<lparr>a_match = \<lparr>m_new = ''B'', m_by = ''fingerprint'', m_sim = None, m_overlap = None\<rparr>,
        a_mapped_at = ''2026'', a_from = ''old-security-audit.json'', a_confirmed = True,
        a_rejected = False\<rparr>)]"
  by (simp add: rebaseline_aliases demo_match propose_def Let_def demo_rebase_def demo_key settled_def
      empty_layer_def)

theorem only_fingerprints_confirm_witness:
  "\<exists>o1 n. o1 \<in> set [demo_f ''A'' ''a.py''] \<and> n \<in> set [demo_f ''B'' ''a.py'']
     \<and> fp_of demo_recipe None o1 = fp_of demo_recipe None n"
  using only_fingerprints_confirm [of demo_old demo_recipe demo_rebase
      demo_new empty_layer "''old:A''"]
  by (simp add: demo_rebased) (auto simp: empty_layer_def)

theorem settled_aliases_kept_witness:
  "map_of (l_aliases (fst (rebaseline demo_recipe demo_rebase demo_old
      demo_new demo_layer))) ''old:A''
     = Some (snd (hd (l_aliases demo_layer)))"
  by (rule settled_aliases_kept) (simp_all add: demo_layer_def)

text \<open>
  A mapping that a human rejected still covers its old id: the pin goes, no alias to a successor
  is left, and no review is queued.
\<close>

lemma rejected_mapping_drops_pin:
  "l_claims (fst (rebaseline demo_recipe demo_rebase demo_old
      demo_new demo_layer)) = []
   \<and> l_reviews (fst (rebaseline demo_recipe demo_rebase demo_old
      demo_new demo_layer)) = []"
  by (simp add: rebaseline_def Let_def demo_match propose_def demo_rebase_def demo_key settled_def
      demo_layer_def migrated_claims_def covered_def)

theorem dropped_pins_accounted_witness:
  "map_of (l_claims (fst (rebaseline demo_recipe demo_rebase demo_old demo_new empty_layer))) ''A'' = Some ''h''
    \<or> ''A'' \<notin> f_id ` set (r_findings demo_new)
      \<and> (map_of (l_aliases (fst (rebaseline demo_recipe demo_rebase demo_old demo_new empty_layer)))
            (alias_key (old_slug (rb_old demo_rebase)) ''A'') \<noteq> None
        \<or> (\<exists>k a. (k, a) \<in> set (l_aliases (fst (rebaseline demo_recipe demo_rebase demo_old demo_new
              empty_layer))) \<and> a_from a = rb_old demo_rebase \<and> id_part k = ''A'')
        \<or> unmatched_review demo_rebase ''A''
            \<in> set (l_reviews (fst (rebaseline demo_recipe demo_rebase demo_old demo_new empty_layer))))"
  by (rule dropped_pins_accounted) (simp add: empty_layer_def)

lemma demo_stamped:
  "run_stamp_missing demo_recipe True [(''r.json'', demo_old)]
     = (0, [(''r.json'', fst (stamp_missing demo_recipe demo_old))])"
  by (simp add: run_stamp_missing_def stamp_missing_def Let_def)

theorem bulk_runs_keep_identities_witness:
  "\<exists>rep. (''r.json'', rep) \<in> set [(''r.json'', demo_old)]
     \<and> keeps_stamps rep (fst (stamp_missing demo_recipe demo_old))"
  using bulk_runs_keep_identities [of "''r.json''"
      "fst (stamp_missing demo_recipe demo_old)" demo_recipe True
      "[(''r.json'', demo_old)]" True]
  by (simp add: demo_stamped)

theorem annotate_idempotent_witness:
  "annotate_report demo_recipe False (fst (projr (annotate_report demo_recipe True (demo_report []))))
     = Inr (fst (projr (annotate_report demo_recipe True (demo_report []))), 0)"
proof -
  have "annotate_report demo_recipe True (demo_report [])
      = Inr (fst (projr (annotate_report demo_recipe True (demo_report []))),
          snd (projr (annotate_report demo_recipe True (demo_report []))))"
    by (simp add: annotate_report_def Let_def)
  from annotate_idempotent [OF reads_no_stamp_demo _ this] show ?thesis
    by (simp add: normalize_repository_def)
qed

end
