(* ===== verification/Disposition.thy ===== *)
theory Disposition
  imports Finding_Identity
begin

text \<open>
  \<open>corpus/disposition.py\<close>: the replay of a disposition layer over its audit report. Aliases are
  resolved at replay time, every event is attached to a finding, parked or an error, and the claims
  of the baseline are checked against their pins. The disposition of one finding from its events,
  the claim hash and the two enumerations of states come from other packages and are arguments.
  Titles, dates and the Markdown rendering are left out.
\<close>

section \<open>Data\<close>

record dfinding = finding +
  f_severity :: "string option"
  f_status :: "string option"

record ledger_event =
  e_id :: string
  e_ref :: string
  e_payload :: string

record dlayer = layer +
  l_events :: "ledger_event list"

record disposition =
  d_validity :: string
  d_resolution :: string
  d_conflict :: bool
  d_override :: "string option"

section \<open>Claim pins\<close>

datatype claim_error = Missing string | Edited string

datatype claim_warning = Corrected string | Unbaselined nat

text \<open>\<open>{f.get("id"): f for f in findings}\<close>: the last finding of an id counts.\<close>

definition by_id :: "dfinding list \<Rightarrow> string \<Rightarrow> dfinding option" where
  "by_id fs = map_of (rev (map (\<lambda>f. (f_id f, f)) fs))"

definition check_pin :: "(dfinding \<Rightarrow> string) \<Rightarrow> dfinding list \<Rightarrow> string \<times> string
    \<Rightarrow> (claim_error + claim_warning) option" where
  "check_pin claim_hash fs pin = (case pin of (fid, recorded) \<Rightarrow>
     (case by_id fs fid of
        None \<Rightarrow> Some (Inl (Missing fid))
      | Some f \<Rightarrow>
          if claim_hash f \<noteq> recorded then
            (if f_status f = Some ''corrected'' then Some (Inr (Corrected fid))
             else Some (Inl (Edited fid)))
          else None))"

definition lefts :: "('a + 'b) list \<Rightarrow> 'a list" where
  "lefts = List.map_filter (\<lambda>x. case x of Inl a \<Rightarrow> Some a | Inr _ \<Rightarrow> None)"

definition rights :: "('a + 'b) list \<Rightarrow> 'b list" where
  "rights = List.map_filter (\<lambda>x. case x of Inl _ \<Rightarrow> None | Inr b \<Rightarrow> Some b)"

definition verify_claim_hashes :: "(dfinding \<Rightarrow> string) \<Rightarrow> dfinding list \<Rightarrow> (string \<times> string) list
    \<Rightarrow> claim_error list \<times> claim_warning list" where
  "verify_claim_hashes claim_hash fs hashes =
     (if hashes = [] then ([], [])
      else
        (let verdicts = List.map_filter (check_pin claim_hash fs) (sort hashes);
             unbaselined = f_id ` set fs - fst ` set hashes in
         (lefts verdicts,
          rights verdicts @ (if unbaselined \<noteq> {} then [Unbaselined (card unbaselined)] else []))))"

section \<open>Aliases\<close>

type_synonym aliases = "(string \<times> alias_entry) list"

definition ns_aliases :: "aliases \<Rightarrow> (string \<times> (string \<times> alias_entry) list) list" where
  "ns_aliases raw = group_by (\<lambda>(k, a). id_part k) (filter (\<lambda>(k, a). CHR '':'' \<in> set k) raw)"

definition alias_for :: "aliases \<Rightarrow> string \<Rightarrow> alias_entry option" where
  "alias_for raw ref = (case map_of raw ref of
     Some a \<Rightarrow> Some a
   | None \<Rightarrow> (case map_of (ns_aliases raw) ref of Some [(k, a)] \<Rightarrow> Some a | _ \<Rightarrow> None))"

definition has_alias :: "aliases \<Rightarrow> string \<Rightarrow> bool" where
  "has_alias raw ref \<longleftrightarrow> map_of raw ref \<noteq> None \<or> map_of (ns_aliases raw) ref \<noteq> None"

text \<open>The next id of a reference, when its alias is confirmed.\<close>

definition next_ref :: "aliases \<Rightarrow> string \<Rightarrow> string option" where
  "next_ref raw ref = (case alias_for raw ref of
     None \<Rightarrow> None | Some a \<Rightarrow> if a_confirmed a then Some (m_new (a_match a)) else None)"

definition alias_names :: "aliases \<Rightarrow> string set" where
  "alias_names raw = fst ` set raw \<union> id_part ` fst ` set raw"

lemma next_ref_named: "next_ref raw ref = Some r \<Longrightarrow> ref \<in> alias_names raw"
proof -
  assume "next_ref raw ref = Some r"
  then have "map_of raw ref \<noteq> None \<or> map_of (ns_aliases raw) ref \<noteq> None"
    by (auto simp: next_ref_def alias_for_def split: option.splits)
  then show ?thesis
    by (auto simp: alias_names_def ns_aliases_def group_by_lookup dest: map_of_SomeD
        split: if_splits intro: rev_image_eqI)
qed

function resolve_from :: "aliases \<Rightarrow> string list \<Rightarrow> string \<Rightarrow> string" where
  "resolve_from raw seen ref =
     (case next_ref raw ref of
        None \<Rightarrow> ref
      | Some new_id \<Rightarrow> if ref \<in> set seen then ref else resolve_from raw (ref # seen) new_id)"
  by pat_completeness auto
termination
proof (relation "measure (\<lambda>(raw, seen, ref). card (alias_names raw - set seen))")
  fix raw seen ref new_id
  assume "next_ref raw ref = Some new_id" and "ref \<notin> set (seen :: string list)"
  then have "ref \<in> alias_names raw - set seen" using next_ref_named by blast
  moreover have "finite (alias_names raw - set seen)" by (simp add: alias_names_def)
  ultimately have "card (alias_names raw - set (ref # seen)) < card (alias_names raw - set seen)"
    by (intro psubset_card_mono) auto
  then show "((raw, ref # seen, new_id), raw, seen, ref)
      \<in> measure (\<lambda>(raw, seen, ref). card (alias_names raw - set seen))"
    by simp
qed simp

declare resolve_from.simps [simp del]

definition resolve :: "aliases \<Rightarrow> string \<Rightarrow> string" where
  "resolve raw ref = resolve_from raw [] ref"

section \<open>The replay\<close>

datatype route = Attach string | Parked string | Unknown string

definition route_event :: "aliases \<Rightarrow> string set \<Rightarrow> string set \<Rightarrow> ledger_event \<Rightarrow> route" where
  "route_event raw ids queued_unmatched e =
     (let ref = resolve raw (e_ref e) in
      if ref \<in> ids then Attach ref
      else if has_alias raw (e_ref e) \<or> has_alias raw ref \<or> e_ref e \<in> queued_unmatched then Parked ref
      else Unknown ref)"

definition queued_unmatched :: "review list \<Rightarrow> string set" where
  "queued_unmatched rs =
     q_ref ` set (filter (\<lambda>i. q_reason i = ''rebaseline_unmatched'' \<and> q_status i = ''pending'') rs)"

definition routed :: "dfinding list \<Rightarrow> dlayer \<Rightarrow> (route \<times> ledger_event) list" where
  "routed fs L = map (\<lambda>e. (route_event (l_aliases L) (f_id ` set fs)
     (queued_unmatched (l_reviews L)) e, e)) (l_events L)"

definition by_finding :: "(route \<times> ledger_event) list \<Rightarrow> (string \<times> ledger_event list) list" where
  "by_finding rs = map (\<lambda>(k, es). (k, map snd es))
     (group_by fst (List.map_filter (\<lambda>(r, e). case r of Attach ref \<Rightarrow> Some (ref, e) | _ \<Rightarrow> None) rs))"

record cum_finding =
  cf_finding :: dfinding
  cf_disposition :: disposition
  cf_severity :: "string option"

record summary =
  by_resolution :: "(string \<times> nat) list"
  by_validity :: "(string \<times> nat) list"
  overrides :: "(string \<times> string option \<times> string) list"
  conflicts :: "string list"
  needs_review_count :: nat

record keys =
  RESOLUTION_KEYS :: "string list"
  VALIDITY_KEYS :: "string list"

definition cum_of :: "(dfinding \<Rightarrow> ledger_event list \<Rightarrow> disposition) \<Rightarrow> (string \<times> ledger_event list) list
    \<Rightarrow> dfinding \<Rightarrow> cum_finding" where
  "cum_of derive grouped f =
     (let d = derive f (case map_of grouped (f_id f) of None \<Rightarrow> [] | Some es \<Rightarrow> es) in
      \<lparr>cf_finding = f\<lparr>f_status := Some (d_validity d)\<rparr>, cf_disposition = d,
       cf_severity = (case d_override d of Some s \<Rightarrow> Some s | None \<Rightarrow> f_severity f)\<rparr>)"

definition count_of :: "('a \<Rightarrow> 'b) \<Rightarrow> 'b list \<Rightarrow> 'a list \<Rightarrow> ('b \<times> nat) list" where
  "count_of g ks xs = map (\<lambda>k. (k, length (filter (\<lambda>x. g x = k) xs))) ks"

definition summarize :: "keys \<Rightarrow> review list \<Rightarrow> cum_finding list \<Rightarrow> summary" where
  "summarize K reviews cs =
     \<lparr>by_resolution = count_of d_resolution (RESOLUTION_KEYS K) (map cf_disposition cs),
      by_validity = count_of d_validity (VALIDITY_KEYS K) (map cf_disposition cs),
      overrides = List.map_filter (\<lambda>c. map_option (\<lambda>s. (f_id (cf_finding c), f_severity (cf_finding c), s))
        (d_override (cf_disposition c))) cs,
      conflicts = map (\<lambda>c. f_id (cf_finding c)) (filter (\<lambda>c. d_conflict (cf_disposition c)) cs),
      needs_review_count = length (filter (\<lambda>i. q_status i = ''pending'') reviews)\<rparr>"

text \<open>The left side is the \<open>ValueError\<close> with the unknown ids it names.\<close>

definition unknown_refs :: "(route \<times> ledger_event) list \<Rightarrow> string list" where
  "unknown_refs rs = List.map_filter (\<lambda>(r, e). case r of Unknown ref \<Rightarrow> Some ref | _ \<Rightarrow> None) rs"

definition build_cumulative :: "(dfinding \<Rightarrow> ledger_event list \<Rightarrow> disposition) \<Rightarrow> keys
    \<Rightarrow> dfinding list \<Rightarrow> dlayer \<Rightarrow> string list + cum_finding list \<times> summary" where
  "build_cumulative derive K fs L =
     (let rs = routed fs L in
      if unknown_refs rs \<noteq> [] then Inl (sort (remdups (unknown_refs rs)))
      else (let cs = map (cum_of derive (by_finding rs)) fs in Inr (cs, summarize K (l_reviews L) cs)))"

section \<open>Following aliases\<close>

text \<open>
  One confirmed alias as a step between references, said of the aliases of the layer: an entry under the id itself,
  confirmed; or, where there is none, the only entry under a namespace and the id, confirmed.
\<close>

inductive alias_step :: "aliases \<Rightarrow> string \<Rightarrow> string \<Rightarrow> bool" for raw where
  own: "map_of raw ref = Some a \<Longrightarrow> a_confirmed a \<Longrightarrow> new_id = m_new (a_match a) \<Longrightarrow> alias_step raw ref new_id"
| namespaced: "ref \<notin> fst ` set raw \<Longrightarrow> filter (\<lambda>(k, a). CHR '':'' \<in> set k \<and> id_part k = ref) raw = [(k, a)]
    \<Longrightarrow> a_confirmed a \<Longrightarrow> new_id = m_new (a_match a) \<Longrightarrow> alias_step raw ref new_id"

inductive_simps alias_step_simp: "alias_step raw ref new_id"

lemma ns_aliases_lookup: "map_of (ns_aliases raw) ref =
   (let es = filter (\<lambda>(k, a). CHR '':'' \<in> set k \<and> id_part k = ref) raw in if es = [] then None else Some es)"
proof -
  have "filter (\<lambda>x. (\<lambda>(k, a). id_part k) x = ref) (filter (\<lambda>(k, a). CHR '':'' \<in> set k) raw)
      = filter (\<lambda>(k, a). CHR '':'' \<in> set k \<and> id_part k = ref) raw"
    unfolding filter_filter by (rule filter_cong) auto
  then show ?thesis
    by (auto simp: ns_aliases_def group_by_lookup Let_def filter_empty_conv)
qed

lemma alias_step_iff: "alias_step raw ref new_id \<longleftrightarrow> next_ref raw ref = Some new_id"
proof (cases "map_of raw ref")
  case None
  then have "ref \<notin> fst ` set raw" by (simp add: map_of_eq_None_iff)
  with None show ?thesis
    by (auto simp: alias_step_simp next_ref_def alias_for_def ns_aliases_lookup Let_def
        split: option.splits list.splits if_splits)
next
  case (Some a)
  then have "ref \<in> fst ` set raw" by (auto dest: map_of_SomeD simp: rev_image_eqI)
  with Some show ?thesis by (auto simp: alias_step_simp next_ref_def alias_for_def)
qed

lemma stuck_iff: "(\<exists>n. alias_step raw ref n) \<longleftrightarrow> next_ref raw ref \<noteq> None"
  by (auto simp: alias_step_iff)

lemma alias_step_unique: "alias_step raw ref x \<Longrightarrow> alias_step raw ref y \<Longrightarrow> x = y"
  by (simp add: alias_step_iff)

lemma resolve_from_reaches: "(alias_step raw)\<^sup>*\<^sup>* ref (resolve_from raw seen ref)"
proof (induction raw seen ref rule: resolve_from.induct)
  case (1 raw seen ref)
  show ?case
  proof (cases "next_ref raw ref")
    case (Some new_id)
    then have "alias_step raw ref new_id" by (simp add: alias_step_iff)
    with Some 1 show ?thesis
      by (subst resolve_from.simps) (auto intro: converse_rtranclp_into_rtranclp)
  qed (subst resolve_from.simps, simp)
qed

lemma resolve_from_stops:
  assumes "\<forall>s \<in> set seen. (alias_step raw)\<^sup>+\<^sup>+ s ref"
  shows "next_ref raw (resolve_from raw seen ref) = None
    \<or> (alias_step raw)\<^sup>+\<^sup>+ (resolve_from raw seen ref) (resolve_from raw seen ref)"
  using assms
proof (induction raw seen ref rule: resolve_from.induct)
  case (1 raw seen ref)
  show ?case
  proof (cases "next_ref raw ref")
    case None
    then show ?thesis by (subst resolve_from.simps, subst resolve_from.simps) simp
  next
    case (Some new_id)
    then have step: "alias_step raw ref new_id" by (simp add: alias_step_iff)
    show ?thesis
    proof (cases "ref \<in> set seen")
      case True
      with 1(2) Some show ?thesis by (simp add: resolve_from.simps [of raw seen ref])
    next
      case False
      have "\<forall>s \<in> set (ref # seen). (alias_step raw)\<^sup>+\<^sup>+ s new_id"
        using 1(2) step by (auto intro: tranclp.trancl_into_trancl)
      with 1(1) [OF Some False] Some False show ?thesis
        by (simp add: resolve_from.simps [of raw seen ref])
    qed
  qed
qed

text \<open>Steps are unique, so an end that can be reached is reached from everywhere on the way, and there is no cycle there.\<close>

lemma cycle_returns:
  assumes "(alias_step raw)\<^sup>+\<^sup>+ t t" and "(alias_step raw)\<^sup>*\<^sup>* t r"
  shows "(alias_step raw)\<^sup>*\<^sup>* r t"
  using assms(2)
proof (induction rule: rtranclp_induct)
  case (step y z)
  from step.IH show ?case
  proof (cases rule: converse_rtranclpE)
    case base
    with assms(1) obtain u where "alias_step raw y u" "(alias_step raw)\<^sup>*\<^sup>* u t" by (auto dest: tranclpD)
    with step.hyps(2) base show ?thesis using alias_step_unique by metis
  next
    case (step u)
    with \<open>alias_step raw y z\<close> show ?thesis using alias_step_unique by metis
  qed
qed simp

lemma reached_ends:
  assumes "(alias_step raw)\<^sup>*\<^sup>* ref r" "\<not> (\<exists>n. alias_step raw r n)" "(alias_step raw)\<^sup>*\<^sup>* ref t"
  shows "(alias_step raw)\<^sup>*\<^sup>* t r"
  using assms(3)
proof (induction rule: rtranclp_induct)
  case (step y z)
  from step.IH show ?case
  proof (cases rule: converse_rtranclpE)
    case base
    with assms(2) step.hyps(2) show ?thesis by blast
  next
    case (step u)
    with \<open>alias_step raw y z\<close> show ?thesis using alias_step_unique by metis
  qed
qed (rule assms(1))

lemma resolve_at_end:
  assumes "(alias_step raw)\<^sup>*\<^sup>* ref r" "\<not> (\<exists>n. alias_step raw r n)"
  shows "resolve raw ref = r"
proof -
  have r: "(alias_step raw)\<^sup>*\<^sup>* (resolve raw ref) r"
    by (rule reached_ends [OF assms]) (simp add: resolve_def resolve_from_reaches)
  have "\<not> (alias_step raw)\<^sup>+\<^sup>+ (resolve raw ref) (resolve raw ref)"
  proof
    assume c: "(alias_step raw)\<^sup>+\<^sup>+ (resolve raw ref) (resolve raw ref)"
    from cycle_returns [OF c r] show False
      by (cases rule: converse_rtranclpE) (use assms(2) c in \<open>auto dest: tranclpD\<close>)
  qed
  then have "\<not> (\<exists>n. alias_step raw (resolve raw ref) n)"
    using resolve_from_stops [of "[]" raw ref] unfolding stuck_iff by (simp add: resolve_def)
  with r show ?thesis by (cases rule: converse_rtranclpE) auto
qed

text \<open>An id that is not met again need not be remembered.\<close>

lemma resolve_from_unmet:
  "set seen' = insert x (set seen) \<Longrightarrow> \<not> (alias_step raw)\<^sup>*\<^sup>* ref x \<Longrightarrow> resolve_from raw seen' ref = resolve_from raw seen ref"
proof (induction raw seen ref arbitrary: seen' rule: resolve_from.induct)
  case (1 raw seen ref)
  show ?case
  proof (cases "next_ref raw ref")
    case None
    then show ?thesis by (simp add: resolve_from.simps [of raw _ ref])
  next
    case (Some n)
    have ne: "ref \<noteq> x" using 1(3) by auto
    have "alias_step raw ref n" using Some by (simp add: alias_step_iff)
    then have unmet: "\<not> (alias_step raw)\<^sup>*\<^sup>* n x"
      using 1(3) by (meson converse_rtranclp_into_rtranclp)
    show ?thesis
    proof (cases "ref \<in> set seen")
      case True
      with 1(2) Some show ?thesis by (simp add: resolve_from.simps [of raw _ ref])
    next
      case False
      have "set (ref # seen') = insert x (set (ref # seen))" using 1(2) by auto
      from 1(1) [OF Some False this unmet] False ne 1(2) Some show ?thesis
        by (simp add: resolve_from.simps [of raw _ ref])
    qed
  qed
qed

lemma resolve_past:
  assumes "alias_step raw ref n" and "ref = n \<or> \<not> (alias_step raw)\<^sup>+\<^sup>+ ref ref"
  shows "resolve raw ref = resolve raw n"
proof (cases "ref = n")
  case False
  with assms have "\<not> (alias_step raw)\<^sup>*\<^sup>* n ref" by (meson rtranclp_into_tranclp2)
  then have "resolve_from raw [ref] n = resolve_from raw [] n" by (intro resolve_from_unmet) simp_all
  with assms(1) show ?thesis by (simp add: resolve_def resolve_from.simps [of raw "[]" ref] alias_step_iff)
qed simp

definition leads_nowhere :: "aliases \<Rightarrow> string \<Rightarrow> bool" where
  "leads_nowhere raw ref \<longleftrightarrow> \<not> (\<exists>n. alias_step raw ref n)"

text \<open>
  C40. Resolving a reference always ends, at an id that confirmed aliases of the layer lead to, and it ends
  either where no confirmed alias leads further or inside a cycle of aliases. When such an end can be reached at all, it is
  the only one and the result.
\<close>

theorem resolve_ends:
  "(alias_step raw)\<^sup>*\<^sup>* ref (resolve raw ref)
    \<and> (leads_nowhere raw (resolve raw ref) \<or> (alias_step raw)\<^sup>+\<^sup>+ (resolve raw ref) (resolve raw ref))
    \<and> {r. (alias_step raw)\<^sup>*\<^sup>* ref r \<and> leads_nowhere raw r} \<subseteq> {resolve raw ref}"
proof (intro conjI subsetI)
  show "leads_nowhere raw (resolve raw ref) \<or> (alias_step raw)\<^sup>+\<^sup>+ (resolve raw ref) (resolve raw ref)"
    using resolve_from_stops [of "[]" raw ref] by (simp add: leads_nowhere_def stuck_iff resolve_def)
qed (auto simp: leads_nowhere_def resolve_def resolve_from_reaches resolve_at_end [unfolded resolve_def])

section \<open>No event is lost\<close>

lemma map_of_map_snd: "map_of (map (\<lambda>(k, v). (k, g v)) al) k = map_option g (map_of al k)"
  by (induction al) auto

lemma by_finding_lookup:
  "(case map_of (by_finding rs) k of None \<Rightarrow> [] | Some es \<Rightarrow> es)
     = map snd (filter (\<lambda>(r, e). r = Attach k) rs)"
proof -
  let ?f = "\<lambda>(r, e). case r of Attach ref \<Rightarrow> Some (ref, e) | _ \<Rightarrow> None"
  have "map snd (filter (\<lambda>x. fst x = k) (List.map_filter ?f rs)) = map snd (filter (\<lambda>(r, e). r = Attach k) rs)"
    by (induction rs) (auto simp: List.map_filter_simps split: route.splits)
  moreover have "k \<notin> fst ` set (List.map_filter ?f rs) \<Longrightarrow> filter (\<lambda>x. fst x = k) (List.map_filter ?f rs) = []"
    by (auto simp: filter_empty_conv)
  ultimately show ?thesis
    by (cases "k \<in> fst ` set (List.map_filter ?f rs)")
      (simp_all add: by_finding_def map_of_map_snd group_by_lookup split_beta)
qed

lemma unknown_refs_Nil: "unknown_refs rs = [] \<longleftrightarrow> (\<forall>(r, e) \<in> set rs. \<forall>ref. r \<noteq> Unknown ref)"
  by (induction rs) (auto simp: unknown_refs_def List.map_filter_simps split: route.splits)

definition superseded :: "dlayer \<Rightarrow> ledger_event \<Rightarrow> bool" where
  "superseded L e \<longleftrightarrow> has_alias (l_aliases L) (e_ref e)
     \<or> has_alias (l_aliases L) (resolve (l_aliases L) (e_ref e))
     \<or> e_ref e \<in> queued_unmatched (l_reviews L)"

definition lost_events :: "dfinding list \<Rightarrow> dlayer \<Rightarrow> ledger_event list" where
  "lost_events fs L = filter (\<lambda>e. resolve (l_aliases L) (e_ref e) \<notin> f_id ` set fs \<and> \<not> superseded L e)
     (l_events L)"

lemma route_Attach:
  "route_event (l_aliases L) (f_id ` set fs) (queued_unmatched (l_reviews L)) e = Attach k
     \<longleftrightarrow> resolve (l_aliases L) (e_ref e) = k \<and> k \<in> f_id ` set fs"
  by (auto simp: route_event_def Let_def)

lemma unknown_refs_routed:
  "unknown_refs (routed fs L) = map (\<lambda>e. resolve (l_aliases L) (e_ref e)) (lost_events fs L)"
proof -
  have "unknown_refs (map (\<lambda>e. (route_event (l_aliases L) (f_id ` set fs)
      (queued_unmatched (l_reviews L)) e, e)) es)
    = map (\<lambda>e. resolve (l_aliases L) (e_ref e))
        (filter (\<lambda>e. resolve (l_aliases L) (e_ref e) \<notin> f_id ` set fs \<and> \<not> superseded L e) es)" for es
    by (induction es)
      (auto simp: unknown_refs_def List.map_filter_simps route_event_def Let_def superseded_def)
  then show ?thesis by (simp add: routed_def lost_events_def)
qed

lemma routed_events:
  "map snd (filter (\<lambda>(r, e). r = Attach k) (routed fs L))
     = (if k \<in> f_id ` set fs then filter (\<lambda>e. resolve (l_aliases L) (e_ref e) = k) (l_events L) else [])"
proof -
  have "map snd (filter (\<lambda>(r, e). r = Attach k) (map (\<lambda>e. (route_event (l_aliases L) (f_id ` set fs)
      (queued_unmatched (l_reviews L)) e, e)) es))
    = (if k \<in> f_id ` set fs then filter (\<lambda>e. resolve (l_aliases L) (e_ref e) = k) es else [])" for es
    by (induction es) (auto simp: route_Attach)
  then show ?thesis by (simp add: routed_def)
qed

text \<open>What the replay of one finding means: its own events only, none left out, in order.\<close>

definition own_events :: "dlayer \<Rightarrow> string \<Rightarrow> ledger_event list" where
  "own_events L fid = filter (\<lambda>e. resolve (l_aliases L) (e_ref e) = fid) (l_events L)"

definition replayed :: "(dfinding \<Rightarrow> ledger_event list \<Rightarrow> disposition) \<Rightarrow> dlayer \<Rightarrow> dfinding \<Rightarrow> cum_finding" where
  "replayed derive L f = (let d = derive f (own_events L (f_id f)) in
     \<lparr>cf_finding = f\<lparr>f_status := Some (d_validity d)\<rparr>, cf_disposition = d,
      cf_severity = (case d_override d of Some s \<Rightarrow> Some s | None \<Rightarrow> f_severity f)\<rparr>)"

text \<open>
  The replay attributes every event. It fails exactly when some event resolves to an id that
  is no finding, with no alias on the way and no queued decision, and then names those ids;
  otherwise each finding keeps its place and its id, and its disposition is derived from exactly
  the events whose reference resolves to it, in the order of the layer.
\<close>

theorem replay_attributes_events:
  "build_cumulative derive K fs L =
     (if lost_events fs L = [] then
        Inr (map (replayed derive L) fs, summarize K (l_reviews L) (map (replayed derive L) fs))
      else Inl (sort (remdups (map (\<lambda>e. resolve (l_aliases L) (e_ref e)) (lost_events fs L)))))"
proof -
  have "cum_of derive (by_finding (routed fs L)) f = replayed derive L f" if "f \<in> set fs" for f
    using that unfolding cum_of_def by_finding_lookup routed_events replayed_def own_events_def by simp
  then have eq: "map (cum_of derive (by_finding (routed fs L))) fs = map (replayed derive L) fs"
    by (rule map_cong [OF refl])
  show ?thesis
    unfolding build_cumulative_def unknown_refs_routed Let_def eq by simp
qed

lemma set_lefts: "set (lefts (List.map_filter f xs)) = {e. \<exists>x \<in> set xs. f x = Some (Inl e)}"
  by (induction xs) (auto simp: lefts_def List.map_filter_simps split: option.splits sum.splits)

text \<open>
  The claim check names exactly the pinned ids that are gone from the report and those whose
  claims were edited without being marked as corrected; no other finding is an error.
\<close>

theorem claim_errors_exact:
  "set (fst (verify_claim_hashes claim_hash fs hashes)) =
     Missing ` {fid. \<exists>h. (fid, h) \<in> set hashes \<and> fid \<notin> f_id ` set fs}
     \<union> Edited ` {fid. \<exists>h f. (fid, h) \<in> set hashes \<and> by_id fs fid = Some f \<and> claim_hash f \<noteq> h
          \<and> f_status f \<noteq> Some ''corrected''}"
proof -
  have none: "by_id fs fid = None \<longleftrightarrow> fid \<notin> f_id ` set fs" for fid
    by (auto simp: by_id_def map_of_eq_None_iff image_image)
  have "set (fst (verify_claim_hashes claim_hash fs hashes))
      = {e. \<exists>x \<in> set hashes. check_pin claim_hash fs x = Some (Inl e)}"
    by (simp add: verify_claim_hashes_def Let_def set_lefts)
  also have "\<dots> = Missing ` {fid. \<exists>h. (fid, h) \<in> set hashes \<and> by_id fs fid = None}
     \<union> Edited ` {fid. \<exists>h f. (fid, h) \<in> set hashes \<and> by_id fs fid = Some f \<and> claim_hash f \<noteq> h
          \<and> f_status f \<noteq> Some ''corrected''}"
    by (auto simp: check_pin_def split: option.splits if_splits) force+
  finally show ?thesis unfolding none .
qed

end
