(* ===== verification/Ledger_Service.thy ===== *)
theory Ledger_Service
  imports Versions
begin

text \<open>
  \<open>ledger/service.py\<close>: the gateway to the ledger. The client (database or file backend) is another
  package: a record of functions on its own state. Files are a map from paths to contents, and
  which of them can be written and which can be removed are arguments, so that a failed export is a branch. A computation
  takes the service with the world and returns a result or an error with both as they are then:
  what an operation changed before it failed stays changed.
\<close>

section \<open>Client, world and service\<close>

datatype lerr =
    No_binding
  | Unowned_repo string
  | Foreign_layer string string
  | Second_path string string
  | Read_only_snapshot string
  | Needs_database
  | Needs_client
  | Needs_binding
  | Needs_directory
  | Layer_unavailable string string
  | Client_refused string
  | Other_report string
  | Os_failure string

datatype wop =
    Submit string
  | Pin_digest string
  | Sign
  | Resolve_item string
  | Countersign string
  | Patch string
  | Restate string
  | Stamp_identities string
  | Store string
  | Create string

type_synonym disk = "string \<Rightarrow> string option"

record ('s, 'd) client =
  find_layer :: "'s \<Rightarrow> string \<Rightarrow> string option"
  get_layer :: "'s \<Rightarrow> string \<Rightarrow> string + 'd"
  apply_op :: "'s \<Rightarrow> disk \<Rightarrow> string \<Rightarrow> wop \<Rightarrow> string + 's \<times> disk \<times> nat"

text \<open>How documents are written, and what the service asks of the file system.\<close>

record 'd host =
  dumps :: "'d \<Rightarrow> string"
  marker_text :: "string \<Rightarrow> 'd \<Rightarrow> string"
  pinned_digest :: "'d \<Rightarrow> string option"
  parse_file :: "string \<Rightarrow> 'd option"
  report_sha256 :: "string \<Rightarrow> string option"
  resolve_path :: "string \<Rightarrow> string"
  can_write :: "string \<Rightarrow> bool"
  can_remove :: "string \<Rightarrow> bool"

record binding =
  b_layer :: "string option"
  b_repo :: "string option"

record service =
  s_binding :: "binding option"
  bound_id :: "string option"
  bound_path :: "string option"

record 's world =
  db :: 's
  files :: disk

type_synonym ('s, 'a) io = "service \<times> 's world \<Rightarrow> (lerr + 'a) \<times> service \<times> 's world"

definition give :: "'a \<Rightarrow> ('s, 'a) io" where
  "give x sw = (Inr x, sw)"

definition fail :: "lerr \<Rightarrow> ('s, 'a) io" where
  "fail e sw = (Inl e, sw)"

definition seq_io :: "('s, 'a) io \<Rightarrow> ('a \<Rightarrow> ('s, 'b) io) \<Rightarrow> ('s, 'b) io" where
  "seq_io m f sw = (case m sw of (Inl e, sw') \<Rightarrow> (Inl e, sw') | (Inr x, sw') \<Rightarrow> f x sw')"

section \<open>Construction\<close>

definition database_mode :: "service \<Rightarrow> bool" where
  "database_mode s \<longleftrightarrow> s_binding s \<noteq> None"

definition layer_binding :: "string option \<Rightarrow> string option \<Rightarrow> lerr + binding" where
  "layer_binding layer_id repo =
     (if \<not> truthy layer_id \<and> \<not> truthy repo then Inl No_binding
      else Inr \<lparr>b_layer = layer_id, b_repo = repo\<rparr>)"

definition new_service :: "binding option \<Rightarrow> service" where
  "new_service b = \<lparr>s_binding = b, bound_id = None, bound_path = None\<rparr>"

text \<open>\<open>LedgerService.__init__\<close>: is a client injected, does \<open>ledger.yaml\<close> set a dsn, is there a directory.\<close>

definition init_service :: "bool \<Rightarrow> bool \<Rightarrow> bool \<Rightarrow> binding option \<Rightarrow> lerr + service" where
  "init_service client dsn data_dir b =
     (if client then Inr (new_service b)
      else if b \<noteq> None then Inl Needs_client
      else if dsn then Inl Needs_binding
      else if \<not> data_dir then Inl Needs_directory
      else Inr (new_service None))"

definition database_service :: "bool \<Rightarrow> binding \<Rightarrow> lerr + service" where
  "database_service dsn b = (if \<not> dsn then Inl Needs_database else init_service True dsn False (Some b))"

definition ledger_database_url :: "string \<Rightarrow> string" where
  "ledger_database_url dsn =
     (if startswith dsn ''postgresql://''
      then ''postgresql+psycopg://'' @ drop (length ''postgresql://'') dsn else dsn)"

definition snapshot_marker :: "string \<Rightarrow> string" where
  "snapshot_marker path = path @ ''.snapshot''"

text \<open>\<open>LayerBinding.resolve\<close>\<close>

definition resolve_binding :: "('s, 'd) client \<Rightarrow> binding \<Rightarrow> 's \<Rightarrow> lerr + string" where
  "resolve_binding C b d =
     (let repo = or_str (b_repo b) [];
          owned = (if truthy (b_repo b) then find_layer C d repo else None) in
      if truthy (b_repo b) \<and> owned = None then Inl (Unowned_repo repo)
      else if truthy (b_layer b) \<and> owned \<noteq> None \<and> owned \<noteq> b_layer b
        then Inl (Foreign_layer (or_str (b_layer b) []) repo)
      else Inr (or_str (b_layer b) (case owned of None \<Rightarrow> ''None'' | Some l \<Rightarrow> l)))"

definition stem_of :: "string \<Rightarrow> string" where
  "stem_of s = (let name = last (split_on CHR ''/'' s);
       k = length (takeWhile (\<lambda>c. c \<noteq> CHR ''.'') (rev name)) in
     if k = 0 \<or> length name \<le> Suc k then name else take (length name - Suc k) name)"

text \<open>\<open>_layer\<close>: the first use binds the path, then the layer; a path bound stays bound on an error.\<close>

definition layer_of :: "('s, 'd) client \<Rightarrow> 'd host \<Rightarrow> string \<Rightarrow> ('s, string) io" where
  "layer_of C H path sw = (case sw of (s, w) \<Rightarrow>
     (case s_binding s of
        None \<Rightarrow> (Inr (stem_of path), s, w)
      | Some b \<Rightarrow>
          (let p = resolve_path H path in
           if bound_path s \<noteq> None \<and> bound_path s \<noteq> Some p
           then (Inl (Second_path (or_str (bound_path s) []) p), s, w)
           else
             (let s1 = s\<lparr>bound_path := Some p\<rparr> in
              case bound_id s1 of
                Some i \<Rightarrow> (Inr i, s1, w)
              | None \<Rightarrow> (case resolve_binding C b (db w) of
                  Inl e \<Rightarrow> (Inl e, s1, w)
                | Inr i \<Rightarrow> (Inr i, s1\<lparr>bound_id := Some i\<rparr>, w))))))"

definition write_target :: "('s, 'd) client \<Rightarrow> 'd host \<Rightarrow> string \<Rightarrow> ('s, string) io" where
  "write_target C H path sw = (case sw of (s, w) \<Rightarrow>
     if \<not> database_mode s \<and> files w (snapshot_marker path) \<noteq> None
     then (Inl (Read_only_snapshot path), s, w)
     else layer_of C H path (s, w))"

section \<open>Snapshots\<close>

definition write_file :: "'d host \<Rightarrow> string \<Rightarrow> string \<Rightarrow> ('s, unit) io" where
  "write_file H path text sw = (case sw of (s, w) \<Rightarrow>
     if can_write H path then (Inr (), s, w\<lparr>files := (files w)(path \<mapsto> text)\<rparr>)
     else (Inl (Os_failure path), s, w))"

definition fetch_layer :: "('s, 'd) client \<Rightarrow> string \<Rightarrow> ('s, 'd) io" where
  "fetch_layer C i sw = (case sw of (s, w) \<Rightarrow>
     (case get_layer C (db w) i of
        Inl e \<Rightarrow> (Inl (Layer_unavailable e i), s, w)
      | Inr d \<Rightarrow> (Inr d, s, w)))"

definition export :: "'d host \<Rightarrow> string \<Rightarrow> string \<Rightarrow> 'd \<Rightarrow> ('s, 'd) io" where
  "export H path i d sw = (case sw of (s, w) \<Rightarrow>
     (if files w path = Some (dumps H d) \<and> files w (snapshot_marker path) \<noteq> None then (Inr d, s, w)
      else seq_io (write_file H (snapshot_marker path) (marker_text H i d)) (\<lambda>_.
        seq_io (write_file H path (dumps H d)) (\<lambda>_. give d)) (s, w)))"

definition write_snapshot :: "('s, 'd) client \<Rightarrow> 'd host \<Rightarrow> string \<Rightarrow> ('s, 'd) io" where
  "write_snapshot C H path sw =
     (if \<not> database_mode (fst sw) then fail Needs_database sw
      else seq_io (layer_of C H path) (\<lambda>i. seq_io (fetch_layer C i) (export H path i)) sw)"

text \<open>A failed export removes the snapshot and its marker, where the file system lets it.\<close>

definition unlink :: "'d host \<Rightarrow> string \<Rightarrow> 's world \<Rightarrow> 's world" where
  "unlink H path w = (if can_remove H path then w\<lparr>files := (files w)(path := None)\<rparr> else w)"

definition refresh :: "('s, 'd) client \<Rightarrow> 'd host \<Rightarrow> string \<Rightarrow> ('s, unit) io" where
  "refresh C H path sw =
     (if \<not> database_mode (fst sw) then give () sw
      else (case write_snapshot C H path sw of
          (Inr d, sw') \<Rightarrow> (Inr (), sw')
        | (Inl (Os_failure p), s, w) \<Rightarrow> (Inr (), s, unlink H (snapshot_marker path) (unlink H path w))
        | (Inl e, sw') \<Rightarrow> (Inl e, sw')))"

section \<open>Operations\<close>

definition client_op :: "('s, 'd) client \<Rightarrow> string \<Rightarrow> wop \<Rightarrow> ('s, nat) io" where
  "client_op C i op sw = (case sw of (s, w) \<Rightarrow>
     (case apply_op C (db w) (files w) i op of
        Inl e \<Rightarrow> (Inl (Client_refused e), s, w)
      | Inr (d, f, n) \<Rightarrow> (Inr n, s, w\<lparr>db := d, files := f\<rparr>)))"

definition written :: "('s, 'd) client \<Rightarrow> 'd host \<Rightarrow> string \<Rightarrow> wop \<Rightarrow> ('s, nat) io" where
  "written C H path op = seq_io (write_target C H path) (\<lambda>i. client_op C i op)"

definition digest_of :: "'d host \<Rightarrow> string \<Rightarrow> ('s, string) io" where
  "digest_of H report = (case report_sha256 H report of None \<Rightarrow> fail (Os_failure report) | Some d \<Rightarrow> give d)"

definition pin_report :: "('s, 'd) client \<Rightarrow> 'd host \<Rightarrow> string \<Rightarrow> string option \<Rightarrow> ('s, nat) io" where
  "pin_report C H i report = (case report of
       None \<Rightarrow> give 0
     | Some f \<Rightarrow> seq_io (digest_of H f) (\<lambda>d. client_op C i (Pin_digest d)))"

definition and_refresh :: "('s, 'd) client \<Rightarrow> 'd host \<Rightarrow> string \<Rightarrow> ('s, 'a) io \<Rightarrow> ('s, 'a) io" where
  "and_refresh C H path m = seq_io m (\<lambda>x. seq_io (refresh C H path) (\<lambda>_. give x))"

definition submit_events :: "('s, 'd) client \<Rightarrow> 'd host \<Rightarrow> string \<Rightarrow> string \<Rightarrow> string option \<Rightarrow> ('s, nat) io" where
  "submit_events C H path events report = and_refresh C H path
     (seq_io (write_target C H path) (\<lambda>i.
       seq_io (client_op C i (Submit events)) (\<lambda>n. seq_io (pin_report C H i report) (\<lambda>_. give n))))"

definition sign :: "('s, 'd) client \<Rightarrow> 'd host \<Rightarrow> string \<Rightarrow> ('s, nat) io" where
  "sign C H path = and_refresh C H path (written C H path Sign)"

definition resolve_review_item :: "('s, 'd) client \<Rightarrow> 'd host \<Rightarrow> string \<Rightarrow> string \<Rightarrow> ('s, nat) io" where
  "resolve_review_item C H path decision = and_refresh C H path (written C H path (Resolve_item decision))"

definition countersign :: "('s, 'd) client \<Rightarrow> 'd host \<Rightarrow> string \<Rightarrow> string \<Rightarrow> ('s, nat) io" where
  "countersign C H path block = and_refresh C H path (written C H path (Countersign block))"

definition patch_layer_file :: "('s, 'd) client \<Rightarrow> 'd host \<Rightarrow> string \<Rightarrow> string \<Rightarrow> ('s, nat) io" where
  "patch_layer_file C H path updates = and_refresh C H path (written C H path (Patch updates))"

definition restate :: "('s, 'd) client \<Rightarrow> 'd host \<Rightarrow> string \<Rightarrow> string \<Rightarrow> ('s, nat) io" where
  "restate C H path block = and_refresh C H path (written C H path (Restate block))"

definition stamp_event_identities :: "('s, 'd) client \<Rightarrow> 'd host \<Rightarrow> string \<Rightarrow> string \<Rightarrow> ('s, nat) io" where
  "stamp_event_identities C H path fps = and_refresh C H path (written C H path (Stamp_identities fps))"

definition store_layer :: "('s, 'd) client \<Rightarrow> 'd host \<Rightarrow> string \<Rightarrow> string \<Rightarrow> ('s, nat) io" where
  "store_layer C H path doc = written C H path (Store doc)"

definition load_file :: "'d host \<Rightarrow> string \<Rightarrow> ('s, 'd) io" where
  "load_file H path sw = (case sw of (s, w) \<Rightarrow>
     (case files w path of
        None \<Rightarrow> (Inl (Os_failure path), s, w)
      | Some t \<Rightarrow> (case parse_file H t of
          None \<Rightarrow> (Inl (Os_failure path), s, w) | Some d \<Rightarrow> (Inr d, s, w))))"

definition read_layer_file :: "('s, 'd) client \<Rightarrow> 'd host \<Rightarrow> string \<Rightarrow> ('s, 'd) io" where
  "read_layer_file C H path sw =
     (if database_mode (fst sw) then write_snapshot C H path sw else load_file H path sw)"

definition ensure_layer_file :: "('s, 'd) client \<Rightarrow> 'd host \<Rightarrow> string \<Rightarrow> 'd \<Rightarrow> ('s, 'd) io" where
  "ensure_layer_file C H path shell sw =
     (if database_mode (fst sw) then write_snapshot C H path sw
      else seq_io (write_target C H path) (\<lambda>i sw'. (case read_layer_file C H path sw' of
          (Inr d, sw'') \<Rightarrow> (Inr d, sw'')
        | (Inl e, sw'') \<Rightarrow> seq_io (client_op C i (Create (dumps H shell))) (\<lambda>_. give shell) sw'')) sw)"

definition stamp_report_file :: "('s, 'd) client \<Rightarrow> 'd host \<Rightarrow> string \<Rightarrow> string \<Rightarrow> ('s, bool) io" where
  "stamp_report_file C H path report =
     seq_io (digest_of H report) (\<lambda>digest. seq_io (read_layer_file C H path) (\<lambda>d.
       if pinned_digest H d = Some digest then give False
       else if truthy (pinned_digest H d) then fail (Other_report (or_str (pinned_digest H d) []))
       else and_refresh C H path (seq_io (written C H path (Pin_digest digest)) (\<lambda>_. give True))))"

definition query_layer :: "('s, 'd) client \<Rightarrow> 'd host \<Rightarrow> string \<Rightarrow> ('s, string) io" where
  "query_layer C H path = layer_of C H path"

section \<open>Requests\<close>

datatype 'd request =
    Do_submit string "string option"
  | Do_sign
  | Do_resolve string
  | Do_countersign string
  | Do_patch string
  | Do_restate string
  | Do_identities string
  | Do_store string
  | Do_ensure 'd
  | Do_stamp_report string
  | Do_read
  | Do_snapshot
  | Do_query

definition quiet :: "('s, 'a) io \<Rightarrow> ('s, unit) io" where
  "quiet m = seq_io m (\<lambda>_. give ())"

fun perform :: "('s, 'd) client \<Rightarrow> 'd host \<Rightarrow> string \<Rightarrow> 'd request \<Rightarrow> ('s, unit) io" where
  "perform C H path (Do_submit es r) = quiet (submit_events C H path es r)"
| "perform C H path Do_sign = quiet (sign C H path)"
| "perform C H path (Do_resolve x) = quiet (resolve_review_item C H path x)"
| "perform C H path (Do_countersign x) = quiet (countersign C H path x)"
| "perform C H path (Do_patch x) = quiet (patch_layer_file C H path x)"
| "perform C H path (Do_restate x) = quiet (restate C H path x)"
| "perform C H path (Do_identities x) = quiet (stamp_event_identities C H path x)"
| "perform C H path (Do_store x) = quiet (store_layer C H path x)"
| "perform C H path (Do_ensure d) = quiet (ensure_layer_file C H path d)"
| "perform C H path (Do_stamp_report x) = quiet (stamp_report_file C H path x)"
| "perform C H path Do_read = quiet (read_layer_file C H path)"
| "perform C H path Do_snapshot = quiet (write_snapshot C H path)"
| "perform C H path Do_query = quiet (query_layer C H path)"

text \<open>The states a service goes through, whatever is asked of it, refused requests included.\<close>

inductive served :: "('s, 'd) client \<Rightarrow> 'd host \<Rightarrow> service \<times> 's world \<Rightarrow> service \<times> 's world \<Rightarrow> bool"
  for C H sw0 where
  start: "served C H sw0 sw0"
| request: "served C H sw0 sw \<Longrightarrow> served C H sw0 (snd (perform C H path k sw))"

section \<open>What one operation may touch\<close>

text \<open>
  A law of the database client, which is another package: an operation changes the layer it is
  given and no other, and writes no file.
\<close>

definition isolated :: "('s, 'd) client \<Rightarrow> bool" where
  "isolated C \<longleftrightarrow> (\<forall>d f i op d' f' n j. apply_op C d f i op = Inr (d', f', n) \<longrightarrow>
     f' = f \<and> (j \<noteq> i \<longrightarrow> get_layer C d' j = get_layer C d j))"

definition only_layer :: "('s, 'd) client \<Rightarrow> string \<Rightarrow> 's \<Rightarrow> 's \<Rightarrow> bool" where
  "only_layer C i d d' \<longleftrightarrow> (\<forall>j. j \<noteq> i \<longrightarrow> get_layer C d' j = get_layer C d j)"

definition only_file :: "string \<Rightarrow> (string \<Rightarrow> string option) \<Rightarrow> (string \<Rightarrow> string option) \<Rightarrow> bool" where
  "only_file path f f' \<longleftrightarrow> (\<forall>q. q \<noteq> path \<longrightarrow> q \<noteq> snapshot_marker path \<longrightarrow> f' q = f q)"

definition bound :: "'d host \<Rightarrow> string \<Rightarrow> string \<Rightarrow> service \<Rightarrow> bool" where
  "bound H path i s \<longleftrightarrow> s_binding s \<noteq> None \<and> bound_id s = Some i
     \<and> bound_path s = Some (resolve_path H path)"

text \<open>On a service bound to \<open>path\<close> and \<open>i\<close>, the computation changes that layer and file only.\<close>

definition within :: "('s, 'd) client \<Rightarrow> 'd host \<Rightarrow> string \<Rightarrow> string \<Rightarrow> ('s, 'a) io \<Rightarrow> bool" where
  "within C H path i m \<longleftrightarrow> (\<forall>s w r s' w'. bound H path i s \<longrightarrow> m (s, w) = (r, s', w') \<longrightarrow>
     s' = s \<and> only_layer C i (db w) (db w') \<and> only_file path (files w) (files w'))"

definition touched :: "('s, 'd) client \<Rightarrow> 'd host \<Rightarrow> string \<Rightarrow> service \<times> 's world \<Rightarrow> service \<times> 's world \<Rightarrow> bool" where
  "touched C H path sw sw' \<longleftrightarrow> (case (sw, sw') of ((s, w), (s', w')) \<Rightarrow>
     s_binding s' = s_binding s
     \<and> (bound_path s = None \<or> bound_path s' = bound_path s)
     \<and> (bound_id s = None \<or> bound_id s' = bound_id s)
     \<and> (db w' = db w \<or> (\<exists>i. bound_id s' = Some i \<and> only_layer C i (db w) (db w')))
     \<and> (files w' = files w
        \<or> bound_path s' = Some (resolve_path H path) \<and> only_file path (files w) (files w')))"

text \<open>The computation binds first, and touches what it bound.\<close>

definition binds :: "('s, 'd) client \<Rightarrow> 'd host \<Rightarrow> string \<Rightarrow> ('s, 'a) io \<Rightarrow> bool" where
  "binds C H path m \<longleftrightarrow> (\<forall>s w r s' w'. database_mode s \<longrightarrow> m (s, w) = (r, s', w') \<longrightarrow>
     touched C H path (s, w) (s', w') \<and> ((\<exists>x. r = Inr x) \<longrightarrow> (\<exists>i. bound H path i s')))"

lemma only_refl [simp]: "only_layer C i d d" "only_file path f f"
  by (simp_all add: only_layer_def only_file_def)

lemma only_layer_trans: "only_layer C i d1 d2 \<Longrightarrow> only_layer C i d2 d3 \<Longrightarrow> only_layer C i d1 d3"
  by (simp add: only_layer_def)

lemma only_file_trans: "only_file p f1 f2 \<Longrightarrow> only_file p f2 f3 \<Longrightarrow> only_file p f1 f3"
  by (simp add: only_file_def)

lemma within_simple [simp]: "within C H path i (give x)" "within C H path i (fail e)"
    "within C H path i (fetch_layer C j)"
  by (auto simp: within_def give_def fail_def fetch_layer_def split: sum.splits)

lemma withinD:
  "within C H path i m \<Longrightarrow> bound H path i s \<Longrightarrow> m (s, w) = (r, s', w') \<Longrightarrow>
     s' = s \<and> only_layer C i (db w) (db w') \<and> only_file path (files w) (files w')"
  unfolding within_def by blast

lemma within_seq:
  assumes m: "within C H path i m" and f: "\<And>x. within C H path i (f x)"
  shows "within C H path i (seq_io m f)"
  unfolding within_def
proof (intro allI impI)
  fix s w r s' w'
  assume s: "bound H path i s" and run: "seq_io m f (s, w) = (r, s', w')"
  obtain r1 s1 w1 where m1: "m (s, w) = (r1, s1, w1)" by (metis prod_cases3)
  from withinD [OF m s m1] have 1: "s1 = s" "only_layer C i (db w) (db w1)" "only_file path (files w) (files w1)"
    by blast+
  show "s' = s \<and> only_layer C i (db w) (db w') \<and> only_file path (files w) (files w')"
  proof (cases r1)
    case (Inl e)
    with run m1 1 show ?thesis by (simp add: seq_io_def)
  next
    case (Inr x)
    with run m1 1(1) have "f x (s, w1) = (r, s', w')" by (simp add: seq_io_def)
    from withinD [OF f s this] 1 show ?thesis
      by (auto intro: only_layer_trans only_file_trans)
  qed
qed

lemma within_write_file: "q = path \<or> q = snapshot_marker path \<Longrightarrow> within C H path i (write_file H q t)"
  by (auto simp: within_def write_file_def only_file_def split: if_splits)

lemma within_export:
  fixes C :: "('s, 'd) client"
  shows "within C H path i (export H path j d)"
proof -
  have w: "within C H path i (seq_io (write_file H (snapshot_marker path) (marker_text H j d)) (\<lambda>_.
      seq_io (write_file H path (dumps H d)) (\<lambda>_. give d)))"
    by (intro within_seq within_write_file) simp_all
  show ?thesis
    unfolding within_def
  proof (intro allI impI)
    fix s :: service and w0 w' :: "'s world" and r s'
    assume s: "bound H path i s" and run: "export H path j d (s, w0) = (r, s', w')"
    show "s' = s \<and> only_layer C i (db w0) (db w') \<and> only_file path (files w0) (files w')"
    proof (cases "files w0 path = Some (dumps H d) \<and> files w0 (snapshot_marker path) \<noteq> None")
      case True
      with run show ?thesis by (simp add: export_def)
    next
      case False
      with run have "seq_io (write_file H (snapshot_marker path) (marker_text H j d)) (\<lambda>_.
          seq_io (write_file H path (dumps H d)) (\<lambda>_. give d)) (s, w0) = (r, s', w')"
        unfolding export_def by (simp only: prod.case if_False)
      from withinD [OF w s this] show ?thesis .
    qed
  qed
qed

lemma layer_of_bound: "bound H path i s \<Longrightarrow> layer_of C H path (s, w) = (Inr i, s, w)"
  by (auto simp: bound_def layer_of_def Let_def)

lemma write_target_db: "database_mode s \<Longrightarrow> write_target C H path (s, w) = layer_of C H path (s, w)"
  by (simp add: write_target_def)

lemma bound_db: "bound H path i s \<Longrightarrow> database_mode s"
  by (simp add: bound_def database_mode_def)

lemma within_layer_of: "within C H path i (layer_of C H path)" "within C H path i (write_target C H path)"
  by (auto simp: within_def layer_of_bound write_target_db bound_db)

lemma within_write_snapshot: "within C H path i (write_snapshot C H path)"
proof -
  have "within C H path i (seq_io (layer_of C H path) (\<lambda>j. seq_io (fetch_layer C j) (export H path j)))"
    by (intro within_seq within_layer_of within_simple within_export)
  then show ?thesis unfolding within_def write_snapshot_def by (simp add: bound_db)
qed

lemma only_file_unlink: "only_file path (files w) (files (unlink H (snapshot_marker path) (unlink H path w)))"
  by (simp add: only_file_def unlink_def)

lemma db_unlink [simp]: "db (unlink H q w) = db w"
  by (simp add: unlink_def)

lemma within_refresh: "within C H path i (refresh C H path)"
  unfolding within_def
proof (intro allI impI)
  fix s w r s' w'
  assume s: "bound H path i s" and run: "refresh C H path (s, w) = (r, s', w')"
  obtain r1 s1 w1 where snap: "write_snapshot C H path (s, w) = (r1, s1, w1)" by (metis prod_cases3)
  from withinD [OF within_write_snapshot s snap] have 1: "s1 = s" "only_layer C i (db w) (db w1)"
    "only_file path (files w) (files w1)" by blast+
  have "s' = s1 \<and> (w' = w1 \<or> w' = unlink H (snapshot_marker path) (unlink H path w1))"
    using run s snap by (auto simp: refresh_def bound_db split: sum.splits lerr.splits)
  with 1 show "s' = s \<and> only_layer C i (db w) (db w') \<and> only_file path (files w) (files w')"
    using only_file_unlink [of path w1 H] by (auto intro: only_file_trans)
qed

lemma isolatedD:
  "isolated C \<Longrightarrow> apply_op C d f i op = Inr (d', f', n) \<Longrightarrow> f' = f \<and> only_layer C i d d'"
  unfolding isolated_def only_layer_def by blast

lemma within_client_op: "isolated C \<Longrightarrow> within C H path i (client_op C i op)"
  by (auto simp: within_def client_op_def split: sum.splits dest: isolatedD)

lemma within_digest [simp]: "within C H path i (digest_of H f)"
  by (simp add: digest_of_def split: option.splits)

lemma within_pin_report: "isolated C \<Longrightarrow> within C H path i (pin_report C H i r)"
  by (simp add: pin_report_def within_seq within_client_op split: option.splits)

section \<open>Every operation binds first\<close>

lemma bindsD:
  "binds C H path m \<Longrightarrow> database_mode s \<Longrightarrow> m (s, w) = (r, s', w') \<Longrightarrow>
     touched C H path (s, w) (s', w') \<and> ((\<exists>x. r = Inr x) \<longrightarrow> (\<exists>i. bound H path i s'))"
  unfolding binds_def by blast

lemma binds_layer_of: "binds C H path (layer_of C H path)"
  unfolding binds_def
  by (auto simp: layer_of_def Let_def touched_def bound_def database_mode_def
      split: option.splits if_splits sum.splits)

lemma binds_write_target: "binds C H path (write_target C H path)"
  using binds_layer_of [of C H path] by (simp add: binds_def write_target_db)

lemma touched_within:
  assumes "touched C H path (s, w) (s', w1)" and "bound H path i s'"
    and "only_layer C i (db w1) (db w')" and "only_file path (files w1) (files w')"
  shows "touched C H path (s, w) (s', w')"
  using assms unfolding touched_def bound_def prod.case
  by (auto intro: only_layer_trans only_file_trans)

lemma binds_seq:
  assumes m: "binds C H path m" and f: "\<And>x i. within C H path i (f x)"
  shows "binds C H path (seq_io m f)"
  unfolding binds_def
proof (intro allI impI)
  fix s w r s' w'
  assume s: "database_mode s" and run: "seq_io m f (s, w) = (r, s', w')"
  obtain r1 s1 w1 where m1: "m (s, w) = (r1, s1, w1)" by (metis prod_cases3)
  note b = bindsD [OF m s m1]
  show "touched C H path (s, w) (s', w') \<and> ((\<exists>x. r = Inr x) \<longrightarrow> (\<exists>i. bound H path i s'))"
  proof (cases r1)
    case (Inl e)
    with run m1 b show ?thesis by (auto simp: seq_io_def)
  next
    case (Inr x)
    with run m1 have fx: "f x (s1, w1) = (r, s', w')" by (simp add: seq_io_def)
    from b Inr obtain i where i: "bound H path i s1" by blast
    from withinD [OF f i fx] b i touched_within show ?thesis by blast
  qed
qed

lemma binds_targeted:
  assumes "\<And>i. within C H path i (f i)"
  shows "binds C H path (seq_io (write_target C H path) f)"
  unfolding binds_def
proof (intro allI impI)
  fix s w r s' w'
  assume s: "database_mode s" and run: "seq_io (write_target C H path) f (s, w) = (r, s', w')"
  obtain r1 s1 w1 where m1: "write_target C H path (s, w) = (r1, s1, w1)" by (metis prod_cases3)
  note b = bindsD [OF binds_write_target s m1]
  show "touched C H path (s, w) (s', w') \<and> ((\<exists>x. r = Inr x) \<longrightarrow> (\<exists>i. bound H path i s'))"
  proof (cases r1)
    case (Inl e)
    with run m1 b show ?thesis by (auto simp: seq_io_def)
  next
    case (Inr x)
    from b Inr obtain i where i: "bound H path i s1" by blast
    have "x = i"
      using m1 Inr s i by (auto simp: write_target_db layer_of_def Let_def bound_def database_mode_def
          split: option.splits if_splits sum.splits)
    with run m1 Inr have fx: "f i (s1, w1) = (r, s', w')" by (simp add: seq_io_def)
    from withinD [OF assms i fx] b i touched_within show ?thesis by blast
  qed
qed

lemma binds_written: "isolated C \<Longrightarrow> binds C H path (written C H path op)"
  unfolding written_def by (intro binds_targeted within_client_op)

lemma binds_submit: "isolated C \<Longrightarrow> binds C H path (seq_io (write_target C H path) (\<lambda>i.
    seq_io (client_op C i (Submit events)) (\<lambda>n. seq_io (pin_report C H i report) (\<lambda>_. give n))))"
  by (intro binds_targeted within_seq within_client_op within_pin_report within_simple)

lemma binds_refreshed: "binds C H path m \<Longrightarrow> binds C H path (and_refresh C H path m)"
  unfolding and_refresh_def by (intro binds_seq within_seq within_refresh within_simple) simp_all

lemma binds_quiet: "binds C H path m \<Longrightarrow> binds C H path (quiet m)"
  unfolding quiet_def by (intro binds_seq within_simple) simp_all

lemma binds_snapshot: "binds C H path (write_snapshot C H path)"
proof -
  have "binds C H path (seq_io (layer_of C H path) (\<lambda>i. seq_io (fetch_layer C i) (export H path i)))"
    by (intro binds_seq binds_layer_of within_seq within_simple within_export)
  then show ?thesis by (simp add: binds_def write_snapshot_def)
qed

lemma binds_read: "binds C H path (read_layer_file C H path)"
  using binds_snapshot [of C H path] by (simp add: binds_def read_layer_file_def)

lemma binds_ensure: "binds C H path (ensure_layer_file C H path d)"
  using binds_snapshot [of C H path] by (simp add: binds_def ensure_layer_file_def)

lemma within_written:
  assumes "isolated C"
  shows "within C H path i (written C H path op)"
  unfolding within_def
proof (intro allI impI)
  fix s w r s' w'
  assume s: "bound H path i s" and run: "written C H path op (s, w) = (r, s', w')"
  have "write_target C H path (s, w) = (Inr i, s, w)"
    using s by (simp add: write_target_db bound_db layer_of_bound)
  with run have "client_op C i op (s, w) = (r, s', w')"
    by (simp add: written_def seq_io_def)
  from withinD [OF within_client_op [OF assms] s this]
  show "s' = s \<and> only_layer C i (db w) (db w') \<and> only_file path (files w) (files w')" .
qed

lemma within_if: "(c \<Longrightarrow> within C H path i m) \<Longrightarrow> (\<not> c \<Longrightarrow> within C H path i n)
    \<Longrightarrow> within C H path i (if c then m else n)"
  by simp

text \<open>The digest is computed before anything is bound: a report that cannot be read changes nothing.\<close>

lemma binds_after_digest:
  assumes "\<And>d. binds C H path (f d)"
  shows "binds C H path (seq_io (digest_of H r) f)"
  using assms
  by (cases "report_sha256 H r")
    (auto simp: binds_def seq_io_def digest_of_def fail_def give_def touched_def)

lemma binds_stamp_report: "isolated C \<Longrightarrow> binds C H path (stamp_report_file C H path digest)"
  unfolding stamp_report_file_def and_refresh_def
  by (intro binds_after_digest binds_seq binds_read within_if within_seq within_written within_refresh
      within_simple)

lemmas binds_operations = binds_refreshed binds_written binds_submit binds_snapshot binds_read binds_ensure
  binds_stamp_report binds_layer_of

lemma binds_perform: "isolated C \<Longrightarrow> binds C H path (perform C H path k)"
  by (cases k)
    (simp_all add: binds_quiet binds_operations submit_events_def sign_def resolve_review_item_def
      countersign_def patch_layer_file_def restate_def stamp_event_identities_def store_layer_def
      query_layer_def)

section \<open>One layer and one snapshot per service\<close>

text \<open>Every file that is neither a path that resolves to \<open>P\<close> nor the marker of one.\<close>

definition other_file :: "'d host \<Rightarrow> string \<Rightarrow> string \<Rightarrow> bool" where
  "other_file H P q \<longleftrightarrow> (\<forall>path. resolve_path H path = P \<longrightarrow> q \<noteq> path \<and> q \<noteq> snapshot_marker path)"

lemma only_others:
  "only_file path f f' \<Longrightarrow> \<forall>q. other_file H (resolve_path H path) q \<longrightarrow> f' q = f q"
  by (auto simp: only_file_def other_file_def)

text \<open>
  In database mode a service stays with one layer and one snapshot: through any sequence of
  requests on any paths, successful or refused, there are one layer and one resolved path such that
  no other layer of the database and no other file has changed, and once bound the service is bound
  to them.
\<close>

theorem one_layer_per_service:
  fixes C :: "('s, 'd) client" and w :: "'s world"
  assumes "isolated C" and "served C H (new_service (Some b), w0) (s, w)"
  shows "\<exists>i P. (\<forall>j. j \<noteq> i \<longrightarrow> get_layer C (db w) j = get_layer C (db w0) j)
    \<and> (\<forall>q. other_file H P q \<longrightarrow> files w q = files w0 q)
    \<and> bound_id s \<in> {None, Some i} \<and> bound_path s \<in> {None, Some P}"
proof -
  define inv where "inv = (\<lambda>(s :: service, w :: 's world). database_mode s
    \<and> (case bound_id s of None \<Rightarrow> db w = db w0 | Some i \<Rightarrow> only_layer C i (db w0) (db w))
    \<and> (case bound_path s of None \<Rightarrow> files w = files w0
       | Some P \<Rightarrow> (\<forall>q. other_file H P q \<longrightarrow> files w q = files w0 q)))"
  have "inv (s, w)"
    using assms(2)
  proof (induction "(s, w)" arbitrary: s w)
    case start
    then show ?case by (simp add: inv_def new_service_def database_mode_def)
  next
    case (request sw path k)
    obtain s1 w1 where sw: "sw = (s1, w1)" by (cases sw)
    obtain r where run: "perform C H path k (s1, w1) = (r, s, w)"
      using request.hyps(3) sw by (metis prod.collapse)
    have inv1: "inv (s1, w1)" using request.hyps(2) sw by simp
    then have dbm: "database_mode s1" by (simp add: inv_def)
    have t: "touched C H path (s1, w1) (s, w)"
      using bindsD [OF binds_perform [OF assms(1)] dbm run] by blast
    have "database_mode s" using dbm t by (simp add: touched_def database_mode_def)
    moreover have "case bound_id s of None \<Rightarrow> db w = db w0 | Some i \<Rightarrow> only_layer C i (db w0) (db w)"
      using inv1 t unfolding inv_def touched_def prod.case
      by (cases "bound_id s1"; cases "bound_id s") (auto intro: only_layer_trans)
    moreover have "case bound_path s of None \<Rightarrow> files w = files w0
        | Some P \<Rightarrow> (\<forall>q. other_file H P q \<longrightarrow> files w q = files w0 q)"
      using inv1 t only_others [of path "files w1" "files w" H] unfolding inv_def touched_def prod.case
      by (cases "bound_path s1"; cases "bound_path s") auto
    ultimately show ?case by (simp add: inv_def)
  qed
  then show ?thesis
    by (cases "bound_id s"; cases "bound_path s") (auto simp: inv_def only_layer_def)
qed

text \<open>A small database: two layers, one repository that owns the first.\<close>

definition demo_client :: "(string \<Rightarrow> string, string) client" where
  "demo_client = \<lparr>find_layer = (\<lambda>d r. if r = ''repo'' then Some ''L1'' else None),
     get_layer = (\<lambda>d i. Inr (d i)),
     apply_op = (\<lambda>d f i op. Inr (d(i := ''new''), f, 1))\<rparr>"

definition demo_host :: "string host" where
  "demo_host = \<lparr>dumps = (\<lambda>d. d), marker_text = (\<lambda>i d. i), pinned_digest = (\<lambda>d. None),
     parse_file = Some, report_sha256 = (\<lambda>f. Some f), resolve_path = (\<lambda>p. p), can_write = (\<lambda>p. True),
     can_remove = (\<lambda>p. True)\<rparr>"

definition demo_world :: "(string \<Rightarrow> string) world" where
  "demo_world = \<lparr>db = (\<lambda>i. ''old''), files = (\<lambda>p. None)\<rparr>"

definition demo_binding :: binding where
  "demo_binding = \<lparr>b_layer = None, b_repo = Some ''repo''\<rparr>"

lemma demo_simps [simp]:
  "find_layer demo_client d r = (if r = ''repo'' then Some ''L1'' else None)"
  "get_layer demo_client d i = Inr (d i)"
  "apply_op demo_client d f i op = Inr (d(i := ''new''), f, 1)"
  "dumps demo_host t = t" "marker_text demo_host i t = i" "can_write demo_host p" "can_remove demo_host p"
  "resolve_path demo_host p = p" "pinned_digest demo_host t = None"
  "report_sha256 demo_host t = Some t" "parse_file demo_host t = Some t"
  "db demo_world = (\<lambda>i. ''old'')" "files demo_world = (\<lambda>p. None)"
  "b_layer demo_binding = None" "b_repo demo_binding = Some ''repo''"
  by (simp_all add: demo_client_def demo_host_def demo_world_def demo_binding_def)

lemma demo_isolated: "isolated demo_client"
  by (simp add: isolated_def)

lemmas io_defs = seq_io_def give_def fail_def layer_of_def write_target_def fetch_layer_def export_def
  write_file_def write_snapshot_def refresh_def client_op_def written_def digest_of_def pin_report_def
  and_refresh_def quiet_def resolve_binding_def database_mode_def new_service_def Let_def

lemmas op_defs = submit_events_def sign_def resolve_review_item_def countersign_def patch_layer_file_def
  restate_def stamp_event_identities_def store_layer_def query_layer_def read_layer_file_def
  ensure_layer_file_def stamp_report_file_def load_file_def

definition demo_signed :: "service \<times> (string \<Rightarrow> string) world" where
  "demo_signed = snd (perform demo_client demo_host ''r'' Do_sign (new_service (Some demo_binding), demo_world))"

lemma demo_signed_served:
  "served demo_client demo_host (new_service (Some demo_binding), demo_world) demo_signed"
  unfolding demo_signed_def by (intro served.intros)

theorem one_layer_per_service_witness:
  "\<exists>i P. (\<forall>j. j \<noteq> i \<longrightarrow> db (snd demo_signed) j = ''old'')
    \<and> (\<forall>q. other_file demo_host P q \<longrightarrow> files (snd demo_signed) q = None)
    \<and> bound_id (fst demo_signed) \<in> {None, Some i} \<and> bound_path (fst demo_signed) \<in> {None, Some P}"
  using one_layer_per_service [of demo_client demo_host demo_binding demo_world "fst demo_signed"
      "snd demo_signed"] demo_isolated demo_signed_served
  by simp

section \<open>File mode does not write over a snapshot\<close>

fun writes :: "'d request \<Rightarrow> bool" where
  "writes Do_read = False"
| "writes Do_snapshot = False"
| "writes Do_query = False"
| "writes (Do_stamp_report r) = False"
| "writes _ = True"

lemma write_target_refused:
  "\<not> database_mode s \<Longrightarrow> files w (snapshot_marker path) \<noteq> None \<Longrightarrow>
     write_target C H path (s, w) = (Inl (Read_only_snapshot path), s, w)"
  by (simp add: write_target_def)

lemma seq_refused: "m sw = (Inl e, sw') \<Longrightarrow> seq_io m f sw = (Inl e, sw')"
  by (simp add: seq_io_def)

text \<open>
  Without a database, a path that carries a snapshot marker is read-only: no request on it
  changes the service, the database client's state or any file, and every request that only writes
  is refused as a write over a snapshot. Pinning a report reads first: it changes nothing either.
\<close>

theorem file_mode_keeps_snapshots:
  assumes "\<not> database_mode s" and "files w (snapshot_marker path) \<noteq> None"
    and "perform C H path k (s, w) = (r, s', w')"
  shows "s' = s \<and> w' = w \<and> (writes k \<longrightarrow> r = Inl (Read_only_snapshot path))"
proof -
  note refused = write_target_refused [OF assms(1,2), of C H]
  have fm: "s_binding s = None" using assms(1) by (simp add: database_mode_def)
  show ?thesis
    using assms(3)
    by (cases k) (auto simp: op_defs quiet_def and_refresh_def written_def refused seq_refused
        digest_of_def write_snapshot_def fail_def give_def seq_io_def fm layer_of_def
        database_mode_def split: option.splits if_splits)
qed

definition adopted :: "(string \<Rightarrow> string) world" where
  "adopted = demo_world\<lparr>files := (\<lambda>p. if p = ''r'' then Some ''old'' else if p = ''r.snapshot'' then Some ''L1'' else None)\<rparr>"

theorem file_mode_keeps_snapshots_witness:
  "snd (perform demo_client demo_host ''r'' (Do_store ''x'') (new_service None, adopted)) = (new_service None, adopted)
   \<and> fst (perform demo_client demo_host ''r'' (Do_store ''x'') (new_service None, adopted)) = Inl (Read_only_snapshot ''r'')"
  using file_mode_keeps_snapshots [of "new_service None" adopted "''r''" demo_client demo_host
      "Do_store ''x''" "fst (perform demo_client demo_host ''r'' (Do_store ''x'') (new_service None, adopted))"
      "fst (snd (perform demo_client demo_host ''r'' (Do_store ''x'') (new_service None, adopted)))"
      "snd (snd (perform demo_client demo_host ''r'' (Do_store ''x'') (new_service None, adopted)))"]
  by (simp add: new_service_def database_mode_def adopted_def snapshot_marker_def prod_eq_iff)

section \<open>The snapshot after a request\<close>

definition current :: "('s, 'd) client \<Rightarrow> 'd host \<Rightarrow> string \<Rightarrow> service \<Rightarrow> 's world \<Rightarrow> bool" where
  "current C H path s w \<longleftrightarrow> (case bound_id s of None \<Rightarrow> False
     | Some i \<Rightarrow> (case get_layer C (db w) i of Inl e \<Rightarrow> False
       | Inr d \<Rightarrow> bound_path s = Some (resolve_path H path)
           \<and> files w path \<in> {None, Some (dumps H d)}
           \<and> (can_write H path \<and> can_write H (snapshot_marker path) \<longrightarrow>
                files w path = Some (dumps H d) \<and> files w (snapshot_marker path) \<noteq> None)))"

text \<open>A failed export leaves nothing stale: the snapshot can be removed, or it can be written and so can its marker.\<close>

definition undoable :: "'d host \<Rightarrow> string \<Rightarrow> bool" where
  "undoable H path \<longleftrightarrow> can_remove H path \<or> can_write H path \<and> can_write H (snapshot_marker path)"

lemma marker_other [simp]: "snapshot_marker path \<noteq> path" "path \<noteq> snapshot_marker path"
  by (simp_all add: snapshot_marker_def)

lemma layer_of_binds:
  "database_mode s \<Longrightarrow> layer_of C H path (s, w) = (Inr i, s', w') \<Longrightarrow>
     bound_id s' = Some i \<and> bound_path s' = Some (resolve_path H path) \<and> w' = w \<and> s_binding s' = s_binding s"
  by (auto simp: layer_of_def Let_def database_mode_def split: option.splits if_splits sum.splits)

lemma export_current:
  "export H path i d (s, w) = (Inr d', s', w') \<Longrightarrow> s' = s \<and> db w' = db w \<and> d' = d
     \<and> files w' path = Some (dumps H d) \<and> files w' (snapshot_marker path) \<noteq> None"
  by (auto simp: export_def seq_io_def write_file_def give_def split: if_splits)

lemma export_os_failure:
  "export H path i d (s, w) = (Inl e, s', w') \<Longrightarrow> s' = s \<and> db w' = db w
     \<and> (\<not> can_write H path \<or> \<not> can_write H (snapshot_marker path))"
  by (auto simp: export_def seq_io_def write_file_def give_def split: if_splits)

lemma write_snapshot_current:
  assumes "database_mode s" and "write_snapshot C H path (s, w) = (Inr d, s', w')"
  shows "current C H path s' w' \<and> s_binding s' = s_binding s"
proof -
  obtain r1 s1 w1 where l: "layer_of C H path (s, w) = (r1, s1, w1)" by (metis prod_cases3)
  show ?thesis
  proof (cases r1)
    case (Inl e)
    with l assms show ?thesis by (simp add: write_snapshot_def seq_io_def)
  next
    case (Inr i)
    note b = layer_of_binds [OF assms(1) l [unfolded Inr]]
    with l Inr assms show ?thesis
      by (auto simp: write_snapshot_def seq_io_def fetch_layer_def current_def
          split: sum.splits dest!: export_current)
  qed
qed

lemma write_snapshot_os_failure:
  assumes "database_mode s" and "write_snapshot C H path (s, w) = (Inl (Os_failure p), s', w')"
  shows "\<exists>i d. bound_id s' = Some i \<and> bound_path s' = Some (resolve_path H path)
    \<and> get_layer C (db w') i = Inr d
    \<and> (\<not> can_write H path \<or> \<not> can_write H (snapshot_marker path)) \<and> s_binding s' = s_binding s"
proof -
  obtain r1 s1 w1 where l: "layer_of C H path (s, w) = (r1, s1, w1)" by (metis prod_cases3)
  show ?thesis
  proof (cases r1)
    case (Inl e)
    with l assms have "layer_of C H path (s, w) = (Inl (Os_failure p), s1, w1)"
      by (simp add: write_snapshot_def seq_io_def)
    then show ?thesis
      using assms(1)
      by (auto simp: layer_of_def resolve_binding_def Let_def database_mode_def
          split: option.splits if_splits sum.splits)
  next
    case (Inr i)
    note b = layer_of_binds [OF assms(1) l [unfolded Inr]]
    with l Inr assms show ?thesis
      by (auto simp: write_snapshot_def seq_io_def fetch_layer_def
          split: sum.splits dest!: export_os_failure)
  qed
qed

lemma refresh_current:
  assumes "database_mode s" and "undoable H path" and "refresh C H path (s, w) = (Inr (), s', w')"
  shows "current C H path s' w'"
proof -
  obtain r1 s1 w1 where sn: "write_snapshot C H path (s, w) = (r1, s1, w1)" by (metis prod_cases3)
  show ?thesis
  proof (cases r1)
    case (Inr d)
    with sn assms have "s' = s1" "w' = w1" by (simp_all add: refresh_def)
    with write_snapshot_current [OF assms(1) sn [unfolded Inr]] show ?thesis by simp
  next
    case (Inl e)
    with sn assms(1,3) obtain p where e: "e = Os_failure p" and s': "s' = s1"
      and w': "w' = unlink H (snapshot_marker path) (unlink H path w1)"
      by (auto simp: refresh_def split: lerr.splits)
    from write_snapshot_os_failure [OF assms(1) sn [unfolded Inl e]] assms(2) s' w'
    show ?thesis by (auto simp: current_def unlink_def undoable_def)
  qed
qed

lemma seq_inr:
  "seq_io m f sw = (Inr y, sw') \<Longrightarrow> \<exists>x sw1. m sw = (Inr x, sw1) \<and> f x sw1 = (Inr y, sw')"
  by (auto simp: seq_io_def split: prod.splits sum.splits)

lemma and_refresh_current:
  assumes m: "binds C H path m" and s: "database_mode s" and w: "undoable H path"
    and run: "and_refresh C H path m (s, w) = (Inr x, s', w')"
  shows "current C H path s' w'"
proof -
  obtain y s1 w1 where 1: "m (s, w) = (Inr y, s1, w1)"
    and 2: "seq_io (refresh C H path) (\<lambda>_. give y) (s1, w1) = (Inr x, s', w')"
    using seq_inr [OF run [unfolded and_refresh_def]] by (metis prod.collapse)
  have "database_mode s1"
    using bindsD [OF m s 1] s by (simp add: touched_def database_mode_def)
  moreover have "refresh C H path (s1, w1) = (Inr (), s', w')"
    using seq_inr [OF 2] by (auto simp: give_def)
  ultimately show ?thesis using refresh_current w by blast
qed

lemma quiet_inr: "quiet m sw = (Inr (), sw') \<Longrightarrow> \<exists>x. m sw = (Inr x, sw')"
  by (auto simp: quiet_def give_def dest!: seq_inr)

fun refreshes :: "'d request \<Rightarrow> bool" where
  "refreshes (Do_store x) = False"
| "refreshes Do_query = False"
| "refreshes _ = True"

lemma stamp_report_current:
  assumes "isolated C" and s: "database_mode s" and w: "undoable H path"
    and run: "stamp_report_file C H path rep (s, w0) = (Inr x, s', w')"
  shows "current C H path s' w'"
proof -
  obtain dg sw where "digest_of H rep (s, w0) = (Inr dg, sw)" and
    "seq_io (read_layer_file C H path) (\<lambda>d. if pinned_digest H d = Some dg then give False
       else if truthy (pinned_digest H d) then fail (Other_report (or_str (pinned_digest H d) []))
       else and_refresh C H path (seq_io (written C H path (Pin_digest dg)) (\<lambda>_. give True))) sw
     = (Inr x, s', w')"
    using seq_inr [OF run [unfolded stamp_report_file_def]] by blast
  then obtain d s1 w1 where rd: "read_layer_file C H path (s, w0) = (Inr d, s1, w1)"
    and rest: "(if pinned_digest H d = Some dg then give False
       else if truthy (pinned_digest H d) then fail (Other_report (or_str (pinned_digest H d) []))
       else and_refresh C H path (seq_io (written C H path (Pin_digest dg)) (\<lambda>_. give True))) (s1, w1)
     = (Inr x, s', w')"
    by (auto simp: digest_of_def give_def fail_def split: option.splits dest!: seq_inr)
  from rd s have "current C H path s1 w1" "s_binding s1 = s_binding s"
    using write_snapshot_current [of s C H path w0 d s1 w1] by (simp_all add: read_layer_file_def)
  moreover have "binds C H path (seq_io (written C H path (Pin_digest dg)) (\<lambda>_. give True))"
    by (intro binds_seq binds_written assms(1) within_simple)
  ultimately show ?thesis
    using rest s and_refresh_current [of C H path _ s1 w1 x s' w', OF _ _ w]
    by (auto simp: give_def fail_def database_mode_def split: if_splits)
qed

text \<open>
  C34. After a request of a database service that exports the layer (every one but storing a whole layer and
  querying) and returns normally, the snapshot is current or gone: where the snapshot can be removed, or it and its marker can be
  written, the file either is absent or holds exactly the bound layer as the database has it then, and where both can be
  written it is present and marked. So a reader of the file never
  takes the state before such a write for the state after it, even when the export failed. Storing a whole
  layer leaves the old snapshot in place (\<open>store_leaves_snapshot\<close>).
\<close>

theorem snapshot_never_stale:
  assumes "isolated C" and "database_mode s" and "undoable H path" and "refreshes k"
    and "perform C H path k (s, w) = (Inr (), s', w')"
  shows "current C H path s' w'"
proof -
  have snap: "write_snapshot C H path (s, w) = (Inr d, s', w') \<Longrightarrow> current C H path s' w'" for d
    by (drule write_snapshot_current [OF assms(2)]) (erule conjunct1)
  have wr: "and_refresh C H path m (s, w) = (Inr x, s', w') \<Longrightarrow> binds C H path m \<Longrightarrow>
      current C H path s' w'" for m and x :: nat
    by (rule and_refresh_current [OF _ assms(2,3)])
  note b = binds_written [OF assms(1)] binds_submit [OF assms(1)]
  show ?thesis
  proof (cases k)
    case (Do_stamp_report rep)
    with assms show ?thesis by (auto dest!: quiet_inr intro: stamp_report_current)
  next
    case (Do_ensure d)
    with assms show ?thesis by (auto simp: ensure_layer_file_def dest!: quiet_inr intro: snap)
  next
    case Do_read
    with assms show ?thesis by (auto simp: read_layer_file_def dest!: quiet_inr intro: snap)
  qed (use assms in \<open>auto simp: submit_events_def sign_def resolve_review_item_def countersign_def
      patch_layer_file_def restate_def stamp_event_identities_def dest!: quiet_inr intro: snap wr b\<close>)
qed

theorem snapshot_never_stale_witness:
  "current demo_client demo_host ''r'' (fst demo_signed) (snd demo_signed)"
proof -
  have "perform demo_client demo_host ''r'' Do_sign (new_service (Some demo_binding), demo_world)
      = (Inr (), fst demo_signed, snd demo_signed)"
    by (simp add: demo_signed_def op_defs io_defs snapshot_marker_def or_str_def truthy_def)
  then show ?thesis
    by (rule snapshot_never_stale [OF demo_isolated, rotated -1])
      (simp_all add: new_service_def database_mode_def undoable_def)
qed

text \<open>Storing a whole layer is the write that is not followed by an export: the file stays as it was.\<close>

definition demo_read :: "service \<times> (string \<Rightarrow> string) world" where
  "demo_read = snd (perform demo_client demo_host ''r'' Do_read (new_service (Some demo_binding), demo_world))"

lemma store_leaves_snapshot:
  "fst (perform demo_client demo_host ''r'' (Do_store ''new'') demo_read) = Inr ()
   \<and> db (snd (snd (perform demo_client demo_host ''r'' (Do_store ''new'') demo_read))) ''L1'' = ''new''
   \<and> files (snd (snd (perform demo_client demo_host ''r'' (Do_store ''new'') demo_read))) ''r'' = Some ''old''"
  by (simp add: demo_read_def op_defs io_defs snapshot_marker_def or_str_def truthy_def)

end
