(* ===== verification/Py_Json.thy ===== *)
theory Py_Json
  imports Prelude "HOL-Library.Multiset"
begin

text \<open>
  What the program uses of Python's \<open>json\<close>: values and \<open>dumps\<close>, with its escapes
  (\<open>ensure_ascii\<close>), its separators and \<open>sort_keys\<close>. A number is kept as the text Python writes for
  it. The compact form is injective: two values with the same text are the same value.
\<close>

section \<open>Values\<close>

datatype json =
    JNull
  | JBool bool
  | JNum string
  | JStr string
  | JArr "json list"
  | JObj "(string \<times> json) list"

definition hex_digit :: "nat \<Rightarrow> char" where
  "hex_digit n = (if n < 10 then char_of (48 + n) else char_of (87 + n))"

definition hex_value :: "char \<Rightarrow> nat" where
  "hex_value c = (if is_digit c then of_char c - 48 else of_char c - 87)"

definition esc_char :: "char \<Rightarrow> string" where
  "esc_char c =
     (if c = CHR 0x22 then [CHR 0x5C, CHR 0x22]
      else if c = CHR 0x5C then [CHR 0x5C, CHR 0x5C]
      else if c = CHR 0x0A then [CHR 0x5C, CHR ''n'']
      else if c = CHR 0x0D then [CHR 0x5C, CHR ''r'']
      else if c = CHR 0x09 then [CHR 0x5C, CHR ''t'']
      else if c = CHR 0x0C then [CHR 0x5C, CHR ''f'']
      else if c = CHR 0x08 then [CHR 0x5C, CHR ''b'']
      else if code_in 32 126 c then [c]
      else [CHR 0x5C, CHR ''u'', CHR ''0'', CHR ''0'', hex_digit (of_char c div 16), hex_digit (of_char c mod 16)])"

definition json_str :: "string \<Rightarrow> string" where
  "json_str s = CHR 0x22 # concat (map esc_char s) @ [CHR 0x22]"

lemma size_json_pair: "p \<in> set kvs \<Longrightarrow> size (snd p) < Suc (size_list (size_prod (\<lambda>_. 0) size) kvs)"
  by (induction kvs) auto

function dumps_with :: "string \<Rightarrow> string \<Rightarrow> json \<Rightarrow> string" where
  "dumps_with isep ksep JNull = ''null''"
| "dumps_with isep ksep (JBool b) = (if b then ''true'' else ''false'')"
| "dumps_with isep ksep (JNum t) = t"
| "dumps_with isep ksep (JStr s) = json_str s"
| "dumps_with isep ksep (JArr xs) = ''['' @ join isep (map (dumps_with isep ksep) xs) @ '']''"
| "dumps_with isep ksep (JObj kvs) =
     ''{'' @ join isep (map (\<lambda>kv. json_str (fst kv) @ ksep @ dumps_with isep ksep (snd kv)) kvs) @ ''}''"
  by pat_completeness auto
termination
  by (relation "measure (\<lambda>(a, b, j). size j)") (auto dest: size_json_pair simp: less_Suc_eq_le size_list_estimation')

definition compact :: "json \<Rightarrow> string" where
  "compact = dumps_with '','' '':''"

definition dumps_line :: "json \<Rightarrow> string" where
  "dumps_line = dumps_with '', '' '': ''"

function sort_keys :: "json \<Rightarrow> json" where
  "sort_keys JNull = JNull"
| "sort_keys (JBool b) = JBool b"
| "sort_keys (JNum t) = JNum t"
| "sort_keys (JStr s) = JStr s"
| "sort_keys (JArr xs) = JArr (map sort_keys xs)"
| "sort_keys (JObj kvs) = JObj (sort_key fst (map (\<lambda>kv. (fst kv, sort_keys (snd kv))) kvs))"
  by pat_completeness auto
termination
  by (relation "measure size") (auto dest: size_json_pair simp: less_Suc_eq_le size_list_estimation')

section \<open>The compact form is injective\<close>

text \<open>
  Texts that \<open>dumps\<close> writes for a number: printable, no delimiter in it, and no other value starts
  like it. A dictionary has each key once.
\<close>

definition number_text :: "string \<Rightarrow> bool" where
  "number_text t \<longleftrightarrow> t \<noteq> [] \<and> (is_digit (hd t) \<or> hd t \<in> {CHR ''-'', CHR ''N'', CHR ''I''})
     \<and> list_all (code_in 33 126) t \<and> set t \<inter> {CHR '','', CHR '']'', CHR ''}''} = {}"

function json_ok :: "json \<Rightarrow> bool" where
  "json_ok JNull = True"
| "json_ok (JBool b) = True"
| "json_ok (JNum t) = number_text t"
| "json_ok (JStr s) = True"
| "json_ok (JArr xs) = list_all json_ok xs"
| "json_ok (JObj kvs) \<longleftrightarrow> distinct (map fst kvs) \<and> list_all (\<lambda>kv. json_ok (snd kv)) kvs"
  by pat_completeness auto
termination
  by (relation "measure size") (auto dest: size_json_pair simp: less_Suc_eq_le size_list_estimation')

text \<open>One character read back.\<close>

fun unesc :: "string \<Rightarrow> (char \<times> string) option" where
  "unesc [] = None"
| "unesc (c # r) =
     (if c = CHR 0x22 then None
      else if c \<noteq> CHR 0x5C then Some (c, r)
      else (case r of
          e # r' \<Rightarrow>
            (if e = CHR ''n'' then Some (CHR 0x0A, r')
             else if e = CHR ''r'' then Some (CHR 0x0D, r')
             else if e = CHR ''t'' then Some (CHR 0x09, r')
             else if e = CHR ''f'' then Some (CHR 0x0C, r')
             else if e = CHR ''b'' then Some (CHR 0x08, r')
             else if e = CHR ''u'' then
               (case r' of _ # _ # h # l # r'' \<Rightarrow> Some (char_of (16 * hex_value h + hex_value l), r'') | _ \<Rightarrow> None)
             else Some (e, r'))
        | [] \<Rightarrow> None))"

lemma hex_value_digit: "n < 16 \<Longrightarrow> hex_value (hex_digit n) = n"
  by (simp add: hex_value_def hex_digit_def is_digit_def code_in_def)

lemma code_below: "of_char c < (256 :: nat)"
  using mod_less_divisor [of 256 "of_char c :: nat"] by (simp del: mod_less_divisor)

lemma unesc_esc: "unesc (esc_char c @ r) = Some (c, r)"
proof -
  have "of_char c div 16 < (16 :: nat)" "of_char c mod 16 < (16 :: nat)"
    using code_below [of c] by (simp_all add: less_mult_imp_div_less)
  then have "char_of (16 * hex_value (hex_digit (of_char c div 16)) + hex_value (hex_digit (of_char c mod 16))) = c"
    by (simp add: hex_value_digit)
  then show ?thesis by (simp add: esc_char_def)
qed

lemma esc_char_not_quote: "hd (esc_char c) \<noteq> CHR 0x22" "esc_char c \<noteq> []"
  by (simp_all add: esc_char_def)

lemma esc_unique:
  "concat (map esc_char s) @ CHR 0x22 # xs = concat (map esc_char t) @ CHR 0x22 # ys \<Longrightarrow> s = t \<and> xs = ys"
proof (induction s arbitrary: t)
  case Nil
  show ?case
  proof (cases t)
    case (Cons d t')
    with Nil esc_char_not_quote [of d] show ?thesis by (cases "esc_char d") auto
  qed (use Nil in simp)
next
  case (Cons c s)
  show ?case
  proof (cases t)
    case Nil
    with Cons.prems esc_char_not_quote [of c] show ?thesis by (cases "esc_char c") auto
  next
    case (Cons d t')
    with Cons.prems have eq: "esc_char c @ concat (map esc_char s) @ CHR 0x22 # xs
        = esc_char d @ concat (map esc_char t') @ CHR 0x22 # ys" by simp
    from arg_cong [OF eq, of unesc] have "c = d" "concat (map esc_char s) @ CHR 0x22 # xs
        = concat (map esc_char t') @ CHR 0x22 # ys"
      by (simp_all add: unesc_esc)
    with Cons.IH Cons show ?thesis by blast
  qed
qed

lemma json_str_unique: "json_str s @ xs = json_str t @ ys \<Longrightarrow> s = t \<and> xs = ys"
  by (simp add: json_str_def) (drule esc_unique, simp)

definition delimited :: "string \<Rightarrow> bool" where
  "delimited xs \<longleftrightarrow> xs = [] \<or> hd xs \<in> {CHR '','', CHR '']'', CHR ''}''}"

lemma number_unique:
  assumes "number_text s" "number_text t" "delimited xs" "delimited ys" and eq: "s @ xs = t @ ys"
  shows "s = t \<and> xs = ys"
proof -
  let ?P = "\<lambda>c. c \<notin> {CHR '','', CHR '']'', CHR ''}''}"
  have w: "takeWhile ?P (u @ zs) = u" if "number_text u" "delimited zs" for u zs
  proof -
    have "takeWhile ?P zs = []" using that(2) by (cases zs) (auto simp: delimited_def)
    moreover have "\<forall>c \<in> set u. ?P c" using that(1) by (auto simp: number_text_def)
    ultimately show ?thesis by (simp add: takeWhile_append)
  qed
  from arg_cong [OF eq, of "takeWhile ?P"] w [OF assms(1,3)] w [OF assms(2,4)] have "s = t" by simp
  with eq show ?thesis by simp
qed

text \<open>The first character tells the kind of a value.\<close>

definition first_kind :: "char \<Rightarrow> nat" where
  "first_kind c = (if c = CHR ''n'' then 0 else if c \<in> {CHR ''t'', CHR ''f''} then 1 else if c = CHR 0x22 then 3
     else if c = CHR ''['' then 4 else if c = CHR ''{'' then 5 else 2)"

fun json_kind :: "json \<Rightarrow> nat" where
  "json_kind JNull = 0"
| "json_kind (JBool b) = 1"
| "json_kind (JNum t) = 2"
| "json_kind (JStr s) = 3"
| "json_kind (JArr xs) = 4"
| "json_kind (JObj kvs) = 5"

lemma compact_first: "json_ok j \<Longrightarrow> compact j \<noteq> [] \<and> first_kind (hd (compact j)) = json_kind j"
  by (cases j) (auto simp: compact_def json_str_def first_kind_def number_text_def is_digit_def code_in_def)

lemma same_kind:
  assumes "json_ok j" "json_ok j'" and "compact j @ xs = compact j' @ ys"
  shows "json_kind j = json_kind j'"
  using assms compact_first [of j] compact_first [of j'] by (metis hd_append2)

lemma join_Cons: "join sep (w # ws) = w @ (if ws = [] then [] else sep @ join sep ws)"
  by (cases ws) simp_all

lemma join_unique:
  assumes unique: "\<And>a b u v. a \<in> set as \<Longrightarrow> b \<in> set bs \<Longrightarrow> delimited u \<Longrightarrow> delimited v \<Longrightarrow>
      f a @ u = f b @ v \<Longrightarrow> a = b \<and> u = v"
    and first: "\<And>a. a \<in> set as \<union> set bs \<Longrightarrow> f a \<noteq> [] \<and> hd (f a) \<noteq> e"
    and e: "e \<in> {CHR '']'', CHR ''}''}"
    and eq: "join '','' (map f as) @ e # xs = join '','' (map f bs) @ e # ys"
  shows "as = bs \<and> xs = ys"
  using assms
proof (induction as arbitrary: bs)
  case Nil
  show ?case
  proof (cases bs)
    case (Cons b bs')
    have "f b \<noteq> [] \<and> hd (f b) \<noteq> e" by (rule Nil.prems(2)) (simp add: Cons)
    with Cons Nil.prems(4) show ?thesis by (cases "f b") (auto simp: join_Cons)
  qed (use Nil in simp)
next
  case (Cons a as)
  show ?case
  proof (cases bs)
    case Nil
    have "f a \<noteq> [] \<and> hd (f a) \<noteq> e" by (rule Cons.prems(2)) simp
    with Nil Cons.prems(4) show ?thesis by (cases "f a") (auto simp: join_Cons)
  next
    case (Cons b bs')
    let ?u = "(if as = [] then [] else '','' @ join '','' (map f as)) @ e # xs"
    let ?v = "(if bs' = [] then [] else '','' @ join '','' (map f bs')) @ e # ys"
    have d: "delimited ?u" "delimited ?v" using Cons.prems(3) by (auto simp: delimited_def)
    have "f a @ ?u = f b @ ?v" using Cons.prems(4) Cons by (simp add: join_Cons)
    from Cons.prems(1) [OF _ _ d this] have "a = b \<and> ?u = ?v" by (simp only: Cons list.set_intros)
    then have ab: "a = b" "?u = ?v" by (rule conjunct1, elim conjunct2)
    have rest: "join '','' (map f as) @ e # xs = join '','' (map f bs') @ e # ys"
      using ab(2) Cons.prems(3) by (auto split: if_splits)
    have "as = bs' \<and> xs = ys"
      by (rule Cons.IH [OF _ _ Cons.prems(3) rest]) (use Cons.prems(1,2) Cons in auto)
    with ab Cons show ?thesis by simp
  qed
qed

lemma compact_unique:
  "json_ok j \<Longrightarrow> json_ok j' \<Longrightarrow> delimited xs \<Longrightarrow> delimited ys \<Longrightarrow>
     compact j @ xs = compact j' @ ys \<Longrightarrow> j = j' \<and> xs = ys"
proof (induction j arbitrary: j' xs ys)
  case JNull
  from same_kind [OF JNull(1,2,5)] JNull show ?case by (cases j') (auto simp: compact_def)
next
  case (JBool b)
  from same_kind [OF JBool(1,2,5)] JBool show ?case
    by (cases j') (auto simp: compact_def split: if_splits)
next
  case (JNum t)
  from same_kind [OF JNum(1,2,5)] JNum show ?case
    by (cases j') (auto simp: compact_def dest: number_unique)
next
  case (JStr s)
  from same_kind [OF JStr(1,2,5)] JStr show ?case
    by (cases j') (auto simp: compact_def dest: json_str_unique)
next
  case (JArr vs)
  from same_kind [OF JArr.prems(1,2,5)] obtain ws where j': "j' = JArr ws" by (cases j') auto
  have ok: "\<forall>v \<in> set vs. json_ok v" "\<forall>w \<in> set ws. json_ok w"
    using JArr.prems(1,2) j' by (simp_all add: list_all_iff)
  have "vs = ws \<and> xs = ys"
  proof (rule join_unique [where f = compact and e = "CHR '']''"])
    show "a = b \<and> u = v" if "a \<in> set vs" "b \<in> set ws" "delimited u" "delimited v"
      "compact a @ u = compact b @ v" for a b u v
      using JArr.IH [OF that(1) _ _ that(3,4,5)] ok that by blast
    show "compact a \<noteq> [] \<and> hd (compact a) \<noteq> CHR '']''" if "a \<in> set vs \<union> set ws" for a
      using compact_first [of a] ok that
      by (cases a) (auto simp: compact_def json_str_def number_text_def is_digit_def code_in_def)
    show "join '','' (map compact vs) @ CHR '']'' # xs = join '','' (map compact ws) @ CHR '']'' # ys"
      using JArr.prems(5) j' by (simp add: compact_def)
  qed simp
  with j' show ?case by simp
next
  case (JObj kvs)
  let ?f = "\<lambda>kv. json_str (fst kv) @ '':'' @ compact (snd kv)"
  from same_kind [OF JObj.prems(1,2,5)] obtain lws where j': "j' = JObj lws" by (cases j') auto
  have ok: "\<forall>v \<in> set kvs. json_ok (snd v)" "\<forall>w \<in> set lws. json_ok (snd w)"
    using JObj.prems(1,2) j' by (simp_all add: list_all_iff)
  have "kvs = lws \<and> xs = ys"
  proof (rule join_unique [where f = ?f and e = "CHR ''}''"])
    show "a = b \<and> u = v" if a: "a \<in> set kvs" and b: "b \<in> set lws" and d: "delimited u" "delimited v"
      and eq: "?f a @ u = ?f b @ v" for a b u v
    proof -
      from eq have 1: "fst a = fst b" "compact (snd a) @ u = compact (snd b) @ v"
        using json_str_unique [of "fst a" "'':'' @ compact (snd a) @ u" "fst b" "'':'' @ compact (snd b) @ v"]
        by simp_all
      have "snd a \<in> Basic_BNFs.snds a" by (cases a) simp
      from JObj.IH [OF a this _ _ d 1(2)] ok a b have "snd a = snd b \<and> u = v" by blast
      with 1(1) show ?thesis by (simp add: prod_eq_iff)
    qed
    show "?f a \<noteq> [] \<and> hd (?f a) \<noteq> CHR ''}''" if "a \<in> set kvs \<union> set lws" for a
      by (simp add: json_str_def)
    show "join '','' (map ?f kvs) @ CHR ''}'' # xs = join '','' (map ?f lws) @ CHR ''}'' # ys"
      using JObj.prems(5) j' by (simp add: compact_def)
  qed simp
  with j' show ?case by simp
qed

lemma compact_inject: "json_ok j \<Longrightarrow> json_ok j' \<Longrightarrow> compact j = compact j' \<Longrightarrow> j = j'"
  using compact_unique [of j j' "[]" "[]"] by (simp add: delimited_def)

section \<open>Sorted keys\<close>

lemma json_ok_sort_keys: "json_ok j \<Longrightarrow> json_ok (sort_keys j)"
proof (induction j)
  case (JObj kvs)
  have "mset (map fst (sort_key fst (map (\<lambda>kv. (fst kv, sort_keys (snd kv))) kvs)))
      = mset (map fst kvs)"
    by (simp add: multiset.map_comp comp_def)
  then have "distinct (map fst (sort_key fst (map (\<lambda>kv. (fst kv, sort_keys (snd kv))) kvs)))"
    using JObj.prems by (metis json_ok.simps(6) mset_eq_imp_distinct_iff)
  moreover have "json_ok (sort_keys (snd kv))" if "kv \<in> set kvs" for kv
    using JObj.IH [OF that, of "snd kv"] JObj.prems that by (cases kv) (auto simp: list_all_iff)
  ultimately show ?case by (auto simp: list_all_iff)
qed (auto simp: list_all_iff)

section \<open>A line of text\<close>

lemma printable_escape: "list_all (code_in 32 126) (esc_char c)"
proof -
  have h: "n < 16 \<Longrightarrow> code_in 32 126 (hex_digit n)" for n by (simp add: hex_digit_def code_in_def)
  have "of_char c div 16 < (16 :: nat)" "of_char c mod 16 < (16 :: nat)"
    using code_below [of c] by (simp_all add: less_mult_imp_div_less)
  then show ?thesis by (simp add: esc_char_def h) (simp add: code_in_def)
qed

lemma printable_str: "list_all (code_in 32 126) (json_str s)"
proof -
  have "list_all (code_in 32 126) (concat (map esc_char s))"
    using printable_escape by (induction s) auto
  then show ?thesis by (simp add: json_str_def) (simp add: code_in_def)
qed

lemma list_all_join: "list_all P sep \<Longrightarrow> (\<And>w. w \<in> set ws \<Longrightarrow> list_all P w) \<Longrightarrow> list_all P (join sep ws)"
  by (induction sep ws rule: join.induct) auto

lemma printable_line: "json_ok j \<Longrightarrow> list_all (code_in 32 126) (dumps_line j)"
proof (induction j)
  case (JNum t)
  then show ?case by (auto simp: dumps_line_def number_text_def list_all_iff code_in_def)
next
  case (JArr xs)
  have "list_all (code_in 32 126) (join '', '' (map dumps_line xs))"
    using JArr by (intro list_all_join) (auto simp: list_all_iff code_in_def)
  then show ?case by (simp add: dumps_line_def) (simp add: code_in_def)
next
  case (JObj kvs)
  have "list_all (code_in 32 126) (join '', '' (map (\<lambda>kv. json_str (fst kv) @ '': '' @ dumps_line (snd kv)) kvs))"
  proof (intro list_all_join)
    fix w assume "w \<in> set (map (\<lambda>kv. json_str (fst kv) @ '': '' @ dumps_line (snd kv)) kvs)"
    then obtain kv where kv: "kv \<in> set kvs" "w = json_str (fst kv) @ '': '' @ dumps_line (snd kv)" by auto
    have "list_all (code_in 32 126) (dumps_line (snd kv))"
      using JObj.IH [OF kv(1), of "snd kv"] JObj.prems kv(1) by (cases kv) (auto simp: list_all_iff)
    with kv(2) printable_str show "list_all (code_in 32 126) w" by (simp) (simp add: code_in_def)
  qed (simp add: code_in_def)
  then show ?case by (simp add: dumps_line_def) (simp add: code_in_def)
qed (auto simp: dumps_line_def printable_str code_in_def)

section \<open>Reading values\<close>

text \<open>Python's truth value of a number, from its text, and of a value.\<close>

definition number_zero :: "string \<Rightarrow> bool" where
  "number_zero t \<longleftrightarrow> list_all (\<lambda>c. c \<in> set ''0.-+'') (takeWhile (\<lambda>c. c \<notin> set ''eE'') t)"

fun json_true :: "json \<Rightarrow> bool" where
  "json_true JNull = False"
| "json_true (JBool b) = b"
| "json_true (JNum t) = (\<not> number_zero t)"
| "json_true (JStr s) = (s \<noteq> [])"
| "json_true (JArr xs) = (xs \<noteq> [])"
| "json_true (JObj kvs) = (kvs \<noteq> [])"

text \<open>
  \<open>d.get(k)\<close>, which fails on a value that is no object, and \<open>(d.get(k) or {}).items()\<close>, which also fails
  on a true value that is no object.
\<close>

definition json_get :: "string \<Rightarrow> json \<Rightarrow> string + json" where
  "json_get k d = (case d of JObj kvs \<Rightarrow> Inr (case map_of kvs k of None \<Rightarrow> JNull | Some v \<Rightarrow> v)
     | _ \<Rightarrow> Inl ''AttributeError'')"

definition json_items :: "string \<Rightarrow> json \<Rightarrow> string + (string \<times> json) list" where
  "json_items k d = bind_res (json_get k d) (\<lambda>v.
     if json_true v then (case v of JObj kvs \<Rightarrow> Inr kvs | _ \<Rightarrow> Inl ''AttributeError'') else Inr [])"

end
