(* ===== verification/History.thy ===== *)
theory History
  imports Py_Json
begin

text \<open>
  \<open>metrics/history.py\<close>: the metrics journal, one JSON row per line, each row carrying its own hash and
  the hash of the row before it. A row is a dictionary with its order; the journal is the text of
  its file, \<open>None\<close> when there is no file. Reading one line (\<open>json.loads\<close>) and the hash are arguments;
  the canonical text of a row is written out. Two numbers are equal when they are written alike, and
  a line that is JSON but no object is outside the model. Trend lines and the dashboard are left out.
\<close>

section \<open>Rows\<close>

type_synonym row = "(string \<times> json) list"

definition canonical :: "row \<Rightarrow> string" where
  "canonical r = compact (sort_keys (JObj (filter (\<lambda>kv. fst kv \<noteq> ''row_sha'') r)))"

definition sha :: "(string \<Rightarrow> string) \<Rightarrow> row \<Rightarrow> string" where
  "sha sha256 r = sha256 (canonical r)"

text \<open>\<open>row.get(key, "")\<close>\<close>

definition get_or_empty :: "row \<Rightarrow> string \<Rightarrow> json" where
  "get_or_empty r k = (case map_of r k of None \<Rightarrow> JStr [] | Some v \<Rightarrow> v)"

definition read_rows :: "(string \<Rightarrow> row option) \<Rightarrow> string option \<Rightarrow> row list" where
  "read_rows loads journal = (case journal of
       None \<Rightarrow> []
     | Some text \<Rightarrow> List.map_filter (\<lambda>line. let l = strip line in if l = [] then None else loads l)
                     (split_lines text))"

definition previous :: "string \<Rightarrow> string option \<Rightarrow> row list \<Rightarrow> row option" where
  "previous source before rs =
     (let cand = filter (\<lambda>r. map_of r ''source'' = Some (JStr source)
            \<and> (case before of None \<Rightarrow> True
               | Some b \<Rightarrow> (case get_or_empty r ''snapshot_at'' of JStr s \<Rightarrow> s < b | _ \<Rightarrow> False))) rs in
      if cand = [] then None else Some (last cand))"

definition field :: "json \<Rightarrow> string \<Rightarrow> json" where
  "field j k = (case j of JObj kvs \<Rightarrow> (case map_of kvs k of None \<Rightarrow> JNull | Some v \<Rightarrow> v) | _ \<Rightarrow> JNull)"

definition series :: "string \<Rightarrow> string \<Rightarrow> row list \<Rightarrow> (string \<times> json) list" where
  "series source key rs = List.map_filter (\<lambda>r.
     let v = field (field (JObj r) ''metrics'') key in
     if map_of r ''source'' = Some (JStr source) \<and> v \<noteq> JNull
     then Some (case get_or_empty r ''snapshot_at'' of JStr s \<Rightarrow> take 10 s | _ \<Rightarrow> [], v) else None) rs"

section \<open>Appending\<close>

text \<open>What \<open>append\<close> is given, and what it reads from the clock and the package.\<close>

record snapshot =
  sn_source :: string
  sn_metrics :: row
  sn_note :: string
  sn_hv :: "string option"
  sn_now :: string
  sn_engine :: string

definition drop_nulls :: "row \<Rightarrow> row" where
  "drop_nulls ms = filter (\<lambda>kv. snd kv \<noteq> JNull) ms"

definition end_sha :: "row list \<Rightarrow> json" where
  "end_sha rs = (if rs = [] then JStr [] else get_or_empty (last rs) ''row_sha'')"

definition row_body :: "snapshot \<Rightarrow> json \<Rightarrow> row" where
  "row_body S prev_sha =
     [(''snapshot_at'', JStr (sn_now S)), (''source'', JStr (sn_source S)),
      (''harness_version'', JStr (or_str (sn_hv S) (sn_engine S))), (''note'', JStr (sn_note S)),
      (''metrics'', JObj (drop_nulls (sn_metrics S))), (''prev_sha'', prev_sha)]"

definition new_row :: "(string \<Rightarrow> string) \<Rightarrow> snapshot \<Rightarrow> json \<Rightarrow> row" where
  "new_row sha256 S prev_sha =
     row_body S prev_sha @ [(''row_sha'', JStr (sha sha256 (row_body S prev_sha)))]"

definition append_row :: "(string \<Rightarrow> row option) \<Rightarrow> (string \<Rightarrow> string) \<Rightarrow> snapshot \<Rightarrow> string option
    \<Rightarrow> row \<times> string option" where
  "append_row loads sha256 S journal =
     (let r = new_row sha256 S (end_sha (read_rows loads journal)) in
      (r, Some ((case journal of None \<Rightarrow> [] | Some t \<Rightarrow> t) @ dumps_line (JObj r) @ [CHR 0x0A])))"

definition append_if_changed :: "(string \<Rightarrow> row option) \<Rightarrow> (string \<Rightarrow> string) \<Rightarrow> snapshot \<Rightarrow> string option
    \<Rightarrow> row option \<times> string option" where
  "append_if_changed loads sha256 S journal =
     (let same = (case previous (sn_source S) None (read_rows loads journal) of
            None \<Rightarrow> False
          | Some r \<Rightarrow> r \<noteq> [] \<and> sn_note S = []
              \<and> map_option sort_keys (map_of r ''metrics'') = Some (sort_keys (JObj (drop_nulls (sn_metrics S))))) in
      if same then (None, journal)
      else (case append_row loads sha256 (S\<lparr>sn_metrics := drop_nulls (sn_metrics S)\<rparr>) journal of
              (r, j) \<Rightarrow> (Some r, j)))"

section \<open>Verification\<close>

datatype issue = No_row_sha nat | Row_altered nat | Chain_broken nat

definition row_issues :: "(string \<Rightarrow> string) \<Rightarrow> nat \<Rightarrow> json \<Rightarrow> row \<Rightarrow> issue list" where
  "row_issues sha256 i prev r =
     (case map_of r ''row_sha'' of
        None \<Rightarrow> [No_row_sha i]
      | Some s \<Rightarrow> (if JStr (sha sha256 r) \<noteq> s then [Row_altered i] else [])
          @ (if get_or_empty r ''prev_sha'' \<noteq> prev then [Chain_broken i] else []))"

fun verify_from :: "(string \<Rightarrow> string) \<Rightarrow> nat \<Rightarrow> json \<Rightarrow> row list \<Rightarrow> issue list" where
  "verify_from sha256 i prev [] = []"
| "verify_from sha256 i prev (r # rs) =
     row_issues sha256 i prev r @ verify_from sha256 (Suc i) (get_or_empty r ''row_sha'') rs"

definition verify :: "(string \<Rightarrow> row option) \<Rightarrow> (string \<Rightarrow> string) \<Rightarrow> string option \<Rightarrow> bool \<times> issue list" where
  "verify loads sha256 journal =
     (let issues = verify_from sha256 1 (JStr []) (read_rows loads journal) in (issues = [], issues))"

section \<open>Reading back what was appended\<close>

text \<open>A journal that a crash has not left in the middle of a line.\<close>

definition whole_lines :: "string option \<Rightarrow> bool" where
  "whole_lines journal = (case journal of None \<Rightarrow> True | Some t \<Rightarrow> t = [] \<or> last t = CHR 0x0A)"

lemma printable_no_break: "code_in 32 126 c \<Longrightarrow> \<not> is_break c"
  by (auto simp: code_in_def is_break_def)

lemma dumps_line_obj: "\<exists>m. dumps_line (JObj r) = CHR ''{'' # m @ [CHR ''}'']"
  by (simp add: dumps_line_def)

lemma strip_line: "strip (dumps_line (JObj r)) = dumps_line (JObj r)"
  using dumps_line_obj [of r] by (intro strip_id) (auto simp: is_space_def code_in_def)

lemma read_rows_append:
  assumes "whole_lines journal" and "json_ok (JObj r)" and "loads (dumps_line (JObj r)) = Some r"
  shows "read_rows loads (Some ((case journal of None \<Rightarrow> [] | Some t \<Rightarrow> t) @ dumps_line (JObj r) @ [CHR 0x0A]))
    = read_rows loads journal @ [r]"
proof -
  have "list_all (\<lambda>c. \<not> is_break c) (dumps_line (JObj r))"
    using printable_line [OF assms(2)] printable_no_break by (auto simp: list_all_iff)
  then have line: "split_lines (dumps_line (JObj r) @ [CHR 0x0A]) = [dumps_line (JObj r)]"
    by (rule split_lines_line)
  have "dumps_line (JObj r) \<noteq> []" using dumps_line_obj [of r] by auto
  with line assms show ?thesis
    by (auto simp: read_rows_def whole_lines_def split_lines_append strip_line List.map_filter_simps
        map_filter_def split: option.splits)
qed

lemma verify_from_snoc:
  "verify_from sha256 i p (rs @ [r]) = verify_from sha256 i p rs
     @ row_issues sha256 (i + length rs) (if rs = [] then p else end_sha rs) r"
  by (induction rs arbitrary: i p) (auto simp: end_sha_def)

lemma new_row_lookup:
  "map_of (new_row sha256 S p) ''row_sha'' = Some (JStr (sha sha256 (new_row sha256 S p)))"
  "get_or_empty (new_row sha256 S p) ''prev_sha'' = p"
  "map_of (new_row sha256 S p) ''source'' = Some (JStr (sn_source S))"
  "map_of (new_row sha256 S p) ''metrics'' = Some (JObj (drop_nulls (sn_metrics S)))"
  by (simp_all add: new_row_def row_body_def sha_def canonical_def get_or_empty_def)

lemma new_row_clean: "row_issues sha256 i p (new_row sha256 S p) = []"
  by (simp add: row_issues_def new_row_lookup)

text \<open>
  Appending extends the history and breaks nothing. When the journal ends in a whole line and the
  new line reads back as the row that was written, the journal holds exactly the rows it held
  before, with the new one last, and checking it finds exactly the issues it found before: the new
  row carries its own hash and the hash of the row it follows.
\<close>

theorem append_keeps_history:
  assumes "append_row loads sha256 S journal = (r, J)" and "whole_lines journal"
    and "json_ok (JObj r)" and "loads (dumps_line (JObj r)) = Some r"
  shows "read_rows loads J = read_rows loads journal @ [r]
    \<and> snd (verify loads sha256 J) = snd (verify loads sha256 journal)"
proof -
  have r: "r = new_row sha256 S (end_sha (read_rows loads journal))"
    and J: "J = Some ((case journal of None \<Rightarrow> [] | Some t \<Rightarrow> t) @ dumps_line (JObj r) @ [CHR 0x0A])"
    using assms(1) by (auto simp: append_row_def Let_def)
  have "read_rows loads J = read_rows loads journal @ [r]"
    unfolding J using read_rows_append [of journal r loads] assms(2-4) by simp
  moreover have "row_issues sha256 i (if rs = [] then JStr [] else end_sha rs) r = []"
    if "rs = read_rows loads journal" for i rs
    using that new_row_clean by (simp add: r end_sha_def)
  ultimately show ?thesis by (simp add: verify_def verify_from_snoc)
qed

text \<open>A second run with the same metrics and no note writes nothing.\<close>

lemma rerun_writes_nothing:
  assumes "read_rows loads J = rs @ [new_row sha256 S p]" and "sn_note S' = []"
    and "sn_source S' = sn_source S" and "drop_nulls (sn_metrics S') = drop_nulls (sn_metrics S)"
  shows "append_if_changed loads sha256 S' J = (None, J)"
proof -
  have "previous (sn_source S') None (read_rows loads J) = Some (new_row sha256 S p)"
    using assms(1,3) by (simp add: previous_def Let_def new_row_lookup)
  moreover have "new_row sha256 S p \<noteq> []" by (simp add: new_row_def)
  ultimately show ?thesis
    using assms(2,4) by (simp add: append_if_changed_def Let_def new_row_lookup)
qed

section \<open>What the chain detects\<close>

text \<open>The content of a row apart from its own hash, whatever the order of its keys.\<close>

definition content :: "row \<Rightarrow> json" where
  "content r = sort_keys (JObj (filter (\<lambda>kv. fst kv \<noteq> ''row_sha'') r))"

lemma content_ok: "json_ok (JObj r) \<Longrightarrow> json_ok (content r)"
  unfolding content_def by (rule json_ok_sort_keys) (auto simp: list_all_iff distinct_map_filter)

lemma canonical_content:
  "json_ok (JObj r) \<Longrightarrow> json_ok (JObj r') \<Longrightarrow> canonical r = canonical r' \<Longrightarrow> content r = content r'"
  using compact_inject [OF content_ok content_ok] by (simp add: canonical_def content_def)

lemma map_of_content:
  "k \<noteq> x \<Longrightarrow> map_of (map (\<lambda>kv. (fst kv, f (snd kv))) (filter (\<lambda>kv. fst kv \<noteq> x) r)) k = map_option f (map_of r k)"
  by (induction r) auto

lemma content_lookup:
  "content r = content r' \<Longrightarrow> k \<noteq> ''row_sha'' \<Longrightarrow>
     map_option sort_keys (map_of r k) = map_option sort_keys (map_of r' k)"
proof -
  assume eq: "content r = content r'" and k: "k \<noteq> ''row_sha''"
  have "map_option sort_keys (map_of r k)
      = (case content r of JObj kvs \<Rightarrow> map_of kvs k | _ \<Rightarrow> None)" for r
    by (simp add: content_def map_of_sort_key map_of_content k)
  with eq show ?thesis by metis
qed

lemma row_issues_Nil:
  "row_issues sha256 i p r = [] \<longleftrightarrow>
     map_of r ''row_sha'' = Some (JStr (sha sha256 r)) \<and> get_or_empty r ''prev_sha'' = p"
  by (auto simp: row_issues_def split: option.splits)

lemma clean_journal_end:
  "verify_from sha256 1 (JStr []) rs = [] \<Longrightarrow> rs \<noteq> [] \<Longrightarrow> end_sha rs = JStr (sha sha256 (last rs))"
  by (cases rs rule: rev_cases)
    (simp_all add: verify_from_snoc row_issues_Nil end_sha_def get_or_empty_def)

lemma same_prev:
  assumes "content r = content r'" "get_or_empty r ''prev_sha'' = JStr p" "get_or_empty r' ''prev_sha'' = JStr q"
  shows "p = q"
  using content_lookup [OF assms(1), of "''prev_sha''"] assms(2,3)
  by (auto simp: get_or_empty_def split: option.splits)

lemma clean_journal_prev:
  assumes "verify_from sha256 1 (JStr []) (rs @ [r]) = []"
  shows "\<exists>p. get_or_empty r ''prev_sha'' = JStr p \<and> end_sha rs = JStr p
    \<and> (p = [] \<or> rs \<noteq> []) \<and> (rs \<noteq> [] \<longrightarrow> p = sha sha256 (last rs))"
  using assms clean_journal_end [of sha256 rs]
  by (cases "rs = []") (auto simp: verify_from_snoc row_issues_Nil end_sha_def)

text \<open>
  C36. The chain fixes the whole journal from its last hash. Two journals that both check clean and
  end in the same row hash hold the same rows, one by one, up to the order of the keys: no row can
  be edited, dropped, inserted or moved without an issue or a change of the last hash, as long as
  the hash of the rows involved has no collision and is not empty.
\<close>

theorem last_hash_fixes_journal:
  assumes "verify_from sha256 1 (JStr []) rs = []" and "verify_from sha256 1 (JStr []) rs' = []"
    and "end_sha rs = end_sha rs'"
    and "\<forall>r \<in> set rs \<union> set rs'. json_ok (JObj r) \<and> sha sha256 r \<noteq> []"
    and "inj_on sha256 (canonical ` (set rs \<union> set rs'))"
  shows "map content rs = map content rs'"
  using assms
proof (induction rs arbitrary: rs' rule: rev_induct)
  case Nil
  show ?case
  proof (cases rs' rule: rev_cases)
    case (snoc ys y)
    with Nil clean_journal_end [of sha256 rs'] show ?thesis by (simp add: end_sha_def)
  qed simp
next
  case (snoc r rs)
  show ?case
  proof (cases rs' rule: rev_cases)
    case Nil
    with snoc.prems clean_journal_end [of sha256 "rs @ [r]"] show ?thesis by (simp add: end_sha_def)
  next
    case (snoc ys y)
    have "JStr (sha sha256 r) = JStr (sha sha256 y)"
      using snoc.prems(1-3) clean_journal_end [of sha256 "rs @ [r]"] clean_journal_end [of sha256 rs']
        \<open>rs' = ys @ [y]\<close> by simp
    then have "canonical r = canonical y"
      using inj_onD [OF snoc.prems(5), of "canonical r" "canonical y"] \<open>rs' = ys @ [y]\<close>
      by (simp add: sha_def)
    then have c: "content r = content y"
      using snoc.prems(4) \<open>rs' = ys @ [y]\<close> by (intro canonical_content) auto
    obtain p where p: "get_or_empty r ''prev_sha'' = JStr p" "end_sha rs = JStr p"
      using clean_journal_prev [OF snoc.prems(1)] by blast
    obtain q where q: "get_or_empty y ''prev_sha'' = JStr q" "end_sha ys = JStr q"
      using clean_journal_prev snoc.prems(2) \<open>rs' = ys @ [y]\<close> by blast
    have "end_sha rs = end_sha ys" using same_prev [OF c p(1) q(1)] p(2) q(2) by simp
    moreover have "verify_from sha256 1 (JStr []) rs = []" "verify_from sha256 1 (JStr []) ys = []"
      using snoc.prems(1,2) \<open>rs' = ys @ [y]\<close> by (simp_all add: verify_from_snoc)
    moreover have "inj_on sha256 (canonical ` (set rs \<union> set ys))"
      by (rule inj_on_subset [OF snoc.prems(5)]) (use \<open>rs' = ys @ [y]\<close> in auto)
    ultimately have "map content rs = map content ys"
      using snoc.prems(4) \<open>rs' = ys @ [y]\<close> by (intro snoc.IH) auto
    with c \<open>rs' = ys @ [y]\<close> show ?thesis by simp
  qed
qed

text \<open>What it does not detect: the last rows can be removed without an issue.\<close>

lemma truncated_tail_checks_clean:
  "verify_from sha256 i p rs = [] \<Longrightarrow> verify_from sha256 i p (take n rs) = []"
  by (induction rs arbitrary: i p n) (auto simp: take_Cons split: nat.splits)

text \<open>Nor a row that is no longer JSON, when it is the last one: such a line is not read at all.\<close>

lemma unreadable_last_row_checks_clean:
  assumes "loads ''x'' = None" and "whole_lines (Some t)"
  shows "verify loads sha256 (Some (t @ ''x'')) = verify loads sha256 (Some t)"
proof -
  have "split_lines ''x'' = [''x'']" "strip ''x'' = ''x''" by code_simp+
  with assms show ?thesis
    by (simp add: verify_def read_rows_def split_lines_append whole_lines_def map_filter_def)
qed

section \<open>A small journal\<close>

definition demo_snapshot :: snapshot where
  "demo_snapshot = \<lparr>sn_source = ''exec'', sn_metrics = [(''total'', JNum ''3''), (''gone'', JNull)],
     sn_note = [], sn_hv = None, sn_now = ''2026-01-01'', sn_engine = ''1.0''\<rparr>"

definition demo_row :: row where
  "demo_row = new_row (\<lambda>t. t) demo_snapshot (JStr [])"

definition demo_loads :: "string \<Rightarrow> row option" where
  "demo_loads t = (if t = dumps_line (JObj demo_row) then Some demo_row else None)"

lemma demo_row_ok: "json_ok (JObj demo_row)"
  by code_simp

theorem append_keeps_history_witness:
  "read_rows demo_loads (snd (append_row demo_loads (\<lambda>t. t) demo_snapshot None)) = [demo_row]"
proof -
  have a: "append_row demo_loads (\<lambda>t. t) demo_snapshot None
      = (demo_row, snd (append_row demo_loads (\<lambda>t. t) demo_snapshot None))"
    by (simp add: append_row_def Let_def read_rows_def end_sha_def demo_row_def)
  show ?thesis
    using append_keeps_history [OF a] demo_row_ok
    by (simp add: whole_lines_def demo_loads_def read_rows_def)
qed

theorem last_hash_fixes_journal_witness:
  "map content [demo_row] = map content [rev demo_row]"
proof (rule last_hash_fixes_journal [of "\<lambda>t. t"])
  show "verify_from (\<lambda>t. t) 1 (JStr []) [demo_row] = []" by code_simp
  show "verify_from (\<lambda>t. t) 1 (JStr []) [rev demo_row] = []" by code_simp
  show "end_sha [demo_row] = end_sha [rev demo_row]" by code_simp
  show "\<forall>r \<in> set [demo_row] \<union> set [rev demo_row]. json_ok (JObj r) \<and> sha (\<lambda>t. t) r \<noteq> []"
    by code_simp
qed simp

end
