(* ===== verification/Py_Date.thy ===== *)
theory Py_Date
  imports Prelude
begin

text \<open>
  Python's \<open>datetime.date\<close>: a day by its proleptic Gregorian ordinal, compared by it, and
  \<open>fromisoformat\<close> on the calendar and week forms of ISO 8601 that it documents.
\<close>

section \<open>Days\<close>

datatype date = Day (ordinal: int)

instantiation date :: linorder
begin

definition less_eq_date :: "date \<Rightarrow> date \<Rightarrow> bool" where
  "d \<le> e \<longleftrightarrow> ordinal d \<le> ordinal e"

definition less_date :: "date \<Rightarrow> date \<Rightarrow> bool" where
  "d < e \<longleftrightarrow> ordinal d < ordinal e"

instance
  by standard (auto simp: less_eq_date_def less_date_def date.expand)

end

definition MAX_ORDINAL :: int where
  "MAX_ORDINAL = 3652059"

definition day :: "int \<Rightarrow> date option" where
  "day n = (if 1 \<le> n \<and> n \<le> MAX_ORDINAL then Some (Day n) else None)"

text \<open>\<open>d + timedelta(days=n)\<close>; \<open>None\<close> is the \<open>OverflowError\<close>. \<open>(d - e).days\<close>.\<close>

definition add_days :: "date \<Rightarrow> int \<Rightarrow> date option" where
  "add_days d n = day (ordinal d + n)"

definition days_between :: "date \<Rightarrow> date \<Rightarrow> int" where
  "days_between d e = ordinal d - ordinal e"

lemma add_days_ordinal: "add_days d n = Some e \<Longrightarrow> ordinal e = ordinal d + n"
  by (auto simp: add_days_def day_def split: if_splits)

section \<open>The calendar\<close>

definition is_leap :: "int \<Rightarrow> bool" where
  "is_leap y \<longleftrightarrow> y mod 4 = 0 \<and> (y mod 100 \<noteq> 0 \<or> y mod 400 = 0)"

definition days_in_month :: "int \<Rightarrow> int \<Rightarrow> int" where
  "days_in_month y m =
     (if m = 2 \<and> is_leap y then 29 else [31, 28, 31, 30, 31, 30, 31, 31, 30, 31, 30, 31] ! nat (m - 1))"

definition days_before_year :: "int \<Rightarrow> int" where
  "days_before_year y = (y - 1) * 365 + (y - 1) div 4 - (y - 1) div 100 + (y - 1) div 400"

definition days_before_month :: "int \<Rightarrow> int \<Rightarrow> int" where
  "days_before_month y m = sum_list (map (days_in_month y) [1..m - 1])"

definition ymd :: "int \<Rightarrow> int \<Rightarrow> int \<Rightarrow> date option" where
  "ymd y m d =
     (if 1 \<le> y \<and> y \<le> 9999 \<and> 1 \<le> m \<and> m \<le> 12 \<and> 1 \<le> d \<and> d \<le> days_in_month y m
      then Some (Day (days_before_year y + days_before_month y m + d)) else None)"

definition jan_first :: "int \<Rightarrow> int" where
  "jan_first y = days_before_year y + 1"

definition week1_monday :: "int \<Rightarrow> int" where
  "week1_monday y =
     (let f = jan_first y; wd = (f + 6) mod 7 in if wd > 3 then f - wd + 7 else f - wd)"

definition long_year :: "int \<Rightarrow> bool" where
  "long_year y \<longleftrightarrow> jan_first y mod 7 = 4 \<or> (jan_first y mod 7 = 3 \<and> is_leap y)"

definition iso_week :: "int \<Rightarrow> int \<Rightarrow> int \<Rightarrow> date option" where
  "iso_week y w d =
     (if 1 \<le> y \<and> y \<le> 9999 \<and> 1 \<le> w \<and> (w \<le> 52 \<or> w = 53 \<and> long_year y) \<and> 1 \<le> d \<and> d \<le> 7
      then day (week1_monday y + 7 * (w - 1) + (d - 1)) else None)"

section \<open>Reading a date\<close>

definition digits :: "nat \<Rightarrow> string \<Rightarrow> int option" where
  "digits n s = (if length s = n \<and> list_all is_digit s
     then Some (foldl (\<lambda>a c. 10 * a + (of_char c - 48)) 0 s) else None)"

definition dash_first :: "string \<Rightarrow> bool" where
  "dash_first s \<longleftrightarrow> s \<noteq> [] \<and> hd s = CHR ''-''"

text \<open>A separator between week and day, or month and day, exactly when there is one after the year.\<close>

definition last_part :: "bool \<Rightarrow> nat \<Rightarrow> string \<Rightarrow> int option" where
  "last_part sep n t = (if sep then (if dash_first t then digits n (tl t) else None) else digits n t)"

definition fromisoformat :: "string \<Rightarrow> date option" where
  "fromisoformat s =
     (let r = drop 4 s; sep = dash_first r; r1 = (if sep then tl r else r) in
      case digits 4 (take 4 s) of
        None \<Rightarrow> None
      | Some y \<Rightarrow>
          if r1 \<noteq> [] \<and> hd r1 = CHR ''W'' then
            (case digits 2 (take 2 (tl r1)) of
               None \<Rightarrow> None
             | Some w \<Rightarrow>
                 if drop 2 (tl r1) = [] then iso_week y w 1
                 else (case last_part sep 1 (drop 2 (tl r1)) of None \<Rightarrow> None | Some d \<Rightarrow> iso_week y w d))
          else
            (case (digits 2 (take 2 r1), last_part sep 2 (drop 2 r1)) of
               (Some m, Some d) \<Rightarrow> ymd y m d
             | _ \<Rightarrow> None))"

lemma fromisoformat_examples:
  "fromisoformat ''1970-01-01'' = Some (Day 719163)"
  "fromisoformat ''20240229'' = Some (Day 738945)"
  "fromisoformat ''2023-02-29'' = None"
  "fromisoformat ''2020-W53-7'' = fromisoformat ''2021-01-03''"
  "fromisoformat ''2026-13-01'' = None"
  "fromisoformat ''soon'' = None"
  by code_simp+

end
