(* ===== verification/Sla.thy ===== *)
theory Sla
  imports Complex_Main Py_Date "HOL-Library.Multiset"
begin

text \<open>
  \<open>metrics/sla.py\<close>: the clock of every finding against the deadlines of a policy profile. The rows of
  the two queries are the input; the filter of the second query, both loops over the rows and the
  digest follow the code. The counters, the totals by severity and by team and the digest are
  accumulated in one record, as the code does in one pass; \<open>None\<close> is the \<open>OverflowError\<close> of a due
  date past the calendar. The registry contact of a digest row, the compliance percentage, the
  metadata and the Markdown are left out.
\<close>

section \<open>Policy\<close>

definition FILING_SOURCE_TYPES :: "string list" where
  "FILING_SOURCE_TYPES = [''jira_filing'', ''filing'', ''routing'', ''owner_assignment'']"

definition RESOLVING :: "string list" where
  "RESOLVING = [''resolved'', ''fix_verified'']"

record cvss_floor =
  threshold :: rat
  floor_days :: int

record sla_profile =
  p_floor :: "cvss_floor option"
  p_slas :: "(string \<times> int option) list"
  p_default :: bool

datatype sla = Outside | No_deadline | Deadline int

text \<open>The left side is the exit with the profiles the policy has.\<close>

definition pick_profile :: "(string \<times> sla_profile) list \<Rightarrow> string option \<Rightarrow> string list + string \<times> sla_profile" where
  "pick_profile profiles name =
     (if truthy name then
        (case map_of profiles (or_str name []) of
           None \<Rightarrow> Inl (sort (map fst profiles)) | Some p \<Rightarrow> Inr (or_str name [], p))
      else (case find (\<lambda>np. p_default (snd np)) profiles of
          Some np \<Rightarrow> Inr np
        | None \<Rightarrow> (let n = hd (sort (map fst profiles)) in Inr (n, the (map_of profiles n)))))"

definition resolve_days_for :: "sla_profile \<Rightarrow> string \<Rightarrow> rat option \<Rightarrow> sla" where
  "resolve_days_for p severity cvss =
     (let rest = (case map_of (p_slas p) severity of
            None \<Rightarrow> Outside | Some None \<Rightarrow> No_deadline | Some (Some d) \<Rightarrow> Deadline d) in
      case (p_floor p, cvss) of
        (Some f, Some c) \<Rightarrow> if c \<ge> threshold f then Deadline (floor_days f) else rest
      | _ \<Rightarrow> rest)"

section \<open>Clocks\<close>

definition date_of :: "string option \<Rightarrow> date option" where
  "date_of s = (if truthy s then fromisoformat (take 10 (or_str s [])) else None)"

record sla_event =
  ev_repo :: string
  ev_finding :: string
  ev_occurred :: "string option"
  ev_recorded :: "string option"
  ev_source :: "string option"
  ev_resolution :: "string option"

definition event_date :: "sla_event \<Rightarrow> date option" where
  "event_date e = (case date_of (ev_occurred e) of Some d \<Rightarrow> Some d | None \<Rightarrow> date_of (ev_recorded e))"

definition member_opt :: "string option \<Rightarrow> string list \<Rightarrow> bool" where
  "member_opt x xs \<longleftrightarrow> (case x of None \<Rightarrow> False | Some s \<Rightarrow> s \<in> set xs)"

datatype basis = Filed | First_event | Audit_date

definition clock_start :: "sla_event list \<Rightarrow> string option \<Rightarrow> string \<Rightarrow> (date \<times> basis) option" where
  "clock_start events audit_date mode =
     (let dates = sort (List.map_filter event_date events);
          filed = sort (List.map_filter event_date
            (filter (\<lambda>e. member_opt (ev_source e) FILING_SOURCE_TYPES) events)) in
      if mode = ''first_routed_or_filed'' \<and> filed \<noteq> [] then Some (hd filed, Filed)
      else if mode \<in> {''first_routed_or_filed'', ''first_event''} \<and> dates \<noteq> [] then Some (hd dates, First_event)
      else map_option (\<lambda>d. (d, Audit_date)) (date_of audit_date))"

type_synonym finding_key = "string \<times> string"

definition key_of :: "sla_event \<Rightarrow> finding_key" where
  "key_of e = (ev_repo e, ev_finding e)"

definition events_of :: "sla_event list \<Rightarrow> finding_key \<Rightarrow> sla_event list" where
  "events_of evs k = (case map_of (group_by key_of evs) k of None \<Rightarrow> [] | Some es \<Rightarrow> es)"

definition later_date :: "date option \<Rightarrow> date \<Rightarrow> date" where
  "later_date old d = (case old of None \<Rightarrow> d | Some d0 \<Rightarrow> if d > d0 then d else d0)"

definition note_resolved :: "sla_event \<Rightarrow> (finding_key \<times> date) list \<Rightarrow> (finding_key \<times> date) list" where
  "note_resolved e acc =
     (if member_opt (ev_resolution e) RESOLVING then
        (case event_date e of
           None \<Rightarrow> acc
         | Some d \<Rightarrow> AList.update (key_of e) (later_date (map_of acc (key_of e)) d) acc)
      else acc)"

definition resolved_at :: "sla_event list \<Rightarrow> finding_key \<Rightarrow> date option" where
  "resolved_at evs = map_of (fold note_resolved evs [])"

section \<open>The view\<close>

record sla_row =
  sr_repo :: string
  sr_finding :: string
  sr_severity :: "string option"
  sr_cvss :: "rat option"
  sr_resolution :: "string option"
  sr_validity :: "string option"
  sr_title :: "string option"
  sr_audit_date :: "string option"
  sr_branch :: int

text \<open>The \<open>WHERE\<close> clause of the second query.\<close>

definition in_view :: "sla_row \<Rightarrow> bool" where
  "in_view r \<longleftrightarrow> (case sr_validity r of None \<Rightarrow> ''confirmed'' | Some v \<Rightarrow> v)
       \<notin> set [''false_positive'', ''withdrawn'', ''refuted'', ''hardening'']
     \<and> sr_branch r = 0"

record counters =
  open_in_sla :: nat
  open_overdue :: nat
  open_no_sla :: nat
  unclocked :: nat
  resolved_met :: nat
  resolved_breached :: nat
  resolved_unclocked :: nat
  out_of_profile_scope :: nat

record team_total =
  t_total :: nat
  t_critical :: nat
  t_worst :: int

record escalation =
  x_repo :: string
  x_finding :: string
  x_severity :: string
  x_title :: string
  x_team :: string
  x_due :: date
  x_overdue :: int
  x_basis :: basis

record view =
  v_counters :: counters
  overdue_by_sev :: "(string \<times> nat) list"
  overdue_by_team :: "(string \<times> team_total) list"
  days_to_resolve :: "(string \<times> int list) list"
  escalations :: "escalation list"

record setting =
  v_profile :: sla_profile
  v_mode :: string
  v_as_of :: date
  v_events :: "sla_event list"
  v_owners :: "(string \<times> string) list"

definition severity_of :: "sla_row \<Rightarrow> string" where
  "severity_of r = lower (or_str (sr_severity r) ''informational'')"

definition row_key :: "sla_row \<Rightarrow> finding_key" where
  "row_key r = (sr_repo r, sr_finding r)"

definition is_resolved :: "setting \<Rightarrow> sla_row \<Rightarrow> bool" where
  "is_resolved V r \<longleftrightarrow> or_str (sr_resolution r) ''open'' = ''resolved''
     \<or> resolved_at (v_events V) (row_key r) \<noteq> None"

text \<open>\<open>owners[repo] = owner.split(":", 1)[-1]\<close>, and the fallback where it is read.\<close>

definition owner_team :: "setting \<Rightarrow> string \<Rightarrow> string" where
  "owner_team V repo = or_str (map_option (\<lambda>o'. case cut CHR '':'' o' of (a, None) \<Rightarrow> a | (_, Some b) \<Rightarrow> b)
     (map_of (rev (v_owners V)) repo)) ''(unassigned)''"

definition bump :: "('k \<times> nat) list \<Rightarrow> 'k \<Rightarrow> ('k \<times> nat) list" where
  "bump d k = AList.update k ((case map_of d k of None \<Rightarrow> 0 | Some n \<Rightarrow> n) + 1) d"

definition add_team :: "string \<Rightarrow> bool \<Rightarrow> int \<Rightarrow> (string \<times> team_total) list \<Rightarrow> (string \<times> team_total) list" where
  "add_team team critical late d =
     (let t = (case map_of d team of None \<Rightarrow> \<lparr>t_total = 0, t_critical = 0, t_worst = 0\<rparr> | Some t \<Rightarrow> t) in
      AList.update team \<lparr>t_total = t_total t + 1, t_critical = t_critical t + (if critical then 1 else 0),
        t_worst = max (t_worst t) late\<rparr> d)"

definition add_overdue :: "setting \<Rightarrow> sla_row \<Rightarrow> date \<Rightarrow> basis \<Rightarrow> view \<Rightarrow> view" where
  "add_overdue V r due b v =
     (let sev = severity_of r; team = owner_team V (sr_repo r); late = days_between (v_as_of V) due in
      v\<lparr>v_counters := (v_counters v)\<lparr>open_overdue := open_overdue (v_counters v) + 1\<rparr>,
        overdue_by_sev := bump (overdue_by_sev v) sev,
        overdue_by_team := add_team team (sev = ''critical'') late (overdue_by_team v),
        escalations := escalations v @ [\<lparr>x_repo = sr_repo r, x_finding = sr_finding r, x_severity = sev,
          x_title = take 120 (or_str (sr_title r) []), x_team = team, x_due = due, x_overdue = late,
          x_basis = b\<rparr>]\<rparr>)"

definition score_resolved :: "string \<Rightarrow> date \<Rightarrow> date \<Rightarrow> date \<Rightarrow> view \<Rightarrow> view" where
  "score_resolved sev start due rd v =
     (let c = v_counters v in
      v\<lparr>v_counters := (if rd \<le> due then c\<lparr>resolved_met := resolved_met c + 1\<rparr>
           else c\<lparr>resolved_breached := resolved_breached c + 1\<rparr>),
        days_to_resolve := AList.update sev
          ((case map_of (days_to_resolve v) sev of None \<Rightarrow> [] | Some ds \<Rightarrow> ds) @ [days_between rd start])
          (days_to_resolve v)\<rparr>)"

definition row_step :: "setting \<Rightarrow> sla_row \<Rightarrow> view \<Rightarrow> view option" where
  "row_step V r v =
     (let sev = severity_of r; c = v_counters v in
      case resolve_days_for (v_profile V) sev (sr_cvss r) of
        Outside \<Rightarrow> Some (v\<lparr>v_counters := c\<lparr>out_of_profile_scope := out_of_profile_scope c + 1\<rparr>\<rparr>)
      | sla \<Rightarrow>
        (case clock_start (events_of (v_events V) (row_key r)) (sr_audit_date r) (v_mode V) of
           None \<Rightarrow> Some (v\<lparr>v_counters :=
             (if is_resolved V r then c\<lparr>resolved_unclocked := resolved_unclocked c + 1\<rparr>
              else c\<lparr>unclocked := unclocked c + 1\<rparr>)\<rparr>)
         | Some (start, b) \<Rightarrow>
           (case sla of
              Deadline days \<Rightarrow>
                (case add_days start days of
                   None \<Rightarrow> None
                 | Some due \<Rightarrow>
                   if is_resolved V r then
                     (case resolved_at (v_events V) (row_key r) of
                        None \<Rightarrow> Some (v\<lparr>v_counters := c\<lparr>resolved_unclocked := resolved_unclocked c + 1\<rparr>\<rparr>)
                      | Some rd \<Rightarrow> Some (score_resolved sev start due rd v))
                   else if due < v_as_of V then Some (add_overdue V r due b v)
                   else Some (v\<lparr>v_counters := c\<lparr>open_in_sla := open_in_sla c + 1\<rparr>\<rparr>))
            | _ \<Rightarrow> if \<not> is_resolved V r then Some (v\<lparr>v_counters := c\<lparr>open_no_sla := open_no_sla c + 1\<rparr>\<rparr>)
                    else Some v)))"

fun rows_loop :: "setting \<Rightarrow> sla_row list \<Rightarrow> view \<Rightarrow> view option" where
  "rows_loop V [] v = Some v"
| "rows_loop V (r # rs) v = (case row_step V r v of None \<Rightarrow> None | Some v' \<Rightarrow> rows_loop V rs v')"

definition zero_counters :: counters where
  "zero_counters = \<lparr>open_in_sla = 0, open_overdue = 0, open_no_sla = 0, unclocked = 0, resolved_met = 0,
     resolved_breached = 0, resolved_unclocked = 0, out_of_profile_scope = 0\<rparr>"

definition empty_view :: view where
  "empty_view = \<lparr>v_counters = zero_counters, overdue_by_sev = [], overdue_by_team = [],
     days_to_resolve = [], escalations = []\<rparr>"

definition severity_rank :: "string \<Rightarrow> int" where
  "severity_rank s = (case map_of [(''critical'', 3), (''high'', 2), (''medium'', 1)] s of None \<Rightarrow> 0 | Some n \<Rightarrow> n)"

definition urgency :: "escalation \<Rightarrow> int \<times> int" where
  "urgency x = (- severity_rank (x_severity x), - x_overdue x)"

definition median :: "int list \<Rightarrow> int" where
  "median ds = sort ds ! (length ds div 2)"

record sla_view =
  summary_counters :: counters
  medians :: "(string \<times> int) list"
  by_severity :: "(string \<times> nat) list"
  by_team :: "(string \<times> team_total) list"
  escalation_digest :: "escalation list"

definition build_view :: "setting \<Rightarrow> sla_row list \<Rightarrow> sla_view option" where
  "build_view V table =
     map_option (\<lambda>v. \<lparr>summary_counters = v_counters v,
         medians = map (\<lambda>(s, ds). (s, median ds)) (filter (\<lambda>(s, ds). ds \<noteq> []) (days_to_resolve v)),
         by_severity = sort_key fst (overdue_by_sev v),
         by_team = sort_key (\<lambda>(k, t). - int (t_total t)) (overdue_by_team v),
         escalation_digest = take 100 (sort_key urgency (escalations v))\<rparr>)
       (rows_loop V (filter in_view table) empty_view)"

section \<open>Every row is accounted for\<close>

definition total :: "counters \<Rightarrow> nat" where
  "total c = open_in_sla c + open_overdue c + open_no_sla c + unclocked c + resolved_met c
     + resolved_breached c + resolved_unclocked c + out_of_profile_scope c"

definition sla_of :: "setting \<Rightarrow> sla_row \<Rightarrow> sla" where
  "sla_of V r = resolve_days_for (v_profile V) (severity_of r) (sr_cvss r)"

definition clock_of :: "setting \<Rightarrow> sla_row \<Rightarrow> (date \<times> basis) option" where
  "clock_of V r = clock_start (events_of (v_events V) (row_key r)) (sr_audit_date r) (v_mode V)"

text \<open>Resolved, with a clock, under a severity that has no deadline.\<close>

definition uncounted :: "setting \<Rightarrow> sla_row \<Rightarrow> bool" where
  "uncounted V r \<longleftrightarrow> is_resolved V r \<and> sla_of V r = No_deadline \<and> clock_of V r \<noteq> None"

lemma total_add_overdue [simp]: "total (v_counters (add_overdue V r due b v)) = Suc (total (v_counters v))"
  by (simp add: add_overdue_def Let_def total_def)

lemma total_score_resolved [simp]: "total (v_counters (score_resolved sev st due rd v)) = Suc (total (v_counters v))"
  by (simp add: score_resolved_def Let_def total_def)

lemma row_step_total:
  "row_step V r v = Some v' \<Longrightarrow>
     total (v_counters v') = total (v_counters v) + (if uncounted V r then 0 else 1)"
  unfolding row_step_def Let_def sla_of_def [symmetric] clock_of_def [symmetric] uncounted_def
  by (auto split: sla.splits option.splits if_splits) (simp_all add: total_def)

lemma rows_loop_total:
  "rows_loop V rs v = Some v' \<Longrightarrow>
     total (v_counters v') + length (filter (uncounted V) rs) = total (v_counters v) + length rs"
  by (induction rs arbitrary: v) (auto split: option.splits dest!: row_step_total)

text \<open>
  The counters account for every row exactly once: whatever the policy, the events and the
  dates, the eight counters of the view add up to the number of rows that pass its filter, less
  those that are resolved under a severity without a deadline, which no counter shows.
\<close>

theorem counters_account_for_rows:
  assumes "build_view V table = Some R"
  shows "total (summary_counters R) + length (filter (uncounted V) (filter in_view table))
    = length (filter in_view table)"
  using assms rows_loop_total [of V "filter in_view table" empty_view]
  by (auto simp: build_view_def empty_view_def zero_counters_def total_def)

section \<open>What is overdue\<close>

definition due_of :: "setting \<Rightarrow> sla_row \<Rightarrow> date option" where
  "due_of V r = (case (sla_of V r, clock_of V r) of
     (Deadline days, Some (start, b)) \<Rightarrow> add_days start days | _ \<Rightarrow> None)"

text \<open>
  A row counts as open: it is not marked resolved, and no event of its finding, however old, has a resolving resolution
  and a date. Whether the finding was reopened after such an event makes no difference.
\<close>

definition counts_as_open :: "setting \<Rightarrow> sla_row \<Rightarrow> bool" where
  "counts_as_open V r \<longleftrightarrow> sr_resolution r \<noteq> Some ''resolved''
     \<and> list_all (\<lambda>e. ev_repo e = sr_repo r \<and> ev_finding e = sr_finding r \<longrightarrow>
          \<not> (member_opt (ev_resolution e) RESOLVING \<and> event_date e \<noteq> None)) (v_events V)"

lemma resolved_at_None:
  "resolved_at evs k = None \<longleftrightarrow> list_all (\<lambda>e. key_of e = k \<longrightarrow> \<not> (member_opt (ev_resolution e) RESOLVING \<and> event_date e \<noteq> None)) evs"
  by (induction evs rule: rev_induct) (auto simp: resolved_at_def note_resolved_def update_conv' split: option.splits)

lemma is_resolved_iff: "counts_as_open V r \<longleftrightarrow> \<not> is_resolved V r"
  by (auto simp: is_resolved_def counts_as_open_def resolved_at_None key_of_def row_key_def list_all_iff or_str_def
      split: option.splits if_splits)

definition overdue :: "setting \<Rightarrow> sla_row \<Rightarrow> bool" where
  "overdue V r \<longleftrightarrow> counts_as_open V r \<and> (case due_of V r of None \<Rightarrow> False | Some due \<Rightarrow> due < v_as_of V)"

definition escalation_for :: "setting \<Rightarrow> sla_row \<Rightarrow> escalation" where
  "escalation_for V r = \<lparr>x_repo = sr_repo r, x_finding = sr_finding r, x_severity = severity_of r,
     x_title = take 120 (or_str (sr_title r) []), x_team = owner_team V (sr_repo r),
     x_due = the (due_of V r), x_overdue = days_between (v_as_of V) (the (due_of V r)),
     x_basis = snd (the (clock_of V r))\<rparr>"

definition counts_sum :: "('k \<times> nat) list \<Rightarrow> nat" where
  "counts_sum d = sum_list (map snd d)"

definition teams_sum :: "(string \<times> team_total) list \<Rightarrow> nat" where
  "teams_sum d = sum_list (map (\<lambda>p. t_total (snd p)) d)"

lemma counts_sum_bump: "distinct (map fst d) \<Longrightarrow> counts_sum (bump d k) = Suc (counts_sum d)"
  unfolding bump_def counts_sum_def by (induction d) auto

lemma teams_sum_add: "distinct (map fst d) \<Longrightarrow> teams_sum (add_team team c late d) = Suc (teams_sum d)"
  unfolding add_team_def teams_sum_def Let_def by (induction d) auto

text \<open>The four accounts of what is overdue agree.\<close>

definition agree :: "view \<Rightarrow> bool" where
  "agree v \<longleftrightarrow> distinct (map fst (overdue_by_sev v)) \<and> distinct (map fst (overdue_by_team v))
     \<and> open_overdue (v_counters v) = length (escalations v)
     \<and> counts_sum (overdue_by_sev v) = length (escalations v)
     \<and> teams_sum (overdue_by_team v) = length (escalations v)"

lemma agree_add_overdue: "agree v \<Longrightarrow> agree (add_overdue V r due b v)"
  by (simp add: agree_def add_overdue_def Let_def counts_sum_bump teams_sum_add)
    (simp add: bump_def add_team_def Let_def distinct_update)

lemma row_step_overdue:
  assumes "row_step V r v = Some v'"
  shows "(agree v \<longrightarrow> agree v')
    \<and> escalations v' = escalations v @ (if overdue V r then [escalation_for V r] else [])"
proof (cases "overdue V r")
  case True
  then obtain days start b due where d: "\<not> is_resolved V r" "sla_of V r = Deadline days"
    "clock_of V r = Some (start, b)" "add_days start days = Some due" "due < v_as_of V"
    by (auto simp: overdue_def due_of_def is_resolved_iff split: option.splits sla.splits)
  then have "v' = add_overdue V r due b v"
    using assms unfolding row_step_def Let_def sla_of_def [symmetric] clock_of_def [symmetric] by simp
  with d True show ?thesis
    by (simp add: agree_add_overdue) (simp add: add_overdue_def Let_def escalation_for_def due_of_def)
next
  case False
  have "escalations v' = escalations v \<and> overdue_by_sev v' = overdue_by_sev v
      \<and> overdue_by_team v' = overdue_by_team v \<and> open_overdue (v_counters v') = open_overdue (v_counters v)"
    using assms False
    unfolding row_step_def Let_def sla_of_def [symmetric] clock_of_def [symmetric] overdue_def due_of_def is_resolved_iff
    by (auto simp: score_resolved_def Let_def split: sla.splits option.splits if_splits)
  with False show ?thesis by (simp add: agree_def)
qed

lemma rows_loop_overdue:
  "rows_loop V rs v = Some v' \<Longrightarrow> (agree v \<longrightarrow> agree v')
     \<and> escalations v' = escalations v @ map (escalation_for V) (filter (overdue V) rs)"
  by (induction rs arbitrary: v) (auto split: option.splits dest!: row_step_overdue)


section \<open>A small table\<close>

definition sample_row :: "string \<Rightarrow> string \<Rightarrow> sla_row" where
  "sample_row i sev = \<lparr>sr_repo = ''r'', sr_finding = i, sr_severity = Some sev, sr_cvss = None,
     sr_resolution = Some ''open'', sr_validity = None, sr_title = None, sr_audit_date = Some ''2026-01-01'',
     sr_branch = 0\<rparr>"

definition demo_event :: "string \<Rightarrow> string \<Rightarrow> string \<Rightarrow> sla_event" where
  "demo_event i on res = \<lparr>ev_repo = ''r'', ev_finding = i, ev_occurred = Some on, ev_recorded = None,
     ev_source = None, ev_resolution = Some res\<rparr>"

definition demo_setting :: "sla_event list \<Rightarrow> setting" where
  "demo_setting evs = \<lparr>v_profile = \<lparr>p_floor = None, p_slas = [(''high'', Some 30), (''low'', None)],
       p_default = True\<rparr>, v_mode = ''first_event'', v_as_of = Day 739700, v_events = evs, v_owners = []\<rparr>"

definition demo_table :: "sla_row list" where
  "demo_table = [sample_row ''A'' ''High'', sample_row ''B'' ''low'']"

definition low_resolved :: setting where
  "low_resolved = demo_setting [demo_event ''B'' ''2026-02-01'' ''resolved'']"

lemma demo_view: "map_option total (map_option summary_counters (build_view low_resolved demo_table)) = Some 1"
  by code_simp

lemma demo_view_exists: "\<exists>R. build_view low_resolved demo_table = Some R"
  using demo_view by (cases "build_view low_resolved demo_table") auto

theorem counters_account_for_rows_witness:
  "\<exists>R. build_view low_resolved demo_table = Some R \<and>
     total (summary_counters R) + length (filter (uncounted low_resolved) (filter in_view demo_table))
       = length (filter in_view demo_table)"
  using demo_view_exists counters_account_for_rows [of low_resolved demo_table] by blast


text \<open>The resolved finding without a deadline is in no counter.\<close>

lemma resolved_without_deadline_uncounted:
  "filter (uncounted low_resolved) demo_table = [sample_row ''B'' ''low'']"
  by code_simp

text \<open>
  A finding that was resolved and then reopened, with \<open>open\<close> as its current resolution, is scored as
  resolved and not as overdue.
\<close>

lemma reopened_counts_as_resolved:
  "map_option (\<lambda>R. (resolved_met (summary_counters R), open_overdue (summary_counters R)))
     (build_view (demo_setting [demo_event ''A'' ''2026-01-05'' ''resolved'', demo_event ''A'' ''2026-01-20'' ''open''])
       [sample_row ''A'' ''high'']) = Some (1, 0)"
  by code_simp

end
