(* ===== verification/Elf.thy ===== *)
theory Elf
  imports Prelude "HOL-Library.Word"
begin

text \<open>
  \<open>_util/elf.py\<close>: the ELF header, the program headers and the dynamic section, read from the bytes of
  a file. Bytes are 8-bit words; the integers \<open>struct\<close> reads from them are unbounded in Python, so
  they are natural numbers here and no sum wraps. A failed \<open>unpack_from\<close> (\<open>struct.error\<close>) is
  \<open>None\<close>. String scanning with the caller's expressions is left out.
\<close>

section \<open>Bytes\<close>

type_synonym bytes = "8 word list"

datatype endian = Little | Big

fun le_value :: "bytes \<Rightarrow> nat" where
  "le_value [] = 0"
| "le_value (b # bs) = unat b + 256 * le_value bs"

definition unpack :: "endian \<Rightarrow> nat \<Rightarrow> bytes \<Rightarrow> nat \<Rightarrow> nat option" where
  "unpack e n data off =
     (if off + n \<le> length data
      then Some (le_value ((case e of Little \<Rightarrow> (\<lambda>bs. bs) | Big \<Rightarrow> rev) (take n (drop off data))))
      else None)"

definition ELF_MAGIC :: bytes where
  "ELF_MAGIC = [0x7F, 0x45, 0x4C, 0x46]"

definition PT_LOAD :: nat where "PT_LOAD = 1"
definition PT_DYNAMIC :: nat where "PT_DYNAMIC = 2"
definition DT_NULL :: nat where "DT_NULL = 0"
definition DT_NEEDED :: nat where "DT_NEEDED = 1"
definition DT_STRTAB :: nat where "DT_STRTAB = 5"
definition DT_STRSZ :: nat where "DT_STRSZ = 10"

lemmas elf_constants = PT_LOAD_def PT_DYNAMIC_def DT_NULL_def DT_NEEDED_def DT_STRTAB_def DT_STRSZ_def

section \<open>Header\<close>

datatype elf_class = Elf32 | Elf64

record elf_header =
  h_class :: elf_class
  h_endian :: endian
  h_machine :: nat

definition parse_header :: "bytes \<Rightarrow> elf_header option" where
  "parse_header data =
     (if length data < 64 \<or> take 4 data \<noteq> ELF_MAGIC then None
      else
        (case (if data ! 5 = 1 then Some Little else if data ! 5 = 2 then Some Big else None) of
           None \<Rightarrow> None
         | Some e \<Rightarrow>
             if data ! 4 \<noteq> 2 \<and> data ! 4 \<noteq> 1 then None
             else (case unpack e 2 data 18 of
                 None \<Rightarrow> None
               | Some m \<Rightarrow> Some \<lparr>h_class = (if data ! 4 = 2 then Elf64 else Elf32), h_endian = e, h_machine = m\<rparr>)))"

definition is_elf :: "bytes \<Rightarrow> bool" where
  "is_elf data \<longleftrightarrow> 4 \<le> length data \<and> take 4 data = ELF_MAGIC"

datatype arch = Arch string | Unknown_arch nat

definition MACHINE_NAMES :: "(nat \<times> string) list" where
  "MACHINE_NAMES = [(3, ''i386''), (62, ''x86_64''), (40, ''arm''), (183, ''aarch64''),
     (243, ''riscv64''), (8, ''mips''), (10, ''mips64'')]"

record elf_metadata =
  md_arch :: arch
  md_bits :: nat
  md_endian :: string

definition metadata :: "bytes \<Rightarrow> elf_metadata option" where
  "metadata data = (case parse_header data of
     None \<Rightarrow> None
   | Some h \<Rightarrow> Some \<lparr>md_arch = (case map_of MACHINE_NAMES (h_machine h) of
         Some n \<Rightarrow> Arch n | None \<Rightarrow> Unknown_arch (h_machine h)),
       md_bits = (case h_class h of Elf32 \<Rightarrow> 32 | Elf64 \<Rightarrow> 64),
       md_endian = (case h_endian h of Little \<Rightarrow> ''little'' | Big \<Rightarrow> ''big'')\<rparr>)"

section \<open>Program headers\<close>

text \<open>A segment as \<open>(p_offset, p_vaddr, p_filesz)\<close>.\<close>

type_synonym segment = "nat \<times> nat \<times> nat"

record segments =
  load :: "segment list"
  dyn_offset :: nat
  dyn_size :: nat

definition no_segments :: segments where
  "no_segments = \<lparr>load = [], dyn_offset = 0, dyn_size = 0\<rparr>"

text \<open>Where a class keeps its fields: the width of an address, and the offsets in header and entry.\<close>

record layout =
  a_width :: nat
  o_phoff :: nat
  o_phentsize :: nat
  o_phnum :: nat
  ph_size :: nat
  ph_offset :: nat
  ph_vaddr :: nat
  ph_filesz :: nat

definition layout_of :: "elf_class \<Rightarrow> layout" where
  "layout_of c = (case c of
     Elf64 \<Rightarrow> \<lparr>a_width = 8, o_phoff = 32, o_phentsize = 54, o_phnum = 56, ph_size = 56,
       ph_offset = 8, ph_vaddr = 16, ph_filesz = 32\<rparr>
   | Elf32 \<Rightarrow> \<lparr>a_width = 4, o_phoff = 28, o_phentsize = 42, o_phnum = 44, ph_size = 32,
       ph_offset = 4, ph_vaddr = 8, ph_filesz = 16\<rparr>)"

definition add_segment :: "nat \<Rightarrow> segment \<Rightarrow> segments \<Rightarrow> segments" where
  "add_segment p_type seg acc = (case seg of (off, vaddr, filesz) \<Rightarrow>
     if p_type = PT_LOAD then acc\<lparr>load := load acc @ [(off, vaddr, filesz)]\<rparr>
     else if p_type = PT_DYNAMIC then acc\<lparr>dyn_offset := off, dyn_size := filesz\<rparr>
     else acc)"

definition read_entry :: "layout \<Rightarrow> endian \<Rightarrow> bytes \<Rightarrow> nat \<Rightarrow> (nat \<times> segment) option" where
  "read_entry L e data off =
     (case (unpack e 4 data off, unpack e (a_width L) data (off + ph_offset L),
            unpack e (a_width L) data (off + ph_vaddr L), unpack e (a_width L) data (off + ph_filesz L)) of
        (Some t, Some p, Some v, Some f) \<Rightarrow> Some (t, p, v, f)
      | _ \<Rightarrow> None)"

fun phdr_entries :: "layout \<Rightarrow> endian \<Rightarrow> bytes \<Rightarrow> nat \<Rightarrow> nat \<Rightarrow> nat list \<Rightarrow> segments \<Rightarrow> segments option" where
  "phdr_entries L e data phoff phentsize [] acc = Some acc"
| "phdr_entries L e data phoff phentsize (i # is) acc =
     (let off = phoff + i * phentsize in
      if off + ph_size L > length data then Some acc
      else (case read_entry L e data off of
          None \<Rightarrow> None
        | Some (t, seg) \<Rightarrow> phdr_entries L e data phoff phentsize is (add_segment t seg acc)))"

definition load_segments :: "bytes \<Rightarrow> segments" where
  "load_segments data = (case parse_header data of
     None \<Rightarrow> no_segments
   | Some h \<Rightarrow>
      (let L = layout_of (h_class h); e = h_endian h in
       case (unpack e (a_width L) data (o_phoff L), unpack e 2 data (o_phentsize L), unpack e 2 data (o_phnum L)) of
         (Some phoff, Some phentsize, Some phnum) \<Rightarrow>
           (case phdr_entries L e data phoff phentsize [0..<phnum] no_segments of
              None \<Rightarrow> no_segments | Some s \<Rightarrow> s)
       | _ \<Rightarrow> no_segments))"

fun vaddr_to_offset :: "nat \<Rightarrow> segment list \<Rightarrow> nat option" where
  "vaddr_to_offset vaddr [] = None"
| "vaddr_to_offset vaddr ((p_offset, seg_vaddr, p_filesz) # segs) =
     (if seg_vaddr \<le> vaddr \<and> vaddr < seg_vaddr + p_filesz then Some (p_offset + (vaddr - seg_vaddr))
      else vaddr_to_offset vaddr segs)"

section \<open>The dynamic section\<close>

record dynamic =
  strtab_vaddr :: nat
  strtab_size :: nat
  needed :: "nat list"

definition no_dynamic :: dynamic where
  "no_dynamic = \<lparr>strtab_vaddr = 0, strtab_size = 0, needed = []\<rparr>"

definition add_tag :: "nat \<Rightarrow> nat \<Rightarrow> dynamic \<Rightarrow> dynamic" where
  "add_tag d_tag d_val acc =
     (if d_tag = DT_STRTAB then acc\<lparr>strtab_vaddr := d_val\<rparr>
      else if d_tag = DT_STRSZ then acc\<lparr>strtab_size := d_val\<rparr>
      else if d_tag = DT_NEEDED then acc\<lparr>needed := needed acc @ [d_val]\<rparr>
      else acc)"

function dynamic_from :: "nat \<Rightarrow> endian \<Rightarrow> bytes \<Rightarrow> nat \<Rightarrow> nat \<Rightarrow> dynamic \<Rightarrow> dynamic" where
  "dynamic_from w e data pos stop acc =
     (if w = 0 \<or> pos + 2 * w > stop then acc
      else (case (unpack e w data pos, unpack e w data (pos + w)) of
          (Some d_tag, Some d_val) \<Rightarrow>
            if d_tag = DT_NULL then acc
            else dynamic_from w e data (pos + 2 * w) stop (add_tag d_tag d_val acc)
        | _ \<Rightarrow> acc))"
  by pat_completeness auto
termination
  by (relation "measure (\<lambda>(w, e, data, pos, stop, acc). stop - pos)") auto

declare dynamic_from.simps [simp del]

text \<open>\<open>data.find(b"\0", start, stop)\<close>\<close>

definition find_nul :: "bytes \<Rightarrow> nat \<Rightarrow> nat \<Rightarrow> nat option" where
  "find_nul data start stop = find (\<lambda>i. data ! i = 0) [start..<min stop (length data)]"

text \<open>\<open>decode("ascii", errors="replace")\<close>: a byte above 127 is the replacement character, \<open>None\<close> here.\<close>

definition ascii :: "bytes \<Rightarrow> char option list" where
  "ascii = map (\<lambda>b. if b < 128 then Some (char_of (unat b)) else None)"

definition library_at :: "bytes \<Rightarrow> nat \<Rightarrow> nat \<Rightarrow> nat \<Rightarrow> char option list option" where
  "library_at data strtab_off limit idx =
     (let start = strtab_off + idx in
      if start \<ge> length data then None
      else (case find_nul data start (min (start + 256) (strtab_off + limit)) of
          None \<Rightarrow> None
        | Some stop \<Rightarrow>
            let name = ascii (take (stop - start) (drop start data)) in
            if name = [] then None else Some name))"

definition linked_libraries :: "bytes \<Rightarrow> char option list list" where
  "linked_libraries data = (case parse_header data of
     None \<Rightarrow> []
   | Some h \<Rightarrow>
      (let S = load_segments data in
       if dyn_offset S = 0 \<or> dyn_offset S + dyn_size S > length data then []
       else
         (let D = dynamic_from (a_width (layout_of (h_class h))) (h_endian h) data (dyn_offset S)
                    (dyn_offset S + dyn_size S) no_dynamic in
          if strtab_vaddr D = 0 \<or> needed D = [] then []
          else (case vaddr_to_offset (strtab_vaddr D) (load S) of
              None \<Rightarrow> []
            | Some off \<Rightarrow>
                List.map_filter (library_at data off
                  (if strtab_size D \<noteq> 0 then strtab_size D else length data - off)) (needed D)))))"

section \<open>What a name is\<close>

lemma find_nul_Some:
  assumes "find_nul data start stop = Some i"
  shows "start \<le> i \<and> i < stop \<and> i < length data \<and> data ! i = 0
    \<and> (\<forall>j. start \<le> j \<and> j < i \<longrightarrow> data ! j \<noteq> 0)"
proof -
  let ?m = "min stop (length data)"
  have up: "[start..<?m] ! k = start + k" if "k < ?m - start" for k
    by (rule nth_upt) (use that in linarith)
  obtain k where k: "k < ?m - start" "data ! ([start..<?m] ! k) = 0" "i = [start..<?m] ! k"
    and first: "\<forall>j < k. data ! ([start..<?m] ! j) \<noteq> 0"
    using assms by (auto simp: find_nul_def find_Some_iff)
  have "data ! (start + k) = 0" "i = start + k" using k up by simp_all
  moreover have before: "\<forall>j < k. data ! (start + j) \<noteq> 0"
  proof (intro allI impI)
    fix j assume "j < k"
    with first k(1) up [of j] show "data ! (start + j) \<noteq> 0" by (metis order.strict_trans)
  qed
  moreover have "data ! j \<noteq> 0" if "start \<le> j" "j < start + k" for j
    using before that by (metis le_add_diff_inverse nat_add_left_cancel_less)
  ultimately show ?thesis using k(1) by auto
qed

text \<open>
  Every library name is a string of the file: some NUL-terminated run of at least one and at most
  255 non-NUL bytes, all inside the file, read byte by byte, whatever the bytes of the file claim.
\<close>

theorem linked_names_are_strings:
  assumes "name \<in> set (linked_libraries data)"
  shows "\<exists>start n. 0 < n \<and> n < 256 \<and> start + n < length data \<and> data ! (start + n) = 0
    \<and> (\<forall>j < n. data ! (start + j) \<noteq> 0) \<and> name = ascii (take n (drop start data))"
proof -
  obtain off limit idx where "library_at data off limit idx = Some name"
    using assms by (auto simp: linked_libraries_def Let_def in_map_filter split: option.splits if_splits)
  then obtain stop where stop: "find_nul data (off + idx) (min (off + idx + 256) (off + limit)) = Some stop"
    and name: "name = ascii (take (stop - (off + idx)) (drop (off + idx) data))" "name \<noteq> []"
    by (auto simp: library_at_def Let_def split: option.splits if_splits)
  from find_nul_Some [OF stop] have f: "off + idx \<le> stop" "stop < off + idx + 256" "stop < length data"
    "data ! stop = 0" "\<forall>j. off + idx \<le> j \<and> j < stop \<longrightarrow> data ! j \<noteq> 0" by auto
  show ?thesis
  proof (intro exI conjI)
    show "0 < stop - (off + idx)" using name f(1) by (cases "stop = off + idx") (auto simp: ascii_def)
    show "\<forall>j < stop - (off + idx). data ! (off + idx + j) \<noteq> 0" using f(5) by auto
  qed (use f name(1) in auto)
qed

end
