(* ===== verification/Elf_Image.thy ===== *)
theory Elf_Image
  imports Elf
begin

text \<open>
  A reference writer for ELF files, for both classes and both byte orders, and the proof that the
  reader of \<open>_util/elf.py\<close> reads back from its files the names they were written with. A file is the
  header, one loaded segment that maps all of it, one dynamic segment, the dynamic entries and the
  string table.
\<close>

section \<open>Writing integers\<close>

fun le_bytes :: "nat \<Rightarrow> nat \<Rightarrow> bytes" where
  "le_bytes 0 v = []"
| "le_bytes (Suc n) v = word_of_nat v # le_bytes n (v div 256)"

definition pack :: "endian \<Rightarrow> nat \<Rightarrow> nat \<Rightarrow> bytes" where
  "pack e n v = (case e of Little \<Rightarrow> le_bytes n v | Big \<Rightarrow> rev (le_bytes n v))"

abbreviation zeros :: "nat \<Rightarrow> bytes" where
  "zeros n \<equiv> replicate n 0"

lemma length_le_bytes [simp]: "length (le_bytes n v) = n"
  by (induction n arbitrary: v) simp_all

lemma length_pack [simp]: "length (pack e n v) = n"
  by (simp add: pack_def split: endian.splits)

lemma unat_byte: "unat (word_of_nat v :: 8 word) = v mod 256"
  by (simp add: unat_of_nat)

lemma le_value_le_bytes: "v < 256 ^ n \<Longrightarrow> le_value (le_bytes n v) = v"
proof (induction n arbitrary: v)
  case (Suc n)
  then have "v div 256 < 256 ^ n" by (simp add: less_mult_imp_div_less mult.commute)
  with Suc.IH show ?case by (simp add: unat_byte)
qed simp

lemma unpack_pack [simp]: "v < 256 ^ n \<Longrightarrow> unpack e n (pack e n v @ ys) 0 = Some v"
  by (cases e) (simp_all add: unpack_def pack_def le_value_le_bytes)

lemma unpack_append: "length xs \<le> off \<Longrightarrow> unpack e n (xs @ ys) off = unpack e n ys (off - length xs)"
  by (auto simp: unpack_def)

lemma unpack_Cons: "0 < off \<Longrightarrow> unpack e n (x # ys) off = unpack e n ys (off - 1)"
  using unpack_append [of "[x]" off e n ys] by simp

lemma unpack_shift: "unpack e n (xs @ ys) (length xs + off) = unpack e n ys off"
  by (simp add: unpack_append)

section \<open>Writing a file\<close>

definition header :: "elf_class \<Rightarrow> endian \<Rightarrow> nat \<Rightarrow> bytes" where
  "header c e machine = (let L = layout_of c in
     ELF_MAGIC @ [case c of Elf32 \<Rightarrow> 1 | Elf64 \<Rightarrow> 2, case e of Little \<Rightarrow> 1 | Big \<Rightarrow> 2] @ zeros 12
     @ pack e 2 machine @ zeros (o_phoff L - 20) @ pack e (a_width L) 64
     @ zeros (o_phentsize L - o_phoff L - a_width L) @ pack e 2 (ph_size L) @ pack e 2 2
     @ zeros (62 - o_phnum L))"

definition phdr :: "elf_class \<Rightarrow> endian \<Rightarrow> nat \<Rightarrow> segment \<Rightarrow> bytes" where
  "phdr c e p_type seg = (let L = layout_of c; w = a_width L in case seg of (off, vaddr, filesz) \<Rightarrow>
     pack e 4 p_type @ zeros (ph_offset L - 4) @ pack e w off @ pack e w vaddr @ zeros w
     @ pack e w filesz @ zeros (ph_size L - ph_filesz L - w))"

definition tag_bytes :: "endian \<Rightarrow> nat \<Rightarrow> (nat \<times> nat) list \<Rightarrow> bytes" where
  "tag_bytes e w tags = concat (map (\<lambda>(t, v). pack e w t @ pack e w v) tags)"

definition string_table :: "bytes list \<Rightarrow> bytes" where
  "string_table names = concat (map (\<lambda>n. n @ [0]) names)"

fun offsets :: "nat \<Rightarrow> bytes list \<Rightarrow> nat list" where
  "offsets k [] = []"
| "offsets k (n # ns) = k # offsets (k + length n + 1) ns"

definition dynamic_offset :: "elf_class \<Rightarrow> nat" where
  "dynamic_offset c = 64 + 2 * ph_size (layout_of c)"

definition dynamic_size :: "elf_class \<Rightarrow> bytes list \<Rightarrow> nat" where
  "dynamic_size c names = 2 * a_width (layout_of c) * (length names + 3)"

definition image_size :: "elf_class \<Rightarrow> bytes list \<Rightarrow> nat" where
  "image_size c names = dynamic_offset c + dynamic_size c names + length (string_table names)"

definition image_tags :: "elf_class \<Rightarrow> nat \<Rightarrow> bytes list \<Rightarrow> (nat \<times> nat) list" where
  "image_tags c base names = map (\<lambda>i. (DT_NEEDED, i)) (offsets 0 names)
     @ [(DT_STRTAB, base + dynamic_offset c + dynamic_size c names),
        (DT_STRSZ, length (string_table names)), (DT_NULL, 0)]"

definition elf_image :: "elf_class \<Rightarrow> endian \<Rightarrow> nat \<Rightarrow> nat \<Rightarrow> bytes list \<Rightarrow> bytes" where
  "elf_image c e machine base names =
     header c e machine
     @ phdr c e PT_LOAD (0, base, image_size c names)
     @ phdr c e PT_DYNAMIC (dynamic_offset c, base + dynamic_offset c, dynamic_size c names)
     @ tag_bytes e (a_width (layout_of c)) (image_tags c base names)
     @ string_table names"

lemma layout_simps [simp]:
  "layout_of Elf64 = \<lparr>a_width = 8, o_phoff = 32, o_phentsize = 54, o_phnum = 56, ph_size = 56,
     ph_offset = 8, ph_vaddr = 16, ph_filesz = 32\<rparr>"
  "layout_of Elf32 = \<lparr>a_width = 4, o_phoff = 28, o_phentsize = 42, o_phnum = 44, ph_size = 32,
     ph_offset = 4, ph_vaddr = 8, ph_filesz = 16\<rparr>"
  by (simp_all add: layout_of_def)

lemma length_header: "length (header c e m) = 64"
  by (cases c) (simp_all add: header_def ELF_MAGIC_def)

lemma length_phdr: "length (phdr c e t seg) = ph_size (layout_of c)"
  by (cases c; cases seg) (simp_all add: phdr_def Let_def)

lemma length_tag_bytes: "length (tag_bytes e w tags) = 2 * w * length tags"
  by (induction tags) (auto simp: tag_bytes_def)

lemma length_offsets [simp]: "length (offsets k names) = length names"
  by (induction names arbitrary: k) simp_all

lemma length_image: "length (elf_image c e m base names) = image_size c names"
  by (simp add: elf_image_def length_header length_phdr length_tag_bytes image_tags_def image_size_def
      dynamic_offset_def dynamic_size_def distrib_left)

section \<open>Reading the header and the segments\<close>

lemma parse_header_image:
  assumes "m < 65536"
  shows "parse_header (header c e m @ rest) = Some \<lparr>h_class = c, h_endian = e, h_machine = m\<rparr>"
proof -
  have "length (header c e m @ rest) \<ge> 64" by (simp add: length_header)
  moreover have "take 4 (header c e m @ rest) = ELF_MAGIC" by (simp add: header_def Let_def ELF_MAGIC_def)
  moreover have "(header c e m @ rest) ! 5 = (case e of Little \<Rightarrow> 1 | Big \<Rightarrow> 2)"
    "(header c e m @ rest) ! 4 = (case c of Elf32 \<Rightarrow> 1 | Elf64 \<Rightarrow> 2)"
    by (simp_all add: header_def Let_def ELF_MAGIC_def)
  moreover have "unpack e 2 (header c e m @ rest) 18 = Some m"
    using assms by (simp add: header_def Let_def ELF_MAGIC_def unpack_Cons unpack_append)
  ultimately show ?thesis
    by (cases c; cases e) (simp_all add: parse_header_def)
qed

lemma header_fields:
  "unpack e (a_width (layout_of c)) (header c e m @ rest) (o_phoff (layout_of c)) = Some 64"
  "unpack e 2 (header c e m @ rest) (o_phentsize (layout_of c)) = Some (ph_size (layout_of c))"
  "unpack e 2 (header c e m @ rest) (o_phnum (layout_of c)) = Some 2"
  by (cases c; simp add: header_def Let_def ELF_MAGIC_def unpack_Cons unpack_append)+

lemma read_entry_shift: "read_entry L e (xs @ ys) (length xs + off) = read_entry L e ys off"
  by (simp add: read_entry_def add.assoc unpack_shift)

lemma read_entry_phdr:
  assumes "t < 256" and "p < 256 ^ a_width (layout_of c)" "v < 256 ^ a_width (layout_of c)"
    "f < 256 ^ a_width (layout_of c)"
  shows "read_entry (layout_of c) e (phdr c e t (p, v, f) @ rest) 0 = Some (t, p, v, f)"
  using assms by (cases c) (simp_all add: read_entry_def phdr_def Let_def unpack_append)

lemma image_fits:
  assumes "base + image_size c names < 256 ^ a_width (layout_of c)"
  shows "base < 256 ^ a_width (layout_of c)" "image_size c names < 256 ^ a_width (layout_of c)"
    "dynamic_offset c < 256 ^ a_width (layout_of c)" "base + dynamic_offset c < 256 ^ a_width (layout_of c)"
    "dynamic_size c names < 256 ^ a_width (layout_of c)"
    "base + dynamic_offset c + dynamic_size c names < 256 ^ a_width (layout_of c)"
    "length (string_table names) < 256 ^ a_width (layout_of c)"
  using assms by (simp_all add: image_size_def)

lemma load_segments_image:
  assumes "m < 65536" and fits: "base + image_size c names < 256 ^ a_width (layout_of c)"
  shows "load_segments (elf_image c e m base names) = \<lparr>load = [(0, base, image_size c names)],
    dyn_offset = dynamic_offset c, dyn_size = dynamic_size c names\<rparr>"
proof -
  let ?L = "layout_of c"
  let ?d = "elf_image c e m base names"
  let ?p1 = "phdr c e PT_LOAD (0, base, image_size c names)"
  let ?p2 = "phdr c e PT_DYNAMIC (dynamic_offset c, base + dynamic_offset c, dynamic_size c names)"
  let ?t = "tag_bytes e (a_width ?L) (image_tags c base names) @ string_table names"
  note f = image_fits [OF fits]
  have d: "?d = header c e m @ ?p1 @ ?p2 @ ?t" by (simp add: elf_image_def)
  have e1: "read_entry ?L e ?d 64 = Some (PT_LOAD, 0, base, image_size c names)"
    using read_entry_shift [of ?L e "header c e m" "?p1 @ ?p2 @ ?t" 0] f
    by (simp add: d length_header read_entry_phdr PT_LOAD_def)
  have e2: "read_entry ?L e ?d (64 + ph_size ?L)
      = Some (PT_DYNAMIC, dynamic_offset c, base + dynamic_offset c, dynamic_size c names)"
    using read_entry_shift [of ?L e "header c e m @ ?p1" "?p2 @ ?t" 0] f
    by (simp add: d length_header length_phdr read_entry_phdr PT_DYNAMIC_def)
  have len: "64 + 2 * ph_size ?L \<le> length ?d" by (simp add: length_image image_size_def dynamic_offset_def)
  have "[0..<2] = [0, 1 :: nat]" by (simp add: upt_rec)
  note h = header_fields [of e c m "?p1 @ ?p2 @ ?t", folded d]
    parse_header_image [OF assms(1), of c e "?p1 @ ?p2 @ ?t", folded d]
  from e1 e2 len \<open>[0..<2] = [0, 1]\<close> show ?thesis
    by (simp add: load_segments_def h no_segments_def add_segment_def elf_constants)
qed

section \<open>Reading the dynamic section\<close>

fun run_tags :: "(nat \<times> nat) list \<Rightarrow> dynamic \<Rightarrow> dynamic" where
  "run_tags [] acc = acc"
| "run_tags ((t, v) # tags) acc = (if t = DT_NULL then acc else run_tags tags (add_tag t v acc))"

lemma dynamic_from_tags:
  assumes "0 < w" and "\<forall>(t, v) \<in> set tags. t < 256 ^ w \<and> v < 256 ^ w"
  shows "dynamic_from w e (xs @ tag_bytes e w tags @ ys) (length xs) (length xs + 2 * w * length tags) acc
    = run_tags tags acc"
  using assms(2)
proof (induction tags arbitrary: xs acc)
  case Nil
  with assms(1) show ?case by (simp add: dynamic_from.simps)
next
  case (Cons tv tags)
  obtain t v where tv: "tv = (t, v)" by (cases tv)
  let ?xs = "xs @ pack e w t @ pack e w v"
  define D where "D = ?xs @ tag_bytes e w tags @ ys"
  have data: "xs @ tag_bytes e w (tv # tags) @ ys = D"
    by (simp add: D_def tag_bytes_def tv)
  have t: "unpack e w D (length xs) = Some t"
    using unpack_shift [of e w xs "pack e w t @ pack e w v @ tag_bytes e w tags @ ys" 0] Cons.prems tv
    by (simp add: D_def)
  have v: "unpack e w D (length xs + w) = Some v"
    using unpack_shift [of e w "xs @ pack e w t" "pack e w v @ tag_bytes e w tags @ ys" 0] Cons.prems tv
    by (simp add: D_def)
  have "\<forall>(t, v) \<in> set tags. t < 256 ^ w \<and> v < 256 ^ w" using Cons.prems by simp
  from Cons.IH [OF this, of ?xs, folded D_def]
  have IH: "dynamic_from w e D (length ?xs) (length ?xs + 2 * w * length tags) acc' = run_tags tags acc'"
    for acc' .
  have "length ?xs = length xs + 2 * w" by simp
  note IH = IH [unfolded this add.assoc]
  show ?case
    unfolding data using assms(1) by (subst dynamic_from.simps) (simp add: t v tv IH)
qed

lemma run_tags_needed:
  "run_tags (map (\<lambda>i. (DT_NEEDED, i)) is @ tags) acc = run_tags tags (acc\<lparr>needed := needed acc @ is\<rparr>)"
  by (induction "is" arbitrary: acc) (simp_all add: add_tag_def elf_constants)

lemma offsets_below: "i \<in> set (offsets k names) \<Longrightarrow> i < k + length (string_table names)"
  by (induction names arbitrary: k) (auto simp: string_table_def, fastforce)

lemma dynamic_image:
  assumes fits: "base + image_size c names < 256 ^ a_width (layout_of c)"
  shows "dynamic_from (a_width (layout_of c)) e (elf_image c e m base names) (dynamic_offset c)
      (dynamic_offset c + dynamic_size c names) no_dynamic
    = \<lparr>strtab_vaddr = base + dynamic_offset c + dynamic_size c names,
       strtab_size = length (string_table names), needed = offsets 0 names\<rparr>"
proof -
  let ?w = "a_width (layout_of c)"
  let ?xs = "header c e m @ phdr c e PT_LOAD (0, base, image_size c names)
     @ phdr c e PT_DYNAMIC (dynamic_offset c, base + dynamic_offset c, dynamic_size c names)"
  have len: "length ?xs = dynamic_offset c" by (simp add: length_header length_phdr dynamic_offset_def)
  have tags: "2 * ?w * length (image_tags c base names) = dynamic_size c names"
    by (simp add: image_tags_def dynamic_size_def distrib_left)
  have w: "10 < (256 :: nat) ^ ?w" "0 < ?w" by (cases c; simp)+
  have "\<forall>(t, v) \<in> set (image_tags c base names). t < 256 ^ ?w \<and> v < 256 ^ ?w"
    using w image_fits [OF fits] offsets_below [of _ 0 names] order.strict_trans
    by (auto simp: image_tags_def elf_constants)
  from dynamic_from_tags [OF w(2) this, of e ?xs "string_table names" no_dynamic]
  moreover have "run_tags (image_tags c base names) no_dynamic
      = \<lparr>strtab_vaddr = base + dynamic_offset c + dynamic_size c names,
         strtab_size = length (string_table names), needed = offsets 0 names\<rparr>"
    unfolding image_tags_def run_tags_needed by (simp add: add_tag_def elf_constants no_dynamic_def)
  ultimately show ?thesis
    unfolding tags len elf_image_def by simp
qed

section \<open>Reading the names\<close>

lemma find_upt: "a \<le> k \<Longrightarrow> k < m \<Longrightarrow> P k \<Longrightarrow> (\<And>j. a \<le> j \<Longrightarrow> j < k \<Longrightarrow> \<not> P j) \<Longrightarrow> find P [a..<m] = Some k"
proof (induction "k - a" arbitrary: a)
  case 0
  then show ?case by (simp add: upt_rec)
next
  case (Suc d)
  have "find P [Suc a..<m] = Some k" by (rule Suc.hyps(1)) (use Suc in auto)
  moreover have "\<not> P a" "a < m" using Suc by auto
  ultimately show ?case by (subst upt_rec) simp
qed

lemma library_at_name:
  assumes data: "data = pre @ n @ [0] @ post" and "length pre = off + idx" and n: "n \<noteq> []" "0 \<notin> set n" "length n < 256"
    and "off + idx + length n < off + limit"
  shows "library_at data off limit idx = Some (ascii n)"
proof -
  have nth: "data ! (length pre + j) = (n @ [0] @ post) ! j" for j by (simp add: data)
  have "find_nul data (off + idx) (min (off + idx + 256) (off + limit)) = Some (off + idx + length n)"
    unfolding find_nul_def assms(2) [symmetric]
  proof (rule find_upt)
    show "length pre + length n < min (min (length pre + 256) (off + limit)) (length data)"
      using assms by simp
    show "data ! (length pre + length n) = 0" by (simp add: nth)
    fix j assume "length pre \<le> j" "j < length pre + length n"
    then obtain i where "j = length pre + i" "i < length n" by (metis add_less_cancel_left le_Suc_ex)
    moreover from this n(2) have "n ! i \<noteq> 0" by (metis nth_mem)
    ultimately show "data ! j \<noteq> 0" by (simp add: nth nth_append)
  qed simp
  moreover have "take (length n) (drop (off + idx) data) = n"
    unfolding assms(2) [symmetric] by (simp add: data)
  moreover have "off + idx < length data" unfolding assms(2) [symmetric] by (simp add: data)
  ultimately show ?thesis
    using n(1) by (simp add: library_at_def Let_def ascii_def)
qed

lemma libraries_of_table:
  assumes "length pre = off + k" and "\<forall>n \<in> set names. n \<noteq> [] \<and> 0 \<notin> set n \<and> length n < 256"
    and "k + length (string_table names) \<le> limit"
  shows "List.map_filter (library_at (pre @ string_table names) off limit) (offsets k names) = map ascii names"
  using assms
proof (induction names arbitrary: pre k)
  case (Cons n names)
  let ?data = "pre @ string_table (n # names)"
  have data: "?data = pre @ n @ [0] @ string_table names" "?data = (pre @ n @ [0]) @ string_table names"
    by (simp_all add: string_table_def)
  have first: "library_at ?data off limit k = Some (ascii n)"
    by (rule library_at_name [OF data(1) Cons.prems(1)]) (use Cons.prems in \<open>auto simp: string_table_def\<close>)
  have "List.map_filter (library_at ((pre @ n @ [0]) @ string_table names) off limit) (offsets (k + length n + 1) names)
      = map ascii names"
    by (rule Cons.IH) (use Cons.prems in \<open>auto simp: string_table_def\<close>)
  with first show ?case unfolding data(2) by (simp add: List.map_filter_simps)
qed (simp add: List.map_filter_simps)

lemma read_back:
  assumes "names \<noteq> []" and "\<forall>n \<in> set names. n \<noteq> [] \<and> 0 \<notin> set n \<and> length n < 256"
    and "machine < 65536" and "base + image_size c names < 256 ^ a_width (layout_of c)"
  shows "linked_libraries (elf_image c e machine base names) = map ascii names"
proof -
  let ?d = "elf_image c e machine base names"
  let ?off = "dynamic_offset c + dynamic_size c names"
  obtain rest where "?d = header c e machine @ rest" by (simp add: elf_image_def)
  then have h: "parse_header ?d = Some \<lparr>h_class = c, h_endian = e, h_machine = machine\<rparr>"
    using parse_header_image [OF assms(3)] by simp
  obtain pre where pre: "?d = pre @ string_table names" "length pre = ?off"
    using length_image [of c e machine base names]
    by (auto simp: elf_image_def image_size_def intro!: that [of "_ @ _ @ _ @ _"])
  have table: "string_table names \<noteq> []" "offsets 0 names \<noteq> []" "0 < ?off" "0 < dynamic_offset c"
    using assms(1,2) by (cases names; auto simp: string_table_def dynamic_offset_def)+
  have "vaddr_to_offset (base + ?off) [(0, base, image_size c names)] = Some ?off"
    using table(1) by (simp add: image_size_def)
  moreover have "dynamic_offset c + dynamic_size c names \<le> length ?d" by (simp add: pre)
  moreover have "List.map_filter (library_at ?d ?off (length (string_table names))) (offsets 0 names) = map ascii names"
    unfolding pre(1) by (rule libraries_of_table) (use pre(2) assms(2) in auto)
  ultimately show ?thesis
    using h table load_segments_image [OF assms(3,4), of e] dynamic_image [OF assms(4), of e machine]
    by (simp add: linked_libraries_def add.assoc)
qed

text \<open>
  The reader finds the libraries a file was written with. For both classes, both byte orders and
  any machine, a file with a loaded segment that maps it and a dynamic section that needs some
  libraries is read back as exactly these names, in order, as long as each is a non-empty C string
  of at most 255 bytes and the addresses fit the class.
\<close>

theorem library_names_read_back:
  assumes "names \<noteq> []" and "\<forall>n \<in> set names. n \<noteq> [] \<and> 0 \<notin> set n \<and> length n < 256"
    and "machine < 65536" and "base + image_size c names < 256 ^ a_width (layout_of c)"
  shows "linked_libraries (elf_image c e machine base names) = map ascii names"
  using assms by (rule read_back)

definition demo_names :: "bytes list" where
  "demo_names = [[0x6C, 0x69, 0x62, 0x63], [0x6C, 0x69, 0x62, 0x6D]]"

definition demo_file :: bytes where
  "demo_file = elf_image Elf64 Little 62 0x400000 demo_names"

lemma demo_name_shapes: "\<forall>n \<in> set demo_names. n \<noteq> [] \<and> 0 \<notin> set n \<and> length n < 256"
  by (simp add: demo_names_def)

lemma demo_fits: "0x400000 + image_size Elf64 demo_names < 256 ^ a_width (layout_of Elf64)"
  by (simp add: image_size_def dynamic_offset_def dynamic_size_def demo_names_def string_table_def)

theorem library_names_read_back_witness: "linked_libraries demo_file = map ascii demo_names"
  unfolding demo_file_def
  by (rule library_names_read_back [OF _ demo_name_shapes _ demo_fits]) (simp_all add: demo_names_def)

theorem linked_names_are_strings_witness:
  "\<exists>start n. 0 < n \<and> n < 256 \<and> start + n < length demo_file \<and> demo_file ! (start + n) = 0
    \<and> (\<forall>j < n. demo_file ! (start + j) \<noteq> 0)
    \<and> ascii [0x6C, 0x69, 0x62, 0x63] = ascii (take n (drop start demo_file))"
proof (rule linked_names_are_strings)
  have "linked_libraries demo_file = map ascii demo_names"
    unfolding demo_file_def
    by (rule read_back [OF _ demo_name_shapes _ demo_fits]) (simp_all add: demo_names_def)
  then show "ascii [0x6C, 0x69, 0x62, 0x63] \<in> set (linked_libraries demo_file)"
    by (simp add: demo_names_def)
qed

end
