(* ===== verification/Patches.thy ===== *)
theory Patches
  imports Py_Regex
begin

text \<open>
  The patch reader of \<open>applicability/fixes.py\<close> and \<open>applicability/matching.py\<close>: a unified diff as the
  file changes it makes, which of a bundle's commits name the advisory, and how much of a patch is
  present in an installed tree. The tree is an argument: which relative paths are files and what is
  in them. Choosing and fetching a fix, and the headers of a mail, are left out.
\<close>

section \<open>Changes\<close>

record hunk =
  h_removed :: "string list"
  h_added :: "string list"

record file_change =
  fc_path :: string
  fc_hunks :: "hunk list"

record commit =
  cm_sha :: string
  cm_subject :: string
  cm_message :: string
  cm_files :: "file_change list"

definition TEST_PATH :: rx where
  "TEST_PATH = alts [
     seq [Alt (At Bos) (lit ''/''), Grp 2 (alts [seq [lit ''test'', opt (lit ''s'')], lit ''__tests__'', lit ''spec'',
        lit ''testdata'', seq [lit ''fixture'', opt (lit ''s'')]]), lit ''/''],
     seq [lit ''_test.go'', At Eos],
     seq [Alt (At Bos) (lit ''/''), lit ''test_'', star (Cls (\<lambda>c. c \<noteq> CHR ''/'')), lit ''.py'', At Eos],
     seq [star (Cls (\<lambda>c. c \<noteq> CHR ''/'')), lit ''_test.py'', At Eos],
     lit ''.test.'',
     lit ''.spec.'',
     seq [lit ''Test.java'', At Eos]]"

definition is_test_path :: "string \<Rightarrow> bool" where
  "is_test_path p \<longleftrightarrow> re_search TEST_PATH p \<noteq> None"

section \<open>Reading a diff\<close>

text \<open>
  \<open>cur\<close> is the last file or no file; \<open>hunk\<close> is the last hunk of some file, which need not be the
  current one: a new file header leaves it where it was.
\<close>

record reader =
  rd_files :: "file_change list"
  rd_cur :: bool
  rd_hunk :: "nat option"

definition add_hunk :: "file_change \<Rightarrow> file_change" where
  "add_hunk f = f\<lparr>fc_hunks := fc_hunks f @ [\<lparr>h_removed = [], h_added = []\<rparr>]\<rparr>"

definition in_last_hunk :: "(hunk \<Rightarrow> hunk) \<Rightarrow> file_change \<Rightarrow> file_change" where
  "in_last_hunk g f = f\<lparr>fc_hunks := butlast (fc_hunks f) @ [g (last (fc_hunks f))]\<rparr>"

definition read_line :: "reader \<Rightarrow> string \<Rightarrow> reader" where
  "read_line rd line =
     (if startswith line ''diff --git '' then rd\<lparr>rd_cur := False, rd_hunk := None\<rparr>
      else if startswith line ''+++ '' then
        (let path = removeprefix (strip (drop 4 line)) ''b/'' in
         if path = ''/dev/null'' then rd\<lparr>rd_cur := False\<rparr>
         else rd\<lparr>rd_files := rd_files rd @ [\<lparr>fc_path = path, fc_hunks = []\<rparr>], rd_cur := True\<rparr>)
      else if startswith line ''@@'' \<and> rd_cur rd then
        (let i = length (rd_files rd) - 1 in
         rd\<lparr>rd_files := (rd_files rd)[i := add_hunk (rd_files rd ! i)], rd_hunk := Some i\<rparr>)
      else
        (case rd_hunk rd of
           None \<Rightarrow> rd
         | Some i \<Rightarrow>
             if \<not> rd_cur rd then rd
             else if startswith line ''-'' \<and> \<not> startswith line ''---'' then
               rd\<lparr>rd_files := (rd_files rd)[i := in_last_hunk (\<lambda>h. h\<lparr>h_removed := h_removed h @ [drop 1 line]\<rparr>) (rd_files rd ! i)]\<rparr>
             else if startswith line ''+'' \<and> \<not> startswith line ''+++'' then
               rd\<lparr>rd_files := (rd_files rd)[i := in_last_hunk (\<lambda>h. h\<lparr>h_added := h_added h @ [drop 1 line]\<rparr>) (rd_files rd ! i)]\<rparr>
             else rd))"

definition start_reader :: reader where
  "start_reader = \<lparr>rd_files = [], rd_cur = False, rd_hunk = None\<rparr>"

definition read_diff :: "string \<Rightarrow> file_change list" where
  "read_diff diff = filter (\<lambda>f. fc_hunks f \<noteq> [] \<and> \<not> is_test_path (fc_path f))
     (rd_files (foldl read_line start_reader (split_lines diff)))"

definition advisory_ids :: "string option \<Rightarrow> string list \<Rightarrow> string set" where
  "advisory_ids vuln_id aliases = insert (case vuln_id of None \<Rightarrow> ''None'' | Some i \<Rightarrow> i) (set aliases)"

definition narrow :: "commit list \<Rightarrow> string list \<Rightarrow> commit list" where
  "narrow commits ids =
     (let named = filter (\<lambda>c. list_ex (\<lambda>i. occurs_in i (cm_message c)) ids) commits in
      if named = [] then commits else named)"

definition only_adds :: "file_change list \<Rightarrow> bool" where
  "only_adds fs \<longleftrightarrow> fs \<noteq> [] \<and> list_all (\<lambda>f. list_all (\<lambda>h. h_removed h = []) (fc_hunks f)) fs"

section \<open>Finding a patch in a tree\<close>

definition MAX_STRIP :: nat where
  "MAX_STRIP = 6"

definition found_at :: "(string list \<Rightarrow> bool) \<Rightarrow> file_change list \<Rightarrow> nat \<Rightarrow> (string \<times> string list) list" where
  "found_at is_file files k = fold (\<lambda>f acc.
     let parts = split_on CHR ''/'' (fc_path f) in
     if length parts \<le> k then acc
     else if is_file (drop k parts) then AList.update (fc_path f) (drop k parts) acc
     else acc) files []"

definition anchor_step :: "(string list \<Rightarrow> bool) \<Rightarrow> file_change list \<Rightarrow> nat
    \<Rightarrow> nat \<times> (string \<times> string list) list \<Rightarrow> nat \<times> (string \<times> string list) list" where
  "anchor_step is_file files k best =
     (let found = found_at is_file files k in
      if length found > length (snd best) then (k, found) else best)"

definition anchor :: "(string list \<Rightarrow> bool) \<Rightarrow> file_change list \<Rightarrow> nat \<times> (string \<times> string list) list" where
  "anchor is_file files = fold (anchor_step is_file files) [0..<MAX_STRIP + 1] (0, [])"

text \<open>\<open>re.sub(r"\s+", " ", line).strip()\<close>\<close>

definition norm_line :: "string \<Rightarrow> string" where
  "norm_line line = strip (re_sub (plus (Cls is_space)) (\<lambda>_. '' '') line)"

record hunk_presence =
  removed_lines :: nat
  removed_present :: nat
  added_lines :: nat
  added_present :: nat

record file_presence =
  patch_path :: string
  installed_path :: "string list option"
  hunk_rows :: "hunk_presence list"

definition normed :: "string list \<Rightarrow> string list" where
  "normed ls = filter (\<lambda>n. n \<noteq> []) (map norm_line ls)"

definition hunk_row :: "string set \<Rightarrow> hunk \<Rightarrow> hunk_presence" where
  "hunk_row text h =
     (let rem = normed (h_removed h); add = normed (h_added h) in
      \<lparr>removed_lines = length rem, removed_present = length (filter (\<lambda>x. x \<in> text) rem),
       added_lines = length add, added_present = length (filter (\<lambda>x. x \<in> text) add)\<rparr>)"

definition presence :: "(string list \<Rightarrow> bool) \<Rightarrow> (string list \<Rightarrow> string) \<Rightarrow> file_change list
    \<Rightarrow> file_presence list" where
  "presence is_file read_text files =
     (let found = snd (anchor is_file files) in
      map (\<lambda>f. case map_of found (fc_path f) of
          None \<Rightarrow> \<lparr>patch_path = fc_path f, installed_path = None, hunk_rows = []\<rparr>
        | Some p \<Rightarrow>
            \<lparr>patch_path = fc_path f, installed_path = Some p,
             hunk_rows = map (hunk_row (norm_line ` set (split_lines (read_text p)))) (fc_hunks f)\<rparr>) files)"

section \<open>A written diff is read back\<close>

text \<open>A hunk as a diff shows it: context, removed and added lines in any order.\<close>

datatype mark = Ctx | Del | Add

type_synonym body = "(mark \<times> string) list"

definition body_line :: "mark \<times> string \<Rightarrow> string" where
  "body_line ml = (case fst ml of Ctx \<Rightarrow> CHR '' '' | Del \<Rightarrow> CHR ''-'' | Add \<Rightarrow> CHR ''+'') # snd ml"

definition marked :: "mark \<Rightarrow> body \<Rightarrow> string list" where
  "marked m b = map snd (filter (\<lambda>ml. fst ml = m) b)"

definition hunk_of :: "body \<Rightarrow> hunk" where
  "hunk_of b = \<lparr>h_removed = marked Del b, h_added = marked Add b\<rparr>"

definition file_lines :: "string \<times> body list \<Rightarrow> string list" where
  "file_lines pb = [''diff --git a/'' @ fst pb @ '' b/'' @ fst pb, ''--- a/'' @ fst pb, ''+++ b/'' @ fst pb]
     @ concat (map (\<lambda>b. ''@@ -1 +1 @@'' # map body_line b) (snd pb))"

definition write_diff :: "(string \<times> body list) list \<Rightarrow> string" where
  "write_diff fs = concat (map (\<lambda>l. l @ [CHR 0x0A]) (concat (map file_lines fs)))"

definition change_of :: "string \<times> body list \<Rightarrow> file_change" where
  "change_of pb = \<lparr>fc_path = fst pb, fc_hunks = map hunk_of (snd pb)\<rparr>"

definition one_line :: "string \<Rightarrow> bool" where
  "one_line l \<longleftrightarrow> list_all (\<lambda>c. \<not> is_break c) l"

text \<open>Written so, these two would look like the headers of a file.\<close>

definition plain_line :: "mark \<times> string \<Rightarrow> bool" where
  "plain_line ml \<longleftrightarrow> one_line (snd ml) \<and> \<not> (fst ml = Del \<and> startswith (snd ml) ''--'')
     \<and> \<not> (fst ml = Add \<and> startswith (snd ml) ''++'')"

definition plain_file :: "string \<times> body list \<Rightarrow> bool" where
  "plain_file pb \<longleftrightarrow> one_line (fst pb) \<and> fst pb \<noteq> [] \<and> \<not> is_space (last (fst pb))
     \<and> fst pb \<noteq> ''/dev/null'' \<and> \<not> is_test_path (fst pb)
     \<and> snd pb \<noteq> [] \<and> list_all (list_all plain_line) (snd pb)"

lemma split_lines_lines:
  "list_all one_line ls \<Longrightarrow> split_lines (concat (map (\<lambda>l. l @ [CHR 0x0A]) ls)) = ls"
proof (induction ls)
  case (Cons l ls)
  have "split_lines ((l @ [CHR 0x0A]) @ concat (map (\<lambda>l. l @ [CHR 0x0A]) ls))
      = split_lines (l @ [CHR 0x0A]) @ split_lines (concat (map (\<lambda>l. l @ [CHR 0x0A]) ls))"
    by (rule split_lines_append) simp
  with Cons show ?case by (simp add: split_lines_line one_line_def)
qed simp

text \<open>The reader in the middle of a hunk \<open>h\<close> of the file \<open>p\<close>, after the files \<open>fs\<close> and the hunks \<open>hs\<close>.\<close>

definition inside :: "file_change list \<Rightarrow> string \<Rightarrow> hunk list \<Rightarrow> hunk \<Rightarrow> reader" where
  "inside fs p hs h = \<lparr>rd_files = fs @ [\<lparr>fc_path = p, fc_hunks = hs @ [h]\<rparr>], rd_cur = True,
     rd_hunk = Some (length fs)\<rparr>"

definition join_hunk :: "hunk \<Rightarrow> hunk \<Rightarrow> hunk" where
  "join_hunk h k = \<lparr>h_removed = h_removed h @ h_removed k, h_added = h_added h @ h_added k\<rparr>"

lemma startswith_Cons [simp]:
  "startswith s []" "startswith (c # s) (d # p) \<longleftrightarrow> c = d \<and> startswith s p" "\<not> startswith [] (d # p)"
  by (auto simp: startswith_def)

lemma plus_plus_space: "startswith l ''++ '' \<Longrightarrow> startswith l ''++''"
  by (cases l; cases "tl l") auto

lemma read_body_line:
  assumes "plain_line ml"
  shows "read_line (inside fs p hs h) (body_line ml) = inside fs p hs (join_hunk h (hunk_of [ml]))"
  using assms plus_plus_space [of "snd ml"]
  by (cases ml; cases "fst ml")
    (auto simp: read_line_def body_line_def inside_def join_hunk_def hunk_of_def marked_def plain_line_def
      in_last_hunk_def list_update_append)

lemma join_hunk_Nil [simp]: "join_hunk h (hunk_of []) = h" "join_hunk (hunk_of []) h = h"
  by (cases h; simp add: join_hunk_def hunk_of_def marked_def)+

lemma read_body:
  "list_all plain_line b \<Longrightarrow>
     foldl read_line (inside fs p hs h) (map body_line b) = inside fs p hs (join_hunk h (hunk_of b))"
proof (induction b arbitrary: h)
  case (Cons ml b)
  then show ?case
    by (simp add: read_body_line) (simp add: join_hunk_def hunk_of_def marked_def)
qed simp

lemma read_bodies:
  assumes "list_all (list_all plain_line) bs"
  shows "foldl read_line (inside fs p hs h) (concat (map (\<lambda>b. ''@@ -1 +1 @@'' # map body_line b) bs))
    = (if bs = [] then inside fs p hs h else inside fs p (hs @ h # map hunk_of (butlast bs)) (hunk_of (last bs)))"
  using assms
proof (induction bs arbitrary: hs h)
  case (Cons b bs)
  have "read_line (inside fs p hs h) ''@@ -1 +1 @@'' = inside fs p (hs @ [h]) (hunk_of [])"
    by (simp add: read_line_def inside_def add_hunk_def hunk_of_def marked_def)
  with Cons show ?case by (simp add: read_body)
qed simp

lemma read_file:
  assumes "plain_file pb"
  shows "rd_files (foldl read_line rd (file_lines pb)) = rd_files rd @ [change_of pb]"
proof -
  obtain p b bs where pb: "pb = (p, b # bs)"
    using assms by (cases pb; cases "snd pb") (auto simp: plain_file_def)
  have p: "p \<noteq> []" "\<not> is_space (last p)" "p \<noteq> ''/dev/null''" and ok: "list_all (list_all plain_line) (b # bs)"
    using assms by (auto simp: plain_file_def pb)
  have "strip (CHR ''b'' # CHR ''/'' # p) = CHR ''b'' # CHR ''/'' # p"
    by (rule strip_id) (use p in \<open>simp add: is_space_def code_in_def\<close>)
  then have path: "removeprefix (strip (drop 4 (''+++ b/'' @ p))) ''b/'' = p"
    by (simp add: removeprefix_def)
  let ?fs = "rd_files rd"
  have "foldl read_line rd [''diff --git a/'' @ p @ '' b/'' @ p, ''--- a/'' @ p, ''+++ b/'' @ p, ''@@ -1 +1 @@'']
      = inside ?fs p [] (hunk_of [])"
    using p path by (simp add: read_line_def inside_def add_hunk_def hunk_of_def marked_def Let_def)
  then have "foldl read_line rd (file_lines pb)
      = foldl read_line (inside ?fs p [] (hunk_of b)) (concat (map (\<lambda>b. ''@@ -1 +1 @@'' # map body_line b) bs))"
    using ok by (simp add: file_lines_def pb read_body)
  also have "\<dots> = (if bs = [] then inside ?fs p [] (hunk_of b)
      else inside ?fs p ([] @ hunk_of b # map hunk_of (butlast bs)) (hunk_of (last bs)))"
    by (rule read_bodies) (use ok in simp)
  finally show ?thesis
    by (cases bs rule: rev_cases) (simp_all add: inside_def change_of_def pb)
qed

lemma file_lines_one_line: "plain_file pb \<Longrightarrow> list_all one_line (file_lines pb)"
  by (auto simp: file_lines_def plain_file_def one_line_def list_all_iff plain_line_def body_line_def
      is_break_def code_in_def split: mark.splits)

text \<open>
  A diff is read back as the changes it was written from: per file, in order, the hunks with their
  removed and their added lines, whatever context lies between them. The file must not be a test
  file, and no removed line may begin with two dashes and no added line with two plus signs, since
  the reader takes these for file headers.
\<close>

theorem diff_reads_back:
  assumes "list_all plain_file fs"
  shows "read_diff (write_diff fs) = map change_of fs"
proof -
  have "rd_files (foldl read_line rd (concat (map file_lines fs))) = rd_files rd @ map change_of fs" for rd
    using assms by (induction fs arbitrary: rd) (simp_all add: read_file)
  moreover have "list_all one_line (concat (map file_lines fs))"
    using assms file_lines_one_line by (auto simp: list_all_iff)
  moreover have "filter (\<lambda>f. fc_hunks f \<noteq> [] \<and> \<not> is_test_path (fc_path f)) (map change_of fs) = map change_of fs"
    using assms by (auto simp: filter_id_conv list_all_iff plain_file_def change_of_def)
  ultimately show ?thesis
    by (simp add: read_diff_def write_diff_def split_lines_lines start_reader_def)
qed

definition demo_diff :: "(string \<times> body list) list" where
  "demo_diff = [(''lib/util/cache.js'', [[(Ctx, ''f()''), (Del, ''old''), (Add, ''new'')]])]"

theorem diff_reads_back_witness:
  "read_diff (write_diff demo_diff)
     = [\<lparr>fc_path = ''lib/util/cache.js'', fc_hunks = [\<lparr>h_removed = [''old''], h_added = [''new'']\<rparr>]\<rparr>]"
proof -
  have "list_all plain_file demo_diff" by code_simp
  from diff_reads_back [OF this] show ?thesis
    by (simp add: demo_diff_def change_of_def hunk_of_def marked_def)
qed

text \<open>A removed comment of SQL or Lua is one of the lines that the reader drops.\<close>

lemma removed_comment_dropped:
  "read_diff (write_diff [(''q.sql'', [[(Del, ''-- unsafe''), (Del, ''SELECT 1'')]])])
     = [\<lparr>fc_path = ''q.sql'', fc_hunks = [\<lparr>h_removed = [''SELECT 1''], h_added = []\<rparr>]\<rparr>]"
  by code_simp

section \<open>The anchor of a patch\<close>

lemma found_at_lookup:
  "map_of (found_at is_file files k) p = Some q \<longleftrightarrow>
     p \<in> fc_path ` set files \<and> q = drop k (split_on CHR ''/'' p) \<and> k < length (split_on CHR ''/'' p) \<and> is_file q"
proof -
  have "map_of (fold (\<lambda>f acc. let parts = split_on CHR ''/'' (fc_path f) in
       if length parts \<le> k then acc
       else if is_file (drop k parts) then AList.update (fc_path f) (drop k parts) acc else acc) files acc) p
     = (if p \<in> fc_path ` set files \<and> k < length (split_on CHR ''/'' p) \<and> is_file (drop k (split_on CHR ''/'' p))
        then Some (drop k (split_on CHR ''/'' p)) else map_of acc p)" for acc
    by (induction files arbitrary: acc) (auto simp: Let_def update_conv')
  from this [of "[]"] show ?thesis by (auto simp: found_at_def)
qed

lemma anchor_fold:
  assumes "fold (anchor_step is_file files) [0..<n] (0, []) = (k, found)"
  shows "(\<forall>j < n. length (found_at is_file files j) \<le> length found)
    \<and> (found = [] \<and> k = 0 \<or> k < n \<and> found = found_at is_file files k
        \<and> (\<forall>j < k. length (found_at is_file files j) < length found))"
  using assms
proof (induction n arbitrary: k found)
  case (Suc n)
  obtain k0 found0 where f0: "fold (anchor_step is_file files) [0..<n] (0, []) = (k0, found0)"
    by (metis prod.exhaust)
  note IH = Suc.IH [OF f0]
  have step: "anchor_step is_file files n (k0, found0) = (k, found)" using Suc.prems by (simp add: f0)
  show ?case
  proof (cases "length (found_at is_file files n) > length found0")
    case True
    then have "k = n" "found = found_at is_file files n"
      using step by (auto simp: anchor_step_def Let_def)
    with IH True show ?thesis by (force simp: less_Suc_eq)
  next
    case False
    then have "k = k0" "found = found0" using step by (auto simp: anchor_step_def Let_def)
    with IH False show ?thesis by (auto simp: less_Suc_eq)
  qed
qed simp

text \<open>
  The anchor is the best consistent strip. It maps patch paths to installed files by dropping the
  same number of leading components, at most six, from every path; it is the least number that
  finds as many files as any other does; and with it every path of the patch that has a file is
  mapped to it.
\<close>

theorem anchor_is_best:
  assumes "anchor is_file files = (k, found)"
  shows "k \<le> MAX_STRIP \<and> (\<forall>j \<le> MAX_STRIP. length (found_at is_file files j) \<le> length found)
    \<and> (\<forall>j < k. length (found_at is_file files j) < length found)
    \<and> (found \<noteq> [] \<longrightarrow> (\<forall>p q. map_of found p = Some q \<longleftrightarrow> p \<in> fc_path ` set files
          \<and> q = drop k (split_on CHR ''/'' p) \<and> k < length (split_on CHR ''/'' p) \<and> is_file q))"
  using anchor_fold [OF assms [unfolded anchor_def]] found_at_lookup [of is_file files k]
  by (auto simp: less_Suc_eq_le)

text \<open>A file at the root of the tree is matched by its base name alone.\<close>

lemma base_name_matches:
  "anchor (\<lambda>q. q = [''cache.js'']) [change_of (hd demo_diff)] = (2, [(''lib/util/cache.js'', [''cache.js''])])"
  by code_simp

theorem anchor_is_best_witness:
  "2 \<le> MAX_STRIP \<and> map_of [(''lib/util/cache.js'', [''cache.js''])] ''lib/util/cache.js'' = Some [''cache.js'']"
  using anchor_is_best [OF base_name_matches] by (simp add: change_of_def demo_diff_def)

end
