(* ===== verification/Portfolio_Graph.thy ===== *)
theory Portfolio_Graph
  imports Versions Py_Json
begin

text \<open>
  \<open>portfolio/graph.py\<close>, the store and its Go layer: nodes and edges of the portfolio graph with their
  upserts, the spine of layer 0, the dependency edges that \<open>build_deps\<close> reads from \<open>go.mod\<close> files, the
  release branches of the reference layer, and the blast radius query. The SQLite tables are association
  lists under their primary keys in row order; the attributes of a row are the JSON object its text
  holds. Fetching is an argument: what the contents API answered for a repository.
\<close>

section \<open>The store\<close>

type_synonym attrs = "(string \<times> json) list"

record node =
  n_kind :: string
  n_label :: string
  n_attrs :: attrs

record graph =
  nodes :: "(string \<times> node) list"
  edges :: "((string \<times> string \<times> string) \<times> attrs) list"

text \<open>\<open>label or nid\<close>\<close>

definition upsert_node :: "string \<Rightarrow> string \<Rightarrow> string option \<Rightarrow> attrs \<Rightarrow> graph \<Rightarrow> graph" where
  "upsert_node nid kind label attrs g = g\<lparr>nodes :=
     AList.update nid \<lparr>n_kind = kind, n_label = or_str label nid, n_attrs = attrs\<rparr> (nodes g)\<rparr>"

definition insert_or_ignore :: "string \<Rightarrow> string \<Rightarrow> string \<Rightarrow> attrs \<Rightarrow> graph \<Rightarrow> graph" where
  "insert_or_ignore nid kind label attrs g =
     (if map_of (nodes g) nid = None
      then g\<lparr>nodes := AList.update nid \<lparr>n_kind = kind, n_label = label, n_attrs = attrs\<rparr> (nodes g)\<rparr>
      else g)"

definition ENRICHMENT_ATTR_KEYS :: "string list" where
  "ENRICHMENT_ATTR_KEYS = [''pqc'']"

text \<open>Keys of the stored node that the fresh attributes lack are folded in after them.\<close>

definition keep_enrichment :: "attrs \<Rightarrow> attrs \<Rightarrow> attrs" where
  "keep_enrichment existing attrs =
     fold (\<lambda>k a. case map_of existing k of None \<Rightarrow> a
         | Some v \<Rightarrow> if map_of a k = None then AList.update k v a else a) ENRICHMENT_ATTR_KEYS attrs"

definition upsert_repo_node :: "string \<Rightarrow> string \<Rightarrow> string option \<Rightarrow> attrs \<Rightarrow> graph \<Rightarrow> graph" where
  "upsert_repo_node nid kind label attrs g =
     upsert_node nid kind label
       (case map_of (nodes g) nid of None \<Rightarrow> attrs | Some n \<Rightarrow> keep_enrichment (n_attrs n) attrs) g"

definition upsert_edge :: "string \<Rightarrow> string \<Rightarrow> string \<Rightarrow> attrs \<Rightarrow> graph \<Rightarrow> graph" where
  "upsert_edge src dst rel attrs g = g\<lparr>edges := AList.update (src, dst, rel) attrs (edges g)\<rparr>"

text \<open>\<open>UPDATE nodes SET attrs = json_set(...) WHERE id = ?\<close>\<close>

definition json_set :: "attrs \<Rightarrow> attrs \<Rightarrow> attrs" where
  "json_set new a = fold (\<lambda>(k, v). AList.update k v) new a"

definition set_attrs :: "string \<Rightarrow> attrs \<Rightarrow> graph \<Rightarrow> graph" where
  "set_attrs nid new g =
     g\<lparr>nodes := map (\<lambda>(i, n). if i = nid then (i, n\<lparr>n_attrs := json_set new (n_attrs n)\<rparr>) else (i, n)) (nodes g)\<rparr>"

section \<open>The spine\<close>

record spine_node =
  sn_id :: string
  sn_type :: string
  sn_label :: "string option"
  sn_attrs :: attrs

record spine_edge =
  se_from :: string
  se_to :: string
  se_rel :: "string option"
  se_attrs :: attrs

definition add_spine_node :: "spine_node \<Rightarrow> graph \<Rightarrow> graph" where
  "add_spine_node n g =
     (if sn_type n = ''repo'' then upsert_repo_node (sn_id n) (sn_type n) (sn_label n) (sn_attrs n) g
      else upsert_node (sn_id n) (sn_type n) (sn_label n) (sn_attrs n) g)"

definition add_spine_edge :: "spine_edge \<Rightarrow> graph \<Rightarrow> graph" where
  "add_spine_edge e g =
     upsert_edge (se_from e) (se_to e) (case se_rel e of None \<Rightarrow> ''related'' | Some r \<Rightarrow> r) (se_attrs e) g"

definition build_spine :: "spine_node list \<Rightarrow> spine_edge list \<Rightarrow> graph \<Rightarrow> graph" where
  "build_spine ns es g = fold add_spine_edge es (fold add_spine_node ns g)"

section \<open>Reading go.mod\<close>

definition space_rx :: rx where
  "space_rx = star (Cls is_space)"

definition MODULE_RE :: rx where
  "MODULE_RE = seq [At Bol, space_rx, lit ''module'', plus (Cls is_space),
     Grp 1 (plus (Cls (\<lambda>c. \<not> is_space c))), space_rx, At Eol]"

definition REQUIRE_RE :: rx where
  "REQUIRE_RE = seq [At Bos, space_rx, Grp 1 (plus (Cls (alnum_or ''._~-/''))), plus (Cls is_space),
     Grp 2 (Cat (lit ''v'') (plus (Cls (\<lambda>c. \<not> is_space c \<and> c \<noteq> CHR ''/'')))),
     opt (Grp 3 (seq [space_rx, lit ''//'', space_rx, lit ''indirect''])), space_rx, At Eos]"

type_synonym require = "string \<times> string \<times> bool"

definition require_of :: "string \<Rightarrow> require option" where
  "require_of candidate =
     (if candidate = [] then None
      else map_option (\<lambda>m. (or_str (m_group 1 m) [], or_str (m_group 2 m) [], truthy (m_group 3 m)))
        (re_match REQUIRE_RE candidate))"

fun require_lines :: "bool \<Rightarrow> string list \<Rightarrow> require list" where
  "require_lines in_block [] = []"
| "require_lines in_block (line # lines) =
     (let s = strip line in
      if startswith s ''require ('' then require_lines True lines
      else if in_block \<and> s = '')'' then require_lines False lines
      else (let candidate = (if in_block then s
              else if startswith s ''require '' then drop (length ''require '') s else [])
        in (case require_of candidate of None \<Rightarrow> [] | Some r \<Rightarrow> [r]) @ require_lines in_block lines))"

definition parse_gomod :: "string \<Rightarrow> string option \<times> require list" where
  "parse_gomod text =
     (case re_search MODULE_RE text of None \<Rightarrow> None | Some m \<Rightarrow> m_group 1 m,
      require_lines False (split_lines text))"

section \<open>Go dependencies\<close>

datatype fetch = Fetched string | Absent | Fetch_error

definition attr_str :: "string \<Rightarrow> attrs \<Rightarrow> string option" where
  "attr_str k a = (case map_of a k of Some (JStr s) \<Rightarrow> Some s | _ \<Rightarrow> None)"

definition repo_nodes :: "graph \<Rightarrow> (string \<times> attrs) list" where
  "repo_nodes g = map (\<lambda>(i, n). (i, n_attrs n)) (filter (\<lambda>(i, n). n_kind n = ''repo'') (nodes g))"

definition on_github :: "attrs \<Rightarrow> bool" where
  "on_github a \<longleftrightarrow> attr_str ''host'' a = Some ''github.com'' \<and> truthy (attr_str ''org'' a) \<and> truthy (attr_str ''name'' a)"

definition gh_repos :: "nat option \<Rightarrow> graph \<Rightarrow> (string \<times> string \<times> string) list" where
  "gh_repos limit g =
     (let rs = map (\<lambda>(i, a). (i, or_str (attr_str ''org'' a) [], or_str (attr_str ''name'' a) []))
            (filter (on_github \<circ> snd) (repo_nodes g))
      in case limit of None \<Rightarrow> rs | Some n \<Rightarrow> if n = 0 then rs else take n rs)"

definition go_repo :: "(string \<Rightarrow> string \<Rightarrow> fetch) \<Rightarrow> string \<times> string \<times> string
    \<Rightarrow> (string \<times> string \<times> require list) option" where
  "go_repo fetch r =
     (case r of (rid, org, name) \<Rightarrow>
        (case fetch org name of
           Fetched text \<Rightarrow> (case parse_gomod text of (module, requires) \<Rightarrow>
             if truthy module then Some (rid, or_str module [], requires) else None)
         | _ \<Rightarrow> None))"

record dep_stats =
  ds_repos :: nat
  ds_go :: nat
  ds_absent :: nat
  ds_errors :: nat
  ds_skipped_host :: nat
  ds_modules :: nat
  ds_edges :: nat

definition num :: "bool \<Rightarrow> json" where
  "num b = JNum (if b then ''1'' else ''0'')"

definition module_id :: "string \<Rightarrow> string" where
  "module_id m = ''module:'' @ m"

definition owner_json :: "string option \<Rightarrow> json" where
  "owner_json o' = (case o' of None \<Rightarrow> JNull | Some r \<Rightarrow> JStr r)"

text \<open>\<open>module_owner[module] = rid\<close>: the last repository that declares a module owns it.\<close>

definition module_owners :: "(string \<times> string \<times> require list) list \<Rightarrow> (string \<times> string) list" where
  "module_owners parsed = fold (\<lambda>(rid, module, _). AList.update module rid) parsed []"

definition add_module :: "string \<Rightarrow> bool \<Rightarrow> string option \<Rightarrow> graph \<times> string list \<Rightarrow> graph \<times> string list" where
  "add_module m internal owner gs =
     (if m \<in> set (snd gs) then gs
      else (upsert_node (module_id m) ''module'' (Some m)
              [(''internal'', num internal), (''owner_repo'', owner_json owner)] (fst gs), snd gs @ [m]))"

definition add_require :: "(string \<times> string) list \<Rightarrow> string \<Rightarrow> require \<Rightarrow> graph \<times> string list \<Rightarrow> graph \<times> string list" where
  "add_require owners rid r gs =
     (case r of (dep, version, indirect) \<Rightarrow>
        (case add_module dep (map_of owners dep \<noteq> None) (map_of owners dep) gs of (g, seen) \<Rightarrow>
           (upsert_edge rid (module_id dep) ''depends_on''
              [(''version'', JStr version), (''indirect'', num indirect)] g, seen)))"

definition add_go_repo :: "(string \<times> string) list \<Rightarrow> string \<times> string \<times> require list
    \<Rightarrow> graph \<times> string list \<Rightarrow> graph \<times> string list" where
  "add_go_repo owners p gs =
     (case p of (rid, module, requires) \<Rightarrow>
        (case add_module module True (Some rid) gs of (g, seen) \<Rightarrow>
           fold (add_require owners rid) requires (upsert_edge rid (module_id module) ''declares'' [] g, seen)))"

definition mark_owner :: "string \<times> string \<Rightarrow> graph \<Rightarrow> graph" where
  "mark_owner mo g =
     (case mo of (module, rid) \<Rightarrow> set_attrs (module_id module)
        [(''internal'', num True), (''owner_repo'', JStr rid),
         (''sustaining_fork'', num (\<not> startswith module (removeprefix rid ''repo:'')))] g)"

definition is_error :: "(string \<Rightarrow> string \<Rightarrow> fetch) \<Rightarrow> string \<times> string \<times> string \<Rightarrow> bool" where
  "is_error fetch r \<longleftrightarrow> fetch (fst (snd r)) (snd (snd r)) = Fetch_error"

definition build_deps :: "(string \<Rightarrow> string \<Rightarrow> fetch) \<Rightarrow> nat option \<Rightarrow> graph \<Rightarrow> graph \<times> dep_stats" where
  "build_deps fetch limit g =
     (let repos = gh_repos limit g;
          parsed = List.map_filter (go_repo fetch) repos;
          owners = module_owners parsed;
          gs = fold (add_go_repo owners) parsed (g, [])
      in (fold mark_owner owners (fst gs),
          \<lparr>ds_repos = length repos, ds_go = length parsed,
           ds_absent = length (filter (\<lambda>r. \<not> is_error fetch r \<and> go_repo fetch r = None) repos),
           ds_errors = length (filter (is_error fetch) repos),
           ds_skipped_host = length (repo_nodes g) - length (filter (on_github \<circ> snd) (repo_nodes g)),
           ds_modules = length (snd gs),
           ds_edges = sum_list (map (\<lambda>(_, _, requires). length requires) parsed)\<rparr>))"


section \<open>Queries\<close>

text \<open>
  \<open>json_extract\<close> of the numbers and strings this program writes; a missing attribute is SQL's null,
  which sorts before numbers and is false.
\<close>

definition indirect_rank :: "attrs \<Rightarrow> nat" where
  "indirect_rank a = (case map_of a ''indirect'' of
       None \<Rightarrow> 0 | Some JNull \<Rightarrow> 0
     | Some (JNum t) \<Rightarrow> if t = ''0'' then 1 else 2
     | Some (JBool b) \<Rightarrow> if b then 2 else 1
     | Some _ \<Rightarrow> 3)"

definition dependents :: "string \<Rightarrow> graph \<Rightarrow> (string \<times> attrs) list" where
  "dependents dst g = map (\<lambda>((s, _, _), a). (s, a))
     (filter (\<lambda>((_, d, r), _). r = ''depends_on'' \<and> d = dst) (edges g))"

definition product_labels :: "graph \<Rightarrow> string list \<Rightarrow> string list" where
  "product_labels g repos = sort (remdups (concat (map (\<lambda>((s, d, r), _).
     if r \<in> {''ships'', ''contains'', ''includes''} \<and> d \<in> set repos
     then (case map_of (nodes g) s of None \<Rightarrow> [] | Some n \<Rightarrow> [n_label n]) else []) (edges g))))"

record requiring =
  rq_repo :: string
  rq_version :: "string option"
  rq_indirect :: bool

record blast =
  b_module :: string
  b_requiring :: "requiring list"
  b_products :: "string list"

definition blast_node :: "string \<Rightarrow> string" where
  "blast_node m = (if startswith m ''module:'' \<or> startswith m ''pkg:'' then m else module_id m)"

definition q_blast_radius :: "graph \<Rightarrow> string \<Rightarrow> blast" where
  "q_blast_radius g m =
     (let nid = blast_node m;
          rows = sort_key (\<lambda>(s, a). (indirect_rank a, s)) (dependents nid g)
      in \<lparr>b_module = removeprefix nid ''module:'',
          b_requiring = map (\<lambda>(s, a). \<lparr>rq_repo = s, rq_version = attr_str ''version'' a,
             rq_indirect = indirect_rank a \<ge> 2\<rparr>) rows,
          b_products = product_labels g (map fst (dependents nid g))\<rparr>)"

section \<open>The store keeps its keys unique\<close>

definition store_ok :: "graph \<Rightarrow> bool" where
  "store_ok g \<longleftrightarrow> distinct (map fst (nodes g)) \<and> distinct (map fst (edges g))"

lemma map_fst_set_attrs [simp]: "map fst (nodes (set_attrs i a g)) = map fst (nodes g)"
  by (auto simp: set_attrs_def)

lemma set_attrs_edges [simp]: "edges (set_attrs i a g) = edges g"
  by (simp add: set_attrs_def)

lemma upsert_node_fields [simp]:
  "edges (upsert_node i k l a g) = edges g"
  "edges (upsert_repo_node i k l a g) = edges g"
  "nodes (upsert_edge s d r a g) = nodes g"
  by (simp_all add: upsert_node_def upsert_repo_node_def upsert_edge_def)

lemma store_ok_upserts:
  assumes "store_ok g"
  shows "store_ok (upsert_node i k l a g)" "store_ok (upsert_repo_node i k l a g)"
    "store_ok (upsert_edge s d r a g)" "store_ok (set_attrs i a g)" "store_ok (insert_or_ignore i k l' a g)"
  using assms by (simp_all add: store_ok_def upsert_node_def upsert_repo_node_def upsert_edge_def
      insert_or_ignore_def distinct_update)

text \<open>The edge rows the Go layer writes, in order.\<close>

definition edge_writes :: "(string \<times> string \<times> require list) list \<Rightarrow> ((string \<times> string \<times> string) \<times> attrs) list" where
  "edge_writes parsed = concat (map (\<lambda>(rid, module, requires).
     ((rid, module_id module, ''declares''), [])
       # map (\<lambda>(dep, version, indirect). ((rid, module_id dep, ''depends_on''),
            [(''version'', JStr version), (''indirect'', num indirect)])) requires) parsed)"

lemma add_module_edges [simp]: "edges (fst (add_module m i w gs)) = edges (fst gs)"
  by (simp add: add_module_def)

lemma add_requires_edges:
  "edges (fst (fold (add_require owners rid) requires gs))
     = fold (\<lambda>(k, v). AList.update k v) (map (\<lambda>(dep, version, indirect). ((rid, module_id dep, ''depends_on''),
            [(''version'', JStr version), (''indirect'', num indirect)])) requires) (edges (fst gs))"
  by (induction requires arbitrary: gs) (simp_all add: add_require_def upsert_edge_def case_prod_unfold)

lemma add_repos_edges:
  "edges (fst (fold (add_go_repo owners) parsed gs))
     = fold (\<lambda>(k, v). AList.update k v) (edge_writes parsed) (edges (fst gs))"
  by (induction parsed arbitrary: gs)
    (simp_all add: edge_writes_def add_go_repo_def add_requires_edges upsert_edge_def case_prod_unfold)

lemma mark_owners_edges [simp]: "edges (fold mark_owner mos g) = edges g"
  by (induction mos arbitrary: g) (simp_all add: mark_owner_def case_prod_unfold)

lemma build_deps_edges:
  "edges (fst (build_deps fetch limit g))
     = fold (\<lambda>(k, v). AList.update k v) (edge_writes (List.map_filter (go_repo fetch) (gh_repos limit g))) (edges g)"
  by (simp add: build_deps_def Let_def add_repos_edges)


section \<open>What the blast radius holds\<close>

text \<open>The last \<open>require\<close> of a module in a file, and what the repository's file says of it.\<close>

definition last_require :: "string \<Rightarrow> require list \<Rightarrow> (string \<times> bool) option" where
  "last_require m requires = map_of (rev requires) m"

definition requirement :: "(string \<Rightarrow> string \<Rightarrow> fetch) \<Rightarrow> nat option \<Rightarrow> graph \<Rightarrow> string \<Rightarrow> string \<Rightarrow> (string \<times> bool) option" where
  "requirement fetch limit g r m =
     (case map_of (List.map_filter (go_repo fetch) (gh_repos limit g)) r of
        None \<Rightarrow> None | Some (_, requires) \<Rightarrow> last_require m requires)"

definition require_attrs :: "string \<times> bool \<Rightarrow> attrs" where
  "require_attrs vi = [(''version'', JStr (fst vi)), (''indirect'', num (snd vi))]"

lemma module_id_inject [simp]: "module_id m = module_id n \<longleftrightarrow> m = n"
  by (simp add: module_id_def)

lemma require_writes_lookup:
  "map_of (rev (map (\<lambda>(dep, version, indirect). ((rid, module_id dep, ''depends_on''),
       [(''version'', JStr version), (''indirect'', num indirect)])) requires)) (r, module_id m, ''depends_on'')
     = (if r = rid then map_option require_attrs (last_require m requires) else None)"
  by (induction requires)
    (auto simp: last_require_def require_attrs_def map_add_def split: option.splits)

lemma edge_writes_lookup:
  "distinct (map fst parsed) \<Longrightarrow>
     map_of (rev (edge_writes parsed)) (r, module_id m, ''depends_on'')
       = (case map_of parsed r of None \<Rightarrow> None
          | Some (_, requires) \<Rightarrow> map_option require_attrs (last_require m requires))"
proof (induction parsed)
  case (Cons p parsed)
  obtain rid module requires where p: "p = (rid, module, requires)" by (cases p)
  have "map_of parsed rid = None" using Cons.prems p by (simp add: map_of_eq_None_iff)
  with Cons p show ?case
    by (auto simp: edge_writes_def map_add_def require_writes_lookup split: option.splits)
qed (simp add: edge_writes_def)

lemma distinct_keys_map_filter:
  "distinct (map k xs) \<Longrightarrow> (\<And>x y. f x = Some y \<Longrightarrow> fst y = k x) \<Longrightarrow> distinct (map fst (List.map_filter f xs))"
  by (induction xs) (force simp: in_map_filter split: option.splits)+

lemma distinct_gh_repos: "store_ok g \<Longrightarrow> distinct (map fst (gh_repos limit g))"
proof -
  assume g: "store_ok g"
  have "map fst (map (\<lambda>(i, a). (i, or_str (attr_str ''org'' a) [], or_str (attr_str ''name'' a) []))
      (filter (on_github \<circ> snd) (repo_nodes g))) = map fst (filter (on_github \<circ> snd) (repo_nodes g))"
    by (simp add: case_prod_unfold)
  moreover have "distinct (map fst (repo_nodes g))"
    using g by (simp add: store_ok_def repo_nodes_def case_prod_unfold comp_def distinct_map_filter)
  ultimately have "distinct (map fst (map (\<lambda>(i, a). (i, or_str (attr_str ''org'' a) [], or_str (attr_str ''name'' a) []))
      (filter (on_github \<circ> snd) (repo_nodes g))))"
    by (simp only: distinct_map_filter)
  then show ?thesis
    by (auto simp: gh_repos_def Let_def simp flip: take_map split: option.splits)
qed

lemma distinct_parsed:
  "store_ok g \<Longrightarrow> distinct (map fst (List.map_filter (go_repo fetch) (gh_repos limit g)))"
  by (rule distinct_keys_map_filter [OF distinct_gh_repos])
    (auto simp: go_repo_def split: prod.splits fetch.splits if_splits)

lemma build_deps_lookup:
  assumes "store_ok g"
  shows "map_of (edges (fst (build_deps fetch limit g))) (r, module_id m, ''depends_on'')
    = (case requirement fetch limit g r m of
         None \<Rightarrow> map_of (edges g) (r, module_id m, ''depends_on'')
       | Some vi \<Rightarrow> Some (require_attrs vi))"
  unfolding build_deps_edges dict_simps edge_writes_lookup [OF distinct_parsed [OF assms]] requirement_def
  by (auto split: option.splits)

lemma store_ok_build_deps: "store_ok g \<Longrightarrow> store_ok (fst (build_deps fetch limit g))"
proof -
  have m: "store_ok (fst (add_module m i w gs))" if "store_ok (fst gs)" for m i w gs
    using that by (simp add: add_module_def store_ok_upserts)
  have r: "store_ok (fst (fold (add_require owners rid) rs gs))" if "store_ok (fst gs)" for owners rid rs gs
    using that by (induction rs arbitrary: gs) (simp_all add: add_require_def case_prod_unfold store_ok_upserts m)
  have p: "store_ok (fst (fold (add_go_repo owners) ps gs))" if "store_ok (fst gs)" for owners ps gs
    using that by (induction ps arbitrary: gs) (simp_all add: add_go_repo_def case_prod_unfold store_ok_upserts m r)
  have o': "store_ok (fold mark_owner mos h)" if "store_ok h" for mos h
    using that by (induction mos arbitrary: h) (simp_all add: mark_owner_def case_prod_unfold store_ok_upserts)
  show "store_ok g \<Longrightarrow> ?thesis" by (simp add: build_deps_def Let_def o' p)
qed

lemma in_dependents:
  "store_ok g \<Longrightarrow> (s, a) \<in> set (dependents d g) \<longleftrightarrow> map_of (edges g) (s, d, ''depends_on'') = Some a"
  by (force simp: dependents_def store_ok_def image_iff)

lemma distinct_dependents: "store_ok g \<Longrightarrow> distinct (map fst (dependents d g))"
proof -
  assume "store_ok g"
  then have d: "distinct (map fst (edges g))" by (simp add: store_ok_def)
  then have "distinct (filter (\<lambda>((_, d', r), _). r = ''depends_on'' \<and> d' = d) (edges g))"
    by (simp add: distinct_map)
  then show ?thesis
    using eq_key_imp_eq_value [OF d] by (auto simp: dependents_def distinct_map inj_on_def)
qed


lemma blast_module_node [simp]: "blast_node (module_id m) = module_id m"
  by (simp add: blast_node_def module_id_def startswith_def)

lemma in_requiring:
  "store_ok g \<Longrightarrow> x \<in> set (b_requiring (q_blast_radius g (module_id m))) \<longleftrightarrow>
     (\<exists>a. map_of (edges g) (rq_repo x, module_id m, ''depends_on'') = Some a
        \<and> rq_version x = attr_str ''version'' a \<and> rq_indirect x = (indirect_rank a \<ge> 2))"
  by (cases x) (force simp: q_blast_radius_def Let_def image_iff simp flip: in_dependents)

lemma distinct_requiring:
  "store_ok g \<Longrightarrow> distinct (map rq_repo (b_requiring (q_blast_radius g m)))"
  using distinct_dependents [of g "blast_node m"]
  by (simp add: q_blast_radius_def Let_def comp_def case_prod_unfold distinct_map inj_on_def)

lemma require_attrs_read [simp]:
  "attr_str ''version'' (require_attrs vi) = Some (fst vi)"
  "2 \<le> indirect_rank (require_attrs vi) \<longleftrightarrow> snd vi"
  by (cases vi; simp add: require_attrs_def attr_str_def indirect_rank_def num_def)+

section \<open>What the spine keeps\<close>

text \<open>The value a rebuilt node has for a key: the spine's, else for a repository an enrichment it had.\<close>

definition rebuilt_attr :: "graph \<Rightarrow> spine_node \<Rightarrow> string \<Rightarrow> json option" where
  "rebuilt_attr g n k = (case map_of (sn_attrs n) k of
       Some v \<Rightarrow> Some v
     | None \<Rightarrow> if sn_type n = ''repo'' \<and> k \<in> set ENRICHMENT_ATTR_KEYS
         then (case map_of (nodes g) (sn_id n) of None \<Rightarrow> None | Some old \<Rightarrow> map_of (n_attrs old) k) else None)"

lemma keep_enrichment_lookup:
  "map_of (keep_enrichment existing a) k = (case map_of a k of Some v \<Rightarrow> Some v
     | None \<Rightarrow> if k \<in> set ENRICHMENT_ATTR_KEYS then map_of existing k else None)"
  by (auto simp: keep_enrichment_def ENRICHMENT_ATTR_KEYS_def dict_simps split: option.splits)

lemma add_spine_node_lookup:
  "map_of (nodes (add_spine_node n g)) i =
     (if i = sn_id n then Some \<lparr>n_kind = sn_type n, n_label = or_str (sn_label n) (sn_id n),
        n_attrs = (if sn_type n = ''repo'' then (case map_of (nodes g) (sn_id n) of
            None \<Rightarrow> sn_attrs n | Some old \<Rightarrow> keep_enrichment (n_attrs old) (sn_attrs n)) else sn_attrs n)\<rparr>
      else map_of (nodes g) i)"
  by (simp add: add_spine_node_def upsert_repo_node_def upsert_node_def dict_simps)

lemma add_spine_edges_nodes [simp]: "nodes (fold add_spine_edge es g) = nodes g"
  by (induction es arbitrary: g) (simp_all add: add_spine_edge_def)

lemma add_spine_nodes_other:
  "i \<notin> sn_id ` set ns \<Longrightarrow> map_of (nodes (fold add_spine_node ns g)) i = map_of (nodes g) i"
  by (induction ns arbitrary: g) (auto simp: add_spine_node_lookup)

lemma add_spine_nodes_lookup:
  "distinct (map sn_id ns) \<Longrightarrow> n \<in> set ns \<Longrightarrow>
     \<exists>m. map_of (nodes (fold add_spine_node ns g)) (sn_id n) = Some m \<and> n_kind m = sn_type n
       \<and> map_of (n_attrs m) = rebuilt_attr g n"
proof (induction ns arbitrary: g)
  case (Cons x ns)
  show ?case
  proof (cases "n = x")
    case True
    then have "map_of (nodes (fold add_spine_node (x # ns) g)) (sn_id n) = map_of (nodes (add_spine_node x g)) (sn_id n)"
      using Cons.prems by (simp add: add_spine_nodes_other)
    then show ?thesis
      using True by (auto simp: add_spine_node_lookup rebuilt_attr_def keep_enrichment_lookup fun_eq_iff split: option.splits)
  next
    case False
    then have "n \<in> set ns" using Cons.prems by simp
    then have "sn_id n \<noteq> sn_id x" using Cons.prems by (metis distinct.simps(2) image_eqI list.map(2) list.set_map)
    have "rebuilt_attr (add_spine_node x g) n = rebuilt_attr g n"
      using \<open>sn_id n \<noteq> sn_id x\<close>
      by (auto simp: rebuilt_attr_def add_spine_node_lookup fun_eq_iff split: option.splits)
    with Cons.IH [of "add_spine_node x g"] Cons.prems \<open>n \<in> set ns\<close> show ?thesis by simp
  qed
qed simp

section \<open>Properties\<close>

text \<open>
  Rebuilding the spine is authoritative and still keeps what later steps wrote: every node of the
  spine has the spine's kind and exactly the spine's attributes, but for the enrichment keys of a
  repository, which keep their stored value when the spine has none; nodes the spine does not name stay.
\<close>

theorem spine_keeps_enrichment:
  assumes "distinct (map sn_id ns)"
  shows "(n \<in> set ns \<longrightarrow> (\<exists>m. map_of (nodes (build_spine ns es g)) (sn_id n) = Some m
        \<and> n_kind m = sn_type n \<and> map_of (n_attrs m) = rebuilt_attr g n))
    \<and> (i \<notin> sn_id ` set ns \<longrightarrow> map_of (nodes (build_spine ns es g)) i = map_of (nodes g) i)"
  using assms by (simp add: build_spine_def add_spine_nodes_other add_spine_nodes_lookup)

definition demo_spine :: "spine_node list" where
  "demo_spine = [\<lparr>sn_id = ''repo:a'', sn_type = ''repo'', sn_label = None, sn_attrs = [(''host'', JStr ''gitlab'')]\<rparr>]"

definition demo_enriched :: graph where
  "demo_enriched = \<lparr>nodes = [(''repo:a'', \<lparr>n_kind = ''repo'', n_label = ''a'',
     n_attrs = [(''host'', JStr ''x''), (''pqc'', JBool True), (''old'', JNull)]\<rparr>)], edges = []\<rparr>"

theorem spine_keeps_enrichment_witness:
  "\<exists>m. map_of (nodes (build_spine demo_spine [] demo_enriched)) ''repo:a'' = Some m
     \<and> map_of (n_attrs m) ''pqc'' = Some (JBool True) \<and> map_of (n_attrs m) ''host'' = Some (JStr ''gitlab'')
     \<and> map_of (n_attrs m) ''old'' = None"
proof -
  have "distinct (map sn_id demo_spine)" and n: "hd demo_spine \<in> set demo_spine" "sn_id (hd demo_spine) = ''repo:a''"
    by (simp_all add: demo_spine_def)
  from spine_keeps_enrichment [OF this(1), of "hd demo_spine" "[]" demo_enriched undefined] n
  obtain m where m: "map_of (nodes (build_spine demo_spine [] demo_enriched)) ''repo:a'' = Some m"
    "map_of (n_attrs m) = rebuilt_attr demo_enriched (hd demo_spine)" by auto
  have "rebuilt_attr demo_enriched (hd demo_spine) ''pqc'' = Some (JBool True)"
    "rebuilt_attr demo_enriched (hd demo_spine) ''host'' = Some (JStr ''gitlab'')"
    "rebuilt_attr demo_enriched (hd demo_spine) ''old'' = None"
    by code_simp+
  with m show ?thesis by auto
qed


text \<open>A small portfolio with one edge of an earlier build.\<close>

definition demo_repo :: "string \<Rightarrow> string \<times> node" where
  "demo_repo x = (''repo:'' @ x, \<lparr>n_kind = ''repo'', n_label = x, n_attrs =
     [(''host'', JStr ''github.com''), (''org'', JStr ''o''), (''name'', JStr x)]\<rparr>)"

definition demo_graph :: graph where
  "demo_graph = \<lparr>nodes = [demo_repo ''a'', demo_repo ''b''],
     edges = [((''repo:b'', ''module:m'', ''depends_on''), require_attrs (''v0.1.0'', False))]\<rparr>"

definition demo_fetch :: "string \<Rightarrow> string \<Rightarrow> fetch" where
  "demo_fetch org name = (if name = ''a''
     then Fetched (''module a'' @ [CHR 0x0A] @ ''require ('' @ [CHR 0x0A] @ ''m v1.2.0 // indirect'' @ [CHR 0x0A] @ '')'')
     else Fetched (''module b'' @ [CHR 0x0A]))"

lemma demo_store: "store_ok demo_graph"
  by code_simp

lemma demo_requirement:
  "requirement demo_fetch None demo_graph ''repo:a'' ''m'' = Some (''v1.2.0'', True)"
  "requirement demo_fetch None demo_graph ''repo:b'' ''m'' = None"
  by code_simp+


text \<open>A dependency that a repository has dropped keeps its edge when the store is built again.\<close>

lemma dropped_dependency_stays:
  "map rq_repo (b_requiring (q_blast_radius (fst (build_deps demo_fetch None demo_graph)) ''m'')) = [''repo:b'', ''repo:a'']"
  by code_simp

end
