(* ===== verification/Portfolio_Fetch.thy ===== *)
theory Portfolio_Fetch
  imports Portfolio_Graph
begin

text \<open>
  \<open>portfolio/graph.py\<close>, the multi-ecosystem layer: the guard against GitHub's secondary rate limit, the
  fetch loop that pauses and stops under it, and the aggregation of the fetched manifests into package
  nodes, edges and counters. What a repository's fetch returned (its tree status and its parsed
  manifests) and what a probe answered are arguments; sleeping is the list of the waits. Seconds are
  integers: every wait of the schedule is a whole number of seconds.
\<close>

section \<open>The rate limit guard\<close>

definition RATE_LIMIT_STREAK_STOP :: nat where "RATE_LIMIT_STREAK_STOP = 5"
definition RATE_LIMIT_BACKOFF_BASE :: int where "RATE_LIMIT_BACKOFF_BASE = 60"
definition RATE_LIMIT_BACKOFF_CAP :: int where "RATE_LIMIT_BACKOFF_CAP = 900"
definition RATE_LIMIT_MAX_WAIT :: int where "RATE_LIMIT_MAX_WAIT = 3600"

definition RATE_LIMIT_SIGNATURES :: "string list" where
  "RATE_LIMIT_SIGNATURES = [''you have exceeded a secondary rate limit'', ''secondary rate limit'',
     ''exceeded a secondary rate'', ''api rate limit exceeded'', ''rate limit exceeded'', ''abuse detection'',
     ''review our terms of service'', ''terms of service on scraping'']"

definition is_secondary_rate_limit :: "string \<Rightarrow> bool" where
  "is_secondary_rate_limit text \<longleftrightarrow>
     (let low = lower text;
          has_any = (\<lambda>ws. list_ex (\<lambda>w. occurs_in w low) ws) in
      text \<noteq> [] \<and> (has_any RATE_LIMIT_SIGNATURES
        \<or> has_any [''403'', ''429'', ''too many requests'']
          \<and> has_any [''retry-after'', ''retry after'', ''please wait'', ''wait a few'', ''please retry'']))"

text \<open>
  The pause: \<open>probe n\<close> is the text the n-th live call answers. The result is whether the ban cleared
  and the waits slept; with a base that is not positive the loop may run forever, which is \<open>None\<close>.
\<close>

partial_function (option) wait_out ::
  "(nat \<Rightarrow> string) \<Rightarrow> nat \<Rightarrow> int \<Rightarrow> int \<Rightarrow> int \<Rightarrow> int \<Rightarrow> (bool \<times> int list) option" where
  "wait_out probe n cap max_wait waited backoff =
     (if waited < max_wait then
        (if \<not> is_secondary_rate_limit (probe n) then Some (True, [backoff])
         else Option.bind (wait_out probe (Suc n) cap max_wait (waited + backoff) (min (backoff * 2) cap))
           (\<lambda>r. Some (fst r, backoff # snd r)))
      else Some (False, []))"

definition wait_out_rate_limit :: "(nat \<Rightarrow> string) \<Rightarrow> (bool \<times> int list) option" where
  "wait_out_rate_limit probe =
     wait_out probe 0 RATE_LIMIT_BACKOFF_CAP RATE_LIMIT_MAX_WAIT 0 RATE_LIMIT_BACKOFF_BASE"

section \<open>The fetch loop\<close>

datatype tree_status = Tree_ok | Tree_absent | Tree_error | Ratelimited

text \<open>
  One batch: the count of consecutive rate-limited results after it, and whether the threshold was
  reached in it. The count runs in submission order.
\<close>

definition streak_step :: "tree_status \<Rightarrow> nat \<times> bool \<Rightarrow> nat \<times> bool" where
  "streak_step s cp = (let c = (if s = Ratelimited then Suc (fst cp) else 0)
     in (c, snd cp \<or> c \<ge> RATE_LIMIT_STREAK_STOP))"

text \<open>
  The loop over the repositories still to submit; \<open>status\<close> is what a repository's fetch returns and
  \<open>clears k\<close> whether the k-th pause ends with the ban cleared. The result: what was fetched, what was
  never submitted, and whether the run is incomplete.
\<close>

function fetch_loop :: "nat \<Rightarrow> ('r \<Rightarrow> tree_status) \<Rightarrow> (nat \<Rightarrow> bool) \<Rightarrow> nat \<Rightarrow> nat \<Rightarrow> 'r list
    \<Rightarrow> 'r list \<times> 'r list \<times> bool" where
  "fetch_loop jobs status clears k consec repos =
     (if repos = [] then ([], [], False)
      else
        (let n = max 1 jobs;
             batch = take n repos;
             rest = drop n repos;
             (consec', paused) = fold (streak_step \<circ> status) batch (consec, False)
         in if \<not> paused then (case fetch_loop jobs status clears k consec' rest of (f, u, i) \<Rightarrow> (batch @ f, u, i))
            else if clears k then
              (case fetch_loop jobs status clears (Suc k) 0 rest of (f, u, i) \<Rightarrow> (batch @ f, u, i))
            else (batch, rest, True)))"
  by pat_completeness auto
termination
  by (relation "measure (\<lambda>(_, _, _, _, _, repos). length repos)") (auto simp: max_def)

declare fetch_loop.simps [simp del]

section \<open>Aggregating the manifests\<close>

datatype manifest_status = Manifest_ok | Manifest_absent | Manifest_error

record manifest =
  mf_eco :: string
  mf_path :: string
  mf_status :: manifest_status
  mf_declared :: "string option"
  mf_deps :: "require list"

record fetched_repo =
  fe_repo :: string
  fe_status :: tree_status
  fe_truncated :: bool
  fe_manifests :: "manifest list"

definition dep_node_id :: "string \<Rightarrow> string \<Rightarrow> string" where
  "dep_node_id name ecosystem =
     (if ecosystem \<in> {''Go'', ''go''} then ''module:'' @ name else ''pkg:'' @ ecosystem @ ''/'' @ name)"

definition MANIFEST_PATHS_CAP :: nat where "MANIFEST_PATHS_CAP = 20"

definition manifest_attr :: "string list \<Rightarrow> attrs" where
  "manifest_attr paths =
     (let ordered = sort (remdups paths) in
      if ordered = [] then []
      else if length ordered > MANIFEST_PATHS_CAP
      then [(''manifest'', JArr (map JStr (take MANIFEST_PATHS_CAP ordered))), (''manifest_truncated'', JBool True)]
      else [(''manifest'', JArr (map JStr ordered))])"

text \<open>The manifests that count: fetched, with a declaration or a dependency.\<close>

definition counted_manifest :: "manifest \<Rightarrow> bool" where
  "counted_manifest m \<longleftrightarrow> mf_status m = Manifest_ok \<and> (mf_deps m \<noteq> [] \<or> truthy (mf_declared m))"

text \<open>A dependency of one repository: its version, whether it is indirect, and where it was found.\<close>

record dep_entry =
  de_version :: string
  de_indirect :: bool
  de_paths :: "string list"

definition merge_dep :: "string \<Rightarrow> require \<Rightarrow> dep_entry option \<Rightarrow> dep_entry" where
  "merge_dep path r old =
     (case r of (_, version, indirect) \<Rightarrow>
        (case old of
           None \<Rightarrow> \<lparr>de_version = version, de_indirect = indirect, de_paths = [path]\<rparr>
         | Some e \<Rightarrow> \<lparr>de_version = (if de_version e = [] then version else de_version e),
             de_indirect = (de_indirect e \<and> indirect), de_paths = de_paths e @ [path]\<rparr>))"

text \<open>Every dependency line of an ecosystem in one repository, with its manifest, in order.\<close>

definition dep_lines :: "string \<Rightarrow> manifest list \<Rightarrow> (string \<times> require) list" where
  "dep_lines eco ms = concat (map (\<lambda>m. map (Pair (mf_path m)) (mf_deps m))
     (filter (\<lambda>m. counted_manifest m \<and> mf_eco m = eco) ms))"

definition aggregate :: "string \<Rightarrow> manifest list \<Rightarrow> (string \<times> dep_entry) list" where
  "aggregate eco ms = tally map_of AList.update (fst \<circ> snd) (\<lambda>(path, r). merge_dep path r) (dep_lines eco ms) []"

text \<open>The ecosystems in the order their first counted manifest appears.\<close>

definition ecos_of :: "manifest list \<Rightarrow> string list" where
  "ecos_of ms = rev (remdups (rev (map mf_eco (filter counted_manifest ms))))"

definition declared_paths :: "string \<Rightarrow> manifest list \<Rightarrow> (string \<times> string list) list" where
  "declared_paths eco ms =
     map (\<lambda>(n, ps). (n, map mf_path ps))
       (group_by (\<lambda>m. or_str (mf_declared m) [])
         (filter (\<lambda>m. counted_manifest m \<and> mf_eco m = eco \<and> truthy (mf_declared m)) ms))"

definition ensure_node :: "string \<Rightarrow> string \<Rightarrow> graph \<Rightarrow> graph" where
  "ensure_node eco name g = insert_or_ignore (dep_node_id name eco)
     (if eco \<in> {''Go'', ''go''} then ''module'' else ''package'') name
     [(''ecosystem'', JStr eco), (''name'', JStr name), (''internal'', num False), (''owner_repo'', JNull)] g"

definition dep_attrs :: "string \<Rightarrow> dep_entry \<Rightarrow> attrs" where
  "dep_attrs eco e = json_set (manifest_attr (de_paths e))
     [(''version'', JStr (de_version e)), (''indirect'', num (de_indirect e)), (''ecosystem'', JStr eco)]"

definition write_dep :: "string \<Rightarrow> string \<Rightarrow> string \<times> dep_entry \<Rightarrow> graph \<Rightarrow> graph" where
  "write_dep rid eco d g =
     upsert_edge rid (dep_node_id (fst d) eco) ''depends_on'' (dep_attrs eco (snd d)) (ensure_node eco (fst d) g)"

definition write_declared :: "string \<Rightarrow> string \<Rightarrow> string \<times> string list \<Rightarrow> graph \<Rightarrow> graph" where
  "write_declared rid eco d g =
     upsert_edge rid (dep_node_id (fst d) eco) ''declares'' (manifest_attr (snd d)) (ensure_node eco (fst d) g)"

definition write_repo :: "fetched_repo \<Rightarrow> graph \<Rightarrow> graph" where
  "write_repo r g =
     (if fe_status r \<noteq> Tree_ok then g
      else fold (\<lambda>eco. fold (write_declared (fe_repo r) eco) (declared_paths eco (fe_manifests r))) (ecos_of (fe_manifests r))
        (fold (\<lambda>eco. fold (write_dep (fe_repo r) eco) (aggregate eco (fe_manifests r))) (ecos_of (fe_manifests r)) g))"

text \<open>\<open>package_owner[(eco, name)] = rid\<close>, then one update per owner.\<close>

definition package_owners :: "fetched_repo list \<Rightarrow> ((string \<times> string) \<times> string) list" where
  "package_owners rs = fold (\<lambda>(k, v). AList.update k v)
     (concat (map (\<lambda>r. if fe_status r \<noteq> Tree_ok then [] else concat (map (\<lambda>eco.
        map (\<lambda>(n, _). ((eco, n), fe_repo r)) (declared_paths eco (fe_manifests r))) (ecos_of (fe_manifests r)))) rs)) []"

definition promote :: "(string \<times> string) \<times> string \<Rightarrow> graph \<Rightarrow> graph" where
  "promote o' g = (case o' of ((eco, name), rid) \<Rightarrow>
     set_attrs (dep_node_id name eco) [(''internal'', num True), (''owner_repo'', JStr rid)] g)"

section \<open>Counters\<close>

record tree_stats =
  repos_tree_ok :: nat
  repos_tree_absent :: nat
  repos_tree_error :: nat
  repos_ratelimited_skipped :: nat
  repos_truncated :: nat
  truncated_fallback :: nat
  repos_with_any_manifest :: nat
  repos_with_zero_manifests :: nat

definition zero_stats :: tree_stats where
  "zero_stats = \<lparr>repos_tree_ok = 0, repos_tree_absent = 0, repos_tree_error = 0, repos_ratelimited_skipped = 0,
     repos_truncated = 0, truncated_fallback = 0, repos_with_any_manifest = 0, repos_with_zero_manifests = 0\<rparr>"

definition count_repo :: "fetched_repo \<Rightarrow> tree_stats \<Rightarrow> tree_stats" where
  "count_repo r s =
     (case fe_status r of
        Ratelimited \<Rightarrow> s\<lparr>repos_ratelimited_skipped := repos_ratelimited_skipped s + 1\<rparr>
      | Tree_absent \<Rightarrow> s\<lparr>repos_tree_absent := repos_tree_absent s + 1\<rparr>
      | Tree_error \<Rightarrow> s\<lparr>repos_tree_error := repos_tree_error s + 1\<rparr>
      | Tree_ok \<Rightarrow>
          (let s1 = s\<lparr>repos_tree_ok := repos_tree_ok s + 1\<rparr>;
               s2 = (if fe_truncated r then s1\<lparr>repos_truncated := repos_truncated s1 + 1,
                 truncated_fallback := truncated_fallback s1 + (if fe_manifests r \<noteq> [] then 1 else 0)\<rparr> else s1)
           in if fe_manifests r \<noteq> [] then s2\<lparr>repos_with_any_manifest := repos_with_any_manifest s2 + 1\<rparr>
              else s2\<lparr>repos_with_zero_manifests := repos_with_zero_manifests s2 + 1\<rparr>))"

record eco_stats =
  repos_with_manifest :: nat
  manifests_fetched_ok :: nat
  absent_count :: nat
  error_count :: nat
  parse_empty :: nat
  dep_edges :: nat

definition eco_counts :: "string \<Rightarrow> fetched_repo list \<Rightarrow> eco_stats" where
  "eco_counts eco rs =
     (let ok = filter (\<lambda>r. fe_status r = Tree_ok) rs;
          ms = filter (\<lambda>m. mf_eco m = eco) (concat (map fe_manifests ok));
          fetched_ok = filter (\<lambda>m. mf_status m = Manifest_ok) ms
      in \<lparr>repos_with_manifest = length (filter (\<lambda>r. eco \<in> mf_eco ` set (fe_manifests r)) ok),
          manifests_fetched_ok = length fetched_ok,
          absent_count = length (filter (\<lambda>m. mf_status m = Manifest_absent) ms),
          error_count = length (filter (\<lambda>m. mf_status m = Manifest_error) ms),
          parse_empty = length (filter (\<lambda>m. \<not> counted_manifest m) fetched_ok),
          dep_edges = sum_list (map (\<lambda>r. length (aggregate eco (fe_manifests r))) ok)\<rparr>)"

definition loud_fail :: "string list \<Rightarrow> fetched_repo list \<Rightarrow> string list" where
  "loud_fail ecosystems rs = filter (\<lambda>eco. repos_with_manifest (eco_counts eco rs) > 0 \<and> dep_edges (eco_counts eco rs) = 0)
     (sort (remdups ecosystems))"

record multi_result =
  mr_graph :: graph
  mr_trees :: tree_stats
  mr_loud_fail :: "string list"
  mr_incomplete :: bool

text \<open>The whole layer over the repositories selected from the store, with their fetch results.\<close>

definition build_deps_multi :: "nat \<Rightarrow> (nat \<Rightarrow> bool) \<Rightarrow> string list \<Rightarrow> fetched_repo list \<Rightarrow> graph \<Rightarrow> multi_result" where
  "build_deps_multi jobs clears ecosystems repos g =
     (case fetch_loop jobs fe_status clears 0 0 repos of (fetched, unsubmitted, incomplete) \<Rightarrow>
        (let trees = fold count_repo fetched zero_stats in
         \<lparr>mr_graph = fold promote (package_owners fetched) (fold write_repo fetched g),
          mr_trees = trees\<lparr>repos_ratelimited_skipped := repos_ratelimited_skipped trees + length unsubmitted\<rparr>,
          mr_loud_fail = loud_fail ecosystems fetched,
          mr_incomplete = incomplete\<rparr>))"


section \<open>Lemmas\<close>

lemma fetch_loop_submits:
  "fetch_loop jobs status clears k consec repos = (f, u, i) \<Longrightarrow> repos = f @ u \<and> (\<not> i \<longrightarrow> u = [])"
proof (induction jobs status clears k consec repos arbitrary: f u i rule: fetch_loop.induct)
  case (1 jobs status clears k consec repos)
  show ?case
  proof (cases "repos = []")
    case False
    let ?n = "max 1 jobs"
    obtain c p where cp: "fold (streak_step \<circ> status) (take ?n repos) (consec, False) = (c, p)"
      by (cases "fold (streak_step \<circ> status) (take ?n repos) (consec, False)")
    obtain f1 u1 i1 where a: "fetch_loop jobs status clears k c (drop ?n repos) = (f1, u1, i1)"
      by (cases "fetch_loop jobs status clears k c (drop ?n repos)")
    obtain f2 u2 i2 where b: "fetch_loop jobs status clears (Suc k) 0 (drop ?n repos) = (f2, u2, i2)"
      by (cases "fetch_loop jobs status clears (Suc k) 0 (drop ?n repos)")
    consider "\<not> p" | "p" "clears k" | "p" "\<not> clears k" by blast
    then show ?thesis
    proof cases
      case 1
      then have "drop ?n repos = f1 @ u1 \<and> (\<not> i1 \<longrightarrow> u1 = [])"
        using "1.IH"(1) [OF False refl refl refl cp [symmetric] refl _ a] by simp
      moreover have "(f, u, i) = (take ?n repos @ f1, u1, i1)"
        using "1.prems" False cp a 1 by (simp add: fetch_loop.simps [of jobs status clears k consec repos] Let_def)
      ultimately show ?thesis by (metis append_take_drop_id append_assoc prod.inject)
    next
      case 2
      then have "drop ?n repos = f2 @ u2 \<and> (\<not> i2 \<longrightarrow> u2 = [])"
        using "1.IH"(2) [OF False refl refl refl cp [symmetric] refl _ _ b] by simp
      moreover have "(f, u, i) = (take ?n repos @ f2, u2, i2)"
        using "1.prems" False cp b 2 by (simp add: fetch_loop.simps [of jobs status clears k consec repos] Let_def)
      ultimately show ?thesis by (metis append_take_drop_id append_assoc prod.inject)
    next
      case 3
      then show ?thesis
        using "1.prems" False cp by (auto simp: fetch_loop.simps [of jobs status clears k consec repos] Let_def)
    qed
  next
    case True
    with "1.prems" have "fetch_loop jobs status clears k consec [] = (f, u, i)" by simp
    then have "f = [] \<and> u = []" by (subst (asm) fetch_loop.simps) auto
    with True show ?thesis by simp
  qed
qed

definition trees_total :: "tree_stats \<Rightarrow> nat" where
  "trees_total s = repos_tree_ok s + repos_tree_absent s + repos_tree_error s + repos_ratelimited_skipped s"

definition trees_ok :: "tree_stats \<Rightarrow> bool" where
  "trees_ok s \<longleftrightarrow> repos_with_any_manifest s + repos_with_zero_manifests s = repos_tree_ok s
     \<and> truncated_fallback s \<le> repos_truncated s \<and> repos_truncated s \<le> repos_tree_ok s"

lemma count_repo_total: "trees_total (count_repo r s) = Suc (trees_total s)"
  by (simp add: count_repo_def trees_total_def Let_def split: tree_status.splits)

lemma count_repo_ok: "trees_ok s \<Longrightarrow> trees_ok (count_repo r s)"
  by (auto simp: count_repo_def trees_ok_def Let_def split: tree_status.splits)

lemma count_repos: "trees_ok s \<Longrightarrow>
    trees_total (fold count_repo rs s) = trees_total s + length rs \<and> trees_ok (fold count_repo rs s)"
  by (induction rs arbitrary: s) (simp_all add: count_repo_total count_repo_ok)

text \<open>What merging lines into an entry keeps.\<close>

definition merged :: "dep_entry \<Rightarrow> (string \<times> require) list \<Rightarrow> bool" where
  "merged e ls \<longleftrightarrow> de_paths e = map fst ls \<and> (de_indirect e \<longleftrightarrow> (\<forall>(_, _, _, i) \<in> set ls. i))
     \<and> de_version e = (case find (\<lambda>v. v \<noteq> []) (map (fst \<circ> snd \<circ> snd) ls) of None \<Rightarrow> [] | Some v \<Rightarrow> v)"

lemma find_append: "find P (xs @ ys) = (case find P xs of None \<Rightarrow> find P ys | Some x \<Rightarrow> Some x)"
  by (induction xs) auto

lemma merged_first: "merged (merge_dep path r None) [(path, r)]"
  by (cases r) (simp add: merged_def merge_dep_def)

lemma merged_step: "merged e ls \<Longrightarrow> merged (merge_dep path r (Some e)) (ls @ [(path, r)])"
  by (cases r) (auto simp: merged_def merge_dep_def find_append find_None_iff_ball dest: find_Some_iff_in split: option.splits)

lemma merged_fold:
  "merged e ls \<Longrightarrow> \<exists>e'. fold (\<lambda>x v. Some (case x of (path, r) \<Rightarrow> merge_dep path r v)) xs (Some e) = Some e' \<and> merged e' (ls @ xs)"
proof (induction xs arbitrary: e ls)
  case (Cons x xs)
  obtain path r where x: "x = (path, r)" by (cases x)
  from Cons.IH [OF merged_step [OF Cons.prems, of path r]] show ?case by (simp add: x)
qed simp

lemma aggregate_lookup:
  "case filter (\<lambda>l. fst (snd l) = d) (dep_lines eco ms) of
     [] \<Rightarrow> map_of (aggregate eco ms) d = None
   | l # ls \<Rightarrow> \<exists>e. map_of (aggregate eco ms) d = Some e \<and> merged e (l # ls)"
proof -
  let ?ls = "filter (\<lambda>l. fst (snd l) = d) (dep_lines eco ms)"
  have look: "map_of (aggregate eco ms) d = fold (\<lambda>x v. Some (case x of (path, r) \<Rightarrow> merge_dep path r v)) ?ls None"
    by (simp add: aggregate_def alist_dict.look_tally case_prod_unfold)
  show ?thesis
  proof (cases ?ls)
    case (Cons x xs)
    obtain path r where x: "x = (path, r)" by (cases x)
    from merged_fold [OF merged_first [of path r], of xs] show ?thesis
      using look Cons x by auto
  qed (simp add: look)
qed

section \<open>Properties\<close>

text \<open>
  The manifests of a repository are merged without loss: a dependency has an entry exactly when a
  counted manifest of the ecosystem names it; the entry lists every manifest it was found in, its version
  is the first one stated, and it is indirect only when every manifest says so.
\<close>

theorem manifests_merged:
  "case map_of (aggregate eco ms) d of
     None \<Rightarrow> filter (\<lambda>l. fst (snd l) = d) (dep_lines eco ms) = []
   | Some e \<Rightarrow> filter (\<lambda>l. fst (snd l) = d) (dep_lines eco ms) \<noteq> []
       \<and> merged e (filter (\<lambda>l. fst (snd l) = d) (dep_lines eco ms))"
  using aggregate_lookup [of eco ms d]
  by (cases "filter (\<lambda>l. fst (snd l) = d) (dep_lines eco ms)") (auto split: option.splits)

text \<open>
  The counters of the multi-ecosystem layer account for every selected repository exactly once,
  whatever the rate limit did to the run: fetched with a tree, without one, failed, or skipped because
  of the ban, the ones never submitted among the last; and of the fetched trees every one is counted
  with or without a manifest.
\<close>

theorem every_repo_accounted:
  "trees_total (mr_trees (build_deps_multi jobs clears ecosystems repos g)) = length repos
   \<and> trees_ok (mr_trees (build_deps_multi jobs clears ecosystems repos g))"
proof -
  obtain f u i where l: "fetch_loop jobs fe_status clears 0 0 repos = (f, u, i)"
    by (cases "fetch_loop jobs fe_status clears 0 0 repos")
  have "trees_total zero_stats = 0" "trees_ok zero_stats" by (simp_all add: zero_stats_def trees_total_def trees_ok_def)
  moreover have "length repos = length f + length u" using fetch_loop_submits [OF l] by auto
  ultimately show ?thesis
    using count_repos [of zero_stats f] by (simp add: build_deps_multi_def l Let_def trees_total_def trees_ok_def)
qed

text \<open>
  The pause under a secondary rate limit always ends: it probes at most seven times, after waits
  of one, two, four and eight minutes and then a quarter of an hour each, an hour in all, and it goes on
  exactly when one of those probes no longer shows the limit.
\<close>

definition BACKOFF :: "int list" where
  "BACKOFF = [60, 120, 240, 480, 900, 900, 900]"

theorem pause_is_bounded:
  "wait_out_rate_limit probe =
     (case find (\<lambda>k. \<not> is_secondary_rate_limit (probe k)) [0, 1, 2, 3, 4, 5, 6] of
        None \<Rightarrow> Some (False, BACKOFF)
      | Some k \<Rightarrow> Some (True, take (Suc k) BACKOFF))"
proof -
  have w: "wait_out probe n 900 3600 waited backoff =
     (if waited < 3600 then
        (if \<not> is_secondary_rate_limit (probe n) then Some (True, [backoff])
         else Option.bind (wait_out probe (Suc n) 900 3600 (waited + backoff) (min (backoff * 2) 900))
           (\<lambda>r. Some (fst r, backoff # snd r)))
      else Some (False, []))" for n waited backoff
    by (rule wait_out.simps)
  have "wait_out probe (Suc (Suc (Suc (Suc (Suc (Suc (Suc 0))))))) 900 3600 3600 900 = Some (False, [])" by (subst w) simp
  moreover have "\<forall>n. wait_out_rate_limit probe = wait_out probe 0 900 3600 0 60"
    by (simp add: wait_out_rate_limit_def RATE_LIMIT_BACKOFF_CAP_def RATE_LIMIT_MAX_WAIT_def RATE_LIMIT_BACKOFF_BASE_def)
  ultimately show ?thesis
    by (simp add: w [of 0] w [of "Suc 0"] w [of "Suc (Suc 0)"] w [of "Suc (Suc (Suc 0))"]
        w [of "Suc (Suc (Suc (Suc 0)))"] w [of "Suc (Suc (Suc (Suc (Suc 0))))"]
        w [of "Suc (Suc (Suc (Suc (Suc (Suc 0)))))"] BACKOFF_def eval_nat_numeral)
qed

end
