(* ===== verification/Py_Datetime.thy ===== *)
theory Py_Datetime
  imports Py_Date
begin

text \<open>
  Python's \<open>datetime.datetime\<close>: a day, the microseconds since its midnight and, for an aware value,
  the offset of its zone in microseconds, with \<open>fromisoformat\<close> on the forms of ISO 8601 it documents
  and the comparison, which raises \<open>TypeError\<close> between a naive and an aware value.
\<close>

record datetime =
  dt_day :: date
  dt_micros :: int
  dt_offset :: "int option"

definition DAY_MICROS :: int where
  "DAY_MICROS = 86400000000"

text \<open>The position on the time line, of an aware value in UTC.\<close>

definition dt_position :: "datetime \<Rightarrow> int" where
  "dt_position d = ordinal (dt_day d) * DAY_MICROS + dt_micros d - (case dt_offset d of None \<Rightarrow> 0 | Some z \<Rightarrow> z)"

definition dt_aware :: "datetime \<Rightarrow> bool" where
  "dt_aware d \<longleftrightarrow> dt_offset d \<noteq> None"

text \<open>\<open>d < e\<close>; \<open>None\<close> is the \<open>TypeError\<close>.\<close>

definition dt_less :: "datetime \<Rightarrow> datetime \<Rightarrow> bool option" where
  "dt_less d e = (if dt_aware d = dt_aware e then Some (dt_position d < dt_position e) else None)"

section \<open>Reading a date and time\<close>

definition digit_at :: "string \<Rightarrow> nat \<Rightarrow> bool" where
  "digit_at s i \<longleftrightarrow> i < length s \<and> is_digit (s ! i)"

definition char_at :: "string \<Rightarrow> nat \<Rightarrow> char \<Rightarrow> bool" where
  "char_at s i c \<longleftrightarrow> i < length s \<and> s ! i = c"

text \<open>Where the date ends: any character separates it from the time.\<close>

definition separator_at :: "string \<Rightarrow> nat option" where
  "separator_at s =
     (if length s < 7 then None
      else if length s = 7 then Some 7
      else if char_at s 4 CHR ''-'' then
        (if char_at s 5 CHR ''W'' then
           (if char_at s 8 CHR ''-'' then
              (if length s = 9 then None else if digit_at s 10 then Some 8 else Some 10)
            else Some 8)
         else Some 10)
      else if char_at s 4 CHR ''W'' then
        (let n = 7 + length (takeWhile is_digit (drop 7 s)) in
         if n < 9 then Some n else if even n then Some 7 else Some 8)
      else Some 8)"

text \<open>\<open>HH[:MM[:SS[.f+]]]\<close> as its four numbers, the last in microseconds.\<close>

definition fraction :: "string \<Rightarrow> int option" where
  "fraction s = (if s = [] then Some 0
     else if hd s \<noteq> CHR ''.'' \<and> hd s \<noteq> CHR '','' then None
     else if tl s = [] \<or> \<not> list_all is_digit (tl s) then None
     else map_option (\<lambda>n. n * 10 ^ (6 - length (take 6 (tl s)))) (digits (length (take 6 (tl s))) (take 6 (tl s))))"

definition clock :: "string \<Rightarrow> (int \<times> int \<times> int \<times> int) option" where
  "clock s =
     (let sep = char_at s 2 CHR '':'';
          skip = (\<lambda>t. if sep then (if take 1 t = '':'' then Some (tl t) else None) else Some t) in
      case digits 2 (take 2 s) of None \<Rightarrow> None | Some h \<Rightarrow>
      if drop 2 s = [] then Some (h, 0, 0, 0) else
      case skip (drop 2 s) of None \<Rightarrow> None | Some r \<Rightarrow>
      case digits 2 (take 2 r) of None \<Rightarrow> None | Some m \<Rightarrow>
      if drop 2 r = [] then Some (h, m, 0, 0) else
      case skip (drop 2 r) of None \<Rightarrow> None | Some q \<Rightarrow>
      case digits 2 (take 2 q) of None \<Rightarrow> None | Some sec \<Rightarrow>
      case fraction (drop 2 q) of None \<Rightarrow> None | Some f \<Rightarrow> Some (h, m, sec, f))"

definition micros :: "int \<times> int \<times> int \<times> int \<Rightarrow> int" where
  "micros c = (case c of (h, m, s, f) \<Rightarrow> ((h * 60 + m) * 60 + s) * 1000000 + f)"

text \<open>The zone begins at the first hyphen, else plus, else Z. The left part is the time before it.\<close>

definition zone_split :: "string \<Rightarrow> string \<times> string" where
  "zone_split t =
     (let p = (if CHR ''-'' \<in> set t then (\<lambda>c. c \<noteq> CHR ''-'')
               else if CHR ''+'' \<in> set t then (\<lambda>c. c \<noteq> CHR ''+'') else (\<lambda>c. c \<noteq> CHR ''Z''))
      in (takeWhile p t, dropWhile p t))"

definition zone :: "string \<Rightarrow> int option option" where
  "zone z = (if z = [] then Some None
     else if z = ''Z'' then Some (Some 0)
     else if hd z = CHR ''Z'' \<or> length (tl z) \<in> {0, 1, 3} then None
     else case clock (tl z) of
         None \<Rightarrow> None
       | Some c \<Rightarrow> if micros c < DAY_MICROS
           then Some (Some (if hd z = CHR ''-'' then - micros c else micros c)) else None)"

definition time_of_day :: "string \<Rightarrow> (int \<times> int option) option" where
  "time_of_day t = (if t = [] then Some (0, None) else
     case zone_split t of (a, z) \<Rightarrow>
       (case (clock a, zone z) of
          (Some (h, m, s, f), Some off) \<Rightarrow>
            if h < 24 \<and> m < 60 \<and> s < 60 then Some (micros (h, m, s, f), off) else None
        | _ \<Rightarrow> None))"

definition datetime_fromisoformat :: "string \<Rightarrow> datetime option" where
  "datetime_fromisoformat s = (case separator_at s of
       None \<Rightarrow> None
     | Some n \<Rightarrow> (case (fromisoformat (take n s), time_of_day (drop (Suc n) s)) of
           (Some d, Some (us, off)) \<Rightarrow> Some \<lparr>dt_day = d, dt_micros = us, dt_offset = off\<rparr>
         | _ \<Rightarrow> None))"

lemma datetime_examples:
  "datetime_fromisoformat ''1970-01-01'' = Some \<lparr>dt_day = Day 719163, dt_micros = 0, dt_offset = None\<rparr>"
  "datetime_fromisoformat ''1970-01-01T00:01:00Z'' = Some \<lparr>dt_day = Day 719163, dt_micros = 60000000, dt_offset = Some 0\<rparr>"
  "datetime_fromisoformat ''19700101 000001.5+01:00''
     = Some \<lparr>dt_day = Day 719163, dt_micros = 1500000, dt_offset = Some 3600000000\<rparr>"
  "datetime_fromisoformat ''1970-01-01T24:00'' = None"
  "datetime_fromisoformat ''1970-01-01T00:00+25:00'' = None"
  "datetime_fromisoformat ''1970-01-01T0:00'' = None"
  by code_simp+

end
