(* ===== verification/Report_Checks.thy ===== *)
theory Report_Checks
  imports Finding_Identity Versions Py_Datetime
begin

text \<open>
  \<open>reporting/validate.py\<close>, what its checks share: the result they write, the version gates over the two
  numberings of the program's releases, and the checks on review surfaces. The checks run on documents
  that passed their schema, so a document is a record: a field read with an index is present, one read
  with \<open>get\<close> is an option. A result is only appended to; a check is the list of what it reports, in
  order, with a constructor per message and its parameters.
\<close>

section \<open>Results\<close>

datatype 'p flag = Fail 'p | Warn 'p

fun is_fail :: "'p flag \<Rightarrow> bool" where
  "is_fail (Fail _) = True"
| "is_fail (Warn _) = False"

lemma is_fail_map [simp]: "is_fail (map_flag g f) \<longleftrightarrow> is_fail f"
  by (cases f) simp_all

text \<open>\<open>ValidationResult.passed\<close>: there is no error, whatever the warnings.\<close>

definition passed :: "'p flag list \<Rightarrow> bool" where
  "passed fs \<longleftrightarrow> filter is_fail fs = []"

lemma passed_simps [simp]:
  "passed []" "passed (fs @ gs) \<longleftrightarrow> passed fs \<and> passed gs"
  "passed (f # fs) \<longleftrightarrow> \<not> is_fail f \<and> passed fs"
  "passed (concat fss) \<longleftrightarrow> (\<forall>fs \<in> set fss. passed fs)"
  "passed (map (\<lambda>x. Fail (g x)) xs) \<longleftrightarrow> xs = []"
  "passed (if b then fs else gs) \<longleftrightarrow> (if b then passed fs else passed gs)"
  by (auto simp: passed_def filter_empty_conv)

text \<open>\<open>if cond: result.error(p)\<close>, and the same for a warning.\<close>

definition fail_if :: "bool \<Rightarrow> 'p \<Rightarrow> 'p flag list" where
  "fail_if b p = (if b then [Fail p] else [])"

definition warn_if :: "bool \<Rightarrow> 'p \<Rightarrow> 'p flag list" where
  "warn_if b p = (if b then [Warn p] else [])"

lemma passed_if [simp]: "passed (fail_if b p) \<longleftrightarrow> \<not> b" "passed (warn_if b p)"
  by (auto simp: fail_if_def warn_if_def)

text \<open>\<open>for i, x in enumerate(xs)\<close>.\<close>

definition each :: "(nat \<Rightarrow> 'a \<Rightarrow> 'p flag list) \<Rightarrow> 'a list \<Rightarrow> 'p flag list" where
  "each f xs = concat (map (case_prod f) (enumerate 0 xs))"

lemma passed_each [simp]: "passed (each f xs) \<longleftrightarrow> (\<forall>i < length xs. passed (f i (xs ! i)))"
proof -
  have "set (enumerate 0 xs) = {(i, xs ! i) | i. i < length xs}"
    by (auto simp: in_set_enumerate_eq)
  then show ?thesis by (auto simp: each_def)
qed

text \<open>\<open>Counter(xs)\<close>, its \<open>get(k, 0)\<close>, the repeated keys in the order of their first occurrence, and \<open>sorted\<close> of a set.\<close>

definition counter_get :: "'a list \<Rightarrow> 'a \<Rightarrow> int" where
  "counter_get xs k = (case map_of (count_by id xs) k of None \<Rightarrow> 0 | Some n \<Rightarrow> int n)"

definition repeated :: "'a list \<Rightarrow> 'a list" where
  "repeated xs = map fst (filter (\<lambda>(_, n). n > 1) (count_by id xs))"

definition sorted_set :: "'a::linorder list \<Rightarrow> 'a list" where
  "sorted_set xs = sort (remdups xs)"

lemma counted: "length (filter (\<lambda>x. x = k) xs) = count_list xs k"
  by (induction xs) auto

lemma count_by_id: "map_of (count_by id xs) k = (if k \<in> set xs then Some (count_list xs k) else None)"
  by (simp add: count_by_lookup counted)

lemma counter_get: "counter_get xs k = int (count_list xs k)"
  by (simp add: counter_get_def count_by_id)

lemma distinct_iff_count: "distinct xs \<longleftrightarrow> (\<forall>k \<in> set xs. count_list xs k \<le> 1)"
proof (induction xs)
  case (Cons x xs)
  show ?case
  proof (cases "x \<in> set xs")
    case True
    then have "0 < count_list xs x" by (metis count_list_0_iff not_gr_zero)
    with True show ?thesis by auto
  next
    case False
    then show ?thesis by (auto simp: Cons.IH count_list_0_iff)
  qed
qed simp

lemma repeated_Nil [simp]: "repeated xs = [] \<longleftrightarrow> distinct xs"
proof -
  have keys: "distinct (map fst (count_by id xs))" by (simp add: count_by_def distinct_keys_tally)
  have "repeated xs = [] \<longleftrightarrow> (\<forall>k n. (k, n) \<in> set (count_by id xs) \<longrightarrow> n \<le> 1)"
    by (simp only: repeated_def map_is_Nil_conv filter_empty_conv) fastforce
  also have "\<dots> \<longleftrightarrow> (\<forall>k n. map_of (count_by id xs) k = Some n \<longrightarrow> n \<le> 1)"
    by (simp only: map_of_eq_Some_iff [OF keys])
  also have "\<dots> \<longleftrightarrow> distinct xs"
    unfolding distinct_iff_count by (simp add: count_by_id Ball_def)
  finally show ?thesis .
qed

text \<open>The same report under the kind of document it is about.\<close>

lemma passed_kind [simp]: "passed (map (map_flag g) fs) \<longleftrightarrow> passed fs"
  by (induction fs) simp_all

section \<open>Lists in the order of time\<close>

text \<open>
  A loop over dated entries that keeps the last date it could read: \<open>f i x earlier\<close> is what it
  reports for an entry, where \<open>earlier\<close> says that the entry is dated before the last one. Comparing a
  date that has a zone with one that has none raises, which is \<open>None\<close>.
\<close>

fun dated :: "(nat \<Rightarrow> 'x \<Rightarrow> bool \<Rightarrow> 'p flag list) \<Rightarrow> ('x \<Rightarrow> datetime option) \<Rightarrow> nat \<Rightarrow> datetime option
    \<Rightarrow> 'x list \<Rightarrow> 'p flag list option" where
  "dated f date_of i prev [] = Some []"
| "dated f date_of i prev (x # xs) = (case date_of x of
       None \<Rightarrow> map_option (\<lambda>fs. f i x False @ fs) (dated f date_of (Suc i) prev xs)
     | Some d \<Rightarrow> Option.bind (case prev of None \<Rightarrow> Some False | Some p \<Rightarrow> dt_less d p) (\<lambda>earlier.
         map_option (\<lambda>fs. f i x earlier @ fs) (dated f date_of (Suc i) (Some d) xs)))"

definition in_time_order :: "datetime list \<Rightarrow> bool" where
  "in_time_order ds \<longleftrightarrow> sorted_wrt (\<lambda>d e. dt_aware d = dt_aware e \<and> dt_position d \<le> dt_position e) ds"

lemma dated_in_order:
  assumes "dated f date_of i prev xs = Some fs" and "passed fs"
    and "\<And>i x. \<not> passed (f i x True)"
  shows "in_time_order ((case prev of None \<Rightarrow> [] | Some p \<Rightarrow> [p]) @ List.map_filter date_of xs)"
  using assms(1,2)
proof (induction xs arbitrary: i prev fs)
  case Nil
  then show ?case by (simp add: in_time_order_def map_filter_def split: option.splits)
next
  case (Cons x xs)
  show ?case
  proof (cases "date_of x")
    case None
    with Cons.prems obtain gs where "dated f date_of (Suc i) prev xs = Some gs" "passed gs" by auto
    from Cons.IH [OF this] show ?thesis using None by (simp add: map_filter_simps)
  next
    case (Some d)
    with Cons.prems obtain earlier gs where e: "(case prev of None \<Rightarrow> Some False | Some p \<Rightarrow> dt_less d p) = Some earlier"
      and gs: "dated f date_of (Suc i) (Some d) xs = Some gs" "passed gs" and p: "passed (f i x earlier)"
      by (auto simp: bind_eq_Some_conv)
    have "in_time_order (d # List.map_filter date_of xs)" using Cons.IH [OF gs] by simp
    moreover have "\<not> earlier" using assms(3) p by (cases earlier) auto
    ultimately show ?thesis
      using Some e by (auto simp: in_time_order_def dt_less_def map_filter_simps split: option.splits if_splits)
  qed
qed

lemma dated_checked:
  assumes "dated f date_of i prev xs = Some fs" and "passed fs" and "x \<in> set xs"
  shows "\<exists>j earlier. passed (f j x earlier)"
  using assms by (induction xs arbitrary: i prev fs) (fastforce simp: bind_eq_Some_conv split: option.splits)+

section \<open>Version gates\<close>

text \<open>
  The program's versions started over at 0.1.0 on \<open>VERSION_RESET_DATE\<close>, so a version is read in the
  numbering of the day of its audit. What the gates read of a document: its date, the date of the
  audit it cumulates, and the version that wrote it.
\<close>

record gate_meta =
  gm_date :: "string option"
  gm_original_date :: "string option"
  gm_version :: "string option"

type_synonym version = "nat \<times> nat \<times> nat"

definition VERSION_RESET_DATE :: string where
  "VERSION_RESET_DATE = ''2026-09-10''"

definition CANONICAL_ID_MIN_VERSION :: version where
  "CANONICAL_ID_MIN_VERSION = (0, 12, 0)"

definition CONSISTENCY_MIN_VERSION :: version where
  "CONSISTENCY_MIN_VERSION = (0, 15, 0)"

definition REVIEW_SURFACE_MIN_VERSION :: version where
  "REVIEW_SURFACE_MIN_VERSION = (0, 20, 0)"

definition REVIEW_SURFACE_EXTENDED_MIN_VERSION :: version where
  "REVIEW_SURFACE_EXTENDED_MIN_VERSION = (0, 21, 0)"

definition harness_version_rx :: rx where
  "harness_version_rx = seq [At Bos, Grp 1 (plus (Cls is_digit)), lit ''.'', Grp 2 (plus (Cls is_digit)),
     lit ''.'', Grp 3 (plus (Cls is_digit))]"

definition parse_harness_version :: "gate_meta \<Rightarrow> version option" where
  "parse_harness_version m = (case gm_version m of
       None \<Rightarrow> None
     | Some hv \<Rightarrow> if hv = [] then None else
         map_option (\<lambda>r. (group_int 1 r, group_int 2 r, group_int 3 r)) (re_match harness_version_rx hv))"

definition audit_date :: "gate_meta \<Rightarrow> string" where
  "audit_date m = or_str (gm_original_date m) (or_str (gm_date m) [])"

definition iso_day_rx :: rx where
  "iso_day_rx = seq [At Bos, Rep 4 (Some 4) True (Cls is_digit), lit ''-'', Rep 2 (Some 2) True (Cls is_digit),
     lit ''-'', Rep 2 (Some 2) True (Cls is_digit)]"

definition post_reset :: "gate_meta \<Rightarrow> bool" where
  "post_reset m \<longleftrightarrow> re_match iso_day_rx (audit_date m) \<noteq> None \<and> VERSION_RESET_DATE \<le> take 10 (audit_date m)"

definition gate :: "gate_meta \<Rightarrow> version option \<Rightarrow> version option \<Rightarrow> bool" where
  "gate m legacy current = (case parse_harness_version m of
       None \<Rightarrow> False
     | Some hv \<Rightarrow>
         if post_reset m then (case current of None \<Rightarrow> True | Some c \<Rightarrow> c \<le> hv)
         else (case legacy of None \<Rightarrow> False | Some l \<Rightarrow> l \<le> hv))"

section \<open>Review surfaces\<close>

record surface_entry =
  se_status :: "string option"
  se_finding_ids :: "string list"

type_synonym coverage = "(string \<times> surface_entry) list"

datatype surface_problem =
    Coverage_required string version
  | Not_in_findings string string
  | No_negative_result string
  | No_coverage_gap string
  | Out_of_scope_on_full_scan string

definition check_surface :: "string set \<Rightarrow> string list \<Rightarrow> (string option \<times> string option) set
    \<Rightarrow> string \<Rightarrow> surface_entry \<Rightarrow> surface_problem flag list" where
  "check_surface finding_ids areas gaps surface entry =
     (if se_status entry = Some ''finding'' then
        concat (map (\<lambda>fid. fail_if (fid \<notin> finding_ids) (Not_in_findings surface fid)) (se_finding_ids entry))
      else if se_status entry = Some ''negative'' then
        fail_if (\<not> list_ex (\<lambda>a. a = surface \<or> startswith a (surface @ '' '')) areas) (No_negative_result surface)
      else fail_if (se_status entry = Some ''not_assessed'' \<and> (Some ''review-surfaces'', Some surface) \<notin> gaps)
        (No_coverage_gap surface))"

definition review_surfaces_since :: "string option \<Rightarrow> version option" where
  "review_surfaces_since profile =
     (if profile = Some ''code'' then Some REVIEW_SURFACE_MIN_VERSION
      else if profile = Some ''rpm'' then Some REVIEW_SURFACE_EXTENDED_MIN_VERSION else None)"

definition cross_validate_review_surfaces :: "string list \<Rightarrow> gate_meta \<Rightarrow> string option \<Rightarrow> coverage option
    \<Rightarrow> string set \<Rightarrow> string list \<Rightarrow> (string option \<times> string option) set \<Rightarrow> surface_problem flag list" where
  "cross_validate_review_surfaces surfaces m profile record finding_ids areas gaps = (case record of
       None \<Rightarrow> (case review_surfaces_since profile of
           None \<Rightarrow> []
         | Some since \<Rightarrow> fail_if (gate m None (Some since)) (Coverage_required (or_str profile []) since))
     | Some r \<Rightarrow> concat (map (\<lambda>surface. case map_of r surface of
           None \<Rightarrow> []
         | Some entry \<Rightarrow> check_surface finding_ids areas gaps surface entry) surfaces))"

text \<open>
  The record of a scan that is not a code audit; \<open>diff_scoped\<close> is \<open>None\<close> for a verification.
\<close>

definition cross_validate_scan_review_surfaces :: "string list \<Rightarrow> coverage option \<Rightarrow> string \<Rightarrow> string option
    \<Rightarrow> string option \<Rightarrow> string set \<Rightarrow> bool option \<Rightarrow> surface_problem flag list" where
  "cross_validate_scan_review_surfaces surfaces record kind version date ids diff_scoped = (case record of
       None \<Rightarrow> fail_if (gate \<lparr>gm_date = date, gm_original_date = None, gm_version = version\<rparr> None
            (Some REVIEW_SURFACE_EXTENDED_MIN_VERSION)) (Coverage_required kind REVIEW_SURFACE_EXTENDED_MIN_VERSION)
     | Some r \<Rightarrow> concat (map (\<lambda>surface. case map_of r surface of
           None \<Rightarrow> []
         | Some entry \<Rightarrow>
             fail_if (se_status entry = Some ''out_of_scope'' \<and> diff_scoped = Some False) (Out_of_scope_on_full_scan surface)
             @ (if se_status entry = Some ''finding'' then
                  concat (map (\<lambda>fid. fail_if (fid \<notin> ids) (Not_in_findings surface fid)) (se_finding_ids entry))
                else [])) surfaces))"

end
