(* ===== verification/Report_Layer.thy ===== *)
theory Report_Layer
  imports Report_Checks
begin

text \<open>
  \<open>reporting/validate.py\<close>, \<open>cross_validate_layer\<close>: the checks of a disposition ledger. Event ids, claim
  hashes, the verification of an actor and the Merkle checks are the ledger package's, and arguments;
  so is the time of the check. The audit report beside the layer is what reading its file gave.
\<close>

section \<open>Layers\<close>

record actor =
  ac_kind :: "string option"
  ac_identity :: "string option"
  ac_claims :: "(string \<times> string) list"   \<comment> \<open>its other fields\<close>

record layer_event =
  lv_id :: "string option"
  lv_finding_ref :: "string option"
  lv_source_ref :: "string option"
  lv_actor :: actor
  lv_validity :: "string option"
  lv_resolution :: "string option"
  lv_severity :: "string option"
  lv_embargo :: bool
  lv_rationale :: "string option"
  lv_recorded_at :: "string option"
  lv_occurred_at :: "string option"

record review_item =
  ri_status :: "string option"
  ri_source_ref :: "string option"
  ri_note :: "string option"

record claimed = finding +
  cd_status :: "string option"

datatype audit_file = No_file | Unreadable string | Audit "claimed list"

record layer_report =
  ly_events :: "layer_event list"
  ly_reviews :: "review_item list"
  ly_claim_hashes :: "(string \<times> string) list"

text \<open>The ledger package; a Merkle finding is whether it is an error, with its message.\<close>

record ledger_lib =
  event_id_of :: "string \<Rightarrow> string \<Rightarrow> string option \<Rightarrow> string option \<Rightarrow> string"
  claim_hash_of :: "claimed \<Rightarrow> string"
  actor_verified :: "actor \<Rightarrow> bool"
  merkle_integrity :: "layer_report \<Rightarrow> (bool \<times> string) list"
  merkle_signature :: "layer_report \<Rightarrow> string option \<Rightarrow> (bool \<times> string) list"

datatype layer_problem =
    Duplicate_event "string option"
  | Event_id_differs nat string
  | Out_of_order nat
  | In_the_future nat
  | Unverified_false_positive nat
  | Machine_severity nat | Unverified_severity nat | Severity_without_rationale nat
  | Machine_embargo nat | Unverified_embargo nat | Embargo_without_rationale nat
  | Occurred_after_recorded nat
  | Audit_not_found | Audit_unreadable string
  | Baselined_missing string
  | Claim_corrected string
  | Claim_edited string
  | Unbaselined "string list"
  | Confirmed_without_event nat
  | Closed_without_note nat
  | Merkle string

section \<open>Events\<close>

definition check_event_ids :: "ledger_lib \<Rightarrow> layer_event list \<Rightarrow> layer_problem flag list" where
  "check_event_ids L es =
     map (\<lambda>eid. Fail (Duplicate_event eid)) (repeated (map lv_id es))
     @ each (\<lambda>i e. let expected = event_id_of L (or_str (lv_source_ref e) []) (or_str (lv_finding_ref e) [])
            (lv_validity e) (lv_resolution e) in
          fail_if (lv_id e \<noteq> Some expected) (Event_id_differs i expected)) es"

definition recorded :: "layer_event \<Rightarrow> datetime option" where
  "recorded e = datetime_fromisoformat (or_str (lv_recorded_at e) [])"

text \<open>\<open>now\<close> in UTC; the horizon is a day later.\<close>

definition beyond_horizon :: "datetime \<Rightarrow> layer_event \<Rightarrow> bool" where
  "beyond_horizon now e \<longleftrightarrow> (case recorded e of None \<Rightarrow> False
     | Some d \<Rightarrow> dt_aware d \<and> dt_position now + DAY_MICROS < dt_position d)"

definition check_chronology :: "datetime \<Rightarrow> layer_event list \<Rightarrow> layer_problem flag list option" where
  "check_chronology now es = dated (\<lambda>i e earlier.
     fail_if earlier (Out_of_order i) @ fail_if (beyond_horizon now e) (In_the_future i)) recorded 0 None es"

definition identified :: "ledger_lib \<Rightarrow> actor \<Rightarrow> bool" where
  "identified L a \<longleftrightarrow> truthy (ac_identity a) \<and> actor_verified L a"

definition is_human :: "layer_event \<Rightarrow> bool" where
  "is_human e \<longleftrightarrow> ac_kind (lv_actor e) = Some ''human''"

definition explained :: "layer_event \<Rightarrow> bool" where
  "explained e \<longleftrightarrow> strip (or_str (lv_rationale e) []) \<noteq> []"

definition check_false_positives :: "ledger_lib \<Rightarrow> layer_event list \<Rightarrow> layer_problem flag list" where
  "check_false_positives L = each (\<lambda>i e. fail_if
     (lv_validity e = Some ''false_positive'' \<and> is_human e \<and> \<not> identified L (lv_actor e)) (Unverified_false_positive i))"

text \<open>A decision that only a verified human may take, with a reason: an override of the severity, an embargo.\<close>

definition check_human_only :: "ledger_lib \<Rightarrow> (layer_event \<Rightarrow> bool) \<Rightarrow> (nat \<Rightarrow> layer_problem) \<Rightarrow> (nat \<Rightarrow> layer_problem)
    \<Rightarrow> (nat \<Rightarrow> layer_problem) \<Rightarrow> layer_event list \<Rightarrow> layer_problem flag list" where
  "check_human_only L decides machine unverified unexplained = each (\<lambda>i e.
     if decides e then
       (if \<not> is_human e then [Fail (machine i)] else fail_if (\<not> identified L (lv_actor e)) (unverified i))
       @ fail_if (\<not> explained e) (unexplained i)
     else [])"

definition check_severities :: "ledger_lib \<Rightarrow> layer_event list \<Rightarrow> layer_problem flag list" where
  "check_severities L = check_human_only L (\<lambda>e. truthy (lv_severity e))
     Machine_severity Unverified_severity Severity_without_rationale"

definition check_embargoes :: "ledger_lib \<Rightarrow> layer_event list \<Rightarrow> layer_problem flag list" where
  "check_embargoes L = check_human_only L lv_embargo Machine_embargo Unverified_embargo Embargo_without_rationale"

definition check_occurred :: "layer_event list \<Rightarrow> layer_problem flag list" where
  "check_occurred = each (\<lambda>i e. warn_if (truthy (lv_occurred_at e) \<and> truthy (lv_recorded_at e)
     \<and> or_str (lv_recorded_at e) [] < or_str (lv_occurred_at e) []) (Occurred_after_recorded i))"

section \<open>Claims and reviews\<close>

definition audit_by_id :: "claimed list \<Rightarrow> (string \<times> claimed) list" where
  "audit_by_id fs = fold (\<lambda>(k, v). AList.update k v) (map (\<lambda>f. (f_id f, f)) fs) []"

definition check_claim :: "ledger_lib \<Rightarrow> (string \<times> claimed) list \<Rightarrow> string \<times> string \<Rightarrow> layer_problem flag list" where
  "check_claim L by_id pin = (case pin of (fid, pinned) \<Rightarrow> (case map_of by_id fid of
       None \<Rightarrow> [Fail (Baselined_missing fid)]
     | Some f \<Rightarrow> if claim_hash_of L f = pinned then []
         else if cd_status f = Some ''corrected'' then [Warn (Claim_corrected fid)] else [Fail (Claim_edited fid)]))"

definition check_claims :: "ledger_lib \<Rightarrow> audit_file \<Rightarrow> (string \<times> string) list \<Rightarrow> layer_problem flag list" where
  "check_claims L audit hashes = (if hashes = [] then [] else case audit of
       No_file \<Rightarrow> [Warn Audit_not_found]
     | Unreadable msg \<Rightarrow> [Warn (Audit_unreadable msg)]
     | Audit fs \<Rightarrow>
         (let by_id = audit_by_id fs;
              unbaselined = sorted_set (filter (\<lambda>k. k \<notin> fst ` set hashes) (map fst by_id)) in
          concat (map (check_claim L by_id) (sort_key fst hashes))
          @ warn_if (unbaselined \<noteq> []) (Unbaselined unbaselined)))"

definition check_reviews :: "layer_event list \<Rightarrow> review_item list \<Rightarrow> layer_problem flag list" where
  "check_reviews es = each (\<lambda>i item.
     fail_if (ri_status item = Some ''confirmed'' \<and> ri_source_ref item \<notin> lv_source_ref ` set es) (Confirmed_without_event i)
     @ warn_if (ri_status item \<in> {Some ''confirmed'', Some ''rejected''} \<and> \<not> truthy (ri_note item)) (Closed_without_note i))"

definition merkle_flags :: "(bool \<times> string) list \<Rightarrow> layer_problem flag list" where
  "merkle_flags = map (\<lambda>(is_error, msg). if is_error then Fail (Merkle msg) else Warn (Merkle msg))"

text \<open>\<open>pubkey_path or _default_signing_pubkey(signing_pubkey)\<close>: the path given, else the injected one.\<close>

definition chosen_pubkey :: "string option \<Rightarrow> string option \<Rightarrow> string option" where
  "chosen_pubkey path injected = (if truthy path then path else injected)"

definition cross_validate_merkle :: "ledger_lib \<Rightarrow> layer_report \<Rightarrow> string option \<Rightarrow> string option \<Rightarrow> layer_problem flag list" where
  "cross_validate_merkle L r path injected =
     merkle_flags (merkle_integrity L r) @ merkle_flags (merkle_signature L r (chosen_pubkey path injected))"

text \<open>\<open>None\<close> is the \<open>TypeError\<close> of the chronology.\<close>

definition cross_validate_layer :: "ledger_lib \<Rightarrow> datetime \<Rightarrow> audit_file \<Rightarrow> string option \<Rightarrow> string option
    \<Rightarrow> layer_report \<Rightarrow> layer_problem flag list option" where
  "cross_validate_layer L now audit path injected r =
     map_option (\<lambda>chronology.
       check_event_ids L (ly_events r) @ chronology @ check_false_positives L (ly_events r)
       @ check_severities L (ly_events r) @ check_embargoes L (ly_events r) @ check_occurred (ly_events r)
       @ check_claims L audit (ly_claim_hashes r) @ check_reviews (ly_events r) (ly_reviews r)
       @ cross_validate_merkle L r path injected) (check_chronology now (ly_events r))"

section \<open>What an accepted layer guarantees\<close>

lemma passed_layer:
  assumes "cross_validate_layer L now audit path injected r = Some fs" and "passed fs"
  obtains ch where "check_chronology now (ly_events r) = Some ch" and "passed ch"
    and "passed (check_event_ids L (ly_events r))" and "passed (check_false_positives L (ly_events r))"
    and "passed (check_severities L (ly_events r))" and "passed (check_embargoes L (ly_events r))"
    and "passed (check_claims L audit (ly_claim_hashes r))"
  using assms by (auto simp: cross_validate_layer_def)

lemma audit_by_id_in: "map_of (audit_by_id fs) k = Some f \<Longrightarrow> f \<in> set fs \<and> f_id f = k"
  by (auto simp: audit_by_id_def lookup_updates rev_map split: option.splits dest!: map_of_SomeD)

lemma accepted_claim:
  assumes "passed (check_claim L (audit_by_id claims) (fid, pinned))"
  shows "\<exists>f \<in> set claims. f_id f = fid \<and> (claim_hash_of L f = pinned \<or> cd_status f = Some ''corrected'')"
proof (cases "map_of (audit_by_id claims) fid")
  case None
  with assms show ?thesis by (simp add: check_claim_def)
next
  case (Some f)
  with assms audit_by_id_in [OF Some] show ?thesis by (auto simp: check_claim_def split: if_splits)
qed

lemma human_only:
  assumes "passed (check_human_only L decides m u x es)" and "e \<in> set es" and "decides e"
  shows "is_human e \<and> identified L (lv_actor e) \<and> explained e"
  using assms by (auto simp: check_human_only_def in_set_conv_nth split: if_splits)

text \<open>
  The events of an accepted layer are in the order of time, as far as their times can be read, and
  all of those with a zone are at most a day ahead of the check. So a later event is never outranked by
  an earlier one that claims a later time, whatever events are in between, and no event can hold on to
  the latest place by a date that is still to come.
\<close>

theorem accepted_layer_in_order:
  assumes "cross_validate_layer L now audit path injected r = Some fs" and "passed fs"
  shows "in_time_order (List.map_filter recorded (ly_events r))
    \<and> (\<forall>e \<in> set (ly_events r). \<forall>d. recorded e = Some d \<and> dt_aware d
         \<longrightarrow> dt_position d \<le> dt_position now + DAY_MICROS)"
proof -
  from passed_layer [OF assms] obtain ch
    where ch: "check_chronology now (ly_events r) = Some ch" "passed ch" by blast
  note dated = ch(1) [unfolded check_chronology_def]
  have "in_time_order ([] @ List.map_filter recorded (ly_events r))"
    using dated_in_order [OF dated ch(2)] by simp
  moreover have "\<not> beyond_horizon now e" if "e \<in> set (ly_events r)" for e
    using dated_checked [OF dated ch(2) that] by simp
  ultimately show ?thesis by (force simp: beyond_horizon_def)
qed

text \<open>
  In an accepted layer every override of a severity and every embargo is the explained decision of a
  verified human, every false positive of a human is of a verified one, every event carries its own id
  and no two the same, and every pinned claim is one of the audit report, unchanged unless the finding
  says that it was corrected.
\<close>

theorem accepted_layer_attributable:
  assumes "cross_validate_layer L now (Audit claims) path injected r = Some fs" and "passed fs"
  shows "(\<forall>e \<in> set (ly_events r).
        (truthy (lv_severity e) \<or> lv_embargo e \<longrightarrow> is_human e \<and> identified L (lv_actor e) \<and> explained e)
      \<and> (lv_validity e = Some ''false_positive'' \<and> is_human e \<longrightarrow> identified L (lv_actor e))
      \<and> lv_id e = Some (event_id_of L (or_str (lv_source_ref e) []) (or_str (lv_finding_ref e) [])
          (lv_validity e) (lv_resolution e)))
    \<and> distinct (map lv_id (ly_events r))
    \<and> (\<forall>(fid, pinned) \<in> set (ly_claim_hashes r). \<exists>f \<in> set claims. f_id f = fid
        \<and> (claim_hash_of L f = pinned \<or> cd_status f = Some ''corrected''))"
proof (intro conjI ballI)
  note p = passed_layer [OF assms]
  fix e assume e: "e \<in> set (ly_events r)"
  show "truthy (lv_severity e) \<or> lv_embargo e \<longrightarrow> is_human e \<and> identified L (lv_actor e) \<and> explained e"
    using p human_only [OF _ e] by (metis check_severities_def check_embargoes_def)
  show "lv_validity e = Some ''false_positive'' \<and> is_human e \<longrightarrow> identified L (lv_actor e)"
    using p e by (auto simp: check_false_positives_def in_set_conv_nth)
  show "lv_id e = Some (event_id_of L (or_str (lv_source_ref e) []) (or_str (lv_finding_ref e) [])
      (lv_validity e) (lv_resolution e))"
    using p e by (auto simp: check_event_ids_def Let_def in_set_conv_nth)
next
  show "distinct (map lv_id (ly_events r))"
    by (rule passed_layer [OF assms]) (simp add: check_event_ids_def)
next
  fix pin assume pin: "pin \<in> set (ly_claim_hashes r)"
  obtain fid pinned where [simp]: "pin = (fid, pinned)" by (cases pin)
  have "passed (check_claims L (Audit claims) (ly_claim_hashes r))" by (rule passed_layer [OF assms])
  with pin have "passed (check_claim L (audit_by_id claims) (fid, pinned))"
    by (cases "ly_claim_hashes r = []") (simp_all add: check_claims_def Let_def)
  from accepted_claim [OF this] show "case pin of (fid, pinned) \<Rightarrow> \<exists>f \<in> set claims. f_id f = fid
      \<and> (claim_hash_of L f = pinned \<or> cd_status f = Some ''corrected'')" by simp
qed

definition demo_lib :: ledger_lib where
  "demo_lib = \<lparr>event_id_of = (\<lambda>s f v r. s @ f), claim_hash_of = f_id, actor_verified = (\<lambda>a. ac_claims a \<noteq> []),
     merkle_integrity = (\<lambda>_. []), merkle_signature = (\<lambda>_ _. [])\<rparr>"

definition demo_layer_event :: "string \<Rightarrow> string \<Rightarrow> layer_event" where
  "demo_layer_event ref tm = \<lparr>lv_id = Some ref, lv_finding_ref = None, lv_source_ref = Some ref,
     lv_actor = \<lparr>ac_kind = Some ''human'', ac_identity = Some ''ann'', ac_claims = [(''ldap'', ''ann'')]\<rparr>,
     lv_validity = None, lv_resolution = None, lv_severity = Some ''low'', lv_embargo = False,
     lv_rationale = Some ''not exposed'', lv_recorded_at = Some tm, lv_occurred_at = None\<rparr>"

definition demo_layer :: "string \<Rightarrow> string \<Rightarrow> layer_report" where
  "demo_layer t u = \<lparr>ly_events = [demo_layer_event ''a'' t, demo_layer_event ''b'' u], ly_reviews = [],
     ly_claim_hashes = [(''F-1'', ''F-1'')]\<rparr>"

definition demo_claimed :: claimed where
  "demo_claimed = \<lparr>f_id = ''F-1'', f_title = None, f_category = None, f_paths = [], f_cwes = [], f_stamp = None,
     f_algo = None, cd_status = None\<rparr>"

definition demo_now :: datetime where
  "demo_now = \<lparr>dt_day = Day 739900, dt_micros = 0, dt_offset = Some 0\<rparr>"

definition demo_checked :: "string \<Rightarrow> string \<Rightarrow> layer_problem flag list option" where
  "demo_checked t u = cross_validate_layer demo_lib demo_now (Audit [demo_claimed]) None None (demo_layer t u)"

lemma demo_layer_accepted: "demo_checked ''2026-01-01T00:00:00Z'' ''2026-01-01T00:00:00.5Z'' = Some []"
  by code_simp

theorem accepted_layer_in_order_witness:
  "in_time_order (List.map_filter recorded (ly_events (demo_layer ''2026-01-01T00:00:00Z'' ''2026-01-01T00:00:00.5Z'')))"
  using accepted_layer_in_order [OF demo_layer_accepted [unfolded demo_checked_def]] by simp

theorem accepted_layer_attributable_witness:
  "is_human (demo_layer_event ''a'' ''2026-01-01T00:00:00Z'')"
  using accepted_layer_attributable [OF demo_layer_accepted [unfolded demo_checked_def]]
  by (simp add: demo_layer_def demo_layer_event_def)

text \<open>Two times of which one has a zone and the other has none are not compared: the check itself raises.\<close>

lemma mixed_zones_raise: "demo_checked ''2026-01-01T00:00:00Z'' ''2026-01-01T00:00:01'' = None"
  by code_simp

end
