(* ===== verification/Report_Verification.thy ===== *)
theory Report_Verification
  imports Report_Checks "HOL-Library.Multiset"
begin

text \<open>
  \<open>reporting/validate.py\<close>, \<open>cross_validate_verification\<close>: the checks of a report on whether findings were
  remediated: verdicts against their evidence, the commit timeline, and the ids of regressions.
\<close>

section \<open>Verification reports\<close>

record fix_commit =
  fc_sha :: "string option"
  fc_short :: "string option"

record cross_repo =
  xr_propagation :: "string option"
  xr_fix_repo :: "string option"

record verified_finding =
  wf_id :: "string option"
  wf_verdict :: "string option"
  wf_cross_repo :: "cross_repo option"
  wf_commits :: "fix_commit list"
  wf_unattributed :: bool
  wf_rationale :: "string option"
  wf_residual :: "string option"

record timeline_entry =
  te_sha :: "string option"
  te_full_sha :: "string option"
  te_addresses :: "string list"
  te_date :: "string option"

record regression =
  rg_id :: "string option"
  rg_routed :: "string option"

record verification_report =
  vn_version :: "string option"
  vn_date :: "string option"
  vn_repository :: "string option"
  vn_original :: "string option"
  vn_patched :: "string option"
  vn_findings :: "verified_finding list"
  vn_regressions :: "regression list"
  vn_timeline :: "timeline_entry list"
  vn_declared_findings :: "int option"
  vn_declared_regressions :: "int option"
  vn_by_verdict :: "(string \<times> int) list"
  vn_surfaces :: "coverage option"

datatype verification_problem =
    Duplicate_original "string option"
  | Pending_resolved "string option" | Own_repository "string option"
  | Wrong_finding_total int | Wrong_verdict_total string int | Wrong_regression_total int
  | Attributed_and_not nat | Not_attributed nat | Without_rationale nat
  | Without_residual_risk nat
  | Short_sha_differs nat
  | Timeline_sha_differs nat | Timeline_unknown nat string | Timeline_order nat
  | Not_in_timeline "string option" | Not_attributed_in_timeline "string option"
  | Regression_sha nat | Routed_twice string | Routed_sha nat
  | Same_commit
  | Verification_surface surface_problem

section \<open>Findings\<close>

definition norm_repo :: "string option \<Rightarrow> string" where
  "norm_repo r = lower (rstrip_with (\<lambda>c. c = CHR ''/'') (or_str r []))"

definition check_cross_repo :: "verification_report \<Rightarrow> verified_finding \<Rightarrow> verification_problem flag list" where
  "check_cross_repo r f = (case wf_cross_repo f of
       None \<Rightarrow> []
     | Some cr \<Rightarrow>
         fail_if (xr_propagation cr = Some ''pending'' \<and> wf_verdict f = Some ''resolved'') (Pending_resolved (wf_id f))
         @ fail_if (truthy (xr_fix_repo cr) \<and> truthy (vn_repository r) \<and> norm_repo (xr_fix_repo cr) = norm_repo (vn_repository r))
             (Own_repository (wf_id f)))"

definition prefix_of :: "string option \<Rightarrow> string option \<Rightarrow> bool" where
  "prefix_of short full \<longleftrightarrow> startswith (or_str full []) (or_str short [])"

definition check_verdict :: "nat \<Rightarrow> verified_finding \<Rightarrow> verification_problem flag list" where
  "check_verdict i f =
     fail_if (wf_commits f \<noteq> [] \<and> wf_unattributed f) (Attributed_and_not i)
     @ fail_if (wf_commits f = [] \<and> \<not> wf_unattributed f
         \<and> wf_verdict f \<in> Some ` {''resolved'', ''partially_resolved'', ''new_approach'', ''regression''}) (Not_attributed i)
     @ fail_if (wf_verdict f \<in> Some ` {''false_positive'', ''risk_accepted''} \<and> \<not> truthy (wf_rationale f)) (Without_rationale i)
     @ fail_if (wf_verdict f = Some ''partially_resolved'' \<and> \<not> truthy (wf_residual f)) (Without_residual_risk i)
     @ warn_if (wf_verdict f = Some ''new_approach'' \<and> \<not> truthy (wf_residual f)) (Without_residual_risk i)
     @ concat (map (\<lambda>c. fail_if (\<not> prefix_of (fc_short c) (fc_sha c)) (Short_sha_differs i)) (wf_commits f))"

section \<open>The timeline and the regressions\<close>

definition check_timeline :: "verification_report \<Rightarrow> verification_problem flag list option" where
  "check_timeline r = dated (\<lambda>i t earlier.
       fail_if (\<not> prefix_of (te_sha t) (te_full_sha t)) (Timeline_sha_differs i)
       @ concat (map (\<lambda>fid. fail_if (Some fid \<notin> wf_id ` set (vn_findings r)) (Timeline_unknown i fid)) (te_addresses t))
       @ fail_if earlier (Timeline_order i))
     (\<lambda>t. datetime_fromisoformat (or_str (te_date t) [])) 0 None (vn_timeline r)"

definition attributed_shas :: "verification_report \<Rightarrow> string option list" where
  "attributed_shas r = map fc_sha (concat (map wf_commits (vn_findings r)))"

definition check_agreement :: "verification_report \<Rightarrow> verification_problem flag list" where
  "check_agreement r =
     (let a = map (\<lambda>s. or_str s []) (attributed_shas r); t = map (\<lambda>e. or_str (te_full_sha e) []) (vn_timeline r) in
      map (\<lambda>s. Warn (Not_in_timeline (Some s))) (sorted_set (filter (\<lambda>s. s \<notin> set t) a))
      @ map (\<lambda>s. Warn (Not_attributed_in_timeline (Some s))) (sorted_set (filter (\<lambda>s. s \<notin> set a) t)))"

definition check_regressions :: "verification_report \<Rightarrow> verification_problem flag list" where
  "check_regressions r =
     (let patched = take 7 (or_str (vn_patched r) []);
          routed = List.map_filter (\<lambda>g. if truthy (rg_routed g) then rg_routed g else None) (vn_regressions r) in
      each (\<lambda>i g. warn_if (patched \<noteq> [] \<and> \<not> occurs_in (''-'' @ patched @ ''-REG-'') (or_str (rg_id g) []))
          (Regression_sha i)) (vn_regressions r)
      @ map (\<lambda>rid. Fail (Routed_twice rid)) (repeated routed)
      @ each (\<lambda>i g. warn_if (truthy (rg_routed g) \<and> patched \<noteq> []
          \<and> \<not> occurs_in (''-'' @ patched @ ''-'') (or_str (rg_routed g) [])) (Routed_sha i)) (vn_regressions r))"

text \<open>\<open>None\<close> is the \<open>TypeError\<close> of the timeline.\<close>

definition cross_validate_verification :: "string list \<Rightarrow> verification_report \<Rightarrow> verification_problem flag list option" where
  "cross_validate_verification surfaces r =
     (let n = int (length (vn_findings r)); k = int (length (vn_regressions r)) in
      map_option (\<lambda>timeline.
        map (map_flag Verification_surface) (cross_validate_scan_review_surfaces surfaces (vn_surfaces r) ''verification''
          (vn_version r) (vn_date r)
          (set (List.map_filter rg_id (vn_regressions r) @ List.map_filter wf_id (vn_findings r))) None)
        @ map (\<lambda>fid. Fail (Duplicate_original fid)) (repeated (map wf_id (vn_findings r)))
        @ concat (map (check_cross_repo r) (vn_findings r))
        @ fail_if (vn_declared_findings r \<noteq> None \<and> vn_declared_findings r \<noteq> Some n) (Wrong_finding_total n)
        @ concat (map (\<lambda>(v, m). fail_if (counter_get (map wf_verdict (vn_findings r)) (Some v) \<noteq> m)
            (Wrong_verdict_total v m)) (vn_by_verdict r))
        @ fail_if (vn_declared_regressions r \<noteq> None \<and> vn_declared_regressions r \<noteq> Some k) (Wrong_regression_total k)
        @ each check_verdict (vn_findings r)
        @ timeline
        @ check_agreement r
        @ check_regressions r
        @ warn_if (truthy (vn_original r) \<and> vn_original r = vn_patched r) Same_commit) (check_timeline r))"

section \<open>What an accepted verification guarantees\<close>

text \<open>A finding counts as resolved with the commits that did it, or with the statement that none is known.\<close>

definition attributed :: "verified_finding \<Rightarrow> bool" where
  "attributed f \<longleftrightarrow> (wf_commits f \<noteq> []) \<noteq> wf_unattributed f"

text \<open>
  In an accepted verification nothing is resolved on paper only: a resolved finding has its commits or
  is marked as not attributed, never both, and a fix that its repository has not consumed resolves
  nothing. The timeline is in the order of time, every finding it addresses is one of the report, and a
  routed regression goes to a finding of its own.
\<close>

theorem accepted_verification_attributed:
  assumes "cross_validate_verification surfaces r = Some fs" and "passed fs"
  shows "(\<forall>f \<in> set (vn_findings r). wf_verdict f = Some ''resolved'' \<longrightarrow> attributed f
        \<and> (case wf_cross_repo f of None \<Rightarrow> True | Some cr \<Rightarrow> xr_propagation cr \<noteq> Some ''pending''))
    \<and> in_time_order (List.map_filter (\<lambda>t. datetime_fromisoformat (or_str (te_date t) [])) (vn_timeline r))
    \<and> (\<forall>t \<in> set (vn_timeline r). Some ` set (te_addresses t) \<subseteq> wf_id ` set (vn_findings r))
    \<and> distinct (List.map_filter (\<lambda>g. if truthy (rg_routed g) then rg_routed g else None) (vn_regressions r))"
proof -
  from assms obtain tl where tl: "check_timeline r = Some tl" "passed tl"
    and x: "\<forall>f \<in> set (vn_findings r). passed (check_cross_repo r f)"
    and v: "passed (each check_verdict (vn_findings r))" and g: "passed (check_regressions r)"
    by (auto simp: cross_validate_verification_def Let_def)
  note d = tl(1) [unfolded check_timeline_def]
  have "passed (check_verdict i f) \<Longrightarrow> wf_verdict f = Some ''resolved'' \<Longrightarrow> attributed f" for i f
    by (auto simp: check_verdict_def attributed_def)
  then have "attributed f" if "f \<in> set (vn_findings r)" "wf_verdict f = Some ''resolved''" for f
    using v that by (auto simp: in_set_conv_nth)
  moreover have "case wf_cross_repo f of None \<Rightarrow> True | Some cr \<Rightarrow> xr_propagation cr \<noteq> Some ''pending''"
    if "f \<in> set (vn_findings r)" "wf_verdict f = Some ''resolved''" for f
    using x that by (auto simp: check_cross_repo_def split: option.splits)
  moreover have "in_time_order ([] @ List.map_filter (\<lambda>t. datetime_fromisoformat (or_str (te_date t) [])) (vn_timeline r))"
    using dated_in_order [OF d tl(2)] by simp
  moreover have "Some ` set (te_addresses t) \<subseteq> wf_id ` set (vn_findings r)" if "t \<in> set (vn_timeline r)" for t
    using dated_checked [OF d tl(2) that] by auto
  ultimately show ?thesis using g by (simp add: check_regressions_def Let_def)
qed

definition demo_verification :: verification_report where
  "demo_verification = \<lparr>vn_version = None, vn_date = None, vn_repository = None, vn_original = None, vn_patched = None,
     vn_findings = [\<lparr>wf_id = Some ''A'', wf_verdict = Some ''resolved'', wf_cross_repo = None,
        wf_commits = [\<lparr>fc_sha = Some ''abc1234'', fc_short = Some ''abc''\<rparr>], wf_unattributed = False,
        wf_rationale = None, wf_residual = None\<rparr>],
     vn_regressions = [], vn_timeline = [\<lparr>te_sha = Some ''abc'', te_full_sha = Some ''abc1234'', te_addresses = [''A''],
        te_date = Some ''2026-01-01T00:00:00Z''\<rparr>],
     vn_declared_findings = Some 1, vn_declared_regressions = None, vn_by_verdict = [(''resolved'', 1)],
     vn_surfaces = None\<rparr>"

lemma demo_verification_accepted: "cross_validate_verification [] demo_verification = Some []"
  by code_simp

theorem accepted_verification_attributed_witness:
  "list_all attributed (vn_findings demo_verification)"
  using accepted_verification_attributed [OF demo_verification_accepted] by (simp add: demo_verification_def)

end
