(* ===== verification/Report_Audit.thy ===== *)
theory Report_Audit
  imports Report_Checks "HOL-Library.Multiset"
begin

text \<open>
  \<open>reporting/validate.py\<close>, the checks of an audit report that a schema cannot state: \<open>cross_validate\<close>
  with its numbered checks, the disposition blocks of cumulative reports (shared with the cloud
  configuration reports), the repository of the metadata and the fingerprints of the findings. The
  names of the review surfaces and the fingerprint recipe are arguments.
\<close>

section \<open>Documents\<close>

text \<open>A disposition block; whether its conflict flag is true, and the severity of its override.\<close>

record vdisposition =
  vd_validity :: "string option"
  vd_resolution :: "string option"
  vd_conflict :: bool
  vd_override :: "string option"

text \<open>\<open>vf_disposition\<close> is \<open>None\<close> without the key and \<open>Some None\<close> for an empty block.\<close>

record vfinding = finding +
  vf_severity :: string
  vf_validation_status :: "string option"
  vf_peach_references :: "string list"
  vf_disposition :: "vdisposition option option"

record summary_entry =
  sm_severity :: string
  sm_count :: int
  sm_finding_ids :: "string list"

record peach_review =
  pe_applicable :: bool
  pe_interfaces :: "(string option \<times> string list) list"

record disposition_summary =
  ds_by_resolution :: "(string \<times> int) list"
  ds_by_validity :: "(string \<times> int) list"
  ds_conflicts :: "string list"

record audit_meta = gate_meta +
  am_profile :: "string option"
  am_repository :: "string option"
  am_commit :: "string option"
  am_loc :: "((string \<times> int) list \<times> int option) option"
  am_gaps :: "(string option \<times> string option) list"

record audit_report =
  ap_meta :: audit_meta
  ap_findings :: "vfinding list"
  ap_levels :: "string list"
  ap_summary :: "summary_entry list"
  ap_roadmap :: "string list list"
  ap_severity_counts :: "(string \<times> int) list"
  ap_peach :: "peach_review option"
  ap_disposition_summary :: "disposition_summary option"
  ap_surfaces :: "coverage option"
  ap_areas :: "string list"

datatype audit_problem =
    Duplicate_id string
  | Missing_level string
  | Wrong_count string int int
  | Wrong_id_count string int int
  | Unknown_in_summary string
  | Not_in_summary "string list"
  | Unknown_in_roadmap string
  | Wrong_severity_count string int int
  | Interfaces_not_applicable
  | References_not_applicable nat
  | Unknown_in_interface string
  | Wrong_loc_sum int
  | Repository_bracketed | Repository_not_single | Repository_no_url
  | Other_commit string
  | Non_canonical string
  | Commit_required
  | Peach_required
  | Status_required nat
  | Undisposed nat
  | Summary_absent
  | Status_differs nat
  | Wrong_resolution_count string int
  | Wrong_validity_count string int
  | Conflict_unlisted string
  | Conflict_unflagged string
  | Surface surface_problem
  | Repository_absent | Repository_local | Repository_malformed
  | Fingerprints_missing nat
  | Fingerprint_unreadable string
  | Fingerprints_wrong "string list"
  | Effective_severity nat
  | Status_count string
  | Gaps_count

section \<open>The checks of an audit report\<close>

definition MANDATORY_SEVERITY_LEVELS :: "string list" where
  "MANDATORY_SEVERITY_LEVELS = [''critical'', ''high'', ''medium'', ''low'']"

abbreviation finding_ids :: "audit_report \<Rightarrow> string list" where
  "finding_ids r \<equiv> map f_id (ap_findings r)"

definition check_ids_unique :: "audit_report \<Rightarrow> audit_problem flag list" where
  "check_ids_unique r = map (\<lambda>fid. Fail (Duplicate_id fid)) (repeated (finding_ids r))"

definition check_levels :: "audit_report \<Rightarrow> audit_problem flag list" where
  "check_levels r = map (\<lambda>l. Fail (Missing_level l))
     (sorted_set (filter (\<lambda>l. l \<notin> set (ap_levels r)) MANDATORY_SEVERITY_LEVELS))"

definition severity_count :: "audit_report \<Rightarrow> string \<Rightarrow> int" where
  "severity_count r = counter_get (map vf_severity (ap_findings r))"

definition check_summary_entry :: "audit_report \<Rightarrow> summary_entry \<Rightarrow> audit_problem flag list" where
  "check_summary_entry r e =
     fail_if (sm_count e \<noteq> severity_count r (sm_severity e))
       (Wrong_count (sm_severity e) (sm_count e) (severity_count r (sm_severity e)))
     @ fail_if (int (length (sm_finding_ids e)) \<noteq> sm_count e)
       (Wrong_id_count (sm_severity e) (sm_count e) (int (length (sm_finding_ids e))))"

definition summary_ids :: "audit_report \<Rightarrow> string list" where
  "summary_ids r = concat (map sm_finding_ids (ap_summary r))"

definition check_summary_ids :: "audit_report \<Rightarrow> audit_problem flag list" where
  "check_summary_ids r =
     concat (map (\<lambda>fid. fail_if (fid \<notin> set (finding_ids r)) (Unknown_in_summary fid)) (summary_ids r))
     @ (let missing = filter (\<lambda>fid. fid \<notin> set (summary_ids r)) (finding_ids r) in
        fail_if (missing \<noteq> []) (Not_in_summary (sorted_set missing)))"

definition check_roadmap :: "audit_report \<Rightarrow> audit_problem flag list" where
  "check_roadmap r = concat (map (\<lambda>fid. fail_if (fid \<notin> set (finding_ids r)) (Unknown_in_roadmap fid))
     (concat (ap_roadmap r)))"

definition check_severity_counts :: "audit_report \<Rightarrow> audit_problem flag list" where
  "check_severity_counts r = concat (map (\<lambda>(sev, declared).
     fail_if (declared \<noteq> severity_count r sev) (Wrong_severity_count sev declared (severity_count r sev)))
     (ap_severity_counts r))"

definition check_peach :: "audit_report \<Rightarrow> audit_problem flag list" where
  "check_peach r = (case ap_peach r of
       None \<Rightarrow> []
     | Some p \<Rightarrow>
         (if pe_applicable p then []
          else fail_if (pe_interfaces p \<noteq> []) Interfaces_not_applicable
            @ each (\<lambda>i f. fail_if (vf_peach_references f \<noteq> []) (References_not_applicable i)) (ap_findings r))
         @ concat (map (\<lambda>fid. fail_if (fid \<notin> set (finding_ids r)) (Unknown_in_interface fid))
             (concat (map snd (pe_interfaces p)))))"

definition check_loc :: "audit_report \<Rightarrow> audit_problem flag list" where
  "check_loc r = (case am_loc (ap_meta r) of
       None \<Rightarrow> []
     | Some (by_language, declared) \<Rightarrow>
         warn_if (by_language \<noteq> [] \<and> declared \<noteq> Some (sum_list (map snd by_language)))
           (Wrong_loc_sum (sum_list (map snd by_language))))"

definition local_fixture_rx :: rx where
  "local_fixture_rx = seq [At Bos, lit ''file:///'', star (Cls (\<lambda>c. \<not> is_space c)),
     Cls (\<lambda>c. c \<noteq> CHR ''/'' \<and> \<not> is_space c), At Eos]"

definition is_local_fixture_url :: "string \<Rightarrow> bool" where
  "is_local_fixture_url url \<longleftrightarrow> re_match local_fixture_rx (strip url) \<noteq> None"

definition check_repository_form :: "audit_report \<Rightarrow> audit_problem flag list" where
  "check_repository_form r =
     (let raw = or_str (am_repository (ap_meta r)) [] in
      if raw = [] then []
      else if startswith raw ''<'' \<or> endswith (rstrip_with is_space raw) ''>'' then [Warn Repository_bracketed]
      else if list_ex (\<lambda>c. c = CHR '';'' \<or> is_space c) (strip raw) then [Warn Repository_not_single]
      else warn_if (\<not> list_ex (startswith (strip raw)) [''http://'', ''https://'', ''git@'']
             \<and> \<not> is_local_fixture_url raw) Repository_no_url)"

definition REPORT_FINDING_ID :: rx where
  "REPORT_FINDING_ID = seq [At Bos, Cls is_upper,
     Rep 0 (Some 23) True (Cls (\<lambda>c. is_upper c \<or> is_digit c \<or> c = CHR ''_'')), lit ''-'',
     Rep 7 (Some 7) True (Cls (\<lambda>c. is_digit c \<or> code_in 97 102 c)), lit ''-'',
     Rep 3 (Some 3) True (Cls is_digit), At Eos]"

definition short_sha :: "string option \<Rightarrow> string option" where
  "short_sha commit = map_option m_text (re_match
     (seq [At Bos, Rep 7 (Some 7) True (Cls (\<lambda>c. is_digit c \<or> code_in 97 102 c))]) (lower (or_str commit [])))"

definition canonical_ids_enforced :: "audit_report \<Rightarrow> bool" where
  "canonical_ids_enforced r \<longleftrightarrow> gate (gate_meta.truncate (ap_meta r)) (Some CANONICAL_ID_MIN_VERSION) None"

definition check_canonical_id :: "bool \<Rightarrow> string option \<Rightarrow> vfinding \<Rightarrow> audit_problem flag list" where
  "check_canonical_id enforced sha f =
     (if re_match REPORT_FINDING_ID (f_id f) \<noteq> None then
        (case sha of None \<Rightarrow> []
         | Some s \<Rightarrow> warn_if (\<not> occurs_in (''-'' @ s @ ''-'') (f_id f)) (Other_commit (f_id f)))
      else if enforced then [Fail (Non_canonical (f_id f))] else [Warn (Non_canonical (f_id f))])"

definition check_canonical_ids :: "audit_report \<Rightarrow> audit_problem flag list" where
  "check_canonical_ids r =
     concat (map (check_canonical_id (canonical_ids_enforced r) (short_sha (am_commit (ap_meta r)))) (ap_findings r))
     @ fail_if (canonical_ids_enforced r \<and> \<not> truthy (am_commit (ap_meta r))) Commit_required"

definition check_conventions :: "audit_report \<Rightarrow> audit_problem flag list" where
  "check_conventions r =
     (if gate (gate_meta.truncate (ap_meta r)) (Some CONSISTENCY_MIN_VERSION) None then
        fail_if (ap_peach r = None) Peach_required
        @ each (\<lambda>i f. fail_if (vf_validation_status f = None) (Status_required i)) (ap_findings r)
      else [])"

section \<open>Disposition blocks\<close>

definition disposition_of :: "('a vfinding_scheme) \<Rightarrow> vdisposition option" where
  "disposition_of f = (case vf_disposition f of None \<Rightarrow> None | Some d \<Rightarrow> d)"

definition disposed :: "('a vfinding_scheme) list \<Rightarrow> ('a vfinding_scheme) list" where
  "disposed fs = filter (\<lambda>f. vf_disposition f \<noteq> None) fs"

definition block_field :: "(vdisposition \<Rightarrow> string option) \<Rightarrow> ('a vfinding_scheme) \<Rightarrow> string option" where
  "block_field g f = Option.bind (disposition_of f) g"

definition in_conflict :: "('a vfinding_scheme) \<Rightarrow> bool" where
  "in_conflict f \<longleftrightarrow> (case disposition_of f of None \<Rightarrow> False | Some d \<Rightarrow> vd_conflict d)"

definition check_status_mirrors :: "('a vfinding_scheme) list \<Rightarrow> audit_problem flag list" where
  "check_status_mirrors fs = each (\<lambda>i f. case disposition_of f of
       None \<Rightarrow> []
     | Some d \<Rightarrow> fail_if (vd_validity d \<noteq> vf_validation_status f) (Status_differs i)) fs"

definition check_disposition_counts :: "('a vfinding_scheme) list \<Rightarrow> disposition_summary \<Rightarrow> audit_problem flag list" where
  "check_disposition_counts fs ds =
     concat (map (\<lambda>(key, declared). fail_if
         (counter_get (map (block_field vd_resolution) (disposed fs)) (Some key) \<noteq> declared)
         (Wrong_resolution_count key declared)) (ds_by_resolution ds))
     @ concat (map (\<lambda>(key, declared). fail_if
         (counter_get (map (block_field vd_validity) (disposed fs)) (Some key) \<noteq> declared)
         (Wrong_validity_count key declared)) (ds_by_validity ds))"

definition check_conflicts :: "('a vfinding_scheme) list \<Rightarrow> disposition_summary \<Rightarrow> audit_problem flag list" where
  "check_conflicts fs ds =
     (let flagged = map f_id (filter in_conflict (disposed fs)); listed = ds_conflicts ds in
      map (\<lambda>fid. Fail (Conflict_unlisted fid)) (sorted_set (filter (\<lambda>x. x \<notin> set listed) flagged))
      @ map (\<lambda>fid. Fail (Conflict_unflagged fid)) (sorted_set (filter (\<lambda>x. x \<notin> set flagged) listed)))"

definition cross_validate_dispositions ::
    "('a vfinding_scheme) list \<Rightarrow> disposition_summary option \<Rightarrow> audit_problem flag list" where
  "cross_validate_dispositions fs summary =
     (if summary = None \<and> disposed fs = [] then []
      else fail_if (summary \<noteq> None \<and> length (disposed fs) \<noteq> length fs)
          (Undisposed (length fs - length (disposed fs)))
        @ warn_if (summary = None) Summary_absent
        @ check_status_mirrors fs
        @ (case summary of None \<Rightarrow> []
           | Some ds \<Rightarrow> check_disposition_counts fs ds @ check_conflicts fs ds))"

section \<open>The audit report as a whole\<close>

definition cross_validate :: "string list \<Rightarrow> audit_report \<Rightarrow> audit_problem flag list" where
  "cross_validate surfaces r =
     check_ids_unique r @ check_levels r @ concat (map (check_summary_entry r) (ap_summary r))
     @ check_summary_ids r @ check_roadmap r @ check_severity_counts r @ check_peach r @ check_loc r
     @ check_repository_form r @ check_canonical_ids r @ check_conventions r
     @ cross_validate_dispositions (ap_findings r) (ap_disposition_summary r)
     @ map (map_flag Surface) (cross_validate_review_surfaces surfaces (gate_meta.truncate (ap_meta r))
         (am_profile (ap_meta r)) (ap_surfaces r) (set (finding_ids r)) (ap_areas r) (set (am_gaps (ap_meta r))))"

definition repo_url_rx :: rx where
  "repo_url_rx = seq [At Bos, ilit ''https://'',
     plus (Cls (\<lambda>c. is_lower c \<or> is_upper c \<or> is_digit c \<or> c = CHR ''.'' \<or> c = CHR ''-'')), lit ''/'',
     plus (Cls (\<lambda>c. c \<noteq> CHR ''/'')), lit ''/'', plus (Cls (\<lambda>c. c \<noteq> CHR 0x0A)), At Eos]"

definition check_metadata_repository :: "audit_report \<Rightarrow> audit_problem flag list" where
  "check_metadata_repository r =
     (let s = strip (or_str (am_repository (ap_meta r)) []) in
      if s = [] then [Fail Repository_absent]
      else if startswith s ''<'' \<and> endswith s ''>'' then [Fail Repository_bracketed]
      else if is_local_fixture_url s then [Warn Repository_local]
      else fail_if (re_match repo_url_rx s = None) Repository_malformed)"

text \<open>\<open>fp\<close> is the recipe on a finding and the repository, \<open>None\<close> where it raises.\<close>

definition check_finding_identity :: "(finding \<Rightarrow> string option \<Rightarrow> string option) \<Rightarrow> audit_report \<Rightarrow> audit_problem flag list" where
  "check_finding_identity fp r =
     (let fs = ap_findings r;
          computed = (\<lambda>f. fp (finding.truncate f) (am_repository (ap_meta r)));
          missing = filter (\<lambda>f. \<not> truthy (f_stamp f)) fs;
          stamped = filter (\<lambda>f. truthy (f_stamp f)) fs;
          wrong = filter (\<lambda>f. computed f \<noteq> None \<and> f_stamp f \<noteq> computed f) stamped in
      fail_if (missing \<noteq> []) (Fingerprints_missing (length missing))
      @ map (\<lambda>f. Warn (Fingerprint_unreadable (f_id f))) (filter (\<lambda>f. computed f = None) stamped)
      @ fail_if (wrong \<noteq> []) (Fingerprints_wrong (map f_id wrong)))"

section \<open>Cloud configuration reports\<close>

record cloud_finding = vfinding +
  cf_status :: "string option"
  cf_effective :: "string option"

record cloud_report =
  cl_findings :: "cloud_finding list"
  cl_counts :: "string \<Rightarrow> int option"   \<comment> \<open>the summary: confirmed, suppressed, needs_review, gaps\<close>
  cl_gaps :: nat
  cl_disposition_summary :: "disposition_summary option"

definition effective_severity :: "cloud_finding \<Rightarrow> string option" where
  "effective_severity f = (case Option.bind (disposition_of f) vd_override of
       None \<Rightarrow> Some (vf_severity f) | Some sev \<Rightarrow> Some sev)"

definition cross_validate_cloud_config_current :: "cloud_report \<Rightarrow> audit_problem flag list" where
  "cross_validate_cloud_config_current r =
     map (\<lambda>fid. Fail (Duplicate_id fid)) (repeated (map f_id (cl_findings r)))
     @ each (\<lambda>i f. fail_if (cf_effective f \<noteq> effective_severity f) (Effective_severity i)) (cl_findings r)
     @ concat (map (\<lambda>key. warn_if (case cl_counts r key of None \<Rightarrow> False
           | Some declared \<Rightarrow> declared \<noteq> counter_get (map cf_status (cl_findings r)) (Some key)) (Status_count key))
         [''confirmed'', ''suppressed'', ''needs_review''])
     @ warn_if (case cl_counts r ''gaps'' of None \<Rightarrow> False | Some n \<Rightarrow> n \<noteq> int (cl_gaps r)) Gaps_count
     @ cross_validate_dispositions (cl_findings r) (cl_disposition_summary r)"

section \<open>What an accepted report guarantees\<close>

lemma sum_counts:
  "distinct ks \<Longrightarrow> sum_list (map (\<lambda>k. int (count_list xs k)) ks) = int (length (filter (\<lambda>x. x \<in> set ks) xs))"
proof (induction ks)
  case (Cons k ks)
  then have "filter (\<lambda>x. x = k \<or> x \<in> set ks) xs = filter (\<lambda>x. x \<in> set (k # ks)) xs" by simp
  have "length (filter (\<lambda>x. x = k \<or> x \<in> set ks) xs) = count_list xs k + length (filter (\<lambda>x. x \<in> set ks) xs)"
    using Cons.prems by (induction xs) auto
  with Cons show ?case by simp
qed simp

lemma int_length_concat: "int (length (concat (map f xs))) = sum_list (map (\<lambda>x. int (length (f x))) xs)"
  by (induction xs) simp_all

lemma accepted_entries:
  assumes "passed (cross_validate surfaces r)" and "e \<in> set (ap_summary r)"
  shows "sm_count e = int (count_list (map vf_severity (ap_findings r)) (sm_severity e))"
    and "int (length (sm_finding_ids e)) = sm_count e"
  using assms by (auto simp: cross_validate_def check_summary_entry_def severity_count_def counter_get)

lemma accepted_ids:
  assumes "passed (cross_validate surfaces r)"
  shows "distinct (finding_ids r)" and "set (summary_ids r) = set (finding_ids r)"
  using assms
  by (auto simp: cross_validate_def check_ids_unique_def check_summary_ids_def Let_def filter_empty_conv)


definition demo_vfinding :: "string \<Rightarrow> string \<Rightarrow> vfinding" where
  "demo_vfinding fid sev = \<lparr>f_id = fid, f_title = None, f_category = None, f_paths = [], f_cwes = [],
     f_stamp = None, f_algo = None, vf_severity = sev, vf_validation_status = Some ''not_verified'',
     vf_peach_references = [], vf_disposition = None\<rparr>"

definition demo_audit :: "summary_entry list \<Rightarrow> audit_report" where
  "demo_audit entries = \<lparr>
     ap_meta = \<lparr>gm_date = Some ''2026-09-20'', gm_original_date = None, gm_version = Some ''0.19.0'',
       am_profile = Some ''code'', am_repository = Some ''https://github.com/o/r'', am_commit = Some ''abc1234def'',
       am_loc = None, am_gaps = []\<rparr>,
     ap_findings = [demo_vfinding ''PROXY-abc1234-001'' ''high'', demo_vfinding ''PROXY-abc1234-002'' ''low''],
     ap_levels = [''critical'', ''high'', ''medium'', ''low''], ap_summary = entries,
     ap_roadmap = [[''PROXY-abc1234-001'']], ap_severity_counts = [(''high'', 1), (''low'', 1)],
     ap_peach = Some \<lparr>pe_applicable = False, pe_interfaces = []\<rparr>, ap_disposition_summary = None,
     ap_surfaces = None, ap_areas = []\<rparr>"

definition demo_entries :: "string \<Rightarrow> string \<Rightarrow> summary_entry list" where
  "demo_entries a b = [\<lparr>sm_severity = ''high'', sm_count = 1, sm_finding_ids = [a]\<rparr>,
     \<lparr>sm_severity = ''low'', sm_count = 1, sm_finding_ids = [b]\<rparr>]"

lemma demo_audit_passes: "passed (cross_validate [] (demo_audit (demo_entries ''PROXY-abc1234-001'' ''PROXY-abc1234-002'')))"
  by code_simp


text \<open>The severity of a listed finding is not looked at: an entry may list the findings of another.\<close>

lemma summary_may_swap_findings:
  "passed (cross_validate [] (demo_audit (demo_entries ''PROXY-abc1234-002'' ''PROXY-abc1234-001'')))"
  by code_simp

text \<open>An id with a longer commit prefix is canonical to the identity tool and not to the report checks.\<close>

lemma long_sha_id_not_canonical:
  "re_match CANONICAL_FINDING_ID ''PROXY-abc1234d-001'' \<noteq> None"
  "re_match REPORT_FINDING_ID ''PROXY-abc1234d-001'' = None"
  by code_simp+

end
