(* ===== verification/Report_Triage.thy ===== *)
theory Report_Triage
  imports Report_Audit
begin

text \<open>
  \<open>reporting/validate.py\<close>, the checks of the documents around an audit: triage, validation, vulnerability
  scan and remediation. A summary is what \<open>get\<close> finds under a key. Whether a file that a document names
  exists beside it is an argument.
\<close>

section \<open>Triage\<close>

record triage_finding =
  tf_id :: "string option"
  tf_verdict :: "string option"
  tf_severity :: "string option"
  tf_rule :: "string option"
  tf_refute_reasons :: "string list"
  tf_confidence :: "rat option"
  tf_verify_verdict :: "string option"
  tf_duplicate_of :: "string option"
  tf_votes :: "(string \<times> int) list option"
  tf_orig_id :: "string option"

record triage_report =
  tr_findings :: "triage_finding list"
  tr_summary :: "string \<Rightarrow> int option"
  tr_by_severity :: "(string \<times> int) list"

datatype triage_problem =
    Duplicate_triage_id "string option"
  | Wrong_total string int
  | Wrong_by_severity string int
  | Hardening_rule nat | Rule_13_false_positive nat
  | Refutation_without_reason nat
  | Undetermined_confident nat
  | Severity_unconfirmed nat
  | Duplicate_of_nothing nat | Duplicate_of_unknown nat string | Duplicate_of_duplicate nat string
  | Against_majority nat string
  | Orig_id_not_canonical string

definition triage_verdicts :: "triage_report \<Rightarrow> string option list" where
  "triage_verdicts r = map tf_verdict (tr_findings r)"

definition triage_totals :: "triage_report \<Rightarrow> (string \<times> int) list" where
  "triage_totals r = (''input_count'', int (length (tr_findings r)))
     # map (\<lambda>(key, v). (key, counter_get (triage_verdicts r) (Some v)))
         [(''true_positives'', ''true_positive''), (''hardening'', ''hardening''), (''false_positives'', ''false_positive''),
          (''undetermined'', ''undetermined''), (''duplicates'', ''duplicate'')]"

definition check_totals :: "(string \<Rightarrow> int option) \<Rightarrow> (string \<Rightarrow> int \<Rightarrow> 'p) \<Rightarrow> (string \<times> int) list \<Rightarrow> 'p flag list" where
  "check_totals summary p totals = concat (map (\<lambda>(key, actual). fail_if (summary key \<noteq> Some actual) (p key actual)) totals)"

definition check_by_severity :: "triage_report \<Rightarrow> triage_problem flag list" where
  "check_by_severity r =
     (let actual = map (\<lambda>f. lower (or_str (tf_severity f) []))
          (filter (\<lambda>f. tf_verdict f = Some ''true_positive'' \<and> truthy (tf_severity f)) (tr_findings r)) in
      concat (map (\<lambda>(level, n). fail_if (counter_get actual level \<noteq> n) (Wrong_by_severity level n)) (tr_by_severity r)))"

definition check_rule_13 :: "nat \<Rightarrow> triage_finding \<Rightarrow> triage_problem flag list" where
  "check_rule_13 i f =
     fail_if (tf_verdict f = Some ''hardening'' \<and> tf_rule f \<noteq> Some ''13'') (Hardening_rule i)
     @ fail_if (tf_verdict f = Some ''false_positive'' \<and> tf_rule f = Some ''13'') (Rule_13_false_positive i)"

definition check_evidence :: "nat \<Rightarrow> triage_finding \<Rightarrow> triage_problem flag list" where
  "check_evidence i f =
     fail_if (tf_verdict f = Some ''false_positive'' \<and> tf_refute_reasons f = []) (Refutation_without_reason i)
     @ fail_if (tf_verdict f = Some ''undetermined'' \<and> tf_confidence f \<notin> {None, Some 0}
         \<and> tf_verify_verdict f \<noteq> Some ''needs_manual_test'') (Undetermined_confident i)
     @ fail_if (tf_verdict f \<noteq> Some ''true_positive'' \<and> tf_severity f \<noteq> None) (Severity_unconfirmed i)"

definition check_duplicate :: "triage_finding list \<Rightarrow> nat \<Rightarrow> triage_finding \<Rightarrow> triage_problem flag list" where
  "check_duplicate fs i f =
     (if tf_verdict f \<noteq> Some ''duplicate'' then []
      else if \<not> truthy (tf_duplicate_of f) then [Fail (Duplicate_of_nothing i)]
      else (let target = or_str (tf_duplicate_of f) [] in
        case find (\<lambda>x. tf_id x = Some target) fs of
          None \<Rightarrow> [Fail (Duplicate_of_unknown i target)]
        | Some canon \<Rightarrow> fail_if (tf_verdict canon = Some ''duplicate'') (Duplicate_of_duplicate i target)))"

definition VOTED :: "string list" where
  "VOTED = [''true_positive'', ''hardening'', ''false_positive'']"

definition check_votes :: "nat \<Rightarrow> triage_finding \<Rightarrow> triage_problem flag list" where
  "check_votes i f = (case (tf_votes f, tf_verdict f) of
       (Some vb, Some verdict) \<Rightarrow>
         if verdict \<in> set VOTED then
           (let countable = map (\<lambda>k. (k, case map_of vb k of None \<Rightarrow> 0 | Some n \<Rightarrow> n)) VOTED;
                cast = sum_list (map snd countable);
                top = max_by snd (hd countable) (tl countable) in
            warn_if (cast \<noteq> 0 \<and> snd top * 2 > cast \<and> fst top \<noteq> verdict) (Against_majority i (fst top)))
         else []
     | _ \<Rightarrow> [])"

definition check_orig_ids :: "triage_report \<Rightarrow> triage_problem flag list" where
  "check_orig_ids r =
     (let orig = List.map_filter (\<lambda>f. if truthy (tf_orig_id f) then tf_orig_id f else None) (tr_findings r);
          canonical = filter (\<lambda>o'. re_match REPORT_FINDING_ID o' \<noteq> None) orig in
      if orig \<noteq> [] \<and> 2 * length canonical \<ge> length orig
      then concat (map (\<lambda>o'. warn_if (re_match REPORT_FINDING_ID o' = None) (Orig_id_not_canonical o')) orig) else [])"

definition cross_validate_triage :: "triage_report \<Rightarrow> triage_problem flag list" where
  "cross_validate_triage r =
     map (\<lambda>fid. Fail (Duplicate_triage_id fid)) (repeated (map tf_id (tr_findings r)))
     @ check_totals (tr_summary r) Wrong_total (triage_totals r)
     @ check_by_severity r
     @ each (\<lambda>i f. check_rule_13 i f @ check_evidence i f @ check_duplicate (tr_findings r) i f @ check_votes i f)
         (tr_findings r)
     @ check_orig_ids r"

section \<open>Validation\<close>

record validation_report =
  va_verdicts :: "(string \<times> string) list"   \<comment> \<open>source id and verdict of each validated finding\<close>
  va_by_verdict :: "(string \<times> int) list"
  va_chains :: "(string \<times> string option list) list"
  va_novel :: "string list"
  va_log_ref :: "string option"

datatype validation_problem =
    Wrong_verdict_count string int
  | Unknown_in_chain string string
  | Novel_collides string
  | Log_not_found string

definition cross_validate_validation :: "(string \<Rightarrow> bool) \<Rightarrow> validation_report \<Rightarrow> validation_problem flag list" where
  "cross_validate_validation exists r =
     (let known = fst ` set (va_verdicts r) in
      concat (map (\<lambda>(v, n). fail_if (counter_get (map snd (va_verdicts r)) v \<noteq> n) (Wrong_verdict_count v n)) (va_by_verdict r))
      @ concat (map (\<lambda>(chain, steps). concat (map (\<lambda>ref. warn_if (truthy ref \<and> or_str ref [] \<notin> known)
          (Unknown_in_chain chain (or_str ref []))) steps)) (va_chains r))
      @ concat (map (\<lambda>fid. fail_if (fid \<in> known) (Novel_collides fid)) (va_novel r))
      @ warn_if (truthy (va_log_ref r) \<and> \<not> exists (or_str (va_log_ref r) [])) (Log_not_found (or_str (va_log_ref r) [])))"

section \<open>Vulnerability scans\<close>

record scan_finding =
  sf_id :: "string option"
  sf_severity :: "string option"
  sf_confidence :: "rat option"

record vuln_report =
  vu_findings :: "scan_finding list"
  vu_known :: nat
  vu_summary :: "string \<Rightarrow> int option"
  vu_version :: "string option"
  vu_scanned_at :: "string option"
  vu_slug :: "string option"
  vu_ref :: "string option"
  vu_coverage_diff :: bool
  vu_baseline :: bool
  vu_baseline_findings :: int
  vu_surfaces :: "coverage option"

datatype vuln_problem =
    Duplicate_scan_id "string option"
  | Foreign_id string
  | Wrong_scan_total string int
  | Known_without_baseline nat
  | Baseline_count_without_baseline
  | Scan_surface surface_problem

definition vuln_totals :: "vuln_report \<Rightarrow> (string \<times> int) list" where
  "vuln_totals r =
     (let sevs = map (\<lambda>f. lower (or_str (sf_severity f) [])) (vu_findings r) in
      [(''total'', int (length (vu_findings r)))]
      @ map (\<lambda>s. (s, counter_get sevs s)) [''critical'', ''high'', ''medium'', ''low'', ''informational'']
      @ [(''known'', int (vu_known r)),
         (''low_confidence'', int (length (filter (\<lambda>f. case sf_confidence f of None \<Rightarrow> False
             | Some c \<Rightarrow> c < 2 / 5) (vu_findings r))))])"

definition check_scan_ids :: "vuln_report \<Rightarrow> vuln_problem flag list" where
  "check_scan_ids r =
     (let slug = or_str (vu_slug r) []; ref = take 7 (or_str (vu_ref r) []); prefix = slug @ ''-'' @ ref @ ''-'' in
      if slug \<noteq> [] \<and> ref \<noteq> [] then
        concat (map (\<lambda>f. fail_if (truthy (sf_id f) \<and> \<not> startswith (or_str (sf_id f) []) prefix)
          (Foreign_id (or_str (sf_id f) []))) (vu_findings r))
      else [])"

definition cross_validate_vuln_findings :: "string list \<Rightarrow> vuln_report \<Rightarrow> vuln_problem flag list" where
  "cross_validate_vuln_findings surfaces r =
     map (map_flag Scan_surface) (cross_validate_scan_review_surfaces surfaces (vu_surfaces r) ''vuln-findings''
        (vu_version r) (vu_scanned_at r) (set (List.map_filter sf_id (vu_findings r))) (Some (vu_coverage_diff r)))
     @ map (\<lambda>fid. Fail (Duplicate_scan_id fid)) (repeated (map sf_id (vu_findings r)))
     @ check_scan_ids r
     @ check_totals (vu_summary r) Wrong_scan_total (vuln_totals r)
     @ (if vu_baseline r then []
        else fail_if (vu_known r \<noteq> 0) (Known_without_baseline (vu_known r))
          @ fail_if (vu_baseline_findings r \<noteq> 0) Baseline_count_without_baseline)"

section \<open>Remediation\<close>

record remediation_report =
  rm_source_findings :: "(string \<times> string option list) list"   \<comment> \<open>reference and location paths\<close>
  rm_files_changed :: "string list"
  rm_diffstat_files :: "int option"
  rm_diff_path :: "string option"
  rm_outcomes :: "string option list"
  rm_addressed :: "int option"
  rm_checks_passed :: "int option"
  rm_checks_total :: "int option"
  rm_status :: "string option"
  rm_revalidated_fixed :: bool
  rm_pull_request :: bool
  rm_pr_target :: "string option"
  rm_upstream :: "string option"
  rm_repository :: "string option"

datatype remediation_problem =
    Wrong_addressed int | Wrong_passed int | Wrong_checks int | Wrong_diffstat int
  | Location_untouched string
  | Passed_with_failures | Failed_without_failure | Fixed_unconfirmed | No_pull_request string
  | Other_upstream | Targets_upstream | Diff_not_found string

definition rstrip_slash :: "string \<Rightarrow> string" where
  "rstrip_slash s = removesuffix (rstrip_with (\<lambda>c. c = CHR ''/'') s) ''.git''"

definition check_remediation_status :: "remediation_report \<Rightarrow> remediation_problem flag list" where
  "check_remediation_status r =
     (let failed = length (filter (\<lambda>o'. o' = Some ''fail'') (rm_outcomes r)) in
      fail_if (rm_status r = Some ''checks_passed'' \<and> failed > 0) Passed_with_failures
      @ fail_if (rm_status r = Some ''checks_failed'' \<and> failed = 0) Failed_without_failure
      @ fail_if (rm_status r = Some ''revalidated_fixed'' \<and> \<not> rm_revalidated_fixed r) Fixed_unconfirmed
      @ fail_if (rm_status r \<in> {Some ''pr_opened'', Some ''merged''} \<and> \<not> rm_pull_request r)
          (No_pull_request (or_str (rm_status r) [])))"

definition cross_validate_remediation :: "(string \<Rightarrow> bool) \<Rightarrow> remediation_report \<Rightarrow> remediation_problem flag list" where
  "cross_validate_remediation exists r =
     (let n = int (length (rm_source_findings r)); total = int (length (rm_outcomes r));
          ok = int (length (filter (\<lambda>o'. o' = Some ''pass'') (rm_outcomes r)));
          files = int (length (rm_files_changed r)) in
      fail_if (rm_addressed r \<noteq> None \<and> rm_addressed r \<noteq> Some n) (Wrong_addressed n)
      @ fail_if (rm_checks_passed r \<noteq> Some ok) (Wrong_passed ok)
      @ fail_if (rm_checks_total r \<noteq> Some total) (Wrong_checks total)
      @ fail_if (rm_diffstat_files r \<noteq> Some files) (Wrong_diffstat files)
      @ concat (map (\<lambda>(ref, paths). concat (map (\<lambda>p. warn_if (p \<notin> Some ` set (rm_files_changed r))
          (Location_untouched ref)) paths)) (rm_source_findings r))
      @ check_remediation_status r
      @ warn_if (truthy (rm_upstream r) \<and> truthy (rm_repository r)
          \<and> rstrip_slash (or_str (rm_upstream r) []) \<noteq> rstrip_slash (or_str (rm_repository r) [])) Other_upstream
      @ warn_if (rm_pr_target r = Some ''upstream'') Targets_upstream
      @ warn_if (truthy (rm_diff_path r) \<and> \<not> exists (or_str (rm_diff_path r) [])) (Diff_not_found (or_str (rm_diff_path r) [])))"

section \<open>What an accepted triage guarantees\<close>

definition VERDICTS :: "string list" where
  "VERDICTS = [''true_positive'', ''hardening'', ''false_positive'', ''undetermined'', ''duplicate'']"

lemma passed_totals [simp]: "passed (check_totals summary p totals) \<longleftrightarrow> (\<forall>(key, n) \<in> set totals. summary key = Some n)"
  by (auto simp: check_totals_def)

lemma accepted_totals:
  assumes "passed (cross_validate_triage r)"
  shows "tr_summary r ''input_count'' = Some (int (length (tr_findings r)))"
    and "map (tr_summary r) [''true_positives'', ''hardening'', ''false_positives'', ''undetermined'', ''duplicates'']
      = map (\<lambda>v. Some (int (count_list (triage_verdicts r) (Some v)))) VERDICTS"
  using assms by (simp_all add: cross_validate_triage_def triage_totals_def counter_get VERDICTS_def)

lemma accepted_finding:
  assumes "passed (cross_validate_triage r)" and "f \<in> set (tr_findings r)"
  shows "passed (check_rule_13 0 f)" "passed (check_evidence 0 f)" "passed (check_duplicate (tr_findings r) 0 f)"
proof -
  from assms obtain i where i: "passed (check_rule_13 i f)" "passed (check_evidence i f)"
      "passed (check_duplicate (tr_findings r) i f)"
    by (auto simp: cross_validate_triage_def in_set_conv_nth)
  then show "passed (check_rule_13 0 f)" "passed (check_evidence 0 f)"
    by (simp_all add: check_rule_13_def check_evidence_def)
  from i(3) show "passed (check_duplicate (tr_findings r) 0 f)"
    by (auto simp: check_duplicate_def Let_def split: if_splits option.splits)
qed

text \<open>
  The summary of an accepted triage partitions its findings: with the triage_verdicts of the taxonomy the
  five declared counts add up to the declared input. Duplicates resolve in one step: what a duplicate
  names is the id of exactly one finding, and that one is no duplicate. No refutation is without a
  reason or rests on rule 13, every hardening does, and only a true positive has a severity.
\<close>

theorem accepted_triage_partitions:
  assumes "passed (cross_validate_triage r)" and "set (triage_verdicts r) \<subseteq> Some ` set VERDICTS"
  shows "sum_list (map (\<lambda>k. the (tr_summary r k))
        [''true_positives'', ''hardening'', ''false_positives'', ''undetermined'', ''duplicates''])
      = the (tr_summary r ''input_count'')
    \<and> (\<forall>f \<in> set (tr_findings r).
        (tf_verdict f = Some ''duplicate'' \<longrightarrow>
          (\<exists>!c. c \<in> set (tr_findings r) \<and> tf_id c = tf_duplicate_of f)
          \<and> (\<exists>c \<in> set (tr_findings r). tf_id c = tf_duplicate_of f \<and> tf_verdict c \<noteq> Some ''duplicate''))
      \<and> (tf_verdict f = Some ''false_positive'' \<longrightarrow> tf_refute_reasons f \<noteq> [] \<and> tf_rule f \<noteq> Some ''13'')
      \<and> (tf_verdict f = Some ''hardening'' \<longrightarrow> tf_rule f = Some ''13'')
      \<and> (tf_severity f \<noteq> None \<longrightarrow> tf_verdict f = Some ''true_positive''))"
proof (intro conjI ballI)
  note tot = accepted_totals [OF assms(1)]
  have "map (\<lambda>k. the (tr_summary r k)) [''true_positives'', ''hardening'', ''false_positives'', ''undetermined'', ''duplicates'']
      = map (\<lambda>v. int (count_list (triage_verdicts r) v)) (map Some VERDICTS)"
    using tot(2) by (simp add: VERDICTS_def)
  also have "sum_list \<dots> = int (length (filter (\<lambda>x. x \<in> set (map Some VERDICTS)) (triage_verdicts r)))"
    by (rule sum_counts) (simp add: VERDICTS_def)
  also have "filter (\<lambda>x. x \<in> set (map Some VERDICTS)) (triage_verdicts r) = triage_verdicts r"
    using assms(2) by (auto simp: filter_id_conv)
  finally show "sum_list (map (\<lambda>k. the (tr_summary r k))
        [''true_positives'', ''hardening'', ''false_positives'', ''undetermined'', ''duplicates''])
      = the (tr_summary r ''input_count'')"
    by (simp add: tot(1) triage_verdicts_def)
next
  fix f assume f: "f \<in> set (tr_findings r)"
  note p = accepted_finding [OF assms(1) f]
  have "distinct (map tf_id (tr_findings r))" using assms(1) by (simp add: cross_validate_triage_def)
  then have inj: "inj_on tf_id (set (tr_findings r))" by (simp add: distinct_map)
  show "tf_verdict f = Some ''duplicate'' \<longrightarrow>
      (\<exists>!c. c \<in> set (tr_findings r) \<and> tf_id c = tf_duplicate_of f)
      \<and> (\<exists>c \<in> set (tr_findings r). tf_id c = tf_duplicate_of f \<and> tf_verdict c \<noteq> Some ''duplicate'')"
  proof
    assume dup: "tf_verdict f = Some ''duplicate''"
    with p(3) obtain c where c: "find (\<lambda>x. tf_id x = tf_duplicate_of f) (tr_findings r) = Some c"
      and n: "tf_verdict c \<noteq> Some ''duplicate''"
      by (auto simp: check_duplicate_def Let_def truthy_iff split: option.splits if_splits)
    note c = find_Some_iff_in [OF c]
    have "x = c" if "x \<in> set (tr_findings r)" "tf_id x = tf_duplicate_of f" for x
      using inj_onD [OF inj, of x c] that c by simp
    with c n show "(\<exists>!c. c \<in> set (tr_findings r) \<and> tf_id c = tf_duplicate_of f)
      \<and> (\<exists>c \<in> set (tr_findings r). tf_id c = tf_duplicate_of f \<and> tf_verdict c \<noteq> Some ''duplicate'')"
      by blast
  qed
  show "tf_verdict f = Some ''hardening'' \<longrightarrow> tf_rule f = Some ''13''"
    and "tf_verdict f = Some ''false_positive'' \<longrightarrow> tf_refute_reasons f \<noteq> [] \<and> tf_rule f \<noteq> Some ''13''"
    and "tf_severity f \<noteq> None \<longrightarrow> tf_verdict f = Some ''true_positive''"
    using p by (auto simp: check_rule_13_def check_evidence_def)
qed

definition demo_triage_finding :: "string \<Rightarrow> string \<Rightarrow> string option \<Rightarrow> triage_finding" where
  "demo_triage_finding fid verdict dup = \<lparr>tf_id = Some fid, tf_verdict = Some verdict, tf_severity = None, tf_rule = None,
     tf_refute_reasons = [], tf_confidence = None, tf_verify_verdict = None, tf_duplicate_of = dup, tf_votes = None,
     tf_orig_id = None\<rparr>"

definition demo_triage :: triage_report where
  "demo_triage = \<lparr>tr_findings = [demo_triage_finding ''a'' ''true_positive'' None, demo_triage_finding ''b'' ''duplicate'' (Some ''a'')],
     tr_summary = (\<lambda>k. if k = ''input_count'' then Some 2 else if k \<in> {''true_positives'', ''duplicates''} then Some 1 else Some 0),
     tr_by_severity = []\<rparr>"

lemma demo_triage_passes: "passed (cross_validate_triage demo_triage)"
  by code_simp

theorem accepted_triage_partitions_witness:
  "\<exists>!c. c \<in> set (tr_findings demo_triage) \<and> tf_id c = Some ''a''"
  using accepted_triage_partitions [OF demo_triage_passes]
  by (simp add: demo_triage_def demo_triage_finding_def triage_verdicts_def VERDICTS_def)

end
