(* ===== verification/Applicability.thy ===== *)
theory Applicability
  imports Osv_Ranges
begin

text \<open>
  \<open>applicability/candidates.py\<close>, \<open>matching.py\<close> and the patch reader of \<open>fixes.py\<close>: which
  installed versions an advisory's ranges leave out although they may carry the vulnerable code,
  and how much of a fix's patch is present in the installed tree. The tree is an argument: which
  relative paths are files, and their text. Choosing and fetching a fix is left out.
\<close>

section \<open>Candidates\<close>

record adv_entry = affected_entry +
  listed_versions :: "string list"

record advisory =
  adv_id :: "string option"
  adv_aliases :: "string list"
  adv_affected :: "adv_entry list"

datatype candidate_kind = BELOW_RANGE | GAP

record candidate =
  c_ecosystem :: string
  c_package :: string
  c_version :: string
  c_advisory :: string
  c_kind :: candidate_kind
  c_stated_start :: string
  c_major_distance :: "int option"
  c_aliases :: "string list"

text \<open>\<open>re.sub(r"[-_.]+", "-", name)\<close>: every run of separators becomes one dash.\<close>

fun collapse_seps :: "bool \<Rightarrow> string \<Rightarrow> string" where
  "collapse_seps inside [] = []"
| "collapse_seps inside (c # cs) =
     (if c \<in> {CHR ''-'', CHR ''_'', CHR ''.''} then
        (if inside then collapse_seps True cs else CHR ''-'' # collapse_seps True cs)
      else c # collapse_seps False cs)"

definition normalize :: "string \<Rightarrow> string \<Rightarrow> string" where
  "normalize ecosystem name =
     (if ecosystem = ''PyPI'' then lower (collapse_seps False name)
      else if ecosystem = ''NuGet'' then lower name
      else name)"

definition view_entries :: "advisory \<Rightarrow> string \<Rightarrow> string \<Rightarrow> adv_entry list" where
  "view_entries adv ecosystem name =
     map (\<lambda>a. a\<lparr>pkg_name := Some name\<rparr>)
       (filter (\<lambda>a. pkg_ecosystem a = Some ecosystem
          \<and> normalize ecosystem (or_str (pkg_name a) []) = normalize ecosystem name) (adv_affected adv))"

definition listed :: "adv_entry list \<Rightarrow> string \<Rightarrow> string \<Rightarrow> string \<Rightarrow> bool" where
  "listed aff name ecosystem version \<longleftrightarrow> list_ex (\<lambda>a. pkg_name a = Some name
     \<and> pkg_ecosystem a = Some ecosystem \<and> version \<in> set (listed_versions a)) aff"

text \<open>The start of every span with its key, or \<open>None\<close> when one cannot be ordered.\<close>

fun start_keys :: "(string \<Rightarrow> nat list option) \<Rightarrow> span list \<Rightarrow> (nat list \<times> span) list option" where
  "start_keys key [] = Some []"
| "start_keys key (s # ss) =
     (case (if introduced_in s = ''0'' then Some [] else key (introduced_in s)) of
        None \<Rightarrow> None
      | Some k \<Rightarrow> map_option (\<lambda>r. (k, s) # r) (start_keys key ss))"

fun min_start :: "nat list \<times> span \<Rightarrow> (nat list \<times> span) list \<Rightarrow> nat list \<times> span" where
  "min_start m [] = m"
| "min_start m (x # xs) = min_start (if fst x < fst m then x else m) xs"

text \<open>Python's truth values: no fix, an empty one, and no end are alike.\<close>

definition open_ends :: "(string \<Rightarrow> nat list option) \<Rightarrow> span list \<Rightarrow> nat list list" where
  "open_ends key ss = List.map_filter (\<lambda>s. if truthy (last_affected s) \<and> \<not> truthy (fixed_in s)
     then key (or_str (last_affected s) []) else None) ss"

definition fixed_ends :: "(string \<Rightarrow> nat list option) \<Rightarrow> span list \<Rightarrow> nat list list" where
  "fixed_ends key ss = List.map_filter (\<lambda>s. if truthy (fixed_in s)
     then key (or_str (fixed_in s) []) else None) ss"

definition distance :: "nat list \<Rightarrow> nat list \<Rightarrow> int option" where
  "distance k cur = (case (k, cur) of (a # _, b # _) \<Rightarrow> Some (int a - int b) | _ \<Rightarrow> None)"

definition gap_after :: "nat list list \<Rightarrow> nat list list \<Rightarrow> nat list \<Rightarrow> bool" where
  "gap_after opens fixeds cur =
     (let below = filter (\<lambda>e. e \<le> cur) (opens @ fixeds) in
      below \<noteq> [] \<and> Max (set below) \<in> set opens \<and> Max (set below) \<notin> set fixeds)"

definition pick_candidate :: "(string \<Rightarrow> nat list option) \<Rightarrow> span list \<Rightarrow> nat list
    \<Rightarrow> (candidate_kind \<times> string \<times> int option) option" where
  "pick_candidate key ss cur =
     (case start_keys key ss of
        None \<Rightarrow> None
      | Some [] \<Rightarrow> None
      | Some (x # xs) \<Rightarrow>
          (let (lowest_key, lowest) = min_start x xs in
           if introduced_in lowest \<noteq> ''0'' \<and> cur < lowest_key
           then Some (BELOW_RANGE, introduced_in lowest, distance lowest_key cur)
           else (case filter (\<lambda>ks. cur < fst ks) (sort_key fst (x # xs)) of
               [] \<Rightarrow> None
             | (k, s) # _ \<Rightarrow>
                 if gap_after (open_ends key ss) (fixed_ends key ss) cur
                 then Some (GAP, introduced_in s, distance k cur) else None)))"

definition classify :: "advisory \<Rightarrow> string \<Rightarrow> string \<Rightarrow> string \<Rightarrow> candidate option" where
  "classify adv ecosystem name version =
     (let aff = view_entries adv ecosystem name;
          plain = map affected_entry.truncate aff;
          ss = spans plain name (Some ecosystem) False in
      if listed aff name ecosystem version then None
      else (case version_key (Some version) (Some ecosystem) of
          None \<Rightarrow> None
        | Some cur \<Rightarrow>
            if ss = [] then None
            else if containing_span plain name (Some ecosystem) (Some version) False \<noteq> None then None
            else map_option (\<lambda>(kind, start, dist). \<lparr>c_ecosystem = ecosystem, c_package = name,
                c_version = version, c_advisory = (case adv_id adv of None \<Rightarrow> ''None'' | Some i \<Rightarrow> i),
                c_kind = kind, c_stated_start = start, c_major_distance = dist,
                c_aliases = adv_aliases adv\<rparr>)
              (pick_candidate (eco_key (Some ecosystem)) ss cur)))"

section \<open>What a candidate is\<close>

text \<open>Every span starts above the version.\<close>

definition below_all :: "(string \<Rightarrow> nat list option) \<Rightarrow> span list \<Rightarrow> nat list \<Rightarrow> bool" where
  "below_all key ss cur \<longleftrightarrow>
     (\<forall>s \<in> set ss. introduced_in s \<noteq> ''0'' \<and> (\<exists>k. key (introduced_in s) = Some k \<and> cur < k))"

text \<open>\<open>st\<close> is the nearest start above the version.\<close>

definition next_start :: "(string \<Rightarrow> nat list option) \<Rightarrow> span list \<Rightarrow> nat list \<Rightarrow> string \<Rightarrow> bool" where
  "next_start key ss cur st \<longleftrightarrow> st \<noteq> ''0'' \<and> (\<exists>s \<in> set ss. introduced_in s = st)
     \<and> (\<exists>k. key st = Some k \<and> cur < k
         \<and> (\<forall>s \<in> set ss. \<forall>k'. introduced_in s \<noteq> ''0'' \<longrightarrow> key (introduced_in s) = Some k' \<longrightarrow> cur < k' \<longrightarrow> k \<le> k'))"

text \<open>Some span without a fix ended at or before the version, and no fix came in between.\<close>

definition unfixed_before :: "(string \<Rightarrow> nat list option) \<Rightarrow> span list \<Rightarrow> nat list \<Rightarrow> bool" where
  "unfixed_before key ss cur \<longleftrightarrow> (\<exists>s \<in> set ss. \<exists>l e. last_affected s = Some l \<and> \<not> truthy (fixed_in s)
     \<and> key l = Some e \<and> e \<le> cur
     \<and> (\<forall>s' \<in> set ss. \<forall>f h. fixed_in s' = Some f \<longrightarrow> f \<noteq> [] \<longrightarrow> key f = Some h \<longrightarrow> h \<le> cur \<longrightarrow> h < e))"

lemma start_keys_Some:
  "start_keys key ss = Some xs \<Longrightarrow> map snd xs = ss
     \<and> (\<forall>x \<in> set xs. if introduced_in (snd x) = ''0'' then fst x = [] else key (introduced_in (snd x)) = Some (fst x))"
  by (induction ss arbitrary: xs) (auto split: option.splits if_splits)

lemma min_start_in: "min_start m xs \<in> set (m # xs)"
  by (induction xs arbitrary: m) (auto split: if_splits)

lemma min_start_le: "x \<in> set (m # xs) \<Longrightarrow> fst (min_start m xs) \<le> fst x"
proof (induction xs arbitrary: m x)
  case (Cons y ys)
  let ?m = "if fst y < fst m then y else m"
  have "fst (min_start ?m ys) \<le> fst ?m" by (rule Cons.IH) simp
  moreover have "fst ?m \<le> fst m" "fst ?m \<le> fst y" by auto
  ultimately show ?case using Cons.IH [of x ?m] Cons.prems by auto
qed simp

lemma gap_after_unfixed:
  assumes "gap_after (open_ends key ss) (fixed_ends key ss) cur"
  shows "unfixed_before key ss cur"
proof -
  let ?below = "filter (\<lambda>e. e \<le> cur) (open_ends key ss @ fixed_ends key ss)"
  define e where "e = Max (set ?below)"
  have e: "e \<in> set (open_ends key ss)" "e \<notin> set (fixed_ends key ss)" and ne: "set ?below \<noteq> {}"
    using assms unfolding gap_after_def Let_def e_def set_empty by blast+
  have "e \<in> set ?below" unfolding e_def by (rule Max_in [OF finite_set ne])
  then have le: "e \<le> cur" by (simp only: set_filter mem_Collect_eq)
  from e(1) obtain s l where s: "s \<in> set ss" "last_affected s = Some l" "\<not> truthy (fixed_in s)" "key l = Some e"
    by (auto simp: open_ends_def in_map_filter truthy_iff split: if_splits)
  have "h < e" if f: "s' \<in> set ss" "fixed_in s' = Some f" "f \<noteq> []" "key f = Some h" "h \<le> cur" for s' f h
  proof -
    have h: "h \<in> set (fixed_ends key ss)"
      using f by (auto simp: fixed_ends_def in_map_filter intro!: bexI [of _ s'])
    then have "h \<in> set ?below" using f(5) by simp
    then have "h \<le> e" unfolding e_def by (rule Max_ge [OF finite_set])
    with h e(2) show ?thesis by (cases "h = e") auto
  qed
  with s le show ?thesis unfolding unfixed_before_def by blast
qed

lemma next_startI:
  assumes xs: "start_keys key ss = Some xs" and ks: "(k, s) \<in> set xs" "introduced_in s \<noteq> ''0''" "cur < k"
    and least: "\<And>y. y \<in> set xs \<Longrightarrow> cur < fst y \<Longrightarrow> k \<le> fst y"
  shows "next_start key ss cur (introduced_in s)"
proof -
  note sk = start_keys_Some [OF xs]
  have ss: "set ss = snd ` set xs" using sk by (metis list.set_map)
  have key: "key (introduced_in (snd y)) = Some (fst y)" if "y \<in> set xs" "introduced_in (snd y) \<noteq> ''0''" for y
    using sk [THEN conjunct2, rule_format, OF that(1)] that(2) by simp
  show ?thesis
    unfolding next_start_def ss
  proof (intro conjI exI [of _ k] ballI allI impI)
    show "\<exists>s' \<in> snd ` set xs. introduced_in s' = introduced_in s" using ks(1) by force
    show "key (introduced_in s) = Some k" using key [OF ks(1)] ks(2) by simp
    fix s' k' assume "s' \<in> snd ` set xs" "introduced_in s' \<noteq> ''0''" "key (introduced_in s') = Some k'" "cur < k'"
    then obtain y where "y \<in> set xs" "fst y = k'" using key by force
    with least \<open>cur < k'\<close> show "k \<le> k'" by blast
  qed (use ks in simp_all)
qed

lemma below_allI:
  assumes xs: "start_keys key ss = Some xs" and above: "\<And>y. y \<in> set xs \<Longrightarrow> cur < fst y"
  shows "below_all key ss cur"
proof -
  note sk = start_keys_Some [OF xs]
  have "introduced_in (snd y) \<noteq> ''0'' \<and> key (introduced_in (snd y)) = Some (fst y)" if "y \<in> set xs" for y
    using sk [THEN conjunct2, rule_format, OF that] above [OF that] by (auto split: if_splits)
  moreover have "set ss = snd ` set xs" using sk by (metis list.set_map)
  ultimately show ?thesis using above by (auto simp: below_all_def)
qed

lemma hd_above_least:
  assumes "filter (\<lambda>ks. cur < fst ks) (sort_key fst xs) = (k, s) # rest"
  shows "(k, s) \<in> set xs \<and> cur < (k :: 'a :: linorder) \<and> (\<forall>y \<in> set xs. cur < fst y \<longrightarrow> k \<le> fst y)"
proof -
  have "(k, s) \<in> set (filter (\<lambda>ks. cur < fst ks) (sort_key fst xs))" unfolding assms by simp
  then have "(k, s) \<in> set xs" "cur < k" by simp_all
  moreover have "sorted (map fst (filter (\<lambda>ks. cur < fst ks) (sort_key fst xs)))"
    by (simp add: sorted_filter)
  moreover have "y \<in> set ((k, s) # rest)" if "y \<in> set xs" "cur < fst y" for y
    unfolding assms [symmetric] using that by simp
  ultimately show ?thesis unfolding assms by force
qed

lemma pick_candidate_sound:
  assumes "pick_candidate key ss cur = Some (kind, start, dist)"
  shows "next_start key ss cur start
    \<and> (kind = BELOW_RANGE \<and> below_all key ss cur \<or> kind = GAP \<and> unfixed_before key ss cur)"
proof -
  obtain x xs where xs: "start_keys key ss = Some (x # xs)"
    using assms by (auto simp: pick_candidate_def split: option.splits list.splits)
  obtain lk lo where lo: "min_start x xs = (lk, lo)" by (cases "min_start x xs")
  have lo_in: "(lk, lo) \<in> set (x # xs)" using min_start_in [of x xs] lo by simp
  have lo_le: "lk \<le> fst y" if "y \<in> set (x # xs)" for y using min_start_le [OF that] lo by simp
  show ?thesis
  proof (cases "introduced_in lo \<noteq> ''0'' \<and> cur < lk")
    case True
    then have r: "kind = BELOW_RANGE" "start = introduced_in lo"
      using assms xs lo by (simp_all add: pick_candidate_def)
    have "next_start key ss cur (introduced_in lo)"
      by (rule next_startI [OF xs lo_in]) (use True lo_le in blast)+
    moreover have "below_all key ss cur"
      by (rule below_allI [OF xs]) (use True lo_le in \<open>metis order_less_le_trans\<close>)
    ultimately show ?thesis using r by simp
  next
    case False
    obtain k s rest where f: "filter (\<lambda>ks. cur < fst ks) (sort_key fst (x # xs)) = (k, s) # rest"
      and g: "gap_after (open_ends key ss) (fixed_ends key ss) cur" and r: "kind = GAP" "start = introduced_in s"
      using assms xs lo False
      by (auto simp: pick_candidate_def split: list.splits if_splits)
    note hd = hd_above_least [OF f]
    have "introduced_in s \<noteq> ''0''" using start_keys_Some [OF xs] hd by fastforce
    then have "next_start key ss cur (introduced_in s)"
      using hd by (intro next_startI [OF xs]) blast+
    with gap_after_unfixed [OF g] r show ?thesis by simp
  qed
qed

text \<open>
  A candidate is a version that the advisory leaves out. It is in none of the package's affected
  spans and in no explicit list of versions; the start it states is the nearest one above it; and
  either every span starts above it, or the last end at or before it is that of a span left without
  a fix, with no fix at or after that end.
\<close>

theorem candidate_left_out:
  assumes "classify adv ecosystem name version = Some c"
  shows "let aff = view_entries adv ecosystem name;
      ss = spans (map affected_entry.truncate aff) name (Some ecosystem) False;
      key = eco_key (Some ecosystem) in
    \<exists>cur. version_key (Some version) (Some ecosystem) = Some cur
      \<and> \<not> listed aff name ecosystem version \<and> unaffected key ss cur
      \<and> next_start key ss cur (c_stated_start c)
      \<and> (c_kind c = BELOW_RANGE \<and> below_all key ss cur \<or> c_kind c = GAP \<and> unfixed_before key ss cur)"
proof -
  let ?aff = "view_entries adv ecosystem name"
  let ?ss = "spans (map affected_entry.truncate ?aff) name (Some ecosystem) False"
  obtain cur kind start dist where cur: "version_key (Some version) (Some ecosystem) = Some cur"
    and "\<not> listed ?aff name ecosystem version"
    and out: "containing_span (map affected_entry.truncate ?aff) name (Some ecosystem) (Some version) False = None"
    and p: "pick_candidate (eco_key (Some ecosystem)) ?ss cur = Some (kind, start, dist)"
    and c: "c_kind c = kind" "c_stated_start c = start"
    using assms by (auto simp: classify_def Let_def split: option.splits if_splits)
  moreover have "unaffected (eco_key (Some ecosystem)) ?ss cur"
    using out cur
    by (auto simp: containing_span_def unaffected_def find_None_iff_ball eco_keys.contains_True_iff)
  ultimately show ?thesis
    using pick_candidate_sound [OF p] unfolding Let_def by blast
qed

text \<open>
  An advisory whose first line ended at 1.0 without a fix, with a further span whose own end cannot
  be ordered, and a third from 3.0 on.
\<close>

definition ranged :: "string \<Rightarrow> event \<Rightarrow> adv_entry" where
  "ranged start stop = \<lparr>pkg_name = Some ''Pkg'', pkg_ecosystem = Some ''PyPI'', ranges =
     [\<lparr>rng_type = Some ''ECOSYSTEM'', events =
        [\<lparr>introduced = Some start, fixed_at = None, last_affected_at = None\<rparr>, stop]\<rparr>], listed_versions = []\<rparr>"

definition demo_advisory :: advisory where
  "demo_advisory = \<lparr>adv_id = Some ''A-1'', adv_aliases = [], adv_affected =
     [ranged ''0'' \<lparr>introduced = None, fixed_at = None, last_affected_at = Some ''1.0''\<rparr>,
      ranged ''1.5'' \<lparr>introduced = None, fixed_at = Some ''next'', last_affected_at = None\<rparr>,
      ranged ''3.0'' \<lparr>introduced = None, fixed_at = Some ''3.1'', last_affected_at = None\<rparr>]\<rparr>"

definition demo_candidate :: candidate where
  "demo_candidate = \<lparr>c_ecosystem = ''PyPI'', c_package = ''pkg'', c_version = ''1.2'', c_advisory = ''A-1'',
     c_kind = GAP, c_stated_start = ''1.5'', c_major_distance = Some 0, c_aliases = []\<rparr>"

lemma demo_classified: "classify demo_advisory ''PyPI'' ''pkg'' ''1.2'' = Some demo_candidate"
  by code_simp

theorem candidate_left_out_witness:
  "\<exists>cur. version_key (Some ''1.2'') (Some ''PyPI'') = Some cur
     \<and> next_start (eco_key (Some ''PyPI''))
         (spans (map affected_entry.truncate (view_entries demo_advisory ''PyPI'' ''pkg'')) ''pkg'' (Some ''PyPI'') False)
         cur ''1.5''"
  using candidate_left_out [OF demo_classified] unfolding Let_def
  by (auto simp: demo_candidate_def)

text \<open>
  A version at or above a start whose end cannot be ordered is a candidate too, although whether that
  span covers it cannot be decided.
\<close>

lemma undecided_version_is_candidate:
  "map_option c_kind (classify demo_advisory ''PyPI'' ''pkg'' ''2.0'') = Some GAP
   \<and> covers (map affected_entry.truncate (view_entries demo_advisory ''PyPI'' ''pkg'')) ''pkg''
       (Some ''PyPI'') (Some ''2.0'') = None"
  by code_simp

end
