(* ===== verification/Advisory.thy ===== *)
theory Advisory
  imports Applicability
begin

text \<open>
  \<open>impact/advisory.py\<close>: the advisory an impact analysis runs against, as the fetched OSV records
  state it. The client of the OSV service and the files the caller names are arguments: what
  \<open>get_vulns\<close> and \<open>query_batch\<close> answer, and what a file holds. Identifiers are compared in upper
  case, which for the ASCII identifiers of advisories is \<open>upper_ascii\<close> on every character.
\<close>

section \<open>The resolved advisory\<close>

record resolved_advisory =
  ra_records :: "advisory list"
  ra_sources :: "string list"
  ra_module :: string
  ra_ecosystem :: string
  ra_verified :: "string list"

datatype advisory_error =
    No_ecosystem string
  | Unreadable_file string
  | Other_advisory "string option"
  | Unanswered "string list"
  | No_record string
  | Names_no_version
  | No_verdict "string list"
  | Missing_id

definition OSV_ECOSYSTEM :: "(string \<times> string) list" where
  "OSV_ECOSYSTEM = [(''npm'', ''npm''), (''pypi'', ''PyPI''), (''maven'', ''Maven''),
     (''cargo'', ''crates.io''), (''ruby'', ''RubyGems''), (''nuget'', ''NuGet''), (''go'', ''Go''),
     (''actions'', ''GitHub Actions'')]"

definition plain_entries :: "advisory \<Rightarrow> vuln" where
  "plain_entries r = map affected_entry.truncate (adv_affected r)"

text \<open>\<open>_spans\<close>: by the exact name first, without regard to case when that gives none.\<close>

definition record_spans :: "resolved_advisory \<Rightarrow> advisory \<Rightarrow> span list" where
  "record_spans a r =
     (case spans (plain_entries r) (ra_module a) (Some (ra_ecosystem a)) False of
        [] \<Rightarrow> spans (plain_entries r) (ra_module a) (Some (ra_ecosystem a)) True
      | ss \<Rightarrow> ss)"

definition advisory_spans :: "resolved_advisory \<Rightarrow> span list" where
  "advisory_spans a = concat (map (record_spans a) (ra_records a))"

definition record_name :: "resolved_advisory \<Rightarrow> advisory \<Rightarrow> string" where
  "record_name a r =
     (case find (\<lambda>n. lower n = lower (ra_module a)) (map (\<lambda>e. or_str (pkg_name e) []) (adv_affected r)) of
        Some n \<Rightarrow> n
      | None \<Rightarrow> ra_module a)"

definition verified_key :: "resolved_advisory \<Rightarrow> string option \<Rightarrow> bool" where
  "verified_key a v \<longleftrightarrow> version_key v (Some (ra_ecosystem a)) \<noteq> None \<and>
     list_ex (\<lambda>w. version_key (Some w) (Some (ra_ecosystem a)) = version_key v (Some (ra_ecosystem a)))
       (ra_verified a)"

definition verdicts :: "resolved_advisory \<Rightarrow> string option \<Rightarrow> bool option list" where
  "verdicts a v = map (\<lambda>r. covers (plain_entries r) (record_name a r) (Some (ra_ecosystem a)) v) (ra_records a)"

definition in_range :: "resolved_advisory \<Rightarrow> string option \<Rightarrow> bool option" where
  "in_range a v =
     (if verified_key a v then Some True
      else if Some True \<in> set (verdicts a v) then Some True
      else if None \<in> set (verdicts a v) then None else Some False)"

section \<open>The range and the fix as text\<close>

definition span_text :: "span \<Rightarrow> string" where
  "span_text s =
     (let low = (if introduced_in s = ''0'' then [] else ''>='' @ introduced_in s);
          high = (if truthy (fixed_in s) then ''<'' @ or_str (fixed_in s) []
            else if truthy (last_affected s) then ''<='' @ or_str (last_affected s) [] else []);
          text = join '' '' (filter (\<lambda>p. p \<noteq> []) [low, high])
      in if text = [] then ''*'' else text)"

definition vulnerable_range :: "resolved_advisory \<Rightarrow> string" where
  "vulnerable_range a = join '' || '' (fromkeys (map span_text (advisory_spans a)
     @ map (\<lambda>v. ''='' @ v @ '' (verified)'') (ra_verified a)))"

definition fixed_version :: "resolved_advisory \<Rightarrow> string option" where
  "fixed_version a =
     (case List.map_filter (\<lambda>s. if truthy (fixed_in s) then fixed_in s else None) (advisory_spans a) of
        [] \<Rightarrow> None
      | f # fs \<Rightarrow> Some (max_by (\<lambda>f. case version_key (Some f) (Some (ra_ecosystem a)) of
           None \<Rightarrow> [] | Some k \<Rightarrow> k) f fs))"

section \<open>Versions verified by review\<close>

record verdict_row =
  v_verdict :: "string option"
  v_advisory :: "string option"
  v_aliases :: "string list"
  v_ecosystem :: "string option"
  v_package :: "string option"
  v_version :: "string option"

definition upper_str :: "string \<Rightarrow> string" where
  "upper_str = map upper_ascii"

definition record_names :: "advisory \<Rightarrow> string list" where
  "record_names r = map upper_str (filter (\<lambda>x. x \<noteq> []) (or_str (adv_id r) [] # adv_aliases r))"

definition row_names :: "verdict_row \<Rightarrow> string list" where
  "row_names row = map upper_str (filter (\<lambda>x. x \<noteq> []) (or_str (v_advisory row) [] # v_aliases row))"

definition eco_names :: "resolved_advisory \<Rightarrow> string list" where
  "eco_names a = lower (ra_ecosystem a)
     # map fst (filter (\<lambda>(k, v). v = ra_ecosystem a) OSV_ECOSYSTEM)"

text \<open>\<open>str\<close> of an absent key is the empty text or \<open>None\<close>, as the default given to \<open>get\<close> says.\<close>

definition row_applies :: "resolved_advisory \<Rightarrow> string \<Rightarrow> verdict_row \<Rightarrow> bool" where
  "row_applies a version row \<longleftrightarrow>
     v_verdict row = Some ''applicable''
     \<and> lower (case v_ecosystem row of None \<Rightarrow> [] | Some e \<Rightarrow> e) \<in> set (eco_names a)
     \<and> normalize (ra_ecosystem a) (case v_package row of None \<Rightarrow> [] | Some p \<Rightarrow> p)
         = normalize (ra_ecosystem a) (ra_module a)
     \<and> (case v_version row of None \<Rightarrow> ''None'' | Some v \<Rightarrow> v) = version
     \<and> (\<exists>n \<in> set (row_names row). \<exists>r \<in> set (ra_records a). n \<in> set (record_names r))"

definition with_verified ::
  "resolved_advisory \<Rightarrow> string list \<Rightarrow> string \<Rightarrow> verdict_row list option \<Rightarrow> advisory_error + resolved_advisory" where
  "with_verified a versions uri file =
     (case file of
        None \<Rightarrow> Inl (Unreadable_file uri)
      | Some rows \<Rightarrow>
          (case filter (\<lambda>v. \<not> list_ex (row_applies a v) rows) versions of
             [] \<Rightarrow> Inr (a\<lparr>ra_verified := fromkeys versions, ra_sources := ra_sources a @ [uri]\<rparr>)
           | missing \<Rightarrow> Inl (No_verdict missing)))"

section \<open>Fetching\<close>

record osv_client =
  base_url :: string
  get_vulns :: "string list \<Rightarrow> (string \<times> advisory) list"
  query_ids :: "string \<Rightarrow> string \<Rightarrow> string list option \<times> string list"

definition wanted :: "string \<Rightarrow> advisory \<Rightarrow> bool" where
  "wanted advisory_id r \<longleftrightarrow> upper_str advisory_id \<in> set (record_names r)"

text \<open>\<open>records += [r for r in fetched if r not in records]\<close>: compared with the records before.\<close>

definition fetch_records :: "osv_client \<Rightarrow> string \<Rightarrow> string \<Rightarrow> string \<Rightarrow> advisory_error + advisory list" where
  "fetch_records client advisory_id module osv_eco =
     (let direct = map snd (get_vulns client [advisory_id]) in
      if advisory_spans \<lparr>ra_records = direct, ra_sources = [], ra_module = module,
           ra_ecosystem = osv_eco, ra_verified = []\<rparr> \<noteq> [] then Inr direct
      else (case query_ids client osv_eco module of
          (None, issues) \<Rightarrow> Inl (Unanswered (if issues = [] then [''unanswered''] else sort issues))
        | (Some ids, _) \<Rightarrow> Inr (direct
            @ filter (\<lambda>r. wanted advisory_id r \<and> r \<notin> set direct) (map snd (get_vulns client ids)))))"

definition fetched ::
  "osv_client \<Rightarrow> string \<Rightarrow> string \<Rightarrow> string \<Rightarrow> advisory_error + resolved_advisory" where
  "fetched client advisory_id module osv_eco =
     bind_res (fetch_records client advisory_id module osv_eco) (\<lambda>records.
       if records = [] then Inl (No_record advisory_id)
       else let sorted_records = sort_key (\<lambda>r. or_str (adv_id r) []) records in
         if list_ex (\<lambda>r. adv_id r = None) sorted_records then Inl Missing_id
         else Inr \<lparr>ra_records = sorted_records,
           ra_sources = map (\<lambda>r. base_url client @ ''/vulns/'' @ or_str (adv_id r) []) sorted_records,
           ra_module = module, ra_ecosystem = osv_eco, ra_verified = []\<rparr>)"

definition supplied ::
  "string \<times> advisory option \<Rightarrow> string \<Rightarrow> string \<Rightarrow> string \<Rightarrow> advisory_error + resolved_advisory" where
  "supplied file advisory_id module osv_eco =
     (case file of
        (uri, None) \<Rightarrow> Inl (Unreadable_file uri)
      | (uri, Some r) \<Rightarrow>
          if wanted advisory_id r
          then Inr \<lparr>ra_records = [r], ra_sources = [uri], ra_module = module, ra_ecosystem = osv_eco,
             ra_verified = []\<rparr>
          else Inl (Other_advisory (adv_id r)))"

definition resolve_advisory ::
  "osv_client \<Rightarrow> (string \<times> advisory option) option \<Rightarrow> string \<Rightarrow> string \<Rightarrow> string
     \<Rightarrow> advisory_error + resolved_advisory" where
  "resolve_advisory client file advisory_id module ecosystem =
     (case map_of OSV_ECOSYSTEM ecosystem of
        None \<Rightarrow> Inl (No_ecosystem ecosystem)
      | Some osv_eco \<Rightarrow>
          bind_res (case file of
              Some f \<Rightarrow> supplied f advisory_id module osv_eco
            | None \<Rightarrow> fetched client advisory_id module osv_eco)
            (\<lambda>found. if advisory_spans found = [] then Inl Names_no_version else Inr found))"


section \<open>Lemmas\<close>

abbreviation ra_key :: "resolved_advisory \<Rightarrow> string \<Rightarrow> nat list option" where
  "ra_key a \<equiv> eco_key (Some (ra_ecosystem a))"

definition holds_version :: "resolved_advisory \<Rightarrow> advisory \<Rightarrow> nat list \<Rightarrow> bool" where
  "holds_version a r k \<longleftrightarrow>
     (\<exists>s \<in> set (spans (plain_entries r) (record_name a r) (Some (ra_ecosystem a)) False). in_span (ra_key a) s k)"

definition rules_out :: "resolved_advisory \<Rightarrow> advisory \<Rightarrow> nat list \<Rightarrow> bool" where
  "rules_out a r k \<longleftrightarrow>
     (\<forall>s \<in> set (spans (plain_entries r) (record_name a r) (Some (ra_ecosystem a)) False).
        contains (ra_key a) s k = Some False)"

lemma verdict_yes:
  "Some True \<in> set (verdicts a v) \<longleftrightarrow>
     (\<exists>k. version_key v (Some (ra_ecosystem a)) = Some k \<and> (\<exists>r \<in> set (ra_records a). holds_version a r k))"
  by (cases "version_key v (Some (ra_ecosystem a))")
    (auto simp: verdicts_def covers_def holds_version_def eco_keys.covers_loop_True image_iff eq_commute [of "Some True"])

lemma verdicts_no:
  "set (verdicts a v) \<subseteq> {Some False} \<longleftrightarrow> ra_records a = [] \<or>
     (\<exists>k. version_key v (Some (ra_ecosystem a)) = Some k \<and> (\<forall>r \<in> set (ra_records a). rules_out a r k))"
  by (cases "version_key v (Some (ra_ecosystem a))"; cases "ra_records a")
    (auto simp: verdicts_def covers_def rules_out_def eco_keys.covers_loop_False list_all_iff)

lemma in_range_True:
  "in_range a v = Some True \<longleftrightarrow> verified_key a v \<or>
     (\<exists>k. version_key v (Some (ra_ecosystem a)) = Some k \<and> (\<exists>r \<in> set (ra_records a). holds_version a r k))"
  by (simp add: in_range_def flip: verdict_yes)

lemma in_range_False:
  "in_range a v = Some False \<longleftrightarrow> \<not> verified_key a v \<and> set (verdicts a v) \<subseteq> {Some False}"
proof -
  have x: "x = Some False \<longleftrightarrow> x \<noteq> None \<and> x \<noteq> Some True" for x :: "bool option" by (cases x) auto
  then have "set (verdicts a v) \<subseteq> {Some False} \<longleftrightarrow> None \<notin> set (verdicts a v) \<and> Some True \<notin> set (verdicts a v)"
    by (simp only: subset_iff singleton_iff x) metis
  then show ?thesis by (auto simp: in_range_def)
qed

lemma resolve_records: "resolve_advisory client file i m e = Inr a \<Longrightarrow> ra_records a \<noteq> []"
  by (auto simp: resolve_advisory_def advisory_spans_def split: option.splits if_splits)

lemma with_verified_rows:
  assumes "with_verified a vs uri file = Inr b"
  shows "b = a\<lparr>ra_verified := fromkeys vs, ra_sources := ra_sources a @ [uri]\<rparr>"
    and "\<exists>rows. file = Some rows \<and> (\<forall>v \<in> set vs. \<exists>row \<in> set rows. row_applies a v row)"
  using assms by (auto simp: with_verified_def filter_empty_conv list_ex_iff split: option.splits list.splits)


section \<open>Properties\<close>

text \<open>
  What the analysis counts as affected has its evidence in the sources: after an advisory was
  resolved, with or without versions verified by review, a version is in range exactly when a span
  of one of the records holds it, or an applicable verdict row of the reviewed file names this
  package, this advisory and a version with the same key; and it is out of range only when its key
  and every bound that decides are ordered and every record's spans leave it out.
\<close>

theorem affected_version_evidenced:
  assumes "resolve_advisory client file advisory_id module ecosystem = Inr a"
    and "b = a \<and> vs = [] \<or> with_verified a vs uri (Some rows) = Inr b"
  shows "(in_range b v = Some True \<longleftrightarrow> (\<exists>k. version_key v (Some (ra_ecosystem b)) = Some k \<and>
        ((\<exists>r \<in> set (ra_records b). holds_version b r k) \<or>
         (\<exists>w \<in> set vs. ra_key b w = Some k \<and> (\<exists>row \<in> set rows. row_applies a w row)))))
    \<and> (in_range b v = Some False \<longleftrightarrow> (\<exists>k. version_key v (Some (ra_ecosystem b)) = Some k \<and>
        (\<forall>w \<in> set vs. ra_key b w \<noteq> Some k) \<and> (\<forall>r \<in> set (ra_records b). rules_out b r k)))"
proof -
  have new: "ra_verified a = []"
    using assms(1) by (auto simp: resolve_advisory_def supplied_def fetched_def Let_def
        split: option.splits prod.splits if_splits)
  have recs: "ra_records b \<noteq> []"
    using assms(2) resolve_records [OF assms(1)] by (auto dest: with_verified_rows(1))
  have b: "set (ra_verified b) = set vs \<and> (\<forall>w \<in> set vs. \<exists>row \<in> set rows. row_applies a w row)"
    using assms(2)
  proof
    assume w: "with_verified a vs uri (Some rows) = Inr b"
    show ?thesis using with_verified_rows [OF w] by simp
  qed (simp add: new)
  have key: "verified_key b v \<longleftrightarrow> (\<exists>k. version_key v (Some (ra_ecosystem b)) = Some k \<and>
      (\<exists>w \<in> set vs. ra_key b w = Some k \<and> (\<exists>row \<in> set rows. row_applies a w row)))"
    using b by (auto simp: verified_key_def list_ex_iff)
  show ?thesis
    using b recs by (auto simp: in_range_True key in_range_False verdicts_no)
qed


text \<open>A record affected from 1.4 to 1.9, and a review that found 1.2 affected as well.\<close>

definition demo_record :: advisory where
  "demo_record = \<lparr>adv_id = Some ''GHSA-1'', adv_aliases = [''CVE-1''],
     adv_affected = [ranged ''1.4'' \<lparr>introduced = None, fixed_at = Some ''1.9'', last_affected_at = None\<rparr>]\<rparr>"

definition demo_client :: osv_client where
  "demo_client = \<lparr>base_url = ''osv'', get_vulns = \<lambda>ids. if ids = [''GHSA-1''] then [(''GHSA-1'', demo_record)] else [],
     query_ids = \<lambda>e m. (Some [''GHSA-1''], [])\<rparr>"

definition demo_row :: verdict_row where
  "demo_row = \<lparr>v_verdict = Some ''applicable'', v_advisory = Some ''ghsa-1'', v_aliases = [],
     v_ecosystem = Some ''PyPI'', v_package = Some ''Pkg'', v_version = Some ''1.2''\<rparr>"

definition demo_resolved :: resolved_advisory where
  "demo_resolved = \<lparr>ra_records = [demo_record], ra_sources = [''osv/vulns/GHSA-1''], ra_module = ''pkg'',
     ra_ecosystem = ''PyPI'', ra_verified = []\<rparr>"

definition demo_verified :: resolved_advisory where
  "demo_verified = demo_resolved\<lparr>ra_verified := [''1.2''], ra_sources := [''osv/vulns/GHSA-1'', ''file:v.json'']\<rparr>"

lemma demo_resolves: "resolve_advisory demo_client None ''CVE-1'' ''pkg'' ''pypi'' = Inr demo_resolved"
  by code_simp

lemma demo_verifies: "with_verified demo_resolved [''1.2''] ''file:v.json'' (Some [demo_row]) = Inr demo_verified"
  by code_simp


lemma demo_evidence:
  "row_applies demo_resolved ''1.2'' demo_row"
  "version_key (Some ''1.2.0'') (Some (ra_ecosystem demo_verified)) = ra_key demo_verified ''1.2''"
  "ra_key demo_verified ''1.2'' \<noteq> None"
  by code_simp+

theorem affected_version_evidenced_witness: "in_range demo_verified (Some ''1.2.0'') = Some True"
proof -
  have "demo_verified = demo_resolved \<and> [''1.2''] = []
      \<or> with_verified demo_resolved [''1.2''] ''file:v.json'' (Some [demo_row]) = Inr demo_verified"
    using demo_verifies by blast
  from affected_version_evidenced [OF demo_resolves this, of "Some ''1.2.0''"] show ?thesis
    using demo_evidence by auto
qed

end
