(* ===== verification/Govulncheck.thy ===== *)
theory Govulncheck
  imports Prelude
begin

text \<open>
  \<open>adapters/govulncheck.py\<close>: the records of a govulncheck run reduced to one candidate per OSV
  entry. The records are what \<open>iter_records\<close> decodes, with the keys this code reads; decoding the
  JSON stream, the scan result built from the candidates and the command line are left out.
\<close>

section \<open>Records and candidates\<close>

record frame =
  fr_function :: "string option"
  fr_receiver :: "string option"
  fr_package :: "string option"
  fr_module :: "string option"
  fr_version :: "string option"
  fr_position :: "(string \<times> string) option"

datatype gv_record =
    Config
  | Osv "string option" "string list"
  | Finding "string option" "frame list" "string option"
  | Other_record

record gv_candidate =
  gc_osv :: string
  gc_reachability :: string
  gc_module :: "string option"
  gc_found :: "string option"
  gc_fixed :: "string option"
  gc_packages :: "string list"
  gc_trace :: "string list"
  gc_aliases :: "string list"

definition REACH_ORDER :: "string list" where
  "REACH_ORDER = [''module_required_not_observed'', ''package_imported_not_observed'', ''symbol_reachable'']"

text \<open>\<open>REACH_ORDER.index(level)\<close>\<close>

definition reach_rank :: "string \<Rightarrow> nat" where
  "reach_rank s = length (takeWhile (\<lambda>x. x \<noteq> s) REACH_ORDER)"

definition first_frame :: "frame list \<Rightarrow> frame" where
  "first_frame trace = (case trace of [] \<Rightarrow> \<lparr>fr_function = None, fr_receiver = None, fr_package = None,
     fr_module = None, fr_version = None, fr_position = None\<rparr> | f # _ \<Rightarrow> f)"

definition finding_level :: "frame list \<Rightarrow> string" where
  "finding_level trace =
     (if truthy (fr_function (first_frame trace)) then ''symbol_reachable''
      else if truthy (fr_package (first_frame trace)) then ''package_imported_not_observed''
      else ''module_required_not_observed'')"

definition frame_text :: "frame \<Rightarrow> string" where
  "frame_text f =
     (let fn = or_str (fr_function f) [];
          name = (if truthy (fr_receiver f) then or_str (fr_receiver f) [] @ ''.'' @ fn else fn);
          loc = (case fr_position f of Some (file, line) \<Rightarrow>
             if file = [] then [] else '' ('' @ file @ '':'' @ line @ '')'' | None \<Rightarrow> [])
      in if truthy (fr_package f) then or_str (fr_package f) [] @ ''.'' @ name @ loc else name @ loc)"

definition trace_symbols :: "frame list \<Rightarrow> string list" where
  "trace_symbols trace = map frame_text (filter (\<lambda>f. truthy (fr_function f)) (rev trace))"

section \<open>The reduction\<close>

definition new_candidate :: "string \<Rightarrow> frame list \<Rightarrow> string option \<Rightarrow> gv_candidate" where
  "new_candidate osv_id trace fixed =
     \<lparr>gc_osv = osv_id, gc_reachability = finding_level trace, gc_module = fr_module (first_frame trace),
      gc_found = fr_version (first_frame trace), gc_fixed = fixed, gc_packages = [], gc_trace = [],
      gc_aliases = []\<rparr>"

definition raise_level :: "frame list \<Rightarrow> gv_candidate \<Rightarrow> gv_candidate" where
  "raise_level trace c =
     (if reach_rank (gc_reachability c) < reach_rank (finding_level trace)
      then c\<lparr>gc_reachability := finding_level trace\<rparr> else c)"

definition add_package :: "frame list \<Rightarrow> gv_candidate \<Rightarrow> gv_candidate" where
  "add_package trace c =
     (case fr_package (first_frame trace) of
        None \<Rightarrow> c
      | Some p \<Rightarrow> if p = [] \<or> p \<in> set (gc_packages c) then c
          else c\<lparr>gc_packages := gc_packages c @ [p]\<rparr>)"

definition shorter_trace :: "frame list \<Rightarrow> gv_candidate \<Rightarrow> gv_candidate" where
  "shorter_trace trace c =
     (let symbols = trace_symbols trace in
      if finding_level trace = ''symbol_reachable'' \<and> symbols \<noteq> []
         \<and> (gc_trace c = [] \<or> length symbols < length (gc_trace c))
      then c\<lparr>gc_trace := symbols\<rparr> else c)"

definition add_finding :: "string \<Rightarrow> frame list \<Rightarrow> string option \<Rightarrow> gv_candidate option \<Rightarrow> gv_candidate" where
  "add_finding osv_id trace fixed old =
     shorter_trace trace (add_package trace (raise_level trace
       (case old of None \<Rightarrow> new_candidate osv_id trace fixed | Some c \<Rightarrow> c)))"

text \<open>The findings that count: a finding without an OSV id is skipped.\<close>

definition counted :: "gv_record \<Rightarrow> (string \<times> frame list \<times> string option) option" where
  "counted r = (case r of Finding (Some i) trace fixed \<Rightarrow> if i = [] then None else Some (i, trace, fixed) | _ \<Rightarrow> None)"

definition gv_candidates :: "gv_record list \<Rightarrow> (string \<times> gv_candidate) list" where
  "gv_candidates recs =
     tally map_of AList.update fst (\<lambda>(i, trace, fixed). add_finding i trace fixed) (List.map_filter counted recs) []"

definition osv_aliases :: "gv_record list \<Rightarrow> (string option \<times> string list) list" where
  "osv_aliases recs = fold (\<lambda>r m. case r of Osv i as \<Rightarrow> AList.update i as m | _ \<Rightarrow> m) recs []"

definition with_aliases :: "gv_record list \<Rightarrow> string \<times> gv_candidate \<Rightarrow> gv_candidate" where
  "with_aliases recs kc = (snd kc)\<lparr>gc_aliases :=
     (case map_of (osv_aliases recs) (Some (fst kc)) of None \<Rightarrow> [] | Some as \<Rightarrow> as)\<rparr>"

definition parse_stream :: "gv_record list \<Rightarrow> bool \<times> gv_candidate list" where
  "parse_stream recs =
     (Config \<in> set recs,
      sort_key (\<lambda>c. (2 - reach_rank (gc_reachability c), gc_osv c))
        (map (with_aliases recs) (gv_candidates recs)))"

section \<open>Lemmas\<close>

definition findings_of :: "gv_record list \<Rightarrow> string \<Rightarrow> frame list list" where
  "findings_of recs i = map (fst \<circ> snd) (filter (\<lambda>x. fst x = i) (List.map_filter counted recs))"

lemma reach_rank_levels [simp]:
  "reach_rank ''module_required_not_observed'' = 0" "reach_rank ''package_imported_not_observed'' = 1"
  "reach_rank ''symbol_reachable'' = 2"
  by (simp_all add: reach_rank_def REACH_ORDER_def)

lemma finding_level_cases:
  "finding_level t \<in> {''module_required_not_observed'', ''package_imported_not_observed'', ''symbol_reachable''}"
  by (simp add: finding_level_def)

lemma rank_inject:
  "s \<in> set REACH_ORDER \<Longrightarrow> t \<in> set REACH_ORDER \<Longrightarrow> reach_rank s = reach_rank t \<longleftrightarrow> s = t"
  by (auto simp: REACH_ORDER_def)

lemma add_finding_fields:
  "gc_osv (add_finding i t x old) = (case old of None \<Rightarrow> i | Some c \<Rightarrow> gc_osv c)"
  "gc_module (add_finding i t x old) = (case old of None \<Rightarrow> fr_module (first_frame t) | Some c \<Rightarrow> gc_module c)"
  "reach_rank (gc_reachability (add_finding i t x old))
     = max (case old of None \<Rightarrow> 0 | Some c \<Rightarrow> reach_rank (gc_reachability c)) (reach_rank (finding_level t))"
  by (auto simp: add_finding_def shorter_trace_def add_package_def raise_level_def new_candidate_def Let_def max_def
      split: option.splits)


abbreviation finding_step :: "string \<times> frame list \<times> string option \<Rightarrow> gv_candidate option \<Rightarrow> gv_candidate" where
  "finding_step x old \<equiv> (case x of (i, trace, fixed) \<Rightarrow> add_finding i trace fixed old)"

text \<open>What a candidate says of the findings behind it, oldest first.\<close>

definition strongest_of :: "gv_candidate \<Rightarrow> frame list list \<Rightarrow> bool" where
  "strongest_of c ts \<longleftrightarrow> (\<exists>t \<in> set ts. gc_reachability c = finding_level t)
     \<and> (\<forall>t \<in> set ts. reach_rank (finding_level t) \<le> reach_rank (gc_reachability c))
     \<and> gc_module c = fr_module (first_frame (hd ts))"

lemma reachability_of_add:
  "gc_reachability (add_finding i t x old) \<in>
     (case old of None \<Rightarrow> {finding_level t} | Some c \<Rightarrow> {gc_reachability c, finding_level t})"
  by (auto simp: add_finding_def shorter_trace_def add_package_def raise_level_def new_candidate_def Let_def
      split: option.splits)

lemma strongest_step:
  assumes "strongest_of c ts" and "ts \<noteq> []"
  shows "strongest_of (add_finding i t x (Some c)) (ts @ [t])"
  using assms reachability_of_add [of i t x "Some c"]
  by (auto simp: strongest_of_def add_finding_fields max_def intro: order_trans)

lemma strongest_fold:
  "strongest_of c ts \<Longrightarrow> ts \<noteq> [] \<Longrightarrow> \<exists>c'. fold (\<lambda>x v. Some (finding_step x v)) xs (Some c) = Some c'
     \<and> gc_osv c' = gc_osv c \<and> strongest_of c' (ts @ map (fst \<circ> snd) xs)"
proof (induction xs arbitrary: c ts)
  case (Cons x xs)
  obtain i t y where x: "x = (i, t, y)" by (cases x)
  from Cons.IH [OF strongest_step [OF Cons.prems, of i t y]] show ?case
    by (auto simp: x add_finding_fields)
qed simp

lemma candidate_lookup:
  assumes "map_of (gv_candidates recs) i = Some c"
  shows "findings_of recs i \<noteq> [] \<and> gc_osv c = i \<and> strongest_of c (findings_of recs i)"
proof -
  let ?xs = "filter (\<lambda>x. fst x = i) (List.map_filter counted recs)"
  have look: "fold (\<lambda>x v. Some (finding_step x v)) ?xs None = Some c"
    using assms by (simp add: gv_candidates_def alist_dict.look_tally case_prod_unfold)
  then obtain x xs where xs: "?xs = x # xs" by (cases ?xs) auto
  obtain t y where x: "x = (i, t, y)"
    using xs by (cases x) (auto dest: filter_eq_ConsD)
  have "strongest_of (add_finding i t y None) [t]"
    using reachability_of_add [of i t y None] by (simp add: strongest_of_def add_finding_fields)
  from strongest_fold [OF this, of xs] look xs x show ?thesis
    by (auto simp: findings_of_def add_finding_fields)
qed

lemma candidate_exists: "findings_of recs i \<noteq> [] \<Longrightarrow> \<exists>c. map_of (gv_candidates recs) i = Some c"
proof -
  assume "findings_of recs i \<noteq> []"
  then obtain x xs where xs: "filter (\<lambda>x. fst x = i) (List.map_filter counted recs) = x # xs"
    by (auto simp: findings_of_def neq_Nil_conv)
  have "\<exists>c. fold (\<lambda>x v. Some (finding_step x v)) ys (Some c0) = Some c" for ys c0
    by (induction ys arbitrary: c0) auto
  then show ?thesis
    using xs by (simp add: gv_candidates_def alist_dict.look_tally case_prod_unfold)
qed

lemma distinct_candidates: "distinct (map fst (gv_candidates recs))"
  by (simp add: gv_candidates_def distinct_keys_tally)

lemma parse_stream_set:
  "set (snd (parse_stream recs)) = with_aliases recs ` set (gv_candidates recs)"
  by (simp add: parse_stream_def)

lemma in_parse_stream:
  "c \<in> set (snd (parse_stream recs)) \<longleftrightarrow>
     (\<exists>i c0. map_of (gv_candidates recs) i = Some c0 \<and> c = with_aliases recs (i, c0))"
  using distinct_candidates [of recs] by (auto simp: parse_stream_set image_iff)

lemma parse_stream_strongest:
  "c \<in> set (snd (parse_stream recs)) \<Longrightarrow> strongest_of c (findings_of recs (gc_osv c))"
  using candidate_lookup [of recs] by (auto simp: in_parse_stream with_aliases_def strongest_of_def)

lemma level_rank: "reach_rank (finding_level t) \<le> 2"
  by (simp add: finding_level_def)

section \<open>Properties\<close>

text \<open>
  A govulncheck run is reduced without loss of its strongest evidence: the candidates are of
  distinct OSV entries, an entry has one exactly when some finding names it, its reachability is that of
  one of its findings and no finding's is stronger, and the list is ordered strongest first.
\<close>

theorem strongest_evidence_kept:
  "distinct (map gc_osv (snd (parse_stream recs)))
   \<and> gc_osv ` set (snd (parse_stream recs)) = {i. findings_of recs i \<noteq> []}
   \<and> list_all (\<lambda>c. strongest_of c (findings_of recs (gc_osv c))) (snd (parse_stream recs))
   \<and> sorted_wrt (\<lambda>c d. reach_rank (gc_reachability d) \<le> reach_rank (gc_reachability c)) (snd (parse_stream recs))"
proof (intro conjI)
  have osv: "gc_osv (with_aliases recs kc) = fst kc" if "kc \<in> set (gv_candidates recs)" for kc
    using that candidate_lookup [of recs "fst kc" "snd kc"] distinct_candidates [of recs]
    by (simp add: with_aliases_def)
  then have keys: "map gc_osv (map (with_aliases recs) (gv_candidates recs)) = map fst (gv_candidates recs)" by simp
  have "distinct (map gc_osv (map (with_aliases recs) (gv_candidates recs)))"
    unfolding keys by (rule distinct_candidates)
  then show "distinct (map gc_osv (snd (parse_stream recs)))"
    by (simp add: parse_stream_def distinct_map del: map_map)
  show "gc_osv ` set (snd (parse_stream recs)) = {i. findings_of recs i \<noteq> []}"
  proof -
    have "gc_osv ` set (snd (parse_stream recs)) = fst ` set (gv_candidates recs)"
      using osv by (simp add: parse_stream_set image_image)
    also have "\<dots> = dom (map_of (gv_candidates recs))" by (rule dom_map_of_conv_image_fst [symmetric])
    also have "\<dots> = {i. findings_of recs i \<noteq> []}"
      using candidate_lookup [of recs] candidate_exists [of recs] by blast
    finally show ?thesis .
  qed
  show "list_all (\<lambda>c. strongest_of c (findings_of recs (gc_osv c))) (snd (parse_stream recs))"
    by (simp add: list_all_iff parse_stream_strongest)
  let ?key = "\<lambda>c. (2 - reach_rank (gc_reachability c), gc_osv c)"
  have "sorted (map ?key (snd (parse_stream recs)))"
    by (simp add: parse_stream_def)
  then have "sorted_wrt (\<lambda>c d. ?key c \<le> ?key d) (snd (parse_stream recs))"
    by (simp only: sorted_map)
  moreover have "reach_rank (gc_reachability d) \<le> reach_rank (gc_reachability c)"
    if "d \<in> set (snd (parse_stream recs))" and "?key c \<le> ?key d" for c d
  proof -
    have "reach_rank (gc_reachability d) \<le> 2"
      using parse_stream_strongest [OF that(1)] level_rank by (auto simp: strongest_of_def)
    with that(2) show ?thesis by (auto simp: less_eq_prod_def)
  qed
  ultimately show "sorted_wrt (\<lambda>c d. reach_rank (gc_reachability d) \<le> reach_rank (gc_reachability c))
      (snd (parse_stream recs))"
    by (rule sorted_wrt_mono_rel [rotated]) blast
qed

end
