(* ===== verification/Impact_Evidence.thy ===== *)
theory Impact_Evidence
  imports Advisory Govulncheck Elf Py_Json
begin

text \<open>
  \<open>impact/analyzer.py\<close>, the evidence of one repository and its classification. The states of the
  evidence are the strings the code writes; a field that is absent is \<open>None\<close>. The tiers that fill it
  are in \<open>Impact_Tiers\<close>.
\<close>

section \<open>The range as text\<close>

text \<open>\<open>(<=|>=|<|>)\s*([^\s,<>=]+)\<close>\<close>

definition RANGE_BOUND_RX :: rx where
  "RANGE_BOUND_RX = seq [Grp 1 (alts [lit ''<='', lit ''>='', lit ''<'', lit ''>'']), star (Cls is_space),
     Grp 2 (plus (Cls (\<lambda>c. \<not> is_space c \<and> none_of '',<>='' c)))]"

definition bound_holds :: "nat list \<Rightarrow> string \<Rightarrow> nat list \<Rightarrow> bool" where
  "bound_holds ver op bound =
     (if op = ''<'' then ver < bound else if op = ''<='' then ver \<le> bound
      else if op = ''>='' then bound \<le> ver else bound < ver)"

definition constraints :: "nat list \<Rightarrow> string \<Rightarrow> string option \<Rightarrow> string \<Rightarrow> bool list" where
  "constraints ver spec fixed ecosystem =
     (case (if truthy fixed then parse_version fixed ecosystem else None) of None \<Rightarrow> [] | Some fix_key \<Rightarrow> [ver < fix_key])
     @ List.map_filter (\<lambda>m. map_option (bound_holds ver (or_str (m_group 1 m) []))
          (parse_version (m_group 2 m) ecosystem)) (re_finditer RANGE_BOUND_RX spec)"

definition version_in_range :: "string \<Rightarrow> string \<Rightarrow> string option \<Rightarrow> string \<Rightarrow> bool option" where
  "version_in_range version spec fixed ecosystem =
     (case parse_version (Some version) ecosystem of
        None \<Rightarrow> None
      | Some ver \<Rightarrow> (case constraints ver spec fixed ecosystem of
          [] \<Rightarrow> None | cs \<Rightarrow> Some (list_all (\<lambda>c. c) cs)))"

record analysis_context =
  cx_cve :: string
  cx_module :: string
  cx_packages :: "string list"
  cx_symbols :: "string list"
  cx_range :: string
  cx_fixed :: "string option"
  cx_ecosystem :: string
  cx_advisory :: "resolved_advisory option"

definition cx_in_range :: "analysis_context \<Rightarrow> string option \<Rightarrow> bool option" where
  "cx_in_range cx version = (case cx_advisory cx of
       Some a \<Rightarrow> in_range a version
     | None \<Rightarrow> version_in_range (or_str version []) (cx_range cx) (cx_fixed cx) (cx_ecosystem cx))"

section \<open>Evidence\<close>

record repo_evidence =
  ev_l1_version_in_range :: "bool option"
  ev_l4_package_imported :: "bool option"
  ev_l4_packages_found :: "string list option"
  ev_govulncheck :: "string option"
  ev_govulncheck_trace :: "string list option"
  ev_feature_matches :: "nat option"
  ev_binary_string_scan :: "string option"
  ev_manifest_scan :: "string option"
  ev_manifest_version :: "string option"
  ev_source_import_scan :: "string option"
  ev_symbol_usage_scan :: "string option"
  ev_binary_linked_library :: "string option"
  ev_binary_symbol_scan :: "string option"
  ev_sbom_scan :: "string option"
  ev_sbom_version :: "string option"
  ev_joern :: "string option"
  ev_joern_witness :: "string option"
  ev_level :: "string option"
  ev_manual :: bool
  ev_notes :: "string option"

definition no_evidence :: repo_evidence where
  "no_evidence = \<lparr>ev_l1_version_in_range = None, ev_l4_package_imported = None, ev_l4_packages_found = None,
     ev_govulncheck = None, ev_govulncheck_trace = None, ev_feature_matches = None, ev_binary_string_scan = None,
     ev_manifest_scan = None, ev_manifest_version = None, ev_source_import_scan = None, ev_symbol_usage_scan = None,
     ev_binary_linked_library = None, ev_binary_symbol_scan = None, ev_sbom_scan = None, ev_sbom_version = None,
     ev_joern = None, ev_joern_witness = None, ev_level = None, ev_manual = False, ev_notes = None\<rparr>"

definition add_note :: "string \<Rightarrow> repo_evidence \<Rightarrow> repo_evidence" where
  "add_note t ev = ev\<lparr>ev_notes := Some (or_str (ev_notes ev) [] @ t)\<rparr>"

section \<open>Classification\<close>

definition govulncheck_negative :: "repo_evidence \<Rightarrow> bool" where
  "govulncheck_negative ev \<longleftrightarrow>
     ev_govulncheck ev \<in> {Some ''package_imported_not_observed'', Some ''module_required_not_observed''}"

definition feature_match :: "repo_evidence \<Rightarrow> bool" where
  "feature_match ev \<longleftrightarrow> (case ev_feature_matches ev of None \<Rightarrow> False | Some n \<Rightarrow> 0 < n)"

definition import_seen :: "bool \<Rightarrow> repo_evidence \<Rightarrow> bool" where
  "import_seen go ev \<longleftrightarrow> ev_source_import_scan ev = Some ''imports_found''
     \<or> \<not> go \<and> ev_l4_package_imported ev = Some True"

text \<open>The part after the Go package tier: the ecosystems without reachability tooling.\<close>

definition classify_manifest :: "bool \<Rightarrow> repo_evidence \<Rightarrow> string" where
  "classify_manifest go ev =
     (if ev_symbol_usage_scan ev = Some ''symbols_used'' then ''likely_affected''
      else if ev_manifest_scan ev = Some ''module_pinned_out_of_range'' then ''version_not_in_range''
      else if ev_manifest_scan ev = Some ''module_pinned_in_range'' then ''likely_affected''
      else if ev_binary_linked_library ev = Some ''linked'' then ''likely_affected''
      else if ev_manifest_scan ev = Some ''module_not_in_manifests'' \<and> \<not> import_seen go ev then ''not_observed''
      else if ev_binary_linked_library ev = Some ''not_linked'' \<and> \<not> import_seen go ev then ''not_observed''
      else if import_seen go ev then ''likely_affected''
      else ''inconclusive'')"

definition classify_evidence :: "repo_evidence \<Rightarrow> string \<Rightarrow> string" where
  "classify_evidence ev ecosystem =
     (let go = (ecosystem = ''go'') in
      if ev_l1_version_in_range ev = Some False then ''version_not_in_range''
      else if ev_govulncheck ev = Some ''symbol_reachable'' then ''affected''
      else if ev_joern ev = Some ''vulnerable_symbol_called'' then ''affected''
      else if feature_match ev then (if govulncheck_negative ev then ''likely_affected'' else ''affected'')
      else if govulncheck_negative ev then ''not_observed''
      else if ev_binary_string_scan ev = Some ''package_path_absent'' then ''not_observed''
      else if go \<and> ev_l4_package_imported ev = Some False then ''not_observed''
      else if ev_binary_string_scan ev = Some ''package_path_present'' \<and> ev_l4_package_imported ev \<noteq> Some False
        then ''likely_affected''
      else if go \<and> ev_l4_package_imported ev = Some True then
        (if ev_govulncheck ev = None \<and> ev_feature_matches ev = None then ''likely_affected'' else ''not_observed'')
      else classify_manifest go ev)"

section \<open>What a classification rests on\<close>

definition CLASSES :: "string list" where
  "CLASSES = [''affected'', ''likely_affected'', ''not_observed'', ''version_not_in_range'', ''inconclusive'']"

lemma classify_in_classes: "classify_evidence ev ecosystem \<in> set CLASSES"
  by (simp add: classify_evidence_def classify_manifest_def CLASSES_def Let_def)

text \<open>Reachability was shown: by govulncheck, by a resolved call, or by a feature pattern nothing contradicts.\<close>

definition reached :: "repo_evidence \<Rightarrow> bool" where
  "reached ev \<longleftrightarrow> ev_govulncheck ev = Some ''symbol_reachable'' \<or> ev_joern ev = Some ''vulnerable_symbol_called''
     \<or> feature_match ev \<and> \<not> govulncheck_negative ev"

lemma classify_manifest_not_affected: "classify_manifest go ev \<noteq> ''affected''"
  by (simp add: classify_manifest_def)

lemma classify_affected_iff:
  "classify_evidence ev ecosystem = ''affected'' \<longleftrightarrow> ev_l1_version_in_range ev \<noteq> Some False \<and> reached ev"
  by (auto simp: classify_evidence_def reached_def classify_manifest_not_affected Let_def govulncheck_negative_def)

lemma classify_out_of_range:
  "classify_evidence ev ecosystem = ''version_not_in_range'' \<Longrightarrow>
     ev_l1_version_in_range ev = Some False \<or> ev_manifest_scan ev = Some ''module_pinned_out_of_range''"
  by (auto simp: classify_evidence_def classify_manifest_def Let_def split: if_splits)

text \<open>What speaks against the vulnerable code being there.\<close>

definition absence_shown :: "string \<Rightarrow> repo_evidence \<Rightarrow> bool" where
  "absence_shown ecosystem ev \<longleftrightarrow> govulncheck_negative ev
     \<or> ev_binary_string_scan ev = Some ''package_path_absent''
     \<or> ecosystem = ''go'' \<and> ev_l4_package_imported ev = Some False
     \<or> ecosystem = ''go'' \<and> (ev_govulncheck ev \<noteq> None \<or> ev_feature_matches ev \<noteq> None)
     \<or> ev_manifest_scan ev = Some ''module_not_in_manifests''
     \<or> ev_binary_linked_library ev = Some ''not_linked''"

lemma classify_not_observed:
  "classify_evidence ev ecosystem = ''not_observed'' \<Longrightarrow> \<not> reached ev \<and> absence_shown ecosystem ev"
  by (auto simp: classify_evidence_def classify_manifest_def reached_def absence_shown_def Let_def
      govulncheck_negative_def split: if_splits)

end
