(* ===== verification/Py_Text.thy ===== *)
theory Py_Text
  imports Py_Regex
begin

text \<open>
  Replacing in texts: \<open>str.replace\<close> and \<open>re.sub\<close> with a constant, and what is known of a text after it.
\<close>

section \<open>Parts of a text\<close>

text \<open>\<open>s.rpartition(c)[2]\<close> and \<open>s.rpartition(c)[0]\<close>\<close>

definition after_last :: "char \<Rightarrow> string \<Rightarrow> string" where
  "after_last c s = rev (takeWhile (\<lambda>x. x \<noteq> c) (rev s))"

definition before_last :: "char \<Rightarrow> string \<Rightarrow> string" where
  "before_last c s = rev (drop 1 (dropWhile (\<lambda>x. x \<noteq> c) (rev s)))"

definition lstrip_set :: "string \<Rightarrow> string \<Rightarrow> string" where
  "lstrip_set cs s = dropWhile (\<lambda>c. c \<in> set cs) s"

text \<open>\<open>path.rpartition("node_modules/")[2]\<close>\<close>

fun after_node_modules :: "string \<Rightarrow> string" where
  "after_node_modules [] = []"
| "after_node_modules (c # cs) =
     (if occurs_in ''node_modules/'' cs then after_node_modules cs
      else removeprefix (c # cs) ''node_modules/'')"

definition strip_set :: "string \<Rightarrow> string \<Rightarrow> string" where
  "strip_set cs s = rstrip_with (\<lambda>c. c \<in> set cs) (lstrip_set cs s)"

text \<open>\<open>p.suffix\<close>: from the last dot, when something stands before and after it.\<close>

definition path_suffix :: "string \<Rightarrow> string" where
  "path_suffix name = (let ext = after_last CHR ''.'' name in
     if CHR ''.'' \<in> set name \<and> ext \<noteq> [] \<and> before_last CHR ''.'' name \<noteq> [] then CHR ''.'' # ext else [])"

section \<open>Common patterns\<close>

definition quote_class :: rx where
  "quote_class = Cls (one_of [CHR 0x22, CHR 0x27])"

definition not_quotes :: rx where
  "not_quotes = plus (Cls (none_of [CHR 0x22, CHR 0x27]))"

definition dq :: rx where "dq = lit [CHR 0x22]"

definition sp :: rx where "sp = star (Cls is_space)"

definition not_dq :: rx where "not_dq = plus (Cls (none_of [CHR 0x22]))"

section \<open>Replacing a text\<close>

text \<open>\<open>s.replace(v, w)\<close> for a nonempty \<open>v\<close>.\<close>

function replace_all :: "string \<Rightarrow> string \<Rightarrow> string \<Rightarrow> string" where
  "replace_all v w [] = []"
| "replace_all v w (c # cs) = (if v \<noteq> [] \<and> startswith (c # cs) v then w @ replace_all v w (drop (length v) (c # cs))
     else c # replace_all v w cs)"
  by pat_completeness auto
termination
  by (relation "measure (\<lambda>(v, w, s). length s)") (auto simp: neq_Nil_conv less_Suc_eq_le)

lemma replace_all_match: "v \<noteq> [] \<Longrightarrow> replace_all v w (v @ s) = w @ replace_all v w s"
  by (cases v) (simp_all add: startswith_def)

lemma replace_all_skip: "\<not> startswith (c # s) v \<Longrightarrow> replace_all v w (c # s) = c # replace_all v w s"
  by simp

lemma replace_all_pass: "set p \<inter> {c} = {} \<Longrightarrow> replace_all (c # v) w (p @ s) = p @ replace_all (c # v) w s"
  by (induction p) (auto simp: startswith_def)

lemma replace_char: "replace_all [c] w s = concat (map (\<lambda>x. if x = c then w else [x]) s)"
  by (induction s) (auto simp: startswith_def)

lemma replace_induct [case_names Nil Match Skip]:
  assumes "P []" and "\<And>s. v \<noteq> [] \<Longrightarrow> P s \<Longrightarrow> P (v @ s)" and "\<And>c s. \<not> (v \<noteq> [] \<and> startswith (c # s) v) \<Longrightarrow> P s \<Longrightarrow> P (c # s)"
  shows "P s"
proof (induction s rule: length_induct)
  case (1 s)
  show ?case
  proof (cases s)
    case Nil
    then show ?thesis using assms(1) by simp
  next
    case (Cons c s')
    show ?thesis
    proof (cases "v \<noteq> [] \<and> startswith s v")
      case True
      then obtain r where "s = v @ r" by (auto simp: startswith_iff)
      then show ?thesis using 1 assms(2) [of r] True by (simp add: less_Suc_eq_le)
    next
      case False
      then show ?thesis using 1 Cons assms(3) by simp
    qed
  qed
qed

text \<open>What begins after a replacement began before it, unless it begins with the replacement.\<close>

lemma replace_prefix_back:
  "replace_all v (d # w) s = p @ z \<Longrightarrow> d \<notin> set p \<Longrightarrow> \<exists>y. s = p @ y"
proof (induction p arbitrary: s z)
  case (Cons x p)
  show ?case
  proof (cases s)
    case (Cons c s')
    with Cons.prems have "c = x" "replace_all v (d # w) s' = p @ z" by (auto split: if_splits)
    with Cons.IH [of s' z] Cons.prems(2) Cons show ?thesis by auto
  qed (use Cons.prems in simp)
qed simp

lemma occurs_past: "occurs_in (c # m) (w @ t) \<Longrightarrow> c \<notin> set w \<Longrightarrow> occurs_in (c # m) t"
  by (induction w) (auto simp: startswith_def)

lemma occurs_after_replace:
  assumes "occurs_in (c # m) (replace_all v (c # w) s)" and "c \<notin> set m" and "c \<notin> set w" and "\<And>t. \<not> startswith (c # w @ t) (c # m)"
  shows "c # m \<noteq> v \<and> occurs_in (c # m) s"
  using assms(1)
proof (induction s rule: replace_induct [where v = v])
  case (Match s)
  then have "occurs_in (c # m) (w @ replace_all v (c # w) s)" using assms(4) by (simp add: replace_all_match)
  with Match assms(3) have "c # m \<noteq> v \<and> occurs_in (c # m) s" by (blast dest: occurs_past)
  then show ?case by (auto simp: occurs_in_iff) (metis append_assoc)
next
  case (Skip x s)
  have r: "replace_all v (c # w) (x # s) = x # replace_all v (c # w) s" using Skip.hyps by auto
  show ?case
  proof (cases "startswith (x # replace_all v (c # w) s) (c # m)")
    case True
    then obtain z where "x = c" "replace_all v (c # w) s = m @ z" by (auto simp: startswith_iff)
    with replace_prefix_back [of v c w s m z] assms(2) have "startswith (x # s) (c # m)" by (auto simp: startswith_iff)
    with Skip.hyps show ?thesis by auto
  next
    case False
    with Skip r show ?thesis by auto
  qed
qed simp

section \<open>Replacing matches by a constant\<close>

lemma chunks_skip: "k \<le> length s \<Longrightarrow> chunks f k b s = chunks f 0 (rev (take k s) @ b) (drop k s)"
proof (induction s arbitrary: k b)
  case (Cons x s)
  then show ?case by (cases k) auto
qed simp

context matcher
begin

lemma chunks_None:
  "first_match step b (x # s) = None \<Longrightarrow> chunks step 0 b (x # s) = Plain x # chunks step 0 (x # b) s"
  by (simp only: chunks.simps option.case)

lemma chunks_Some:
  assumes "first_match step b (x # s) = Some m" and "m_text m \<noteq> []"
  shows "chunks step 0 b (x # s) = Hit m # chunks step 0 (rev (m_text m) @ b) (m_after m)"
proof -
  from assms(2) obtain y ys where t: "m_text m = y # ys" by (cases "m_text m") auto
  with first_match_SomeD [OF assms(1)] have "y = x" "s = ys @ m_after m" by simp_all
  then show ?thesis using chunks_skip [of "length ys" s step "x # b"]
    by (simp only: chunks.simps option.case assms(1) t list.size) (use t assms(1) in simp)
qed

end

text \<open>A literal: \<open>re.sub\<close> is \<open>replace\<close>.\<close>

lemma first_match_lit:
  "first_match (run (lit v)) b s = (if startswith s v then Some (Match (rev b) v (drop (length v) s) []) else None)"
proof (cases "startswith s v")
  case True
  then obtain z where "s = v @ z" by (auto simp: startswith_iff)
  then show ?thesis using first_match_leads [OF leads_lit [of v b z "[]"]] by simp
next
  case False
  then show ?thesis by (simp add: startswith_def run_lit_Nil first_match_def)
qed

lemma re_sub_lit: "v \<noteq> [] \<Longrightarrow> re_sub (lit v) (\<lambda>_. w) s = replace_all v w s"
proof -
  assume v: "v \<noteq> []"
  have "render_chunks (\<lambda>_. w) (chunks (run (lit v)) 0 b s) = replace_all v w s" for b
  proof (induction s arbitrary: b rule: replace_induct [where v = v])
    case Nil
    from v show ?case by (simp add: first_match_lit startswith_def)
  next
    case (Match s)
    then obtain x v' where "v = x # v'" by (cases v) auto
    then show ?case
      using Match lit_matcher.chunks_Some [of v b x "v' @ s"] replace_all_match [of v w s]
      by (simp add: first_match_lit startswith_def del: chunks.simps replace_all.simps)
  next
    case (Skip c s)
    then show ?case
      using v lit_matcher.chunks_None [of v b c s] by (simp add: first_match_lit del: chunks.simps)
  qed
  then show ?thesis by (simp add: re_sub_def re_chunks_def)
qed

text \<open>A run of characters of a class is one match.\<close>

interpretation class_matcher: matcher "run (plus (Cls p))" "matches (plus (Cls p))" for p
  by (rule matcher_rx) (simp add: plus_def)

lemma matches_plus_class: "matches (plus (Cls p)) b t z \<longleftrightarrow> t \<noteq> [] \<and> list_all p t"
proof
  assume m: "matches (plus (Cls p)) b t z"
  then have "t \<noteq> []" by (rule matches_min_one) (simp add: plus_def)
  with matches_only [OF m, of p] show "t \<noteq> [] \<and> list_all p t" by (simp add: plus_def)
next
  assume t: "t \<noteq> [] \<and> list_all p t"
  have star: "list_all p u \<Longrightarrow> matches (Rep 0 None g (Cls p)) c u z" for g c u
  proof (induction u arbitrary: c)
    case (Cons x u)
    then show ?case using matches.more [of None "Cls p" c "[x]" u z 0 g] by (auto simp: dec_max_def intro: matches.intros)
  qed (rule matches.stop)
  from t obtain x u where "t = x # u" by (cases t) auto
  with t star [of u] show "matches (plus (Cls p)) b t z"
    using matches.more [of None "Cls p" b "[x]" u z 1 True] by (auto simp: plus_def dec_max_def intro: matches.intros)
qed

lemma first_match_class:
  "first_match (run (plus (Cls p))) b s =
     (if takeWhile p s = [] then None else Some (Match (rev b) (takeWhile p s) (dropWhile p s) []))"
proof (cases "takeWhile p s = []")
  case True
  have "\<not> matches (plus (Cls p)) b t z" if "s = t @ z" for t z
    using that True by (cases t) (auto simp: matches_plus_class split: if_splits)
  then show ?thesis using True class_matcher.first_match_None [of p b s] by simp
next
  case False
  have "leads (run (plus (Cls p))) (b, takeWhile p s @ dropWhile p s, []) (rev (takeWhile p s) @ b, dropWhile p s, [])"
    using False hd_dropWhile [of p s] by (intro leads_plus_class) (auto simp: dropWhile_eq_Nil_conv dest: set_takeWhileD)
  then show ?thesis using False by (simp add: first_match_leads)
qed

lemma chunks_class:
  "chunks (run (plus (Cls p))) 0 b [] = []"
  "\<not> p x \<Longrightarrow> chunks (run (plus (Cls p))) 0 b (x # s) = Plain x # chunks (run (plus (Cls p))) 0 (x # b) s"
  "p x \<Longrightarrow> chunks (run (plus (Cls p))) 0 b (x # s) =
     Hit (Match (rev b) (x # takeWhile p s) (dropWhile p s) []) #
       chunks (run (plus (Cls p))) 0 (rev (x # takeWhile p s) @ b) (dropWhile p s)"
proof -
  show "chunks (run (plus (Cls p))) 0 b [] = []" by (simp add: first_match_class)
  show "\<not> p x \<Longrightarrow> chunks (run (plus (Cls p))) 0 b (x # s) = Plain x # chunks (run (plus (Cls p))) 0 (x # b) s"
    by (rule class_matcher.chunks_None) (simp add: first_match_class)
  assume "p x"
  then have "first_match (run (plus (Cls p))) b (x # s) = Some (Match (rev b) (x # takeWhile p s) (dropWhile p s) [])"
    by (simp add: first_match_class)
  from class_matcher.chunks_Some [OF this] show "chunks (run (plus (Cls p))) 0 b (x # s) =
     Hit (Match (rev b) (x # takeWhile p s) (dropWhile p s) []) #
       chunks (run (plus (Cls p))) 0 (rev (x # takeWhile p s) @ b) (dropWhile p s)" by simp
qed

lemma class_chunk_induct [case_names Nil Plain Hit]:
  assumes "P []" and "\<And>x s. \<not> p x \<Longrightarrow> P s \<Longrightarrow> P (x # s)" and "\<And>x s. p x \<Longrightarrow> P (dropWhile p s) \<Longrightarrow> P (x # s)"
  shows "P s"
proof (induction s rule: length_induct)
  case (1 s)
  show ?case
  proof (cases s)
    case Nil
    then show ?thesis using assms(1) by simp
  next
    case (Cons x s')
    with 1 assms(2,3) length_dropWhile_le [of p s'] show ?thesis by (cases "p x") (simp_all add: less_Suc_eq_le)
  qed
qed

lemma plain_class: "Plain x \<in> set (chunks (run (plus (Cls p))) 0 b s) \<Longrightarrow> \<not> p x"
proof (induction s arbitrary: b rule: class_chunk_induct [where p = p])
qed (auto simp: chunks_class simp del: chunks.simps)

text \<open>Every run of the class lies in one of its matches.\<close>

lemma class_run_hit:
  "s = a @ t @ z \<Longrightarrow> t \<noteq> [] \<Longrightarrow> list_all p t \<Longrightarrow>
     \<exists>m \<in> set (hits_of (chunks (run (plus (Cls p))) 0 b s)). length t \<le> length (m_text m)"
proof (induction s arbitrary: a t b rule: class_chunk_induct [where p = p])
  case (Plain x s)
  then obtain a' where "a = x # a'" by (cases a; cases t) auto
  with Plain show ?case by (simp add: chunks_class del: chunks.simps)
next
  case (Hit x s)
  show ?case
  proof (cases "length (a @ t) \<le> length (x # takeWhile p s)")
    case True
    with Hit.hyps show ?thesis by (simp add: chunks_class del: chunks.simps)
  next
    case False
    let ?u = "x # takeWhile p s"
    have s: "?u @ dropWhile p s = a @ t @ z" using Hit.prems(1) by simp
    have "length ?u \<le> length a"
    proof (rule ccontr)
      assume "\<not> length ?u \<le> length a"
      moreover have "\<exists>v. u = a @ v \<and> v \<noteq> [] \<and> v @ q = t @ z" if "u @ q = a @ t @ z" "\<not> length u \<le> length a" for u q
      proof -
        have "take (length a) u = a" "drop (length a) u @ q = t @ z"
          using that append_eq_append_conv_if [of u q a "t @ z"] by (simp_all only: if_False)
        with that show ?thesis by (metis append_take_drop_id drop_eq_Nil)
      qed
      ultimately obtain v where v: "?u = a @ v" "v \<noteq> []" "v @ dropWhile p s = t @ z" using s by blast
      with False have "length v < length t" by simp
      with v obtain us where "t = v @ us" "dropWhile p s = us @ z" "us \<noteq> []"
        by (auto simp: append_eq_append_conv2)
      with Hit.prems(3) hd_dropWhile [of p s] show False by (cases us) auto
    qed
    moreover have "\<exists>a'. q = a' @ t @ z" if "u @ q = a @ t @ z" "length u \<le> length a" for u q
      using that append_eq_append_conv_if [of u q a "t @ z"] by (simp only: if_True) blast
    ultimately obtain a' where "dropWhile p s = a' @ t @ z" using s by blast
    from Hit.IH [OF this Hit.prems(2,3)] Hit.hyps show ?thesis by (auto simp: chunks_class simp del: chunks.simps)
  qed
qed simp

section \<open>What a constant replacement keeps\<close>

lemma render_const_set: "set (render_chunks (\<lambda>_. w) cs) \<subseteq> {x. Plain x \<in> set cs} \<union> set w"
  by (induction "\<lambda>_ :: rmatch. w" cs rule: render_chunks.induct) auto

lemma render_text_set: "Plain x \<in> set cs \<Longrightarrow> x \<in> set (render_chunks m_text cs)"
  by (induction m_text cs rule: render_chunks.induct) auto

lemma re_sub_set: "rx_ok r \<Longrightarrow> set (re_sub r (\<lambda>_. w) s) \<subseteq> set s \<union> set w"
  using render_const_set [of w "re_chunks r s"] render_text_set [of _ "re_chunks r s"] re_sub_id [of r s]
  by (auto simp: re_sub_def)

lemma occurs_pair: "occurs_in [a, b] (x # s) \<longleftrightarrow> x = a \<and> s \<noteq> [] \<and> hd s = b \<or> occurs_in [a, b] s"
  by (cases s) (auto simp: startswith_def)

lemma render_pair:
  "occurs_in [a, b] (render_chunks (\<lambda>_. w) cs) \<Longrightarrow> w \<noteq> [] \<Longrightarrow> a \<notin> set w \<Longrightarrow> b \<notin> set w
     \<Longrightarrow> occurs_in [a, b] (render_chunks m_text cs)"
proof (induction cs)
  case (Cons c cs)
  show ?case
  proof (cases c)
    case (Plain x)
    have "render_chunks m_text cs \<noteq> [] \<and> hd (render_chunks m_text cs) = b"
      if "render_chunks (\<lambda>_. w) cs \<noteq> []" "hd (render_chunks (\<lambda>_. w) cs) = b"
      using that Cons.prems by (cases cs; cases "hd cs") auto
    with Cons Plain show ?thesis by (auto simp: occurs_pair simp del: occurs_in.simps)
  next
    case (Hit m)
    then have "occurs_in [a, b] (render_chunks (\<lambda>_. w) cs)" using Cons.prems by (auto dest: occurs_past)
    with Cons Hit show ?thesis by (auto simp: occurs_in_iff) (metis append_assoc)
  qed
qed simp

text \<open>Every \<open>c\<close> stands directly after an \<open>e\<close>; the flag says whether one stands before the text.\<close>

fun guarded :: "char \<Rightarrow> char \<Rightarrow> bool \<Rightarrow> string \<Rightarrow> bool" where
  "guarded e c ok [] = True"
| "guarded e c ok (x # s) = ((x = c \<longrightarrow> ok) \<and> guarded e c (x = e) s)"

lemma guarded_mono: "guarded e c False s \<Longrightarrow> guarded e c ok s"
  by (cases s) auto

lemma guarded_append:
  "guarded e c ok (u @ v) = (guarded e c ok u \<and> guarded e c (if u = [] then ok else last u = e) v)"
  by (induction u arbitrary: ok) auto

lemma guarded_other: "c \<notin> set u \<Longrightarrow> guarded e c ok u"
  by (induction u arbitrary: ok) auto

lemma guarded_replace: "e \<noteq> c \<Longrightarrow> guarded e c ok (replace_all [c] [e, c] s)"
proof -
  have "guarded e c ok (concat (map (\<lambda>x. if x = c then [e, c] else [x]) s))" if "e \<noteq> c"
    using that by (induction s arbitrary: ok) auto
  then show "e \<noteq> c \<Longrightarrow> ?thesis" by (simp add: replace_char)
qed

lemma render_guarded:
  "guarded e c ok (render_chunks m_text cs) \<Longrightarrow> \<forall>m \<in> set (hits_of cs). m_text m \<noteq> [] \<and> last (m_text m) \<noteq> e
     \<Longrightarrow> w \<noteq> [] \<Longrightarrow> c \<notin> set w \<Longrightarrow> guarded e c ok (render_chunks (\<lambda>_. w) cs)"
proof (induction cs arbitrary: ok rule: hits_of.induct)
  case (3 m cs)
  then have "guarded e c False (render_chunks (\<lambda>_. w) cs)" by (auto simp: guarded_append)
  with 3 show ?case by (simp add: guarded_append guarded_other guarded_mono)
qed auto

section \<open>Matching the whole text\<close>

text \<open>\<open>re.fullmatch\<close>: some way to match reaches the end.\<close>

definition re_fullmatch :: "rx \<Rightarrow> string \<Rightarrow> bool" where
  "re_fullmatch r s \<longleftrightarrow> list_ex (\<lambda>(b, z, c). z = []) (run r ([], s, []))"

lemma re_fullmatch_iff: "rx_ok r \<Longrightarrow> re_fullmatch r s \<longleftrightarrow> matches r [] s []"
proof -
  assume ok: "rx_ok r"
  have "re_fullmatch r s \<longleftrightarrow> (\<exists>b c. (b, [], c) \<in> set (run r ([], s, [])))"
    by (auto simp: re_fullmatch_def list_ex_iff)
  also have "\<dots> \<longleftrightarrow> (\<exists>b t. s = t @ [] \<and> b = rev t @ [] \<and> matches r [] t [])"
    using run_iff [OF ok, of _ "[]" "[]" s "[]"] by (simp only:)
  finally show ?thesis by simp
qed

lemma hits_of_set: "m \<in> set (hits_of cs) \<Longrightarrow> Hit m \<in> set cs"
  by (induction cs rule: hits_of.induct) auto

lemma finditer_SomeD:
  "rx_ok r \<Longrightarrow> m \<in> set (re_finditer r s) \<Longrightarrow>
     s = m_before m @ m_text m @ m_after m \<and> matches r (rev (m_before m)) (m_text m) (m_after m)"
  using re_chunks_hit hits_of_set by (fastforce simp: re_finditer_def)

end
