(* ===== verification/Impact_Tiers.thy ===== *)
theory Impact_Tiers
  imports Impact_Evidence Py_Glob Py_Text
begin

text \<open>
  \<open>impact/analyzer.py\<close>, the analyzers: what each tier writes into the evidence of a checked-out
  repository. What the outside answers is the record \<open>checkout\<close>: the files of the clone (a directory or
  an unreadable file has no text), the output of \<open>rg\<close>, the records of govulncheck, the images the graph
  lists with the files of their binary directory, the document of the joern adapter, the SBOM files, and
  the dependencies the surface parsers of \<open>portfolio/parsers.py\<close> read. \<open>json.loads\<close> is an argument.
  An exception that leaves an analyzer is \<open>Inl\<close>.
\<close>

section \<open>The outside\<close>

datatype gv_run = Gv_missing | Gv_timeout | Gv_ran bool string "gv_record list"

record joern_target =
  jt_symbol :: bool
  jt_referenced :: bool
  jt_sites :: "string list"

datatype joern_run = Joern_missing | Joern_failed string | Joern_doc string "joern_target list"

record component =
  cp_name :: "string option"
  cp_purl :: "string option"
  cp_version :: "string option"

datatype sbom_store = Sbom_unset | Sbom_no_directory | Sboms "string \<Rightarrow> component list option list"

record checkout =
  co_root :: "string list"
  co_files :: "(string list \<times> string option) list"
  co_loads :: "string \<Rightarrow> json option"
  co_rg :: "string list \<Rightarrow> string option"
  co_govulncheck :: gv_run
  co_images :: "string list option"
  co_bin_dir :: "string \<Rightarrow> bytes list"
  co_joern :: joern_run
  co_sboms :: sbom_store
  co_surface :: "string \<Rightarrow> (string \<times> string) list option list"

type_synonym tier_result = "string + repo_evidence \<times> string list"

section \<open>Small text operations\<close>

text \<open>\<open>re.escape\<close>\<close>

definition re_escape :: "string \<Rightarrow> string" where
  "re_escape s = concat (map (\<lambda>c. if c \<in> set ''()[]{}?*+-|^$.&~# '' \<or> c = CHR 0x5C \<or> code_in 9 13 c
     then [CHR 0x5C, c] else [c]) s)"

text \<open>\<open>s.split("::")\<close>\<close>

fun split_colons :: "string \<Rightarrow> string list" where
  "split_colons (a # b # s) =
     (if a = CHR '':'' \<and> b = CHR '':'' then [] # split_colons s
      else case split_colons (b # s) of [] \<Rightarrow> [[a]] | w # ws \<Rightarrow> (a # w) # ws)"
| "split_colons [a] = [[a]]"
| "split_colons [] = [[]]"

text \<open>\<open>p in d\<close> for sequences.\<close>

definition seq_in :: "'a list \<Rightarrow> 'a list \<Rightarrow> bool" where
  "seq_in p d \<longleftrightarrow> list_ex (\<lambda>i. take (length p) (drop i d) = p) [0..<Suc (length d)]"

section \<open>Pins of a lockfile\<close>

datatype lock_language = Python | Rust | JavaScript | Java | Ruby | Nuget

type_synonym pins = "(string \<times> json) list"

definition REQ_RX :: rx where
  "REQ_RX = seq [At Bol, sp, Grp 1 (plus (Cls (alnum_or ''_.-''))), sp, Cls (one_of ''=<>~!''), plus (lit ''=''), sp,
     Grp 2 (Cat (Cls is_digit) (star (Cls (\<lambda>c. is_word c \<or> c \<in> set ''.+-''))))]"

definition LOCK_RX :: rx where
  "LOCK_RX = seq [lit ''name'', sp, lit ''='', sp, dq, Grp 1 not_dq, dq, sp, lit [CHR 0x0A], lit ''version'', sp, lit ''='', sp,
     dq, Grp 2 not_dq, dq]"

definition YARN_RX :: rx where
  "YARN_RX = seq [At Bol, opt dq, Grp 1 (Cat (Cls (none_of (CHR ''@'' # CHR 0x22 # [CHR 0x0A]))) (star (Cls (none_of (CHR ''@'' # [CHR 0x0A]))))),
     lit ''@'', star (Cls (none_of [CHR 0x0A])), lit '':'', lit [CHR 0x0A],
     Rep 0 None False (Cat (star (Cls (none_of [CHR 0x0A]))) (lit [CHR 0x0A])),
     plus (Cls is_space), lit ''version'', plus (Cls is_space), dq, Grp 2 not_dq, dq]"

definition POM_RX :: rx where
  "POM_RX = seq [lit ''<artifactId>'', Grp 1 (plus (Cls (none_of ''<''))), lit ''</artifactId>'', sp, lit ''<version>'',
     Grp 2 (plus (Cls (none_of ''<$''))), lit ''</version>'']"

definition GRADLE_RX :: rx where
  "GRADLE_RX = seq [quote_class, plus (Cls (\<lambda>c. is_word c \<or> c \<in> set ''.-'')), lit '':'',
     Grp 1 (plus (Cls (\<lambda>c. is_word c \<or> c \<in> set ''.-''))), lit '':'',
     Grp 2 (Cat (Cls is_digit) (star (Cls (\<lambda>c. is_word c \<or> c \<in> set ''.-'')))), quote_class]"

definition LOCK_SPEC_RX :: rx where
  "LOCK_SPEC_RX = seq [At Bol, Rep 4 (Some 4) True (Cls is_space), Grp 1 (plus (Cls (alnum_or ''_.-''))), lit '' ('',
     Grp 2 (Cat (Cls is_digit) (star (Cls (none_of (''()'' @ [CHR 0x0A]))))), lit '')'', sp, At Eol]"

definition GEM_RX :: rx where
  "GEM_RX = seq [Alt (seq [At Word_boundary, lit ''gem'', At Word_boundary])
       (seq [lit ''.add'', opt (Alt (lit ''_runtime'') (lit ''_development'')), lit ''_dependency'']),
     sp, opt (lit ''(''), sp, quote_class, Grp 1 not_quotes, quote_class,
     opt (seq [sp, lit '','', sp, quote_class, Grp 2 not_quotes, quote_class])]"

definition CSPROJ_RX :: rx where
  "CSPROJ_RX = seq [ilit ''<PackageReference'', At Word_boundary, Rep 0 None False (Cls (none_of ''>'')), ilit ''Include'', sp,
     lit ''='', sp, quote_class, Grp 1 not_quotes, quote_class, Rep 0 None False (Cls (none_of ''>'')), ilit ''Version'', sp,
     lit ''='', sp, quote_class, Grp 2 not_quotes, quote_class]"

text \<open>\<open>pins[m.group(1)] = m.group(2)\<close> over the matches; an absent group reads as the empty text.\<close>

definition pins_of :: "(string \<Rightarrow> string) \<Rightarrow> rx \<Rightarrow> string \<Rightarrow> pins \<Rightarrow> pins" where
  "pins_of f r text pins =
     fold (\<lambda>m. AList.update (or_str (m_group 1 m) []) (JStr (f (or_str (m_group 2 m) [])))) (re_finditer r text) pins"

text \<open>Pipfile.lock: an attribute error inside ends the reading with the pins so far.\<close>

definition pipfile_entry :: "string \<times> json \<Rightarrow> bool \<times> pins \<Rightarrow> bool \<times> pins" where
  "pipfile_entry e st = (if fst st then st else
     (case json_get ''version'' (snd e) of
        Inl _ \<Rightarrow> (True, snd st)
      | Inr v \<Rightarrow> (if \<not> json_true v then st else (case v of
            JStr s \<Rightarrow> (let p = lstrip_set ''='' s in if p = [] then st else (False, AList.update (fst e) (JStr p) (snd st)))
          | _ \<Rightarrow> (True, snd st)))))"

definition pipfile_section :: "json \<Rightarrow> string \<Rightarrow> bool \<times> pins \<Rightarrow> bool \<times> pins" where
  "pipfile_section data sect st = (if fst st then st else
     (case json_items sect data of Inl _ \<Rightarrow> (True, snd st) | Inr kvs \<Rightarrow> fold pipfile_entry kvs st))"

definition pipfile_pins :: "json \<Rightarrow> pins" where
  "pipfile_pins data = snd (fold (pipfile_section data) [''default'', ''develop''] (False, []))"

definition setdefault :: "string \<Rightarrow> json \<Rightarrow> pins \<Rightarrow> pins" where
  "setdefault k v d = (if map_of d k = None then AList.update k v d else d)"

definition package_pin :: "string \<times> json \<Rightarrow> pins \<Rightarrow> pins" where
  "package_pin e pins =
     (let name = (if occurs_in ''node_modules/'' (fst e) then after_node_modules (fst e) else fst e) in
      case snd e of
        JObj kvs \<Rightarrow> (case map_of kvs ''version'' of
          Some v \<Rightarrow> if name \<noteq> [] \<and> json_true v then AList.update name v pins else pins
        | None \<Rightarrow> pins)
      | _ \<Rightarrow> pins)"

definition dependency_pin :: "string \<times> json \<Rightarrow> pins \<Rightarrow> pins" where
  "dependency_pin e pins =
     (case snd e of
        JStr s \<Rightarrow> setdefault (fst e) (JStr (lstrip_set ''^~'' s)) pins
      | JObj kvs \<Rightarrow> (case map_of kvs ''version'' of
          Some v \<Rightarrow> if json_true v then setdefault (fst e) v pins else pins
        | None \<Rightarrow> pins)
      | _ \<Rightarrow> pins)"

definition npm_pins :: "json \<Rightarrow> string + pins" where
  "npm_pins data =
     bind_res (json_items ''packages'' data) (\<lambda>packages.
     bind_res (json_items ''dependencies'' data) (\<lambda>deps.
     bind_res (json_items ''devDependencies'' data) (\<lambda>dev.
       Inr (fold dependency_pin dev (fold dependency_pin deps (fold package_pin packages []))))))"

definition nuget_pin :: "string \<times> json \<Rightarrow> pins \<Rightarrow> pins" where
  "nuget_pin e pins =
     (case snd e of
        JObj kvs \<Rightarrow> (case map_of kvs ''resolved'' of
          Some v \<Rightarrow> if json_true v then AList.update (fst e) v pins else pins
        | None \<Rightarrow> pins)
      | _ \<Rightarrow> pins)"

definition nuget_pins :: "json \<Rightarrow> pins" where
  "nuget_pins data =
     (case data of
        JObj kvs \<Rightarrow> (case map_of kvs ''dependencies'' of
          Some (JObj frameworks) \<Rightarrow>
            fold (\<lambda>fr. case snd fr of JObj pkgs \<Rightarrow> fold nuget_pin pkgs | _ \<Rightarrow> (\<lambda>p. p)) frameworks []
        | _ \<Rightarrow> [])
      | _ \<Rightarrow> [])"

definition extract_pins :: "(string \<Rightarrow> json option) \<Rightarrow> lock_language \<Rightarrow> string \<Rightarrow> string \<Rightarrow> string + pins" where
  "extract_pins loads lang filename text =
     (case lang of
        Python \<Rightarrow>
          if filename = ''Pipfile.lock'' then Inr (case loads text of None \<Rightarrow> [] | Some data \<Rightarrow> pipfile_pins data)
          else Inr (pins_of id REQ_RX text
            (if filename \<in> {''poetry.lock'', ''pyproject.toml''} then pins_of id LOCK_RX text [] else []))
      | Rust \<Rightarrow> Inr (pins_of id LOCK_RX text [])
      | JavaScript \<Rightarrow>
          if filename \<in> {''package-lock.json'', ''package.json''}
          then (case loads text of None \<Rightarrow> Inr [] | Some data \<Rightarrow> npm_pins data)
          else Inr (pins_of id YARN_RX text [])
      | Java \<Rightarrow> Inr (if filename = ''pom.xml'' then pins_of strip POM_RX text [] else pins_of id GRADLE_RX text [])
      | Ruby \<Rightarrow> Inr (if filename = ''Gemfile.lock'' then pins_of id LOCK_SPEC_RX text [] else pins_of id GEM_RX text [])
      | Nuget \<Rightarrow>
          if filename = ''packages.lock.json'' then Inr (case loads text of None \<Rightarrow> [] | Some data \<Rightarrow> nuget_pins data)
          else Inr (pins_of id CSPROJ_RX text []))"


section \<open>The lockfile tier\<close>

definition manifest_globs :: "lock_language \<Rightarrow> string list" where
  "manifest_globs lang = (case lang of
       Python \<Rightarrow> [''requirements*.txt'', ''Pipfile.lock'', ''poetry.lock'', ''pyproject.toml'']
     | Rust \<Rightarrow> [''Cargo.lock'']
     | JavaScript \<Rightarrow> [''package-lock.json'', ''yarn.lock'', ''package.json'']
     | Java \<Rightarrow> [''pom.xml'', ''build.gradle'', ''build.gradle.kts'', ''gradle.lockfile'']
     | Ruby \<Rightarrow> [''Gemfile.lock'', ''*.gemspec'', ''Gemfile'']
     | Nuget \<Rightarrow> [''packages.lock.json'', ''*.csproj'', ''packages.config''])"

text \<open>The manifests in the order they are read, without those below a vendored directory.\<close>

definition manifests :: "lock_language \<Rightarrow> checkout \<Rightarrow> (string list \<times> string option) list" where
  "manifests lang co = concat (map (\<lambda>g.
     filter (\<lambda>(path, _). \<not> list_ex (\<lambda>p. p \<in> {''vendor'', ''node_modules'', ''.git''}) (co_root co @ path))
       (sort_key fst (filter (\<lambda>(path, _). path \<noteq> [] \<and> fnmatch (last path) g) (co_files co)))) (manifest_globs lang))"

definition module_names :: "lock_language \<Rightarrow> analysis_context \<Rightarrow> string list" where
  "module_names lang cx =
     (if lang = Java then map (after_last CHR '':'') (filter (\<lambda>n. n \<noteq> []) (cx_module cx # cx_packages cx))
      else cx_module cx # cx_packages cx)"

definition wanted_names :: "string list \<Rightarrow> string list" where
  "wanted_names names = map lower (filter (\<lambda>n. n \<noteq> []) names)"

definition keep_pins :: "string list \<Rightarrow> pins \<Rightarrow> pins \<Rightarrow> pins" where
  "keep_pins names found pins = fold (\<lambda>(name, ver) p. if lower name \<in> set names then AList.update name ver p else p) found pins"

fun read_pins :: "(string \<Rightarrow> json option) \<Rightarrow> lock_language \<Rightarrow> string list
    \<Rightarrow> (string list \<times> string option) list \<Rightarrow> pins \<Rightarrow> string + pins" where
  "read_pins loads lang names [] pins = Inr pins"
| "read_pins loads lang names ((path, text) # files) pins =
     (case text of
        None \<Rightarrow> read_pins loads lang names files pins
      | Some t \<Rightarrow> bind_res (extract_pins loads lang (last path) t)
          (\<lambda>found. read_pins loads lang names files (keep_pins names found pins)))"

text \<open>The verdict of the manifests rests on the first pin; a version that is no text cannot be parsed.\<close>

definition pin_verdict :: "analysis_context \<Rightarrow> pins \<Rightarrow> repo_evidence \<Rightarrow> string + repo_evidence" where
  "pin_verdict cx pins ev = (case pins of
       [] \<Rightarrow> Inr (ev\<lparr>ev_manifest_scan := Some ''module_not_in_manifests''\<rparr>)
     | (_, JStr ver) # _ \<Rightarrow> Inr (ev\<lparr>ev_manifest_version := Some ver, ev_manifest_scan := Some
         (if cx_in_range cx (Some ver) = Some False then ''module_pinned_out_of_range'' else ''module_pinned_in_range'')\<rparr>)
     | _ \<Rightarrow> Inl ''AttributeError'')"

definition manifest_tier :: "analysis_context \<Rightarrow> bool \<Rightarrow> pins \<Rightarrow> repo_evidence \<Rightarrow> string + repo_evidence" where
  "manifest_tier cx saw pins ev =
     (if saw then pin_verdict cx pins ev else Inr (ev\<lparr>ev_manifest_scan := Some ''no_manifests_found''\<rparr>))"

definition import_pattern :: "lock_language \<Rightarrow> string \<Rightarrow> string" where
  "import_pattern lang module = (case lang of
       Python \<Rightarrow> ''^'' @ [CHR 0x5C] @ ''s*(from|import)'' @ [CHR 0x5C] @ ''s+''
         @ re_escape (map (\<lambda>c. if c = CHR ''-'' then CHR ''_'' else c) (fst (cut CHR ''.'' module))) @ [CHR 0x5C] @ ''b''
     | Rust \<Rightarrow> [CHR 0x5C] @ ''buse'' @ [CHR 0x5C] @ ''s+''
         @ re_escape (map (\<lambda>c. if c = CHR ''-'' then CHR ''_'' else c) module) @ ''(::|'' @ [CHR 0x5C] @ ''s|;)''
     | JavaScript \<Rightarrow> ''(require'' @ [CHR 0x5C] @ ''(['' @ [CHR 0x27, CHR 0x22] @ '']'' @ re_escape module
         @ ''|from'' @ [CHR 0x5C] @ ''s+['' @ [CHR 0x27, CHR 0x22] @ '']'' @ re_escape module @ '')''
     | Java \<Rightarrow> ''^'' @ [CHR 0x5C] @ ''s*import'' @ [CHR 0x5C] @ ''s+''
         @ re_escape (if before_last CHR '':'' module = [] then module else before_last CHR '':'' module)
     | Ruby \<Rightarrow> ''require'' @ [CHR 0x5C] @ ''s+['' @ [CHR 0x27, CHR 0x22] @ '']'' @ re_escape module
     | Nuget \<Rightarrow> ''(?!x)x'')"

definition RG :: "string list" where
  "RG = [''-l'', ''--max-count'', ''1'']"

definition output_seen :: "string \<Rightarrow> bool" where
  "output_seen stdout \<longleftrightarrow> strip stdout \<noteq> []"

definition source_scan :: "lock_language \<Rightarrow> checkout \<Rightarrow> analysis_context \<Rightarrow> repo_evidence \<Rightarrow> repo_evidence \<times> bool" where
  "source_scan lang co cx ev =
     (if lang = Nuget then (ev, False)
      else (case co_rg co (RG @ [import_pattern lang (cx_module cx)]) of
          None \<Rightarrow> (ev, False)
        | Some out \<Rightarrow> (ev\<lparr>ev_source_import_scan := Some
            (if output_seen out then ''imports_found'' else ''imports_not_found'')\<rparr>, True)))"

definition symbol_pattern :: "string list \<Rightarrow> string" where
  "symbol_pattern symbols = [CHR 0x5C] @ ''b('' @ join ''|'' (sort (remdups
     (map (\<lambda>s. re_escape (last (split_colons (last (split_on CHR ''.'' s))))) symbols))) @ '')'' @ [CHR 0x5C] @ ''s*'' @ [CHR 0x5C] @ ''(''"

definition symbol_usage_scan :: "checkout \<Rightarrow> analysis_context \<Rightarrow> repo_evidence \<Rightarrow> repo_evidence \<times> bool" where
  "symbol_usage_scan co cx ev =
     (case filter (\<lambda>s. s \<noteq> []) (cx_symbols cx) of
        [] \<Rightarrow> (ev, False)
      | symbols \<Rightarrow> (case co_rg co (RG @ [symbol_pattern symbols]) of
          None \<Rightarrow> (ev, False)
        | Some out \<Rightarrow> (ev\<lparr>ev_symbol_usage_scan := Some
            (if output_seen out then ''symbols_used'' else ''symbols_not_found'')\<rparr>, True)))"

definition ran :: "string \<Rightarrow> bool \<Rightarrow> string list" where
  "ran tier b = (if b then [tier] else [])"

definition lockfile_level :: "bool \<Rightarrow> repo_evidence \<Rightarrow> repo_evidence" where
  "lockfile_level saw ev = ev\<lparr>ev_level := Some
     (if ev_symbol_usage_scan ev = Some ''symbols_used'' then ''symbol-usage''
      else if saw then ''manifest'' else ''none'')\<rparr>"

definition lockfile_analyze :: "lock_language \<Rightarrow> checkout \<Rightarrow> analysis_context \<Rightarrow> repo_evidence \<Rightarrow> tier_result" where
  "lockfile_analyze lang co cx ev =
     (let files = manifests lang co; saw = (files \<noteq> []) in
      bind_res (read_pins (co_loads co) lang (wanted_names (module_names lang cx)) files []) (\<lambda>pins.
      bind_res (manifest_tier cx saw pins ev) (\<lambda>ev1.
        (case source_scan lang co cx ev1 of (ev2, b2) \<Rightarrow>
         (case symbol_usage_scan co cx ev2 of (ev3, b3) \<Rightarrow>
            Inr (lockfile_level saw ev3,
              ran ''manifest_scan'' saw @ ran ''source_import_scan'' b2 @ ran ''symbol_usage_scan'' b3))))))"

section \<open>Go\<close>

definition relevant :: "analysis_context \<Rightarrow> gv_candidate \<Rightarrow> bool" where
  "relevant cx c \<longleftrightarrow> cx_cve cx \<in> set (gc_aliases c) \<or> gc_module c = Some (cx_module cx)"

definition better_reach :: "gv_candidate \<Rightarrow> string \<times> string list \<Rightarrow> string \<times> string list" where
  "better_reach c best =
     (if gc_reachability c \<in> set REACH_ORDER \<and> reach_rank (fst best) < reach_rank (gc_reachability c)
      then (gc_reachability c, gc_trace c) else best)"

definition best_reach :: "analysis_context \<Rightarrow> gv_candidate list \<Rightarrow> string \<times> string list" where
  "best_reach cx cands = fold better_reach (filter (relevant cx) cands) (''module_required_not_observed'', [])"

text \<open>The exit code matters only when the stream had no configuration record.\<close>

definition govulncheck_source :: "checkout \<Rightarrow> analysis_context \<Rightarrow> repo_evidence \<Rightarrow> repo_evidence \<times> bool" where
  "govulncheck_source co cx ev =
     (case co_govulncheck co of
        Gv_missing \<Rightarrow> (add_note ''; govulncheck not found'' ev, False)
      | Gv_timeout \<Rightarrow> (add_note ''; govulncheck timeout'' ev, False)
      | Gv_ran exited_zero failure recs \<Rightarrow>
          (case parse_stream recs of (tool, cands) \<Rightarrow>
             if \<not> tool \<and> \<not> exited_zero then (add_note (''; govulncheck failed '' @ failure) ev, False)
             else (case best_reach cx cands of (reach, trace) \<Rightarrow>
               (ev\<lparr>ev_govulncheck := Some reach, ev_govulncheck_trace := (if trace = [] then None else Some trace)\<rparr>, True))))"

definition image_slug :: "string \<Rightarrow> string" where
  "image_slug ref = map (\<lambda>c. if alnum_or ''_.-'' c then c else CHR ''-'') ref"

definition resolve_image_binary :: "checkout \<Rightarrow> string \<Rightarrow> bytes option" where
  "resolve_image_binary co ref = find (\<lambda>data. is_elf (take 16 data)) (co_bin_dir co (image_slug ref))"

definition MAX_SCAN :: nat where "MAX_SCAN = 32000000"

definition ascii_bytes :: "string \<Rightarrow> bytes option" where
  "ascii_bytes s = (if list_all (code_in 0 127) s then Some (map (\<lambda>c. of_nat (of_char c)) s) else None)"

text \<open>Whether some of the escaped texts occurs in the first \<open>MAX_SCAN\<close> bytes.\<close>

definition scan_literals :: "bytes list \<Rightarrow> bytes \<Rightarrow> bool" where
  "scan_literals ps data = list_ex (\<lambda>p. seq_in p (take MAX_SCAN data)) ps"

definition binaries :: "checkout \<Rightarrow> string list \<Rightarrow> bytes list" where
  "binaries co images = List.map_filter (resolve_image_binary co) images"

definition elf_scan :: "checkout \<Rightarrow> analysis_context \<Rightarrow> repo_evidence \<Rightarrow> string + repo_evidence \<times> bool" where
  "elf_scan co cx ev =
     (case co_images co of
        None \<Rightarrow> Inr (ev, False)
      | Some images \<Rightarrow>
          if images = [] \<or> cx_packages cx = [] then Inr (ev, False)
          else (case those (map ascii_bytes (cx_packages cx)) of
              None \<Rightarrow> Inl ''UnicodeEncodeError''
            | Some ps \<Rightarrow>
                (let bins = binaries co images in
                 if list_ex (scan_literals ps) bins
                 then Inr (ev\<lparr>ev_binary_string_scan := Some ''package_path_present''\<rparr>, True)
                 else if bins \<noteq> [] then Inr (ev\<lparr>ev_binary_string_scan := Some ''package_path_absent''\<rparr>, True)
                 else Inr (ev, False))))"

definition UNSAFE_ARGV :: "string list" where
  "UNSAFE_ARGV = [''-l'', ''unsafe'' @ [CHR 0x5C] @ ''.Pointer|reflect'' @ [CHR 0x5C]
     @ ''.(Value|Type|DeepEqual|ValueOf|TypeOf)|import'' @ [CHR 0x5C] @ ''s+'' @ [CHR 0x22] @ ''C'' @ [CHR 0x22], ''--type'', ''go'']"

definition check_needs_manual :: "checkout \<Rightarrow> repo_evidence \<Rightarrow> repo_evidence" where
  "check_needs_manual co ev =
     (if ev_govulncheck ev = Some ''symbol_reachable'' then ev
      else (case co_rg co UNSAFE_ARGV of
          None \<Rightarrow> ev
        | Some out \<Rightarrow> if output_seen out
            then add_note ''; unsafe/reflect/cgo usage detected -- manual trace advised'' (ev\<lparr>ev_manual := True\<rparr>) else ev))"

definition go_level :: "repo_evidence \<Rightarrow> repo_evidence" where
  "go_level ev = ev\<lparr>ev_level := Some (if truthy (ev_govulncheck ev) then ''symbol''
     else if truthy (ev_binary_string_scan ev) then ''binary'' else ''none'')\<rparr>"

definition exists_in :: "checkout \<Rightarrow> string list \<Rightarrow> bool" where
  "exists_in co path \<longleftrightarrow> list_ex (\<lambda>(p, _). take (length path) p = path) (co_files co)"

definition go_analyze :: "checkout \<Rightarrow> analysis_context \<Rightarrow> repo_evidence \<Rightarrow> tier_result" where
  "go_analyze co cx ev =
     (if \<not> exists_in co [''go.mod''] then Inr (ev\<lparr>ev_notes := Some ''no go.mod -- skipped''\<rparr>, [])
      else (case govulncheck_source co cx ev of (ev1, b1) \<Rightarrow>
        if ev_govulncheck ev1 = Some ''symbol_reachable''
        then Inr (ev1\<lparr>ev_level := Some ''symbol''\<rparr>, ran ''govulncheck_source'' b1)
        else bind_res (elf_scan co cx ev1) (\<lambda>(ev2, b2).
          Inr (go_level (check_needs_manual co ev2), ran ''govulncheck_source'' b1 @ ran ''elf_string_scan'' b2))))"

end
