(* ===== verification/Impact_Analysis.thy ===== *)
theory Impact_Analysis
  imports Impact_Tiers Portfolio_Graph
begin

text \<open>
  \<open>impact/analyzer.py\<close>, the analysis of one repository and of a whole blast radius: the C and surface
  analyzers, the choice of the analyzer, the SBOM cross-check, \<open>analyze_repo\<close>, and the two passes of
  \<open>_execute\<close> with the artifact it writes. The repositories come from the portfolio graph's query. The
  scans of the second pass run in a thread pool; the order in which they complete is an argument.
\<close>

section \<open>C and C++\<close>

definition include_argv :: "string \<Rightarrow> string list" where
  "include_argv lib = RG @ [''#'' @ [CHR 0x5C] @ ''s*include'' @ [CHR 0x5C] @ ''s*[<'' @ [CHR 0x22] @ '']''
     @ re_escape lib @ ''[/.]'', ''-g'', ''*.c'', ''-g'', ''*.h'', ''-g'', ''*.cc'', ''-g'', ''*.cpp'', ''-g'', ''*.hpp'']"

definition include_scan :: "checkout \<Rightarrow> string \<Rightarrow> repo_evidence \<Rightarrow> repo_evidence \<times> bool" where
  "include_scan co lib ev = (case co_rg co (include_argv lib) of
       None \<Rightarrow> (ev, False)
     | Some out \<Rightarrow> (ev\<lparr>ev_source_import_scan := Some
         (if output_seen out then ''imports_found'' else ''imports_not_found'')\<rparr>, True))"

definition lib_names :: "string \<Rightarrow> analysis_context \<Rightarrow> string list" where
  "lib_names lib cx = lib # map (after_last CHR ''/'') (cx_packages cx)"

definition links :: "string list \<Rightarrow> bytes \<Rightarrow> bool" where
  "links names data \<longleftrightarrow> list_ex (\<lambda>so. list_ex (\<lambda>n. seq_in (map Some (''lib'' @ n)) so \<or> seq_in (map Some n) so) names)
     (linked_libraries data)"

text \<open>Symbols that are not ASCII raise before the scan; nothing else does.\<close>

definition symbol_name_scan :: "bytes \<Rightarrow> analysis_context \<Rightarrow> repo_evidence \<Rightarrow> string + repo_evidence" where
  "symbol_name_scan data cx ev =
     (case filter (\<lambda>s. s \<noteq> []) (cx_symbols cx) of
        [] \<Rightarrow> Inr ev
      | symbols \<Rightarrow> (case those (map ascii_bytes symbols) of
          None \<Rightarrow> Inl ''UnicodeEncodeError''
        | Some ps \<Rightarrow> Inr (ev\<lparr>ev_binary_symbol_scan := Some
            (if scan_literals ps data then ''symbols_present'' else ''symbols_absent'')\<rparr>)))"

definition linked_library_scan :: "checkout \<Rightarrow> string \<Rightarrow> analysis_context \<Rightarrow> repo_evidence \<Rightarrow> string + repo_evidence \<times> bool" where
  "linked_library_scan co lib cx ev =
     (case co_images co of
        None \<Rightarrow> Inr (ev, False)
      | Some images \<Rightarrow>
          (let bins = binaries co images in
           case find (links (lib_names lib cx)) bins of
             Some data \<Rightarrow> bind_res (symbol_name_scan data cx (ev\<lparr>ev_binary_linked_library := Some ''linked''\<rparr>))
               (\<lambda>ev'. Inr (ev', True))
           | None \<Rightarrow> if bins \<noteq> [] then Inr (ev\<lparr>ev_binary_linked_library := Some ''not_linked''\<rparr>, True)
               else Inr (ev, False)))"

definition c_level :: "repo_evidence \<Rightarrow> repo_evidence" where
  "c_level ev = ev\<lparr>ev_level := Some (if ev_binary_symbol_scan ev = Some ''symbols_present'' then ''symbol-usage''
     else if truthy (ev_binary_linked_library ev) then ''binary''
     else if truthy (ev_source_import_scan ev) then ''manifest'' else ''none'')\<rparr>"

text \<open>A resolved call promotes; a referenced target without a recorded site raises.\<close>

definition joern_targets :: "joern_target list \<Rightarrow> repo_evidence \<Rightarrow> string + repo_evidence" where
  "joern_targets ts ev =
     (case filter (\<lambda>t. jt_symbol t \<and> jt_referenced t) ts of
        t # _ \<Rightarrow> (case jt_sites t of [] \<Rightarrow> Inl ''IndexError''
          | s # _ \<Rightarrow> Inr (ev\<lparr>ev_joern := Some ''vulnerable_symbol_called'', ev_joern_witness := Some s, ev_level := Some ''symbol''\<rparr>))
      | [] \<Rightarrow> (case filter (\<lambda>t. \<not> jt_symbol t \<and> jt_referenced t) ts of
          t # _ \<Rightarrow> (case jt_sites t of [] \<Rightarrow> Inl ''IndexError''
            | s # _ \<Rightarrow> Inr (ev\<lparr>ev_joern := Some ''package_api_called'', ev_joern_witness := Some s,
                ev_level := (if ev_level ev = Some ''manifest'' then Some ''symbol-usage'' else ev_level ev)\<rparr>))
        | [] \<Rightarrow> Inr (ev\<lparr>ev_joern := Some ''no_call_sites_found''\<rparr>)))"

definition joern_tier :: "checkout \<Rightarrow> repo_evidence \<Rightarrow> string + repo_evidence \<times> bool" where
  "joern_tier co ev =
     (case co_joern co of
        Joern_missing \<Rightarrow> Inr (ev\<lparr>ev_joern := Some ''skipped: joern not on PATH''\<rparr>, False)
      | Joern_failed e \<Rightarrow> Inr (ev\<lparr>ev_joern := Some (take 120 (''error: '' @ e))\<rparr>, False)
      | Joern_doc status ts \<Rightarrow>
          if status \<noteq> ''ran'' then Inr (ev\<lparr>ev_joern := Some (take 120 status)\<rparr>, True)
          else bind_res (joern_targets ts ev) (\<lambda>ev'. Inr (ev', True)))"

definition c_analyze :: "checkout \<Rightarrow> analysis_context \<Rightarrow> repo_evidence \<Rightarrow> tier_result" where
  "c_analyze co cx ev =
     (let lib = after_last CHR ''/'' (cx_module cx) in
      case include_scan co lib ev of (ev1, b1) \<Rightarrow>
        bind_res (linked_library_scan co lib cx ev1) (\<lambda>(ev2, b2).
          let ev3 = c_level ev2;
              tiers = ran ''source_import_scan'' b1 @ ran ''elf_linked_library_scan'' b2 in
          if (ev_source_import_scan ev3 = Some ''imports_found'' \<or> ev_binary_linked_library ev3 = Some ''linked'')
             \<and> cx_symbols cx \<noteq> []
          then bind_res (joern_tier co ev3) (\<lambda>(ev4, b4). Inr (ev4, tiers @ ran ''joern_reachability'' b4))
          else Inr (ev3, tiers)))"

section \<open>Surfaces and the choice of the analyzer\<close>

definition SURFACE_ECOSYSTEMS :: "string list" where
  "SURFACE_ECOSYSTEMS = [''actions'', ''docker'', ''helm'']"

definition surface_pins :: "analysis_context \<Rightarrow> (string \<times> string) list option list \<Rightarrow> pins" where
  "surface_pins cx files =
     fold (\<lambda>deps pins. case deps of None \<Rightarrow> pins
        | Some ds \<Rightarrow> keep_pins (wanted_names (cx_module cx # cx_packages cx)) (map (\<lambda>(n, v). (n, JStr v)) ds) pins) files []"

definition surface_analyze :: "string \<Rightarrow> checkout \<Rightarrow> analysis_context \<Rightarrow> repo_evidence \<Rightarrow> tier_result" where
  "surface_analyze eco co cx ev =
     (let files = co_surface co eco;
          note = ''; '' @ eco @ '' surface: graph-dependency edge; manifest-level, no reachability'' in
      if files \<noteq> []
      then bind_res (pin_verdict cx (surface_pins cx files) ev)
        (\<lambda>ev1. Inr (add_note note (ev1\<lparr>ev_level := Some ''manifest''\<rparr>), [''manifest_scan'']))
      else Inr (add_note note (ev\<lparr>ev_manifest_scan := Some ''no_manifests_found'', ev_level := Some ''none''\<rparr>), []))"

datatype analyzer = Go_analyzer | Lockfile_analyzer lock_language | C_analyzer | Surface_analyzer string

definition ANALYZERS :: "(string \<times> analyzer) list" where
  "ANALYZERS = [(''go'', Go_analyzer), (''python'', Lockfile_analyzer Python), (''rust'', Lockfile_analyzer Rust),
     (''javascript'', Lockfile_analyzer JavaScript), (''java'', Lockfile_analyzer Java), (''ruby'', Lockfile_analyzer Ruby),
     (''nuget'', Lockfile_analyzer Nuget), (''c'', C_analyzer)]"

definition ECOSYSTEM_ANALYZERS :: "(string \<times> analyzer) list" where
  "ECOSYSTEM_ANALYZERS = [(''go'', Go_analyzer), (''npm'', Lockfile_analyzer JavaScript), (''pypi'', Lockfile_analyzer Python),
     (''cargo'', Lockfile_analyzer Rust), (''maven'', Lockfile_analyzer Java), (''ruby'', Lockfile_analyzer Ruby),
     (''nuget'', Lockfile_analyzer Nuget)]"

definition analyzer_for_ecosystem :: "string \<Rightarrow> analyzer option" where
  "analyzer_for_ecosystem eco =
     (if eco \<in> set SURFACE_ECOSYSTEMS then Some (Surface_analyzer eco) else map_of ECOSYSTEM_ANALYZERS eco)"

definition analyze :: "analyzer \<Rightarrow> checkout \<Rightarrow> analysis_context \<Rightarrow> repo_evidence \<Rightarrow> tier_result" where
  "analyze a co cx ev = (case a of
       Go_analyzer \<Rightarrow> go_analyze co cx ev
     | Lockfile_analyzer lang \<Rightarrow> lockfile_analyze lang co cx ev
     | C_analyzer \<Rightarrow> c_analyze co cx ev
     | Surface_analyzer eco \<Rightarrow> surface_analyze eco co cx ev)"

definition c_file :: "checkout \<Rightarrow> string list \<Rightarrow> bool" where
  "c_file co dir \<longleftrightarrow> list_ex (\<lambda>(p, _). length p > length dir \<and> take (length dir) p = dir
     \<and> path_suffix (p ! length dir) \<in> {''.c'', ''.cc'', ''.cpp'', ''.h''}) (co_files co)"

definition top_match :: "checkout \<Rightarrow> string \<Rightarrow> bool" where
  "top_match co g \<longleftrightarrow> list_ex (\<lambda>(p, _). case p of [] \<Rightarrow> False | n # _ \<Rightarrow> fnmatch n g) (co_files co)"

definition detect_language :: "checkout \<Rightarrow> string option" where
  "detect_language co =
     (let has = (\<lambda>n. exists_in co [n]) in
      if has ''go.mod'' then Some ''go''
      else if has ''Cargo.toml'' then Some ''rust''
      else if has ''pom.xml'' \<or> has ''build.gradle'' then Some ''java''
      else if has ''package.json'' then Some ''javascript''
      else if has ''requirements.txt'' \<or> has ''pyproject.toml'' then Some ''python''
      else if list_ex has [''CMakeLists.txt'', ''configure.ac'', ''configure'', ''meson.build'', ''Makefile'']
        \<and> (c_file co [] \<or> list_ex (\<lambda>d. c_file co [d]) [''src'', ''lib'', ''source'']) then Some ''c''
      else if has ''Gemfile'' \<or> has ''Gemfile.lock'' \<or> top_match co ''*.gemspec'' then Some ''ruby''
      else if has ''packages.config'' \<or> has ''packages.lock.json'' \<or> top_match co ''*.csproj'' \<or> top_match co ''*.sln''
        then Some ''nuget''
      else None)"

section \<open>The shipped artifact\<close>

definition component_hit :: "string \<Rightarrow> component \<Rightarrow> bool" where
  "component_hit module_l c \<longleftrightarrow> module_l = lower (or_str (cp_name c) []) \<or> occurs_in module_l (lower (or_str (cp_purl c) []))"

text \<open>\<open>image_ref.rsplit("@sha256:", 1)[1]\<close>, for a reference that has one.\<close>

fun image_digest :: "string \<Rightarrow> string" where
  "image_digest [] = []"
| "image_digest (c # cs) = (if occurs_in ''@sha256:'' cs then image_digest cs else removeprefix (c # cs) ''@sha256:'')"

definition sbom_documents :: "(string \<Rightarrow> component list option list) \<Rightarrow> string list \<Rightarrow> component list list" where
  "sbom_documents files images = concat (map (\<lambda>ref.
     if occurs_in ''@sha256:'' ref then List.map_filter id (files (take 7 (image_digest ref))) else []) images)"

definition sbom_cross_check :: "checkout \<Rightarrow> analysis_context \<Rightarrow> repo_evidence \<Rightarrow> repo_evidence \<times> bool" where
  "sbom_cross_check co cx ev =
     (case co_sboms co of
        Sbom_unset \<Rightarrow> (ev\<lparr>ev_sbom_scan := Some ''skipped: ANALYSIS_RESULTS_DIR unset''\<rparr>, False)
      | Sbom_no_directory \<Rightarrow> (ev\<lparr>ev_sbom_scan := Some ''skipped: no SBOM directory''\<rparr>, False)
      | Sboms files \<Rightarrow>
          (case co_images co of
             None \<Rightarrow> (ev, False)
           | Some images \<Rightarrow>
               (let docs = sbom_documents files images in
                case find (component_hit (lower (cx_module cx))) (concat docs) of
                  Some c \<Rightarrow> (ev\<lparr>ev_sbom_version := Some (or_str (cp_version c) []), ev_sbom_scan := Some
                    (if cx_in_range cx (Some (or_str (cp_version c) [])) = Some False then ''shipped_out_of_range''
                     else ''shipped_in_range'')\<rparr>, True)
                | None \<Rightarrow> if docs \<noteq> [] then (ev\<lparr>ev_sbom_scan := Some ''module_not_in_sbom''\<rparr>, True) else (ev, False))))"

section \<open>One repository\<close>

datatype clone_run = Clone_raised string | Clone_failed string | Cloned

record analysis =
  an_evidence :: repo_evidence
  an_class :: string
  an_tiers :: "string list"

definition run_analyzer :: "checkout \<Rightarrow> analysis_context \<Rightarrow> repo_evidence \<Rightarrow> tier_result" where
  "run_analyzer co cx ev =
     (if cx_ecosystem cx \<noteq> ''go'' then
        (case analyzer_for_ecosystem (cx_ecosystem cx) of
           None \<Rightarrow> Inl ''KeyError'' | Some a \<Rightarrow> analyze a co cx ev)
      else (case detect_language co of
          None \<Rightarrow> Inr (ev\<lparr>ev_notes := Some ''language not detected''\<rparr>, [])
        | Some lang \<Rightarrow> (case map_of ANALYZERS lang of
            None \<Rightarrow> Inr (ev\<lparr>ev_notes := Some (''no analyzer for '' @ lang @ '' yet'')\<rparr>, [])
          | Some a \<Rightarrow> analyze a co cx ev)))"

definition analyze_repo :: "clone_run \<Rightarrow> checkout \<Rightarrow> analysis_context \<Rightarrow> repo_evidence \<Rightarrow> string + analysis" where
  "analyze_repo clone co cx ev =
     (case clone of
        Clone_raised e \<Rightarrow> Inl e
      | Clone_failed stderr \<Rightarrow> Inr \<lparr>an_evidence = ev\<lparr>ev_notes := Some (''clone failed: '' @ take 200 (strip stderr))\<rparr>,
          an_class = ''inconclusive'', an_tiers = []\<rparr>
      | Cloned \<Rightarrow> bind_res (run_analyzer co cx ev) (\<lambda>(ev1, tiers).
          (case sbom_cross_check co cx ev1 of (ev2, b) \<Rightarrow>
             Inr \<lparr>an_evidence = ev2, an_class = classify_evidence ev2 (cx_ecosystem cx),
               an_tiers = tiers @ ran ''sbom_cross_check'' b\<rparr>)))"


section \<open>The blast radius\<close>

text \<open>SQL's \<open>LIKE\<close>: case is ignored for ASCII letters, a percent sign is any text, an underscore any character.\<close>

fun like :: "string \<Rightarrow> string \<Rightarrow> bool" where
  "like [] s = (s = [])"
| "like (p # ps) s =
     (if p = CHR ''%'' then list_ex (\<lambda>i. like ps (drop i s)) [0..<Suc (length s)]
      else (case s of [] \<Rightarrow> False | c # cs \<Rightarrow> (p = CHR ''_'' \<or> upper_ascii p = upper_ascii c) \<and> like ps cs))"

definition importing_repos :: "graph \<Rightarrow> string \<Rightarrow> string list" where
  "importing_repos g pkg = List.map_filter (\<lambda>((src, dst, rel), _).
     if rel = ''imports_package'' \<and> (case map_of (nodes g) dst of None \<Rightarrow> False
          | Some n \<Rightarrow> n_label n = pkg \<or> like (pkg @ ''/%'') (n_label n)) then Some src else None) (edges g)"

definition has_l4 :: "graph \<Rightarrow> analysis_context \<Rightarrow> bool" where
  "has_l4 g cx \<longleftrightarrow> cx_packages cx \<noteq> [] \<and> list_ex (\<lambda>((_, _, rel), _). rel = ''imports_package'') (edges g)"

definition l4_packages :: "graph \<Rightarrow> analysis_context \<Rightarrow> string \<Rightarrow> string list" where
  "l4_packages g cx repo = filter (\<lambda>pkg. repo \<in> set (importing_repos g pkg)) (cx_packages cx)"

definition blast_radius_seed :: "string \<Rightarrow> string \<Rightarrow> string" where
  "blast_radius_seed module ecosystem =
     (if ecosystem = ''go'' then ''module:'' @ module else ''pkg:'' @ ecosystem @ ''/'' @ module)"

definition repo_url_from_id :: "string \<Rightarrow> string option" where
  "repo_url_from_id repo = (if startswith repo ''repo:'' then Some (''https://'' @ drop 5 repo) else None)"

definition query_products :: "graph \<Rightarrow> string \<Rightarrow> string list" where
  "query_products g repo = product_labels g [repo]"

section \<open>The first pass\<close>

record repo_entry =
  re_repo :: string
  re_products :: "string list"
  re_class :: string
  re_version :: "string option"
  re_direct :: bool
  re_evidence :: repo_evidence

definition first_evidence :: "graph \<Rightarrow> analysis_context \<Rightarrow> requiring \<Rightarrow> repo_evidence" where
  "first_evidence g cx r =
     (let ev = no_evidence\<lparr>ev_l1_version_in_range := cx_in_range cx (rq_version r)\<rparr>;
          pkgs = (if has_l4 g cx then l4_packages g cx (rq_repo r) else []) in
      if pkgs \<noteq> [] then ev\<lparr>ev_l4_package_imported := Some True, ev_l4_packages_found := Some pkgs\<rparr>
      else if has_l4 g cx then ev\<lparr>ev_l4_package_imported := Some False\<rparr> else ev)"

definition first_entry :: "graph \<Rightarrow> analysis_context \<Rightarrow> requiring \<Rightarrow> repo_entry" where
  "first_entry g cx r =
     (let ev = first_evidence g cx r in
      \<lparr>re_repo = rq_repo r, re_products = query_products g (rq_repo r),
       re_class = classify_evidence ev (cx_ecosystem cx), re_version = rq_version r,
       re_direct = (\<not> rq_indirect r), re_evidence = ev\<rparr>)"

definition first_pass :: "graph \<Rightarrow> analysis_context \<Rightarrow> repo_entry list" where
  "first_pass g cx = map (first_entry g cx)
     (b_requiring (q_blast_radius g (blast_radius_seed (cx_module cx) (cx_ecosystem cx))))"

definition to_scan :: "bool \<Rightarrow> repo_entry \<Rightarrow> bool" where
  "to_scan skip_scan e \<longleftrightarrow> \<not> skip_scan \<and> re_class e \<in> {''likely_affected'', ''inconclusive''}
     \<and> truthy (repo_url_from_id (re_repo e))"

section \<open>The second pass\<close>

type_synonym scan_world = "string \<Rightarrow> clone_run \<times> checkout"

definition scan :: "scan_world \<Rightarrow> analysis_context \<Rightarrow> repo_entry \<Rightarrow> string + analysis" where
  "scan w cx e = (case w (re_repo e) of (clone, co) \<Rightarrow> analyze_repo clone co cx (re_evidence e))"

text \<open>The entry of a repository takes the result; only the first with that id does.\<close>

fun put_result :: "string \<Rightarrow> analysis \<Rightarrow> repo_entry list \<Rightarrow> repo_entry list" where
  "put_result rid a [] = []"
| "put_result rid a (e # es) =
     (if re_repo e = rid then e\<lparr>re_evidence := an_evidence a, re_class := an_class a\<rparr> # es
      else e # put_result rid a es)"

record progress =
  pr_entries :: "repo_entry list"
  pr_tiers :: "string set"
  pr_errors :: "string list"

definition complete :: "scan_world \<Rightarrow> analysis_context \<Rightarrow> repo_entry \<Rightarrow> progress \<Rightarrow> progress" where
  "complete w cx e p = (case scan w cx e of
       Inl exc \<Rightarrow> p\<lparr>pr_errors := pr_errors p @ [re_repo e @ '': '' @ exc]\<rparr>
     | Inr a \<Rightarrow> p\<lparr>pr_tiers := pr_tiers p \<union> set (an_tiers a), pr_entries := put_result (re_repo e) a (pr_entries p)\<rparr>)"

definition TIER_MAP :: "(string \<times> string) list" where
  "TIER_MAP = [(''govulncheck_source'', ''govulncheck''), (''elf_string_scan'', ''binary_scan''),
     (''manifest_scan'', ''manifest_scan''), (''source_import_scan'', ''source_scan''), (''symbol_usage_scan'', ''source_scan''),
     (''sbom_cross_check'', ''sbom_cross_check''), (''elf_linked_library_scan'', ''binary_scan'')]"

definition tier_name :: "string \<Rightarrow> string" where
  "tier_name t = (case map_of TIER_MAP t of None \<Rightarrow> t | Some n \<Rightarrow> n)"

record impact_summary =
  su_repos :: nat
  su_in_range :: nat
  su_affected :: nat
  su_likely :: nat
  su_not_observed :: nat
  su_not_in_range :: nat
  su_not_imported :: nat
  su_inconclusive :: nat

definition count_class :: "string \<Rightarrow> repo_entry list \<Rightarrow> nat" where
  "count_class c es = length (filter (\<lambda>e. re_class e = c) es)"

definition summarize_entries :: "repo_entry list \<Rightarrow> impact_summary" where
  "summarize_entries es = \<lparr>su_repos = length es,
     su_in_range = length (filter (\<lambda>e. re_class e \<notin> {''version_not_in_range'', ''not_imported''}) es),
     su_affected = count_class ''affected'' es, su_likely = count_class ''likely_affected'' es,
     su_not_observed = count_class ''not_observed'' es, su_not_in_range = count_class ''version_not_in_range'' es,
     su_not_imported = count_class ''not_imported'' es, su_inconclusive = count_class ''inconclusive'' es\<rparr>"

record artifact =
  ar_summary :: impact_summary
  ar_products :: "string list"
  ar_tiers :: "string list"
  ar_govulncheck :: bool
  ar_binary_scan :: bool
  ar_repos :: "repo_entry list"

definition write_artifact :: "graph \<Rightarrow> analysis_context \<Rightarrow> progress \<Rightarrow> artifact" where
  "write_artifact g cx p =
     \<lparr>ar_summary = summarize_entries (pr_entries p),
      ar_products = b_products (q_blast_radius g (blast_radius_seed (cx_module cx) (cx_ecosystem cx))),
      ar_tiers = sort (map tier_name (sorted_list_of_set (pr_tiers p))),
      ar_govulncheck = (''govulncheck_source'' \<in> pr_tiers p), ar_binary_scan = (''elf_string_scan'' \<in> pr_tiers p),
      ar_repos = pr_entries p\<rparr>"

text \<open>
  \<open>order\<close> is the order in which the scans complete, a permutation of \<open>scans\<close>. A run in which every
  scan raised writes nothing; its messages are \<open>Inl\<close>.
\<close>

definition scans :: "bool \<Rightarrow> graph \<Rightarrow> analysis_context \<Rightarrow> repo_entry list" where
  "scans skip_scan g cx = filter (to_scan skip_scan) (first_pass g cx)"

definition execute :: "bool \<Rightarrow> graph \<Rightarrow> analysis_context \<Rightarrow> scan_world \<Rightarrow> repo_entry list \<Rightarrow> string list + artifact" where
  "execute skip_scan g cx w order =
     (let start = \<lparr>pr_entries = first_pass g cx,
            pr_tiers = insert ''L1'' (if has_l4 g cx then {''L4''} else {}), pr_errors = []\<rparr>;
          p = fold (complete w cx) order start in
      if scans skip_scan g cx \<noteq> [] \<and> length (pr_errors p) = length (scans skip_scan g cx)
      then Inl (pr_errors p) else Inr (write_artifact g cx p))"


section \<open>What the analyzers leave alone\<close>

text \<open>The fields that show reachability, and those of the graph.\<close>

definition same_reach :: "repo_evidence \<Rightarrow> repo_evidence \<Rightarrow> bool" where
  "same_reach ev ev' \<longleftrightarrow> ev_govulncheck ev' = ev_govulncheck ev \<and> ev_joern ev' = ev_joern ev
     \<and> ev_feature_matches ev' = ev_feature_matches ev \<and> ev_l1_version_in_range ev' = ev_l1_version_in_range ev
     \<and> ev_l4_package_imported ev' = ev_l4_package_imported ev"

lemma same_reach_refl [simp]: "same_reach ev ev"
  by (simp add: same_reach_def)

lemma same_reach_trans: "same_reach a b \<Longrightarrow> same_reach b c \<Longrightarrow> same_reach a c"
  by (simp add: same_reach_def)

text \<open>What only the manifests' tier changes besides.\<close>

definition keeps :: "repo_evidence \<Rightarrow> repo_evidence \<Rightarrow> bool" where
  "keeps ev ev' \<longleftrightarrow> same_reach ev ev' \<and> ev_manifest_scan ev' = ev_manifest_scan ev
     \<and> ev_manifest_version ev' = ev_manifest_version ev"

lemma keeps_refl [simp]: "keeps ev ev"
  by (simp add: keeps_def)

lemma keeps_trans: "keeps a b \<Longrightarrow> keeps b c \<Longrightarrow> keeps a c"
  by (auto simp: keeps_def intro: same_reach_trans)

text \<open>
  The pin behind a verdict of the manifests: it is out of range only with a pinned version that is.
\<close>

definition pin_sound :: "analysis_context \<Rightarrow> repo_evidence \<Rightarrow> bool" where
  "pin_sound cx ev \<longleftrightarrow> ev_manifest_scan ev \<noteq> Some ''module_pinned_out_of_range''
     \<or> (\<exists>ver. ev_manifest_version ev = Some ver \<and> cx_in_range cx (Some ver) = Some False)"

lemma pin_sound_keeps: "pin_sound cx ev \<Longrightarrow> keeps ev ev' \<Longrightarrow> pin_sound cx ev'"
  by (simp add: pin_sound_def keeps_def)

lemmas keeps_defs = keeps_def same_reach_def

lemma pin_verdict_keeps: "pin_verdict cx pins ev = Inr ev' \<Longrightarrow> same_reach ev ev' \<and> pin_sound cx ev'"
  by (auto simp: pin_verdict_def same_reach_def pin_sound_def split: list.splits prod.splits json.splits if_splits)

lemma manifest_tier_keeps: "manifest_tier cx saw pins ev = Inr ev' \<Longrightarrow> same_reach ev ev' \<and> pin_sound cx ev'"
  by (auto simp: manifest_tier_def pin_sound_def same_reach_def split: if_splits dest!: pin_verdict_keeps)

lemma source_scan_keeps: "source_scan lang co cx ev = (ev', b) \<Longrightarrow> keeps ev ev'"
  by (auto simp: source_scan_def keeps_defs split: if_splits option.splits)

lemma symbol_scan_keeps: "symbol_usage_scan co cx ev = (ev', b) \<Longrightarrow> keeps ev ev'"
  by (auto simp: symbol_usage_scan_def keeps_defs split: list.splits option.splits)

lemma include_scan_keeps: "include_scan co lib ev = (ev', b) \<Longrightarrow> keeps ev ev'"
  by (auto simp: include_scan_def keeps_defs split: option.splits)

lemma symbol_name_scan_keeps: "symbol_name_scan d cx ev = Inr ev' \<Longrightarrow> keeps ev ev'"
  by (auto simp: symbol_name_scan_def keeps_defs split: list.splits option.splits)

lemma linked_scan_keeps: "linked_library_scan co lib cx ev = Inr (ev', b) \<Longrightarrow> keeps ev ev'"
  by (auto simp: linked_library_scan_def Let_def split: option.splits if_splits dest!: symbol_name_scan_keeps)
    (simp_all add: keeps_defs)

lemma elf_scan_keeps: "elf_scan co cx ev = Inr (ev', b) \<Longrightarrow> keeps ev ev'"
  by (auto simp: elf_scan_def keeps_defs Let_def split: option.splits if_splits)

lemma manual_keeps: "keeps ev (check_needs_manual co ev)"
  by (auto simp: check_needs_manual_def keeps_defs add_note_def split: option.splits)

lemma sbom_keeps: "sbom_cross_check co cx ev = (ev', b) \<Longrightarrow> keeps ev ev'"
  by (auto simp: sbom_cross_check_def keeps_defs Let_def split: sbom_store.splits option.splits if_splits)

lemma level_keeps:
  "keeps ev (lockfile_level saw ev)" "keeps ev (c_level ev)" "keeps ev (go_level ev)"
  "keeps ev (add_note t ev)" "keeps ev (ev\<lparr>ev_level := l\<rparr>)" "keeps ev (ev\<lparr>ev_notes := n\<rparr>)"
  by (simp_all add: keeps_defs lockfile_level_def c_level_def go_level_def add_note_def)

lemma lockfile_keeps:
  assumes "lockfile_analyze lang co cx ev = Inr (ev', tiers)"
  shows "same_reach ev ev' \<and> pin_sound cx ev'"
proof -
  let ?saw = "manifests lang co \<noteq> []"
  obtain pins ev1 where 1: "manifest_tier cx ?saw pins ev = Inr ev1"
    and rest: "(case source_scan lang co cx ev1 of (ev2, b2) \<Rightarrow> case symbol_usage_scan co cx ev2 of (ev3, b3) \<Rightarrow>
      lockfile_level ?saw ev3) = ev'"
    using assms by (auto simp: lockfile_analyze_def Let_def case_prod_unfold)
  obtain ev2 b2 where 2: "source_scan lang co cx ev1 = (ev2, b2)" by fastforce
  obtain ev3 b3 where 3: "symbol_usage_scan co cx ev2 = (ev3, b3)" by fastforce
  from rest 2 3 have "ev' = lockfile_level ?saw ev3" by simp
  with source_scan_keeps [OF 2] symbol_scan_keeps [OF 3] level_keeps(1) [of ev3 ?saw] have "keeps ev1 ev'"
    by (metis keeps_trans)
  with manifest_tier_keeps [OF 1] pin_sound_keeps show ?thesis by (auto simp: keeps_def intro: same_reach_trans)
qed

lemma surface_keeps: "surface_analyze eco co cx ev = Inr (ev', tiers) \<Longrightarrow> same_reach ev ev' \<and> pin_sound cx ev'"
  by (auto simp: surface_analyze_def Let_def split: if_splits dest!: pin_verdict_keeps)
    (simp_all add: same_reach_def add_note_def pin_sound_def)


text \<open>What shows that the vulnerable code of a Go repository is reached.\<close>

definition symbol_in_trace :: "checkout \<Rightarrow> analysis_context \<Rightarrow> bool" where
  "symbol_in_trace co cx \<longleftrightarrow> (case co_govulncheck co of
       Gv_ran ok failure recs \<Rightarrow> (\<exists>c \<in> set (snd (parse_stream recs)). relevant cx c
         \<and> (\<exists>trace \<in> set (findings_of recs (gc_osv c)). truthy (fr_function (first_frame trace))))
     | _ \<Rightarrow> False)"

text \<open>The status of a joern run that did not run is stored in the same field as its verdict.\<close>

definition symbol_called :: "checkout \<Rightarrow> bool" where
  "symbol_called co \<longleftrightarrow> (case co_joern co of
       Joern_doc status ts \<Rightarrow> if status = ''ran'' then (\<exists>t \<in> set ts. jt_symbol t \<and> jt_referenced t \<and> jt_sites t \<noteq> [])
         else take 120 status = ''vulnerable_symbol_called''
     | _ \<Rightarrow> False)"

lemma fold_better_reach:
  "fst (fold better_reach cs best) = ''symbol_reachable'' \<Longrightarrow> fst best \<noteq> ''symbol_reachable'' \<Longrightarrow>
     \<exists>c \<in> set cs. gc_reachability c = ''symbol_reachable''"
proof (induction cs arbitrary: best)
  case (Cons c cs)
  show ?case
  proof (cases "fst (better_reach c best) = ''symbol_reachable''")
    case True
    with Cons.prems(2) show ?thesis by (auto simp: better_reach_def split: if_splits)
  next
    case False
    with Cons.IH [of "better_reach c best"] Cons.prems(1) show ?thesis by auto
  qed
qed simp

lemma best_reach_symbol:
  assumes "fst (best_reach cx (snd (parse_stream recs))) = ''symbol_reachable''"
  shows "\<exists>c \<in> set (snd (parse_stream recs)). relevant cx c
    \<and> (\<exists>trace \<in> set (findings_of recs (gc_osv c)). truthy (fr_function (first_frame trace)))"
proof -
  obtain c where c: "c \<in> set (snd (parse_stream recs))" "relevant cx c" "gc_reachability c = ''symbol_reachable''"
    using fold_better_reach assms by (fastforce simp: best_reach_def)
  from parse_stream_strongest [OF c(1)] c(3) obtain trace where
    "trace \<in> set (findings_of recs (gc_osv c))" "finding_level trace = ''symbol_reachable''"
    by (auto simp: strongest_of_def)
  with c show ?thesis by (auto simp: finding_level_def split: if_splits)
qed

lemma govulncheck_source_reach:
  assumes "govulncheck_source co cx ev = (ev', b)"
  shows "ev_joern ev' = ev_joern ev \<and> ev_feature_matches ev' = ev_feature_matches ev \<and> ev_l1_version_in_range ev' = ev_l1_version_in_range ev
    \<and> (ev_govulncheck ev' = Some ''symbol_reachable'' \<longrightarrow> ev_govulncheck ev = Some ''symbol_reachable'' \<or> symbol_in_trace co cx)"
  using assms best_reach_symbol [of cx]
  by (auto simp: govulncheck_source_def symbol_in_trace_def add_note_def split: gv_run.splits prod.splits if_splits)
    (metis fst_conv snd_conv)+

lemma go_reach:
  assumes "go_analyze co cx ev = Inr (ev', tiers)" and "ev_govulncheck ev = None"
  shows "ev_joern ev' = ev_joern ev \<and> ev_feature_matches ev' = ev_feature_matches ev \<and> ev_l1_version_in_range ev' = ev_l1_version_in_range ev
    \<and> (ev_govulncheck ev' = Some ''symbol_reachable'' \<longrightarrow> symbol_in_trace co cx)"
proof (cases "exists_in co [''go.mod'']")
  case True
  obtain ev1 b1 where g: "govulncheck_source co cx ev = (ev1, b1)" by fastforce
  show ?thesis
  proof (cases "ev_govulncheck ev1 = Some ''symbol_reachable''")
    case True
    with assms g \<open>exists_in co [''go.mod'']\<close> govulncheck_source_reach [OF g] show ?thesis
      by (auto simp: go_analyze_def)
  next
    case False
    then obtain ev2 b2 where "elf_scan co cx ev1 = Inr (ev2, b2)" and e: "ev' = go_level (check_needs_manual co ev2)"
      using assms(1) g True by (auto simp: go_analyze_def)
    then have "keeps ev1 ev'"
      by (metis elf_scan_keeps manual_keeps level_keeps(3) keeps_trans)
    with False govulncheck_source_reach [OF g] show ?thesis by (simp add: keeps_defs)
  qed
qed (use assms in \<open>auto simp: go_analyze_def\<close>)

lemma joern_targets_reach:
  "joern_targets ts ev = Inr ev' \<Longrightarrow> ev_govulncheck ev' = ev_govulncheck ev \<and> ev_feature_matches ev' = ev_feature_matches ev \<and> ev_l1_version_in_range ev' = ev_l1_version_in_range ev
     \<and> (ev_joern ev' = Some ''vulnerable_symbol_called'' \<longrightarrow> (\<exists>t \<in> set ts. jt_symbol t \<and> jt_referenced t \<and> jt_sites t \<noteq> []))"
  by (auto simp: joern_targets_def split: list.splits dest!: filter_eq_ConsD)

lemma joern_reach:
  "joern_tier co ev = Inr (ev', b) \<Longrightarrow> ev_govulncheck ev' = ev_govulncheck ev \<and> ev_feature_matches ev' = ev_feature_matches ev \<and> ev_l1_version_in_range ev' = ev_l1_version_in_range ev
     \<and> (ev_joern ev' = Some ''vulnerable_symbol_called'' \<longrightarrow> symbol_called co)"
  by (auto simp: joern_tier_def symbol_called_def split: joern_run.splits if_splits dest!: joern_targets_reach)

lemma c_reach:
  assumes "c_analyze co cx ev = Inr (ev', tiers)" and "ev_joern ev = None"
  shows "ev_govulncheck ev' = ev_govulncheck ev \<and> ev_feature_matches ev' = ev_feature_matches ev \<and> ev_l1_version_in_range ev' = ev_l1_version_in_range ev
    \<and> (ev_joern ev' = Some ''vulnerable_symbol_called'' \<longrightarrow> symbol_called co)"
proof -
  let ?lib = "after_last CHR ''/'' (cx_module cx)"
  obtain ev1 b1 where 1: "include_scan co ?lib ev = (ev1, b1)" by fastforce
  obtain ev2 b2 where 2: "linked_library_scan co ?lib cx ev1 = Inr (ev2, b2)"
    and rest: "ev' = c_level ev2 \<or> (\<exists>b4. joern_tier co (c_level ev2) = Inr (ev', b4))"
    using assms(1) 1 by (auto simp: c_analyze_def Let_def split: if_splits)
  have "keeps ev (c_level ev2)"
    using include_scan_keeps [OF 1] linked_scan_keeps [OF 2] level_keeps(2) [of ev2] by (metis keeps_trans)
  with assms(2) have "ev_joern (c_level ev2) = None" "ev_govulncheck (c_level ev2) = ev_govulncheck ev"
    "ev_feature_matches (c_level ev2) = ev_feature_matches ev"
    "ev_l1_version_in_range (c_level ev2) = ev_l1_version_in_range ev" by (auto simp: keeps_defs)
  with rest show ?thesis by (auto dest: joern_reach)
qed

text \<open>What the analyzers together can show, by the ecosystem the run is for.\<close>

definition reach_shown :: "checkout \<Rightarrow> analysis_context \<Rightarrow> bool" where
  "reach_shown co cx \<longleftrightarrow> cx_ecosystem cx = ''go'' \<and> (symbol_in_trace co cx \<or> symbol_called co)"

definition nothing_reached :: "repo_evidence \<Rightarrow> bool" where
  "nothing_reached ev \<longleftrightarrow> ev_govulncheck ev = None \<and> ev_joern ev = None \<and> ev_feature_matches ev = None"

lemma analyze_reach:
  assumes "analyze a co cx ev = Inr (ev', tiers)" and "nothing_reached ev"
  shows "reached ev' \<longrightarrow> a = Go_analyzer \<and> symbol_in_trace co cx \<or> a = C_analyzer \<and> symbol_called co"
proof (cases a)
  case Go_analyzer
  with assms go_reach [of co cx ev ev' tiers] show ?thesis
    by (auto simp: analyze_def nothing_reached_def reached_def feature_match_def)
next
  case (Lockfile_analyzer lang)
  with assms lockfile_keeps [of lang co cx ev ev' tiers] show ?thesis
    by (auto simp: analyze_def nothing_reached_def reached_def feature_match_def same_reach_def)
next
  case C_analyzer
  with assms c_reach [of co cx ev ev' tiers] show ?thesis
    by (auto simp: analyze_def nothing_reached_def reached_def feature_match_def)
next
  case (Surface_analyzer eco)
  with assms surface_keeps [of eco co cx ev ev' tiers] show ?thesis
    by (auto simp: analyze_def nothing_reached_def reached_def feature_match_def same_reach_def)
qed

lemma analyze_l1:
  assumes "analyze a co cx ev = Inr (ev', tiers)" and "nothing_reached ev"
  shows "ev_l1_version_in_range ev' = ev_l1_version_in_range ev"
  using assms by (cases a)
    (auto simp: analyze_def nothing_reached_def same_reach_def dest: go_reach c_reach lockfile_keeps surface_keeps)

lemma run_analyzer_l1:
  "run_analyzer co cx ev = Inr (ev', tiers) \<Longrightarrow> nothing_reached ev \<Longrightarrow> ev_l1_version_in_range ev' = ev_l1_version_in_range ev"
  by (auto simp: run_analyzer_def split: if_splits option.splits dest: analyze_l1)

lemma ecosystem_analyzer:
  "eco \<noteq> ''go'' \<Longrightarrow> analyzer_for_ecosystem eco = Some a \<Longrightarrow> a \<noteq> Go_analyzer \<and> a \<noteq> C_analyzer"
  by (auto simp: analyzer_for_ecosystem_def ECOSYSTEM_ANALYZERS_def split: if_splits)

lemma run_analyzer_reach:
  assumes "run_analyzer co cx ev = Inr (ev', tiers)" and "nothing_reached ev" and "reached ev'"
  shows "reach_shown co cx"
proof (cases "cx_ecosystem cx = ''go''")
  case True
  then consider n where "ev' = ev\<lparr>ev_notes := n\<rparr>" | a where "analyze a co cx ev = Inr (ev', tiers)"
    using assms(1) by (auto simp: run_analyzer_def split: option.splits)
  then show ?thesis
  proof cases
    case 1
    with assms(2,3) show ?thesis by (simp add: nothing_reached_def reached_def feature_match_def)
  next
    case 2
    with analyze_reach [OF 2 assms(2)] assms(3) True show ?thesis by (auto simp: reach_shown_def)
  qed
next
  case False
  then obtain a where a: "analyzer_for_ecosystem (cx_ecosystem cx) = Some a" "analyze a co cx ev = Inr (ev', tiers)"
    using assms(1) by (auto simp: run_analyzer_def split: option.splits)
  with ecosystem_analyzer [OF False a(1)] analyze_reach [OF a(2) assms(2)] assms(3) show ?thesis by blast
qed


text \<open>No tier but the manifests' puts a pin out of range.\<close>

lemma govulncheck_pins: "govulncheck_source co cx ev = (ev', b) \<Longrightarrow> pin_sound cx ev \<Longrightarrow> pin_sound cx ev'"
  by (auto simp: govulncheck_source_def pin_sound_def add_note_def split: gv_run.splits prod.splits if_splits)

lemma joern_pins: "joern_tier co ev = Inr (ev', b) \<Longrightarrow> pin_sound cx ev \<Longrightarrow> pin_sound cx ev'"
  by (auto simp: joern_tier_def joern_targets_def pin_sound_def split: joern_run.splits list.splits if_splits)

lemma analyze_pins:
  assumes "analyze a co cx ev = Inr (ev', tiers)" and "pin_sound cx ev"
  shows "pin_sound cx ev'"
proof (cases a)
  case Go_analyzer
  then have g: "go_analyze co cx ev = Inr (ev', tiers)" using assms(1) by (simp add: analyze_def)
  obtain ev1 b1 where 1: "govulncheck_source co cx ev = (ev1, b1)" by fastforce
  consider n where "ev' = ev\<lparr>ev_notes := n\<rparr>" | l where "ev' = ev1\<lparr>ev_level := l\<rparr>"
    | ev2 b2 where "elf_scan co cx ev1 = Inr (ev2, b2)" "ev' = go_level (check_needs_manual co ev2)"
    using g 1 by (auto simp: go_analyze_def split: if_splits)
  then show ?thesis
  proof cases
    case 3
    then have "keeps ev1 ev'" by (metis elf_scan_keeps manual_keeps level_keeps(3) keeps_trans)
    then show ?thesis using govulncheck_pins [OF 1 assms(2)] pin_sound_keeps by blast
  qed (use assms(2) govulncheck_pins [OF 1 assms(2)] in \<open>auto simp: pin_sound_def\<close>)
next
  case C_analyzer
  then have c: "c_analyze co cx ev = Inr (ev', tiers)" using assms(1) by (simp add: analyze_def)
  let ?lib = "after_last CHR ''/'' (cx_module cx)"
  obtain ev1 b1 where 1: "include_scan co ?lib ev = (ev1, b1)" by fastforce
  obtain ev2 b2 where 2: "linked_library_scan co ?lib cx ev1 = Inr (ev2, b2)"
    and rest: "ev' = c_level ev2 \<or> (\<exists>b4. joern_tier co (c_level ev2) = Inr (ev', b4))"
    using c 1 by (auto simp: c_analyze_def Let_def split: if_splits)
  have "pin_sound cx (c_level ev2)"
    using include_scan_keeps [OF 1] linked_scan_keeps [OF 2] level_keeps(2) [of ev2] assms(2)
    by (metis keeps_trans pin_sound_keeps)
  with rest show ?thesis by (auto dest: joern_pins)
qed (use assms lockfile_keeps surface_keeps in \<open>auto simp: analyze_def\<close>)

lemma run_analyzer_pins:
  "run_analyzer co cx ev = Inr (ev', tiers) \<Longrightarrow> pin_sound cx ev \<Longrightarrow> pin_sound cx ev'"
  by (auto simp: run_analyzer_def pin_sound_def [of cx ev'] split: if_splits option.splits dest: analyze_pins)
    (auto simp: pin_sound_def dest: analyze_pins)

section \<open>The order of completion does not matter\<close>

definition scanned_entry :: "scan_world \<Rightarrow> analysis_context \<Rightarrow> repo_entry \<Rightarrow> repo_entry" where
  "scanned_entry w cx e = (case scan w cx e of
       Inl _ \<Rightarrow> e | Inr a \<Rightarrow> e\<lparr>re_evidence := an_evidence a, re_class := an_class a\<rparr>)"

definition raised :: "scan_world \<Rightarrow> analysis_context \<Rightarrow> repo_entry \<Rightarrow> bool" where
  "raised w cx e \<longleftrightarrow> isl (scan w cx e)"

definition scanned_tiers :: "scan_world \<Rightarrow> analysis_context \<Rightarrow> repo_entry \<Rightarrow> string set" where
  "scanned_tiers w cx e = (case scan w cx e of Inl _ \<Rightarrow> {} | Inr a \<Rightarrow> set (an_tiers a))"

definition applied :: "scan_world \<Rightarrow> analysis_context \<Rightarrow> repo_entry set \<Rightarrow> repo_entry \<Rightarrow> repo_entry" where
  "applied w cx S e = (if e \<in> S then scanned_entry w cx e else e)"

lemma applied_repo [simp]: "re_repo (applied w cx S e) = re_repo e"
  by (simp add: applied_def scanned_entry_def split: sum.splits)

lemma put_result_other: "rid \<notin> re_repo ` set es \<Longrightarrow> put_result rid a es = es"
  by (induction es) auto

lemma put_result_applied:
  assumes "distinct (map re_repo es)" and "e \<in> set es" and "e \<notin> S" and "scan w cx e = Inr a"
  shows "put_result (re_repo e) a (map (applied w cx S) es) = map (applied w cx (insert e S)) es"
  using assms(1,2)
proof (induction es)
  case (Cons x es)
  show ?case
  proof (cases "x = e")
    case True
    then have "e \<notin> set es" using Cons.prems(1) by auto
    then have "map (applied w cx S) es = map (applied w cx (insert e S)) es"
      by (auto simp: applied_def)
    then show ?thesis using True assms(3,4) by (simp add: applied_def scanned_entry_def)
  next
    case False
    then have "e \<in> set es" using Cons.prems(2) by simp
    then have "re_repo x \<noteq> re_repo e" using Cons.prems(1) by (metis distinct.simps(2) image_eqI list.map(2) list.set_map)
    moreover have "applied w cx (insert e S) x = applied w cx S x" using False by (simp add: applied_def)
    ultimately show ?thesis using Cons.IH Cons.prems(1) \<open>e \<in> set es\<close> by simp
  qed
qed simp

lemma complete_all:
  assumes "distinct (map re_repo es)"
  shows "distinct order \<Longrightarrow> set order \<subseteq> set es \<Longrightarrow> set order \<inter> S = {} \<Longrightarrow> pr_entries p = map (applied w cx S) es \<Longrightarrow>
     pr_entries (fold (complete w cx) order p) = map (applied w cx (S \<union> set order)) es
     \<and> pr_tiers (fold (complete w cx) order p) = pr_tiers p \<union> \<Union> (scanned_tiers w cx ` set order)
     \<and> length (pr_errors (fold (complete w cx) order p)) = length (pr_errors p) + length (filter (raised w cx) order)"
proof (induction order arbitrary: S p)
  case (Cons e order)
  let ?p = "complete w cx e p"
  have "pr_entries ?p = map (applied w cx (insert e S)) es"
  proof (cases "scan w cx e")
    case (Inl exc)
    then have "applied w cx (insert e S) = applied w cx S" by (auto simp: applied_def scanned_entry_def)
    with Inl Cons.prems(4) show ?thesis by (simp add: complete_def)
  next
    case (Inr a)
    then show ?thesis
      using put_result_applied [OF assms, of e S] Cons.prems by (simp add: complete_def)
  qed
  from Cons.IH [OF _ _ _ this] Cons.prems show ?case
    by (auto simp: complete_def scanned_tiers_def raised_def split: sum.splits)
qed simp

lemma first_pass_repos:
  "map re_repo (first_pass g cx) = map rq_repo (b_requiring (q_blast_radius g (blast_radius_seed (cx_module cx) (cx_ecosystem cx))))"
  by (simp add: first_pass_def first_entry_def Let_def comp_def)

lemma distinct_first_pass: "store_ok g \<Longrightarrow> distinct (map re_repo (first_pass g cx))"
  by (simp add: first_pass_repos distinct_requiring)

text \<open>The artifact of a run, whatever the order.\<close>

definition final_progress :: "bool \<Rightarrow> graph \<Rightarrow> analysis_context \<Rightarrow> scan_world \<Rightarrow> progress" where
  "final_progress skip_scan g cx w = \<lparr>pr_entries = map (applied w cx (set (scans skip_scan g cx))) (first_pass g cx),
     pr_tiers = insert ''L1'' (if has_l4 g cx then {''L4''} else {}) \<union> \<Union> (scanned_tiers w cx ` set (scans skip_scan g cx)),
     pr_errors = []\<rparr>"

lemma execute_result:
  assumes "store_ok g" and "distinct order" and "set order = set (scans skip_scan g cx)"
  shows "(\<exists>errs. execute skip_scan g cx w order = Inl errs) \<longleftrightarrow>
      scans skip_scan g cx \<noteq> [] \<and> (\<forall>e \<in> set (scans skip_scan g cx). raised w cx e)"
    and "execute skip_scan g cx w order = Inr A \<Longrightarrow> A = write_artifact g cx (final_progress skip_scan g cx w)"
proof -
  define tiers where "tiers = insert ''L1'' (if has_l4 g cx then {''L4''} else {})"
  let ?start = "\<lparr>pr_entries = first_pass g cx, pr_tiers = tiers, pr_errors = []\<rparr>"
  let ?p = "fold (complete w cx) order ?start"
  have d: "distinct (map re_repo (first_pass g cx))" by (rule distinct_first_pass [OF assms(1)])
  have sub: "set order \<subseteq> set (first_pass g cx)" by (simp add: assms(3) scans_def)
  have start: "pr_entries ?start = map (applied w cx {}) (first_pass g cx)"
    by (auto simp: applied_def intro!: map_idI [symmetric])
  from complete_all [OF d assms(2) sub _ start] have p:
    "pr_entries ?p = pr_entries (final_progress skip_scan g cx w)" "pr_tiers ?p = pr_tiers (final_progress skip_scan g cx w)"
    "length (pr_errors ?p) = length (filter (raised w cx) order)"
    by (simp_all add: final_progress_def assms(3) flip: tiers_def)
  have "distinct (scans skip_scan g cx)" using d by (auto simp: scans_def distinct_map)
  then have len: "length order = length (scans skip_scan g cx)"
    using assms(2,3) by (metis distinct_card)
  have all: "length (filter (raised w cx) order) = length order \<longleftrightarrow> (\<forall>e \<in> set order. raised w cx e)"
    by (metis filter_True length_filter_less less_irrefl)
  show "(\<exists>errs. execute skip_scan g cx w order = Inl errs) \<longleftrightarrow>
      scans skip_scan g cx \<noteq> [] \<and> (\<forall>e \<in> set (scans skip_scan g cx). raised w cx e)"
    using p(3) len all assms(3) by (simp add: execute_def Let_def flip: tiers_def)
  show "execute skip_scan g cx w order = Inr A \<Longrightarrow> A = write_artifact g cx (final_progress skip_scan g cx w)"
    using p by (simp add: execute_def Let_def write_artifact_def flip: tiers_def split: if_splits)
qed


lemma first_evidence_fields [simp]:
  "ev_govulncheck (first_evidence g cx r) = None" "ev_joern (first_evidence g cx r) = None"
  "ev_feature_matches (first_evidence g cx r) = None" "ev_manifest_scan (first_evidence g cx r) = None"
  "ev_l1_version_in_range (first_evidence g cx r) = cx_in_range cx (rq_version r)"
  by (simp_all add: first_evidence_def Let_def no_evidence_def)

lemma first_entry_fields:
  assumes "e \<in> set (first_pass g cx)"
  shows "re_class e = classify_evidence (re_evidence e) (cx_ecosystem cx)" and "nothing_reached (re_evidence e)"
    and "pin_sound cx (re_evidence e)" and "ev_l1_version_in_range (re_evidence e) = cx_in_range cx (re_version e)"
    and "ev_manifest_scan (re_evidence e) = None"
  using assms by (auto simp: first_pass_def first_entry_def Let_def nothing_reached_def pin_sound_def)

text \<open>Why an entry of the artifact has its class.\<close>

definition verdict_grounded :: "scan_world \<Rightarrow> analysis_context \<Rightarrow> repo_entry \<Rightarrow> bool" where
  "verdict_grounded w cx e \<longleftrightarrow>
     (re_class e = ''affected'' \<longrightarrow> cx_in_range cx (re_version e) \<noteq> Some False
        \<and> fst (w (re_repo e)) = Cloned \<and> reach_shown (snd (w (re_repo e))) cx)
     \<and> (re_class e = ''version_not_in_range'' \<longrightarrow> cx_in_range cx (re_version e) = Some False
        \<or> (\<exists>ver. ev_manifest_version (re_evidence e) = Some ver \<and> cx_in_range cx (Some ver) = Some False))"

lemma unscanned_grounded: "e \<in> set (first_pass g cx) \<Longrightarrow> verdict_grounded w cx e"
  using first_entry_fields [of e g cx]
  by (auto simp: verdict_grounded_def classify_affected_iff nothing_reached_def reached_def feature_match_def
      dest!: classify_out_of_range)

lemma scan_result:
  assumes "scan w cx e = Inr a" and "nothing_reached (re_evidence e)" and "pin_sound cx (re_evidence e)"
  shows "(an_class a = ''affected'' \<longrightarrow> fst (w (re_repo e)) = Cloned \<and> reach_shown (snd (w (re_repo e))) cx)
    \<and> (an_class a = ''version_not_in_range'' \<longrightarrow> ev_l1_version_in_range (re_evidence e) = Some False \<or>
        (\<exists>ver. ev_manifest_version (an_evidence a) = Some ver \<and> cx_in_range cx (Some ver) = Some False))"
proof (cases "fst (w (re_repo e))")
  case Cloned
  obtain ev1 tiers where r: "run_analyzer (snd (w (re_repo e))) cx (re_evidence e) = Inr (ev1, tiers)"
    using assms(1) Cloned by (auto simp: scan_def analyze_repo_def case_prod_unfold)
  obtain ev2 b where b: "sbom_cross_check (snd (w (re_repo e))) cx ev1 = (ev2, b)" by fastforce
  have a: "an_evidence a = ev2" "an_class a = classify_evidence ev2 (cx_ecosystem cx)"
    using assms(1) Cloned r b by (auto simp: scan_def analyze_repo_def case_prod_unfold)
  have k: "keeps ev1 ev2" using sbom_keeps [OF b] .
  then have "reached ev2 \<longrightarrow> reach_shown (snd (w (re_repo e))) cx"
    using run_analyzer_reach [OF r assms(2)] by (simp add: keeps_defs reached_def feature_match_def govulncheck_negative_def)
  moreover have "pin_sound cx ev2"
    using run_analyzer_pins [OF r assms(3)] k by (rule pin_sound_keeps)
  moreover have "ev_l1_version_in_range ev2 = ev_l1_version_in_range (re_evidence e)"
    using run_analyzer_l1 [OF r assms(2)] k by (simp add: keeps_defs)
  ultimately show ?thesis
    using Cloned by (auto simp: a classify_affected_iff pin_sound_def dest!: classify_out_of_range)
qed (use assms(1) in \<open>auto simp: scan_def analyze_repo_def case_prod_unfold\<close>)


lemma scanned_grounded:
  assumes "e \<in> set (scans skip_scan g cx)"
  shows "verdict_grounded w cx (scanned_entry w cx e)"
proof -
  have e: "e \<in> set (first_pass g cx)" and c: "re_class e \<in> {''likely_affected'', ''inconclusive''}"
    using assms by (auto simp: scans_def to_scan_def)
  note f = first_entry_fields [OF e]
  have l1: "cx_in_range cx (re_version e) \<noteq> Some False"
    using c f(1,4) by (auto simp: classify_evidence_def)
  show ?thesis
  proof (cases "scan w cx e")
    case Inl
    then show ?thesis using unscanned_grounded [OF e] by (simp add: scanned_entry_def)
  next
    case (Inr a)
    with scan_result [OF Inr f(2,3)] l1 f(4) show ?thesis by (auto simp: verdict_grounded_def scanned_entry_def)
  qed
qed

lemma final_class: "e \<in> set (pr_entries (final_progress skip_scan g cx w)) \<Longrightarrow> re_class e \<in> set CLASSES"
proof -
  assume "e \<in> set (pr_entries (final_progress skip_scan g cx w))"
  then obtain x where x: "x \<in> set (first_pass g cx)" "e = applied w cx (set (scans skip_scan g cx)) x"
    by (auto simp: final_progress_def)
  have inc: "''inconclusive'' \<in> set CLASSES" by (simp add: CLASSES_def)
  have "scan w cx x = Inr a \<Longrightarrow> an_class a \<in> set CLASSES" for a
    using classify_in_classes inc
    by (auto simp: scan_def analyze_repo_def case_prod_unfold split: clone_run.splits)
  moreover have "re_class x \<in> set CLASSES"
    using first_entry_fields(1) [OF x(1)] classify_in_classes by simp
  ultimately show ?thesis using x(2) by (auto simp: applied_def scanned_entry_def split: sum.splits if_splits)
qed

lemma count_classes: "\<forall>e \<in> set es. re_class e \<in> set CLASSES \<Longrightarrow>
    length es = count_class ''affected'' es + count_class ''likely_affected'' es + count_class ''not_observed'' es
      + count_class ''version_not_in_range'' es + count_class ''inconclusive'' es
    \<and> count_class ''not_imported'' es = 0
    \<and> length (filter (\<lambda>e. re_class e \<notin> {''version_not_in_range'', ''not_imported''}) es)
        = length es - count_class ''version_not_in_range'' es"
proof (induction es)
  case (Cons e es)
  have "count_class ''version_not_in_range'' es \<le> length es" by (simp add: count_class_def)
  with Cons show ?case by (auto simp: count_class_def CLASSES_def)
qed (simp add: count_class_def)

section \<open>Properties\<close>

text \<open>
  C33. The order in which the pool's scans complete changes nothing: with any two orders of the same
  scans a run fails or writes its artifact alike, and the artifact is the same.
\<close>

theorem completion_order_irrelevant:
  assumes "store_ok g"
    and "distinct order" "set order = set (scans skip_scan g cx)"
    and "distinct order'" "set order' = set (scans skip_scan g cx)"
  shows "((\<exists>errs. execute skip_scan g cx w order = Inl errs) \<longleftrightarrow> (\<exists>errs. execute skip_scan g cx w order' = Inl errs))
    \<and> (execute skip_scan g cx w order = Inr A \<longleftrightarrow> execute skip_scan g cx w order' = Inr A)"
proof -
  note r = execute_result [OF assms(1)]
  have fail: "(\<exists>errs. execute skip_scan g cx w order = Inl errs) \<longleftrightarrow> (\<exists>errs. execute skip_scan g cx w order' = Inl errs)"
    using r(1) [OF assms(2,3)] r(1) [OF assms(4,5)] by simp
  then show ?thesis
    using r(2) [OF assms(2,3)] r(2) [OF assms(4,5)]
    by (cases "execute skip_scan g cx w order"; cases "execute skip_scan g cx w order'") auto
qed

text \<open>
  The artifact accounts for the whole blast radius: its repositories are those of the graph's query,
  each once and in that order, every one has one of five classes, and the summary's counts of those classes
  add up to their number.
\<close>

theorem artifact_accounts_for_radius:
  assumes "store_ok g" and "distinct order" "set order = set (scans skip_scan g cx)"
    and "execute skip_scan g cx w order = Inr A"
  shows "map re_repo (ar_repos A)
      = map rq_repo (b_requiring (q_blast_radius g (blast_radius_seed (cx_module cx) (cx_ecosystem cx))))
    \<and> distinct (map re_repo (ar_repos A))
    \<and> (\<forall>e \<in> set (ar_repos A). re_class e \<in> set CLASSES)
    \<and> (case ar_summary A of s \<Rightarrow> su_repos s = length (ar_repos A)
        \<and> su_affected s + su_likely s + su_not_observed s + su_not_in_range s + su_inconclusive s = su_repos s
        \<and> su_in_range s = su_repos s - su_not_in_range s \<and> su_not_imported s = 0)"
proof -
  have A: "A = write_artifact g cx (final_progress skip_scan g cx w)"
    by (rule execute_result(2) [OF assms])
  have repos: "map re_repo (ar_repos A) = map re_repo (first_pass g cx)"
    by (simp add: A write_artifact_def final_progress_def comp_def)
  have classes: "\<forall>e \<in> set (ar_repos A). re_class e \<in> set CLASSES"
    using final_class by (simp add: A write_artifact_def)
  have "ar_summary A = summarize_entries (ar_repos A)" by (simp add: A write_artifact_def)
  with count_classes [OF classes] have "su_repos (ar_summary A) = length (ar_repos A)"
    and "su_affected (ar_summary A) + su_likely (ar_summary A) + su_not_observed (ar_summary A)
      + su_not_in_range (ar_summary A) + su_inconclusive (ar_summary A) = su_repos (ar_summary A)"
    and "su_in_range (ar_summary A) = su_repos (ar_summary A) - su_not_in_range (ar_summary A)"
    and "su_not_imported (ar_summary A) = 0"
    by (simp_all add: summarize_entries_def)
  then show ?thesis
    using classes repos first_pass_repos [of g cx] distinct_first_pass [OF assms(1), of cx] by simp
qed

text \<open>
  C12. No verdict of the artifact lacks its ground. A repository is affected only if its version is not
  known to be out of range, it was cloned and scanned, the run is for Go, and either a govulncheck finding
  reaches a function of an OSV entry of this advisory or module, or joern resolved a call to a vulnerable
  symbol: no manifest, lockfile or surface ecosystem ever reports affected. And a repository is out of range
  only if the advisory rules out its version in the graph or a version its manifests pin.
\<close>

theorem verdicts_grounded:
  assumes "store_ok g" and "distinct order" "set order = set (scans skip_scan g cx)"
    and "execute skip_scan g cx w order = Inr A" and "e \<in> set (ar_repos A)"
  shows "verdict_grounded w cx e"
proof -
  have "A = write_artifact g cx (final_progress skip_scan g cx w)"
    by (rule execute_result(2) [OF assms(1-4)])
  with assms(5) obtain x where x: "x \<in> set (first_pass g cx)" "e = applied w cx (set (scans skip_scan g cx)) x"
    by (auto simp: write_artifact_def final_progress_def)
  then show ?thesis
    using scanned_grounded unscanned_grounded by (auto simp: applied_def)
qed


section \<open>A run\<close>

text \<open>
  Two repositories require the module below its fix. The clone of the first raises; in the second
  govulncheck reaches a function of the advisory's entry.
\<close>

definition demo_edges :: graph where
  "demo_edges = demo_graph\<lparr>edges := [((''repo:a'', ''module:m'', ''depends_on''), require_attrs (''v0.1.0'', False)),
     ((''repo:b'', ''module:m'', ''depends_on''), require_attrs (''v0.2.0'', True))]\<rparr>"

definition demo_cx :: analysis_context where
  "demo_cx = \<lparr>cx_cve = ''CVE-1'', cx_module = ''m'', cx_packages = [], cx_symbols = [], cx_range = [],
     cx_fixed = Some ''v1.0.0'', cx_ecosystem = ''go'', cx_advisory = None\<rparr>"

definition demo_trace :: "frame list" where
  "demo_trace = [\<lparr>fr_function = Some ''f'', fr_receiver = None, fr_package = Some ''m/p'', fr_module = Some ''m'',
     fr_version = None, fr_position = None\<rparr>]"

definition demo_checkout :: checkout where
  "demo_checkout = \<lparr>co_root = [], co_files = [([''go.mod''], Some [])], co_loads = \<lambda>_. None, co_rg = \<lambda>_. None,
     co_govulncheck = Gv_ran True [] [Config, Osv (Some ''GO-1'') [''CVE-1''], Finding (Some ''GO-1'') demo_trace None],
     co_images = None, co_bin_dir = \<lambda>_. [], co_joern = Joern_missing, co_sboms = Sbom_unset, co_surface = \<lambda>_. []\<rparr>"

definition demo_world :: scan_world where
  "demo_world repo = (if repo = ''repo:b'' then Cloned else Clone_raised ''timeout'', demo_checkout)"

definition demo_order :: "repo_entry list" where
  "demo_order = scans False demo_edges demo_cx"

definition demo_artifact :: artifact where
  "demo_artifact = (case execute False demo_edges demo_cx demo_world demo_order of
     Inr A \<Rightarrow> A | Inl _ \<Rightarrow> write_artifact demo_edges demo_cx \<lparr>pr_entries = [], pr_tiers = {}, pr_errors = []\<rparr>)"

lemma demo_edges_ok: "store_ok demo_edges"
  by code_simp

lemma demo_order_ok: "distinct demo_order" "length demo_order = 2"
  by code_simp+

lemma demo_impact_run: "execute False demo_edges demo_cx demo_world demo_order = Inr demo_artifact"
proof -
  have "\<not> isl (execute False demo_edges demo_cx demo_world demo_order)" by code_simp
  then show ?thesis
    by (cases "execute False demo_edges demo_cx demo_world demo_order") (simp_all add: demo_artifact_def)
qed

lemma demo_classes: "map re_class (ar_repos demo_artifact) = [''inconclusive'', ''affected'']"
  by code_simp


lemma demo_set: "set demo_order = set (scans False demo_edges demo_cx)"
  by (simp add: demo_order_def)

theorem completion_order_irrelevant_witness:
  "rev demo_order \<noteq> demo_order \<and> execute False demo_edges demo_cx demo_world (rev demo_order) = Inr demo_artifact"
proof
  have "distinct (rev demo_order)" "set (rev demo_order) = set (scans False demo_edges demo_cx)"
    using demo_order_ok demo_set by simp_all
  from completion_order_irrelevant [OF demo_edges_ok this demo_order_ok(1) demo_set, of demo_world demo_artifact] demo_impact_run
  show "execute False demo_edges demo_cx demo_world (rev demo_order) = Inr demo_artifact" by blast
  obtain a b where ab: "demo_order = [a, b]"
    using demo_order_ok(2) by (auto simp: length_Suc_conv eval_nat_numeral)
  from demo_order_ok(1) show "rev demo_order \<noteq> demo_order" unfolding ab by auto
qed

theorem artifact_accounts_for_radius_witness:
  "su_repos (ar_summary demo_artifact) = length (ar_repos demo_artifact)
   \<and> su_affected (ar_summary demo_artifact) + su_likely (ar_summary demo_artifact)
     + su_not_observed (ar_summary demo_artifact) + su_not_in_range (ar_summary demo_artifact)
     + su_inconclusive (ar_summary demo_artifact) = su_repos (ar_summary demo_artifact)"
  using artifact_accounts_for_radius [OF demo_edges_ok demo_order_ok(1) demo_set demo_impact_run] by simp

theorem verdicts_grounded_witness:
  "\<exists>e. e \<in> set (ar_repos demo_artifact) \<and> re_class e = ''affected'' \<and> reach_shown demo_checkout demo_cx"
proof -
  have "''affected'' \<in> set (map re_class (ar_repos demo_artifact))" by (simp add: demo_classes)
  then obtain e where e: "e \<in> set (ar_repos demo_artifact)" "re_class e = ''affected''" by auto
  from verdicts_grounded [OF demo_edges_ok demo_order_ok(1) demo_set demo_impact_run e(1)] e show ?thesis
    by (auto simp: verdict_grounded_def demo_world_def)
qed

text \<open>
  A govulncheck finding of another entry counts as soon as it is in the same module: here no entry of the
  stream is the advisory's, and the repository is affected.
\<close>

lemma other_entry_of_module_counts:
  "map_option an_class (case analyze_repo Cloned (demo_checkout\<lparr>co_govulncheck := Gv_ran True []
       [Config, Osv (Some ''GO-2'') [''CVE-2''], Finding (Some ''GO-2'') demo_trace None]\<rparr>) demo_cx no_evidence of
     Inr a \<Rightarrow> Some a | Inl _ \<Rightarrow> None) = Some ''affected''"
  by code_simp

text \<open>
  Two lockfiles pin the module, the first below the fix and the second at it: the later pin replaces the
  earlier one, and the repository is out of range.
\<close>

definition cargo_lock :: "string \<Rightarrow> string" where
  "cargo_lock v = ''name = '' @ [CHR 0x22] @ ''m'' @ [CHR 0x22, CHR 0x0A] @ ''version = '' @ [CHR 0x22] @ v @ [CHR 0x22]"

lemma later_lockfile_hides_pin:
  "map_option an_class (case analyze_repo Cloned (demo_checkout\<lparr>co_files :=
       [([''a'', ''Cargo.lock''], Some (cargo_lock ''0.9.0'')), ([''b'', ''Cargo.lock''], Some (cargo_lock ''1.0.0''))]\<rparr>)
       (demo_cx\<lparr>cx_ecosystem := ''cargo'', cx_fixed := Some ''1.0.0''\<rparr>) no_evidence of
     Inr a \<Rightarrow> Some a | Inl _ \<Rightarrow> None) = Some ''version_not_in_range''"
  by code_simp

end
