(* ===== verification/Report_Impact.thy ===== *)
theory Report_Impact
  imports Report_Triage Impact_Analysis
begin

text \<open>
  \<open>reporting/validate.py\<close>, \<open>cross_validate_impact_analysis\<close>, and what it says of the artifacts the analyzer
  writes: the document of a run, and exactly when that document passes.
\<close>

section \<open>Impact reports\<close>

record impact_entry =
  ie_repo :: "string option"
  ie_class :: "string option"
  ie_govulncheck :: "string option"
  ie_feature_matches :: "nat option"
  ie_in_range :: "bool option"

record impact_report =
  im_repos :: "impact_entry list"
  im_summary :: "string \<Rightarrow> int option"

datatype impact_problem =
    Wrong_class_count string int
  | Wrong_radius int
  | Wrong_in_range int
  | Duplicate_repo "string option"
  | Affected_without_evidence nat
  | Out_of_range_in_range nat

definition impact_totals :: "impact_report \<Rightarrow> (string \<times> int) list" where
  "impact_totals r = map (\<lambda>c. (c, counter_get (map ie_class (im_repos r)) (Some c)))
     [''affected'', ''likely_affected'', ''not_observed'', ''version_not_in_range'', ''not_imported'', ''inconclusive'']"

definition check_impact_entry :: "nat \<Rightarrow> impact_entry \<Rightarrow> impact_problem flag list" where
  "check_impact_entry i e =
     warn_if (ie_class e = Some ''affected'' \<and> \<not> (ie_govulncheck e = Some ''symbol_reachable''
         \<or> (case ie_feature_matches e of None \<Rightarrow> False | Some n \<Rightarrow> 0 < n))) (Affected_without_evidence i)
     @ fail_if (ie_class e = Some ''version_not_in_range'' \<and> ie_in_range e = Some True) (Out_of_range_in_range i)"

definition cross_validate_impact_analysis :: "impact_report \<Rightarrow> impact_problem flag list" where
  "cross_validate_impact_analysis r =
     (let n = int (length (im_repos r));
          ranged = int (length (filter (\<lambda>e. ie_class e \<noteq> Some ''version_not_in_range'' \<and> ie_class e \<noteq> Some ''not_imported'')
            (im_repos r))) in
      check_totals (im_summary r) Wrong_class_count (impact_totals r)
      @ fail_if (im_summary r ''repos_in_blast_radius'' \<noteq> Some n) (Wrong_radius n)
      @ warn_if (im_summary r ''version_in_range'' \<noteq> Some ranged) (Wrong_in_range ranged)
      @ map (\<lambda>rid. Fail (Duplicate_repo rid)) (repeated (map ie_repo (im_repos r)))
      @ each check_impact_entry (im_repos r))"

section \<open>The document of a run\<close>

definition entry_document :: "repo_entry \<Rightarrow> impact_entry" where
  "entry_document e = \<lparr>ie_repo = Some (re_repo e), ie_class = Some (re_class e),
     ie_govulncheck = ev_govulncheck (re_evidence e), ie_feature_matches = ev_feature_matches (re_evidence e),
     ie_in_range = ev_l1_version_in_range (re_evidence e)\<rparr>"

definition summary_document :: "impact_summary \<Rightarrow> string \<Rightarrow> int option" where
  "summary_document s = map_of (map (\<lambda>(k, n). (k, int n))
     [(''repos_in_blast_radius'', su_repos s), (''version_in_range'', su_in_range s), (''affected'', su_affected s),
      (''likely_affected'', su_likely s), (''not_observed'', su_not_observed s),
      (''version_not_in_range'', su_not_in_range s), (''not_imported'', su_not_imported s),
      (''inconclusive'', su_inconclusive s)])"

definition artifact_document :: "artifact \<Rightarrow> impact_report" where
  "artifact_document A = \<lparr>im_repos = map entry_document (ar_repos A), im_summary = summary_document (ar_summary A)\<rparr>"

lemma counted_class: "count_list (map (ie_class \<circ> entry_document) es) (Some c) = count_class c es"
  by (induction es) (simp_all add: count_class_def entry_document_def)

text \<open>The summary a run writes is the one the check computes.\<close>

lemma document_totals:
  "passed (check_totals (summary_document (summarize_entries es)) Wrong_class_count
     (impact_totals \<lparr>im_repos = map entry_document es, im_summary = s\<rparr>))"
  "summary_document (summarize_entries es) ''repos_in_blast_radius'' = Some (int (length es))"
  by (simp_all add: impact_totals_def counter_get counted_class summary_document_def summarize_entries_def)

text \<open>An entry that the graph puts in range and a manifest out of it.\<close>

definition contradicted :: "repo_entry \<Rightarrow> bool" where
  "contradicted e \<longleftrightarrow> re_class e = ''version_not_in_range'' \<and> ev_l1_version_in_range (re_evidence e) = Some True"

text \<open>
  C11. The artifact of a run passes the check of its own kind of report, with every count of its summary
  and no repository twice, but for one case: a repository whose version in the graph is in the range and
  whose manifests pin one that is not is written as out of range beside the evidence that it is in
  range, and the check refuses that.
\<close>

theorem artifact_validates_iff:
  assumes "store_ok g" and "distinct order" "set order = set (scans skip_scan g cx)"
    and "execute skip_scan g cx w order = Inr A"
  shows "passed (cross_validate_impact_analysis (artifact_document A)) \<longleftrightarrow> \<not> list_ex contradicted (ar_repos A)"
proof -
  have A: "A = write_artifact g cx (final_progress skip_scan g cx w)" by (rule execute_result(2) [OF assms])
  have repos: "map re_repo (ar_repos A) = map re_repo (first_pass g cx)"
    by (simp add: A write_artifact_def final_progress_def comp_def)
  have s: "ar_summary A = summarize_entries (ar_repos A)" by (simp add: A write_artifact_def)
  have "map ie_repo (map entry_document (ar_repos A)) = map Some (map re_repo (ar_repos A))"
    by (simp add: entry_document_def)
  then have d: "distinct (map ie_repo (map entry_document (ar_repos A)))"
    using distinct_first_pass [OF assms(1), of cx] by (simp only: repos distinct_map inj_on_def) simp
  have "passed (each check_impact_entry (map entry_document (ar_repos A))) \<longleftrightarrow> \<not> list_ex contradicted (ar_repos A)"
    by (simp add: check_impact_entry_def entry_document_def contradicted_def list_ex_iff all_set_conv_all_nth)
  then show ?thesis
    using document_totals d by (simp add: cross_validate_impact_analysis_def artifact_document_def Let_def s)
qed

theorem artifact_validates_iff_witness:
  "passed (cross_validate_impact_analysis (artifact_document demo_artifact))"
proof -
  have "\<not> list_ex contradicted (ar_repos demo_artifact)"
  proof -
    have "re_class ` set (ar_repos demo_artifact) = {''inconclusive'', ''affected''}"
      by (simp flip: list.set_map add: demo_classes)
    then have "\<forall>e \<in> set (ar_repos demo_artifact). re_class e \<in> {''inconclusive'', ''affected''}" by blast
    then show ?thesis by (auto simp: list_ex_iff contradicted_def)
  qed
  then show ?thesis
    using artifact_validates_iff [OF demo_edges_ok demo_order_ok(1) demo_set demo_impact_run] by simp
qed

text \<open>
  The case exists: the graph has an older version than the lockfile of the checkout. The analysis
  reports the repository as out of range, and its document is refused.
\<close>

definition demo_pinned :: analysis where
  "demo_pinned = (case analyze_repo Cloned (demo_checkout\<lparr>co_files := [([''Cargo.lock''], Some (cargo_lock ''1.0.0''))]\<rparr>)
       (demo_cx\<lparr>cx_ecosystem := ''cargo'', cx_fixed := Some ''1.0.0''\<rparr>)
       (no_evidence\<lparr>ev_l1_version_in_range := Some True\<rparr>) of Inr a \<Rightarrow> a)"

lemma upgraded_repository_refused:
  "check_impact_entry 0 (entry_document \<lparr>re_repo = ''repo:a'', re_products = [], re_class = an_class demo_pinned,
     re_version = Some ''0.9.0'', re_direct = True, re_evidence = an_evidence demo_pinned\<rparr>) = [Fail (Out_of_range_in_range 0)]"
  by code_simp

text \<open>A call that only joern resolved makes a repository affected, and the check warns that evidence is missing.\<close>

lemma joern_evidence_unknown:
  "classify_evidence (no_evidence\<lparr>ev_joern := Some ''vulnerable_symbol_called''\<rparr>) ''go'' = ''affected''"
  "check_impact_entry 0 (entry_document \<lparr>re_repo = ''repo:a'', re_products = [], re_class = ''affected'',
     re_version = None, re_direct = True, re_evidence = no_evidence\<lparr>ev_joern := Some ''vulnerable_symbol_called''\<rparr>\<rparr>)
     = [Warn (Affected_without_evidence 0)]"
  by code_simp+

end
