(* ===== verification/Report_Validate.thy ===== *)
theory Report_Validate
  imports Report_Layer Report_Verification Report_Impact
begin

text \<open>
  \<open>reporting/validate.py\<close>, the whole of \<open>validate_report\<close>: reading, the schema, the choice of the checks by
  the schema's id, and the identity checks of audit reports, with the detection of a schema by file name
  and the choice of files in a directory. The schema validator is another package: its errors are an
  argument. A document is given as it reads for each kind of check. The strict checks have a theory of their own and are an argument here.
\<close>

section \<open>Choosing the checks\<close>

datatype check_kind = Verification | Layer | Remediation | Triage | Vuln_findings | Impact | Cloud_current
  | Cloud_audit | Validation | Threat_model | Worklist | Audit_report

definition DISPATCH :: "(string \<times> check_kind) list" where
  "DISPATCH = [(''verification'', Verification), (''layer'', Layer), (''remediation'', Remediation), (''triage'', Triage),
     (''vuln-findings'', Vuln_findings), (''impact-analysis'', Impact), (''cloud-config-findings-current'', Cloud_current),
     (''cloud-config-audit'', Cloud_audit), (''validation'', Validation), (''threat-model'', Threat_model),
     (''refuted-register'', Worklist), (''operator-priv-profile'', Worklist), (''adapter-result'', Worklist)]"

definition check_kind_of :: "string \<Rightarrow> check_kind" where
  "check_kind_of sid = (case find (\<lambda>(k, _). occurs_in k sid) DISPATCH of None \<Rightarrow> Audit_report | Some (_, kind) \<Rightarrow> kind)"

definition NON_AUDIT :: "string list" where
  "NON_AUDIT = [''validation'', ''remediation'', ''verification'', ''layer'', ''triage'', ''vuln-findings'',
     ''cloud-config-findings-current'', ''cloud-config-audit'', ''threat-model'', ''refuted-register'',
     ''operator-priv-profile'', ''adapter-result'', ''impact-analysis'']"

definition identity_checked :: "string \<Rightarrow> bool" where
  "identity_checked sid \<longleftrightarrow> \<not> list_ex (\<lambda>k. occurs_in k sid) NON_AUDIT"

lemma identity_checked_iff: "identity_checked sid \<longleftrightarrow> check_kind_of sid = Audit_report"
  by (auto simp: identity_checked_def check_kind_of_def NON_AUDIT_def DISPATCH_def)

section \<open>Validating a document\<close>

datatype any_problem =
    Invalid_json string | Unreadable_file string | Schema_error string string
  | Of_verification verification_problem | Of_layer layer_problem | Of_remediation remediation_problem
  | Of_triage triage_problem | Of_vuln vuln_problem | Of_impact impact_problem | Of_validation validation_problem
  | Of_audit audit_problem
  | Risk_rating nat string
  | Strict string

record documents =
  as_verification :: verification_report
  as_layer :: layer_report
  as_remediation :: remediation_report
  as_triage :: triage_report
  as_vuln :: vuln_report
  as_impact :: impact_report
  as_cloud :: cloud_report
  as_validation :: validation_report
  as_threats :: "json option list"   \<comment> \<open>the risk ratings of the threats\<close>
  as_audit :: audit_report
  report_shaped :: bool

record surroundings =
  su_surfaces :: "string list"
  su_ledger :: ledger_lib
  su_now :: datetime
  su_audit_file :: audit_file
  su_pubkey :: "string option"
  su_injected_pubkey :: "string option"
  su_exists :: "string \<Rightarrow> bool"
  su_fingerprint :: "finding \<Rightarrow> string option \<Rightarrow> string option"
  su_rating_problems :: "json \<Rightarrow> string list"
  su_strict :: "audit_report \<Rightarrow> string flag list"

definition cross_validate_threat_model :: "(json \<Rightarrow> string list) \<Rightarrow> json option list \<Rightarrow> any_problem flag list" where
  "cross_validate_threat_model problems = each (\<lambda>i rating. case rating of
       None \<Rightarrow> []
     | Some j \<Rightarrow> if json_true j then map (\<lambda>p. Fail (Risk_rating i p)) (problems j) else [])"

definition cross_check :: "surroundings \<Rightarrow> check_kind \<Rightarrow> documents \<Rightarrow> any_problem flag list option" where
  "cross_check S kind d = (case kind of
       Verification \<Rightarrow> map_option (map (map_flag Of_verification)) (cross_validate_verification (su_surfaces S) (as_verification d))
     | Layer \<Rightarrow> map_option (map (map_flag Of_layer)) (cross_validate_layer (su_ledger S) (su_now S) (su_audit_file S)
         (su_pubkey S) (su_injected_pubkey S) (as_layer d))
     | Remediation \<Rightarrow> Some (map (map_flag Of_remediation) (cross_validate_remediation (su_exists S) (as_remediation d)))
     | Triage \<Rightarrow> Some (map (map_flag Of_triage) (cross_validate_triage (as_triage d)))
     | Vuln_findings \<Rightarrow> Some (map (map_flag Of_vuln) (cross_validate_vuln_findings (su_surfaces S) (as_vuln d)))
     | Impact \<Rightarrow> Some (map (map_flag Of_impact) (cross_validate_impact_analysis (as_impact d)))
     | Cloud_current \<Rightarrow> Some (map (map_flag Of_audit) (cross_validate_cloud_config_current (as_cloud d)))
     | Cloud_audit \<Rightarrow> Some []
     | Validation \<Rightarrow> Some (map (map_flag Of_validation) (cross_validate_validation (su_exists S) (as_validation d)))
     | Threat_model \<Rightarrow> Some (cross_validate_threat_model (su_rating_problems S) (as_threats d))
     | Worklist \<Rightarrow> Some []
     | Audit_report \<Rightarrow> Some (map (map_flag Of_audit) (cross_validate (su_surfaces S) (as_audit d))))"

datatype reading = Json_error string | Read_error string | Read documents

definition identity_flags :: "surroundings \<Rightarrow> bool \<Rightarrow> audit_report \<Rightarrow> any_problem flag list" where
  "identity_flags S strict r =
     map (map_flag Of_audit) (check_finding_identity (su_fingerprint S) r)
     @ map (map_flag Of_audit) (check_metadata_repository r)
     @ (if strict then map (map_flag Strict) (su_strict S r) else [])"

text \<open>\<open>schema_errors\<close> are the paths and messages of the schema validator, in its order; \<open>None\<close> is an exception.\<close>

definition validate_report :: "surroundings \<Rightarrow> string \<Rightarrow> bool \<Rightarrow> (string \<times> string) list \<Rightarrow> reading
    \<Rightarrow> any_problem flag list option" where
  "validate_report S sid strict schema_errors file = (case file of
       Json_error msg \<Rightarrow> Some [Fail (Invalid_json msg)]
     | Read_error msg \<Rightarrow> Some [Fail (Unreadable_file msg)]
     | Read d \<Rightarrow>
         map_option (\<lambda>crossed. map (\<lambda>(path, msg). Fail (Schema_error path msg)) schema_errors @ crossed
             @ (if identity_checked sid \<and> report_shaped d then identity_flags S strict (as_audit d) else []))
           (if schema_errors = [] then cross_check S (check_kind_of sid) d else Some []))"

section \<open>Choosing schemas and files\<close>

text \<open>\<open>cloud_current\<close>: whether the file is the cloud variant of a cumulative report.\<close>

definition SUFFIX_SCHEMAS :: "(string \<times> string) list" where
  "SUFFIX_SCHEMAS = [(''-triage.json'', ''triage''), (''-findings-layer.json'', ''layer''),
     (''-vuln-findings.json'', ''vuln-findings''), (''-threat-model.json'', ''threat-model''),
     (''-impact-analysis.json'', ''impact-analysis''), (''-remediation-verification.json'', ''verification''),
     (''-refuted-register.json'', ''refuted-register''), (''-priv-profile.json'', ''operator-priv-profile''),
     (''-cloud-config-audit.json'', ''cloud-config-audit'')]"

definition detect_schema_path :: "bool \<Rightarrow> string \<Rightarrow> string option" where
  "detect_schema_path cloud_current name =
     map_option (\<lambda>s. s @ ''.schema.json'')
       (if name = ''TRIAGE.json'' then Some ''triage''
        else case find (\<lambda>(suffix, _). endswith name suffix) SUFFIX_SCHEMAS of
            Some (_, s) \<Rightarrow> Some s
          | None \<Rightarrow> if endswith name ''-findings-current.json'' \<and> cloud_current
              then Some ''cloud-config-findings-current'' else None)"

text \<open>The peek: the audit the document was built from decides; without one, a sibling file does.\<close>

definition is_cloud_config_current :: "string option \<Rightarrow> bool \<Rightarrow> bool" where
  "is_cloud_config_current source_audit sibling =
     (if truthy source_audit then endswith (or_str source_audit []) ''-cloud-config-audit.json'' else sibling)"

text \<open>The JSON files below a directory, by their path parts relative to it.\<close>

definition swept :: "string list \<Rightarrow> bool" where
  "swept parts \<longleftrightarrow> endswith (last parts) ''.json'' \<and> \<not> endswith (last parts) ''-refuted-register.json''
     \<and> \<not> list_ex (\<lambda>p. startswith p ''.'') (butlast parts)"

definition collect_report_files :: "string list list \<Rightarrow> string list list" where
  "collect_report_files below = sort (filter swept below)"

section \<open>Properties\<close>

text \<open>
  An audit report that is accepted can be told apart across scans: its repository is named, not in
  autolink brackets, and a local fixture or a URL of host, organisation and repository, and every
  finding carries a fingerprint, which is the one the recipe gives wherever the recipe gives one. This holds for
  every schema whose id is not one of the other kinds, strict or not.
\<close>

theorem accepted_report_identified:
  assumes "validate_report S sid strict errs (Read d) = Some fs" and "passed fs"
    and "check_kind_of sid = Audit_report" and "report_shaped d"
  shows "(let s = strip (or_str (am_repository (ap_meta (as_audit d))) []) in
        s \<noteq> [] \<and> (is_local_fixture_url s \<or> re_match repo_url_rx s \<noteq> None))
    \<and> errs = []
    \<and> (\<forall>f \<in> set (ap_findings (as_audit d)). truthy (f_stamp f)
        \<and> su_fingerprint S (finding.truncate f) (am_repository (ap_meta (as_audit d))) \<in> {None, f_stamp f})"
proof -
  from assms have p: "passed (identity_flags S strict (as_audit d))"
    and e: "passed (map (\<lambda>(path, msg). Fail (Schema_error path msg) :: any_problem flag) errs)"
    by (auto simp: validate_report_def identity_checked_iff)
  from e have "errs = []" by (cases errs) auto
  moreover have "passed (check_metadata_repository (as_audit d))" "passed (check_finding_identity (su_fingerprint S) (as_audit d))"
    using p by (simp_all add: identity_flags_def)
  ultimately show ?thesis
    by (auto simp: check_metadata_repository_def check_finding_identity_def Let_def filter_empty_conv split: if_splits)
qed

text \<open>
  What the identity tool writes is what the report checks ask for: in a report that was annotated,
  no finding lacks its fingerprint and none has another, whatever stamps it had before.
\<close>

theorem annotated_report_identified:
  assumes "reads_no_stamp R" and "\<And>f repo. fingerprint R f repo \<noteq> []"
    and "annotate_report R allow rep = Inr (rep', n)"
    and "map finding.truncate (ap_findings r) = r_findings rep'" and "am_repository (ap_meta r) = r_repository rep'"
  shows "check_finding_identity (\<lambda>f repo. Some (fingerprint R f repo)) r = []"
proof -
  let ?repo = "normalize_repository (r_repository rep)"
  have repo: "r_repository rep' = ?repo" using assms(3) by (auto simp: annotate_report_def Let_def split: if_splits)
  have "\<not> needs_stamp R ?repo f" if "f \<in> set (r_findings rep')" for f
    using that restamped [OF assms(1)] unfolding annotate_findings [OF assms(3)] by auto
  then have fresh: "f_stamp f = Some (fingerprint R (finding.truncate f) ?repo)" if "f \<in> set (ap_findings r)" for f
    using that by (force simp: needs_stamp_def finding.truncate_def simp flip: assms(4))
  then have "truthy (f_stamp f)" if "f \<in> set (ap_findings r)" for f
    using that assms(2) by simp
  then show ?thesis
    using fresh by (simp add: check_finding_identity_def Let_def fail_if_def filter_empty_conv assms(5) repo)
qed

section \<open>Accepted documents\<close>

definition demo_surroundings :: surroundings where
  "demo_surroundings = \<lparr>su_surfaces = [], su_ledger = demo_lib, su_now = demo_now, su_audit_file = No_file,
     su_pubkey = None, su_injected_pubkey = None, su_exists = (\<lambda>_. True),
     su_fingerprint = (\<lambda>f repo. Some (f_id f)), su_rating_problems = (\<lambda>_. []), su_strict = (\<lambda>_. [])\<rparr>"

definition demo_identified :: audit_report where
  "demo_identified = (let r = demo_audit (demo_entries ''PROXY-abc1234-001'' ''PROXY-abc1234-002'') in
     r\<lparr>ap_findings := map (\<lambda>f. f\<lparr>f_stamp := Some (f_id f)\<rparr>) (ap_findings r)\<rparr>)"

definition demo_documents :: "documents \<Rightarrow> documents" where
  "demo_documents d = d\<lparr>as_audit := demo_identified, report_shaped := True\<rparr>"

lemma demo_identified_passes: "filter is_fail (cross_validate [] demo_identified) = []"
    "identity_flags demo_surroundings False demo_identified = []"
  by code_simp+

lemma demo_report_kind: "check_kind_of ''report.schema.json'' = Audit_report"
  by code_simp

lemma demo_documents_accepted:
  obtains fs where "validate_report demo_surroundings ''report.schema.json'' False [] (Read (demo_documents d)) = Some fs"
    and "passed fs"
  using demo_identified_passes
  by (simp add: validate_report_def demo_report_kind identity_checked_iff demo_documents_def cross_check_def
      demo_surroundings_def passed_def [symmetric])

theorem accepted_report_identified_witness:
  "list_all (\<lambda>f. truthy (f_stamp f)) (ap_findings demo_identified)"
proof -
  fix d :: documents
  obtain fs where "validate_report demo_surroundings ''report.schema.json'' False [] (Read (demo_documents d)) = Some fs"
    and "passed fs" by (rule demo_documents_accepted)
  from accepted_report_identified [OF this demo_report_kind] show ?thesis
    by (simp add: demo_documents_def list_all_iff)
qed

definition tagged_recipe :: recipe where
  "tagged_recipe = demo_recipe\<lparr>fingerprint := (\<lambda>f repo. ''fp-'' @ f_id f)\<rparr>"

definition written_audit :: "report \<Rightarrow> audit_report" where
  "written_audit rep = (let r = demo_identified in
     r\<lparr>ap_findings := map (\<lambda>f. finding.extend f \<lparr>vf_severity = ''low'', vf_validation_status = None,
         vf_peach_references = [], vf_disposition = None\<rparr>) (r_findings rep),
       ap_meta := (ap_meta r)\<lparr>am_repository := r_repository rep\<rparr>\<rparr>)"

lemma truncate_extend: "finding.truncate (finding.extend f m) = f"
  by (cases f) (simp add: finding.defs)

lemma written_audit_reads:
  "map finding.truncate (ap_findings (written_audit rep)) = r_findings rep"
  "am_repository (ap_meta (written_audit rep)) = r_repository rep"
  by (simp_all add: written_audit_def Let_def comp_def truncate_extend)

theorem annotated_report_identified_witness:
  "check_finding_identity (\<lambda>f repo. Some (fingerprint tagged_recipe f repo))
     (written_audit (fst (projr (annotate_report tagged_recipe True (demo_report [demo_f ''A'' ''a.py'']))))) = []"
proof (rule annotated_report_identified [where R = tagged_recipe and allow = True and rep = "demo_report [demo_f ''A'' ''a.py'']"])
  show "reads_no_stamp tagged_recipe" by (simp add: reads_no_stamp_def tagged_recipe_def demo_recipe_def)
  show "annotate_report tagged_recipe True (demo_report [demo_f ''A'' ''a.py''])
      = Inr (fst (projr (annotate_report tagged_recipe True (demo_report [demo_f ''A'' ''a.py'']))),
          snd (projr (annotate_report tagged_recipe True (demo_report [demo_f ''A'' ''a.py'']))))"
    by (simp add: annotate_report_def Let_def)
qed (simp_all add: tagged_recipe_def written_audit_reads)

end
