(* ===== verification/Compliance_Scope.thy ===== *)
theory Compliance_Scope
  imports Prelude
begin

text \<open>
  \<open>compliance/scope.py\<close>: a declared compliance boundary resolved to the repositories an assessment covers,
  from the product edges of the repository graph, from a deployment inventory, or from its own list.
  The registry, the graph and the inventories are what their files hold; a file that is not there is
  \<open>None\<close>. Every failure is an error of the resolution.
\<close>

section \<open>Registries, graphs and inventories\<close>

record graph_node =
  gn_id :: string
  gn_type :: "string option"
  gn_label :: "string option"

record repo_graph =
  rg_nodes :: "graph_node list"
  rg_edges :: "(string option \<times> string option) list"   \<comment> \<open>from and to\<close>

record inventory_row =
  iv_url :: "string option"
  iv_source :: "string option"

type_synonym inventory = "(string \<times> inventory_row list) list"

record boundary =
  bd_resolves_via :: string
  bd_product :: "string option"
  bd_inventory :: "string option"
  bd_service :: "string option"
  bd_include :: "string list"
  bd_exclude :: "(string \<times> string) list"   \<comment> \<open>repository and reason\<close>
  bd_frameworks :: "string list"
  bd_declared_by :: string
  bd_declared_at :: string

datatype scope_error =
    Graph_not_found
  | Ambiguous_label string "string list"
  | Product_not_found string
  | Product_without_repos string
  | Unknown_boundary string "string list"
  | Evidence_incomplete string
  | Inventory_not_found string string
  | Service_not_declared string string
  | Malformed_row string
  | Inventory_empty string
  | Product_required string
  | Include_required string
  | Stale_exclude string "string list"
  | Nothing_left string

record resolution =
  rs_boundary :: string
  rs_frameworks :: "string list"
  rs_repos :: "string list"
  rs_excluded :: "(string \<times> string) list"
  rs_resolves_via :: string
  rs_product :: "string option"
  rs_declared_by :: string
  rs_declared_at :: string
  rs_draft :: bool
  rs_evidence :: "(string \<times> string) list option"

section \<open>The repositories of a product\<close>

definition repo_from_node :: "string \<Rightarrow> string option" where
  "repo_from_node node_id =
     (if \<not> startswith node_id ''repo:'' then None
      else let rest = drop 5 node_id in
        case cut CHR ''/'' rest of
          (_, Some p) \<Rightarrow> if CHR ''/'' \<in> set p then Some p else Some rest
        | (_, None) \<Rightarrow> Some rest)"

definition sorted_distinct :: "string list \<Rightarrow> string list" where
  "sorted_distinct xs = sort (remdups xs)"

definition product_node :: "repo_graph \<Rightarrow> string \<Rightarrow> scope_error + string" where
  "product_node g product =
     (let products = filter (\<lambda>n. gn_type n = Some ''product'') (rg_nodes g);
          by_id = filter (\<lambda>n. gn_id n = product) products;
          by_label = filter (\<lambda>n. gn_label n = Some product) products in
      if by_id \<noteq> [] then Inr (gn_id (hd by_id))
      else if length by_label > 1 then Inl (Ambiguous_label product (map gn_id by_label))
      else if by_label = [] then Inl (Product_not_found product)
      else Inr (gn_id (hd by_label)))"

definition graph_product_repos :: "repo_graph option \<Rightarrow> string \<Rightarrow> scope_error + string list" where
  "graph_product_repos graph product = (case graph of
       None \<Rightarrow> Inl Graph_not_found
     | Some g \<Rightarrow> bind_res (product_node g product) (\<lambda>pid.
         let repos = sorted_distinct (List.map_filter (\<lambda>(src, dst).
               if src = Some pid then repo_from_node (or_str dst []) else None) (rg_edges g)) in
         if repos = [] then Inl (Product_without_repos pid) else Inr repos))"

section \<open>The rows of an inventory\<close>

definition row_repo :: "inventory_row \<Rightarrow> (string \<times> string) option" where
  "row_repo r =
     (let m = split_on CHR ''/'' (rstrip_slashes (or_str (iv_url r) [])) in
      if length m < 2 \<or> \<not> truthy (iv_source r) then None
      else Some (join ''/'' (drop (length m - 2) m), or_str (iv_source r) []))"

definition inventory_repos :: "string \<Rightarrow> inventory_row list \<Rightarrow> scope_error + (string \<times> string) list" where
  "inventory_repos bid rows =
     (if list_ex (\<lambda>r. row_repo r = None) rows then Inl (Malformed_row bid)
      else if rows = [] then Inl (Inventory_empty bid) else Inr (List.map_filter row_repo rows))"

definition inventory_path :: "string \<Rightarrow> string \<Rightarrow> string" where
  "inventory_path scope_dir p = (if startswith p ''/'' then p else scope_dir @ ''/'' @ p)"

section \<open>Resolving a boundary\<close>

text \<open>
  The base set with its citations. A later row of the same repository replaces the citation of an earlier one.
\<close>

definition base_repos :: "string \<Rightarrow> (string \<Rightarrow> inventory option) \<Rightarrow> repo_graph option \<Rightarrow> string \<Rightarrow> boundary
    \<Rightarrow> scope_error + string list \<times> (string \<times> string) list" where
  "base_repos scope_dir inventories graph bid b =
     (if bd_resolves_via b = ''deployment-iac'' then
        (if \<not> truthy (bd_service b) \<or> \<not> truthy (bd_inventory b) then Inl (Evidence_incomplete bid)
         else let path = inventory_path scope_dir (or_str (bd_inventory b) []); service = or_str (bd_service b) [] in
           case inventories path of
             None \<Rightarrow> Inl (Inventory_not_found bid path)
           | Some declared \<Rightarrow> (case map_of declared service of
                 None \<Rightarrow> Inl (Service_not_declared bid service)
               | Some rows \<Rightarrow> bind_res (inventory_repos bid rows) (\<lambda>cited.
                   Inr (map fst cited, fold (\<lambda>(k, v). AList.update k v) cited []))))
      else if bd_resolves_via b = ''repo-graph'' then
        (if \<not> truthy (bd_product b) then Inl (Product_required bid)
         else bind_res (graph_product_repos graph (or_str (bd_product b) [])) (\<lambda>repos. Inr (repos, [])))
      else if bd_include b = [] then Inl (Include_required bid)
      else Inr ([], []))"

definition exclusions :: "boundary \<Rightarrow> (string \<times> string) list" where
  "exclusions b = fold (\<lambda>(k, v). AList.update k v) (bd_exclude b) []"

definition resolve_boundary :: "string \<Rightarrow> (string \<Rightarrow> inventory option) \<Rightarrow> repo_graph option \<Rightarrow> string \<Rightarrow> boundary
    \<Rightarrow> scope_error + resolution" where
  "resolve_boundary scope_dir inventories graph bid b =
     bind_res (base_repos scope_dir inventories graph bid b) (\<lambda>(base, citations).
       let resolved = sorted_distinct (base @ bd_include b);
           exclude = exclusions b;
           stale = filter (\<lambda>r. r \<notin> set resolved) (map fst exclude);
           final = filter (\<lambda>r. r \<notin> fst ` set exclude) resolved in
       if stale \<noteq> [] then Inl (Stale_exclude bid stale)
       else if final = [] then Inl (Nothing_left bid)
       else Inr \<lparr>rs_boundary = bid, rs_frameworks = bd_frameworks b, rs_repos = final,
           rs_excluded = sort_key fst exclude, rs_resolves_via = bd_resolves_via b, rs_product = bd_product b,
           rs_declared_by = bd_declared_by b, rs_declared_at = bd_declared_at b,
           rs_draft = startswith (bd_declared_by b) ''draft:'',
           rs_evidence = (if bd_resolves_via b = ''deployment-iac''
             then Some (List.map_filter (\<lambda>r. map_option (Pair r) (map_of citations r)) final) else None)\<rparr>)"

definition resolve_scope :: "string \<Rightarrow> (string \<times> boundary) list \<Rightarrow> (string \<Rightarrow> inventory option) \<Rightarrow> repo_graph option
    \<Rightarrow> string \<Rightarrow> scope_error + resolution" where
  "resolve_scope scope_dir boundaries inventories graph bid = (case map_of boundaries bid of
       None \<Rightarrow> Inl (Unknown_boundary bid (sort (map fst boundaries)))
     | Some b \<Rightarrow> resolve_boundary scope_dir inventories graph bid b)"

section \<open>Properties\<close>

lemma exclusions_keys: "fst ` set (exclusions b) = fst ` set (bd_exclude b)"
proof -
  have "fst ` set (exclusions b) = dom (map_of (exclusions b))" by (simp add: dom_map_of_conv_image_fst)
  also have "\<dots> = dom (map_of (rev (bd_exclude b)))"
    by (auto simp: exclusions_def lookup_updates split: option.splits)
  finally show ?thesis by (simp add: dom_map_of_conv_image_fst)
qed

lemma distinct_exclusions: "distinct (map fst (exclusions b))"
  by (simp add: exclusions_def distinct_keys_updates)

lemma cited_rows:
  assumes "base_repos scope_dir inventories graph bid b = Inr (base, citations)" and "bd_resolves_via b = ''deployment-iac''"
  shows "set base = fst ` set citations" and "distinct (map fst citations)"
proof -
  from assms obtain cited where c: "base = map fst cited" "citations = fold (\<lambda>(k, v). AList.update k v) cited []"
    by (auto simp: base_repos_def Let_def split: option.splits if_splits)
  have "fst ` set citations = dom (map_of citations)" by (simp add: dom_map_of_conv_image_fst)
  also have "\<dots> = dom (map_of (rev cited))" by (auto simp: c(2) lookup_updates split: option.splits)
  finally show "set base = fst ` set citations" by (simp add: c(1) dom_map_of_conv_image_fst)
  show "distinct (map fst citations)" by (simp add: c(2) distinct_keys_updates)
qed

definition example_boundary :: boundary where
  "example_boundary = \<lparr>bd_resolves_via = ''explicit'', bd_product = None, bd_inventory = None, bd_service = None,
     bd_include = [''org/api'', ''org/web'', ''org/old''], bd_exclude = [(''org/old'', ''archived'')],
     bd_frameworks = [''pci''], bd_declared_by = ''grc'', bd_declared_at = ''2026-01-01''\<rparr>"

text \<open>
  C22. Resolving a boundary never shrinks it silently. Resolution fails with the error of its base set when that cannot be
  determined (a row of the inventory that names no repository, a service that is not declared, a product without
  repositories, and the other errors of \<open>base_repos\<close>). Once the base set is known, resolution succeeds exactly
  when every exclusion names a member of the base or the inclusions and some member is left; it then gives those
  that are not excluded, in order and each once, and members and exclusions together make up the whole. For a deployment
  inventory every repository is cited from it or was included by the registry.
\<close>

theorem boundary_never_shrinks:
  "case base_repos scope_dir inventories graph bid b of
     Inl e \<Rightarrow> resolve_boundary scope_dir inventories graph bid b = Inl e
   | Inr (base, citations) \<Rightarrow>
       (let all = set base \<union> set (bd_include b); excluded = fst ` set (bd_exclude b) in
        case resolve_boundary scope_dir inventories graph bid b of
          Inl _ \<Rightarrow> excluded - all \<noteq> {} \<or> all - excluded = {}
        | Inr r \<Rightarrow> set (rs_repos r) = all - excluded \<and> excluded - all = {} \<and> rs_repos r \<noteq> []
            \<and> sorted (rs_repos r) \<and> distinct (rs_repos r)
            \<and> length (rs_repos r) + length (rs_excluded r) = card all
            \<and> (case rs_evidence r of None \<Rightarrow> bd_resolves_via b \<noteq> ''deployment-iac''
               | Some ev \<Rightarrow> set (rs_repos r) - fst ` set ev = all - excluded - set base))"
proof (cases "base_repos scope_dir inventories graph bid b")
  case Inl
  then show ?thesis by (simp add: resolve_boundary_def)
next
  case (Inr p)
  obtain base citations where p: "p = (base, citations)" by (cases p)
  let ?all = "set base \<union> set (bd_include b)" and ?ex = "fst ` set (bd_exclude b)"
  have card: "length (filter (\<lambda>r. r \<notin> ?ex) (sorted_distinct (base @ bd_include b))) + length (exclusions b) = card ?all"
    if "?ex \<subseteq> ?all"
  proof -
    have "length (filter (\<lambda>r. r \<notin> ?ex) (sorted_distinct (base @ bd_include b))) = card (?all - ?ex)"
      by (subst distinct_card [symmetric]) (auto simp: sorted_distinct_def intro: arg_cong [where f = card])
    moreover have "length (exclusions b) = card ?ex"
      using distinct_card [OF distinct_exclusions [of b]] by (simp add: exclusions_keys)
    moreover have "card (?all - ?ex) + card ?ex = card ?all"
      using that by (metis (no_types, lifting) List.finite_set card_Diff_subset card_mono finite_UnI finite_imageI le_add_diff_inverse2)
    ultimately show ?thesis by simp
  qed
  have "map fst (List.map_filter (\<lambda>r. map_option (Pair r) (map_of citations r)) rs) = filter (\<lambda>r. r \<in> fst ` set citations) rs" for rs
    by (induction rs) (simp_all add: map_filter_simps map_of_eq_None_iff [symmetric] split: option.splits)
  then have ev: "fst ` set (List.map_filter (\<lambda>r. map_option (Pair r) (map_of citations r)) rs) = set rs \<inter> fst ` set citations" for rs
    by (simp only: list.set_map [symmetric] set_filter Int_def)
  let ?final = "filter (\<lambda>r. r \<notin> ?ex) (sorted_distinct (base @ bd_include b))"
  let ?stale = "filter (\<lambda>r. r \<notin> set (sorted_distinct (base @ bd_include b))) (map fst (exclusions b))"
  have final: "set ?final = ?all - ?ex" by (auto simp: sorted_distinct_def)
  have stale: "set ?stale = ?ex - ?all" by (auto simp: sorted_distinct_def simp flip: exclusions_keys)
  have run: "resolve_boundary scope_dir inventories graph bid b =
      (if ?stale \<noteq> [] then Inl (Stale_exclude bid ?stale)
       else if ?final = [] then Inl (Nothing_left bid)
       else Inr \<lparr>rs_boundary = bid, rs_frameworks = bd_frameworks b, rs_repos = ?final,
           rs_excluded = sort_key fst (exclusions b), rs_resolves_via = bd_resolves_via b, rs_product = bd_product b,
           rs_declared_by = bd_declared_by b, rs_declared_at = bd_declared_at b,
           rs_draft = startswith (bd_declared_by b) ''draft:'',
           rs_evidence = (if bd_resolves_via b = ''deployment-iac''
             then Some (List.map_filter (\<lambda>r. map_option (Pair r) (map_of citations r)) ?final) else None)\<rparr>)"
    by (simp add: resolve_boundary_def Inr p Let_def exclusions_keys)
  have bad: "?stale \<noteq> [] \<longleftrightarrow> ?ex - ?all \<noteq> {}" "?final = [] \<longleftrightarrow> ?all - ?ex = {}"
    using arg_cong [OF stale, of "\<lambda>x. x = {}"] arg_cong [OF final, of "\<lambda>x. x = {}"] by (simp_all only: set_empty)
  show ?thesis
  proof (cases "?stale \<noteq> [] \<or> ?final = []")
    case True
    have "\<exists>e. (if S then Inl A else if F then Inl B else Inr C) = Inl e" if "S \<or> F"
      for S F and A B :: scope_error and C :: resolution
      using that by auto
    from this [OF True] obtain e where "resolve_boundary scope_dir inventories graph bid b = Inl e"
      unfolding run by blast
    moreover have "?ex - ?all \<noteq> {} \<or> ?all - ?ex = {}" using True unfolding bad .
    ultimately show ?thesis unfolding Inr p Let_def prod.case sum.case by simp
  next
    case False
    then have "?ex \<subseteq> ?all" using bad by blast
    moreover have "sorted ?final" "distinct ?final"
      by (simp_all add: sorted_distinct_def sorted_wrt_filter)
    ultimately show ?thesis
      using False bad card [of] final ev [of ?final] cited_rows(1) [OF Inr [unfolded p]]
      by (auto simp: run Inr p Let_def simp del: filter_empty_conv)
  qed
qed

theorem boundary_never_shrinks_witness:
  "case resolve_boundary ''cfg'' (\<lambda>_. None) None ''prod'' example_boundary of
     Inl _ \<Rightarrow> False | Inr r \<Rightarrow> set (rs_repos r) = {''org/api'', ''org/web''} \<and> rs_excluded r = [(''org/old'', ''archived'')]"
proof -
  have b: "base_repos ''cfg'' (\<lambda>_. None) None ''prod'' example_boundary = Inr ([], [])" by code_simp
  have s: "set (bd_include example_boundary) = {''org/api'', ''org/web'', ''org/old''}"
    "fst ` set (bd_exclude example_boundary) = {''org/old''}"
    "{''org/api'', ''org/web'', ''org/old''} - {''org/old''} = {''org/api'', ''org/web''}"
    by (auto simp: example_boundary_def)
  have ex: "case resolve_boundary ''cfg'' (\<lambda>_. None) None ''prod'' example_boundary of
     Inl _ \<Rightarrow> False | Inr r \<Rightarrow> rs_excluded r = [(''org/old'', ''archived'')]" by code_simp
  show ?thesis
    using boundary_never_shrinks [of "''cfg''" "\<lambda>_. None" None "''prod''" example_boundary] ex
    unfolding b sum.case prod.case Let_def set_empty2 s by (auto simp: s split: sum.splits)
qed

text \<open>A url that is only a host is taken for a repository, with an empty organisation.\<close>

lemma bare_host_accepted:
  "row_repo \<lparr>iv_url = Some ''https://host'', iv_source = Some ''deploy.yaml''\<rparr> = Some (''/host'', ''deploy.yaml'')"
  by code_simp

end
