(* ===== verification/Escaping.thy ===== *)
theory Escaping
  imports Py_Text Py_Json
begin

text \<open>
  \<open>escaping.py\<close>: untrusted text made safe for the places it is written to: HTML, JSON in an inline script,
  cells of Markdown tables and of CSV files, fenced blocks, and slugs that become path segments.
\<close>

section \<open>HTML\<close>

text \<open>\<open>html.escape(s, quote=True)\<close>: five replacements, the ampersand first.\<close>

definition html_entities :: "(char \<times> string) list" where
  "html_entities = [(CHR ''&'', ''&amp;''), (CHR ''<'', ''&lt;''), (CHR ''>'', ''&gt;''), (CHR 0x22, ''&quot;''),
     (CHR 0x27, ''&#x27;'')]"

definition esc_html :: "string \<Rightarrow> string" where
  "esc_html s = fold (\<lambda>(c, w). replace_all [c] w) html_entities s"

text \<open>How a browser reads the entities back.\<close>

definition entity_at :: "string \<Rightarrow> (char \<times> string) option" where
  "entity_at s = find (\<lambda>(c, w). startswith s w) html_entities"

function read_html :: "string \<Rightarrow> string" where
  "read_html [] = []"
| "read_html (x # xs) = (case entity_at (x # xs) of
       Some (c, w) \<Rightarrow> c # read_html (drop (length w - 1) xs)
     | None \<Rightarrow> x # read_html xs)"
  by pat_completeness auto
termination
  by (relation "measure length") (auto simp: less_Suc_eq_le)

definition esc_html_char :: "char \<Rightarrow> string" where
  "esc_html_char c = or_str (map_of html_entities c) [c]"

lemma esc_html_each: "esc_html s = concat (map esc_html_char s)"
proof -
  have "concat (map (\<lambda>x. if x = c then w else [x]) (concat (map f s)))
      = concat (map (\<lambda>y. concat (map (\<lambda>x. if x = c then w else [x]) (f y))) s)" for c w and f :: "char \<Rightarrow> string"
    by (induction s) simp_all
  note step = this [where f = "\<lambda>x. if x = d then v else [x]" for d v] this
  have "esc_html s = concat (map (\<lambda>x. if x = CHR 0x27 then ''&#x27;'' else [x]) (concat (map (\<lambda>x. if x = CHR 0x22 then ''&quot;'' else [x])
     (concat (map (\<lambda>x. if x = CHR ''>'' then ''&gt;'' else [x]) (concat (map (\<lambda>x. if x = CHR ''<'' then ''&lt;'' else [x])
       (concat (map (\<lambda>x. if x = CHR ''&'' then ''&amp;'' else [x]) s)))))))))"
    by (simp add: esc_html_def html_entities_def replace_char)
  also have "\<dots> = concat (map esc_html_char s)"
    by (induction s) (simp_all add: esc_html_char_def html_entities_def)
  finally show ?thesis .
qed

lemma html_markup: "c \<in> set (esc_html s) \<Longrightarrow> c \<notin> {CHR ''<'', CHR ''>'', CHR 0x22, CHR 0x27}"
  by (auto simp: esc_html_each esc_html_char_def html_entities_def split: if_splits)

lemma read_html_char: "read_html (esc_html_char c @ s) = c # read_html s"
  by (cases "c \<in> fst ` set html_entities")
    (auto simp: esc_html_char_def html_entities_def entity_at_def startswith_def)

lemma read_html_back: "read_html (esc_html s) = s"
  by (induction s) (simp_all add: esc_html_each read_html_char)

section \<open>JSON in a script\<close>

definition json_script :: "json \<Rightarrow> string" where
  "json_script j = replace_all ''<!--'' ([CHR ''<'', CHR 0x5C] @ ''u0021--'') (replace_all ''</'' [CHR ''<'', CHR 0x5C, CHR ''/''] (dumps_line j))"

definition safe_opening :: string where
  "safe_opening = [CHR ''<'', CHR 0x5C] @ ''u0021--''"

lemma script_ends: "\<not> occurs_in ''</'' (json_script j)" "\<not> occurs_in ''<!--'' (json_script j)"
proof -
  let ?a = "replace_all ''</'' [CHR ''<'', CHR 0x5C, CHR ''/''] (dumps_line j)"
  have a: "\<not> occurs_in ''</'' ?a"
    using occurs_after_replace [of "CHR ''<''" "''/''" "''</''" "[CHR 0x5C, CHR ''/'']" "dumps_line j"]
    by (auto simp: startswith_def)
  show "\<not> occurs_in ''<!--'' (json_script j)"
    using occurs_after_replace [of "CHR ''<''" "''!--''" "''<!--''" "CHR 0x5C # ''u0021--''" ?a]
    by (auto simp: startswith_def json_script_def)
  show "\<not> occurs_in ''</'' (json_script j)"
    using a occurs_after_replace [of "CHR ''<''" "''/''" "''<!--''" "CHR 0x5C # ''u0021--''" ?a]
    by (auto simp: startswith_def json_script_def)
qed

text \<open>
  The replacements are escapes of JSON: a text cut into the escapes \<open>ts\<close> of the characters \<open>s\<close> stays one.
\<close>

definition spells :: "string \<Rightarrow> char \<Rightarrow> bool" where
  "spells t c \<longleftrightarrow> (\<forall>r. unesc (t @ r) = Some (c, r))"

text \<open>A token that holds a character of \<open>n\<close> is that character.\<close>

definition solo :: "string \<Rightarrow> string \<Rightarrow> bool" where
  "solo n t \<longleftrightarrow> (\<forall>c \<in> set n \<inter> set t. t = [c])"

lemma spells_nonempty: "spells t c \<Longrightarrow> t \<noteq> []"
  by (auto simp: spells_def dest: spec [of _ "[]"])

lemma tokens_needle:
  "list_all2 spells ts s \<Longrightarrow> list_all (solo n) ts \<Longrightarrow> set m \<subseteq> set n \<Longrightarrow> set n \<inter> set q = {} \<Longrightarrow> concat ts @ q = m @ r
     \<Longrightarrow> \<exists>ts'. ts = map (\<lambda>c. [c]) m @ ts'"
proof (induction m arbitrary: ts s)
  case (Cons c m)
  then obtain t ts' d s' where ts: "ts = t # ts'" "s = d # s'" "spells t d" "list_all2 spells ts' s'"
    by (cases ts; cases s) auto
  with Cons.prems spells_nonempty [of t d] have "c \<in> set t" by (cases t) auto
  then have "t = [c]" using Cons.prems ts by (auto simp: solo_def)
  moreover from this Cons ts have "\<exists>u. ts' = map (\<lambda>c. [c]) m @ u" by (intro Cons.IH [of ts' s']) auto
  ultimately show ?case using ts by auto
qed auto

lemma spells_single: "spells [x] y \<Longrightarrow> y = x"
  by (auto simp: spells_def dest: spec [of _ "[]"] split: if_splits)

lemma replace_spells:
  assumes "list_all2 spells ts s" and "list_all (solo n) ts" and "n \<noteq> []" and "list_all2 spells ws n"
    and q: "set n \<inter> set q = {}"
  shows "\<exists>ts'. replace_all n (concat ws) (concat ts @ q) = concat ts' @ q \<and> list_all2 spells ts' s \<and> set ts' \<subseteq> set ts \<union> set ws"
  using assms(1,2)
proof (induction ts arbitrary: s rule: length_induct)
  case (1 ts)
  show ?case
  proof (cases "ts = []")
    case False
    show ?thesis
    proof (cases "startswith (concat ts @ q) n")
      case True
      then obtain r where "concat ts @ q = n @ r" by (auto simp: startswith_iff)
      with tokens_needle [OF 1(2,3), of n q r] q obtain u where u: "ts = map (\<lambda>c. [c]) n @ u" by blast
      from 1(2) u obtain s1 s2 where s: "s = s1 @ s2" "list_all2 spells (map (\<lambda>c. [c]) n) s1" "list_all2 spells u s2"
        by (auto simp: list_all2_append1)
      have "s1 = n" using s(2) by (auto simp: list_all2_conv_all_nth spells_single intro!: nth_equalityI)
      have "length u < length ts" "list_all (solo n) u" using u 1(3) assms(3) by auto
      from 1(1) [rule_format, OF this(1) s(3) this(2)]
      obtain u' where u': "replace_all n (concat ws) (concat u @ q) = concat u' @ q" "list_all2 spells u' s2"
        "set u' \<subseteq> set u \<union> set ws" by blast
      have "concat ts @ q = n @ concat u @ q" by (simp add: u concat_map_singleton)
      then have "replace_all n (concat ws) (concat ts @ q) = concat (ws @ u') @ q"
        using assms(3) u'(1) by (simp add: replace_all_match)
      moreover have "list_all2 spells (ws @ u') s" using s(1) \<open>s1 = n\<close> assms(4) u'(2) by (simp add: list_all2_appendI)
      ultimately show ?thesis using u u'(3) by (intro exI [of _ "ws @ u'"]) auto
    next
      case False
      from \<open>ts \<noteq> []\<close> 1(2) obtain t ts0 d s0 where ts: "ts = t # ts0" "s = d # s0" "spells t d" "list_all2 spells ts0 s0"
        by (cases ts; cases s) auto
      have "length ts0 < length ts" "list_all (solo n) ts0" using ts 1(3) by auto
      from 1(1) [rule_format, OF this(1) ts(4) this(2)]
      obtain u where u: "replace_all n (concat ws) (concat ts0 @ q) = concat u @ q" "list_all2 spells u s0"
        "set u \<subseteq> set ts0 \<union> set ws" by blast
      obtain c v where n: "n = c # v" using assms(3) by (cases n) auto
      have "replace_all n (concat ws) (t @ concat ts0 @ q) = t @ concat u @ q"
      proof (cases "c \<in> set t")
        case True
        then have "t = [c]" using 1(3) ts n by (auto simp: solo_def)
        with False ts u n show ?thesis by simp
      next
        case False
        with u n replace_all_pass [of t c v "concat ws" "concat ts0 @ q"] show ?thesis by simp
      qed
      with ts u show ?thesis by (intro exI [of _ "t # u"]) auto
    qed
  next
    case True
    obtain c v where "n = c # v" using assms(3) by (cases n) auto
    with True 1(2) q replace_all_pass [of q c v "concat ws" "[]"] show ?thesis by (intro exI [of _ "[]"]) auto
  qed
qed

text \<open>The inside of a string literal, read to its end.\<close>

function read_escapes :: "string \<Rightarrow> string option" where
  "read_escapes [] = Some []"
| "read_escapes (x # xs) = (case unesc (x # xs) of
       None \<Rightarrow> None
     | Some (c, r) \<Rightarrow> if length r \<le> length xs then map_option (Cons c) (read_escapes r) else None)"
  by pat_completeness auto
termination
  by (relation "measure length") auto

lemma read_spelled: "list_all2 spells ts s \<Longrightarrow> read_escapes (concat ts) = Some s"
proof (induction ts s rule: list_all2_induct)
  case (Cons t ts c s)
  obtain x u where t: "t = x # u" using spells_nonempty [OF Cons(1)] by (cases t) auto
  have "unesc (x # u @ concat ts) = Some (c, concat ts)" using Cons(1) by (simp add: spells_def t)
  then show ?case using Cons(3) by (simp add: t)
qed simp

lemma spells_esc: "spells (esc_char c) c"
  by (simp add: spells_def unesc_esc)

lemma esc_char_solo: "set n \<subseteq> set ''</!-'' \<Longrightarrow> solo n (esc_char c)"
proof -
  have hex: "hex_digit k \<notin> set ''</!-''" if "k < 16" for k
  proof -
    have "list_all (\<lambda>k. hex_digit k \<notin> set ''</!-'') [0..<16]" by code_simp
    with that show ?thesis by (simp add: list_all_iff)
  qed
  have "of_char c div 16 < (16 :: nat)" "of_char c mod 16 < (16 :: nat)"
    using code_below [of c] by (simp_all add: less_mult_imp_div_less)
  with hex have "solo ''</!-'' (esc_char c)" by (auto simp: solo_def esc_char_def)
  then show "set n \<subseteq> set ''</!-'' \<Longrightarrow> solo n (esc_char c)" by (auto simp: solo_def)
qed

lemma script_string_tokens:
  "\<exists>ts. json_script (JStr s) = CHR 0x22 # concat ts @ [CHR 0x22] \<and> list_all2 spells ts s"
proof -
  let ?ws = "[''<'', [CHR 0x5C, CHR ''/'']]" and ?vs = "[''<'', CHR 0x5C # ''u0021'', ''-'', ''-'']"
  have 0: "list_all2 spells (map esc_char s) s" by (simp add: list_all2_conv_all_nth spells_esc)
  have 1: "list_all (solo ''</'') (map esc_char s)" by (simp add: list_all_iff esc_char_solo)
  have 2: "list_all2 spells ?ws ''</''" by (simp add: spells_def)
  have 3: "''</'' \<noteq> []" "''<!--'' \<noteq> []" "set ''</'' \<inter> set [CHR 0x22] = {}" "set ''<!--'' \<inter> set [CHR 0x22] = {}"
    by simp_all
  from replace_spells [OF 0 1 3(1) 2 3(3)] obtain ts
    where ts: "replace_all ''</'' (concat ?ws) (concat (map esc_char s) @ [CHR 0x22]) = concat ts @ [CHR 0x22]"
      "list_all2 spells ts s" "set ts \<subseteq> set (map esc_char s) \<union> set ?ws" by blast
  have 4: "list_all (solo ''<!--'') ts"
    unfolding list_all_iff
  proof
    fix t
    assume "t \<in> set ts"
    with ts(3) have "t \<in> range esc_char \<or> t = ''<'' \<or> t = [CHR 0x5C, CHR ''/'']" by auto
    then show "solo ''<!--'' t" using esc_char_solo [of "''<!--''"] by (auto simp: solo_def)
  qed
  have "char_of (16 * hex_value (CHR ''2'') + hex_value (CHR ''1'')) = CHR ''!''" by code_simp
  then have 5: "list_all2 spells ?vs ''<!--''" by (simp add: spells_def)
  from replace_spells [OF ts(2) 4 3(2) 5 3(4)] obtain us
    where us: "replace_all ''<!--'' (concat ?vs) (concat ts @ [CHR 0x22]) = concat us @ [CHR 0x22]"
      "list_all2 spells us s" by blast
  have "json_script (JStr s) = CHR 0x22 # concat us @ [CHR 0x22]"
    using ts(1) us(1) by (simp add: json_script_def dumps_line_def json_str_def startswith_def)
  with us(2) show ?thesis by blast
qed

section \<open>Cells of a Markdown table\<close>

text \<open>
  The colon that defuses \<open>javascript:\<close> is U+02D0, outside the characters of the model: the text that replaces
  the scheme is an argument.
\<close>

definition break_rx :: rx where
  "break_rx = plus (Cls (\<lambda>c. c = CHR 0x0D \<or> c = CHR 0x0A))"

definition script_rx :: rx where
  "script_rx = Cat (At Word_boundary) (ilit ''javascript:'')"

definition md_cell :: "string \<Rightarrow> string \<Rightarrow> string" where
  "md_cell defused s = re_sub script_rx (\<lambda>_. defused) (re_sub (lit '']('') (\<lambda>_. [CHR '']'', CHR 0x5C, CHR ''('']) 
     (re_sub break_rx (\<lambda>_. '' '') (replace_all ''|'' [CHR 0x5C, CHR ''|''] s)))"

text \<open>What the replacing text may be: it has none of the characters the cell is about.\<close>

definition harmless :: "string \<Rightarrow> bool" where
  "harmless w \<longleftrightarrow> w \<noteq> [] \<and> list_all (\<lambda>c. c \<notin> set ''|[]()'' \<and> c \<noteq> CHR 0x0A \<and> c \<noteq> CHR 0x0D) w"

lemma rx_ok_cell: "rx_ok break_rx" "rx_ok script_rx"
  by (simp_all add: break_rx_def script_rx_def plus_def ilit_def)

lemma script_hit: "matches script_rx b t z \<Longrightarrow> t \<noteq> [] \<and> last t \<noteq> CHR 0x5C"
proof -
  assume "matches script_rx b t z"
  then have t: "map lower_char t = map lower_char ''javascript:''"
    by (auto simp: script_rx_def matches_simps matches_ilit lower_def)
  from arg_cong [OF t, of length] have "t \<noteq> []" by auto
  moreover from this arg_cong [OF t, of last] have "lower_char (last t) = CHR '':''"
    by (simp add: last_map lower_char_def is_upper_def code_in_def)
  then have "last t \<noteq> CHR 0x5C" by (auto simp: lower_char_def is_upper_def code_in_def)
  ultimately show ?thesis by blast
qed

lemma guarded_sub:
  assumes "rx_ok r" and "guarded e c False s" and "\<And>b t z. matches r b t z \<Longrightarrow> t \<noteq> [] \<and> last t \<noteq> e" and "w \<noteq> []" and "c \<notin> set w"
  shows "guarded e c False (re_sub r (\<lambda>_. w) s)"
  unfolding re_sub_def
proof (rule render_guarded)
  show "guarded e c False (render_chunks m_text (re_chunks r s))"
    using assms(2) re_sub_id [OF assms(1), of s] by (simp add: re_sub_def)
  show "\<forall>m \<in> set (hits_of (re_chunks r s)). m_text m \<noteq> [] \<and> last (m_text m) \<noteq> e"
    using finditer_SomeD [OF assms(1), of _ s] assms(3) by (fastforce simp: re_finditer_def)
qed (use assms in simp_all)

lemma md_cell_pipes: "harmless defused \<Longrightarrow> guarded (CHR 0x5C) (CHR ''|'') False (md_cell defused s)"
  unfolding md_cell_def
proof (intro guarded_sub guarded_replace)
  show "matches break_rx b t z \<Longrightarrow> t \<noteq> [] \<and> last t \<noteq> CHR 0x5C" for b t z
    by (cases t rule: rev_cases) (auto simp: break_rx_def matches_plus_class)
  show "matches (lit '']('') b t z \<Longrightarrow> t \<noteq> [] \<and> last t \<noteq> CHR 0x5C" for b t z
    by (simp add: matches_lit)
  show "matches script_rx b t z \<Longrightarrow> t \<noteq> [] \<and> last t \<noteq> CHR 0x5C" for b t z by (rule script_hit)
qed (auto simp: rx_ok_cell harmless_def list_all_iff)

lemma no_break: "\<not> p x \<or> x \<notin> set (re_sub (plus (Cls p)) (\<lambda>_. w) s) \<or> x \<in> set w"
  using render_const_set [of w "re_chunks (plus (Cls p)) s"] plain_class [of x p "[]" s]
  by (auto simp: re_sub_def re_chunks_def)

lemma md_cell_breaks:
  assumes "harmless defused" and "x = CHR 0x0D \<or> x = CHR 0x0A"
  shows "x \<notin> set (md_cell defused s)"
proof
  let ?a = "re_sub break_rx (\<lambda>_. '' '') (replace_all ''|'' [CHR 0x5C, CHR ''|''] s)"
  let ?b = "re_sub (lit '']('') (\<lambda>_. [CHR '']'', CHR 0x5C, CHR ''('']) ?a"
  assume "x \<in> set (md_cell defused s)"
  then have "x \<in> set ?b \<or> x \<in> set defused"
    using re_sub_set [OF rx_ok_cell(2), of defused ?b] unfolding md_cell_def by blast
  then have "x \<in> set ?b" using assms by (auto simp: harmless_def list_all_iff)
  then have "x \<in> set ?a \<or> x \<in> set [CHR '']'', CHR 0x5C, CHR ''('']"
    using re_sub_set [OF rx_ok_lit(1)] by blast
  then have "x \<in> set ?a" using assms(2) by auto
  then show False
    using no_break [of "\<lambda>c. c = CHR 0x0D \<or> c = CHR 0x0A" x "'' ''"] assms(2) unfolding break_rx_def by auto
qed

lemma md_cell_links: "harmless defused \<Longrightarrow> \<not> occurs_in '']('' (md_cell defused s)"
proof -
  assume h: "harmless defused"
  define u where "u = re_sub (lit '']('') (\<lambda>_. [CHR '']'', CHR 0x5C, CHR ''('']) (re_sub break_rx (\<lambda>_. '' '') (replace_all ''|'' [CHR 0x5C, CHR ''|''] s))"
  have "\<not> occurs_in '']('' u"
    using occurs_after_replace [of "CHR '']''" "''(''" "'']('' :: string" "[CHR 0x5C, CHR ''('']"] unfolding u_def
    by (subst re_sub_lit) (auto simp: startswith_def)
  moreover have "md_cell defused s = render_chunks (\<lambda>_. defused) (re_chunks script_rx u)"
    by (simp add: md_cell_def u_def re_sub_def)
  moreover have "render_chunks m_text (re_chunks script_rx u) = u"
    using re_sub_id [OF rx_ok_cell(2), of u] by (simp add: re_sub_def)
  ultimately show ?thesis using h render_pair [of "CHR '']''" "CHR ''(''" defused "re_chunks script_rx u"]
    by (auto simp: harmless_def list_all_iff)
qed

section \<open>Fenced blocks\<close>

definition tick_rx :: rx where
  "tick_rx = plus (Cls (\<lambda>c. c = CHR ''`''))"

definition longest_run :: "string \<Rightarrow> nat" where
  "longest_run s = fold max (map (\<lambda>m. length (m_text m)) (re_finditer tick_rx s)) 0"

definition fence_of :: "string \<Rightarrow> string" where
  "fence_of s = replicate (max 3 (longest_run s + 1)) (CHR ''`'')"

definition fence_untrusted :: "string \<Rightarrow> string \<Rightarrow> string" where
  "fence_untrusted s info = fence_of s @ info @ [CHR 0x0A] @ s @ [CHR 0x0A] @ fence_of s"

lemma fold_max_ge: "x \<in> set xs \<or> x \<le> n \<Longrightarrow> x \<le> fold max xs (n :: nat)"
  by (induction xs arbitrary: n) (auto simp: le_max_iff_disj)

lemma fence_not_inside: "\<not> occurs_in (fence_of s) s"
proof
  assume "occurs_in (fence_of s) s"
  then obtain a z where s: "s = a @ fence_of s @ z" by (auto simp: occurs_in_iff)
  have "fence_of s \<noteq> []" "list_all (\<lambda>c. c = CHR ''`'') (fence_of s)" by (auto simp: fence_of_def list_all_iff)
  from class_run_hit [OF s this, of "[]"] obtain m where "m \<in> set (re_finditer tick_rx s)" "length (fence_of s) \<le> length (m_text m)"
    by (auto simp: re_finditer_def re_chunks_def tick_rx_def)
  then have "length (fence_of s) \<le> longest_run s"
    using fold_max_ge [of "length (m_text m)" "map (\<lambda>m. length (m_text m)) (re_finditer tick_rx s)" 0]
    by (auto simp: longest_run_def)
  then show False by (simp add: fence_of_def)
qed

section \<open>Cells of a CSV file\<close>

definition numeric_rx :: rx where
  "numeric_rx = seq [At Bos, opt (Cls (one_of ''+-'')), Cls is_digit, star (Cls (\<lambda>c. is_digit c \<or> c \<in> set '',._'')),
     opt (seq [Cls (one_of ''eE''), opt (Cls (one_of ''+-'')), plus (Cls is_digit)]), opt (lit ''%''), At Eos]"

definition formula_chars :: "char set" where
  "formula_chars = {CHR ''='', CHR ''+'', CHR ''-'', CHR ''@'', CHR 0x09, CHR 0x0D}"

definition csv_cell :: "string \<Rightarrow> string" where
  "csv_cell s = (if s \<noteq> [] \<and> hd s \<in> formula_chars \<and> re_match numeric_rx s = None then CHR 0x27 # s else s)"

definition num_char :: "char \<Rightarrow> bool" where
  "num_char c \<longleftrightarrow> is_digit c \<or> c \<in> set '',._+-eE%''"

lemma num_char_classes:
  "is_digit c \<Longrightarrow> num_char c" "c \<in> set '',._'' \<Longrightarrow> num_char c" "one_of ''+-'' c \<Longrightarrow> num_char c" "one_of ''eE'' c \<Longrightarrow> num_char c"
  "num_char (CHR ''%'')"
  by (auto simp: num_char_def one_of_def)

lemma numeric_text: "re_match numeric_rx s \<noteq> None \<Longrightarrow>
   list_all (\<lambda>c. num_char c \<or> c = CHR 0x0A) s"
proof -
  assume "re_match numeric_rx s \<noteq> None"
  then obtain m where m: "re_match numeric_rx s = Some m" by blast
  have ok: "rx_ok numeric_rx" by (simp add: numeric_rx_def seq_def opt_def star_def plus_def lit_def)
  from re_match_SomeD [OF ok m] have s: "s = m_text m @ m_after m" and mm: "matches numeric_rx [] (m_text m) (m_after m)" by auto
  have "matches (seq ([At Bos, opt (Cls (one_of ''+-'')), Cls is_digit, star (Cls (\<lambda>c. is_digit c \<or> c \<in> set '',._'')),
     opt (seq [Cls (one_of ''eE''), opt (Cls (one_of ''+-'')), plus (Cls is_digit)]), opt (lit ''%'')] @ [At Eos]))
     [] (m_text m) (m_after m)"
    using mm unfolding numeric_rx_def append.simps .
  from matches_seq_end [OF this] obtain b' where "anchor_holds Eos b' (m_after m)" ..
  then have "m_after m = [] \<or> m_after m = [CHR 0x0A]" by simp
  moreover have "list_all num_char (m_text m)"
    by (rule matches_only [OF mm])
      (auto simp: numeric_rx_def seq_def opt_def star_def plus_def lit_def simp del: set_simps intro: num_char_classes)
  ultimately have "list_all (\<lambda>c. num_char c \<or> c = CHR 0x0A) (m_text m @ m_after m)"
    by (auto simp: list_all_iff)
  then show ?thesis by (simp only: s [symmetric])
qed

section \<open>Slugs\<close>

definition SLUG_RX :: rx where
  "SLUG_RX = Cat (Cls (alnum_or [])) (star (Cls (alnum_or ''._-'')))"

definition safe_slug :: "nat \<Rightarrow> string \<Rightarrow> string option" where
  "safe_slug segments s = (let parts = split_on CHR ''/'' s in
     if length parts \<noteq> segments then None
     else if list_ex (\<lambda>p. \<not> re_fullmatch SLUG_RX p \<or> occurs_in ''..'' p) parts then None
     else Some s)"

lemma slug_matches:
  "re_fullmatch SLUG_RX p \<longleftrightarrow> p \<noteq> [] \<and> alnum_or [] (hd p) \<and> list_all (alnum_or ''._-'') p"
proof -
  have star: "matches (star (Cls q)) b t z \<longleftrightarrow> list_all q t" for q b t z
  proof
    show "matches (star (Cls q)) b t z \<Longrightarrow> list_all q t" by (erule matches_only) (simp add: star_def)
    show "list_all q t \<Longrightarrow> matches (star (Cls q)) b t z"
    proof (induction t arbitrary: b)
      case (Cons x t)
      then show ?case using matches.more [of None "Cls q" b "[x]" t z 0 True]
        by (auto simp: star_def dec_max_def intro: matches.intros)
    qed (simp add: star_def matches.stop)
  qed
  have cat: "matches (Cat (Cls q) r) b t z \<longleftrightarrow> (\<exists>x u. t = x # u \<and> q x \<and> matches r (x # b) u z)" for q r b t z
    by (auto simp: matches_simps) (metis append_Cons append_Nil rev_singleton_conv)
  have weaker: "alnum_or [] x \<Longrightarrow> alnum_or ''._-'' x" for x by (auto simp: alnum_or_def)
  have "rx_ok SLUG_RX" by (simp add: SLUG_RX_def star_def)
  then show ?thesis
    by (cases p) (auto simp: re_fullmatch_iff SLUG_RX_def cat star weaker)
qed

section \<open>Properties\<close>

text \<open>
  Escaped for HTML a text has no markup character and no quote left, and a browser that reads the five
  entities shows exactly the text: the order of the replacements escapes nothing twice.
\<close>

theorem html_inert_and_read_back:
  "list_all (\<lambda>c. c \<notin> {CHR ''<'', CHR ''>'', CHR 0x22, CHR 0x27}) (esc_html s) \<and> read_html (esc_html s) = s"
  using html_markup [of _ s] read_html_back [of s] by (auto simp: list_all_iff)

text \<open>
  C25. JSON written into an inline script cannot close the script nor open a comment, whatever strings the value
  has, and both replacements are escapes of JSON: a string literal still spells the string it was written for.
\<close>

theorem script_data_inert:
  "\<not> occurs_in ''</'' (json_script j) \<and> \<not> occurs_in ''<!--'' (json_script j)
   \<and> read_escapes (butlast (tl (json_script (JStr s)))) = Some s"
proof -
  obtain ts where "json_script (JStr s) = CHR 0x22 # concat ts @ [CHR 0x22]" "list_all2 spells ts s"
    using script_string_tokens by blast
  then show ?thesis using script_ends [of j] by (simp add: read_spelled)
qed

text \<open>
  Untrusted text stays data in Markdown. In a table cell there is no line break, every pipe has a backslash
  before it and no link or image can begin; a fenced block contains its fence nowhere in the text, so the text cannot
  end the block.
\<close>

theorem markdown_contained:
  assumes "harmless defused"
  shows "set (md_cell defused s) \<inter> {CHR 0x0A, CHR 0x0D} = {} \<and> guarded (CHR 0x5C) (CHR ''|'') False (md_cell defused s)
    \<and> \<not> occurs_in '']('' (md_cell defused s)
    \<and> fence_untrusted s info = fence_of s @ info @ [CHR 0x0A] @ s @ [CHR 0x0A] @ fence_of s
    \<and> \<not> occurs_in (fence_of s) s \<and> 3 \<le> length (fence_of s)"
  using md_cell_breaks [OF assms] md_cell_pipes [OF assms] md_cell_links [OF assms] fence_not_inside
  by (auto simp: fence_untrusted_def fence_of_def)

theorem markdown_contained_witness:
  "set (md_cell ''javascript.'' ''a|b [x](javascript:y)'') \<inter> {CHR 0x0A, CHR 0x0D} = {} \<and> \<not> occurs_in (fence_of ''x'') ''x''"
proof -
  have "harmless ''javascript.''" by code_simp
  from markdown_contained [OF this, of "''a|b [x](javascript:y)''" "[]"] markdown_contained [OF this, of "''x''" "[]"]
  show ?thesis by simp
qed

text \<open>A backslash of the text is not escaped, so before a pipe it takes the place of the one that was added.\<close>

lemma pipe_after_backslash:
  "md_cell ''javascript.'' [CHR ''a'', CHR 0x5C, CHR ''|'', CHR ''b''] = [CHR ''a'', CHR 0x5C, CHR 0x5C, CHR ''|'', CHR ''b'']"
  by code_simp

text \<open>A cell that still begins like a formula is a number: digits, separators, signs and an exponent.\<close>

lemma formula_cell_is_number:
  assumes "csv_cell s \<noteq> []" and "hd (csv_cell s) \<in> formula_chars"
  shows "csv_cell s = s \<and> list_all (\<lambda>c. num_char c \<or> c = CHR 0x0A) s"
  using assms numeric_text [of s] by (auto simp: csv_cell_def formula_chars_def split: if_splits)

text \<open>An accepted slug has as many components as asked, none empty, dotted or able to leave its directory.\<close>

lemma safe_slug_iff:
  "safe_slug n s = Some r \<longleftrightarrow> r = s \<and> length (split_on CHR ''/'' s) = n
     \<and> list_all (\<lambda>p. p \<noteq> [] \<and> alnum_or [] (hd p) \<and> list_all (alnum_or ''._-'') p \<and> \<not> occurs_in ''..'' p) (split_on CHR ''/'' s)"
  by (auto simp: safe_slug_def Let_def slug_matches list_ex_iff list_all_iff)

end
