(* ===== verification/Cvss.thy ===== *)
theory Cvss
  imports Complex_Main Prelude
begin

text \<open>
  \<open>osv/cvss.py\<close>: the CVSS v3 base score of a vector. The code computes with floating point; the model
  with exact fractions. The score is rounded to five places first, which absorbs the error of the
  floating point operations except where an exact value lies on the middle between two such places.
\<close>

section \<open>Metrics\<close>

definition CVSS_AV :: "string \<Rightarrow> rat option" where
  "CVSS_AV = map_of [(''N'', 85 / 100), (''A'', 62 / 100), (''L'', 55 / 100), (''P'', 2 / 10)]"

definition CVSS_AC :: "string \<Rightarrow> rat option" where
  "CVSS_AC = map_of [(''L'', 77 / 100), (''H'', 44 / 100)]"

definition PR_UNCHANGED :: "string \<Rightarrow> rat option" where
  "PR_UNCHANGED = map_of [(''N'', 85 / 100), (''L'', 62 / 100), (''H'', 27 / 100)]"

definition PR_CHANGED :: "string \<Rightarrow> rat option" where
  "PR_CHANGED = map_of [(''N'', 85 / 100), (''L'', 68 / 100), (''H'', 5 / 10)]"

definition CVSS_UI :: "string \<Rightarrow> rat option" where
  "CVSS_UI = map_of [(''N'', 85 / 100), (''R'', 62 / 100)]"

definition CVSS_CIA :: "string \<Rightarrow> rat option" where
  "CVSS_CIA = map_of [(''H'', 56 / 100), (''L'', 22 / 100), (''N'', 0)]"

text \<open>The parts after the prefix as a dictionary; a part without a colon raises \<open>ValueError\<close>, here \<open>None\<close>.\<close>

definition cvss_metrics :: "string \<Rightarrow> (string \<Rightarrow> string option) option" where
  "cvss_metrics vector =
     (let parts = map (cut CHR '':'') (tl (split_on CHR ''/'' vector)) in
      if list_ex (\<lambda>p. snd p = None) parts then None
      else Some (map_of (rev (map (\<lambda>(k, v). (k, or_str v [])) parts))))"

definition metric :: "(string \<Rightarrow> rat option) \<Rightarrow> (string \<Rightarrow> string option) \<Rightarrow> string \<Rightarrow> rat option" where
  "metric weights metrics name = Option.bind (metrics name) weights"

section \<open>The score\<close>

text \<open>Python's \<open>round\<close>: to the nearest, halves to the even one.\<close>

definition py_round :: "rat \<Rightarrow> int" where
  "py_round x = (let n = \<lfloor>x\<rfloor>; d = x - of_int n in
     if d < 1 / 2 then n else if d > 1 / 2 then n + 1 else if even n then n else n + 1)"

definition roundup :: "rat \<Rightarrow> rat" where
  "roundup value = (let i = py_round (value * 100000) in
     if i mod 10000 = 0 then of_int i / 100000 else (of_int (i div 10000) + 1) / 10)"

definition cvss_impact :: "bool \<Rightarrow> rat \<Rightarrow> rat \<Rightarrow> rat \<Rightarrow> rat" where
  "cvss_impact scope_changed c i a =
     (let iss = 1 - (1 - c) * (1 - i) * (1 - a) in
      if scope_changed then 752 / 100 * (iss - 29 / 1000) - 325 / 100 * (iss - 2 / 100) ^ 15 else 642 / 100 * iss)"

definition cvss_score :: "bool \<Rightarrow> rat \<Rightarrow> rat \<Rightarrow> rat" where
  "cvss_score scope_changed impact exploitability =
     (if impact \<le> 0 then 0
      else if scope_changed then roundup (min (108 / 100 * (impact + exploitability)) 10)
      else roundup (min (impact + exploitability) 10))"

definition base_score :: "string \<Rightarrow> rat option" where
  "base_score vector =
     (if \<not> startswith vector ''CVSS:3.0/'' \<and> \<not> startswith vector ''CVSS:3.1/'' then None
      else Option.bind (cvss_metrics vector) (\<lambda>m.
        Option.bind (m ''S'') (\<lambda>s. let scope_changed = (s = ''C'') in
        Option.bind (metric (if scope_changed then PR_CHANGED else PR_UNCHANGED) m ''PR'') (\<lambda>pr.
        Option.bind (metric CVSS_CIA m ''C'') (\<lambda>c. Option.bind (metric CVSS_CIA m ''I'') (\<lambda>i. Option.bind (metric CVSS_CIA m ''A'') (\<lambda>a.
        Option.bind (metric CVSS_AV m ''AV'') (\<lambda>av. Option.bind (metric CVSS_AC m ''AC'') (\<lambda>ac. Option.bind (metric CVSS_UI m ''UI'') (\<lambda>ui.
          Some (cvss_score scope_changed (cvss_impact scope_changed c i a) (822 / 100 * av * ac * pr * ui))))))))))))"

text \<open>
  The \<open>severity\<close> lists of a record: an entry that is no object is \<open>None\<close>, otherwise its score, if it has
  one. An affected package that is null counts as one without entries.
\<close>

type_synonym severities = "string option option list"

definition scores_of :: "severities \<Rightarrow> rat list" where
  "scores_of es = List.map_filter (\<lambda>e. Option.bind e (\<lambda>score. base_score (or_str score []))) es"

definition max_score :: "severities \<Rightarrow> severities option list \<Rightarrow> rat option" where
  "max_score severity affected =
     (let scores = scores_of severity @ concat (map (\<lambda>a. scores_of (case a of None \<Rightarrow> [] | Some es \<Rightarrow> es)) affected) in
      if scores = [] then None else Some (Max (set scores)))"

section \<open>Bounds\<close>

lemma py_round_near: "of_int (py_round x) - 1 / 2 \<le> x" "x \<le> of_int (py_round x) + 1 / 2"
proof -
  have "of_int \<lfloor>x\<rfloor> \<le> x" "of_int \<lfloor>x\<rfloor> - 1 / 2 \<le> x" "x < of_int \<lfloor>x\<rfloor> + 1" by linarith+
  then show "of_int (py_round x) - 1 / 2 \<le> x" "x \<le> of_int (py_round x) + 1 / 2"
    by (auto simp: py_round_def Let_def)
qed

lemma roundup_tenths: "\<exists>k. roundup v = of_int k / 10 \<and> of_int (k - 1) / 10 < v \<and> v \<le> of_int k / 10 + 1 / 200000"
proof -
  let ?i = "py_round (v * 100000)"
  note near = py_round_near [of "v * 100000"]
  show ?thesis
  proof (cases "?i mod 10000 = 0")
    case True
    then obtain k where k: "?i = 10000 * k" by auto
    with near show ?thesis by (intro exI [of _ k]) (simp add: roundup_def)
  next
    case False
    have "10000 * q + 1 \<le> i \<and> i + 1 \<le> 10000 * (q + 1)" if "i = 10000 * q + r" "0 \<le> r" "r < 10000" "r \<noteq> 0" for i q r :: int
      using that by auto
    from this [of ?i "?i div 10000" "?i mod 10000"] False
    have *: "10000 * (?i div 10000) + 1 \<le> ?i" "?i + 1 \<le> 10000 * (?i div 10000 + 1)" by auto
    have "of_int (10000 * (?i div 10000) + 1) \<le> (of_int ?i :: rat)" "of_int (?i + 1) \<le> (of_int (10000 * (?i div 10000 + 1)) :: rat)"
      by (rule of_int_le_iff [THEN iffD2], rule *)+
    then have "of_int (?i div 10000) / 10 < v" "v \<le> of_int (?i div 10000 + 1) / 10 + 1 / 200000"
      using near by (simp_all add: field_simps)
    with False show ?thesis by (intro exI [of _ "?i div 10000 + 1"]) (simp add: roundup_def)
  qed
qed

lemma roundup_bounds: "0 < v \<Longrightarrow> v \<le> 10 \<Longrightarrow> 0 \<le> roundup v \<and> roundup v \<le> 10"
proof -
  assume v: "0 < v" "v \<le> 10"
  obtain k where k: "roundup v = of_int k / 10" "of_int (k - 1) / 10 < v" "v \<le> of_int k / 10 + 1 / 200000"
    using roundup_tenths by blast
  from k(3) v(1) have "(of_int k :: rat) > of_int (-1)" by simp
  then have "- 1 < k" by (simp only: of_int_less_iff)
  then have "0 \<le> k" by simp
  moreover from k(2) v(2) have "of_int (k - 1) < (of_int 100 :: rat)" by simp
  then have "k - 1 < 100" by (simp only: of_int_less_iff)
  then have "k \<le> 100" by simp
  ultimately show ?thesis by (simp add: k(1))
qed

section \<open>The score of a vector\<close>

lemma metric_Some: "metric w m k = Some x \<longleftrightarrow> (\<exists>v. m k = Some v \<and> w v = Some x)"
  by (simp add: metric_def bind_eq_Some_conv)

lemma weights_range:
  "CVSS_CIA v = Some x \<Longrightarrow> x \<in> {0, 22 / 100, 56 / 100}"
  "CVSS_AV v = Some x \<Longrightarrow> 0 < x" "CVSS_AC v = Some x \<Longrightarrow> 0 < x" "CVSS_UI v = Some x \<Longrightarrow> 0 < x"
  "PR_CHANGED v = Some x \<Longrightarrow> 0 < x" "PR_UNCHANGED v = Some x \<Longrightarrow> 0 < x"
  by (auto simp: CVSS_CIA_def CVSS_AV_def CVSS_AC_def CVSS_UI_def PR_CHANGED_def PR_UNCHANGED_def split: if_splits)

lemma impact_positive:
  assumes "c \<in> {0, 22 / 100, 56 / 100}" and "i \<in> {0, 22 / 100, 56 / 100}" and "a \<in> {0, 22 / 100, 56 / 100}"
  shows "0 < cvss_impact changed c i a \<longleftrightarrow> \<not> (c = 0 \<and> i = 0 \<and> a = 0)"
proof (cases "c = 0 \<and> i = 0 \<and> a = 0")
  case True
  then show ?thesis by (simp add: cvss_impact_def power_divide)
next
  case False
  let ?y = "(1 - c) * (1 - i) * (1 - a)"
  have le: "x * y \<le> x" "x * y \<le> y" if "0 \<le> x" "x \<le> 1" "0 \<le> y" "y \<le> 1" for x y :: rat
    using that by (simp_all add: mult_left_le mult_left_le_one_le)
  have unit: "0 \<le> 1 - x" "1 - x \<le> 1" "x = 0 \<or> 1 - x \<le> 78 / 100" if "x \<in> {0, 22 / 100, 56 / 100 :: rat}" for x
    using that by auto
  note u = unit [OF assms(1)] unit [OF assms(2)] unit [OF assms(3)]
  have ci: "0 \<le> (1 - c) * (1 - i)" "(1 - c) * (1 - i) \<le> 1 - c" "(1 - c) * (1 - i) \<le> 1 - i" using u le by auto
  then have "0 \<le> ?y" "?y \<le> (1 - c) * (1 - i)" "?y \<le> 1 - a" using u le [of "(1 - c) * (1 - i)" "1 - a"] by auto
  with ci u False have y: "0 \<le> ?y" "?y \<le> 78 / 100" by auto
  have "(1 - ?y - 2 / 100) ^ 15 \<le> (1 - ?y - 2 / 100) ^ 1" using y by (intro power_decreasing) auto
  then show ?thesis using False y by (simp add: cvss_impact_def Let_def)
qed

lemma score_bounds: "0 < e \<Longrightarrow> 0 \<le> cvss_score changed i e \<and> cvss_score changed i e \<le> 10"
  by (auto simp: cvss_score_def intro!: conjunct1 [OF roundup_bounds] conjunct2 [OF roundup_bounds])

definition has_metric :: "(string \<Rightarrow> string option) \<Rightarrow> string \<Rightarrow> string list \<Rightarrow> bool" where
  "has_metric m name values = (case m name of None \<Rightarrow> False | Some v \<Rightarrow> v \<in> set values)"

definition well_formed_metrics :: "(string \<Rightarrow> string option) \<Rightarrow> bool" where
  "well_formed_metrics m \<longleftrightarrow> m ''S'' \<noteq> None \<and> has_metric m ''PR'' [''N'', ''L'', ''H'']
     \<and> has_metric m ''C'' [''H'', ''L'', ''N''] \<and> has_metric m ''I'' [''H'', ''L'', ''N''] \<and> has_metric m ''A'' [''H'', ''L'', ''N'']
     \<and> has_metric m ''AV'' [''N'', ''A'', ''L'', ''P''] \<and> has_metric m ''AC'' [''L'', ''H''] \<and> has_metric m ''UI'' [''N'', ''R'']"

lemma metric_known: "(\<exists>x. metric (map_of ws) m k = Some x) = has_metric m k (map fst ws)"
proof (cases "m k")
  case (Some v)
  then show ?thesis using map_of_eq_None_iff [of ws v] by (cases "map_of ws v") (auto simp: metric_def has_metric_def)
qed (simp add: metric_def has_metric_def)

lemma has_metric_iff:
  "(\<exists>x. metric CVSS_CIA m k = Some x) = has_metric m k [''H'', ''L'', ''N'']"
  "(\<exists>x. metric CVSS_AV m k = Some x) = has_metric m k [''N'', ''A'', ''L'', ''P'']"
  "(\<exists>x. metric CVSS_AC m k = Some x) = has_metric m k [''L'', ''H'']"
  "(\<exists>x. metric CVSS_UI m k = Some x) = has_metric m k [''N'', ''R'']"
  "(\<exists>x. metric PR_CHANGED m k = Some x) = has_metric m k [''N'', ''L'', ''H'']"
  "(\<exists>x. metric PR_UNCHANGED m k = Some x) = has_metric m k [''N'', ''L'', ''H'']"
  by (simp_all only: CVSS_CIA_def CVSS_AV_def CVSS_AC_def CVSS_UI_def PR_CHANGED_def PR_UNCHANGED_def metric_known list.map fst_conv)

lemma if_None_Some: "(if P then None else b) = Some x \<longleftrightarrow> \<not> P \<and> b = Some x"
  by simp

lemma base_score_SomeD:
  assumes "base_score v = Some x"
  obtains changed i e where "x = cvss_score changed i e" "0 < e"
proof -
  from assms obtain m s pr c i a av ac ui where
    p: "metric (if s = ''C'' then PR_CHANGED else PR_UNCHANGED) m ''PR'' = Some pr" "metric CVSS_AV m ''AV'' = Some av"
      "metric CVSS_AC m ''AC'' = Some ac" "metric CVSS_UI m ''UI'' = Some ui"
      and x: "x = cvss_score (s = ''C'') (cvss_impact (s = ''C'') c i a) (822 / 100 * av * ac * pr * ui)"
    unfolding base_score_def if_None_Some bind_eq_Some_conv Let_def option.inject by blast
  have "0 < pr" using p(1) by (cases "s = ''C''") (auto simp: metric_Some weights_range)
  moreover have "0 < av" "0 < ac" "0 < ui" using p(2-4) by (auto simp: metric_Some weights_range)
  ultimately have "0 < 822 / 100 * av * ac * pr * ui" by simp
  with x show ?thesis by (rule that)
qed

lemma has_PR: "(\<exists>x. metric (if b then PR_CHANGED else PR_UNCHANGED) m k = Some x) = has_metric m k [''N'', ''L'', ''H'']"
  by (simp add: has_metric_iff)

lemma base_score_Some:
  "(\<exists>x. base_score v = Some x) \<longleftrightarrow> (startswith v ''CVSS:3.0/'' \<or> startswith v ''CVSS:3.1/'')
     \<and> (case cvss_metrics v of None \<Rightarrow> False | Some m \<Rightarrow> well_formed_metrics m)"
proof (cases "cvss_metrics v")
  case None
  then show ?thesis by (simp add: base_score_def)
next
  case (Some m)
  have "(\<exists>x. base_score v = Some x) \<longleftrightarrow> (startswith v ''CVSS:3.0/'' \<or> startswith v ''CVSS:3.1/'') \<and> (\<exists>s. m ''S'' = Some s
      \<and> (\<exists>x. metric (if s = ''C'' then PR_CHANGED else PR_UNCHANGED) m ''PR'' = Some x) \<and> (\<exists>x. metric CVSS_CIA m ''C'' = Some x)
      \<and> (\<exists>x. metric CVSS_CIA m ''I'' = Some x) \<and> (\<exists>x. metric CVSS_CIA m ''A'' = Some x) \<and> (\<exists>x. metric CVSS_AV m ''AV'' = Some x)
      \<and> (\<exists>x. metric CVSS_AC m ''AC'' = Some x) \<and> (\<exists>x. metric CVSS_UI m ''UI'' = Some x))"
    unfolding base_score_def Some Option.bind.simps if_None_Some bind_eq_Some_conv Let_def option.inject by blast
  then show ?thesis unfolding has_PR has_metric_iff by (auto simp: Some well_formed_metrics_def)
qed

text \<open>
  C26. The base score is total on well-formed vectors and bounded: a vector has a score exactly when it is of version
  3.0 or 3.1, splits into metrics and gives each of the eight base metrics a known value (any value for the
  scope); the score then lies between 0 and 10, on a tenth, and the score of a record is the highest of its
  vectors.
\<close>

theorem score_bounded:
  "(base_score v \<noteq> None) = ((startswith v ''CVSS:3.0/'' \<or> startswith v ''CVSS:3.1/'')
      \<and> (case cvss_metrics v of None \<Rightarrow> False | Some m \<Rightarrow> well_formed_metrics m))
   \<and> (case base_score v of None \<Rightarrow> True
      | Some x \<Rightarrow> 0 \<le> x \<and> x \<le> 10 \<and> of_int \<lfloor>10 * x\<rfloor> = 10 * x)
   \<and> (case max_score sev aff of None \<Rightarrow> True | Some x \<Rightarrow> 0 \<le> x \<and> x \<le> 10)"
proof -
  have tenth: "of_int \<lfloor>10 * cvss_score changed i e\<rfloor> = 10 * cvss_score changed i e" for changed i e
  proof -
    have "of_int \<lfloor>10 * roundup y\<rfloor> = 10 * roundup y" for y
    proof -
      obtain k where "roundup y = of_int k / 10" using roundup_tenths by blast
      then have "10 * roundup y = of_int k" by simp
      then show ?thesis by (simp only: floor_of_int)
    qed
    then show ?thesis by (simp add: cvss_score_def)
  qed
  have one: "0 \<le> x \<and> x \<le> 10 \<and> of_int \<lfloor>10 * x\<rfloor> = 10 * x" if "base_score u = Some x" for u x
    using that by (rule base_score_SomeD) (use score_bounds tenth in auto)
  have "0 \<le> x \<and> x \<le> 10" if "x \<in> set (scores_of es)" for x es
    using that one by (auto simp: scores_of_def List.map_filter_def bind_eq_Some_conv)
  then have max: "0 \<le> x \<and> x \<le> 10" if "max_score sev aff = Some x" for x
    using that Max_in [of "set (scores_of sev @ concat (map (\<lambda>a. scores_of (case a of None \<Rightarrow> [] | Some es \<Rightarrow> es)) aff))"]
    by (auto simp: max_score_def Let_def split: if_splits)
  show ?thesis
    using one [of v] max base_score_Some [of v] by (auto split: option.splits)
qed

text \<open>Any scope but \<open>C\<close> counts as unchanged, also one that does not exist.\<close>

lemma score_examples:
  "base_score ''CVSS:3.1/AV:N/AC:L/PR:N/UI:N/S:U/C:H/I:H/A:H'' = Some (98 / 10)"
  "base_score ''CVSS:3.0/AV:L/AC:H/PR:L/UI:R/S:X/C:L/I:N/A:N'' = Some (22 / 10)"
  "base_score ''CVSS:3.0/AV:L/AC:H/PR:L/UI:R/S:U/C:L/I:N/A:N'' = Some (22 / 10)"
  by code_simp+

end
