(* ===== verification/Manifest_Lines.thy ===== *)
theory Manifest_Lines
  imports Py_Text
begin

text \<open>
  \<open>portfolio/parsers.py\<close>, the manifests read line by line or with regular expressions: pip requirements, conda
  environments, pnpm and yarn lockfiles, Gradle, RubyGems, setup scripts, Dockerfiles, workflows and Helm charts.
  Each parser gives the name the manifest declares for itself, if it has one, and its dependencies with their
  version and whether they are indirect. The parsers with an indentation of their own are loops over the lines with a
  state that is written out here.
\<close>

type_synonym dep = "string \<times> string \<times> bool"
type_synonym parsed = "string option \<times> dep list"

section \<open>Names\<close>

text \<open>\<open>_pep503\<close>\<close>

definition pep503 :: "string \<Rightarrow> string" where
  "pep503 name = lower (strip_set ''-'' (re_sub (plus (Cls (one_of ''-_.''))) (\<lambda>_. ''-'') name))"

definition group :: "nat \<Rightarrow> rmatch \<Rightarrow> string" where
  "group k m = or_str (m_group k m) []"

definition before_char :: "char \<Rightarrow> string \<Rightarrow> string" where
  "before_char c s = fst (cut c s)"

definition indent_of :: "string \<Rightarrow> nat" where
  "indent_of raw = length (takeWhile (\<lambda>c. c = CHR '' '') raw)"

text \<open>\<open>npm:\<close> aliases: the separator is the first at sign after that of a scope.\<close>

definition resolve_npm_alias :: "string \<Rightarrow> (string \<times> string) option" where
  "resolve_npm_alias spec =
     (if \<not> startswith spec ''npm:'' then None
      else let body = drop 4 spec; scope = (if startswith body ''@'' then ''@'' else []) in
        case cut CHR ''@'' (drop (length scope) body) of
          (_, None) \<Rightarrow> if body = [] then None else Some (body, [])
        | (name, Some version) \<Rightarrow> if scope @ name = [] then None else Some (scope @ name, lstrip_set ''^~='' version))"

section \<open>pnpm\<close>

definition PNPM_HEADERS :: "string list" where
  "PNPM_HEADERS = [''dependencies:'', ''devDependencies:'', ''optionalDependencies:'']"

definition pnpm_split_key :: "string \<Rightarrow> (string \<times> string) option" where
  "pnpm_split_key key0 =
     (let key = before_char CHR ''('' key0 in
      if CHR ''@'' \<notin> set key \<or> before_last CHR ''@'' key = [] \<or> after_last CHR ''@'' key = [] then None
      else Some (before_last CHR ''@'' key, after_last CHR ''@'' key))"

record pnpm_state =
  pn_in_packages :: bool
  pn_pkg_indent :: "nat option"
  pn_sect_indent :: "nat option"
  pn_child_indent :: "nat option"
  pn_directs :: "string list"
  pn_entries :: "(string \<times> string) list"

definition quote_set :: string where
  "quote_set = [CHR 0x27, CHR 0x22]"

definition pnpm_package :: "nat \<Rightarrow> string \<Rightarrow> pnpm_state \<Rightarrow> pnpm_state" where
  "pnpm_package ind content s =
     (let s1 = (if pn_pkg_indent s = None then s\<lparr>pn_pkg_indent := Some ind\<rparr> else s) in
      if Some ind \<noteq> pn_pkg_indent s1 \<or> \<not> endswith content '':'' then s1
      else case pnpm_split_key (removeprefix (strip_set quote_set (strip (butlast content))) ''/'') of
             None \<Rightarrow> s1 | Some e \<Rightarrow> s1\<lparr>pn_entries := pn_entries s1 @ [e]\<rparr>)"

definition pnpm_section :: "nat \<Rightarrow> string \<Rightarrow> nat \<Rightarrow> pnpm_state \<Rightarrow> pnpm_state" where
  "pnpm_section ind content sect s =
     (if ind \<le> sect then s\<lparr>pn_sect_indent := None, pn_child_indent := None\<rparr>
      else let s1 = (if pn_child_indent s = None then s\<lparr>pn_child_indent := Some ind\<rparr> else s);
               name = strip_set quote_set (strip (before_char CHR '':'' content)) in
        if Some ind = pn_child_indent s1 \<and> name \<noteq> [] then s1\<lparr>pn_directs := name # pn_directs s1\<rparr> else s1)"

definition pnpm_line :: "string \<Rightarrow> pnpm_state \<Rightarrow> pnpm_state" where
  "pnpm_line raw s =
     (let content = strip raw; ind = indent_of raw in
      if content = [] then s
      else if ind = 0 then s\<lparr>pn_in_packages := (content = ''packages:''), pn_pkg_indent := None, pn_child_indent := None,
        pn_sect_indent := (if content \<in> set PNPM_HEADERS then Some 0 else None)\<rparr>
      else if pn_in_packages s then pnpm_package ind content s
      else if content \<in> set PNPM_HEADERS then s\<lparr>pn_sect_indent := Some ind, pn_child_indent := None\<rparr>
      else case pn_sect_indent s of None \<Rightarrow> s | Some sect \<Rightarrow> pnpm_section ind content sect s)"

definition pnpm_start :: pnpm_state where
  "pnpm_start = \<lparr>pn_in_packages = False, pn_pkg_indent = None, pn_sect_indent = None, pn_child_indent = None,
     pn_directs = [], pn_entries = []\<rparr>"

definition parse_pnpm_lock :: "string \<Rightarrow> parsed" where
  "parse_pnpm_lock text =
     (let s = fold pnpm_line (split_lines text) pnpm_start in
      (None, map (\<lambda>(n, v). (n, v, n \<notin> set (pn_directs s))) (pn_entries s)))"

section \<open>yarn\<close>

definition YARN_VERSION_RX :: rx where
  "YARN_VERSION_RX = seq [At Bos, plus (Cls is_space), lit ''version'', opt (lit '':''), plus (Cls is_space), opt dq,
     Grp 1 (plus (Cls (\<lambda>c. c \<noteq> CHR 0x22 \<and> \<not> is_space c))), opt dq, sp, At Eos]"

definition local_protocols :: "string list" where
  "local_protocols = [''workspace:'', ''link:'', ''portal:'', ''file:'', ''exec:'']"

text \<open>The name before the first at sign that is not the first character.\<close>

definition before_at :: "string \<Rightarrow> (string \<times> string) option" where
  "before_at s = (case s of [] \<Rightarrow> None
     | c # cs \<Rightarrow> (case cut CHR ''@'' cs of (_, None) \<Rightarrow> None | (n, Some r) \<Rightarrow> Some (c # n, r)))"

definition yarn_name :: "string \<Rightarrow> string option" where
  "yarn_name spec = (case before_at (strip_set [CHR 0x22] (strip spec)) of
       None \<Rightarrow> None
     | Some (name, rng) \<Rightarrow>
         if list_ex (startswith rng) local_protocols then None
         else if startswith rng ''npm:'' \<and> CHR ''@'' \<in> set (lstrip_set ''@'' (drop 4 rng)) then map_option fst (before_at (drop 4 rng))
         else Some name)"

definition yarn_line :: "string \<Rightarrow> string list \<times> dep list \<Rightarrow> string list \<times> dep list" where
  "yarn_line line s = (case s of (names, deps) \<Rightarrow>
     if strip line = [] \<or> startswith (dropWhile is_space line) ''#'' then s
     else if \<not> is_space (hd line) then
       (let key = rstrip_with (\<lambda>c. c = CHR '':'') (rstrip_with is_space line) in
        (if key = ''__metadata'' then [] else List.map_filter yarn_name (split_on CHR '','' key), deps))
     else if names = [] then s
     else case re_match YARN_VERSION_RX line of
         None \<Rightarrow> s
       | Some m \<Rightarrow> if startswith line ''  '' \<and> \<not> startswith line ''   ''
           then ([], fold (\<lambda>n ds. if (n, group 1 m, True) \<in> set ds then ds else ds @ [(n, group 1 m, True)]) (fromkeys names) deps)
           else s)"

definition parse_yarn_lock :: "string \<Rightarrow> parsed" where
  "parse_yarn_lock text = (None, snd (fold yarn_line (split_lines text) ([], [])))"

section \<open>Requirements\<close>

definition req_name :: rx where
  "req_name = Cat (Cls (alnum_or [])) (star (Cls (alnum_or ''._-'')))"

definition extras :: rx where
  "extras = opt (seq [lit ''['', star (Cls (none_of '']'')), lit '']''])"

definition REQ_LINE_RX :: rx where
  "REQ_LINE_RX = seq [At Bos, sp, Grp 1 req_name, sp, extras, sp,
     alts [lit ''==='', lit ''=='', lit ''>='', lit ''<='', lit ''~='', lit ''!='', lit ''<'', lit ''>''], sp,
     Grp 2 (plus (Cls (\<lambda>c. \<not> is_space c \<and> c \<noteq> CHR '';'' \<and> c \<noteq> CHR '','')))]"

definition requirement :: "string \<Rightarrow> dep option" where
  "requirement raw =
     (let line = strip raw in
      if line = [] \<or> startswith line ''#'' \<or> startswith line ''-'' then None
      else let req = strip (before_char CHR '';'' (before_char CHR ''#'' line)) in
        if req = [] then None
        else map_option (\<lambda>m. (pep503 (group 1 m), strip (group 2 m), False)) (re_match REQ_LINE_RX req))"

definition parse_requirements_txt :: "string \<Rightarrow> parsed" where
  "parse_requirements_txt text = (None, List.map_filter requirement (split_lines text))"

definition parse_constraints_txt :: "string \<Rightarrow> parsed" where
  "parse_constraints_txt = parse_requirements_txt"

definition PEP508_RX :: rx where
  "PEP508_RX = seq [At Bos, sp, Grp 1 req_name, sp, extras, sp, Grp 2 (star (Cls (none_of [CHR 0x0A]))), At Eos]"

definition parse_pep508 :: "string \<Rightarrow> (string \<times> string) option" where
  "parse_pep508 req = map_option (\<lambda>m. (pep503 (group 1 m), strip (strip_set ''()'' (strip (group 2 m)))))
     (re_match PEP508_RX (strip (before_char CHR '';'' req)))"

definition direct :: "string \<times> string \<Rightarrow> dep" where
  "direct p = (fst p, snd p, False)"

section \<open>Setup scripts\<close>

definition SETUP_NAME_RX :: rx where
  "SETUP_NAME_RX = seq [At Word_boundary, lit ''name'', sp, lit ''='', sp, quote_class, Grp 1 not_quotes, quote_class]"

definition INSTALL_REQUIRES_RX :: rx where
  "INSTALL_REQUIRES_RX = seq [lit ''install_requires'', sp, lit ''='', sp, lit ''['', Grp 1 (Rep 0 None False (Cls (\<lambda>_. True))), lit '']'']"

definition STR_LITERAL_RX :: rx where
  "STR_LITERAL_RX = seq [quote_class, Grp 1 not_quotes, quote_class]"

definition parse_setup_py :: "string \<Rightarrow> parsed" where
  "parse_setup_py text =
     (map_option (group 1) (re_search SETUP_NAME_RX text),
      case re_search INSTALL_REQUIRES_RX text of
        None \<Rightarrow> []
      | Some im \<Rightarrow> List.map_filter (\<lambda>sm. map_option direct (parse_pep508 (group 1 sm))) (re_finditer STR_LITERAL_RX (group 1 im)))"

section \<open>Conda environments\<close>

definition CONDA_SPEC_RX :: rx where
  "CONDA_SPEC_RX = seq [At Bos, Grp 1 req_name, sp,
     opt (seq [alts [lit ''=='', lit ''>='', lit ''<='', lit ''!='', lit ''~='', lit ''=''], sp,
       Grp 2 (plus (Cls (\<lambda>c. \<not> is_space c \<and> c \<noteq> CHR ''='')))])]"

text \<open>\<open>s.split("::", 1)[-1]\<close>\<close>

fun after_colons :: "string \<Rightarrow> string option" where
  "after_colons (a # b # s) = (if a = CHR '':'' \<and> b = CHR '':'' then Some s else after_colons (b # s))"
| "after_colons _ = None"

definition parse_conda_spec :: "string \<Rightarrow> (string \<times> string) option" where
  "parse_conda_spec item =
     (let i = strip (before_char CHR ''#'' (case after_colons item of None \<Rightarrow> item | Some s \<Rightarrow> s)) in
      if i = [] then None
      else map_option (\<lambda>m. (pep503 (group 1 m), strip (group 2 m))) (re_match CONDA_SPEC_RX i))"

record conda_state =
  cd_in_deps :: bool
  cd_indent :: nat
  cd_pip :: "nat option"
  cd_deps :: "dep list"

definition conda_item :: "nat \<Rightarrow> string \<Rightarrow> conda_state \<Rightarrow> conda_state" where
  "conda_item ind item s0 =
     (let s = (case cd_pip s0 of Some p \<Rightarrow> if ind \<le> p then s0\<lparr>cd_pip := None\<rparr> else s0 | None \<Rightarrow> s0) in
      if cd_pip s = None \<and> startswith item ''pip:'' then s\<lparr>cd_pip := Some ind\<rparr>
      else case (if cd_pip s \<noteq> None then parse_pep508 item else parse_conda_spec item) of
        None \<Rightarrow> s | Some p \<Rightarrow> s\<lparr>cd_deps := cd_deps s @ [direct p]\<rparr>)"

definition conda_line :: "string \<Rightarrow> conda_state \<Rightarrow> conda_state" where
  "conda_line raw s =
     (let content = strip raw; ind = indent_of raw in
      if content = [] \<or> startswith content ''#'' then s
      else if content = ''dependencies:'' then s\<lparr>cd_in_deps := True, cd_indent := ind, cd_pip := None\<rparr>
      else if \<not> cd_in_deps s then s
      else if \<not> startswith content ''-'' then (if ind \<le> cd_indent s then s\<lparr>cd_in_deps := False\<rparr> else s)
      else conda_item ind (strip (tl content)) s)"

definition parse_environment_yml :: "string \<Rightarrow> parsed" where
  "parse_environment_yml text =
     (None, cd_deps (fold conda_line (split_lines text) \<lparr>cd_in_deps = False, cd_indent = 0, cd_pip = None, cd_deps = []\<rparr>))"

end
