(* ===== verification/Manifest_Build.thy ===== *)
theory Manifest_Build
  imports Manifest_Lines
begin

text \<open>
  \<open>portfolio/parsers.py\<close>, continued: Gradle, RubyGems, Dockerfiles, workflows and Helm charts, which are read
  with regular expressions or line by line.
\<close>

section \<open>Gradle\<close>

definition gradle_lock_line :: "string \<Rightarrow> dep option" where
  "gradle_lock_line raw =
     (let line = strip raw in
      if line = [] \<or> startswith line ''#'' \<or> CHR ''='' \<notin> set line then None
      else case split_on CHR '':'' (strip (before_char CHR ''='' line)) of
        g # a # v # _ \<Rightarrow> if g \<noteq> [] \<and> a \<noteq> [] \<and> v \<noteq> [] then Some (g @ '':'' @ a, v, True) else None
      | _ \<Rightarrow> None)"

definition parse_gradle_lockfile :: "string \<Rightarrow> parsed" where
  "parse_gradle_lockfile text = (None, List.map_filter gradle_lock_line (split_lines text))"

definition GRADLE_DEP_RX :: rx where
  "GRADLE_DEP_RX = seq [At Word_boundary,
     alts [lit ''implementation'', lit ''api'', lit ''compile'', lit ''compileOnly'', lit ''runtimeOnly'', lit ''testImplementation'',
       lit ''testCompile'', lit ''testRuntimeOnly'', lit ''annotationProcessor'', lit ''kapt'', lit ''classpath''],
     At Word_boundary, star (Cls (none_of [CHR 0x0A, CHR 0x27, CHR 0x22])), quote_class,
     Grp 1 (plus (Cls (alnum_or ''_.-''))), lit '':'', Grp 2 (plus (Cls (alnum_or ''_.-''))), lit '':'',
     Grp 3 (plus (Cls (alnum_or ''_.+-''))), quote_class]"

definition parse_build_gradle :: "string \<Rightarrow> parsed" where
  "parse_build_gradle text = (None, map (\<lambda>m. (group 1 m @ '':'' @ group 2 m, group 3 m, False)) (re_finditer GRADLE_DEP_RX text))"

section \<open>RubyGems\<close>

definition GEM_SPEC_RX :: rx where
  "GEM_SPEC_RX = seq [At Bos, lit ''    '', Grp 1 (plus (Cls (alnum_or ''._-''))), lit '' ('',
     Grp 2 (Cat (Cls is_digit) (star (Cls (alnum_or ''._+-'')))), lit '')'', sp, At Eos]"

definition gemfile_lock_line :: "string \<Rightarrow> bool \<times> dep list \<Rightarrow> bool \<times> dep list" where
  "gemfile_lock_line raw s = (case s of (in_specs, deps) \<Rightarrow>
     if raw \<noteq> [] \<and> \<not> is_space (hd raw) then (False, deps)
     else if strip raw = ''specs:'' then (True, deps)
     else if \<not> in_specs then s
     else case re_match GEM_SPEC_RX raw of None \<Rightarrow> s | Some m \<Rightarrow> (in_specs, deps @ [(group 1 m, group 2 m, True)]))"

definition parse_gemfile_lock :: "string \<Rightarrow> parsed" where
  "parse_gemfile_lock text = (None, snd (fold gemfile_lock_line (split_lines text) (False, [])))"

definition GEMSPEC_DEP_RX :: rx where
  "GEMSPEC_DEP_RX = seq [lit ''.add'', opt (Alt (lit ''_runtime'') (lit ''_development'')), lit ''_dependency'', sp, opt (lit ''(''), sp,
     quote_class, Grp 1 not_quotes, quote_class, sp, opt (seq [lit '','', sp, quote_class, Grp 2 not_quotes, quote_class])]"

definition GEMSPEC_NAME_RX :: rx where
  "GEMSPEC_NAME_RX = seq [lit ''.name'', sp, lit ''='', sp, quote_class, Grp 1 not_quotes, quote_class]"

definition gem_dep :: "rmatch \<Rightarrow> dep" where
  "gem_dep m = (group 1 m, group 2 m, False)"

definition parse_gemspec :: "string \<Rightarrow> parsed" where
  "parse_gemspec text = (map_option (group 1) (re_search GEMSPEC_NAME_RX text), map gem_dep (re_finditer GEMSPEC_DEP_RX text))"

definition GEMFILE_RX :: rx where
  "GEMFILE_RX = seq [At Bol, sp, lit ''gem'', plus (Cls is_space), quote_class, Grp 1 not_quotes, quote_class,
     opt (seq [sp, lit '','', sp, quote_class, Grp 2 not_quotes, quote_class])]"

definition parse_gemfile :: "string \<Rightarrow> parsed" where
  "parse_gemfile text = (None, map gem_dep (re_finditer GEMFILE_RX text))"

section \<open>Dockerfiles\<close>

definition nonspace :: rx where
  "nonspace = plus (Cls (\<lambda>c. \<not> is_space c))"

definition FROM_RX :: rx where
  "FROM_RX = seq [At Bos, sp, ilit ''FROM'', plus (Cls is_space),
     opt (seq [ilit ''--platform='', nonspace, plus (Cls is_space)]), Grp 1 nonspace,
     opt (seq [plus (Cls is_space), ilit ''AS'', plus (Cls is_space), Grp 2 nonspace]), sp, At Eos]"

definition split_docker_ref :: "string \<Rightarrow> string \<times> string" where
  "split_docker_ref ref =
     (case cut CHR ''@'' ref of
        (img, Some digest) \<Rightarrow> (img, digest)
      | (_, None) \<Rightarrow>
          if CHR '':'' \<in> set ref \<and> CHR ''/'' \<notin> set (after_last CHR '':'' ref) then (before_last CHR '':'' ref, after_last CHR '':'' ref)
          else (ref, ''latest''))"

text \<open>A \<open>FROM\<close> line: the reference and the stage it names.\<close>

definition from_line :: "string \<Rightarrow> (string \<times> string option) option" where
  "from_line raw =
     (let line = strip raw in
      if line = [] \<or> startswith line ''#'' then None
      else map_option (\<lambda>m. (group 1 m, m_group 2 m)) (re_match FROM_RX line))"

definition docker_skip :: "string list \<Rightarrow> string \<Rightarrow> bool" where
  "docker_skip stages ref \<longleftrightarrow> lower ref \<in> set stages \<or> lower ref = ''scratch'' \<or> occurs_in ''${'' ref \<or> startswith ref ''$''"

definition docker_line :: "string \<Rightarrow> string list \<times> dep list \<Rightarrow> string list \<times> dep list" where
  "docker_line raw s = (case from_line raw of
       None \<Rightarrow> s
     | Some (ref, stage) \<Rightarrow> (case s of (stages, deps) \<Rightarrow>
         (case stage of None \<Rightarrow> stages | Some a \<Rightarrow> if a = [] then stages else lower a # stages,
          if docker_skip stages ref then deps
          else case split_docker_ref ref of (img, version) \<Rightarrow>
            if (img, version, False) \<in> set deps then deps else deps @ [(img, version, False)])))"

definition parse_dockerfile :: "string \<Rightarrow> parsed" where
  "parse_dockerfile text = (None, snd (fold docker_line (split_lines text) ([], [])))"

section \<open>Workflows\<close>

definition USES_RX :: rx where
  "USES_RX = seq [At Bol, sp, opt (Cat (lit ''-'') sp), lit ''uses'', sp, lit '':'', sp, opt quote_class,
     Grp 1 (plus (Cls (\<lambda>c. \<not> is_space c \<and> c \<noteq> CHR 0x27 \<and> c \<noteq> CHR 0x22 \<and> c \<noteq> CHR ''#'')))]"

definition action_of :: "string \<Rightarrow> dep option" where
  "action_of ref =
     (if startswith ref ''.'' \<or> startswith ref ''/'' \<or> startswith ref ''docker://'' then None
      else if CHR ''@'' \<notin> set ref \<or> after_last CHR ''@'' ref = [] then None
      else case split_on CHR ''/'' (before_last CHR ''@'' ref) of
        owner # repo # _ \<Rightarrow> if owner \<noteq> [] \<and> repo \<noteq> [] then Some (owner @ ''/'' @ repo, after_last CHR ''@'' ref, False) else None
      | _ \<Rightarrow> None)"

definition parse_github_workflow :: "string \<Rightarrow> parsed" where
  "parse_github_workflow text = (None, fromkeys (List.map_filter (\<lambda>m. action_of (group 1 m)) (re_finditer USES_RX text)))"

section \<open>Helm charts\<close>

definition comment_rx :: rx where
  "comment_rx = Cat (plus (Cls is_space)) (lit ''#'')"

definition yaml_scalar :: "string \<Rightarrow> string" where
  "yaml_scalar v0 =
     (let v = strip v0 in
      if v \<noteq> [] \<and> hd v \<in> set quote_set then fst (cut (hd v) (tl v))
      else strip (case re_search comment_rx v of None \<Rightarrow> v | Some m \<Rightarrow> m_before m))"

definition HELM_KV_RX :: rx where
  "HELM_KV_RX = seq [At Bos, Grp 1 (plus (Cls (alnum_or ''_.-''))), sp, lit '':'', sp, Grp 2 (star (Cls (none_of [CHR 0x0A]))), At Eos]"

definition HELM_NAME_RX :: rx where
  "HELM_NAME_RX = seq [At Bos, lit ''name'', sp, lit '':'', sp, Grp 1 (plus (Cls (none_of [CHR 0x0A]))), At Eos]"

text \<open>The name and version of the dependency being read.\<close>

record helm_state =
  hm_declared :: "string option"
  hm_in_deps :: bool
  hm_indent :: nat
  hm_name :: "string option"
  hm_version :: "string option"
  hm_deps :: "dep list"

definition helm_flush :: "helm_state \<Rightarrow> helm_state" where
  "helm_flush s =
     (let deps = (case hm_name s of None \<Rightarrow> hm_deps s | Some n \<Rightarrow> hm_deps s @ [(n, or_str (hm_version s) [], False)]) in
      s\<lparr>hm_deps := deps, hm_name := None, hm_version := None\<rparr>)"

definition helm_kv :: "string \<Rightarrow> helm_state \<Rightarrow> helm_state" where
  "helm_kv t s = (case re_match HELM_KV_RX t of
       None \<Rightarrow> s
     | Some m \<Rightarrow> (let val = yaml_scalar (group 2 m) in
         if val = [] then s
         else if group 1 m = ''name'' then s\<lparr>hm_name := Some val\<rparr>
         else if group 1 m = ''version'' then s\<lparr>hm_version := Some val\<rparr> else s))"

definition helm_declare :: "nat \<Rightarrow> string \<Rightarrow> helm_state \<Rightarrow> helm_state" where
  "helm_declare ind content s =
     (if hm_declared s = None \<and> ind = 0 then
        (case re_match HELM_NAME_RX content of
           None \<Rightarrow> s
         | Some m \<Rightarrow> (let n = yaml_scalar (group 1 m) in s\<lparr>hm_declared := (if n = [] then None else Some n)\<rparr>))
      else s)"

definition helm_line :: "string \<Rightarrow> helm_state \<Rightarrow> helm_state" where
  "helm_line raw s =
     (let content = strip raw; ind = indent_of raw in
      if content = [] \<or> startswith (dropWhile is_space raw) ''#'' then s
      else if \<not> hm_in_deps s then
        (if content = ''dependencies:'' then s\<lparr>hm_in_deps := True, hm_indent := ind\<rparr> else helm_declare ind content s)
      else if ind \<le> hm_indent s \<and> \<not> startswith content ''-'' then helm_declare ind content ((helm_flush s)\<lparr>hm_in_deps := False\<rparr>)
      else if startswith content ''-'' then
        (let item = strip (tl content) in if item = [] then helm_flush s else helm_kv item (helm_flush s))
      else helm_kv content s)"

definition parse_helm_chart :: "string \<Rightarrow> parsed" where
  "parse_helm_chart text =
     (let s = helm_flush (fold helm_line (split_lines text) \<lparr>hm_declared = None, hm_in_deps = False, hm_indent = 0,
        hm_name = None, hm_version = None, hm_deps = []\<rparr>) in (hm_declared s, hm_deps s))"

end
