(* ===== verification/Manifest_Data.thy ===== *)
theory Manifest_Data
  imports Manifest_Build Py_Json
begin

text \<open>
  \<open>portfolio/parsers.py\<close>, the manifests with a format of their own: JSON, TOML and XML. The readers of these formats
  are the standard library's and arguments here: a text they refuse is \<open>None\<close>. A TOML table is read as a JSON
  object, a TOML date as a number, since the parsers only test for strings, lists and tables. What an entry
  states as its name need not be text, so names are values here.
\<close>

type_synonym value_dep = "json \<times> string \<times> bool"
type_synonym value_parsed = "json option \<times> value_dep list"

definition as_values :: "parsed \<Rightarrow> value_parsed" where
  "as_values p = (map_option JStr (fst p), map (\<lambda>(n, v, i). (JStr n, v, i)) (snd p))"

section \<open>Reading values\<close>

text \<open>\<open>d.get(k)\<close> of an object, the entries of a value that is an object, the items of one that is a list.\<close>

definition jget :: "string \<Rightarrow> json \<Rightarrow> json" where
  "jget k d = (case d of JObj kvs \<Rightarrow> (case map_of kvs k of None \<Rightarrow> JNull | Some v \<Rightarrow> v) | _ \<Rightarrow> JNull)"

fun entries_of :: "json \<Rightarrow> (string \<times> json) list" where
  "entries_of (JObj kvs) = kvs"
| "entries_of _ = []"

fun items_of :: "json \<Rightarrow> json list" where
  "items_of (JArr xs) = xs"
| "items_of _ = []"

fun str_of :: "json \<Rightarrow> string option" where
  "str_of (JStr s) = Some s"
| "str_of _ = None"

fun is_obj :: "json \<Rightarrow> bool" where
  "is_obj (JObj _) = True"
| "is_obj _ = False"

text \<open>\<open>x or None\<close>\<close>

definition or_none :: "json \<Rightarrow> json option" where
  "or_none v = (if json_true v then Some v else None)"

definition or_json :: "json \<Rightarrow> json \<Rightarrow> json" where
  "or_json v w = (if json_true v then v else w)"

definition on_value :: "(string \<Rightarrow> json option) \<Rightarrow> (json \<Rightarrow> value_parsed) \<Rightarrow> string \<Rightarrow> value_parsed" where
  "on_value loads f text = (case loads text of Some (JObj kvs) \<Rightarrow> f (JObj kvs) | _ \<Rightarrow> (None, []))"

section \<open>npm\<close>

definition lock_directs :: "json \<Rightarrow> string list" where
  "lock_directs root = concat (map (\<lambda>sect. map fst (entries_of (jget sect root))) [''dependencies'', ''devDependencies''])"

definition lock_package :: "string list \<Rightarrow> string \<times> json \<Rightarrow> value_dep option" where
  "lock_package directs e =
     (let path = fst e; spec = snd e in
      if path = [] \<or> \<not> is_obj spec then None
      else let key = after_node_modules path; name = or_json (jget ''name'' spec) (JStr key) in
        case str_of (jget ''version'' spec) of
          None \<Rightarrow> None
        | Some v \<Rightarrow> if \<not> json_true name \<or> v = [] then None else Some (name, v, key \<notin> set directs))"

definition package_lock :: "json \<Rightarrow> value_parsed" where
  "package_lock data =
     (case jget ''packages'' data of
        JObj packages \<Rightarrow>
          (let root = jget [] (JObj packages);
               declared = or_none (or_json (jget ''name'' root) (jget ''name'' data)) in
           (declared, List.map_filter (lock_package (lock_directs root)) packages))
      | _ \<Rightarrow> (None, []))"

definition package_dep :: "string \<times> json \<Rightarrow> value_dep" where
  "package_dep e = (case Option.bind (str_of (snd e)) resolve_npm_alias of
       Some (n, v) \<Rightarrow> (JStr n, v, False)
     | None \<Rightarrow> (JStr (fst e), (case str_of (snd e) of None \<Rightarrow> [] | Some r \<Rightarrow> lstrip_set ''^~'' r), False))"

definition package_json :: "json \<Rightarrow> value_parsed" where
  "package_json data = (or_none (jget ''name'' data),
     concat (map (\<lambda>sect. map package_dep (entries_of (jget sect data))) [''dependencies'', ''devDependencies'']))"

section \<open>PyPI\<close>

text \<open>The name and the version of a package table, when both are text.\<close>

definition name_version :: "json \<Rightarrow> (string \<times> string) option" where
  "name_version p = Option.bind (str_of (jget ''name'' p)) (\<lambda>n. map_option (Pair n) (str_of (jget ''version'' p)))"

text \<open>\<open>parse_uv_lock\<close>: a value of \<open>package\<close> that is true and no list, text or table raises \<open>TypeError\<close>.\<close>

definition local_sources :: "string list" where
  "local_sources = [''editable'', ''virtual'', ''directory'', ''path'']"

definition uv_package :: "json \<Rightarrow> value_dep option" where
  "uv_package p =
     (if list_ex (\<lambda>k. k \<in> fst ` set (entries_of (jget ''source'' p))) local_sources then None
      else Option.bind (name_version p) (\<lambda>(n, v). if n \<noteq> [] \<and> v \<noteq> [] then Some (JStr (pep503 n), v, True) else None))"

definition uv_lock :: "json \<Rightarrow> string + value_parsed" where
  "uv_lock data =
     (let pkgs = jget ''package'' data in
      if json_true pkgs \<and> (case pkgs of JNum _ \<Rightarrow> True | JBool _ \<Rightarrow> True | _ \<Rightarrow> False) then Inl ''TypeError''
      else Inr (None, List.map_filter uv_package (items_of pkgs)))"

definition pep508_deps :: "json list \<Rightarrow> value_dep list" where
  "pep508_deps reqs = List.map_filter (\<lambda>r. map_option (\<lambda>(n, v). (JStr n, v, False)) (Option.bind (str_of r) parse_pep508)) reqs"

text \<open>The version of a table entry: a text, or the text under \<open>version\<close>.\<close>

definition spec_version :: "json \<Rightarrow> string" where
  "spec_version spec = (case spec of JStr s \<Rightarrow> s | _ \<Rightarrow> (case str_of (jget ''version'' spec) of None \<Rightarrow> [] | Some v \<Rightarrow> v))"

definition poetry_sections :: "json \<Rightarrow> json list" where
  "poetry_sections poetry =
     filter is_obj (map (\<lambda>s. jget s poetry) [''dependencies'', ''dev-dependencies''])
     @ filter is_obj (map (\<lambda>g. jget ''dependencies'' (snd g)) (entries_of (jget ''group'' poetry)))"

definition pyproject_deps :: "json \<Rightarrow> value_parsed" where
  "pyproject_deps data =
     (let project = jget ''project'' data; poetry = jget ''poetry'' (jget ''tool'' data) in
      (or_none (or_json (jget ''name'' project) (jget ''name'' poetry)),
       pep508_deps (items_of (jget ''dependencies'' project))
       @ concat (map (\<lambda>g. pep508_deps (items_of (snd g))) (entries_of (jget ''optional-dependencies'' project)))
       @ concat (map (\<lambda>m. map (\<lambda>e. (JStr (pep503 (fst e)), spec_version (snd e), False))
             (filter (\<lambda>e. lower (fst e) \<noteq> ''python'') (entries_of m))) (poetry_sections poetry))))"

text \<open>The \<open>[[package]]\<close> tables of \<open>poetry.lock\<close> and \<open>Cargo.lock\<close>.\<close>

definition lock_tables :: "(string \<Rightarrow> string) \<Rightarrow> json \<Rightarrow> value_parsed" where
  "lock_tables norm data = (None, List.map_filter (\<lambda>p. map_option (\<lambda>(n, v). (JStr (norm n), v, True)) (name_version p))
     (items_of (jget ''package'' data)))"

definition poetry_lock :: "json \<Rightarrow> value_parsed" where
  "poetry_lock = lock_tables pep503"

definition cargo_lockfile :: "json \<Rightarrow> value_parsed" where
  "cargo_lockfile = lock_tables (\<lambda>n. n)"

definition pipfile_lock :: "json \<Rightarrow> value_parsed" where
  "pipfile_lock data = (None, concat (map (\<lambda>sect. map (\<lambda>e. (JStr (pep503 (fst e)),
       (case str_of (jget ''version'' (snd e)) of None \<Rightarrow> [] | Some v \<Rightarrow> lstrip_set ''='' v), True))
     (entries_of (jget sect data))) [''default'', ''develop'']))"

definition cargo_toml :: "json \<Rightarrow> value_parsed" where
  "cargo_toml data = (or_none (jget ''name'' (jget ''package'' data)),
     concat (map (\<lambda>sect. map (\<lambda>e. (JStr (fst e), spec_version (snd e), False)) (entries_of (jget sect data)))
       [''dependencies'', ''dev-dependencies'']))"

section \<open>NuGet lockfiles\<close>

definition nuget_package :: "string \<times> json \<Rightarrow> value_dep option" where
  "nuget_package e = (case str_of (jget ''resolved'' (snd e)) of
       None \<Rightarrow> None
     | Some v \<Rightarrow> if v = [] then None else Some (JStr (lower (fst e)), v,
         (case jget ''type'' (snd e) of JStr t \<Rightarrow> lower t \<noteq> ''direct'' | _ \<Rightarrow> True)))"

definition packages_lock_json :: "json \<Rightarrow> value_parsed" where
  "packages_lock_json data = (None, concat (map (\<lambda>f. List.map_filter nuget_package (entries_of (snd f)))
     (entries_of (jget ''dependencies'' data))))"

section \<open>XML\<close>

text \<open>An element: its tag, its attributes, the text before its first child, its children.\<close>

datatype xml = Elem (x_tag: string) (x_attrs: "(string \<times> string) list") (x_text: "string option") (x_children: "xml list")

definition localname :: "xml \<Rightarrow> string" where
  "localname e = after_last CHR ''}'' (x_tag e)"

definition child :: "string \<Rightarrow> xml \<Rightarrow> xml option" where
  "child name e = find (\<lambda>c. localname c = name) (x_children e)"

definition children :: "string \<Rightarrow> xml \<Rightarrow> xml list" where
  "children name e = filter (\<lambda>c. localname c = name) (x_children e)"

definition eltext :: "xml option \<Rightarrow> string" where
  "eltext e = (case e of None \<Rightarrow> [] | Some x \<Rightarrow> strip (or_str (x_text x) []))"

definition child_text :: "string \<Rightarrow> xml \<Rightarrow> string" where
  "child_text name e = eltext (child name e)"

section \<open>Maven\<close>

definition PROP_RX :: rx where
  "PROP_RX = seq [lit ''${'', Grp 1 (plus (Cls (none_of ''}''))), lit ''}'']"

definition prop_step :: "(string \<times> string) list \<Rightarrow> string \<Rightarrow> string" where
  "prop_step props cur = re_sub PROP_RX (\<lambda>m. case map_of props (group 1 m) of None \<Rightarrow> [] | Some v \<Rightarrow> v) cur"

text \<open>At most so many rounds, and none once no reference is left or nothing changes.\<close>

fun prop_rounds :: "(string \<times> string) list \<Rightarrow> nat \<Rightarrow> string \<Rightarrow> string" where
  "prop_rounds props 0 cur = cur"
| "prop_rounds props (Suc n) cur =
     (if \<not> occurs_in ''${'' cur \<or> prop_step props cur = cur then cur else prop_rounds props n (prop_step props cur))"

definition resolve_prop :: "string \<Rightarrow> (string \<times> string) list \<Rightarrow> string" where
  "resolve_prop value props =
     (if value = [] then []
      else let cur = prop_rounds props 10 value in if occurs_in ''${'' cur \<or> cur = [] then [] else cur)"

definition pom_dep :: "(string \<times> string) list \<Rightarrow> xml \<Rightarrow> dep option" where
  "pom_dep props d =
     (let g = child_text ''groupId'' d; a = child_text ''artifactId'' d; v = resolve_prop (child_text ''version'' d) props in
      if g \<noteq> [] \<and> a \<noteq> [] \<and> v \<noteq> [] then Some (g @ '':'' @ a, v, False) else None)"

definition pom_containers :: "xml \<Rightarrow> xml list" where
  "pom_containers root =
     (case child ''dependencies'' root of None \<Rightarrow> [] | Some t \<Rightarrow> [t])
     @ (case Option.bind (child ''dependencyManagement'' root) (child ''dependencies'') of None \<Rightarrow> [] | Some t \<Rightarrow> [t])"

definition pom_own :: "string \<Rightarrow> xml \<Rightarrow> string" where
  "pom_own name root = (let own = child_text name root in
     if own \<noteq> [] then own else case child ''parent'' root of None \<Rightarrow> [] | Some p \<Rightarrow> child_text name p)"

definition pom_props :: "xml \<Rightarrow> (string \<times> string) list" where
  "pom_props root =
     (let props = (case child ''properties'' root of None \<Rightarrow> []
           | Some p \<Rightarrow> fold (\<lambda>c. AList.update (localname c) (strip (or_str (x_text c) []))) (x_children p) []);
          ver = pom_own ''version'' root in
      if ver \<noteq> [] \<and> map_of props ''project.version'' = None then AList.update ''project.version'' ver props else props)"

definition pom_xml :: "xml \<Rightarrow> parsed" where
  "pom_xml root =
     (let g = pom_own ''groupId'' root; a = child_text ''artifactId'' root in
      (if g \<noteq> [] \<and> a \<noteq> [] then Some (g @ '':'' @ a) else None,
       fromkeys (concat (map (\<lambda>c. List.map_filter (pom_dep (pom_props root)) (children ''dependency'' c)) (pom_containers root)))))"

section \<open>Project files of NuGet\<close>

fun x_iter :: "xml \<Rightarrow> xml list" where
  "x_iter (Elem t as x cs) = Elem t as x cs # concat (map x_iter cs)"

definition package_reference :: "xml \<Rightarrow> dep option" where
  "package_reference e =
     (let name = or_str (map_of (x_attrs e) ''Include'') (or_str (map_of (x_attrs e) ''Update'') []) in
      if localname e \<noteq> ''PackageReference'' \<or> name = [] then None
      else Some (name, (case map_of (x_attrs e) ''Version'' of Some v \<Rightarrow> v | None \<Rightarrow> child_text ''Version'' e), False))"

definition csproj :: "xml \<Rightarrow> parsed" where
  "csproj root = (None, List.map_filter package_reference (x_iter root))"

end
