(* ===== verification/Manifest_Names.thy ===== *)
theory Manifest_Names
  imports Manifest_Lines
begin

text \<open>Names in the normal form of \<open>_pep503\<close>: normalising twice is normalising once.\<close>

definition sep :: "char \<Rightarrow> bool" where
  "sep = one_of ''-_.''"

text \<open>No two separators side by side, and the hyphen is the only one.\<close>

definition tidy :: "string \<Rightarrow> bool" where
  "tidy s \<longleftrightarrow> successively (\<lambda>x y. \<not> (sep x \<and> sep y)) s \<and> list_all (\<lambda>x. sep x \<longrightarrow> x = CHR ''-'') s"

lemma sep_hyphen [simp]: "sep (CHR ''-'')"
  by (simp add: sep_def one_of_def)

definition hyphened :: "string \<Rightarrow> string" where
  "hyphened s = re_sub (plus (Cls sep)) (\<lambda>_. ''-'') s"

lemma hyphened_from:
  "render_chunks (\<lambda>_. ''-'') (chunks (run (plus (Cls sep))) 0 b s) = hyphened s"
proof -
  have "render_chunks (\<lambda>_. ''-'') (chunks (run (plus (Cls sep))) 0 b s)
      = render_chunks (\<lambda>_. ''-'') (chunks (run (plus (Cls sep))) 0 c s)" for b c
    by (induction s arbitrary: b c rule: class_chunk_induct [where p = sep]) (simp_all add: chunks_class del: chunks.simps)
  then show ?thesis by (simp add: hyphened_def re_sub_def re_chunks_def)
qed

lemma hyphened_simps:
  "hyphened [] = []"
  "\<not> sep x \<Longrightarrow> hyphened (x # s) = x # hyphened s"
  "sep x \<Longrightarrow> hyphened (x # s) = CHR ''-'' # hyphened (dropWhile sep s)"
  by (simp_all add: hyphened_from [symmetric, of _ "[]"] chunks_class del: chunks.simps)
    (simp_all add: hyphened_from)

lemma hyphened_hd: "s = [] \<or> \<not> sep (hd s) \<Longrightarrow> hyphened s = [] \<or> \<not> sep (hd (hyphened s))"
  by (cases s) (auto simp: hyphened_simps)

lemma tidy_Cons: "tidy (x # s) \<longleftrightarrow> (sep x \<longrightarrow> x = CHR ''-'' \<and> (s = [] \<or> \<not> sep (hd s))) \<and> tidy s"
  by (cases s) (auto simp: tidy_def)

lemma tidy_hyphened: "tidy (hyphened s)"
proof (induction s rule: class_chunk_induct [where p = sep])
  case (Hit x s)
  have "dropWhile sep s = [] \<or> \<not> sep (hd (dropWhile sep s))" using hd_dropWhile [of sep s] by auto
  from hyphened_hd [OF this] Hit show ?case by (simp add: hyphened_simps tidy_Cons)
qed (simp_all add: hyphened_simps tidy_Cons, simp add: tidy_def)

lemma hyphened_tidy: "tidy s \<Longrightarrow> hyphened s = s"
proof (induction s)
  case (Cons x s)
  show ?case
  proof (cases "sep x")
    case True
    then have "dropWhile sep s = s" using Cons.prems by (cases s) (auto simp: tidy_Cons)
    with True Cons show ?thesis by (simp add: hyphened_simps tidy_Cons)
  qed (use Cons in \<open>simp add: hyphened_simps tidy_Cons\<close>)
qed (simp add: hyphened_simps)

lemma tidy_append: "tidy (s @ t) \<Longrightarrow> tidy s \<and> tidy t"
  by (simp add: tidy_def successively_append_iff)

lemma lower_char_sep: "sep (lower_char c) = sep c" "lower_char c = CHR ''-'' \<longleftrightarrow> c = CHR ''-''"
proof -
  have "of_char (char_of (of_char c + 32 :: nat) :: char) = (of_char c + 32 :: nat)" if "of_char c \<le> (222 :: nat)"
    using that by simp
  then have "char_of (of_char c + 32 :: nat) \<noteq> x" if "is_upper c \<or> code_in 192 222 c" "of_char x < (97 :: nat)" for x :: char
    using that by (auto simp: is_upper_def code_in_def)
  then show "sep (lower_char c) = sep c" "lower_char c = CHR ''-'' \<longleftrightarrow> c = CHR ''-''"
    by (auto simp: lower_char_def sep_def one_of_def is_upper_def code_in_def)
qed

lemma lower_char_idem: "lower_char (lower_char c) = lower_char c"
proof -
  have up: "lower_char c \<noteq> c \<Longrightarrow> lower_char c = char_of (of_char c + 32 :: nat) \<and> of_char c \<le> (222 :: nat)
      \<and> (code_in 65 90 c \<or> code_in 192 222 c \<and> c \<noteq> CHR 0xD7)"
    by (auto simp: lower_char_def is_upper_def code_in_def split: if_splits)
  show ?thesis
  proof (cases "lower_char c = c")
    case False
    with up have c: "lower_char c = char_of (of_char c + 32 :: nat)" "of_char c \<le> (222 :: nat)" "code_in 65 90 c \<or> code_in 192 222 c \<and> c \<noteq> CHR 0xD7"
      by auto
    then have "of_char (lower_char c) = (of_char c + 32 :: nat)" by simp
    moreover have "\<not> (is_upper d \<or> code_in 192 222 d \<and> d \<noteq> CHR 0xD7) \<Longrightarrow> lower_char d = d" for d
      by (auto simp: lower_char_def)
    ultimately show ?thesis using c(3) by (auto simp: is_upper_def code_in_def)
  qed simp
qed

lemma tidy_lower: "tidy (lower s) = tidy s"
proof (induction s)
  case (Cons a s)
  then show ?case by (cases s) (auto simp: lower_def tidy_Cons lower_char_sep)
qed (simp add: lower_def)

lemma strip_set_parts: "\<exists>a b. s = a @ strip_set cs s @ b"
proof -
  obtain a where a: "s = a @ lstrip_set cs s"
    by (metis lstrip_set_def takeWhile_dropWhile_id)
  have "lstrip_set cs s = strip_set cs s @ rev (takeWhile (\<lambda>c. c \<in> set cs) (rev (lstrip_set cs s)))"
    by (metis rev_append rev_rev_ident rstrip_with_def strip_set_def takeWhile_dropWhile_id)
  with a show ?thesis by metis
qed

definition no_ends :: "string \<Rightarrow> bool" where
  "no_ends s \<longleftrightarrow> s = [] \<or> hd s \<noteq> CHR ''-'' \<and> last s \<noteq> CHR ''-''"

lemma no_ends_strip: "no_ends (strip_set ''-'' s)"
proof -
  let ?l = "dropWhile (\<lambda>c. c = CHR ''-'') s" and ?t = "strip_set ''-'' s"
  have t: "?t = rev (dropWhile (\<lambda>c. c = CHR ''-'') (rev ?l))"
    by (simp add: strip_set_def lstrip_set_def rstrip_with_def)
  have "?t = [] \<or> last ?t \<noteq> CHR ''-''"
    using hd_dropWhile [of "\<lambda>c. c = CHR ''-''" "rev ?l"] unfolding t by (auto simp: last_rev)
  moreover have "?t = [] \<or> hd ?t = hd ?l"
  proof -
    have "?l = ?t @ rev (takeWhile (\<lambda>c. c = CHR ''-'') (rev ?l))"
      unfolding t by (metis rev_append rev_rev_ident takeWhile_dropWhile_id)
    then show ?thesis by (metis hd_append)
  qed
  moreover have "?l = [] \<or> hd ?l \<noteq> CHR ''-''" using hd_dropWhile [of "\<lambda>c. c = CHR ''-''" s] by auto
  moreover have "?t = []" if "?l = []" unfolding t that by simp
  ultimately show ?thesis by (auto simp: no_ends_def)
qed

lemma strip_no_ends: "no_ends s \<Longrightarrow> strip_set ''-'' s = s"
proof -
  assume s: "no_ends s"
  show ?thesis
  proof (cases s rule: rev_cases)
    case (snoc u x)
    with s show ?thesis
      by (cases u) (auto simp: no_ends_def strip_set_def lstrip_set_def rstrip_with_def)
  qed (simp add: strip_set_def lstrip_set_def rstrip_with_def)
qed

lemma pep503_alt: "pep503 s = lower (strip_set ''-'' (hyphened s))"
  by (simp add: pep503_def hyphened_def sep_def)

lemma pep503_idem: "pep503 (pep503 s) = pep503 s"
proof -
  let ?t = "strip_set ''-'' (hyphened s)"
  obtain a b where "hyphened s = a @ ?t @ b" using strip_set_parts by blast
  with tidy_hyphened [of s] have "tidy ?t" by (metis tidy_append)
  then have "hyphened (lower ?t) = lower ?t" by (simp add: hyphened_tidy tidy_lower)
  moreover have "no_ends (lower ?t)"
    using no_ends_strip [of "hyphened s"]
    by (auto simp: no_ends_def lower_def hd_map last_map lower_char_sep)
  moreover have "lower (lower ?t) = lower ?t" by (simp add: lower_def lower_char_idem)
  ultimately show ?thesis by (simp add: pep503_alt strip_no_ends)
qed

section \<open>Requirements read back\<close>

lemma leads_At: "anchor_holds a b s \<Longrightarrow> leads (run (At a)) (b, s, c) (b, s, c)"
  by (simp add: leads_def)

lemma leads_Alt:
  "leads (run r) st y \<Longrightarrow> leads (run (Alt r q)) st y"
  "run r st = [] \<Longrightarrow> leads (run q) st y \<Longrightarrow> leads (run (Alt r q)) st y"
  by (auto simp: leads_def)

lemma leads_star_class:
  "\<forall>x \<in> set ds. p x \<Longrightarrow> z = [] \<or> \<not> p (hd z) \<Longrightarrow> leads (run (star (Cls p))) (b, ds @ z, c) (rev ds @ b, z, c)"
  unfolding star_def by (rule leads_Rep, rule leads_reps_class) auto

lemma leads_no_space: "z = [] \<or> \<not> is_space (hd z) \<Longrightarrow> leads (run sp) (b, z, c) (b, z, c)"
  using leads_star_class [of "[]" is_space z b c] by (simp add: sp_def)

lemma leads_no_extras: "z \<noteq> [] \<Longrightarrow> hd z \<noteq> CHR ''['' \<Longrightarrow> leads (run extras) (b, z, c) (b, z, c)"
  unfolding extras_def opt_def
  by (rule leads_Rep, rule leads_reps_stop) (auto simp: seq_def run_lit_Nil take_Suc_conv_app_nth neq_Nil_conv)

definition pin_ok :: "string \<times> string \<Rightarrow> bool" where
  "pin_ok p \<longleftrightarrow> (case p of (n, v) \<Rightarrow> n \<noteq> [] \<and> alnum_or [] (hd n) \<and> list_all (alnum_or ''._-'') n
     \<and> v \<noteq> [] \<and> hd v \<noteq> CHR ''='' \<and> list_all (\<lambda>c. \<not> is_space c \<and> c \<noteq> CHR '';'' \<and> c \<noteq> CHR '','' \<and> c \<noteq> CHR ''#'') v)"

lemma name_chars:
  "alnum_or ''._-'' c \<Longrightarrow> \<not> is_space c \<and> c \<noteq> CHR ''#'' \<and> c \<noteq> CHR '';'' \<and> c \<noteq> CHR ''=''"
  by (auto simp: alnum_or_def is_space_def is_digit_def is_lower_def is_upper_def code_in_def)

lemma req_line_leads:
  assumes "pin_ok (n, v)"
  shows "leads (run REQ_LINE_RX) ([], n @ ''=='' @ v, []) (rev v @ ''=='' @ rev n, [], [(2, v), (1, n)])"
proof -
  from assms obtain a u where n: "n = a # u" "alnum_or [] a" "\<forall>x \<in> set u. alnum_or ''._-'' x" "alnum_or ''._-'' a"
    by (cases n) (auto simp: pin_ok_def list_all_iff)
  from assms obtain w x where v: "v = w # x" "w \<noteq> CHR ''=''" "\<not> is_space w" by (cases v) (auto simp: pin_ok_def)
  have name: "leads (run (Grp 1 req_name)) ([], n @ ''=='' @ v, []) (rev n, ''=='' @ v, [(1, n)])"
  proof -
    have "leads (run req_name) ([], a # u @ ''=='' @ v, []) (rev u @ [a], ''=='' @ v, [])"
      unfolding req_name_def
      by (rule leads_Cat [OF leads_Cls]) (use n in \<open>auto simp: alnum_or_def is_digit_def is_lower_def is_upper_def code_in_def intro!: leads_star_class\<close>)
    from leads_Grp [OF this, of 1] show ?thesis by (simp add: n(1))
  qed
  have op: "leads (run (alts [lit ''==='', lit ''=='', lit ''>='', lit ''<='', lit ''~='', lit ''!='', lit ''<'', lit ''>'']))
      (rev n, ''=='' @ v, [(1, n)]) (rev ''=='' @ rev n, v, [(1, n)])"
    unfolding alts.simps by (rule leads_Alt(2), rule run_lit_Nil) (use v in simp, rule leads_Alt(1) [OF leads_lit])
  have ver: "leads (run (Grp 2 (plus (Cls (\<lambda>c. \<not> is_space c \<and> c \<noteq> CHR '';'' \<and> c \<noteq> CHR '','')))))
      (''=='' @ rev n, v, [(1, n)]) (rev v @ ''=='' @ rev n, [], [(2, v), (1, n)])"
  proof -
    let ?p = "\<lambda>c. \<not> is_space c \<and> c \<noteq> CHR '';'' \<and> c \<noteq> CHR '',''"
    have "leads (run (plus (Cls ?p))) (''=='' @ rev n, v @ [], [(1, n)]) (rev v @ ''=='' @ rev n, [], [(1, n)])"
      by (rule leads_plus_class) (use assms in \<open>auto simp: pin_ok_def list_all_iff\<close>)
    from leads_Grp [OF this, of 2] show ?thesis by simp
  qed
  have start: "leads (run sp) ([], n @ ''=='' @ v, []) ([], n @ ''=='' @ v, [])"
    by (rule leads_no_space) (use n name_chars in auto)
  have mid: "leads (run sp) (b, ''=='' @ v, c) (b, ''=='' @ v, c)" "leads (run extras) (b, ''=='' @ v, c) (b, ''=='' @ v, c)" for b c
    by (rule leads_no_space, simp add: is_space_def code_in_def) (rule leads_no_extras, simp_all)
  have before: "leads (run sp) (b, v, c) (b, v, c)" for b c by (rule leads_no_space) (use v in simp)
  show ?thesis
    unfolding REQ_LINE_RX_def seq_def foldr.simps comp_def id_apply
    by (rule leads_Cat [OF leads_At leads_Cat [OF start leads_Cat [OF name leads_Cat [OF mid(1) leads_Cat [OF mid(2)
        leads_Cat [OF mid(1) leads_Cat [OF op leads_Cat [OF before leads_Cat [OF _ leads_Eps]]]]]]]]])
      (use ver in simp_all)
qed

lemma cut_absent: "c \<notin> set s \<Longrightarrow> before_char c s = s"
  unfolding before_char_def by (induction s) (auto split: prod.splits)

definition req_text :: "string \<times> string \<Rightarrow> string" where
  "req_text p = fst p @ ''=='' @ snd p"

lemma req_text_chars:
  assumes "pin_ok p" and "c \<in> set (req_text p)"
  shows "\<not> is_space c \<and> c \<noteq> CHR '';'' \<and> c \<noteq> CHR ''#''"
  using assms name_chars by (auto simp: pin_ok_def req_text_def list_all_iff is_space_def code_in_def split: prod.splits)

lemma requirement_read:
  assumes "pin_ok (n, v)"
  shows "requirement (req_text (n, v)) = Some (pep503 n, v, False)"
proof -
  let ?l = "req_text (n, v)"
  note ch = req_text_chars [OF assms]
  have ne: "?l \<noteq> []" "n \<noteq> []" by (simp add: req_text_def) (use assms in \<open>simp add: pin_ok_def\<close>)
  then have s: "strip ?l = ?l" using ch hd_in_set [of ?l] last_in_set [of ?l] by (intro strip_id) blast
  have h: "hd ?l = hd n" "alnum_or [] (hd n)" using ne assms by (auto simp: req_text_def pin_ok_def)
  have "\<not> alnum_or [] (CHR ''#'')" "\<not> alnum_or [] (CHR ''-'')" by code_simp+
  with h have "hd ?l \<noteq> CHR ''#''" "hd ?l \<noteq> CHR ''-''" by metis+
  then have "\<not> startswith ?l ''#''" "\<not> startswith ?l ''-''" by (auto simp: startswith_iff)
  moreover have "before_char CHR '';'' (before_char CHR ''#'' ?l) = ?l" using ch by (subst cut_absent, blast, subst cut_absent) blast+
  moreover have "re_match REQ_LINE_RX ?l = Some (Match [] ?l [] [(2, v), (1, n)])"
    using first_match_leads [OF req_line_leads [OF assms]] by (simp add: re_match_def req_text_def)
  moreover have "strip v = v"
    using assms by (intro strip_id) (auto simp: pin_ok_def list_all_iff dest: bspec [OF _ hd_in_set] bspec [OF _ last_in_set])
  moreover have "n \<noteq> []" "v \<noteq> []" using assms by (auto simp: pin_ok_def)
  ultimately show ?thesis using s ne by (simp add: requirement_def Let_def group_def m_group_def)
qed

lemma break_is_space: "is_break c \<Longrightarrow> is_space c"
  by (auto simp: is_break_def is_space_def code_in_def)

lemma requirements_file:
  assumes "list_all pin_ok pins"
  shows "parse_requirements_txt (concat (map (\<lambda>p. req_text p @ [CHR 0x0A]) pins)) = (None, map (\<lambda>(n, v). (pep503 n, v, False)) pins)"
proof -
  have "split_lines (concat (map (\<lambda>p. req_text p @ [CHR 0x0A]) pins)) = map req_text pins"
    using assms
  proof (induction pins)
    case (Cons p ps)
    have "list_all (\<lambda>c. \<not> is_break c) (req_text p)"
      using req_text_chars [of p] Cons.prems break_is_space by (auto simp: list_all_iff)
    then show ?case
      using Cons split_lines_line [of "req_text p"] split_lines_append [of "req_text p @ [CHR 0x0A]"] by simp
  qed simp
  moreover have "List.map_filter requirement (map req_text pins) = map (\<lambda>(n, v). (pep503 n, v, False)) pins"
    using assms by (induction pins) (auto simp: map_filter_simps requirement_read)
  ultimately show ?thesis by (simp add: parse_requirements_txt_def)
qed

end
