(* ===== verification/Manifest_Dispatch.thy ===== *)
theory Manifest_Dispatch
  imports Manifest_Data Manifest_Names
begin

text \<open>
  \<open>portfolio/parsers.py\<close>, the choice of the parser for a file, and what the parsers promise together: the
  tables agree, names of Python projects are in normal form, Dockerfiles give their external images, requirements
  read back. No parser is meant to raise on any text.
\<close>

section \<open>Parsers\<close>

datatype manifest_parser =
    Package_lock | Npm_shrinkwrap | Pnpm_lock | Yarn_lock | Package_json
  | Poetry_lock | Pipfile_lock | Uv_lock | Requirements_txt | Pyproject_toml | Setup_py | Constraints_txt | Environment_yml
  | Gradle_lockfile | Pom_xml | Build_gradle | Cargo_lock | Cargo_toml | Gemfile_lock | Gemfile | Gemspec
  | Packages_lock | Csproj | Dockerfile | Helm_chart | Workflow

record format_readers =
  fr_json :: "string \<Rightarrow> json option"
  fr_toml :: "string \<Rightarrow> json option"
  fr_xml :: "string \<Rightarrow> xml option"

definition on_xml :: "(string \<Rightarrow> xml option) \<Rightarrow> (xml \<Rightarrow> parsed) \<Rightarrow> string \<Rightarrow> value_parsed" where
  "on_xml reader f text = (case reader text of None \<Rightarrow> (None, []) | Some e \<Rightarrow> as_values (f e))"

definition parse_uv_lock :: "(string \<Rightarrow> json option) \<Rightarrow> string \<Rightarrow> string + value_parsed" where
  "parse_uv_lock tomls text = (case tomls text of Some (JObj kvs) \<Rightarrow> uv_lock (JObj kvs) | _ \<Rightarrow> Inr (None, []))"

definition run_parser :: "format_readers \<Rightarrow> manifest_parser \<Rightarrow> string \<Rightarrow> string + value_parsed" where
  "run_parser R p text = (case p of
       Package_lock \<Rightarrow> Inr (on_value (fr_json R) package_lock text)
     | Npm_shrinkwrap \<Rightarrow> Inr (on_value (fr_json R) package_lock text)
     | Pnpm_lock \<Rightarrow> Inr (as_values (parse_pnpm_lock text))
     | Yarn_lock \<Rightarrow> Inr (as_values (parse_yarn_lock text))
     | Package_json \<Rightarrow> Inr (on_value (fr_json R) package_json text)
     | Poetry_lock \<Rightarrow> Inr (on_value (fr_toml R) poetry_lock text)
     | Pipfile_lock \<Rightarrow> Inr (on_value (fr_json R) pipfile_lock text)
     | Uv_lock \<Rightarrow> parse_uv_lock (fr_toml R) text
     | Requirements_txt \<Rightarrow> Inr (as_values (parse_requirements_txt text))
     | Pyproject_toml \<Rightarrow> Inr (on_value (fr_toml R) pyproject_deps text)
     | Setup_py \<Rightarrow> Inr (as_values (parse_setup_py text))
     | Constraints_txt \<Rightarrow> Inr (as_values (parse_constraints_txt text))
     | Environment_yml \<Rightarrow> Inr (as_values (parse_environment_yml text))
     | Gradle_lockfile \<Rightarrow> Inr (as_values (parse_gradle_lockfile text))
     | Pom_xml \<Rightarrow> Inr (on_xml (fr_xml R) pom_xml text)
     | Build_gradle \<Rightarrow> Inr (as_values (parse_build_gradle text))
     | Cargo_lock \<Rightarrow> Inr (on_value (fr_toml R) cargo_lockfile text)
     | Cargo_toml \<Rightarrow> Inr (on_value (fr_toml R) cargo_toml text)
     | Gemfile_lock \<Rightarrow> Inr (as_values (parse_gemfile_lock text))
     | Gemfile \<Rightarrow> Inr (as_values (parse_gemfile text))
     | Gemspec \<Rightarrow> Inr (as_values (parse_gemspec text))
     | Packages_lock \<Rightarrow> Inr (on_value (fr_json R) packages_lock_json text)
     | Csproj \<Rightarrow> Inr (on_xml (fr_xml R) csproj text)
     | Dockerfile \<Rightarrow> Inr (as_values (parse_dockerfile text))
     | Helm_chart \<Rightarrow> Inr (as_values (parse_helm_chart text))
     | Workflow \<Rightarrow> Inr (as_values (parse_github_workflow text)))"

section \<open>Tables\<close>

definition ECOSYSTEM_MANIFESTS :: "(string \<times> string list) list" where
  "ECOSYSTEM_MANIFESTS = [
     (''npm'', [''package-lock.json'', ''npm-shrinkwrap.json'', ''pnpm-lock.yaml'', ''yarn.lock'', ''package.json'']),
     (''pypi'', [''poetry.lock'', ''Pipfile.lock'', ''uv.lock'', ''requirements.txt'', ''pyproject.toml'', ''setup.py'',
        ''constraints.txt'', ''environment.yml'']),
     (''maven'', [''gradle.lockfile'', ''pom.xml'', ''build.gradle'', ''build.gradle.kts'']),
     (''cargo'', [''Cargo.lock'', ''Cargo.toml'']),
     (''ruby'', [''Gemfile.lock'', ''Gemfile'']),
     (''nuget'', [''packages.lock.json'']),
     (''docker'', [''Dockerfile'']),
     (''actions'', []),
     (''helm'', [''Chart.yaml'', ''requirements.yaml''])]"

definition LANGUAGE_ECOSYSTEMS :: "(string \<times> string) list" where
  "LANGUAGE_ECOSYSTEMS = [(''JavaScript'', ''npm''), (''TypeScript'', ''npm''), (''Python'', ''pypi''), (''Java'', ''maven''),
     (''Kotlin'', ''maven''), (''Scala'', ''maven''), (''Groovy'', ''maven''), (''Rust'', ''cargo''), (''Ruby'', ''ruby''), (''C#'', ''nuget'')]"

definition UNIVERSAL_ECOSYSTEMS :: "string list" where
  "UNIVERSAL_ECOSYSTEMS = [''docker'', ''actions'', ''helm'']"

definition PATH_GLOB_ECOSYSTEMS :: "(string \<times> string list) list" where
  "PATH_GLOB_ECOSYSTEMS = [(''docker'', [''**/Dockerfile*'', ''**/*.Dockerfile'']),
     (''actions'', [''.github/workflows/*.yml'', ''.github/workflows/*.yaml'']),
     (''helm'', [''**/Chart.yaml'', ''**/requirements.yaml''])]"

definition PARSER_BY_FILENAME :: "(string \<times> string \<times> manifest_parser) list" where
  "PARSER_BY_FILENAME = [
     (''package-lock.json'', ''npm'', Package_lock), (''npm-shrinkwrap.json'', ''npm'', Npm_shrinkwrap),
     (''pnpm-lock.yaml'', ''npm'', Pnpm_lock), (''yarn.lock'', ''npm'', Yarn_lock), (''package.json'', ''npm'', Package_json),
     (''poetry.lock'', ''pypi'', Poetry_lock), (''Pipfile.lock'', ''pypi'', Pipfile_lock), (''uv.lock'', ''pypi'', Uv_lock),
     (''requirements.txt'', ''pypi'', Requirements_txt), (''pyproject.toml'', ''pypi'', Pyproject_toml), (''setup.py'', ''pypi'', Setup_py),
     (''constraints.txt'', ''pypi'', Constraints_txt), (''environment.yml'', ''pypi'', Environment_yml),
     (''environment.yaml'', ''pypi'', Environment_yml), (''gradle.lockfile'', ''maven'', Gradle_lockfile), (''pom.xml'', ''maven'', Pom_xml),
     (''build.gradle'', ''maven'', Build_gradle), (''build.gradle.kts'', ''maven'', Build_gradle), (''Cargo.lock'', ''cargo'', Cargo_lock),
     (''Cargo.toml'', ''cargo'', Cargo_toml), (''Gemfile.lock'', ''ruby'', Gemfile_lock), (''Gemfile'', ''ruby'', Gemfile),
     (''packages.lock.json'', ''nuget'', Packages_lock), (''Dockerfile'', ''docker'', Dockerfile), (''Chart.yaml'', ''helm'', Helm_chart),
     (''requirements.yaml'', ''helm'', Helm_chart)]"

definition forward_slashes :: "string \<Rightarrow> string" where
  "forward_slashes = map (\<lambda>c. if c = CHR 0x5C then CHR ''/'' else c)"

definition parser_for :: "string \<Rightarrow> (string \<times> manifest_parser) option" where
  "parser_for filename =
     (let base = after_last CHR ''/'' (forward_slashes filename) in
      case map_of PARSER_BY_FILENAME base of
        Some hit \<Rightarrow> Some hit
      | None \<Rightarrow>
          if endswith base ''.gemspec'' then Some (''ruby'', Gemspec)
          else if endswith base ''.csproj'' then Some (''nuget'', Csproj)
          else if endswith base ''.txt'' \<and> occurs_in ''requirements'' (lower base) then Some (''pypi'', Requirements_txt)
          else if startswith base ''Dockerfile.'' \<or> endswith base ''.Dockerfile'' then Some (''docker'', Dockerfile)
          else None)"

definition is_workflow_path :: "string \<Rightarrow> bool" where
  "is_workflow_path path =
     (let p = forward_slashes path in
      (endswith p ''.yml'' \<or> endswith p ''.yaml'') \<and> (occurs_in ''/.github/workflows/'' p \<or> startswith p ''.github/workflows/''))"

definition parser_for_path :: "string \<Rightarrow> (string \<times> manifest_parser) option" where
  "parser_for_path path = (if is_workflow_path path then Some (''actions'', Workflow) else parser_for path)"

section \<open>The tables agree\<close>

definition read_as :: "string \<Rightarrow> string \<Rightarrow> bool" where
  "read_as eco path = (case parser_for_path path of None \<Rightarrow> False | Some (e, _) \<Rightarrow> e = eco)"

lemma tables_read:
  "list_all (\<lambda>(eco, files). list_all (read_as eco) files) ECOSYSTEM_MANIFESTS"
  "list_all (\<lambda>(_, eco). eco \<in> fst ` set ECOSYSTEM_MANIFESTS \<and> eco \<notin> set UNIVERSAL_ECOSYSTEMS) LANGUAGE_ECOSYSTEMS"
  "map fst PATH_GLOB_ECOSYSTEMS = UNIVERSAL_ECOSYSTEMS"
  "list_all (\<lambda>(f, eco, _). eco \<in> fst ` set ECOSYSTEM_MANIFESTS) PARSER_BY_FILENAME"
  by code_simp+

section \<open>Names of Python projects\<close>

definition in_normal_form :: "json \<Rightarrow> bool" where
  "in_normal_form v = (case str_of v of None \<Rightarrow> False | Some s \<Rightarrow> pep503 s = s)"

definition all_normal :: "value_parsed \<Rightarrow> bool" where
  "all_normal p = list_all (\<lambda>d. in_normal_form (fst d)) (snd p)"

lemma normal_pep503 [simp]: "in_normal_form (JStr (pep503 n))"
  by (simp add: in_normal_form_def pep503_idem)

lemma normal_if: "pep503 n = n \<Longrightarrow> in_normal_form (JStr n)"
  by (simp add: in_normal_form_def)

lemma normal_pep508: "parse_pep508 r = Some (n, v) \<Longrightarrow> pep503 n = n"
  by (auto simp: parse_pep508_def pep503_idem)

lemma normal_conda: "parse_conda_spec r = Some (n, v) \<Longrightarrow> pep503 n = n"
  by (auto simp: parse_conda_spec_def Let_def pep503_idem split: if_splits)

lemma set_map_filter: "set (List.map_filter f xs) = {y. \<exists>x \<in> set xs. f x = Some y}"
  by (force simp: List.map_filter_def)

lemma all_normal_values: "all_normal (as_values (d, ds)) \<longleftrightarrow> (\<forall>x \<in> set ds. pep503 (fst x) = fst x)"
  by (auto simp: all_normal_def as_values_def list_all_iff in_normal_form_def)

lemma normal_lists:
  "all_normal (as_values (parse_requirements_txt text))"
  "all_normal (as_values (parse_setup_py text))"
  by (auto simp: parse_requirements_txt_def parse_setup_py_def all_normal_values set_map_filter requirement_def Let_def pep503_idem
      direct_def normal_pep508 split: option.splits if_splits)

lemma normal_environment: "all_normal (as_values (parse_environment_yml text))"
proof -
  define ok where "ok s \<longleftrightarrow> (\<forall>x \<in> set (cd_deps s). pep503 (fst x) = fst x)" for s :: conda_state
  have item: "ok (conda_item ind it s)" if "ok s" for ind it s
    using that by (auto simp: ok_def conda_item_def Let_def direct_def normal_pep508 normal_conda split: option.splits if_splits)
  have line: "ok (conda_line raw s)" if "ok s" for raw s
  proof -
    have "ok (s\<lparr>cd_in_deps := a, cd_indent := b, cd_pip := c\<rparr>)" "ok (s\<lparr>cd_in_deps := a\<rparr>)" for a b c
      using that by (simp_all add: ok_def)
    with that item show ?thesis by (simp add: conda_line_def Let_def)
  qed
  have run: "ok s \<Longrightarrow> ok (fold conda_line ls s)" for ls s
    by (induction ls arbitrary: s) (auto intro: line)
  have "ok \<lparr>cd_in_deps = False, cd_indent = 0, cd_pip = None, cd_deps = []\<rparr>" by (simp add: ok_def)
  from run [OF this] have "ok (fold conda_line (split_lines text) \<lparr>cd_in_deps = False, cd_indent = 0, cd_pip = None, cd_deps = []\<rparr>)" .
  then show ?thesis by (simp add: parse_environment_yml_def all_normal_values ok_def)
qed

lemma normal_pep508_deps: "list_all (\<lambda>d. in_normal_form (fst d)) (pep508_deps rs)"
  by (auto simp: pep508_deps_def list_all_iff set_map_filter bind_eq_Some_conv normal_if normal_pep508)

lemma normal_values:
  "all_normal (poetry_lock d)" "all_normal (pipfile_lock d)" "uv_lock d = Inr p \<Longrightarrow> all_normal p"
  "all_normal (pyproject_deps d)"
proof -
  show "all_normal (poetry_lock d)"
    by (auto simp: poetry_lock_def lock_tables_def all_normal_def list_all_iff set_map_filter)
  show "all_normal (pipfile_lock d)" by (auto simp: pipfile_lock_def all_normal_def list_all_iff)
  show "uv_lock d = Inr p \<Longrightarrow> all_normal p"
    by (auto simp: uv_lock_def uv_package_def Let_def all_normal_def list_all_iff set_map_filter bind_eq_Some_conv split: if_splits)
  show "all_normal (pyproject_deps d)"
    using normal_pep508_deps by (auto simp: pyproject_deps_def Let_def all_normal_def list_all_iff)
qed

lemma normal_on_value: "(\<And>d. all_normal (f d)) \<Longrightarrow> all_normal (on_value loads f text)"
  by (auto simp: on_value_def all_normal_def split: option.splits json.splits)

lemma python_parsers:
  "parser_for_path path = Some (''pypi'', p) \<Longrightarrow> p \<in> {Poetry_lock, Pipfile_lock, Uv_lock, Requirements_txt, Pyproject_toml,
     Setup_py, Constraints_txt, Environment_yml}"
proof -
  let ?py = "{Poetry_lock, Pipfile_lock, Uv_lock, Requirements_txt, Pyproject_toml, Setup_py, Constraints_txt, Environment_yml}"
  have "list_all (\<lambda>(f, eco, q). eco = ''pypi'' \<longrightarrow> q \<in> ?py) PARSER_BY_FILENAME" by code_simp
  then have "map_of PARSER_BY_FILENAME base = Some (''pypi'', q) \<Longrightarrow> q \<in> ?py" for base q
    by (drule_tac map_of_SomeD) (auto simp only: list_all_iff prod.case)
  then show "parser_for_path path = Some (''pypi'', p) \<Longrightarrow> p \<in> ?py"
    by (auto simp: parser_for_path_def parser_for_def Let_def split: option.splits if_splits)
qed

lemma normal_run:
  assumes "run_parser R p text = Inr q" and "p \<in> {Poetry_lock, Pipfile_lock, Uv_lock, Requirements_txt, Pyproject_toml,
     Setup_py, Constraints_txt, Environment_yml}"
  shows "all_normal q"
proof -
  have uv: "parse_uv_lock tomls t = Inr q \<Longrightarrow> all_normal q" for tomls t
    using normal_values(3) by (auto simp: parse_uv_lock_def all_normal_def split: option.splits json.splits)
  from assms(2) show ?thesis
    by (elim insertE) (use assms(1) uv normal_lists normal_environment normal_values(1,2,4) normal_on_value in
      \<open>auto simp: run_parser_def parse_constraints_txt_def\<close>)
qed

text \<open>
  C23. Whatever manifest of a Python project is read, a requirements file, a lockfile, \<open>pyproject.toml\<close>, a setup
  script or a conda environment, every dependency it gives has a text as its name, and that name is in the normal
  form of PEP 503: the same project has the same name from all of them.
\<close>

theorem python_names_normal:
  assumes "parser_for_path path = Some (''pypi'', p)" and "run_parser R p text = Inr (declared, deps)"
  shows "list_all (\<lambda>(name, version, indirect). case name of JStr s \<Rightarrow> pep503 s = s | _ \<Rightarrow> False) deps"
  using normal_run [OF assms(2) python_parsers [OF assms(1)]]
  by (auto simp: all_normal_def in_normal_form_def list_all_iff split: json.splits option.splits elim!: ballE)

definition demo_readers :: format_readers where
  "demo_readers = \<lparr>fr_json = \<lambda>_. None, fr_toml = \<lambda>_. None, fr_xml = \<lambda>_. None\<rparr>"

theorem python_names_normal_witness:
  "list_all (\<lambda>(name, version, indirect). case name of JStr s \<Rightarrow> pep503 s = s | _ \<Rightarrow> False)
     (snd (as_values (parse_requirements_txt ''Foo.Bar==1.0'')))
   \<and> parse_requirements_txt ''Foo.Bar==1.0'' = (None, [(''foo-bar'', ''1.0'', False)])"
proof -
  have "parser_for_path ''requirements.txt'' = Some (''pypi'', Requirements_txt)" by code_simp
  moreover have "run_parser demo_readers Requirements_txt ''Foo.Bar==1.0''
      = Inr (fst (as_values (parse_requirements_txt ''Foo.Bar==1.0'')), snd (as_values (parse_requirements_txt ''Foo.Bar==1.0'')))"
    by (simp add: run_parser_def)
  moreover have "parse_requirements_txt ''Foo.Bar==1.0'' = (None, [(''foo-bar'', ''1.0'', False)])" by code_simp
  ultimately show ?thesis using python_names_normal [of "''requirements.txt''" Requirements_txt demo_readers "''Foo.Bar==1.0''"]
    by (auto simp: as_values_def)
qed

text \<open>
  A requirements file reads back: pins written one to a line as name, two equals signs and version are read in
  their order, with the versions as they were and the names in normal form.
\<close>

theorem requirements_read_back:
  assumes "list_all pin_ok pins"
  shows "parse_requirements_txt (concat (map (\<lambda>p. fst p @ ''=='' @ snd p @ [CHR 0x0A]) pins))
     = (None, map (\<lambda>(n, v). (pep503 n, v, False)) pins)"
  using requirements_file [OF assms] by (simp add: req_text_def)

theorem requirements_read_back_witness:
  "parse_requirements_txt (concat (map (\<lambda>p. fst p @ ''=='' @ snd p @ [CHR 0x0A]) [(''Zope.Interface'', ''5.1.0''), (''six'', ''1.16'')]))
     = (None, [(''zope-interface'', ''5.1.0'', False), (''six'', ''1.16'', False)])"
proof -
  have "list_all pin_ok [(''Zope.Interface'', ''5.1.0''), (''six'', ''1.16'')]" by code_simp
  from requirements_read_back [OF this] show ?thesis
    by (simp only:) code_simp
qed

section \<open>Dockerfiles\<close>

definition stage_names :: "(string \<times> string option) list \<Rightarrow> string list" where
  "stage_names fs = List.map_filter (\<lambda>f. case snd f of None \<Rightarrow> None | Some a \<Rightarrow> if a = [] then None else Some (lower a)) fs"

text \<open>The references of \<open>FROM\<close> lines that are no stage of an earlier line, no \<open>scratch\<close> and no template.\<close>

definition external_refs :: "(string \<times> string option) list \<Rightarrow> string list" where
  "external_refs fs = map (\<lambda>k. fst (fs ! k)) (filter (\<lambda>k. \<not> docker_skip (stage_names (take k fs)) (fst (fs ! k))) [0..<length fs])"

lemma external_refs_snoc:
  "external_refs (fs @ [f]) = external_refs fs @ (if docker_skip (stage_names fs) (fst f) then [] else [fst f])"
proof -
  have "map (\<lambda>k. fst ((fs @ [f]) ! k)) (filter (\<lambda>k. \<not> docker_skip (stage_names (take k (fs @ [f]))) (fst ((fs @ [f]) ! k))) [0..<length fs])
      = external_refs fs"
    unfolding external_refs_def by (intro map_cong filter_cong) (auto simp: nth_append)
  then show ?thesis by (simp add: external_refs_def)
qed

lemma fromkeys_snoc: "fromkeys (xs @ [x]) = (if x \<in> set xs then fromkeys xs else fromkeys xs @ [x])"
  by (simp add: fromkeys_def)

lemma docker_skip_cong: "set ss = set ts \<Longrightarrow> docker_skip ss ref = docker_skip ts ref"
  by (simp add: docker_skip_def)

lemma docker_line_skip: "from_line l = None \<Longrightarrow> docker_line l s = s"
  by (simp add: docker_line_def)

lemma docker_line_from:
  assumes "from_line l = Some (ref, a)" and "split_docker_ref ref = p"
  shows "docker_line l (stages, map (\<lambda>(i, v). (i, v, False)) ps) =
     (case a of None \<Rightarrow> stages | Some a \<Rightarrow> if a = [] then stages else lower a # stages,
      map (\<lambda>(i, v). (i, v, False)) (if docker_skip stages ref \<or> p \<in> set ps then ps else ps @ [p]))"
proof -
  obtain i v where p: "p = (i, v)" by (cases p)
  have "(i, v, False) \<in> set (map (\<lambda>(i, v). (i, v, False)) ps) \<longleftrightarrow> (i, v) \<in> set ps" by auto
  then show ?thesis by (simp add: docker_line_def assms p)
qed

lemma docker_fold:
  "\<exists>stages. fold docker_line ls ([], []) = (stages, map (\<lambda>(i, v). (i, v, False))
      (fromkeys (map split_docker_ref (external_refs (List.map_filter from_line ls)))))
    \<and> set stages = set (stage_names (List.map_filter from_line ls))"
proof (induction ls rule: rev_induct)
  case Nil
  then show ?case by (simp add: external_refs_def stage_names_def fromkeys_def List.map_filter_def)
next
  case (snoc l ls)
  let ?fs = "List.map_filter from_line ls"
  from snoc obtain stages where IH: "fold docker_line ls ([], []) = (stages, map (\<lambda>(i, v). (i, v, False))
      (fromkeys (map split_docker_ref (external_refs ?fs))))" "set stages = set (stage_names ?fs)" by blast
  have app: "List.map_filter from_line (ls @ [l]) = ?fs @ (case from_line l of None \<Rightarrow> [] | Some f \<Rightarrow> [f])"
    by (simp add: List.map_filter_def split: option.splits)
  show ?case
  proof (cases "from_line l")
    case None
    with IH app show ?thesis by (simp add: docker_line_skip)
  next
    case (Some f)
    obtain ref a where f: "f = (ref, a)" by (cases f)
    have skip: "docker_skip stages ref = docker_skip (stage_names ?fs) ref" by (rule docker_skip_cong [OF IH(2)])
    have names: "set (stage_names (?fs @ [f])) = set (case a of None \<Rightarrow> stages | Some a \<Rightarrow> if a = [] then stages else lower a # stages)"
      using IH(2) by (auto simp: stage_names_def List.map_filter_def f split: option.splits)
    show ?thesis
      using names IH(1) docker_line_from [OF Some [unfolded f] refl, of stages] unfolding app Some
      by (simp add: f skip external_refs_snoc fromkeys_snoc)
  qed
qed

text \<open>
  A Dockerfile gives exactly its external base images: the references of its \<open>FROM\<close> lines that are not
  the name of an earlier stage, nor \<open>scratch\<close>, nor a template, each image and version once and in the order of
  their first use, none of them indirect.
\<close>

theorem dockerfile_external_images:
  "parse_dockerfile text = (None, map (\<lambda>(img, version). (img, version, False))
     (fromkeys (map split_docker_ref (external_refs (List.map_filter from_line (split_lines text))))))"
  using docker_fold [of "split_lines text"] by (auto simp: parse_dockerfile_def)

section \<open>Odd inputs\<close>

text \<open>
  \<open>run_parser\<close> has an error for the one type that the parsers themselves do not guard, a \<open>uv.lock\<close> whose \<open>package\<close> is a number or
  true. What the readers of JSON and TOML raise on documents nested too deep is no part of the model.
\<close>

lemma uv_lock_raises: "uv_lock (JObj [(''package'', JNum ''1'')]) = Inl ''TypeError''"
  by code_simp

lemma lock_name_no_text:
  "package_lock (JObj [(''packages'', JObj [(''node_modules/a'', JObj [(''name'', JNum ''7''), (''version'', JStr ''1'')])])])
     = (None, [(JNum ''7'', ''1'', True)])"
  by code_simp

lemma nested_workflow: "is_workflow_path ''.github/workflows/old/ci.yml''"
  by code_simp

lemma environment_yaml_unlisted:
  "parser_for ''environment.yaml'' = Some (''pypi'', Environment_yml)"
  "list_all (\<lambda>(_, files). ''environment.yaml'' \<notin> set files) ECOSYSTEM_MANIFESTS"
  by code_simp+

end
