(* ===== verification/Precedent.thy ===== *)
theory Precedent
  imports Soundness_Gate Finding_Identity Py_Text "HOL-Library.Multiset"
begin

text \<open>
  \<open>corpus/precedent.py\<close>: the cache of refutations that later audits may cite. A refutation enters by a
  verified human, or by a machine whose evidence passes the soundness gate again; findings of other
  repositories are matched by fingerprint, by the signature of their component, or by a shared path
  and class. The fingerprint, the canonical path, the primary CWE, the hash, the verification of an
  actor and the disposition of a finding are functions of other packages: the record \<open>outside\<close>. Files
  are functions from their reference to what was parsed of them, \<open>None\<close> for one that cannot be read.
\<close>

section \<open>Data\<close>

record pfinding = finding +
  pf_file :: "string option"
  pf_sink :: "string option"

record pactor =
  ac_kind :: "string option"
  ac_identity :: "string option"
  ac_display :: "string option"
  ac_verification :: "string option"

record pevent =
  pe_id :: "string option"
  pe_finding_ref :: "string option"
  pe_validity :: "string option"
  pe_type :: "string option"
  pe_source_ref :: "string option"
  pe_actor :: pactor
  pe_recorded_at :: "string option"
  pe_occurred_at :: "string option"
  pe_rationale :: "string option"
  pe_evidence :: "string list"

record derived =
  dv_validity :: "string option"
  dv_fp_overridden :: bool

record outside =
  o_fingerprint :: "pfinding \<Rightarrow> string option \<Rightarrow> string"
  o_canon_path :: "string option \<Rightarrow> string"
  o_primary_cwe :: "pfinding \<Rightarrow> string"
  o_sha256 :: "string \<Rightarrow> string"
  o_verified :: "pactor \<Rightarrow> bool"
  o_derive :: "pfinding \<Rightarrow> pevent list \<Rightarrow> derived"

definition PRECEDENT_VERDICTS :: "string list" where
  "PRECEDENT_VERDICTS = [''false_positive'', ''hardening'']"

definition STRENGTH_HUMAN :: string where
  "STRENGTH_HUMAN = ''human_countersigned''"

definition STRENGTH_MACHINE :: string where
  "STRENGTH_MACHINE = ''machine_refuted_sound''"

definition MACHINE_SOURCE_TYPES :: "string list" where
  "MACHINE_SOURCE_TYPES = [''triage_report'', ''verification_report'', ''validation_report'']"

definition VENDOR_ROOT_RX :: rx where
  "VENDOR_ROOT_RX = seq [Alt (At Bos) (lit ''/''),
     alts (map lit [''vendor'', ''_vendor'', ''vendored'', ''third_party'', ''thirdparty'', ''third-party'',
       ''external'', ''externals'', ''node_modules'', ''bundled'', ''Godeps/_workspace/src'']), lit ''/'']"

definition CWE_RX :: rx where
  "CWE_RX = seq [At Bos, ilit ''CWE-'', plus (Cls is_digit), At Eos]"

definition JIRA_TICKET_RX :: rx where
  "JIRA_TICKET_RX = seq [lit ''/browse/'', Grp 1 (seq [Cls is_upper,
     plus (Cls (\<lambda>c. is_upper c \<or> is_digit c)), lit ''-'', plus (Cls is_digit)])]"

section \<open>The signature of a component\<close>

definition normalize_vendor_path :: "outside \<Rightarrow> string option \<Rightarrow> string" where
  "normalize_vendor_path W path = (let s = o_canon_path W path in
     case re_finditer VENDOR_ROOT_RX s of [] \<Rightarrow> s | m # ms \<Rightarrow> m_after (last (m # ms)))"

definition category_slug :: "pfinding \<Rightarrow> string" where
  "category_slug f = lower (strip (or_str (f_category f) []))"

definition sink_of :: "pfinding \<Rightarrow> string" where
  "sink_of f = strip (or_str (pf_sink f) [])"

definition component_paths :: "outside \<Rightarrow> pfinding \<Rightarrow> string list" where
  "component_paths W f =
     (let paths = map (normalize_vendor_path W) (filter truthy (f_paths f));
          paths = (if paths = [] \<and> truthy (pf_file f) then [normalize_vendor_path W (pf_file f)] else paths)
      in sort (filter (\<lambda>p. p \<noteq> []) (remdups paths)))"

definition component_signature :: "outside \<Rightarrow> string list \<Rightarrow> string \<Rightarrow> string \<Rightarrow> string \<Rightarrow> string" where
  "component_signature W paths cwe category sink = o_sha256 W
     (join ''|'' [join '';'' (sort paths), strip (upper cwe), lower (strip category), sink])"

record pcomponent =
  cp_paths :: "string list"
  cp_cwe :: string
  cp_category :: string
  cp_sink :: string

definition finding_component :: "outside \<Rightarrow> pfinding \<Rightarrow> pcomponent" where
  "finding_component W f = \<lparr>cp_paths = component_paths W f, cp_cwe = o_primary_cwe W f,
     cp_category = category_slug f, cp_sink = sink_of f\<rparr>"

definition signature_of :: "outside \<Rightarrow> pfinding \<Rightarrow> string" where
  "signature_of W f = (let c = finding_component W f in
     component_signature W (cp_paths c) (cp_cwe c) (cp_category c) (cp_sink c))"

section \<open>Which events count\<close>

definition refuting :: "pevent \<Rightarrow> bool" where
  "refuting e \<longleftrightarrow> (case pe_validity e of None \<Rightarrow> False | Some v \<Rightarrow> v \<in> set PRECEDENT_VERDICTS)"

definition human_actor :: "outside \<Rightarrow> pactor \<Rightarrow> bool" where
  "human_actor W a \<longleftrightarrow> ac_kind a = Some ''human'' \<and> o_verified W a \<and> truthy (ac_identity a)"

definition is_countersigned_refutation :: "outside \<Rightarrow> pevent \<Rightarrow> bool" where
  "is_countersigned_refutation W e \<longleftrightarrow>
     (if pe_validity e \<noteq> Some ''false_positive'' then False
      else if pe_type e \<noteq> Some ''interactive'' then False
      else if \<not> startswith (or_str (pe_source_ref e) []) ''interactive:'' then False
      else human_actor W (pe_actor e))"

definition is_human_adjudication :: "outside \<Rightarrow> pevent \<Rightarrow> bool" where
  "is_human_adjudication W e \<longleftrightarrow> (if \<not> refuting e then False else human_actor W (pe_actor e))"

definition is_machine_adjudication :: "pevent \<Rightarrow> bool" where
  "is_machine_adjudication e \<longleftrightarrow>
     (if \<not> refuting e then False
      else ac_kind (pe_actor e) = Some ''machine''
        \<and> (case pe_type e of None \<Rightarrow> False | Some t \<Rightarrow> t \<in> set MACHINE_SOURCE_TYPES))"

definition human_via :: "outside \<Rightarrow> pevent \<Rightarrow> string" where
  "human_via W e = (if is_countersigned_refutation W e then ''interactive'' else or_str (pe_type e) [])"

text \<open>\<open>s.split()\<close>: the runs of characters that are not white space.\<close>

fun words_of :: "string \<Rightarrow> string \<Rightarrow> string list" where
  "words_of w [] = (if w = [] then [] else [w])"
| "words_of w (c # cs) =
     (if is_space c then (if w = [] then [] else [w]) @ words_of [] cs else words_of (w @ [c]) cs)"

text \<open>The excerpt, and whether the ellipsis follows it (its character is beyond the model).\<close>

definition excerpt :: "string option \<Rightarrow> string \<times> bool" where
  "excerpt r = (let s = join '' '' (words_of [] (or_str r [])) in (take 280 s, length s > 280))"

section \<open>Re-deriving soundness\<close>

record ventry = validated +
  ve_source_id :: "string option"
  ve_finding_ref :: "string option"

text \<open>
  \<open>SoundnessResolver\<close>: the entries of the validation report under a reference, and whether its run
  directory records a failed installation. The first entry of the finding decides.
\<close>

type_synonym vreports = "string \<Rightarrow> ventry list option \<times> bool"

definition entry_of :: "string \<Rightarrow> ventry \<Rightarrow> bool" where
  "entry_of fref v \<longleftrightarrow> after_last CHR ''/'' (or_str (ve_source_id v) []) = fref \<or> ve_finding_ref v = Some fref"

definition check_event :: "vreports \<Rightarrow> pevent \<Rightarrow> bool \<times> string option" where
  "check_event vreps e =
     (let ref = or_str (pe_source_ref e) []; fref = or_str (pe_finding_ref e) [] in
      if ref = [] \<or> fref = [] then (False, Some ''unresolvable:no-source-ref'')
      else (case vreps ref of
        (None, _) \<Rightarrow> (False, Some ''unresolvable:report-missing'')
      | (Some vfs, install_failure) \<Rightarrow>
          (case find (entry_of fref) vfs of
             None \<Rightarrow> (False, Some ''unresolvable:entry-not-found'')
           | Some v \<Rightarrow>
               (case flag_validated_finding (validated.truncate v) install_failure False False of
                  Some flag \<Rightarrow> (False, Some flag)
                | None \<Rightarrow> (True, None)))))"

section \<open>The taxonomy\<close>

record tax_row =
  tr_ticket :: "string option"
  tr_rule :: "string option"
  tr_class :: "string option"

type_synonym taxonomy = "(string \<times> string option \<times> string option) list"

definition load_taxonomy :: "tax_row list \<Rightarrow> taxonomy" where
  "load_taxonomy rows = fold (\<lambda>row out. (let ticket = strip (or_str (tr_ticket row) []) in
     if ticket \<noteq> [] then AList.update ticket (tr_rule row, tr_class row) out else out)) rows []"

definition truthy_only :: "string option \<Rightarrow> string option" where
  "truthy_only v = (if truthy v then v else None)"

definition taxonomy_for :: "pevent \<Rightarrow> taxonomy \<Rightarrow> (string \<times> string option \<times> string option) option" where
  "taxonomy_for e tax =
     (if tax = [] then None
      else (case re_search JIRA_TICKET_RX (or_str (pe_source_ref e) []) of
        None \<Rightarrow> None
      | Some m \<Rightarrow> (let ticket = or_str (m_group 1 m) [] in
          (case map_of tax ticket of
             None \<Rightarrow> None
           | Some (rl, cls) \<Rightarrow> Some (ticket, truthy_only rl, truthy_only cls)))))"

section \<open>Building the cache\<close>

record pcounters =
  ct_layers :: nat
  ct_human :: nat
  ct_machine :: nat
  ct_unsound :: nat
  ct_reasons :: "(string \<times> nat) list"
  ct_contested :: nat
  ct_stale :: nat

definition count_unsound :: "string option \<Rightarrow> pcounters \<Rightarrow> pcounters" where
  "count_unsound reason c = (let key = or_str reason ''None'' in
     c\<lparr>ct_unsound := ct_unsound c + 1,
       ct_reasons := AList.update key ((case map_of (ct_reasons c) key of None \<Rightarrow> 0 | Some n \<Rightarrow> n) + 1) (ct_reasons c)\<rparr>)"

text \<open>The loop over the machine events, latest first.\<close>

fun first_sound :: "vreports \<Rightarrow> pevent list \<Rightarrow> pcounters \<Rightarrow> pevent option \<times> pcounters" where
  "first_sound vreps [] c = (None, c)"
| "first_sound vreps (e # es) c =
     (if pe_type e = Some ''validation_report'' then
        (case check_event vreps e of (sound, reason) \<Rightarrow>
           if \<not> sound then first_sound vreps es (count_unsound reason c) else (Some e, c))
      else (Some e, c))"

definition select_precedent_event :: "outside \<Rightarrow> vreports \<Rightarrow> pevent list \<Rightarrow> pcounters
    \<Rightarrow> (pevent \<times> string) option \<times> pcounters" where
  "select_precedent_event W vreps events c =
     (let human = filter (is_human_adjudication W) events in
      if human \<noteq> [] then (Some (last human, STRENGTH_HUMAN), c)
      else (case first_sound vreps (rev (filter is_machine_adjudication events)) c of
        (ev, c) \<Rightarrow> (map_option (\<lambda>e. (e, STRENGTH_MACHINE)) ev, c)))"

record source_record =
  sr_layer :: "string option"
  sr_audit :: "string option"
  sr_base_slug :: string
  sr_tree :: "string option"
  sr_product :: "string option"

record paudit =
  pa_repository :: "string option"
  pa_findings :: "pfinding list"

record precedent =
  pr_fingerprint :: string
  pr_finding_id :: string
  pr_source_repo :: string
  pr_tree :: "string option"
  pr_product :: "string option"
  pr_repository :: "string option"
  pr_layer :: string
  pr_event_id :: "string option"
  pr_verdict :: string
  pr_strength :: string
  pr_source_type :: "string option"
  pr_countersigned :: bool
  pr_date :: string
  pr_excerpt :: "string \<times> bool"
  pr_identity :: "string option"
  pr_display :: "string option"
  pr_via :: "string option"
  pr_evidence :: "string list option"
  pr_taxonomy :: "(string \<times> string option \<times> string option) option"

text \<open>The key \<open>pr_identity\<close> is \<open>countersigner\<close> for a human and \<open>adjudicator\<close> for a machine.\<close>

definition make_precedent :: "outside \<Rightarrow> taxonomy \<Rightarrow> source_record \<Rightarrow> string \<Rightarrow> paudit \<Rightarrow> string \<Rightarrow> pfinding
    \<Rightarrow> pevent \<Rightarrow> string \<Rightarrow> precedent" where
  "make_precedent W tax rec layer_ref audit fref f e strength =
     (let hum = (strength = STRENGTH_HUMAN) in
     \<lparr>pr_fingerprint = or_str (f_stamp f) (o_fingerprint W f (pa_repository audit)), pr_finding_id = fref,
      pr_source_repo = sr_base_slug rec, pr_tree = sr_tree rec, pr_product = sr_product rec,
      pr_repository = pa_repository audit, pr_layer = layer_ref, pr_event_id = pe_id e,
      pr_verdict = or_str (pe_validity e) [], pr_strength = strength, pr_source_type = pe_type e,
      pr_countersigned = hum,
      pr_date = take 10 (or_str (pe_occurred_at e) (or_str (pe_recorded_at e) [])),
      pr_excerpt = excerpt (pe_rationale e), pr_identity = ac_identity (pe_actor e),
      pr_display = (if hum then truthy_only (ac_display (pe_actor e)) else None),
      pr_via = (if hum then Some (human_via W e) else None),
      pr_evidence = (if pe_evidence e \<noteq> [] then Some (take 6 (pe_evidence e)) else None),
      pr_taxonomy = taxonomy_for e tax\<rparr>)"

record centry =
  ce_component :: pcomponent
  ce_precedents :: "precedent list"

record cache_state =
  cs_counters :: pcounters
  cs_components :: "(string \<times> centry) list"
  cs_fingerprints :: "(string \<times> string list) list"

text \<open>\<open>components.setdefault(sig, ...)["precedents"].append(p)\<close> and the index by fingerprint.\<close>

definition add_precedent :: "outside \<Rightarrow> pfinding \<Rightarrow> precedent \<Rightarrow> cache_state \<Rightarrow> cache_state" where
  "add_precedent W f p s =
     (let sig = signature_of W f;
          entry = (case map_of (cs_components s) sig of
             Some en \<Rightarrow> en | None \<Rightarrow> \<lparr>ce_component = finding_component W f, ce_precedents = []\<rparr>);
          sigs = (case map_of (cs_fingerprints s) (pr_fingerprint p) of Some l \<Rightarrow> l | None \<Rightarrow> []) in
      s\<lparr>cs_components := AList.update sig (entry\<lparr>ce_precedents := ce_precedents entry @ [p]\<rparr>) (cs_components s),
        cs_fingerprints := AList.update (pr_fingerprint p)
          (if sig \<notin> set sigs then sigs @ [sig] else sigs) (cs_fingerprints s)\<rparr>)"

definition stale_machine :: "derived \<Rightarrow> bool" where
  "stale_machine d \<longleftrightarrow> dv_validity d \<in> {Some ''confirmed'', Some ''corrected''} \<or> dv_fp_overridden d"

definition contested :: "pevent list \<Rightarrow> bool" where
  "contested events \<longleftrightarrow> (\<exists>e \<in> set events. pe_validity e = Some ''confirmed'')"

text \<open>The guards on what was selected for a finding, and its entry into the cache.\<close>

definition settle :: "outside \<Rightarrow> taxonomy \<Rightarrow> source_record \<Rightarrow> string \<Rightarrow> paudit \<Rightarrow> string \<Rightarrow> pfinding
    \<Rightarrow> pevent list \<Rightarrow> (pevent \<times> string) option \<times> pcounters \<Rightarrow> cache_state \<Rightarrow> cache_state" where
  "settle W tax rec layer_ref audit fref f events selected s =
     (let disp = o_derive W f events in
      case selected of
        (None, c) \<Rightarrow> s\<lparr>cs_counters := c\<rparr>
      | (Some (ev, strength), c) \<Rightarrow>
          if strength = STRENGTH_HUMAN then
            (if dv_validity disp \<noteq> pe_validity ev then s\<lparr>cs_counters := c\<lparr>ct_stale := ct_stale c + 1\<rparr>\<rparr>
             else add_precedent W f (make_precedent W tax rec layer_ref audit fref f ev strength)
               (s\<lparr>cs_counters := c\<lparr>ct_human := ct_human c + 1\<rparr>\<rparr>))
          else if contested events then s\<lparr>cs_counters := c\<lparr>ct_contested := ct_contested c + 1\<rparr>\<rparr>
          else if stale_machine disp then s\<lparr>cs_counters := c\<lparr>ct_stale := ct_stale c + 1\<rparr>\<rparr>
          else add_precedent W f (make_precedent W tax rec layer_ref audit fref f ev strength)
            (s\<lparr>cs_counters := c\<lparr>ct_machine := ct_machine c + 1\<rparr>\<rparr>))"

text \<open>One finding of a layer with its events in their order of recording.\<close>

definition ref_step :: "outside \<Rightarrow> vreports \<Rightarrow> taxonomy \<Rightarrow> source_record \<Rightarrow> string \<Rightarrow> paudit
    \<Rightarrow> string \<times> pevent list \<Rightarrow> cache_state \<Rightarrow> cache_state" where
  "ref_step W vreps tax rec layer_ref audit grp s =
     (let events = sort_key (\<lambda>e. or_str (pe_recorded_at e) []) (snd grp) in
      if \<not> (\<exists>e \<in> set events. is_human_adjudication W e \<or> is_machine_adjudication e) then s
      else (case map_of (rev (map (\<lambda>f. (f_id f, f)) (pa_findings audit))) (fst grp) of
        None \<Rightarrow> s
      | Some f \<Rightarrow> settle W tax rec layer_ref audit (fst grp) f events
          (select_precedent_event W vreps events (cs_counters s)) s))"

definition events_by_ref :: "pevent list \<Rightarrow> (string \<times> pevent list) list" where
  "events_by_ref es = sort_key fst (group_by (\<lambda>e. or_str (pe_finding_ref e) [])
     (filter (\<lambda>e. truthy (pe_finding_ref e)) es))"

definition record_step :: "outside \<Rightarrow> vreports \<Rightarrow> taxonomy \<Rightarrow> (string \<Rightarrow> pevent list option)
    \<Rightarrow> (string \<Rightarrow> paudit option) \<Rightarrow> source_record \<Rightarrow> cache_state \<Rightarrow> cache_state" where
  "record_step W vreps tax layers audits rec s =
     (if \<not> truthy (sr_layer rec) \<or> \<not> truthy (sr_audit rec) then s
      else (case (layers (or_str (sr_layer rec) []), audits (or_str (sr_audit rec) [])) of
        (Some events, Some audit) \<Rightarrow>
          fold (ref_step W vreps tax rec (or_str (sr_layer rec) []) audit) (events_by_ref events)
            (s\<lparr>cs_counters := (cs_counters s)\<lparr>ct_layers := ct_layers (cs_counters s) + 1\<rparr>\<rparr>)
      | _ \<Rightarrow> s))"

definition empty_state :: cache_state where
  "empty_state = \<lparr>cs_counters = \<lparr>ct_layers = 0, ct_human = 0, ct_machine = 0, ct_unsound = 0,
     ct_reasons = [], ct_contested = 0, ct_stale = 0\<rparr>, cs_components = [], cs_fingerprints = []\<rparr>"

definition precedent_key :: "precedent \<Rightarrow> bool \<times> string \<times> string \<times> string" where
  "precedent_key p = (pr_strength p \<noteq> STRENGTH_HUMAN, pr_date p, pr_source_repo p, pr_finding_id p)"

definition build_cache :: "outside \<Rightarrow> vreports \<Rightarrow> taxonomy \<Rightarrow> (string \<Rightarrow> pevent list option)
    \<Rightarrow> (string \<Rightarrow> paudit option) \<Rightarrow> source_record list \<Rightarrow> cache_state" where
  "build_cache W vreps tax layers audits records =
     (let s = fold (record_step W vreps tax layers audits) records empty_state;
          components = map (\<lambda>(sig, en). (sig, en\<lparr>ce_precedents := sort_key precedent_key (ce_precedents en)\<rparr>))
            (cs_components s) in
      s\<lparr>cs_counters := (cs_counters s)\<lparr>ct_reasons := sort_key fst (ct_reasons (cs_counters s))\<rparr>,
        cs_components := sort_key fst components, cs_fingerprints := sort_key fst (cs_fingerprints s)\<rparr>)"

section \<open>Matching\<close>

definition finding_class :: "pfinding \<Rightarrow> string option \<times> string" where
  "finding_class f =
     (let cwe = (case f_cwes f of [] \<Rightarrow> None | c # _ \<Rightarrow> Some (strip (upper c)));
          category = category_slug f in
      (if cwe = None \<and> re_match CWE_RX category \<noteq> None then Some (upper category) else cwe, category))"

record pmatch =
  pm_finding :: string
  pm_signature :: string
  pm_matched_by :: string
  pm_strength :: string
  pm_entry :: centry

definition class_hit :: "outside \<Rightarrow> pfinding \<Rightarrow> string \<times> centry \<Rightarrow> (string \<times> string) option" where
  "class_hit W f kv = (case kv of (csig, entry) \<Rightarrow>
     (let comp = ce_component entry; fc = finding_class f in
      if csig = signature_of W f then Some (csig, ''signature'')
      else if (\<exists>p \<in> set (component_paths W f). p \<in> set (cp_paths comp))
          \<and> ((truthy (fst fc) \<and> fst fc = Some (cp_cwe comp)) \<or> (snd fc \<noteq> [] \<and> snd fc = cp_category comp))
      then Some (csig, ''component'') else None))"

definition hits :: "outside \<Rightarrow> cache_state \<Rightarrow> pfinding \<Rightarrow> (string \<times> string) list" where
  "hits W cache f =
     (case (if truthy (f_stamp f) then map_of (cs_fingerprints cache) (or_str (f_stamp f) []) else None) of
        Some sigs \<Rightarrow> map (\<lambda>sig. (sig, ''fingerprint'')) sigs
      | None \<Rightarrow>
          if component_paths W f = [] then []
          else List.map_filter (class_hit W f) (cs_components cache))"

definition match_of :: "cache_state \<Rightarrow> pfinding \<Rightarrow> string \<times> string \<Rightarrow> pmatch option" where
  "match_of cache f hit = (case hit of (csig, how) \<Rightarrow>
     (case map_of (cs_components cache) csig of
        None \<Rightarrow> None
      | Some entry \<Rightarrow> Some \<lparr>pm_finding = f_id f, pm_signature = csig, pm_matched_by = how,
          pm_strength = (if STRENGTH_HUMAN \<in> pr_strength ` set (ce_precedents entry)
            then STRENGTH_HUMAN else STRENGTH_MACHINE), pm_entry = entry\<rparr>))"

definition match_precedents :: "outside \<Rightarrow> cache_state \<Rightarrow> pfinding list \<Rightarrow> pmatch list" where
  "match_precedents W cache fs = concat (map (\<lambda>f. List.map_filter (match_of cache f) (hits W cache f)) fs)"

section \<open>What enters the cache\<close>

definition sorted_events :: "pevent list \<Rightarrow> string \<Rightarrow> pevent list" where
  "sorted_events es fref = sort_key (\<lambda>e. or_str (pe_recorded_at e) [])
     (filter (\<lambda>e. or_str (pe_finding_ref e) [] = fref) (filter (\<lambda>e. truthy (pe_finding_ref e)) es))"

text \<open>
  What a precedent must rest on, among all events of its finding: the latest determination of a
  verified human that still is the current disposition; or, when no human decided, a machine's
  determination that nothing contests, that is not overtaken, and whose validation report was
  checked again.
\<close>

definition human_basis :: "outside \<Rightarrow> pfinding \<Rightarrow> pevent list \<Rightarrow> pevent \<Rightarrow> bool" where
  "human_basis W f events e \<longleftrightarrow> human_actor W (pe_actor e)
     \<and> last (filter (is_human_adjudication W) events) = e
     \<and> dv_validity (o_derive W f events) = pe_validity e"

text \<open>
  What an event of a validation report rests on: it names a report that can be read, and the first entry of that report for
  its finding carries no flag. The gate flags nothing on an entry that is no refutation, see the end.
\<close>

definition unflagged_entry :: "vreports \<Rightarrow> pevent \<Rightarrow> bool" where
  "unflagged_entry vreps e \<longleftrightarrow> (\<exists>ref fid vfs failed i. pe_source_ref e = Some ref \<and> ref \<noteq> [] \<and> pe_finding_ref e = Some fid \<and> fid \<noteq> []
     \<and> vreps ref = (Some vfs, failed) \<and> i < length vfs \<and> entry_of fid (vfs ! i) \<and> (\<forall>j < i. \<not> entry_of fid (vfs ! j))
     \<and> flag_validated_finding (validated.truncate (vfs ! i)) failed False False = None)"

lemma check_event_sound: "fst (check_event vreps e) \<Longrightarrow> unflagged_entry vreps e"
  by (auto simp: check_event_def unflagged_entry_def Let_def find_Some_iff or_str_def split: option.splits if_splits prod.splits)

definition machine_basis :: "outside \<Rightarrow> vreports \<Rightarrow> pfinding \<Rightarrow> pevent list \<Rightarrow> pevent \<Rightarrow> bool" where
  "machine_basis W vreps f events e \<longleftrightarrow> ac_kind (pe_actor e) = Some ''machine''
     \<and> list_all (\<lambda>e'. \<not> is_human_adjudication W e' \<and> pe_validity e' \<noteq> Some ''confirmed'') events
     \<and> dv_validity (o_derive W f events) \<notin> {Some ''confirmed'', Some ''corrected''}
     \<and> \<not> dv_fp_overridden (o_derive W f events)
     \<and> (case pe_type e of None \<Rightarrow> False | Some t \<Rightarrow>
          if t = ''validation_report'' then unflagged_entry vreps e
          else t \<in> {''triage_report'', ''verification_report''})"

definition adjudicated :: "outside \<Rightarrow> vreports \<Rightarrow> (string \<Rightarrow> pevent list option) \<Rightarrow> (string \<Rightarrow> paudit option)
    \<Rightarrow> source_record list \<Rightarrow> precedent \<Rightarrow> bool" where
  "adjudicated W vreps layers audits records p \<longleftrightarrow>
     (\<exists>rec \<in> set records. \<exists>es audit f e.
        layers (or_str (sr_layer rec) []) = Some es \<and> audits (or_str (sr_audit rec) []) = Some audit
        \<and> f \<in> set (pa_findings audit) \<and> f_id f = pr_finding_id p
        \<and> (let events = sorted_events es (pr_finding_id p) in
           e \<in> set events \<and> pe_validity e = Some (pr_verdict p) \<and> pr_verdict p \<in> {''false_positive'', ''hardening''}
           \<and> (if pr_countersigned p then pr_strength p = STRENGTH_HUMAN \<and> human_basis W f events e
              else pr_strength p = STRENGTH_MACHINE \<and> machine_basis W vreps f events e)))"

definition all_precedents :: "cache_state \<Rightarrow> precedent list" where
  "all_precedents s = concat (map (\<lambda>(sig, en). ce_precedents en) (cs_components s))"

lemma strengths_differ [simp]: "STRENGTH_MACHINE \<noteq> STRENGTH_HUMAN" "STRENGTH_HUMAN \<noteq> STRENGTH_MACHINE"
  by (simp_all add: STRENGTH_HUMAN_def STRENGTH_MACHINE_def)

lemma map_fst_in: "map_of (rev (map (\<lambda>f. (k f, f)) fs)) x = Some f \<Longrightarrow> f \<in> set fs \<and> k f = x"
  by (drule map_of_SomeD) auto

lemma refuting_iff: "refuting e \<longleftrightarrow> (\<exists>v. pe_validity e = Some v \<and> v \<in> {''false_positive'', ''hardening''})"
  by (auto simp: refuting_def PRECEDENT_VERDICTS_def split: option.splits)

text \<open>The counters that only the end of a step changes.\<close>

definition same_tally :: "pcounters \<Rightarrow> pcounters \<Rightarrow> bool" where
  "same_tally c c' \<longleftrightarrow> ct_human c' = ct_human c \<and> ct_machine c' = ct_machine c"

lemma first_sound_result:
  "first_sound vreps es c = (r, c') \<Longrightarrow> same_tally c c'
     \<and> (case r of None \<Rightarrow> True | Some e \<Rightarrow> e \<in> set es
          \<and> (pe_type e = Some ''validation_report'' \<longrightarrow> fst (check_event vreps e)))"
proof (induction es arbitrary: c)
  case (Cons e es)
  show ?case
  proof (cases "pe_type e = Some ''validation_report'' \<and> \<not> fst (check_event vreps e)")
    case True
    then have "first_sound vreps es (count_unsound (snd (check_event vreps e)) c) = (r, c')"
      using Cons.prems by (auto simp: case_prod_unfold)
    from Cons.IH [OF this] show ?thesis
      by (auto simp: same_tally_def count_unsound_def Let_def split: option.splits)
  next
    case False
    then show ?thesis using Cons.prems by (auto simp: same_tally_def case_prod_unfold split: if_splits)
  qed
qed (auto simp: same_tally_def)

lemma select_human:
  assumes "select_precedent_event W vreps events c = (Some (e, st), c')"
  shows "same_tally c c' \<and> e \<in> set events \<and> refuting e
    \<and> (st = STRENGTH_HUMAN \<and> human_actor W (pe_actor e) \<and> last (filter (is_human_adjudication W) events) = e
       \<or> st = STRENGTH_MACHINE \<and> is_machine_adjudication e
         \<and> list_all (\<lambda>e'. \<not> is_human_adjudication W e') events
         \<and> (pe_type e = Some ''validation_report'' \<longrightarrow> fst (check_event vreps e)))"
proof (cases "filter (is_human_adjudication W) events = []")
  case False
  then have "last (filter (is_human_adjudication W) events) \<in> set (filter (is_human_adjudication W) events)"
    by (rule last_in_set)
  then show ?thesis using False assms
    by (auto simp: select_precedent_event_def same_tally_def is_human_adjudication_def split: if_splits)
next
  case True
  obtain r where r: "first_sound vreps (rev (filter is_machine_adjudication events)) c = (Some r, c')"
      "e = r" "st = STRENGTH_MACHINE"
    using assms True by (auto simp: select_precedent_event_def Let_def split: prod.splits)
  from first_sound_result [OF r(1)] have "same_tally c c'" "is_machine_adjudication e" "e \<in> set events"
      "pe_type e = Some ''validation_report'' \<longrightarrow> fst (check_event vreps e)"
    using r(2) by auto
  then show ?thesis using True r(3)
    by (auto simp: is_machine_adjudication_def list_all_iff filter_empty_conv split: if_splits)
qed

lemma select_none: "select_precedent_event W vreps events c = (None, c') \<Longrightarrow> same_tally c c'"
  by (auto simp: select_precedent_event_def Let_def dest!: first_sound_result split: if_splits prod.splits)

text \<open>
  One step either leaves the precedents alone and counts nothing as entered, or adds one that is
  adjudicated and counts it under its strength.
\<close>

definition tallied :: "pcounters \<Rightarrow> pcounters \<Rightarrow> precedent \<Rightarrow> bool" where
  "tallied c c' p \<longleftrightarrow>
     (if pr_countersigned p then ct_human c' = ct_human c + 1 \<and> ct_machine c' = ct_machine c
      else ct_human c' = ct_human c \<and> ct_machine c' = ct_machine c + 1)"

definition entered :: "cache_state \<Rightarrow> (precedent \<Rightarrow> bool) \<Rightarrow> pfinding \<Rightarrow> outside \<Rightarrow> cache_state \<Rightarrow> bool" where
  "entered s P f W s' \<longleftrightarrow> (\<exists>c. s' = s\<lparr>cs_counters := c\<rparr> \<and> same_tally (cs_counters s) c)
     \<or> (\<exists>p c. s' = add_precedent W f p (s\<lparr>cs_counters := c\<rparr>) \<and> tallied (cs_counters s) c p \<and> P p)"

lemma make_countersigned [simp]: "pr_countersigned (make_precedent W tax rec lref audit fref f e st) = (st = STRENGTH_HUMAN)"
  by (simp add: make_precedent_def Let_def)

lemma entered_kept: "same_tally (cs_counters s) c \<Longrightarrow> entered s P f W (s\<lparr>cs_counters := c\<rparr>)"
  by (auto simp: entered_def)

lemma entered_new:
  "tallied (cs_counters s) c p \<Longrightarrow> P p \<Longrightarrow> entered s P f W (add_precedent W f p (s\<lparr>cs_counters := c\<rparr>))"
  by (auto simp: entered_def)

lemma settle_entered:
  assumes "select_precedent_event W vreps events (cs_counters s) = sel"
    and "\<And>e st c. sel = (Some (e, st), c) \<Longrightarrow> refuting e \<Longrightarrow> e \<in> set events
      \<Longrightarrow> if st = STRENGTH_HUMAN then human_basis W f events e
          else st = STRENGTH_MACHINE \<and> machine_basis W vreps f events e
      \<Longrightarrow> P (make_precedent W tax rec lref audit fref f e st)"
  shows "entered s P f W (settle W tax rec lref audit fref f events sel s)"
proof -
  obtain r c where sel: "sel = (r, c)" by fastforce
  show ?thesis
  proof (cases r)
    case None
    then show ?thesis using assms(1) sel select_none by (auto simp: settle_def intro: entered_kept)
  next
    case (Some x)
    obtain e st where x: "x = (e, st)" by fastforce
    note chosen = select_human [OF assms(1) [unfolded sel Some x]]
    note P = assms(2) [of e st c, unfolded sel Some x, OF refl]
    show ?thesis
    proof (cases "st = STRENGTH_HUMAN")
      case True
      have "human_basis W f events e" if "dv_validity (o_derive W f events) = pe_validity e"
        using True chosen that by (simp add: human_basis_def)
      then show ?thesis using True chosen P unfolding sel Some x settle_def Let_def
        by (auto simp: same_tally_def tallied_def intro!: entered_kept entered_new)
    next
      case False
      have "machine_basis W vreps f events e"
        if "\<not> contested events" "\<not> stale_machine (o_derive W f events)"
        using False chosen that by (auto simp: machine_basis_def contested_def stale_machine_def list_all_iff
            is_machine_adjudication_def MACHINE_SOURCE_TYPES_def check_event_sound split: option.splits if_splits)
      then show ?thesis using False chosen P unfolding sel Some x settle_def Let_def
        by (auto simp: same_tally_def tallied_def intro!: entered_kept entered_new)
    qed
  qed
qed

text \<open>What the loop promises of each finding step, whatever the layer it is in.\<close>

lemma ref_step_entered:
  assumes "snd grp = filter (\<lambda>e. or_str (pe_finding_ref e) [] = fst grp) (filter (\<lambda>e. truthy (pe_finding_ref e)) es)"
    and "rec \<in> set records" "layers (or_str (sr_layer rec) []) = Some es" "audits (or_str (sr_audit rec) []) = Some audit"
  shows "\<exists>f. entered s (\<lambda>p. adjudicated W vreps layers audits records p) f W
    (ref_step W vreps tax rec lref audit grp s)"
proof -
  define events where "events = sort_key (\<lambda>e. or_str (pe_recorded_at e) []) (snd grp)"
  have ev: "events = sorted_events es (fst grp)" using assms(1) by (simp add: events_def sorted_events_def)
  have keep: "entered s P f W s" for P f
    unfolding entered_def same_tally_def by (rule disjI1) (rule exI [of _ "cs_counters s"], simp)
  note step = ref_step_def [of W vreps tax rec lref audit grp s, folded events_def]
  show ?thesis
  proof (cases "\<exists>e \<in> set events. is_human_adjudication W e \<or> is_machine_adjudication e")
    case False
    then show ?thesis using keep by (simp add: step Let_def)
  next
    case True
    show ?thesis
    proof (cases "map_of (rev (map (\<lambda>f. (f_id f, f)) (pa_findings audit))) (fst grp)")
      case None
      then show ?thesis using keep by (simp add: step Let_def)
    next
      case (Some f)
      then have f: "f \<in> set (pa_findings audit)" "f_id f = fst grp" by (auto dest!: map_fst_in)
      have "adjudicated W vreps layers audits records (make_precedent W tax rec lref audit (fst grp) f e st)"
        if "refuting e" "e \<in> set events"
          "if st = STRENGTH_HUMAN then human_basis W f events e else st = STRENGTH_MACHINE \<and> machine_basis W vreps f events e"
        for e st
        unfolding adjudicated_def using assms(2-4) f that
        by (intro bexI [of _ rec] exI [of _ es] exI [of _ audit] exI [of _ f] exI [of _ e])
          (auto simp: make_precedent_def Let_def ev refuting_iff split: if_splits)
      then have "entered s (\<lambda>p. adjudicated W vreps layers audits records p) f W
          (settle W tax rec lref audit (fst grp) f events (select_precedent_event W vreps events (cs_counters s)) s)"
        by (intro settle_entered [OF refl]) blast
      then show ?thesis using True Some by (auto simp: step Let_def)
    qed
  qed
qed

section \<open>The cache as it is built\<close>

definition component_sig :: "outside \<Rightarrow> pcomponent \<Rightarrow> string" where
  "component_sig W c = component_signature W (cp_paths c) (cp_cwe c) (cp_category c) (cp_sink c)"

lemma distinct_sorted_keys: "distinct (map fst (sort_key fst d)) = distinct (map fst d)"
  by (rule mset_eq_imp_distinct_iff) simp

lemma mset_concat_sorted: "mset (concat (map g (sort_key k d))) = mset (concat (map g d))"
  by (simp add: mset_concat flip: sum_mset_sum_list)

lemma mset_added:
  "mset (concat (map (\<lambda>(sig, en). ce_precedents en) (AList.update k (en\<lparr>ce_precedents := ce_precedents en @ [p]\<rparr>) d)))
     = add_mset p (mset (concat (map (\<lambda>(sig, en). ce_precedents en) d)))"
  if "case map_of d k of None \<Rightarrow> ce_precedents en = [] | Some en' \<Rightarrow> en' = en"
  using that by (induction d) (auto split: if_splits)

text \<open>
  The invariant of the loop: every precedent satisfies what was shown when it entered, the counters
  are the numbers of precedents of each strength, every component sits under its own signature, and
  every fingerprint leads to components that hold a precedent with it.
\<close>

definition cache_ok :: "outside \<Rightarrow> (precedent \<Rightarrow> bool) \<Rightarrow> cache_state \<Rightarrow> bool" where
  "cache_ok W P s \<longleftrightarrow> distinct (map fst (cs_components s)) \<and> distinct (map fst (cs_fingerprints s))
     \<and> (\<forall>p \<in># mset (all_precedents s). P p)
     \<and> size (filter_mset pr_countersigned (mset (all_precedents s))) = ct_human (cs_counters s)
     \<and> size (filter_mset (\<lambda>p. \<not> pr_countersigned p) (mset (all_precedents s))) = ct_machine (cs_counters s)
     \<and> (\<forall>sig en. map_of (cs_components s) sig = Some en \<longrightarrow> sig = component_sig W (ce_component en))
     \<and> (\<forall>fp sigs sig. map_of (cs_fingerprints s) fp = Some sigs \<and> sig \<in> set sigs \<longrightarrow>
          (\<exists>en p. map_of (cs_components s) sig = Some en \<and> p \<in> set (ce_precedents en) \<and> pr_fingerprint p = fp))"

lemma cache_ok_empty: "cache_ok W P empty_state"
  by (simp add: cache_ok_def empty_state_def all_precedents_def)

lemma cache_ok_kept: "same_tally (cs_counters s) c \<Longrightarrow> cache_ok W P s \<Longrightarrow> cache_ok W P (s\<lparr>cs_counters := c\<rparr>)"
  by (auto simp: cache_ok_def same_tally_def all_precedents_def simp del: map_of_eq_Some_iff)

lemma cache_ok_added:
  assumes "cache_ok W P s" and "tallied (cs_counters s) c p" and "P p"
  shows "cache_ok W P (add_precedent W f p (s\<lparr>cs_counters := c\<rparr>))"
proof -
  let ?sig = "signature_of W f"
  define entry where "entry = (case map_of (cs_components s) ?sig of
    Some en \<Rightarrow> en | None \<Rightarrow> \<lparr>ce_component = finding_component W f, ce_precedents = []\<rparr>)"
  let ?s = "add_precedent W f p (s\<lparr>cs_counters := c\<rparr>)"
  have comps: "cs_components ?s = AList.update ?sig (entry\<lparr>ce_precedents := ce_precedents entry @ [p]\<rparr>) (cs_components s)"
    by (simp add: add_precedent_def Let_def entry_def)
  have cnt: "cs_counters ?s = c" by (simp add: add_precedent_def Let_def)
  have all: "mset (all_precedents ?s) = add_mset p (mset (all_precedents s))"
    unfolding all_precedents_def comps
    by (rule mset_added) (simp add: entry_def split: option.splits)
  have sig: "?sig = component_sig W (ce_component entry)"
    using assms(1) by (auto simp: entry_def cache_ok_def component_sig_def signature_of_def Let_def split: option.splits)
  define sigs where "sigs = (case map_of (cs_fingerprints s) (pr_fingerprint p) of Some l \<Rightarrow> l | None \<Rightarrow> [])"
  have fps: "cs_fingerprints ?s = AList.update (pr_fingerprint p)
      (if ?sig \<notin> set sigs then sigs @ [?sig] else sigs) (cs_fingerprints s)"
    by (simp add: add_precedent_def Let_def flip: sigs_def)
  have index: "\<exists>en q. map_of (cs_components ?s) g = Some en \<and> q \<in> set (ce_precedents en) \<and> pr_fingerprint q = fp"
    if "map_of (cs_fingerprints ?s) fp = Some gs" "g \<in> set gs" for fp gs g
  proof (cases "g = ?sig \<and> fp = pr_fingerprint p")
    case True
    then show ?thesis unfolding comps by (auto simp: lookup_update)
  next
    case False
    then have "\<exists>en q. map_of (cs_components s) g = Some en \<and> q \<in> set (ce_precedents en) \<and> pr_fingerprint q = fp"
      using assms(1) that unfolding fps by (auto simp: cache_ok_def lookup_update sigs_def split: if_splits option.splits)
    then show ?thesis unfolding comps by (auto simp: lookup_update entry_def)
  qed
  show ?thesis
    using assms(1,2) all sig index unfolding cache_ok_def comps cnt tallied_def
    by (auto simp: assms(3) distinct_update fps lookup_update)
qed

lemma cache_ok_entered: "entered s P f W s' \<Longrightarrow> cache_ok W P s \<Longrightarrow> cache_ok W P s'"
  by (auto simp: entered_def intro: cache_ok_kept cache_ok_added)

lemma cache_ok_fold:
  "(\<And>x s. x \<in> set xs \<Longrightarrow> cache_ok W P s \<Longrightarrow> cache_ok W P (g x s)) \<Longrightarrow> cache_ok W P s \<Longrightarrow> cache_ok W P (fold g xs s)"
  by (induction xs arbitrary: s) auto

lemma cache_ok_record:
  assumes "rec \<in> set records" and "cache_ok W (\<lambda>p. adjudicated W vreps layers audits records p) s"
  shows "cache_ok W (\<lambda>p. adjudicated W vreps layers audits records p) (record_step W vreps tax layers audits rec s)"
proof -
  let ?P = "\<lambda>p. adjudicated W vreps layers audits records p"
  let ?s = "s\<lparr>cs_counters := (cs_counters s)\<lparr>ct_layers := ct_layers (cs_counters s) + 1\<rparr>\<rparr>"
  have start: "cache_ok W ?P ?s" using assms(2) by (intro cache_ok_kept) (simp_all add: same_tally_def)
  have "cache_ok W ?P (fold (ref_step W vreps tax rec lref audit) (events_by_ref es) ?s)"
    if "layers (or_str (sr_layer rec) []) = Some es" "audits (or_str (sr_audit rec) []) = Some audit" for es audit lref
  proof (rule cache_ok_fold [OF _ start])
    fix grp s'
    assume grp: "grp \<in> set (events_by_ref es)" and ok: "cache_ok W ?P s'"
    then have "map_of (group_by (\<lambda>e. or_str (pe_finding_ref e) []) (filter (\<lambda>e. truthy (pe_finding_ref e)) es)) (fst grp) = Some (snd grp)"
      by (simp add: events_by_ref_def distinct_keys_group_by)
    then have "snd grp = filter (\<lambda>e. or_str (pe_finding_ref e) [] = fst grp) (filter (\<lambda>e. truthy (pe_finding_ref e)) es)"
      by (simp add: group_by_lookup split: if_splits)
    from ref_step_entered [where layers = layers and audits = audits, OF this assms(1) that] ok
    show "cache_ok W ?P (ref_step W vreps tax rec lref audit grp s')"
      by (blast intro: cache_ok_entered)
  qed
  then show ?thesis using assms(2) by (auto simp: record_step_def split: option.splits)
qed

lemma cache_ok_built:
  "cache_ok W (\<lambda>p. adjudicated W vreps layers audits records p) (build_cache W vreps tax layers audits records)"
proof -
  let ?P = "\<lambda>p. adjudicated W vreps layers audits records p"
  let ?s = "fold (record_step W vreps tax layers audits) records empty_state"
  let ?sorted = "\<lambda>(sig, en). (sig, en\<lparr>ce_precedents := sort_key precedent_key (ce_precedents en)\<rparr>)"
  have s: "cache_ok W ?P ?s"
    by (rule cache_ok_fold [OF cache_ok_record cache_ok_empty])
  let ?c = "build_cache W vreps tax layers audits records"
  have m: "map_of (map ?sorted d) k = map_option (\<lambda>en. en\<lparr>ce_precedents := sort_key precedent_key (ce_precedents en)\<rparr>) (map_of d k)" for d k
    by (induction d) auto
  have all: "mset (concat (map (\<lambda>(sig, en). ce_precedents en) (map ?sorted d))) = mset (concat (map (\<lambda>(sig, en). ce_precedents en) d))" for d
    by (induction d) auto
  have keys: "map fst (map ?sorted d) = map fst d" for d by auto
  have c: "cs_components ?c = sort_key fst (map ?sorted (cs_components ?s))" "cs_fingerprints ?c = sort_key fst (cs_fingerprints ?s)"
    "same_tally (cs_counters ?s) (cs_counters ?c)"
    by (simp_all add: build_cache_def Let_def same_tally_def)
  have a: "mset (all_precedents ?c) = mset (all_precedents ?s)"
    unfolding all_precedents_def c mset_concat_sorted all ..
  have d: "distinct (map fst (cs_components ?c)) = distinct (map fst (cs_components ?s))"
    "distinct (map fst (cs_fingerprints ?c)) = distinct (map fst (cs_fingerprints ?s))"
    unfolding c distinct_sorted_keys keys by (rule refl)+
  have l: "map_of (cs_components ?c) k = map_option (\<lambda>en. en\<lparr>ce_precedents := sort_key precedent_key (ce_precedents en)\<rparr>) (map_of (cs_components ?s) k)"
    "map_of (cs_fingerprints ?c) k = map_of (cs_fingerprints ?s) k" for k
    unfolding c map_of_sort_key m by (rule refl)+
  have index: "\<exists>en p. map_of (cs_components ?c) sig = Some en \<and> p \<in> set (ce_precedents en) \<and> pr_fingerprint p = fp"
    if g: "map_of (cs_fingerprints ?c) fp = Some sigs" "sig \<in> set sigs" for fp sigs sig
  proof -
    obtain en p where "map_of (cs_components ?s) sig = Some en" "p \<in> set (ce_precedents en)" "pr_fingerprint p = fp"
      using s g unfolding cache_ok_def l by blast
    then show ?thesis unfolding l by auto
  qed
  have sigs: "sig = component_sig W (ce_component en)" if "map_of (cs_components ?c) sig = Some en" for sig en
    using s that unfolding cache_ok_def l by auto
  have "distinct (map fst (cs_components ?c)) \<and> distinct (map fst (cs_fingerprints ?c))
      \<and> (\<forall>p \<in># mset (all_precedents ?c). ?P p)
      \<and> size (filter_mset pr_countersigned (mset (all_precedents ?c))) = ct_human (cs_counters ?c)
      \<and> size (filter_mset (\<lambda>p. \<not> pr_countersigned p) (mset (all_precedents ?c))) = ct_machine (cs_counters ?c)"
    using s c(3) unfolding a d same_tally_def cache_ok_def by (simp del: map_of_eq_Some_iff)
  then show ?thesis unfolding cache_ok_def using index sigs by blast
qed

section \<open>Properties\<close>

text \<open>
  C20. What seeds a precedent. Whatever the layers, audits
  and validation reports hold, every precedent of the built cache goes back to a finding that is still in its audit and to
  a determination on it as a false positive or a hardening that is either the latest of a verified human and still the current
  disposition, or a machine's that no human decided over, that no event contests, and
  whose finding is neither confirmed, corrected nor overridden now. A machine's determination from triage or verification is
  taken as it is; one from a validation report is taken only when the report can be read and the soundness gate puts no flag
  on its first entry for the finding, which the gate never does on an entry that is no refutation
  (\<open>unrefuted_entry_is_sound\<close>).
\<close>

theorem precedents_adjudicated:
  "list_all (adjudicated W vreps layers audits records)
     (all_precedents (build_cache W vreps tax layers audits records))"
  using cache_ok_built [of W vreps layers audits records tax] by (simp add: cache_ok_def list_all_iff)

text \<open>The counters of the metadata are the numbers of precedents of each strength.\<close>

lemma precedents_counted:
  "let c = build_cache W vreps tax layers audits records; ps = all_precedents c in
     length (filter pr_countersigned ps) = ct_human (cs_counters c)
     \<and> length (filter (\<lambda>p. \<not> pr_countersigned p) ps) = ct_machine (cs_counters c)"
  using cache_ok_built [of W vreps layers audits records tax]
  by (simp add: cache_ok_def Let_def flip: size_mset)

text \<open>What connects a finding to the component it is matched with.\<close>

definition match_reason :: "outside \<Rightarrow> pfinding \<Rightarrow> pmatch \<Rightarrow> bool" where
  "match_reason W f m \<longleftrightarrow>
     (let comp = ce_component (pm_entry m); (cwe, category) = finding_class f in
      if pm_matched_by m = ''fingerprint'' then
        f_stamp f \<in> (\<lambda>p. Some (pr_fingerprint p)) ` set (ce_precedents (pm_entry m))
      else if pm_matched_by m = ''signature'' then component_sig W comp = signature_of W f
      else pm_matched_by m = ''component''
        \<and> set (component_paths W f) \<inter> set (cp_paths comp) \<noteq> {}
        \<and> (cwe = Some (cp_cwe comp) \<or> category = cp_category comp \<and> category \<noteq> []))"

lemma class_hit_cases:
  assumes "class_hit W f (csig, en) = Some (g, how)" and "finding_class f = (cwe, category)"
  shows "csig = signature_of W f \<and> how = ''signature''
    \<or> (\<exists>p \<in> set (component_paths W f). p \<in> set (cp_paths (ce_component en))) \<and> how = ''component''
      \<and> (truthy cwe \<and> cwe = Some (cp_cwe (ce_component en)) \<or> category \<noteq> [] \<and> category = cp_category (ce_component en))"
proof (cases "csig = signature_of W f")
  case True
  then show ?thesis using assms(1) by (simp add: class_hit_def Let_def)
next
  case False
  let ?c = "(\<exists>p \<in> set (component_paths W f). p \<in> set (cp_paths (ce_component en)))
      \<and> (truthy cwe \<and> cwe = Some (cp_cwe (ce_component en)) \<or> category \<noteq> [] \<and> category = cp_category (ce_component en))"
  have "class_hit W f (csig, en) = (if ?c then Some (csig, ''component'') else None)"
    using False by (simp add: class_hit_def Let_def assms(2))
  then show ?thesis using assms(1) by (cases ?c) simp_all
qed

lemma hits_reason:
  assumes "cache_ok W P cache" and "hit \<in> set (hits W cache f)" and "match_of cache f hit = Some m"
  shows "match_reason W f m \<and> pm_finding m = f_id f \<and> map_of (cs_components cache) (pm_signature m) = Some (pm_entry m)
    \<and> (pm_strength m = STRENGTH_HUMAN \<longleftrightarrow> STRENGTH_HUMAN \<in> pr_strength ` set (ce_precedents (pm_entry m)))"
proof -
  obtain csig how where hit: "hit = (csig, how)" by fastforce
  have d: "distinct (map fst (cs_components cache))" using assms(1) by (simp add: cache_ok_def)
  obtain en where en: "map_of (cs_components cache) csig = Some en"
    and m: "pm_finding m = f_id f" "pm_signature m = csig" "pm_matched_by m = how" "pm_entry m = en"
      "pm_strength m = (if STRENGTH_HUMAN \<in> pr_strength ` set (ce_precedents en) then STRENGTH_HUMAN else STRENGTH_MACHINE)"
    using assms(3) unfolding match_of_def hit by (auto split: option.splits)
  have sig: "csig = component_sig W (ce_component en)" using assms(1) en unfolding cache_ok_def by blast
  show ?thesis
  proof (cases "if truthy (f_stamp f) then map_of (cs_fingerprints cache) (or_str (f_stamp f) []) else None")
    case (Some sigs)
    then obtain fp where st: "f_stamp f = Some fp" "map_of (cs_fingerprints cache) fp = Some sigs"
      by (auto simp: truthy_iff split: if_splits)
    have how: "how = ''fingerprint''" "csig \<in> set sigs" using assms(2) unfolding hits_def Some hit by auto
    have "\<exists>en' p. map_of (cs_components cache) csig = Some en' \<and> p \<in> set (ce_precedents en') \<and> pr_fingerprint p = fp"
      using assms(1) st(2) how(2) unfolding cache_ok_def by blast
    then obtain p where "p \<in> set (ce_precedents en)" "pr_fingerprint p = fp" using en by auto
    then have "match_reason W f m" unfolding match_reason_def m how Let_def st(1) by (auto split: prod.splits)
    then show ?thesis using m en by simp
  next
    case None
    then have "hit \<in> set (List.map_filter (class_hit W f) (cs_components cache))"
      using assms(2) unfolding hits_def None by (auto split: if_splits)
    then obtain en' where kv: "(csig, en') \<in> set (cs_components cache)" "class_hit W f (csig, en') = Some (csig, how)"
      unfolding in_map_filter hit by (auto simp: class_hit_def Let_def split: if_splits)
    then have same: "en' = en" using en d by simp
    obtain cwe category where fc: "finding_class f = (cwe, category)" by fastforce
    consider "csig = signature_of W f" "how = ''signature''"
      | "\<exists>p \<in> set (component_paths W f). p \<in> set (cp_paths (ce_component en))" "how = ''component''"
        "truthy cwe \<and> cwe = Some (cp_cwe (ce_component en)) \<or> category \<noteq> [] \<and> category = cp_category (ce_component en)"
      using class_hit_cases [OF kv(2) [unfolded same] fc] by blast
    then have "match_reason W f m"
    proof cases
      case 1
      then show ?thesis using sig by (simp add: match_reason_def m fc)
    next
      case 2
      from 2(1) have "set (component_paths W f) \<inter> set (cp_paths (ce_component en)) \<noteq> {}" by blast
      with 2(3) show ?thesis unfolding match_reason_def m fc 2(2) by auto
    qed
    then show ?thesis using m en by simp
  qed
qed

text \<open>
  C21. A match is never path-only. Every match reported against the built cache names the finding and a component of
  the cache for a reason that holds: a precedent of it has the finding's fingerprint, or its
  signature is the finding's, or the two share a vendor-normalized path and the class agrees. Every precedent
  the match cites is adjudicated, and the match is offered in the human tier exactly when one of them is countersigned.
\<close>

theorem matches_justified_by_precedents:
  "list_all (\<lambda>m. (\<exists>f \<in> set fs. match_reason W f m \<and> pm_finding m = f_id f)
       \<and> list_all (adjudicated W vreps layers audits records) (ce_precedents (pm_entry m))
       \<and> (pm_strength m = STRENGTH_HUMAN) = (STRENGTH_HUMAN \<in> pr_strength ` set (ce_precedents (pm_entry m))))
     (match_precedents W (build_cache W vreps tax layers audits records) fs)"
proof -
  let ?c = "build_cache W vreps tax layers audits records"
  have ok: "cache_ok W (\<lambda>p. adjudicated W vreps layers audits records p) ?c" by (rule cache_ok_built)
  have cited: "list_all (adjudicated W vreps layers audits records) (ce_precedents en)"
    if "map_of (cs_components ?c) sig = Some en" for sig en
  proof -
    have "set (ce_precedents en) \<subseteq> set (all_precedents ?c)"
      using map_of_SomeD [OF that] by (auto simp: all_precedents_def intro!: bexI [of _ "(sig, en)"])
    then show ?thesis using ok by (auto simp: cache_ok_def list_all_iff)
  qed
  show ?thesis
    unfolding list_all_iff match_precedents_def
    by (auto simp: in_map_filter dest!: hits_reason [OF ok] cited split del: if_split)
      (auto simp: list_all_iff)
qed

text \<open>
  An entry that is no refutation and carries no flag of its own passes the gate: a machine's
  determination joined to it seeds a precedent although nothing was refuted in the report.
\<close>

lemma unrefuted_entry_is_sound:
  "vr ref = (Some [v], installed) \<Longrightarrow> ve_finding_ref v = Some fid \<Longrightarrow> fid \<noteq> [] \<Longrightarrow> ref \<noteq> []
     \<Longrightarrow> v_verdict v = Some ''confirmed'' \<Longrightarrow> \<not> truthy (v_flag v)
     \<Longrightarrow> pe_source_ref e = Some ref \<Longrightarrow> pe_finding_ref e = Some fid \<Longrightarrow> check_event vr e = (True, None)"
  by (simp add: check_event_def entry_of_def flag_validated_finding_def validated.defs)

end
