(* ===== verification/Report_Strict.thy ===== *)
theory Report_Strict
  imports Report_Audit Redact Py_Date Py_Json
begin

text \<open>
  \<open>reporting/validate.py\<close>, the checks that are only made with \<open>--strict\<close>: the scan for secrets over the
  whole report, recommended sections, the repository as the organisation index reads it, severities
  against score bands, and the vocabulary of categories. The text of the report, as \<open>json.dumps\<close> writes
  it, and the day of the check are arguments; scores are exact.
\<close>

section \<open>Documents\<close>

text \<open>\<open>stf_cvss\<close>: no block, or a block with its score if it has one; \<open>stf_attack\<close>: a non-empty attack pattern.\<close>

record strict_finding = vfinding +
  stf_cvss :: "rat option option"
  stf_description :: "string option"
  stf_remediation :: "string option"
  stf_attack :: bool

record strict_meta = audit_meta +
  stm_steps :: bool            \<comment> \<open>\<open>additional.deterministic_steps\<close> is there\<close>
  stm_sbom_packages :: bool
  stm_loc_reviewed :: bool
  stm_loc_breakdown :: bool

record strict_report =
  st_meta :: strict_meta
  st_findings :: "strict_finding list"
  st_sections :: "string list"
  st_observations :: bool
  st_peach :: "bool option \<times> string"

datatype strict_problem =
    Secret string string
  | Section_missing string
  | Repository_unread | Repository_unattributed
  | Steps_missing
  | Benchmark_text nat string
  | Observations_missing
  | Sbom_packages_missing | Loc_missing | Loc_breakdown_missing
  | Peach_missing | Peach_rationale nat
  | Stale_date
  | Cvss_missing nat
  | Informational_scored nat
  | Bands_below nat int
  | Attack_pattern_missing nat
  | All_confirmed
  | Off_vocabulary "string list"

section \<open>Repositories as the index reads them\<close>

definition REPO_SEGMENT_RE :: rx where
  "REPO_SEGMENT_RE = seq [At Bos, plus (Cls (alnum_or ''._-'')), At Eos]"

definition host_label :: rx where
  "host_label = plus (Cls (\<lambda>c. is_lower c \<or> is_digit c \<or> c = CHR ''-''))"

definition REPO_HOST_RE :: rx where
  "REPO_HOST_RE = seq [At Bos, host_label, plus (Cat (lit ''.'') host_label), At Eos]"

text \<open>
  \<open>urlparse\<close>, as far as the path and the host name go: control characters and blanks before the URL and
  breaks inside it are dropped, then scheme, authority, query, fragment and parameters are cut off. An
  authority with brackets is read as a \<open>ValueError\<close>.
\<close>

definition scheme_char :: "char \<Rightarrow> bool" where
  "scheme_char c \<longleftrightarrow> is_lower c \<or> is_upper c \<or> is_digit c \<or> c \<in> {CHR ''+'', CHR ''-'', CHR ''.''}"

definition cut_scheme :: "string \<Rightarrow> string \<times> string" where
  "cut_scheme url = (case cut CHR '':'' url of
       (s, Some rest) \<Rightarrow>
         if s \<noteq> [] \<and> (is_lower (hd s) \<or> is_upper (hd s)) \<and> list_all scheme_char s then (lower s, rest) else ([], url)
     | (s, None) \<Rightarrow> ([], url))"

definition USES_PARAMS :: "string list" where
  "USES_PARAMS = ['''', ''ftp'', ''hdl'', ''prospero'', ''http'', ''https'', ''shttp'', ''rtsp'', ''rtsps'', ''sip'', ''sips'',
     ''mms'', ''sftp'', ''tel'']"

definition cut_params :: "string \<Rightarrow> string" where
  "cut_params path = (let i = length path - length (after_last CHR ''/'' path) in
     take i path @ fst (cut CHR '';'' (drop i path)))"

definition host_of :: "string \<Rightarrow> string option" where
  "host_of netloc = (let h = fst (cut CHR '':'' (after_last CHR ''@'' netloc)) in
     if h = [] then None else Some (lower (fst (cut CHR ''%'' h)) @ drop (length (fst (cut CHR ''%'' h))) h))"

definition urlparse :: "string \<Rightarrow> (string option \<times> string) option" where
  "urlparse url =
     (let url = filter (\<lambda>c. c \<notin> {CHR 0x09, CHR 0x0A, CHR 0x0D}) (dropWhile (code_in 0 32) url);
          (scheme, rest) = cut_scheme url;
          netloc = (if startswith rest ''//'' then takeWhile (\<lambda>c. c \<notin> {CHR ''/'', CHR ''?'', CHR ''#''}) (drop 2 rest) else []);
          path = (if startswith rest ''//'' then drop (2 + length netloc) rest else rest);
          path = fst (cut CHR ''?'' (fst (cut CHR ''#'' path))) in
      if CHR ''['' \<in> set netloc \<or> CHR '']'' \<in> set netloc then None
      else Some (host_of netloc, if scheme \<in> set USES_PARAMS \<and> CHR '';'' \<in> set path then cut_params path else path))"

definition repository_parses :: "string \<Rightarrow> bool" where
  "repository_parses url =
     (let url = strip_set ''<>'' (strip url) in
      case urlparse (if occurs_in ''://'' url then url else ''https://'' @ url) of
        None \<Rightarrow> False
      | Some (host, path) \<Rightarrow>
          let parts = filter (\<lambda>p. p \<noteq> []) (split_on CHR ''/'' path) in
          2 \<le> length parts \<and> re_match REPO_HOST_RE (lower (or_str host [])) \<noteq> None
          \<and> list_all (\<lambda>p. re_match REPO_SEGMENT_RE p \<noteq> None \<and> list_ex (alnum_or []) p) parts)"

section \<open>Bands\<close>

definition BANDS :: "(string \<times> rat) list" where
  "BANDS = [(''critical'', 9), (''high'', 7), (''medium'', 4), (''low'', 1 / 10)]"

definition BAND_ORDER :: "string list" where
  "BAND_ORDER = [''informational'', ''low'', ''medium'', ''high'', ''critical'']"

definition band_of :: "rat \<Rightarrow> string" where
  "band_of score = (case find (\<lambda>(name, least). least \<le> score) BANDS of
     Some (name, _) \<Rightarrow> name | None \<Rightarrow> ''informational'')"

fun index_in :: "string list \<Rightarrow> string \<Rightarrow> int" where
  "index_in [] x = 0"
| "index_in (y # ys) x = (if x = y then 0 else 1 + index_in ys x)"

definition any_char :: rx where
  "any_char = Cls (\<lambda>c. c \<noteq> CHR 0x0A)"

definition DOWNGRADE_RATIONALE :: rx where
  "DOWNGRADE_RATIONALE = alts [ilit ''deployment context'', ilit ''contextual'', ilit ''downgrad'', ilit ''base score'',
     ilit ''CVSS base'', Cat (ilit ''advisory '') (alts [ilit ''score'', ilit ''CVSS'']),
     Cat (ilit ''rated '') (alts [ilit ''low'', ilit ''medium'', ilit ''informational'']),
     seq [ilit ''not attacker'', any_char, ilit ''reachable''], ilit ''reachab'']"

definition finding_sev :: "strict_finding \<Rightarrow> string" where
  "finding_sev f = lower (vf_severity f)"

definition score_of :: "strict_finding \<Rightarrow> rat option" where
  "score_of f = (case stf_cvss f of None \<Rightarrow> None | Some s \<Rightarrow> s)"

definition check_band :: "nat \<Rightarrow> strict_finding \<Rightarrow> strict_problem flag list" where
  "check_band i f = (case score_of f of
       None \<Rightarrow> []
     | Some score \<Rightarrow>
         if finding_sev f = ''informational'' then
           (if 7 \<le> score then [Fail (Informational_scored i)]
            else if 0 < score then [Warn (Informational_scored i)] else [])
         else if finding_sev f \<in> set BAND_ORDER then
           (let gap = index_in BAND_ORDER (band_of score) - index_in BAND_ORDER (finding_sev f) in
            warn_if (2 \<le> gap \<and> re_search DOWNGRADE_RATIONALE (or_str (stf_description f) []) = None) (Bands_below i gap))
         else [])"

definition check_scored :: "nat \<Rightarrow> strict_finding \<Rightarrow> strict_problem flag list" where
  "check_scored i f =
     warn_if (stf_cvss f = None \<and> finding_sev f \<noteq> ''informational'') (Cvss_missing i)
     @ check_band i f
     @ warn_if (finding_sev f \<in> {''critical'', ''high''} \<and> \<not> stf_attack f) (Attack_pattern_missing i)"

section \<open>The strict checks\<close>

definition DETERMINISTIC_STEPS_MIN_VERSION :: version where
  "DETERMINISTIC_STEPS_MIN_VERSION = (0, 60, 1)"

definition CIS_CONTROL_TEXT_RE :: rx where
  "CIS_CONTROL_TEXT_RE = seq [Cls (one_of ''Ee''), lit ''nsure that the '', Rep 0 (Some 80) False any_char,
     alts [lit ''argument'', lit ''parameter'', lit ''plugin''], lit '' is set'']"

definition RECOMMENDED_CATEGORIES :: "string list" where
  "RECOMMENDED_CATEGORIES = [''injection'', ''authentication'', ''authorization'', ''secrets-management'', ''supply-chain'',
     ''insecure-workload-config'', ''network-exposure'', ''cryptography'', ''input-validation'', ''path-traversal'',
     ''cross-site-scripting'', ''ssrf'', ''resource-management'', ''logging-monitoring'', ''data-exposure'', ''tenant-isolation'']"

definition normalize_category :: "string \<Rightarrow> string" where
  "normalize_category value = re_sub (plus (Cls (\<lambda>c. is_space c \<or> c = CHR ''_''))) (\<lambda>_. ''-'') (lower (strip value))"

definition check_secrets :: "string \<Rightarrow> strict_problem flag list" where
  "check_secrets dump = map (\<lambda>(category, prefix).
     if category \<in> HIGH_CONFIDENCE then Fail (Secret category prefix) else Warn (Secret category prefix)) (scan_text dump)"

definition check_repository :: "strict_meta \<Rightarrow> strict_problem flag list" where
  "check_repository m =
     (let url = strip (or_str (am_repository m) []) in
      if url = [] then [Warn Repository_unattributed]
      else warn_if (\<not> repository_parses url \<and> \<not> is_local_fixture_url url) Repository_unread)"

definition check_benchmark_text :: "nat \<Rightarrow> strict_finding \<Rightarrow> strict_problem flag list" where
  "check_benchmark_text i f = concat (map (\<lambda>(field, s).
     warn_if (re_search CIS_CONTROL_TEXT_RE (or_str s []) \<noteq> None) (Benchmark_text i field))
     [(''description'', stf_description f), (''remediation'', stf_remediation f)])"

definition check_measured :: "strict_meta \<Rightarrow> strict_problem flag list" where
  "check_measured m =
     (if am_profile m = Some ''container'' then warn_if (\<not> stm_sbom_packages m) Sbom_packages_missing
      else if \<not> stm_loc_reviewed m \<and> \<not> stm_loc_breakdown m then [Warn Loc_missing]
      else warn_if (gate (gate_meta.truncate m) (Some CONSISTENCY_MIN_VERSION) None \<and> \<not> stm_loc_breakdown m)
        Loc_breakdown_missing)"

definition check_peach_rationale :: "strict_report \<Rightarrow> strict_problem flag list" where
  "check_peach_rationale r =
     (if ''peach_isolation_review'' \<notin> set (st_sections r) then [Warn Peach_missing]
      else warn_if (fst (st_peach r) = Some False \<and> length (snd (st_peach r)) < 40)
        (Peach_rationale (length (snd (st_peach r)))))"

definition check_date :: "date \<Rightarrow> strict_meta \<Rightarrow> strict_problem flag list" where
  "check_date today m =
     (let s = or_str (gm_date m) [] in
      if s = [] then []
      else (case fromisoformat s of
        None \<Rightarrow> []
      | Some d \<Rightarrow> warn_if (\<bar>days_between d today\<bar> > 1) Stale_date))"

definition check_confirmed :: "strict_report \<Rightarrow> strict_problem flag list" where
  "check_confirmed r = warn_if (5 \<le> length (st_findings r)
     \<and> list_all (\<lambda>f. vf_validation_status f = Some ''confirmed'') (st_findings r)) All_confirmed"

definition check_vocabulary :: "strict_report \<Rightarrow> strict_problem flag list" where
  "check_vocabulary r =
     (if gate (gate_meta.truncate (st_meta r)) (Some CONSISTENCY_MIN_VERSION) None then
        (let off_vocab = sorted_set (filter (\<lambda>c. c \<noteq> [] \<and> normalize_category c \<notin> set RECOMMENDED_CATEGORIES)
             (List.map_filter f_category (st_findings r))) in
         warn_if (off_vocab \<noteq> []) (Off_vocabulary off_vocab))
      else [])"

definition section_missing :: "strict_report \<Rightarrow> string \<Rightarrow> strict_problem flag list" where
  "section_missing r s = warn_if (s \<notin> set (st_sections r)) (Section_missing s)"

definition strict_checks :: "string \<Rightarrow> date \<Rightarrow> strict_report \<Rightarrow> strict_problem flag list" where
  "strict_checks dump today r =
     check_secrets dump
     @ section_missing r ''dependency_audit''
     @ check_repository (st_meta r)
     @ warn_if (am_profile (st_meta r) = Some ''code''
         \<and> gate (gate_meta.truncate (st_meta r)) (Some DETERMINISTIC_STEPS_MIN_VERSION) None
         \<and> \<not> stm_steps (st_meta r)) Steps_missing
     @ each check_benchmark_text (st_findings r)
     @ section_missing r ''negative_results''
     @ section_missing r ''footer''
     @ warn_if (\<not> st_observations r) Observations_missing
     @ check_measured (st_meta r)
     @ check_peach_rationale r
     @ check_date today (st_meta r)
     @ each check_scored (st_findings r)
     @ check_confirmed r
     @ check_vocabulary r"

section \<open>What the strict checks refuse\<close>

text \<open>
  C10. The strict checks refuse a report for two reasons only: its text carries a secret of a class in
  which a match is near certain, or an informational finding carries a score of seven or more. Every
  other defect, a stale date or missing sections included, leaves a warning.
\<close>

theorem strict_errors_exact:
  "passed (strict_checks dump today r) =
     (list_all (\<lambda>(category, _). category \<notin> HIGH_CONFIDENCE) (scan_text dump)
      \<and> list_all (\<lambda>f. \<not> (lower (vf_severity f) = ''informational''
          \<and> (case stf_cvss f of Some (Some score) \<Rightarrow> 7 \<le> score | _ \<Rightarrow> False))) (st_findings r))"
proof -
  have secrets: "passed (check_secrets dump) = list_all (\<lambda>(category, _). category \<notin> HIGH_CONFIDENCE) (scan_text dump)"
    by (auto simp: check_secrets_def passed_def filter_empty_conv list_all_iff)
  have scored: "passed (check_scored i f) = (\<not> (lower (vf_severity f) = ''informational''
      \<and> (case stf_cvss f of Some (Some score) \<Rightarrow> 7 \<le> score | _ \<Rightarrow> False)))" for i f
    by (auto simp: check_scored_def check_band_def score_of_def finding_sev_def Let_def split: option.splits)
  have rest: "passed (check_benchmark_text i f)" "passed (check_repository m)" "passed (check_measured m)"
    "passed (check_peach_rationale r)" "passed (check_date today m)" "passed (check_confirmed r)"
    "passed (check_vocabulary r)" "passed (section_missing r s)" for i f m s
    by (auto simp: check_benchmark_text_def check_repository_def check_measured_def check_peach_rationale_def
        check_date_def check_confirmed_def check_vocabulary_def section_missing_def Let_def split: option.splits)
  show ?thesis
    by (simp add: strict_checks_def secrets scored rest list_all_length)
qed

section \<open>What the scan of the dump misses\<close>

text \<open>How \<open>json.dumps\<close> writes a text when it keeps the characters beyond ASCII.\<close>

definition dump_char :: "char \<Rightarrow> string" where
  "dump_char c = (if code_in 127 255 c then [c] else esc_char c)"

definition dump_str :: "string \<Rightarrow> string" where
  "dump_str s = CHR 0x22 # concat (map dump_char s) @ [CHR 0x22]"

lemma hex_no_quote: "n < 16 \<Longrightarrow> CHR 0x22 \<noteq> hex_digit n"
proof -
  have "list_all (\<lambda>n. CHR 0x22 \<noteq> hex_digit n) [0..<16]" by code_simp
  moreover assume "n < 16"
  then have "n \<in> set [0..<16]" by simp
  ultimately show ?thesis unfolding list_all_iff by blast
qed

lemma snoc_before:
  assumes "xs @ [q] = a @ d # v" and "d \<noteq> q"
  shows "\<exists>v'. xs = a @ d # v'"
proof (cases v rule: rev_cases)
  case Nil
  then show ?thesis using assms by simp
next
  case (snoc ys y)
  with assms(1) have "xs @ [q] = (a @ d # ys) @ [y]" by simp
  then show ?thesis by (metis append1_eq_conv)
qed

lemma dump_guarded: "guarded (CHR 0x5C) (CHR 0x22) ok (concat (map dump_char s))"
proof (induction s arbitrary: ok)
  case (Cons c s)
  have "guarded (CHR 0x5C) (CHR 0x22) ok (dump_char c)"
  proof (cases "c = CHR 0x22")
    case False
    moreover have "of_char c div 16 < (16 :: nat)" "of_char c mod 16 < (16 :: nat)" by (simp_all add: less_mult_imp_div_less)
    then have "CHR 0x22 \<noteq> hex_digit (of_char c div 16)" "CHR 0x22 \<noteq> hex_digit (of_char c mod 16)"
      using hex_no_quote by blast+
    ultimately have "CHR 0x22 \<notin> set (dump_char c)" by (auto simp: dump_char_def esc_char_def)
    then show ?thesis by (rule guarded_other)
  qed (simp add: dump_char_def esc_char_def code_in_def)
  then show ?case using Cons by (simp add: guarded_append guarded_mono)
qed simp

definition GCP_KEY :: "string \<times> rx \<times> bool" where
  "GCP_KEY = last PATTERNS"

lemma GCP_KEY_in: "GCP_KEY \<in> set PATTERNS" "fst GCP_KEY = ''gcp-sa-key''"
  by (simp_all add: GCP_KEY_def PATTERNS_def)

text \<open>
  The pattern of a service-account key asks for quotes around the name of the field. Inside a text
  every quote is written with a backslash before it, so a key file quoted in the evidence of a
  finding is never found in the dump, although redaction and the scan find it in the text itself.
\<close>

lemma quoted_key_unseen: "new_hits GCP_KEY (dump_str s) = []"
proof -
  obtain rs where rx: "fst (snd GCP_KEY) = seq (lit [CHR 0x22] # lit ''private_key_id'' # lit [CHR 0x22] # blanks # lit '':'' # rs)"
    by (simp add: GCP_KEY_def PATTERNS_def)
  have ok: "rx_ok (fst (snd GCP_KEY))" using bspec [OF patterns_ok(1) [unfolded list_all_iff] GCP_KEY_in(1)] by (simp add: case_prod_unfold)
  have "re_finditer (fst (snd GCP_KEY)) (dump_str s) = []"
  proof (rule ccontr)
    assume "re_finditer (fst (snd GCP_KEY)) (dump_str s) \<noteq> []"
    then obtain m where "m \<in> set (re_finditer (fst (snd GCP_KEY)) (dump_str s))" by (meson last_in_set)
    from finditer_SomeD [OF ok this] obtain u w v where
      hit: "dump_str s = u @ CHR 0x22 # ''private_key_id'' @ CHR 0x22 # w @ CHR '':'' # v"
      unfolding rx by (auto simp: seq_def matches_simps matches_lit)
    then have "concat (map dump_char s) @ [CHR 0x22] = tl (u @ [CHR 0x22]) @ ''private_key_id'' @ CHR 0x22 # w @ CHR '':'' # v"
      by (cases u) (auto simp: dump_str_def)
    then have "concat (map dump_char s) @ [CHR 0x22] = (tl (u @ [CHR 0x22]) @ ''private_key_id'' @ CHR 0x22 # w) @ CHR '':'' # v"
      by simp
    from snoc_before [OF this] obtain v' where
      "concat (map dump_char s) = (tl (u @ [CHR 0x22]) @ ''private_key_id'' @ CHR 0x22 # w) @ CHR '':'' # v'"
      by auto
    then show False using dump_guarded [of True s] by (simp add: guarded_append)
  qed
  then show ?thesis by (simp add: new_hits_def apply_pattern_def case_prod_unfold)
qed

definition key_text :: string where
  "key_text = [CHR 0x22] @ ''private_key_id'' @ [CHR 0x22] @ '': '' @ [CHR 0x22]
     @ ''0123456789abcdef0123456789abcdef01234567'' @ [CHR 0x22]"

lemma key_text_seen: "new_hits GCP_KEY key_text = [(''gcp-sa-key'', ''01234'')]"
  by code_simp

text \<open>The word \<open>reachable\<close> alone counts as the rationale for a downgrade.\<close>

lemma reachable_is_a_rationale: "re_search DOWNGRADE_RATIONALE ''The port is reachable.'' \<noteq> None"
  by code_simp

end
