(* ===== verification/Registry_Products.thy ===== *)
theory Registry_Products
  imports Py_Json Py_Text
begin

text \<open>
  \<open>registry/products.py\<close>: the products, modules and streams of the product registry that a package or a
  repository belongs to, and the security contacts of those modules, each with the field it comes
  from: only the private tracker fields are cleared for embargoed findings. The compiled registry is
  the record \<open>registry\<close>; today is an argument. Reading the cache and printing are left out.
\<close>

section \<open>The registry\<close>

text \<open>A contact field of a module: a list of values, or lists by component.\<close>

datatype contact_field = Names "json list" | By_component "(string \<times> json list) list"

record ps_module =
  mo_fields :: "(string \<times> contact_field) list"
  mo_streams :: "string list"
  mo_supported_from :: "string option"
  mo_supported_until :: "string option"

record ps_product =
  po_name :: "string option"
  po_modules :: "string list"

record ps_component =
  pc_url :: "string option"
  pc_name :: "string option"

record registry =
  rg_products :: "(string \<times> ps_product) list"
  rg_modules :: "(string \<times> ps_module) list"
  rg_streams :: "(string \<times> ps_component list) list"

definition IDENTITY_RE :: rx where
  "IDENTITY_RE = seq [At Bos, Rep 1 (Some 64) True (Cls (\<lambda>c. is_lower c \<or> is_digit c \<or> c \<in> {CHR ''.'', CHR ''_'', CHR ''-''})),
     At Eos]"

definition CONTACT_FIELDS :: "(string \<times> nat \<times> bool) list" where
  "CONTACT_FIELDS = [(''private_tracker_cc'', 1, True), (''private_tracker_cc_component_override'', 1, True),
     (''component_cc'', 2, False), (''default_cc'', 3, False)]"

section \<open>Keys\<close>

definition scheme_rx :: rx where
  "scheme_rx = seq [At Bos, Cls is_lower,
     star (Cls (\<lambda>c. is_lower c \<or> is_digit c \<or> c \<in> {CHR ''+'', CHR ''.'', CHR ''-''})), lit ''://'']"

text \<open>\<open>s.replace(":", "/", 1)\<close>.\<close>

definition fold_colon :: "string \<Rightarrow> string" where
  "fold_colon s = (case cut CHR '':'' s of (a, None) \<Rightarrow> a | (a, Some b) \<Rightarrow> a @ ''/'' @ b)"

definition norm_repo_url :: "string option \<Rightarrow> string" where
  "norm_repo_url url =
     (let u = lower (rstrip_with (\<lambda>c. c = CHR ''/'') (strip (or_str url [])));
          u = re_sub (seq [lit ''.git'', At Eos]) (\<lambda>_. []) u in
      if startswith u ''git@'' then fold_colon (drop 4 u) else re_sub scheme_rx (\<lambda>_. []) u)"

definition slugify :: "string option \<Rightarrow> string" where
  "slugify s = filter (\<lambda>c. is_lower c \<or> is_digit c) (lower (or_str s []))"

section \<open>Indexes\<close>

record indexes =
  ix_registry :: registry
  ix_module_to_products :: "(string \<times> string list) list"
  ix_stream_to_modules :: "(string \<times> string list) list"
  ix_repo_to_streams :: "(string \<times> string list) list"
  ix_repo_component :: "(string \<times> string option list) list"
  ix_slug_to_product :: "(string \<times> string) list"

text \<open>\<open>d.setdefault(k, []).append(v)\<close> over pairs.\<close>

definition gather :: "(string \<times> 'v) list \<Rightarrow> (string \<times> 'v list) list" where
  "gather kvs = map (\<lambda>(k, ps). (k, map snd ps)) (group_by fst kvs)"

definition repo_rows :: "registry \<Rightarrow> (string \<times> string \<times> string option) list" where
  "repo_rows doc = concat (map (\<lambda>(sid, comps). List.map_filter (\<lambda>c.
     if truthy (pc_url c) then Some (norm_repo_url (pc_url c), sid, pc_name c) else None) comps) (rg_streams doc))"

definition build_indexes :: "registry \<Rightarrow> indexes" where
  "build_indexes doc = \<lparr>ix_registry = doc,
     ix_module_to_products = gather (concat (map (\<lambda>(pid, p). map (\<lambda>mid. (mid, pid)) (po_modules p)) (rg_products doc))),
     ix_stream_to_modules = gather (concat (map (\<lambda>(mid, m). map (\<lambda>sid. (sid, mid)) (mo_streams m)) (rg_modules doc))),
     ix_repo_to_streams = gather (map (\<lambda>(key, sid, name). (key, sid)) (repo_rows doc)),
     ix_repo_component = gather (map (\<lambda>(key, sid, name). (key, name)) (repo_rows doc)),
     ix_slug_to_product = fold (\<lambda>(pid, p). fold (\<lambda>cand d. (let s = slugify cand in
         if s \<noteq> [] \<and> map_of d s = None then AList.update s pid d else d)) [Some pid, po_name p]) (rg_products doc) []\<rparr>"

section \<open>Contacts\<close>

definition raw_values :: "ps_module \<Rightarrow> string \<Rightarrow> (json \<times> string option) list" where
  "raw_values m field = (case map_of (mo_fields m) field of
       None \<Rightarrow> []
     | Some (Names vs) \<Rightarrow> map (\<lambda>v. (v, None)) vs
     | Some (By_component cs) \<Rightarrow> concat (map (\<lambda>(cmp, vs). map (\<lambda>v. (v, Some cmp)) vs) cs))"

record contact =
  ct_kerberos :: string
  ct_field :: string
  ct_tier :: nat
  ct_embargo :: bool
  ct_module :: string
  ct_component :: "string option"

record dropped_contact =
  dc_value :: string
  dc_field :: string
  dc_module :: string
  dc_alias :: bool

definition ident_of :: "string \<Rightarrow> string" where
  "ident_of value = strip (fst (cut CHR ''@'' value))"

type_synonym contact_state = "(string \<times> contact) list \<times> dropped_contact list"

definition take_contact :: "string \<Rightarrow> string \<times> nat \<times> bool \<Rightarrow> json \<times> string option \<Rightarrow> contact_state \<Rightarrow> contact_state" where
  "take_contact mid ftier vc st = (case (ftier, vc, st) of ((field, tier, embargo), (value, cmp), (best, dropped)) \<Rightarrow>
     (case value of
        JStr v \<Rightarrow>
          (let ident = ident_of v in
           if re_match IDENTITY_RE ident = None then
             (best, dropped @ [\<lparr>dc_value = v, dc_field = field, dc_module = mid, dc_alias = startswith v ''+''\<rparr>])
           else if (case map_of best ident of None \<Rightarrow> True | Some prev \<Rightarrow> tier < ct_tier prev) then
             (AList.update ident \<lparr>ct_kerberos = ident, ct_field = field, ct_tier = tier, ct_embargo = embargo,
                ct_module = mid, ct_component = (if truthy cmp then cmp else None)\<rparr> best, dropped)
           else (best, dropped))
      | _ \<Rightarrow> st))"

definition empty_module :: ps_module where
  "empty_module = \<lparr>mo_fields = [], mo_streams = [], mo_supported_from = None, mo_supported_until = None\<rparr>"

definition module_of :: "(string \<times> ps_module) list \<Rightarrow> string \<Rightarrow> ps_module" where
  "module_of modules mid = (case map_of modules mid of None \<Rightarrow> empty_module | Some m \<Rightarrow> m)"

definition collect_contacts :: "(string \<times> ps_module) list \<Rightarrow> string list \<Rightarrow> contact list \<times> dropped_contact list" where
  "collect_contacts modules module_ids =
     (case fold (\<lambda>mid. fold (\<lambda>ftier. fold (take_contact mid ftier) (raw_values (module_of modules mid) (fst ftier))) CONTACT_FIELDS)
         module_ids ([], []) of
       (best, dropped) \<Rightarrow> (sort_key (\<lambda>c. (ct_tier c, ct_kerberos c)) (map snd best), dropped))"

section \<open>Lifecycle\<close>

record lifecycle =
  lc_from :: "string option"
  lc_until :: "string option"
  lc_state :: string

definition lifecycle_of :: "string \<Rightarrow> (string \<times> ps_module) list \<Rightarrow> string list \<Rightarrow> lifecycle" where
  "lifecycle_of today modules module_ids =
     (let ms = map (module_of modules) module_ids;
          froms = List.map_filter mo_supported_from (filter (\<lambda>m. truthy (mo_supported_from m)) ms);
          untils = List.map_filter mo_supported_until (filter (\<lambda>m. truthy (mo_supported_until m)) ms);
          unknown_until = list_ex (\<lambda>m. \<not> truthy (mo_supported_until m)) ms;
          since = (case froms of [] \<Rightarrow> None | f # fs \<Rightarrow> Some (fold min fs f));
          until = (if unknown_until then None else (case untils of [] \<Rightarrow> None | u # us \<Rightarrow> Some (fold max us u))) in
      \<lparr>lc_from = since, lc_until = until,
       lc_state = (if (case since of None \<Rightarrow> False | Some f \<Rightarrow> f > today) then ''unreleased''
         else if (case until of None \<Rightarrow> False | Some u \<Rightarrow> u < today) then ''eol''
         else if froms \<noteq> [] \<or> untils \<noteq> [] \<or> unknown_until then ''supported'' else ''unknown'')\<rparr>)"

section \<open>Resolving\<close>

datatype evidence =
    By_url "string option" "string list" "string list"
  | By_product string
  | By_mapping string string
  | By_slug string string
  | Not_in_registry string
  | Unmatched "string option"

record owner_match =
  bd_tier :: string
  bd_products :: "string list"
  bd_modules :: "string list"
  bd_lifecycle :: lifecycle
  bd_contacts :: "contact list"
  bd_embargo_cc :: string
  bd_dropped :: "dropped_contact list"
  bd_evidence :: evidence

definition make_bundle :: "string \<Rightarrow> indexes \<Rightarrow> string \<Rightarrow> string list \<Rightarrow> string list \<Rightarrow> evidence \<Rightarrow> owner_match" where
  "make_bundle today ix tier product_ids module_ids evid =
     (let mids = sort (remdups module_ids); cd = collect_contacts (rg_modules (ix_registry ix)) mids in
      \<lparr>bd_tier = tier, bd_products = sort (remdups product_ids), bd_modules = mids,
       bd_lifecycle = lifecycle_of today (rg_modules (ix_registry ix)) mids, bd_contacts = fst cd,
       bd_embargo_cc = (if list_ex ct_embargo (fst cd) then ''present'' else ''absent''),
       bd_dropped = snd cd, bd_evidence = evid\<rparr>)"

definition no_match :: "string \<Rightarrow> indexes \<Rightarrow> evidence \<Rightarrow> owner_match" where
  "no_match today ix evid = \<lparr>bd_tier = ''none'', bd_products = [], bd_modules = [],
     bd_lifecycle = lifecycle_of today (rg_modules (ix_registry ix)) [], bd_contacts = [], bd_embargo_cc = ''absent'',
     bd_dropped = [], bd_evidence = evid\<rparr>"

definition or_list :: "'a list option \<Rightarrow> 'a list" where
  "or_list x = (case x of None \<Rightarrow> [] | Some l \<Rightarrow> l)"

definition resolve_repo_url :: "string \<Rightarrow> indexes \<Rightarrow> string option \<Rightarrow> owner_match option" where
  "resolve_repo_url today ix url =
     (let key = norm_repo_url url; streams = or_list (map_of (ix_repo_to_streams ix) key) in
      if streams = [] then None
      else
        (let mids = concat (map (\<lambda>sid. or_list (map_of (ix_stream_to_modules ix) sid)) streams);
             pids = concat (map (\<lambda>mid. or_list (map_of (ix_module_to_products ix) mid)) mids) in
         Some (make_bundle today ix ''repo-url'' pids mids (By_url url (sort (remdups streams))
           (sort (remdups (List.map_filter id (filter truthy (or_list (map_of (ix_repo_component ix) key))))))))))"

definition resolve_product :: "string \<Rightarrow> indexes \<Rightarrow> string \<Rightarrow> string \<Rightarrow> (string \<Rightarrow> evidence) \<Rightarrow> owner_match option" where
  "resolve_product today ix pid tier evid =
     (case map_of (rg_products (ix_registry ix)) pid of
        None \<Rightarrow> None
      | Some p \<Rightarrow> Some (make_bundle today ix tier [pid] (po_modules p) (evid pid)))"

definition package_base :: "string \<Rightarrow> string" where
  "package_base name = re_sub (seq [lit ''-findings'', At Eos]) (\<lambda>_. []) name"

text \<open>A mapping to an empty id is no mapping.\<close>

definition mapped_id :: "(string \<times> string) list \<Rightarrow> string \<Rightarrow> string \<Rightarrow> string option" where
  "mapped_id mapping a b = (if truthy (map_of mapping a) then map_of mapping a else
     if truthy (map_of mapping b) then map_of mapping b else None)"

definition resolve_package :: "string \<Rightarrow> indexes \<Rightarrow> string \<Rightarrow> (string \<times> string) list \<Rightarrow> owner_match" where
  "resolve_package today ix name mapping =
     (let b = package_base name in
      case mapped_id mapping b name of
        Some pid \<Rightarrow> (case resolve_product today ix pid ''mapped'' (\<lambda>pid. By_mapping pid b) of
            Some got \<Rightarrow> got | None \<Rightarrow> no_match today ix (Not_in_registry pid))
      | None \<Rightarrow> (case map_of (ix_slug_to_product ix) (slugify (Some b)) of
            None \<Rightarrow> no_match today ix (Unmatched (Some b))
          | Some pid \<Rightarrow>
              if pid = [] then no_match today ix (Unmatched (Some b))
              else (case resolve_product today ix pid ''slug'' (\<lambda>pid. By_slug pid (slugify (Some b))) of
                Some got \<Rightarrow> got | None \<Rightarrow> no_match today ix (Unmatched (Some b)))))"

definition resolve_url_query :: "string \<Rightarrow> indexes \<Rightarrow> (string \<times> string) list \<Rightarrow> string \<Rightarrow> owner_match" where
  "resolve_url_query today ix mapping url =
     (case (case mapped_id mapping url (norm_repo_url (Some url)) of
            None \<Rightarrow> None | Some pid \<Rightarrow> resolve_product today ix pid ''mapped'' By_product) of
        Some got \<Rightarrow> got
      | None \<Rightarrow> (case resolve_repo_url today ix (Some url) of
            Some got \<Rightarrow> got | None \<Rightarrow> no_match today ix (Unmatched (Some url))))"

definition resolve_product_query :: "string \<Rightarrow> indexes \<Rightarrow> string \<Rightarrow> owner_match" where
  "resolve_product_query today ix pid = (case resolve_product today ix pid ''mapped'' By_product of
     Some got \<Rightarrow> got | None \<Rightarrow> no_match today ix (Not_in_registry pid))"

text \<open>The warning about dropped contacts: more than a fifth of all values.\<close>

definition drop_rate_warns :: "owner_match list \<Rightarrow> bool" where
  "drop_rate_warns results =
     (let kept = sum_list (map (\<lambda>r. length (bd_contacts r)) results);
          lost = sum_list (map (\<lambda>r. length (bd_dropped r)) results) in
      lost \<noteq> 0 \<and> 5 * lost > kept + lost)"

section \<open>Who is cleared\<close>

text \<open>An id is offered by a field when some module of the match lists a well-formed value for it there.\<close>

definition offered :: "(string \<times> ps_module) list \<Rightarrow> string list \<Rightarrow> string \<Rightarrow> string \<Rightarrow> bool" where
  "offered modules mids ident field \<longleftrightarrow> re_match IDENTITY_RE ident \<noteq> None
     \<and> (\<exists>mid \<in> set mids. \<exists>v cmp. (JStr v, cmp) \<in> set (raw_values (module_of modules mid) field) \<and> ident_of v = ident)"

definition contact_items :: "(string \<times> ps_module) list \<Rightarrow> string list \<Rightarrow> (string \<times> (string \<times> nat \<times> bool) \<times> json \<times> string option) list" where
  "contact_items modules mids = concat (map (\<lambda>mid. concat (map (\<lambda>ft.
     map (\<lambda>vc. (mid, ft, vc)) (raw_values (module_of modules mid) (fst ft))) CONTACT_FIELDS)) mids)"

definition take_item :: "string \<times> (string \<times> nat \<times> bool) \<times> json \<times> string option \<Rightarrow> contact_state \<Rightarrow> contact_state" where
  "take_item i = (case i of (mid, ft, vc) \<Rightarrow> take_contact mid ft vc)"

lemma fold_concat_map: "fold f (concat (map g xs)) = fold (\<lambda>x. fold f (g x)) xs"
  by (induction xs) simp_all

lemma collect_items:
  "fold (\<lambda>mid. fold (\<lambda>ftier. fold (take_contact mid ftier) (raw_values (module_of modules mid) (fst ftier))) CONTACT_FIELDS) mids st
     = fold take_item (contact_items modules mids) st"
  by (simp add: contact_items_def fold_concat_map fold_map comp_def take_item_def)

text \<open>The ids of the items, and what holds of the table after some of them.\<close>

definition gives :: "string \<times> (string \<times> nat \<times> bool) \<times> json \<times> string option \<Rightarrow> string \<Rightarrow> bool" where
  "gives i ident \<longleftrightarrow> (case i of (mid, ft, (JStr v, cmp)) \<Rightarrow> ident_of v = ident \<and> re_match IDENTITY_RE ident \<noteq> None | _ \<Rightarrow> False)"

definition best_for :: "(string \<times> (string \<times> nat \<times> bool) \<times> json \<times> string option) list \<Rightarrow> string \<Rightarrow> contact option \<Rightarrow> bool" where
  "best_for js x found = (case found of
       None \<Rightarrow> \<not> list_ex (\<lambda>i. gives i x) js
     | Some c \<Rightarrow> ct_kerberos c = x
         \<and> list_ex (\<lambda>i. gives i x \<and> fst (snd i) = (ct_field c, ct_tier c, ct_embargo c) \<and> fst i = ct_module c) js
         \<and> list_all (\<lambda>i. gives i x \<longrightarrow> ct_tier c \<le> fst (snd (fst (snd i)))) js)"

definition best_ok :: "(string \<times> (string \<times> nat \<times> bool) \<times> json \<times> string option) list \<Rightarrow> (string \<times> contact) list \<Rightarrow> bool" where
  "best_ok js best \<longleftrightarrow> distinct (map fst best) \<and> (\<forall>x. best_for js x (map_of best x))"

lemma best_for_skip: "best_for js x c \<Longrightarrow> \<not> gives i x \<Longrightarrow> best_for (js @ [i]) x c"
  by (auto simp: best_for_def split: option.splits)

lemma best_for_take:
  assumes "best_for js x found" and "gives i x" and "fst (snd i) = (ct_field c, ct_tier c, ct_embargo c)"
    and "fst i = ct_module c" "ct_kerberos c = x"
  shows "best_for (js @ [i]) x
    (if (case found of None \<Rightarrow> True | Some prev \<Rightarrow> ct_tier c < ct_tier prev) then Some c else found)"
proof (cases found)
  case None
  then show ?thesis using assms by (auto simp: best_for_def list_all_iff list_ex_iff)
next
  case (Some p)
  show ?thesis
  proof (cases "ct_tier c < ct_tier p")
    case True
    then have "list_all (\<lambda>i. gives i x \<longrightarrow> ct_tier c \<le> fst (snd (fst (snd i)))) js"
      using assms(1) Some by (force simp: best_for_def list_all_iff)
    then show ?thesis using assms Some True by (auto simp: best_for_def)
  next
    case False
    then show ?thesis using assms Some by (auto simp: best_for_def)
  qed
qed

lemma best_ok_item:
  assumes "best_ok js (fst st)"
  shows "best_ok (js @ [i]) (fst (take_item i st))"
proof -
  obtain mid field tier embargo val cmp where i: "i = (mid, (field, tier, embargo), (val, cmp))" by (metis surj_pair)
  obtain best dropped where st: "st = (best, dropped)" by fastforce
  have d: "distinct (map fst best)" and ok: "best_for js x (map_of best x)" for x
    using assms by (simp_all add: best_ok_def st)
  show ?thesis
  proof (cases "\<exists>v. val = JStr v \<and> re_match IDENTITY_RE (ident_of v) \<noteq> None")
    case False
    then have "\<not> gives i x" for x by (auto simp: gives_def i split: json.splits)
    moreover have "fst (take_item i st) = best"
      using False by (auto simp: take_item_def take_contact_def i st Let_def split: json.splits)
    ultimately show ?thesis using best_for_skip ok d by (simp add: best_ok_def)
  next
    case True
    then obtain v where v: "val = JStr v" "re_match IDENTITY_RE (ident_of v) \<noteq> None" by blast
    define c where "c = \<lparr>ct_kerberos = ident_of v, ct_field = field, ct_tier = tier, ct_embargo = embargo, ct_module = mid,
      ct_component = (if truthy cmp then cmp else None)\<rparr>"
    let ?b = "if (case map_of best (ident_of v) of None \<Rightarrow> True | Some prev \<Rightarrow> tier < ct_tier prev)
       then AList.update (ident_of v) c best else best"
    have taken: "fst (take_item i st) = ?b"
      using v by (auto simp: take_item_def take_contact_def i st Let_def c_def)
    have gives: "gives i x = (x = ident_of v)" for x using v by (auto simp: gives_def i)
    have [simp]: "ct_tier c = tier" by (simp add: c_def)
    have lookup: "map_of ?b x = (if x = ident_of v
        then (if (case map_of best x of None \<Rightarrow> True | Some prev \<Rightarrow> ct_tier c < ct_tier prev) then Some c else map_of best x)
        else map_of best x)" for x
      by (simp add: update_conv' cong: option.case_cong)
    have "best_for (js @ [i]) x (map_of ?b x)" for x
    proof (cases "x = ident_of v")
      case True
      then show ?thesis unfolding lookup using best_for_take [OF ok [of x], of i c] gives [of x]
        by (simp add: i c_def)
    next
      case False
      then show ?thesis unfolding lookup using best_for_skip [OF ok [of x]] gives [of x] by simp
    qed
    moreover have "distinct (map fst ?b)" using d by (simp add: distinct_update)
    ultimately show ?thesis unfolding taken best_ok_def by blast
  qed
qed

lemma best_ok_items: "best_ok js (fst st) \<Longrightarrow> best_ok (js @ ks) (fst (fold take_item ks st))"
proof (induction ks arbitrary: js st)
  case (Cons k ks)
  from Cons.IH [OF best_ok_item [OF Cons.prems]] show ?case by simp
qed simp

lemma in_contact_items: "(mid, ft, vc) \<in> set (contact_items modules mids) \<longleftrightarrow>
    mid \<in> set mids \<and> ft \<in> set CONTACT_FIELDS \<and> vc \<in> set (raw_values (module_of modules mid) (fst ft))"
  by (auto simp: contact_items_def)

lemma gives_iff: "gives (mid, ft, vc) x \<longleftrightarrow>
    re_match IDENTITY_RE x \<noteq> None \<and> (\<exists>v cmp. vc = (JStr v, cmp) \<and> ident_of v = x)"
  by (cases vc; cases "fst vc") (auto simp: gives_def)

lemma contact_items_gives:
  "(\<exists>i \<in> set (contact_items modules mids). gives i ident \<and> fst (snd i) = ft) \<longleftrightarrow>
     ft \<in> set CONTACT_FIELDS \<and> offered modules mids ident (fst ft)"
proof -
  have "(\<exists>i \<in> set (contact_items modules mids). gives i ident \<and> fst (snd i) = ft) \<longleftrightarrow>
      (\<exists>mid vc. (mid, ft, vc) \<in> set (contact_items modules mids) \<and> gives (mid, ft, vc) ident)"
    by (metis fst_conv snd_conv prod.collapse)
  also have "\<dots> \<longleftrightarrow> ft \<in> set CONTACT_FIELDS \<and> offered modules mids ident (fst ft)"
    unfolding in_contact_items gives_iff offered_def by blast
  finally show ?thesis .
qed

lemma cleared_tier: "(f, t, e) \<in> set CONTACT_FIELDS \<Longrightarrow> 1 \<le> t \<and> (e \<longleftrightarrow> t = 1)
    \<and> (t = 1 \<longrightarrow> f \<in> {''private_tracker_cc'', ''private_tracker_cc_component_override''})"
  by (simp add: CONTACT_FIELDS_def) (elim disjE conjE; hypsubst; simp)

text \<open>
  What a list of contacts says of the modules of a match: nobody twice, everybody any of the fields
  offers, and the mark of clearance on exactly those a private tracker field offers.
\<close>

definition cleared_exactly :: "(string \<times> ps_module) list \<Rightarrow> owner_match \<Rightarrow> bool" where
  "cleared_exactly modules b \<longleftrightarrow> distinct (map ct_kerberos (bd_contacts b))
     \<and> (\<forall>ident. ident \<in> ct_kerberos ` set (bd_contacts b) \<longleftrightarrow>
          list_ex (\<lambda>ft. offered modules (bd_modules b) ident (fst ft)) CONTACT_FIELDS)
     \<and> list_all (\<lambda>c. ct_embargo c = list_ex (offered modules (bd_modules b) (ct_kerberos c))
          [''private_tracker_cc'', ''private_tracker_cc_component_override'']) (bd_contacts b)
     \<and> bd_embargo_cc b = (if list_ex ct_embargo (bd_contacts b) then ''present'' else ''absent'')"

lemma collected:
  fixes modules mids
  defines "cs \<equiv> fst (collect_contacts modules mids)"
  shows "distinct (map ct_kerberos cs)"
    and "ident \<in> ct_kerberos ` set cs \<longleftrightarrow> list_ex (\<lambda>ft. offered modules mids ident (fst ft)) CONTACT_FIELDS"
    and "c \<in> set cs \<Longrightarrow> ct_embargo c = list_ex (offered modules mids (ct_kerberos c))
          [''private_tracker_cc'', ''private_tracker_cc_component_override'']"
proof -
  define best where "best = fst (fold take_item (contact_items modules mids) ([], []))"
  have "best_ok [] []" by (simp add: best_ok_def best_for_def)
  then have "best_ok (contact_items modules mids) best"
    using best_ok_items [of "[]" "([], [])" "contact_items modules mids"] by (simp add: best_def)
  then have d: "distinct (map fst best)" and ok: "best_for (contact_items modules mids) x (map_of best x)" for x
    by (simp_all add: best_ok_def)
  have cs: "cs = sort_key (\<lambda>c. (ct_tier c, ct_kerberos c)) (map snd best)"
    by (simp add: cs_def collect_contacts_def collect_items best_def case_prod_unfold)
  have key: "ct_kerberos c = x \<and> map_of best x = Some c" if "(x, c) \<in> set best" for x c
    using ok [of x] that d by (simp add: best_for_def)
  then have keys: "map ct_kerberos (map snd best) = map fst best" by auto
  have "mset (map ct_kerberos cs) = mset (map fst best)" unfolding cs keys [symmetric] by (simp add: multiset.map_comp)
  then show "distinct (map ct_kerberos cs)" using d by (metis mset_eq_imp_distinct_iff)
  have ids: "ct_kerberos ` set cs = fst ` set best" unfolding cs set_sort by (metis keys set_map)
  have gave: "list_ex (\<lambda>i. gives i x) (contact_items modules mids) \<longleftrightarrow> list_ex (\<lambda>ft. offered modules mids x (fst ft)) CONTACT_FIELDS" for x
    using contact_items_gives [of modules mids x] unfolding list_ex_iff by blast
  show "ident \<in> ct_kerberos ` set cs \<longleftrightarrow> list_ex (\<lambda>ft. offered modules mids ident (fst ft)) CONTACT_FIELDS"
  proof (cases "map_of best ident")
    case None
    then have "ident \<notin> fst ` set best" by (simp add: map_of_eq_None_iff)
    moreover have "\<not> list_ex (\<lambda>i. gives i ident) (contact_items modules mids)"
      using ok [of ident] None by (simp add: best_for_def)
    ultimately show ?thesis using ids gave by blast
  next
    case (Some c)
    then have "ident \<in> fst ` set best" by (force dest: map_of_SomeD)
    moreover have "list_ex (\<lambda>i. gives i ident) (contact_items modules mids)"
      using ok [of ident] Some by (auto simp: list_ex_iff best_for_def)
    ultimately show ?thesis using ids gave by blast
  qed
  show "ct_embargo c = list_ex (offered modules mids (ct_kerberos c))
          [''private_tracker_cc'', ''private_tracker_cc_component_override'']" if c: "c \<in> set cs"
  proof -
    from c obtain x where "(x, c) \<in> set best" by (auto simp: cs)
    then have "map_of best (ct_kerberos c) = Some c" using key by blast
    with ok [of "ct_kerberos c"] have some: "list_ex (\<lambda>i. gives i (ct_kerberos c)
          \<and> fst (snd i) = (ct_field c, ct_tier c, ct_embargo c) \<and> fst i = ct_module c) (contact_items modules mids)"
      and least: "list_all (\<lambda>i. gives i (ct_kerberos c) \<longrightarrow> ct_tier c \<le> fst (snd (fst (snd i)))) (contact_items modules mids)"
      by (simp_all add: best_for_def)
    have own: "(ct_field c, ct_tier c, ct_embargo c) \<in> set CONTACT_FIELDS \<and> offered modules mids (ct_kerberos c) (ct_field c)"
      using contact_items_gives [of modules mids "ct_kerberos c" "(ct_field c, ct_tier c, ct_embargo c)"] some
      by (auto simp: list_ex_iff)
    note tier = cleared_tier [OF conjunct1 [OF own]]
    have tracked: "ct_tier c = 1" if "offered modules mids (ct_kerberos c) f" "(f, 1, True) \<in> set CONTACT_FIELDS" for f
    proof -
      have "\<exists>i \<in> set (contact_items modules mids). gives i (ct_kerberos c) \<and> fst (snd i) = (f, 1, True)"
        using contact_items_gives [of modules mids "ct_kerberos c" "(f, 1, True)"] that by simp
      with least have "ct_tier c \<le> 1" by (force simp: list_all_iff)
      with tier show ?thesis by simp
    qed
    have p: "(''private_tracker_cc'', 1, True) \<in> set CONTACT_FIELDS"
      "(''private_tracker_cc_component_override'', 1, True) \<in> set CONTACT_FIELDS" by (simp_all add: CONTACT_FIELDS_def)
    show ?thesis
    proof (cases "ct_tier c = 1")
      case True
      then have "ct_field c \<in> {''private_tracker_cc'', ''private_tracker_cc_component_override''}" "ct_embargo c"
        using tier by blast+
      then show ?thesis using own by auto
    next
      case False
      then show ?thesis using tier tracked p by auto
    qed
  qed
qed

lemma bundle_cleared: "cleared_exactly (rg_modules (ix_registry ix)) (make_bundle today ix tier pids mids evid)"
  unfolding cleared_exactly_def make_bundle_def Let_def owner_match.simps list_all_iff
  using collected by blast

lemma no_match_cleared: "cleared_exactly modules (no_match today ix evid)"
  by (simp add: cleared_exactly_def no_match_def offered_def list_ex_iff)

text \<open>
  C4. Only a private tracker field clears a contact for embargoed findings. Whatever a package, a
  repository or a product resolves to, the contacts are the ids its modules offer, each once, and one is
  marked as cleared exactly when a private tracker field of those modules offers it, so a public list never clears anybody and
  being on one as well never takes the mark away.
\<close>

theorem embargo_clearance_exact:
  "cleared_exactly (rg_modules doc) (resolve_package today (build_indexes doc) name mapping)
   \<and> cleared_exactly (rg_modules doc) (resolve_url_query today (build_indexes doc) mapping url)
   \<and> cleared_exactly (rg_modules doc) (resolve_product_query today (build_indexes doc) pid)"
proof -
  let ?ix = "build_indexes doc"
  have m: "rg_modules doc = rg_modules (ix_registry ?ix)" by (simp add: build_indexes_def)
  have p: "cleared_exactly (rg_modules doc) b" if "resolve_product today ?ix q tier evid = Some b" for q tier evid b
    using that unfolding m by (auto simp: resolve_product_def bundle_cleared split: option.splits)
  have u: "cleared_exactly (rg_modules doc) b" if "resolve_repo_url today ?ix v = Some b" for v b
    using that unfolding m by (auto simp: resolve_repo_url_def Let_def bundle_cleared split: if_splits)
  show ?thesis
    by (auto simp: resolve_package_def resolve_url_query_def resolve_product_query_def Let_def no_match_cleared
        split: option.splits dest: p u)
qed

text \<open>Two spellings of one remote that get different keys: the user part is only taken off without a scheme.\<close>

lemma ssh_scheme_keeps_user:
  "norm_repo_url (Some ''git@host.org:o/r.git'') = ''host.org/o/r''"
  "norm_repo_url (Some ''ssh://git@host.org/o/r.git'') = ''git@host.org/o/r''"
  by code_simp+

end
