(* ===== verification/Sweep_Mining.thy ===== *)
theory Sweep_Mining
  imports Py_Text "HOL-Library.Multiset"
begin

text \<open>
  \<open>sweep/mining.py\<close>: the confirmed findings of the ledgers as material for rules, clustered by weakness
  and language and matched against the rule pack, with the rollup per language, the precision per rule
  and the worklist. A report that cannot be read is \<open>None\<close>; the parsed rule files are an argument.
  Rounding the precision, writing the files and the Markdown are left out.
\<close>

section \<open>Languages\<close>

definition EXT_LANG :: "(string \<times> string) list" where
  "EXT_LANG = [(''.go'', ''go''), (''.py'', ''python''), (''.ts'', ''typescript''), (''.tsx'', ''typescript''),
     (''.js'', ''javascript''), (''.jsx'', ''javascript''), (''.java'', ''java''), (''.rb'', ''ruby''), (''.c'', ''c''),
     (''.h'', ''c''), (''.cpp'', ''cpp''), (''.rs'', ''rust''), (''.sh'', ''bash''), (''.yaml'', ''yaml''), (''.yml'', ''yaml''),
     (''.php'', ''php''), (''.cc'', ''cpp''), (''.cxx'', ''cpp''), (''.hpp'', ''cpp''), (''.hh'', ''cpp''), (''.cs'', ''csharp'')]"

definition CONFIG_EXTS :: "string list" where
  "CONFIG_EXTS = [''.yaml'', ''.yml'']"

definition RULEABLE_LANGS :: "string list" where
  "RULEABLE_LANGS = [''go'', ''python'', ''typescript'', ''javascript'', ''java'', ''ruby'', ''c'', ''cpp'', ''csharp'', ''rust'',
     ''bash'', ''php'']"

definition PACK_DIR_FOR_LANG :: "(string \<times> string) list" where
  "PACK_DIR_FOR_LANG = [(''javascript'', ''typescript'')]"

definition path_ext :: "string \<Rightarrow> string" where
  "path_ext p = lower (path_suffix (path_name p))"

definition langs_of :: "bool \<Rightarrow> string list \<Rightarrow> string list" where
  "langs_of config locations = List.map_filter (\<lambda>p.
     case map_of EXT_LANG (path_ext p) of
       None \<Rightarrow> None
     | Some l \<Rightarrow> if (path_ext p \<in> set CONFIG_EXTS) = config then Some l else None) locations"

definition dominant :: "string list \<Rightarrow> string option" where
  "dominant tier = (case tier of [] \<Rightarrow> None
     | l # ls \<Rightarrow> Some (max_by (\<lambda>x. (count_list tier x, - int (index_of x tier))) l ls))"

definition guess_language :: "string list \<Rightarrow> string" where
  "guess_language locations =
     (case dominant (langs_of False locations) of
        Some l \<Rightarrow> l
      | None \<Rightarrow> (case dominant (langs_of True locations) of Some l \<Rightarrow> l | None \<Rightarrow> ''unknown''))"

section \<open>The corpus of confirmed findings\<close>

record ledger_finding =
  lf_id :: "string option"
  lf_validity :: "string option"
  lf_resolution :: "string option"
  lf_cwes :: "string list"
  lf_category :: "string option"
  lf_severity :: "string option"
  lf_paths :: "string list"
  lf_title :: "string option"
  lf_code :: "string option"

record ledger_doc =
  ld_repository :: "string option"
  ld_commit :: "string option"
  ld_findings :: "ledger_finding list"

text \<open>A cumulative report below the root: its path, the name of its directory, whether it is a link.\<close>

record ledger_file =
  lr_path :: string
  lr_dir :: string
  lr_link :: bool
  lr_doc :: "ledger_doc option"

record tp_row =
  tp_repo :: string
  tp_commit :: "string option"
  tp_report :: string
  tp_finding_id :: string
  tp_cwe :: string
  tp_cwes :: "string list"
  tp_category :: "string option"
  tp_severity :: "string option"
  tp_language :: string
  tp_resolution :: "string option"
  tp_locations :: "string list"
  tp_title :: string
  tp_evidence :: string

definition tp_of :: "ledger_file \<Rightarrow> ledger_doc \<Rightarrow> ledger_finding \<Rightarrow> tp_row" where
  "tp_of r d f = (let cwes = map upper (lf_cwes f) in
     \<lparr>tp_repo = or_str (ld_repository d) (lr_dir r), tp_commit = ld_commit d, tp_report = lr_path r,
      tp_finding_id = (case lf_id f of None \<Rightarrow> ''?'' | Some i \<Rightarrow> i),
      tp_cwe = (case cwes of [] \<Rightarrow> ''CWE-?'' | c # _ \<Rightarrow> c), tp_cwes = cwes, tp_category = lf_category f,
      tp_severity = lf_severity f, tp_language = guess_language (lf_paths f), tp_resolution = lf_resolution f,
      tp_locations = take 5 (lf_paths f), tp_title = take 160 (case lf_title f of None \<Rightarrow> [] | Some t \<Rightarrow> t),
      tp_evidence = take 400 (case lf_code f of None \<Rightarrow> [] | Some t \<Rightarrow> t)\<rparr>)"

definition mine_corpus :: "ledger_file list \<Rightarrow> tp_row list" where
  "mine_corpus files = concat (map (\<lambda>r.
     if lr_link r then [] else
       (case lr_doc r of
          None \<Rightarrow> []
        | Some d \<Rightarrow> map (tp_of r d) (filter (\<lambda>f. lf_validity f = Some ''confirmed'') (ld_findings d)))) files)"

section \<open>The rule pack\<close>

datatype cwe_meta = No_cwe | One_cwe string | Cwe_list "string list"

record rule_src =
  rs_id :: "string option"
  rs_languages :: "string list"
  rs_cwe :: cwe_meta

record pack_rule =
  pr_id :: string
  pr_languages :: "string list"
  pr_cwes :: "string list"

definition pack_rule_of :: "rule_src \<Rightarrow> pack_rule" where
  "pack_rule_of r = \<lparr>pr_id = (case rs_id r of None \<Rightarrow> ''?'' | Some i \<Rightarrow> i), pr_languages = map lower (rs_languages r),
     pr_cwes = map upper (case rs_cwe r of No_cwe \<Rightarrow> [] | One_cwe c \<Rightarrow> if c = [] then [] else [c] | Cwe_list cs \<Rightarrow> cs)\<rparr>"

text \<open>The rules of each file of the pack in the order of their paths, \<open>None\<close> for YAML that does not parse.\<close>

definition load_pack_rules :: "rule_src list option list \<Rightarrow> pack_rule list" where
  "load_pack_rules docs = concat (map (\<lambda>d. case d of None \<Rightarrow> [] | Some rs \<Rightarrow> map pack_rule_of rs) docs)"

text \<open>The texts of the files in a directory of the pack, \<open>None\<close> when there is no such directory.\<close>

definition pack_rule_count :: "(string \<Rightarrow> string option list option) \<Rightarrow> string \<Rightarrow> nat" where
  "pack_rule_count pack language =
     (case pack (case map_of PACK_DIR_FOR_LANG language of None \<Rightarrow> language | Some d \<Rightarrow> d) of
        None \<Rightarrow> 0
      | Some texts \<Rightarrow> sum_list (map (\<lambda>t. case t of None \<Rightarrow> 0 | Some s \<Rightarrow>
          length (filter (\<lambda>l. startswith (dropWhile is_space l) ''- id:'') (split_lines s))) texts))"

section \<open>Clusters and coverage\<close>

record cluster =
  cl_cwe :: string
  cl_language :: string
  cl_count :: nat
  cl_repos :: nat
  cl_examples :: "string list"
  cl_covered_by :: "string list"

definition cluster_key :: "tp_row \<Rightarrow> string \<times> string" where
  "cluster_key t = (tp_cwe t, tp_language t)"

definition cluster_of :: "pack_rule list \<Rightarrow> (string \<times> string) \<times> tp_row list \<Rightarrow> cluster" where
  "cluster_of rules g = (case g of ((cwe, language), tps) \<Rightarrow>
     \<lparr>cl_cwe = cwe, cl_language = language, cl_count = length tps, cl_repos = length (remdups (map tp_repo tps)),
      cl_examples = take 5 (map tp_finding_id tps),
      cl_covered_by = map pr_id (filter (\<lambda>r. cwe \<in> set (pr_cwes r) \<and> language \<in> set (pr_languages r)) rules)\<rparr>)"

definition clusters :: "tp_row list \<Rightarrow> pack_rule list \<Rightarrow> cluster list" where
  "clusters corpus rules = sort_key (\<lambda>c. - int (cl_count c)) (map (cluster_of rules) (group_by cluster_key corpus))"

definition cluster_and_cover :: "tp_row list \<Rightarrow> pack_rule list \<Rightarrow> cluster list \<times> cluster list" where
  "cluster_and_cover corpus rules =
     (filter (\<lambda>c. cl_covered_by c \<noteq> []) (clusters corpus rules),
      filter (\<lambda>c. cl_covered_by c = [] \<and> cl_language c \<in> set RULEABLE_LANGS) (clusters corpus rules))"

record language_row =
  la_language :: string
  la_confirmed :: nat
  la_covered :: nat
  la_uncovered :: nat
  la_uncovered_tps :: nat
  la_pack_rules :: nat

definition language_coverage :: "tp_row list \<Rightarrow> cluster list \<Rightarrow> cluster list
    \<Rightarrow> (string \<Rightarrow> string option list option) \<Rightarrow> language_row list" where
  "language_coverage corpus covered uncovered pack =
     sort_key (\<lambda>r. (- int (la_uncovered_tps r), - int (la_confirmed r), la_language r))
       (map (\<lambda>lang. \<lparr>la_language = lang, la_confirmed = length (filter (\<lambda>t. tp_language t = lang) corpus),
          la_covered = length (filter (\<lambda>c. cl_language c = lang) covered),
          la_uncovered = length (filter (\<lambda>c. cl_language c = lang) uncovered),
          la_uncovered_tps = sum_list (map cl_count (filter (\<lambda>c. cl_language c = lang) uncovered)),
          la_pack_rules = pack_rule_count pack lang\<rparr>) (sort (remdups (map tp_language corpus))))"

section \<open>Precision of the rules\<close>

record judged =
  jd_tool :: "string option"
  jd_rule :: "string option"
  jd_result :: "string option"

record rule_tally =
  rt_promoted :: nat
  rt_dismissed :: nat
  rt_other :: nat

definition judged_result :: "judged \<Rightarrow> string" where
  "judged_result e = lower (strip (case jd_result e of None \<Rightarrow> [] | Some r \<Rightarrow> r))"

definition rule_tally_of :: "judged list \<Rightarrow> rule_tally" where
  "rule_tally_of es =
     (let p = length (filter (\<lambda>e. judged_result e = ''promoted'') es);
          d = length (filter (\<lambda>e. judged_result e = ''dismissed'') es) in
      \<lparr>rt_promoted = p, rt_dismissed = d, rt_other = length es - p - d\<rparr>)"

definition precision_of :: "rule_tally \<Rightarrow> (nat \<times> nat) option" where
  "precision_of t = (let n = rt_promoted t + rt_dismissed t in if n \<noteq> 0 then Some (rt_promoted t, n) else None)"

text \<open>The judge decisions of each audit, link or not; the precision is the fraction, not rounded.\<close>

definition mine_precision :: "(bool \<times> judged list option) list \<Rightarrow> (string \<times> rule_tally \<times> (nat \<times> nat) option) list" where
  "mine_precision audits =
     (let es = concat (map (\<lambda>(link, d). if link then [] else (case d of None \<Rightarrow> [] | Some es \<Rightarrow>
            filter (\<lambda>e. jd_tool e = Some ''opengrep'' \<and> truthy (jd_rule e)) es)) audits) in
      map (\<lambda>(r, es). (r, rule_tally_of es, precision_of (rule_tally_of es)))
        (sort_key fst (group_by (\<lambda>e. or_str (jd_rule e) []) es)))"

section \<open>The worklist\<close>

record work_row =
  wk_repo :: string
  wk_commit :: "string option"
  wk_rules :: "string list"
  wk_findings :: "string list"

definition covering_rules :: "cluster list \<Rightarrow> tp_row \<Rightarrow> string list" where
  "covering_rules covered t = (case find (\<lambda>c. (cl_cwe c, cl_language c) = cluster_key t) (rev covered) of
     None \<Rightarrow> [] | Some c \<Rightarrow> cl_covered_by c)"

definition build_worklist :: "tp_row list \<Rightarrow> cluster list \<Rightarrow> work_row list" where
  "build_worklist corpus covered =
     sort_key (\<lambda>w. - int (length (wk_findings w)))
       (map (\<lambda>(repo, tps). \<lparr>wk_repo = repo, wk_commit = (case tps of [] \<Rightarrow> None | t # _ \<Rightarrow> tp_commit t),
           wk_rules = sort (remdups (concat (map (covering_rules covered) tps))), wk_findings = map tp_finding_id tps\<rparr>)
         (group_by tp_repo (filter (\<lambda>t. covering_rules covered t \<noteq> []) corpus)))"

record mining_result =
  mg_pack_rules :: nat
  mg_reports :: nat
  mg_confirmed :: nat
  mg_ruleable :: nat
  mg_covered :: "cluster list"
  mg_uncovered :: "cluster list"
  mg_languages :: "language_row list"
  mg_precision :: "(string \<times> rule_tally \<times> (nat \<times> nat) option) list"
  mg_worklist :: "work_row list"

definition mine :: "ledger_file list \<Rightarrow> (bool \<times> judged list option) list \<Rightarrow> rule_src list option list
    \<Rightarrow> (string \<Rightarrow> string option list option) \<Rightarrow> mining_result" where
  "mine files audits docs pack =
     (let corpus = mine_corpus files; rules = load_pack_rules docs; cu = cluster_and_cover corpus rules in
      \<lparr>mg_pack_rules = length rules,
       mg_reports = (if corpus \<noteq> [] then length (remdups (map tp_report corpus)) else length files),
       mg_confirmed = length corpus,
       mg_ruleable = length (filter (\<lambda>t. tp_language t \<in> set RULEABLE_LANGS) corpus),
       mg_covered = fst cu, mg_uncovered = snd cu,
       mg_languages = language_coverage corpus (fst cu) (snd cu) pack,
       mg_precision = mine_precision audits,
       mg_worklist = build_worklist corpus (fst cu)\<rparr>)"

section \<open>What the label says\<close>

lemma dominant_in: "dominant tier = Some l \<Longrightarrow> l \<in> set tier"
  using max_by_in by (fastforce simp: dominant_def split: list.splits)

lemma dominant_most:
  assumes "dominant tier = Some l" and "x \<in> set tier"
  shows "count_list tier x \<le> count_list tier l"
proof -
  define key where "key = (\<lambda>x. (count_list tier x, - int (index_of x tier)))"
  obtain t ts where "tier = t # ts" "l = max_by key t ts"
    using assms(1) by (auto simp: dominant_def key_def split: list.splits)
  with assms(2) have "key x \<le> key l" using max_by_ge [of x t ts key] by simp
  then show ?thesis by (auto simp: key_def less_eq_prod_def)
qed

lemma dominant_None [simp]: "dominant tier = None \<longleftrightarrow> tier = []" "dominant [] = None"
  by (simp_all add: dominant_def split: list.splits)

text \<open>Source outranks configuration, and no other language of the tier occurs more often.\<close>

lemma guess_language_cases:
  obtains "langs_of False locations = []" "langs_of True locations = []" "guess_language locations = ''unknown''"
  | config where "langs_of config locations \<noteq> []" "config \<longrightarrow> langs_of False locations = []"
      "dominant (langs_of config locations) = Some (guess_language locations)"
proof (cases "dominant (langs_of False locations)")
  case (Some l)
  then have "langs_of False locations \<noteq> []" by (metis dominant_None(1) option.distinct(1))
  with Some show ?thesis using that(2) [of False] by (simp add: guess_language_def)
next
  case None
  then have e: "langs_of False locations = []" by simp
  show ?thesis
  proof (cases "dominant (langs_of True locations)")
    case (Some l)
    then have "langs_of True locations \<noteq> []" by (metis dominant_None(1) option.distinct(1))
    moreover have "guess_language locations = l" using Some None by (simp add: guess_language_def)
    ultimately show ?thesis using that(2) [of True] Some e by simp
  next
    case none: None
    then show ?thesis using that(1) e None by (simp add: guess_language_def)
  qed
qed

text \<open>Of two languages that occur equally often, the one of the location listed first is taken.\<close>

lemma tie_follows_order:
  "guess_language [''a.go'', ''b.py''] = ''go''" "guess_language [''b.py'', ''a.go''] = ''python''"
  by code_simp+

section \<open>What the backlog says\<close>

definition rules_for :: "pack_rule list \<Rightarrow> string \<times> string \<Rightarrow> string list" where
  "rules_for rules k = map pr_id (filter (\<lambda>r. fst k \<in> set (pr_cwes r) \<and> snd k \<in> set (pr_languages r)) rules)"

definition cluster_keys :: "cluster list \<Rightarrow> (string \<times> string) list" where
  "cluster_keys cs = map (\<lambda>c. (cl_cwe c, cl_language c)) cs"

text \<open>
  The clusters cover the corpus exactly: one for each weakness and language of the confirmed findings,
  counted right, on the covered side exactly when the pack has a rule for both.
\<close>

definition backlog_exact :: "tp_row list \<Rightarrow> pack_rule list \<Rightarrow> cluster list \<Rightarrow> cluster list \<Rightarrow> bool" where
  "backlog_exact corpus rules covered uncovered \<longleftrightarrow>
     distinct (cluster_keys covered @ cluster_keys uncovered)
     \<and> set (cluster_keys covered) = {k \<in> set (map cluster_key corpus). rules_for rules k \<noteq> []}
     \<and> set (cluster_keys uncovered) = {k \<in> set (map cluster_key corpus). rules_for rules k = [] \<and> snd k \<in> set RULEABLE_LANGS}
     \<and> list_all (\<lambda>c. cl_count c = length (filter (\<lambda>t. cluster_key t = (cl_cwe c, cl_language c)) corpus)
           \<and> cl_covered_by c = rules_for rules (cl_cwe c, cl_language c)) (covered @ uncovered)
     \<and> sorted (rev (map cl_count uncovered))"

lemma cluster_of_fields [simp]:
  "cl_count (cluster_of rules g) = length (snd g)"
  "cl_covered_by (cluster_of rules g) = rules_for rules (fst g)"
  "cl_language (cluster_of rules g) = snd (fst g)"
  "cl_cwe (cluster_of rules g) = fst (fst g)"
  by (simp_all add: cluster_of_def rules_for_def split: prod.splits)

lemma mset_filter_clusters:
  "mset (cluster_keys (filter P (clusters corpus rules)))
     = mset (map fst (filter (\<lambda>g. P (cluster_of rules g)) (group_by cluster_key corpus)))"
proof -
  have "mset (filter P (clusters corpus rules)) = mset (filter P (map (cluster_of rules) (group_by cluster_key corpus)))"
    by (simp add: clusters_def)
  then have "mset (cluster_keys (filter P (clusters corpus rules)))
      = mset (cluster_keys (filter P (map (cluster_of rules) (group_by cluster_key corpus))))"
    unfolding cluster_keys_def mset_map by simp
  also have "\<dots> = mset (map fst (filter (\<lambda>g. P (cluster_of rules g)) (group_by cluster_key corpus)))"
    by (simp add: cluster_keys_def filter_map comp_def)
  finally show ?thesis .
qed

lemma filter_clusters:
  "set (cluster_keys (filter P (clusters corpus rules)))
     = fst ` {g \<in> set (group_by cluster_key corpus). P (cluster_of rules g)}"
  "distinct (cluster_keys (filter P (clusters corpus rules)))"
proof -
  show "set (cluster_keys (filter P (clusters corpus rules)))
     = fst ` {g \<in> set (group_by cluster_key corpus). P (cluster_of rules g)}"
    using arg_cong [OF mset_filter_clusters, of set_mset P corpus rules] by simp
  have "distinct (map fst (filter (\<lambda>g. P (cluster_of rules g)) (group_by cluster_key corpus)))"
    by (rule distinct_map_filter [OF distinct_keys_group_by])
  then show "distinct (cluster_keys (filter P (clusters corpus rules)))"
    by (metis mset_filter_clusters mset_eq_imp_distinct_iff)
qed

lemma cluster_counts:
  assumes "c \<in> set (clusters corpus rules)"
  shows "cl_count c = length (filter (\<lambda>t. cluster_key t = (cl_cwe c, cl_language c)) corpus)"
    and "cl_covered_by c = rules_for rules (cl_cwe c, cl_language c)"
proof -
  from assms obtain k tps where g: "(k, tps) \<in> set (group_by cluster_key corpus)" "c = cluster_of rules (k, tps)"
    by (auto simp: clusters_def)
  then have "tps = filter (\<lambda>t. cluster_key t = k) corpus" by (simp add: in_group_by)
  with g(2) show "cl_count c = length (filter (\<lambda>t. cluster_key t = (cl_cwe c, cl_language c)) corpus)"
    "cl_covered_by c = rules_for rules (cl_cwe c, cl_language c)"
    by simp_all
qed

lemma sorted_filtered_clusters: "sorted (rev (map cl_count (filter P (clusters corpus rules))))"
proof -
  have "sorted (map (\<lambda>c. - int (cl_count c)) (filter P (clusters corpus rules)))"
    unfolding clusters_def by (simp add: sorted_filter)
  then show ?thesis by (simp add: sorted_wrt_rev sorted_map sorted_wrt_map)
qed

text \<open>
  C13. The backlog of rules to write is exact. Every weakness and language of a confirmed finding is one
  cluster with the right count; it is on the covered side exactly when a rule of the pack names both, on
  the uncovered side exactly when none does and the language can have rules, and the uncovered side is
  ranked by its counts. So no class a rule is missing for is hidden, and none is listed twice.
\<close>

theorem backlog_is_exact:
  "backlog_exact (mine_corpus files) (load_pack_rules docs) (mg_covered (mine files audits docs pack))
     (mg_uncovered (mine files audits docs pack))"
proof -
  define corpus where "corpus = mine_corpus files"
  define rules where "rules = load_pack_rules docs"
  let ?cov = "\<lambda>c. cl_covered_by c \<noteq> []" and ?unc = "\<lambda>c. cl_covered_by c = [] \<and> cl_language c \<in> set RULEABLE_LANGS"
  have keys: "(\<exists>tps. (k, tps) \<in> set (group_by cluster_key corpus)) \<longleftrightarrow> k \<in> cluster_key ` set corpus" for k
    by (simp add: in_group_by)
  have cov: "set (cluster_keys (filter ?cov (clusters corpus rules))) = {k \<in> cluster_key ` set corpus. rules_for rules k \<noteq> []}"
    unfolding filter_clusters(1) using keys by (auto simp: image_iff) (metis fst_conv)+
  have unc: "set (cluster_keys (filter ?unc (clusters corpus rules)))
      = {k \<in> cluster_key ` set corpus. rules_for rules k = [] \<and> snd k \<in> set RULEABLE_LANGS}"
    unfolding filter_clusters(1) using keys by (auto simp: image_iff) (metis fst_conv snd_conv)+
  have "backlog_exact corpus rules (filter ?cov (clusters corpus rules)) (filter ?unc (clusters corpus rules))"
    unfolding backlog_exact_def distinct_append set_map cov unc list_all_iff
    using filter_clusters(2) sorted_filtered_clusters cluster_counts by auto
  then show ?thesis by (simp add: mine_def cluster_and_cover_def Let_def corpus_def rules_def)
qed

text \<open>The count of scanned reports leaves out those without a confirmed finding, unless none has one.\<close>

lemma reports_with_findings_counted:
  "mg_reports (mine
     [\<lparr>lr_path = ''a'', lr_dir = ''d'', lr_link = False, lr_doc = Some \<lparr>ld_repository = None, ld_commit = None, ld_findings =
        [\<lparr>lf_id = None, lf_validity = Some ''confirmed'', lf_resolution = None, lf_cwes = [], lf_category = None,
          lf_severity = None, lf_paths = [], lf_title = None, lf_code = None\<rparr>]\<rparr>\<rparr>,
      \<lparr>lr_path = ''b'', lr_dir = ''d'', lr_link = False, lr_doc = Some \<lparr>ld_repository = None, ld_commit = None, ld_findings = []\<rparr>\<rparr>]
     [] [] (\<lambda>_. None)) = 1"
  by code_simp

end
