(* ===== verification/Sweep_Collect.thy ===== *)
theory Sweep_Collect
  imports Sweep_Mining Versions Py_Json
begin

text \<open>
  \<open>sweep/engine.py\<close>, the stages collect and draft: the confirmed findings of every source, which of them a
  rule can express, their classes, and the drafts of rules for classes the pack has no rule for. The
  artifacts of the confirmation phase are records; the pack and the drafts are texts. The
  Markdown beside a draft and the files of the stages are left out. The dash in the message of
  a draft, which Latin-1 lacks, is a hyphen.
\<close>

section \<open>Classification\<close>

definition SYNTACTIC_CWES :: "nat list" where
  "SYNTACTIC_CWES = [22, 23, 36, 73, 77, 78, 79, 80, 88, 89, 90, 91, 93, 94, 95, 96, 116, 117, 643, 917, 943,
     15, 614, 1004, 1244, 261, 295, 296, 319, 326, 327, 328, 330, 338, 347, 757, 759, 760, 916,
     259, 312, 313, 321, 532, 540, 798, 502, 611, 776, 1321, 1333, 601, 918, 377, 379, 732]"

definition DEPENDENCY_CWES :: "nat list" where
  "DEPENDENCY_CWES = [937, 1035, 1104, 1395]"

definition SWEEP_LANGS :: "string list" where
  "SWEEP_LANGS = RULEABLE_LANGS @ [''yaml'']"

definition CWE_NUM_RE :: rx where
  "CWE_NUM_RE = seq [ilit ''CWE-'', Grp 1 (plus digit)]"

definition cwe_num :: "string option \<Rightarrow> nat option" where
  "cwe_num cwe = map_option (group_int 1) (re_search CWE_NUM_RE (or_str cwe []))"

definition lang_of_file :: "string option \<Rightarrow> string" where
  "lang_of_file path = (case map_of EXT_LANG (path_ext (or_str path [])) of None \<Rightarrow> ''unknown'' | Some l \<Rightarrow> l)"

datatype expressible_reason =
    Without_cwe
  | Without_location
  | Dependency_version nat
  | Not_ruleable string
  | Semantic_logic nat
  | Syntactic

definition classify_confirmed :: "string option \<Rightarrow> string option \<Rightarrow> string \<Rightarrow> bool \<times> expressible_reason" where
  "classify_confirmed cwe file language =
     (case cwe_num cwe of
        None \<Rightarrow> (False, Without_cwe)
      | Some n \<Rightarrow>
          if \<not> truthy file then (False, Without_location)
          else if n \<in> set DEPENDENCY_CWES then (False, Dependency_version n)
          else if or_str (Some language) ''unknown'' \<notin> set SWEEP_LANGS then (False, Not_ruleable (or_str (Some language) ''unknown''))
          else if n \<notin> set SYNTACTIC_CWES then (False, Semantic_logic n)
          else (True, Syntactic))"

section \<open>The normal form of a confirmation\<close>

text \<open>A line as JSON has it; the superscript digits \<open>int\<close> would refuse are no digits here.\<close>

datatype line_val = No_line | Line_int int | Line_text string

definition line_no :: "line_val \<Rightarrow> nat option" where
  "line_no l = (case l of
       No_line \<Rightarrow> None
     | Line_int i \<Rightarrow> if 0 < i then Some (nat i) else None
     | Line_text t \<Rightarrow> if t \<noteq> [] \<and> list_all is_digit t then Some (int_of_digits t) else None)"

record sweep_finding =
  sf_source :: string
  sf_artifact :: string
  sf_repo :: string
  sf_url :: "string option"
  sf_finding_id :: "string option"
  sf_title :: string
  sf_cwe :: "string option"
  sf_severity :: "string option"
  sf_file :: "string option"
  sf_line :: "nat option"
  sf_language :: string
  sf_expressible :: bool
  sf_reason :: expressible_reason

record fin_obj =
  fo_title :: "string option"
  fo_cwe :: "string option"
  fo_class :: "string option"
  fo_severity :: "string option"
  fo_file :: "string option"
  fo_line :: line_val

definition cwe_text :: "string option \<Rightarrow> string option" where
  "cwe_text cwe = (case cwe_num cwe of None \<Rightarrow> None | Some n \<Rightarrow> if n = 0 then None else Some (''CWE-'' @ show_nat n))"

definition norm_finding :: "string \<Rightarrow> string \<Rightarrow> string \<Rightarrow> string option \<Rightarrow> string option \<Rightarrow> fin_obj \<Rightarrow> sweep_finding" where
  "norm_finding source artifact repo url finding_id fin =
     (let cwe = cwe_text (fo_cwe fin);
          file = (if truthy (fo_file fin) then fo_file fin else None);
          language = lang_of_file (fo_file fin);
          ok = classify_confirmed cwe file language in
      \<lparr>sf_source = source, sf_artifact = artifact, sf_repo = or_str (Some repo) ''unknown'', sf_url = url,
       sf_finding_id = finding_id, sf_title = take 160 (or_str (fo_title fin) []), sf_cwe = cwe,
       sf_severity = fo_severity fin, sf_file = file, sf_line = line_no (fo_line fin), sf_language = language,
       sf_expressible = fst ok, sf_reason = snd ok\<rparr>)"

definition slug_from_url :: "string option \<Rightarrow> string" where
  "slug_from_url url = (if \<not> truthy url then ''unknown''
     else removesuffix (after_last CHR ''/'' (rstrip_with (\<lambda>c. c = CHR ''/'') (or_str url []))) ''.git'')"

section \<open>Collecting\<close>

definition of_ledger :: "tp_row \<Rightarrow> sweep_finding" where
  "of_ledger tp = norm_finding ''ledger'' (tp_report tp)
     (if CHR ''/'' \<in> set (tp_repo tp) then slug_from_url (Some (tp_repo tp)) else tp_repo tp)
     (if startswith (tp_repo tp) ''http'' then Some (tp_repo tp) else None) (Some (tp_finding_id tp))
     \<lparr>fo_title = Some (tp_title tp), fo_cwe = Some (tp_cwe tp), fo_class = None, fo_severity = tp_severity tp,
      fo_file = (case tp_locations tp of [] \<Rightarrow> None | l # _ \<Rightarrow> Some l), fo_line = No_line\<rparr>"

definition collect_ledger :: "ledger_file list \<Rightarrow> sweep_finding list" where
  "collect_ledger files = map of_ledger (mine_corpus files)"

definition SOURCE_SLUG_RE :: rx where
  "SOURCE_SLUG_RE = seq [Grp 1 (Rep 1 None False (Cls (alnum_or ''._-''))), opt (lit ''-delta''), lit ''.json'']"

record ft_finding =
  ff_verdict :: "string option"
  ff_source :: string
  ff_id :: "string option"
  ff_claimed :: "string option"
  ff_fin :: fin_obj

record vote =
  vo_confirmed :: bool
  vo_idx :: "int option"
  vo_slug :: "string option"
  vo_url :: "string option"
  vo_fin :: fin_obj

datatype ft_doc = Ft_findings "ft_finding list" | Ft_results "vote list" | Ft_other

definition of_triage :: "string \<Rightarrow> ft_finding \<Rightarrow> sweep_finding" where
  "of_triage name f =
     norm_finding ''fast-track'' name
       (case re_search SOURCE_SLUG_RE (after_last CHR ''/'' (ff_source f)) of
          None \<Rightarrow> ''unknown'' | Some m \<Rightarrow> or_str (m_group 1 m) [])
       None (ff_id f)
       ((ff_fin f)\<lparr>fo_severity := (if truthy (fo_severity (ff_fin f)) then fo_severity (ff_fin f) else ff_claimed f)\<rparr>)"

definition of_vote :: "string \<Rightarrow> string \<Rightarrow> vote \<Rightarrow> sweep_finding" where
  "of_vote source name r = norm_finding source name (or_str (vo_slug r) (slug_from_url (vo_url r))) (vo_url r) None (vo_fin r)"

definition collect_fast_track :: "(string \<times> ft_doc option) list \<Rightarrow> sweep_finding list" where
  "collect_fast_track docs = concat (map (\<lambda>(name, doc). case doc of
       Some (Ft_findings fs) \<Rightarrow> map (of_triage name) (filter (\<lambda>f. ff_verdict f = Some ''true_positive'') fs)
     | Some (Ft_results rs) \<Rightarrow> map (of_vote ''fast-track'' name) (filter vo_confirmed rs)
     | _ \<Rightarrow> []) docs)"

record candidate_doc =
  cd_uid :: "string option"
  cd_fin :: fin_obj
  cd_target :: string

datatype sweep_error =
    Index_error int
  | Run_collect_first
  | Rule_not_found string
  | Missing_skeleton string
  | No_rule_id
  | Unauthored
  | No_opengrep string
  | Need_repos
  | Clone_timed_out string
  | No_results string
  | Corpus_error string

text \<open>\<open>s.split(sep)[0]\<close>\<close>

fun before_text :: "string \<Rightarrow> string \<Rightarrow> string" where
  "before_text sep [] = []"
| "before_text sep (c # cs) = (if startswith (c # cs) sep then [] else c # before_text sep cs)"

text \<open>An index counts from the end when it is negative.\<close>

definition py_index :: "'a list \<Rightarrow> int \<Rightarrow> 'a option" where
  "py_index xs i = (if 0 \<le> i then if nat i < length xs then Some (xs ! nat i) else None
     else if nat (- i) \<le> length xs then Some (xs ! (length xs - nat (- i))) else None)"

definition of_candidate :: "string \<Rightarrow> candidate_doc \<Rightarrow> sweep_finding" where
  "of_candidate name c =
     (let t = strip (before_text '' @ '' (cd_target c)); url = (if t = [] then None else Some t) in
      norm_finding ''matrix-stage2'' name (slug_from_url url) url (cd_uid c) (cd_fin c))"

definition matrix_vote :: "candidate_doc list \<Rightarrow> string \<Rightarrow> vote \<Rightarrow> sweep_error + sweep_finding list" where
  "matrix_vote cands name r =
     (if \<not> vo_confirmed r then Inr []
      else (case vo_idx r of
          None \<Rightarrow> Inr []
        | Some i \<Rightarrow> if int (length cands) \<le> i then Inr []
            else (case py_index cands i of None \<Rightarrow> Inl (Index_error i) | Some c \<Rightarrow> Inr [of_candidate name c])))"

fun concat_res :: "('a \<Rightarrow> 'e + 'b list) \<Rightarrow> 'a list \<Rightarrow> 'e + 'b list" where
  "concat_res f [] = Inr []"
| "concat_res f (x # xs) = bind_res (f x) (\<lambda>ys. bind_res (concat_res f xs) (\<lambda>zs. Inr (ys @ zs)))"

definition collect_matrix :: "candidate_doc list option \<Rightarrow> (string \<times> vote list option) list \<Rightarrow> sweep_error + sweep_finding list" where
  "collect_matrix cands docs =
     (case cands of
        None \<Rightarrow> Inr []
      | Some cs \<Rightarrow> concat_res (\<lambda>(name, doc). case doc of None \<Rightarrow> Inr [] | Some rs \<Rightarrow> concat_res (matrix_vote cs name) rs) docs)"

definition collect_0d :: "vote list option \<Rightarrow> sweep_finding list" where
  "collect_0d doc = (case doc of
       None \<Rightarrow> []
     | Some rs \<Rightarrow> map (\<lambda>r. of_vote ''dual-0d'' ''0d-freshonly-triage-results.json''
         (r\<lparr>vo_fin := (vo_fin r)\<lparr>fo_cwe := (if truthy (fo_cwe (vo_fin r)) then fo_cwe (vo_fin r) else fo_class (vo_fin r))\<rparr>\<rparr>))
         (filter vo_confirmed rs))"

record phase0 =
  ph_fast :: "(string \<times> ft_doc option) list"
  ph_candidates :: "candidate_doc list option"
  ph_votes :: "(string \<times> vote list option) list"
  ph_0d :: "vote list option"

record sweep_class =
  sc_id :: string
  sc_cwe :: string
  sc_language :: string
  sc_count :: nat
  sc_repos :: "string list"
  sc_members :: "nat list"

record collected =
  co_by_source :: "(string \<times> nat) list"
  co_expressible :: nat
  co_not_expressible :: nat
  co_classes :: "sweep_class list"
  co_findings :: "sweep_finding list"

definition dedupe_key :: "sweep_finding \<Rightarrow> string \<times> string option \<times> string option \<times> string" where
  "dedupe_key f = (lower (sf_repo f), sf_file f, sf_cwe f, lower (take 60 (sf_title f)))"

fun first_of_key :: "('a \<Rightarrow> 'k) \<Rightarrow> 'k list \<Rightarrow> 'a list \<Rightarrow> 'a list" where
  "first_of_key key seen [] = []"
| "first_of_key key seen (x # xs) =
     (if key x \<in> set seen then first_of_key key seen xs else x # first_of_key key (key x # seen) xs)"

definition class_key :: "sweep_finding \<Rightarrow> string \<times> string" where
  "class_key f = (or_str (sf_cwe f) [], sf_language f)"

definition class_of :: "(string \<times> string) \<times> (nat \<times> sweep_finding) list \<Rightarrow> sweep_class" where
  "class_of g = (case g of ((cwe, language), ms) \<Rightarrow>
     \<lparr>sc_id = cwe @ ''/'' @ language, sc_cwe = cwe, sc_language = language, sc_count = length ms,
      sc_repos = sort (remdups (map (sf_repo \<circ> snd) ms)), sc_members = map fst ms\<rparr>)"

definition classes_of :: "sweep_finding list \<Rightarrow> sweep_class list" where
  "classes_of fs = sort_key (\<lambda>c. - int (sc_count c)) (map class_of
     (group_by (class_key \<circ> snd) (filter (\<lambda>(i, f). sf_expressible f) (enumerate 0 fs))))"

definition collect_all :: "ledger_file list \<Rightarrow> phase0 \<Rightarrow> sweep_error + collected" where
  "collect_all files ph =
     bind_res (collect_matrix (ph_candidates ph) (ph_votes ph)) (\<lambda>mx.
       (let fs = first_of_key dedupe_key [] (collect_ledger files @ collect_fast_track (ph_fast ph) @ mx @ collect_0d (ph_0d ph)) in
        Inr \<lparr>co_by_source = count_by sf_source fs, co_expressible = length (filter sf_expressible fs),
             co_not_expressible = length (filter (\<lambda>f. \<not> sf_expressible f) fs), co_classes = classes_of fs, co_findings = fs\<rparr>))"

text \<open>Whether the stage was skipped, and the state it leaves.\<close>

definition do_collect :: "bool \<Rightarrow> collected option \<Rightarrow> ledger_file list \<Rightarrow> phase0 \<Rightarrow> sweep_error + bool \<times> collected" where
  "do_collect force state files ph =
     (case state of
        Some c \<Rightarrow> if force then bind_res (collect_all files ph) (\<lambda>c. Inr (False, c)) else Inr (True, c)
      | None \<Rightarrow> bind_res (collect_all files ph) (\<lambda>c. Inr (False, c)))"

section \<open>Drafting\<close>

text \<open>A file of the pack, its text and its rules if they can be read; the skeleton of each draft if there is one.\<close>

record pack_file =
  pf_text :: "string option"
  pf_rules :: "rule_src list option"

type_synonym drafts = "(string \<times> string option) list"

definition RULE_ID_RE :: rx where
  "RULE_ID_RE = seq [At Bol, star (Cls is_space), lit ''-'', star (Cls is_space), lit ''id:'', star (Cls is_space),
     Grp 1 (plus (Cls (\<lambda>c. \<not> is_space c)))]"

definition rule_ids :: "string \<Rightarrow> string list" where
  "rule_ids text = map (\<lambda>m. or_str (m_group 1 m) []) (re_finditer RULE_ID_RE text)"

definition existing_rule_ids :: "pack_file list \<Rightarrow> drafts \<Rightarrow> string list" where
  "existing_rule_ids pack drafts =
     concat (map rule_ids (List.map_filter id (map pf_text pack @ map snd drafts)))"

definition class_slug :: "string \<Rightarrow> string \<Rightarrow> string" where
  "class_slug cwe language = ''sweep-'' @ language @ ''-'' @ lower cwe"

definition draft_rule_id :: "string \<Rightarrow> string \<Rightarrow> string" where
  "draft_rule_id cwe language = ''traust-'' @ language @ ''-sweep-'' @ lower cwe"

definition line_of_text :: "string \<Rightarrow> string" where
  "line_of_text s = s @ [CHR 0x0A]"

definition quoted :: "string \<Rightarrow> string" where
  "quoted s = [CHR 0x22] @ s @ [CHR 0x22]"

definition source_lines :: "sweep_finding \<Rightarrow> string" where
  "source_lines m =
     line_of_text (''        - source_finding: '' @ quoted (or_str (sf_finding_id m) ''(unkeyed)''))
     @ line_of_text (''          repo: '' @ quoted (sf_repo m))
     @ line_of_text (''          location: '' @ quoted ((case sf_file m of None \<Rightarrow> ''None'' | Some f \<Rightarrow> f)
         @ (case sf_line m of None \<Rightarrow> [] | Some n \<Rightarrow> if n = 0 then [] else '':'' @ show_nat n)))
     @ line_of_text (''          artifact: '' @ quoted (sf_source m @ '':'' @ sf_artifact m))"

definition skeleton :: "sweep_class \<Rightarrow> sweep_finding list \<Rightarrow> string" where
  "skeleton cls members =
     line_of_text ''rules:''
     @ line_of_text (''  - id: '' @ draft_rule_id (sc_cwe cls) (sc_language cls))
     @ line_of_text (''    languages: ['' @ sc_language cls @ '']'')
     @ line_of_text (''    severity: '' @ (if list_ex (\<lambda>m. sf_severity m \<in> {Some ''critical'', Some ''high''}) members then ''ERROR'' else ''WARNING''))
     @ line_of_text ''    message: >-''
     @ line_of_text ''      TODO - one-sentence description of the confirmed syntactic''
     @ line_of_text (''      shape this class generalizes. '' @ sc_cwe cls @ ''.'')
     @ line_of_text ''    metadata:''
     @ line_of_text (''      cwe: ['' @ quoted (sc_cwe cls) @ '']'')
     @ line_of_text ''      category: sweep-generalization''
     @ line_of_text ''      confidence: HIGH''
     @ line_of_text ''      generalized_from:''
     @ concat (map source_lines (take 8 members))
     @ line_of_text ''    patterns:''
     @ line_of_text ''      - pattern: TODO   # author from the cited confirmed findings' evidence''"

datatype skip_reason = Covered_by_pack "string list" | Draft_exists

record draft_result =
  dr_emitted :: "string list"
  dr_skipped :: "(string \<times> skip_reason) list"

definition draft_class :: "pack_rule list \<Rightarrow> string list \<Rightarrow> sweep_finding list \<Rightarrow> sweep_class
    \<Rightarrow> draft_result \<times> drafts \<Rightarrow> draft_result \<times> drafts" where
  "draft_class rules known fs cls st = (case st of (r, drafts) \<Rightarrow>
     (let covering = map pr_id (filter (\<lambda>p. sc_cwe cls \<in> set (pr_cwes p) \<and> sc_language cls \<in> set (pr_languages p)) rules);
          rid = draft_rule_id (sc_cwe cls) (sc_language cls); slug = class_slug (sc_cwe cls) (sc_language cls) in
      if covering \<noteq> [] then (r\<lparr>dr_skipped := dr_skipped r @ [(sc_id cls, Covered_by_pack covering)]\<rparr>, drafts)
      else if rid \<in> set known \<or> map_of drafts slug \<noteq> None then
        (r\<lparr>dr_skipped := dr_skipped r @ [(sc_id cls, Draft_exists)]\<rparr>, drafts)
      else (r\<lparr>dr_emitted := dr_emitted r @ [slug]\<rparr>,
            AList.update slug (Some (skeleton cls (map ((!) fs) (sc_members cls)))) drafts)))"

definition do_draft :: "collected option \<Rightarrow> pack_file list \<Rightarrow> drafts \<Rightarrow> sweep_error + draft_result \<times> drafts" where
  "do_draft state pack drafts = (case state of
       None \<Rightarrow> Inl Run_collect_first
     | Some col \<Rightarrow> Inr (fold (draft_class (load_pack_rules (map pf_rules pack)) (existing_rule_ids pack drafts) (co_findings col))
         (co_classes col) (\<lparr>dr_emitted = [], dr_skipped = []\<rparr>, drafts)))"

section \<open>What is collected\<close>

lemma enumerate_upt: "enumerate 0 xs = map (\<lambda>i. (i, xs ! i)) [0..<length xs]"
  by (rule nth_equalityI) (simp_all add: nth_enumerate_eq)

lemma first_of_key_distinct:
  "distinct (map key (first_of_key key seen xs)) \<and> key ` set (first_of_key key seen xs) \<inter> set seen = {}"
proof (induction xs arbitrary: seen)
  case (Cons x xs)
  then have "distinct (map key (first_of_key key seen xs))" "key ` set (first_of_key key seen xs) \<inter> set seen = {}"
    "distinct (map key (first_of_key key (key x # seen) xs))"
    "key ` set (first_of_key key (key x # seen) xs) \<inter> insert (key x) (set seen) = {}"
    using Cons.IH [of "key x # seen"] by auto
  then show ?case by auto
qed simp

lemma first_of_key_subset: "set (first_of_key key seen xs) \<subseteq> set xs"
  by (induction xs arbitrary: seen) auto

lemma first_of_key_seen: "set seen = set seen' \<Longrightarrow> first_of_key key seen xs = first_of_key key seen' xs"
proof (induction xs arbitrary: seen seen')
  case (Cons x xs)
  have "first_of_key key (key x # seen) xs = first_of_key key (key x # seen') xs"
    by (rule Cons.IH) (simp add: Cons.prems)
  then show ?case using Cons.IH [OF Cons.prems] Cons.prems by (simp only: first_of_key.simps)
qed simp

text \<open>Every finding carries the answer of the classification for its own fields.\<close>

definition classified :: "sweep_finding \<Rightarrow> bool" where
  "classified f \<longleftrightarrow> (sf_expressible f, sf_reason f) = classify_confirmed (sf_cwe f) (sf_file f) (sf_language f)"

lemma norm_classified [simp]: "classified (norm_finding source artifact repo url fid fin)"
  by (simp add: classified_def norm_finding_def Let_def)

lemma concat_res_all:
  assumes "concat_res f xs = Inr ys" and "\<And>x zs. x \<in> set xs \<Longrightarrow> f x = Inr zs \<Longrightarrow> list_all P zs"
  shows "list_all P ys"
  using assms
proof (induction xs arbitrary: ys)
  case (Cons x xs)
  then obtain us vs where u: "f x = Inr us" "concat_res f xs = Inr vs" "ys = us @ vs"
    by (auto simp: bind_res_def split: sum.splits)
  have "list_all P us" by (rule Cons.prems(2) [OF _ u(1)]) simp
  moreover have "list_all P vs" by (rule Cons.IH [OF u(2)]) (rule Cons.prems(2), auto)
  ultimately show ?case using u(3) by simp
qed simp

lemma matrix_classified: "collect_matrix cands docs = Inr fs \<Longrightarrow> list_all classified fs"
proof -
  have vote: "list_all classified zs" if "matrix_vote cs name r = Inr zs" for cs name r zs
    using that by (auto simp: matrix_vote_def of_candidate_def Let_def split: if_splits option.splits)
  have doc: "list_all classified zs" if "concat_res (matrix_vote cs name) rs = Inr zs" for cs name rs zs
    using concat_res_all [OF that] vote by blast
  assume "collect_matrix cands docs = Inr fs"
  then show ?thesis
    unfolding collect_matrix_def
    by (cases cands) (auto dest!: concat_res_all [where P = classified] simp: doc split: option.splits)
qed

lemma fast_track_classified: "list_all classified (collect_fast_track docs)"
proof -
  have "list_all classified (case doc of Some (Ft_findings fs) \<Rightarrow> map (of_triage name) (filter (\<lambda>f. ff_verdict f = Some ''true_positive'') fs)
     | Some (Ft_results rs) \<Rightarrow> map (of_vote ''fast-track'' name) (filter vo_confirmed rs) | _ \<Rightarrow> [])" for name doc
    by (cases doc rule: option.exhaust; cases "the doc") (simp_all add: list_all_iff of_triage_def of_vote_def split: ft_doc.split)
  then show ?thesis by (fastforce simp: collect_fast_track_def list_all_iff)
qed

lemma collected_classified:
  "list_all classified (collect_ledger files)" "list_all classified (collect_0d doc)"
  by (auto simp: collect_ledger_def of_ledger_def of_vote_def collect_0d_def list_all_iff split: option.splits)

lemma classified_expressible:
  assumes "classified f" "sf_expressible f"
  shows "\<exists>n \<in> set SYNTACTIC_CWES. cwe_num (sf_cwe f) = Some n" and "sf_file f \<noteq> None" and "sf_language f \<in> set SWEEP_LANGS"
proof -
  have "classify_confirmed (sf_cwe f) (sf_file f) (sf_language f) = (True, sf_reason f)"
    using assms by (simp add: classified_def)
  then have "(\<exists>n \<in> set SYNTACTIC_CWES. cwe_num (sf_cwe f) = Some n) \<and> truthy (sf_file f)
      \<and> or_str (Some (sf_language f)) ''unknown'' \<in> set SWEEP_LANGS"
    unfolding classify_confirmed_def by (auto split: option.splits if_splits)
  moreover have "''unknown'' \<notin> set SWEEP_LANGS" by (simp add: SWEEP_LANGS_def RULEABLE_LANGS_def)
  ultimately show "\<exists>n \<in> set SYNTACTIC_CWES. cwe_num (sf_cwe f) = Some n" "sf_file f \<noteq> None" "sf_language f \<in> set SWEEP_LANGS"
    by (auto simp: or_str_def truthy_def split: if_splits option.splits)
qed

text \<open>The members of a class are the findings a rule can express that have its weakness and language.\<close>

definition members_of :: "sweep_finding list \<Rightarrow> string \<times> string \<Rightarrow> nat list" where
  "members_of fs k = filter (\<lambda>i. sf_expressible (fs ! i) \<and> class_key (fs ! i) = k) [0..<length fs]"

definition class_exact :: "sweep_finding list \<Rightarrow> sweep_class \<Rightarrow> bool" where
  "class_exact fs s \<longleftrightarrow> sc_members s = members_of fs (sc_cwe s, sc_language s) \<and> sc_members s \<noteq> []
     \<and> sc_count s = length (sc_members s)
     \<and> sc_repos s = sort (remdups (map (\<lambda>i. sf_repo (fs ! i)) (sc_members s)))
     \<and> list_ex (\<lambda>n. cwe_num (Some (sc_cwe s)) = Some n) SYNTACTIC_CWES \<and> sc_language s \<in> set SWEEP_LANGS"

definition collected_exact :: "collected \<Rightarrow> bool" where
  "collected_exact c \<longleftrightarrow> distinct (map dedupe_key (co_findings c)) \<and> list_all classified (co_findings c)
     \<and> co_expressible c + co_not_expressible c = length (co_findings c)
     \<and> distinct (map (\<lambda>s. (sc_cwe s, sc_language s)) (co_classes c))
     \<and> list_all (class_exact (co_findings c)) (co_classes c)
     \<and> list_all (\<lambda>f. sf_expressible f = list_ex (\<lambda>s. (sc_cwe s, sc_language s) = class_key f \<and> sf_expressible f) (co_classes c)) (co_findings c)"

lemma class_of_key: "(sc_cwe (class_of g), sc_language (class_of g)) = fst g"
  by (simp add: class_of_def split: prod.splits)

lemma in_classes:
  assumes "s \<in> set (classes_of fs)" and "list_all classified fs"
  shows "class_exact fs s"
proof -
  let ?G = "group_by (class_key \<circ> snd) (filter (\<lambda>(i, f). sf_expressible f) (enumerate 0 fs))"
  from assms(1) obtain k ms where g: "(k, ms) \<in> set ?G" and s: "s = class_of (k, ms)"
    by (auto simp: classes_of_def)
  have ms: "ms = map (\<lambda>i. (i, fs ! i)) (members_of fs k)"
    using g by (simp add: in_group_by enumerate_upt filter_map comp_def members_of_def conj_commute)
  from g obtain i where i: "i < length fs" "sf_expressible (fs ! i)" "class_key (fs ! i) = k"
    by (auto simp: in_group_by enumerate_upt)
  then have "i \<in> set (members_of fs k)" by (simp add: members_of_def)
  then have ne: "members_of fs k \<noteq> []" by auto
  have "classified (fs ! i)" using assms(2) i(1) by (simp add: list_all_length)
  then obtain n where n: "n \<in> set SYNTACTIC_CWES" "cwe_num (sf_cwe (fs ! i)) = Some n"
    and "sf_language (fs ! i) \<in> set SWEEP_LANGS"
    using classified_expressible i(2) by blast
  moreover have "cwe_num (Some (or_str c [])) = cwe_num c" for c by (simp add: cwe_num_def or_str_def split: option.split)
  ultimately have "list_ex (\<lambda>n. cwe_num (Some (fst k)) = Some n) SYNTACTIC_CWES" "snd k \<in> set SWEEP_LANGS"
    using i(3) by (auto simp: class_key_def list_ex_iff)
  then show ?thesis
    using ne by (cases k) (simp add: class_exact_def s class_of_def ms comp_def)
qed

lemma classes_distinct: "distinct (map (\<lambda>s. (sc_cwe s, sc_language s)) (classes_of fs))"
proof -
  let ?G = "group_by (class_key \<circ> snd) (filter (\<lambda>(i, f). sf_expressible f) (enumerate 0 fs))"
  have "mset (map (\<lambda>s. (sc_cwe s, sc_language s)) (classes_of fs)) = mset (map fst ?G)"
    by (simp add: classes_of_def multiset.map_comp comp_def class_of_key)
  from mset_eq_imp_distinct_iff [OF this] show ?thesis by (simp add: distinct_keys_group_by)
qed

lemma class_of_expressible:
  assumes "f \<in> set fs" "sf_expressible f"
  shows "\<exists>s \<in> set (classes_of fs). (sc_cwe s, sc_language s) = class_key f"
proof -
  let ?G = "group_by (class_key \<circ> snd) (filter (\<lambda>(i, f). sf_expressible f) (enumerate 0 fs))"
  from assms obtain i where "i < length fs" "fs ! i = f" by (auto simp: in_set_conv_nth)
  then have "(i, f) \<in> set (filter (\<lambda>(i, f). sf_expressible f) (enumerate 0 fs))"
    using assms(2) by (force simp: enumerate_upt)
  then have "class_key f \<in> fst ` set ?G" unfolding keys_group_by by (force simp: image_iff)
  then obtain g where "g \<in> set ?G" "fst g = class_key f" by auto
  then show ?thesis using class_of_key [of g] by (force simp: classes_of_def)
qed

text \<open>
  C6. What the collect stage hands to the others is exact. A confirmation is kept once. Every finding a
  rule can express, and no other, belongs to a class; there is one class for each weakness and language, its members
  are all such findings and only those, its count and its repositories are theirs, and its weakness is on
  the list of weaknesses with a syntactic shape. The only way to fail is a vote whose index is too far below zero.
\<close>

theorem classes_are_exact:
  "case collect_all files ph of Inl e \<Rightarrow> \<exists>i < 0. e = Index_error i | Inr c \<Rightarrow> collected_exact c"
proof (cases "collect_matrix (ph_candidates ph) (ph_votes ph)")
  case (Inl e)
  have vote: "\<exists>i < 0. e = Index_error i" if "matrix_vote cs name r = Inl e" for cs name r e
    using that by (auto simp: matrix_vote_def py_index_def split: if_splits option.splits)
  have step: "\<exists>x. f x = Inl e" if "concat_res f xs = Inl e" for f :: "'x \<Rightarrow> sweep_error + sweep_finding list" and xs e
    using that by (induction xs) (auto simp: bind_res_def split: sum.splits)
  from Inl have "\<exists>i < 0. e = Index_error i"
    unfolding collect_matrix_def
    by (auto dest!: step vote split: option.splits prod.splits)
  then show ?thesis using Inl by (simp add: collect_all_def bind_res_def)
next
  case (Inr mx)
  define fs where "fs = first_of_key dedupe_key [] (collect_ledger files @ collect_fast_track (ph_fast ph) @ mx @ collect_0d (ph_0d ph))"
  have all: "list_all classified fs"
    using first_of_key_subset [of dedupe_key "[]"] matrix_classified [OF Inr] collected_classified fast_track_classified
    unfolding fs_def list_all_iff by fastforce
  have "distinct (map dedupe_key fs)" unfolding fs_def using first_of_key_distinct by blast
  moreover have "length (filter sf_expressible fs) + length (filter (\<lambda>f. \<not> sf_expressible f) fs) = length fs"
    by (rule sum_length_filter_compl)
  moreover have "list_all (\<lambda>f. sf_expressible f = list_ex (\<lambda>s. (sc_cwe s, sc_language s) = class_key f \<and> sf_expressible f) (classes_of fs)) fs"
    using class_of_expressible by (auto simp: list_all_iff list_ex_iff)
  ultimately show ?thesis
    using Inr all classes_distinct [of fs] in_classes
    by (simp add: collect_all_def bind_res_def Let_def collected_exact_def list_all_iff flip: fs_def)
qed

section \<open>What is drafted\<close>

definition slug_of :: "sweep_class \<Rightarrow> string" where
  "slug_of c = class_slug (sc_cwe c) (sc_language c)"

definition draft_entry :: "sweep_finding list \<Rightarrow> sweep_class \<Rightarrow> string \<times> string option" where
  "draft_entry fs c = (slug_of c, Some (skeleton c (map ((!) fs) (sc_members c))))"

definition covered_by :: "pack_rule list \<Rightarrow> sweep_class \<Rightarrow> bool" where
  "covered_by rules c \<longleftrightarrow> rules_for rules (sc_cwe c, sc_language c) \<noteq> []"

text \<open>A class needs nothing when a rule covers it, when its rule exists, or when its draft does.\<close>

definition taken_care :: "pack_rule list \<Rightarrow> string list \<Rightarrow> drafts \<Rightarrow> sweep_class \<Rightarrow> bool" where
  "taken_care rules known ds c \<longleftrightarrow> covered_by rules c \<or> draft_rule_id (sc_cwe c) (sc_language c) \<in> set known
     \<or> map_of ds (slug_of c) \<noteq> None"

lemma update_absent: "map_of ds k = None \<Longrightarrow> AList.update k v ds = ds @ [(k, v)]"
  by (induction ds) (auto split: if_splits)

lemma draft_class_taken:
  "taken_care rules known ds c \<Longrightarrow> dr_emitted (fst (draft_class rules known fs c (r, ds))) = dr_emitted r
     \<and> snd (draft_class rules known fs c (r, ds)) = ds
     \<and> length (dr_skipped (fst (draft_class rules known fs c (r, ds)))) = Suc (length (dr_skipped r))"
  by (auto simp: draft_class_def taken_care_def covered_by_def rules_for_def slug_of_def Let_def)

lemma draft_class_new:
  "\<not> taken_care rules known ds c \<Longrightarrow>
     draft_class rules known fs c (r, ds) = (r\<lparr>dr_emitted := dr_emitted r @ [slug_of c]\<rparr>, ds @ [draft_entry fs c])"
  by (simp add: draft_class_def taken_care_def covered_by_def rules_for_def slug_of_def draft_entry_def Let_def update_absent)

lemma taken_care_grows: "taken_care rules known ds c \<Longrightarrow> set known \<subseteq> set known' \<Longrightarrow> taken_care rules known' (ds @ es) c"
  by (auto simp: taken_care_def map_add_def split: option.splits)

lemma all_taken:
  assumes "list_all (taken_care rules known ds) cs" and "dr_emitted r = es"
  shows "dr_emitted (fst (fold (draft_class rules known fs) cs (r, ds))) = es
    \<and> snd (fold (draft_class rules known fs) cs (r, ds)) = ds"
  using assms
proof (induction cs arbitrary: r)
  case (Cons c cs)
  obtain r1 where one: "draft_class rules known fs c (r, ds) = (r1, ds)" "dr_emitted r1 = es"
    using draft_class_taken [of rules known ds c fs r] Cons.prems by (cases "draft_class rules known fs c (r, ds)") auto
  then show ?case using Cons by simp
qed simp

lemma draft_fold:
  assumes "fold (draft_class rules known fs) cs (r, ds) = (r', ds')"
  shows "\<exists>new. ds' = ds @ map (draft_entry fs) new \<and> dr_emitted r' = dr_emitted r @ map slug_of new
    \<and> set new \<subseteq> set cs \<and> list_all (\<lambda>c. \<not> covered_by rules c \<and> map_of ds (slug_of c) = None) new
    \<and> distinct (map slug_of new) \<and> list_all (taken_care rules known ds') cs
    \<and> length new + length (dr_skipped r') = length cs + length (dr_skipped r)"
  using assms
proof (induction cs arbitrary: r ds)
  case Nil
  then show ?case by (intro exI [of _ "[]"]) simp
next
  case (Cons c cs)
  obtain r1 ds1 where one: "draft_class rules known fs c (r, ds) = (r1, ds1)" by fastforce
  then have "fold (draft_class rules known fs) cs (r1, ds1) = (r', ds')" using Cons.prems by simp
  from Cons.IH [OF this] obtain new where new: "ds' = ds1 @ map (draft_entry fs) new"
      "dr_emitted r' = dr_emitted r1 @ map slug_of new" "set new \<subseteq> set cs"
      "list_all (\<lambda>c. \<not> covered_by rules c \<and> map_of ds1 (slug_of c) = None) new" "distinct (map slug_of new)"
      "list_all (taken_care rules known ds') cs"
      "length new + length (dr_skipped r') = length cs + length (dr_skipped r1)"
    by blast
  show ?case
  proof (cases "taken_care rules known ds c")
    case True
    then have d: "dr_emitted r1 = dr_emitted r" "ds1 = ds" "length (dr_skipped r1) = Suc (length (dr_skipped r))"
      using draft_class_taken [OF True, of fs r] one by simp_all
    moreover have "taken_care rules known ds' c" using taken_care_grows [OF True, of known] new(1) d by simp
    ultimately show ?thesis using new by (intro exI [of _ new]) auto
  next
    case False
    then have d: "r1 = r\<lparr>dr_emitted := dr_emitted r @ [slug_of c]\<rparr>" "ds1 = ds @ [draft_entry fs c]"
      using draft_class_new [OF False, of fs r] one by simp_all
    have fresh: "\<not> covered_by rules c" "map_of ds (slug_of c) = None" using False by (auto simp: taken_care_def)
    have others: "map_of ds (slug_of x) = None \<and> slug_of x \<noteq> slug_of c" if "x \<in> set new" for x
      using new(4) that by (auto simp: d list_all_iff draft_entry_def map_add_def split: option.splits if_splits)
    have "taken_care rules known ds' c"
      using new(1) d by (auto simp: taken_care_def draft_entry_def map_add_def split: option.splits)
    moreover have "list_all (\<lambda>c. \<not> covered_by rules c \<and> map_of ds (slug_of c) = None) (c # new)"
      using fresh others new(4) by (auto simp: list_all_iff)
    moreover have "slug_of c \<notin> set (map slug_of new)" using others by force
    ultimately show ?thesis
      using new d by (intro exI [of _ "c # new"]) (simp, blast)
  qed
qed

definition drafting_exact :: "collected \<Rightarrow> pack_file list \<Rightarrow> drafts \<Rightarrow> draft_result \<Rightarrow> drafts \<Rightarrow> bool" where
  "drafting_exact col pack ds r ds' \<longleftrightarrow>
     (let rules = load_pack_rules (map pf_rules pack);
          new = drop (length ds) ds' in
      take (length ds) ds' = ds \<and> dr_emitted r = map fst new \<and> distinct (dr_emitted r)
      \<and> list_all (\<lambda>e. map_of ds (fst e) = None
           \<and> list_ex (\<lambda>c. e = draft_entry (co_findings col) c \<and> \<not> covered_by rules c) (co_classes col)) new
      \<and> list_all (taken_care rules (existing_rule_ids pack ds) ds') (co_classes col)
      \<and> length (dr_emitted r) + length (dr_skipped r) = length (co_classes col))"

text \<open>
  C7. No class is left without a rule, and none gets two. After the draft stage every class of the
  collect stage is covered by the pack, has its rule or has its draft; every new draft is the skeleton of a class no
  rule covers, earlier drafts are untouched, each class is drafted or skipped with a reason, and running the
  stage again drafts nothing.
\<close>

theorem drafting_is_exact:
  "case do_draft (Some col) pack ds of
     Inl e \<Rightarrow> False
   | Inr (r, ds') \<Rightarrow> drafting_exact col pack ds r ds'
       \<and> (case do_draft (Some col) pack ds' of Inl e \<Rightarrow> False | Inr (r2, ds2) \<Rightarrow> dr_emitted r2 = [] \<and> ds2 = ds')"
proof -
  let ?rules = "load_pack_rules (map pf_rules pack)" and ?fs = "co_findings col" and ?cs = "co_classes col"
  let ?empty = "\<lparr>dr_emitted = [], dr_skipped = []\<rparr>"
  obtain r ds' where run1: "fold (draft_class ?rules (existing_rule_ids pack ds) ?fs) ?cs (?empty, ds) = (r, ds')" by fastforce
  then obtain new where new: "ds' = ds @ map (draft_entry ?fs) new" "dr_emitted r = map slug_of new"
      "set new \<subseteq> set ?cs" "list_all (\<lambda>c. \<not> covered_by ?rules c \<and> map_of ds (slug_of c) = None) new"
      "distinct (map slug_of new)" "list_all (taken_care ?rules (existing_rule_ids pack ds) ds') ?cs"
      "length new + length (dr_skipped r) = length ?cs"
    using draft_fold [OF run1] by auto
  have exact: "drafting_exact col pack ds r ds'"
    using new by (auto simp: drafting_exact_def Let_def list_all_iff list_ex_iff comp_def draft_entry_def)
  obtain r2 ds2 where run2: "fold (draft_class ?rules (existing_rule_ids pack ds') ?fs) ?cs (?empty, ds') = (r2, ds2)" by fastforce
  have known: "set (existing_rule_ids pack ds) \<subseteq> set (existing_rule_ids pack ds')"
    by (force simp: existing_rule_ids_def new(1) map_filter_def)
  have "list_all (taken_care ?rules (existing_rule_ids pack ds') ds') ?cs"
    using new(6) taken_care_grows [OF _ known, of ?rules ds' _ "[]"] by (auto simp: list_all_iff)
  then have "dr_emitted (fst (fold (draft_class ?rules (existing_rule_ids pack ds') ?fs) ?cs (?empty, ds'))) = []
      \<and> snd (fold (draft_class ?rules (existing_rule_ids pack ds') ?fs) ?cs (?empty, ds')) = ds'"
    by (rule all_taken) simp
  then show ?thesis using run1 exact by (simp add: do_draft_def run2)
qed

section \<open>Two places where the stages differ from what they say\<close>

text \<open>A vote whose index is \<open>-1\<close> confirms the last candidate.\<close>

lemma negative_vote_confirms_last:
  "vo_confirmed r \<Longrightarrow> vo_idx r = Some (- 1) \<Longrightarrow> cs \<noteq> [] \<Longrightarrow> matrix_vote cs name r = Inr [of_candidate name (last cs)]"
  by (cases cs) (simp_all add: matrix_vote_def py_index_def last_conv_nth)

text \<open>The language the ledger reader found by majority is replaced by that of the first location.\<close>

definition config_first :: ledger_file where
  "config_first = \<lparr>lr_path = ''r'', lr_dir = ''d'', lr_link = False, lr_doc = Some \<lparr>ld_repository = None, ld_commit = None,
     ld_findings = [\<lparr>lf_id = None, lf_validity = Some ''confirmed'', lf_resolution = None, lf_cwes = [''CWE-79''], lf_category = None,
       lf_severity = None, lf_paths = [''app-config.yaml'', ''a.ts'', ''b.ts''], lf_title = None, lf_code = None\<rparr>]\<rparr>\<rparr>"

lemma first_location_decides:
  "map tp_language (mine_corpus [config_first]) = [''typescript'']"
  "map sf_language (collect_ledger [config_first]) = [''yaml'']"
  by code_simp+

end
