(* ===== verification/Corpus_Walk.thy ===== *)
theory Corpus_Walk
  imports Py_Json Py_Text
begin

text \<open>
  \<open>corpus/resolver.py\<close>, from the file system to the records of one directory: which directories are walked,
  which files are reports and which are aliases of one, what a record says of its report, and which of
  several records owns a shared cumulative report. A directory is the list of its entries in the order
  they are listed; a link carries what it leads to. \<open>json.loads\<close> is the argument \<open>loads\<close>, \<open>None\<close> for a
  text that is no JSON; what the code does not catch is the left side of a sum.
\<close>

section \<open>Files\<close>

datatype file_content = Os_error | Undecodable | Content string

datatype fsnode =
    Dir "(string \<times> fsnode) list"
  | Dir_link string "(string \<times> fsnode) list"
  | File file_content
  | File_link string "file_content option"

type_synonym dir_entries = "(string \<times> fsnode) list"

type_synonym path = "string list"

definition SKIP_DIR_NAMES :: "string list" where
  "SKIP_DIR_NAMES = [''_manifest'', ''.git'', ''.claude'', ''.triage-state'', ''.threat-model-state'', ''.scratch'']"

definition SKIP_DIR_PREFIXES :: "string list" where
  "SKIP_DIR_PREFIXES = [''.cache'', ''.tmp'', ''.verify'']"

definition skip_dir :: "string \<Rightarrow> bool" where
  "skip_dir name \<longleftrightarrow> name \<in> set SKIP_DIR_NAMES \<or> list_ex (startswith name) SKIP_DIR_PREFIXES"

text \<open>\<open>os.walk\<close> without following links: the directory and, in the order of its entries, those below it.\<close>

lemma size_entry: "e \<in> set es \<Longrightarrow> size (snd e) < Suc (size_list (size_prod (\<lambda>_. 0) size) es)"
  by (induction es) auto

function walk :: "path \<Rightarrow> fsnode \<Rightarrow> (path \<times> dir_entries) list" where
  "walk d (Dir es) = (d, es) # concat (map (\<lambda>e. if skip_dir (fst e) then [] else walk (d @ [fst e]) (snd e)) es)"
| "walk d (Dir_link t es) = []"
| "walk d (File c) = []"
| "walk d (File_link t c) = []"
  by pat_completeness auto
termination
  by (relation "measure (\<lambda>(d, x). size x)") (auto dest: size_entry)

text \<open>The walk starts at a directory even when a link leads there.\<close>

definition walk_from :: "path \<Rightarrow> fsnode \<Rightarrow> (path \<times> dir_entries) list" where
  "walk_from d x = (case x of Dir es \<Rightarrow> walk d x | Dir_link t es \<Rightarrow> walk d (Dir es) | _ \<Rightarrow> [])"

definition is_dir :: "fsnode \<Rightarrow> bool" where
  "is_dir x \<longleftrightarrow> (case x of Dir _ \<Rightarrow> True | Dir_link _ _ \<Rightarrow> True | _ \<Rightarrow> False)"

definition is_file :: "fsnode \<Rightarrow> bool" where
  "is_file x \<longleftrightarrow> (case x of File _ \<Rightarrow> True | File_link _ (Some _) \<Rightarrow> True | _ \<Rightarrow> False)"

definition own_file :: "fsnode \<Rightarrow> bool" where
  "own_file x \<longleftrightarrow> (case x of File _ \<Rightarrow> True | _ \<Rightarrow> False)"

definition read_file :: "dir_entries \<Rightarrow> string \<Rightarrow> file_content" where
  "read_file es name = (case map_of es name of
       Some (File c) \<Rightarrow> c | Some (File_link _ (Some c)) \<Rightarrow> c | _ \<Rightarrow> Os_error)"

section \<open>Identity\<close>

definition REPORT_KINDS :: "(string \<times> string \<times> string) list" where
  "REPORT_KINDS = [(''code-audit'', ''-security-audit.json'', ''-security-audit.md''),
     (''cloud-config'', ''-cloud-config-audit.json'', ''-cloud-config-audit.md''),
     (''container-audit'', ''-container-audit.json'', ''-container-audit.md'')]"

definition REF_SUFFIX_RX :: rx where
  "REF_SUFFIX_RX = seq [lit ''__'', Grp 1 (seq [alts [lit ''release'', lit ''openshift''], lit ''-'', plus (Cls is_digit),
     lit ''.'', plus (Cls is_digit), opt (Cat (lit ''.'') (plus (Cls is_digit)))]), At Eos]"

definition split_ref :: "string \<Rightarrow> string \<times> string option" where
  "split_ref b = (case re_search REF_SUFFIX_RX b of
     None \<Rightarrow> (b, None) | Some m \<Rightarrow> (m_before m, m_group 1 m))"

definition REF_KINDS :: "string list" where
  "REF_KINDS = [''branch'', ''tag'', ''default'', ''stream'']"

definition json_text :: "json \<Rightarrow> string option" where
  "json_text j = (case j of JStr s \<Rightarrow> Some s | _ \<Rightarrow> None)"

definition or_empty :: "json \<Rightarrow> json" where
  "or_empty j = (if json_true j then j else JObj [])"

definition declared_ref :: "(string \<Rightarrow> json option) \<Rightarrow> file_content \<Rightarrow> string + string option \<times> string option" where
  "declared_ref loads c = (case c of
       Os_error \<Rightarrow> Inr (None, None)
     | Undecodable \<Rightarrow> Inl ''UnicodeDecodeError''
     | Content raw \<Rightarrow>
         if \<not> occurs_in ([CHR 0x22] @ ''ref'' @ [CHR 0x22]) raw \<and> \<not> occurs_in ([CHR 0x22] @ ''ref_kind'' @ [CHR 0x22]) raw
         then Inr (None, None)
         else (case loads raw of
             None \<Rightarrow> Inr (None, None)
           | Some doc \<Rightarrow> (case json_get ''metadata'' doc of
               Inl _ \<Rightarrow> Inr (None, None)
             | Inr md \<Rightarrow>
                 bind_res (json_get ''ref'' (or_empty md)) (\<lambda>rf.
                 bind_res (json_get ''ref_kind'' (or_empty md)) (\<lambda>kind.
                 Inr (if truthy (json_text rf) then json_text rf else None,
                   case json_text kind of Some k \<Rightarrow> if k \<in> set REF_KINDS then Some k else None | None \<Rightarrow> None))))))"

definition URL_IN_TEXT_RX :: rx where
  "URL_IN_TEXT_RX = seq [lit ''http'', opt (lit ''s''), lit ''://'',
     plus (Cls (\<lambda>c. \<not> is_space c \<and> c \<notin> set '';,()<>'' \<and> c \<noteq> CHR 0x22 \<and> c \<noteq> CHR 0x27))]"

definition normalize_repo_url :: "string \<Rightarrow> string option" where
  "normalize_repo_url raw =
     (if raw = [] then None
      else (case re_search URL_IN_TEXT_RX raw of
        None \<Rightarrow> None
      | Some m \<Rightarrow>
          (let url = rstrip_with (\<lambda>c. c = CHR ''/'') (rstrip_with (\<lambda>c. c = CHR ''.'') (m_text m)) in
           if removesuffix url ''.git'' = [] then None else Some (removesuffix url ''.git''))))"

text \<open>The repository a report names, cleaned up when a URL is found in it; null when nothing is read.\<close>

definition repo_url_of :: "(string \<Rightarrow> json option) \<Rightarrow> file_content \<Rightarrow> string + json" where
  "repo_url_of loads c = (case c of
       Os_error \<Rightarrow> Inr JNull
     | Undecodable \<Rightarrow> Inl ''UnicodeDecodeError''
     | Content raw \<Rightarrow> (case loads raw of
         None \<Rightarrow> Inr JNull
       | Some rep \<Rightarrow>
           bind_res (json_get ''metadata'' rep) (\<lambda>md.
           bind_res (json_get ''repository'' (or_empty md)) (\<lambda>repo. case repo of
               JStr s \<Rightarrow> Inr (case normalize_repo_url s of Some url \<Rightarrow> JStr url | None \<Rightarrow> JStr s)
             | _ \<Rightarrow> if json_true repo then Inl ''TypeError'' else Inr repo))))"

section \<open>Records\<close>

record tree_meta =
  tm_label :: string
  tm_ownership :: string
  tm_business_unit :: string

record report_record =
  rr_tree :: string
  rr_meta :: tree_meta
  rr_product :: "string option"
  rr_repo_dir :: string
  rr_base :: string
  rr_base_slug :: string
  rr_ref :: "string option"
  rr_audit_json :: "path option"
  rr_audit_md :: "path option"
  rr_findings_current :: "path option"
  rr_findings_layer :: "path option"
  rr_triage_json :: "path option"
  rr_threat_model :: "path option"
  rr_priv_profile :: "path option"
  rr_preferred :: string
  rr_repo_url :: json
  rr_kind :: string
  rr_ref_kind :: "string option"
  rr_ref_source :: "string option"

definition is_branch_audit :: "report_record \<Rightarrow> bool" where
  "is_branch_audit r \<longleftrightarrow>
     (if rr_ref_source r = Some ''metadata'' then rr_ref_kind r = Some ''branch'' else rr_ref r \<noteq> None)"

definition is_md_only :: "report_record \<Rightarrow> bool" where
  "is_md_only r \<longleftrightarrow> rr_audit_json r = None"

definition companion :: "path \<Rightarrow> dir_entries \<Rightarrow> string \<Rightarrow> string \<Rightarrow> path option" where
  "companion d es b suffix =
     (case map_of es (b @ suffix) of Some x \<Rightarrow> if is_file x then Some (d @ [b @ suffix]) else None | None \<Rightarrow> None)"

text \<open>What the walk knows of a report: its kind, its base and which of the two files are there.\<close>

record found =
  fd_kind :: string
  fd_base :: string
  fd_json :: "string option"
  fd_md :: "string option"

text \<open>The directory starts with the name of its tree.\<close>

definition make_record :: "(string \<Rightarrow> json option) \<Rightarrow> bool \<Rightarrow> tree_meta \<Rightarrow> path \<Rightarrow> dir_entries \<Rightarrow> found
    \<Rightarrow> string + report_record" where
  "make_record loads with_urls meta d es f =
     (let rel = tl d; b = fd_base f;
          repo_dir = last d;
          slug_ref = (case split_ref b of (_, Some rf) \<Rightarrow> Some rf | (_, None) \<Rightarrow> snd (split_ref repo_dir));
          current = companion d es b ''-findings-current.json'' in
      bind_res (case fd_json f of None \<Rightarrow> Inr (None, None) | Some n \<Rightarrow> declared_ref loads (read_file es n)) (\<lambda>(rf, kind).
      bind_res (case fd_json f of
            None \<Rightarrow> Inr JNull
          | Some n \<Rightarrow> if with_urls then repo_url_of loads (read_file es n) else Inr JNull) (\<lambda>url.
      Inr \<lparr>rr_tree = hd d, rr_meta = meta,
        rr_product = (if length rel > 1 then Some (join ''/'' (butlast rel)) else None),
        rr_repo_dir = repo_dir, rr_base = b, rr_base_slug = fst (split_ref b),
        rr_ref = (if rf \<noteq> None then rf else slug_ref),
        rr_audit_json = map_option (\<lambda>n. d @ [n]) (fd_json f), rr_audit_md = map_option (\<lambda>n. d @ [n]) (fd_md f),
        rr_findings_current = current, rr_findings_layer = companion d es b ''-findings-layer.json'',
        rr_triage_json = companion d es b ''-triage.json'', rr_threat_model = companion d es b ''-threat-model.md'',
        rr_priv_profile = companion d es b ''-priv-profile.json'',
        rr_preferred = (if current \<noteq> None then ''findings_current'' else if fd_json f \<noteq> None then ''audit_json''
          else ''audit_md_only''),
        rr_repo_url = url, rr_kind = fd_kind f,
        rr_ref_kind = (if rf \<noteq> None then kind else None),
        rr_ref_source = (if rf \<noteq> None then Some ''metadata'' else if slug_ref \<noteq> None then Some ''slug'' else None)\<rparr>)))"

section \<open>The reports of one directory\<close>

definition bases_of :: "string \<Rightarrow> dir_entries \<Rightarrow> string list" where
  "bases_of suffix es = map (\<lambda>(n, x). take (length n - length suffix) n)
     (filter (\<lambda>(n, x). own_file x \<and> endswith n suffix) es)"

text \<open>The marker of a container audit stays inside its base, so its companions are its own.\<close>

definition found_in :: "dir_entries \<Rightarrow> string \<times> string \<times> string \<Rightarrow> found list" where
  "found_in es k = (case k of (kind, json_suffix, md_suffix) \<Rightarrow>
     (let json_bases = bases_of json_suffix es; md_bases = bases_of md_suffix es;
          marked = (\<lambda>b. if kind = ''container-audit'' then b @ ''-container-audit'' else b) in
      map (\<lambda>b. \<lparr>fd_kind = kind, fd_base = marked b,
          fd_json = (if b \<in> set json_bases then Some (b @ json_suffix) else None),
          fd_md = (if b \<in> set md_bases then Some (b @ md_suffix) else None)\<rparr>)
        (sort_key marked (remdups (json_bases @ md_bases)))))"

record alias_row =
  al_link :: path
  al_kind :: string
  al_target :: string

definition dir_aliases :: "path \<Rightarrow> dir_entries \<Rightarrow> alias_row list" where
  "dir_aliases d = List.map_filter (\<lambda>(n, x). case x of
       Dir_link t _ \<Rightarrow> if skip_dir n then None else Some \<lparr>al_link = d @ [n], al_kind = ''dir'', al_target = t\<rparr>
     | _ \<Rightarrow> None)"

definition file_aliases :: "path \<Rightarrow> dir_entries \<Rightarrow> string \<times> string \<times> string \<Rightarrow> alias_row list" where
  "file_aliases d es k = (case k of (kind, json_suffix, md_suffix) \<Rightarrow>
     concat (map (\<lambda>(n, x). case x of
         File_link t _ \<Rightarrow> map (\<lambda>_. \<lparr>al_link = d @ [n], al_kind = ''file'', al_target = t\<rparr>)
           (filter (endswith n) [json_suffix, md_suffix])
       | _ \<Rightarrow> []) es))"

fun collect_res :: "('a \<Rightarrow> 'e + 'b) \<Rightarrow> 'a list \<Rightarrow> 'e + 'b list" where
  "collect_res f [] = Inr []"
| "collect_res f (x # xs) = bind_res (f x) (\<lambda>y. bind_res (collect_res f xs) (\<lambda>ys. Inr (y # ys)))"

definition dir_records :: "(string \<Rightarrow> json option) \<Rightarrow> bool \<Rightarrow> tree_meta \<Rightarrow> path \<times> dir_entries \<Rightarrow> string + report_record list" where
  "dir_records loads with_urls meta de = (case de of (d, es) \<Rightarrow>
     collect_res (make_record loads with_urls meta d es) (concat (map (found_in es) REPORT_KINDS)))"

section \<open>Shared cumulative reports\<close>

datatype corpus_warning =
    Tree_missing string
  | Unregistered string string string
  | Nested_duplicate path path string
  | Shared_unowned path nat "string list"

definition cumulative_kind :: "(string \<Rightarrow> json option) \<Rightarrow> file_content \<Rightarrow> string option" where
  "cumulative_kind loads c = (case c of
       Content raw \<Rightarrow> (case loads raw of
           Some (JObj kvs) \<Rightarrow> Some (if map_of kvs ''executive_summary'' \<noteq> None then ''code-audit'' else ''cloud-config'')
         | _ \<Rightarrow> None)
     | _ \<Rightarrow> None)"

definition disown :: "report_record \<Rightarrow> report_record" where
  "disown r = r\<lparr>rr_findings_current := None,
     rr_preferred := (if rr_audit_json r \<noteq> None then ''audit_json'' else ''audit_md_only'')\<rparr>"

text \<open>
  Which records of a base keep the cumulative report beside them: all of them, those of one kind, or all
  with a warning.
\<close>

definition group_verdict :: "(string \<Rightarrow> json option) \<Rightarrow> dir_entries \<Rightarrow> report_record list
    \<Rightarrow> corpus_warning option \<times> string option" where
  "group_verdict loads es members =
     (if length members < 2 then (None, None)
      else (case List.map_filter rr_findings_current members of
        [] \<Rightarrow> (None, None)
      | p # _ \<Rightarrow>
          (let owner = cumulative_kind loads (read_file es (last p)); kinds = sort (remdups (map rr_kind members)) in
           case owner of
             None \<Rightarrow> (Some (Shared_unowned p (length members) kinds), None)
           | Some k \<Rightarrow>
               if k \<notin> set kinds then (Some (Shared_unowned p (length members) kinds), None)
               else (None, Some k))))"

text \<open>The groups of the bases are disjoint, so each record is decided by the verdict on its own.\<close>

definition claim_shared_cumulative :: "(string \<Rightarrow> json option) \<Rightarrow> dir_entries \<Rightarrow> report_record list
    \<Rightarrow> report_record list \<times> corpus_warning list" where
  "claim_shared_cumulative loads es recs =
     (let verdicts = map (\<lambda>(b, members). (b, group_verdict loads es members)) (sort_key fst (group_by rr_base recs)) in
      (map (\<lambda>r. case map_of verdicts (rr_base r) of
           Some (_, Some k) \<Rightarrow> if rr_kind r = k then r else disown r
         | _ \<Rightarrow> r) recs,
       List.map_filter (\<lambda>(b, w, k). w) verdicts))"

section \<open>What a directory gives\<close>

text \<open>The names of a directory are different, and so are those of every directory below it.\<close>

function names_differ :: "fsnode \<Rightarrow> bool" where
  "names_differ (Dir es) = (distinct (map fst es) \<and> list_all (\<lambda>e. names_differ (snd e)) es)"
| "names_differ (Dir_link t es) = (distinct (map fst es) \<and> list_all (\<lambda>e. names_differ (snd e)) es)"
| "names_differ (File c) = True"
| "names_differ (File_link t c) = True"
  by pat_completeness auto
termination
  by (relation "measure size") (auto dest: size_entry)

lemma walk_tidy: "names_differ x \<Longrightarrow> de \<in> set (walk d x) \<Longrightarrow> distinct (map fst (snd de))"
proof (induction d x arbitrary: de rule: walk.induct)
  case (1 d es)
  from 1(3) consider "de = (d, es)"
    | e where "e \<in> set es" "\<not> skip_dir (fst e)" "de \<in> set (walk (d @ [fst e]) (snd e))"
    by (auto split: if_splits)
  then show ?case
  proof cases
    case 2
    with 1(2) have "names_differ (snd e)" by (auto simp: list_all_iff)
    with 1(1) 2 show ?thesis by blast
  qed (use 1(2) in simp)
qed simp_all

lemma walk_prefix: "de \<in> set (walk d x) \<Longrightarrow> \<exists>t. fst de = d @ t"
proof (induction d x rule: walk.induct)
  case (1 d es)
  then show ?case by (fastforce split: if_splits)
qed simp_all

lemma distinct_concat_map:
  assumes "distinct (map f xs)" and "\<And>x. x \<in> set xs \<Longrightarrow> distinct (g x)"
    and "\<And>x y. x \<in> set xs \<Longrightarrow> y \<in> set (g x) \<Longrightarrow> h y = f x"
  shows "distinct (concat (map g xs))"
  using assms
proof (induction xs)
  case (Cons x xs)
  have "set (g x) \<inter> (\<Union>z \<in> set xs. set (g z)) = {}"
  proof (rule ccontr)
    assume "set (g x) \<inter> (\<Union>z \<in> set xs. set (g z)) \<noteq> {}"
    then obtain y z where "y \<in> set (g x)" "z \<in> set xs" "y \<in> set (g z)" by auto
    with Cons.prems(3) have "f x = f z" by (metis list.set_intros(1) list.set_intros(2))
    with Cons.prems(1) \<open>z \<in> set xs\<close> show False by auto
  qed
  with Cons show ?case by simp
qed simp

lemma walk_distinct: "names_differ x \<Longrightarrow> distinct (map fst (walk d x))"
proof (induction d x rule: walk.induct)
  case (1 d es)
  let ?sub = "\<lambda>e. map fst (if skip_dir (fst e) then [] else walk (d @ [fst e]) (snd e))"
  have below: "\<exists>t. p = d @ [fst e] @ t" if "p \<in> set (?sub e)" for e p
    using that walk_prefix by (fastforce split: if_splits)
  have "distinct (concat (map ?sub es))"
  proof (rule distinct_concat_map [where f = fst and h = "\<lambda>p. p ! length d"])
    show "distinct (map fst es)" using 1(2) by simp
    show "distinct (?sub e)" if "e \<in> set es" for e
      using 1 that by (auto simp: list_all_iff)
    show "p ! length d = fst e" if "p \<in> set (?sub e)" for e p
      using below [OF that] by auto
  qed
  moreover have "d \<notin> set (concat (map ?sub es))" using below by fastforce
  moreover have "map fst (walk d (Dir es)) = d # concat (map ?sub es)"
    by (simp add: map_concat comp_def)
  ultimately show ?case by simp
qed simp_all

text \<open>The names of the reports with a suffix.\<close>

definition report_names :: "string \<Rightarrow> dir_entries \<Rightarrow> string list" where
  "report_names suffix es = map fst (filter (\<lambda>(n, x). own_file x \<and> endswith n suffix) es)"

lemma endswith_split: "endswith n s \<longleftrightarrow> (\<exists>b. n = b @ s)"
proof
  assume "endswith n s"
  then obtain r where "rev n = rev s @ r" by (auto simp: endswith_def startswith_iff)
  then have "n = rev r @ s" by (metis rev_append rev_rev_ident)
  then show "\<exists>b. n = b @ s" by blast
qed (auto simp: endswith_def)

lemma bases_report_names: "map (\<lambda>b. b @ suffix) (bases_of suffix es) = report_names suffix es"
proof -
  have "take (length n - length suffix) n @ suffix = n" if "endswith n suffix" for n
    using that by (auto simp: endswith_split)
  then show ?thesis by (auto simp: bases_of_def report_names_def)
qed

lemma distinct_bases: "distinct (map fst es) \<Longrightarrow> distinct (bases_of suffix es)"
proof -
  assume "distinct (map fst es)"
  then have "distinct (report_names suffix es)" by (simp add: report_names_def distinct_map_filter)
  then show ?thesis by (metis bases_report_names distinct_map)
qed

lemma kept_once:
  assumes "distinct xs" and "set xs \<subseteq> set ys"
  shows "mset (filter (\<lambda>x. x \<in> set xs) (sort_key k (remdups ys))) = mset xs"
proof -
  have "mset (filter (\<lambda>x. x \<in> set xs) (remdups ys)) = mset xs"
    using assms by (subst set_eq_iff_mset_eq_distinct [symmetric]) auto
  then show ?thesis by (simp only: mset_filter mset_sort)
qed

lemma map_filter_if:
  "List.map_filter f (map g xs) = map h (filter P xs)" if "\<And>x. f (g x) = (if P x then Some (h x) else None)"
  by (induction xs) (auto simp: that)

lemma found_reports:
  assumes "distinct (map fst es)"
  shows "mset (List.map_filter fd_json (found_in es (kind, js, ms))) = mset (report_names js es)"
    and "mset (List.map_filter fd_md (found_in es (kind, js, ms))) = mset (report_names ms es)"
proof -
  let ?m = "\<lambda>b. if kind = ''container-audit'' then b @ ''-container-audit'' else b"
  let ?bs = "sort_key ?m (remdups (bases_of js es @ bases_of ms es))"
  have "List.map_filter fd_json (found_in es (kind, js, ms))
      = map (\<lambda>b. b @ js) (filter (\<lambda>b. b \<in> set (bases_of js es)) ?bs)"
    "List.map_filter fd_md (found_in es (kind, js, ms))
      = map (\<lambda>b. b @ ms) (filter (\<lambda>b. b \<in> set (bases_of ms es)) ?bs)"
    unfolding found_in_def prod.case Let_def by (rule map_filter_if, simp)+
  moreover have "mset (filter (\<lambda>b. b \<in> set (bases_of js es)) ?bs) = mset (bases_of js es)"
    "mset (filter (\<lambda>b. b \<in> set (bases_of ms es)) ?bs) = mset (bases_of ms es)"
    by (rule kept_once [OF distinct_bases [OF assms]], simp)+
  ultimately show "mset (List.map_filter fd_json (found_in es (kind, js, ms))) = mset (report_names js es)"
    "mset (List.map_filter fd_md (found_in es (kind, js, ms))) = mset (report_names ms es)"
    by (simp_all flip: bases_report_names)
qed

lemma collect_res_map:
  "collect_res f xs = Inr ys \<Longrightarrow> (\<And>x y. x \<in> set xs \<Longrightarrow> f x = Inr y \<Longrightarrow> g y = h x) \<Longrightarrow> map g ys = map h xs"
  by (induction xs arbitrary: ys) auto

lemma make_record_fields:
  assumes "make_record loads with_urls meta d es f = Inr r"
  shows "rr_audit_json r = map_option (\<lambda>n. d @ [n]) (fd_json f)" "rr_audit_md r = map_option (\<lambda>n. d @ [n]) (fd_md f)"
    and "rr_base r = fd_base f" "rr_kind r = fd_kind f" "rr_tree r = hd d" "rr_meta r = meta"
    and "rr_findings_current r = companion d es (fd_base f) ''-findings-current.json''"
  using assms by (auto simp: make_record_def Let_def)

lemma current_path: "companion d es b suffix = Some p \<Longrightarrow> p = d @ [b @ suffix]"
  by (auto simp: companion_def split: option.splits if_splits)

lemma found_kinds: "map fd_kind (found_in es k) = replicate (length (found_in es k)) (fst k)"
  by (cases k) (simp add: found_in_def Let_def comp_def map_replicate_const)

lemma distinct_found: "distinct (map fd_base (found_in es k))"
proof -
  obtain kind js ms where k: "k = (kind, js, ms)" by (cases k)
  let ?m = "\<lambda>b. if kind = ''container-audit'' then b @ ''-container-audit'' else b"
  have "inj ?m" by (simp add: inj_def)
  then show ?thesis
    unfolding k found_in_def prod.case Let_def map_map comp_def found.simps
    by (subst distinct_map) (auto intro: inj_on_subset)
qed

lemma found_distinct: "distinct (map (\<lambda>f. (fd_base f, fd_kind f)) (concat (map (found_in es) REPORT_KINDS)))"
  unfolding map_concat map_map
proof (rule distinct_concat_map [where f = fst and h = snd])
  show "distinct (map fst REPORT_KINDS)" by (simp add: REPORT_KINDS_def)
  show "distinct ((map (\<lambda>f. (fd_base f, fd_kind f)) \<circ> found_in es) k)" for k
    using distinct_found [of es k] by (auto simp: distinct_map inj_on_def)
  show "snd y = fst k" if y: "y \<in> set ((map (\<lambda>f. (fd_base f, fd_kind f)) \<circ> found_in es) k)" for k y
  proof -
    obtain f where "f \<in> set (found_in es k)" "y = (fd_base f, fd_kind f)" using y by auto
    moreover from this have "fd_kind f \<in> set (map fd_kind (found_in es k))" by simp
    ultimately show ?thesis unfolding found_kinds by auto
  qed
qed

lemma length_filter_le_mono:
  "(\<And>x. x \<in> set xs \<Longrightarrow> P x \<Longrightarrow> Q x) \<Longrightarrow> length (filter P xs) \<le> length (filter Q xs)"
  by (induction xs) auto

lemma length_filter_one:
  assumes "distinct (map f xs)"
  shows "length (filter (\<lambda>x. f x = a) xs) \<le> 1"
proof -
  let ?ys = "map f (filter (\<lambda>x. f x = a) xs)"
  have "card (set ?ys) \<le> card {a}" by (rule card_mono) auto
  moreover have "distinct ?ys" using assms by (rule distinct_map_filter)
  ultimately show ?thesis by (metis card_1_singleton_iff distinct_card length_map One_nat_def)
qed

lemma count_map_filter: "count (mset (List.map_filter h xs)) p = length (filter (\<lambda>x. h x = Some p) xs)"
  by (induction xs) (auto split: option.splits)

text \<open>What the verdicts do to one record, and which warnings they give.\<close>

definition decided :: "(string \<Rightarrow> json option) \<Rightarrow> dir_entries \<Rightarrow> report_record list \<Rightarrow> report_record \<Rightarrow> report_record" where
  "decided loads es recs r = (case snd (group_verdict loads es (filter (\<lambda>r'. rr_base r' = rr_base r) recs)) of
     None \<Rightarrow> r | Some k \<Rightarrow> if rr_kind r = k then r else disown r)"

lemma claim_decided:
  "fst (claim_shared_cumulative loads es recs) = map (decided loads es recs) recs"
  "b \<in> rr_base ` set recs \<Longrightarrow> fst (group_verdict loads es (filter (\<lambda>r. rr_base r = b) recs)) = Some w
     \<Longrightarrow> w \<in> set (snd (claim_shared_cumulative loads es recs))"
proof -
  let ?v = "map (\<lambda>(b, members). (b, group_verdict loads es members)) (sort_key fst (group_by rr_base recs))"
  have v: "map_of ?v b = (if b \<in> rr_base ` set recs then Some (group_verdict loads es (filter (\<lambda>r. rr_base r = b) recs)) else None)" for b
    by (simp add: map_of_map map_of_sort_key group_by_lookup comp_def)
  show "fst (claim_shared_cumulative loads es recs) = map (decided loads es recs) recs"
    unfolding claim_shared_cumulative_def Let_def fst_conv
    by (rule map_cong [OF refl]) (simp add: v decided_def split: option.splits prod.splits)
  show "w \<in> set (snd (claim_shared_cumulative loads es recs))"
    if "b \<in> rr_base ` set recs" "fst (group_verdict loads es (filter (\<lambda>r. rr_base r = b) recs)) = Some w"
  proof -
    have m: "map_of ?v b = Some (group_verdict loads es (filter (\<lambda>r. rr_base r = b) recs))" using v that(1) by simp
    show ?thesis
      unfolding claim_shared_cumulative_def Let_def snd_conv in_map_filter
      by (rule bexI [OF _ map_of_SomeD [OF m]]) (simp add: that(2) case_prod_unfold)
  qed
qed

lemma decided_keeps: "rr_audit_json (decided loads es recs r) = rr_audit_json r"
  "rr_audit_md (decided loads es recs r) = rr_audit_md r"
  "rr_findings_current (decided loads es recs r) = Some p \<Longrightarrow> rr_findings_current r = Some p"
  by (auto simp: decided_def disown_def split: option.splits if_splits)

lemma verdict_cases:
  assumes "List.map_filter rr_findings_current members = p # ps"
  shows "length members < 2 \<or> (\<exists>n ks. fst (group_verdict loads es members) = Some (Shared_unowned p n ks))
    \<or> (\<exists>k. snd (group_verdict loads es members) = Some k)"
  unfolding group_verdict_def assms Let_def by (simp split: option.splits)

text \<open>
  In one directory a cumulative report stays with one record, or there is a warning about it.
\<close>

lemma one_owner_in_directory:
  assumes "\<And>r. r \<in> set recs \<Longrightarrow> rr_findings_current r = companion d es (rr_base r) ''-findings-current.json''"
    and "distinct (map (\<lambda>r. (rr_base r, rr_kind r)) recs)"
  shows "count (mset (List.map_filter rr_findings_current (fst (claim_shared_cumulative loads es recs)))) p \<le> 1
    \<or> (\<exists>n ks. Shared_unowned p n ks \<in> set (snd (claim_shared_cumulative loads es recs)))"
proof -
  let ?P = "\<lambda>r. rr_findings_current (decided loads es recs r) = Some p"
  have count: "count (mset (List.map_filter rr_findings_current (fst (claim_shared_cumulative loads es recs)))) p
      = length (filter ?P recs)"
    by (simp add: claim_decided(1) count_map_filter filter_map comp_def)
  show ?thesis
  proof (cases "filter ?P recs")
    case Nil
    then show ?thesis by (simp add: count)
  next
    case (Cons r0 rs)
    then have r0: "r0 \<in> set recs" "?P r0" by (auto dest: filter_eq_ConsD)
    define b where "b = rr_base r0"
    have path: "p = d @ [rr_base r @ ''-findings-current.json'']" if "r \<in> set recs" "rr_findings_current r = Some p" for r
      using assms(1) [OF that(1)] that(2) by (simp add: current_path)
    have base: "rr_base r = b" if "r \<in> set recs" "?P r" for r
      using path [OF that(1) decided_keeps(3) [OF that(2)]] path [OF r0(1) decided_keeps(3) [OF r0(2)]] unfolding b_def by blast
    define members where "members = filter (\<lambda>r. rr_base r = b) recs"
    have current: "rr_findings_current r = Some p" if "r \<in> set members" for r
    proof -
      have "r \<in> set recs" "rr_base r = rr_base r0" using that by (simp_all add: members_def b_def)
      then have "rr_findings_current r = rr_findings_current r0" by (simp only: assms(1) r0(1))
      then show ?thesis using decided_keeps(3) [OF r0(2)] by (rule trans)
    qed
    have r0m: "r0 \<in> set members" using r0(1) by (simp add: members_def b_def)
    then obtain ps where "List.map_filter rr_findings_current members = p # ps"
      using current by (cases members) auto
    note cases = verdict_cases [OF this, of loads es]
    consider "length members < 2" | w where "fst (group_verdict loads es members) = Some w" "\<exists>n ks. w = Shared_unowned p n ks"
      | k where "snd (group_verdict loads es members) = Some k"
      using cases by blast
    then show ?thesis
    proof cases
      case 1
      have "length (filter ?P recs) \<le> length members"
        unfolding members_def using base by (intro length_filter_le_mono) auto
      then show ?thesis using 1 count by simp
    next
      case 2
      then show ?thesis using claim_decided(2) [of b recs loads es w] r0(1) by (auto simp: members_def b_def)
    next
      case 3
      have "rr_kind r = k" if "r \<in> set recs" "?P r" for r
        using 3 that base [OF that] by (auto simp: decided_def members_def disown_def split: if_splits)
      with base have "length (filter ?P recs) \<le> length (filter (\<lambda>r. (rr_base r, rr_kind r) = (b, k)) recs)"
        by (intro length_filter_le_mono) auto
      also have "\<dots> \<le> 1" using assms(2) by (rule length_filter_one)
      finally show ?thesis using count by simp
    qed
  qed
qed

end
