(* ===== verification/Corpus_Resolver.thy ===== *)
theory Corpus_Resolver
  imports Corpus_Walk
begin

text \<open>
  \<open>corpus/resolver.py\<close>, the whole resolution: the trees that are walked, the records, aliases and warnings
  over all of them, and the aggregates every dashboard cites. The configuration is the list of its
  trees and of its engagements; the results directory is the list of its entries.
\<close>

section \<open>Resolving the corpus\<close>

record corpus_config =
  cc_trees :: "(string \<times> tree_meta) list"
  cc_engagements :: "(string \<times> tree_meta) list"

record corpus_resolution =
  rs_records :: "report_record list"
  rs_aliases :: "alias_row list"
  rs_warnings :: "corpus_warning list"
  rs_trees :: "(string \<times> tree_meta) list"

definition active_trees :: "corpus_config \<Rightarrow> dir_entries \<Rightarrow> (string \<times> tree_meta) list" where
  "active_trees cfg ar = fold (\<lambda>(tree, meta) ts.
     case map_of ar tree of Some x \<Rightarrow> if is_dir x then AList.update tree meta ts else ts | None \<Rightarrow> ts)
     (cc_engagements cfg) (cc_trees cfg)"

text \<open>\<open>trees\<close> restricts the run to those named.\<close>

definition selected_trees :: "string list option \<Rightarrow> (string \<times> tree_meta) list \<Rightarrow> (string \<times> tree_meta) list" where
  "selected_trees trees configured = filter (\<lambda>(t, m).
     (case trees of None \<Rightarrow> True | Some ts \<Rightarrow> t \<in> set ts) \<and> tm_ownership m \<noteq> ''harness-qa'') configured"

definition walk_dir :: "(string \<Rightarrow> json option) \<Rightarrow> bool \<Rightarrow> tree_meta \<Rightarrow> path \<times> dir_entries \<Rightarrow> corpus_resolution
    \<Rightarrow> string + corpus_resolution" where
  "walk_dir loads with_urls meta de res =
     bind_res (dir_records loads with_urls meta de) (\<lambda>recs.
       (case claim_shared_cumulative loads (snd de) recs of (owned, ws) \<Rightarrow>
         Inr (res\<lparr>rs_aliases := rs_aliases res @ dir_aliases (fst de) (snd de)
             @ concat (map (file_aliases (fst de) (snd de)) REPORT_KINDS),
           rs_warnings := rs_warnings res @ ws, rs_records := rs_records res @ owned\<rparr>)))"

fun fold_res :: "('a \<Rightarrow> 's \<Rightarrow> 'e + 's) \<Rightarrow> 'a list \<Rightarrow> 's \<Rightarrow> 'e + 's" where
  "fold_res f [] s = Inr s"
| "fold_res f (x # xs) s = bind_res (f x s) (fold_res f xs)"

definition walk_tree :: "(string \<Rightarrow> json option) \<Rightarrow> bool \<Rightarrow> dir_entries \<Rightarrow> string \<times> tree_meta \<Rightarrow> corpus_resolution
    \<Rightarrow> string + corpus_resolution" where
  "walk_tree loads with_urls ar tm res = (case map_of ar (fst tm) of
       Some x \<Rightarrow>
         if is_dir x then fold_res (walk_dir loads with_urls (snd tm)) (walk_from [fst tm] x) res
         else Inr (res\<lparr>rs_warnings := rs_warnings res @ [Tree_missing (fst tm)]\<rparr>)
     | None \<Rightarrow> Inr (res\<lparr>rs_warnings := rs_warnings res @ [Tree_missing (fst tm)]\<rparr>))"

definition REGISTERED_SUFFIXES :: "string list" where
  "REGISTERED_SUFFIXES = [''-security-audit.json'', ''-security-audit.md'', ''-cloud-config-audit.json'',
     ''-cloud-config-audit.md'']"

definition audit_files :: "dir_entries \<Rightarrow> string list" where
  "audit_files es = map fst (filter (\<lambda>(n, x). \<not> is_dir x \<and> list_ex (endswith n) REGISTERED_SUFFIXES) es)"

definition unregistered :: "(string \<times> tree_meta) list \<Rightarrow> string \<times> fsnode \<Rightarrow> corpus_warning option" where
  "unregistered configured e = (case e of (name, x) \<Rightarrow>
     (case x of
        Dir es \<Rightarrow>
          if startswith name ''.'' \<or> map_of configured name \<noteq> None then None
          else (case List.map_filter (\<lambda>(d, ds). case audit_files ds of [] \<Rightarrow> None | f # _ \<Rightarrow> Some (last d, f)) (walk [name] x) of
              [] \<Rightarrow> None
            | (d, f) # _ \<Rightarrow> Some (Unregistered name d f))
      | _ \<Rightarrow> None))"

definition flag_unregistered_trees :: "dir_entries \<Rightarrow> (string \<times> tree_meta) list \<Rightarrow> corpus_warning list" where
  "flag_unregistered_trees ar configured = List.map_filter (unregistered configured) (sort_key fst ar)"

definition report_dir :: "report_record \<Rightarrow> (path \<times> string) option" where
  "report_dir r = (case (if rr_audit_json r \<noteq> None then rr_audit_json r else rr_audit_md r) of
     None \<Rightarrow> None | Some p \<Rightarrow> Some (butlast p, rr_base r))"

definition flag_nested_duplicate_dirs :: "report_record list \<Rightarrow> corpus_warning list" where
  "flag_nested_duplicate_dirs recs =
     (let located = List.map_filter report_dir recs;
          dirs = sort_key (join ''/'') (remdups (map fst located)) in
      concat (map (\<lambda>d. map (Nested_duplicate d (butlast d))
        (sort (remdups (map snd (filter (\<lambda>(d', b). d' = d \<and> (butlast d, b) \<in> set located) located))))) dirs))"

definition resolve_corpus :: "(string \<Rightarrow> json option) \<Rightarrow> bool \<Rightarrow> corpus_config \<Rightarrow> string list option \<Rightarrow> dir_entries
    \<Rightarrow> string + corpus_resolution" where
  "resolve_corpus loads with_urls cfg trees ar =
     (let configured = active_trees cfg ar; selected = selected_trees trees configured in
      bind_res (fold_res (walk_tree loads with_urls ar) (sort_key fst selected)
          \<lparr>rs_records = [], rs_aliases = [], rs_warnings = [], rs_trees = selected\<rparr>) (\<lambda>res.
      Inr (res\<lparr>rs_warnings := rs_warnings res @ flag_unregistered_trees ar configured
        @ flag_nested_duplicate_dirs (rs_records res)\<rparr>)))"

section \<open>Aggregates\<close>

record corpus_tree_stats =
  ts_reports :: nat
  ts_by_kind :: "(string \<times> nat) list"
  ts_md_only :: nat
  ts_branch_reaudits :: nat
  ts_refs :: "(string \<times> nat) list"
  ts_head_reports :: nat
  ts_unique_base_slugs :: nat
  ts_with_findings_current :: nat
  ts_with_triage :: nat
  ts_with_threat_model :: nat
  ts_shallow_dirs :: nat

definition count_if :: "('a \<Rightarrow> bool) \<Rightarrow> 'a list \<Rightarrow> nat" where
  "count_if P xs = length (filter P xs)"

definition ref_counts :: "report_record list \<Rightarrow> (string \<times> nat) list" where
  "ref_counts recs = sort_key fst (count_by (\<lambda>r. or_str (rr_ref r) []) (filter (\<lambda>r. truthy (rr_ref r)) recs))"

definition corpus_tree_stats_of :: "report_record list \<Rightarrow> string \<Rightarrow> corpus_tree_stats" where
  "corpus_tree_stats_of all_records tree =
     (let recs = filter (\<lambda>r. rr_tree r = tree) all_records in
     \<lparr>ts_reports = length recs, ts_by_kind = count_by rr_kind recs, ts_md_only = count_if is_md_only recs,
      ts_branch_reaudits = count_if is_branch_audit recs, ts_refs = ref_counts recs,
      ts_head_reports = count_if (\<lambda>r. \<not> is_branch_audit r) recs,
      ts_unique_base_slugs = card (rr_base_slug ` set recs),
      ts_with_findings_current = count_if (\<lambda>r. rr_findings_current r \<noteq> None) recs,
      ts_with_triage = count_if (\<lambda>r. rr_triage_json r \<noteq> None) recs,
      ts_with_threat_model = count_if (\<lambda>r. rr_threat_model r \<noteq> None) recs,
      ts_shallow_dirs = count_if (\<lambda>r. rr_product r = None) recs\<rparr>)"

record corpus_aggregates =
  ag_trees :: "(string \<times> corpus_tree_stats) list"
  ag_reports :: nat
  ag_unique_base_slugs :: nat
  ag_branch_reaudits :: nat
  ag_refs :: "(string \<times> nat) list"
  ag_md_only :: nat
  ag_symlink_aliases :: nat
  ag_canonical_targets :: nat
  ag_dir_aliases :: nat
  ag_cross_tree_slugs :: nat
  ag_cross_tree_examples :: "(string \<times> string list) list"

definition slug_trees :: "report_record list \<Rightarrow> (string \<times> string list) list" where
  "slug_trees recs = map (\<lambda>(s, rs). (s, sort (remdups (map rr_tree rs)))) (group_by rr_base_slug recs)"

definition aggregates :: "corpus_resolution \<Rightarrow> corpus_aggregates" where
  "aggregates res =
     (let recs = rs_records res; overlap = filter (\<lambda>(s, ts). length ts > 1) (slug_trees recs);
          files = filter (\<lambda>a. al_kind a = ''file'') (rs_aliases res) in
     \<lparr>ag_trees = map (\<lambda>(t, m). (t, corpus_tree_stats_of recs t)) (rs_trees res),
      ag_reports = length recs, ag_unique_base_slugs = length (slug_trees recs),
      ag_branch_reaudits = count_if is_branch_audit recs, ag_refs = ref_counts recs, ag_md_only = count_if is_md_only recs,
      ag_symlink_aliases = length files, ag_canonical_targets = card (al_target ` set files),
      ag_dir_aliases = length (rs_aliases res) - length files,
      ag_cross_tree_slugs = length overlap, ag_cross_tree_examples = take 20 (sort_key fst overlap)\<rparr>)"

section \<open>What a resolution holds\<close>

text \<open>The directories that are walked, with their trees, and what each of them gives.\<close>

definition corpus_dirs :: "dir_entries \<Rightarrow> (string \<times> tree_meta) list \<Rightarrow> (tree_meta \<times> path \<times> dir_entries) list" where
  "corpus_dirs ar trees = concat (map (\<lambda>(t, m). case map_of ar t of
     None \<Rightarrow> [] | Some x \<Rightarrow> map (Pair m) (walk_from [t] x)) trees)"

definition dir_claims :: "(string \<Rightarrow> json option) \<Rightarrow> bool \<Rightarrow> tree_meta \<times> path \<times> dir_entries
    \<Rightarrow> report_record list \<times> corpus_warning list" where
  "dir_claims loads with_urls mde = (case dir_records loads with_urls (fst mde) (snd mde) of
     Inl e \<Rightarrow> ([], []) | Inr recs \<Rightarrow> claim_shared_cumulative loads (snd (snd mde)) recs)"

definition grows :: "(string \<Rightarrow> json option) \<Rightarrow> bool \<Rightarrow> (tree_meta \<times> path \<times> dir_entries) list
    \<Rightarrow> corpus_resolution \<Rightarrow> corpus_resolution \<Rightarrow> bool" where
  "grows loads with_urls ds s s' \<longleftrightarrow>
     rs_records s' = rs_records s @ concat (map (fst \<circ> dir_claims loads with_urls) ds)
     \<and> set (rs_warnings s) \<union> (\<Union>x \<in> set ds. set (snd (dir_claims loads with_urls x))) \<subseteq> set (rs_warnings s')
     \<and> list_all (\<lambda>x. \<exists>recs. dir_records loads with_urls (fst x) (snd x) = Inr recs) ds"

lemma grows_Nil: "grows loads u [] s s"
  by (simp add: grows_def)

lemma grows_append: "grows loads u xs s s' \<Longrightarrow> grows loads u ys s' s'' \<Longrightarrow> grows loads u (xs @ ys) s s''"
  by (auto simp: grows_def)

lemma walk_dir_grows: "walk_dir loads u m de s = Inr s' \<Longrightarrow> grows loads u [(m, de)] s s'"
  by (auto simp: walk_dir_def grows_def dir_claims_def case_prod_unfold)

lemma fold_res_grows:
  "(\<And>x s s'. f x s = Inr s' \<Longrightarrow> grows loads u (g x) s s') \<Longrightarrow> fold_res f xs s = Inr s'
     \<Longrightarrow> grows loads u (concat (map g xs)) s s'"
proof (induction xs arbitrary: s)
  case (Cons x xs)
  then obtain t where t: "f x s = Inr t" "fold_res f xs t = Inr s'" by auto
  from grows_append [OF Cons.prems(1) [OF t(1)] Cons.IH [OF Cons.prems(1) t(2)]] show ?case by simp
qed (simp add: grows_Nil)

lemma walk_tree_grows:
  assumes "walk_tree loads u ar tm s = Inr s'"
  shows "grows loads u (case tm of (t, m) \<Rightarrow> case map_of ar t of None \<Rightarrow> [] | Some x \<Rightarrow> map (Pair m) (walk_from [t] x)) s s'"
proof -
  obtain t m where tm: "tm = (t, m)" by (cases tm)
  have missing: "grows loads u [] s (s\<lparr>rs_warnings := rs_warnings s @ [Tree_missing t]\<rparr>)" by (auto simp: grows_def)
  show ?thesis
  proof (cases "map_of ar t")
    case None
    with assms missing show ?thesis by (auto simp: walk_tree_def tm)
  next
    case (Some x)
    show ?thesis
    proof (cases "is_dir x")
      case True
      then have "fold_res (walk_dir loads u m) (walk_from [t] x) s = Inr s'"
        using assms Some by (simp add: walk_tree_def tm)
      from fold_res_grows [OF walk_dir_grows this] show ?thesis
        using Some by (simp add: tm)
    next
      case False
      then have "walk_from [t] x = []" by (cases x) (simp_all add: is_dir_def walk_from_def)
      with assms missing Some False show ?thesis by (auto simp: walk_tree_def tm)
    qed
  qed
qed

lemma resolution:
  assumes "resolve_corpus loads u cfg trees ar = Inr res"
  shows "grows loads u (corpus_dirs ar (sort_key fst (selected_trees trees (active_trees cfg ar))))
    \<lparr>rs_records = [], rs_aliases = [], rs_warnings = [], rs_trees = selected_trees trees (active_trees cfg ar)\<rparr> res"
proof -
  obtain s where s: "fold_res (walk_tree loads u ar) (sort_key fst (selected_trees trees (active_trees cfg ar)))
        \<lparr>rs_records = [], rs_aliases = [], rs_warnings = [], rs_trees = selected_trees trees (active_trees cfg ar)\<rparr> = Inr s"
    and res: "rs_records res = rs_records s" "set (rs_warnings s) \<subseteq> set (rs_warnings res)"
    using assms by (auto simp: resolve_corpus_def Let_def)
  have "grows loads u (corpus_dirs ar (sort_key fst (selected_trees trees (active_trees cfg ar))))
    \<lparr>rs_records = [], rs_aliases = [], rs_warnings = [], rs_trees = selected_trees trees (active_trees cfg ar)\<rparr> s"
    unfolding corpus_dirs_def by (rule fold_res_grows [OF walk_tree_grows s])
  with res show ?thesis by (fastforce simp: grows_def)
qed

section \<open>Every report is counted once\<close>

definition report_paths :: "(string \<times> string \<times> string \<Rightarrow> string) \<Rightarrow> tree_meta \<times> path \<times> dir_entries \<Rightarrow> path list" where
  "report_paths suffix mde = (case mde of (m, d, es) \<Rightarrow>
     concat (map (\<lambda>k. map (\<lambda>n. d @ [n]) (report_names (suffix k) es)) REPORT_KINDS))"

abbreviation json_suffix :: "string \<times> string \<times> string \<Rightarrow> string" where
  "json_suffix k \<equiv> fst (snd k)"

abbreviation md_suffix :: "string \<times> string \<times> string \<Rightarrow> string" where
  "md_suffix k \<equiv> snd (snd k)"

lemma map_filter_map: "List.map_filter f xs = List.map_filter id (map f xs)"
  by (induction xs) (simp_all split: option.split)

lemma map_filter_concat: "List.map_filter f (concat xss) = concat (map (List.map_filter f) xss)"
  by (induction xss) (simp_all add: List.map_filter_def)

lemma map_filter_option: "List.map_filter (\<lambda>x. map_option g (f x)) xs = map g (List.map_filter f xs)"
  by (induction xs) (auto split: option.splits)

lemma mset_concat_cong: "(\<And>x. x \<in> set xs \<Longrightarrow> mset (f x) = mset (g x)) \<Longrightarrow> mset (concat (map f xs)) = mset (concat (map g xs))"
  by (induction xs) auto

lemma claimed_reports:
  assumes "distinct (map fst (snd (snd mde)))" and "dir_records loads u (fst mde) (snd mde) = Inr recs"
  shows "mset (List.map_filter rr_audit_json (fst (dir_claims loads u mde))) = mset (report_paths json_suffix mde)"
    and "mset (List.map_filter rr_audit_md (fst (dir_claims loads u mde))) = mset (report_paths md_suffix mde)"
proof -
  obtain m d es where mde: "mde = (m, d, es)" by (cases mde)
  let ?fs = "concat (map (found_in es) REPORT_KINDS)"
  have c: "collect_res (make_record loads u m d es) ?fs = Inr recs" using assms(2) by (simp add: mde dir_records_def)
  have owned: "fst (dir_claims loads u mde) = map (decided loads es recs) recs"
    using assms(2) by (simp add: dir_claims_def mde claim_decided(1))
  have dj: "mset (List.map_filter fd_json (found_in es k)) = mset (report_names (json_suffix k) es)"
    and dm: "mset (List.map_filter fd_md (found_in es k)) = mset (report_names (md_suffix k) es)" for k
    using found_reports [of es "fst k" "json_suffix k" "md_suffix k"] assms(1) by (simp_all add: mde)
  have path: "mset (map (\<lambda>n. d @ [n]) (List.map_filter field ?fs)) = mset (report_paths sfx mde)"
    if "\<And>k. mset (List.map_filter field (found_in es k)) = mset (report_names (sfx k) es)" for field sfx
  proof -
    have "mset (map (\<lambda>n. d @ [n]) (List.map_filter field ?fs))
        = mset (concat (map (\<lambda>k. map (\<lambda>n. d @ [n]) (List.map_filter field (found_in es k))) REPORT_KINDS))"
      by (simp add: map_filter_concat map_concat comp_def)
    also have "\<dots> = mset (report_paths sfx mde)"
      unfolding report_paths_def mde prod.case by (rule mset_concat_cong) (simp add: that)
    finally show ?thesis .
  qed
  have "map (rr_audit_json \<circ> decided loads es recs) recs = map (\<lambda>f. map_option (\<lambda>n. d @ [n]) (fd_json f)) ?fs"
    "map (rr_audit_md \<circ> decided loads es recs) recs = map (\<lambda>f. map_option (\<lambda>n. d @ [n]) (fd_md f)) ?fs"
    by (rule collect_res_map [OF c], simp add: decided_keeps make_record_fields)+
  then have "List.map_filter rr_audit_json (fst (dir_claims loads u mde)) = map (\<lambda>n. d @ [n]) (List.map_filter fd_json ?fs)"
    "List.map_filter rr_audit_md (fst (dir_claims loads u mde)) = map (\<lambda>n. d @ [n]) (List.map_filter fd_md ?fs)"
    unfolding owned map_filter_map [of rr_audit_json] map_filter_map [of rr_audit_md] map_map
    by (simp_all add: map_filter_option [symmetric] map_filter_map [of "\<lambda>x. map_option _ (_ x)"])
  then show "mset (List.map_filter rr_audit_json (fst (dir_claims loads u mde))) = mset (report_paths json_suffix mde)"
    "mset (List.map_filter rr_audit_md (fst (dir_claims loads u mde))) = mset (report_paths md_suffix mde)"
    using path [of fd_json json_suffix, OF dj] path [of fd_md md_suffix, OF dm] by simp_all
qed

lemma in_corpus_dirs:
  assumes "mde \<in> set (corpus_dirs ar ts)"
  obtains t m x where "map_of ar t = Some x" "mde \<in> Pair m ` set (walk_from [t] x)" "(t, m) \<in> set ts"
proof -
  obtain t m where tm: "(t, m) \<in> set ts"
    "mde \<in> set (case map_of ar t of None \<Rightarrow> [] | Some x \<Rightarrow> map (Pair m) (walk_from [t] x))"
    using assms by (auto simp: corpus_dirs_def)
  then show thesis using that by (cases "map_of ar t") auto
qed

lemma corpus_dirs_tidy:
  assumes "names_differ (Dir ar)" and "mde \<in> set (corpus_dirs ar ts)"
  shows "distinct (map fst (snd (snd mde)))"
proof -
  obtain t m x where x: "map_of ar t = Some x" "mde \<in> Pair m ` set (walk_from [t] x)"
    using assms(2) by (rule in_corpus_dirs)
  then have "names_differ x" using assms(1) map_of_SomeD [OF x(1)] by (force simp: list_all_iff)
  with x(2) show ?thesis
    by (cases x) (auto simp: walk_from_def simp del: walk.simps dest!: walk_tidy [rotated])
qed


section \<open>Every cumulative report has one owner\<close>

lemma walk_from_distinct: "names_differ x \<Longrightarrow> distinct (map fst (walk_from d x))"
  by (cases x) (auto simp: walk_from_def simp del: walk.simps intro!: walk_distinct)

lemma walk_from_prefix: "de \<in> set (walk_from d x) \<Longrightarrow> \<exists>t. fst de = d @ t"
  by (cases x) (auto simp: walk_from_def simp del: walk.simps dest!: walk_prefix)

lemma corpus_dirs_distinct:
  assumes "names_differ (Dir ar)" and "distinct (map fst ts)"
  shows "distinct (map (fst \<circ> snd) (corpus_dirs ar ts))"
proof -
  let ?g = "\<lambda>(t, m). case map_of ar t of None \<Rightarrow> [] | Some x \<Rightarrow> map (Pair m) (walk_from [t] x)"
  have "distinct (concat (map (\<lambda>tm. map (fst \<circ> snd) (?g tm)) ts))"
  proof (rule distinct_concat_map [where f = fst and h = hd])
    show "distinct (map (fst \<circ> snd) (?g tm))" if "tm \<in> set ts" for tm
    proof -
      have "names_differ x" if "map_of ar t = Some x" for t x
        using assms(1) map_of_SomeD [OF that] by (force simp: list_all_iff)
      then show ?thesis by (auto simp: comp_def walk_from_distinct split: option.splits prod.splits)
    qed
    show "hd p = fst tm" if "p \<in> set (map (fst \<circ> snd) (?g tm))" for tm p
      using that walk_from_prefix by (fastforce split: option.splits prod.splits)
  qed (rule assms(2))
  then show ?thesis by (simp add: corpus_dirs_def map_concat comp_def)
qed

lemma distinct_active: "distinct (map fst (cc_trees cfg)) \<Longrightarrow> distinct (map fst (active_trees cfg ar))"
proof -
  have "distinct (map fst (fold (\<lambda>(tree, meta) ts. case map_of ar tree of
      Some x \<Rightarrow> if is_dir x then AList.update tree meta ts else ts | None \<Rightarrow> ts) es ts))"
    if "distinct (map fst ts)" for es and ts :: "(string \<times> tree_meta) list"
    using that by (induction es arbitrary: ts) (auto simp: distinct_update split: option.splits)
  then show "distinct (map fst (cc_trees cfg)) \<Longrightarrow> ?thesis" by (simp add: active_trees_def)
qed

lemma sum_one:
  assumes "distinct (map f xs)" and "\<And>x. x \<in> set xs \<Longrightarrow> f x \<noteq> q \<Longrightarrow> c x = (0 :: nat)" and "\<And>x. x \<in> set xs \<Longrightarrow> c x \<le> 1"
  shows "sum_list (map c xs) \<le> 1"
  using assms
proof (induction xs)
  case (Cons x xs)
  show ?case
  proof (cases "f x = q")
    case True
    then have "c y = 0" if "y \<in> set xs" for y using Cons.prems(1,2) that by (metis (no_types, lifting) distinct.simps(2) image_eqI list.set_intros(2) list.set_map list.simps(9))
    then have "sum_list (map c xs) = 0" by simp
    then have "sum_list (map c (x # xs)) = c x" by (simp only: list.map sum_list.Cons add_0_right)
    then show ?thesis using Cons.prems(3) [of x] by (simp only: list.set_intros)
  next
    case False
    then show ?thesis using Cons by simp
  qed
qed simp

lemma claimed_current:
  assumes "dir_records loads u (fst mde) (snd mde) = Inr recs"
  shows "count (mset (List.map_filter rr_findings_current (fst (dir_claims loads u mde)))) p \<le> 1
      \<or> (\<exists>n ks. Shared_unowned p n ks \<in> set (snd (dir_claims loads u mde)))"
    and "fst (snd mde) \<noteq> butlast p \<Longrightarrow> count (mset (List.map_filter rr_findings_current (fst (dir_claims loads u mde)))) p = 0"
proof -
  obtain m d es where mde: "mde = (m, d, es)" by (cases mde)
  let ?fs = "concat (map (found_in es) REPORT_KINDS)"
  have c: "collect_res (make_record loads u m d es) ?fs = Inr recs" using assms by (simp add: mde dir_records_def)
  have dir_claims: "dir_claims loads u mde = claim_shared_cumulative loads es recs"
    using assms by (simp add: dir_claims_def mde)
  have "map (\<lambda>r. (rr_base r, rr_kind r)) recs = map (\<lambda>f. (fd_base f, fd_kind f)) ?fs"
    by (rule collect_res_map [OF c]) (simp add: make_record_fields)
  then have d: "distinct (map (\<lambda>r. (rr_base r, rr_kind r)) recs)" by (simp only: found_distinct)
  let ?cur = "\<lambda>r. rr_findings_current r = companion d es (rr_base r) ''-findings-current.json''"
  have all: "map ?cur recs = map (\<lambda>_. True) ?fs"
    by (rule collect_res_map [OF c]) (simp add: make_record_fields)
  have cur: "?cur r" if "r \<in> set recs" for r
  proof -
    have "?cur r \<in> set (map ?cur recs)" using that by simp
    then show ?thesis unfolding all by auto
  qed
  show "count (mset (List.map_filter rr_findings_current (fst (dir_claims loads u mde)))) p \<le> 1
      \<or> (\<exists>n ks. Shared_unowned p n ks \<in> set (snd (dir_claims loads u mde)))"
    unfolding dir_claims by (rule one_owner_in_directory [OF cur d])
  show "count (mset (List.map_filter rr_findings_current (fst (dir_claims loads u mde)))) p = 0" if "fst (snd mde) \<noteq> butlast p"
  proof -
    have "rr_findings_current (decided loads es recs r) \<noteq> Some p" if "r \<in> set recs" for r
    proof
      assume "rr_findings_current (decided loads es recs r) = Some p"
      from decided_keeps(3) [OF this] have "p = d @ [rr_base r @ ''-findings-current.json'']"
        unfolding cur [OF that] by (rule current_path)
      then show False using \<open>fst (snd mde) \<noteq> butlast p\<close> by (simp add: mde)
    qed
    then show ?thesis
      unfolding dir_claims claim_decided(1) count_map_filter by (simp add: filter_map comp_def filter_empty_conv)
  qed
qed

text \<open>
  C9. A cumulative report has one owner. When the corpus resolves, no cumulative report is
  held by two records, so no consumer counts its findings twice, unless there is a warning that names it.
\<close>

theorem cumulative_has_one_owner:
  assumes "names_differ (Dir ar)" and "distinct (map fst (cc_trees cfg))"
    and "resolve_corpus loads with_urls cfg trees ar = Inr res"
  shows "length (filter (\<lambda>r. rr_findings_current r = Some p) (rs_records res)) \<le> 1
    \<or> (\<exists>n kinds. Shared_unowned p n kinds \<in> set (rs_warnings res))"
proof (cases "\<exists>n kinds. Shared_unowned p n kinds \<in> set (rs_warnings res)")
  case False
  let ?ds = "corpus_dirs ar (sort_key fst (selected_trees trees (active_trees cfg ar)))"
  let ?c = "\<lambda>x. count (mset (List.map_filter rr_findings_current (fst (dir_claims loads with_urls x)))) p"
  have recs: "rs_records res = concat (map (fst \<circ> dir_claims loads with_urls) ?ds)"
    and warned: "\<And>x. x \<in> set ?ds \<Longrightarrow> set (snd (dir_claims loads with_urls x)) \<subseteq> set (rs_warnings res)"
    and ok: "\<And>x. x \<in> set ?ds \<Longrightarrow> \<exists>recs. dir_records loads with_urls (fst x) (snd x) = Inr recs"
    using resolution [OF assms(3)] by (auto simp: grows_def list_all_iff)
  have "distinct (map fst (selected_trees trees (active_trees cfg ar)))"
    using distinct_active [OF assms(2)] by (simp add: selected_trees_def distinct_map_filter)
  then have "distinct (map fst (sort_key fst (selected_trees trees (active_trees cfg ar))))"
    by (simp add: distinct_map)
  from corpus_dirs_distinct [OF assms(1) this] have "sum_list (map ?c ?ds) \<le> 1"
  proof (rule sum_one)
    show "?c x = 0" if x: "x \<in> set ?ds" "(fst \<circ> snd) x \<noteq> butlast p" for x
    proof -
      obtain recs where "dir_records loads with_urls (fst x) (snd x) = Inr recs" using ok [OF x(1)] by blast
      from claimed_current(2) [OF this, of p] x(2) show ?thesis by (simp only: comp_apply not_False_eq_True)
    qed
    show "?c x \<le> 1" if "x \<in> set ?ds" for x
      using ok [OF that] claimed_current(1) warned [OF that] False by blast
  qed
  moreover have "length (filter (\<lambda>r. rr_findings_current r = Some p) (rs_records res)) = sum_list (map ?c ?ds)"
    unfolding recs count_map_filter by (simp add: filter_concat length_concat comp_def)
  ultimately show ?thesis by simp
qed simp

section \<open>A small corpus\<close>

definition demo_meta :: tree_meta where
  "demo_meta = \<lparr>tm_label = ''Findings'', tm_ownership = ''owned'', tm_business_unit = ''core''\<rparr>"

definition demo_config :: corpus_config where
  "demo_config = \<lparr>cc_trees = [(''findings'', demo_meta)], cc_engagements = []\<rparr>"

text \<open>A code audit and a cloud audit of one base, with the cumulative report of the code audit beside them.\<close>

definition demo_corpus :: dir_entries where
  "demo_corpus = [(''findings'', Dir [(''r'', Dir [(''a-security-audit.json'', File (Content ''{}'')),
     (''a-cloud-config-audit.json'', File (Content ''{}'')), (''a-findings-current.json'', File (Content ''report''))])])]"

definition corpus_loads :: "string \<Rightarrow> json option" where
  "corpus_loads s = Some (JObj (if s = ''report'' then [(''executive_summary'', JNull)] else []))"

lemma corpus_resolves: "\<exists>res. resolve_corpus corpus_loads False demo_config None demo_corpus = Inr res
    \<and> length (rs_records res) = 2 \<and> rs_warnings res = []"
proof -
  have "(case resolve_corpus corpus_loads False demo_config None demo_corpus of
      Inl e \<Rightarrow> False | Inr res \<Rightarrow> length (rs_records res) = 2 \<and> rs_warnings res = [])"
    by code_simp
  then show ?thesis by (auto split: sum.splits)
qed

lemma demo_tidy: "names_differ (Dir demo_corpus)"
  by (simp add: demo_corpus_def)


theorem cumulative_has_one_owner_witness:
  "\<exists>res. resolve_corpus corpus_loads False demo_config None demo_corpus = Inr res
     \<and> length (filter (\<lambda>r. rr_findings_current r = Some [''findings'', ''r'', ''a-findings-current.json'']) (rs_records res)) \<le> 1"
proof -
  obtain res where res: "resolve_corpus corpus_loads False demo_config None demo_corpus = Inr res" "rs_warnings res = []"
    using corpus_resolves by blast
  from cumulative_has_one_owner [OF demo_tidy _ res(1)] res show ?thesis
    by (auto simp: demo_config_def)
qed

section \<open>What the code leaves out\<close>

text \<open>One report that is not valid UTF-8 stops the whole resolution: only failures to open a file are caught.\<close>

lemma undecodable_report_stops:
  "resolve_corpus corpus_loads False demo_config None
     [(''findings'', Dir [(''r'', Dir [(''a-security-audit.json'', File Undecodable)])])] = Inl ''UnicodeDecodeError''"
  by code_simp

text \<open>A tree that nobody registered and that only holds container audits gives no warning.\<close>

lemma container_tree_unflagged:
  "flag_unregistered_trees [(''images'', Dir [(''a-container-audit.json'', File (Content ''{}''))])] [] = []"
  by code_simp

end
