(* ===== verification/Sweep_Run.thy ===== *)
theory Sweep_Run
  imports Sweep_Collect Corpus_Resolver
begin

text \<open>
  \<open>sweep/engine.py\<close>, the stages sweep and emit: choosing the rule, running it over the repositories of the
  corpus with one result kept for each, and the candidates for triage. Cloning and scanning are
  functions of what they are given (\<open>sweep_tools\<close>); a scan returns its facts in the normal form of
  \<open>adapters/opengrep.py\<close>. A work directory keeps which URL each clone is of. The summary in Markdown is left out.
\<close>

section \<open>The rule\<close>

text \<open>What a name denotes in the current directory; a directory with the skeleton in it, if there is one.\<close>

datatype cwd_entry = Cwd_none | Cwd_file string | Cwd_dir "string option"

definition rule_named :: "string \<Rightarrow> string \<Rightarrow> bool" where
  "rule_named spec text \<longleftrightarrow> re_search (seq [At Bol, star (Cls is_space), lit ''-'', star (Cls is_space), lit ''id:'',
     star (Cls is_space), lit spec, star (Cls is_space), At Eol]) text \<noteq> None"

text \<open>The text of the rule; \<open>None\<close> when a draft has no skeleton to read.\<close>

definition resolve_rule :: "(string \<Rightarrow> cwd_entry) \<Rightarrow> pack_file list \<Rightarrow> drafts \<Rightarrow> string \<Rightarrow> sweep_error + string option" where
  "resolve_rule cwd pack drafts spec =
     (case (case cwd spec of Cwd_file t \<Rightarrow> Some t | Cwd_dir skel \<Rightarrow> skel | Cwd_none \<Rightarrow> None) of
        Some t \<Rightarrow> Inr (Some t)
      | None \<Rightarrow> (case map_of drafts spec of
          Some skel \<Rightarrow> Inr skel
        | None \<Rightarrow> (case find (rule_named spec) (List.map_filter id (map pf_text pack @ map snd drafts)) of
            Some t \<Rightarrow> Inr (Some t)
          | None \<Rightarrow> Inl (Rule_not_found spec))))"

definition rule_text :: "(string \<Rightarrow> cwd_entry) \<Rightarrow> pack_file list \<Rightarrow> drafts \<Rightarrow> string \<Rightarrow> sweep_error + string" where
  "rule_text cwd pack drafts spec = bind_res (resolve_rule cwd pack drafts spec) (\<lambda>t. case t of
     None \<Rightarrow> Inl (Missing_skeleton spec) | Some t \<Rightarrow> Inr t)"

definition rule_id_of :: "string \<Rightarrow> string \<Rightarrow> sweep_error + string" where
  "rule_id_of text spec =
     (if spec \<noteq> [] \<and> spec \<in> set (rule_ids text) then Inr spec
      else (case rule_ids text of [] \<Rightarrow> Inl No_rule_id | i # _ \<Rightarrow> Inr i))"

section \<open>The repositories\<close>

type_synonym repo = "string \<times> string"

definition http_url :: "json \<Rightarrow> string option" where
  "http_url u = (case u of JStr s \<Rightarrow> if startswith s ''http'' then Some s else None | _ \<Rightarrow> None)"

definition corpus_repos :: "report_record list \<Rightarrow> nat \<Rightarrow> repo list" where
  "corpus_repos records limit =
     take limit (sort_key fst (fold (\<lambda>r seen.
       if rr_kind r \<noteq> ''code-audit'' \<or> is_branch_audit r then seen
       else (case http_url (rr_repo_url r) of
           None \<Rightarrow> seen
         | Some url \<Rightarrow> if map_of seen (rr_base_slug r) = None then AList.update (rr_base_slug r) url seen else seen))
       records []))"

section \<open>One repository\<close>

record sweep_hit =
  ht_file :: string
  ht_start :: int
  ht_end :: int
  ht_snippet :: string
  ht_hint :: string
  ht_test :: bool

datatype clone_outcome = Cloned | Clone_refused string | Clone_slow

datatype scan_outcome = Scan_slow | Scan_garbled | Scanned nat nat "sweep_hit list"

record sweep_tools =
  tl_dir :: "string \<Rightarrow> bool"
  tl_clone :: "string \<Rightarrow> clone_outcome"
  tl_scan :: "string \<Rightarrow> string \<Rightarrow> scan_outcome"

datatype repo_error = Dir_missing string | Clone_failed string | Unsupported_url | Scan_timeout | No_json

record repo_result =
  rp_slug :: string
  rp_url :: "string option"
  rp_error :: "repo_error option"
  rp_files :: nat
  rp_engine_errors :: nat
  rp_facts :: "sweep_hit list"

definition repo_failed :: "string \<Rightarrow> string option \<Rightarrow> repo_error \<Rightarrow> repo_result" where
  "repo_failed slug url e = \<lparr>rp_slug = slug, rp_url = url, rp_error = Some e, rp_files = 0, rp_engine_errors = 0, rp_facts = []\<rparr>"

definition scan_target :: "sweep_tools \<Rightarrow> string \<Rightarrow> repo \<Rightarrow> string \<Rightarrow> repo_result" where
  "scan_target T text repo target = (case repo of (slug, url) \<Rightarrow>
     (case tl_scan T text target of
        Scan_slow \<Rightarrow> repo_failed slug (Some url) Scan_timeout
      | Scan_garbled \<Rightarrow> repo_failed slug (Some url) No_json
      | Scanned files errors facts \<Rightarrow> \<lparr>rp_slug = slug, rp_url = Some url, rp_error = None, rp_files = files,
          rp_engine_errors = errors, rp_facts = facts\<rparr>))"

text \<open>A clone that is there already is scanned as it is.\<close>

definition sweep_one_repo :: "sweep_tools \<Rightarrow> string \<Rightarrow> repo list \<Rightarrow> repo \<Rightarrow> sweep_error + repo_result \<times> repo list" where
  "sweep_one_repo T text work repo = (case repo of (slug, url) \<Rightarrow>
     (if startswith url ''dir:'' then
        (if tl_dir T (drop 4 url) then Inr (scan_target T text repo (drop 4 url), work)
         else Inr (repo_failed slug None (Dir_missing url), work))
      else if startswith url ''http'' then
        (case map_of work slug of
           Some cloned \<Rightarrow> Inr (scan_target T text repo cloned, work)
         | None \<Rightarrow> (case tl_clone T url of
             Clone_slow \<Rightarrow> Inl (Clone_timed_out slug)
           | Clone_refused detail \<Rightarrow> Inr (repo_failed slug (Some url) (Clone_failed (rev (take 400 (rev detail)))), work)
           | Cloned \<Rightarrow> Inr (scan_target T text repo url, (slug, url) # work)))
      else Inr (repo_failed slug (Some url) Unsupported_url, work)))"

section \<open>The sweep\<close>

record sweep_summary =
  sw_repos :: nat
  sw_swept :: nat
  sw_skipped :: nat
  sw_errors :: nat
  sw_hits :: nat

type_synonym results = "(string \<times> repo_result) list"

definition count_result :: "repo_result \<Rightarrow> sweep_summary \<Rightarrow> sweep_summary" where
  "count_result r n = (case rp_error r of
     Some _ \<Rightarrow> n\<lparr>sw_swept := Suc (sw_swept n), sw_errors := Suc (sw_errors n)\<rparr>
   | None \<Rightarrow> n\<lparr>sw_swept := Suc (sw_swept n), sw_hits := sw_hits n + length (rp_facts r)\<rparr>)"

text \<open>The loop over the repositories: a result is written as soon as it is there; a clone that takes too long ends the loop.\<close>

fun sweep_repos :: "sweep_tools \<Rightarrow> string \<Rightarrow> repo list \<Rightarrow> results \<Rightarrow> repo list \<Rightarrow> sweep_summary
    \<Rightarrow> results \<times> repo list \<times> (sweep_error + sweep_summary)" where
  "sweep_repos T text [] res work n = (res, work, Inr n)"
| "sweep_repos T text ((slug, url) # repos) res work n =
     (if map_of res slug \<noteq> None then sweep_repos T text repos res work (n\<lparr>sw_skipped := Suc (sw_skipped n)\<rparr>)
      else (case sweep_one_repo T text work (slug, url) of
          Inl e \<Rightarrow> (res, work, Inl e)
        | Inr (r, work') \<Rightarrow> sweep_repos T text repos (AList.update slug r res) work'
            (count_result r n)))"

text \<open>Where the repositories come from: a file of them, or the records of the resolved corpus.\<close>

datatype repo_source = Repos_file "repo list" | Corpus "string + report_record list" | No_source

definition repos_of :: "repo_source \<Rightarrow> nat \<Rightarrow> sweep_error + repo list" where
  "repos_of src limit = (case src of
       Repos_file rs \<Rightarrow> Inr (take limit rs)
     | Corpus (Inr records) \<Rightarrow> Inr (corpus_repos records limit)
     | Corpus (Inl e) \<Rightarrow> Inl (Corpus_error e)
     | No_source \<Rightarrow> Inl Need_repos)"

record sweep_setup =
  su_cwd :: "string \<Rightarrow> cwd_entry"
  su_pack :: "pack_file list"
  su_drafts :: drafts
  su_opengrep :: bool
  su_tools :: sweep_tools

definition authored_rule :: "sweep_setup \<Rightarrow> string \<Rightarrow> sweep_error + string \<times> string" where
  "authored_rule S spec =
     bind_res (rule_text (su_cwd S) (su_pack S) (su_drafts S) spec) (\<lambda>text.
       if occurs_in ''TODO'' text then Inl Unauthored
       else if \<not> su_opengrep S then Inl (No_opengrep spec)
       else bind_res (rule_id_of text spec) (\<lambda>rid. Inr (text, rid)))"

definition results_of :: "(string \<times> results) list \<Rightarrow> string \<Rightarrow> results" where
  "results_of stores rid = (case map_of stores rid of None \<Rightarrow> [] | Some res \<Rightarrow> res)"

text \<open>
  The results of every rule, the work directory, and how the run ended. Without a work directory of the
  caller's a temporary one is used and removed, so that the next run starts from none.
\<close>

definition do_sweep :: "sweep_setup \<Rightarrow> string \<Rightarrow> repo_source \<Rightarrow> nat \<Rightarrow> repo list option \<Rightarrow> (string \<times> results) list
    \<Rightarrow> (string \<times> results) list \<times> repo list option \<times> (sweep_error + sweep_summary)" where
  "do_sweep S spec src limit work stores =
     (case bind_res (authored_rule S spec) (\<lambda>(text, rid). bind_res (repos_of src limit) (\<lambda>repos. Inr (text, rid, repos))) of
        Inl e \<Rightarrow> (stores, work, Inl e)
      | Inr (text, rid, repos) \<Rightarrow>
          (case sweep_repos (su_tools S) text repos (results_of stores rid) (case work of None \<Rightarrow> [] | Some w \<Rightarrow> w)
              \<lparr>sw_repos = length repos, sw_swept = 0, sw_skipped = 0, sw_errors = 0, sw_hits = 0\<rparr> of
             (res, work', end_state) \<Rightarrow> (AList.update rid res stores, (if work = None then None else Some work'), end_state)))"

section \<open>Emitting the candidates\<close>

record sweep_candidate =
  cn_repo :: string
  cn_url :: "string option"
  cn_hit :: sweep_hit
  cn_rule :: string
  cn_provenance :: "string list"

record sweep_report =
  sr_rule :: string
  sr_swept :: nat
  sr_with_hits :: nat
  sr_errors :: nat
  sr_candidates :: "sweep_candidate list"

definition candidates_of :: "string \<Rightarrow> string list \<Rightarrow> repo_result \<Rightarrow> sweep_candidate list" where
  "candidates_of rid prov r = (if rp_error r \<noteq> None then [] else
     map (\<lambda>h. \<lparr>cn_repo = rp_slug r, cn_url = rp_url r, cn_hit = h, cn_rule = rid, cn_provenance = prov\<rparr>) (rp_facts r))"

text \<open>The result files in the order of their names.\<close>

definition emit_report :: "string \<Rightarrow> string list \<Rightarrow> results \<Rightarrow> sweep_report" where
  "emit_report rid prov res =
     (let rs = map snd (sort_key (\<lambda>e. fst e @ ''.json'') res) in
      \<lparr>sr_rule = rid, sr_swept = length rs,
       sr_with_hits = length (filter (\<lambda>r. rp_error r = None \<and> rp_facts r \<noteq> []) rs),
       sr_errors = length (filter (\<lambda>r. rp_error r \<noteq> None) rs),
       sr_candidates = concat (map (candidates_of rid prov) rs)\<rparr>)"

text \<open>
  The source findings the metadata of a rule cites are an argument, by its text and id. The result says
  whether the stage was skipped, and holds the report of the rule.
\<close>

definition do_emit :: "sweep_setup \<Rightarrow> (string \<Rightarrow> string \<Rightarrow> string list) \<Rightarrow> string \<Rightarrow> bool \<Rightarrow> (string \<times> results) list
    \<Rightarrow> (string \<times> sweep_report) list \<Rightarrow> sweep_error + bool \<times> (string \<times> sweep_report) list" where
  "do_emit S prov spec force stores reports =
     bind_res (rule_text (su_cwd S) (su_pack S) (su_drafts S) spec) (\<lambda>text.
     bind_res (rule_id_of text spec) (\<lambda>rid.
       if map_of reports rid \<noteq> None \<and> \<not> force then Inr (True, reports)
       else (case map_of stores rid of
           None \<Rightarrow> Inl (No_results rid)
         | Some res \<Rightarrow> Inr (False, AList.update rid (emit_report rid (prov text rid) res) reports))))"

section \<open>Starting again\<close>

text \<open>What a repository yields with an empty work directory; \<open>None\<close> when its clone takes too long.\<close>

definition yields :: "sweep_tools \<Rightarrow> string \<Rightarrow> repo \<Rightarrow> repo_result option" where
  "yields T t repo = (case sweep_one_repo T t [] repo of Inl e \<Rightarrow> None | Inr (r, work) \<Rightarrow> Some r)"

definition fresh :: "results \<Rightarrow> repo list \<Rightarrow> bool" where
  "fresh res work \<longleftrightarrow> fst ` set work \<subseteq> fst ` set res"

lemma fresh_none: "fresh res work \<Longrightarrow> map_of res slug = None \<Longrightarrow> map_of work slug = None"
  by (auto simp: fresh_def map_of_eq_None_iff)

lemma one_repo_fresh:
  assumes "map_of work (fst repo) = None"
  shows "case yields T t repo of
      None \<Rightarrow> sweep_one_repo T t work repo = Inl (Clone_timed_out (fst repo))
    | Some r \<Rightarrow> \<exists>work'. sweep_one_repo T t work repo = Inr (r, work') \<and> fst ` set work' \<subseteq> insert (fst repo) (fst ` set work)"
  using assms by (cases repo) (auto simp: yields_def sweep_one_repo_def split: clone_outcome.split)

lemma fresh_step:
  assumes "fresh res work" "map_of res slug = None" "yields T t (slug, url) = Some r"
  obtains work' where "sweep_one_repo T t work (slug, url) = Inr (r, work')" "fresh (AList.update slug r res) work'"
proof -
  have "map_of work (fst (slug, url)) = None" using fresh_none [OF assms(1,2)] by simp
  from one_repo_fresh [OF this, of T t] obtain work' where
    w: "sweep_one_repo T t work (slug, url) = Inr (r, work')" "fst ` set work' \<subseteq> insert slug (fst ` set work)"
    unfolding assms(3) option.case fst_conv by blast
  have "fst ` set (AList.update slug r res) = insert slug (fst ` set res)" unfolding dom_update by simp
  with w(2) assms(1) have "fresh (AList.update slug r res) work'"
    unfolding fresh_def by (metis insert_mono subset_trans)
  with w(1) show ?thesis by (rule that)
qed

lemma sweep_cases:
  obtains (skip) "map_of res slug \<noteq> None"
    | (slow) "map_of res slug = None" "yields T t (slug, url) = None"
    | (fin) r where "map_of res slug = None" "yields T t (slug, url) = Some r"
  by (cases "map_of res slug"; cases "yields T t (slug, url)") auto

lemma sweep_slow:
  assumes "fresh res work" "map_of res slug = None" "yields T t (slug, url) = None"
  shows "sweep_repos T t ((slug, url) # repos) res work n = (res, work, Inl (Clone_timed_out slug))"
  using one_repo_fresh [of work "(slug, url)" T t] fresh_none [OF assms(1,2)] assms by simp

lemma sweep_keeps: "sweep_repos T t repos res work n = (res', work', e) \<Longrightarrow> fst ` set res \<subseteq> fst ` set res'"
proof (induction T t repos res work n arbitrary: work' rule: sweep_repos.induct)
  case (2 T t slug url repos res work n)
  show ?case
  proof (cases "map_of res slug \<noteq> None")
    case True
    then show ?thesis using 2 by simp
  next
    case False
    show ?thesis
    proof (cases "sweep_one_repo T t work (slug, url)")
      case (Inl e)
      then show ?thesis using False 2(3) by simp
    next
      case (Inr rw)
      obtain r w where rw: "rw = (r, w)" by fastforce
      have "fst ` set (AList.update slug r res) \<subseteq> fst ` set res'"
        using 2(2) [OF False Inr rw [symmetric]] 2(3) False Inr rw by simp
      then show ?thesis by (simp add: dom_update)
    qed
  qed
qed simp

text \<open>A second run over the same repositories skips what is there and stops where the first one stopped.\<close>

lemma rerun:
  assumes "sweep_repos T t repos res work n = (res', work', e)" and "fresh res work" and "fresh res' w"
  shows "\<exists>m. sweep_repos T t repos res' w k = (res', w, case e of Inl x \<Rightarrow> Inl x | Inr _ \<Rightarrow> Inr m)"
  using assms
proof (induction repos arbitrary: res work n k)
  case (Cons repo repos)
  obtain slug url where repo: "repo = (slug, url)" by fastforce
  from Cons.prems(1) have run: "sweep_repos T t ((slug, url) # repos) res work n = (res', work', e)" by (simp add: repo)
  show ?case
  proof (cases rule: sweep_cases [where res = res and slug = slug and T = T and t = t and url = url])
    case skip
    then have "map_of res' slug \<noteq> None" using sweep_keeps [OF run] by (metis map_of_eq_None_iff subsetD)
    moreover have "sweep_repos T t repos res work (n\<lparr>sw_skipped := Suc (sw_skipped n)\<rparr>) = (res', work', e)"
      using run skip by simp
    ultimately show ?thesis using Cons.IH Cons.prems(2,3) by (simp add: repo)
  next
    case slow
    then have "res' = res" "e = Inl (Clone_timed_out slug)"
      using run sweep_slow [OF Cons.prems(2) slow] by simp_all
    then show ?thesis using sweep_slow [of res w slug T t url] Cons.prems(3) slow by (simp add: repo del: sweep_repos.simps)
  next
    case (fin r)
    then obtain w1 where w1: "sweep_one_repo T t work (slug, url) = Inr (r, w1)" "fresh (AList.update slug r res) w1"
      by (rule fresh_step [OF Cons.prems(2)])
    then obtain n1 where next_run: "sweep_repos T t repos (AList.update slug r res) w1 n1 = (res', work', e)"
      using run fin by (auto split: if_splits)
    have "map_of res' slug \<noteq> None"
      using sweep_keeps [OF next_run] by (auto simp: map_of_eq_None_iff dom_update)
    then show ?thesis using Cons.IH [OF next_run w1(2) Cons.prems(3)] by (simp add: repo)
  qed
qed auto

text \<open>The results do not depend on the clones of repositories that are done, nor on the counters.\<close>

lemma sweep_fresh:
  assumes "fresh res w" "fresh res w'"
  shows "fst (sweep_repos T t repos res w n) = fst (sweep_repos T t repos res w' n')
    \<and> isl (snd (snd (sweep_repos T t repos res w n))) = isl (snd (snd (sweep_repos T t repos res w' n')))"
  using assms
proof (induction repos arbitrary: res w w' n n')
  case (Cons repo repos)
  obtain slug url where repo: "repo = (slug, url)" by fastforce
  show ?case
  proof (cases rule: sweep_cases [where res = res and slug = slug and T = T and t = t and url = url])
    case skip
    then show ?thesis using Cons by (simp add: repo)
  next
    case slow
    then show ?thesis using sweep_slow [OF Cons.prems(1) slow] sweep_slow [OF Cons.prems(2) slow]
      by (simp add: repo del: sweep_repos.simps)
  next
    case (fin r)
    obtain w1 where w1: "sweep_one_repo T t w (slug, url) = Inr (r, w1)" "fresh (AList.update slug r res) w1"
      using fin by (rule fresh_step [OF Cons.prems(1)])
    obtain w2 where w2: "sweep_one_repo T t w' (slug, url) = Inr (r, w2)" "fresh (AList.update slug r res) w2"
      using fin by (rule fresh_step [OF Cons.prems(2)])
    show ?thesis using Cons.IH [OF w1(2) w2(2)] w1(1) w2(1) fin by (simp add: repo)
  qed
qed simp

lemma sweep_append:
  "sweep_repos T t (xs @ ys) res w n = (case sweep_repos T t xs res w n of
     (r, w', Inr m) \<Rightarrow> sweep_repos T t ys r w' m | (r, w', Inl e) \<Rightarrow> (r, w', Inl e))"
  by (induction T t xs res w n rule: sweep_repos.induct) (auto split: sum.split prod.split)

lemma sweep_stays_fresh:
  assumes "sweep_repos T t repos res work n = (res', work', e)" and "fresh res work"
  shows "fresh res' work'"
  using assms
proof (induction repos arbitrary: res work n)
  case (Cons repo repos)
  obtain slug url where repo: "repo = (slug, url)" by fastforce
  show ?case
  proof (cases rule: sweep_cases [where res = res and slug = slug and T = T and t = t and url = url])
    case skip
    then show ?thesis using Cons by (simp add: repo)
  next
    case slow
    then show ?thesis using sweep_slow [OF Cons.prems(2) slow] Cons.prems by (simp add: repo del: sweep_repos.simps)
  next
    case (fin r)
    obtain w1 where w1: "sweep_one_repo T t work (slug, url) = Inr (r, w1)" "fresh (AList.update slug r res) w1"
      using fin by (rule fresh_step [OF Cons.prems(2)])
    then show ?thesis using Cons.IH [OF _ w1(2)] Cons.prems(1) fin by (simp add: repo)
  qed
qed simp

lemma sweep_resumed:
  assumes one: "sweep_repos T t xs res [] n1 = (r1, w1, e1)"
  shows "fst (sweep_repos T t (xs @ ys) r1 [] n2) = fst (sweep_repos T t (xs @ ys) res [] n3)
    \<and> isl (snd (snd (sweep_repos T t (xs @ ys) r1 [] n2))) = isl (snd (snd (sweep_repos T t (xs @ ys) res [] n3)))"
proof -
  have f: "fresh rs []" for rs by (simp add: fresh_def)
  obtain r3 w3 e3 where three: "sweep_repos T t xs res [] n3 = (r3, w3, e3)" by (metis prod_cases3)
  have same: "r3 = r1" "isl e3 = isl e1"
    using sweep_fresh [OF f f, of T t xs res n1 n3] one three by simp_all
  obtain m where two: "sweep_repos T t xs r1 [] n2 = (r1, [], case e1 of Inl x \<Rightarrow> Inl x | Inr _ \<Rightarrow> Inr m)"
    using rerun [OF one f f] by blast
  show ?thesis
  proof (cases e1)
    case (Inl x)
    then obtain y where "e3 = Inl y" using same(2) by (cases e3) auto
    then show ?thesis using Inl two three same(1) by (simp add: sweep_append)
  next
    case (Inr x)
    then obtain y where y: "e3 = Inr y" using same(2) by (cases e3) auto
    have "fresh r1 w3" using sweep_stays_fresh [OF three f] same(1) by simp
    from sweep_fresh [OF f this, of T t ys m y] show ?thesis
      using Inr two three y same(1) by (simp add: sweep_append)
  qed
qed

lemma update_twice: "AList.update k w (AList.update k v ds) = AList.update k w ds"
  by (induction ds) auto

lemma repos_of_prefix:
  "(\<exists>e. repos_of src k = Inl e \<and> repos_of src (k + j) = Inl e)
    \<or> (\<exists>xs ys. repos_of src k = Inr xs \<and> repos_of src (k + j) = Inr (xs @ ys))"
  by (auto simp: repos_of_def corpus_repos_def take_add split: repo_source.splits sum.splits)

text \<open>
  C2. A sweep can be stopped and continued. A run limited to the first repositories, however it ended,
  followed by a run with a higher limit leaves exactly the results that one uninterrupted run with
  that limit leaves, for this and for every other rule, and ends in the same way.
\<close>

theorem sweep_resumes:
  "case do_sweep S spec src k None stores of (stores1, _, _) \<Rightarrow>
     (case do_sweep S spec src (k + j) None stores1 of (stores2, _, end2) \<Rightarrow>
       (case do_sweep S spec src (k + j) None stores of (stores3, _, end3) \<Rightarrow>
          stores2 = stores3 \<and> isl end2 = isl end3))"
proof (cases "authored_rule S spec")
  case (Inl e)
  then show ?thesis by (simp add: do_sweep_def bind_res_def)
next
  case (Inr tr)
  obtain t rid where tr: "authored_rule S spec = Inr (t, rid)" using Inr by (cases tr) simp
  from repos_of_prefix [of src k j] show ?thesis
  proof (elim disjE exE conjE)
    fix e assume "repos_of src k = Inl e" "repos_of src (k + j) = Inl e"
    then show ?thesis by (simp add: do_sweep_def bind_res_def tr)
  next
    fix xs ys assume repos: "repos_of src k = Inr xs" "repos_of src (k + j) = Inr (xs @ ys)"
    define T where "T = su_tools S"
    define n where "n l = \<lparr>sw_repos = l, sw_swept = 0, sw_skipped = 0, sw_errors = 0, sw_hits = 0\<rparr>" for l
    define res where "res = results_of stores rid"
    obtain r1 w1 e1 where one: "sweep_repos T t xs res [] (n (length xs)) = (r1, w1, e1)" by (metis prod_cases3)
    obtain r2 w2 e2 where two: "sweep_repos T t (xs @ ys) r1 [] (n (length (xs @ ys))) = (r2, w2, e2)" by (metis prod_cases3)
    obtain r3 w3 e3 where three: "sweep_repos T t (xs @ ys) res [] (n (length (xs @ ys))) = (r3, w3, e3)" by (metis prod_cases3)
    have "r2 = r3 \<and> isl e2 = isl e3"
      using sweep_resumed [OF one, of ys "n (length (xs @ ys))" "n (length (xs @ ys))"] two three by simp
    moreover have "results_of (AList.update rid r1 stores) rid = r1" by (simp add: results_of_def lookup_update)
    ultimately show ?thesis
      using one two three
      by (simp add: do_sweep_def bind_res_def tr repos update_twice flip: T_def n_def res_def)
  qed
qed

section \<open>What the candidates are\<close>

lemma sweep_result:
  assumes "sweep_repos T t repos res work n = (res', work', Inr m)" and "fresh res work"
  defines "new \<equiv> first_of_key fst (map fst res) repos"
  shows "res' = res @ map (\<lambda>p. (fst p, the (yields T t p))) new
    \<and> sw_hits m = sw_hits n + sum_list (map (\<lambda>p. length (candidates_of rid prov (the (yields T t p)))) new)
    \<and> sw_swept m = sw_swept n + length new
    \<and> sw_errors m = sw_errors n + length (filter (\<lambda>p. rp_error (the (yields T t p)) \<noteq> None) new)
    \<and> sw_skipped m = sw_skipped n + (length repos - length new)"
  using assms(1,2) unfolding new_def
proof (induction repos arbitrary: res work n)
  case (Cons repo repos)
  obtain slug url where repo: "repo = (slug, url)" by fastforce
  have short: "length (first_of_key fst seen xs) \<le> length xs" for seen :: "string list" and xs :: "repo list"
    by (induction xs arbitrary: seen) (auto intro: le_SucI)
  show ?case
  proof (cases rule: sweep_cases [where res = res and slug = slug and T = T and t = t and url = url])
    case skip
    then have "slug \<in> set (map fst res)" by (auto simp: map_of_eq_None_iff)
    then show ?thesis using Cons skip short [of "map fst res" repos] by (simp add: repo Suc_diff_le)
  next
    case slow
    then show ?thesis using sweep_slow [OF Cons.prems(2) slow] Cons.prems(1) by (simp add: repo del: sweep_repos.simps)
  next
    case (fin r)
    obtain w1 where w1: "sweep_one_repo T t work (slug, url) = Inr (r, w1)" "fresh (AList.update slug r res) w1"
      using fin by (rule fresh_step [OF Cons.prems(2)])
    have upd: "AList.update slug r res = res @ [(slug, r)]" by (rule update_absent [OF fin(1)])
    have notin: "slug \<notin> set (map fst res)" using fin(1) by (auto simp: map_of_eq_None_iff)
    have "first_of_key fst (map fst (res @ [(slug, r)])) repos = first_of_key fst (slug # map fst res) repos"
      by (rule first_of_key_seen) simp
    moreover have "sw_hits (count_result r n) = sw_hits n + length (candidates_of rid prov r)"
      "sw_swept (count_result r n) = Suc (sw_swept n)" "sw_skipped (count_result r n) = sw_skipped n"
      "sw_errors (count_result r n) = sw_errors n + (if rp_error r \<noteq> None then 1 else 0)"
      by (simp_all add: count_result_def candidates_of_def split: option.split)
    moreover note Cons.IH [OF _ w1(2)]
    ultimately show ?thesis using Cons.prems(1) w1(1) fin notin upd by (simp add: repo)
  qed
qed simp

text \<open>The candidates of a run are those of the repositories, the first URL of each, every one scanned by itself.\<close>

definition report_exact :: "sweep_setup \<Rightarrow> string \<Rightarrow> string \<Rightarrow> string list \<Rightarrow> repo list \<Rightarrow> sweep_summary \<Rightarrow> sweep_report \<Rightarrow> bool" where
  "report_exact S t rid prov repos n rep \<longleftrightarrow>
     (let firsts = first_of_key fst [] repos; result = (\<lambda>p. the (yields (su_tools S) t p)) in
      mset (sr_candidates rep) = mset (concat (map (\<lambda>p. candidates_of rid prov (result p)) firsts))
      \<and> length (sr_candidates rep) = sw_hits n \<and> sr_swept rep = sw_swept n \<and> sr_errors rep = sw_errors n
      \<and> sw_swept n + sw_skipped n = length repos)"

lemma mset_concat_map: "mset (concat (map f xs)) = (\<Sum>x \<in># mset xs. mset (f x))"
  by (induction xs) simp_all

lemma emit_report_exact:
  assumes run: "sweep_repos (su_tools S) t repos [] [] \<lparr>sw_repos = l, sw_swept = 0, sw_skipped = 0, sw_errors = 0, sw_hits = 0\<rparr>
      = (res, work, Inr n)"
  shows "report_exact S t rid prov repos n (emit_report rid prov res)"
proof -
  define firsts where "firsts = first_of_key fst [] repos"
  define result where "result = (\<lambda>p. the (yields (su_tools S) t p))"
  have short: "length (first_of_key fst seen xs) \<le> length xs" for seen :: "string list" and xs :: "repo list"
    by (induction xs arbitrary: seen) (auto intro: le_SucI)
  have r: "res = map (\<lambda>p. (fst p, result p)) firsts"
    "sw_hits n = sum_list (map (\<lambda>p. length (candidates_of rid prov (result p))) firsts)" "sw_swept n = length firsts"
    "sw_errors n = length (filter (\<lambda>p. rp_error (result p) \<noteq> None) firsts)" "sw_skipped n = length repos - length firsts"
    using sweep_result [OF run, of rid prov] by (simp_all add: fresh_def firsts_def result_def)
  define rs where "rs = map snd (sort_key (\<lambda>e. fst e @ ''.json'') res)"
  have rs: "mset rs = image_mset result (mset firsts)" by (simp add: rs_def r(1) multiset.map_comp comp_def)
  have cands: "mset (concat (map (candidates_of rid prov) rs)) = mset (concat (map (\<lambda>p. candidates_of rid prov (result p)) firsts))"
    unfolding mset_concat_map rs by (simp add: multiset.map_comp comp_def)
  moreover have "length (concat (map (candidates_of rid prov) rs)) = sw_hits n"
    using arg_cong [OF cands, of size] by (simp add: r(2) length_concat comp_def)
  moreover have "length (filter (\<lambda>r. rp_error r \<noteq> None) rs) = sw_errors n"
  proof -
    have "length (filter (\<lambda>r. rp_error r \<noteq> None) rs) = size (filter_mset (\<lambda>r. rp_error r \<noteq> None) (mset rs))"
      by (metis mset_filter size_mset)
    also have "\<dots> = length (filter (\<lambda>p. rp_error (result p) \<noteq> None) firsts)"
      unfolding rs filter_mset_image_mset size_image_mset by (metis mset_filter size_mset)
    finally show ?thesis by (simp add: r(4))
  qed
  moreover have "length rs = sw_swept n" by (metis r(3) rs size_image_mset size_mset)
  moreover have "sw_swept n + sw_skipped n = length repos" using short [of "[]" repos] by (simp add: r firsts_def)
  ultimately show ?thesis
    unfolding report_exact_def emit_report_def Let_def by (simp add: firsts_def result_def flip: rs_def)
qed

text \<open>
  C5. The candidates of a sweep are exactly what the scanner found. When a sweep that starts from no results
  ends, emitting gives the facts of every repository in the list that was scanned, each scan being of the
  first URL listed under its name and of nothing else, with that URL and the rule, no more and no
  fewer, and its counts agree with those of the run.
\<close>

theorem candidates_are_scans:
  "case do_sweep S spec src limit None [] of
     (stores, _, Inl e) \<Rightarrow> True
   | (stores, _, Inr n) \<Rightarrow>
       (case (authored_rule S spec, repos_of src limit, do_emit S prov spec True stores reports) of
          (Inr (t, rid), Inr repos, Inr (skipped, reports')) \<Rightarrow>
             (case map_of reports' rid of None \<Rightarrow> False | Some rep \<Rightarrow> report_exact S t rid (prov t rid) repos n rep)
        | _ \<Rightarrow> False)"
proof (cases "authored_rule S spec")
  case (Inl e)
  then show ?thesis by (simp add: do_sweep_def bind_res_def)
next
  case (Inr tr)
  obtain t rid where tr: "authored_rule S spec = Inr (t, rid)" using Inr by (cases tr) simp
  then have rule: "rule_text (su_cwd S) (su_pack S) (su_drafts S) spec = Inr t" "rule_id_of t spec = Inr rid"
    by (auto simp: authored_rule_def bind_res_def split: sum.splits if_splits)
  show ?thesis
  proof (cases "repos_of src limit")
    case none: (Inl e)
    then show ?thesis by (simp add: do_sweep_def bind_res_def tr)
  next
    case repos: (Inr repos)
    obtain res work e where run: "sweep_repos (su_tools S) t repos [] []
        \<lparr>sw_repos = length repos, sw_swept = 0, sw_skipped = 0, sw_errors = 0, sw_hits = 0\<rparr> = (res, work, e)" by (metis prod_cases3)
    show ?thesis
    proof (cases e)
      case (Inl x)
      then show ?thesis by (simp add: do_sweep_def bind_res_def tr repos results_of_def run)
    next
      case ended: (Inr n)
      from emit_report_exact [OF run [unfolded ended]] show ?thesis
        by (simp add: do_sweep_def do_emit_def bind_res_def tr repos results_of_def run ended rule lookup_update)
    qed
  qed
qed

section \<open>Drafts wait for their author\<close>

lemma occurs_in_middle: "occurs_in p (a @ p @ b)"
proof (induction a)
  case Nil
  have "startswith (p @ b) p" by (simp add: startswith_def)
  then show ?case by (cases "p @ b") auto
next
  case (Cons c cs)
  then show ?case by simp
qed

lemma skeleton_todo: "occurs_in ''TODO'' (skeleton cls ms)"
proof -
  have "\<exists>a b. skeleton cls ms = a @ ''TODO'' @ b"
    by (intro exI [of _ "line_of_text ''rules:'' @ line_of_text (''  - id: '' @ draft_rule_id (sc_cwe cls) (sc_language cls))
      @ line_of_text (''    languages: ['' @ sc_language cls @ '']'')
      @ line_of_text (''    severity: '' @ (if list_ex (\<lambda>m. sf_severity m \<in> {Some ''critical'', Some ''high''}) ms then ''ERROR'' else ''WARNING''))
      @ line_of_text ''    message: >-'' @ ''      ''"] exI) (simp add: skeleton_def line_of_text_def)
  then show ?thesis using occurs_in_middle by metis
qed

text \<open>
  No rule runs before somebody has written it. Every draft the draft stage leaves, asked for by its
  name, is refused by the sweep as unauthored, and nothing is cloned, scanned or recorded for it.
\<close>

theorem drafts_wait_for_author:
  "case do_draft (Some col) pack ds of
     Inl e \<Rightarrow> False
   | Inr (r, ds') \<Rightarrow> list_all (\<lambda>slug. do_sweep (S\<lparr>su_cwd := \<lambda>_. Cwd_none, su_pack := pack, su_drafts := ds'\<rparr>) slug src limit work stores
       = (stores, work, Inl Unauthored)) (dr_emitted r)"
proof -
  obtain r ds' where run: "do_draft (Some col) pack ds = Inr (r, ds')" by (simp add: do_draft_def) (metis surj_pair)
  then obtain new where new: "ds' = ds @ map (draft_entry (co_findings col)) new" "dr_emitted r = map slug_of new"
      "list_all (\<lambda>c. map_of ds (slug_of c) = None) new" "distinct (map slug_of new)"
    using draft_fold by (fastforce simp: do_draft_def list_all_iff)
  have "do_sweep (S\<lparr>su_cwd := \<lambda>_. Cwd_none, su_pack := pack, su_drafts := ds'\<rparr>) (slug_of c) src limit work stores
      = (stores, work, Inl Unauthored)" if c: "c \<in> set new" for c
  proof -
    have "map_of (map (draft_entry (co_findings col)) new) (slug_of c) = Some (snd (draft_entry (co_findings col) c))"
      by (rule map_of_is_SomeI) (use new(4) c in \<open>auto simp: comp_def draft_entry_def\<close>)
    moreover have "map_of ds (slug_of c) = None" using new(3) c by (simp add: list_all_iff)
    ultimately have "map_of ds' (slug_of c) = Some (snd (draft_entry (co_findings col) c))"
      by (simp add: new(1) map_add_def)
    then show ?thesis
      by (simp add: do_sweep_def authored_rule_def rule_text_def resolve_rule_def bind_res_def draft_entry_def skeleton_todo)
  qed
  then show ?thesis by (simp add: run new(2) list_all_iff)
qed

section \<open>Two ways a sweep keeps a wrong result\<close>

text \<open>A repository whose clone failed is not tried again.\<close>

lemma failed_clone_is_kept:
  "sweep_repos T t [(slug, url)] [(slug, repo_failed slug (Some url) e)] work n
     = ([(slug, repo_failed slug (Some url) e)], work, Inr (n\<lparr>sw_skipped := Suc (sw_skipped n)\<rparr>))"
  by simp

text \<open>In a work directory that is kept, the clone of another URL is scanned under the name of this one.\<close>

lemma other_clone_is_scanned:
  "startswith url ''http'' \<Longrightarrow> \<not> startswith url ''dir:'' \<Longrightarrow>
     sweep_one_repo T t [(slug, other)] (slug, url) = Inr (scan_target T t (slug, url) other, [(slug, other)])"
  by (simp add: sweep_one_repo_def)

end
