(* ===== verification/Sweep_Lane.thy ===== *)
theory Sweep_Lane
  imports Complex_Main Sweep_Collect
begin

text \<open>
  \<open>sweep/calibration.py\<close> and \<open>sweep/rule_lane.py\<close>: which targets a pack can be calibrated on, the scores of its
  rules against confirmed findings, and the weekly lane: the delta between two mining results, whether a
  gate opened, the precision of enabled rules, and the exit status. Documents that are read
  again are the records they were written from; a precision is an exact fraction. The Markdown, the
  cached clones and the processes of the stages are left out or arguments.
\<close>

section \<open>Targets of a calibration\<close>

definition CWE_SETS :: "(string \<times> string list) list" where
  "CWE_SETS = [(''crypto'', [''CWE-295'', ''CWE-321'', ''CWE-322'', ''CWE-323'', ''CWE-325'', ''CWE-326'', ''CWE-327'', ''CWE-328'',
     ''CWE-329'', ''CWE-330'', ''CWE-331'', ''CWE-338'', ''CWE-347'', ''CWE-759'', ''CWE-760'', ''CWE-780'', ''CWE-916'', ''CWE-1240''])]"

definition PACK_LANGS :: "string list" where
  "PACK_LANGS = [''c'', ''cpp'', ''c++'', ''csharp'', ''c#'', ''go'', ''java'', ''javascript'', ''python'', ''rust'', ''typescript'']"

definition REDISCOVERY_GATE :: nat where
  "REDISCOVERY_GATE = 3"

definition SHA_RX :: rx where
  "SHA_RX = seq [At Bos, Rep 7 (Some 40) True (Cls (\<lambda>c. is_digit c \<or> c \<in> set ''abcdef'')), At Eos]"

text \<open>A line that does not parse is skipped.\<close>

definition load_corpus :: "(string \<Rightarrow> tp_row option) \<Rightarrow> string \<Rightarrow> tp_row list" where
  "load_corpus loads text = List.map_filter loads (filter (\<lambda>l. l \<noteq> []) (map strip (split_lines text)))"

definition cwes_of :: "tp_row \<Rightarrow> string list" where
  "cwes_of r = remdups (tp_cwes r @ (if tp_cwe r = [] then [] else [tp_cwe r]))"

record target_meta =
  tg_locations :: "string list"
  tg_cwes :: "string list"
  tg_count :: nat
  tg_titles :: "string list"

definition usable_row :: "string list option \<Rightarrow> string list option \<Rightarrow> tp_row \<Rightarrow> bool" where
  "usable_row wanted langs r \<longleftrightarrow>
     (case wanted of None \<Rightarrow> True | Some w \<Rightarrow> w = [] \<or> list_ex (\<lambda>c. c \<in> set w) (cwes_of r))
     \<and> (let ls = (case langs of None \<Rightarrow> PACK_LANGS | Some l \<Rightarrow> l) in ls = [] \<or> lower (tp_language r) \<in> set ls)
     \<and> tp_repo r \<noteq> [] \<and> truthy (tp_commit r) \<and> list_ex (\<lambda>l. l \<noteq> []) (tp_locations r)
     \<and> re_match SHA_RX (or_str (tp_commit r) []) \<noteq> None"

definition target_of :: "tp_row \<Rightarrow> string \<times> string" where
  "target_of r = (tp_repo r, or_str (tp_commit r) [])"

definition select_targets :: "tp_row list \<Rightarrow> string option \<Rightarrow> string list option \<Rightarrow> ((string \<times> string) \<times> target_meta) list" where
  "select_targets corpus cwe_set langs =
     map (\<lambda>(k, rs). (k, \<lparr>tg_locations = remdups (concat (map (\<lambda>r. filter (\<lambda>l. l \<noteq> []) (tp_locations r)) rs)),
         tg_cwes = remdups (concat (map cwes_of rs)), tg_count = length rs,
         tg_titles = filter (\<lambda>t. t \<noteq> []) (map tp_title rs)\<rparr>))
       (group_by target_of (filter (usable_row (map_of CWE_SETS (or_str cwe_set [])) langs) corpus))"

text \<open>The weaknesses of the targets with the repositories that have them; the weaknesses of one target in any order.\<close>

definition cwe_spans :: "((string \<times> string) \<times> target_meta) list \<Rightarrow> string list \<Rightarrow> (string \<times> string list) list" where
  "cwe_spans targets covered =
     map (\<lambda>(cwe, ps). (cwe, remdups (map snd ps)))
       (group_by fst (concat (map (\<lambda>((repo, _), meta). map (\<lambda>cwe. (cwe, repo))
           (filter (\<lambda>cwe. covered = [] \<or> cwe \<in> set covered) (tg_cwes meta))) targets)))"

definition gate_reachability :: "((string \<times> string) \<times> target_meta) list \<Rightarrow> string list \<Rightarrow> nat \<times> string option" where
  "gate_reachability targets covered =
     (case cwe_spans targets covered of
        [] \<Rightarrow> (0, None)
      | x # xs \<Rightarrow> (let best = max_by (\<lambda>(cwe, repos). length repos) x xs in (length (snd best), Some (fst best))))"

section \<open>Scores\<close>

function norm_path :: "string \<Rightarrow> string" where
  "norm_path s = (if startswith s ''./'' then norm_path (drop 2 s) else s)"
  by auto
termination
  by (relation "measure length") (auto simp: startswith_def dest!: arg_cong [where f = length])

declare norm_path.simps [simp del]

record pack_finding =
  pk_rule :: string
  pk_path :: string

definition classify_findings :: "pack_finding list \<Rightarrow> string list \<Rightarrow> pack_finding list \<times> pack_finding list" where
  "classify_findings findings locations =
     (let tp = map (norm_path \<circ> strip) locations in
      partition (\<lambda>f. norm_path (strip (pk_path f)) \<in> set tp) findings)"

record calibrated =
  cr_repo :: string
  cr_commit :: "string option"
  cr_scanned :: bool
  cr_locations :: "string list"
  cr_rediscovery :: "pack_finding list"
  cr_novel :: "pack_finding list"

record rule_score =
  ru_fires :: nat
  ru_rediscoveries :: nat
  ru_novel :: nat
  ru_repos_fired :: nat
  ru_repos_rediscovered :: nat
  ru_clears :: bool

record calibration_totals =
  ct_repos :: nat
  ct_scanned :: nat
  ct_findings :: nat
  ct_rediscovery :: nat
  ct_novel :: nat
  ct_tp_files :: nat

text \<open>The findings of the scanned repositories as rule, repository and whether it is a rediscovery.\<close>

definition fires_of :: "calibrated list \<Rightarrow> (string \<times> string \<times> bool) list" where
  "fires_of rows = concat (map (\<lambda>r. map (\<lambda>f. (pk_rule f, cr_repo r, True)) (cr_rediscovery r)
     @ map (\<lambda>f. (pk_rule f, cr_repo r, False)) (cr_novel r)) (filter cr_scanned rows))"

definition rule_score_of :: "(string \<times> string \<times> bool) list \<Rightarrow> rule_score" where
  "rule_score_of fs =
     (let redis = filter (snd \<circ> snd) fs; rr = length (remdups (map (fst \<circ> snd) redis)) in
      \<lparr>ru_fires = length fs, ru_rediscoveries = length redis, ru_novel = length (filter (Not \<circ> snd \<circ> snd) fs),
       ru_repos_fired = length (remdups (map (fst \<circ> snd) fs)), ru_repos_rediscovered = rr, ru_clears = (REDISCOVERY_GATE \<le> rr)\<rparr>)"

definition aggregate_scores :: "calibrated list \<Rightarrow> calibration_totals \<times> (string \<times> rule_score) list" where
  "aggregate_scores rows =
     (let sc = filter cr_scanned rows in
      (\<lparr>ct_repos = length rows, ct_scanned = length sc, ct_findings = length (fires_of rows),
        ct_rediscovery = length (concat (map cr_rediscovery sc)), ct_novel = length (concat (map cr_novel sc)),
        ct_tp_files = sum_list (map (length \<circ> cr_locations) sc)\<rparr>,
       map (\<lambda>(rid, fs). (rid, rule_score_of fs)) (group_by fst (fires_of rows))))"

text \<open>\<open>rows[::step]\<close> for a positive step.\<close>

definition every_nth :: "nat \<Rightarrow> 'a list \<Rightarrow> 'a list" where
  "every_nth step xs = map ((!) xs) (filter (\<lambda>i. i mod step = 0) [0..<length xs])"

definition novel_sample :: "calibrated list \<Rightarrow> nat \<Rightarrow> (string \<times> string option \<times> pack_finding) list" where
  "novel_sample rows n =
     (let hits = concat (map (\<lambda>r. map (\<lambda>f. (cr_repo r, cr_commit r, f))
            (sort_key (\<lambda>f. (pk_rule f, pk_path f)) (cr_novel r))) (sort_key cr_repo rows));
          step = (if hits = [] then 1 else max 1 (length hits div n)) in
      take n (every_nth step hits))"

section \<open>Reachability\<close>

definition WATCHED_LANGS :: "string list" where
  "WATCHED_LANGS = [''rust'', ''c'', ''cpp'', ''csharp'']"

record reach_row =
  rc_repos :: nat
  rc_span :: nat
  rc_cwe :: "string option"
  rc_reachable :: bool

text \<open>A pack with the weaknesses its cached rules name, none when it is not cached.\<close>

type_synonym reachability = "(string \<times> (string \<times> reach_row) list option) list"

definition reach_row_of :: "tp_row list \<Rightarrow> string list \<Rightarrow> string \<Rightarrow> reach_row" where
  "reach_row_of corpus covered lang =
     (let targets = select_targets corpus None (Some [lang]); sp = gate_reachability targets covered in
      \<lparr>rc_repos = length targets, rc_span = fst sp, rc_cwe = snd sp, rc_reachable = (REDISCOVERY_GATE \<le> fst sp)\<rparr>)"

definition compute_reachability :: "tp_row list \<Rightarrow> (string \<times> string list) list \<Rightarrow> reachability option" where
  "compute_reachability corpus packs =
     (if corpus = [] then None
      else Some (map (\<lambda>(name, covered). (name, if covered = [] then None
          else Some (map (\<lambda>lang. (lang, reach_row_of corpus covered lang)) WATCHED_LANGS))) packs))"

record reach_crossing =
  rx_pack :: string
  rx_language :: string
  rx_opened :: bool
  rx_row :: reach_row

definition crossing_of :: "(string \<times> reach_row) list \<Rightarrow> string \<Rightarrow> string \<times> reach_row \<Rightarrow> reach_crossing option" where
  "crossing_of was pack entry = (case entry of (lang, row) \<Rightarrow> (case map_of was lang of
       None \<Rightarrow> None
     | Some before \<Rightarrow> if rc_reachable before = rc_reachable row then None
         else Some \<lparr>rx_pack = pack, rx_language = lang, rx_opened = rc_reachable row, rx_row = row\<rparr>))"

definition rows_before :: "reachability option \<Rightarrow> string \<Rightarrow> (string \<times> reach_row) list" where
  "rows_before prev pack = (case prev of None \<Rightarrow> [] | Some ps \<Rightarrow> (case map_of ps pack of Some (Some ls) \<Rightarrow> ls | _ \<Rightarrow> []))"

definition reachability_crossings :: "reachability option \<Rightarrow> reachability option \<Rightarrow> reach_crossing list" where
  "reachability_crossings prev cur = (case cur of
       None \<Rightarrow> []
     | Some packs \<Rightarrow> concat (map (\<lambda>k. case snd k of
           None \<Rightarrow> []
         | Some langs \<Rightarrow> List.map_filter (crossing_of (rows_before prev (fst k)) (fst k)) (sort_key fst langs))
         (sort_key fst packs)))"

section \<open>The delta\<close>

text \<open>What the lane reads of a mining result.\<close>

record mining_doc =
  mi_confirmed :: int
  mi_ruleable :: int
  mi_uncovered :: "cluster list"
  mi_precision :: "(string \<times> rat option) list"

definition mining_doc_of :: "mining_result \<Rightarrow> mining_doc" where
  "mining_doc_of g = \<lparr>mi_confirmed = int (mg_confirmed g), mi_ruleable = int (mg_ruleable g), mi_uncovered = mg_uncovered g,
     mi_precision = map (\<lambda>(r, t, p). (r, map_option (\<lambda>(a, b). of_nat a / of_nat b) p)) (mg_precision g)\<rparr>"

definition PRECISION_GATE :: rat where
  "PRECISION_GATE = 1 / 2"

definition lane_cluster_key :: "cluster \<Rightarrow> string" where
  "lane_cluster_key c = cl_cwe c @ ''/'' @ cl_language c"

definition by_cluster_key :: "cluster list \<Rightarrow> (string \<times> cluster) list" where
  "by_cluster_key cs = fold (\<lambda>c. AList.update (lane_cluster_key c) c) cs []"

datatype gate_move = Entered_below | Fell_below | Rose_above

record gate_crossing =
  gc_rule :: string
  gc_previous :: "rat option"
  gc_precision :: rat
  gc_move :: gate_move

datatype lane_reason =
    Baseline
  | New_clusters nat
  | Grown_clusters nat
  | Rules_below nat
  | Drafts_staged nat
  | Gate_opened string string
  | Enabled_below "string list"

record lane_delta =
  dl_baseline :: bool
  dl_confirmed :: int
  dl_ruleable :: int
  dl_growth :: "int option"
  dl_new :: "(string \<times> nat \<times> nat \<times> string list) list"
  dl_resolved :: "(string \<times> nat) list"
  dl_changed :: "(string \<times> nat \<times> nat) list"
  dl_crossings :: "gate_crossing list"
  dl_needed :: bool
  dl_reasons :: "lane_reason list"

definition gate_crossing_of :: "rat option \<Rightarrow> string \<Rightarrow> rat \<Rightarrow> gate_crossing list" where
  "gate_crossing_of pp rid cp =
     map (\<lambda>mv. \<lparr>gc_rule = rid, gc_previous = pp, gc_precision = cp, gc_move = mv\<rparr>)
       (case pp of
          None \<Rightarrow> if cp < PRECISION_GATE then [Entered_below] else []
        | Some p \<Rightarrow>
            if PRECISION_GATE \<le> p \<and> cp < PRECISION_GATE then [Fell_below]
            else if p < PRECISION_GATE \<and> PRECISION_GATE \<le> cp then [Rose_above] else [])"

definition known_precision :: "(string \<times> rat option) list \<Rightarrow> string \<Rightarrow> rat option" where
  "known_precision ps rid = (case map_of ps rid of None \<Rightarrow> None | Some p \<Rightarrow> p)"

definition gate_crossings :: "(string \<times> rat option) list \<Rightarrow> (string \<times> rat option) list \<Rightarrow> gate_crossing list" where
  "gate_crossings prev cur = concat (map (\<lambda>rid. case known_precision cur rid of
       None \<Rightarrow> [] | Some cp \<Rightarrow> gate_crossing_of (known_precision prev rid) rid cp) (sort (remdups (map fst cur))))"

definition keys_sorted :: "(string \<times> 'a) list \<Rightarrow> string list" where
  "keys_sorted d = sort (remdups (map fst d))"

definition compute_delta :: "mining_doc option \<Rightarrow> mining_doc \<Rightarrow> lane_delta" where
  "compute_delta prev cur = (case prev of
       None \<Rightarrow> \<lparr>dl_baseline = True, dl_confirmed = mi_confirmed cur, dl_ruleable = mi_ruleable cur, dl_growth = None,
         dl_new = [], dl_resolved = [], dl_changed = [], dl_crossings = [], dl_needed = False, dl_reasons = [Baseline]\<rparr>
     | Some prev \<Rightarrow>
         (let p = by_cluster_key (mi_uncovered prev); c = by_cluster_key (mi_uncovered cur);
              new = List.map_filter (\<lambda>k. case (map_of c k, map_of p k) of
                  (Some x, None) \<Rightarrow> Some (k, cl_count x, cl_repos x, take 3 (cl_examples x)) | _ \<Rightarrow> None) (keys_sorted c);
              resolved = List.map_filter (\<lambda>k. case (map_of p k, map_of c k) of
                  (Some x, None) \<Rightarrow> Some (k, cl_count x) | _ \<Rightarrow> None) (keys_sorted p);
              changed = List.map_filter (\<lambda>k. case (map_of p k, map_of c k) of
                  (Some x, Some y) \<Rightarrow> if cl_count x = cl_count y then None else Some (k, cl_count x, cl_count y) | _ \<Rightarrow> None)
                (keys_sorted p);
              crossings = gate_crossings (mi_precision prev) (mi_precision cur);
              grown = filter (\<lambda>(k, a, b). a < b) changed;
              below = filter (\<lambda>x. gc_move x \<noteq> Rose_above) crossings;
              reasons = (if new = [] then [] else [New_clusters (length new)])
                @ (if grown = [] then [] else [Grown_clusters (length grown)])
                @ (if below = [] then [] else [Rules_below (length below)]) in
          \<lparr>dl_baseline = False, dl_confirmed = mi_confirmed cur, dl_ruleable = mi_ruleable cur,
           dl_growth = Some (mi_confirmed cur - mi_confirmed prev), dl_new = new, dl_resolved = resolved, dl_changed = changed,
           dl_crossings = crossings, dl_needed = (reasons \<noteq> []), dl_reasons = reasons\<rparr>))"

section \<open>Enabled rules\<close>

record allow_row =
  aw_rule :: string
  aw_precision :: rat
  aw_below :: bool

record allow_report =
  ar_enabled :: nat
  ar_measured :: "allow_row list"
  ar_unmeasured :: "string list"
  ar_below :: "allow_row list"

definition allowlist_precision :: "mining_doc \<Rightarrow> string list option \<Rightarrow> allow_report option" where
  "allowlist_precision cur allow = (case allow of
       None \<Rightarrow> None
     | Some rules \<Rightarrow>
         (let rids = sort (remdups rules);
              rows = List.map_filter (\<lambda>rid. map_option (\<lambda>p. \<lparr>aw_rule = rid, aw_precision = p, aw_below = (p < PRECISION_GATE)\<rparr>)
                (known_precision (mi_precision cur) rid)) rids in
          Some \<lparr>ar_enabled = length rids, ar_measured = rows,
            ar_unmeasured = filter (\<lambda>rid. known_precision (mi_precision cur) rid = None) rids, ar_below = filter aw_below rows\<rparr>))"

section \<open>The lane\<close>

datatype stage_status = Stage_ok | Stage_failed | Stage_skipped

record lane_stage =
  ls_stage :: string
  ls_status :: stage_status
  ls_summary :: string

definition record_stage :: "string \<Rightarrow> int \<Rightarrow> string \<Rightarrow> lane_stage" where
  "record_stage stage rc summary = \<lparr>ls_stage = stage, ls_status = (if rc = 0 then Stage_ok else Stage_failed), ls_summary = summary\<rparr>"

definition skipped_stage :: "string \<Rightarrow> string \<Rightarrow> lane_stage" where
  "skipped_stage stage why = \<lparr>ls_stage = stage, ls_status = Stage_skipped, ls_summary = why\<rparr>"

text \<open>How the sweep stages went: what was collected and drafted, or what was raised.\<close>

definition sweep_stages :: "bool \<Rightarrow> string + string \<Rightarrow> string + draft_result \<Rightarrow> lane_stage list" where
  "sweep_stages skip collect draft =
     (if skip then [skipped_stage ''sweep-collect'' ''--skip-sweep'', skipped_stage ''sweep-draft'' ''--skip-sweep'']
      else (case collect of
          Inl e \<Rightarrow> [record_stage ''sweep-collect'' 1 e]
        | Inr summary \<Rightarrow> [record_stage ''sweep-collect'' 0 summary, (case draft of
              Inl e \<Rightarrow> record_stage ''sweep-draft'' 1 e
            | Inr r \<Rightarrow> record_stage ''sweep-draft'' 0 (''draft: '' @ show_nat (length (dr_emitted r)) @ '' draft(s) staged (''
                @ (if dr_emitted r = [] then ''none'' else join '', '' (dr_emitted r)) @ ''); '' @ show_nat (length (dr_skipped r))
                @ '' class(es) skipped''))]))"

text \<open>The script that stages regression drafts: not asked for, not configured, or run with its status and last line.\<close>

datatype draft_script = Script_off | Script_missing | Script_ran int string

definition regression_stage :: "draft_script \<Rightarrow> lane_stage" where
  "regression_stage s = (case s of
       Script_off \<Rightarrow> skipped_stage ''regression-drafts'' ''--draft-limit 0''
     | Script_missing \<Rightarrow> skipped_stage ''regression-drafts'' ''emit_rule_drafts script not configured''
     | Script_ran rc summary \<Rightarrow> record_stage ''regression-drafts'' rc summary)"

definition staged_by :: "lane_stage \<Rightarrow> nat" where
  "staged_by s =
     (case (if ls_stage s = ''sweep-draft'' \<and> ls_status s = Stage_ok then
              re_search (seq [lit ''draft:'', star (Cls is_space), Grp 1 (plus digit), lit '' draft'']) (ls_summary s)
            else if ls_stage s = ''regression-drafts'' \<and> ls_status s = Stage_ok then
              re_match (seq [Grp 1 (plus digit), lit '' draft'']) (ls_summary s)
            else None) of
        None \<Rightarrow> 0 | Some m \<Rightarrow> group_int 1 m)"

record lane_run =
  lr_skip :: bool
  lr_collect :: "string + string"
  lr_draft :: "string + draft_result"
  lr_script :: draft_script
  lr_packs :: "(string \<times> string list) list"
  lr_allow :: "string list option"

record lane_result =
  lx_exit :: nat
  lx_delta :: lane_delta
  lx_staged :: nat
  lx_reach :: "reachability option"
  lx_crossings :: "reach_crossing list"
  lx_allow :: "allow_report option"
  lx_stages :: "lane_stage list"

text \<open>The lane after its mining stage: what that found, and the mining result and the reachability of the run before.\<close>

definition rule_lane :: "lane_run \<Rightarrow> mining_doc option \<Rightarrow> reachability option \<Rightarrow> mining_doc \<Rightarrow> tp_row list \<Rightarrow> lane_result" where
  "rule_lane L prev prev_reach cur corpus =
     (let stages = sweep_stages (lr_skip L) (lr_collect L) (lr_draft L) @ [regression_stage (lr_script L)];
          failed = list_ex (\<lambda>s. ls_status s = Stage_failed) stages;
          delta = compute_delta prev cur;
          staged = sum_list (map staged_by stages);
          reach = compute_reachability corpus (lr_packs L);
          crossings = reachability_crossings prev_reach reach;
          allow = allowlist_precision cur (lr_allow L);
          below = (case allow of None \<Rightarrow> [] | Some a \<Rightarrow> map aw_rule (ar_below a));
          reasons = (if staged \<noteq> 0 \<and> \<not> dl_baseline delta then [Drafts_staged staged] else [])
            @ map (\<lambda>c. Gate_opened (rx_pack c) (rx_language c)) (filter rx_opened crossings)
            @ (if below = [] then [] else [Enabled_below below]);
          needed = (dl_needed delta \<or> reasons \<noteq> []) in
      \<lparr>lx_exit = (if failed then 2 else if needed then 1 else 0),
       lx_delta = delta\<lparr>dl_needed := needed, dl_reasons := dl_reasons delta @ reasons\<rparr>,
       lx_staged = staged, lx_reach = reach, lx_crossings = crossings, lx_allow = allow, lx_stages = stages\<rparr>)"

text \<open>What the lane finds configured: each place, or what is missing of it, and whether the findings tree is a directory.\<close>

record lane_setup =
  lp_given :: "string option"
  lp_workspace :: "string + string"
  lp_results :: "string + string"
  lp_progress :: "string + string"
  lp_tree :: bool

datatype lane_stop = No_workspace | No_config string | No_findings_tree | Mining_failed "lane_stage list"
  | Fresh_unreadable string "lane_stage list"

definition lane_places :: "lane_setup \<Rightarrow> lane_stop option" where
  "lane_places S =
     (case (lp_given S, lp_workspace S) of
        (None, Inl _) \<Rightarrow> Some No_workspace
      | _ \<Rightarrow> (case lp_results S of Inl e \<Rightarrow> Some (No_config e)
          | Inr _ \<Rightarrow> (case lp_progress S of Inl e \<Rightarrow> Some (No_config e)
              | Inr _ \<Rightarrow> if lp_tree S then None else Some No_findings_tree)))"

definition snapshot_stage :: "mining_doc option \<Rightarrow> lane_stage" where
  "snapshot_stage prev = record_stage ''snapshot'' 0
     (if prev = None then ''no previous artifact -- baseline run'' else ''previous rule-mining.json loaded'')"

text \<open>
  The whole lane: with its exit status, why it stopped or its result. The mining stage fails with its last line, or has a
  last line, a result and the corpus; the result it wrote may not be readable afterwards, with an error.
\<close>

definition execute_rule_lane :: "lane_setup \<Rightarrow> lane_run \<Rightarrow> mining_doc option \<Rightarrow> reachability option
    \<Rightarrow> string + string \<times> mining_result \<times> tp_row list \<Rightarrow> string option \<Rightarrow> nat \<times> (lane_stop + lane_result)" where
  "execute_rule_lane S L prev prev_reach mined unreadable = (case lane_places S of
       Some e \<Rightarrow> (2, Inl e)
     | None \<Rightarrow> (case mined of
         Inl tail \<Rightarrow> (2, Inl (Mining_failed [snapshot_stage prev, record_stage ''mine'' 2 tail]))
       | Inr (tail, g, corpus) \<Rightarrow>
           (let before = [snapshot_stage prev, record_stage ''mine'' 0 tail];
                r = rule_lane L prev prev_reach (mining_doc_of g) corpus in
            (case unreadable of
               Some e \<Rightarrow> (2, Inl (Fresh_unreadable e (before @ sweep_stages (lr_skip L) (lr_collect L) (lr_draft L)
                   @ [regression_stage (lr_script L)])))
             | None \<Rightarrow> (lx_exit r, Inr (r\<lparr>lx_stages := before @ lx_stages r\<rparr>))))))"

section \<open>A corpus read back\<close>

text \<open>
  The corpus is written with one row to a line and every character above ASCII as it is, and read by
  splitting at every line boundary: a row with a next-line character, which JSON leaves as it is, is
  two lines that do not parse.
\<close>

lemma row_with_line_boundary_lost:
  "load_corpus (\<lambda>l. if l = ''row'' @ [CHR 0x85] @ ''text'' then Some r else None) (''row'' @ [CHR 0x85] @ ''text'' @ [CHR 0x0A]) = []"
proof -
  have "map strip (split_lines (''row'' @ [CHR 0x85] @ ''text'' @ [CHR 0x0A])) = [''row'', ''text'']" by code_simp
  then show ?thesis by (simp add: load_corpus_def map_filter_def)
qed

section \<open>What the delta says\<close>

definition cluster_counts :: "mining_doc \<Rightarrow> string \<Rightarrow> nat option" where
  "cluster_counts d k = map_option cl_count (map_of (by_cluster_key (mi_uncovered d)) k)"

text \<open>The counts a reader of the delta arrives at from those of the run before.\<close>

definition replay_delta :: "lane_delta \<Rightarrow> (string \<Rightarrow> nat option) \<Rightarrow> string \<Rightarrow> nat option" where
  "replay_delta d before k =
     (case map_of (dl_new d) k of
        Some (n, _) \<Rightarrow> Some n
      | None \<Rightarrow> if map_of (dl_resolved d) k \<noteq> None then None
          else (case map_of (dl_changed d) k of Some (_, n) \<Rightarrow> Some n | None \<Rightarrow> before k))"

lemma map_of_keyed:
  "map_of (List.map_filter (\<lambda>k. map_option (Pair k) (f k)) ks) k = (if k \<in> set ks then f k else None)"
  by (induction ks) (auto simp: map_filter_def split: option.splits)

lemma in_keys_sorted: "k \<in> set (keys_sorted d) \<longleftrightarrow> map_of d k \<noteq> None"
  by (simp add: keys_sorted_def map_of_eq_None_iff)

definition news_of :: "mining_doc \<Rightarrow> mining_doc \<Rightarrow> string \<Rightarrow> (nat \<times> nat \<times> string list) option" where
  "news_of prev cur k = (case (map_of (by_cluster_key (mi_uncovered cur)) k, map_of (by_cluster_key (mi_uncovered prev)) k) of
     (Some x, None) \<Rightarrow> Some (cl_count x, cl_repos x, take 3 (cl_examples x)) | _ \<Rightarrow> None)"

definition gone_of :: "mining_doc \<Rightarrow> mining_doc \<Rightarrow> string \<Rightarrow> nat option" where
  "gone_of prev cur k = (case (map_of (by_cluster_key (mi_uncovered prev)) k, map_of (by_cluster_key (mi_uncovered cur)) k) of
     (Some x, None) \<Rightarrow> Some (cl_count x) | _ \<Rightarrow> None)"

definition moved_of :: "mining_doc \<Rightarrow> mining_doc \<Rightarrow> string \<Rightarrow> (nat \<times> nat) option" where
  "moved_of prev cur k = (case (map_of (by_cluster_key (mi_uncovered prev)) k, map_of (by_cluster_key (mi_uncovered cur)) k) of
     (Some x, Some y) \<Rightarrow> if cl_count x = cl_count y then None else Some (cl_count x, cl_count y) | _ \<Rightarrow> None)"

lemma delta_lists:
  "dl_new (compute_delta (Some prev) cur)
     = List.map_filter (\<lambda>k. map_option (Pair k) (news_of prev cur k)) (keys_sorted (by_cluster_key (mi_uncovered cur)))"
  "dl_resolved (compute_delta (Some prev) cur)
     = List.map_filter (\<lambda>k. map_option (Pair k) (gone_of prev cur k)) (keys_sorted (by_cluster_key (mi_uncovered prev)))"
  "dl_changed (compute_delta (Some prev) cur)
     = List.map_filter (\<lambda>k. map_option (Pair k) (moved_of prev cur k)) (keys_sorted (by_cluster_key (mi_uncovered prev)))"
  by (auto simp: compute_delta_def Let_def news_of_def gone_of_def moved_of_def intro!: arg_cong2 [where f = List.map_filter] ext
      split: option.split)

lemma delta_lookups:
  "map_of (dl_new (compute_delta (Some prev) cur)) k = news_of prev cur k"
  "map_of (dl_resolved (compute_delta (Some prev) cur)) k = gone_of prev cur k"
  "map_of (dl_changed (compute_delta (Some prev) cur)) k = moved_of prev cur k"
  unfolding delta_lists map_of_keyed in_keys_sorted
  by (auto simp: news_of_def gone_of_def moved_of_def split: option.splits)

text \<open>
  C15. The delta tells the whole change of the backlog. Whoever knows the counts of the uncovered clusters
  of the run before and reads the delta has exactly the counts of this run: what is new, gone or
  changed is listed, once and with the right number, and what is not listed is unchanged.
\<close>

theorem delta_replays:
  "replay_delta (compute_delta (Some prev) cur) (cluster_counts prev) = cluster_counts cur"
proof
  fix k
  show "replay_delta (compute_delta (Some prev) cur) (cluster_counts prev) k = cluster_counts cur k"
    unfolding replay_delta_def delta_lookups
    by (simp add: news_of_def gone_of_def moved_of_def cluster_counts_def split: option.split)
qed

section \<open>What a quiet lane says\<close>

text \<open>Between the two runs no cluster is new or has grown, and no rule is below the gate that was not below it before.\<close>

definition quiet_backlog :: "mining_doc \<Rightarrow> mining_doc \<Rightarrow> bool" where
  "quiet_backlog prev cur \<longleftrightarrow>
     (\<forall>k n. cluster_counts cur k = Some n \<longrightarrow> (\<exists>m. cluster_counts prev k = Some m \<and> n \<le> m))
     \<and> (\<forall>rid p. known_precision (mi_precision cur) rid = Some p \<and> p < PRECISION_GATE
          \<longrightarrow> (\<exists>q. known_precision (mi_precision prev) rid = Some q \<and> q < PRECISION_GATE))"

definition reach_of :: "reachability option \<Rightarrow> string \<Rightarrow> string \<Rightarrow> reach_row option" where
  "reach_of r pack lang = map_of (rows_before r pack) lang"

lemma new_empty_iff: "dl_new (compute_delta (Some prev) cur) = [] \<longleftrightarrow> (\<forall>k. news_of prev cur k = None)"
  using delta_lookups(1) [of prev cur] by (metis map_of.simps(1) map_of_eq_empty_iff ext)

lemma grown_empty_iff:
  "filter (\<lambda>(k, a, b). a < b) (dl_changed (compute_delta (Some prev) cur)) = []
     \<longleftrightarrow> (\<forall>k a b. moved_of prev cur k = Some (a, b) \<longrightarrow> \<not> a < b)"
  unfolding delta_lists filter_empty_conv
  by (auto simp: map_filter_def in_keys_sorted moved_of_def split: option.splits if_splits)

lemma in_concat_option:
  "x \<in> set (concat (map (\<lambda>k. case f k of None \<Rightarrow> [] | Some p \<Rightarrow> g k p) ks))
     \<longleftrightarrow> (\<exists>k \<in> set ks. \<exists>p. f k = Some p \<and> x \<in> set (g k p))"
  by (induction ks) (auto split: option.splits)

lemma below_empty_iff:
  "filter (\<lambda>x. gc_move x \<noteq> Rose_above) (gate_crossings prev cur) = []
     \<longleftrightarrow> (\<forall>rid p. known_precision cur rid = Some p \<and> p < PRECISION_GATE
          \<longrightarrow> (\<exists>q. known_precision prev rid = Some q \<and> q < PRECISION_GATE))"
proof -
  have one: "(\<exists>x \<in> set (gate_crossing_of pp rid cp). gc_move x \<noteq> Rose_above)
      \<longleftrightarrow> cp < PRECISION_GATE \<and> (\<forall>q. pp = Some q \<longrightarrow> PRECISION_GATE \<le> q)" for pp rid cp
    by (auto simp: gate_crossing_of_def split: option.split)
  have members: "x \<in> set (gate_crossings prev cur) \<longleftrightarrow> (\<exists>rid \<in> fst ` set cur. \<exists>p. known_precision cur rid = Some p
      \<and> x \<in> set (gate_crossing_of (known_precision prev rid) rid p))" for x
    unfolding gate_crossings_def in_concat_option by simp
  have known: "known_precision cur rid = Some p \<Longrightarrow> rid \<in> fst ` set cur" for rid p
    by (auto simp: known_precision_def dest: map_of_SomeD split: option.splits) (force dest: map_of_SomeD)
  have some: "(\<exists>x \<in> set (gate_crossings prev cur). P x) \<longleftrightarrow> (\<exists>rid \<in> fst ` set cur. \<exists>p. known_precision cur rid = Some p
      \<and> (\<exists>x \<in> set (gate_crossing_of (known_precision prev rid) rid p). P x))" for P
    unfolding Bex_def members by blast
  have none: "filter P xs = [] \<longleftrightarrow> \<not> (\<exists>x \<in> set xs. P x)" for P and xs :: "gate_crossing list"
    by (simp add: filter_empty_conv)
  have "filter (\<lambda>x. gc_move x \<noteq> Rose_above) (gate_crossings prev cur) = []
      \<longleftrightarrow> \<not> (\<exists>rid \<in> fst ` set cur. \<exists>p. known_precision cur rid = Some p
          \<and> (\<exists>x \<in> set (gate_crossing_of (known_precision prev rid) rid p). gc_move x \<noteq> Rose_above))"
    unfolding none some by (rule refl)
  also have "\<dots> \<longleftrightarrow> \<not> (\<exists>rid \<in> fst ` set cur. \<exists>p. known_precision cur rid = Some p \<and> p < PRECISION_GATE
      \<and> \<not> (\<exists>q. known_precision prev rid = Some q \<and> q < PRECISION_GATE))"
    unfolding one not_less [symmetric] by simp
  also have "\<dots> \<longleftrightarrow> \<not> (\<exists>rid p. known_precision cur rid = Some p \<and> p < PRECISION_GATE
      \<and> \<not> (\<exists>q. known_precision prev rid = Some q \<and> q < PRECISION_GATE))"
    using known by blast
  finally show ?thesis by blast
qed

lemma delta_quiet_iff: "\<not> dl_needed (compute_delta (Some prev) cur) \<longleftrightarrow> quiet_backlog prev cur"
proof -
  have "\<not> dl_needed (compute_delta (Some prev) cur) \<longleftrightarrow> dl_new (compute_delta (Some prev) cur) = []
      \<and> filter (\<lambda>(k, a, b). a < b) (dl_changed (compute_delta (Some prev) cur)) = []
      \<and> filter (\<lambda>x. gc_move x \<noteq> Rose_above) (gate_crossings (mi_precision prev) (mi_precision cur)) = []"
    by (simp add: compute_delta_def Let_def)
  moreover have "(\<forall>k. news_of prev cur k = None) \<and> (\<forall>k a b. moved_of prev cur k = Some (a, b) \<longrightarrow> \<not> a < b)
      \<longleftrightarrow> (\<forall>k n. cluster_counts cur k = Some n \<longrightarrow> (\<exists>m. cluster_counts prev k = Some m \<and> n \<le> m))"
  proof -
    have "news_of prev cur k = None \<and> (\<forall>a b. moved_of prev cur k = Some (a, b) \<longrightarrow> \<not> a < b)
        \<longleftrightarrow> (\<forall>n. cluster_counts cur k = Some n \<longrightarrow> (\<exists>m. cluster_counts prev k = Some m \<and> n \<le> m))" for k
      by (auto simp: news_of_def moved_of_def cluster_counts_def split: option.split)
    then show ?thesis by blast
  qed
  ultimately show ?thesis unfolding new_empty_iff grown_empty_iff below_empty_iff quiet_backlog_def by blast
qed

text \<open>Nothing asks for attention: no stage failed, the backlog is quiet and no draft waits (unless there was no run
  before), no watched language became reachable, and no enabled rule is below the gate.\<close>

definition quiet_lane :: "lane_run \<Rightarrow> mining_doc option \<Rightarrow> reachability option \<Rightarrow> mining_doc \<Rightarrow> tp_row list \<Rightarrow> bool" where
  "quiet_lane L prev prev_reach cur corpus \<longleftrightarrow>
     (let stages = sweep_stages (lr_skip L) (lr_collect L) (lr_draft L) @ [regression_stage (lr_script L)] in
       list_all (\<lambda>s. ls_status s \<noteq> Stage_failed) stages
       \<and> (case prev of None \<Rightarrow> True | Some p \<Rightarrow> quiet_backlog p cur \<and> list_all (\<lambda>s. staged_by s = 0) stages))
     \<and> (\<forall>ps pack ls lang row. compute_reachability corpus (lr_packs L) = Some ps \<and> (pack, Some ls) \<in> set ps \<and> (lang, row) \<in> set ls
          \<and> rc_reachable row \<longrightarrow> (\<forall>before. reach_of prev_reach pack lang = Some before \<longrightarrow> rc_reachable before))
     \<and> (\<forall>rules rid p. lr_allow L = Some rules \<and> rid \<in> set rules \<and> known_precision (mi_precision cur) rid = Some p
          \<longrightarrow> PRECISION_GATE \<le> p)"

lemma opened_empty_iff:
  "filter rx_opened (reachability_crossings prev cur) = [] \<longleftrightarrow>
     (\<forall>ps pack ls lang row. cur = Some ps \<and> (pack, Some ls) \<in> set ps \<and> (lang, row) \<in> set ls
        \<and> rc_reachable row \<longrightarrow> (\<forall>before. reach_of prev pack lang = Some before \<longrightarrow> rc_reachable before))"
proof -
  have one: "(\<exists>x. crossing_of was pack (lang, row) = Some x \<and> rx_opened x)
      \<longleftrightarrow> rc_reachable row \<and> (\<exists>before. map_of was lang = Some before \<and> \<not> rc_reachable before)" for was pack lang row
    by (auto simp: crossing_of_def split: option.split)
  have "(\<exists>x \<in> set (reachability_crossings prev (Some ps)). rx_opened x)
      \<longleftrightarrow> (\<exists>k \<in> set ps. \<exists>ls. snd k = Some ls \<and> (\<exists>e \<in> set ls. \<exists>x. crossing_of (rows_before prev (fst k)) (fst k) e = Some x \<and> rx_opened x))" for ps
    unfolding reachability_crossings_def option.case in_concat_option Bex_def in_map_filter by (simp, blast)
  then have "(\<exists>x \<in> set (reachability_crossings prev (Some ps)). rx_opened x)
      \<longleftrightarrow> (\<exists>pack ls lang row. (pack, Some ls) \<in> set ps \<and> (lang, row) \<in> set ls
        \<and> rc_reachable row \<and> (\<exists>before. reach_of prev pack lang = Some before \<and> \<not> rc_reachable before))" for ps
    unfolding reach_of_def Bex_def split_paired_Ex one fst_conv snd_conv by blast
  moreover have "reachability_crossings prev None = []" by (simp add: reachability_crossings_def)
  ultimately show ?thesis unfolding filter_empty_conv by (cases cur) (simp, blast)
qed

lemma below_allow_empty_iff:
  "(case allowlist_precision cur allow of None \<Rightarrow> [] | Some a \<Rightarrow> map aw_rule (ar_below a)) = [] \<longleftrightarrow>
     (\<forall>rules rid p. allow = Some rules \<and> rid \<in> set rules \<and> known_precision (mi_precision cur) rid = Some p \<longrightarrow> PRECISION_GATE \<le> p)"
  by (auto simp: allowlist_precision_def Let_def map_filter_def filter_empty_conv not_less split: option.splits) (meson leD)

lemma after_mining_exit:
  "(lx_exit (rule_lane L prev prev_reach cur corpus) = 0 \<longleftrightarrow> quiet_lane L prev prev_reach cur corpus)
   \<and> (lx_exit (rule_lane L prev prev_reach cur corpus) = 2
        \<longleftrightarrow> list_ex (\<lambda>s. ls_status s = Stage_failed) (lx_stages (rule_lane L prev prev_reach cur corpus)))
   \<and> lx_exit (rule_lane L prev prev_reach cur corpus) \<le> 2"
proof -
  define stages where "stages = sweep_stages (lr_skip L) (lr_collect L) (lr_draft L) @ [regression_stage (lr_script L)]"
  have pos: "0 < sum_list (map staged_by xs) \<longleftrightarrow> (\<exists>s \<in> set xs. 0 < staged_by s)" for xs
    by (induction xs) auto
  have base: "dl_baseline (compute_delta pr cur) = (pr = None)" for pr
    by (auto simp: compute_delta_def Let_def split: option.split)
  have delta: "\<not> dl_needed (compute_delta prev cur) \<longleftrightarrow> (case prev of None \<Rightarrow> True | Some p \<Rightarrow> quiet_backlog p cur)"
    using delta_quiet_iff by (auto simp: compute_delta_def split: option.split)
  have needed: "\<not> dl_needed (lx_delta (rule_lane L prev prev_reach cur corpus)) \<longleftrightarrow>
      (case prev of None \<Rightarrow> True | Some p \<Rightarrow> quiet_backlog p cur \<and> list_all (\<lambda>s. staged_by s = 0) stages)
      \<and> filter rx_opened (reachability_crossings prev_reach (compute_reachability corpus (lr_packs L))) = []
      \<and> (case allowlist_precision cur (lr_allow L) of None \<Rightarrow> [] | Some a \<Rightarrow> map aw_rule (ar_below a)) = []"
    using delta by (cases prev) (auto simp: pos rule_lane_def Let_def base list_all_iff simp flip: stages_def)
  have exit: "lx_exit (rule_lane L prev prev_reach cur corpus)
      = (if list_ex (\<lambda>s. ls_status s = Stage_failed) stages then 2 else if dl_needed (lx_delta (rule_lane L prev prev_reach cur corpus)) then 1 else 0)"
    by (simp add: rule_lane_def Let_def flip: stages_def)
  have quiet: "quiet_lane L prev prev_reach cur corpus \<longleftrightarrow> \<not> list_ex (\<lambda>s. ls_status s = Stage_failed) stages
      \<and> \<not> dl_needed (lx_delta (rule_lane L prev prev_reach cur corpus))"
    unfolding quiet_lane_def needed opened_empty_iff below_allow_empty_iff Let_def
    by (auto simp: list_all_iff list_ex_iff split: option.split simp flip: stages_def)
  have "lx_stages (rule_lane L prev prev_reach cur corpus) = stages" by (simp add: rule_lane_def Let_def stages_def)
  then show ?thesis unfolding exit quiet by simp
qed

text \<open>What keeps the lane from starting, and what it means that one of its stages after mining failed.\<close>

definition place_missing :: "lane_setup \<Rightarrow> bool" where
  "place_missing S \<longleftrightarrow> lp_given S = None \<and> (\<exists>e. lp_workspace S = Inl e) \<or> (\<exists>e. lp_results S = Inl e) \<or> (\<exists>e. lp_progress S = Inl e)
     \<or> lp_tree S = False"

definition some_stage_failed :: "lane_run \<Rightarrow> bool" where
  "some_stage_failed L \<longleftrightarrow> \<not> lr_skip L \<and> ((\<exists>e. lr_collect L = Inl e) \<or> (\<exists>e. lr_draft L = Inl e))
     \<or> (\<exists>rc line. lr_script L = Script_ran rc line \<and> rc \<noteq> 0)"

lemma lane_places_None: "lane_places S = None \<longleftrightarrow> \<not> place_missing S"
  by (auto simp: lane_places_def place_missing_def split: option.splits sum.splits)

lemma stages_failed:
  "list_ex (\<lambda>s. ls_status s = Stage_failed) (lx_stages (rule_lane L prev prev_reach cur corpus)) \<longleftrightarrow> some_stage_failed L"
  by (auto simp: rule_lane_def Let_def sweep_stages_def regression_stage_def some_stage_failed_def skipped_stage_def record_stage_def
      split: sum.split draft_script.split)

text \<open>
  C14. The exit status of the lane is honest. It is 2 exactly when the lane could not do its work: no workspace is given
  or configured, the results or the progress tracker are not configured, the findings tree is no directory, the mining
  stage failed, its fresh result cannot be read, or a stage after it failed (collecting or drafting, unless skipped, or
  the script that stages drafts). It is 0 exactly when it did and nothing asks for attention: no cluster without a rule
  is new or has grown, no rule went below the precision gate, no draft was staged, no watched language
  became reachable, and no enabled rule is below the gate. In every other case it is 1.
\<close>

theorem lane_exit_honest:
  "(fst (execute_rule_lane S L prev prev_reach mined unreadable) = 2 \<longleftrightarrow>
      place_missing S \<or> (\<exists>tail. mined = Inl tail) \<or> (\<exists>e. unreadable = Some e) \<or> some_stage_failed L)
   \<and> (fst (execute_rule_lane S L prev prev_reach mined unreadable) = 0 \<longleftrightarrow>
        \<not> place_missing S \<and> unreadable = None
        \<and> (\<exists>tail g corpus. mined = Inr (tail, g, corpus) \<and> quiet_lane L prev prev_reach (mining_doc_of g) corpus))
   \<and> fst (execute_rule_lane S L prev prev_reach mined unreadable) \<le> 2"
proof (cases "place_missing S")
  case False
  then have "lane_places S = None" by (simp add: lane_places_None)
  then show ?thesis
    using after_mining_exit [of L prev prev_reach] False
    by (cases mined; cases unreadable) (auto simp: execute_rule_lane_def Let_def stages_failed)
next
  case True
  then obtain e where "lane_places S = Some e" using lane_places_None by (cases "lane_places S") auto
  then show ?thesis using True by (simp add: execute_rule_lane_def)
qed

end
