(* ===== verification/Threat_Table.thy ===== *)
theory Threat_Table
  imports Py_Text
begin

text \<open>
  The Markdown of a threat model: sections and tables as \<open>reporting/lint.py\<close> reads them, and tables as
  \<open>reporting/render.py\<close> writes them. What is written is read back: every row with its escaped cells.
\<close>

section \<open>Reading\<close>

text \<open>\<open>^## (.+?)\s*$\<close> on one line: the shortest text after the mark that only white space follows.\<close>

definition heading_of :: "string \<Rightarrow> string option" where
  "heading_of line =
     (let rest = drop 3 line; h = rstrip_with is_space rest in
      if startswith line ''## '' \<and> rest \<noteq> [] then Some (if h = [] then take 1 rest else h) else None)"

text \<open>A section has the lines up to the next heading; lines before the first heading belong to none.\<close>

fun sections_of :: "string list \<Rightarrow> (string \<times> string list) list" where
  "sections_of [] = []"
| "sections_of (l # ls) = (case heading_of l of
      None \<Rightarrow> sections_of ls
    | Some h \<Rightarrow> (h, takeWhile (\<lambda>k. heading_of k = None) ls) # sections_of ls)"

definition parse_sections :: "string \<Rightarrow> (string \<times> string list) list" where
  "parse_sections text = sections_of (split_lines text)"

text \<open>Splitting at pipes that no backslash stands before; the flag says whether one does.\<close>

fun split_pipes :: "bool \<Rightarrow> string \<Rightarrow> string list" where
  "split_pipes esc [] = [[]]"
| "split_pipes esc (c # s) =
     (if c = CHR ''|'' \<and> \<not> esc then [] # split_pipes False s
      else (case split_pipes (c = CHR 0x5C) s of [] \<Rightarrow> [[c]] | w # ws \<Rightarrow> (c # w) # ws))"

definition split_row :: "string \<Rightarrow> string list" where
  "split_row s =
     (let cells = split_pipes False s;
          cells = (if cells \<noteq> [] \<and> strip (hd cells) = [] then tl cells else cells);
          cells = (if cells \<noteq> [] \<and> strip (last cells) = [] then butlast cells else cells)
      in map strip cells)"

definition separator_row :: "string \<Rightarrow> bool" where
  "separator_row s \<longleftrightarrow> list_all (\<lambda>c. c \<in> set ''|- :'') s"

text \<open>The first table of a section; an empty line ends it, other text is passed over.\<close>

fun table_from :: "string list option \<Rightarrow> string list \<Rightarrow> string list option \<times> string list list" where
  "table_from cols [] = (cols, [])"
| "table_from cols (l # ls) =
     (let s = strip l in
      if \<not> startswith s ''|'' then (if cols \<noteq> None \<and> s = [] then (cols, []) else table_from cols ls)
      else (case cols of
          None \<Rightarrow> table_from (Some (split_row s)) ls
        | Some _ \<Rightarrow> if separator_row s then table_from cols ls
            else (case table_from cols ls of (c, rows) \<Rightarrow> (c, split_row s # rows))))"

definition parse_table :: "string list \<Rightarrow> string list option \<times> string list list" where
  "parse_table ls = table_from None ls"

text \<open>\<open>re.split\<close> at one of some characters and the white space after it.\<close>

function re_split :: "string \<Rightarrow> string \<Rightarrow> string list" where
  "re_split seps [] = [[]]"
| "re_split seps (c # s) =
     (if c \<in> set seps then [] # re_split seps (dropWhile is_space s)
      else (case re_split seps s of [] \<Rightarrow> [[c]] | w # ws \<Rightarrow> (c # w) # ws))"
  by pat_completeness auto
termination
  by (relation "measure (\<lambda>(_, s). length s)") (auto simp: le_imp_less_Suc length_dropWhile_le)

definition listed_parts :: "string \<Rightarrow> string list" where
  "listed_parts s = filter (\<lambda>p. p \<noteq> []) (map strip (re_split '',;'' s))"

section \<open>Writing\<close>

datatype tm_value = Absent | Text string | Items "string list"

type_synonym tm_row = "(string \<times> tm_value) list"

definition tm_field :: "string \<Rightarrow> tm_row \<Rightarrow> tm_value" where
  "tm_field k r = (case map_of r k of None \<Rightarrow> Absent | Some v \<Rightarrow> v)"

definition value_text :: "tm_value \<Rightarrow> string" where
  "value_text v = (case v of Absent \<Rightarrow> [] | Text s \<Rightarrow> s | Items xs \<Rightarrow> join '', '' xs)"

definition cell_text :: "string \<Rightarrow> string" where
  "cell_text s = strip (replace_all [CHR 0x0A] '' '' (replace_all ''|'' [CHR 0x5C, CHR ''|''] s))"

definition tm_cell :: "tm_value \<Rightarrow> string" where
  "tm_cell v = (if v = Absent then [] else cell_text (value_text v))"

definition tm_line :: "string list \<Rightarrow> string" where
  "tm_line cells = ''| '' @ join '' | '' cells @ '' |''"

definition tm_table :: "string list \<Rightarrow> tm_row list \<Rightarrow> string list" where
  "tm_table columns rows =
     [tm_line columns, ''|'' @ join ''|'' (map (\<lambda>_. ''---'') columns) @ ''|'']
     @ map (\<lambda>r. tm_line (map (\<lambda>c. tm_cell (tm_field c r)) columns)) rows"

section \<open>What is written is read back\<close>

text \<open>No white space at the ends.\<close>

definition trim :: "string \<Rightarrow> bool" where
  "trim s \<longleftrightarrow> s = [] \<or> \<not> is_space (hd s) \<and> \<not> is_space (last s)"

lemma rstrip_prefix: "\<exists>z. y = rstrip_with p y @ z \<and> list_all p z"
proof -
  have "rev y = takeWhile p (rev y) @ dropWhile p (rev y)"
    by simp
  then have "y = rstrip_with p y @ rev (takeWhile p (rev y))"
    unfolding rstrip_with_def by (metis rev_append rev_rev_ident)
  moreover have "list_all p (rev (takeWhile p (rev y)))"
    by (auto simp: list_all_iff dest: set_takeWhileD)
  ultimately show ?thesis
    by blast
qed

lemma rstrip_last: "rstrip_with p y \<noteq> [] \<Longrightarrow> \<not> p (last (rstrip_with p y))"
  unfolding rstrip_with_def by (metis hd_dropWhile last_rev rev_is_Nil_conv)

lemma trim_strip: "trim (strip x)"
proof (cases "strip x = []")
  case False
  let ?y = "dropWhile is_space x"
  obtain z where z: "?y = strip x @ z"
    using rstrip_prefix [of ?y is_space] by (auto simp: strip_def)
  then have "hd ?y = hd (strip x)" "?y \<noteq> []"
    using False by (metis hd_append2, metis append_is_Nil_conv)
  then show ?thesis
    using hd_dropWhile [of is_space x] rstrip_last [of is_space ?y] False by (auto simp: trim_def strip_def)
qed (simp add: trim_def)

lemma strip_infix: "\<exists>a b. x = a @ strip x @ b \<and> list_all is_space a \<and> list_all is_space b"
proof -
  obtain z where "dropWhile is_space x = strip x @ z" "list_all is_space z"
    using rstrip_prefix [of "dropWhile is_space x" is_space] by (auto simp: strip_def)
  moreover have "list_all is_space (takeWhile is_space x)"
    by (auto simp: list_all_iff dest: set_takeWhileD)
  ultimately show ?thesis
    by (metis takeWhile_dropWhile_id)
qed

lemma strip_pad: "trim c \<Longrightarrow> strip ('' '' @ c @ '' '') = c"
proof -
  assume c: "trim c"
  have space: "is_space CHR '' ''"
    by code_simp
  show ?thesis
  proof (cases "c = []")
    case True
    have "strip ('' '' @ [] @ '' '') = []" by code_simp
    with True show ?thesis by simp
  next
    case False
    then obtain x xs where x: "c = x # xs" by (cases c) auto
    have "dropWhile is_space ('' '' @ c @ '' '') = c @ '' ''"
      using c x space by (simp add: trim_def)
    moreover have "dropWhile is_space (rev (c @ '' '')) = rev c"
      using c False space by (simp add: trim_def dropWhile_eq_self_iff hd_rev)
    ultimately show ?thesis
      by (simp add: strip_def rstrip_with_def)
  qed
qed

lemma split_pipes_neq_Nil [simp]: "split_pipes esc s \<noteq> []"
  by (cases s) (auto split: list.split)

lemma split_pipes_word:
  "guarded CHR 0x5C CHR ''|'' esc w \<Longrightarrow> (if w = [] then \<not> esc else last w \<noteq> CHR 0x5C) \<Longrightarrow>
     split_pipes esc (w @ CHR ''|'' # s) = w # split_pipes False s"
proof (induction w arbitrary: esc)
  case (Cons c w)
  then have "split_pipes (c = CHR 0x5C) (w @ CHR ''|'' # s) = w # split_pipes False s"
    by (cases w) auto
  with Cons.prems show ?case
    by auto
qed simp

text \<open>A cell as it is written: escaped, without white space at its ends and without a line break.\<close>

definition cell_ok :: "string \<Rightarrow> bool" where
  "cell_ok c \<longleftrightarrow> trim c \<and> guarded CHR 0x5C CHR ''|'' False c \<and> list_all (\<lambda>x. \<not> is_break x) c"

lemma padded_ok: "cell_ok c \<Longrightarrow> guarded CHR 0x5C CHR ''|'' False ('' '' @ c @ '' '')"
  unfolding guarded_append by (auto simp: cell_ok_def)

lemma split_cells:
  "cells \<noteq> [] \<Longrightarrow> list_all cell_ok cells \<Longrightarrow>
     split_pipes False ('' '' @ join '' | '' cells @ '' |'') = map (\<lambda>c. '' '' @ c @ '' '') cells @ [[]]"
proof (induction cells)
  case (Cons c cells)
  have pad: "guarded CHR 0x5C CHR ''|'' False ('' '' @ c @ '' '')"
    using Cons.prems by (intro padded_ok) simp
  show ?case
  proof (cases cells)
    case Nil
    with split_pipes_word [OF pad, of "[]"] show ?thesis
      by simp
  next
    case (Cons d ds)
    have "'' '' @ join '' | '' (c # d # ds) @ '' |'' = ('' '' @ c @ '' '') @ CHR ''|'' # ('' '' @ join '' | '' (d # ds) @ '' |'')"
      by simp
    with Cons.IH Cons.prems split_pipes_word [OF pad] show ?thesis
      unfolding Cons by simp
  qed
qed simp

lemma strip_piped: "strip (CHR ''|'' # s @ ''|'') = CHR ''|'' # s @ ''|''"
  by (rule strip_id) (simp add: is_space_def code_in_def)

lemma tm_line_form: "cells \<noteq> [] \<Longrightarrow> tm_line cells = CHR ''|'' # ('' '' @ join '' | '' cells @ '' '') @ ''|''"
  by (simp add: tm_line_def)

lemma tm_line_strip: "cells \<noteq> [] \<Longrightarrow> strip (tm_line cells) = tm_line cells"
  unfolding tm_line_form by (rule strip_piped)

lemma split_row_line:
  assumes "cells \<noteq> []" "list_all cell_ok cells"
  shows "split_row (tm_line cells) = cells"
proof -
  have "split_pipes False (tm_line cells) = [] # map (\<lambda>c. '' '' @ c @ '' '') cells @ [[]]"
    using split_cells [OF assms] by (simp add: tm_line_def)
  moreover have "map (strip \<circ> (\<lambda>c. '' '' @ c @ '' '')) cells = cells"
    using assms(2) by (intro map_idI) (auto simp: list_all_iff cell_ok_def strip_pad [simplified])
  moreover have "strip [] = []"
    by code_simp
  ultimately show ?thesis
    by (simp add: split_row_def Let_def comp_def)
qed

lemma tm_line_separator: "c \<in> set cells \<Longrightarrow> x \<in> set c \<Longrightarrow> x \<notin> set ''|- :'' \<Longrightarrow> \<not> separator_row (tm_line cells)"
proof -
  assume c: "c \<in> set cells" "x \<in> set c" "x \<notin> set ''|- :''"
  have "set c \<subseteq> set (join '' | '' cells)"
    using c(1) by (induction cells rule: induct_list012) auto
  with c show ?thesis
    by (auto simp: separator_row_def list_all_iff tm_line_def)
qed

text \<open>A row that is seen as one: it has a character that the line below the head has not.\<close>

definition row_ok :: "string list \<Rightarrow> bool" where
  "row_ok cells \<longleftrightarrow> list_all cell_ok cells \<and> (\<exists>c \<in> set cells. \<exists>x \<in> set c. x \<notin> set ''|- :'')"

lemma startswith_line: "startswith (tm_line cells) ''|''"
  by (simp add: tm_line_def startswith_def)

lemma table_rows_read:
  "\<forall>r \<in> set rows. row_ok r \<Longrightarrow> table_from (Some cols) (map tm_line rows @ [] # rest) = (Some cols, rows)"
proof (induction rows)
  case Nil
  have "strip [] = []" by code_simp
  then show ?case by (simp add: startswith_def)
next
  case (Cons r rows)
  then have r: "r \<noteq> []" "list_all cell_ok r" "\<not> separator_row (tm_line r)"
    by (auto simp: row_ok_def tm_line_separator)
  with Cons show ?case
    by (simp add: tm_line_strip split_row_line startswith_line)
qed

definition plain_cell :: "string \<Rightarrow> bool" where
  "plain_cell c \<longleftrightarrow> trim c \<and> list_all (\<lambda>x. \<not> is_break x \<and> x \<noteq> CHR ''|'') c"

lemma plain_cell_ok: "plain_cell c \<Longrightarrow> cell_ok c"
  by (auto simp: plain_cell_def cell_ok_def list_all_iff intro: guarded_other)

lemma dashes_separator: "separator_row (CHR ''|'' # join ''|'' (map (\<lambda>_. ''---'') cols) @ ''|'')"
proof -
  have "set (join ''|'' (map (\<lambda>_. ''---'') cols)) \<subseteq> set ''|-''"
    by (induction cols rule: induct_list012) auto
  then show ?thesis
    by (auto simp: separator_row_def list_all_iff)
qed

lemma parse_written_table:
  assumes "columns \<noteq> []" "list_all plain_cell columns"
    and rows: "\<forall>r \<in> set rows. row_ok (map (\<lambda>c. tm_cell (tm_field c r)) columns)"
  shows "parse_table ([] # tm_table columns rows @ [] # rest) = (Some columns, map (\<lambda>r. map (\<lambda>c. tm_cell (tm_field c r)) columns) rows)"
proof -
  have "strip [] = []" by code_simp
  moreover have "list_all cell_ok columns"
    using assms(2) by (auto simp: list_all_iff plain_cell_ok)
  moreover have "table_from (Some columns) (map tm_line (map (\<lambda>r. map (\<lambda>c. tm_cell (tm_field c r)) columns) rows) @ [] # rest)
      = (Some columns, map (\<lambda>r. map (\<lambda>c. tm_cell (tm_field c r)) columns) rows)"
    using rows by (intro table_rows_read) auto
  moreover have "startswith (CHR ''|'' # s) ''|''" for s
    by (simp add: startswith_def)
  ultimately show ?thesis
    using assms(1) strip_piped [of "join ''|'' (map (\<lambda>_. ''---'') columns)"] dashes_separator [of columns]
    by (simp add: parse_table_def tm_table_def tm_line_strip startswith_line split_row_line comp_def)
      (simp add: startswith_def)
qed

text \<open>Every cell is written so, as long as its text has no line break other than the line feed.\<close>

lemma cell_text_ok:
  assumes "list_all (\<lambda>x. \<not> is_break x \<or> x = CHR 0x0A) s"
  shows "cell_ok (cell_text s)"
proof -
  let ?u = "replace_all ''|'' [CHR 0x5C, CHR ''|''] s"
  let ?v = "replace_all [CHR 0x0A] '' '' ?u"
  have quiet: "\<not> is_break CHR 0x5C" "\<not> is_break CHR '' ''" "\<not> is_break CHR ''|''"
    by code_simp+
  have u: "set ?u \<subseteq> set s \<union> {CHR 0x5C}"
    by (auto simp: replace_char split: if_splits)
  have "set ?v \<subseteq> (set ?u - {CHR 0x0A}) \<union> {CHR '' ''}"
    by (auto simp: replace_char [of "CHR 0x0A"] split: if_splits)
  then have "\<not> is_break x" if "x \<in> set ?v" for x
    using that u assms quiet by (fastforce simp: list_all_iff)
  then have nb: "list_all (\<lambda>x. \<not> is_break x) ?v"
    by (simp add: list_all_iff)
  have g: "guarded CHR 0x5C CHR ''|'' ok (replace_all [CHR 0x0A] '' '' t)" if "guarded CHR 0x5C CHR ''|'' ok t" for ok t
    using that unfolding replace_char by (induction t arbitrary: ok) (auto simp: guarded_mono)
  obtain a b where ab: "?v = a @ strip ?v @ b" "list_all is_space a"
    using strip_infix [of ?v] by blast
  have "a \<noteq> [] \<Longrightarrow> last a \<noteq> CHR 0x5C"
    using ab(2) by (cases a rule: rev_cases) (auto simp: is_space_def code_in_def)
  moreover have "guarded CHR 0x5C CHR ''|'' False (a @ strip ?v @ b)"
    unfolding ab(1) [symmetric] by (rule g, rule guarded_replace) simp
  ultimately have "guarded CHR 0x5C CHR ''|'' False (strip ?v)"
    by (cases "a = []") (auto simp: guarded_append)
  moreover have "list_all (\<lambda>x. \<not> is_break x) (strip ?v)"
    using nb ab(1) by (metis list_all_append)
  ultimately show ?thesis
    by (simp add: cell_ok_def cell_text_def trim_strip)
qed

lemma cell_text_plain: "plain_cell s \<Longrightarrow> cell_text s = s"
proof -
  assume s: "plain_cell s"
  have "concat (map (\<lambda>x. if x = c then w else [x]) s) = s" if "c \<notin> set s" for c w
    using that by (induction s) auto
  moreover have "is_break CHR 0x0A"
    by code_simp
  then have "CHR ''|'' \<notin> set s" "CHR 0x0A \<notin> set s"
    using s by (auto simp: plain_cell_def list_all_iff)
  ultimately have "cell_text s = strip s"
    by (simp add: cell_text_def replace_char)
  with s show ?thesis
    by (simp add: plain_cell_def trim_def strip_id)
qed

end
