(* ===== verification/Threat_Rating.thy ===== *)
theory Threat_Rating
  imports Versions
begin

text \<open>
  \<open>reporting/threat_rating.py\<close>: how the risk rating of a threat is written into the cells of a table and read
  back, the order of rated and unrated threats, and the rating recomputed from its factors. The
  arithmetic of the method is another package, the record \<open>risk_method\<close>. A score is a number of
  thousandths: the means of four and of eight whole factors are.
\<close>

section \<open>The method and the legacy labels\<close>

record likelihood_part =
  lh_level :: string
  lh_score :: nat
  lh_factors :: "(string \<times> nat) list"

record impact_part =
  im_level :: string
  im_score :: nat
  im_basis :: string
  im_technical :: "(string \<times> nat) list"
  im_business :: "(string \<times> nat) list option"

record risk_rating =
  ra_severity :: string
  ra_likelihood :: likelihood_part
  ra_impact :: impact_part
  ra_rationale :: "(string \<times> string) list"

record risk_method =
  rm_severities :: "string list"
  rm_level :: "nat \<Rightarrow> string"
  rm_severity :: "string \<Rightarrow> string \<Rightarrow> string"
  rm_rank :: "string option \<Rightarrow> int"
  rm_likelihood :: "string list"
  rm_technical :: "string list"
  rm_business :: "string list"
  rm_rate :: "(string \<times> nat) list \<Rightarrow> (string \<times> nat) list \<Rightarrow> (string \<times> nat) list option \<Rightarrow> string \<Rightarrow> string + risk_rating"

definition UNRATED :: string where
  "UNRATED = ''unrated''"

definition LEGACY_IMPACT_LEVEL :: "(string \<times> string) list" where
  "LEGACY_IMPACT_LEVEL = [(''low'', ''low''), (''medium'', ''medium''), (''high'', ''high''), (''critical'', ''high''),
     (''existential'', ''high'')]"

definition LEGACY_LIKELIHOOD_LEVEL :: "(string \<times> string) list" where
  "LEGACY_LIKELIHOOD_LEVEL = [(''very_rare'', ''low''), (''rare'', ''low''), (''possible'', ''medium''), (''likely'', ''high''),
     (''almost_certain'', ''high'')]"

definition LEGACY_IMPACT :: "string list" where
  "LEGACY_IMPACT = [''low'', ''medium'', ''high'', ''critical'', ''existential'']"

definition LEGACY_LIKELIHOOD :: "string list" where
  "LEGACY_LIKELIHOOD = [''very_rare'', ''rare'', ''possible'', ''likely'', ''almost_certain'']"

definition level_rx :: rx where
  "level_rx = Grp 1 (alts [lit ''low'', lit ''medium'', lit ''high''])"

definition score_rx :: rx where
  "score_rx = Grp 2 (seq [digit, opt (seq [lit ''.'', Rep 1 (Some 3) True digit])])"

definition LIKELIHOOD_CELL :: rx where
  "LIKELIHOOD_CELL = seq [At Bos, level_rx, lit '' '', score_rx, At Eos]"

definition IMPACT_CELL :: rx where
  "IMPACT_CELL = seq [At Bos, level_rx, lit '' '', score_rx, lit '' '', Grp 3 (alts [lit ''technical'', lit ''business'']), At Eos]"

definition LEGACY_CELL :: rx where
  "LEGACY_CELL = seq [At Bos, lit ''legacy '', Grp 1 (plus (Cls (\<lambda>c. \<not> is_space c))), At Eos]"

section \<open>Writing the cells\<close>

definition dec_char :: "nat \<Rightarrow> char" where
  "dec_char d = char_of (48 + d)"

text \<open>\<open>f"{score:.3f}"\<close> without the zeros at its end and without a point that nothing follows.\<close>

definition format_score :: "nat \<Rightarrow> string" where
  "format_score s = rstrip_with (\<lambda>c. c = CHR ''.'') (rstrip_with (\<lambda>c. c = CHR ''0'')
     (show_nat (s div 1000) @ ''.'' @ [dec_char (s div 100 mod 10), dec_char (s div 10 mod 10), dec_char (s mod 10)]))"

definition likelihood_cell :: "risk_rating \<Rightarrow> string" where
  "likelihood_cell r = lh_level (ra_likelihood r) @ '' '' @ format_score (lh_score (ra_likelihood r))"

definition impact_cell :: "risk_rating \<Rightarrow> string" where
  "impact_cell r = im_level (ra_impact r) @ '' '' @ format_score (im_score (ra_impact r)) @ '' '' @ im_basis (ra_impact r)"

record threat =
  th_rating :: "risk_rating option"
  th_impact :: "string option"
  th_likelihood :: "string option"

record rating_cells =
  rc_severity :: string
  rc_likelihood :: string
  rc_impact :: string

definition threat_cells :: "threat \<Rightarrow> rating_cells" where
  "threat_cells t = (case th_rating t of
       Some r \<Rightarrow> \<lparr>rc_severity = ra_severity r, rc_likelihood = likelihood_cell r, rc_impact = impact_cell r\<rparr>
     | None \<Rightarrow> \<lparr>rc_severity = UNRATED, rc_likelihood = strip (''legacy '' @ or_str (th_likelihood t) []),
         rc_impact = strip (''legacy '' @ or_str (th_impact t) [])\<rparr>)"

definition legacy_severity :: "risk_method \<Rightarrow> string option \<Rightarrow> string option \<Rightarrow> string option" where
  "legacy_severity M impact likelihood =
     (case (map_of LEGACY_IMPACT_LEVEL (or_str impact []), map_of LEGACY_LIKELIHOOD_LEVEL (or_str likelihood [])) of
        (Some i, Some l) \<Rightarrow> Some (rm_severity M i l)
      | _ \<Rightarrow> None)"

section \<open>Reading them back\<close>

text \<open>\<open>float\<close> of a matched score, in thousandths.\<close>

definition read_score :: "string \<Rightarrow> nat" where
  "read_score s = (case cut CHR ''.'' s of
       (a, None) \<Rightarrow> 1000 * int_of_digits a
     | (a, Some b) \<Rightarrow> 1000 * int_of_digits a + int_of_digits (take 3 (b @ ''000'')))"

definition grp :: "nat \<Rightarrow> rmatch \<Rightarrow> string" where
  "grp k m = or_str (m_group k m) []"

datatype cell_problem =
    Bad_legacy_likelihood string
  | Bad_legacy_impact string
  | Bad_severity string
  | Bad_likelihood string
  | Bad_impact string
  | Wrong_level string string string string
  | Wrong_severity string string string string

definition level_problem :: "risk_method \<Rightarrow> string \<Rightarrow> rmatch \<Rightarrow> cell_problem list" where
  "level_problem M name m =
     (let want = rm_level M (read_score (grp 2 m)) in
      if grp 1 m \<noteq> want then [Wrong_level name (grp 1 m) want (grp 2 m)] else [])"

definition cell_problems :: "risk_method \<Rightarrow> string \<Rightarrow> string \<Rightarrow> string \<Rightarrow> cell_problem list" where
  "cell_problems M severity likelihood impact =
     (if severity = UNRATED then
        (case re_match LEGACY_CELL likelihood of
            None \<Rightarrow> [Bad_legacy_likelihood likelihood]
          | Some m \<Rightarrow> if grp 1 m \<in> set LEGACY_LIKELIHOOD then [] else [Bad_legacy_likelihood likelihood])
        @ (case re_match LEGACY_CELL impact of
            None \<Rightarrow> [Bad_legacy_impact impact]
          | Some m \<Rightarrow> if grp 1 m \<in> set LEGACY_IMPACT then [] else [Bad_legacy_impact impact])
      else if severity \<notin> set (rm_severities M) then [Bad_severity severity]
      else (case (re_match LIKELIHOOD_CELL likelihood, re_match IMPACT_CELL impact) of
          (Some lm, Some im) \<Rightarrow>
            (let found = level_problem M ''likelihood'' lm @ level_problem M ''impact'' im;
                 want = rm_severity M (grp 1 im) (grp 1 lm) in
             if found \<noteq> [] then found
             else if severity \<noteq> want then [Wrong_severity severity want (grp 1 im) (grp 1 lm)] else [])
        | (lm, im) \<Rightarrow> (if lm = None then [Bad_likelihood likelihood] else []) @ (if im = None then [Bad_impact impact] else [])))"

record parsed_row =
  pw_severity :: "string option"
  pw_source :: "string option"
  pw_likelihood :: string
  pw_impact :: string
  pw_likelihood_score :: "nat option"
  pw_impact_score :: "nat option"
  pw_basis :: "string option"

definition crosswalked :: "risk_method \<Rightarrow> string \<Rightarrow> string \<Rightarrow> parsed_row" where
  "crosswalked M impact likelihood =
     (let severity = legacy_severity M (Some impact) (Some likelihood) in
      \<lparr>pw_severity = severity, pw_source = (if truthy severity then Some ''legacy-crosswalk'' else None),
       pw_likelihood = likelihood, pw_impact = impact, pw_likelihood_score = None, pw_impact_score = None, pw_basis = None\<rparr>)"

text \<open>A row of the table; a column it lacks is \<open>None\<close>.\<close>

record table_row =
  tb_severity :: "string option"
  tb_likelihood :: "string option"
  tb_impact :: "string option"

definition cell :: "string option \<Rightarrow> string" where
  "cell c = (case c of None \<Rightarrow> [] | Some s \<Rightarrow> s)"

definition legacy_label :: "string \<Rightarrow> string" where
  "legacy_label c = (case re_match LEGACY_CELL c of None \<Rightarrow> [] | Some m \<Rightarrow> grp 1 m)"

definition parse_row :: "risk_method \<Rightarrow> table_row \<Rightarrow> parsed_row" where
  "parse_row M row = (case tb_severity row of
       None \<Rightarrow> crosswalked M (cell (tb_impact row)) (cell (tb_likelihood row))
     | Some severity \<Rightarrow>
         if severity = UNRATED then crosswalked M (legacy_label (cell (tb_impact row))) (legacy_label (cell (tb_likelihood row)))
         else (case (re_match LIKELIHOOD_CELL (cell (tb_likelihood row)), re_match IMPACT_CELL (cell (tb_impact row))) of
             (Some lm, Some im) \<Rightarrow>
               if severity \<in> set (rm_severities M) then
                 \<lparr>pw_severity = Some severity, pw_source = Some ''owasp'', pw_likelihood = grp 1 lm, pw_impact = grp 1 im,
                  pw_likelihood_score = Some (read_score (grp 2 lm)), pw_impact_score = Some (read_score (grp 2 im)),
                  pw_basis = Some (grp 3 im)\<rparr>
               else \<lparr>pw_severity = None, pw_source = None, pw_likelihood = cell (tb_likelihood row), pw_impact = cell (tb_impact row),
                  pw_likelihood_score = None, pw_impact_score = None, pw_basis = None\<rparr>
           | _ \<Rightarrow> \<lparr>pw_severity = None, pw_source = None, pw_likelihood = cell (tb_likelihood row), pw_impact = cell (tb_impact row),
                  pw_likelihood_score = None, pw_impact_score = None, pw_basis = None\<rparr>))"

definition threat_severity :: "risk_method \<Rightarrow> threat \<Rightarrow> string option \<times> string option" where
  "threat_severity M t = (case th_rating t of
       Some r \<Rightarrow> (Some (ra_severity r), Some ''owasp'')
     | None \<Rightarrow> (let s = legacy_severity M (th_impact t) (th_likelihood t) in
         (s, if truthy s then Some ''legacy-crosswalk'' else None)))"

definition order_key :: "risk_method \<Rightarrow> parsed_row \<Rightarrow> int \<times> nat \<times> int \<times> int" where
  "order_key M p = (- rm_rank M (pw_severity p), (if pw_source p = Some ''owasp'' then 0 else 1),
     - int (case pw_impact_score p of None \<Rightarrow> 0 | Some s \<Rightarrow> s), - int (case pw_likelihood_score p of None \<Rightarrow> 0 | Some s \<Rightarrow> s))"

section \<open>The factors\<close>

definition all_factors :: "risk_method \<Rightarrow> string list" where
  "all_factors M = rm_likelihood M @ rm_technical M @ rm_business M"

definition factor_scores :: "risk_rating \<Rightarrow> (string \<times> nat) list" where
  "factor_scores r = fold (\<lambda>(k, v). AList.update k v)
     (im_technical (ra_impact r) @ (case im_business (ra_impact r) of None \<Rightarrow> [] | Some b \<Rightarrow> b)) (lh_factors (ra_likelihood r))"

definition factor_rows :: "risk_method \<Rightarrow> risk_rating \<Rightarrow> (string \<times> string \<times> string) list" where
  "factor_rows M r = List.map_filter (\<lambda>name. map_option (\<lambda>s. (name, show_nat s,
       (case map_of (ra_rationale r) name of None \<Rightarrow> [] | Some t \<Rightarrow> t))) (map_of (factor_scores r) name)) (all_factors M)"

datatype factor_problem = Missing_factors "string list" | Partial_business "string list" | Method_error string

definition scores_for :: "(string \<times> nat) list \<Rightarrow> string list \<Rightarrow> (string \<times> nat) list" where
  "scores_for scores names = List.map_filter (\<lambda>n. map_option (Pair n) (map_of scores n)) names"

definition rating_from_factors :: "risk_method \<Rightarrow> (string \<times> nat) list \<Rightarrow> string \<Rightarrow> risk_rating option \<times> factor_problem list" where
  "rating_from_factors M scores basis =
     (let absent = (\<lambda>n. map_of scores n = None);
          missing = filter absent (rm_likelihood M @ rm_technical M) @ (if basis = ''business'' then filter absent (rm_business M) else []);
          given = filter (\<lambda>n. \<not> absent n) (rm_business M);
          found = (if missing = [] then [] else [Missing_factors missing])
            @ (if given \<noteq> [] \<and> length given \<noteq> length (rm_business M) then [Partial_business given] else []) in
      if found \<noteq> [] then (None, found)
      else (case rm_rate M (scores_for scores (rm_likelihood M)) (scores_for scores (rm_technical M))
            (if given = [] then None else Some (scores_for scores (rm_business M))) basis of
          Inl e \<Rightarrow> (None, [Method_error e])
        | Inr r \<Rightarrow> (Some r, [])))"

section \<open>Scores as text\<close>

text \<open>A digit, and after it a point with up to three digits or nothing.\<close>

definition score_text :: "char \<Rightarrow> string \<Rightarrow> string" where
  "score_text d ds = d # (if ds = [] then [] else CHR ''.'' # ds)"

lemma dec_char: "d < 10 \<Longrightarrow> is_digit (dec_char d)" "d < 10 \<Longrightarrow> of_char (dec_char d) = 48 + d"
  by (simp_all add: dec_char_def digit_char)

lemma dec_char_zero: "d < 10 \<Longrightarrow> dec_char d = CHR ''0'' \<longleftrightarrow> d = 0"
proof
  assume "d < 10" and "dec_char d = CHR ''0''"
  then have "48 + d = of_char (CHR ''0'')" using dec_char(2) by metis
  then show "d = 0" by simp
next
  assume "d = 0"
  have "char_of (48 :: nat) = CHR ''0''" by code_simp
  then show "dec_char d = CHR ''0''" by (simp add: dec_char_def \<open>d = 0\<close>)
qed

lemma digit_not_mark [simp]: "is_digit d \<Longrightarrow> d \<noteq> CHR ''.''" "is_digit d \<Longrightarrow> d \<noteq> CHR '' ''" "is_digit d \<Longrightarrow> d \<noteq> CHR 0x0A"
  by (auto simp: is_digit_def code_in_def)

lemma score_digits:
  fixes s :: nat
  shows "s = 1000 * (s div 1000) + 100 * (s div 100 mod 10) + 10 * (s div 10 mod 10) + s mod 10"
proof -
  have ten: "n = 10 * (n div 10) + n mod 10" for n :: nat by simp
  have "s = 10 * (s div 10) + s mod 10" by (rule ten)
  moreover have "s div 10 = 10 * (s div 100) + s div 10 mod 10" using ten [of "s div 10"] by (simp flip: div_mult2_eq)
  moreover have "s div 100 = 10 * (s div 1000) + s div 100 mod 10" using ten [of "s div 100"] by (simp flip: div_mult2_eq)
  ultimately show ?thesis by linarith
qed

lemma format_score_text:
  assumes "s < 10000"
  obtains d ds where "format_score s = score_text d ds" "is_digit d" "list_all is_digit ds" "length ds \<le> 3"
    "read_score (score_text d ds) = s"
proof -
  define i a b c where "i = s div 1000" and "a = s div 100 mod 10" and "b = s div 10 mod 10" and "c = s mod 10"
  have lt: "i < 10" "a < 10" "b < 10" "c < 10" using assms by (auto simp: i_def a_def b_def c_def)
  have s: "s = 1000 * i + 100 * a + 10 * b + c" unfolding i_def a_def b_def c_def by (rule score_digits)
  have i: "show_nat i = [dec_char i]" using lt(1) by (subst show_nat.simps) (simp add: dec_char_def)
  define ds where "ds = rstrip_with (\<lambda>x. x = CHR ''0'') [dec_char a, dec_char b, dec_char c]"
  have fs: "format_score s = rstrip_with (\<lambda>x. x = CHR ''.'') (rstrip_with (\<lambda>x. x = CHR ''0'')
      [dec_char i, CHR ''.'', dec_char a, dec_char b, dec_char c])"
    by (simp add: format_score_def i flip: i_def a_def b_def c_def)
  have digs: "is_digit (dec_char i)" "is_digit (dec_char a)" "is_digit (dec_char b)" "is_digit (dec_char c)"
    using lt by (simp_all add: dec_char)
  have "format_score s = score_text (dec_char i) ds"
    using digs lt unfolding fs ds_def rstrip_with_def score_text_def by (simp add: dec_char_zero)
  moreover have "list_all is_digit ds" "length ds \<le> 3"
    using digs lt unfolding ds_def rstrip_with_def by (simp_all add: dec_char_zero)
  moreover have "read_score (score_text (dec_char i) ds) = s"
    using digs lt s unfolding ds_def rstrip_with_def score_text_def read_score_def int_of_digits_def
    by (auto simp: dec_char_zero dec_char)
  ultimately show ?thesis using that digs(1) by blast
qed

lemma short_digits:
  assumes "list_all is_digit ds" "length ds \<le> 3"
  obtains "ds = []" | a where "ds = [a]" "is_digit a" | a b where "ds = [a, b]" "is_digit a" "is_digit b"
    | a b c where "ds = [a, b, c]" "is_digit a" "is_digit b" "is_digit c"
proof -
  have "length ds = 0 \<or> length ds = 1 \<or> length ds = 2 \<or> length ds = 3" using assms(2) by linarith
  then show ?thesis using assms(1) that by (auto simp: length_Suc_conv numeral_2_eq_2 numeral_3_eq_3)
qed

lemmas cell_run = re_match_def first_match_def level_rx_def score_rx_def rx_build digit_def reps.simps dec_max_def Let_def
  numeral_3_eq_3 score_text_def

definition LEVELS :: "string list" where
  "LEVELS = [''low'', ''medium'', ''high'']"

lemma leads_level: "l \<in> set LEVELS \<Longrightarrow> leads (run level_rx) ([], l @ CHR '' '' # z, []) (rev l, CHR '' '' # z, [(1, l)])"
  by (auto simp: LEVELS_def leads_def level_rx_def rx_build)

lemma leads_score:
  assumes "is_digit d" "list_all is_digit ds" "length ds \<le> 3" "z = [] \<or> hd z = CHR '' ''"
  shows "leads (run score_rx) (b, score_text d ds @ z, c) (rev (score_text d ds) @ b, z, (2, score_text d ds) # c)"
proof -
  have blank: "\<not> is_digit (CHR '' '')" by code_simp
  from assms(4) consider "z = []" | y where "z = CHR '' '' # y" by (cases z) auto
  then show ?thesis
    using assms(2,3) by (cases; elim short_digits; hypsubst; simp add: leads_def cell_run assms(1) blank)
qed

lemma leads_Eos: "leads (run (At Eos)) (b, [], c) (b, [], c)" and leads_Bos: "leads (run (At Bos)) ([], s, c) ([], s, c)"
  by (simp_all add: leads_def)

lemma leads_basis:
  "b = ''technical'' \<or> b = ''business'' \<Longrightarrow>
     leads (run (Grp 3 (alts [lit ''technical'', lit ''business'']))) (u, b, c) (rev b @ u, [], (3, b) # c)"
  by (auto simp: leads_def rx_build)

lemma seq_simps: "seq [] = Eps" "seq (r # rs) = Cat r (seq rs)"
  by (simp_all add: seq_def)

lemma likelihood_match:
  assumes "l \<in> set LEVELS" "is_digit d" "list_all is_digit ds" "length ds \<le> 3"
  shows "re_match LIKELIHOOD_CELL (l @ '' '' @ score_text d ds)
    = Some (Match [] (l @ '' '' @ score_text d ds) [] [(2, score_text d ds), (1, l)])"
proof -
  let ?t = "score_text d ds"
  have "leads (run LIKELIHOOD_CELL) ([], l @ '' '' @ ?t, []) (rev ?t @ rev '' '' @ rev l, [], [(2, ?t), (1, l)])"
    unfolding LIKELIHOOD_CELL_def seq_simps
    using leads_level [OF assms(1), of ?t] leads_lit [of "'' ''" "rev l" ?t] leads_score [OF assms(2-4), of "[]"]
    by (intro leads_Cat [OF leads_Bos] leads_Cat [OF _ leads_Cat [OF _ leads_Cat [OF _ leads_Cat [OF leads_Eos leads_Eps]]]]) simp_all
  from first_match_leads [OF this] show ?thesis by (simp add: re_match_def)
qed

lemma impact_match:
  assumes "l \<in> set LEVELS" "is_digit d" "list_all is_digit ds" "length ds \<le> 3" "b = ''technical'' \<or> b = ''business''"
  shows "re_match IMPACT_CELL (l @ '' '' @ score_text d ds @ '' '' @ b)
    = Some (Match [] (l @ '' '' @ score_text d ds @ '' '' @ b) [] [(3, b), (2, score_text d ds), (1, l)])"
proof -
  let ?t = "score_text d ds"
  have "leads (run IMPACT_CELL) ([], l @ '' '' @ ?t @ '' '' @ b, [])
      (rev b @ rev '' '' @ rev ?t @ rev '' '' @ rev l, [], [(3, b), (2, ?t), (1, l)])"
    unfolding IMPACT_CELL_def seq_simps
    using leads_level [OF assms(1), of "?t @ '' '' @ b"] leads_lit [of "'' ''" "rev l" "?t @ '' '' @ b"]
      leads_score [OF assms(2-4), of "'' '' @ b"] leads_lit [of "'' ''" "rev ?t @ rev '' '' @ rev l" b] leads_basis [OF assms(5)]
    by (intro leads_Cat [OF leads_Bos] leads_Cat [OF _ leads_Cat [OF _ leads_Cat [OF _ leads_Cat [OF _ leads_Cat [OF _ leads_Cat [OF leads_Eos leads_Eps]]]]]]) simp_all
  from first_match_leads [OF this] show ?thesis by (simp add: re_match_def)
qed

section \<open>What is read back\<close>

definition row_of :: "rating_cells \<Rightarrow> table_row" where
  "row_of c = \<lparr>tb_severity = Some (rc_severity c), tb_likelihood = Some (rc_likelihood c), tb_impact = Some (rc_impact c)\<rparr>"

text \<open>A rating as the method makes them; an unrated threat with the labels of the legacy scales.\<close>

definition rating_ok :: "risk_method \<Rightarrow> risk_rating \<Rightarrow> bool" where
  "rating_ok M r \<longleftrightarrow> ra_severity r \<in> set (rm_severities M) \<and> ra_severity r \<noteq> UNRATED
     \<and> lh_level (ra_likelihood r) \<in> set LEVELS \<and> im_level (ra_impact r) \<in> set LEVELS
     \<and> im_basis (ra_impact r) \<in> {''technical'', ''business''}
     \<and> lh_score (ra_likelihood r) < 10000 \<and> im_score (ra_impact r) < 10000"

definition threat_ok :: "risk_method \<Rightarrow> threat \<Rightarrow> bool" where
  "threat_ok M t = (case th_rating t of
       Some r \<Rightarrow> rating_ok M r
     | None \<Rightarrow> th_impact t \<in> set (map Some LEGACY_IMPACT) \<and> th_likelihood t \<in> set (map Some LEGACY_LIKELIHOOD))"

text \<open>The levels are those of the scores, and the severity is that of the levels.\<close>

definition consistent :: "risk_method \<Rightarrow> risk_rating \<Rightarrow> bool" where
  "consistent M r \<longleftrightarrow> lh_level (ra_likelihood r) = rm_level M (lh_score (ra_likelihood r))
     \<and> im_level (ra_impact r) = rm_level M (im_score (ra_impact r))
     \<and> ra_severity r = rm_severity M (im_level (ra_impact r)) (lh_level (ra_likelihood r))"

definition reads_back :: "risk_method \<Rightarrow> threat \<Rightarrow> parsed_row \<Rightarrow> bool" where
  "reads_back M t p \<longleftrightarrow> (pw_severity p, pw_source p) = threat_severity M t
     \<and> (case th_rating t of
          Some r \<Rightarrow> pw_likelihood p = lh_level (ra_likelihood r) \<and> pw_impact p = im_level (ra_impact r)
            \<and> pw_likelihood_score p = Some (lh_score (ra_likelihood r)) \<and> pw_impact_score p = Some (im_score (ra_impact r))
            \<and> pw_basis p = Some (im_basis (ra_impact r))
        | None \<Rightarrow> Some (pw_likelihood p) = th_likelihood t \<and> Some (pw_impact p) = th_impact t \<and> pw_likelihood_score p = None
            \<and> pw_impact_score p = None \<and> pw_basis p = None)"

lemma rated_cells:
  assumes "rating_ok M r"
  obtains lm im where "re_match LIKELIHOOD_CELL (likelihood_cell r) = Some lm" "re_match IMPACT_CELL (impact_cell r) = Some im"
    "grp 1 lm = lh_level (ra_likelihood r)" "read_score (grp 2 lm) = lh_score (ra_likelihood r)"
    "grp 1 im = im_level (ra_impact r)" "read_score (grp 2 im) = im_score (ra_impact r)" "grp 3 im = im_basis (ra_impact r)"
proof -
  have ok: "lh_level (ra_likelihood r) \<in> set LEVELS" "im_level (ra_impact r) \<in> set LEVELS"
    "im_basis (ra_impact r) = ''technical'' \<or> im_basis (ra_impact r) = ''business''"
    "lh_score (ra_likelihood r) < 10000" "im_score (ra_impact r) < 10000"
    using assms by (auto simp: rating_ok_def)
  obtain d ds where l: "format_score (lh_score (ra_likelihood r)) = score_text d ds" "is_digit d" "list_all is_digit ds"
      "length ds \<le> 3" "read_score (score_text d ds) = lh_score (ra_likelihood r)"
    using format_score_text [OF ok(4)] by metis
  obtain e es where i: "format_score (im_score (ra_impact r)) = score_text e es" "is_digit e" "list_all is_digit es"
      "length es \<le> 3" "read_score (score_text e es) = im_score (ra_impact r)"
    using format_score_text [OF ok(5)] by metis
  have ne: "score_text x xs \<noteq> []" for x xs by (simp add: score_text_def)
  have nonempty: "lh_level (ra_likelihood r) \<noteq> []" "im_level (ra_impact r) \<noteq> []" "im_basis (ra_impact r) \<noteq> []"
    using ok by (auto simp: LEVELS_def)
  from likelihood_match [OF ok(1) l(2-4)] impact_match [OF ok(2) i(2-4) ok(3)]
  have m: "re_match LIKELIHOOD_CELL (likelihood_cell r)
      = Some (Match [] (likelihood_cell r) [] [(2, score_text d ds), (1, lh_level (ra_likelihood r))])"
    "re_match IMPACT_CELL (impact_cell r) = Some (Match [] (impact_cell r) []
      [(3, im_basis (ra_impact r)), (2, score_text e es), (1, im_level (ra_impact r))])"
    unfolding likelihood_cell_def impact_cell_def l(1) i(1) by simp_all
  show ?thesis
    by (rule that [OF m]) (simp_all add: grp_def m_group_def or_str_def ne nonempty l(5) i(5))
qed

lemma legacy_read:
  "a \<in> set LEGACY_IMPACT \<union> set LEGACY_LIKELIHOOD \<Longrightarrow>
     legacy_label (strip (''legacy '' @ a)) = a \<and> (\<exists>m. re_match LEGACY_CELL (strip (''legacy '' @ a)) = Some m \<and> grp 1 m = a) \<and> a \<noteq> []"
proof -
  have "list_all (\<lambda>a. legacy_label (strip (''legacy '' @ a)) = a \<and> a \<noteq> []) (LEGACY_IMPACT @ LEGACY_LIKELIHOOD)" by code_simp
  moreover assume "a \<in> set LEGACY_IMPACT \<union> set LEGACY_LIKELIHOOD"
  ultimately have "legacy_label (strip (''legacy '' @ a)) = a" "a \<noteq> []" by (auto simp: list_all_iff)
  then show ?thesis by (auto simp: legacy_label_def split: option.splits)
qed

lemma legacy_cells:
  assumes "threat_ok M t" "th_rating t = None"
  obtains i l li lm where "th_impact t = Some i" "th_likelihood t = Some l" "i \<in> set LEGACY_IMPACT" "l \<in> set LEGACY_LIKELIHOOD"
    "legacy_label (strip (''legacy '' @ i)) = i" "re_match LEGACY_CELL (strip (''legacy '' @ i)) = Some li" "grp 1 li = i" "i \<noteq> []"
    "legacy_label (strip (''legacy '' @ l)) = l" "re_match LEGACY_CELL (strip (''legacy '' @ l)) = Some lm" "grp 1 lm = l" "l \<noteq> []"
proof -
  from assms obtain i l where labels: "th_impact t = Some i" "th_likelihood t = Some l" "i \<in> set LEGACY_IMPACT" "l \<in> set LEGACY_LIKELIHOOD"
    by (auto simp: threat_ok_def)
  then show ?thesis
    using legacy_read [of i] legacy_read [of l] that by auto
qed

lemma row_reads_back:
  assumes "threat_ok M t"
  shows "reads_back M t (parse_row M (row_of (threat_cells t)))"
proof (cases "th_rating t")
  case (Some r)
  then have ok: "rating_ok M r" using assms by (simp add: threat_ok_def)
  then have sev: "ra_severity r \<in> set (rm_severities M)" "ra_severity r \<noteq> UNRATED" by (simp_all add: rating_ok_def)
  show ?thesis
    by (rule rated_cells [OF ok])
      (use Some sev in \<open>simp add: reads_back_def threat_severity_def parse_row_def row_of_def threat_cells_def cell_def\<close>)
next
  case None
  show ?thesis
    by (rule legacy_cells [OF assms None])
      (use None in \<open>simp add: reads_back_def threat_severity_def parse_row_def row_of_def threat_cells_def cell_def crosswalked_def Let_def or_str_def\<close>)
qed

text \<open>
  C17. A rendered threat is read back as it was. For a threat that is rated by the method, or unrated with legacy labels,
  the row of the table gives back the severity and its source as the JSON has them, the levels,
  both scores to the last digit and the basis; and the checker of the row has no complaint about an unrated
  threat, and none about a rated one exactly when the levels are those of the scores and the severity is
  that of the levels.
\<close>

theorem threat_reads_back:
  assumes "threat_ok M t"
  shows "reads_back M t (parse_row M (row_of (threat_cells t)))
    \<and> (cell_problems M (rc_severity (threat_cells t)) (rc_likelihood (threat_cells t)) (rc_impact (threat_cells t)) = []
        \<longleftrightarrow> (case th_rating t of None \<Rightarrow> True | Some r \<Rightarrow> consistent M r))"
proof (cases "th_rating t")
  case (Some r)
  then have ok: "rating_ok M r" using assms by (simp add: threat_ok_def)
  then have sev: "ra_severity r \<in> set (rm_severities M)" "ra_severity r \<noteq> UNRATED" by (simp_all add: rating_ok_def)
  have "cell_problems M (ra_severity r) (likelihood_cell r) (impact_cell r) = [] \<longleftrightarrow> consistent M r"
    by (rule rated_cells [OF ok]) (use sev in \<open>auto simp: cell_problems_def level_problem_def consistent_def Let_def\<close>)
  with row_reads_back [OF assms] Some show ?thesis by (simp add: threat_cells_def)
next
  case None
  have "cell_problems M UNRATED (rc_likelihood (threat_cells t)) (rc_impact (threat_cells t)) = []"
    by (rule legacy_cells [OF assms None]) (use None in \<open>simp add: threat_cells_def cell_problems_def or_str_def\<close>)
  with row_reads_back [OF assms] None show ?thesis by (simp add: threat_cells_def)
qed

definition demo_method :: risk_method where
  "demo_method = \<lparr>rm_severities = [''note'', ''low'', ''medium'', ''high'', ''critical''],
     rm_level = (\<lambda>s. if s < 3000 then ''low'' else if s < 6000 then ''medium'' else ''high''),
     rm_severity = (\<lambda>i l. if i = ''high'' \<and> l = ''medium'' then ''high'' else ''low''), rm_rank = (\<lambda>_. 0),
     rm_likelihood = [], rm_technical = [], rm_business = [], rm_rate = (\<lambda>_ _ _ _. Inl [])\<rparr>"

definition demo_threat :: threat where
  "demo_threat = \<lparr>th_rating = Some \<lparr>ra_severity = ''high'',
     ra_likelihood = \<lparr>lh_level = ''medium'', lh_score = 4375, lh_factors = []\<rparr>,
     ra_impact = \<lparr>im_level = ''high'', im_score = 7250, im_basis = ''technical'', im_technical = [], im_business = None\<rparr>,
     ra_rationale = []\<rparr>, th_impact = None, th_likelihood = None\<rparr>"

theorem threat_reads_back_witness:
  "reads_back demo_method demo_threat (parse_row demo_method (row_of (threat_cells demo_threat)))
   \<and> cell_problems demo_method ''high'' (rc_likelihood (threat_cells demo_threat)) (rc_impact (threat_cells demo_threat)) = []"
proof -
  have ok: "threat_ok demo_method demo_threat"
    by (simp add: threat_ok_def rating_ok_def demo_threat_def demo_method_def UNRATED_def LEVELS_def)
  have "rc_severity (threat_cells demo_threat) = ''high''" "case th_rating demo_threat of None \<Rightarrow> True | Some r \<Rightarrow> consistent demo_method r"
    by (simp_all add: threat_cells_def demo_threat_def consistent_def demo_method_def)
  then show ?thesis using threat_reads_back [OF ok] by simp
qed

end
