(* ===== verification/Threat_Lint.thy ===== *)
theory Threat_Lint
  imports Threat_Table Threat_Rating
begin

text \<open>
  \<open>reporting/lint.py\<close>: the check of a threat model in Markdown. An error is a value that says which
  section it is about; warnings are values too. The arithmetic of the rating method, the ids of the review surfaces, the
  table of techniques and the dash of a heading (a character the model has not) are arguments.
\<close>

section \<open>The contract\<close>

definition REQUIRED_SECTIONS :: "string list" where
  "REQUIRED_SECTIONS = [''1. System context'', ''2. Assets'', ''3. Entry points & trust boundaries'', ''4. Threats'',
     ''5. Deprioritized'', ''6. Open questions'', ''7. Provenance'']"

definition OPTIONAL_SECTIONS :: "string list" where
  "OPTIONAL_SECTIONS = [''8. Recommended mitigations'', ''9. Attack scenarios'', ''10. Tenant boundaries'', ''11. Risk ratings'']"

definition ACTOR_ENUM :: "string list" where
  "ACTOR_ENUM = [''remote_unauth'', ''remote_auth'', ''adjacent_network'', ''local_user'', ''local_admin'', ''supply_chain'', ''insider'']"

definition IMPACT_ENUM :: "string list" where
  "IMPACT_ENUM = [''low'', ''medium'', ''high'', ''critical'', ''existential'']"

definition LIKELIHOOD_ENUM :: "string list" where
  "LIKELIHOOD_ENUM = [''very_rare'', ''rare'', ''possible'', ''likely'', ''almost_certain'']"

definition STATUS_ENUM :: "string list" where
  "STATUS_ENUM = [''unmitigated'', ''partially_mitigated'', ''mitigated'', ''risk_accepted'']"

definition SENSITIVITY_ENUM :: "string list" where
  "SENSITIVITY_ENUM = [''low'', ''medium'', ''high'', ''critical'']"

definition CLOSES_CLASS_ENUM :: "string list" where
  "CLOSES_CLASS_ENUM = [''yes'', ''partial'', ''no'']"

definition EFFORT_ENUM :: "string list" where
  "EFFORT_ENUM = [''XS'', ''S'', ''M'', ''L'']"

definition MODE_ENUM :: "string list" where
  "MODE_ENUM = [''interview'', ''bootstrap'', ''bootstrap-then-interview'']"

definition IMPACT_ORDER :: "string list" where
  "IMPACT_ORDER = [''existential'', ''critical'', ''high'', ''medium'', ''low'']"

definition LIKELIHOOD_ORDER :: "string list" where
  "LIKELIHOOD_ORDER = [''almost_certain'', ''likely'', ''possible'', ''rare'', ''very_rare'']"

definition THREATS_COLUMNS :: "string list" where
  "THREATS_COLUMNS = [''id'', ''threat'', ''actor'', ''surface'', ''asset'', ''impact'', ''likelihood'', ''status'', ''controls'', ''evidence'']"

definition THREATS_COLUMNS_ATTACK :: "string list" where
  "THREATS_COLUMNS_ATTACK = THREATS_COLUMNS @ [''attack_refs'']"

definition THREATS_COLUMNS_ISOLATION :: "string list" where
  "THREATS_COLUMNS_ISOLATION = THREATS_COLUMNS_ATTACK @ [''isolation_dimensions'']"

definition THREATS_COLUMNS_OWASP :: "string list" where
  "THREATS_COLUMNS_OWASP = [''id'', ''threat'', ''actor'', ''surface'', ''asset'', ''severity'', ''likelihood'', ''impact'', ''status'',
     ''controls'', ''evidence'', ''attack_refs'']"

definition THREATS_COLUMNS_OWASP_ISOLATION :: "string list" where
  "THREATS_COLUMNS_OWASP_ISOLATION = THREATS_COLUMNS_OWASP @ [''isolation_dimensions'']"

definition THREATS_BASE_VARIANTS :: "string list list" where
  "THREATS_BASE_VARIANTS = [THREATS_COLUMNS, THREATS_COLUMNS_ATTACK, THREATS_COLUMNS_ISOLATION, THREATS_COLUMNS_OWASP,
     THREATS_COLUMNS_OWASP_ISOLATION]"

definition THREATS_COLUMN_VARIANTS :: "string list list" where
  "THREATS_COLUMN_VARIANTS = THREATS_BASE_VARIANTS @ map (\<lambda>v. v @ [''review_surfaces'']) THREATS_BASE_VARIANTS"

definition ATTACK_REFS_SINCE :: "nat \<times> nat \<times> nat" where
  "ATTACK_REFS_SINCE = (0, 82, 0)"

definition BOUNDARY_COLUMNS :: "string list" where
  "BOUNDARY_COLUMNS = [''boundary_id'', ''interface'', ''kind'', ''exposure'', ''complexity'', ''privilege'', ''encryption'',
     ''authentication'', ''connectivity'', ''hygiene'', ''threat_ids'', ''isolation_review_ref'']"

definition ISOLATION_DIMENSIONS :: "string list" where
  "ISOLATION_DIMENSIONS = [''privilege'', ''encryption'', ''authentication'', ''connectivity'', ''hygiene'']"

definition BOUNDARY_KIND_ENUM :: "string list" where
  "BOUNDARY_KIND_ENUM = [''api'', ''data-store'', ''queue'', ''ingress'', ''webhook'', ''cli'', ''other'']"

definition BOUNDARY_EXPOSURE_ENUM :: "string list" where
  "BOUNDARY_EXPOSURE_ENUM = [''public'', ''tenant'', ''partner'', ''internal'']"

definition BOUNDARY_COMPLEXITY_ENUM :: "string list" where
  "BOUNDARY_COMPLEXITY_ENUM = [''low'', ''medium'', ''high'']"

definition DIMENSION_RESULT_ENUM :: "string list" where
  "DIMENSION_RESULT_ENUM = [''yes'', ''partial'', ''no'', ''na'']"

definition ASSETS_COLUMNS :: "string list" where
  "ASSETS_COLUMNS = [''asset'', ''description'', ''sensitivity'']"

definition ASSETS_OPTIONAL_COLUMNS :: "string list" where
  "ASSETS_OPTIONAL_COLUMNS = [''regulatory_scope'', ''example_records'']"

definition ENTRY_COLUMNS :: "string list" where
  "ENTRY_COLUMNS = [''entry_point'', ''description'', ''trust_boundary'', ''reachable_assets'']"

definition ENTRY_COLUMNS_SURFACES :: "string list" where
  "ENTRY_COLUMNS_SURFACES = ENTRY_COLUMNS @ [''review_surfaces'']"

definition DEPRI_COLUMNS :: "string list" where
  "DEPRI_COLUMNS = [''threat'', ''reason'']"

definition DEPRI_COLUMNS_SURFACES :: "string list" where
  "DEPRI_COLUMNS_SURFACES = DEPRI_COLUMNS @ [''review_surfaces'']"

definition MITIG_COLUMNS :: "string list" where
  "MITIG_COLUMNS = [''mitigation'', ''threat_ids'', ''closes_class'', ''effort'']"

definition UPDATE_HISTORY_COLUMNS :: "string list" where
  "UPDATE_HISTORY_COLUMNS = [''date'', ''changes'', ''reason'']"

definition FACTOR_COLUMNS :: "string list" where
  "FACTOR_COLUMNS = [''factor'', ''score'', ''reason'']"

section \<open>Patterns\<close>

definition numeral_from :: "nat \<Rightarrow> rx" where
  "numeral_from n = Rep n None True digit"

definition hex_class :: "char \<Rightarrow> bool" where
  "hex_class c \<longleftrightarrow> is_digit c \<or> c \<in> set ''abcdef''"

definition EVIDENCE_OK :: "rx list" where
  "EVIDENCE_OK =
     [seq [At Bos, ilit ''CVE-'', Rep 4 (Some 4) True digit, lit ''-'', numeral_from 4, At Eos],
      seq [At Bos, ilit ''GHSA'', Rep 3 (Some 3) True (Cat (lit ''-'') (Rep 4 (Some 4) True (Cls (alnum_or '''')))), At Eos],
      seq [At Bos, Rep 7 (Some 40) True (Cls hex_class), At Eos],
      seq [At Bos, lit ''FIND-'', numeral_from 3, At Eos],
      seq [At Bos, plus (Cls (\<lambda>c. is_upper c \<or> is_digit c \<or> c \<in> set ''_.'')), lit ''-'',
           Rep 7 (Some 12) True (Cls hex_class), lit ''-'', Rep 3 (Some 3) True digit, At Eos],
      seq [At Bos, lit ''-'', Rep 3 (Some 3) True digit, At Eos],
      seq [At Bos, lit ''http'', opt (lit ''s''), lit ''://'', plus (Cls (\<lambda>c. \<not> is_space c)), At Eos],
      seq [At Bos, Rep 2 None True (Cls is_upper), star (Cls (\<lambda>c. is_upper c \<or> is_digit c)), lit ''-'',
           plus digit, At Eos]]"

definition ATTACK_ID :: rx where
  "ATTACK_ID = seq [At Bos, lit ''T'', Rep 4 (Some 4) True digit, opt (Cat (lit ''.'') (Rep 3 (Some 3) True digit)), At Eos]"

definition ANNOTATION_RX :: rx where
  "ANNOTATION_RX = seq [star (Cls is_space), lit ''('', star (Cls (none_of '')'')), lit '')'', star (Cls is_space), At Eos]"

definition COMMIT_PREFIX_RX :: rx where
  "COMMIT_PREFIX_RX = seq [At Bos, ilit ''commit'', opt (ilit ''s''), plus (Cls is_space)]"

definition evidence_token_ok :: "string \<Rightarrow> bool" where
  "evidence_token_ok token =
     (let t = re_sub COMMIT_PREFIX_RX (\<lambda>_. []) (re_sub ANNOTATION_RX (\<lambda>_. []) (strip token))
      in list_ex (\<lambda>p. re_match p t \<noteq> None) EVIDENCE_OK)"

definition FILE_LINE :: rx where
  "FILE_LINE = seq [plus (Cls (\<lambda>c. is_word c \<or> c \<in> set ''./-'')), lit ''.'',
     Rep 1 (Some 5) True (Cls (\<lambda>c. is_upper c \<or> is_lower c)), lit '':'', plus digit]"

definition T_ID :: rx where
  "T_ID = Cat (lit ''T'') (plus digit)"

definition THREAT_ID :: rx where
  "THREAT_ID = seq [At Bos, T_ID, At Eos]"

text \<open>The heading of a scenario and of a rating: \<open>### T1\<close> and no more of a word.\<close>

definition T_HEADING :: rx where
  "T_HEADING = seq [At Bos, lit ''### '', Grp 1 T_ID, At Word_boundary]"

definition LINT_DATE_RX :: rx where
  "LINT_DATE_RX = seq [At Bos, Rep 4 (Some 4) True digit, lit ''-'', Rep 2 (Some 2) True digit, lit ''-'', Rep 2 (Some 2) True digit, At Eos]"

definition BOUNDARY_ID :: rx where
  "BOUNDARY_ID = seq [At Bos, lit ''IF-'', plus digit, At Eos]"

definition ref_char :: "char \<Rightarrow> bool" where
  "ref_char c \<longleftrightarrow> alnum_or ''._-'' c"

definition ISOLATION_REVIEW_REF :: rx where
  "ISOLATION_REVIEW_REF = seq [At Bos, lit ''analysis-results/isolation/'', plus (Cls ref_char),
     star (Cat (lit ''/'') (star (Cls ref_char))), At Eos]"

definition PROVENANCE_RX :: rx where
  "PROVENANCE_RX = seq [At Bos, star (Cls is_space), lit ''-'', star (Cls is_space),
     Grp 1 (Rep 1 None False (Cls (\<lambda>c. is_lower c \<or> c \<in> set ''_ ''))), star (Cls is_space), lit '':'', star (Cls is_space),
     Grp 2 (star (Cls (\<lambda>c. c \<noteq> CHR 0x0A))), At Eos]"

definition VERSION_PREFIX_RX :: rx where
  "VERSION_PREFIX_RX = seq [At Bos, Grp 1 (plus digit), lit ''.'', Grp 2 (plus digit), lit ''.'', Grp 3 (plus digit)]"

definition NUMBERED_RX :: rx where
  "NUMBERED_RX = seq [At Bos, plus digit, lit ''.'']"

definition TITLE_RX :: rx where
  "TITLE_RX = seq [At Bos, lit ''# Threat Model:'', star (Cls is_space), Cls (\<lambda>c. \<not> is_space c)]"

definition fits :: "rx \<Rightarrow> string \<Rightarrow> bool" where
  "fits r s \<longleftrightarrow> re_match r s \<noteq> None"

section \<open>Errors and warnings\<close>

record lint_env =
  le_method :: risk_method
  le_surfaces :: "string list"
  le_attack :: "(string list \<Rightarrow> string list) option"
  le_dash :: char

text \<open>A number is that of the section.\<close>

datatype lint_problem =
    Bad_title
  | Missing_section string
  | Section_order string
  | No_table nat
  | Columns nat "string list"
  | Row_length nat "string list"
  | Bad_value nat string string string
  | Bad_surface string string
  | Bad_id nat string
  | Duplicate_id nat string
  | Rating_cell string cell_problem
  | File_line string string
  | Attack_ref string string
  | Uncovered string
  | No_bullet string
  | Attack_column_missing
  | Bad_date string
  | Unknown_threat nat string string
  | Bad_heading nat string
  | No_scenarios
  | Bad_review_ref string string
  | Duplicate_rating string
  | Unrated_threat string
  | Unknown_factor string string
  | Factor_twice string string
  | Factor_score string string string
  | Bad_factors string factor_problem
  | Factors_differ string string
  | Heading_severity string string string
  | No_factors string
  | No_ratings "string list"

datatype lint_warning =
    Unknown_section string
  | Extra_column string
  | Evidence_token string string
  | Many_refs string nat
  | Not_sorted
  | No_version
  | No_mitigations
  | Many_scenarios nat

type_synonym lint_result = "lint_problem list \<times> lint_warning list"

definition surface_errors :: "lint_env \<Rightarrow> string \<Rightarrow> string \<Rightarrow> lint_problem list" where
  "surface_errors E place c = map (Bad_surface place) (filter (\<lambda>x. x \<notin> set (le_surfaces E)) (listed_parts c))"

definition enum_errors :: "nat \<Rightarrow> string \<Rightarrow> (string \<times> string \<times> string list) list \<Rightarrow> lint_problem list" where
  "enum_errors n row checks = List.map_filter (\<lambda>(f, v, enum). if v \<in> set enum then None else Some (Bad_value n row f v)) checks"

section \<open>Sections and their order\<close>

type_synonym sections = "(string \<times> string list) list"

definition numbered :: "sections \<Rightarrow> string list" where
  "numbered secs = filter (fits NUMBERED_RX) (map fst secs)"

definition section_errors :: "sections \<Rightarrow> lint_problem list" where
  "section_errors secs = List.map_filter (\<lambda>(i, want).
     if want \<notin> fst ` set secs then Some (Missing_section want)
     else if want \<in> set (numbered secs) \<and> index_of want (numbered secs) \<noteq> i then Some (Section_order want)
     else None) (enumerate 0 REQUIRED_SECTIONS)"

definition section_warnings :: "sections \<Rightarrow> lint_warning list" where
  "section_warnings secs = map Unknown_section (filter (\<lambda>h. h \<notin> set REQUIRED_SECTIONS \<and> h \<notin> set OPTIONAL_SECTIONS) (numbered secs))"

definition section_body :: "sections \<Rightarrow> string \<Rightarrow> string list option" where
  "section_body secs name = map_of secs name"

section \<open>Assets and entry points\<close>

definition lint_assets :: "string list option \<Rightarrow> lint_result" where
  "lint_assets b = (case b of None \<Rightarrow> ([], []) | Some ls \<Rightarrow> (case parse_table ls of
       (None, _) \<Rightarrow> ([No_table 2], [])
     | (Some cols, rows) \<Rightarrow>
         ((if take 3 cols \<noteq> ASSETS_COLUMNS then [Columns 2 (take 3 cols)] else [])
            @ concat (map (\<lambda>r. if length r < 3 then [Row_length 2 r]
                else enum_errors 2 (r ! 0) [(''sensitivity'', r ! 2, SENSITIVITY_ENUM)]) rows),
          map Extra_column (filter (\<lambda>c. c \<notin> set ASSETS_OPTIONAL_COLUMNS) (drop 3 cols)))))"

definition named_rows :: "string list list \<Rightarrow> string list list" where
  "named_rows rows = filter (\<lambda>r. r \<noteq> [] \<and> hd r \<noteq> []) rows"

text \<open>The errors and the entry points.\<close>

definition lint_entries :: "lint_env \<Rightarrow> string list option \<Rightarrow> lint_problem list \<times> string list" where
  "lint_entries E b = (case b of None \<Rightarrow> ([], []) | Some ls \<Rightarrow> (case parse_table ls of (cols, rows) \<Rightarrow>
     ((case cols of None \<Rightarrow> [No_table 3]
        | Some cs \<Rightarrow> if cs = ENTRY_COLUMNS \<or> cs = ENTRY_COLUMNS_SURFACES then [] else [Columns 3 cs])
        @ concat (map (\<lambda>r. if cols = Some ENTRY_COLUMNS_SURFACES \<and> length r = length ENTRY_COLUMNS_SURFACES
             then surface_errors E (hd r) (last r) else []) (named_rows rows)),
      map hd (named_rows rows))))"

section \<open>Threats\<close>

type_synonym lint_row = "(string \<times> string) list"

definition get :: "lint_row \<Rightarrow> string \<Rightarrow> string" where
  "get row k = (case map_of row k of None \<Rightarrow> [] | Some v \<Rightarrow> v)"

definition rated_row :: "lint_row \<Rightarrow> bool" where
  "rated_row row \<longleftrightarrow> map_of row ''severity'' \<noteq> None"

definition attack_errors :: "lint_env \<Rightarrow> string list \<Rightarrow> string list" where
  "attack_errors E ids = (case le_attack E of
       Some validate \<Rightarrow> validate ids
     | None \<Rightarrow> filter (\<lambda>t. \<not> fits ATTACK_ID t) ids)"

definition evidence_check :: "string \<Rightarrow> string \<Rightarrow> lint_result" where
  "evidence_check tid c =
     (let ev = strip c in
      if ev = [] then ([], [])
      else if re_search FILE_LINE ev \<noteq> None then ([File_line tid ev], [])
      else ([], map (Evidence_token tid) (filter (\<lambda>t. \<not> evidence_token_ok t) (listed_parts ev))))"

definition rating_checks :: "lint_env \<Rightarrow> lint_row \<Rightarrow> lint_problem list" where
  "rating_checks E row =
     (let tid = get row ''id'' in
      (if rated_row row then
         map (Rating_cell tid) (cell_problems (le_method E) (get row ''severity'') (get row ''likelihood'') (get row ''impact''))
       else enum_errors 4 tid [(''impact'', get row ''impact'', IMPACT_ENUM), (''likelihood'', get row ''likelihood'', LIKELIHOOD_ENUM)])
      @ enum_errors 4 tid [(''status'', get row ''status'', STATUS_ENUM)])"

definition id_errors :: "string list \<Rightarrow> string \<Rightarrow> lint_problem list" where
  "id_errors seen tid =
     (if \<not> fits THREAT_ID tid then [Bad_id 4 tid] else if tid \<in> set seen then [Duplicate_id 4 tid] else [])"

definition row_errors :: "lint_env \<Rightarrow> lint_row \<Rightarrow> lint_problem list" where
  "row_errors E row =
     (let tid = get row ''id'' in
      map (Bad_value 4 tid ''actor'') (filter (\<lambda>a. a \<notin> set ACTOR_ENUM) (re_split '','' (get row ''actor'')))
      @ rating_checks E row
      @ fst (evidence_check tid (get row ''evidence''))
      @ (let ar = strip (get row ''attack_refs'') in
         if ar = [] then [] else map (Attack_ref tid) (attack_errors E (listed_parts ar)))
      @ map (Bad_value 4 tid ''isolation_dimensions'')
          (filter (\<lambda>d. d \<notin> set ISOLATION_DIMENSIONS) (listed_parts (strip (get row ''isolation_dimensions''))))
      @ surface_errors E tid (get row ''review_surfaces''))"

definition row_warnings :: "lint_row \<Rightarrow> lint_warning list" where
  "row_warnings row =
     (let tid = get row ''id''; refs = listed_parts (strip (get row ''attack_refs'')) in
      snd (evidence_check tid (get row ''evidence'')) @ (if length refs > 4 then [Many_refs tid (length refs)] else []))"

definition table_row_of :: "lint_row \<Rightarrow> table_row" where
  "table_row_of row = \<lparr>tb_severity = map_of row ''severity'', tb_likelihood = map_of row ''likelihood'', tb_impact = map_of row ''impact''\<rparr>"

definition legacy_keys :: "lint_row list \<Rightarrow> (nat \<times> nat) list" where
  "legacy_keys rows = map (\<lambda>r. (index_of (get r ''impact'') IMPACT_ORDER, index_of (get r ''likelihood'') LIKELIHOOD_ORDER))
     (filter (\<lambda>r. get r ''impact'' \<in> set IMPACT_ENUM \<and> get r ''likelihood'' \<in> set LIKELIHOOD_ENUM) rows)"

definition order_warnings :: "lint_env \<Rightarrow> string list \<Rightarrow> lint_row list \<Rightarrow> lint_warning list" where
  "order_warnings E cols rows =
     (let ok = (if ''severity'' \<in> set cols then
          sorted (map (\<lambda>r. order_key (le_method E) (parse_row (le_method E) (table_row_of r))) rows)
        else sorted (legacy_keys rows))
      in if ok then [] else [Not_sorted])"

record threat_rows =
  tr_errors :: "lint_problem list"
  tr_warnings :: "lint_warning list"
  tr_columns :: "string list option"
  tr_rows :: "lint_row list"

definition no_threats :: threat_rows where
  "no_threats = \<lparr>tr_errors = [], tr_warnings = [], tr_columns = None, tr_rows = []\<rparr>"

text \<open>The rows in their order, with the ids seen so far.\<close>

fun lint_rows :: "lint_env \<Rightarrow> string list \<Rightarrow> string list \<Rightarrow> string list list \<Rightarrow> lint_problem list \<times> lint_warning list \<times> lint_row list" where
  "lint_rows E cols seen [] = ([], [], [])"
| "lint_rows E cols seen (r # rs) =
     (if length r \<noteq> length cols then
        (case lint_rows E cols seen rs of (es, ws, rows) \<Rightarrow> (Row_length 4 r # es, ws, rows))
      else
        (let row = zip cols r; tid = get row ''id'' in
         case lint_rows E cols (seen @ [tid]) rs of (es, ws, rows) \<Rightarrow>
           (id_errors seen tid @ row_errors E row @ es, row_warnings row @ ws, row # rows)))"

definition lint_threats :: "lint_env \<Rightarrow> string list option \<Rightarrow> threat_rows" where
  "lint_threats E b = (case b of None \<Rightarrow> no_threats | Some ls \<Rightarrow> (case parse_table ls of
       (None, _) \<Rightarrow> no_threats\<lparr>tr_errors := [No_table 4]\<rparr>
     | (Some cols, rs) \<Rightarrow>
         if cols \<notin> set THREATS_COLUMN_VARIANTS then no_threats\<lparr>tr_errors := [Columns 4 cols]\<rparr>
         else (case lint_rows E cols [] rs of (es, ws, rows) \<Rightarrow>
           \<lparr>tr_errors = es, tr_warnings = ws @ order_warnings E cols rows, tr_columns = Some cols, tr_rows = rows\<rparr>)))"

definition threat_ids :: "threat_rows \<Rightarrow> string list" where
  "threat_ids t = map (\<lambda>row. get row ''id'') (tr_rows t)"

text \<open>The rows with a severity by their id, the last of an id.\<close>

definition rated_rows :: "threat_rows \<Rightarrow> (string \<times> lint_row) list" where
  "rated_rows t = filter (\<lambda>(_, row). get row ''severity'' \<noteq> UNRATED)
     (fold (\<lambda>row d. AList.update (get row ''id'') row d) (filter rated_row (tr_rows t)) [])"

section \<open>Parked threats and coverage\<close>

definition lint_parked :: "lint_env \<Rightarrow> string list option \<Rightarrow> lint_problem list" where
  "lint_parked E b = (case b of None \<Rightarrow> [] | Some ls \<Rightarrow> (case parse_table ls of
       (None, _) \<Rightarrow> []
     | (Some cols, rows) \<Rightarrow>
         (if cols = DEPRI_COLUMNS \<or> cols = DEPRI_COLUMNS_SURFACES then [] else [Columns 5 cols])
         @ (if cols = DEPRI_COLUMNS_SURFACES then
              concat (map (\<lambda>r. if length r = length cols then surface_errors E (hd r) (last r) else []) (named_rows rows))
            else [])))"

definition entry_covered :: "threat_rows \<Rightarrow> string list option \<Rightarrow> string \<Rightarrow> bool" where
  "entry_covered t parked ep \<longleftrightarrow>
     occurs_in (lower ep) (lower (join '' '' (map (\<lambda>row. get row ''surface'') (tr_rows t))))
     \<or> occurs_in (lower ep) (lower (join [CHR 0x0A] (case parked of None \<Rightarrow> [] | Some ls \<Rightarrow> ls)))"

definition coverage_errors :: "threat_rows \<Rightarrow> string list option \<Rightarrow> string list \<Rightarrow> lint_problem list" where
  "coverage_errors t parked eps = map Uncovered (filter (\<lambda>ep. \<not> entry_covered t parked ep) eps)"

section \<open>Provenance\<close>

definition provenance_line :: "string \<Rightarrow> (string \<times> string) option" where
  "provenance_line l = (case re_match PROVENANCE_RX l of None \<Rightarrow> None
     | Some m \<Rightarrow> Some (strip (grp 1 m), strip (grp 2 m)))"

definition parse_provenance :: "string list \<Rightarrow> (string \<times> string) list" where
  "parse_provenance ls = fold (\<lambda>(k, v). AList.update k v) (List.map_filter provenance_line ls) []"

definition version_ge :: "nat \<times> nat \<times> nat \<Rightarrow> nat \<times> nat \<times> nat \<Rightarrow> bool" where
  "version_ge v w = (case (v, w) of ((a, b, c), (x, y, z)) \<Rightarrow> a > x \<or> a = x \<and> (b > y \<or> b = y \<and> c \<ge> z))"

definition emission_version :: "string \<Rightarrow> (nat \<times> nat \<times> nat) option" where
  "emission_version s = map_option (\<lambda>m. (int_of_digits (grp 1 m), int_of_digits (grp 2 m), int_of_digits (grp 3 m))) (re_match VERSION_PREFIX_RX s)"

definition lint_provenance :: "string list option \<Rightarrow> string list option \<Rightarrow> lint_result" where
  "lint_provenance b cols = (case b of None \<Rightarrow> ([], []) | Some ls \<Rightarrow>
     (let prov = parse_provenance ls; mode = get prov ''mode''; date = get prov ''date'' in
      (map No_bullet (filter (\<lambda>k. map_of prov k = None) [''mode'', ''date'', ''target'', ''inputs'', ''owner''])
        @ (if mode \<noteq> [] \<and> mode \<notin> set MODE_ENUM then [Bad_value 7 [] ''mode'' mode] else [])
        @ (if date \<noteq> [] \<and> \<not> fits LINT_DATE_RX date then [Bad_date date] else [])
        @ (case emission_version (get prov ''harness_version'') of
             Some v \<Rightarrow> if version_ge v ATTACK_REFS_SINCE \<and> cols = Some THREATS_COLUMNS then [Attack_column_missing] else []
           | None \<Rightarrow> [])
        @ (case parse_table ls of
             (None, _) \<Rightarrow> []
           | (Some cs, rows) \<Rightarrow>
               (if cs \<noteq> UPDATE_HISTORY_COLUMNS then [Columns 7 cs] else [])
               @ map (\<lambda>r. Bad_date (hd r)) (filter (\<lambda>r. \<not> fits LINT_DATE_RX (hd r)) (named_rows rows))),
       if map_of prov ''harness_version'' = None then [No_version] else [])))"

section \<open>Mitigations, scenarios, boundaries\<close>

definition ref_errors :: "nat \<Rightarrow> string \<Rightarrow> string list \<Rightarrow> string \<Rightarrow> lint_problem list" where
  "ref_errors n place ids c = map (Unknown_threat n place) (filter (\<lambda>t. t \<notin> set ids) (listed_parts c))"

definition lint_mitigations :: "bool \<Rightarrow> string list \<Rightarrow> string list option \<Rightarrow> lint_result" where
  "lint_mitigations strict ids b = (case b of None \<Rightarrow> ([], if strict then [No_mitigations] else [])
     | Some ls \<Rightarrow> (case parse_table ls of
         (None, _) \<Rightarrow> ([], [])
       | (Some cols, rows) \<Rightarrow>
           (if cols \<noteq> MITIG_COLUMNS then [Columns 8 cols]
            else concat (map (\<lambda>r. if length r \<noteq> 4 then [Row_length 8 r]
              else ref_errors 8 (r ! 0) ids (r ! 1)
                @ enum_errors 8 (r ! 0) [(''closes_class'', r ! 2, CLOSES_CLASS_ENUM), (''effort'', r ! 3, EFFORT_ENUM)]) rows), [])))"

definition t_heading :: "string \<Rightarrow> string option" where
  "t_heading l = map_option (grp 1) (re_match T_HEADING l)"

definition lint_scenarios :: "string list \<Rightarrow> string list option \<Rightarrow> lint_result" where
  "lint_scenarios ids b = (case b of None \<Rightarrow> ([], []) | Some ls \<Rightarrow>
     (let scenarios = List.map_filter t_heading ls in
      (map (\<lambda>l. Bad_heading 9 (strip l)) (filter (\<lambda>l. t_heading l = None \<and> startswith l ''### '') ls)
        @ (if scenarios = [] then [No_scenarios] else [])
        @ map (Unknown_threat 9 []) (filter (\<lambda>t. t \<notin> set ids) scenarios),
       if length scenarios > 8 then [Many_scenarios (length scenarios)] else [])))"

definition boundary_id_errors :: "string list \<Rightarrow> string \<Rightarrow> lint_problem list" where
  "boundary_id_errors seen bid =
     (if \<not> fits BOUNDARY_ID bid then [Bad_id 10 bid] else if bid \<in> set seen then [Duplicate_id 10 bid] else [])"

definition boundary_errors :: "string list \<Rightarrow> lint_row \<Rightarrow> lint_problem list" where
  "boundary_errors ids row =
     (let bid = get row ''boundary_id'' in
      enum_errors 10 bid ([(''kind'', get row ''kind'', BOUNDARY_KIND_ENUM), (''exposure'', get row ''exposure'', BOUNDARY_EXPOSURE_ENUM),
        (''complexity'', get row ''complexity'', BOUNDARY_COMPLEXITY_ENUM)]
        @ map (\<lambda>d. (d, get row d, DIMENSION_RESULT_ENUM)) ISOLATION_DIMENSIONS)
      @ ref_errors 10 bid ids (get row ''threat_ids'')
      @ (let ref = strip (get row ''isolation_review_ref'') in
         if ref \<noteq> [] \<and> \<not> fits ISOLATION_REVIEW_REF ref then [Bad_review_ref bid ref] else []))"

fun boundary_rows :: "string list \<Rightarrow> string list \<Rightarrow> string list list \<Rightarrow> lint_problem list" where
  "boundary_rows ids seen [] = []"
| "boundary_rows ids seen (r # rs) =
     (if length r \<noteq> length BOUNDARY_COLUMNS then Row_length 10 r # boundary_rows ids seen rs
      else (let row = zip BOUNDARY_COLUMNS r; bid = get row ''boundary_id'' in
        boundary_id_errors seen bid @ boundary_errors ids row @ boundary_rows ids (seen @ [bid]) rs))"

definition lint_boundaries :: "string list \<Rightarrow> string list option \<Rightarrow> lint_problem list" where
  "lint_boundaries ids b = (case b of None \<Rightarrow> [] | Some ls \<Rightarrow> (case parse_table ls of
       (None, _) \<Rightarrow> [No_table 10]
     | (Some cols, rows) \<Rightarrow> if cols \<noteq> BOUNDARY_COLUMNS then [Columns 10 cols] else boundary_rows ids [] rows))"

section \<open>Ratings\<close>

text \<open>The subsections: the threat, if the heading names one, the heading and its lines.\<close>

fun rating_subsections :: "string list \<Rightarrow> (string option \<times> string \<times> string list) list" where
  "rating_subsections [] = []"
| "rating_subsections (l # ls) =
     (if startswith l ''### '' then
        (t_heading l, strip l, takeWhile (\<lambda>k. \<not> startswith k ''### '') ls) # rating_subsections ls
      else rating_subsections ls)"

definition factor_entry :: "lint_env \<Rightarrow> string \<Rightarrow> string list \<Rightarrow> lint_problem list \<times> (string \<times> nat) list \<Rightarrow> lint_problem list \<times> (string \<times> nat) list" where
  "factor_entry E tid r acc = (case acc of (es, scores) \<Rightarrow>
     if length r \<noteq> length FACTOR_COLUMNS then (es @ [Row_length 11 r], scores)
     else (let name = r ! 0; value = r ! 1 in
       if name \<notin> set (all_factors (le_method E)) then (es @ [Unknown_factor tid name], scores)
       else if map_of scores name \<noteq> None then (es @ [Factor_twice tid name], scores)
       else (case value of
           [d] \<Rightarrow> if is_digit d then (es, scores @ [(name, int_of_digits [d])]) else (es @ [Factor_score tid name value], scores)
         | _ \<Rightarrow> (es @ [Factor_score tid name value], scores))))"

definition differing :: "parsed_row \<Rightarrow> parsed_row \<Rightarrow> string list" where
  "differing computed stated =
     (if pw_severity computed \<noteq> pw_severity stated then [''severity''] else [])
     @ (if pw_likelihood computed \<noteq> pw_likelihood stated then [''likelihood''] else [])
     @ (if pw_impact computed \<noteq> pw_impact stated then [''impact''] else [])
     @ (if pw_likelihood_score computed \<noteq> pw_likelihood_score stated then [''likelihood_score''] else [])
     @ (if pw_impact_score computed \<noteq> pw_impact_score stated then [''impact_score''] else [])"

definition computed_row :: "lint_env \<Rightarrow> risk_rating \<Rightarrow> parsed_row" where
  "computed_row E r = parse_row (le_method E)
     \<lparr>tb_severity = Some (ra_severity r), tb_likelihood = Some (likelihood_cell r), tb_impact = Some (impact_cell r)\<rparr>"

definition heading_errors :: "lint_env \<Rightarrow> string \<Rightarrow> string \<Rightarrow> risk_rating \<Rightarrow> lint_problem list" where
  "heading_errors E tid heading r =
     (let said = (if le_dash E \<in> set heading then strip (after_last (le_dash E) heading) else []) in
      if said \<noteq> [] \<and> said \<noteq> ra_severity r then [Heading_severity tid said (ra_severity r)] else [])"

definition lint_factors :: "lint_env \<Rightarrow> string \<Rightarrow> string \<Rightarrow> string list \<Rightarrow> lint_row \<Rightarrow> lint_problem list" where
  "lint_factors E tid heading sub row = (case parse_table sub of (cols, rows) \<Rightarrow>
     if cols \<noteq> Some FACTOR_COLUMNS then [Columns 11 (case cols of None \<Rightarrow> [] | Some cs \<Rightarrow> cs)]
     else (case fold (factor_entry E tid) rows ([], []) of (es, scores) \<Rightarrow>
       let stated = parse_row (le_method E) (table_row_of row) in
       if pw_source stated \<noteq> Some ''owasp'' then es
       else (case rating_from_factors (le_method E) scores (or_str (pw_basis stated) []) of
           (rating, problems) \<Rightarrow> es @ map (Bad_factors tid) problems
             @ (case rating of None \<Rightarrow> []
                | Some r \<Rightarrow> map (Factors_differ tid) (differing (computed_row E r) stated) @ heading_errors E tid heading r))))"

fun lint_ratings_from :: "lint_env \<Rightarrow> (string \<times> lint_row) list \<Rightarrow> string list \<Rightarrow> string list
    \<Rightarrow> (string option \<times> string \<times> string list) list \<Rightarrow> lint_problem list \<times> string list" where
  "lint_ratings_from E rated ids seen [] = ([], seen)"
| "lint_ratings_from E rated ids seen ((tid, heading, sub) # subs) =
     (case tid of
        None \<Rightarrow> (case lint_ratings_from E rated ids seen subs of (es, s) \<Rightarrow> (Bad_heading 11 heading # es, s))
      | Some t \<Rightarrow>
          if t \<in> set seen then (case lint_ratings_from E rated ids seen subs of (es, s) \<Rightarrow> (Duplicate_rating t # es, s))
          else (case lint_ratings_from E rated ids (seen @ [t]) subs of (es, s) \<Rightarrow>
            ((if t \<notin> set ids then [Unknown_threat 11 [] t]
              else (case map_of rated t of
                  None \<Rightarrow> [Unrated_threat t]
                | Some row \<Rightarrow> lint_factors E t heading sub row)) @ es, s)))"

definition lint_risk_ratings :: "lint_env \<Rightarrow> string list \<Rightarrow> (string \<times> lint_row) list \<Rightarrow> string list \<Rightarrow> lint_problem list" where
  "lint_risk_ratings E ls rated ids =
     (case lint_ratings_from E rated ids [] (rating_subsections ls) of (es, seen) \<Rightarrow>
        es @ map No_factors (sort (filter (\<lambda>t. t \<notin> set seen) (map fst rated))))"

definition lint_ratings :: "lint_env \<Rightarrow> string list option \<Rightarrow> (string \<times> lint_row) list \<Rightarrow> string list \<Rightarrow> lint_problem list" where
  "lint_ratings E b rated ids = (case b of
       None \<Rightarrow> if rated \<noteq> [] then [No_ratings (sort (map fst rated))] else []
     | Some ls \<Rightarrow> lint_risk_ratings E ls rated ids)"

section \<open>The file\<close>

definition title_errors :: "string \<Rightarrow> lint_problem list" where
  "title_errors text = (if fits TITLE_RX (case split_lines text of [] \<Rightarrow> [] | l # _ \<Rightarrow> l) then [] else [Bad_title])"

definition lint_file :: "lint_env \<Rightarrow> bool \<Rightarrow> string \<Rightarrow> lint_result" where
  "lint_file E strict text =
     (let secs = parse_sections text;
          (asset_es, asset_ws) = lint_assets (section_body secs ''2. Assets'');
          (entry_es, entries) = lint_entries E (section_body secs ''3. Entry points & trust boundaries'');
          threats = lint_threats E (section_body secs ''4. Threats'');
          parked = section_body secs ''5. Deprioritized'';
          (prov_es, prov_ws) = lint_provenance (section_body secs ''7. Provenance'') (tr_columns threats);
          ids = threat_ids threats;
          (mit_es, mit_ws) = lint_mitigations strict ids (section_body secs ''8. Recommended mitigations'');
          (scen_es, scen_ws) = lint_scenarios ids (section_body secs ''9. Attack scenarios'')
      in (title_errors text @ section_errors secs @ asset_es @ entry_es @ tr_errors threats @ lint_parked E parked
            @ coverage_errors threats parked entries @ prov_es @ mit_es @ scen_es
            @ lint_boundaries ids (section_body secs ''10. Tenant boundaries'')
            @ lint_ratings E (section_body secs ''11. Risk ratings'') (rated_rows threats) ids,
          section_warnings secs @ asset_ws @ tr_warnings threats @ prov_ws @ mit_ws @ scen_ws))"

section \<open>What is accepted\<close>

lemma map_filter_Nil: "List.map_filter f xs = [] \<longleftrightarrow> (\<forall>x \<in> set xs. f x = None)"
  by (induction xs) (auto simp: List.map_filter_simps split: option.splits)

lemma index_of_nth: "x \<in> set xs \<Longrightarrow> index_of x xs < length xs \<and> xs ! index_of x xs = x"
  unfolding index_of_def by (induction xs) auto

lemma index_of_take: "distinct (take n xs) \<Longrightarrow> i < n \<Longrightarrow> i < length xs \<Longrightarrow> index_of (xs ! i) xs = i"
proof (induction xs arbitrary: n i)
  case (Cons x xs)
  show ?case
  proof (cases i)
    case (Suc j)
    with Cons.prems obtain m where m: "n = Suc m" "j < m"
      by (cases n) auto
    have "xs ! j \<in> set (take m xs)"
      using m Suc Cons.prems(3) by (auto simp: in_set_conv_nth)
    with Cons.prems(1) m have "xs ! j \<noteq> x"
      by auto
    with Cons.IH [of m j] Cons.prems m Suc show ?thesis
      by (auto simp: index_of_def)
  qed (simp add: index_of_def)
qed simp

lemma positions:
  assumes "distinct ws"
  shows "(\<forall>i < length ws. ws ! i \<in> set xs \<and> index_of (ws ! i) xs = i) \<longleftrightarrow> take (length ws) xs = ws"
proof
  assume all: "\<forall>i < length ws. ws ! i \<in> set xs \<and> index_of (ws ! i) xs = i"
  then have at: "i < length xs \<and> xs ! i = ws ! i" if "i < length ws" for i
    using index_of_nth [of "ws ! i" xs] that by auto
  then have "length ws \<le> length xs"
    using at [of "length ws - 1"] by (cases "length ws") (auto simp: Suc_le_eq)
  with at show "take (length ws) xs = ws"
    by (intro nth_equalityI) auto
next
  assume t: "take (length ws) xs = ws"
  show "\<forall>i < length ws. ws ! i \<in> set xs \<and> index_of (ws ! i) xs = i"
  proof (intro allI impI)
    fix i
    assume i: "i < length ws"
    have len: "length ws \<le> length xs"
      using t by (metis length_take min.cobounded1 min.absorb_iff2)
    have same: "xs ! i = ws ! i"
      using t i by (metis nth_take)
    from len i have "ws ! i \<in> set xs"
      using nth_mem [of i xs] by (simp add: same)
    then show "ws ! i \<in> set xs \<and> index_of (ws ! i) xs = i"
      using index_of_take [of "length ws" xs i] i t assms len same by simp
  qed
qed

text \<open>The sections with a number start with the seven that are required, in their order.\<close>

lemma required_numbered: "distinct REQUIRED_SECTIONS" "\<forall>w \<in> set REQUIRED_SECTIONS. fits NUMBERED_RX w"
proof -
  show "distinct REQUIRED_SECTIONS"
    by (simp add: REQUIRED_SECTIONS_def)
  have "list_all (fits NUMBERED_RX) REQUIRED_SECTIONS"
    by code_simp
  then show "\<forall>w \<in> set REQUIRED_SECTIONS. fits NUMBERED_RX w"
    by (simp add: list_all_iff)
qed

lemma section_errors_Nil: "section_errors secs = [] \<longleftrightarrow> take 7 (numbered secs) = REQUIRED_SECTIONS"
proof -
  have in_numbered: "w \<in> set (numbered secs) \<longleftrightarrow> w \<in> fst ` set secs" if "w \<in> set REQUIRED_SECTIONS" for w
    using that required_numbered(2) by (auto simp: numbered_def)
  let ?ok = "\<lambda>i. REQUIRED_SECTIONS ! i \<in> set (numbered secs) \<and> index_of (REQUIRED_SECTIONS ! i) (numbered secs) = i"
  have each: "(\<forall>p \<in> set (enumerate 0 xs). P p) \<longleftrightarrow> (\<forall>i < length xs. P (i, xs ! i))" for P and xs :: "string list"
    by (auto simp: in_set_enumerate_eq)
  have one: "(if REQUIRED_SECTIONS ! i \<notin> fst ` set secs then Some (Missing_section (REQUIRED_SECTIONS ! i))
      else if REQUIRED_SECTIONS ! i \<in> set (numbered secs) \<and> index_of (REQUIRED_SECTIONS ! i) (numbered secs) \<noteq> i
        then Some (Section_order (REQUIRED_SECTIONS ! i)) else None) = None \<longleftrightarrow> ?ok i" if "i < length REQUIRED_SECTIONS" for i
    using in_numbered [OF nth_mem [OF that]] by simp
  have "section_errors secs = [] \<longleftrightarrow> (\<forall>i < length REQUIRED_SECTIONS. ?ok i)"
    unfolding section_errors_def map_filter_Nil each using one by simp
  also have "\<dots> \<longleftrightarrow> take (length REQUIRED_SECTIONS) (numbered secs) = REQUIRED_SECTIONS"
    by (rule positions [OF required_numbered(1)])
  also have "length REQUIRED_SECTIONS = 7"
    by (simp add: REQUIRED_SECTIONS_def)
  finally show ?thesis .
qed

text \<open>The table of threats: known columns, full rows, ids that differ, and every row as the contract has it.\<close>

definition clean_row :: "lint_env \<Rightarrow> lint_row \<Rightarrow> bool" where
  "clean_row E row \<longleftrightarrow> fits THREAT_ID (get row ''id'')
     \<and> set (re_split '','' (get row ''actor'')) \<subseteq> set ACTOR_ENUM
     \<and> (if rated_row row
        then cell_problems (le_method E) (get row ''severity'') (get row ''likelihood'') (get row ''impact'') = []
        else get row ''impact'' \<in> set IMPACT_ENUM \<and> get row ''likelihood'' \<in> set LIKELIHOOD_ENUM)
     \<and> get row ''status'' \<in> set STATUS_ENUM
     \<and> re_search FILE_LINE (strip (get row ''evidence'')) = None
     \<and> (strip (get row ''attack_refs'') = [] \<or> attack_errors E (listed_parts (strip (get row ''attack_refs''))) = [])
     \<and> set (listed_parts (strip (get row ''isolation_dimensions''))) \<subseteq> set ISOLATION_DIMENSIONS
     \<and> set (listed_parts (get row ''review_surfaces'')) \<subseteq> set (le_surfaces E)"

lemma enum_errors_Nil: "enum_errors n row checks = [] \<longleftrightarrow> (\<forall>(f, v, enum) \<in> set checks. v \<in> set enum)"
  unfolding enum_errors_def map_filter_Nil by (rule ball_cong) (auto split: prod.split)

lemma surface_errors_Nil: "surface_errors E place c = [] \<longleftrightarrow> set (listed_parts c) \<subseteq> set (le_surfaces E)"
  by (auto simp: surface_errors_def filter_empty_conv)

lemma ref_errors_Nil: "ref_errors n place ids c = [] \<longleftrightarrow> set (listed_parts c) \<subseteq> set ids"
  by (auto simp: ref_errors_def filter_empty_conv)

lemma evidence_check_Nil: "fst (evidence_check tid c) = [] \<longleftrightarrow> re_search FILE_LINE (strip c) = None"
proof -
  have "re_search FILE_LINE [] = None"
    by code_simp
  then show ?thesis
    by (auto simp: evidence_check_def Let_def)
qed

lemma row_errors_Nil: "fits THREAT_ID (get row ''id'') \<and> row_errors E row = [] \<longleftrightarrow> clean_row E row"
  by (auto simp: row_errors_def clean_row_def Let_def rating_checks_def enum_errors_Nil surface_errors_Nil evidence_check_Nil
      filter_empty_conv subset_iff)

definition row_id :: "string list \<Rightarrow> string list \<Rightarrow> string" where
  "row_id cols r = get (zip cols r) ''id''"

lemma lint_rows_read: "snd (snd (lint_rows E cols seen rs)) = map (zip cols) (filter (\<lambda>r. length r = length cols) rs)"
  by (induction E cols seen rs rule: lint_rows.induct) (auto simp: Let_def split: prod.splits)

lemma lint_rows_Nil:
  "fst (lint_rows E cols seen rs) = [] \<longleftrightarrow>
     (\<forall>r \<in> set rs. length r = length cols \<and> clean_row E (zip cols r))
     \<and> distinct (map (row_id cols) rs) \<and> row_id cols ` set rs \<inter> set seen = {}"
proof (induction rs arbitrary: seen)
  case (Cons r rs)
  show ?case
  proof (cases "length r = length cols")
    case True
    obtain es ws rows where rest: "lint_rows E cols (seen @ [row_id cols r]) rs = (es, ws, rows)"
      by (cases "lint_rows E cols (seen @ [row_id cols r]) rs")
    have "fst (lint_rows E cols seen (r # rs)) = [] \<longleftrightarrow>
        id_errors seen (row_id cols r) = [] \<and> row_errors E (zip cols r) = [] \<and> es = []"
      using True rest by (simp add: row_id_def Let_def)
    moreover have "id_errors seen (row_id cols r) = [] \<longleftrightarrow> fits THREAT_ID (row_id cols r) \<and> row_id cols r \<notin> set seen"
      by (simp add: id_errors_def)
    ultimately have "fst (lint_rows E cols seen (r # rs)) = [] \<longleftrightarrow>
        clean_row E (zip cols r) \<and> row_id cols r \<notin> set seen \<and> es = []"
      using row_errors_Nil [of "zip cols r" E] by (auto simp: row_id_def)
    with Cons.IH [of "seen @ [row_id cols r]"] rest True show ?thesis
      by auto
  qed (simp split: prod.split)
qed simp

definition clean_threats :: "lint_env \<Rightarrow> string list option \<Rightarrow> bool" where
  "clean_threats E b \<longleftrightarrow> (case b of None \<Rightarrow> True | Some ls \<Rightarrow> (case parse_table ls of
       (None, _) \<Rightarrow> False
     | (Some cols, rs) \<Rightarrow> cols \<in> set THREATS_COLUMN_VARIANTS \<and> (\<forall>r \<in> set rs. length r = length cols \<and> clean_row E (zip cols r))
         \<and> distinct (map (row_id cols) rs)))"

lemma tr_errors_Nil: "tr_errors (lint_threats E b) = [] \<longleftrightarrow> clean_threats E b"
  using lint_rows_Nil [of E _ "[]"]
  by (auto simp: lint_threats_def clean_threats_def no_threats_def split: option.splits prod.splits) force+

text \<open>Boundaries: full rows, ids that differ, and references to threats that exist.\<close>

definition clean_boundary :: "string list \<Rightarrow> lint_row \<Rightarrow> bool" where
  "clean_boundary ids row \<longleftrightarrow> fits BOUNDARY_ID (get row ''boundary_id'')
     \<and> get row ''kind'' \<in> set BOUNDARY_KIND_ENUM \<and> get row ''exposure'' \<in> set BOUNDARY_EXPOSURE_ENUM
     \<and> get row ''complexity'' \<in> set BOUNDARY_COMPLEXITY_ENUM
     \<and> (\<forall>d \<in> set ISOLATION_DIMENSIONS. get row d \<in> set DIMENSION_RESULT_ENUM)
     \<and> set (listed_parts (get row ''threat_ids'')) \<subseteq> set ids
     \<and> (strip (get row ''isolation_review_ref'') = [] \<or> fits ISOLATION_REVIEW_REF (strip (get row ''isolation_review_ref'')))"

definition boundary_id :: "string list \<Rightarrow> string" where
  "boundary_id r = get (zip BOUNDARY_COLUMNS r) ''boundary_id''"

lemma boundary_errors_Nil:
  "fits BOUNDARY_ID (get row ''boundary_id'') \<and> boundary_errors ids row = [] \<longleftrightarrow> clean_boundary ids row"
  by (auto simp: boundary_errors_def clean_boundary_def Let_def enum_errors_Nil ref_errors_Nil)

lemma boundary_rows_Nil:
  "boundary_rows ids seen rs = [] \<longleftrightarrow>
     (\<forall>r \<in> set rs. length r = length BOUNDARY_COLUMNS \<and> clean_boundary ids (zip BOUNDARY_COLUMNS r))
     \<and> distinct (map boundary_id rs) \<and> boundary_id ` set rs \<inter> set seen = {}"
proof (induction rs arbitrary: seen)
  case (Cons r rs)
  show ?case
  proof (cases "length r = length BOUNDARY_COLUMNS")
    case True
    have "boundary_rows ids seen (r # rs) = [] \<longleftrightarrow> boundary_id_errors seen (boundary_id r) = []
        \<and> boundary_errors ids (zip BOUNDARY_COLUMNS r) = [] \<and> boundary_rows ids (seen @ [boundary_id r]) rs = []"
      using True by (simp add: boundary_id_def Let_def)
    moreover have "boundary_id_errors seen (boundary_id r) = [] \<longleftrightarrow> fits BOUNDARY_ID (boundary_id r) \<and> boundary_id r \<notin> set seen"
      by (simp add: boundary_id_errors_def)
    ultimately have "boundary_rows ids seen (r # rs) = [] \<longleftrightarrow> clean_boundary ids (zip BOUNDARY_COLUMNS r)
        \<and> boundary_id r \<notin> set seen \<and> boundary_rows ids (seen @ [boundary_id r]) rs = []"
      using boundary_errors_Nil [of "zip BOUNDARY_COLUMNS r" ids] by (auto simp: boundary_id_def)
    with Cons.IH [of "seen @ [boundary_id r]"] True show ?thesis
      by auto
  qed simp
qed simp

definition clean_boundaries :: "string list \<Rightarrow> string list option \<Rightarrow> bool" where
  "clean_boundaries ids b \<longleftrightarrow> (case b of None \<Rightarrow> True | Some ls \<Rightarrow> (case parse_table ls of
       (None, _) \<Rightarrow> False
     | (Some cols, rs) \<Rightarrow> cols = BOUNDARY_COLUMNS
         \<and> (\<forall>r \<in> set rs. length r = length BOUNDARY_COLUMNS \<and> clean_boundary ids (zip BOUNDARY_COLUMNS r))
         \<and> distinct (map boundary_id rs)))"

lemma lint_boundaries_Nil: "lint_boundaries ids b = [] \<longleftrightarrow> clean_boundaries ids b"
  by (auto simp: lint_boundaries_def clean_boundaries_def boundary_rows_Nil split: option.splits prod.splits)

text \<open>
  Ratings: one table of factors for each rated threat and for no other, every factor once with a score of
  one digit, and the rating recomputed from the factors is the one the row of the threat states.
\<close>

definition factor_row_ok :: "lint_env \<Rightarrow> string list \<Rightarrow> bool" where
  "factor_row_ok E r \<longleftrightarrow> length r = length FACTOR_COLUMNS \<and> r ! 0 \<in> set (all_factors (le_method E))
     \<and> (\<exists>d. r ! 1 = [d] \<and> is_digit d)"

definition factor_score :: "string list \<Rightarrow> string \<times> nat" where
  "factor_score r = (r ! 0, int_of_digits (r ! 1))"

lemma factor_entry_grows: "\<exists>more. fst (fold (factor_entry E tid) rs (es, scores)) = es @ more"
proof (induction rs arbitrary: es scores)
  case (Cons r rs)
  obtain es1 s1 where one: "factor_entry E tid r (es, scores) = (es1, s1)"
    by (cases "factor_entry E tid r (es, scores)")
  have "\<exists>more. es1 = es @ more"
    using one by (auto simp: factor_entry_def Let_def split: if_splits list.splits)
  with Cons.IH [of es1 s1] one show ?case
    by auto
qed simp

lemma factor_entry_clean:
  "fst (factor_entry E tid r ([], scores)) = [] \<longleftrightarrow> factor_row_ok E r \<and> r ! 0 \<notin> fst ` set scores"
  "factor_row_ok E r \<Longrightarrow> r ! 0 \<notin> fst ` set scores \<Longrightarrow> factor_entry E tid r ([], scores) = ([], scores @ [factor_score r])"
proof -
  have absent: "map_of scores n = None \<longleftrightarrow> n \<notin> fst ` set scores" for n
    by (rule map_of_eq_None_iff)
  show "fst (factor_entry E tid r ([], scores)) = [] \<longleftrightarrow> factor_row_ok E r \<and> r ! 0 \<notin> fst ` set scores"
    using absent [of "r ! 0"] unfolding factor_entry_def factor_row_ok_def
    by (cases "r ! 1" rule: remdups_adj.cases) (auto simp: Let_def)
  show "factor_row_ok E r \<Longrightarrow> r ! 0 \<notin> fst ` set scores \<Longrightarrow> factor_entry E tid r ([], scores) = ([], scores @ [factor_score r])"
    using absent [of "r ! 0"] unfolding factor_entry_def factor_row_ok_def by (auto simp: Let_def factor_score_def)
qed

definition factor_rows_ok :: "lint_env \<Rightarrow> string list list \<Rightarrow> (string \<times> nat) list \<Rightarrow> bool" where
  "factor_rows_ok E rs scores \<longleftrightarrow> (\<forall>r \<in> set rs. factor_row_ok E r) \<and> distinct (map (\<lambda>r. r ! 0) rs)
     \<and> (\<lambda>r. r ! 0) ` set rs \<inter> fst ` set scores = {}"

lemma factor_rows_ok_Cons:
  "factor_rows_ok E (r # rs) scores \<longleftrightarrow> factor_row_ok E r \<and> r ! 0 \<notin> fst ` set scores \<and> factor_rows_ok E rs (scores @ [factor_score r])"
  by (auto simp: factor_rows_ok_def factor_score_def)

lemma factor_rows_clean:
  "fst (fold (factor_entry E tid) rs ([], scores)) = [] \<longleftrightarrow> factor_rows_ok E rs scores"
  "factor_rows_ok E rs scores \<Longrightarrow> fold (factor_entry E tid) rs ([], scores) = ([], scores @ map factor_score rs)"
proof (induction rs arbitrary: scores)
  case (Cons r rs)
  have step: "factor_entry E tid r ([], d) = ([], d @ [factor_score r])" if "factor_row_ok E r \<and> r ! 0 \<notin> fst ` set d" for d
    using that by (simp add: factor_entry_clean(2))
  {
    case 1
    show ?case
    proof (cases "factor_row_ok E r \<and> r ! 0 \<notin> fst ` set scores")
      case True
      then have "factor_entry E tid r ([], scores) = ([], scores @ [factor_score r])"
        by (rule step)
      with Cons.IH(1) [of "scores @ [factor_score r]"] True show ?thesis
        by (simp add: factor_rows_ok_Cons)
    next
      case False
      obtain es1 s1 where one: "factor_entry E tid r ([], scores) = (es1, s1)"
        by (cases "factor_entry E tid r ([], scores)")
      with False factor_entry_clean(1) [of E tid r scores] have "es1 \<noteq> []"
        by auto
      with one factor_entry_grows [of E tid rs es1 s1] False show ?thesis
        by (auto simp: factor_rows_ok_Cons)
    qed
  next
    case 2
    then have "factor_entry E tid r ([], scores) = ([], scores @ [factor_score r])"
      by (intro step) (simp add: factor_rows_ok_Cons)
    with Cons.IH(2) [of "scores @ [factor_score r]"] 2 show ?case
      by (simp add: factor_rows_ok_Cons)
  }
qed (simp_all add: factor_rows_ok_def)

definition reproduced :: "lint_env \<Rightarrow> string \<Rightarrow> string \<Rightarrow> string list \<Rightarrow> lint_row \<Rightarrow> bool" where
  "reproduced E tid heading sub row \<longleftrightarrow> (\<exists>rows. parse_table sub = (Some FACTOR_COLUMNS, rows)
     \<and> (\<forall>r \<in> set rows. factor_row_ok E r) \<and> distinct (map (\<lambda>r. r ! 0) rows)
     \<and> (let stated = parse_row (le_method E) (table_row_of row) in pw_source stated = Some ''owasp'' \<longrightarrow>
         (\<exists>r. rating_from_factors (le_method E) (map factor_score rows) (or_str (pw_basis stated) []) = (Some r, [])
            \<and> pw_severity (computed_row E r) = pw_severity stated
            \<and> pw_likelihood (computed_row E r) = pw_likelihood stated \<and> pw_impact (computed_row E r) = pw_impact stated
            \<and> pw_likelihood_score (computed_row E r) = pw_likelihood_score stated
            \<and> pw_impact_score (computed_row E r) = pw_impact_score stated
            \<and> heading_errors E tid heading r = [])))"

lemma rating_result: "rating_from_factors M scores basis = (rating, problems) \<Longrightarrow> problems = [] \<longleftrightarrow> rating \<noteq> None"
  by (auto simp: rating_from_factors_def Let_def split: if_splits sum.splits)

lemma differing_Nil:
  "differing c s = [] \<longleftrightarrow> pw_severity c = pw_severity s \<and> pw_likelihood c = pw_likelihood s \<and> pw_impact c = pw_impact s
     \<and> pw_likelihood_score c = pw_likelihood_score s \<and> pw_impact_score c = pw_impact_score s"
  by (simp add: differing_def)

lemma lint_factors_Nil: "lint_factors E tid heading sub row = [] \<longleftrightarrow> reproduced E tid heading sub row"
proof -
  obtain cols rows where table: "parse_table sub = (cols, rows)"
    by (cases "parse_table sub")
  obtain es scores where fold: "fold (factor_entry E tid) rows ([], []) = (es, scores)"
    by (cases "fold (factor_entry E tid) rows ([], [])")
  let ?stated = "parse_row (le_method E) (table_row_of row)"
  obtain rating problems where rating: "rating_from_factors (le_method E) scores (or_str (pw_basis ?stated) []) = (rating, problems)"
    by (cases "rating_from_factors (le_method E) scores (or_str (pw_basis ?stated) [])")
  let ?clean = "(\<forall>r \<in> set rows. factor_row_ok E r) \<and> distinct (map (\<lambda>r. r ! 0) rows)"
  have es: "es = [] \<longleftrightarrow> ?clean" and scores: "?clean \<Longrightarrow> scores = map factor_score rows"
    using factor_rows_clean [where E = E and tid = tid and rs = rows and scores = "[]"] fold by (auto simp: factor_rows_ok_def)
  have "lint_factors E tid heading sub row = [] \<longleftrightarrow> cols = Some FACTOR_COLUMNS \<and> ?clean
      \<and> (pw_source ?stated = Some ''owasp'' \<longrightarrow> (\<exists>r. rating = Some r \<and> problems = [] \<and> differing (computed_row E r) ?stated = []
           \<and> heading_errors E tid heading r = []))"
    using es rating_result [OF rating] by (auto simp: lint_factors_def table fold rating Let_def split: option.split)
  also have "\<dots> \<longleftrightarrow> reproduced E tid heading sub row"
    using scores rating by (auto simp: reproduced_def table differing_Nil Let_def)
  finally show ?thesis .
qed

definition subsection_ok :: "lint_env \<Rightarrow> (string \<times> lint_row) list \<Rightarrow> string list \<Rightarrow> string option \<times> string \<times> string list \<Rightarrow> bool" where
  "subsection_ok E rated ids p \<longleftrightarrow> (case p of (tid, heading, sub) \<Rightarrow> (case tid of None \<Rightarrow> False | Some t \<Rightarrow>
     t \<in> set ids \<and> (case map_of rated t of None \<Rightarrow> False | Some row \<Rightarrow> reproduced E t heading sub row)))"

lemma lint_ratings_from_Nil:
  "fst (lint_ratings_from E rated ids seen subs) = [] \<longleftrightarrow>
     (\<forall>p \<in> set subs. subsection_ok E rated ids p) \<and> distinct (map fst subs) \<and> fst ` set subs \<inter> Some ` set seen = {}"
  "Some ` set (snd (lint_ratings_from E rated ids seen subs)) = Some ` set seen \<union> (fst ` set subs - {None})"
proof (induction subs arbitrary: seen)
  case (Cons p subs)
  obtain tid heading sub where p: "p = (tid, heading, sub)"
    by (cases p)
  {
    case 1
    show ?case
    proof (cases tid)
      case None
      then show ?thesis
        by (simp add: p subsection_ok_def split: prod.split)
    next
      case (Some t)
      let ?row = "if t \<notin> set ids then [Unknown_threat 11 [] t]
          else (case map_of rated t of None \<Rightarrow> [Unrated_threat t] | Some row \<Rightarrow> lint_factors E t heading sub row)"
      have row: "?row = [] \<longleftrightarrow> subsection_ok E rated ids p"
        using Some by (auto simp: p subsection_ok_def lint_factors_Nil split: option.splits)
      obtain es se where rest: "lint_ratings_from E rated ids (seen @ [t]) subs = (es, se)"
        by (cases "lint_ratings_from E rated ids (seen @ [t]) subs")
      have "fst (lint_ratings_from E rated ids seen (p # subs)) = [] \<longleftrightarrow> t \<notin> set seen \<and> ?row = [] \<and> es = []"
        using Some rest by (simp add: p split: prod.split)
      with row Cons.IH(1) [of "seen @ [t]"] rest Some show ?thesis
        by (auto simp: p)
    qed
  next
    case 2
    show ?case
    proof (cases tid)
      case None
      have "fst ` set (p # subs) - {None} = fst ` set subs - {None}"
        using None by (auto simp: p)
      with Cons.IH(2) [of seen] None show ?thesis
        by (cases "lint_ratings_from E rated ids seen subs") (simp add: p)
    next
      case (Some t)
      have "fst ` set (p # subs) - {None} = insert (Some t) (fst ` set subs - {None})"
        using Some by (auto simp: p)
      moreover have "Some ` set seen \<union> insert (Some t) A = insert (Some t) (Some ` set seen) \<union> A" for A
        by blast
      moreover have "t \<in> set seen \<Longrightarrow> insert (Some t) (Some ` set seen) = Some ` set seen"
        by blast
      moreover have "snd (lint_ratings_from E rated ids seen (p # subs)) =
          snd (lint_ratings_from E rated ids (if t \<in> set seen then seen else seen @ [t]) subs)"
        using Some by (simp add: p split: prod.split)
      ultimately show ?thesis
        using Cons.IH(2) [of seen] Cons.IH(2) [of "seen @ [t]"] by (cases "t \<in> set seen") simp_all
    qed
  }
qed auto

lemma sort_Nil: "sort xs = [] \<longleftrightarrow> xs = []"
  by (metis set_empty set_sort)

definition clean_ratings :: "lint_env \<Rightarrow> string list option \<Rightarrow> (string \<times> lint_row) list \<Rightarrow> string list \<Rightarrow> bool" where
  "clean_ratings E b rated ids \<longleftrightarrow> (case b of None \<Rightarrow> rated = [] | Some ls \<Rightarrow>
     (\<forall>p \<in> set (rating_subsections ls). subsection_ok E rated ids p)
     \<and> distinct (map fst (rating_subsections ls))
     \<and> fst ` set (rating_subsections ls) = Some ` fst ` set rated)"

lemma lint_ratings_Nil: "lint_ratings E b rated ids = [] \<longleftrightarrow> clean_ratings E b rated ids"
proof (cases b)
  case (Some ls)
  let ?subs = "rating_subsections ls"
  obtain es seen where run: "lint_ratings_from E rated ids [] ?subs = (es, seen)"
    by (cases "lint_ratings_from E rated ids [] ?subs")
  have seen: "Some ` set seen = fst ` set ?subs - {None}"
    using lint_ratings_from_Nil(2) [of E rated ids "[]" ?subs] run by simp
  have "lint_ratings E b rated ids = [] \<longleftrightarrow> es = [] \<and> fst ` set rated \<subseteq> set seen"
    using run by (auto simp: Some lint_ratings_def lint_risk_ratings_def sort_Nil filter_empty_conv)
  also have "fst ` set rated \<subseteq> set seen \<longleftrightarrow> Some ` fst ` set rated \<subseteq> fst ` set ?subs"
    using seen by blast
  also have "es = [] \<longleftrightarrow> (\<forall>p \<in> set ?subs. subsection_ok E rated ids p) \<and> distinct (map fst ?subs)"
    using lint_ratings_from_Nil(1) [of E rated ids "[]" ?subs] run by simp
  finally have split: "lint_ratings E b rated ids = [] \<longleftrightarrow> ((\<forall>p \<in> set ?subs. subsection_ok E rated ids p) \<and> distinct (map fst ?subs))
      \<and> Some ` fst ` set rated \<subseteq> fst ` set ?subs" .
  have each: "fst p \<in> Some ` fst ` set rated" if "subsection_ok E rated ids p" for p
    using that by (auto simp: subsection_ok_def image_iff split: prod.splits option.splits dest!: map_of_SomeD)
      (metis fst_conv)
  then have "fst ` set ?subs \<subseteq> Some ` fst ` set rated" if "\<forall>p \<in> set ?subs. subsection_ok E rated ids p"
    using that by (intro image_subsetI) blast
  then show ?thesis
    unfolding split by (simp only: Some clean_ratings_def option.case set_eq_subset) blast
qed (auto simp: lint_ratings_def clean_ratings_def)

text \<open>The other sections: a known head, full rows, known words and references to threats that exist.\<close>

definition clean_assets :: "string list option \<Rightarrow> bool" where
  "clean_assets b \<longleftrightarrow> (case b of None \<Rightarrow> True | Some ls \<Rightarrow> (case parse_table ls of
       (None, _) \<Rightarrow> False
     | (Some cols, rows) \<Rightarrow> take 3 cols = ASSETS_COLUMNS \<and> (\<forall>r \<in> set rows. 3 \<le> length r \<and> r ! 2 \<in> set SENSITIVITY_ENUM)))"

definition surfaces_known :: "lint_env \<Rightarrow> nat \<Rightarrow> string list list \<Rightarrow> bool" where
  "surfaces_known E n rows \<longleftrightarrow> (\<forall>r \<in> set (named_rows rows). length r = n \<longrightarrow> set (listed_parts (last r)) \<subseteq> set (le_surfaces E))"

definition clean_entries :: "lint_env \<Rightarrow> string list option \<Rightarrow> bool" where
  "clean_entries E b \<longleftrightarrow> (case b of None \<Rightarrow> True | Some ls \<Rightarrow> (case parse_table ls of
       (None, _) \<Rightarrow> False
     | (Some cols, rows) \<Rightarrow> cols = ENTRY_COLUMNS \<or> cols = ENTRY_COLUMNS_SURFACES \<and> surfaces_known E (length cols) rows))"

definition clean_parked :: "lint_env \<Rightarrow> string list option \<Rightarrow> bool" where
  "clean_parked E b \<longleftrightarrow> (case b of None \<Rightarrow> True | Some ls \<Rightarrow> (case parse_table ls of
       (None, _) \<Rightarrow> True
     | (Some cols, rows) \<Rightarrow> cols = DEPRI_COLUMNS \<or> cols = DEPRI_COLUMNS_SURFACES \<and> surfaces_known E (length cols) rows))"

definition clean_provenance :: "string list option \<Rightarrow> string list option \<Rightarrow> bool" where
  "clean_provenance b cols \<longleftrightarrow> (case b of None \<Rightarrow> True | Some ls \<Rightarrow>
     (let prov = parse_provenance ls in
      {''mode'', ''date'', ''target'', ''inputs'', ''owner''} \<subseteq> fst ` set prov
      \<and> (get prov ''mode'' = [] \<or> get prov ''mode'' \<in> set MODE_ENUM)
      \<and> (get prov ''date'' = [] \<or> fits LINT_DATE_RX (get prov ''date''))
      \<and> (cols = Some THREATS_COLUMNS \<longrightarrow> (case emission_version (get prov ''harness_version'') of
            None \<Rightarrow> True | Some v \<Rightarrow> \<not> version_ge v ATTACK_REFS_SINCE))
      \<and> (case parse_table ls of (None, _) \<Rightarrow> True
         | (Some cs, rows) \<Rightarrow> cs = UPDATE_HISTORY_COLUMNS \<and> (\<forall>r \<in> set (named_rows rows). fits LINT_DATE_RX (hd r)))))"

definition clean_mitigations :: "string list \<Rightarrow> string list option \<Rightarrow> bool" where
  "clean_mitigations ids b \<longleftrightarrow> (case b of None \<Rightarrow> True | Some ls \<Rightarrow> (case parse_table ls of
       (None, _) \<Rightarrow> True
     | (Some cols, rows) \<Rightarrow> cols = MITIG_COLUMNS \<and> (\<forall>r \<in> set rows. length r = 4 \<and> set (listed_parts (r ! 1)) \<subseteq> set ids
         \<and> r ! 2 \<in> set CLOSES_CLASS_ENUM \<and> r ! 3 \<in> set EFFORT_ENUM)))"

definition clean_scenarios :: "string list \<Rightarrow> string list option \<Rightarrow> bool" where
  "clean_scenarios ids b \<longleftrightarrow> (case b of None \<Rightarrow> True | Some ls \<Rightarrow>
     (\<exists>l \<in> set ls. t_heading l \<noteq> None)
     \<and> (\<forall>l \<in> set ls. case t_heading l of None \<Rightarrow> \<not> startswith l ''### '' | Some t \<Rightarrow> t \<in> set ids))"

definition clean_model :: "lint_env \<Rightarrow> string \<Rightarrow> bool" where
  "clean_model E text \<longleftrightarrow>
     (let secs = parse_sections text; threats = lint_threats E (section_body secs ''4. Threats''); ids = threat_ids threats in
      fits TITLE_RX (case split_lines text of [] \<Rightarrow> [] | l # _ \<Rightarrow> l)
      \<and> take 7 (numbered secs) = REQUIRED_SECTIONS
      \<and> clean_assets (section_body secs ''2. Assets'')
      \<and> clean_entries E (section_body secs ''3. Entry points & trust boundaries'')
      \<and> clean_threats E (section_body secs ''4. Threats'')
      \<and> clean_parked E (section_body secs ''5. Deprioritized'')
      \<and> (\<forall>ep \<in> set (snd (lint_entries E (section_body secs ''3. Entry points & trust boundaries''))).
           entry_covered threats (section_body secs ''5. Deprioritized'') ep)
      \<and> clean_provenance (section_body secs ''7. Provenance'') (tr_columns threats)
      \<and> clean_mitigations ids (section_body secs ''8. Recommended mitigations'')
      \<and> clean_scenarios ids (section_body secs ''9. Attack scenarios'')
      \<and> clean_boundaries ids (section_body secs ''10. Tenant boundaries'')
      \<and> clean_ratings E (section_body secs ''11. Risk ratings'') (rated_rows threats) ids)"

lemma concat_map_Nil: "concat (map f xs) = [] \<longleftrightarrow> (\<forall>x \<in> set xs. f x = [])"
  by auto

lemma lint_assets_Nil: "fst (lint_assets b) = [] \<longleftrightarrow> clean_assets b"
  by (auto simp: lint_assets_def clean_assets_def enum_errors_Nil concat_map_Nil not_less simp del: concat_eq_Nil_conv
      split: option.splits prod.splits if_splits)

lemma surfaces_Nil:
  "concat (map (\<lambda>r. if length r = n then surface_errors E (hd r) (last r) else []) (named_rows rows)) = [] \<longleftrightarrow> surfaces_known E n rows"
  by (auto simp: surfaces_known_def surface_errors_Nil concat_map_Nil simp del: concat_eq_Nil_conv)

lemma lint_entries_Nil: "fst (lint_entries E b) = [] \<longleftrightarrow> clean_entries E b"
proof -
  have ne: "ENTRY_COLUMNS \<noteq> ENTRY_COLUMNS_SURFACES"
    by (simp add: ENTRY_COLUMNS_SURFACES_def)
  show ?thesis
  proof (cases b)
    case (Some ls)
    obtain cols rows where table: "parse_table ls = (cols, rows)"
      by (cases "parse_table ls")
    show ?thesis
    proof (cases cols)
      case (Some cs)
      have "fst (lint_entries E b) = [] \<longleftrightarrow> (cs = ENTRY_COLUMNS \<or> cs = ENTRY_COLUMNS_SURFACES)
          \<and> (cs = ENTRY_COLUMNS_SURFACES \<longrightarrow> surfaces_known E (length ENTRY_COLUMNS_SURFACES) rows)"
        using surfaces_Nil [of "length ENTRY_COLUMNS_SURFACES" E rows]
        by (auto simp: lint_entries_def \<open>b = Some ls\<close> table Some)
      then show ?thesis
        using ne by (auto simp: clean_entries_def \<open>b = Some ls\<close> table Some)
    qed (simp add: lint_entries_def clean_entries_def \<open>b = Some ls\<close> table)
  qed (simp add: lint_entries_def clean_entries_def)
qed

lemma lint_parked_Nil: "lint_parked E b = [] \<longleftrightarrow> clean_parked E b"
proof -
  have "DEPRI_COLUMNS \<noteq> DEPRI_COLUMNS_SURFACES"
    by (simp add: DEPRI_COLUMNS_SURFACES_def)
  then show ?thesis
    using surfaces_Nil by (auto simp: lint_parked_def clean_parked_def simp del: concat_eq_Nil_conv split: option.split prod.split)
qed

lemma lint_provenance_Nil: "fst (lint_provenance b cols) = [] \<longleftrightarrow> clean_provenance b cols"
proof (cases b)
  case (Some ls)
  let ?prov = "parse_provenance ls"
  have keys: "map No_bullet (filter (\<lambda>k. map_of prov k = None) ks) = [] \<longleftrightarrow> set ks \<subseteq> fst ` set prov" for prov :: "(string \<times> string) list" and ks
    by (auto simp: filter_empty_conv map_of_eq_None_iff)
  have version: "(case emission_version v of Some v \<Rightarrow> if version_ge v ATTACK_REFS_SINCE \<and> cols = Some THREATS_COLUMNS then [Attack_column_missing] else []
        | None \<Rightarrow> []) = [] \<longleftrightarrow> (cols = Some THREATS_COLUMNS \<longrightarrow> (case emission_version v of
            None \<Rightarrow> True | Some v \<Rightarrow> \<not> version_ge v ATTACK_REFS_SINCE))" for v
    by (auto split: option.split)
  have history: "(case parse_table ls of (None, _) \<Rightarrow> []
        | (Some cs, rows) \<Rightarrow> (if cs \<noteq> UPDATE_HISTORY_COLUMNS then [Columns 7 cs] else [])
            @ map (\<lambda>r. Bad_date (hd r)) (filter (\<lambda>r. \<not> fits LINT_DATE_RX (hd r)) (named_rows rows))) = [] \<longleftrightarrow>
      (case parse_table ls of (None, _) \<Rightarrow> True
         | (Some cs, rows) \<Rightarrow> cs = UPDATE_HISTORY_COLUMNS \<and> (\<forall>r \<in> set (named_rows rows). fits LINT_DATE_RX (hd r)))"
    by (auto simp: filter_empty_conv split: option.split prod.split)
  have one: "(if P then [x] else []) = [] \<longleftrightarrow> \<not> P" for P and x :: lint_problem
    by simp
  show ?thesis
    unfolding Some lint_provenance_def clean_provenance_def Let_def option.case fst_conv append_is_Nil_conv keys version history one
    by (simp add: insert_commute)
qed (simp add: lint_provenance_def clean_provenance_def)

lemma lint_mitigations_Nil: "fst (lint_mitigations strict ids b) = [] \<longleftrightarrow> clean_mitigations ids b"
  by (auto simp: lint_mitigations_def clean_mitigations_def enum_errors_Nil ref_errors_Nil concat_map_Nil simp del: concat_eq_Nil_conv
      split: option.splits prod.splits if_splits)

lemma lint_scenarios_Nil: "fst (lint_scenarios ids b) = [] \<longleftrightarrow> clean_scenarios ids b"
proof (cases b)
  case (Some ls)
  have "List.map_filter t_heading ls = [] \<longleftrightarrow> (\<forall>l \<in> set ls. t_heading l = None)"
    by (rule map_filter_Nil)
  then show ?thesis
    by (auto simp: Some lint_scenarios_def clean_scenarios_def Let_def filter_empty_conv in_map_filter split: option.splits)
qed (simp add: lint_scenarios_def clean_scenarios_def)


text \<open>An entry point counts as named when its letters occur anywhere in a surface, even inside another word.\<close>

lemma substring_covers:
  "entry_covered \<lparr>tr_errors = [], tr_warnings = [], tr_columns = None, tr_rows = [[(''surface'', ''rapid import'')]]\<rparr> None ''API''"
  by code_simp

text \<open>The head of the table of parked threats parks an entry point of that name.\<close>

lemma table_head_parks: "entry_covered no_threats (Some [tm_line DEPRI_COLUMNS]) ''reason''"
  by code_simp

end
