(* ===== verification/Threat_Render.thy ===== *)
theory Threat_Render
  imports Threat_Lint
begin

text \<open>
  The Markdown view of a threat model (\<open>reporting/render.py\<close>, its threat models) and the ingest of such a view
  (\<open>corpus/threat_model.py\<close>). A document passed its schema; its rows are dictionaries of texts and
  lists of texts. The source of the method and the dash of a heading are arguments.
\<close>

section \<open>The document\<close>

record tm_threat =
  tt_fields :: tm_row
  tt_rating :: "risk_rating option"

record tm_scenario =
  sn_id :: string
  sn_threat :: "string option"
  sn_steps :: "string list"

record tm_doc =
  td_system :: string
  td_context :: "string option"
  td_assets :: "tm_row list"
  td_entries :: "tm_row list"
  td_threats :: "tm_threat list"
  td_parked :: "tm_row list"
  td_questions :: "string list"
  td_provenance :: "(string \<times> string) list"
  td_history :: "tm_row list"
  td_mitigations :: "tm_row list"
  td_scenarios :: "tm_scenario list"
  td_boundaries :: "tm_row list"

definition THREAT_PROVENANCE_FIELDS :: "string list" where
  "THREAT_PROVENANCE_FIELDS = [''mode'', ''date'', ''target'', ''inputs'', ''owner'', ''harness_version'']"

definition THREAT_COLUMNS :: "string list" where
  "THREAT_COLUMNS = [''id'', ''threat'', ''actor'', ''surface'', ''asset'', ''impact'', ''likelihood'', ''status'', ''controls'', ''evidence'',
     ''attack_refs'']"

definition THREAT_COLUMNS_OWASP :: "string list" where
  "THREAT_COLUMNS_OWASP = [''id'', ''threat'', ''actor'', ''surface'', ''asset'', ''severity'', ''likelihood'', ''impact'', ''status'',
     ''controls'', ''evidence'', ''attack_refs'']"

section \<open>Rendering\<close>

definition value_true :: "tm_value \<Rightarrow> bool" where
  "value_true v \<longleftrightarrow> (case v of Absent \<Rightarrow> False | Text s \<Rightarrow> s \<noteq> [] | Items xs \<Rightarrow> xs \<noteq> [])"

definition optional_column :: "string \<Rightarrow> tm_row list \<Rightarrow> string list" where
  "optional_column c rows = (if list_ex (\<lambda>r. value_true (tm_field c r)) rows then [c] else [])"

definition text_field :: "string \<Rightarrow> tm_row \<Rightarrow> string option" where
  "text_field c r = (case tm_field c r of Text s \<Rightarrow> Some s | _ \<Rightarrow> None)"

definition threat_of :: "tm_threat \<Rightarrow> threat" where
  "threat_of t = \<lparr>th_rating = tt_rating t, th_impact = text_field ''impact'' (tt_fields t),
     th_likelihood = text_field ''likelihood'' (tt_fields t)\<rparr>"

text \<open>\<open>{**t, **cells}\<close>: the cells come before the fields of the same name.\<close>

definition with_cells :: "tm_threat \<Rightarrow> tm_row" where
  "with_cells t = (let c = threat_cells (threat_of t) in
     [(''severity'', Text (rc_severity c)), (''likelihood'', Text (rc_likelihood c)), (''impact'', Text (rc_impact c))] @ tt_fields t)"

definition rated_doc :: "tm_doc \<Rightarrow> bool" where
  "rated_doc D \<longleftrightarrow> list_ex (\<lambda>t. tt_rating t \<noteq> None) (td_threats D)"

definition threat_table_rows :: "tm_doc \<Rightarrow> tm_row list" where
  "threat_table_rows D = map (if rated_doc D then with_cells else tt_fields) (td_threats D)"

definition threat_columns :: "tm_doc \<Rightarrow> string list" where
  "threat_columns D = (if rated_doc D then THREAT_COLUMNS_OWASP else THREAT_COLUMNS)
     @ optional_column ''isolation_dimensions'' (threat_table_rows D) @ optional_column ''review_surfaces'' (threat_table_rows D)"

definition asset_columns :: "tm_doc \<Rightarrow> string list" where
  "asset_columns D = ASSETS_COLUMNS @ optional_column ''regulatory_scope'' (td_assets D) @ optional_column ''example_records'' (td_assets D)"

definition provenance_lines :: "(string \<times> string) list \<Rightarrow> string list" where
  "provenance_lines prov = concat (map (\<lambda>f. let v = get prov f in
     if v \<noteq> [] then [''- '' @ f @ '': '' @ v]
     else if f \<in> {''inputs'', ''owner''} then [''- '' @ f @ '': unset''] else []) THREAT_PROVENANCE_FIELDS)"

record render_env =
  rv_method :: risk_method
  rv_dash :: char
  rv_source :: string

definition dashed :: "render_env \<Rightarrow> string \<Rightarrow> string" where
  "dashed V s = '' '' @ [rv_dash V] @ '' '' @ s"

definition scenario_lines :: "render_env \<Rightarrow> tm_scenario \<Rightarrow> string list" where
  "scenario_lines V n =
     [''### '' @ sn_id n @ (if truthy (sn_threat n) then dashed V (the (sn_threat n)) else []), []]
     @ concat (map (\<lambda>step. [step, []]) (sn_steps n))"

definition factor_table_row :: "string \<times> string \<times> string \<Rightarrow> tm_row" where
  "factor_table_row f = (case f of (name, score, reason) \<Rightarrow> [(''factor'', Text name), (''score'', Text score), (''reason'', Text reason)])"

definition rating_lines :: "render_env \<Rightarrow> tm_threat \<Rightarrow> string list" where
  "rating_lines V t = (case tt_rating t of None \<Rightarrow> [] | Some r \<Rightarrow>
     [''### '' @ (case text_field ''id'' (tt_fields t) of None \<Rightarrow> [] | Some i \<Rightarrow> i) @ dashed V (ra_severity r), []]
     @ tm_table FACTOR_COLUMNS (map factor_table_row (factor_rows (rv_method V) r)) @ [[]])"

definition lines_before :: "tm_doc \<Rightarrow> string list" where
  "lines_before D =
     [''# Threat Model: '' @ td_system D, []]
     @ [''## 1. System context'', [], or_str (td_context D) ''_not recorded_'', []]
     @ [''## 2. Assets'', []] @ tm_table (asset_columns D) (td_assets D) @ [[]]
     @ [''## 3. Entry points & trust boundaries'', []]
     @ tm_table (ENTRY_COLUMNS @ optional_column ''review_surfaces'' (td_entries D)) (td_entries D) @ [[]]"

definition threat_lines :: "tm_doc \<Rightarrow> string list" where
  "threat_lines D = [] # tm_table (threat_columns D) (threat_table_rows D) @ [[]]"

definition lines_after :: "render_env \<Rightarrow> tm_doc \<Rightarrow> string list" where
  "lines_after V D =
     [] # tm_table (DEPRI_COLUMNS @ optional_column ''review_surfaces'' (td_parked D)) (td_parked D) @ [[]]
     @ [''## 6. Open questions'', []] @ (if td_questions D = [] then [''_none_''] else map (\<lambda>q. ''- '' @ q) (td_questions D)) @ [[]]
     @ [''## 7. Provenance'', []] @ provenance_lines (td_provenance D) @ [[]]
     @ (if td_history D = [] then [] else [''### Update history'', []] @ tm_table UPDATE_HISTORY_COLUMNS (td_history D) @ [[]])
     @ (if td_mitigations D = [] then [] else [''## 8. Recommended mitigations'', []] @ tm_table MITIG_COLUMNS (td_mitigations D) @ [[]])
     @ (if td_scenarios D = [] then [] else [''## 9. Attack scenarios'', []] @ concat (map (scenario_lines V) (td_scenarios D)))
     @ (if td_boundaries D = [] then [] else [''## 10. Tenant boundaries'', []] @ tm_table BOUNDARY_COLUMNS (td_boundaries D) @ [[]])
     @ (if \<not> rated_doc D then [] else [''## 11. Risk ratings'', [],
          ''Rated with the [OWASP Risk Rating Methodology]('' @ rv_source V @ '') (OWASP Foundation). '' @
          ''Each factor is scored 0-9; likelihood and impact are the means of their factors.'', []]
          @ concat (map (rating_lines V) (td_threats D)))"

definition render_threat_model :: "render_env \<Rightarrow> tm_doc \<Rightarrow> string" where
  "render_threat_model V D =
     rstrip_with is_space (join [CHR 0x0A] (lines_before D @ [''## 4. Threats''] @ threat_lines D @ [''## 5. Deprioritized''] @ lines_after V D))
     @ [CHR 0x0A]"

section \<open>Ingesting\<close>

record ingested =
  ig_key :: string
  ig_id :: string
  ig_model :: string
  ig_product :: string
  ig_threat :: string
  ig_actors :: "string list"
  ig_surface :: string
  ig_asset :: string
  ig_severity :: "string option"
  ig_source :: "string option"
  ig_impact :: string
  ig_likelihood :: string
  ig_scores :: "nat option \<times> nat option \<times> string option"
  ig_status :: string
  ig_controls :: string
  ig_evidence :: "string list"
  ig_linddun :: bool
  ig_subject :: "string option"
  ig_attack_refs :: "string list"
  ig_dimensions :: "string list"
  ig_surfaces :: "string list"

definition ingest_row :: "risk_method \<Rightarrow> string \<Rightarrow> string \<Rightarrow> string \<Rightarrow> string option \<Rightarrow> lint_row \<Rightarrow> ingested" where
  "ingest_row M relative product slug subject row =
     (let rating = parse_row M (table_row_of row) in
      \<lparr>ig_key = product @ ''/'' @ slug @ '':'' @ get row ''id'', ig_id = get row ''id'', ig_model = relative, ig_product = product,
       ig_threat = get row ''threat'', ig_actors = listed_parts (get row ''actor''), ig_surface = get row ''surface'', ig_asset = get row ''asset'',
       ig_severity = pw_severity rating, ig_source = pw_source rating, ig_impact = pw_impact rating, ig_likelihood = pw_likelihood rating,
       ig_scores = (pw_likelihood_score rating, pw_impact_score rating, pw_basis rating),
       ig_status = get row ''status'', ig_controls = get row ''controls'', ig_evidence = listed_parts (get row ''evidence''),
       ig_linddun = startswith (lower (get row ''threat'')) ''linddun:'',
       ig_subject = (if truthy subject then subject else None),
       ig_attack_refs = listed_parts (get row ''attack_refs''), ig_dimensions = listed_parts (get row ''isolation_dimensions''),
       ig_surfaces = listed_parts (get row ''review_surfaces'')\<rparr>)"

text \<open>Where a model lies: its path below the root, at least a directory and a file.\<close>

definition ingest_place :: "string list \<Rightarrow> string \<times> string \<times> string" where
  "ingest_place parts = (join ''/'' parts, if length parts > 2 then parts ! 1 else parts ! 0, parts ! (length parts - 2))"

definition threat_section :: "string \<Rightarrow> string list" where
  "threat_section text = (case map_of (rev (parse_sections text)) ''4. Threats'' of None \<Rightarrow> [] | Some ls \<Rightarrow> ls)"

definition parse_threats :: "risk_method \<Rightarrow> string list \<Rightarrow> string option \<Rightarrow> string option \<Rightarrow> ingested list option" where
  "parse_threats M parts subject file = (case file of None \<Rightarrow> None | Some text \<Rightarrow>
     (case parse_table (threat_section text) of
        (None, _) \<Rightarrow> None
      | (Some columns, rows) \<Rightarrow>
          if columns \<notin> set THREATS_COLUMN_VARIANTS then None
          else (case ingest_place parts of (relative, product, slug) \<Rightarrow>
            let threats = map (\<lambda>r. ingest_row M relative product slug subject (zip columns r)) (filter (\<lambda>r. length r = length columns) rows)
            in if threats = [] then None else Some threats)))"

section \<open>The section of the threats\<close>

lemma join_append: "xs \<noteq> [] \<Longrightarrow> ys \<noteq> [] \<Longrightarrow> join sep (xs @ ys) = join sep xs @ sep @ join sep ys"
  by (induction xs rule: induct_list012) (auto simp: neq_Nil_conv)

lemma join_set: "l \<in> set ls \<Longrightarrow> set l \<subseteq> set (join sep ls)"
  by (induction ls rule: induct_list012) auto

lemma rstrip_append:
  assumes "u \<noteq> []" "\<not> p (last u)"
  shows "rstrip_with p (u @ w) = u @ rstrip_with p w"
proof -
  have u: "dropWhile p (rev u) = rev u"
    using assms by (simp add: dropWhile_eq_self_iff hd_rev)
  show ?thesis
  proof (cases "\<forall>x \<in> set w. p x")
    case True
    then have "dropWhile p (rev w) = []" "dropWhile p (rev w @ rev u) = dropWhile p (rev u)"
      using dropWhile_append2 [of "rev w" p "rev u"] by simp_all
    with u show ?thesis
      by (simp add: rstrip_with_def)
  next
    case False
    then show ?thesis
      by (auto simp: rstrip_with_def dropWhile_append1)
  qed
qed

definition unbroken :: "string \<Rightarrow> bool" where
  "unbroken l \<longleftrightarrow> list_all (\<lambda>c. \<not> is_break c) l"

lemma split_unbroken:
  "list_all unbroken ls \<Longrightarrow> ls \<noteq> [] \<Longrightarrow> split_lines (join [CHR 0x0A] ls @ CHR 0x0A # rest) = ls @ split_lines rest"
proof (induction ls rule: induct_list012)
  case (2 l)
  then show ?case
    using split_lines_append [of "l @ [CHR 0x0A]" rest] split_lines_line [of l] by (simp add: unbroken_def)
next
  case (3 l k ls)
  then show ?case
    using split_lines_append [of "l @ [CHR 0x0A]" "join [CHR 0x0A] (k # ls) @ CHR 0x0A # rest"] split_lines_line [of l]
    by (simp add: unbroken_def)
qed simp

lemma sections_after: "\<exists>S. sections_of (pre @ l # ls) = S @ sections_of (l # ls)"
  by (induction pre) (auto simp del: sections_of.simps(2) simp: sections_of.simps(2) [of p for p] split: option.split intro: exI [of _ "[]"])

lemma sections_skip: "\<forall>l \<in> set ls. heading_of l = None \<Longrightarrow> sections_of (ls @ ks) = sections_of ks"
  by (induction ls) auto

lemma sections_keys: "k \<in> fst ` set (sections_of ls) \<Longrightarrow> \<exists>l \<in> set ls. heading_of l = Some k"
  by (induction ls) (auto split: option.splits)

lemma last_of_key: "k \<notin> fst ` set R \<Longrightarrow> map_of (rev (S @ (k, v) # R)) k = Some v"
  by (force simp: map_add_def split: option.split dest!: map_of_SomeD)

text \<open>The rest of the text after the heading of section 5, as it is rendered.\<close>

definition tail_lines :: "render_env \<Rightarrow> tm_doc \<Rightarrow> string list" where
  "tail_lines V D = split_lines (rstrip_with is_space (join [CHR 0x0A] (lines_after V D)) @ [CHR 0x0A])"

lemma rendered_section:
  assumes lines: "list_all unbroken (threat_lines D)" "\<forall>l \<in> set (threat_lines D). heading_of l = None"
    and tail: "\<forall>l \<in> set (tail_lines V D). heading_of l \<noteq> Some ''4. Threats''"
  shows "threat_section (render_threat_model V D) = threat_lines D"
proof -
  let ?nl = "[CHR 0x0A]"
  let ?four = "''## 4. Threats''" and ?five = "''## 5. Deprioritized''"
  let ?A = "lines_before D" and ?B = "lines_after V D"
  let ?mid = "?four # threat_lines D @ [?five]"
  have ne: "?A \<noteq> []" "?B \<noteq> []" "threat_lines D \<noteq> []"
    by (simp_all add: lines_before_def lines_after_def threat_lines_def)
  have facts: "unbroken ?four" "unbroken ?five" "heading_of ?four = Some ''4. Threats''" "heading_of ?five = Some ''5. Deprioritized''"
    "is_space CHR 0x0A"
    by code_simp+
  define u where "u = join ?nl ?A @ ?nl @ join ?nl ?mid"
  have last: "u \<noteq> []" "\<not> is_space (last u)"
  proof -
    have "join ?nl ?mid = join ?nl (?four # threat_lines D) @ ?nl @ ?five"
      using join_append [of "?four # threat_lines D" "[?five]" ?nl] by simp
    then show "u \<noteq> []" "\<not> is_space (last u)"
      by (simp_all add: u_def is_space_def code_in_def)
  qed
  have "join ?nl (?A @ [?four] @ threat_lines D @ [?five] @ ?B) = u @ ?nl @ join ?nl ?B"
    using join_append [of ?A "?mid @ ?B" ?nl] join_append [of ?mid ?B ?nl] ne by (simp add: u_def)
  then have rendered: "render_threat_model V D = u @ rstrip_with is_space (?nl @ join ?nl ?B) @ ?nl"
    by (simp only: render_threat_model_def rstrip_append [where p = is_space, OF last] append_assoc)
  have "set ''## 6. Open questions'' \<subseteq> set (join ?nl ?B)"
    by (rule join_set) (simp add: lines_after_def)
  then have "CHR ''6'' \<in> set (join ?nl ?B)"
    by simp
  moreover have "\<not> is_space CHR ''6''"
    by code_simp
  ultimately have "\<exists>x \<in> set (join ?nl ?B). \<not> is_space x"
    by blast
  then have strip_eq: "rstrip_with is_space (?nl @ join ?nl ?B) = ?nl @ rstrip_with is_space (join ?nl ?B)"
    by (auto simp: rstrip_with_def dropWhile_append1)
  have regroup: "u @ (?nl @ r) @ ?nl = (join ?nl ?A @ ?nl) @ (join ?nl ?mid @ CHR 0x0A # (r @ ?nl))" for r
    by (simp only: u_def append_assoc append_Cons append_Nil)
  let ?rest = "rstrip_with is_space (join ?nl ?B) @ ?nl"
  have "split_lines (render_threat_model V D) = split_lines ((join ?nl ?A @ ?nl) @ (join ?nl ?mid @ CHR 0x0A # ?rest))"
    unfolding rendered strip_eq regroup ..
  also have "\<dots> = split_lines (join ?nl ?A @ ?nl) @ split_lines (join ?nl ?mid @ CHR 0x0A # ?rest)"
    by (rule split_lines_append) simp
  also have "split_lines (join ?nl ?mid @ CHR 0x0A # ?rest) = ?mid @ tail_lines V D"
    unfolding tail_lines_def using lines(1) facts by (intro split_unbroken) simp_all
  finally have split: "split_lines (render_threat_model V D) =
      split_lines (join ?nl ?A @ ?nl) @ ?four # (threat_lines D @ ?five # tail_lines V D)"
    by simp
  obtain S where S: "parse_sections (render_threat_model V D) = S @ sections_of (?four # (threat_lines D @ ?five # tail_lines V D))"
    unfolding parse_sections_def split using sections_after by blast
  have "takeWhile (\<lambda>k. heading_of k = None) (threat_lines D @ ?five # tail_lines V D) = threat_lines D"
    using lines(2) facts by (simp add: takeWhile_append2)
  then have four: "sections_of (?four # (threat_lines D @ ?five # tail_lines V D))
      = (''4. Threats'', threat_lines D) # sections_of (?five # tail_lines V D)"
    using facts sections_skip [OF lines(2)] by simp
  have "''4. Threats'' \<notin> fst ` set (sections_of (?five # tail_lines V D))"
    using sections_keys [of "''4. Threats''" "?five # tail_lines V D"] facts tail by auto
  then have "map_of (rev (S @ sections_of (?four # (threat_lines D @ ?five # tail_lines V D)))) ''4. Threats'' = Some (threat_lines D)"
    unfolding four by (rule last_of_key)
  then show ?thesis
    unfolding threat_section_def S by (simp only: option.case)
qed

section \<open>What is ingested of a rendered model\<close>

text \<open>
  A threat whose texts are on one line, without pipes and without white space at their ends, and whose lists
  have such items, without the characters that separate them.
\<close>

definition plain_text :: "tm_value \<Rightarrow> bool" where
  "plain_text v \<longleftrightarrow> (case v of Absent \<Rightarrow> True | Text s \<Rightarrow> plain_cell s | Items _ \<Rightarrow> False)"

definition plain_item :: "string \<Rightarrow> bool" where
  "plain_item s \<longleftrightarrow> plain_cell s \<and> s \<noteq> [] \<and> list_all (\<lambda>c. c \<notin> set '',;'') s"

definition value_items :: "tm_value \<Rightarrow> string list" where
  "value_items v = (case v of Items xs \<Rightarrow> xs | _ \<Rightarrow> [])"

definition plain_list :: "tm_value \<Rightarrow> bool" where
  "plain_list v \<longleftrightarrow> (case v of Absent \<Rightarrow> True | Text _ \<Rightarrow> False | Items xs \<Rightarrow> list_all plain_item xs)"

definition TEXT_FIELDS :: "string list" where
  "TEXT_FIELDS = [''id'', ''threat'', ''surface'', ''asset'', ''impact'', ''likelihood'', ''status'', ''controls'']"

definition LIST_FIELDS :: "string list" where
  "LIST_FIELDS = [''actor'', ''evidence'', ''attack_refs'', ''isolation_dimensions'', ''review_surfaces'']"

definition plain_threat :: "tm_threat \<Rightarrow> bool" where
  "plain_threat t \<longleftrightarrow> list_all (\<lambda>c. plain_text (tm_field c (tt_fields t))) TEXT_FIELDS
     \<and> list_all (\<lambda>c. plain_list (tm_field c (tt_fields t))) LIST_FIELDS
     \<and> list_ex (\<lambda>x. x \<notin> set ''|- :'') (value_text (tm_field ''id'' (tt_fields t)))"

lemma cell_of_text: "plain_text v \<Longrightarrow> tm_cell v = value_text v \<and> plain_cell (value_text v)"
  by (auto simp: plain_text_def tm_cell_def value_text_def cell_text_plain plain_cell_def trim_def split: tm_value.splits)

lemma plain_join: "list_all plain_item xs \<Longrightarrow> plain_cell (join '', '' xs)"
proof -
  assume xs: "list_all plain_item xs"
  have quiet: "\<not> is_break CHR '',''" "\<not> is_break CHR '' ''"
    by code_simp+
  have "list_all (\<lambda>x. \<not> is_break x \<and> x \<noteq> CHR ''|'') (join '', '' xs)"
    using xs quiet by (induction xs rule: induct_list012) (auto simp: plain_item_def plain_cell_def)
  moreover have "xs = [] \<or> join '', '' xs \<noteq> [] \<and> \<not> is_space (hd (join '', '' xs)) \<and> \<not> is_space (last (join '', '' xs))"
    using xs by (induction xs rule: induct_list012) (auto simp: plain_item_def plain_cell_def trim_def)
  ultimately show ?thesis
    by (auto simp: plain_cell_def trim_def)
qed

lemma cell_of_list: "plain_list v \<Longrightarrow> tm_cell v = join '', '' (value_items v) \<and> plain_cell (join '', '' (value_items v))"
  by (auto simp: plain_list_def tm_cell_def value_text_def value_items_def plain_join cell_text_plain plain_cell_def [of "[]"] trim_def
      split: tm_value.splits)

lemma re_split_item: "list_all (\<lambda>c. c \<notin> set seps) w \<Longrightarrow> c \<in> set seps \<Longrightarrow> re_split seps (w @ c # s) = w # re_split seps (dropWhile is_space s)"
  by (induction w) auto

lemma re_split_last: "list_all (\<lambda>c. c \<notin> set seps) w \<Longrightarrow> re_split seps w = [w]"
  by (induction w) auto

lemma listed_join: "list_all plain_item xs \<Longrightarrow> listed_parts (join '', '' xs) = xs"
proof -
  assume xs: "list_all plain_item xs"
  have space: "is_space CHR '' ''"
    by code_simp
  have "re_split '',;'' (join '', '' xs) = (if xs = [] then [[]] else xs)"
    using xs
  proof (induction xs rule: induct_list012)
    case (3 x y xs)
    let ?rest = "join '', '' (y # xs)"
    have x: "list_all (\<lambda>c. c \<notin> set '',;'') x"
      using 3(3) by (simp add: plain_item_def)
    have "dropWhile is_space ?rest = ?rest"
      using 3(3) by (cases xs) (auto simp: dropWhile_eq_self_iff plain_item_def plain_cell_def trim_def)
    then have drop: "dropWhile is_space (CHR '' '' # ?rest) = ?rest"
      using space by simp
    have eq: "join '', '' (x # y # xs) = x @ CHR '','' # CHR '' '' # ?rest"
      by simp
    have step: "re_split '',;'' (x @ CHR '','' # CHR '' '' # ?rest) = x # re_split '',;'' (dropWhile is_space (CHR '' '' # ?rest))"
      by (rule re_split_item [OF x]) simp
    from 3(3) have "list_all plain_item (y # xs)"
      by simp
    from 3(2) [OF this] have rest: "re_split '',;'' ?rest = y # xs"
      by (simp only: list.distinct if_False)
    show ?case
      unfolding eq step drop rest by simp
  qed (simp_all add: re_split_last plain_item_def)
  moreover have "map strip xs = xs"
    using xs by (intro map_idI strip_id) (simp add: list_all_iff plain_item_def plain_cell_def trim_def, blast)
  moreover have "filter (\<lambda>p. p \<noteq> []) xs = xs"
    using xs by (simp add: filter_id_conv list_all_iff plain_item_def)
  moreover have "strip [] = []"
    by code_simp
  ultimately show ?thesis
    by (auto simp: listed_parts_def)
qed

text \<open>The columns are those of a variant the reader knows, and no name occurs twice.\<close>

lemma threat_columns_known: "threat_columns D \<in> set THREATS_COLUMN_VARIANTS"
  by (auto simp: threat_columns_def optional_column_def THREATS_COLUMN_VARIANTS_def THREATS_BASE_VARIANTS_def THREATS_COLUMNS_ISOLATION_def
      THREATS_COLUMNS_OWASP_ISOLATION_def THREATS_COLUMNS_ATTACK_def THREATS_COLUMNS_def THREATS_COLUMNS_OWASP_def THREAT_COLUMNS_def
      THREAT_COLUMNS_OWASP_def)

lemma threat_columns_plain: "list_all plain_cell (threat_columns D)"
proof -
  have "list_all plain_cell (THREAT_COLUMNS @ THREAT_COLUMNS_OWASP @ [''isolation_dimensions'', ''review_surfaces''])"
    by code_simp
  then show ?thesis
    by (auto simp: threat_columns_def optional_column_def)
qed

lemma map_of_columns: "map_of (zip cols (map f cols)) c = (if c \<in> set cols then Some (f c) else None)"
  by (induction cols) auto

text \<open>The row of a threat as it is read: every field of the table, the three cells of a rated model included.\<close>

definition read_row :: "tm_doc \<Rightarrow> tm_row \<Rightarrow> lint_row" where
  "read_row D r = zip (threat_columns D) (map (\<lambda>c. tm_cell (tm_field c r)) (threat_columns D))"

lemma read_row_get: "get (read_row D r) c = (if c \<in> set (threat_columns D) then tm_cell (tm_field c r) else [])"
  by (simp add: read_row_def get_def map_of_columns)

lemma columns_have:
  "c \<in> {''id'', ''threat'', ''actor'', ''surface'', ''asset'', ''impact'', ''likelihood'', ''status'', ''controls'', ''evidence'', ''attack_refs''} \<Longrightarrow>
     c \<in> set (threat_columns D)"
  "''severity'' \<in> set (threat_columns D) \<longleftrightarrow> rated_doc D"
  by (auto simp: threat_columns_def THREAT_COLUMNS_def THREAT_COLUMNS_OWASP_def optional_column_def)

lemma optional_absent:
  "c \<in> {''isolation_dimensions'', ''review_surfaces''} \<Longrightarrow> c \<notin> set (threat_columns D) \<Longrightarrow> r \<in> set (threat_table_rows D) \<Longrightarrow>
     \<not> value_true (tm_field c r)"
  by (auto simp: threat_columns_def optional_column_def list_ex_iff split: if_splits)

definition table_fields :: "tm_doc \<Rightarrow> tm_threat \<Rightarrow> tm_row" where
  "table_fields D t = (if rated_doc D then with_cells t else tt_fields t)"

lemma table_fields_same:
  "c \<notin> {''severity'', ''likelihood'', ''impact''} \<Longrightarrow> tm_field c (table_fields D t) = tm_field c (tt_fields t)"
  by (auto simp: table_fields_def with_cells_def tm_field_def Let_def)

lemma table_fields_in: "t \<in> set (td_threats D) \<Longrightarrow> table_fields D t \<in> set (threat_table_rows D)"
  by (auto simp: table_fields_def threat_table_rows_def)

text \<open>The three cells of a rated model are plain.\<close>

definition quiet_char :: "char \<Rightarrow> bool" where
  "quiet_char x \<longleftrightarrow> \<not> is_break x \<and> x \<noteq> CHR ''|''"

lemma digit_quiet: "is_digit x \<Longrightarrow> quiet_char x \<and> \<not> is_space x"
  by (auto simp: is_digit_def code_in_def quiet_char_def is_break_def is_space_def)

lemma plain_quiet: "s \<noteq> [] \<Longrightarrow> \<not> is_space (hd s) \<Longrightarrow> \<not> is_space (last s) \<Longrightarrow> list_all quiet_char s \<Longrightarrow> plain_cell s"
  by (simp add: plain_cell_def trim_def quiet_char_def [abs_def])

lemma score_quiet:
  assumes "is_digit d" "list_all is_digit ds"
  shows "list_all quiet_char (score_text d ds) \<and> \<not> is_space (last (score_text d ds)) \<and> score_text d ds \<noteq> []"
proof -
  have "quiet_char CHR ''.''" by code_simp
  with assms show ?thesis
    by (auto simp: score_text_def list_all_iff digit_quiet)
qed

lemma level_quiet: "l \<in> set LEVELS \<Longrightarrow> l \<noteq> [] \<and> \<not> is_space (hd l) \<and> list_all quiet_char l"
proof -
  have "list_all (\<lambda>l. l \<noteq> [] \<and> \<not> is_space (hd l) \<and> list_all quiet_char l) LEVELS" by code_simp
  then show "l \<in> set LEVELS \<Longrightarrow> ?thesis" by (simp add: list_all_iff)
qed

lemma rated_cells_plain:
  assumes "rating_ok M r"
  shows "plain_cell (likelihood_cell r)" "plain_cell (impact_cell r)"
proof -
  have ok: "lh_level (ra_likelihood r) \<in> set LEVELS" "im_level (ra_impact r) \<in> set LEVELS"
    "im_basis (ra_impact r) = ''technical'' \<or> im_basis (ra_impact r) = ''business''"
    "lh_score (ra_likelihood r) < 10000" "im_score (ra_impact r) < 10000"
    using assms by (auto simp: rating_ok_def)
  have blank: "quiet_char CHR '' ''" by code_simp
  obtain d ds where l: "format_score (lh_score (ra_likelihood r)) = score_text d ds" "is_digit d" "list_all is_digit ds"
    using format_score_text [OF ok(4)] by metis
  obtain e es where i: "format_score (im_score (ra_impact r)) = score_text e es" "is_digit e" "list_all is_digit es"
    using format_score_text [OF ok(5)] by metis
  show "plain_cell (likelihood_cell r)"
    unfolding likelihood_cell_def l(1)
    by (rule plain_quiet) (use score_quiet [OF l(2,3)] level_quiet [OF ok(1)] blank in simp_all)
  have basis: "im_basis (ra_impact r) \<noteq> [] \<and> \<not> is_space (last (im_basis (ra_impact r))) \<and> list_all quiet_char (im_basis (ra_impact r))"
  proof -
    have "list_all (\<lambda>b. b \<noteq> [] \<and> \<not> is_space (last b) \<and> list_all quiet_char b) [''technical'', ''business'']" by code_simp
    with ok(3) show ?thesis by (auto simp: list_all_iff)
  qed
  show "plain_cell (impact_cell r)"
    unfolding impact_cell_def i(1)
    by (rule plain_quiet) (use score_quiet [OF i(2,3)] level_quiet [OF ok(2)] blank basis in simp_all)
qed

lemma legacy_plain: "a \<in> set LEGACY_IMPACT \<union> set LEGACY_LIKELIHOOD \<Longrightarrow> plain_cell (strip (''legacy '' @ a))"
proof -
  have "list_all (\<lambda>a. plain_cell (strip (''legacy '' @ a))) (LEGACY_IMPACT @ LEGACY_LIKELIHOOD)" by code_simp
  then show "a \<in> set LEGACY_IMPACT \<union> set LEGACY_LIKELIHOOD \<Longrightarrow> ?thesis" by (auto simp: list_all_iff)
qed

lemma threat_cells_plain:
  assumes "threat_ok M t" "list_all plain_cell (rm_severities M)"
  shows "plain_cell (rc_severity (threat_cells t)) \<and> plain_cell (rc_likelihood (threat_cells t)) \<and> plain_cell (rc_impact (threat_cells t))"
proof (cases "th_rating t")
  case (Some r)
  with assms(1) have ok: "rating_ok M r" by (simp add: threat_ok_def)
  then have "ra_severity r \<in> set (rm_severities M)" by (simp add: rating_ok_def)
  with rated_cells_plain [OF ok] Some assms(2) show ?thesis by (simp add: threat_cells_def list_all_iff)
next
  case None
  have "plain_cell UNRATED" by code_simp
  moreover obtain i l where "th_impact t = Some i" "th_likelihood t = Some l" "i \<in> set LEGACY_IMPACT" "l \<in> set LEGACY_LIKELIHOOD"
    using assms(1) None by (auto simp: threat_ok_def)
  moreover have "or_str (Some x) [] = x" for x by (simp add: or_str_def)
  ultimately show ?thesis using None legacy_plain [of i] legacy_plain [of l] by (simp add: threat_cells_def)
qed

section \<open>Rows and lines\<close>

text \<open>
  A document whose threats are plain and, when one of them is rated, all rated by the method or with labels of
  the legacy scales, in which no line after the threats is a heading of their section.
\<close>

definition ingestable :: "risk_method \<Rightarrow> render_env \<Rightarrow> tm_doc \<Rightarrow> bool" where
  "ingestable M V D \<longleftrightarrow> td_threats D \<noteq> [] \<and> list_all plain_threat (td_threats D)
     \<and> (rated_doc D \<longrightarrow> list_all (\<lambda>t. threat_ok M (threat_of t)) (td_threats D) \<and> list_all plain_cell (rm_severities M))
     \<and> list_all (\<lambda>l. heading_of l \<noteq> Some ''4. Threats'') (tail_lines V D)"

lemma ingestableD:
  assumes "ingestable M V D"
  shows "td_threats D \<noteq> []" "t \<in> set (td_threats D) \<Longrightarrow> plain_threat t"
    "rated_doc D \<Longrightarrow> t \<in> set (td_threats D) \<Longrightarrow> threat_ok M (threat_of t)" "rated_doc D \<Longrightarrow> list_all plain_cell (rm_severities M)"
    "\<forall>l \<in> set (tail_lines V D). heading_of l \<noteq> Some ''4. Threats''"
  using assms unfolding ingestable_def list_all_iff by blast+

lemma columns_sub: "c \<in> set (threat_columns D) \<Longrightarrow> c = ''severity'' \<and> rated_doc D \<or> c \<in> set TEXT_FIELDS \<or> c \<in> set LIST_FIELDS"
  by (auto simp: threat_columns_def THREAT_COLUMNS_def THREAT_COLUMNS_OWASP_def optional_column_def TEXT_FIELDS_def LIST_FIELDS_def
      split: if_splits)

lemma plain_text_cell: "tm_cell (Text s) = s" if "plain_cell s"
  using that by (simp add: tm_cell_def value_text_def cell_text_plain)

lemma rating_fields:
  "tm_field ''severity'' (with_cells t) = Text (rc_severity (threat_cells (threat_of t)))"
  "tm_field ''likelihood'' (with_cells t) = Text (rc_likelihood (threat_cells (threat_of t)))"
  "tm_field ''impact'' (with_cells t) = Text (rc_impact (threat_cells (threat_of t)))"
  by (simp_all add: with_cells_def tm_field_def Let_def)

lemma rated_fields:
  assumes "ingestable M V D" "t \<in> set (td_threats D)" "rated_doc D"
  shows "tm_cell (tm_field ''severity'' (table_fields D t)) = rc_severity (threat_cells (threat_of t))"
    "tm_cell (tm_field ''likelihood'' (table_fields D t)) = rc_likelihood (threat_cells (threat_of t))"
    "tm_cell (tm_field ''impact'' (table_fields D t)) = rc_impact (threat_cells (threat_of t))"
    "plain_cell (rc_severity (threat_cells (threat_of t)))" "plain_cell (rc_likelihood (threat_cells (threat_of t)))"
    "plain_cell (rc_impact (threat_cells (threat_of t)))"
proof -
  have "threat_ok M (threat_of t)" "list_all plain_cell (rm_severities M)"
    using ingestableD(3,4) [OF assms(1)] assms(2,3) by blast+
  from threat_cells_plain [OF this]
  have p: "plain_cell (rc_severity (threat_cells (threat_of t)))" "plain_cell (rc_likelihood (threat_cells (threat_of t)))"
    "plain_cell (rc_impact (threat_cells (threat_of t)))" by simp_all
  then show "plain_cell (rc_severity (threat_cells (threat_of t)))" "plain_cell (rc_likelihood (threat_cells (threat_of t)))"
    "plain_cell (rc_impact (threat_cells (threat_of t)))" .
  show "tm_cell (tm_field ''severity'' (table_fields D t)) = rc_severity (threat_cells (threat_of t))"
    "tm_cell (tm_field ''likelihood'' (table_fields D t)) = rc_likelihood (threat_cells (threat_of t))"
    "tm_cell (tm_field ''impact'' (table_fields D t)) = rc_impact (threat_cells (threat_of t))"
    using p assms(3) by (simp_all add: table_fields_def rating_fields plain_text_cell)
qed

lemma text_cell:
  assumes "plain_threat t" "c \<in> set TEXT_FIELDS" "c \<notin> {''likelihood'', ''impact''} \<or> \<not> rated_doc D"
  shows "tm_cell (tm_field c (table_fields D t)) = value_text (tm_field c (tt_fields t))
    \<and> plain_cell (value_text (tm_field c (tt_fields t)))"
proof -
  have "plain_text (tm_field c (tt_fields t))"
    using assms(1,2) by (auto simp: plain_threat_def list_all_iff)
  moreover have "tm_field c (table_fields D t) = tm_field c (tt_fields t)"
  proof (cases "rated_doc D")
    case True
    have "c \<noteq> ''severity''" using assms(2) by (auto simp: TEXT_FIELDS_def)
    with True assms(3) show ?thesis by (intro table_fields_same) blast
  qed (simp add: table_fields_def)
  ultimately show ?thesis using cell_of_text [of "tm_field c (tt_fields t)"] by presburger
qed

lemma list_cell:
  assumes "plain_threat t" "c \<in> set LIST_FIELDS"
  shows "tm_cell (tm_field c (table_fields D t)) = join '', '' (value_items (tm_field c (tt_fields t)))
    \<and> plain_cell (join '', '' (value_items (tm_field c (tt_fields t)))) \<and> list_all plain_item (value_items (tm_field c (tt_fields t)))"
proof -
  have p: "plain_list (tm_field c (tt_fields t))"
    using assms by (auto simp: plain_threat_def list_all_iff)
  moreover have "tm_field c (table_fields D t) = tm_field c (tt_fields t)"
    by (rule table_fields_same) (use assms(2) in \<open>auto simp: LIST_FIELDS_def\<close>)
  moreover have "list_all plain_item (value_items (tm_field c (tt_fields t)))"
    using p by (auto simp: plain_list_def value_items_def split: tm_value.splits)
  ultimately show ?thesis by (simp add: cell_of_list)
qed

lemma every_cell_plain:
  assumes "ingestable M V D" "t \<in> set (td_threats D)" "c \<in> set (threat_columns D)"
  shows "plain_cell (tm_cell (tm_field c (table_fields D t)))"
proof -
  note t = ingestableD(2) [OF assms(1,2)]
  consider "rated_doc D" "c \<in> {''severity'', ''likelihood'', ''impact''}"
    | "c \<in> set TEXT_FIELDS" "c \<notin> {''likelihood'', ''impact''} \<or> \<not> rated_doc D" | "c \<in> set LIST_FIELDS"
    using columns_sub [OF assms(3)] by blast
  then show ?thesis
  proof cases
    case 1
    with rated_fields [OF assms(1,2) 1(1)] show ?thesis by auto
  next
    case 2
    with text_cell [OF t 2] show ?thesis by simp
  next
    case 3
    with list_cell [OF t 3, of D] show ?thesis by simp
  qed
qed

lemma id_seen: "plain_threat t \<Longrightarrow> \<exists>x \<in> set (tm_cell (tm_field ''id'' (table_fields D t))). x \<notin> set ''|- :''"
proof -
  assume t: "plain_threat t"
  have "tm_cell (tm_field ''id'' (table_fields D t)) = value_text (tm_field ''id'' (tt_fields t))"
    using text_cell [OF t, of "''id''" D] by (simp add: TEXT_FIELDS_def)
  with t show ?thesis by (simp add: plain_threat_def list_ex_iff Bex_def del: set_simps)
qed

lemma table_read:
  assumes "ingestable M V D"
  shows "parse_table (threat_lines D)
    = (Some (threat_columns D), map (\<lambda>t. map (\<lambda>c. tm_cell (tm_field c (table_fields D t))) (threat_columns D)) (td_threats D))"
proof -
  have rows: "threat_table_rows D = map (table_fields D) (td_threats D)"
    by (simp add: threat_table_rows_def table_fields_def)
  have "row_ok (map (\<lambda>c. tm_cell (tm_field c r)) (threat_columns D))" if r: "r \<in> set (threat_table_rows D)" for r
  proof -
    obtain t where t: "t \<in> set (td_threats D)" "r = table_fields D t" using r unfolding rows by auto
    have "list_all cell_ok (map (\<lambda>c. tm_cell (tm_field c r)) (threat_columns D))"
      using every_cell_plain [OF assms t(1)] t(2) by (simp add: list_all_iff plain_cell_ok)
    moreover have "tm_cell (tm_field ''id'' r) \<in> set (map (\<lambda>c. tm_cell (tm_field c r)) (threat_columns D))"
      using columns_have(1) [of "''id''" D] by simp
    ultimately show ?thesis
      unfolding row_ok_def using id_seen [OF ingestableD(2) [OF assms t(1)], of D] t(2) by blast
  qed
  moreover have "threat_columns D \<noteq> []"
    using columns_have(1) [of "''id''" D] by auto
  ultimately have "parse_table ([] # tm_table (threat_columns D) (threat_table_rows D) @ [] # [])
      = (Some (threat_columns D), map (\<lambda>r. map (\<lambda>c. tm_cell (tm_field c r)) (threat_columns D)) (threat_table_rows D))"
    by (intro parse_written_table threat_columns_plain) blast+
  then show ?thesis
    by (simp add: threat_lines_def rows comp_def)
qed

lemma unbroken_join: "list_all unbroken cells \<Longrightarrow> unbroken sep \<Longrightarrow> unbroken (join sep cells)"
  by (induction cells rule: induct_list012) (auto simp: unbroken_def)

lemma line_quiet: "list_all plain_cell cells \<Longrightarrow> unbroken (tm_line cells) \<and> heading_of (tm_line cells) = None"
proof -
  assume cells: "list_all plain_cell cells"
  have "unbroken '' | ''" "unbroken ''| ''" "unbroken '' |''" by code_simp+
  moreover have "list_all unbroken cells"
    using cells by (auto simp: list_all_iff plain_cell_def unbroken_def)
  ultimately have "unbroken (tm_line cells)"
    using unbroken_join [of cells "'' | ''"] by (auto simp: tm_line_def unbroken_def)
  then show ?thesis by (simp add: heading_of_def tm_line_def startswith_def)
qed

lemma threat_lines_quiet:
  assumes "ingestable M V D"
  shows "list_all unbroken (threat_lines D)" "\<forall>l \<in> set (threat_lines D). heading_of l = None"
proof -
  have rows: "threat_table_rows D = map (table_fields D) (td_threats D)"
    by (simp add: threat_table_rows_def table_fields_def)
  have "unbroken ''|''" "unbroken ''---''" by code_simp+
  then have dashes: "unbroken (CHR ''|'' # join ''|'' (map (\<lambda>_. ''---'') cols) @ ''|'')
      \<and> heading_of (CHR ''|'' # join ''|'' (map (\<lambda>_. ''---'') cols) @ ''|'') = None" for cols :: "string list"
    using unbroken_join [of "map (\<lambda>_. ''---'') cols" "''|''"]
    by (auto simp: unbroken_def heading_of_def startswith_def list_all_iff)
  have empty: "unbroken [] \<and> heading_of [] = None" by code_simp
  have row: "unbroken (tm_line (map (\<lambda>c. tm_cell (tm_field c (table_fields D t))) (threat_columns D)))
      \<and> heading_of (tm_line (map (\<lambda>c. tm_cell (tm_field c (table_fields D t))) (threat_columns D))) = None"
    if "t \<in> set (td_threats D)" for t
    by (rule line_quiet) (use every_cell_plain [OF assms that] in \<open>simp add: list_all_iff\<close>)
  have "\<forall>l \<in> set (threat_lines D). unbroken l \<and> heading_of l = None"
    using empty dashes [of "threat_columns D"] line_quiet [OF threat_columns_plain, of D] row
    by (auto simp: threat_lines_def tm_table_def rows)
  then show "list_all unbroken (threat_lines D)" "\<forall>l \<in> set (threat_lines D). heading_of l = None"
    by (auto simp: list_all_iff)
qed

section \<open>The ingest of a rendered model\<close>

definition own_text :: "string \<Rightarrow> tm_threat \<Rightarrow> string" where
  "own_text c t = value_text (tm_field c (tt_fields t))"

definition own_list :: "string \<Rightarrow> tm_threat \<Rightarrow> string list" where
  "own_list c t = value_items (tm_field c (tt_fields t))"

text \<open>An ingested threat that says what the document does, under the key of its model.\<close>

definition ingested_as :: "risk_method \<Rightarrow> string list \<Rightarrow> string option \<Rightarrow> tm_threat \<Rightarrow> ingested \<Rightarrow> bool" where
  "ingested_as M parts subject t i \<longleftrightarrow>
     (case ingest_place parts of (relative, product, slug) \<Rightarrow> ig_model i = relative \<and> ig_product i = product
        \<and> ig_key i = product @ ''/'' @ slug @ '':'' @ own_text ''id'' t)
     \<and> ig_id i = own_text ''id'' t \<and> ig_threat i = own_text ''threat'' t \<and> ig_surface i = own_text ''surface'' t
     \<and> ig_asset i = own_text ''asset'' t \<and> ig_status i = own_text ''status'' t \<and> ig_controls i = own_text ''controls'' t
     \<and> ig_actors i = own_list ''actor'' t \<and> ig_evidence i = own_list ''evidence'' t \<and> ig_attack_refs i = own_list ''attack_refs'' t
     \<and> ig_dimensions i = own_list ''isolation_dimensions'' t \<and> ig_surfaces i = own_list ''review_surfaces'' t
     \<and> (ig_severity i, ig_source i) = threat_severity M (threat_of t)
     \<and> (case tt_rating t of
          Some r \<Rightarrow> ig_likelihood i = lh_level (ra_likelihood r) \<and> ig_impact i = im_level (ra_impact r)
            \<and> ig_scores i = (Some (lh_score (ra_likelihood r)), Some (im_score (ra_impact r)), Some (im_basis (ra_impact r)))
        | None \<Rightarrow> ig_likelihood i = own_text ''likelihood'' t \<and> ig_impact i = own_text ''impact'' t \<and> ig_scores i = (None, None, None))"

lemma get_text:
  assumes "plain_threat t" "c \<in> set (threat_columns D)" "c \<in> set TEXT_FIELDS" "c \<notin> {''likelihood'', ''impact''} \<or> \<not> rated_doc D"
  shows "get (read_row D (table_fields D t)) c = own_text c t"
  using text_cell [OF assms(1,3,4)] assms(2) by (simp add: read_row_get own_text_def)

lemma get_list:
  assumes "plain_threat t" "t \<in> set (td_threats D)" "c \<in> set LIST_FIELDS"
  shows "listed_parts (get (read_row D (table_fields D t)) c) = own_list c t"
proof (cases "c \<in> set (threat_columns D)")
  case True
  with list_cell [OF assms(1,3), of D] show ?thesis by (simp add: read_row_get own_list_def listed_join)
next
  case False
  have "c = ''actor'' \<or> c = ''evidence'' \<or> c = ''attack_refs'' \<or> c = ''isolation_dimensions'' \<or> c = ''review_surfaces''"
    using assms(3) by (simp add: LIST_FIELDS_def)
  then have c: "c \<in> {''isolation_dimensions'', ''review_surfaces''}"
    using columns_have(1) [of "''actor''" D] columns_have(1) [of "''evidence''" D] columns_have(1) [of "''attack_refs''" D] False
    by (elim disjE) simp_all
  from optional_absent [OF c False table_fields_in [OF assms(2)]]
  have "\<not> value_true (tm_field c (tt_fields t))"
    using table_fields_same [of c D t] c by auto
  then have "own_list c t = []"
    by (auto simp: own_list_def value_items_def value_true_def split: tm_value.splits)
  moreover have "listed_parts [] = []" by code_simp
  ultimately show ?thesis using False by (simp add: read_row_get)
qed

lemma text_of_field: "plain_text v \<Longrightarrow> v = tm_field c (tt_fields t) \<Longrightarrow> or_str (text_field c (tt_fields t)) [] = value_text v"
  by (auto simp: text_field_def plain_text_def value_text_def or_str_def split: tm_value.splits)

text \<open>The rating of the row: of a rated model from the three cells, of another from its labels.\<close>

lemma rating_read:
  assumes "ingestable M V D" "t \<in> set (td_threats D)"
  defines "p \<equiv> parse_row M (table_row_of (read_row D (table_fields D t)))"
  shows "(pw_severity p, pw_source p) = threat_severity M (threat_of t)
     \<and> (case tt_rating t of
          Some r \<Rightarrow> pw_likelihood p = lh_level (ra_likelihood r) \<and> pw_impact p = im_level (ra_impact r)
            \<and> (pw_likelihood_score p, pw_impact_score p, pw_basis p)
              = (Some (lh_score (ra_likelihood r)), Some (im_score (ra_impact r)), Some (im_basis (ra_impact r)))
        | None \<Rightarrow> pw_likelihood p = own_text ''likelihood'' t \<and> pw_impact p = own_text ''impact'' t
            \<and> (pw_likelihood_score p, pw_impact_score p, pw_basis p) = (None, None, None))"
proof -
  note t = ingestableD(2) [OF assms(1,2)]
  have fields: "map_of (read_row D r) c = (if c \<in> set (threat_columns D) then Some (tm_cell (tm_field c r)) else None)" for r c
    by (simp add: read_row_def map_of_columns)
  have plain: "plain_text (tm_field ''likelihood'' (tt_fields t))" "plain_text (tm_field ''impact'' (tt_fields t))"
    using t by (simp_all add: plain_threat_def TEXT_FIELDS_def)
  have labels: "or_str (th_likelihood (threat_of t)) [] = own_text ''likelihood'' t" "or_str (th_impact (threat_of t)) [] = own_text ''impact'' t"
    using text_of_field [OF plain(1) refl] text_of_field [OF plain(2) refl] by (simp_all add: threat_of_def own_text_def)
  have rating: "th_rating (threat_of t) = tt_rating t" by (simp add: threat_of_def)
  show ?thesis
  proof (cases "rated_doc D")
    case True
    have "table_row_of (read_row D (table_fields D t)) = row_of (threat_cells (threat_of t))"
      using rated_fields(1-3) [OF assms(1,2) True] columns_have(1) [of "''likelihood''" D] columns_have(1) [of "''impact''" D] columns_have(2) [of D] True
      by (simp add: table_row_of_def row_of_def fields)
    then have "reads_back M (threat_of t) p"
      using row_reads_back [OF ingestableD(3) [OF assms(1) True assms(2)]] by (simp add: p_def)
    then have rb: "(pw_severity p, pw_source p) = threat_severity M (threat_of t)"
      "case tt_rating t of
          Some r \<Rightarrow> pw_likelihood p = lh_level (ra_likelihood r) \<and> pw_impact p = im_level (ra_impact r)
            \<and> pw_likelihood_score p = Some (lh_score (ra_likelihood r)) \<and> pw_impact_score p = Some (im_score (ra_impact r))
            \<and> pw_basis p = Some (im_basis (ra_impact r))
        | None \<Rightarrow> Some (pw_likelihood p) = th_likelihood (threat_of t) \<and> Some (pw_impact p) = th_impact (threat_of t)
            \<and> pw_likelihood_score p = None \<and> pw_impact_score p = None \<and> pw_basis p = None"
      unfolding reads_back_def rating by blast+
    have self: "Some x = y \<Longrightarrow> or_str y [] = x" for x y by (auto simp: or_str_def)
    show ?thesis
    proof (cases "tt_rating t")
      case None
      with rb(2) self [of "pw_likelihood p" "th_likelihood (threat_of t)"] self [of "pw_impact p" "th_impact (threat_of t)"]
      show ?thesis unfolding labels using rb(1) by simp
    qed (use rb in simp)
  next
    case False
    then have unrated: "tt_rating t = None" using assms(2) by (auto simp: rated_doc_def list_ex_iff)
    have "table_row_of (read_row D (table_fields D t))
        = \<lparr>tb_severity = None, tb_likelihood = Some (own_text ''likelihood'' t), tb_impact = Some (own_text ''impact'' t)\<rparr>"
      using text_cell [OF t, of "''likelihood''" D] text_cell [OF t, of "''impact''" D] False columns_have(1) [of "''likelihood''" D]
        columns_have(2) [of D] columns_have(1) [of "''impact''" D]
      by (simp add: table_row_of_def fields TEXT_FIELDS_def own_text_def)
    then have p: "p = crosswalked M (own_text ''impact'' t) (own_text ''likelihood'' t)"
      by (simp add: p_def parse_row_def cell_def)
    have "legacy_severity M (Some (own_text ''impact'' t)) (Some (own_text ''likelihood'' t))
        = legacy_severity M (th_impact (threat_of t)) (th_likelihood (threat_of t))"
      unfolding legacy_severity_def labels by (simp add: or_str_def)
    then show ?thesis
      using unrated by (simp add: p crosswalked_def Let_def threat_severity_def rating)
  qed
qed

text \<open>
  C18. The ingest reads a rendered threat model as the document has it. For a document whose threats are plain (texts on one
  line, without pipes and without white space at their ends; items of lists without separators), in a rated model all rated by the method or with
  legacy labels, and in which no later line is a heading of the same section, the ingest of the rendered text gives one threat
  for each, in order, with its key, its texts and lists, the severity and the source of the JSON, and the levels, scores
  and basis of its rating, or its labels.
\<close>

theorem ingest_reads_rendered:
  assumes "ingestable M V D"
  shows "\<exists>found. parse_threats M parts subject (Some (render_threat_model V D)) = Some found
    \<and> list_all2 (ingested_as M parts subject) (td_threats D) found"
proof -
  obtain relative product slug where place: "ingest_place parts = (relative, product, slug)" by (metis prod_cases3)
  have own: "threat_section (render_threat_model V D) = threat_lines D"
    by (rule rendered_section [OF threat_lines_quiet [OF assms] ingestableD(5) [OF assms]])
  let ?row = "\<lambda>t. ingest_row M relative product slug subject (read_row D (table_fields D t))"
  have "parse_threats M parts subject (Some (render_threat_model V D)) = Some (map ?row (td_threats D))"
    using ingestableD(1) [OF assms] threat_columns_known
    by (simp add: parse_threats_def own table_read [OF assms] place Let_def read_row_def comp_def filter_True)
  moreover have "ingested_as M parts subject t (?row t)" if t: "t \<in> set (td_threats D)" for t
  proof -
    note plain = ingestableD(2) [OF assms t]
    have texts: "get (read_row D (table_fields D t)) ''id'' = own_text ''id'' t"
      "get (read_row D (table_fields D t)) ''threat'' = own_text ''threat'' t"
      "get (read_row D (table_fields D t)) ''surface'' = own_text ''surface'' t"
      "get (read_row D (table_fields D t)) ''asset'' = own_text ''asset'' t"
      "get (read_row D (table_fields D t)) ''status'' = own_text ''status'' t"
      "get (read_row D (table_fields D t)) ''controls'' = own_text ''controls'' t"
      by (rule get_text [OF plain columns_have(1)]; simp add: TEXT_FIELDS_def)+
    note lists = get_list [OF plain t]
    show ?thesis
      using rating_read [OF assms t]
      by (simp add: ingested_as_def ingest_row_def Let_def place texts lists LIST_FIELDS_def split: option.splits)
  qed
  ultimately show ?thesis
    by (intro exI [of _ "map ?row (td_threats D)"]) (simp add: list.rel_map list.rel_refl_strong)
qed

text \<open>A rated threat and an unrated one of an older model.\<close>

definition demo_fields :: "string \<Rightarrow> tm_row" where
  "demo_fields i = [(''id'', Text i), (''threat'', Text ''LINDDUN: linkage''), (''actor'', Items [''user'', ''peer'']), (''surface'', Text ''api''),
     (''asset'', Text ''data''), (''impact'', Text ''low''), (''likelihood'', Text ''possible''), (''status'', Text ''open''),
     (''evidence'', Items [''a.py:3''])]"

definition demo_model :: tm_doc where
  "demo_model = \<lparr>td_system = ''s'', td_context = None, td_assets = [], td_entries = [],
     td_threats = [\<lparr>tt_fields = demo_fields ''T1'', tt_rating = th_rating demo_threat\<rparr>, \<lparr>tt_fields = demo_fields ''T2'', tt_rating = None\<rparr>],
     td_parked = [], td_questions = [], td_provenance = [], td_history = [], td_mitigations = [], td_scenarios = [], td_boundaries = []\<rparr>"

definition demo_render :: render_env where
  "demo_render = \<lparr>rv_method = demo_method, rv_dash = CHR ''-'', rv_source = ''u''\<rparr>"

lemma demo_ingestable: "ingestable demo_method demo_render demo_model"
proof -
  have "td_threats demo_model \<noteq> []" by (simp add: demo_model_def)
  moreover have "list_all plain_threat (td_threats demo_model)" by code_simp
  moreover have "list_all (\<lambda>t. threat_ok demo_method (threat_of t)) (td_threats demo_model)" by code_simp
  moreover have "list_all plain_cell (rm_severities demo_method)" by code_simp
  moreover have "list_all (\<lambda>l. heading_of l \<noteq> Some ''4. Threats'') (tail_lines demo_render demo_model)" by code_simp
  ultimately show ?thesis unfolding ingestable_def by blast
qed

theorem ingest_reads_rendered_witness:
  "\<exists>found. parse_threats demo_method [''acme'', ''api'', ''THREAT_MODEL.md''] None (Some (render_threat_model demo_render demo_model)) = Some found
    \<and> map ig_key found = [''api/api:T1'', ''api/api:T2''] \<and> map ig_severity found = [Some ''high'', Some ''low'']
    \<and> map ig_actors found = [[''user'', ''peer''], [''user'', ''peer'']]"
proof -
  have place: "ingest_place [''acme'', ''api'', ''THREAT_MODEL.md''] = (''acme/api/THREAT_MODEL.md'', ''api'', ''api'')" by code_simp
  have sev: "map (fst \<circ> threat_severity demo_method \<circ> threat_of) (td_threats demo_model) = [Some ''high'', Some ''low'']"
    "map (own_text ''id'') (td_threats demo_model) = [''T1'', ''T2'']" "map (own_list ''actor'') (td_threats demo_model) = [[''user'', ''peer''], [''user'', ''peer'']]"
    by code_simp+
  obtain found where found: "parse_threats demo_method [''acme'', ''api'', ''THREAT_MODEL.md''] None (Some (render_threat_model demo_render demo_model)) = Some found"
    and as: "list_all2 (ingested_as demo_method [''acme'', ''api'', ''THREAT_MODEL.md''] None) (td_threats demo_model) found"
    using ingest_reads_rendered [OF demo_ingestable, of "[''acme'', ''api'', ''THREAT_MODEL.md'']" None] by blast
  have "ingested_as demo_method [''acme'', ''api'', ''THREAT_MODEL.md''] None t i \<Longrightarrow> ig_key i = ''api/api:'' @ own_text ''id'' t
      \<and> ig_actors i = own_list ''actor'' t \<and> ig_severity i = fst (threat_severity demo_method (threat_of t))" for t i
    by (auto simp: ingested_as_def place prod_eq_iff)
  with as have "list_all2 (\<lambda>t i. ig_key i = ''api/api:'' @ own_text ''id'' t
      \<and> ig_actors i = own_list ''actor'' t \<and> ig_severity i = fst (threat_severity demo_method (threat_of t))) (td_threats demo_model) found"
    by (rule list_all2_mono)
  then have "map ig_key found = map (\<lambda>i. ''api/api:'' @ i) (map (own_text ''id'') (td_threats demo_model))
      \<and> map ig_actors found = map (own_list ''actor'') (td_threats demo_model)
      \<and> map ig_severity found = map (fst \<circ> threat_severity demo_method \<circ> threat_of) (td_threats demo_model)"
    by (induction rule: list_all2_induct) simp_all
  with found sev show ?thesis by simp
qed

section \<open>What the text of a cell loses\<close>

text \<open>
  A pipe is escaped when it is written and not unescaped when it is read; and only the line feed is replaced in a cell, so
  that a text with another line boundary breaks its row in two.
\<close>

lemma pipe_stays_escaped: "split_row (tm_line [cell_text ''a|b'']) = [[CHR ''a'', CHR 0x5C, CHR ''|'', CHR ''b'']]"
  by code_simp

lemma cell_breaks_row: "split_lines (tm_line [cell_text (''a'' @ [CHR 0x0D] @ ''b'')]) = [''| a'', ''b |'']"
  by code_simp

end
