(* ===== verification/Sarif.thy ===== *)
theory Sarif
  imports Corpus_Walk Versions
begin

text \<open>
  \<open>reporting/sarif.py\<close>: a report as SARIF: the rules and the results of a code report and of a report on
  declared configuration, suppressions, the coverage signal of a run, and which reports of a tree are
  exported. The fixed texts of a run, the display name of a rule, the projection of typed findings and
  writing the files are left out. Of the two dashes of a line range the one within Latin-1 is modelled.
\<close>

section \<open>Severities, regions and locations\<close>

definition SEVERITY_MAP :: "(string \<times> string \<times> string) list" where
  "SEVERITY_MAP = [(''critical'', ''error'', ''9.5''), (''high'', ''error'', ''8.0''), (''medium'', ''warning'', ''5.0''),
     (''low'', ''note'', ''2.0''), (''informational'', ''note'', ''0.5'')]"

definition severity_map :: "string \<Rightarrow> string \<times> string" where
  "severity_map s = (case map_of SEVERITY_MAP s of None \<Rightarrow> (''note'', ''0.5'') | Some p \<Rightarrow> p)"

definition LINES_RX :: rx where
  "LINES_RX = seq [At Bos, star (Cls is_space), Grp 1 (plus digit), star (Cls is_space),
     opt (seq [lit ''-'', star (Cls is_space), Grp 2 (plus digit)]), star (Cls is_space), At Eos]"

definition PSEUDO_PATH_RX :: rx where
  "PSEUDO_PATH_RX = seq [At Bos, alts [lit ''pkg:'', lit ''oci-config:'', lit ''layer:'', lit ''sha256:'']]"

type_synonym region = "nat \<times> nat option"

definition region_of :: "string option \<Rightarrow> region option" where
  "region_of lines = (if \<not> truthy lines then None
     else (case re_match LINES_RX (or_str lines []) of
         None \<Rightarrow> None
       | Some m \<Rightarrow> Some (group_int 1 m, (if truthy (m_group 2 m) then Some (group_int 2 m) else None))))"

record report_location =
  lo_path :: string
  lo_lines :: "string option"
  lo_description :: "string option"

datatype sarif_place = Logical string | Physical string "region option" "string option"

definition location_of :: "report_location \<Rightarrow> sarif_place \<times> string option" where
  "location_of l =
     ((if re_match PSEUDO_PATH_RX (lo_path l) \<noteq> None then Logical (lo_path l)
       else Physical (lo_path l) (region_of (lo_lines l)) None),
      (if truthy (lo_description l) then lo_description l else None))"

section \<open>Results of a code report\<close>

record disposition_block =
  db_validity :: "string option"
  db_resolution :: "string option"

record report_finding =
  rf_id :: string
  rf_category :: "string option"
  rf_severity :: "string option"
  rf_effective :: "string option"
  rf_title :: string
  rf_description :: "string option"
  rf_remediation :: "string option"
  rf_status :: "string option"
  rf_cwes :: "string list"
  rf_fingerprint :: "string option"
  rf_disposition :: "disposition_block option"
  rf_locations :: "report_location list"

datatype suppression = False_positive | Risk_accepted | At_audit_time "string option"

record sarif_result =
  sx_rule :: string
  sx_index :: nat
  sx_level :: string
  sx_text :: string
  sx_locations :: "(sarif_place \<times> string option) list"
  sx_finding_id :: string
  sx_fingerprint :: "string option"
  sx_security :: string
  sx_severity :: string
  sx_status :: string
  sx_tags :: "string list"
  sx_suppressions :: "suppression list"
  sx_absent :: bool

definition suppressions_of :: "report_finding \<Rightarrow> suppression list" where
  "suppressions_of f = (case rf_disposition f of
       None \<Rightarrow> []
     | Some d \<Rightarrow> (if db_validity d = Some ''false_positive'' then [False_positive] else [])
         @ (if db_resolution d = Some ''risk_accepted'' then [Risk_accepted] else []))"

definition category_of :: "report_finding \<Rightarrow> string" where
  "category_of f = or_str (rf_category f) ''uncategorized''"

definition reported_severity :: "report_finding \<Rightarrow> string" where
  "reported_severity f = or_str (rf_effective f) (or_str (rf_severity f) ''informational'')"

definition text_part :: "string \<Rightarrow> string option \<Rightarrow> string" where
  "text_part lead t = (if truthy t then [CHR 0x0A, CHR 0x0A] @ lead @ or_str t [] else [])"

definition message_text :: "string \<Rightarrow> string option \<Rightarrow> string option \<Rightarrow> string \<Rightarrow> string" where
  "message_text title body remediation fid =
     (let t = title @ text_part [] body @ text_part ''Remediation: '' remediation in
      if t \<noteq> [] then t else if fid \<noteq> [] then fid else ''(untitled)'')"

text \<open>The index of a rule; \<open>None\<close> would be a \<open>KeyError\<close>.\<close>

definition rule_index :: "string list \<Rightarrow> string \<Rightarrow> nat option" where
  "rule_index rules c = (if c \<in> set rules then Some (index_of c rules) else None)"

definition result_of :: "string list \<Rightarrow> report_finding \<Rightarrow> sarif_result option" where
  "result_of rules f = map_option (\<lambda>i.
     \<lparr>sx_rule = category_of f, sx_index = i, sx_level = fst (severity_map (reported_severity f)),
      sx_text = message_text (rf_title f) (rf_description f) (rf_remediation f) (rf_id f),
      sx_locations = map location_of (rf_locations f), sx_finding_id = rf_id f,
      sx_fingerprint = (if truthy (rf_fingerprint f) then rf_fingerprint f else None),
      sx_security = snd (severity_map (reported_severity f)), sx_severity = reported_severity f,
      sx_status = (case rf_status f of None \<Rightarrow> ''not_verified'' | Some s \<Rightarrow> s),
      sx_tags = (if rf_cwes f = [] then [] else ''security'' # rf_cwes f),
      sx_suppressions = suppressions_of f,
      sx_absent = (case rf_disposition f of None \<Rightarrow> False | Some d \<Rightarrow> db_resolution d = Some ''resolved'')\<rparr>)
     (rule_index rules (category_of f))"

section \<open>Results of a report on declared configuration\<close>

record cca_location =
  cl_file :: string
  cl_range :: "nat list"
  cl_resource :: "string option"

record cca_finding =
  cf_id :: string
  cf_check :: "string option"
  cf_severity :: "string option"
  cf_title :: "string option"
  cf_rationale :: "string option"
  cf_remediation :: "string option"
  cf_status :: "string option"
  cf_cwe :: "string option"
  cf_locations :: "cca_location list"

definition cca_region :: "nat list \<Rightarrow> region option" where
  "cca_region rng = (case rng of
       [] \<Rightarrow> None
     | [a] \<Rightarrow> Some (a, None)
     | a # b # _ \<Rightarrow> Some (a, (if a \<le> b then Some b else None)))"

definition check_of :: "cca_finding \<Rightarrow> string" where
  "check_of f = or_str (cf_check f) ''unknown-check''"

definition cca_result :: "string list \<Rightarrow> cca_finding \<Rightarrow> sarif_result option" where
  "cca_result rules f =
     (let severity = or_str (cf_severity f) ''informational'' in
      map_option (\<lambda>i.
        \<lparr>sx_rule = check_of f, sx_index = i, sx_level = fst (severity_map severity),
         sx_text = message_text (case cf_title f of None \<Rightarrow> [] | Some t \<Rightarrow> t) (cf_rationale f) (cf_remediation f) (cf_id f),
         sx_locations = map (\<lambda>l. (Physical (cl_file l) (cca_region (cl_range l))
           (if truthy (cl_resource l) then cl_resource l else None), None)) (cf_locations f),
         sx_finding_id = cf_id f, sx_fingerprint = None, sx_security = snd (severity_map severity), sx_severity = severity,
         sx_status = (case cf_status f of None \<Rightarrow> ''confirmed'' | Some s \<Rightarrow> s),
         sx_tags = (if truthy (cf_cwe f) then [''security'', or_str (cf_cwe f) []] else []),
         sx_suppressions = (if cf_status f = Some ''suppressed'' then [At_audit_time (if truthy (cf_rationale f) then cf_rationale f else None)] else []),
         sx_absent = False\<rparr>)
      (rule_index rules (check_of f)))"

section \<open>A run\<close>

record harness_report =
  hr_repository :: "string option"
  hr_commit :: "string option"
  hr_version :: string
  hr_mode :: "string option"
  hr_facts_ref :: bool
  hr_degraded :: json
  hr_negative :: "json list"
  hr_steps :: "json list"
  hr_findings :: "report_finding list"
  hr_checks :: "cca_finding list"

record sarif_run =
  sn_version :: string
  sn_semantic :: string
  sn_rules :: "string list"
  sn_titles :: "string list"
  sn_results :: "sarif_result list"
  sn_successful :: "bool option"
  sn_provenance :: "(string \<times> string option) option"

definition is_cloud_config :: "harness_report \<Rightarrow> bool" where
  "is_cloud_config r \<longleftrightarrow> hr_mode r = Some ''declared'' \<or> hr_facts_ref r"

definition DEGRADED_WORDS :: "string list" where
  "DEGRADED_WORDS = [''skipped'', ''unavailable'', ''not-run'', ''tool_missing'']"

definition degraded :: "harness_report \<Rightarrow> bool" where
  "degraded r \<longleftrightarrow> json_true (hr_degraded r)
     \<or> list_ex (\<lambda>e. let text = lower (dumps_line e) in list_ex (\<lambda>w. occurs_in w text) DEGRADED_WORDS) (hr_negative r @ hr_steps r)"

definition all_some :: "'a option list \<Rightarrow> 'a list option" where
  "all_some xs = (if list_all (\<lambda>x. x \<noteq> None) xs then Some (map the xs) else None)"

definition semantic_version :: "string \<Rightarrow> string" where
  "semantic_version v = (if v = [] then ''0.0.0'' else fst (cut CHR ''-'' v))"

definition export_cloud_config :: "harness_report \<Rightarrow> sarif_run option" where
  "export_cloud_config r =
     (let rules = fromkeys (map check_of (hr_checks r)) in
      map_option (\<lambda>results.
        \<lparr>sn_version = (if hr_version r = [] then ''0.0.0'' else hr_version r), sn_semantic = semantic_version (hr_version r),
         sn_rules = rules,
         sn_titles = map (\<lambda>c. case find (\<lambda>f. check_of f = c) (hr_checks r) of None \<Rightarrow> []
           | Some f \<Rightarrow> (case cf_title f of None \<Rightarrow> c | Some t \<Rightarrow> t)) rules,
         sn_results = results, sn_successful = None,
         sn_provenance = (if truthy (hr_repository r) then Some (or_str (hr_repository r) [], None) else None)\<rparr>)
      (all_some (map (cca_result rules) (hr_checks r))))"

definition export_report :: "harness_report \<Rightarrow> sarif_run option" where
  "export_report r =
     (if is_cloud_config r then export_cloud_config r
      else
        (let rules = fromkeys (map category_of (hr_findings r)) in
         map_option (\<lambda>results.
           \<lparr>sn_version = (if hr_version r = [] then semantic_version [] else hr_version r), sn_semantic = semantic_version (hr_version r),
            sn_rules = rules, sn_titles = map (\<lambda>c. ''Harness finding category: '' @ c) rules,
            sn_results = results, sn_successful = Some (\<not> degraded r),
            sn_provenance = (if truthy (hr_repository r) then Some (or_str (hr_repository r) [],
              if truthy (hr_commit r) then hr_commit r else None) else None)\<rparr>)
         (all_some (map (result_of rules) (hr_findings r)))))"

section \<open>Which reports are exported\<close>

definition EXPORT_SUFFIXES :: "string list" where
  "EXPORT_SUFFIXES = [''-findings-current.json'', ''-security-audit.json'', ''-container-audit.json'', ''-cloud-config-audit.json'']"

function walk_visible :: "path \<Rightarrow> fsnode \<Rightarrow> (path \<times> dir_entries) list" where
  "walk_visible d (Dir es) = (d, es) # concat (map (\<lambda>e. if startswith (fst e) ''.'' then [] else walk_visible (d @ [fst e]) (snd e)) es)"
| "walk_visible d (Dir_link t es) = []"
| "walk_visible d (File c) = []"
| "walk_visible d (File_link t c) = []"
  by pat_completeness auto
termination
  by (relation "measure (\<lambda>(d, x). size x)") (auto dest: size_entry)

definition has_cumulative :: "string list \<Rightarrow> string \<Rightarrow> bool" where
  "has_cumulative names fn =
     (let stem = take (length fn - length ''.json'') fn in
      stem @ ''-findings-current.json'' \<in> set names
      \<or> list_ex (\<lambda>suf. endswith stem suf \<and> take (length stem - length suf) stem @ ''-findings-current.json'' \<in> set names)
           [''-security-audit'', ''-cloud-config-audit''])"

definition exported :: "dir_entries \<Rightarrow> string list" where
  "exported es =
     (let files = filter (\<lambda>(n, x). \<not> is_dir x) es; names = map fst files in
      map fst (filter (\<lambda>(fn, x). own_file x \<and> list_ex (endswith fn) EXPORT_SUFFIXES
          \<and> (endswith fn ''-findings-current.json'' \<or> \<not> has_cumulative names fn)) (sort_key fst files)))"

definition sweep_reports :: "fsnode \<Rightarrow> path list" where
  "sweep_reports root = concat (map (\<lambda>(d, es). map (\<lambda>fn. d @ [fn]) (exported es)) (walk_visible [] root))"

section \<open>What a run says\<close>

lemma rule_index_found: "c \<in> set rules \<Longrightarrow> \<exists>i. rule_index rules c = Some i \<and> i < length rules \<and> rules ! i = c"
proof -
  assume c: "c \<in> set rules"
  then have "index_of c rules < length rules \<and> rules ! index_of c rules = c"
    by (induction rules) (auto simp: index_of_def)
  then show ?thesis using c by (simp add: rule_index_def)
qed

lemma distinct_fromkeys: "distinct (fromkeys xs)"
  by (simp add: fromkeys_def)

text \<open>A result stands for its finding: same id, its rule under its index, and the settled ones marked.\<close>

definition result_for :: "string list \<Rightarrow> report_finding \<Rightarrow> sarif_result \<Rightarrow> bool" where
  "result_for rules f x \<longleftrightarrow> sx_finding_id x = rf_id f \<and> sx_rule x = category_of f
     \<and> sx_index x < length rules \<and> rules ! sx_index x = sx_rule x
     \<and> (sx_level x, sx_security x) = severity_map (reported_severity f)
     \<and> (sx_suppressions x \<noteq> [] \<longleftrightarrow> (\<exists>d. rf_disposition f = Some d
           \<and> (db_validity d = Some ''false_positive'' \<or> db_resolution d = Some ''risk_accepted'')))
     \<and> (sx_absent x \<longleftrightarrow> (\<exists>d. rf_disposition f = Some d \<and> db_resolution d = Some ''resolved''))"

definition check_for :: "string list \<Rightarrow> cca_finding \<Rightarrow> sarif_result \<Rightarrow> bool" where
  "check_for rules f x \<longleftrightarrow> sx_finding_id x = cf_id f \<and> sx_rule x = check_of f
     \<and> sx_index x < length rules \<and> rules ! sx_index x = sx_rule x
     \<and> (sx_level x, sx_security x) = severity_map (or_str (cf_severity f) ''informational'')
     \<and> (sx_suppressions x \<noteq> [] \<longleftrightarrow> cf_status f = Some ''suppressed'') \<and> \<not> sx_absent x"

definition run_exact :: "harness_report \<Rightarrow> sarif_run \<Rightarrow> bool" where
  "run_exact r sn \<longleftrightarrow> distinct (sn_rules sn) \<and> set (sn_rules sn) = sx_rule ` set (sn_results sn)
     \<and> length (sn_titles sn) = length (sn_rules sn)
     \<and> (if is_cloud_config r then list_all2 (check_for (sn_rules sn)) (hr_checks r) (sn_results sn)
        else list_all2 (result_for (sn_rules sn)) (hr_findings r) (sn_results sn) \<and> sn_successful sn = Some (\<not> degraded r))"

lemma all_some_map:
  assumes "\<And>x. x \<in> set xs \<Longrightarrow> \<exists>y. f x = Some y \<and> P x y"
  shows "\<exists>ys. all_some (map f xs) = Some ys \<and> list_all2 P xs ys"
proof -
  have "list_all (\<lambda>x. x \<noteq> None) (map f xs)" using assms by (fastforce simp: list_all_iff)
  moreover have "list_all2 P xs (map (the \<circ> f) xs)" using assms by (fastforce simp: list_all2_map2 intro: list_all2_same [THEN iffD2])
  ultimately show ?thesis by (simp add: all_some_def)
qed

lemma result_of_for:
  assumes "category_of f \<in> set rules"
  shows "\<exists>x. result_of rules f = Some x \<and> result_for rules f x"
proof -
  obtain i where i: "rule_index rules (category_of f) = Some i" "i < length rules" "rules ! i = category_of f"
    using rule_index_found [OF assms] by blast
  then show ?thesis
    by (auto simp: result_of_def result_for_def suppressions_of_def split: option.splits)
qed

lemma cca_result_for:
  assumes "check_of f \<in> set rules"
  shows "\<exists>x. cca_result rules f = Some x \<and> check_for rules f x"
proof -
  obtain i where i: "rule_index rules (check_of f) = Some i" "i < length rules" "rules ! i = check_of f"
    using rule_index_found [OF assms] by blast
  then show ?thesis by (auto simp: cca_result_def check_for_def Let_def)
qed

lemma list_all2_rules:
  "list_all2 P xs ys \<Longrightarrow> (\<And>x y. P x y \<Longrightarrow> g y = h x) \<Longrightarrow> g ` set ys = h ` set xs"
  by (induction xs ys rule: list_all2_induct) auto

text \<open>
  C16. The projection to SARIF loses and invents nothing. It never fails; each finding becomes one result, in the order of the
  report, whose rule stands at its index in a list of rules without repetitions that are all used; its
  level is that of the severity the dispositions leave; it is suppressed exactly when the ledger says
  false positive or accepted risk, or the auditor suppressed it, absent exactly when resolved, and a run
  is marked successful only when no step of it is recorded as left out.
\<close>

theorem sarif_projection_exact:
  "case export_report r of None \<Rightarrow> False | Some sn \<Rightarrow> run_exact r sn"
proof (cases "is_cloud_config r")
  case True
  define rules where "rules = fromkeys (map check_of (hr_checks r))"
  have "\<exists>xs. all_some (map (cca_result rules) (hr_checks r)) = Some xs \<and> list_all2 (check_for rules) (hr_checks r) xs"
    by (rule all_some_map, rule cca_result_for) (simp add: rules_def)
  then obtain xs where xs: "all_some (map (cca_result rules) (hr_checks r)) = Some xs" "list_all2 (check_for rules) (hr_checks r) xs" by blast
  moreover have "sx_rule ` set xs = check_of ` set (hr_checks r)"
    by (rule list_all2_rules [OF xs(2)]) (simp add: check_for_def)
  ultimately show ?thesis
    using True by (simp add: export_report_def export_cloud_config_def Let_def run_exact_def rules_def distinct_fromkeys)
next
  case False
  define rules where "rules = fromkeys (map category_of (hr_findings r))"
  have "\<exists>xs. all_some (map (result_of rules) (hr_findings r)) = Some xs \<and> list_all2 (result_for rules) (hr_findings r) xs"
    by (rule all_some_map, rule result_of_for) (simp add: rules_def)
  then obtain xs where xs: "all_some (map (result_of rules) (hr_findings r)) = Some xs" "list_all2 (result_for rules) (hr_findings r) xs" by blast
  moreover have "sx_rule ` set xs = category_of ` set (hr_findings r)"
    by (rule list_all2_rules [OF xs(2)]) (simp add: result_for_def)
  ultimately show ?thesis
    using False by (simp add: export_report_def Let_def run_exact_def rules_def distinct_fromkeys)
qed

section \<open>Where the projection differs from what it says\<close>

text \<open>A step recorded as failed is not among the words looked for.\<close>

lemma failed_step_not_degraded:
  "degraded \<lparr>hr_repository = None, hr_commit = None, hr_version = [], hr_mode = None, hr_facts_ref = False, hr_degraded = JNull,
     hr_negative = [], hr_steps = [JObj [(''step'', JStr ''sast''), (''status'', JStr ''failed'')]], hr_findings = [], hr_checks = []\<rparr> = False"
  by code_simp

text \<open>A range that runs backwards gives a region that ends before it starts.\<close>

lemma backward_range_kept: "region_of (Some ''10-5'') = Some (10, Some 5)" "cca_region [10, 5] = Some (10, None)"
  by code_simp+

text \<open>A container audit is exported beside its cumulative report; a cumulative report that is a link is not
  exported and hides the report it stands for.\<close>

lemma container_exported_twice:
  "exported [(''x-container-audit.json'', File Os_error), (''x-findings-current.json'', File Os_error)]
     = [''x-container-audit.json'', ''x-findings-current.json'']"
  by code_simp

lemma linked_cumulative_hides_report:
  "exported [(''x-security-audit.json'', File Os_error), (''x-findings-current.json'', File_link [] None)] = []"
  by code_simp

end
