(* ===== verification/Opengrep_Rules.thy ===== *)
theory Opengrep_Rules
  imports Corpus_Walk Py_Text
begin

text \<open>
  \<open>adapters/opengrep.py\<close>, the rules of a scan: the languages of a target, the bundled pack and what it
  covers, and the sources of rules: registry names, local paths and repositories, which are kept in a
  cache of clones that is checked against the pin before each use. The target and the pack are trees of
  files; git, and what a local path denotes, are arguments. The license notes are the constructors of a datatype.
\<close>

section \<open>Languages\<close>

definition EXCLUDES :: "string list" where
  "EXCLUDES = [''vendor'', ''node_modules'', ''third_party'', ''_output'', ''.git'']"

definition LANG_DIRS :: "(string \<times> string) list" where
  "LANG_DIRS = [(''.go'', ''go''), (''.py'', ''python''), (''.js'', ''javascript''), (''.jsx'', ''javascript''),
     (''.mjs'', ''javascript''), (''.cjs'', ''javascript''), (''.ts'', ''typescript''), (''.tsx'', ''typescript''),
     (''.java'', ''java''), (''.rb'', ''ruby''), (''.c'', ''c''), (''.h'', ''c''), (''.rs'', ''rust''), (''.php'', ''php''),
     (''.cs'', ''csharp''), (''.scala'', ''scala''), (''.kt'', ''kotlin''), (''.swift'', ''swift''), (''.cpp'', ''cpp''),
     (''.cc'', ''cpp''), (''.cxx'', ''cpp''), (''.hpp'', ''cpp''), (''.tf'', ''terraform''), (''.yaml'', ''yaml''),
     (''.yml'', ''yaml''), (''.sh'', ''bash''), (''.html'', ''html''), (''.sol'', ''solidity'')]"

definition PACK_DIRS :: "(string \<times> string) list" where
  "PACK_DIRS = [(''javascript'', ''typescript'')]"

definition pack_dir :: "string \<Rightarrow> string" where
  "pack_dir lang = (case map_of PACK_DIRS lang of None \<Rightarrow> lang | Some d \<Rightarrow> d)"

text \<open>\<open>rglob\<close> descends into directories, not into links to them; a link to a file is a file.\<close>

function tree_files :: "path \<Rightarrow> fsnode \<Rightarrow> path list" where
  "tree_files d (Dir es) = concat (map (\<lambda>e. tree_files (d @ [fst e]) (snd e)) es)"
| "tree_files d (Dir_link t es) = []"
| "tree_files d (File c) = [d]"
| "tree_files d (File_link t c) = (if c = None then [] else [d])"
  by pat_completeness auto
termination
  by (relation "measure (\<lambda>(d, x). size x)") (auto dest: size_entry)

definition file_lang :: "path \<Rightarrow> string option" where
  "file_lang p = (if p = [] \<or> hd p \<in> set EXCLUDES then None else map_of LANG_DIRS (path_suffix (last p)))"

definition detect_language_dirs :: "dir_entries \<Rightarrow> string list" where
  "detect_language_dirs target = sort (remdups (List.map_filter file_lang (tree_files [] (Dir target))))"

section \<open>What the bundled pack covers\<close>

definition THIN_RULE_THRESHOLD :: nat where
  "THIN_RULE_THRESHOLD = 8"

definition subdir :: "dir_entries \<Rightarrow> string \<Rightarrow> dir_entries option" where
  "subdir es name = (case map_of es name of Some (Dir s) \<Rightarrow> Some s | Some (Dir_link _ s) \<Rightarrow> Some s | _ \<Rightarrow> None)"

definition yaml_names :: "dir_entries \<Rightarrow> string list" where
  "yaml_names es = filter (\<lambda>n. endswith n ''.yaml'') (map fst es) @ filter (\<lambda>n. endswith n ''.yml'') (map fst es)"

definition id_lines :: "string \<Rightarrow> string list" where
  "id_lines t = filter (\<lambda>l. startswith (strip l) ''- id:'') (split_lines t)"

text \<open>\<open>None\<close> when a file of rules cannot be read as text.\<close>

definition rules_in :: "dir_entries \<Rightarrow> nat option" where
  "rules_in es = fold (\<lambda>n acc. case (acc, read_file es n) of
       (Some k, Content t) \<Rightarrow> Some (k + length (id_lines t)) | _ \<Rightarrow> None) (yaml_names es) (Some 0)"

definition pack_rule_counts :: "dir_entries \<Rightarrow> (string \<times> nat) list option" where
  "pack_rule_counts pack = those (List.map_filter (\<lambda>n. map_option (\<lambda>es. map_option (Pair n) (rules_in es)) (subdir pack n))
     (sort (map fst pack)))"

definition NON_CODE :: "string list" where
  "NON_CODE = [''yaml'', ''html'', ''terraform'']"

record lang_coverage =
  cv_detected :: "string list"
  cv_rules :: "(string \<times> nat) list"
  cv_threshold :: nat
  cv_thin :: "string list"
  cv_uncovered :: "string list"

definition coverage_block :: "dir_entries \<Rightarrow> dir_entries \<Rightarrow> lang_coverage option" where
  "coverage_block pack target = map_option (\<lambda>counts.
     let detected = filter (\<lambda>l. l \<notin> set NON_CODE) (detect_language_dirs target);
         per_lang = map (\<lambda>l. (l, case map_of counts (pack_dir l) of None \<Rightarrow> 0 | Some n \<Rightarrow> n)) detected in
     \<lparr>cv_detected = detected, cv_rules = per_lang, cv_threshold = THIN_RULE_THRESHOLD,
      cv_thin = map fst (filter (\<lambda>(l, n). 0 < n \<and> n < THIN_RULE_THRESHOLD) per_lang),
      cv_uncovered = map fst (filter (\<lambda>(l, n). n = 0) per_lang)\<rparr>) (pack_rule_counts pack)"

section \<open>The cache of clones\<close>

text \<open>
  A checkout: what \<open>git rev-parse HEAD\<close> and \<open>git status --porcelain\<close> print, \<open>None\<close> when they fail, and the
  files. Git clones a URL and checks out a commit, \<open>None\<close> when it fails.
\<close>

record git_checkout =
  co_head :: "string option"
  co_status :: "string option"
  co_files :: dir_entries

type_synonym clone_cache = "string \<Rightarrow> git_checkout option"

record git_tool =
  gt_clone :: "string \<Rightarrow> git_checkout option"
  gt_checkout :: "git_checkout \<Rightarrow> string \<Rightarrow> git_checkout option"

datatype rules_error =
    Refused_auto
  | Source_not_found string
  | Movable_ref string
  | Not_https string
  | Unverifiable string
  | Git_failed

text \<open>\<open>sys.exit\<close> and \<open>SystemExit\<close>, as against the error of a process that failed.\<close>

definition is_exit :: "rules_error \<Rightarrow> bool" where
  "is_exit e \<longleftrightarrow> e \<noteq> Git_failed"

definition clone_into :: "git_tool \<Rightarrow> string \<Rightarrow> string \<Rightarrow> string \<Rightarrow> clone_cache \<Rightarrow> bool \<times> clone_cache" where
  "clone_into G dest url ref cache = (case gt_clone G url of
       None \<Rightarrow> (False, cache)
     | Some co \<Rightarrow>
         if ref \<noteq> ''HEAD'' then (case gt_checkout G co ref of
             None \<Rightarrow> (False, cache(dest \<mapsto> co))
           | Some co' \<Rightarrow> (True, cache(dest \<mapsto> co')))
         else (True, cache(dest \<mapsto> co)))"

definition clone_trusted :: "string \<Rightarrow> git_checkout \<Rightarrow> bool" where
  "clone_trusted ref co \<longleftrightarrow> (case co_head co of None \<Rightarrow> False
     | Some h \<Rightarrow> \<not> (ref \<noteq> ''HEAD'' \<and> strip h \<noteq> ref) \<and> (case co_status co of None \<Rightarrow> False | Some t \<Rightarrow> strip t = []))"

text \<open>The clone that is there if it can be trusted, else a new one; it is checked again in any case.\<close>

definition fetch_rules :: "git_tool \<Rightarrow> string \<Rightarrow> string \<Rightarrow> string \<Rightarrow> string \<Rightarrow> clone_cache \<Rightarrow> (rules_error + git_checkout) \<times> clone_cache" where
  "fetch_rules G src dest url ref cache =
     (let (cloned, cache1) = (case cache dest of
            None \<Rightarrow> clone_into G dest url ref cache
          | Some co \<Rightarrow> if clone_trusted ref co then (True, cache) else clone_into G dest url ref (cache(dest := None)))
      in if \<not> cloned then (Inl Git_failed, cache1)
         else (case cache1 dest of
             None \<Rightarrow> (Inl (Unverifiable src), cache1)
           | Some co \<Rightarrow> if clone_trusted ref co then (Inr co, cache1) else (Inl (Unverifiable src), cache1)))"

section \<open>The sources of rules\<close>

definition FORK_RULES_REPO :: string where
  "FORK_RULES_REPO = ''https://github.com/opengrep/opengrep-rules''"

definition FORK_RULES_SHA :: string where
  "FORK_RULES_SHA = ''f1d2b562b414783763fd02a6ed2736eaed622efa''"

definition ARGUS_RULES_REPO :: string where
  "ARGUS_RULES_REPO = ''https://github.com/smith-xyz/argus-observe-rules''"

datatype license = Traust_pack | Fork_rules | Argus_rules | Registry_pack | Verify_upstream | Per_author

record rule_pack =
  rp_source :: string
  rp_config :: "string list"
  rp_sha :: "string option"
  rp_license :: license

definition REGISTRY_RX :: rx where
  "REGISTRY_RX = seq [At Bos, Cls (one_of ''pr''), lit ''/'', plus (Cls (\<lambda>c. is_word c \<or> c \<in> set ''./-'')), At Eos]"

definition replace_first :: "string \<Rightarrow> string \<Rightarrow> string \<Rightarrow> string" where
  "replace_first v w s = (case re_search (lit v) s of None \<Rightarrow> s | Some m \<Rightarrow> rev (m_before m) @ w @ m_after m)"

text \<open>\<open>URL@REF\<close>: the last \<open>@\<close> splits, except that of a host after \<open>git@\<close>.\<close>

definition URL_REF_RX :: rx where
  "URL_REF_RX = seq [At Bos, Grp 1 (Rep 1 None False (Cls (\<lambda>c. c \<noteq> CHR 0x0A))), lit ''@'',
     Grp 2 (plus (Cls (alnum_or ''._/-''))), At Eos]"

definition guard_marks :: "string \<Rightarrow> string" where
  "guard_marks src = replace_first ''git@'' [CHR 0x01] (replace_first ''://'' [CHR 0x00] src)"

definition unguard_marks :: "string \<Rightarrow> string" where
  "unguard_marks url = replace_first [CHR 0x01] ''git@'' (replace_first [CHR 0x00] ''://'' url)"

definition url_and_ref :: "string \<Rightarrow> string \<times> string" where
  "url_and_ref src =
     (let whole = (src, if rstrip_slashes src = FORK_RULES_REPO then FORK_RULES_SHA else ''HEAD'') in
      case re_match URL_REF_RX (guard_marks src) of
        None \<Rightarrow> whole
      | Some m \<Rightarrow> (case (m_group 1 m, m_group 2 m) of
            (Some url, Some ref) \<Rightarrow> if CHR ''/'' \<notin> set ref then (unguard_marks url, ref) else whole
          | _ \<Rightarrow> whole))"

definition commit_sha :: "string \<Rightarrow> bool" where
  "commit_sha ref \<longleftrightarrow> length ref = 40 \<and> list_all (\<lambda>c. is_digit c \<or> c \<in> set ''abcdef'') ref"

definition is_remote :: "string \<Rightarrow> bool" where
  "is_remote src \<longleftrightarrow> startswith src ''http://'' \<or> startswith src ''https://'' \<or> startswith src ''git@''"

record rules_env =
  re_pack_path :: string
  re_pack :: dir_entries
  re_target :: dir_entries
  re_cache_root :: string
  re_git :: git_tool
  re_local :: "string \<Rightarrow> string option"

definition subpath :: "string \<Rightarrow> string \<Rightarrow> string" where
  "subpath d n = d @ ''/'' @ n"

definition lang_paths :: "string \<Rightarrow> dir_entries \<Rightarrow> string list \<Rightarrow> string list" where
  "lang_paths root es langs = map (subpath root) (filter (\<lambda>d. subdir es d \<noteq> None) langs)"

definition default_rules :: "rules_env \<Rightarrow> rule_pack" where
  "default_rules R =
     (let dirs = sort (remdups (map pack_dir (detect_language_dirs (re_target R))));
          paths = lang_paths (re_pack_path R) (re_pack R) dirs in
      \<lparr>rp_source = ''traust rule pack'', rp_config = (if paths = [] then [re_pack_path R] else paths),
       rp_sha = None, rp_license = Traust_pack\<rparr>)"

text \<open>Where the rules of a checkout are: argus keeps them below \<open>rules\<close>, beside fixtures that are not rules.\<close>

definition rules_root :: "string \<Rightarrow> string \<Rightarrow> dir_entries \<Rightarrow> string \<times> dir_entries \<times> bool" where
  "rules_root url dest es =
     (if endswith (rstrip_slashes url) ''argus-observe-rules'' then
        (let rules = (case subdir es ''rules'' of None \<Rightarrow> [] | Some r \<Rightarrow> r) in
         case subdir rules ''languages'' of
           Some ls \<Rightarrow> (subpath (subpath dest ''rules'') ''languages'', ls, True)
         | None \<Rightarrow> (subpath dest ''rules'', rules, True))
      else (dest, es, False))"

definition repo_configs :: "rules_env \<Rightarrow> string \<Rightarrow> string \<Rightarrow> dir_entries \<Rightarrow> string list" where
  "repo_configs R url dest es =
     (case rules_root url dest es of (root, res, nested) \<Rightarrow>
        if nested \<or> endswith (rstrip_slashes url) ''opengrep-rules'' then
          (let paths = lang_paths root res (detect_language_dirs (re_target R)) in if paths = [] then [root] else paths)
        else [dest])"

definition repo_license :: "string \<Rightarrow> string \<Rightarrow> license" where
  "repo_license src url =
     (if startswith src ARGUS_RULES_REPO then Argus_rules
      else if endswith (rstrip_slashes url) ''opengrep-rules'' then Fork_rules else Verify_upstream)"

definition cache_dest :: "string \<Rightarrow> string \<Rightarrow> string \<Rightarrow> string" where
  "cache_dest root url ref = subpath root (path_name url @ ''-'' @ take 12 ref)"

definition resolve_remote :: "rules_env \<Rightarrow> string \<Rightarrow> clone_cache \<Rightarrow> (rules_error + rule_pack) \<times> clone_cache" where
  "resolve_remote R src cache =
     (case url_and_ref src of (url, ref) \<Rightarrow>
        if \<not> commit_sha ref then (Inl (Movable_ref src), cache)
        else if \<not> startswith url ''https://'' then (Inl (Not_https src), cache)
        else let dest = cache_dest (re_cache_root R) url ref in
          (case fetch_rules (re_git R) src dest url ref cache of
             (Inl e, cache1) \<Rightarrow> (Inl e, cache1)
           | (Inr co, cache1) \<Rightarrow> (Inr \<lparr>rp_source = src, rp_config = repo_configs R url dest (co_files co),
               rp_sha = map_option strip (co_head co), rp_license = repo_license src url\<rparr>, cache1)))"

definition resolve_source :: "rules_env \<Rightarrow> string \<Rightarrow> clone_cache \<Rightarrow> (rules_error + rule_pack) \<times> clone_cache" where
  "resolve_source R src cache =
     (if strip src = ''auto'' then (Inl Refused_auto, cache)
      else if re_match REGISTRY_RX src \<noteq> None then
        (Inr \<lparr>rp_source = src, rp_config = [src], rp_sha = None, rp_license = Registry_pack\<rparr>, cache)
      else if is_remote src then resolve_remote R src cache
      else (case re_local R src of
          None \<Rightarrow> (Inl (Source_not_found src), cache)
        | Some p \<Rightarrow> (Inr \<lparr>rp_source = src, rp_config = [p], rp_sha = None, rp_license = Per_author\<rparr>, cache)))"

fun resolve_sources :: "rules_env \<Rightarrow> string list \<Rightarrow> clone_cache \<Rightarrow> (rules_error + rule_pack list) \<times> clone_cache" where
  "resolve_sources R [] cache = (Inr [], cache)"
| "resolve_sources R (src # srcs) cache = (case resolve_source R src cache of
      (Inl e, cache1) \<Rightarrow> (Inl e, cache1)
    | (Inr p, cache1) \<Rightarrow> (case resolve_sources R srcs cache1 of
         (Inl e, cache2) \<Rightarrow> (Inl e, cache2)
       | (Inr ps, cache2) \<Rightarrow> (Inr (p # ps), cache2)))"

definition resolve_rules :: "rules_env \<Rightarrow> string list \<Rightarrow> clone_cache \<Rightarrow> (rules_error + rule_pack list) \<times> clone_cache" where
  "resolve_rules R sources cache =
     (if sources = [] then (Inr [default_rules R], cache) else resolve_sources R sources cache)"


section \<open>Pins\<close>

definition pristine :: "string \<Rightarrow> git_checkout \<Rightarrow> bool" where
  "pristine sha co \<longleftrightarrow> (\<exists>h t. co_head co = Some h \<and> strip h = sha \<and> co_status co = Some t \<and> strip t = [])"

lemma trusted_pristine: "ref \<noteq> ''HEAD'' \<Longrightarrow> clone_trusted ref co \<longleftrightarrow> pristine ref co"
  by (auto simp: clone_trusted_def pristine_def split: option.splits)

lemma sha_not_head: "commit_sha ref \<Longrightarrow> ref \<noteq> ''HEAD''"
  by (auto simp: commit_sha_def)

lemma clone_into_other: "clone_into G dest url ref cache = (ok, cache') \<Longrightarrow> d \<noteq> dest \<Longrightarrow> cache' d = cache d"
  by (auto simp: clone_into_def split: option.splits if_splits)

lemma fetch_rules_cases:
  assumes "fetch_rules G src dest url ref cache = (res, cache')"
  obtains (Trusted) co where "cache dest = Some co" "clone_trusted ref co" "res = Inr co" "cache' = cache"
    | (Renewed) co ok where "clone_into G dest url ref (cache(dest := None)) = (ok, cache')" "cache' dest = Some co"
        "clone_trusted ref co" "res = Inr co"
    | (Refused) e ok where "clone_into G dest url ref (cache(dest := None)) = (ok, cache')" "res = Inl e"
proof (cases "\<exists>co. cache dest = Some co \<and> clone_trusted ref co")
  case True
  with assms show ?thesis
    by (auto simp: fetch_rules_def intro: Trusted)
next
  case False
  obtain ok c1 where c: "clone_into G dest url ref (cache(dest := None)) = (ok, c1)"
    by (cases "clone_into G dest url ref (cache(dest := None))")
  have same: "cache dest = None \<Longrightarrow> cache(dest := None) = cache"
    by auto
  show ?thesis
  proof (cases "ok \<and> (\<exists>co. c1 dest = Some co \<and> clone_trusted ref co)")
    case True
    with False assms c same show ?thesis
      by (cases "cache dest") (auto simp: fetch_rules_def intro: Renewed)
  next
    case bad: False
    with False assms c same show ?thesis
      by (cases "cache dest"; cases ok; cases "c1 dest") (auto simp: fetch_rules_def split: if_splits intro: Refused)
  qed
qed

lemma fetch_rules_other:
  assumes "fetch_rules G src dest url ref cache = (res, cache')" "d \<noteq> dest"
  shows "cache' d = cache d"
  using assms(1) by (cases rule: fetch_rules_cases) (use assms(2) in \<open>auto dest: clone_into_other\<close>)

lemma fetch_rules_ok:
  assumes "fetch_rules G src dest url ref cache = (Inr co, cache')"
  shows "cache' dest = Some co \<and> clone_trusted ref co"
  using assms by (cases rule: fetch_rules_cases) auto

text \<open>A pack of a pinned clone: the pin is a commit, the rules are below the clone, and the clone is pristine at it.\<close>

definition below :: "string \<Rightarrow> string \<Rightarrow> bool" where
  "below dest c \<longleftrightarrow> c = dest \<or> startswith c (dest @ ''/'')"

definition clone_of :: "rules_env \<Rightarrow> rule_pack \<Rightarrow> string \<Rightarrow> string \<Rightarrow> bool" where
  "clone_of R p sha dest \<longleftrightarrow> commit_sha sha
     \<and> (\<exists>url. startswith url ''https://'' \<and> dest = cache_dest (re_cache_root R) url sha)
     \<and> rp_config p \<noteq> [] \<and> (\<forall>c \<in> set (rp_config p). below dest c)"

lemma below_child: "below dest d \<Longrightarrow> below dest (subpath d n)"
  by (auto simp: below_def subpath_def startswith_iff)

lemma below_refl: "below dest dest"
  by (simp add: below_def)

lemma lang_paths_below: "below dest root \<Longrightarrow> c \<in> set (lang_paths root es langs) \<Longrightarrow> below dest c"
  by (auto simp: lang_paths_def intro: below_child)

lemma rules_root_below: "below dest (fst (rules_root url dest es))"
  by (auto simp: rules_root_def Let_def below_refl below_child split: option.split)

lemma repo_configs_below: "repo_configs R url dest es \<noteq> [] \<and> (\<forall>c \<in> set (repo_configs R url dest es). below dest c)"
  using rules_root_below [of dest url es]
  by (auto simp: repo_configs_def Let_def below_refl split: prod.splits dest: lang_paths_below)

lemma resolve_remote_ok:
  assumes "resolve_remote R src cache = (Inr p, cache')"
  shows "\<exists>sha dest. rp_sha p = Some sha \<and> clone_of R p sha dest \<and> (\<exists>co. cache' dest = Some co \<and> pristine sha co)
    \<and> (\<forall>d. d \<noteq> dest \<longrightarrow> cache' d = cache d)"
proof -
  obtain url ref where ur: "url_and_ref src = (url, ref)"
    by (cases "url_and_ref src")
  let ?dest = "cache_dest (re_cache_root R) url ref"
  from assms ur have sha: "commit_sha ref" and url: "startswith url ''https://''"
    by (auto simp: resolve_remote_def split: if_splits)
  with assms ur obtain co where co: "fetch_rules (re_git R) src ?dest url ref cache = (Inr co, cache')"
    and p: "rp_sha p = map_option strip (co_head co)" "rp_config p = repo_configs R url ?dest (co_files co)"
    by (auto simp: resolve_remote_def Let_def split: prod.splits sum.splits)
  from fetch_rules_ok [OF co] have ok: "cache' ?dest = Some co" "pristine ref co"
    by (auto simp: trusted_pristine [OF sha_not_head [OF sha]])
  from ok(2) p have "rp_sha p = Some ref"
    by (auto simp: pristine_def)
  moreover have "clone_of R p ref ?dest"
    using sha url p(2) repo_configs_below by (auto simp: clone_of_def)
  ultimately show ?thesis
    using ok fetch_rules_other [OF co] by blast
qed

lemma resolve_source_ok:
  assumes "resolve_source R src cache = (Inr p, cache')"
  shows "rp_sha p = None \<and> cache' = cache \<or> resolve_remote R src cache = (Inr p, cache')"
  using assms by (auto simp: resolve_source_def split: if_splits option.splits)

text \<open>The directory of a clone ends in the first twelve digits of its pin.\<close>

lemma cache_dest_pin:
  assumes "cache_dest r u s = cache_dest r v t" "commit_sha s" "commit_sha t"
  shows "take 12 s = take 12 t"
proof -
  have len: "length (take 12 s) = 12" "length (take 12 t) = 12"
    using assms(2,3) by (simp_all add: commit_sha_def)
  have last: "drop (length (a @ b) - 12) (a @ b) = b" if "length b = 12" for a b :: string
    using that by simp
  have "cache_dest r w x = (r @ ''/'' @ path_name w @ ''-'') @ take 12 x" for w x
    by (simp add: cache_dest_def subpath_def)
  with last [OF len(1)] last [OF len(2)] assms(1) show ?thesis
    by metis
qed

definition pinned_in :: "rules_env \<Rightarrow> clone_cache \<Rightarrow> rule_pack \<Rightarrow> bool" where
  "pinned_in R cache p \<longleftrightarrow> (\<forall>sha. rp_sha p = Some sha \<longrightarrow>
     (\<exists>dest co. clone_of R p sha dest \<and> cache dest = Some co \<and> pristine sha co))"

text \<open>Fetching again leaves a pinned clone alone, unless another pin shares its directory.\<close>

lemma pinned_kept:
  assumes "pinned_in R cache p" "resolve_source R src cache = (Inr q, cache')"
    "\<And>s t. rp_sha p = Some s \<Longrightarrow> rp_sha q = Some t \<Longrightarrow> take 12 s = take 12 t \<Longrightarrow> s = t"
  shows "pinned_in R cache' p"
proof (unfold pinned_in_def, intro allI impI)
  fix s
  assume s: "rp_sha p = Some s"
  with assms(1) obtain dest co where d: "clone_of R p s dest" "cache dest = Some co" "pristine s co"
    by (auto simp: pinned_in_def)
  consider "cache' = cache" | "resolve_remote R src cache = (Inr q, cache')"
    using resolve_source_ok [OF assms(2)] by blast
  then show "\<exists>dest co. clone_of R p s dest \<and> cache' dest = Some co \<and> pristine s co"
  proof cases
    case 2
    from resolve_remote_ok [OF this] obtain t e co' where t: "rp_sha q = Some t" "clone_of R q t e"
      "cache' e = Some co'" "pristine t co'" "\<forall>d. d \<noteq> e \<longrightarrow> cache' d = cache d"
      by blast
    show ?thesis
    proof (cases "e = dest")
      case True
      have "s = t"
        using True d(1) t(2) by (auto simp: clone_of_def intro!: assms(3) [OF s t(1)] dest: cache_dest_pin)
      with True t d show ?thesis
        by blast
    next
      case False
      with d t(5) show ?thesis
        by auto
    qed
  qed (use d in blast)
qed

lemma pinned_once:
  assumes "resolve_source R src cache = (Inr p, cache')"
  shows "pinned_in R cache' p"
  using resolve_source_ok [OF assms]
proof
  assume "resolve_remote R src cache = (Inr p, cache')"
  from resolve_remote_ok [OF this] show ?thesis
    unfolding pinned_in_def by (metis option.inject)
qed (simp add: pinned_in_def)

definition pins_differ :: "rule_pack list \<Rightarrow> bool" where
  "pins_differ ps \<longleftrightarrow> (\<forall>p \<in> set ps. \<forall>q \<in> set ps. \<forall>s t. rp_sha p = Some s \<and> rp_sha q = Some t \<and> take 12 s = take 12 t
     \<longrightarrow> s = t)"

lemma resolve_sources_keep:
  "resolve_sources R srcs cache = (Inr ps, cache') \<Longrightarrow> pins_differ (qs @ ps) \<Longrightarrow> list_all (pinned_in R cache) qs \<Longrightarrow>
     list_all (pinned_in R cache') (qs @ ps)"
proof (induction srcs arbitrary: cache qs ps)
  case (Cons src srcs)
  from Cons.prems(1) obtain p c1 ps' where p: "resolve_source R src cache = (Inr p, c1)"
    and ps: "ps = p # ps'" "resolve_sources R srcs c1 = (Inr ps', cache')"
    by (auto split: prod.splits sum.splits)
  have "pinned_in R c1 q" if q: "q \<in> set qs" for q
  proof (rule pinned_kept [OF _ p])
    show "pinned_in R cache q"
      using Cons.prems(3) q by (auto simp: list_all_iff)
    show "s = t" if "rp_sha q = Some s" "rp_sha p = Some t" "take 12 s = take 12 t" for s t
      using Cons.prems(2) q that ps(1) by (auto simp: pins_differ_def)
  qed
  with pinned_once [OF p] have "list_all (pinned_in R c1) (qs @ [p])"
    by (auto simp: list_all_iff)
  from Cons.IH [OF ps(2) _ this] Cons.prems(2) ps(1) show ?case
    by simp
qed auto

lemma resolve_sources_sha:
  "resolve_sources R srcs cache = (Inr ps, cache') \<Longrightarrow> list_all2 (\<lambda>src p. rp_source p = src \<and> (rp_sha p \<noteq> None) =
     (strip src \<noteq> ''auto'' \<and> re_match REGISTRY_RX src = None \<and> is_remote src)) srcs ps"
proof (induction srcs arbitrary: cache ps)
  case (Cons src srcs)
  from Cons.prems obtain p c1 ps' where p: "resolve_source R src cache = (Inr p, c1)"
    and ps: "ps = p # ps'" "resolve_sources R srcs c1 = (Inr ps', cache')"
    by (auto split: prod.splits sum.splits)
  have "rp_source p = src \<and> (rp_sha p \<noteq> None) = (strip src \<noteq> ''auto'' \<and> re_match REGISTRY_RX src = None \<and> is_remote src)"
    using p resolve_remote_ok [of R src cache p c1]
    by (auto simp: resolve_source_def resolve_remote_def Let_def split: if_splits option.splits prod.splits sum.splits)
  with Cons.IH [OF ps(2)] ps(1) show ?case
    by simp
qed auto


text \<open>
  C1. Rules run as pinned. When the sources of rules resolve, whatever the cache held before, every
  repository source has a commit of forty hexadecimal digits as its pin, its rules are read below one
  directory of the cache, and that directory holds a clone whose head is that commit and whose work tree
  is clean; a poisoned or outdated clone is never used. Two pins that share their first twelve digits
  would share a directory and are excluded. Every pack is of its source, and exactly the sources
  that are repositories are pinned.
\<close>

theorem rules_are_pinned:
  assumes "resolve_rules R sources cache = (Inr ps, cache')" and "pins_differ ps"
  shows "(\<forall>p \<in> set ps. \<forall>sha. rp_sha p = Some sha \<longrightarrow>
      (\<exists>dest co. clone_of R p sha dest \<and> cache' dest = Some co \<and> pristine sha co))
    \<and> (sources \<noteq> [] \<longrightarrow> list_all2 (\<lambda>src p. rp_source p = src \<and> (rp_sha p \<noteq> None) =
         (strip src \<noteq> ''auto'' \<and> re_match REGISTRY_RX src = None \<and> is_remote src)) sources ps)"
proof (cases "sources = []")
  case True
  with assms(1) show ?thesis
    by (auto simp: resolve_rules_def default_rules_def Let_def)
next
  case False
  with assms(1) have r: "resolve_sources R sources cache = (Inr ps, cache')"
    by (simp add: resolve_rules_def)
  from resolve_sources_keep [OF r, of "[]"] assms(2) have "list_all (pinned_in R cache') ps"
    by simp
  with resolve_sources_sha [OF r] show ?thesis
    by (auto simp: list_all_iff pinned_in_def)
qed

text \<open>A cached clone at its pin with a changed file, which is thrown away and cloned again.\<close>

definition pin_a :: string where
  "pin_a = replicate 40 CHR ''a''"

definition clean_clone :: git_checkout where
  "clean_clone = \<lparr>co_head = Some (pin_a @ [CHR 0x0A]), co_status = Some [], co_files = [(''go'', Dir [])]\<rparr>"

definition poisoned_clone :: git_checkout where
  "poisoned_clone = \<lparr>co_head = Some (pin_a @ [CHR 0x0A]), co_status = Some '' M go/r.yaml'', co_files = [(''go'', Dir [])]\<rparr>"

definition rules_env_a :: rules_env where
  "rules_env_a = \<lparr>re_pack_path = ''/pack'', re_pack = [(''go'', Dir [])], re_target = [(''main.go'', File (Content []))],
     re_cache_root = ''/cache'', re_git = \<lparr>gt_clone = (\<lambda>_. Some clean_clone), gt_checkout = (\<lambda>co _. Some co)\<rparr>,
     re_local = (\<lambda>_. None)\<rparr>"

definition source_a :: string where
  "source_a = ''https://h/opengrep-rules@'' @ pin_a"

definition dest_a :: string where
  "dest_a = ''/cache/opengrep-rules-aaaaaaaaaaaa''"

definition pack_a :: rule_pack where
  "pack_a = \<lparr>rp_source = source_a, rp_config = [subpath dest_a ''go''], rp_sha = Some pin_a, rp_license = Fork_rules\<rparr>"

lemma poisoned_renewed:
  "resolve_rules rules_env_a [source_a] [dest_a \<mapsto> poisoned_clone] = (Inr [pack_a], [dest_a \<mapsto> clean_clone])"
proof -
  have "url_and_ref source_a = (''https://h/opengrep-rules'', pin_a)"
    by code_simp
  moreover have "re_match REGISTRY_RX source_a = None" "strip source_a \<noteq> ''auto''" "is_remote source_a" "commit_sha pin_a"
    "cache_dest ''/cache'' ''https://h/opengrep-rules'' pin_a = dest_a" "\<not> clone_trusted pin_a poisoned_clone"
    "clone_trusted pin_a clean_clone" "strip (pin_a @ [CHR 0x0A]) = pin_a" "pin_a \<noteq> ''HEAD''"
    "repo_configs rules_env_a ''https://h/opengrep-rules'' dest_a [(''go'', Dir [])] = [subpath dest_a ''go'']"
    "repo_license source_a ''https://h/opengrep-rules'' = Fork_rules" "startswith ''https://h/opengrep-rules'' ''https://''"
    by code_simp+
  ultimately show ?thesis
    by (simp add: resolve_rules_def resolve_source_def resolve_remote_def fetch_rules_def clone_into_def rules_env_a_def
        clean_clone_def pack_a_def)
qed

theorem rules_are_pinned_witness:
  "\<exists>dest co. clone_of rules_env_a pack_a pin_a dest \<and> [dest_a \<mapsto> clean_clone] dest = Some co \<and> pristine pin_a co"
  using rules_are_pinned [OF poisoned_renewed] by (simp add: pins_differ_def pack_a_def)

end
