(* ===== verification/Opengrep.thy ===== *)
theory Opengrep
  imports Opengrep_Rules Versions "HOL-Library.Sublist"
begin

text \<open>
  \<open>adapters/opengrep.py\<close>, the scan: supplemental packs and allowlists, the facts in their normal form, the
  lines the target marks as exempt, and the findings. The engine's run is a function of its command; its
  output is a record in which absent keys are absent values. What a path resolves to and the lines
  of a file are arguments. Texts of rules in a document are empty where the value is false.
\<close>

section \<open>Allowlists\<close>

definition bare_rule_id :: "string \<Rightarrow> string" where
  "bare_rule_id check_id = after_last CHR ''.'' check_id"

record supplement =
  su_name :: string
  su_source :: string
  su_rules :: "string list"

record pack_cfg =
  pc_enabled :: bool
  pc_rules :: "string list"
  pc_source :: string

text \<open>The packs by name, \<open>None\<close> for one whose configuration is no mapping; no packs when there is no allowlist.\<close>

definition supplement_of :: "string \<times> pack_cfg option \<Rightarrow> supplement option" where
  "supplement_of p = (case snd p of
       None \<Rightarrow> None
     | Some c \<Rightarrow> if \<not> pc_enabled c then None
         else (let rules = filter (\<lambda>r. r \<noteq> []) (pc_rules c) in
           if rules = [] \<or> pc_source c = [] then None
           else Some \<lparr>su_name = fst p, su_source = pc_source c, su_rules = rules\<rparr>))"

definition load_supplemental_packs :: "(string \<times> pack_cfg option) list option \<Rightarrow> supplement list" where
  "load_supplemental_packs packs = (case packs of None \<Rightarrow> [] | Some ps \<Rightarrow> List.map_filter supplement_of ps)"

text \<open>What \<open>rglob\<close> finds below a directory, by name; only the text of a file can be read.\<close>

function all_entries :: "fsnode \<Rightarrow> (string \<times> file_content) list" where
  "all_entries (Dir es) = concat (map (\<lambda>e. case snd e of
       File c \<Rightarrow> [(fst e, c)]
     | File_link _ (Some c) \<Rightarrow> [(fst e, c)]
     | File_link _ None \<Rightarrow> [(fst e, Os_error)]
     | x \<Rightarrow> (fst e, Os_error) # all_entries x) es)"
| "all_entries (Dir_link t es) = []"
| "all_entries (File c) = []"
| "all_entries (File_link t c) = []"
  by pat_completeness auto
termination
  by (relation "measure size") (auto dest: size_entry)

definition rule_id_text :: "string \<Rightarrow> string" where
  "rule_id_text line = strip_set [CHR 0x22, CHR 0x27]
     (strip (case snd (cut CHR '':'' (strip line)) of None \<Rightarrow> [] | Some t \<Rightarrow> t))"

text \<open>Undecodable bytes are left out, so such a file still has a text, an argument; \<open>None\<close> when a file cannot be read.\<close>

definition ids_of_file :: "(string \<Rightarrow> string) \<Rightarrow> string \<times> file_content \<Rightarrow> string list option" where
  "ids_of_file lossy f = (case f of (n, c) \<Rightarrow>
     if endswith n ''.yaml'' \<or> endswith n ''.yml'' then
       (case c of Content t \<Rightarrow> Some (map rule_id_text (id_lines t))
        | Undecodable \<Rightarrow> Some (map rule_id_text (id_lines (lossy n)))
        | Os_error \<Rightarrow> None)
     else Some [])"

definition harness_pack_rule_ids :: "(string \<Rightarrow> string) \<Rightarrow> dir_entries \<Rightarrow> string list option" where
  "harness_pack_rule_ids lossy pack = map_option concat (those (map (ids_of_file lossy) (all_entries (Dir pack))))"

datatype allow_doc = Packs_doc "string list option list" | List_doc "string list" | Other_doc

record allow_file =
  af_path :: string
  af_text :: string
  af_doc :: allow_doc

datatype allow_error = No_such_file string | No_rule_ids string

definition plain_id :: "string \<Rightarrow> string option" where
  "plain_id line =
     (let l = strip (fst (cut CHR ''#'' line)) in
      if \<not> startswith l ''-'' \<and> CHR '':'' \<in> set l then None
      else (let i = strip_set [CHR 0x27, CHR 0x22] (strip (lstrip_set ''-'' l)) in
        if i \<noteq> [] \<and> \<not> endswith i '':'' \<and> CHR '':'' \<notin> set i then Some i else None))"

definition allow_ids :: "allow_file \<Rightarrow> string list" where
  "allow_ids f = (case af_doc f of
       Packs_doc cfgs \<Rightarrow> concat (map (\<lambda>c. case c of None \<Rightarrow> [] | Some rs \<Rightarrow> filter (\<lambda>r. r \<noteq> []) rs) cfgs)
     | List_doc rs \<Rightarrow> filter (\<lambda>r. r \<noteq> []) rs
     | Other_doc \<Rightarrow> List.map_filter plain_id (split_lines (af_text f)))"

definition load_rule_allowlist :: "(string \<Rightarrow> allow_file option) \<Rightarrow> string option \<Rightarrow> allow_error + (string list \<times> string) option" where
  "load_rule_allowlist files spec =
     (if \<not> truthy spec then Inr None
      else (let s = the spec in
        bind_res
          (if startswith s ''@'' then (case files (tl s) of
               None \<Rightarrow> Inl (No_such_file (tl s))
             | Some f \<Rightarrow> Inr (allow_ids f, af_path f))
           else Inr (filter (\<lambda>i. i \<noteq> []) (map strip (split_on CHR '','' s)), ''inline''))
          (\<lambda>(ids, src). if ids = [] then Inl (No_rule_ids src) else Inr (Some (ids, src)))))"

section \<open>Facts\<close>

datatype tags = No_tags | One_tag string | Tags "string list"

definition tag_list :: "tags \<Rightarrow> string list" where
  "tag_list t = (case t of No_tags \<Rightarrow> [] | One_tag s \<Rightarrow> if s = [] then [] else [s] | Tags ss \<Rightarrow> ss)"

record og_result =
  gr_check_id :: "string option"
  gr_path :: string
  gr_start :: nat
  gr_end :: nat
  gr_severity :: string
  gr_message :: "string option"
  gr_lines :: "string option"
  gr_cwe :: tags
  gr_owasp :: tags
  gr_owasp_llm :: tags
  gr_confidence :: "string option"
  gr_trace :: bool

record og_error =
  ge_level :: "string option"
  ge_type :: "string option"
  ge_message :: string
  ge_path :: "string option"

record og_output =
  go_results :: "og_result list"
  go_errors :: "og_error list"
  go_scanned :: nat
  go_skipped_rules :: nat

record og_fact =
  fa_rule_id :: string
  fa_severity_hint :: string
  fa_file :: string
  fa_start :: nat
  fa_end :: nat
  fa_message :: string
  fa_cwe :: "string list"
  fa_owasp :: "string list"
  fa_owasp_llm :: "string list"
  fa_confidence :: "string option"
  fa_taint :: bool
  fa_snippet :: string
  fa_test_path :: bool
  fa_nosem_marked :: bool

definition SEVERITY_HINT :: "(string \<times> string) list" where
  "SEVERITY_HINT = [(''ERROR'', ''high''), (''WARNING'', ''medium''), (''INFO'', ''low'')]"

definition TEST_PATH_RX :: rx where
  "TEST_PATH_RX = seq [Alt (At Bos) (lit ''/''),
     alts [Cat (lit ''test'') (opt (lit ''s'')), lit ''e2e'', Cat (lit ''example'') (opt (lit ''s'')), lit ''testdata'', lit ''hack''],
     Alt (lit ''/'') (At Eos)]"

definition NOSEM_RX :: rx where
  "NOSEM_RX = seq [At Word_boundary, ilit ''nosem'', opt (ilit ''grep''), At Word_boundary]"

definition has_nosem :: "string \<Rightarrow> bool" where
  "has_nosem s \<longleftrightarrow> re_search NOSEM_RX s \<noteq> None"

text \<open>The loop over the numbered lines of the file.\<close>

fun nosem_between :: "nat \<Rightarrow> nat \<Rightarrow> nat \<Rightarrow> string list \<Rightarrow> bool" where
  "nosem_between first stop lineno [] = False"
| "nosem_between first stop lineno (l # ls) =
     (if lineno > stop then False
      else if lineno \<ge> first \<and> has_nosem l then True
      else nosem_between first stop (Suc lineno) ls)"

record file_view =
  fv_target :: path
  fv_resolve :: "string \<Rightarrow> path"
  fv_lines :: "string \<Rightarrow> string list option"

definition path_text :: "path \<Rightarrow> string" where
  "path_text p = CHR ''/'' # join ''/'' p"

definition nosem_marked :: "file_view \<Rightarrow> og_result \<Rightarrow> bool" where
  "nosem_marked V r \<longleftrightarrow>
     (if has_nosem (or_str (gr_lines r) []) then True
      else if gr_path r = [] \<or> gr_start r < 1 then False
      else (let file = (if startswith (gr_path r) ''/'' then gr_path r else subpath (path_text (fv_target V)) (gr_path r)) in
        case fv_lines V file of
          None \<Rightarrow> False
        | Some ls \<Rightarrow> nosem_between (max 1 (gr_start r - 1)) (max (gr_start r) (gr_end r)) 1 ls))"

definition relative_path :: "file_view \<Rightarrow> string \<Rightarrow> string" where
  "relative_path V p =
     (let r = fv_resolve V p; n = length (fv_target V) in
      if take n r = fv_target V then (if drop n r = [] then ''.'' else join ''/'' (drop n r)) else p)"

definition fact_of :: "file_view \<Rightarrow> og_result \<Rightarrow> og_fact" where
  "fact_of V r = (let rel = relative_path V (gr_path r) in
     \<lparr>fa_rule_id = bare_rule_id (case gr_check_id r of None \<Rightarrow> ''?'' | Some c \<Rightarrow> c),
      fa_severity_hint = (case map_of SEVERITY_HINT (gr_severity r) of None \<Rightarrow> ''low'' | Some h \<Rightarrow> h),
      fa_file = rel, fa_start = gr_start r, fa_end = gr_end r,
      fa_message = take 400 (or_str (gr_message r) []),
      fa_cwe = tag_list (gr_cwe r), fa_owasp = tag_list (gr_owasp r), fa_owasp_llm = tag_list (gr_owasp_llm r),
      fa_confidence = gr_confidence r, fa_taint = gr_trace r,
      fa_snippet = take 200 (or_str (gr_lines r) []),
      fa_test_path = (re_search TEST_PATH_RX rel \<noteq> None), fa_nosem_marked = nosem_marked V r\<rparr>)"

definition og_error_of :: "og_error \<Rightarrow> og_error" where
  "og_error_of e = e\<lparr>ge_message := take 300 (ge_message e)\<rparr>"

definition normalize_output :: "file_view \<Rightarrow> og_output \<Rightarrow> og_fact list \<times> og_error list" where
  "normalize_output V raw = (map (fact_of V) (go_results raw), map og_error_of (go_errors raw))"

section \<open>The scan\<close>

datatype tool_run = Timed_out | No_json | Ran og_output

record scan_env =
  se_rules :: rules_env
  se_view :: file_view
  se_bin :: string
  se_run :: "string list \<Rightarrow> tool_run"
  se_version :: string
  se_lossy :: "string \<Rightarrow> string"
  se_files :: "string \<Rightarrow> allow_file option"
  se_coverage_pack :: dir_entries

datatype scan_error =
    Rules_failed rules_error
  | Tool_timeout
  | Tool_no_json
  | Allowlist_failed allow_error
  | No_version_line
  | Unreadable_rules

record allow_summary =
  al_source :: string
  al_rules :: "string list"
  al_suppressed :: nat

record og_report =
  or_version :: string
  or_target :: string
  or_rules :: "rule_pack list"
  or_applied :: "string list"
  or_skipped :: "(string \<times> rules_error) list"
  or_allowlist :: "allow_summary option"
  or_stats :: "nat \<times> nat \<times> nat \<times> nat \<times> nat"
  or_coverage :: lang_coverage
  or_facts :: "og_fact list"
  or_errors :: "og_error list"

text \<open>The supplements: one whose rules are refused is skipped, the error of a process ends the scan.\<close>

record supplied_rules =
  sd_rules :: "rule_pack list"
  sd_applied :: "string list"
  sd_allow :: "string list"
  sd_skipped :: "(string \<times> rules_error) list"

fun add_supplements :: "rules_env \<Rightarrow> supplement list \<Rightarrow> supplied_rules \<Rightarrow> clone_cache \<Rightarrow> (rules_error + supplied_rules) \<times> clone_cache" where
  "add_supplements R [] acc cache = (Inr acc, cache)"
| "add_supplements R (s # ss) acc cache = (case resolve_rules R [su_source s] cache of
      (Inl e, cache1) \<Rightarrow>
        if is_exit e then add_supplements R ss (acc\<lparr>sd_skipped := sd_skipped acc @ [(su_name s, e)]\<rparr>) cache1
        else (Inl e, cache1)
    | (Inr ps, cache1) \<Rightarrow> add_supplements R ss
        (acc\<lparr>sd_rules := sd_rules acc @ ps, sd_applied := sd_applied acc @ [su_name s],
             sd_allow := sd_allow acc @ su_rules s\<rparr>) cache1)"

definition scan_rules :: "rules_env \<Rightarrow> string list \<Rightarrow> supplement list \<Rightarrow> clone_cache \<Rightarrow> (rules_error + supplied_rules) \<times> clone_cache" where
  "scan_rules R sources supps cache = (case resolve_rules R sources cache of
       (Inl e, cache1) \<Rightarrow> (Inl e, cache1)
     | (Inr ps, cache1) \<Rightarrow>
         add_supplements R (if sources = [] then supps else []) \<lparr>sd_rules = ps, sd_applied = [], sd_allow = [], sd_skipped = []\<rparr> cache1)"

definition scan_command :: "string \<Rightarrow> string \<Rightarrow> rule_pack list \<Rightarrow> string list" where
  "scan_command bin target rules =
     [bin, ''scan'', ''--json'', ''--quiet'', ''--disable-nosem'']
     @ concat (map (\<lambda>r. concat (map (\<lambda>c. [''--config'', c]) (rp_config r))) rules)
     @ concat (map (\<lambda>e. [''--exclude'', e]) EXCLUDES) @ [target]"

definition supplement_source :: "nat \<Rightarrow> nat \<Rightarrow> string" where
  "supplement_source n k = ''rule-pack-allowlist.yaml ('' @ show_nat n @ '' supplemental + '' @ show_nat k @ '' traust rule pack rules)''"

definition scan_allow :: "scan_env \<Rightarrow> supplied_rules \<Rightarrow> (string list \<times> string) option \<Rightarrow> scan_error + (string list \<times> string) option" where
  "scan_allow E sd given =
     (if given = None \<and> sd_allow sd \<noteq> [] then
        (case harness_pack_rule_ids (se_lossy E) (re_pack (se_rules E)) of
           None \<Rightarrow> Inl Unreadable_rules
         | Some own \<Rightarrow> Inr (Some (sd_allow sd @ own,
             supplement_source (length (remdups (sd_allow sd))) (length (remdups own)))))
      else Inr given)"

definition tool_output :: "tool_run \<Rightarrow> scan_error + og_output" where
  "tool_output t = (case t of Timed_out \<Rightarrow> Inl Tool_timeout | No_json \<Rightarrow> Inl Tool_no_json | Ran raw \<Rightarrow> Inr raw)"

definition lift_err :: "('e \<Rightarrow> 'f) \<Rightarrow> 'e + 'a \<Rightarrow> 'f + 'a" where
  "lift_err f r = (case r of Inl e \<Rightarrow> Inl (f e) | Inr x \<Rightarrow> Inr x)"

definition report_of :: "scan_env \<Rightarrow> supplied_rules \<Rightarrow> og_output \<Rightarrow> (string list \<times> string) option \<Rightarrow> string \<Rightarrow> lang_coverage \<Rightarrow> og_report" where
  "report_of E sd raw allow version cov =
     (let (facts, errors) = normalize_output (se_view E) raw;
          kept = (case allow of None \<Rightarrow> facts | Some (ids, _) \<Rightarrow> filter (\<lambda>f. fa_rule_id f \<in> set ids) facts);
          suppressed = length facts - length kept in
      \<lparr>or_version = version, or_target = path_text (fv_target (se_view E)), or_rules = sd_rules sd, or_applied = sd_applied sd,
       or_skipped = sd_skipped sd,
       or_allowlist = map_option (\<lambda>(ids, src). \<lparr>al_source = src, al_rules = sort (remdups ids), al_suppressed = suppressed\<rparr>) allow,
       or_stats = (length kept, go_scanned raw, length errors, go_skipped_rules raw, suppressed),
       or_coverage = cov, or_facts = kept, or_errors = errors\<rparr>)"

definition execute_opengrep_scan :: "scan_env \<Rightarrow> string list \<Rightarrow> string option \<Rightarrow> (string \<times> pack_cfg option) list option \<Rightarrow> clone_cache
    \<Rightarrow> scan_error + og_report" where
  "execute_opengrep_scan E sources rule_allow packs cache =
     bind_res (lift_err Rules_failed (fst (scan_rules (se_rules E) sources (load_supplemental_packs packs) cache))) (\<lambda>sd.
     bind_res (tool_output (se_run E (scan_command (se_bin E) (path_text (fv_target (se_view E))) (sd_rules sd)))) (\<lambda>raw.
     bind_res (lift_err Allowlist_failed (load_rule_allowlist (se_files E) rule_allow)) (\<lambda>given.
     bind_res (scan_allow E sd given) (\<lambda>allow.
     bind_res (case split_lines (strip (se_version E)) of [] \<Rightarrow> Inl No_version_line | ls \<Rightarrow> Inr (last ls)) (\<lambda>version.
     bind_res (case coverage_block (se_coverage_pack E) (re_target (se_rules E)) of
         None \<Rightarrow> Inl Unreadable_rules | Some c \<Rightarrow> Inr c) (\<lambda>cov.
     Inr (report_of E sd raw allow version cov)))))))"

section \<open>Findings\<close>

record adapter_finding =
  af_id :: string
  af_title :: string
  af_severity :: string
  af_cwes :: "string list"
  af_location :: "string \<times> string"
  af_description :: string
  af_evidence :: "string list"
  af_category :: string

record adapter_result =
  ar_target :: string
  ar_tool :: string
  ar_version :: string
  ar_findings :: "adapter_finding list"
  ar_total :: nat
  ar_by_severity :: "(string \<times> nat) list"

definition format_lines :: "nat \<Rightarrow> nat \<Rightarrow> string" where
  "format_lines start stop =
     (if start = 0 then [] else if stop \<noteq> 0 \<and> stop \<noteq> start then show_nat start @ ''-'' @ show_nat stop else show_nat start)"

definition nosem_note :: string where
  "nosem_note = ''The target marks this line with a nosem comment; a suppression shipped by the audited repo is not an exemption, judge the fact.''"

definition describe :: "og_fact \<Rightarrow> string" where
  "describe f = (if fa_nosem_marked f then
       (if fa_message f \<noteq> [] then fa_message f @ '' ('' @ nosem_note @ '')'' else nosem_note)
     else fa_message f)"

definition fact_finding :: "og_fact \<Rightarrow> adapter_finding" where
  "fact_finding f =
     \<lparr>af_id = ''opengrep/'' @ fa_rule_id f,
      af_title = (if fa_message f \<noteq> [] then fa_message f else fa_rule_id f),
      af_severity = lower (fa_severity_hint f), af_cwes = fa_cwe f,
      af_location = (fa_file f, format_lines (fa_start f) (fa_end f)),
      af_description = describe f,
      af_evidence = (if fa_snippet f = [] then [] else [fa_snippet f]),
      af_category = fa_rule_id f\<rparr>"

definition build_adapter_result :: "string \<Rightarrow> string \<Rightarrow> string \<Rightarrow> adapter_finding list \<Rightarrow> adapter_result" where
  "build_adapter_result target tool version findings =
     \<lparr>ar_target = target, ar_tool = tool, ar_version = version, ar_findings = findings,
      ar_total = length findings, ar_by_severity = count_by af_severity findings\<rparr>"

definition opengrep_scan :: "scan_env \<Rightarrow> string list \<Rightarrow> string option \<Rightarrow> (string \<times> pack_cfg option) list option \<Rightarrow> clone_cache
    \<Rightarrow> scan_error + adapter_result" where
  "opengrep_scan E sources rule_allow packs cache =
     bind_res (execute_opengrep_scan E sources rule_allow packs cache) (\<lambda>r.
       Inr (build_adapter_result (path_text (fv_target (se_view E))) ''opengrep'' (or_version r) (map fact_finding (or_facts r))))"

section \<open>What is reported\<close>

lemma nosem_between_iff:
  "nosem_between first stop n ls \<longleftrightarrow> (\<exists>k < length ls. first \<le> n + k \<and> n + k \<le> stop \<and> has_nosem (ls ! k))"
proof (induction ls arbitrary: n)
  case (Cons l ls)
  have split: "(\<exists>k < length (l # ls). first \<le> n + k \<and> n + k \<le> stop \<and> has_nosem ((l # ls) ! k)) \<longleftrightarrow>
      (first \<le> n \<and> n \<le> stop \<and> has_nosem l)
      \<or> (\<exists>k < length ls. first \<le> Suc n + k \<and> Suc n + k \<le> stop \<and> has_nosem (ls ! k))"
    by (simp add: Ex_less_Suc2)
  show ?case
    unfolding split using Cons.IH [of "Suc n"] by auto
qed simp

text \<open>A fact is marked exactly when its matched text, or a line from the one above it to its last, carries the comment.\<close>

definition marked_in_target :: "file_view \<Rightarrow> og_result \<Rightarrow> bool" where
  "marked_in_target V r \<longleftrightarrow> gr_path r \<noteq> [] \<and> 1 \<le> gr_start r
     \<and> (\<exists>ls k. fv_lines V (if startswith (gr_path r) ''/'' then gr_path r else subpath (path_text (fv_target V)) (gr_path r)) = Some ls
          \<and> k < length ls \<and> gr_start r \<le> k + 2 \<and> k + 1 \<le> max (gr_start r) (gr_end r) \<and> has_nosem (ls ! k))"

lemma nosem_marked_iff: "nosem_marked V r \<longleftrightarrow> has_nosem (or_str (gr_lines r) []) \<or> marked_in_target V r"
proof -
  have "max 1 (gr_start r - 1) \<le> 1 + k \<longleftrightarrow> gr_start r \<le> k + 2" for k
    by auto
  then show ?thesis
    by (auto simp: nosem_marked_def marked_in_target_def Let_def nosem_between_iff split: option.split)
qed

lemma add_supplements_allow:
  assumes "fst (add_supplements R ss acc cache) = Inr sd"
  shows "\<exists>taken. subseq taken ss \<and> sd_applied sd = sd_applied acc @ map su_name taken
    \<and> sd_allow sd = sd_allow acc @ concat (map su_rules taken)"
  using assms
proof (induction ss arbitrary: acc cache)
  case (Cons s ss)
  obtain res c1 where res: "resolve_rules R [su_source s] cache = (res, c1)"
    by (cases "resolve_rules R [su_source s] cache")
  show ?case
  proof (cases res)
    case (Inl e)
    with Cons.prems res have "is_exit e"
      by (auto split: if_splits)
    with Inl Cons.prems res have "fst (add_supplements R ss (acc\<lparr>sd_skipped := sd_skipped acc @ [(su_name s, e)]\<rparr>) c1) = Inr sd"
      by simp
    from Cons.IH [OF this] show ?thesis
      by auto
  next
    case (Inr ps)
    let ?acc = "acc\<lparr>sd_rules := sd_rules acc @ ps, sd_applied := sd_applied acc @ [su_name s], sd_allow := sd_allow acc @ su_rules s\<rparr>"
    from Inr Cons.prems res have "fst (add_supplements R ss ?acc c1) = Inr sd"
      by simp
    from Cons.IH [OF this] obtain taken where "subseq taken ss"
      "sd_applied sd = sd_applied ?acc @ map su_name taken" "sd_allow sd = sd_allow ?acc @ concat (map su_rules taken)"
      by blast
    then show ?thesis
      by (intro exI [of _ "s # taken"]) auto
  qed
qed auto

text \<open>The rules of the supplements that were applied.\<close>

definition applied_rule :: "supplement list \<Rightarrow> string list \<Rightarrow> string \<Rightarrow> bool" where
  "applied_rule supps applied i \<longleftrightarrow> (\<exists>s \<in> set supps. su_name s \<in> set applied \<and> i \<in> set (su_rules s))"

lemma taken_rules:
  assumes "subseq taken ss" "distinct (map su_name ss)"
  shows "(\<exists>s \<in> set taken. i \<in> set (su_rules s)) \<longleftrightarrow> applied_rule ss (map su_name taken) i"
proof -
  have "set taken \<subseteq> set ss"
    using assms(1) by (auto elim: list_emb_set)
  moreover have "s \<in> set taken" if "s \<in> set ss" "t \<in> set taken" "su_name s = su_name t" for s t
    using that assms(2) calculation by (metis (mono_tags) distinct_map inj_on_eq_iff subsetD)
  ultimately show ?thesis
    unfolding applied_rule_def by (auto simp: image_iff)
qed

lemma scan_rules_allow:
  assumes "fst (scan_rules R sources supps cache) = Inr sd" "distinct (map su_name supps)"
  shows "(i \<in> set (sd_allow sd) \<longleftrightarrow> applied_rule supps (sd_applied sd) i)
    \<and> ((\<forall>s \<in> set supps. su_rules s \<noteq> []) \<longrightarrow> sd_allow sd = [] \<longleftrightarrow> sd_applied sd = [])
    \<and> (sources \<noteq> [] \<longrightarrow> sd_applied sd = [])"
proof -
  obtain ps c1 where ps: "resolve_rules R sources cache = (Inr ps, c1)"
    using assms(1) by (cases "resolve_rules R sources cache"; cases "fst (resolve_rules R sources cache)")
      (auto simp: scan_rules_def)
  let ?ss = "if sources = [] then supps else []"
  from assms(1) ps have "fst (add_supplements R ?ss \<lparr>sd_rules = ps, sd_applied = [], sd_allow = [], sd_skipped = []\<rparr> c1) = Inr sd"
    by (simp add: scan_rules_def)
  from add_supplements_allow [OF this] obtain taken where taken: "subseq taken ?ss" "sd_applied sd = map su_name taken"
    "sd_allow sd = concat (map su_rules taken)"
    by auto
  moreover have "subseq taken supps"
    using taken(1) by (cases "sources = []") (auto dest: list_emb_Nil2)
  moreover have "set taken \<subseteq> set supps"
    using calculation(4) by (auto elim: list_emb_set)
  moreover have "sources \<noteq> [] \<Longrightarrow> taken = []"
    using taken(1) by (auto dest: list_emb_Nil2)
  ultimately show ?thesis
    using taken_rules [OF _ assms(2), of taken i] by (simp; cases taken) auto
qed

lemma supplement_of_Some: "supplement_of p = Some s \<Longrightarrow> su_rules s \<noteq> [] \<and> su_name s = fst p"
  by (auto simp: supplement_of_def Let_def split: option.splits if_splits)

lemma supplements_have_rules: "s \<in> set (load_supplemental_packs packs) \<Longrightarrow> su_rules s \<noteq> []"
  by (auto simp: load_supplemental_packs_def in_map_filter dest: supplement_of_Some split: option.splits)

lemma distinct_supplements:
  "distinct (map fst ps) \<Longrightarrow> distinct (map su_name (List.map_filter supplement_of ps))"
proof (induction ps)
  case (Cons p ps)
  have "fst p \<notin> su_name ` set (List.map_filter supplement_of ps)"
    using Cons.prems by (auto simp: in_map_filter dest!: supplement_of_Some)
  with Cons show ?case
    by (auto simp: List.map_filter_simps dest: supplement_of_Some split: option.split)
qed (simp add: List.map_filter_simps)

text \<open>The rules whose matches are reported.\<close>

definition own_rule :: "scan_env \<Rightarrow> string \<Rightarrow> bool" where
  "own_rule E i \<longleftrightarrow> (\<exists>own. harness_pack_rule_ids (se_lossy E) (re_pack (se_rules E)) = Some own \<and> i \<in> set own)"

definition reportable :: "scan_env \<Rightarrow> string option \<Rightarrow> supplement list \<Rightarrow> string list \<Rightarrow> string \<Rightarrow> bool" where
  "reportable E rule_allow supps applied i \<longleftrightarrow>
     (if truthy rule_allow then (\<exists>ids src. load_rule_allowlist (se_files E) rule_allow = Inr (Some (ids, src)) \<and> i \<in> set ids)
      else applied = [] \<or> own_rule E i \<or> applied_rule supps applied i)"

lemma load_allow_given:
  "load_rule_allowlist files spec = Inr given \<Longrightarrow> given = None \<longleftrightarrow> \<not> truthy spec"
  by (auto simp: load_rule_allowlist_def Let_def split: if_splits)

lemma lift_err_Inr [simp]: "lift_err f r = Inr x \<longleftrightarrow> r = Inr x"
  by (auto simp: lift_err_def split: sum.split)

definition kept_facts :: "(string list \<times> string) option \<Rightarrow> og_fact list \<Rightarrow> og_fact list" where
  "kept_facts allow facts = filter (\<lambda>f. case allow of None \<Rightarrow> True | Some (ids, _) \<Rightarrow> fa_rule_id f \<in> set ids) facts"

lemma report_of_fields:
  "or_facts (report_of E sd raw allow v c) = kept_facts allow (map (fact_of (se_view E)) (go_results raw))"
  "or_rules (report_of E sd raw allow v c) = sd_rules sd" "or_applied (report_of E sd raw allow v c) = sd_applied sd"
  by (auto simp: report_of_def normalize_output_def kept_facts_def Let_def split: option.split)

lemma scan_allow_reportable:
  assumes sd: "fst (scan_rules (se_rules E) sources supps cache) = Inr sd" "distinct (map su_name supps)"
    "\<forall>s \<in> set supps. su_rules s \<noteq> []"
    and given: "load_rule_allowlist (se_files E) rule_allow = Inr given" and allow: "scan_allow E sd given = Inr allow"
  shows "kept_facts allow fs = filter (\<lambda>f. reportable E rule_allow supps (sd_applied sd) (fa_rule_id f)) fs"
proof -
  have "(case allow of None \<Rightarrow> True | Some (ids, _) \<Rightarrow> i \<in> set ids) \<longleftrightarrow> reportable E rule_allow supps (sd_applied sd) i" for i
  proof (cases "truthy rule_allow")
    case True
    with load_allow_given [OF given] obtain ids src where "given = Some (ids, src)"
      by (cases given) auto
    with allow given True show ?thesis
      by (auto simp: scan_allow_def reportable_def)
  next
    case False
    with load_allow_given [OF given] have none: "given = None"
      by simp
    show ?thesis
    proof (cases "sd_allow sd = []")
      case True
      with allow none False scan_rules_allow [OF sd(1,2)] sd(3) show ?thesis
        by (auto simp: scan_allow_def reportable_def)
    next
      case ne: False
      with allow none obtain own where "harness_pack_rule_ids (se_lossy E) (re_pack (se_rules E)) = Some own"
        "allow = Some (sd_allow sd @ own, supplement_source (length (remdups (sd_allow sd))) (length (remdups own)))"
        by (auto simp: scan_allow_def split: option.splits)
      with ne False scan_rules_allow [OF sd(1,2), of i] sd(3) show ?thesis
        by (auto simp: reportable_def own_rule_def)
    qed
  qed
  then show ?thesis
    by (simp add: kept_facts_def)
qed

definition pack_entries :: "(string \<times> pack_cfg option) list option \<Rightarrow> (string \<times> pack_cfg option) list" where
  "pack_entries packs = (case packs of None \<Rightarrow> [] | Some ps \<Rightarrow> ps)"

lemma distinct_loaded: "distinct (map fst (pack_entries packs)) \<Longrightarrow> distinct (map su_name (load_supplemental_packs packs))"
  by (auto simp: pack_entries_def load_supplemental_packs_def distinct_supplements split: option.splits)

text \<open>
  A rule of the bundled pack, said of its files and not of the ids the code collects: a file called
  \<open>.yaml\<close> or \<open>.yml\<close> somewhere below the pack has a line with \<open>- id:\<close>, the id, perhaps in quotes, and nothing else.
\<close>

inductive holds_file :: "dir_entries \<Rightarrow> string \<Rightarrow> string \<Rightarrow> bool" where
  here: "(n, File (Content t)) \<in> set es \<Longrightarrow> holds_file es n t"
| below: "(d, Dir es') \<in> set es \<Longrightarrow> holds_file es' n t \<Longrightarrow> holds_file es n t"

definition id_line :: "string \<Rightarrow> string \<Rightarrow> bool" where
  "id_line i l \<longleftrightarrow> (\<exists>a b c q. l = a @ ''- id:'' @ b @ q @ i @ q @ c \<and> list_all is_space (a @ b @ c)
     \<and> (q = [] \<or> q = [CHR 0x22] \<or> q = [CHR 0x27]))"

definition plain_rule_id :: "string \<Rightarrow> bool" where
  "plain_rule_id i \<longleftrightarrow> i \<noteq> [] \<and> list_all (\<lambda>c. \<not> is_space c \<and> c \<noteq> CHR 0x22 \<and> c \<noteq> CHR 0x27) i"

definition bundled_rule :: "dir_entries \<Rightarrow> string \<Rightarrow> bool" where
  "bundled_rule pack i \<longleftrightarrow> plain_rule_id i \<and> (\<exists>n t l. holds_file pack n t \<and> (endswith n ''.yaml'' \<or> endswith n ''.yml'')
     \<and> l \<in> set (split_lines t) \<and> id_line i l)"

lemma entries_of: "set (all_entries (Dir es)) = (\<Union>e \<in> set es. case snd e of
       File c \<Rightarrow> {(fst e, c)}
     | File_link _ (Some c) \<Rightarrow> {(fst e, c)}
     | File_link _ None \<Rightarrow> {(fst e, Os_error)}
     | x \<Rightarrow> insert (fst e, Os_error) (set (all_entries x)))"
  by (subst all_entries.simps(1)) (auto simp del: all_entries.simps split: fsnode.splits option.splits)

lemma file_found: "holds_file es n t \<Longrightarrow> (n, Content t) \<in> set (all_entries (Dir es))"
proof (induction rule: holds_file.induct)
  case (here n t es)
  then show ?case unfolding entries_of [of es] by (rule UN_I) simp
next
  case (below d es' es n t)
  from below.hyps(1) show ?case
    unfolding entries_of [of es] by (rule UN_I) (use below.IH in \<open>simp del: all_entries.simps\<close>)
qed

lemma dropWhile_trim: "list_all P a \<Longrightarrow> w \<noteq> [] \<Longrightarrow> \<not> P (hd w) \<Longrightarrow> dropWhile P (a @ w @ c) = w @ c"
  by (cases w) (simp_all add: dropWhile_append2 list_all_iff)

lemma rstrip_trim: "list_all P c \<Longrightarrow> w \<noteq> [] \<Longrightarrow> \<not> P (last w) \<Longrightarrow> rstrip_with P (w @ c) = w"
  using dropWhile_trim [of P "rev c" "rev w" "[]"] by (simp add: rstrip_with_def hd_rev)

lemma strip_trim:
  assumes "list_all is_space a" "list_all is_space c" "w \<noteq> []" "\<not> is_space (hd w)" "\<not> is_space (last w)"
  shows "strip (a @ w @ c) = w"
  using dropWhile_trim [of is_space a w c] rstrip_trim [of is_space c w] assms by (simp add: strip_def)

lemma strip_set_trim:
  assumes "list_all (\<lambda>x. x \<in> set cs) a" "list_all (\<lambda>x. x \<in> set cs) c" "w \<noteq> []" "hd w \<notin> set cs" "last w \<notin> set cs"
  shows "strip_set cs (a @ w @ c) = w"
  using dropWhile_trim [of "\<lambda>x. x \<in> set cs" a w c] rstrip_trim [of "\<lambda>x. x \<in> set cs" c w] assms
  by (simp add: strip_set_def lstrip_set_def)

lemma id_line_read:
  assumes "id_line i l" "plain_rule_id i"
  shows "startswith (strip l) ''- id:'' \<and> rule_id_text l = i"
proof -
  obtain a b c q where l: "l = a @ ''- id:'' @ b @ q @ i @ q @ c" and sp: "list_all is_space a" "list_all is_space b" "list_all is_space c"
    and q: "q = [] \<or> q = [CHR 0x22] \<or> q = [CHR 0x27]"
    using assms(1) by (auto simp: id_line_def)
  have i: "i \<noteq> []" "\<not> is_space (hd i)" "\<not> is_space (last i)" "hd i \<notin> {CHR 0x22, CHR 0x27}" "last i \<notin> {CHR 0x22, CHR 0x27}"
    using assms(2) by (auto simp: plain_rule_id_def list_all_iff)
  have qi: "q @ i @ q \<noteq> []" "\<not> is_space (hd (q @ i @ q))" "\<not> is_space (last (q @ i @ q))"
    using q i by (auto simp: is_space_def code_in_def)
  have "strip (a @ (''- id:'' @ b @ q @ i @ q) @ c) = ''- id:'' @ b @ q @ i @ q"
    by (rule strip_trim) (use sp qi in \<open>auto simp: is_space_def code_in_def split: if_splits\<close>)
  then have s: "strip l = ''- id:'' @ b @ q @ i @ q" by (simp add: l)
  have "strip (b @ (q @ i @ q) @ []) = q @ i @ q"
    by (rule strip_trim) (use sp qi in auto)
  then have "rule_id_text l = strip_set [CHR 0x22, CHR 0x27] (q @ i @ q)"
    by (simp add: rule_id_text_def s)
  also have "\<dots> = i"
    by (rule strip_set_trim) (use q i in auto)
  finally show ?thesis using s by (simp add: startswith_def)
qed

lemma those_member: "those xs = Some ys \<Longrightarrow> Some y \<in> set xs \<Longrightarrow> y \<in> set ys"
  by (induction xs arbitrary: ys) (auto split: option.splits)

lemma bundled_rule_own:
  assumes "harness_pack_rule_ids lossy pack = Some own" "bundled_rule pack i"
  shows "i \<in> set own"
proof -
  obtain n t l where f: "holds_file pack n t" "endswith n ''.yaml'' \<or> endswith n ''.yml''" "l \<in> set (split_lines t)" "id_line i l"
    and i: "plain_rule_id i" using assms(2) by (auto simp: bundled_rule_def)
  obtain ws where ws: "those (map (ids_of_file lossy) (all_entries (Dir pack))) = Some ws" and own: "own = concat ws"
    using assms(1) by (auto simp: harness_pack_rule_ids_def)
  have "i \<in> set (map rule_id_text (id_lines t))"
    using f(3) id_line_read [OF f(4) i] by (force simp: id_lines_def)
  moreover have "ids_of_file lossy (n, Content t) = Some (map rule_id_text (id_lines t))"
    using f(2) by (simp add: ids_of_file_def)
  ultimately show ?thesis
    using those_member [OF ws, of "map rule_id_text (id_lines t)"] file_found [OF f(1)] own
    by (metis UN_I image_eqI set_concat set_map)
qed

lemma bundled_rule_reported:
  assumes sd: "fst (scan_rules (se_rules E) sources supps cache) = Inr sd" "distinct (map su_name supps)"
    "\<forall>s \<in> set supps. su_rules s \<noteq> []"
    and given: "load_rule_allowlist (se_files E) rule_allow = Inr given" and allow: "scan_allow E sd given = Inr allow"
    and i: "\<not> truthy rule_allow" "bundled_rule (re_pack (se_rules E)) i"
  shows "reportable E rule_allow supps (sd_applied sd) i"
proof (cases "sd_allow sd = []")
  case True
  with scan_rules_allow [OF sd(1,2)] sd(3) have "sd_applied sd = []" by auto
  with i(1) show ?thesis by (simp add: reportable_def)
next
  case False
  with allow load_allow_given [OF given] i(1) obtain own where "harness_pack_rule_ids (se_lossy E) (re_pack (se_rules E)) = Some own"
    by (auto simp: scan_allow_def split: option.splits)
  with bundled_rule_own [OF this i(2)] i(1) show ?thesis
    by (auto simp: reportable_def own_rule_def)
qed

text \<open>
  C3. What a scan reports. When the names of the supplemental packs differ, as keys do, a scan that
  returns has run the engine once, on the rules it resolved, and its findings are, in order, those of
  exactly the results whose rule may be reported: with an explicit allowlist the rules it lists; else all
  of them as long as no supplement is applied, and with supplements the rules listed for an applied pack and the
  ids the code collects from the bundled pack (with a comment after an id taken into the id, see below). Without an explicit
  allowlist a supplement therefore hides no result of a rule whose id stands alone on its \<open>- id:\<close> line in
  a \<open>.yaml\<close> or \<open>.yml\<close> file anywhere below the bundled pack, quoted or not.
  A supplement is only applied when no sources were given. A result is marked as exempted
  by the target exactly when its matched text, or a line from the one above it to its last, carries the
  comment, and it is reported all the same.
\<close>

theorem scan_reports_exactly:
  assumes "opengrep_scan E sources rule_allow packs cache = Inr a"
    and "distinct (map fst (pack_entries packs))"
  shows "\<exists>raw r. execute_opengrep_scan E sources rule_allow packs cache = Inr r
    \<and> se_run E (scan_command (se_bin E) (path_text (fv_target (se_view E))) (or_rules r)) = Ran raw
    \<and> ar_findings a = map (\<lambda>g. fact_finding (fact_of (se_view E) g))
        (filter (\<lambda>g. reportable E rule_allow (load_supplemental_packs packs) (or_applied r)
           (fa_rule_id (fact_of (se_view E) g))) (go_results raw))
    \<and> (\<forall>g \<in> set (go_results raw). \<not> truthy rule_allow \<and> bundled_rule (re_pack (se_rules E)) (fa_rule_id (fact_of (se_view E) g)) \<longrightarrow>
         fact_finding (fact_of (se_view E) g) \<in> set (ar_findings a))
    \<and> (sources \<noteq> [] \<longrightarrow> or_applied r = [])
    \<and> (\<forall>g \<in> set (go_results raw). fa_nosem_marked (fact_of (se_view E) g) \<longleftrightarrow>
         has_nosem (or_str (gr_lines g) []) \<or> marked_in_target (se_view E) g)"
proof -
  from assms(1) obtain r where r: "execute_opengrep_scan E sources rule_allow packs cache = Inr r"
    and a: "ar_findings a = map fact_finding (or_facts r)"
    by (auto simp: opengrep_scan_def build_adapter_result_def)
  from r obtain sd raw given allow v c where
    sd: "fst (scan_rules (se_rules E) sources (load_supplemental_packs packs) cache) = Inr sd"
    and raw: "tool_output (se_run E (scan_command (se_bin E) (path_text (fv_target (se_view E))) (sd_rules sd))) = Inr raw"
    and given: "load_rule_allowlist (se_files E) rule_allow = Inr given" and allow: "scan_allow E sd given = Inr allow"
    and rep: "r = report_of E sd raw allow v c"
    by (auto simp: execute_opengrep_scan_def)
  note applied = scan_rules_allow [OF sd distinct_loaded [OF assms(2)]]
  have facts: "or_facts r = filter (\<lambda>f. reportable E rule_allow (load_supplemental_packs packs) (sd_applied sd) (fa_rule_id f))
      (map (fact_of (se_view E)) (go_results raw))"
    unfolding rep report_of_fields
    by (rule scan_allow_reportable [OF sd distinct_loaded [OF assms(2)] _ given allow]) (simp add: supplements_have_rules)
  have findings: "ar_findings a = map (\<lambda>g. fact_finding (fact_of (se_view E) g))
      (filter (\<lambda>g. reportable E rule_allow (load_supplemental_packs packs) (or_applied r)
         (fa_rule_id (fact_of (se_view E) g))) (go_results raw))"
    unfolding a facts by (simp add: rep report_of_fields filter_map comp_def)
  have bundled: "reportable E rule_allow (load_supplemental_packs packs) (or_applied r) i"
    if "\<not> truthy rule_allow" "bundled_rule (re_pack (se_rules E)) i" for i
    using bundled_rule_reported [OF sd distinct_loaded [OF assms(2)] _ given allow that]
    by (simp add: supplements_have_rules rep report_of_fields)
  have "se_run E (scan_command (se_bin E) (path_text (fv_target (se_view E))) (or_rules r)) = Ran raw"
    using raw by (auto simp: tool_output_def rep report_of_fields split: tool_run.splits)
  moreover have "fa_nosem_marked (fact_of (se_view E) g) = nosem_marked (se_view E) g" for g
    by (simp add: fact_of_def Let_def)
  moreover have "\<forall>g \<in> set (go_results raw). \<not> truthy rule_allow \<and> bundled_rule (re_pack (se_rules E)) (fa_rule_id (fact_of (se_view E) g)) \<longrightarrow>
      fact_finding (fact_of (se_view E) g) \<in> set (ar_findings a)"
    using bundled by (auto simp: findings)
  ultimately show ?thesis
    using r applied findings by (intro exI [of _ raw] exI [of _ r]) (simp add: rep report_of_fields nosem_marked_iff)
qed

text \<open>A scan with a supplement: an own rule, a listed rule and one that is not listed match.\<close>

definition demo_result :: "string \<Rightarrow> og_result" where
  "demo_result check = \<lparr>gr_check_id = Some check, gr_path = ''/t/a.go'', gr_start = 2, gr_end = 2, gr_severity = ''ERROR'',
     gr_message = None, gr_lines = None, gr_cwe = No_tags, gr_owasp = No_tags, gr_owasp_llm = No_tags, gr_confidence = None,
     gr_trace = False\<rparr>"

definition demo_output :: og_output where
  "demo_output = \<lparr>go_results = map demo_result [''go.own'', ''x.extra'', ''x.other''], go_errors = [], go_scanned = 1, go_skipped_rules = 0\<rparr>"

definition demo_pack :: dir_entries where
  "demo_pack = [(''go'', Dir [(''r.yaml'', File (Content ''  - id: own''))])]"

definition demo_scan :: scan_env where
  "demo_scan = \<lparr>se_rules = rules_env_a\<lparr>re_pack := demo_pack, re_local := Some\<rparr>,
     se_view = \<lparr>fv_target = [''t''], fv_resolve = (\<lambda>_. [''t'', ''a.go'']), fv_lines = (\<lambda>_. None)\<rparr>,
     se_bin = ''opengrep'', se_run = (\<lambda>_. Ran demo_output), se_version = ''1.0'', se_lossy = id, se_files = (\<lambda>_. None),
     se_coverage_pack = demo_pack\<rparr>"

definition demo_packs :: "(string \<times> pack_cfg option) list option" where
  "demo_packs = Some [(''sup'', Some \<lparr>pc_enabled = True, pc_rules = [''extra''], pc_source = ''/sup''\<rparr>)]"

lemma demo_scanned:
  "\<exists>a. opengrep_scan demo_scan [] None demo_packs Map.empty = Inr a \<and> map af_category (ar_findings a) = [''own'', ''extra'']"
proof -
  have "(case opengrep_scan demo_scan [] None demo_packs Map.empty of
      Inr a \<Rightarrow> map af_category (ar_findings a) | Inl e \<Rightarrow> []) = [''own'', ''extra'']"
    by code_simp
  then show ?thesis
    by (cases "opengrep_scan demo_scan [] None demo_packs Map.empty") auto
qed

theorem scan_reports_exactly_witness:
  "\<exists>(a :: adapter_result) (raw :: og_output) (r :: og_report). map af_category (ar_findings a) = [''own'', ''extra'']
    \<and> execute_opengrep_scan demo_scan [] None demo_packs Map.empty = Inr r
    \<and> se_run demo_scan (scan_command (se_bin demo_scan) (path_text (fv_target (se_view demo_scan))) (or_rules r)) = Ran raw
    \<and> ar_findings a = map (\<lambda>g. fact_finding (fact_of (se_view demo_scan) g))
        (filter (\<lambda>g. reportable demo_scan None (load_supplemental_packs demo_packs) (or_applied r)
           (fa_rule_id (fact_of (se_view demo_scan) g))) (go_results raw))"
proof -
  obtain a where a: "opengrep_scan demo_scan [] None demo_packs Map.empty = Inr a"
    and cats: "map af_category (ar_findings a) = [''own'', ''extra'']"
    using demo_scanned by metis
  have "distinct (map fst (pack_entries demo_packs))"
    by (simp add: pack_entries_def demo_packs_def)
  from cats scan_reports_exactly [OF a this] show ?thesis
    by (elim exE conjE) (intro exI conjI, assumption+)
qed

section \<open>Divergences\<close>

text \<open>A supplement whose clone fails ends the default scan, unlike one that is refused.\<close>

lemma failed_clone_ends_scan:
  "fst (scan_rules (rules_env_a\<lparr>re_git := \<lparr>gt_clone = (\<lambda>_. None), gt_checkout = (\<lambda>_ _. None)\<rparr>\<rparr>) []
      [\<lparr>su_name = ''sup'', su_source = source_a, su_rules = [''extra'']\<rparr>] Map.empty) = Inl Git_failed"
  by code_simp

lemma refused_supplement_is_skipped:
  "map_sum id sd_skipped (fst (scan_rules rules_env_a []
      [\<lparr>su_name = ''sup'', su_source = ''https://h/r@main'', su_rules = [''extra'']\<rparr>] Map.empty)) =
     Inr [(''sup'', Movable_ref ''https://h/r@main'')]"
  by code_simp

text \<open>A comment after the id of a rule is taken into the id, which then matches no result.\<close>

lemma comment_kept_in_rule_id:
  "harness_pack_rule_ids id [(''r.yaml'', File (Content ''- id: own # kept''))] = Some [''own # kept'']"
  by code_simp

end
