(* ===== verification/Spec2Isabelle.thy ===== *)
theory Spec2Isabelle
  imports Osv_Ranges Scope_Gate Soundness_Gate Safe_Exec Disposition Ledger_Service History Sla Elf_Image Patches
    Portfolio_Fetch Report_Validate Compliance_Scope Redact Escaping Cvss Manifest_Dispatch Precedent
    Report_Strict Registry_Products Sweep_Run Sweep_Lane
    Threat_Render Sarif Opengrep
begin

text \<open>
  The program is the engine of a security-audit service: a Python package (\<open>src/src/traust_engine\<close>) that
  keeps the identity of findings over repeated audits, replays the decisions people took on them,
  measures them against deadlines, checks every report before it is accepted, decides which
  vulnerable versions concern which repositories, guards the commands and the targets of live
  validation, reads dependency manifests, and keeps secrets and markup out of what it writes. This development models the decisions of those parts; what surrounds them (SQL, HTTP,
  files, processes, rendering) enters as arguments of the definitions.

  \<^bold>\<open>How the parts interact.\<close> An audit report gets fingerprints from the identity tool
  (\<open>_util/finding_identity.py\<close>), is checked (\<open>reporting/validate.py\<close>), and its findings are matched with those
  of the previous audit; a rebaseline writes aliases into the disposition layer, which the ledger
  service keeps (\<open>ledger/service.py\<close>) and the replay resolves (\<open>corpus/disposition.py\<close>) into a cumulative report,
  from which the SLA view (\<open>metrics/sla.py\<close>) and the metrics journal (\<open>metrics/history.py\<close>) are computed. An
  advisory is resolved to version spans (\<open>osv/ranges.py\<close>, \<open>impact/advisory.py\<close>); the portfolio graph
  (\<open>portfolio/graph.py\<close>) gives the repositories that depend on the module, and the impact analysis
  (\<open>impact/analyzer.py\<close>) gathers evidence in each and classifies it. Live validation runs only what the
  scope (\<open>validation/scope.py\<close>) and the vetting of commands (\<open>_util/safe_exec.py\<close>) let through, and a refutation
  is emitted only if the soundness gate (\<open>validation/soundness.py\<close>) agrees; refutations that stand become
  precedents (\<open>corpus/precedent.py\<close>), which the gate checks again.

  \<^bold>\<open>The theories.\<close> \<open>Prelude\<close>: strings, dictionaries (a locale, interpreted on association lists and on maps),
  errors as sums, sorting. \<open>Py_Regex\<close>, \<open>Py_Glob\<close>, \<open>Py_Shlex\<close>, \<open>Py_Json\<close>, \<open>Py_Date\<close>, \<open>Py_Datetime\<close>: what the
  program uses of Python's library, translated from its documented behaviour, with the lemmas that
  relate the backtracking matcher to the language of an expression and the text of a JSON value to
  the value. Then one theory per component, in the order of their use:

  \<^item> \<open>Versions\<close>, \<open>Osv_Ranges\<close>, \<open>Applicability\<close>, \<open>Patches\<close>, \<open>Advisory\<close>: version tuples, spans, fixes, candidates
    below a range, the reader of unified diffs, resolved advisories.
  \<^item> \<open>Scope_Gate\<close>, \<open>Soundness_Gate\<close>, \<open>Safe_Exec\<close>: what live validation may touch, emit and run.
  \<^item> \<open>Finding_Identity\<close>, \<open>Disposition\<close>, \<open>Ledger_Service\<close>, \<open>History\<close>, \<open>Sla\<close>: identities over audits, the replay,
    the gateway to the ledger with its locale of bindings, the hash chain, the clocks.
  \<^item> \<open>Elf\<close>, \<open>Elf_Image\<close>: the reader of ELF files on 8-bit words, and a reference writer it is read back from.
  \<^item> \<open>Govulncheck\<close>, \<open>Portfolio_Graph\<close>, \<open>Portfolio_Fetch\<close>, \<open>Impact_Evidence\<close>, \<open>Impact_Tiers\<close>, \<open>Impact_Analysis\<close>:
    result streams reduced to candidates, the graph with its layers and the blast radius, the
    fetching under a rate limit, and the analysis of a blast radius.
  \<^item> \<open>Report_Checks\<close>, \<open>Report_Audit\<close>, \<open>Report_Layer\<close>, \<open>Report_Triage\<close>, \<open>Report_Verification\<close>, \<open>Report_Impact\<close>,
    \<open>Report_Validate\<close>, \<open>Report_Strict\<close>: the checks of every kind of report, the choice among them, and those of
    the strict mode, which scan for secrets with \<open>Redact\<close>.
  \<^item> \<open>Corpus_Walk\<close>, \<open>Corpus_Resolver\<close>: the population of reports (\<open>corpus/resolver.py\<close>) over a tree of directories,
    files and links: what is a report, what a record says of it, who owns a shared cumulative report.
  \<^item> \<open>Sweep_Mining\<close>, \<open>Sweep_Collect\<close>, \<open>Sweep_Run\<close>: rules generalised from confirmed findings: the corpus of
    those findings and what the rule pack covers (\<open>sweep/mining.py\<close>), and the stages collect, draft, sweep and
    emit (\<open>sweep/engine.py\<close>) over the resolved corpus. \<open>Sweep_Lane\<close>: calibration of packs and the weekly lane over
    two mining results (\<open>sweep/calibration.py\<close>, \<open>sweep/rule_lane.py\<close>).
  \<^item> \<open>Opengrep_Rules\<close>, \<open>Opengrep\<close>: the pre-scan with rules (\<open>adapters/opengrep.py\<close>): the sources of rules and the
    cache of their clones, the supplements and allowlists, and what is reported of the engine's output.
  \<^item> \<open>Threat_Rating\<close>, \<open>Threat_Table\<close>, \<open>Threat_Lint\<close>, \<open>Threat_Render\<close>: threat models: the cells of a rated threat
    (\<open>reporting/threat_rating.py\<close>), sections and tables in Markdown, the check of a model (\<open>reporting/lint.py\<close>), its
    rendering (\<open>render_threat_model\<close> of \<open>reporting/render.py\<close>) and the ingest of the rendered text (\<open>corpus/threat_model.py\<close>).
  \<^item> \<open>Sarif\<close>: the projection of a report and its dispositions to a SARIF run (\<open>reporting/sarif.py\<close>).
  \<^item> \<open>Precedent\<close>: the cache of refutations later audits may cite (\<open>corpus/precedent.py\<close>), on the soundness gate.
  \<^item> \<open>Registry_Products\<close>: the owners of a package or repository in the product registry
    (\<open>registry/products.py\<close>), with the contacts that are cleared for embargoed findings.
  \<^item> \<open>Compliance_Scope\<close>: the repositories of a compliance boundary (\<open>compliance/scope.py\<close>).
  \<^item> \<open>Redact\<close>, \<open>Escaping\<close>: secrets taken out of a text (\<open>_util/redact.py\<close>), and a text put into HTML, script data,
    Markdown or a spreadsheet (\<open>escaping.py\<close>), both on \<open>Py_Text\<close>, the replacing and cutting of texts.
  \<^item> \<open>Cvss\<close>: base scores in exact rationals (\<open>osv/cvss.py\<close>).
  \<^item> \<open>Manifest_Lines\<close>, \<open>Manifest_Build\<close>, \<open>Manifest_Data\<close>, \<open>Manifest_Names\<close>, \<open>Manifest_Dispatch\<close>: the parsers of
    dependency manifests (\<open>portfolio/parsers.py\<close>): line formats, build files, parsed JSON, TOML and XML,
    the normal form of names, and the choice of the parser.

  The definitions carry the names of the functions they translate, without a leading underscore; the
  fields of a record carry a prefix of their own. A raise is the left side of a sum or \<open>None\<close>; a message
  is a constructor with its parameters. What is asked of the outside is a field of a record of
  functions (\<open>recipe\<close>, \<open>client\<close>, \<open>procs\<close>, \<open>checkout\<close>, \<open>ledger_lib\<close>) or an argument.

  \<^bold>\<open>What is shown.\<close> For gates and checks: exactly what they accept, or what everything they accept
  satisfies (\<open>grants_exact\<close>, \<open>validated_argv_iff\<close>, \<open>refuted_emittable\<close>, the \<open>accepted_\<close> theorems). For stores: the
  invariants of every operation, and that one service never touches another's layer. For the identity
  of findings: matching is one to one and justified, no bulk run moves an identity, and history
  follows a fingerprint, which spans matching, rebaselining and the replay. For the analysis of a blast radius: no
  verdict without its evidence, every repository in the artifact once, and independence of the order
  in which concurrent scans complete. For routines with a plain specification: equality with it or
  optimality (\<open>fixed_for_best\<close>, \<open>anchor_is_best\<close>, \<open>digest_is_most_urgent\<close>). For what is
  written: escaped texts cannot leave their place (\<open>script_data_inert\<close>, \<open>markdown_contained\<close>), and the scan for
  secrets agrees with their redaction. For manifests: names are in normal form, base images are exact, and
  pins read back. For the corpus: every report
  is counted once, and a cumulative report has one owner. For sweeps: the classes and the backlog account for
  every confirmed finding, a sweep can be stopped and continued, and its candidates are the scans'. For precedents: every one rests on a determination that stands, and every match on a
  reason that holds. Where one part writes
  what another reads, the two are tied: \<open>annotated_report_identified\<close>, \<open>artifact_validates_iff\<close>, \<open>library_names_read_back\<close>, and for
  threat models \<open>threat_reads_back\<close> and \<open>ingest_reads_rendered\<close>, beside the exact check \<open>lint_accepts_exactly\<close>.

  \<^bold>\<open>Fuel and bounds.\<close> The matcher repeats a step at most once per character left, which \<open>run_iff\<close> shows to be
  enough because no repeated expression matches the empty text (\<open>rx_ok\<close>). Resolving an alias carries the
  set of ids seen, so it ends on cycles (\<open>resolve_ends\<close>, stated on the entries of the layer). The wait under a rate limit is a
  \<open>partial_function\<close>, and \<open>pause_is_bounded\<close> computes that it ends after at most seven probes. Every other
  recursion is structural or has a measure. ELF fields are read at their width; all other integers of
  the program are unbounded.

  \<^bold>\<open>Limits of the model.\<close> Characters are the code points below 256. Documents that passed a schema are records:
  fields the schema requires are present. Python sets that are only iterated in sorted order are
  sorted lists. Timeouts, signals and the interleaving of processes are outcomes of a run, not time.

  \<^bold>\<open>Not modelled.\<close> SQL and database migration, HTTP clients and caches, the rendering of reports and dashboards,
  adapters that run a scanner and rename the fields of its output, command lines and wiring, because
  they decide nothing beyond what their libraries do; the JSON schema validator, the fingerprint
  recipe and the ledger client, because they are other packages.
\<close>

section \<open>Rebaselining and the replay\<close>

text \<open>
  The key a rebaseline writes for an old id is the one the replay finds for the id: the id itself, for an id in the
  canonical form; for another form, the only key with a namespace and this id, and none is the id itself.
\<close>

definition key_found :: "aliases \<Rightarrow> string \<Rightarrow> string \<Rightarrow> bool" where
  "key_found raw slug fid \<longleftrightarrow> re_match CANONICAL_FINDING_ID fid \<noteq> None
     \<or> fid \<notin> fst ` set raw \<and> id_part (slug @ '':'' @ fid) = fid
        \<and> length (filter (\<lambda>(k, a). CHR '':'' \<in> set k \<and> id_part k = fid) raw) = 1"

lemma key_found_step:
  assumes "key_found raw slug fid" and "map_of raw (alias_key slug fid) = Some a" and "a_confirmed a"
  shows "alias_step raw fid (m_new (a_match a))"
proof (cases "re_match CANONICAL_FINDING_ID fid = None")
  case False
  with assms(2,3) show ?thesis by (intro alias_step.own [of raw fid a]) (simp_all add: alias_key_def del: not_None_eq)
next
  case True
  then have key: "alias_key slug fid = slug @ '':'' @ fid" by (simp add: alias_key_def)
  have own: "fid \<notin> fst ` set raw" "id_part (slug @ '':'' @ fid) = fid"
    and len: "length (filter (\<lambda>(k, a). CHR '':'' \<in> set k \<and> id_part k = fid) raw) = 1"
    using assms(1) True by (simp_all add: key_found_def)
  have "(slug @ '':'' @ fid, a) \<in> set (filter (\<lambda>(k, a). CHR '':'' \<in> set k \<and> id_part k = fid) raw)"
    using map_of_SomeD [OF assms(2)] own(2) by (simp add: key)
  with len have "filter (\<lambda>(k, a). CHR '':'' \<in> set k \<and> id_part k = fid) raw = [(slug @ '':'' @ fid, a)]"
    by (cases "filter (\<lambda>(k, a). CHR '':'' \<in> set k \<and> id_part k = fid) raw") auto
  from alias_step.namespaced [OF own(1) this assms(3) refl] show ?thesis .
qed

text \<open>
  C37. History follows a fingerprint. When a rebaseline maps an old finding to a new one by equal
  fingerprints and its key was not settled before, the old id leads to the new one by a confirmed alias of the new layer; and
  unless the aliases lead from the old id back to itself by way of other ids, the replay resolves it to what it resolves the new id to
  (the new id itself, or where later aliases lead), so that the old finding's events, in their order, are all among those
  its successor's disposition is derived from. This holds for ids in the canonical form, and for others whose key the replay
  finds; ids of two audits that share a form such as \<open>FIND-001\<close> may not be found.
\<close>

theorem history_follows_fingerprint:
  assumes "distinct (map f_id (r_findings old))"
    and "(fid, m) \<in> set (mapped (match_findings R old new))" and "m_by m = ''fingerprint''"
    and "\<not> settled L (alias_key (old_slug (rb_old B)) fid)"
    and "key_found (l_aliases (fst (rebaseline R B old new L))) (old_slug (rb_old B)) fid"
    and "fid = m_new m \<or> \<not> (alias_step (l_aliases (fst (rebaseline R B old new L))))\<^sup>+\<^sup>+ fid fid"
  shows "alias_step (l_aliases (fst (rebaseline R B old new L))) fid (m_new m)
    \<and> resolve (l_aliases (fst (rebaseline R B old new L))) fid = resolve (l_aliases (fst (rebaseline R B old new L))) (m_new m)
    \<and> filter (\<lambda>e. e_ref e = fid) (own_events (layer.extend (fst (rebaseline R B old new L)) \<lparr>l_events = evs\<rparr>)
          (resolve (l_aliases (fst (rebaseline R B old new L))) (m_new m)))
      = filter (\<lambda>e. e_ref e = fid) evs"
proof -
  let ?L = "fst (rebaseline R B old new L)"
  have "distinct (map fst (mapped (match_findings R old new)))"
    using match_state_ok [OF assms(1), of new R]
    by (simp add: match_findings_def Let_def matched_ok_def)
  then have "map_of (l_aliases ?L) (alias_key (old_slug (rb_old B)) fid) = Some \<lparr>a_match = m, a_mapped_at = rb_now B,
      a_from = rb_old B, a_confirmed = True, a_rejected = False\<rparr>"
    unfolding rebaseline_aliases by (rule fold_propose_confirms [OF assms(2) _ assms(3,4)])
  from key_found_step [OF assms(5) this] have step: "alias_step (l_aliases ?L) fid (m_new m)" by simp
  from resolve_past [OF step assms(6)]
  have r: "resolve (l_aliases ?L) fid = resolve (l_aliases ?L) (m_new m)" .
  have "l_aliases (layer.extend ?L \<lparr>l_events = evs\<rparr>) = l_aliases ?L"
    "l_events (layer.extend ?L \<lparr>l_events = evs\<rparr>) = evs"
    by (simp_all add: layer.defs)
  then show ?thesis
    using step r by (simp add: own_events_def) (rule filter_cong, auto)
qed

abbreviation canon_old :: report where
  "canon_old \<equiv> demo_report [demo_f ''AB-0123456-001'' ''a.py'']"

abbreviation canon_new :: report where
  "canon_new \<equiv> demo_report [demo_f ''AB-0123456-002'' ''a.py'']"

lemma canon_id: "re_match CANONICAL_FINDING_ID ''AB-0123456-001'' \<noteq> None"
  by code_simp

lemma canon_rebased:
  "l_aliases (fst (rebaseline demo_recipe demo_rebase canon_old canon_new empty_layer))
     = [(''AB-0123456-001'', \<lparr>a_match = demo_mtch ''AB-0123456-002'', a_mapped_at = ''2026'',
        a_from = ''old-security-audit.json'', a_confirmed = True, a_rejected = False\<rparr>)]"
  using canon_id
  by (simp add: rebaseline_aliases demo_match_ids propose_def Let_def demo_rebase_def alias_key_def
      settled_def empty_layer_def del: not_None_eq)

theorem history_follows_fingerprint_witness:
  "alias_step (l_aliases (fst (rebaseline demo_recipe demo_rebase canon_old canon_new empty_layer)))
      ''AB-0123456-001'' ''AB-0123456-002''
    \<and> resolve (l_aliases (fst (rebaseline demo_recipe demo_rebase canon_old canon_new empty_layer)))
        ''AB-0123456-001'' = resolve (l_aliases (fst (rebaseline demo_recipe demo_rebase canon_old canon_new empty_layer)))
        ''AB-0123456-002''"
proof -
  let ?A = "l_aliases (fst (rebaseline demo_recipe demo_rebase canon_old canon_new empty_layer))"
  have steps: "alias_step ?A x y \<Longrightarrow> y = ''AB-0123456-002''" for x y
    by (auto simp: alias_step_simp canon_rebased demo_mtch_def split: if_splits)
  have "(alias_step ?A)\<^sup>+\<^sup>+ x y \<Longrightarrow> y = ''AB-0123456-002''" for x y
    by (induction rule: tranclp_induct) (auto dest: steps)
  then have "\<not> (alias_step ?A)\<^sup>+\<^sup>+ ''AB-0123456-001'' ''AB-0123456-001''" by fastforce
  then show ?thesis
    using history_follows_fingerprint [of canon_old "''AB-0123456-001''" "demo_mtch ''AB-0123456-002''"
        demo_recipe canon_new empty_layer demo_rebase "[]"] canon_id
    by (simp add: demo_match_ids settled_def empty_layer_def key_found_def del: not_None_eq)
qed

end
